(* ===== verification/Gateway_Prelude.thy ===== *)
theory Gateway_Prelude
  imports Complex_Main "HOL-Library.Multiset"
begin

text \<open>
  Shared vocabulary of the development.

  Instants (\<^verbatim>\<open>time.Time\<close>) are integers counting nanoseconds from Go's zero instant, so the
  zero value \<^verbatim>\<open>time.Time{}\<close> is \<open>0\<close>; durations (\<^verbatim>\<open>time.Duration\<close>) are integers counting
  nanoseconds.  A call of \<^verbatim>\<open>time.Now()\<close> becomes an argument \<open>now\<close> of the operation that makes
  it.  \<^verbatim>\<open>float64\<close> quantities are exact rationals (IEEE rounding is not modelled).  A method that
  runs under one mutex is one atomic function on the state; a method that releases and retakes
  its mutex is split into the steps between the releases.

  Two small locales carry the inductions over runs: \<open>step_system\<close> for operation sequences
  without a clock, \<open>timed_system\<close> for sequences whose timestamps never decrease.
\<close>

type_synonym time = int
type_synonym duration = int
type_synonym float64 = rat

named_theorems gw_defs \<open>definitions of the atomic operations of the components\<close>

abbreviation (input) zero_time :: time where "zero_time \<equiv> 0"

definition second :: duration where
  "second = 1000000000"

definition minute :: duration where
  "minute = 60 * second"

lemma second_pos [simp]: "0 < second"
  by (simp add: second_def)

lemma minute_pos [simp]: "0 < minute"
  by (simp add: minute_def)

section \<open>Runs of operations\<close>

primrec run_steps :: "('s \<Rightarrow> 'e \<Rightarrow> 's) \<Rightarrow> 's \<Rightarrow> 'e list \<Rightarrow> 's" where
  "run_steps step s [] = s"
| "run_steps step s (e # es) = run_steps step (step s e) es"

lemma run_steps_append [simp]:
  "run_steps step s (xs @ ys) = run_steps step (run_steps step s xs) ys"
  by (induction xs arbitrary: s) simp_all

text \<open>Timestamps of a run: never earlier than the instant before.\<close>

primrec chronological :: "time \<Rightarrow> (time \<times> 'e) list \<Rightarrow> bool" where
  "chronological t [] = True"
| "chronological t (x # xs) = (t \<le> fst x \<and> chronological (fst x) xs)"

primrec last_time :: "time \<Rightarrow> (time \<times> 'e) list \<Rightarrow> time" where
  "last_time t [] = t"
| "last_time t (x # xs) = last_time (fst x) xs"

lemma last_time_append [simp]: "last_time t (xs @ ys) = last_time (last_time t xs) ys"
  by (induction xs arbitrary: t) simp_all

lemma chronological_append [simp]:
  "chronological t (xs @ ys) = (chronological t xs \<and> chronological (last_time t xs) ys)"
  by (induction xs arbitrary: t) simp_all

lemma last_time_ge: "chronological t xs \<Longrightarrow> t \<le> last_time t xs"
  by (induction xs arbitrary: t) force+

locale step_system =
  fixes step :: "'s \<Rightarrow> 'e \<Rightarrow> 's" and inv :: "'s \<Rightarrow> bool"
  assumes step_inv: "inv s \<Longrightarrow> inv (step s e)"
begin

lemma run_inv: "inv s \<Longrightarrow> inv (run_steps step s es)"
  by (induction es arbitrary: s) (simp_all add: step_inv)

end

locale timed_system =
  fixes tstep :: "'s \<Rightarrow> time \<times> 'e \<Rightarrow> 's" and tinv :: "time \<Rightarrow> 's \<Rightarrow> bool"
  assumes tstep_inv: "tinv t s \<Longrightarrow> t \<le> t' \<Longrightarrow> tinv t' (tstep s (t', e))"
begin

lemma trun_inv:
  "tinv t s \<Longrightarrow> chronological t es \<Longrightarrow> tinv (last_time t es) (run_steps tstep s es)"
proof (induction es arbitrary: t s)
  case (Cons x es)
  obtain t' e where x: "x = (t', e)" by (cases x)
  with Cons.prems have "tinv t' (tstep s x)" and "chronological t' es"
    by (simp_all add: tstep_inv)
  then show ?case using Cons.IH x by simp
qed simp

end

text \<open>A system whose invariant ignores the clock is a timed system.\<close>

sublocale step_system \<subseteq> timed: timed_system "\<lambda>s x. step s (snd x)" "\<lambda>_. inv"
  by unfold_locales (simp add: step_inv)

text \<open>
  The answers of an operation along a run, and the simulation that makes the answers of two implementations of the same
  operations equal: a relation between their states that every operation at a later instant keeps, with equal answers.
\<close>

primrec run_outputs :: "(time \<Rightarrow> 'e \<Rightarrow> 's \<Rightarrow> 's \<times> 'o) \<Rightarrow> 's \<Rightarrow> (time \<times> 'e) list \<Rightarrow> 'o list" where
  "run_outputs step s [] = []"
| "run_outputs step s (x # xs) =
     snd (step (fst x) (snd x) s) # run_outputs step (fst (step (fst x) (snd x) s)) xs"

locale timed_simulation =
  fixes cstep :: "time \<Rightarrow> 'e \<Rightarrow> 'c \<Rightarrow> 'c \<times> 'o" and astep :: "time \<Rightarrow> 'e \<Rightarrow> 'a \<Rightarrow> 'a \<times> 'o"
    and simrel :: "time \<Rightarrow> 'c \<Rightarrow> 'a \<Rightarrow> bool"
  assumes sim_step: "simrel t c a \<Longrightarrow> t \<le> t' \<Longrightarrow> simrel t' (fst (cstep t' e c)) (fst (astep t' e a))"
    and sim_out: "simrel t c a \<Longrightarrow> t \<le> t' \<Longrightarrow> snd (cstep t' e c) = snd (astep t' e a)"
begin

lemma outputs_eq:
  "simrel t c a \<Longrightarrow> chronological t evs \<Longrightarrow> run_outputs cstep c evs = run_outputs astep a evs"
proof (induction evs arbitrary: t c a)
  case (Cons x evs)
  then show ?case using sim_step [of t c a "fst x" "snd x"] sim_out [of t c a "fst x" "snd x"] by simp
qed simp

end

section \<open>Lists\<close>

lemma filter_length_le_take [simp]: "length (filter P xs) \<le> length xs"
  by (rule length_filter_le)

lemma sum_list_filter_le_nat:
  "sum_list (map f (filter P xs)) \<le> (sum_list (map f xs) :: nat)"
  by (induction xs) auto

lemma sum_list_nonneg_int:
  "(\<And>x. x \<in> set xs \<Longrightarrow> 0 \<le> f x) \<Longrightarrow> 0 \<le> (sum_list (map f xs) :: int)"
  by (induction xs) auto

section \<open>Go maps\<close>

text \<open>A read of an absent key yields the zero value of the element type.\<close>

definition get_int :: "('k \<Rightarrow> int option) \<Rightarrow> 'k \<Rightarrow> int" where
  "get_int m k = (case m k of None \<Rightarrow> 0 | Some v \<Rightarrow> v)"

definition get_str :: "('k \<Rightarrow> string option) \<Rightarrow> 'k \<Rightarrow> string" where
  "get_str m k = (case m k of None \<Rightarrow> '''' | Some v \<Rightarrow> v)"

definition get_rat :: "('k \<Rightarrow> float64 option) \<Rightarrow> 'k \<Rightarrow> float64" where
  "get_rat m k = (case m k of None \<Rightarrow> 0 | Some v \<Rightarrow> v)"

lemma get_simps [simp]:
  "get_int Map.empty k = 0" "get_int (m(k := v)) k' = (if k' = k then case_option 0 id v else get_int m k')"
  "get_str Map.empty k = ''''" "get_str (n(k := w)) k' = (if k' = k then case_option '''' id w else get_str n k')"
  "get_rat Map.empty k = 0" "get_rat (r(k := x)) k' = (if k' = k then case_option 0 id x else get_rat r k')"
  by (auto simp: get_int_def get_str_def get_rat_def split: option.splits)

text \<open>
  Go iterates a map in an unspecified order.  An operation that depends on it takes the order as a parameter \<open>it\<close>, a
  function on the list of entries that counts when it permutes them; so every value of \<open>it\<close> stands for some legal order.
\<close>

definition iterate :: "('e list \<Rightarrow> 'e list) \<Rightarrow> 'e list \<Rightarrow> 'e list" where
  "iterate it xs = (if mset (it xs) = mset xs then it xs else xs)"

lemma iterate_mset [simp]: "mset (iterate it xs) = mset xs"
  by (simp add: iterate_def)

lemma iterate_set [simp]: "set (iterate it xs) = set xs"
  by (metis iterate_mset set_mset_mset)

lemma iterate_distinct [simp]: "distinct (map f (iterate it xs)) = distinct (map f xs)"
  by (rule mset_eq_imp_distinct_iff) simp

section \<open>Go strings\<close>

text \<open>
  Strings are byte lists.  Case folding and space trimming follow the ASCII part of Go's
  \<^verbatim>\<open>strings.ToLower\<close> and \<^verbatim>\<open>strings.TrimSpace\<close>.
\<close>

definition to_lower :: "char \<Rightarrow> char" where
  "to_lower c = (let n = (of_char c :: nat) in if 65 \<le> n \<and> n \<le> 90 then char_of (n + 32) else c)"

definition ToLower :: "string \<Rightarrow> string" where
  "ToLower s = map to_lower s"

definition is_space :: "char \<Rightarrow> bool" where
  "is_space c = (let n = (of_char c :: nat) in n = 32 \<or> (9 \<le> n \<and> n \<le> 13))"

definition TrimSpace :: "string \<Rightarrow> string" where
  "TrimSpace s = rev (dropWhile is_space (rev (dropWhile is_space s)))"

fun HasPrefix :: "string \<Rightarrow> string \<Rightarrow> bool" where
  "HasPrefix s [] = True"
| "HasPrefix [] (p # ps) = False"
| "HasPrefix (c # s) (p # ps) = (c = p \<and> HasPrefix s ps)"

definition HasSuffix :: "string \<Rightarrow> string \<Rightarrow> bool" where
  "HasSuffix s p = HasPrefix (rev s) (rev p)"

fun Contains :: "string \<Rightarrow> string \<Rightarrow> bool" where
  "Contains [] p = (p = [])"
| "Contains (c # s) p = (HasPrefix (c # s) p \<or> Contains s p)"

definition TrimPrefix :: "string \<Rightarrow> string \<Rightarrow> string" where
  "TrimPrefix s p = (if HasPrefix s p then drop (length p) s else s)"

lemma HasPrefix_iff: "HasPrefix s p \<longleftrightarrow> (\<exists>r. s = p @ r)"
  by (induction s p rule: HasPrefix.induct) auto

lemma HasSuffix_iff: "HasSuffix s p \<longleftrightarrow> (\<exists>r. s = r @ p)"
  by (auto simp: HasSuffix_def HasPrefix_iff) (metis rev_append rev_rev_ident)

lemma Contains_iff: "Contains s p \<longleftrightarrow> (\<exists>l r. s = l @ p @ r)"
proof (induction s)
  case (Cons c s)
  then show ?case by (auto simp: HasPrefix_iff Cons_eq_append_conv)
qed simp

section \<open>Chains of rules\<close>

text \<open>
  A rule inspects and may update the state and either decides or passes.  A chain tries its rules in
  order; the state changes of passing rules are kept.
\<close>

fun first_decision :: "('s \<Rightarrow> 's \<times> 'd option) list \<Rightarrow> 's \<Rightarrow> 's \<times> 'd option" where
  "first_decision [] s = (s, None)"
| "first_decision (p # ps) s =
     (case p s of (s', Some d) \<Rightarrow> (s', Some d) | (s', None) \<Rightarrow> first_decision ps s')"

definition rule_keeps :: "('s \<Rightarrow> bool) \<Rightarrow> ('d \<Rightarrow> 's \<Rightarrow> bool) \<Rightarrow> ('s \<Rightarrow> 's \<times> 'd option) \<Rightarrow> bool" where
  "rule_keeps I Q p \<longleftrightarrow>
     (\<forall>s. I s \<longrightarrow> (case p s of (s', r) \<Rightarrow> I s' \<and> (\<forall>d. r = Some d \<longrightarrow> Q d s')))"

lemma rule_keepsD:
  "rule_keeps I Q p \<Longrightarrow> I s \<Longrightarrow> p s = (s', r) \<Longrightarrow> I s' \<and> (\<forall>d. r = Some d \<longrightarrow> Q d s')"
  by (fastforce simp: rule_keeps_def)

lemma first_decision_keeps:
  assumes "\<forall>p \<in> set ps. rule_keeps I Q p"
  shows "rule_keeps I Q (first_decision ps)"
proof -
  have "I s \<Longrightarrow> first_decision ps s = (s', r) \<Longrightarrow> I s' \<and> (\<forall>d. r = Some d \<longrightarrow> Q d s')" for s s' r
    using assms
  proof (induction ps arbitrary: s)
    case (Cons p ps)
    obtain t q where p: "p s = (t, q)" by (cases "p s")
    have k: "I t \<and> (\<forall>d. q = Some d \<longrightarrow> Q d t)" using rule_keepsD [of I Q p s t q] Cons.prems(1,3) p by simp
    show ?case
    proof (cases q)
      case None
      then show ?thesis using Cons.IH [of t] Cons.prems p k by simp
    next
      case (Some d)
      then show ?thesis using Cons.prems p k by simp
    qed
  qed simp
  then show ?thesis by (fastforce simp: rule_keeps_def)
qed

lemma fst_case_pair_option [simp]:
  "fst (case x of (s, None) \<Rightarrow> (s, f s) | (s, Some d) \<Rightarrow> (s, g s d)) = fst x"
  by (cases x) (simp split: option.splits)

lemma first_decision_append:
  "first_decision (ps @ qs) s =
     (case first_decision ps s of (s', Some d) \<Rightarrow> (s', Some d) | (s', None) \<Rightarrow> first_decision qs s')"
  by (induction ps arbitrary: s) (auto split: prod.splits option.splits)

section \<open>The last colon of a string\<close>

text \<open>What precedes and follows \<^verbatim>\<open>strings.LastIndex(s, ":")\<close>.\<close>

definition beforeLastColon :: "string \<Rightarrow> string" where
  "beforeLastColon s = rev (tl (dropWhile (\<lambda>c. c \<noteq> CHR '':'') (rev s)))"

definition afterLastColon :: "string \<Rightarrow> string" where
  "afterLastColon s = rev (takeWhile (\<lambda>c. c \<noteq> CHR '':'') (rev s))"

lemma while_until:
  "x \<notin> set xs \<Longrightarrow> takeWhile (\<lambda>c. c \<noteq> x) (xs @ x # ys) = xs"
  "x \<notin> set xs \<Longrightarrow> dropWhile (\<lambda>c. c \<noteq> x) (xs @ x # ys) = x # ys"
  by (induction xs) auto

lemma split_last_colon:
  assumes "CHR '':'' \<notin> set port"
  shows "afterLastColon (host @ '':'' @ port) = port" "beforeLastColon (host @ '':'' @ port) = host"
proof -
  have "takeWhile (\<lambda>c. c \<noteq> CHR '':'') (rev (host @ '':'' @ port)) = rev port"
    using assms by (simp add: while_until)
  moreover have "dropWhile (\<lambda>c. c \<noteq> CHR '':'') (rev (host @ '':'' @ port)) = '':'' @ rev host"
    using assms by (simp add: while_until)
  ultimately show "afterLastColon (host @ '':'' @ port) = port" "beforeLastColon (host @ '':'' @ port) = host"
    by (simp_all add: afterLastColon_def beforeLastColon_def)
qed

section \<open>Decimal numbers\<close>

text \<open>
  Printing with \<^verbatim>\<open>%d\<close> and reading with \<^verbatim>\<open>strconv.Atoi\<close>: an optional sign, at least one digit, and a value in the
  range of a 64-bit integer.
\<close>

definition dec_digit :: "nat \<Rightarrow> char" where
  "dec_digit d = char_of (48 + d)"

fun dec_of_nat :: "nat \<Rightarrow> string" where
  "dec_of_nat n = (if n < 10 then [dec_digit n] else dec_of_nat (n div 10) @ [dec_digit (n mod 10)])"

declare dec_of_nat.simps [simp del]

definition fmt_d :: "int \<Rightarrow> string" where
  "fmt_d i = (if i < 0 then ''-'' @ dec_of_nat (nat (- i)) else dec_of_nat (nat i))"

definition is_dec_digit :: "char \<Rightarrow> bool" where
  "is_dec_digit c \<longleftrightarrow> 48 \<le> (of_char c :: nat) \<and> (of_char c :: nat) \<le> 57"

definition nat_of_dec :: "string \<Rightarrow> nat" where
  "nat_of_dec s = foldl (\<lambda>acc c. 10 * acc + (of_char c - 48)) 0 s"

definition int64_ok :: "int \<Rightarrow> bool" where
  "int64_ok i \<longleftrightarrow> - (2 ^ 63) \<le> i \<and> i < 2 ^ 63"

definition Atoi :: "string \<Rightarrow> int option" where
  "Atoi s =
     (let neg = (s \<noteq> [] \<and> hd s = CHR ''-'');
          ds = (if s \<noteq> [] \<and> (hd s = CHR ''-'' \<or> hd s = CHR ''+'') then tl s else s);
          v = (if neg then - int (nat_of_dec ds) else int (nat_of_dec ds))
      in if ds \<noteq> [] \<and> list_all is_dec_digit ds \<and> int64_ok v then Some v else None)"

lemma dec_digit_value [simp]: "d < 10 \<Longrightarrow> (of_char (dec_digit d) :: nat) = 48 + d"
  by (simp add: dec_digit_def)

lemma is_dec_digit_dec [simp]: "d < 10 \<Longrightarrow> is_dec_digit (dec_digit d)"
  by (simp add: is_dec_digit_def)

lemma dec_of_nat_digits: "list_all is_dec_digit (dec_of_nat n)"
proof (induction n rule: dec_of_nat.induct)
  case (1 n)
  then show ?case by (subst dec_of_nat.simps) simp
qed

lemma dec_of_nat_nonempty [simp]: "dec_of_nat n \<noteq> []"
  by (subst dec_of_nat.simps) simp

lemma nat_of_dec_snoc: "nat_of_dec (s @ [c]) = 10 * nat_of_dec s + (of_char c - 48)"
  by (simp add: nat_of_dec_def)

lemma nat_of_dec_of_nat [simp]: "nat_of_dec (dec_of_nat n) = n"
proof (induction n rule: dec_of_nat.induct)
  case (1 n)
  show ?case
  proof (cases "n < 10")
    case True
    then show ?thesis by (subst dec_of_nat.simps) (simp add: nat_of_dec_def)
  next
    case False
    then show ?thesis using 1 by (subst dec_of_nat.simps) (simp add: nat_of_dec_snoc)
  qed
qed

lemma not_dec_digit [simp]: "\<not> is_dec_digit CHR ''-''" "\<not> is_dec_digit CHR ''+''" "\<not> is_dec_digit CHR '':''"
  by (simp_all add: is_dec_digit_def)

lemma dec_of_nat_chars: "c \<in> set (dec_of_nat n) \<Longrightarrow> is_dec_digit c"
  using dec_of_nat_digits [of n] by (simp add: list_all_iff)

lemma Atoi_fmt_d: "int64_ok i \<Longrightarrow> Atoi (fmt_d i) = Some i"
proof -
  assume i: "int64_ok i"
  have "hd (dec_of_nat n) \<noteq> CHR ''-'' \<and> hd (dec_of_nat n) \<noteq> CHR ''+''" for n
    using dec_of_nat_chars [of "hd (dec_of_nat n)" n] by (metis dec_of_nat_nonempty hd_in_set not_dec_digit(1,2))
  then show ?thesis using i by (simp add: Atoi_def fmt_d_def Let_def dec_of_nat_digits)
qed

end
