(* ===== verification/Circuit_Breaker.thy ===== *)
theory Circuit_Breaker
  imports Gateway_Prelude "HOL-Library.Sublist"
begin

text \<open>
  The per-backend circuit breaker (\<^verbatim>\<open>internal/router/circuit_breaker.go\<close>): closed, open and
  half-open states, the half-open single-probe gate, forced trips, and the snapshot a hot reload
  hands to the rebuilt breaker.  Every method runs under \<^verbatim>\<open>cb.mu\<close>, so each is one function on the
  record; \<open>cb_step\<close> puts them in one timed system.
\<close>

section \<open>State and operations\<close>

datatype CircuitBreakerState = StateClosed | StateOpen | StateHalfOpen

fun CircuitBreakerState_String :: "CircuitBreakerState \<Rightarrow> string" where
  "CircuitBreakerState_String StateClosed = ''closed''"
| "CircuitBreakerState_String StateOpen = ''open''"
| "CircuitBreakerState_String StateHalfOpen = ''half_open''"

record CircuitBreakerConfig =
  FailureThreshold :: int
  cbTimeout :: duration
  HalfOpenMaxRequests :: int
  SuccessThreshold :: int

record CircuitBreaker =
  cb_state :: CircuitBreakerState
  cb_cfg :: CircuitBreakerConfig
  cb_failureCount :: int
  cb_successCount :: int
  cb_lastFailureTime :: time
  cb_tripReason :: string
  cb_probeInFlight :: bool
  cb_probeDeadline :: time

definition NewCircuitBreaker :: "CircuitBreakerConfig \<Rightarrow> CircuitBreaker" where
  "NewCircuitBreaker cfg =
     \<lparr>cb_state = StateClosed, cb_cfg = cfg, cb_failureCount = 0, cb_successCount = 0,
      cb_lastFailureTime = zero_time, cb_tripReason = '''', cb_probeInFlight = False,
      cb_probeDeadline = zero_time\<rparr>"

text \<open>
  \<^verbatim>\<open>State()\<close> performs the lazy open-to-half-open transition on read.  The double check after the
  lock upgrade repeats the same condition, so the locked section alone is the effect.
\<close>

definition cb_State :: "time \<Rightarrow> CircuitBreaker \<Rightarrow> CircuitBreaker \<times> CircuitBreakerState" where
  "cb_State now cb =
     (if cb_state cb = StateOpen \<and> now - cb_lastFailureTime cb > cbTimeout (cb_cfg cb)
      then (cb\<lparr>cb_state := StateHalfOpen, cb_successCount := 0\<rparr>, StateHalfOpen)
      else (cb, cb_state cb))"

definition cb_probeWindow :: "CircuitBreaker \<Rightarrow> duration" where
  "cb_probeWindow cb =
     (if cbTimeout (cb_cfg cb) \<le> 0 then 30 * second else cbTimeout (cb_cfg cb))"

definition cb_Admit :: "time \<Rightarrow> CircuitBreaker \<Rightarrow> CircuitBreaker \<times> bool" where
  "cb_Admit now cb =
     (case cb_state cb of
        StateClosed \<Rightarrow> (cb, True)
      | StateOpen \<Rightarrow>
          ((if now - cb_lastFailureTime cb > cbTimeout (cb_cfg cb)
            then cb\<lparr>cb_state := StateHalfOpen, cb_successCount := 0\<rparr> else cb), False)
      | StateHalfOpen \<Rightarrow>
          (if cb_probeInFlight cb \<and> now < cb_probeDeadline cb then (cb, False)
           else (cb\<lparr>cb_probeInFlight := True, cb_probeDeadline := now + cb_probeWindow cb\<rparr>, True)))"

definition cb_RecordSuccess :: "CircuitBreaker \<Rightarrow> CircuitBreaker" where
  "cb_RecordSuccess cb =
     (case cb_state cb of
        StateHalfOpen \<Rightarrow>
          (let cb1 = cb\<lparr>cb_probeInFlight := False, cb_successCount := cb_successCount cb + 1\<rparr>
           in if cb_successCount cb1 \<ge> SuccessThreshold (cb_cfg cb1)
              then cb1\<lparr>cb_state := StateClosed, cb_failureCount := 0, cb_successCount := 0\<rparr>
              else cb1)
      | StateClosed \<Rightarrow> cb\<lparr>cb_failureCount := 0\<rparr>
      | StateOpen \<Rightarrow> cb)"

definition cb_RecordFailure :: "time \<Rightarrow> CircuitBreaker \<Rightarrow> CircuitBreaker" where
  "cb_RecordFailure now cb =
     (case cb_state cb of
        StateClosed \<Rightarrow>
          (if FailureThreshold (cb_cfg cb) \<le> 0 then cb
           else let cb1 = cb\<lparr>cb_failureCount := cb_failureCount cb + 1\<rparr>
                in if cb_failureCount cb1 \<ge> FailureThreshold (cb_cfg cb1)
                   then cb1\<lparr>cb_state := StateOpen, cb_lastFailureTime := now\<rparr>
                   else cb1)
      | StateHalfOpen \<Rightarrow>
          cb\<lparr>cb_probeInFlight := False, cb_state := StateOpen, cb_lastFailureTime := now\<rparr>
      | StateOpen \<Rightarrow> cb\<lparr>cb_lastFailureTime := now\<rparr>)"

definition cb_Trip :: "time \<Rightarrow> string \<Rightarrow> CircuitBreaker \<Rightarrow> CircuitBreaker" where
  "cb_Trip now reason cb =
     cb\<lparr>cb_state := StateOpen, cb_lastFailureTime := now, cb_tripReason := reason\<rparr>"

definition cb_IsOpen :: "time \<Rightarrow> CircuitBreaker \<Rightarrow> CircuitBreaker \<times> bool" where
  "cb_IsOpen now cb = (let (cb', st) = cb_State now cb in (cb', st = StateOpen))"

definition cb_ResetToHalfOpen :: "CircuitBreaker \<Rightarrow> CircuitBreaker" where
  "cb_ResetToHalfOpen cb =
     cb\<lparr>cb_state := StateHalfOpen, cb_successCount := 0, cb_failureCount := 0,
        cb_probeInFlight := False, cb_probeDeadline := zero_time\<rparr>"

record BreakerSnapshot =
  snap_State :: CircuitBreakerState
  snap_FailureCount :: int
  snap_LastFailureTime :: time
  snap_TripReason :: string

definition cb_Snapshot :: "CircuitBreaker \<Rightarrow> BreakerSnapshot" where
  "cb_Snapshot cb =
     \<lparr>snap_State = cb_state cb, snap_FailureCount = cb_failureCount cb,
      snap_LastFailureTime = cb_lastFailureTime cb, snap_TripReason = cb_tripReason cb\<rparr>"

definition cb_InheritSnapshot :: "BreakerSnapshot \<Rightarrow> CircuitBreaker \<Rightarrow> CircuitBreaker" where
  "cb_InheritSnapshot s cb =
     (if snap_State s = StateClosed then cb
      else cb\<lparr>cb_state := snap_State s, cb_failureCount := snap_FailureCount s,
              cb_lastFailureTime := snap_LastFailureTime s, cb_tripReason := snap_TripReason s\<rparr>)"

section \<open>The breaker as a timed system\<close>

datatype cb_event =
  EvState | EvAdmit | EvSuccess | EvFailure | EvTrip string | EvReset

fun cb_step :: "CircuitBreaker \<Rightarrow> time \<times> cb_event \<Rightarrow> CircuitBreaker" where
  "cb_step cb (now, EvState) = fst (cb_State now cb)"
| "cb_step cb (now, EvAdmit) = fst (cb_Admit now cb)"
| "cb_step cb (now, EvSuccess) = cb_RecordSuccess cb"
| "cb_step cb (now, EvFailure) = cb_RecordFailure now cb"
| "cb_step cb (now, EvTrip r) = cb_Trip now r cb"
| "cb_step cb (now, EvReset) = cb_ResetToHalfOpen cb"

lemmas cb_op_defs = cb_State_def cb_Admit_def cb_RecordSuccess_def cb_RecordFailure_def
  cb_Trip_def cb_IsOpen_def cb_ResetToHalfOpen_def cb_InheritSnapshot_def cb_Snapshot_def

declare cb_op_defs [gw_defs]

lemma cb_op_cfg [simp]:
  "cb_cfg (fst (cb_State now cb)) = cb_cfg cb" "cb_cfg (fst (cb_Admit now cb)) = cb_cfg cb"
  "cb_cfg (cb_RecordSuccess cb) = cb_cfg cb" "cb_cfg (cb_RecordFailure now cb) = cb_cfg cb"
  "cb_cfg (cb_Trip now r cb) = cb_cfg cb" "cb_cfg (cb_ResetToHalfOpen cb) = cb_cfg cb"
  by (auto simp: gw_defs Let_def split: CircuitBreakerState.splits)

lemma cb_step_cfg [simp]: "cb_cfg (cb_step cb x) = cb_cfg cb"
  by (cases "(cb, x)" rule: cb_step.cases) simp_all

lemma cb_run_cfg [simp]: "cb_cfg (run_steps cb_step cb es) = cb_cfg cb"
  by (induction es arbitrary: cb) auto

lemma cb_probeWindow_pos: "0 < cb_probeWindow cb"
  by (auto simp: cb_probeWindow_def)

lemma cb_probeWindow_cong: "cb_cfg a = cb_cfg b \<Longrightarrow> cb_probeWindow a = cb_probeWindow b"
  by (simp add: cb_probeWindow_def)

text \<open>
  The invariant.  While closed, the failure count is below the threshold (and zero when tripping
  is disabled).  While half-open, fewer successes than the threshold have been seen.  No stamp lies
  in the future, and an outstanding reservation expires at most one window after it was taken ---
  in the open state at most one window after the failure that opened the breaker.
\<close>

definition cb_inv :: "time \<Rightarrow> CircuitBreaker \<Rightarrow> bool" where
  "cb_inv now cb \<longleftrightarrow>
     (cb_state cb = StateClosed \<longrightarrow>
        0 \<le> cb_failureCount cb \<and> cb_successCount cb = 0 \<and>
        (if FailureThreshold (cb_cfg cb) \<le> 0 then cb_failureCount cb = 0
         else cb_failureCount cb < FailureThreshold (cb_cfg cb))) \<and>
     (cb_state cb = StateHalfOpen \<longrightarrow>
        0 \<le> cb_successCount cb \<and>
        (cb_successCount cb = 0 \<or> cb_successCount cb < SuccessThreshold (cb_cfg cb))) \<and>
     cb_lastFailureTime cb \<le> now \<and>
     (cb_probeInFlight cb \<longrightarrow> cb_probeDeadline cb \<le> now + cb_probeWindow cb) \<and>
     (cb_state cb = StateOpen \<and> cb_probeInFlight cb \<longrightarrow>
        cb_probeDeadline cb \<le> cb_lastFailureTime cb + cb_probeWindow cb)"

lemma cb_inv_New: "0 \<le> now \<Longrightarrow> cb_inv now (NewCircuitBreaker cfg)"
  by (simp add: cb_inv_def NewCircuitBreaker_def)

lemma cb_inv_Inherit:
  assumes "0 \<le> now" and "snap_LastFailureTime s \<le> now"
  shows "cb_inv now (cb_InheritSnapshot s (NewCircuitBreaker cfg))"
  using assms by (simp add: cb_inv_def NewCircuitBreaker_def cb_InheritSnapshot_def)

lemma cb_inv_step:
  assumes "cb_inv t cb" and "t \<le> t'"
  shows "cb_inv t' (cb_step cb (t', e))"
proof -
  have w: "cb_probeWindow (cb_step cb (t', e)) = cb_probeWindow cb"
    by (rule cb_probeWindow_cong) simp
  show ?thesis
    using assms w
    by (cases e; cases "cb_state cb")
      (auto simp: cb_inv_def gw_defs Let_def cb_probeWindow_pos less_imp_le split: if_splits)
qed

interpretation cb: timed_system cb_step cb_inv
  by unfold_locales (rule cb_inv_step)

section \<open>Tripping: exactly the configured number of consecutive failures\<close>

text \<open>The records of a request history: at each instant a success (\<open>True\<close>) or a failure.\<close>

definition outcome_events :: "(time \<times> bool) list \<Rightarrow> (time \<times> cb_event) list" where
  "outcome_events os = map (\<lambda>(t, ok). (t, if ok then EvSuccess else EvFailure)) os"

lemma outcome_events_simps [simp]:
  "outcome_events [] = []"
  "outcome_events ((t, ok) # os) = (t, if ok then EvSuccess else EvFailure) # outcome_events os"
  by (simp_all add: outcome_events_def)

lemma sublist_streak_True:
  assumes "c < k"
  shows "sublist (replicate k False) (replicate c False @ True # os) \<longleftrightarrow>
    sublist (replicate k False) os"
proof
  assume "sublist (replicate k False) (replicate c False @ True # os)"
  then obtain ps ss where eq: "replicate c False @ True # os = ps @ replicate k False @ ss"
    by (auto simp: sublist_def)
  have "c < length ps"
  proof (rule ccontr)
    assume le: "\<not> c < length ps"
    have "(replicate c False @ True # os) ! c = True" by (simp add: nth_append)
    moreover have "(ps @ replicate k False @ ss) ! c = False"
      using le assms less_imp_diff_less [OF assms, of "length ps"] by (simp add: nth_append)
    ultimately show False using eq by simp
  qed
  then have "drop (Suc c) (replicate c False @ True # os) =
      drop (Suc c) ps @ replicate k False @ ss"
    using eq by simp
  then have "os = drop (Suc c) ps @ replicate k False @ ss" by simp
  then show "sublist (replicate k False) os" by (auto simp: sublist_def)
next
  assume "sublist (replicate k False) os"
  then obtain ps ss where "os = ps @ replicate k False @ ss" by (auto simp: sublist_def)
  then have "replicate c False @ True # os = (replicate c False @ True # ps) @ replicate k False @ ss"
    by simp
  then show "sublist (replicate k False) (replicate c False @ True # os)"
    unfolding sublist_def by blast
qed

lemma cb_open_outcomes:
  "cb_state cb = StateOpen \<Longrightarrow> cb_state (run_steps cb_step cb (outcome_events os)) = StateOpen"
  by (induction os arbitrary: cb) (auto simp: gw_defs)

lemma cb_closed_outcomes:
  assumes "0 < FailureThreshold (cb_cfg cb)" and "cb_state cb = StateClosed"
    and "cb_failureCount cb = int c" and "c < nat (FailureThreshold (cb_cfg cb))"
  shows "cb_state (run_steps cb_step cb (outcome_events os)) =
    (if sublist (replicate (nat (FailureThreshold (cb_cfg cb))) False)
          (replicate c False @ map snd os) then StateOpen else StateClosed)"
  using assms
proof (induction os arbitrary: cb c)
  case Nil
  have "length (replicate c False) < length (replicate (nat (FailureThreshold (cb_cfg cb))) False)"
    using Nil by simp
  then have "\<not> sublist (replicate (nat (FailureThreshold (cb_cfg cb))) False) (replicate c False)"
    using sublist_length_le leD by blast
  with Nil show ?case by simp
next
  case (Cons x os)
  let ?k = "nat (FailureThreshold (cb_cfg cb))"
  obtain t ok where x: "x = (t, ok)" by (cases x)
  show ?case
  proof (cases ok)
    case True
    then have "cb_state (run_steps cb_step (cb_step cb (t, EvSuccess)) (outcome_events os)) =
        (if sublist (replicate ?k False) (map snd os) then StateOpen else StateClosed)"
      using Cons.IH [of "cb_step cb (t, EvSuccess)" 0] Cons.prems by (simp add: gw_defs)
    then show ?thesis using True x Cons.prems(4) by (simp add: sublist_streak_True)
  next
    case False
    show ?thesis
    proof (cases "Suc c = ?k")
      case True
      then have "cb_state (cb_step cb (t, EvFailure)) = StateOpen"
        using Cons.prems by (simp add: gw_defs Let_def)
      moreover have "sublist (replicate ?k False) (replicate (Suc c) False @ map snd os)"
        using True by (simp add: sublist_append_rightI)
      ultimately show ?thesis
        using x \<open>\<not> ok\<close> cb_open_outcomes by (simp add: replicate_app_Cons_same)
    next
      case less: False
      then have "cb_state (run_steps cb_step (cb_step cb (t, EvFailure)) (outcome_events os)) =
          (if sublist (replicate ?k False) (replicate (Suc c) False @ map snd os)
           then StateOpen else StateClosed)"
        using Cons.IH [of "cb_step cb (t, EvFailure)" "Suc c"] Cons.prems
        by (simp add: gw_defs Let_def)
      then show ?thesis using x \<open>\<not> ok\<close> by (simp add: replicate_app_Cons_same)
    qed
  qed
qed

text \<open>
  A fresh breaker with a positive failure threshold that only sees request outcomes is open
  exactly when some run of \<^verbatim>\<open>failure_threshold\<close> consecutive failures occurred; otherwise it is
  closed.  Interspersed successes reset the count.
\<close>

theorem cb_opens_on_consecutive_failures:
  assumes "0 < FailureThreshold cfg"
  shows "cb_state (run_steps cb_step (NewCircuitBreaker cfg) (outcome_events os)) =
    (if sublist (replicate (nat (FailureThreshold cfg)) False) (map snd os)
     then StateOpen else StateClosed)"
  using cb_closed_outcomes [of "NewCircuitBreaker cfg" 0 os] assms
  by (simp add: NewCircuitBreaker_def)

definition cb_example_cfg :: CircuitBreakerConfig where
  "cb_example_cfg = \<lparr>FailureThreshold = 2, cbTimeout = 10, HalfOpenMaxRequests = 1, SuccessThreshold = 2\<rparr>"

theorem cb_opens_on_consecutive_failures_witness:
  "cb_state (run_steps cb_step (NewCircuitBreaker cb_example_cfg)
     (outcome_events [(1, False), (2, True), (3, False), (4, False)])) = StateOpen"
  using cb_opens_on_consecutive_failures
    [of cb_example_cfg "[(1, False), (2, True), (3, False), (4, False)]"]
  by (simp add: cb_example_cfg_def numeral_2_eq_2 sublist_Cons_right)

text \<open>A threshold of zero or less disables tripping by failures.\<close>

lemma cb_disabled_never_opens:
  assumes "FailureThreshold cfg \<le> 0"
  shows "cb_state (run_steps cb_step (NewCircuitBreaker cfg) (outcome_events os)) = StateClosed"
proof -
  have "cb_state (run_steps cb_step cb (outcome_events os)) = StateClosed"
    if "cb_state cb = StateClosed" and "cb_cfg cb = cfg" for cb
    using that assms by (induction os arbitrary: cb) (auto simp: gw_defs)
  then show ?thesis by (simp add: NewCircuitBreaker_def)
qed

section \<open>The half-open gate\<close>

definition probing_event :: "cb_event \<Rightarrow> bool" where
  "probing_event e \<longleftrightarrow> e = EvState \<or> e = EvAdmit"

lemma cb_reserved_run:
  assumes "cb_state cb = StateHalfOpen" and "cb_probeInFlight cb"
    and "\<forall>(t, e) \<in> set es. probing_event e \<and> t < cb_probeDeadline cb"
  shows "run_steps cb_step cb es = cb"
  using assms
proof (induction es)
  case (Cons x es)
  obtain t e where "x = (t, e)" by (cases x)
  with Cons.prems have "cb_step cb x = cb" by (auto simp: probing_event_def gw_defs)
  with Cons show ?case by simp
qed simp

text \<open>
  C5. Single probe: once a half-open breaker admitted a request at instant \<open>t\<close>, no further
  request is admitted before the reservation window ends, however often \<^verbatim>\<open>Admit\<close> and \<^verbatim>\<open>State\<close> are
  called meanwhile, unless an outcome is recorded.
\<close>

theorem cb_single_probe:
  assumes "cb_state cb = StateHalfOpen" and "cb_Admit t cb = (cb', True)"
    and "\<forall>(u, e) \<in> set es. probing_event e \<and> u < t + cb_probeWindow cb"
    and "u < t + cb_probeWindow cb"
  shows "\<not> snd (cb_Admit u (run_steps cb_step cb' es))"
proof -
  have cb': "cb' = cb\<lparr>cb_probeInFlight := True, cb_probeDeadline := t + cb_probeWindow cb\<rparr>"
    using assms(1,2) by (auto simp: cb_Admit_def split: if_splits)
  then have "run_steps cb_step cb' es = cb'"
    using assms(1,3) by (intro cb_reserved_run) auto
  then show ?thesis using cb' assms(1,4) by (simp add: cb_Admit_def)
qed

definition cb_example_half_open :: CircuitBreaker where
  "cb_example_half_open = cb_ResetToHalfOpen (NewCircuitBreaker cb_example_cfg)"

lemmas cb_example_defs = cb_example_half_open_def cb_example_cfg_def NewCircuitBreaker_def
  cb_ResetToHalfOpen_def cb_probeWindow_def

theorem cb_single_probe_witness:
  "\<not> snd (cb_Admit 14 (run_steps cb_step (fst (cb_Admit 5 cb_example_half_open))
      [(6, EvAdmit), (7, EvState)]))"
  by (rule cb_single_probe [of cb_example_half_open 5])
    (simp_all add: cb_example_defs cb_Admit_def probing_event_def)

lemma cb_open_run:
  assumes "cb_state cb = StateOpen"
    and "\<forall>(t, e) \<in> set es. (probing_event e \<or> e = EvSuccess) \<and>
      t \<le> cb_lastFailureTime cb + cbTimeout (cb_cfg cb)"
  shows "run_steps cb_step cb es = cb"
  using assms
proof (induction es)
  case (Cons x es)
  obtain t e where "x = (t, e)" by (cases x)
  with Cons.prems have "cb_step cb x = cb" by (auto simp: probing_event_def gw_defs)
  with Cons show ?case by simp
qed simp

text \<open>
  An open breaker admits nothing, and stays open, until more than the configured timeout has
  passed since the last failure, whatever reads, admission attempts and late successes arrive.
\<close>

theorem cb_open_denies_until_timeout:
  assumes "cb_state cb = StateOpen"
    and "\<forall>(t, e) \<in> set es. (probing_event e \<or> e = EvSuccess) \<and>
      t \<le> cb_lastFailureTime cb + cbTimeout (cb_cfg cb)"
    and "u \<le> cb_lastFailureTime cb + cbTimeout (cb_cfg cb)"
  shows "cb_Admit u (run_steps cb_step cb es) = (cb, False) \<and> cb_IsOpen u cb = (cb, True)"
  using cb_open_run [OF assms(1,2)] assms(1,3) by (simp add: cb_Admit_def cb_IsOpen_def cb_State_def)

theorem cb_open_denies_until_timeout_witness:
  "cb_Admit 13 (run_steps cb_step (cb_Trip 3 ''swap'' (NewCircuitBreaker cb_example_cfg))
     [(4, EvAdmit), (5, EvSuccess)]) = (cb_Trip 3 ''swap'' (NewCircuitBreaker cb_example_cfg), False) \<and>
   cb_IsOpen 13 (cb_Trip 3 ''swap'' (NewCircuitBreaker cb_example_cfg)) =
     (cb_Trip 3 ''swap'' (NewCircuitBreaker cb_example_cfg), True)"
  by (rule cb_open_denies_until_timeout)
    (simp_all add: cb_example_defs cb_Trip_def probing_event_def)

section \<open>Recovery\<close>

lemma cb_closed_successes:
  "cb_state cb = StateClosed \<Longrightarrow>
   cb_state (run_steps cb_step cb (map (\<lambda>t. (t, EvSuccess)) ts)) = StateClosed"
  by (induction ts arbitrary: cb) (auto simp: gw_defs)

lemma cb_half_open_successes:
  assumes "cb_state cb = StateHalfOpen" and "cb_successCount cb = int c"
    and "c = 0 \<or> int c < SuccessThreshold (cb_cfg cb)"
  shows "cb_state (run_steps cb_step cb (map (\<lambda>t. (t, EvSuccess)) ts)) =
    (if int (c + length ts) < max (int c + 1) (SuccessThreshold (cb_cfg cb))
     then StateHalfOpen else StateClosed)"
  using assms
proof (induction ts arbitrary: cb c)
  case (Cons t ts)
  let ?cb1 = "cb_step cb (t, EvSuccess)"
  show ?case
  proof (cases "int c + 1 < SuccessThreshold (cb_cfg cb)")
    case True
    then have "cb_state ?cb1 = StateHalfOpen" "cb_successCount ?cb1 = int (Suc c)"
      using Cons.prems by (simp_all add: gw_defs Let_def)
    then show ?thesis using Cons.IH [of ?cb1 "Suc c"] True by simp
  next
    case False
    then have "cb_state ?cb1 = StateClosed"
      using Cons.prems by (simp add: gw_defs Let_def)
    then show ?thesis using False cb_closed_successes [of ?cb1 ts] by auto
  qed
qed simp

text \<open>
  Recovery: in every reachable open state of a breaker with a positive timeout, a read after
  the timeout moves it to half-open and the next admission is granted --- no reservation left over
  from an earlier half-open phase can block it --- and then it closes after exactly
  \<open>max 1 success_threshold\<close> recorded successes.
\<close>

theorem cb_recovers:
  assumes "chronological zero_time es" and "cb = run_steps cb_step (NewCircuitBreaker cfg) es"
    and "cb_state cb = StateOpen" and "0 < cbTimeout cfg"
    and "cb_lastFailureTime cb + cbTimeout cfg < t" and "t \<le> u"
  shows "cb_State t cb = (cb\<lparr>cb_state := StateHalfOpen, cb_successCount := 0\<rparr>, StateHalfOpen) \<and>
    snd (cb_Admit u (fst (cb_State t cb))) \<and>
    cb_state (run_steps cb_step (fst (cb_Admit u (fst (cb_State t cb))))
        (map (\<lambda>t. (t, EvSuccess)) ts)) =
      (if int (length ts) < max 1 (SuccessThreshold cfg) then StateHalfOpen else StateClosed)"
proof -
  have cfg: "cb_cfg cb = cfg" using assms(2) by (simp add: NewCircuitBreaker_def)
  have "cb_inv (last_time zero_time es) cb"
    unfolding assms(2) by (rule cb.trun_inv [OF cb_inv_New assms(1)]) simp
  then have dl: "cb_probeInFlight cb \<Longrightarrow> cb_probeDeadline cb \<le> cb_lastFailureTime cb + cbTimeout cfg"
    using assms(3,4) cfg by (simp add: cb_inv_def cb_probeWindow_def)
  let ?h = "cb\<lparr>cb_state := StateHalfOpen, cb_successCount := 0\<rparr>"
  have st: "cb_State t cb = (?h, StateHalfOpen)"
    using assms(3,5) cfg by (simp add: cb_State_def)
  have ad: "cb_Admit u ?h =
      (?h\<lparr>cb_probeInFlight := True, cb_probeDeadline := u + cb_probeWindow ?h\<rparr>, True)"
    using dl assms(5,6) by (auto simp: cb_Admit_def)
  show ?thesis
    using cb_half_open_successes [of "fst (cb_Admit u ?h)" 0 ts] cfg by (simp add: st ad)
qed

theorem cb_recovers_witness:
  "let cb = run_steps cb_step (NewCircuitBreaker cb_example_cfg)
       [(1, EvFailure), (2, EvFailure), (13, EvAdmit), (14, EvAdmit), (15, EvTrip ''swap'')]
   in cb_state cb = StateOpen \<and> snd (cb_Admit 27 (fst (cb_State 26 cb))) \<and>
      cb_state (run_steps cb_step (fst (cb_Admit 27 (fst (cb_State 26 cb))))
        [(28, EvSuccess), (29, EvSuccess)]) = StateClosed"
proof -
  let ?es = "[(1, EvFailure), (2, EvFailure), (13, EvAdmit), (14, EvAdmit), (15, EvTrip ''swap'')]"
  define cb where "cb = run_steps cb_step (NewCircuitBreaker cb_example_cfg) ?es"
  have c: "chronological zero_time ?es" by simp
  have "cb_state cb = StateOpen" "cb_lastFailureTime cb = 15"
    by (simp_all add: cb_def gw_defs cb_example_defs)
  moreover have "cbTimeout cb_example_cfg = 10" "SuccessThreshold cb_example_cfg = 2"
    by (simp_all add: cb_example_cfg_def)
  ultimately show ?thesis
    unfolding Let_def cb_def [symmetric]
    using cb_recovers [OF c cb_def, of 26 27 "[28, 29]"] by auto
qed

section \<open>Hot reload\<close>

text \<open>What a rebuilt breaker inherits: \<^verbatim>\<open>DrainAndApply\<close> builds it from the prior one's snapshot.\<close>

definition cb_reload :: "CircuitBreakerConfig \<Rightarrow> CircuitBreaker \<Rightarrow> CircuitBreaker" where
  "cb_reload cfg cb = cb_InheritSnapshot (cb_Snapshot cb) (NewCircuitBreaker cfg)"

lemma cb_reload_state [simp]: "cb_state (cb_reload cfg cb) = cb_state cb"
  by (simp add: cb_reload_def gw_defs NewCircuitBreaker_def)

lemma cb_reload_open:
  "cb_state cb = StateOpen \<Longrightarrow>
   snd (cb_Admit u (cb_reload cfg cb)) = False \<and>
   cb_lastFailureTime (cb_reload cfg cb) = cb_lastFailureTime cb \<and>
   cb_tripReason (cb_reload cfg cb) = cb_tripReason cb"
  by (simp add: cb_reload_def gw_defs NewCircuitBreaker_def)

lemma cb_reload_inv: "cb_inv t cb \<Longrightarrow> 0 \<le> t \<Longrightarrow> cb_inv t (cb_reload cfg cb)"
  unfolding cb_reload_def by (rule cb_inv_Inherit) (simp_all add: cb_Snapshot_def cb_inv_def)

lemma cb_failures_run:
  assumes "cb_state cb = StateClosed" and "cb_failureCount cb = int c"
    and "c + length ts < nat (FailureThreshold (cb_cfg cb))"
  shows "run_steps cb_step cb (map (\<lambda>t. (t, EvFailure)) ts) =
    cb\<lparr>cb_failureCount := int (c + length ts)\<rparr>"
  using assms
proof (induction ts arbitrary: cb c)
  case (Cons t ts)
  then have "cb_step cb (t, EvFailure) = cb\<lparr>cb_failureCount := int (Suc c)\<rparr>"
    by (simp add: gw_defs Let_def)
  then show ?case using Cons.IH [of "cb\<lparr>cb_failureCount := int (Suc c)\<rparr>" "Suc c"] Cons.prems by simp
qed simp

text \<open>
  A reload forgets a closed breaker's failure streak: one failure short of the threshold, the
  next failure opens the breaker, but not if a reload with the same configuration came in between
  (\<^verbatim>\<open>InheritSnapshot\<close> returns before it restores the failure count of a closed breaker).
\<close>

theorem cb_reload_forgets_closed_streak:
  assumes "1 < FailureThreshold cfg" and "length ts = nat (FailureThreshold cfg) - 1"
    and "cb = run_steps cb_step (NewCircuitBreaker cfg) (map (\<lambda>t. (t, EvFailure)) ts)"
  shows "cb_state (cb_RecordFailure now cb) = StateOpen \<and>
    cb_state (cb_RecordFailure now (cb_reload cfg cb)) = StateClosed \<and>
    cb_failureCount (cb_reload cfg cb) = 0"
proof -
  have "cb = (NewCircuitBreaker cfg)\<lparr>cb_failureCount := int (length ts)\<rparr>"
    using cb_failures_run [of "NewCircuitBreaker cfg" 0 ts] assms by (simp add: NewCircuitBreaker_def)
  then show ?thesis
    using assms(1,2) by (simp add: cb_reload_def gw_defs NewCircuitBreaker_def Let_def)
qed

theorem cb_reload_forgets_closed_streak_witness:
  "cb_state (cb_RecordFailure 9
     (cb_reload cb_example_cfg (cb_RecordFailure 8 (NewCircuitBreaker cb_example_cfg)))) = StateClosed"
  using cb_reload_forgets_closed_streak [of cb_example_cfg "[8]" _ 9]
  by (simp add: cb_example_cfg_def)

end
