(* ===== verification/Wait_Queues.thy ===== *)
theory Wait_Queues
  imports Gateway_Prelude
begin

text \<open>
  The two admission queues over the local inference slots: the FIFO semaphore \<^verbatim>\<open>slotQueue\<close>
  (\<^verbatim>\<open>internal/router/queue.go\<close>) and the three-tier priority queue \<^verbatim>\<open>TierQueue\<close>
  (\<^verbatim>\<open>internal/router/tier_queue.go\<close>).

  A buffered channel used as a semaphore is the number of tokens in it.  Each critical section of
  the Go code (a stretch under \<^verbatim>\<open>q.mu\<close>, or a single channel operation) is one definition;
  \<^verbatim>\<open>Acquire\<close> and \<^verbatim>\<open>release\<close> are sequences of them, so a request goroutine has a program counter
  and \<open>tq_step\<close> interleaves any number of goroutines at that granularity.
\<close>

section \<open>The single-tier slot queue\<close>

record slotQueue =
  sq_cap :: nat
  sq_sem :: nat
  sq_waiters :: int

datatype queue_error = ErrQueueTimeout | ErrTierQueueTimeout | ErrCanceled

definition newSlotQueue :: "int \<Rightarrow> slotQueue" where
  "newSlotQueue maxConcurrent =
     \<lparr>sq_cap = nat (if maxConcurrent \<le> 0 then 1 else maxConcurrent), sq_sem = 0, sq_waiters = 0\<rparr>"

text \<open>The non-blocking send on the semaphore channel: \<open>Some\<close> when there was room.\<close>

definition sq_send :: "slotQueue \<Rightarrow> slotQueue option" where
  "sq_send q = (if sq_sem q < sq_cap q then Some (q\<lparr>sq_sem := sq_sem q + 1\<rparr>) else None)"

definition sq_Acquire_nowait :: "slotQueue \<Rightarrow> slotQueue \<times> (queue_error + unit)" where
  "sq_Acquire_nowait q =
     (case sq_send q of Some q' \<Rightarrow> (q', Inr ()) | None \<Rightarrow> (q, Inl ErrQueueTimeout))"

definition sq_Acquire_enter :: "slotQueue \<Rightarrow> slotQueue" where
  "sq_Acquire_enter q = q\<lparr>sq_waiters := sq_waiters q + 1\<rparr>"

text \<open>How the blocking \<^verbatim>\<open>select\<close> ends; the deferred decrement of the waiter count is part of it.\<close>

datatype sq_wake = WakeSlot | WakeTimer | WakeCancel

fun sq_Acquire_exit :: "sq_wake \<Rightarrow> slotQueue \<Rightarrow> (slotQueue \<times> (queue_error + unit)) option" where
  "sq_Acquire_exit WakeSlot q =
     map_option (\<lambda>q'. (q'\<lparr>sq_waiters := sq_waiters q' - 1\<rparr>, Inr ())) (sq_send q)"
| "sq_Acquire_exit WakeTimer q = Some (q\<lparr>sq_waiters := sq_waiters q - 1\<rparr>, Inl ErrQueueTimeout)"
| "sq_Acquire_exit WakeCancel q = Some (q\<lparr>sq_waiters := sq_waiters q - 1\<rparr>, Inl ErrCanceled)"

definition sq_release :: "slotQueue \<Rightarrow> slotQueue" where
  "sq_release q = (if 0 < sq_sem q then q\<lparr>sq_sem := sq_sem q - 1\<rparr> else q)"

definition sq_Occupied :: "slotQueue \<Rightarrow> nat" where
  "sq_Occupied q = sq_sem q"

definition sq_Waiters :: "slotQueue \<Rightarrow> int" where
  "sq_Waiters q = sq_waiters q"

text \<open>
  The queue together with how many goroutines are blocked in \<^verbatim>\<open>Acquire\<close> and how many hold a slot.
\<close>

record sq_sys =
  sys_q :: slotQueue
  sys_blocked :: nat
  sys_holders :: nat

inductive sq_step :: "sq_sys \<Rightarrow> sq_sys \<Rightarrow> bool" where
  sq_nowait_ok: "sq_Acquire_nowait (sys_q s) = (q', Inr ()) \<Longrightarrow>
     sq_step s (s\<lparr>sys_q := q', sys_holders := sys_holders s + 1\<rparr>)"
| sq_nowait_fail: "sq_Acquire_nowait (sys_q s) = (q', Inl e) \<Longrightarrow> sq_step s (s\<lparr>sys_q := q'\<rparr>)"
| sq_enter: "sq_step s (s\<lparr>sys_q := sq_Acquire_enter (sys_q s), sys_blocked := sys_blocked s + 1\<rparr>)"
| sq_exit_ok: "0 < sys_blocked s \<Longrightarrow> sq_Acquire_exit k (sys_q s) = Some (q', Inr ()) \<Longrightarrow>
     sq_step s (s\<lparr>sys_q := q', sys_blocked := sys_blocked s - 1, sys_holders := sys_holders s + 1\<rparr>)"
| sq_exit_err: "0 < sys_blocked s \<Longrightarrow> sq_Acquire_exit k (sys_q s) = Some (q', Inl e) \<Longrightarrow>
     sq_step s (s\<lparr>sys_q := q', sys_blocked := sys_blocked s - 1\<rparr>)"
| sq_rel: "0 < sys_holders s \<Longrightarrow>
     sq_step s (s\<lparr>sys_q := sq_release (sys_q s), sys_holders := sys_holders s - 1\<rparr>)"

inductive sq_reachable :: "int \<Rightarrow> sq_sys \<Rightarrow> bool" for n where
  sq_init: "sq_reachable n \<lparr>sys_q = newSlotQueue n, sys_blocked = 0, sys_holders = 0\<rparr>"
| sq_next: "sq_reachable n s \<Longrightarrow> sq_step s s' \<Longrightarrow> sq_reachable n s'"

definition sq_inv :: "sq_sys \<Rightarrow> bool" where
  "sq_inv s \<longleftrightarrow> sq_sem (sys_q s) = sys_holders s \<and> sys_holders s \<le> sq_cap (sys_q s) \<and>
     sq_waiters (sys_q s) = int (sys_blocked s) \<and> 0 < sq_cap (sys_q s)"

lemmas sq_op_defs = sq_send_def sq_Acquire_nowait_def sq_Acquire_enter_def sq_release_def

lemma sq_inv_step: "sq_step s s' \<Longrightarrow> sq_inv s \<Longrightarrow> sq_inv s' \<and> sq_cap (sys_q s') = sq_cap (sys_q s)"
proof (induction rule: sq_step.induct)
  case (sq_exit_ok s k q')
  then show ?case by (cases k) (auto simp: sq_inv_def sq_op_defs split: if_splits)
next
  case (sq_exit_err s k q' e)
  then show ?case by (cases k) (auto simp: sq_inv_def sq_op_defs split: if_splits)
qed (auto simp: sq_inv_def sq_op_defs split: if_splits)

lemma sq_reachable_inv:
  "sq_reachable n s \<Longrightarrow> sq_inv s \<and> sq_cap (sys_q s) = nat (max 1 n)"
proof (induction rule: sq_reachable.induct)
  case sq_init
  show ?case by (auto simp: sq_inv_def newSlotQueue_def)
next
  case (sq_next s s')
  then show ?case using sq_inv_step by metis
qed

section \<open>The tier queue: data and critical sections\<close>

type_synonym Tier = string

abbreviation (input) TierHeavy :: Tier where "TierHeavy \<equiv> ''heavy''"
abbreviation (input) TierGeneral :: Tier where "TierGeneral \<equiv> ''general''"
abbreviation (input) TierLight :: Tier where "TierLight \<equiv> ''light''"

text \<open>A Go map read of an absent key yields the zero value, so an unknown tier ranks as heavy.\<close>

definition tierRank :: "Tier \<Rightarrow> nat" where
  "tierRank t = (if t = TierHeavy then 0 else if t = TierGeneral then 1
                 else if t = TierLight then 2 else 0)"

record TierQueueConfig =
  tqc_Enabled :: bool
  tqc_MaxConcurrent :: int
  tqc_QueueTimeout :: duration
  tqc_HeavyGuarantee :: int
  tqc_LightGuarantee :: int

record tierWaiter =
  tw_tier :: Tier
  tw_rank :: nat
  tw_ready :: bool
  tw_committed :: bool

text \<open>
  Waiters are shared heap objects: \<open>tq_objs\<close> is the store, \<open>tq_waiters\<close> the slice of pointers.
\<close>

record TierQueue =
  tq_cap :: nat
  tq_sem :: nat
  tq_timeout :: duration
  tq_waiters :: "nat list"
  tq_objs :: "nat \<Rightarrow> tierWaiter"
  tq_guarantees :: "int \<times> int"

definition clampGuarantee :: "int \<Rightarrow> int \<Rightarrow> int" where
  "clampGuarantee g c = (if g < 0 then 0 else if g > c then c else g)"

text \<open>The loop that shrinks the light guarantee first, then the heavy one.\<close>

function shrinkGuarantees :: "int \<Rightarrow> int \<Rightarrow> int \<Rightarrow> int \<times> int" where
  "shrinkGuarantees c h l =
     (if h + l > c then
        if l > 0 then shrinkGuarantees c h (l - 1)
        else if h > 0 then shrinkGuarantees c (h - 1) l
        else (h, l)
      else (h, l))"
  by pat_completeness auto
termination
  by (relation "measure (\<lambda>(c, h, l). nat h + nat l)") auto

declare shrinkGuarantees.simps [simp del]

definition NewTierQueue :: "TierQueueConfig \<Rightarrow> TierQueue" where
  "NewTierQueue cfg =
     (let c = (if tqc_MaxConcurrent cfg \<le> 0 then 1 else tqc_MaxConcurrent cfg);
          h = clampGuarantee (tqc_HeavyGuarantee cfg) c;
          l = clampGuarantee (tqc_LightGuarantee cfg) c
      in \<lparr>tq_cap = nat c, tq_sem = 0,
          tq_timeout = (if tqc_QueueTimeout cfg \<le> 0 then 30 * second else tqc_QueueTimeout cfg),
          tq_waiters = [],
          tq_objs = (\<lambda>_. \<lparr>tw_tier = '''', tw_rank = 0, tw_ready = False, tw_committed = False\<rparr>),
          tq_guarantees = shrinkGuarantees c h l\<rparr>)"

definition tq_free :: "TierQueue \<Rightarrow> nat" where
  "tq_free q = tq_cap q - tq_sem q"

text \<open>\<^verbatim>\<open>Acquire\<close>, fast path: under the mutex, a free slot is taken only if nobody waits.\<close>

definition tq_fastPath :: "TierQueue \<Rightarrow> TierQueue \<times> bool" where
  "tq_fastPath q =
     (if tq_waiters q = [] \<and> tq_sem q < tq_cap q then (q\<lparr>tq_sem := tq_sem q + 1\<rparr>, True)
      else (q, False))"

primrec insertPos :: "(nat \<Rightarrow> tierWaiter) \<Rightarrow> nat \<Rightarrow> nat list \<Rightarrow> nat list" where
  "insertPos objs w [] = [w]"
| "insertPos objs w (x # xs) =
     (if tw_rank (objs w) < tw_rank (objs x) then w # x # xs else x # insertPos objs w xs)"

definition insertWaiter :: "nat \<Rightarrow> TierQueue \<Rightarrow> TierQueue" where
  "insertWaiter w q = q\<lparr>tq_waiters := insertPos (tq_objs q) w (tq_waiters q)\<rparr>"

text \<open>Allocation of the waiter object followed by its insertion under the mutex.\<close>

definition tq_register :: "nat \<Rightarrow> Tier \<Rightarrow> TierQueue \<Rightarrow> TierQueue" where
  "tq_register w tier q =
     insertWaiter w
       (q\<lparr>tq_objs := (tq_objs q)(w := \<lparr>tw_tier = tier, tw_rank = tierRank tier,
                                       tw_ready = False, tw_committed = False\<rparr>)\<rparr>)"

definition tq_dispatch :: "TierQueue \<Rightarrow> TierQueue" where
  "tq_dispatch q =
     (case tq_waiters q of
        [] \<Rightarrow> q
      | w # ws \<Rightarrow>
          (if tq_sem q < tq_cap q
           then q\<lparr>tq_sem := tq_sem q + 1, tq_waiters := ws,
                  tq_objs := (tq_objs q)(w := (tq_objs q w)\<lparr>tw_committed := True, tw_ready := True\<rparr>)\<rparr>
           else q))"

text \<open>Receiving from the waiter's one-element \<^verbatim>\<open>ready\<close> channel, when a token is there.\<close>

definition tq_tryTakeWaiter :: "nat \<Rightarrow> TierQueue \<Rightarrow> TierQueue \<times> bool" where
  "tq_tryTakeWaiter w q =
     (if tw_ready (tq_objs q w)
      then (q\<lparr>tq_objs := (tq_objs q)(w := (tq_objs q w)\<lparr>tw_ready := False\<rparr>)\<rparr>, True)
      else (q, False))"

definition tq_removeWaiterIfNotCommitted :: "nat \<Rightarrow> TierQueue \<Rightarrow> TierQueue \<times> bool" where
  "tq_removeWaiterIfNotCommitted w q =
     (if tw_committed (tq_objs q w) then (q, False)
      else (q\<lparr>tq_waiters := remove1 w (tq_waiters q)\<rparr>, True))"

text \<open>The receive of \<^verbatim>\<open>release\<close>: \<open>False\<close> on an empty semaphore (a double release, only logged).\<close>

definition tq_releaseRecv :: "TierQueue \<Rightarrow> TierQueue \<times> bool" where
  "tq_releaseRecv q =
     (if 0 < tq_sem q then (q\<lparr>tq_sem := tq_sem q - 1\<rparr>, True) else (q, False))"

definition tq_Occupied :: "TierQueue \<Rightarrow> nat" where
  "tq_Occupied q = tq_sem q"

definition tq_Waiters :: "TierQueue \<Rightarrow> Tier \<Rightarrow> nat" where
  "tq_Waiters q t = length (filter (\<lambda>w. tw_tier (tq_objs q w) = t) (tq_waiters q))"

definition TierForRequest :: "string \<Rightarrow> string \<Rightarrow> Tier" where
  "TierForRequest intent tenantTier =
     (if tenantTier = TierHeavy \<or> tenantTier = TierGeneral \<or> tenantTier = TierLight then tenantTier
      else if intent = ''diffusion'' \<or> intent = ''heavy_model'' then TierHeavy
      else if intent = ''lightweight'' then TierLight
      else TierGeneral)"

lemmas tq_op_defs = tq_fastPath_def tq_register_def insertWaiter_def tq_dispatch_def
  tq_tryTakeWaiter_def tq_removeWaiterIfNotCommitted_def tq_releaseRecv_def

section \<open>Facts on the critical sections\<close>

lemma set_insertPos [simp]: "set (insertPos objs w xs) = insert w (set xs)"
  by (induction xs) auto

lemma length_insertPos [simp]: "length (insertPos objs w xs) = Suc (length xs)"
  by (induction xs) auto

lemma distinct_insertPos [simp]: "distinct (insertPos objs w xs) \<longleftrightarrow> w \<notin> set xs \<and> distinct xs"
  by (induction xs) auto

lemma sorted_insertPos:
  "sorted (map (\<lambda>x. tw_rank (objs x)) xs) \<Longrightarrow>
   sorted (map (\<lambda>x. tw_rank (objs x)) (insertPos objs w xs))"
  by (induction xs) (auto simp: less_imp_le intro: order_trans)

lemma insertPos_fifo:
  assumes "sorted (map (\<lambda>x. tw_rank (objs x)) xs)"
  shows "filter (\<lambda>x. tw_rank (objs x) = r) (insertPos objs w xs) =
    filter (\<lambda>x. tw_rank (objs x) = r) xs @ (if tw_rank (objs w) = r then [w] else [])"
  using assms
proof (induction xs)
  case (Cons x xs)
  show ?case
  proof (cases "tw_rank (objs w) < tw_rank (objs x)")
    case True
    then have "filter (\<lambda>y. tw_rank (objs y) = tw_rank (objs w)) (x # xs) = []"
      using Cons.prems by (auto simp: filter_empty_conv)
    with True show ?thesis by auto
  next
    case False
    then show ?thesis using Cons by auto
  qed
qed simp

lemma insertPos_cong:
  "\<forall>x \<in> insert w (set xs). tw_rank (f x) = tw_rank (g x) \<Longrightarrow> insertPos f w xs = insertPos g w xs"
  by (induction xs) auto

lemma shrinkGuarantees_eq:
  assumes "0 \<le> h" "h \<le> c" "0 \<le> l"
  shows "shrinkGuarantees c h l = (h, min l (c - h))"
  using assms
proof (induction c h l rule: shrinkGuarantees.induct)
  case (1 c h l)
  show ?case
    using "1.prems" "1.IH"(1) by (subst shrinkGuarantees.simps) auto
qed

text \<open>Changing one index changes the cardinality of a set of indices by at most one.\<close>

lemma card_flip:
  assumes "finite {j. P j}" and "\<And>j. j \<noteq> i \<Longrightarrow> Q j = P j"
  shows "card {j. Q j} + (if P i then 1 else 0) = card {j. P j} + (if Q i then 1 else 0)"
proof -
  obtain R where "R = {j. P j} - {i}" by blast
  then have "finite R" "i \<notin> R" and P: "{j. P j} = (if P i then insert i R else R)"
    and Q: "{j. Q j} = (if Q i then insert i R else R)"
    using assms by (auto, metis+)
  then show ?thesis unfolding P Q by simp
qed

section \<open>The tier queue as a concurrent system\<close>

datatype tq_pc = PIdle | PFastFailed | PRegistered | PDispatched | PSelecting | PMustTake
  | PHolding | PReleasing

record tq_sys =
  tsys_q :: TierQueue
  tsys_pc :: "nat \<Rightarrow> tq_pc"

abbreviation (input) goto :: "tq_sys \<Rightarrow> nat \<Rightarrow> TierQueue \<Rightarrow> tq_pc \<Rightarrow> tq_sys" where
  "goto s i q p \<equiv> \<lparr>tsys_q = q, tsys_pc = (tsys_pc s)(i := p)\<rparr>"

inductive tq_step :: "tq_sys \<Rightarrow> tq_sys \<Rightarrow> bool" where
  tq_fast_ok: "tsys_pc s i = PIdle \<Longrightarrow> tq_fastPath (tsys_q s) = (q', True) \<Longrightarrow>
     tq_step s (goto s i q' PHolding)"
| tq_fast_fail: "tsys_pc s i = PIdle \<Longrightarrow> tq_fastPath (tsys_q s) = (q', False) \<Longrightarrow>
     tq_step s (goto s i q' PFastFailed)"
| tq_reg: "tsys_pc s i = PFastFailed \<Longrightarrow>
     tq_step s (goto s i (tq_register i tier (tsys_q s)) PRegistered)"
| tq_self_dispatch: "tsys_pc s i = PRegistered \<Longrightarrow>
     tq_step s (goto s i (tq_dispatch (tsys_q s)) PDispatched)"
| tq_try_ok: "tsys_pc s i = PDispatched \<Longrightarrow> tq_tryTakeWaiter i (tsys_q s) = (q', True) \<Longrightarrow>
     tq_step s (goto s i q' PHolding)"
| tq_try_fail: "tsys_pc s i = PDispatched \<Longrightarrow> tq_tryTakeWaiter i (tsys_q s) = (q', False) \<Longrightarrow>
     tq_step s (goto s i q' PSelecting)"
| tq_ready: "tsys_pc s i = PSelecting \<or> tsys_pc s i = PMustTake \<Longrightarrow>
     tq_tryTakeWaiter i (tsys_q s) = (q', True) \<Longrightarrow> tq_step s (goto s i q' PHolding)"
| tq_giveup: "tsys_pc s i = PSelecting \<Longrightarrow>
     tq_removeWaiterIfNotCommitted i (tsys_q s) = (q', True) \<Longrightarrow> tq_step s (goto s i q' PIdle)"
| tq_committed: "tsys_pc s i = PSelecting \<Longrightarrow>
     tq_removeWaiterIfNotCommitted i (tsys_q s) = (q', False) \<Longrightarrow> tq_step s (goto s i q' PMustTake)"
| tq_rel: "tsys_pc s i = PHolding \<Longrightarrow> tq_releaseRecv (tsys_q s) = (q', b) \<Longrightarrow>
     tq_step s (goto s i q' (if b then PReleasing else PIdle))"
| tq_rel_dispatch: "tsys_pc s i = PReleasing \<Longrightarrow>
     tq_step s (goto s i (tq_dispatch (tsys_q s)) PIdle)"

inductive_cases tq_stepE: "tq_step s s'"

inductive tq_reachable :: "TierQueueConfig \<Rightarrow> tq_sys \<Rightarrow> bool" for cfg where
  tq_start: "tq_reachable cfg \<lparr>tsys_q = NewTierQueue cfg, tsys_pc = (\<lambda>_. PIdle)\<rparr>"
| tq_next: "tq_reachable cfg s \<Longrightarrow> tq_step s s' \<Longrightarrow> tq_reachable cfg s'"

abbreviation (input) committed :: "tq_sys \<Rightarrow> nat \<Rightarrow> bool" where
  "committed s i \<equiv> tw_committed (tq_objs (tsys_q s) i)"

text \<open>A goroutine owns a slot when it holds one or when one has been committed to its waiter.\<close>

definition owns_slot :: "tq_sys \<Rightarrow> nat \<Rightarrow> bool" where
  "owns_slot s i \<longleftrightarrow> tsys_pc s i = PHolding \<or>
     (tsys_pc s i \<in> {PRegistered, PDispatched, PSelecting, PMustTake} \<and> committed s i)"

text \<open>A goroutine still has to call \<^verbatim>\<open>dispatch\<close>.\<close>

definition owes_dispatch :: "tq_sys \<Rightarrow> nat \<Rightarrow> bool" where
  "owes_dispatch s i \<longleftrightarrow> tsys_pc s i = PRegistered \<or> tsys_pc s i = PReleasing"

definition tq_struct :: "tq_sys \<Rightarrow> bool" where
  "tq_struct s \<longleftrightarrow>
     finite {i. tsys_pc s i \<noteq> PIdle} \<and> distinct (tq_waiters (tsys_q s)) \<and>
     (\<forall>i. i \<in> set (tq_waiters (tsys_q s)) \<longleftrightarrow>
        tsys_pc s i \<in> {PRegistered, PDispatched, PSelecting} \<and> \<not> committed s i) \<and>
     (\<forall>i. tsys_pc s i \<in> {PRegistered, PDispatched, PSelecting, PMustTake} \<longrightarrow>
        tw_ready (tq_objs (tsys_q s) i) = committed s i) \<and>
     (\<forall>i. tsys_pc s i = PMustTake \<longrightarrow> committed s i) \<and>
     sorted (map (\<lambda>w. tw_rank (tq_objs (tsys_q s) w)) (tq_waiters (tsys_q s)))"

definition tq_slots :: "tq_sys \<Rightarrow> bool" where
  "tq_slots s \<longleftrightarrow> tq_sem (tsys_q s) = card {i. owns_slot s i} \<and> tq_sem (tsys_q s) \<le> tq_cap (tsys_q s)"

definition tq_pending :: "tq_sys \<Rightarrow> bool" where
  "tq_pending s \<longleftrightarrow>
     min (tq_free (tsys_q s)) (length (tq_waiters (tsys_q s))) \<le> card {i. owes_dispatch s i}"

definition tq_inv :: "tq_sys \<Rightarrow> bool" where
  "tq_inv s \<longleftrightarrow> tq_struct s \<and> tq_slots s \<and> tq_pending s"

lemma tq_finite:
  assumes "tq_struct s"
  shows "finite {i. owns_slot s i}" and "finite {i. owes_dispatch s i}"
  using assms unfolding tq_struct_def owns_slot_def owes_dispatch_def
  by (auto elim!: rev_finite_subset)

lemma tq_struct_pc_same:
  assumes "tq_struct s" and "tsys_pc s i \<noteq> PIdle \<or> p = PIdle"
    and "\<And>x. x \<in> {PRegistered, PDispatched, PSelecting, PMustTake} \<Longrightarrow>
      (p = x \<longrightarrow> tsys_pc s i \<in> {PRegistered, PDispatched, PSelecting, PMustTake})"
    and "(p \<in> {PRegistered, PDispatched, PSelecting} \<and> \<not> committed s i) =
      (tsys_pc s i \<in> {PRegistered, PDispatched, PSelecting} \<and> \<not> committed s i)"
    and "p = PMustTake \<longrightarrow> committed s i"
  shows "tq_struct (goto s i (tsys_q s) p)"
proof -
  have "{j. ((tsys_pc s)(i := p)) j \<noteq> PIdle} \<subseteq> {j. tsys_pc s j \<noteq> PIdle}"
    using assms(2) by auto
  then have "finite {j. ((tsys_pc s)(i := p)) j \<noteq> PIdle}"
    using assms(1) finite_subset unfolding tq_struct_def by blast
  then show ?thesis using assms unfolding tq_struct_def by (simp split: if_splits) blast
qed

lemma tq_slots_goto:
  assumes "tq_struct s" and "tq_slots s"
    and "\<And>j. j \<noteq> i \<Longrightarrow> tw_committed (tq_objs q' j) = committed s j"
    and "tq_cap q' = tq_cap (tsys_q s)" and "tq_sem q' \<le> tq_cap (tsys_q s)"
    and "tq_sem q' + (if owns_slot s i then 1 else 0) =
      tq_sem (tsys_q s) + (if owns_slot (goto s i q' p) i then 1 else 0)"
  shows "tq_slots (goto s i q' p)"
proof -
  have "card {j. owns_slot (goto s i q' p) j} + (if owns_slot s i then 1 else 0) =
      card {j. owns_slot s j} + (if owns_slot (goto s i q' p) i then 1 else 0)"
    using tq_finite(1) [OF assms(1)] by (rule card_flip) (simp add: owns_slot_def assms(3))
  then show ?thesis using assms(2,4,5,6) unfolding tq_slots_def by (auto split: if_splits)
qed

lemma tq_pending_goto:
  assumes "tq_struct s"
    and "min (tq_free q') (length (tq_waiters q')) + (if owes_dispatch s i then 1 else 0) \<le>
      card {j. owes_dispatch s j} + (if owes_dispatch (goto s i q' p) i then 1 else 0)"
  shows "tq_pending (goto s i q' p)"
proof -
  have "card {j. owes_dispatch (goto s i q' p) j} + (if owes_dispatch s i then 1 else 0) =
      card {j. owes_dispatch s j} + (if owes_dispatch (goto s i q' p) i then 1 else 0)"
    using tq_finite(2) [OF assms(1)] by (rule card_flip) (simp add: owes_dispatch_def)
  then show ?thesis using assms(2) unfolding tq_pending_def by (auto split: if_splits)
qed

lemma tq_dispatch_sys:
  assumes "tq_struct s" and "tq_slots s"
  defines "s1 \<equiv> s\<lparr>tsys_q := tq_dispatch (tsys_q s)\<rparr>"
  shows "tq_struct s1" and "tq_slots s1"
    and "min (tq_free (tsys_q s1)) (length (tq_waiters (tsys_q s1))) =
      min (tq_free (tsys_q s)) (length (tq_waiters (tsys_q s))) - 1"
proof -
  let ?q = "tsys_q s"
  have "tq_struct s1 \<and> tq_slots s1 \<and> min (tq_free (tsys_q s1)) (length (tq_waiters (tsys_q s1))) =
      min (tq_free ?q) (length (tq_waiters ?q)) - 1"
  proof (cases "\<exists>w ws. tq_waiters ?q = w # ws \<and> tq_sem ?q < tq_cap ?q")
    case True
    then obtain w ws where w: "tq_waiters ?q = w # ws" and lt: "tq_sem ?q < tq_cap ?q" by blast
    let ?o = "(tq_objs ?q)(w := (tq_objs ?q w)\<lparr>tw_committed := True, tw_ready := True\<rparr>)"
    have s1: "s1 = s\<lparr>tsys_q := ?q\<lparr>tq_sem := tq_sem ?q + 1, tq_waiters := ws, tq_objs := ?o\<rparr>\<rparr>"
      using w lt by (simp add: s1_def tq_dispatch_def)
    have wpc: "tsys_pc s w \<in> {PRegistered, PDispatched, PSelecting}" "\<not> committed s w" "w \<notin> set ws"
      using assms(1) w unfolding tq_struct_def by auto
    have rk: "(\<lambda>x. tw_rank (?o x)) = (\<lambda>x. tw_rank (tq_objs ?q x))" by auto
    have q: "\<forall>i. i \<in> set (w # ws) \<longleftrightarrow>
        tsys_pc s i \<in> {PRegistered, PDispatched, PSelecting} \<and> \<not> committed s i"
      using assms(1) unfolding tq_struct_def w by blast
    have "i \<in> set ws \<longleftrightarrow>
        tsys_pc s i \<in> {PRegistered, PDispatched, PSelecting} \<and> \<not> tw_committed (?o i)" for i
      using q [rule_format, of i] wpc(3) by (cases "i = w") auto
    then have "tq_struct s1"
      using assms(1) unfolding tq_struct_def s1 by (simp add: rk [unfolded fun_upd_apply] w)
    moreover have "card {j. owns_slot s1 j} = card {j. owns_slot s j} + 1"
    proof -
      have "owns_slot s1 w" "\<not> owns_slot s w" using wpc by (auto simp: s1 owns_slot_def)
      moreover have "owns_slot s1 j = owns_slot s j" if "j \<noteq> w" for j
        using that by (simp add: s1 owns_slot_def)
      ultimately show ?thesis
        using card_flip [OF tq_finite(1) [OF assms(1)], of w "owns_slot s1"] by simp
    qed
    ultimately show ?thesis using assms(2) lt w by (auto simp: tq_slots_def s1 tq_free_def)
  next
    case False
    then have "s1 = s" and "tq_free ?q = 0 \<or> tq_waiters ?q = []"
      by (cases "tq_waiters ?q"; auto simp: s1_def tq_dispatch_def tq_free_def)+
    then show ?thesis using assms(1,2) by auto
  qed
  then show "tq_struct s1" and "tq_slots s1"
    and "min (tq_free (tsys_q s1)) (length (tq_waiters (tsys_q s1))) =
      min (tq_free ?q) (length (tq_waiters ?q)) - 1" by blast+
qed

text \<open>The step lemmas, one per group of transitions.\<close>

lemma tq_inv_dispatch_goto:
  assumes "tq_inv s" and "(tsys_pc s i, p) \<in> {(PRegistered, PDispatched), (PReleasing, PIdle)}"
  shows "tq_inv (goto s i (tq_dispatch (tsys_q s)) p)"
proof -
  define s1 where "s1 = s\<lparr>tsys_q := tq_dispatch (tsys_q s)\<rparr>"
  have st: "tq_struct s1" and sl: "tq_slots s1"
    and mn: "min (tq_free (tsys_q s1)) (length (tq_waiters (tsys_q s1))) =
      min (tq_free (tsys_q s)) (length (tq_waiters (tsys_q s))) - 1"
    using tq_dispatch_sys [of s] assms(1) unfolding s1_def tq_inv_def by auto
  have pc: "tsys_pc s1 = tsys_pc s" by (simp add: s1_def)
  have "tq_struct (goto s1 i (tsys_q s1) p)"
    using st by (rule tq_struct_pc_same) (use assms(2) pc in auto)
  moreover have "tq_slots (goto s1 i (tsys_q s1) p)"
    using st sl by (rule tq_slots_goto) (use assms(2) sl pc in \<open>auto simp: owns_slot_def tq_slots_def\<close>)
  moreover have "tq_pending (goto s1 i (tsys_q s1) p)"
  proof (rule tq_pending_goto [OF st])
    have o: "owes_dispatch s1 i" "\<not> owes_dispatch (goto s1 i (tsys_q s1) p) i"
      using assms(2) pc by (auto simp: owes_dispatch_def)
    have "{j. owes_dispatch s1 j} = {j. owes_dispatch s j}" using pc by (simp add: owes_dispatch_def)
    moreover have "0 < card {j. owes_dispatch s1 j}"
      using o(1) tq_finite(2) [OF st] by (auto simp: card_gt_0_iff)
    ultimately show "min (tq_free (tsys_q s1)) (length (tq_waiters (tsys_q s1))) +
        (if owes_dispatch s1 i then 1 else 0)
        \<le> card {j. owes_dispatch s1 j} + (if owes_dispatch (goto s1 i (tsys_q s1) p) i then 1 else 0)"
      using mn o assms(1) unfolding tq_inv_def tq_pending_def by auto
  qed
  ultimately show ?thesis using pc by (simp add: tq_inv_def s1_def)
qed

lemma tq_inv_fast:
  assumes "tq_inv s" and "tsys_pc s i = PIdle" and "tq_fastPath (tsys_q s) = (q', b)"
  shows "tq_inv (goto s i q' (if b then PHolding else PFastFailed))"
proof -
  have st: "tq_struct s" and sl: "tq_slots s" and pe: "tq_pending s"
    using assms(1) by (auto simp: tq_inv_def)
  have q': "tq_waiters q' = tq_waiters (tsys_q s)" "tq_objs q' = tq_objs (tsys_q s)"
    "tq_cap q' = tq_cap (tsys_q s)" "b \<Longrightarrow> tq_waiters (tsys_q s) = []"
    "tq_sem q' = tq_sem (tsys_q s) + (if b then 1 else 0)" "tq_sem q' \<le> tq_cap (tsys_q s)"
    using assms(3) sl by (auto simp: tq_fastPath_def tq_slots_def split: if_splits)
  have "{j. ((tsys_pc s)(i := (if b then PHolding else PFastFailed))) j \<noteq> PIdle} \<subseteq>
      insert i {j. tsys_pc s j \<noteq> PIdle}" by auto
  then have "finite {j. ((tsys_pc s)(i := (if b then PHolding else PFastFailed))) j \<noteq> PIdle}"
    using st finite_subset unfolding tq_struct_def by (metis finite_insert)
  then have "tq_struct (goto s i q' (if b then PHolding else PFastFailed))"
    using st assms(2) q'(1,2) unfolding tq_struct_def by auto
  moreover have "tq_slots (goto s i q' (if b then PHolding else PFastFailed))"
    using st sl by (rule tq_slots_goto) (use assms(2) q' in \<open>auto simp: owns_slot_def\<close>)
  moreover have "tq_pending (goto s i q' (if b then PHolding else PFastFailed))"
    using st by (rule tq_pending_goto)
      (use assms(2) q' pe in \<open>auto simp: owes_dispatch_def tq_pending_def tq_free_def\<close>)
  ultimately show ?thesis by (simp add: tq_inv_def)
qed

lemma tq_inv_register:
  assumes "tq_inv s" and "tsys_pc s i = PFastFailed"
  shows "tq_inv (goto s i (tq_register i tier (tsys_q s)) PRegistered)"
proof -
  have st: "tq_struct s" and sl: "tq_slots s" and pe: "tq_pending s"
    using assms(1) by (auto simp: tq_inv_def)
  let ?q = "tsys_q s" and ?q' = "tq_register i tier (tsys_q s)"
  have i: "i \<notin> set (tq_waiters ?q)" using st assms(2) unfolding tq_struct_def by auto
  have o: "tq_objs ?q' = (tq_objs ?q)(i := \<lparr>tw_tier = tier, tw_rank = tierRank tier,
      tw_ready = False, tw_committed = False\<rparr>)"
    and w: "tq_waiters ?q' = insertPos (tq_objs ?q') i (tq_waiters ?q)"
    and c: "tq_cap ?q' = tq_cap ?q" "tq_sem ?q' = tq_sem ?q"
    by (simp_all add: tq_register_def insertWaiter_def)
  have m: "map (\<lambda>x. tw_rank (tq_objs ?q' x)) (tq_waiters ?q) =
      map (\<lambda>x. tw_rank (tq_objs ?q x)) (tq_waiters ?q)"
    using i by (auto simp: o)
  have "sorted (map (\<lambda>x. tw_rank (tq_objs ?q' x)) (tq_waiters ?q))"
    using st unfolding m by (simp add: tq_struct_def)
  then have "sorted (map (\<lambda>x. tw_rank (tq_objs ?q' x)) (tq_waiters ?q'))"
    unfolding w by (rule sorted_insertPos)
  moreover have "finite {j. ((tsys_pc s)(i := PRegistered)) j \<noteq> PIdle}"
    using st assms(2) unfolding tq_struct_def by (auto elim!: rev_finite_subset)
  moreover have "set (tq_waiters ?q') = insert i (set (tq_waiters ?q))" "distinct (tq_waiters ?q')"
    using w i st by (auto simp: tq_struct_def)
  ultimately have "tq_struct (goto s i ?q' PRegistered)"
    using st assms(2) unfolding tq_struct_def by (simp add: o)
  moreover have "tq_slots (goto s i ?q' PRegistered)"
    using st sl by (rule tq_slots_goto) (use assms(2) sl c in \<open>auto simp: o owns_slot_def tq_slots_def\<close>)
  moreover have "tq_pending (goto s i ?q' PRegistered)"
    using st by (rule tq_pending_goto)
      (use assms(2) c pe in \<open>auto simp: w owes_dispatch_def tq_pending_def tq_free_def\<close>)
  ultimately show ?thesis by (simp add: tq_inv_def)
qed

lemma tq_inv_take:
  assumes "tq_inv s" and "tsys_pc s i \<in> {PDispatched, PSelecting, PMustTake}"
    and "tq_tryTakeWaiter i (tsys_q s) = (q', True)"
  shows "tq_inv (goto s i q' PHolding)"
proof -
  have st: "tq_struct s" and sl: "tq_slots s" and pe: "tq_pending s"
    using assms(1) by (auto simp: tq_inv_def)
  have q': "q' = (tsys_q s)\<lparr>tq_objs := (tq_objs (tsys_q s))(i := (tq_objs (tsys_q s) i)\<lparr>tw_ready := False\<rparr>)\<rparr>"
    and "tw_ready (tq_objs (tsys_q s) i)"
    using assms(3) by (auto simp: tq_tryTakeWaiter_def split: if_splits)
  then have com: "committed s i" using st assms(2) unfolding tq_struct_def by blast
  then have i: "i \<notin> set (tq_waiters (tsys_q s))" using st unfolding tq_struct_def by blast
  have "finite {j. ((tsys_pc s)(i := PHolding)) j \<noteq> PIdle}"
    using st assms(2) unfolding tq_struct_def by (auto elim!: rev_finite_subset)
  moreover have m: "map (\<lambda>x. tw_rank (tq_objs q' x)) (tq_waiters (tsys_q s)) =
      map (\<lambda>x. tw_rank (tq_objs (tsys_q s) x)) (tq_waiters (tsys_q s))"
    using i by (auto simp: q')
  moreover have "sorted (map (\<lambda>x. tw_rank (tq_objs q' x)) (tq_waiters (tsys_q s)))"
    using st unfolding m by (simp add: tq_struct_def)
  ultimately have "tq_struct (goto s i q' PHolding)"
    using st i unfolding tq_struct_def by (simp add: q')
  moreover have "tq_slots (goto s i q' PHolding)"
    using st sl by (rule tq_slots_goto) (use assms(2) sl com in \<open>auto simp: q' owns_slot_def tq_slots_def\<close>)
  moreover have "tq_pending (goto s i q' PHolding)"
    using st by (rule tq_pending_goto)
      (use assms(2) pe in \<open>auto simp: q' owes_dispatch_def tq_pending_def tq_free_def\<close>)
  ultimately show ?thesis by (simp add: tq_inv_def)
qed

lemma tq_inv_same_queue:
  assumes "tq_inv s"
    and "(tsys_pc s i, p) = (PDispatched, PSelecting) \<or>
      (tsys_pc s i, p) = (PSelecting, PMustTake) \<and> committed s i"
  shows "tq_inv (goto s i (tsys_q s) p)"
proof -
  have st: "tq_struct s" and sl: "tq_slots s" and pe: "tq_pending s"
    using assms(1) by (auto simp: tq_inv_def)
  have "tq_struct (goto s i (tsys_q s) p)"
    using st by (rule tq_struct_pc_same) (use assms(2) in auto)
  moreover have "tq_slots (goto s i (tsys_q s) p)"
    using st sl by (rule tq_slots_goto) (use assms(2) sl in \<open>auto simp: owns_slot_def tq_slots_def\<close>)
  moreover have "tq_pending (goto s i (tsys_q s) p)"
    using st by (rule tq_pending_goto)
      (use assms(2) pe in \<open>auto simp: owes_dispatch_def tq_pending_def tq_free_def\<close>)
  ultimately show ?thesis by (simp add: tq_inv_def)
qed

lemma tq_inv_giveup:
  assumes "tq_inv s" and "tsys_pc s i = PSelecting"
    and "tq_removeWaiterIfNotCommitted i (tsys_q s) = (q', True)"
  shows "tq_inv (goto s i q' PIdle)"
proof -
  have st: "tq_struct s" and sl: "tq_slots s" and pe: "tq_pending s"
    using assms(1) by (auto simp: tq_inv_def)
  have q': "q' = (tsys_q s)\<lparr>tq_waiters := remove1 i (tq_waiters (tsys_q s))\<rparr>"
    and nc: "\<not> committed s i"
    using assms(3) by (auto simp: tq_removeWaiterIfNotCommitted_def split: if_splits)
  have d: "distinct (tq_waiters (tsys_q s))" using st by (simp add: tq_struct_def)
  have "finite {j. ((tsys_pc s)(i := PIdle)) j \<noteq> PIdle}"
    using st unfolding tq_struct_def by (auto elim!: rev_finite_subset)
  moreover have "sorted (map (\<lambda>x. tw_rank (tq_objs q' x)) (remove1 i (tq_waiters (tsys_q s))))"
    using st d by (auto simp: q' tq_struct_def distinct_remove1_removeAll removeAll_filter_not_eq
        intro: sorted_filter)
  ultimately have "tq_struct (goto s i q' PIdle)"
    using st d unfolding tq_struct_def by (auto simp: q')
  moreover have "tq_slots (goto s i q' PIdle)"
    using st sl by (rule tq_slots_goto) (use assms(2) sl nc in \<open>auto simp: q' owns_slot_def tq_slots_def\<close>)
  moreover have "tq_pending (goto s i q' PIdle)"
    using st by (rule tq_pending_goto)
      (use assms(2) pe in \<open>auto simp: q' owes_dispatch_def tq_pending_def tq_free_def length_remove1\<close>)
  ultimately show ?thesis by (simp add: tq_inv_def)
qed

lemma tq_inv_release:
  assumes "tq_inv s" and "tsys_pc s i = PHolding" and "tq_releaseRecv (tsys_q s) = (q', b)"
  shows "b \<and> tq_inv (goto s i q' PReleasing)"
proof -
  have st: "tq_struct s" and sl: "tq_slots s" and pe: "tq_pending s"
    using assms(1) by (auto simp: tq_inv_def)
  have "owns_slot s i" using assms(2) by (simp add: owns_slot_def)
  then have "0 < tq_sem (tsys_q s)"
    using sl tq_finite(1) [OF st] by (auto simp: tq_slots_def card_gt_0_iff)
  then have b: "b" and q': "q' = (tsys_q s)\<lparr>tq_sem := tq_sem (tsys_q s) - 1\<rparr>"
    and pos: "0 < tq_sem (tsys_q s)"
    using assms(3) by (auto simp: tq_releaseRecv_def)
  have "finite {j. ((tsys_pc s)(i := PReleasing)) j \<noteq> PIdle}"
    using st assms(2) unfolding tq_struct_def by (auto elim!: rev_finite_subset)
  then have "tq_struct (goto s i q' PReleasing)"
    using st assms(2) unfolding tq_struct_def by (auto simp: q')
  moreover have "tq_slots (goto s i q' PReleasing)"
    using st sl by (rule tq_slots_goto) (use assms(2) sl pos in \<open>auto simp: q' owns_slot_def tq_slots_def\<close>)
  moreover have "tq_pending (goto s i q' PReleasing)"
    using st by (rule tq_pending_goto)
      (use assms(2) pe sl pos in \<open>auto simp: q' owes_dispatch_def tq_pending_def tq_free_def tq_slots_def\<close>)
  ultimately show ?thesis using b by (simp add: tq_inv_def)
qed

lemma tq_inv_step: "tq_step s s' \<Longrightarrow> tq_inv s \<Longrightarrow> tq_inv s'"
proof (induction rule: tq_step.induct)
  case (tq_fast_ok s i q') then show ?case using tq_inv_fast [of s i q' True] by simp
next
  case (tq_fast_fail s i q') then show ?case using tq_inv_fast [of s i q' False] by simp
next
  case (tq_reg s i tier) then show ?case by (simp add: tq_inv_register)
next
  case (tq_self_dispatch s i) then show ?case by (simp add: tq_inv_dispatch_goto)
next
  case (tq_try_ok s i q') then show ?case by (simp add: tq_inv_take)
next
  case (tq_try_fail s i q')
  then have "q' = tsys_q s" by (auto simp: tq_tryTakeWaiter_def split: if_splits)
  with tq_try_fail show ?case by (simp add: tq_inv_same_queue)
next
  case (tq_ready s i q') then show ?case by (auto intro: tq_inv_take)
next
  case (tq_giveup s i q') then show ?case by (simp add: tq_inv_giveup)
next
  case (tq_committed s i q')
  then have "q' = tsys_q s" "committed s i"
    by (auto simp: tq_removeWaiterIfNotCommitted_def split: if_splits)
  with tq_committed show ?case by (simp add: tq_inv_same_queue)
next
  case (tq_rel s i q' b) then show ?case using tq_inv_release [of s i q' b] by simp
next
  case (tq_rel_dispatch s i) then show ?case by (simp add: tq_inv_dispatch_goto)
qed

lemma tq_inv_init: "tq_inv \<lparr>tsys_q = NewTierQueue cfg, tsys_pc = (\<lambda>_. PIdle)\<rparr>"
  by (simp add: tq_inv_def tq_struct_def tq_slots_def tq_pending_def owns_slot_def
      owes_dispatch_def NewTierQueue_def Let_def)

lemma tq_reachable_inv: "tq_reachable cfg s \<Longrightarrow> tq_inv s"
  by (induction rule: tq_reachable.induct) (auto intro: tq_inv_init tq_inv_step)

lemma tq_step_cap: "tq_step s s' \<Longrightarrow> tq_cap (tsys_q s') = tq_cap (tsys_q s)"
  by (induction rule: tq_step.induct) (auto simp: tq_op_defs split: if_splits list.splits)

lemma tq_reachable_cap: "tq_reachable cfg s \<Longrightarrow> tq_cap (tsys_q s) = nat (max 1 (tqc_MaxConcurrent cfg))"
  by (induction rule: tq_reachable.induct) (auto simp: tq_step_cap NewTierQueue_def Let_def)

section \<open>The drain interface\<close>

text \<open>
  A hot reload waits until a queue reports no waiters before it replaces the queue.  What it relies
  on: the reported count is the number of goroutines parked in the queue without a slot.
\<close>

locale drainable_queue =
  fixes reach :: "'s \<Rightarrow> bool" and reported :: "'s \<Rightarrow> int" and parked :: "'s \<Rightarrow> nat"
  assumes reported_parked: "reach s \<Longrightarrow> reported s = int (parked s)"
begin

lemma drained_iff: "reach s \<Longrightarrow> reported s = 0 \<longleftrightarrow> parked s = 0"
  by (simp add: reported_parked)

lemma reported_nonneg: "reach s \<Longrightarrow> 0 \<le> reported s"
  by (simp add: reported_parked)

end

definition tq_WaitersTotal :: "TierQueue \<Rightarrow> int" where
  "tq_WaitersTotal q = (\<Sum>t \<in> (\<lambda>w. tw_tier (tq_objs q w)) ` set (tq_waiters q). int (tq_Waiters q t))"

definition tq_parked :: "tq_sys \<Rightarrow> nat" where
  "tq_parked s =
     card {i. tsys_pc s i \<in> {PRegistered, PDispatched, PSelecting} \<and> \<not> committed s i}"

lemma sum_filter_length:
  "finite A \<Longrightarrow> f ` set xs \<subseteq> A \<Longrightarrow> (\<Sum>t \<in> A. length (filter (\<lambda>x. f x = t) xs)) = length xs"
proof (induction xs)
  case (Cons x xs)
  then have "(\<Sum>t \<in> A. length (filter (\<lambda>x. f x = t) (x # xs))) =
      (\<Sum>t \<in> A. (if f x = t then 1 else 0) + length (filter (\<lambda>x. f x = t) xs))"
    by (intro sum.cong) auto
  also have "\<dots> = 1 + length xs" using Cons by (simp add: sum.distrib)
  finally show ?case by simp
qed simp

lemma tq_WaitersTotal_eq: "tq_WaitersTotal q = int (length (tq_waiters q))"
proof -
  have "tq_WaitersTotal q = int (\<Sum>t \<in> (\<lambda>w. tw_tier (tq_objs q w)) ` set (tq_waiters q).
      length (filter (\<lambda>w. tw_tier (tq_objs q w) = t) (tq_waiters q)))"
    by (simp add: tq_WaitersTotal_def tq_Waiters_def)
  then show ?thesis by (subst (asm) sum_filter_length) auto
qed

interpretation slot_drain: drainable_queue "sq_reachable n" "\<lambda>s. sq_Waiters (sys_q s)" sys_blocked
  by unfold_locales (use sq_reachable_inv in \<open>auto simp: sq_inv_def sq_Waiters_def\<close>)

interpretation tier_drain: drainable_queue "tq_reachable cfg" "\<lambda>s. tq_WaitersTotal (tsys_q s)" tq_parked
proof unfold_locales
  fix s assume "tq_reachable cfg s"
  then have d: "distinct (tq_waiters (tsys_q s))"
    and "set (tq_waiters (tsys_q s)) =
      {i. tsys_pc s i \<in> {PRegistered, PDispatched, PSelecting} \<and> \<not> committed s i}"
    using tq_reachable_inv unfolding tq_inv_def tq_struct_def by blast+
  then show "tq_WaitersTotal (tsys_q s) = int (tq_parked s)"
    unfolding tq_WaitersTotal_eq tq_parked_def using distinct_card [OF d] by simp
qed

section \<open>Properties\<close>

text \<open>
  Slot queue: in every reachable state the semaphore holds exactly one token per slot holder,
  never more than \<open>max 1 max_concurrent\<close>, and the waiter gauge equals the number of goroutines
  blocked in \<^verbatim>\<open>Acquire\<close> (it is decremented on every way out).
\<close>

theorem slot_queue_safe:
  assumes "sq_reachable n s"
  shows "sq_Occupied (sys_q s) = sys_holders s \<and> int (sys_holders s) \<le> max 1 n \<and>
    sq_Waiters (sys_q s) = int (sys_blocked s)"
  using sq_reachable_inv [OF assms] by (auto simp: sq_inv_def sq_Occupied_def sq_Waiters_def)

theorem slot_queue_safe_witness:
  "\<exists>s. sq_reachable 1 s \<and> sys_blocked s = 1 \<and> sys_holders s = 1 \<and>
     sq_Occupied (sys_q s) = 1 \<and> sq_Waiters (sys_q s) = 1"
proof -
  let ?s0 = "\<lparr>sys_q = newSlotQueue 1, sys_blocked = 0, sys_holders = 0\<rparr>"
  let ?s1 = "?s0\<lparr>sys_q := (newSlotQueue 1)\<lparr>sq_sem := 1\<rparr>, sys_holders := 1\<rparr>"
  let ?s2 = "?s1\<lparr>sys_q := sq_Acquire_enter (sys_q ?s1), sys_blocked := 1\<rparr>"
  have "sq_step ?s0 ?s1"
    using sq_nowait_ok [of ?s0 "(newSlotQueue 1)\<lparr>sq_sem := 1\<rparr>"]
    by (simp add: sq_op_defs newSlotQueue_def)
  then have "sq_reachable 1 ?s1" by (rule sq_next [OF sq_init])
  moreover have "sq_step ?s1 ?s2" using sq_enter [of ?s1] by simp
  ultimately have r: "sq_reachable 1 ?s2" by (rule sq_next)
  show ?thesis using slot_queue_safe [OF r] r by (intro exI [of _ ?s2]) simp
qed

text \<open>
  C4. Tier queue, slot conservation under every interleaving: the semaphore counts exactly the
  goroutines that hold a slot or have one committed to their waiter, never more than the capacity;
  a goroutine that gave up (timeout or cancel) owns none; and one whose waiter was already committed
  finds its ready token at once.
\<close>

theorem tier_queue_conserves_slots:
  assumes "tq_reachable cfg s"
  shows "tq_Occupied (tsys_q s) = card {i. owns_slot s i} \<and>
    int (tq_Occupied (tsys_q s)) \<le> max 1 (tqc_MaxConcurrent cfg) \<and>
    (tsys_pc s i = PMustTake \<longrightarrow> snd (tq_tryTakeWaiter i (tsys_q s))) \<and>
    (tsys_pc s i = PHolding \<longrightarrow> snd (tq_releaseRecv (tsys_q s)))"
proof -
  have inv: "tq_inv s" using assms by (rule tq_reachable_inv)
  have "snd (tq_tryTakeWaiter i (tsys_q s))"
    if "tsys_pc s i = PMustTake"
    using inv that unfolding tq_inv_def tq_struct_def by (auto simp: tq_tryTakeWaiter_def)
  moreover have "snd (tq_releaseRecv (tsys_q s))" if "tsys_pc s i = PHolding"
    using tq_inv_release [OF inv that, of "fst (tq_releaseRecv (tsys_q s))" "snd (tq_releaseRecv (tsys_q s))"]
    by simp
  ultimately show ?thesis
    using inv tq_reachable_cap [OF assms] by (auto simp: tq_inv_def tq_slots_def tq_Occupied_def)
qed

definition tq_example_cfg :: TierQueueConfig where
  "tq_example_cfg = \<lparr>tqc_Enabled = True, tqc_MaxConcurrent = 1, tqc_QueueTimeout = 0,
     tqc_HeavyGuarantee = 0, tqc_LightGuarantee = 1\<rparr>"

lemma tq_example_new:
  "tq_cap (NewTierQueue tq_example_cfg) = 1" "tq_sem (NewTierQueue tq_example_cfg) = 0"
  "tq_waiters (NewTierQueue tq_example_cfg) = []"
  by (simp_all add: NewTierQueue_def tq_example_cfg_def Let_def)

text \<open>One goroutine holds the only slot, a light and a heavy request wait, the slot is released.\<close>

lemma tq_example_contended:
  "\<exists>s. tq_reachable tq_example_cfg s \<and> tsys_pc s 0 = PReleasing \<and> tq_waiters (tsys_q s) = [2, 1] \<and>
     tq_sem (tsys_q s) = 0 \<and> tq_cap (tsys_q s) = 1 \<and>
     tw_tier (tq_objs (tsys_q s) 2) = TierHeavy \<and> tw_tier (tq_objs (tsys_q s) 1) = TierLight"
proof -
  let ?q0 = "NewTierQueue tq_example_cfg"
  let ?s0 = "\<lparr>tsys_q = ?q0, tsys_pc = (\<lambda>_. PIdle)\<rparr>"
  let ?q1 = "?q0\<lparr>tq_sem := 1\<rparr>" let ?s1 = "goto ?s0 0 ?q1 PHolding"
  let ?s2 = "goto ?s1 1 ?q1 PFastFailed" let ?s3 = "goto ?s2 2 ?q1 PFastFailed"
  let ?q4 = "tq_register 1 TierLight ?q1" let ?s4 = "goto ?s3 1 ?q4 PRegistered"
  let ?q5 = "tq_register 2 TierHeavy ?q4" let ?s5 = "goto ?s4 2 ?q5 PRegistered"
  let ?q6 = "?q5\<lparr>tq_sem := 0\<rparr>" let ?s6 = "goto ?s5 0 ?q6 PReleasing"
  note d = tq_op_defs tq_example_new
  have "tq_reachable tq_example_cfg ?s1"
    using tq_fast_ok [of ?s0 0 ?q1] by (intro tq_next [OF tq_start]) (simp add: d)
  then have "tq_reachable tq_example_cfg ?s2"
    using tq_fast_fail [of ?s1 1 ?q1] by (elim tq_next) (simp add: d)
  then have "tq_reachable tq_example_cfg ?s3"
    using tq_fast_fail [of ?s2 2 ?q1] by (elim tq_next) (simp add: d)
  then have "tq_reachable tq_example_cfg ?s4"
    using tq_reg [of ?s3 1 TierLight] by (elim tq_next) simp
  then have "tq_reachable tq_example_cfg ?s5"
    using tq_reg [of ?s4 2 TierHeavy] by (elim tq_next) simp
  then have "tq_reachable tq_example_cfg ?s6"
    using tq_rel [of ?s5 0 ?q6 True] by (elim tq_next) (simp add: d)
  then show ?thesis by (intro exI [of _ ?s6]) (simp add: d tierRank_def)
qed

theorem tier_queue_conserves_slots_witness:
  "\<exists>s. tq_reachable tq_example_cfg s \<and> tq_waiters (tsys_q s) = [2, 1] \<and> card {i. owns_slot s i} = 0"
  using tq_example_contended tier_queue_conserves_slots [of tq_example_cfg]
  by (metis tq_Occupied_def)

text \<open>
  C32. Tier queue, no lost wakeup: whenever no goroutine still has a \<^verbatim>\<open>dispatch\<close> call ahead of it,
  either no slot is free or nobody waits.
\<close>

theorem tier_queue_work_conserving:
  assumes "tq_reachable cfg s"
    and "\<forall>i. tsys_pc s i \<noteq> PRegistered \<and> tsys_pc s i \<noteq> PReleasing"
  shows "tq_free (tsys_q s) = 0 \<or> tq_waiters (tsys_q s) = []"
proof -
  have "{i. owes_dispatch s i} = {}" using assms(2) by (auto simp: owes_dispatch_def)
  then have "min (tq_free (tsys_q s)) (length (tq_waiters (tsys_q s))) \<le> 0"
    using tq_reachable_inv [OF assms(1)] by (simp add: tq_inv_def tq_pending_def)
  then show ?thesis by (auto simp: min_def split: if_splits)
qed

theorem tier_queue_work_conserving_witness:
  "tq_free (NewTierQueue tq_example_cfg) = 0 \<or> tq_waiters (NewTierQueue tq_example_cfg) = []"
  using tier_queue_work_conserving [OF tq_start [of tq_example_cfg]] by simp

lemma tq_register_fifo:
  assumes "sorted (map (\<lambda>x. tw_rank (tq_objs q x)) (tq_waiters q))" and "v \<notin> set (tq_waiters q)"
  shows "filter (\<lambda>x. tw_rank (tq_objs (tq_register v tier q) x) = tierRank tier)
      (tq_waiters (tq_register v tier q)) =
    filter (\<lambda>x. tw_rank (tq_objs q x) = tierRank tier) (tq_waiters q) @ [v]"
proof -
  let ?o = "tq_objs (tq_register v tier q)"
  have w: "tq_waiters (tq_register v tier q) = insertPos ?o v (tq_waiters q)"
    and v: "tw_rank (?o v) = tierRank tier"
    and same: "\<And>x. x \<in> set (tq_waiters q) \<Longrightarrow> ?o x = tq_objs q x"
    using assms(2) by (auto simp: tq_register_def insertWaiter_def)
  have m: "map (\<lambda>x. tw_rank (?o x)) (tq_waiters q) = map (\<lambda>x. tw_rank (tq_objs q x)) (tq_waiters q)"
    and f: "filter (\<lambda>x. tw_rank (?o x) = tierRank tier) (tq_waiters q) =
      filter (\<lambda>x. tw_rank (tq_objs q x) = tierRank tier) (tq_waiters q)"
    using same by (auto intro!: filter_cong)
  have "sorted (map (\<lambda>x. tw_rank (?o x)) (tq_waiters q))" unfolding m by (rule assms(1))
  from insertPos_fifo [OF this, of "tierRank tier" v] show ?thesis unfolding w f v by simp
qed

text \<open>
  Tier queue, head-of-line by tier: in every reachable state with a free slot and a waiter,
  \<^verbatim>\<open>dispatch\<close> commits the slot to the first waiter of the queue, whose rank is minimal; and a new
  waiter queues behind every waiter of its own rank, so each rank is served first come first served.
\<close>

theorem tier_queue_priority_fifo:
  assumes "tq_reachable cfg s" and "tq_waiters (tsys_q s) = w # ws" and "0 < tq_free (tsys_q s)"
  shows "tw_committed (tq_objs (tq_dispatch (tsys_q s)) w) \<and>
    tq_waiters (tq_dispatch (tsys_q s)) = ws \<and>
    (\<forall>x \<in> set ws. tw_rank (tq_objs (tsys_q s) w) \<le> tw_rank (tq_objs (tsys_q s) x)) \<and>
    (v \<notin> set (w # ws) \<longrightarrow>
      (let q' = tq_register v tier (tsys_q s)
       in filter (\<lambda>x. tw_rank (tq_objs q' x) = tierRank tier) (tq_waiters q') =
          filter (\<lambda>x. tw_rank (tq_objs (tsys_q s) x) = tierRank tier) (w # ws) @ [v]))"
proof -
  have st: "tq_struct s" using tq_reachable_inv [OF assms(1)] by (simp add: tq_inv_def)
  then have so: "sorted (map (\<lambda>x. tw_rank (tq_objs (tsys_q s) x)) (w # ws))"
    using assms(2) by (simp add: tq_struct_def)
  have "v \<notin> set (w # ws) \<Longrightarrow>
      filter (\<lambda>x. tw_rank (tq_objs (tq_register v tier (tsys_q s)) x) = tierRank tier)
        (tq_waiters (tq_register v tier (tsys_q s))) =
      filter (\<lambda>x. tw_rank (tq_objs (tsys_q s) x) = tierRank tier) (w # ws) @ [v]"
    using tq_register_fifo [of "tsys_q s" v tier] so assms(2) by simp
  then show ?thesis
    using so assms(2,3) by (auto simp: tq_dispatch_def tq_free_def Let_def)
qed

theorem tier_queue_priority_fifo_witness:
  "\<exists>s. tq_reachable tq_example_cfg s \<and> tq_waiters (tsys_q s) = [2, 1] \<and>
     tw_tier (tq_objs (tsys_q s) 2) = TierHeavy \<and> tw_tier (tq_objs (tsys_q s) 1) = TierLight \<and>
     tw_committed (tq_objs (tq_dispatch (tsys_q s)) 2)"
proof -
  obtain s where "tq_reachable tq_example_cfg s" "tq_waiters (tsys_q s) = [2, 1]"
    "tq_sem (tsys_q s) = 0" "tq_cap (tsys_q s) = 1"
    "tw_tier (tq_objs (tsys_q s) 2) = TierHeavy" "tw_tier (tq_objs (tsys_q s) 1) = TierLight"
    using tq_example_contended by blast
  then show ?thesis using tier_queue_priority_fifo [of tq_example_cfg s 2 "[1]"]
    by (auto simp: tq_free_def)
qed

text \<open>
  Construction: both guarantees end up between zero and the capacity, the heavy one is never
  reduced below its clamped value, and their sum never exceeds the capacity.  No operation of the
  queue reads them afterwards: admission and dispatch commute with replacing the guarantees.
\<close>

theorem tier_guarantees_clamped_but_unused:
  "(let c = (if tqc_MaxConcurrent cfg \<le> 0 then 1 else tqc_MaxConcurrent cfg);
        h = clampGuarantee (tqc_HeavyGuarantee cfg) c; l = clampGuarantee (tqc_LightGuarantee cfg) c
    in tq_guarantees (NewTierQueue cfg) = (h, min l (c - h)) \<and> 0 \<le> h \<and> h + min l (c - h) \<le> c) \<and>
   tq_dispatch (q\<lparr>tq_guarantees := g\<rparr>) = (tq_dispatch q)\<lparr>tq_guarantees := g\<rparr> \<and>
   tq_fastPath (q\<lparr>tq_guarantees := g\<rparr>) = (let (q', b) = tq_fastPath q in (q'\<lparr>tq_guarantees := g\<rparr>, b)) \<and>
   tq_register w tier (q\<lparr>tq_guarantees := g\<rparr>) = (tq_register w tier q)\<lparr>tq_guarantees := g\<rparr>"
proof -
  let ?c = "if tqc_MaxConcurrent cfg \<le> 0 then 1 else tqc_MaxConcurrent cfg"
  have "0 \<le> clampGuarantee g' ?c" "clampGuarantee g' ?c \<le> ?c" for g'
    by (auto simp: clampGuarantee_def)
  then show ?thesis
    by (auto simp: NewTierQueue_def Let_def shrinkGuarantees_eq tq_op_defs split: list.splits)
qed

end
