(* ===== verification/Latency_Tracker.thy ===== *)
theory Latency_Tracker
  imports Gateway_Prelude "HOL-Library.Multiset"
begin

text \<open>
  The latency tracker (\<^verbatim>\<open>internal/router/latency_tracker.go\<close>): per-backend sliding windows of
  samples, the cached 95th percentile, and the in-place \<^verbatim>\<open>quickSelect\<close> that computes it.

  Slices are lists indexed by Go \<^verbatim>\<open>int\<close>s; every index expression that Go would panic on is a
  \<open>None\<close> of the model, so the correctness theorem also says that \<^verbatim>\<open>quickSelect\<close> never panics.
  The loops are recursive functions with their own termination proofs.
\<close>

section \<open>quickSelect\<close>

abbreviation in_range :: "'a list \<Rightarrow> int \<Rightarrow> bool" where
  "in_range arr i \<equiv> 0 \<le> i \<and> i < int (length arr)"

text \<open>\<^verbatim>\<open>for arr[i] < pivot { i++ }\<close> and \<^verbatim>\<open>for arr[j] > pivot { j-- }\<close>.\<close>

function scanUp :: "duration list \<Rightarrow> duration \<Rightarrow> int \<Rightarrow> int option" where
  "scanUp arr pivot i =
     (if in_range arr i then (if arr ! nat i < pivot then scanUp arr pivot (i + 1) else Some i)
      else None)"
  by pat_completeness auto
termination
  by (relation "measure (\<lambda>(arr, p, i). nat (int (length arr) - i))") auto

function scanDown :: "duration list \<Rightarrow> duration \<Rightarrow> int \<Rightarrow> int option" where
  "scanDown arr pivot j =
     (if in_range arr j then (if arr ! nat j > pivot then scanDown arr pivot (j - 1) else Some j)
      else None)"
  by pat_completeness auto
termination
  by (relation "measure (\<lambda>(arr, p, j). nat (j + 1))") auto

declare scanUp.simps [simp del] scanDown.simps [simp del]

lemma scanUp_SomeD:
  "scanUp arr p i = Some i' \<Longrightarrow>
   i \<le> i' \<and> 0 \<le> i \<and> i' < int (length arr) \<and> p \<le> arr ! nat i' \<and> (\<forall>a. i \<le> a \<and> a < i' \<longrightarrow> arr ! nat a < p)"
proof (induction arr p i rule: scanUp.induct)
  case (1 arr p i)
  show ?case
  proof (cases "in_range arr i \<and> arr ! nat i < p")
    case True
    then have "scanUp arr p (i + 1) = Some i'" using "1.prems" by (simp add: scanUp.simps [of arr p i])
    with "1.IH" True show ?thesis by (smt (verit))
  next
    case False
    then show ?thesis using "1.prems" by (auto simp: scanUp.simps [of arr p i] split: if_splits)
  qed
qed

lemma scanDown_SomeD:
  "scanDown arr p j = Some j' \<Longrightarrow>
   j' \<le> j \<and> 0 \<le> j' \<and> j < int (length arr) \<and> arr ! nat j' \<le> p \<and> (\<forall>b. j' < b \<and> b \<le> j \<longrightarrow> p < arr ! nat b)"
proof (induction arr p j rule: scanDown.induct)
  case (1 arr p j)
  show ?case
  proof (cases "in_range arr j \<and> p < arr ! nat j")
    case True
    then have "scanDown arr p (j - 1) = Some j'" using "1.prems" by (simp add: scanDown.simps [of arr p j])
    with "1.IH" True show ?thesis by (smt (verit))
  next
    case False
    then show ?thesis using "1.prems" by (auto simp: scanDown.simps [of arr p j] split: if_splits)
  qed
qed

text \<open>A sentinel stops each scan inside the slice.\<close>

lemma scanUp_stops:
  assumes "0 \<le> i" "i \<le> b" "b < int (length arr)" "p \<le> arr ! nat b"
  shows "\<exists>i'. scanUp arr p i = Some i' \<and> i' \<le> b"
  using assms
proof (induction arr p i rule: scanUp.induct)
  case (1 arr p i)
  show ?case
  proof (cases "arr ! nat i < p")
    case True
    then have "i \<noteq> b" using "1.prems" by auto
    with True "1.IH" "1.prems" show ?thesis by (simp add: scanUp.simps [of arr p i])
  qed (use "1.prems" in \<open>simp add: scanUp.simps [of arr p i]\<close>)
qed

lemma scanDown_stops:
  assumes "0 \<le> a" "a \<le> j" "j < int (length arr)" "arr ! nat a \<le> p"
  shows "\<exists>j'. scanDown arr p j = Some j' \<and> a \<le> j'"
  using assms
proof (induction arr p j rule: scanDown.induct)
  case (1 arr p j)
  show ?case
  proof (cases "p < arr ! nat j")
    case True
    then have "j \<noteq> a" using "1.prems" by auto
    with True "1.IH" "1.prems" show ?thesis by (simp add: scanDown.simps [of arr p j])
  qed (use "1.prems" in \<open>simp add: scanDown.simps [of arr p j]\<close>)
qed

definition swapAt :: "'a list \<Rightarrow> int \<Rightarrow> int \<Rightarrow> 'a list" where
  "swapAt arr i j = arr[nat i := arr ! nat j, nat j := arr ! nat i]"

text \<open>\<^verbatim>\<open>for i <= j { ... }\<close>: the partition loop.\<close>

function partitionLoop ::
    "duration list \<Rightarrow> duration \<Rightarrow> int \<Rightarrow> int \<Rightarrow> (duration list \<times> int \<times> int) option" where
  "partitionLoop arr pivot i j =
     (if i \<le> j then
        (case scanUp arr pivot i of None \<Rightarrow> None
         | Some i' \<Rightarrow>
            (case scanDown arr pivot j of None \<Rightarrow> None
             | Some j' \<Rightarrow>
                (if i' \<le> j' then partitionLoop (swapAt arr i' j') pivot (i' + 1) (j' - 1)
                 else partitionLoop arr pivot i' j')))
      else Some (arr, i, j))"
  by pat_completeness auto
termination
  by (relation "measure (\<lambda>(arr, p, i, j). nat (j - i + 1))")
    (auto dest!: scanUp_SomeD scanDown_SomeD)

declare partitionLoop.simps [simp del]

lemma partitionLoop_bounds:
  "partitionLoop arr p i j = Some (arr', i', j') \<Longrightarrow> i \<le> i' \<and> j' \<le> j \<and> j' < i'"
proof (induction arr p i j rule: partitionLoop.induct)
  case (1 arr p i j)
  show ?case
  proof (cases "i \<le> j")
    case True
    then obtain i1 j1 where s: "scanUp arr p i = Some i1" "scanDown arr p j = Some j1"
      using "1.prems" by (auto simp: partitionLoop.simps [of arr p i j] split: option.splits)
    show ?thesis
      using True s "1.IH" [OF True s] "1.prems" scanUp_SomeD [OF s(1)] scanDown_SomeD [OF s(2)]
      by (auto simp: partitionLoop.simps [of arr p i j] split: if_splits)
  qed (use "1.prems" in \<open>simp add: partitionLoop.simps [of arr p i j]\<close>)
qed

lemma partitionLoop_progress:
  assumes "partitionLoop arr (arr ! nat m) lo hi = Some (arr', i', j')"
    and "lo \<le> m" "m \<le> hi" "in_range arr m"
  shows "lo < i' \<and> j' < hi"
proof -
  have ne: "scanUp arr (arr ! nat m) lo \<noteq> None" "scanDown arr (arr ! nat m) hi \<noteq> None"
    using assms by (auto simp: partitionLoop.simps [of arr _ lo hi] split: option.splits)
  then obtain i1 j1 where i1: "scanUp arr (arr ! nat m) lo = Some i1"
    and j1: "scanDown arr (arr ! nat m) hi = Some j1" by auto
  have "i1 \<le> m" using scanUp_stops [of lo m arr "arr ! nat m"] i1 scanUp_SomeD [OF i1] assms(2,4) by auto
  moreover have "m \<le> j1"
    using scanDown_stops [of m hi arr "arr ! nat m"] j1 scanDown_SomeD [OF j1] assms(3,4) by auto
  ultimately have "partitionLoop (swapAt arr i1 j1) (arr ! nat m) (i1 + 1) (j1 - 1) = Some (arr', i', j')"
    using assms(1-3) i1 j1 by (simp add: partitionLoop.simps [of arr _ lo hi])
  from partitionLoop_bounds [OF this] scanUp_SomeD [OF i1] scanDown_SomeD [OF j1]
  show ?thesis by linarith
qed

function quickSelect :: "duration list \<Rightarrow> int \<Rightarrow> int \<Rightarrow> int \<Rightarrow> duration list option" where
  "quickSelect arr lo hi k =
     (if lo < hi then
        (let m = (lo + hi) div 2
         in if in_range arr m then
              (case partitionLoop arr (arr ! nat m) lo hi of None \<Rightarrow> None
               | Some (arr', i, j) \<Rightarrow>
                  (if k \<le> j then quickSelect arr' lo j k
                   else if k \<ge> i then quickSelect arr' i hi k
                   else Some arr'))
            else None)
      else Some arr)"
  by pat_completeness auto
termination
  by (relation "measure (\<lambda>(arr, lo, hi, k). nat (hi - lo))")
    (auto dest!: partitionLoop_progress)

declare quickSelect.simps [simp del]

section \<open>Correctness of quickSelect\<close>

lemma swapAt_simps:
  assumes "in_range arr i" "in_range arr j"
  shows "length (swapAt arr i j) = length arr" "mset (swapAt arr i j) = mset arr"
    and "in_range arr a \<Longrightarrow> swapAt arr i j ! nat a =
      (if a = i then arr ! nat j else if a = j then arr ! nat i else arr ! nat a)"
  using assms by (auto simp: swapAt_def mset_swap nth_list_update nat_eq_iff)

text \<open>
  Everything left of the window is below everything from it on, and everything in or left of it is
  below everything right of it.
\<close>

definition fenced :: "int \<Rightarrow> int \<Rightarrow> duration list \<Rightarrow> bool" where
  "fenced lo hi arr \<longleftrightarrow>
     (\<forall>a b. 0 \<le> a \<and> a < b \<and> b < int (length arr) \<and> (a < lo \<and> lo \<le> b \<or> a \<le> hi \<and> hi < b) \<longrightarrow>
        arr ! nat a \<le> arr ! nat b)"

lemma fencedD:
  "fenced lo hi arr \<Longrightarrow> 0 \<le> a \<Longrightarrow> a < b \<Longrightarrow> b < int (length arr) \<Longrightarrow>
   a < lo \<and> lo \<le> b \<or> a \<le> hi \<and> hi < b \<Longrightarrow> arr ! nat a \<le> arr ! nat b"
  by (auto simp: fenced_def)

lemma fenced_swap:
  assumes "fenced lo hi arr" "lo \<le> i" "i \<le> hi" "lo \<le> j" "j \<le> hi" "0 \<le> lo" "hi < int (length arr)"
  shows "fenced lo hi (swapAt arr i j)"
  unfolding fenced_def
proof (intro allI impI)
  fix a b
  assume ab: "0 \<le> a \<and> a < b \<and> b < int (length (swapAt arr i j)) \<and> (a < lo \<and> lo \<le> b \<or> a \<le> hi \<and> hi < b)"
  have r: "in_range arr i" "in_range arr j" using assms by auto
  then have ab': "in_range arr a" "in_range arr b" using ab by (auto simp: swapAt_simps)
  show "swapAt arr i j ! nat a \<le> swapAt arr i j ! nat b"
    unfolding swapAt_simps(3) [OF r ab'(1)] swapAt_simps(3) [OF r ab'(2)]
    using ab assms ab' fencedD [OF assms(1), of a b] fencedD [OF assms(1), of a i]
      fencedD [OF assms(1), of a j] fencedD [OF assms(1), of i b] fencedD [OF assms(1), of j b]
    by auto
qed

lemma fenced_narrow:
  assumes fc: "fenced lo hi arr"
    and sep: "\<And>x y. lo \<le> x \<Longrightarrow> x < i \<Longrightarrow> j < y \<Longrightarrow> y \<le> hi \<Longrightarrow> arr ! nat x \<le> arr ! nat y"
    and l: "l = lo \<or> j < l \<and> l \<le> i" "lo \<le> l" "l \<le> hi + 1"
    and h: "h = hi \<or> j \<le> h \<and> h < i" "lo - 1 \<le> h" "h \<le> hi"
  shows "fenced l h arr"
  unfolding fenced_def
proof (intro allI impI)
  fix x y
  assume xy: "0 \<le> x \<and> x < y \<and> y < int (length arr) \<and> (x < l \<and> l \<le> y \<or> x \<le> h \<and> h < y)"
  show "arr ! nat x \<le> arr ! nat y"
  proof (cases "lo \<le> x \<and> x < i \<and> j < y \<and> y \<le> hi")
    case True
    then show ?thesis using sep by blast
  next
    case False
    then have "x < lo \<and> lo \<le> y \<or> x \<le> hi \<and> hi < y" using xy l h by linarith
    then show ?thesis using fencedD [OF fc] xy by blast
  qed
qed

definition partition_inv :: "int \<Rightarrow> int \<Rightarrow> duration \<Rightarrow> duration list \<Rightarrow> int \<Rightarrow> int \<Rightarrow> bool" where
  "partition_inv lo hi p arr i j \<longleftrightarrow>
     0 \<le> lo \<and> lo \<le> i \<and> j \<le> hi \<and> hi < int (length arr) \<and> fenced lo hi arr \<and>
     (\<forall>a. lo \<le> a \<and> a < i \<longrightarrow> a \<le> hi \<and> arr ! nat a \<le> p) \<and>
     (\<forall>b. j < b \<and> b \<le> hi \<longrightarrow> lo \<le> b \<and> p \<le> arr ! nat b) \<and>
     (i \<le> j \<longrightarrow> (\<exists>b. i \<le> b \<and> b \<le> hi \<and> p \<le> arr ! nat b) \<and> (\<exists>a. lo \<le> a \<and> a \<le> j \<and> arr ! nat a \<le> p))"

lemma partition_inv_scan:
  assumes "partition_inv lo hi p arr i j" and "i \<le> j"
  obtains i' j' where "scanUp arr p i = Some i'" "scanDown arr p j = Some j'"
    "i' \<le> hi" "lo \<le> j'" "i \<le> i'" "j' \<le> j"
proof -
  obtain a b where ab: "i \<le> b" "b \<le> hi" "p \<le> arr ! nat b" "lo \<le> a" "a \<le> j" "arr ! nat a \<le> p"
    and r: "0 \<le> lo" "lo \<le> i" "j \<le> hi" "hi < int (length arr)"
    using assms unfolding partition_inv_def by auto
  obtain i' where "scanUp arr p i = Some i'" "i' \<le> b"
    using scanUp_stops [of i b arr p] ab r by auto
  moreover obtain j' where "scanDown arr p j = Some j'" "a \<le> j'"
    using scanDown_stops [of a j arr p] ab r by auto
  ultimately show ?thesis
    using that [of i' j'] ab scanUp_SomeD [of arr p i i'] scanDown_SomeD [of arr p j j'] by auto
qed

lemma partition_inv_swap:
  assumes inv: "partition_inv lo hi p arr i j" and le: "i \<le> j" "i' \<le> j'"
    and s: "scanUp arr p i = Some i'" "scanDown arr p j = Some j'" and r: "i' \<le> hi" "lo \<le> j'"
  shows "partition_inv lo hi p (swapAt arr i' j') (i' + 1) (j' - 1)"
proof -
  have u: "i \<le> i'" "p \<le> arr ! nat i'" "\<And>a. i \<le> a \<Longrightarrow> a < i' \<Longrightarrow> arr ! nat a < p"
    and d: "j' \<le> j" "arr ! nat j' \<le> p" "\<And>b. j' < b \<Longrightarrow> b \<le> j \<Longrightarrow> p < arr ! nat b"
    using scanUp_SomeD [OF s(1)] scanDown_SomeD [OF s(2)] by auto
  have b: "0 \<le> lo" "lo \<le> i" "j \<le> hi" "hi < int (length arr)" and f: "fenced lo hi arr"
    and L: "\<And>a. lo \<le> a \<Longrightarrow> a < i \<Longrightarrow> arr ! nat a \<le> p"
    and R: "\<And>c. j < c \<Longrightarrow> c \<le> hi \<Longrightarrow> p \<le> arr ! nat c"
    using inv by (auto simp: partition_inv_def)
  have ri: "in_range arr i'" "in_range arr j'" using b u(1) d(1) r le by auto
  note at = swapAt_simps(3) [OF ri]
  have low: "swapAt arr i' j' ! nat a \<le> p" if "lo \<le> a" "a < i' + 1" for a
    using that b ri u(3) [of a] d(2) L [of a] le(2)
    by (cases "a < i"; subst at) (auto simp: less_imp_le)
  have high: "p \<le> swapAt arr i' j' ! nat c" if "j' - 1 < c" "c \<le> hi" for c
    using that b ri d(3) [of c] u(2) R [of c] le(2)
    by (cases "j < c"; subst at) (auto simp: less_imp_le)
  have "fenced lo hi (swapAt arr i' j')"
    using f b u(1) d(1) r le by (intro fenced_swap) auto
  moreover have "(\<exists>c. i' + 1 \<le> c \<and> c \<le> hi \<and> p \<le> swapAt arr i' j' ! nat c) \<and>
      (\<exists>a. lo \<le> a \<and> a \<le> j' - 1 \<and> swapAt arr i' j' ! nat a \<le> p)" if "i' + 1 \<le> j' - 1"
    using that low [of i'] high [of j'] b u(1) d(1)
    by (intro conjI exI [of _ j'] exI [of _ i']) auto
  ultimately show ?thesis
    unfolding partition_inv_def using b u(1) d(1) r low high ri by (auto simp: swapAt_simps(1))
qed

lemma partition_inv_stop:
  assumes inv: "partition_inv lo hi p arr i j" and "i \<le> j" "\<not> i' \<le> j'"
    and s: "scanUp arr p i = Some i'" "scanDown arr p j = Some j'" and r: "i' \<le> hi" "lo \<le> j'"
  shows "partition_inv lo hi p arr i' j'"
  unfolding partition_inv_def
proof (intro conjI allI impI)
  note b = inv [unfolded partition_inv_def] scanUp_SomeD [OF s(1)] scanDown_SomeD [OF s(2)]
  show "0 \<le> lo" "lo \<le> i'" "j' \<le> hi" "hi < int (length arr)" "fenced lo hi arr" using b by auto
  fix a
  show "a \<le> hi" if "lo \<le> a \<and> a < i'" using that r by simp
  show "arr ! nat a \<le> p" if "lo \<le> a \<and> a < i'" using that b by (cases "a < i") (auto simp: less_imp_le)
  show "lo \<le> a" if "j' < a \<and> a \<le> hi" using that r by simp
  show "p \<le> arr ! nat a" if "j' < a \<and> a \<le> hi" using that b by (cases "j < a") (auto simp: less_imp_le)
qed (use assms(3) in auto)

lemma partitionLoop_correct:
  assumes "partition_inv lo hi p arr i j"
  shows "\<exists>arr' i' j'. partitionLoop arr p i j = Some (arr', i', j') \<and>
    partition_inv lo hi p arr' i' j' \<and> mset arr' = mset arr \<and> length arr' = length arr \<and> j' < i'"
  using assms
proof (induction arr p i j rule: partitionLoop.induct)
  case (1 arr p i j)
  show ?case
  proof (cases "i \<le> j")
    case True
    obtain i1 j1 where s: "scanUp arr p i = Some i1" "scanDown arr p j = Some j1"
      and r: "i1 \<le> hi" "lo \<le> j1" using partition_inv_scan [OF "1.prems" True] by metis
    show ?thesis
    proof (cases "i1 \<le> j1")
      case le: True
      have "in_range arr i1" "in_range arr j1"
        using scanUp_SomeD [OF s(1)] scanDown_SomeD [OF s(2)] by auto
      then show ?thesis
        using "1.IH"(1) [OF True s le partition_inv_swap [OF "1.prems" True le s r]] True s le
        by (simp add: partitionLoop.simps [of arr p i j] swapAt_simps)
    next
      case gt: False
      then show ?thesis
        using "1.IH"(2) [OF True s gt partition_inv_stop [OF "1.prems" True gt s r]] True s
        by (simp add: partitionLoop.simps [of arr p i j])
    qed
  qed (use "1.prems" in \<open>simp add: partitionLoop.simps [of arr p i j]\<close>)
qed

text \<open>The element at \<open>k\<close> separates the slice, so it is the \<open>k\<close>-th smallest.\<close>

lemma separated_nth_sort:
  assumes "k < length ys" and "mset ys = mset xs"
    and "\<And>a. a < k \<Longrightarrow> ys ! a \<le> ys ! k" and "\<And>b. k < b \<Longrightarrow> b < length ys \<Longrightarrow> ys ! k \<le> ys ! b"
  shows "ys ! k = sort xs ! (k :: nat)"
proof -
  let ?l = "take k ys" and ?r = "drop (Suc k) ys"
  have ys: "ys = ?l @ ys ! k # ?r" using assms(1) by (simp add: id_take_nth_drop [symmetric])
  have l: "x \<le> ys ! k" if "x \<in> set ?l" for x
    using that assms(1,3) by (auto simp: in_set_conv_nth)
  have r: "ys ! k \<le> x" if "x \<in> set ?r" for x
    using that assms(1,4) by (auto simp: in_set_conv_nth)
  have "sorted (sort ?l @ ys ! k # sort ?r)"
    using l r by (auto simp: sorted_append intro: order_trans)
  moreover have "mset (sort ?l @ ys ! k # sort ?r) = mset xs"
    using arg_cong [OF ys, of mset] assms(2) by simp
  ultimately have "sort xs = sort ?l @ ys ! k # sort ?r" by (metis properties_for_sort)
  then show ?thesis using assms(1) by (simp add: nth_append)
qed

lemma quickSelect_correct:
  assumes "0 \<le> lo" "lo \<le> k" "k \<le> hi" "hi < int (length arr)" "fenced lo hi arr"
  shows "\<exists>arr'. quickSelect arr lo hi k = Some arr' \<and> mset arr' = mset arr \<and>
    length arr' = length arr \<and> fenced k k arr'"
  using assms
proof (induction arr lo hi k rule: quickSelect.induct)
  case (1 arr lo hi k)
  show ?case
  proof (cases "lo < hi")
    case False
    then have "lo = k" "hi = k" using "1.prems" by auto
    then show ?thesis using "1.prems" by (simp add: quickSelect.simps [of arr k k k])
  next
    case True
    let ?m = "(lo + hi) div 2" let ?p = "arr ! nat ?m"
    have m: "lo \<le> ?m" "?m \<le> hi" "in_range arr ?m" using True "1.prems" by auto
    have "partition_inv lo hi ?p arr lo hi"
      unfolding partition_inv_def using True m "1.prems" by auto
    then obtain arr' i j where pl: "partitionLoop arr ?p lo hi = Some (arr', i, j)"
      and inv: "partition_inv lo hi ?p arr' i j" and ms: "mset arr' = mset arr"
      and len: "length arr' = length arr" and ji: "j < i" using partitionLoop_correct by blast
    note b = inv [unfolded partition_inv_def]
    have sep: "arr' ! nat x \<le> arr' ! nat y" if "lo \<le> x" "x < i" "j < y" "y \<le> hi" for x y
      using b that by (meson order_trans)
    have unf: "quickSelect arr lo hi k =
        (if k \<le> j then quickSelect arr' lo j k else if k \<ge> i then quickSelect arr' i hi k else Some arr')"
      using True m pl by (simp add: quickSelect.simps [of arr lo hi k])
    have fc: "fenced lo hi arr'" and jh: "j \<le> hi" "lo \<le> i" "hi < int (length arr')" using b by simp_all
    consider "k \<le> j" | "i \<le> k" | "j < k" "k < i" using ji by linarith
    then show ?thesis
    proof cases
      case 1
      have "fenced lo j arr'" using fc sep by (rule fenced_narrow) (use 1 ji jh "1.prems" in auto)
      then show ?thesis
        using "1.IH"(1) [OF True refl m(3) pl refl refl 1] 1 "1.prems"(1-3) jh ms len unf by simp
    next
      case 2
      have "fenced i hi arr'" using fc sep by (rule fenced_narrow) (use 2 ji jh "1.prems" in auto)
      then show ?thesis
        using "1.IH"(2) [OF True refl m(3) pl refl refl _ 2] 2 ji "1.prems"(1-3) jh ms len unf by simp
    next
      case 3
      have "fenced k k arr'" using fc sep by (rule fenced_narrow) (use 3 ji jh "1.prems" in auto)
      then show ?thesis using 3 ms len unf by simp
    qed
  qed
qed

lemma quickSelect_nth:
  assumes "k < length arr"
  shows "\<exists>arr'. quickSelect arr 0 (int (length arr) - 1) (int k) = Some arr' \<and>
    mset arr' = mset arr \<and> arr' ! k = sort arr ! k"
proof -
  have "fenced 0 (int (length arr) - 1) arr" by (auto simp: fenced_def)
  then obtain arr' where q: "quickSelect arr 0 (int (length arr) - 1) (int k) = Some arr'"
    and ms: "mset arr' = mset arr" and len: "length arr' = length arr"
    and f: "fenced (int k) (int k) arr'"
    using quickSelect_correct [of 0 "int k" "int (length arr) - 1" arr] assms by auto
  have "arr' ! k = sort arr ! k"
  proof (rule separated_nth_sort)
    show "arr' ! a \<le> arr' ! k" if "a < k" for a
      using fencedD [OF f, of "int a" "int k"] that assms len by simp
    show "arr' ! k \<le> arr' ! b" if "k < b" "b < length arr'" for b
      using fencedD [OF f, of "int k" "int b"] that by simp
  qed (use assms ms len in auto)
  with q ms show ?thesis by blast
qed

text \<open>
  C6. \<^verbatim>\<open>quickSelect\<close> is selection: on a non-empty slice and a valid rank it terminates without an
  out-of-range access, permutes the slice, and leaves at position \<open>k\<close> the element that sorting the
  slice would put there.
\<close>

theorem quickSelect_is_selection:
  assumes "k < length arr"
  shows "\<exists>arr'. quickSelect arr 0 (int (length arr) - 1) (int k) = Some arr' \<and>
    mset arr' = mset arr \<and> arr' ! k = sort arr ! k"
  using assms by (rule quickSelect_nth)

theorem quickSelect_is_selection_witness:
  "\<exists>arr'. quickSelect [30, 10, 20] 0 2 1 = Some arr' \<and> mset arr' = mset [30, 10, 20] \<and> arr' ! 1 = 20"
  using quickSelect_is_selection [of 1 "[30, 10, 20]"] by simp

section \<open>The tracker\<close>

record p95CacheEntry =
  p95_value :: duration
  p95_computedAt :: time

record LatencyTracker =
  lt_windows :: "string \<Rightarrow> duration list option"
  lt_maxSize :: nat
  lt_p95Cache :: "string \<Rightarrow> p95CacheEntry option"
  lt_p95TTL :: duration

definition NewLatencyTracker :: "int \<Rightarrow> LatencyTracker" where
  "NewLatencyTracker maxSize =
     \<lparr>lt_windows = Map.empty, lt_maxSize = nat (if maxSize \<le> 0 then 1000 else maxSize),
      lt_p95Cache = Map.empty, lt_p95TTL = 5 * second\<rparr>"

definition lt_samples :: "LatencyTracker \<Rightarrow> string \<Rightarrow> duration list" where
  "lt_samples lt backend = (case lt_windows lt backend of None \<Rightarrow> [] | Some w \<Rightarrow> w)"

definition lt_Record :: "string \<Rightarrow> duration \<Rightarrow> LatencyTracker \<Rightarrow> LatencyTracker" where
  "lt_Record backend d lt =
     (let samples = lt_samples lt backend @ [d];
          samples' = (if length samples > lt_maxSize lt
                      then drop (length samples - lt_maxSize lt) samples else samples)
      in lt\<lparr>lt_windows := (lt_windows lt)(backend \<mapsto> samples'),
            lt_p95Cache := (lt_p95Cache lt)(backend := None)\<rparr>)"

text \<open>
  The selection \<^verbatim>\<open>P95\<close> runs on a copy of the window: the value and whether it is to be cached
  (an absent or empty window returns \<open>0\<close> without caching).  \<open>None\<close> would be an index panic.
\<close>

definition lt_P95_fresh :: "string \<Rightarrow> LatencyTracker \<Rightarrow> (duration \<times> bool) option" where
  "lt_P95_fresh backend lt =
     (let samples = lt_samples lt backend; n = int (length samples)
      in if n = 0 then Some (0, False)
         else case quickSelect samples 0 (n - 1) (n * 95 div 100) of
                None \<Rightarrow> None
              | Some sorted' \<Rightarrow>
                  (if in_range sorted' (n * 95 div 100)
                   then Some (sorted' ! nat (n * 95 div 100), True) else None))"

definition lt_P95_read :: "time \<Rightarrow> string \<Rightarrow> LatencyTracker \<Rightarrow> (duration \<times> bool) option" where
  "lt_P95_read now backend lt =
     (case lt_p95Cache lt backend of
        Some e \<Rightarrow> (if now - p95_computedAt e < lt_p95TTL lt then Some (p95_value e, False)
                  else lt_P95_fresh backend lt)
      | None \<Rightarrow> lt_P95_fresh backend lt)"

text \<open>The second critical section of \<^verbatim>\<open>P95\<close>, after the lock was released and retaken.\<close>

definition lt_P95_store :: "time \<Rightarrow> string \<Rightarrow> duration \<Rightarrow> LatencyTracker \<Rightarrow> LatencyTracker" where
  "lt_P95_store now backend v lt =
     lt\<lparr>lt_p95Cache := (lt_p95Cache lt)(backend \<mapsto> \<lparr>p95_value = v, p95_computedAt = now\<rparr>)\<rparr>"

definition lt_P95 :: "time \<Rightarrow> string \<Rightarrow> LatencyTracker \<Rightarrow> LatencyTracker \<times> duration option" where
  "lt_P95 now backend lt =
     (case lt_P95_read now backend lt of
        None \<Rightarrow> (lt, None)
      | Some (v, store) \<Rightarrow> ((if store then lt_P95_store now backend v lt else lt), Some v))"

definition lt_SampleCount :: "string \<Rightarrow> LatencyTracker \<Rightarrow> int" where
  "lt_SampleCount backend lt = int (length (lt_samples lt backend))"

text \<open>The reference: the 95th percentile of a window by sorting it.\<close>

definition p95_of :: "duration list \<Rightarrow> duration" where
  "p95_of xs = (if xs = [] then 0 else sort xs ! (length xs * 95 div 100))"

lemma lt_P95_fresh_eq:
  "lt_P95_fresh backend lt = Some (p95_of (lt_samples lt backend), lt_samples lt backend \<noteq> [])"
proof (cases "lt_samples lt backend = []")
  case False
  let ?xs = "lt_samples lt backend" let ?k = "length ?xs * 95 div 100"
  have k: "?k < length ?xs" using False by (cases "?xs") auto
  obtain ys where "quickSelect ?xs 0 (int (length ?xs) - 1) (int ?k) = Some ys"
    and ms: "mset ys = mset ?xs" and "ys ! ?k = sort ?xs ! ?k"
    using quickSelect_nth [OF k] by blast
  moreover have e: "int (length ?xs) * 95 div 100 = int ?k" by (simp add: zdiv_int)
  ultimately show ?thesis
    using False k mset_eq_length [OF ms] unfolding lt_P95_fresh_def Let_def e p95_of_def by simp
qed (simp add: lt_P95_fresh_def p95_of_def)

datatype lt_event = LtRecord string duration | LtP95 time string

fun lt_step :: "LatencyTracker \<Rightarrow> lt_event \<Rightarrow> LatencyTracker" where
  "lt_step lt (LtRecord b d) = lt_Record b d lt"
| "lt_step lt (LtP95 now b) = fst (lt_P95 now b lt)"

text \<open>What was recorded for a backend, in order, and the most recent \<open>k\<close> elements of a list.\<close>

fun recorded :: "string \<Rightarrow> lt_event list \<Rightarrow> duration list" where
  "recorded b [] = []"
| "recorded b (LtRecord b' d # es) = (if b = b' then [d] else []) @ recorded b es"
| "recorded b (LtP95 now b' # es) = recorded b es"

definition lastn :: "nat \<Rightarrow> 'a list \<Rightarrow> 'a list" where
  "lastn k xs = drop (length xs - k) xs"

lemma lastn_simps [simp]: "lastn k [] = []" "length xs \<le> k \<Longrightarrow> lastn k xs = xs"
  "length (lastn k xs) = min k (length xs)"
  by (auto simp: lastn_def min_def)

lemma lastn_lastn_append: "lastn k (lastn k xs @ ys) = lastn k (xs @ ys)"
  by (simp add: lastn_def drop_append) (metis (no_types) diff_diff_cancel diff_is_0_eq drop0 drop_drop
      le_add_diff_inverse2 nat_le_linear add.commute diff_diff_left diff_le_self)

definition lt_coherent :: "LatencyTracker \<Rightarrow> bool" where
  "lt_coherent lt \<longleftrightarrow>
     (\<forall>b e. lt_p95Cache lt b = Some e \<longrightarrow> p95_value e = p95_of (lt_samples lt b))"

lemma lt_Record_samples:
  "lt_samples (lt_Record b d lt) b' =
     (if b' = b then lastn (lt_maxSize lt) (lt_samples lt b @ [d]) else lt_samples lt b')"
  by (auto simp: lt_samples_def lt_Record_def Let_def lastn_def)

lemma lt_P95_coherent:
  assumes "lt_coherent lt"
  shows "snd (lt_P95 now b lt) = Some (p95_of (lt_samples lt b))"
    and "lt_coherent (fst (lt_P95 now b lt))"
    and "lt_samples (fst (lt_P95 now b lt)) = lt_samples lt"
    and "lt_maxSize (fst (lt_P95 now b lt)) = lt_maxSize lt"
  using assms
  by (auto simp: lt_P95_def lt_P95_read_def lt_P95_fresh_eq lt_P95_store_def lt_coherent_def
      lt_samples_def fun_eq_iff split: option.splits if_splits)

lemma lt_Record_coherent: "lt_coherent lt \<Longrightarrow> lt_coherent (lt_Record b d lt)"
  unfolding lt_coherent_def lt_Record_samples by (auto simp: lt_Record_def Let_def)

lemma lt_step_coherent: "lt_coherent lt \<Longrightarrow> lt_coherent (lt_step lt e)"
  by (cases e) (simp_all add: lt_P95_coherent lt_Record_coherent)

interpretation lt: step_system lt_step lt_coherent
  by unfold_locales (rule lt_step_coherent)

lemma lt_coherent_New: "lt_coherent (NewLatencyTracker n)"
  by (simp add: lt_coherent_def NewLatencyTracker_def)

lemma lt_run_window:
  assumes "lt_coherent lt" and "lt_samples lt b = lastn (lt_maxSize lt) hist"
  shows "lt_samples (run_steps lt_step lt es) b = lastn (lt_maxSize lt) (hist @ recorded b es)"
  using assms
proof (induction es arbitrary: lt hist)
  case (Cons e es)
  show ?case
  proof (cases e)
    case (LtRecord b' d)
    let ?lt = "lt_Record b' d lt"
    have "lt_samples ?lt b = lastn (lt_maxSize lt) (hist @ (if b = b' then [d] else []))"
      using Cons.prems(2) by (cases "b = b'") (simp_all add: lt_Record_samples lastn_lastn_append)
    moreover have "lt_maxSize ?lt = lt_maxSize lt" by (simp add: lt_Record_def Let_def)
    ultimately show ?thesis
      using Cons.IH [of ?lt] lt_Record_coherent [OF Cons.prems(1)] LtRecord by simp
  next
    case (LtP95 now b')
    then show ?thesis
      using Cons.IH [of "fst (lt_P95 now b' lt)" hist] Cons.prems by (simp add: lt_P95_coherent)
  qed
qed simp

text \<open>
  \<^verbatim>\<open>P95\<close> is exact: after any sequence of recordings and percentile reads, the value returned
  (cached or freshly selected) is the 95th percentile of the most recent samples of that backend,
  at most the window size of them, whatever was recorded for other backends.
\<close>

theorem lt_P95_exact:
  "snd (lt_P95 now b (run_steps lt_step (NewLatencyTracker n) es)) =
     Some (p95_of (lastn (nat (if n \<le> 0 then 1000 else n)) (recorded b es)))"
proof -
  have "lt_samples (run_steps lt_step (NewLatencyTracker n) es) b =
      lastn (lt_maxSize (NewLatencyTracker n)) ([] @ recorded b es)"
    by (rule lt_run_window [OF lt_coherent_New]) (simp add: lt_samples_def NewLatencyTracker_def)
  then show ?thesis
    using lt_P95_coherent(1) [OF lt.run_inv [OF lt_coherent_New]] by (simp add: NewLatencyTracker_def)
qed

text \<open>
  The two critical sections of \<^verbatim>\<open>P95\<close> are not atomic together: a sample recorded between the
  selection and the store does not invalidate what the store then caches, so until the cache entry
  expires later reads return the old percentile instead of that of the current window.
\<close>

theorem lt_P95_race_keeps_stale:
  assumes "lt_P95_read t0 b lt = Some (v, True)" and "t2 - t1 < lt_p95TTL lt"
  shows "snd (lt_P95 t2 b (lt_P95_store t1 b v (lt_Record b d lt))) = Some v"
  using assms(2) by (simp add: lt_P95_def lt_P95_read_def lt_P95_store_def lt_Record_def Let_def)

theorem lt_P95_race_keeps_stale_witness:
  "snd (lt_P95 3 ''a'' (lt_P95_store 2 ''a'' 10
      (lt_Record ''a'' 99 (lt_Record ''a'' 10 (NewLatencyTracker 1))))) = Some 10 \<and>
   p95_of (lt_samples (lt_Record ''a'' 99 (lt_Record ''a'' 10 (NewLatencyTracker 1))) ''a'') = 99"
proof -
  let ?lt = "lt_Record ''a'' 10 (NewLatencyTracker 1)"
  have "lt_samples ?lt ''a'' = [10]" "lt_maxSize ?lt = 1" "lt_p95Cache ?lt ''a'' = None"
    and ttl: "3 - 2 < lt_p95TTL ?lt"
    by (simp_all add: lt_Record_def lt_samples_def NewLatencyTracker_def Let_def second_def)
  then have "lt_P95_read 1 ''a'' ?lt = Some (10, True)"
    and "lt_samples (lt_Record ''a'' 99 ?lt) ''a'' = [99]"
    by (simp_all add: lt_P95_read_def lt_P95_fresh_eq p95_of_def lt_Record_samples lastn_def)
  then show ?thesis using lt_P95_race_keeps_stale [of 1 "''a''" ?lt 10 3 2 99] ttl
    by (simp add: p95_of_def)
qed

end
