(* ===== verification/Session_Affinity.thy ===== *)
theory Session_Affinity
  imports Gateway_Prelude
begin

text \<open>
  Session affinity (\<^verbatim>\<open>internal/router/session_affinity.go\<close>): a space identifier is bound to the
  provider that served it, for a limited time.  The background eviction loop is the operation
  \<open>sa_evictExpired\<close>, called at arbitrary instants.
\<close>

record affinityEntry =
  ae_ProviderName :: string
  ae_ExpiresAt :: time

record SessionAffinity =
  sa_entries :: "string \<Rightarrow> affinityEntry option"
  sa_ttl :: duration

definition NewSessionAffinity :: "duration \<Rightarrow> SessionAffinity" where
  "NewSessionAffinity ttl =
     \<lparr>sa_entries = Map.empty, sa_ttl = (if ttl \<le> 0 then 30 * minute else ttl)\<rparr>"

definition sa_Record :: "time \<Rightarrow> string \<Rightarrow> string \<Rightarrow> SessionAffinity \<Rightarrow> SessionAffinity" where
  "sa_Record now spaceID providerName sa =
     (if spaceID = '''' \<or> providerName = '''' then sa
      else sa\<lparr>sa_entries := (sa_entries sa)(spaceID \<mapsto>
              \<lparr>ae_ProviderName = providerName, ae_ExpiresAt = now + sa_ttl sa\<rparr>)\<rparr>)"

text \<open>The pair \<^verbatim>\<open>(providerName, ok)\<close>: \<open>None\<close> is \<^verbatim>\<open>("", false)\<close>.\<close>

definition sa_Lookup :: "time \<Rightarrow> string \<Rightarrow> SessionAffinity \<Rightarrow> string option" where
  "sa_Lookup now spaceID sa =
     (if spaceID = '''' then None
      else case sa_entries sa spaceID of
             None \<Rightarrow> None
           | Some e \<Rightarrow> (if now > ae_ExpiresAt e then None else Some (ae_ProviderName e)))"

definition sa_Remove :: "string \<Rightarrow> SessionAffinity \<Rightarrow> SessionAffinity" where
  "sa_Remove spaceID sa = sa\<lparr>sa_entries := (sa_entries sa)(spaceID := None)\<rparr>"

definition sa_Size :: "SessionAffinity \<Rightarrow> nat" where
  "sa_Size sa = card (dom (sa_entries sa))"

definition sa_evictExpired :: "time \<Rightarrow> SessionAffinity \<Rightarrow> SessionAffinity" where
  "sa_evictExpired now sa =
     sa\<lparr>sa_entries := (\<lambda>k. case sa_entries sa k of
           None \<Rightarrow> None
         | Some e \<Rightarrow> (if now > ae_ExpiresAt e then None else Some e))\<rparr>"

datatype sa_event = SaRecord string string | SaRemove string | SaEvict

fun sa_step :: "SessionAffinity \<Rightarrow> time \<times> sa_event \<Rightarrow> SessionAffinity" where
  "sa_step sa (now, SaRecord s p) = sa_Record now s p sa"
| "sa_step sa (now, SaRemove s) = sa_Remove s sa"
| "sa_step sa (now, SaEvict) = sa_evictExpired now sa"

lemmas sa_op_defs = sa_Record_def sa_Remove_def sa_evictExpired_def sa_Lookup_def

lemma sa_step_ttl [simp]: "sa_ttl (sa_step sa x) = sa_ttl sa"
  by (cases "(sa, x)" rule: sa_step.cases) (simp_all add: sa_op_defs)

lemma sa_run_ttl [simp]: "sa_ttl (run_steps sa_step sa es) = sa_ttl sa"
  by (induction es arbitrary: sa) simp_all

text \<open>The event leaves the binding of \<open>s\<close> alone.\<close>

fun spares :: "string \<Rightarrow> sa_event \<Rightarrow> bool" where
  "spares s (SaRecord s' p) = (s' \<noteq> s)"
| "spares s (SaRemove s') = (s' \<noteq> s)"
| "spares s SaEvict = True"

lemma sa_spared_run:
  assumes "sa_entries sa s = Some e" and "\<forall>(t, ev) \<in> set es. spares s ev \<and> t \<le> ae_ExpiresAt e"
  shows "sa_entries (run_steps sa_step sa es) s = Some e"
  using assms
proof (induction es arbitrary: sa)
  case (Cons x es)
  obtain t ev where x: "x = (t, ev)" by (cases x)
  with Cons.prems have "sa_entries (sa_step sa x) s = Some e"
    by (cases ev) (auto simp: sa_op_defs)
  with Cons show ?case by simp
qed simp

text \<open>
  Sticky for the time-to-live: a recorded binding is returned by every lookup up to and
  including its expiry, whatever is recorded or removed for other spaces and whenever the eviction
  loop runs meanwhile; after the expiry it is not returned.
\<close>

theorem session_affinity_sticky:
  assumes "s \<noteq> ''''" and "p \<noteq> ''''" and "sa' = run_steps sa_step (sa_Record t s p sa) es"
    and "\<forall>(u, ev) \<in> set es. spares s ev \<and> u \<le> t + sa_ttl sa"
  shows "sa_Lookup now s sa' = (if now \<le> t + sa_ttl sa then Some p else None)"
proof -
  let ?e = "\<lparr>ae_ProviderName = p, ae_ExpiresAt = t + sa_ttl sa\<rparr>"
  have "sa_entries sa' s = Some ?e"
    unfolding assms(3) by (rule sa_spared_run) (use assms in \<open>auto simp: sa_Record_def\<close>)
  then show ?thesis using assms(1) by (auto simp: sa_Lookup_def)
qed

theorem session_affinity_sticky_witness:
  "sa_Lookup 1005 ''s1'' (run_steps sa_step (sa_Record 10 ''s1'' ''openai'' (NewSessionAffinity 1000))
      [(900, SaEvict), (950, SaRemove ''s2'')]) = Some ''openai''"
  using session_affinity_sticky [of "''s1''" "''openai''" _ 10 "NewSessionAffinity 1000"
      "[(900, SaEvict), (950, SaRemove ''s2'')]" 1005]
  by (simp add: NewSessionAffinity_def)

text \<open>Eviction is invisible to lookups that happen at or after it.\<close>

lemma sa_evict_invisible: "t \<le> now \<Longrightarrow> sa_Lookup now s (sa_evictExpired t sa) = sa_Lookup now s sa"
  by (auto simp: sa_op_defs split: option.splits)

end
