(* ===== verification/Cloud_Strategy.thy ===== *)
theory Cloud_Strategy
  imports Latency_Tracker
begin

text \<open>
  Selection among cloud deployments (\<^verbatim>\<open>internal/router/cloud_strategy.go\<close>): the six strategies, the
  failure-driven cooldown, and the usage counters.

  \<^verbatim>\<open>rand.Intn(n)\<close> is the parameter \<open>rnd\<close>; the result type \<open>string option\<close> is \<open>None\<close> where Go would
  panic (an index or \<^verbatim>\<open>rand.Intn\<close> of a non-positive number).  The latency tracker the strategy points
  to is part of the state, since reading a percentile fills its cache.
\<close>

section \<open>State and operations\<close>

record CloudRoutingConfig =
  crc_Strategy :: string
  crc_CloudWeights :: "(string \<times> int) list"
  crc_CooldownSeconds :: int
  crc_FailureThreshold :: int

record CloudStrategy =
  cs_cfg :: CloudRoutingConfig
  cs_latencyTracker :: "LatencyTracker option"
  cs_counter :: "string \<Rightarrow> int option"
  cs_usage :: "string \<Rightarrow> int option"
  cs_cooldownUntil :: "string \<Rightarrow> time option"
  cs_failures :: "string \<Rightarrow> int option"

definition NewCloudStrategy :: "CloudRoutingConfig \<Rightarrow> LatencyTracker option \<Rightarrow> CloudStrategy" where
  "NewCloudStrategy cfg lt =
     \<lparr>cs_cfg = cfg, cs_latencyTracker = lt, cs_counter = Map.empty, cs_usage = Map.empty,
      cs_cooldownUntil = Map.empty, cs_failures = Map.empty\<rparr>"

definition cs_UpdateConfig :: "CloudRoutingConfig \<Rightarrow> CloudStrategy \<Rightarrow> CloudStrategy" where
  "cs_UpdateConfig cfg cs = cs\<lparr>cs_cfg := cfg\<rparr>"

definition cs_recordUsage :: "string \<Rightarrow> CloudStrategy \<Rightarrow> CloudStrategy" where
  "cs_recordUsage backend cs =
     (if backend = '''' then cs
      else cs\<lparr>cs_usage := (cs_usage cs)(backend \<mapsto> get_int (cs_usage cs) backend + 1)\<rparr>)"

definition cs_cooled :: "time \<Rightarrow> CloudStrategy \<Rightarrow> string \<Rightarrow> bool" where
  "cs_cooled now cs b = (case cs_cooldownUntil cs b of None \<Rightarrow> False | Some until \<Rightarrow> now < until)"

definition cs_filterCooled :: "time \<Rightarrow> string list \<Rightarrow> CloudStrategy \<Rightarrow> string list" where
  "cs_filterCooled now backends cs =
     (let live = filter (\<lambda>b. \<not> cs_cooled now cs b) backends
      in if live = [] then backends else live)"

fun usageLoop :: "(string \<Rightarrow> int) \<Rightarrow> string list \<Rightarrow> string \<Rightarrow> int \<Rightarrow> string" where
  "usageLoop cnt [] best bestCount = best"
| "usageLoop cnt (b # bs) best bestCount =
     (if cnt b < bestCount then usageLoop cnt bs b (cnt b) else usageLoop cnt bs best bestCount)"

definition cs_selectByUsage :: "string list \<Rightarrow> CloudStrategy \<Rightarrow> string option" where
  "cs_selectByUsage backends cs =
     (case backends of [] \<Rightarrow> None
      | b # bs \<Rightarrow> Some (usageLoop (get_int (cs_usage cs)) bs b (get_int (cs_usage cs) b)))"

fun latencyLoop ::
    "time \<Rightarrow> string list \<Rightarrow> string \<Rightarrow> duration \<Rightarrow> LatencyTracker \<Rightarrow> LatencyTracker \<times> string option" where
  "latencyLoop now [] best bestLatency lt = (lt, Some best)"
| "latencyLoop now (b # bs) best bestLatency lt =
     (case lt_P95 now b lt of
        (lt', None) \<Rightarrow> (lt', None)
      | (lt', Some lat) \<Rightarrow>
          (if lat > 0 \<and> (bestLatency \<le> 0 \<or> lat < bestLatency) then latencyLoop now bs b lat lt'
           else latencyLoop now bs best bestLatency lt'))"

definition cs_selectByLatency :: "time \<Rightarrow> string list \<Rightarrow> CloudStrategy \<Rightarrow> CloudStrategy \<times> string option" where
  "cs_selectByLatency now backends cs =
     (case backends of [] \<Rightarrow> (cs, None)
      | b # bs \<Rightarrow>
         (case cs_latencyTracker cs of None \<Rightarrow> (cs, Some b)
          | Some lt \<Rightarrow>
             (case lt_P95 now b lt of
                (lt', None) \<Rightarrow> (cs\<lparr>cs_latencyTracker := Some lt'\<rparr>, None)
              | (lt', Some bl) \<Rightarrow>
                 (let (lt'', r) = latencyLoop now bs b bl lt'
                  in (cs\<lparr>cs_latencyTracker := Some lt''\<rparr>, r)))))"

definition costOrder :: "(string \<times> int) list" where
  "costOrder = [(''deepseek'', 0), (''groq'', 1), (''together'', 2), (''openai'', 3),
     (''anthropic'', 3), (''azure-openai'', 3), (''qianfan'', 2), (''volcengine'', 2)]"

fun costLoop :: "string list \<Rightarrow> string \<Rightarrow> int \<Rightarrow> string" where
  "costLoop [] best bestCost = best"
| "costLoop (b # bs) best bestCost =
     (case map_of costOrder b of
        None \<Rightarrow> costLoop bs best bestCost
      | Some c \<Rightarrow> (if c < bestCost then costLoop bs b c else costLoop bs best bestCost))"

definition cs_selectByCost :: "string list \<Rightarrow> string option" where
  "cs_selectByCost backends = (case backends of [] \<Rightarrow> None | b # bs \<Rightarrow> Some (costLoop backends b 999))"

definition cs_selectRoundRobin :: "string list \<Rightarrow> CloudStrategy \<Rightarrow> CloudStrategy \<times> string option" where
  "cs_selectRoundRobin backends cs =
     (let idx = get_int (cs_counter cs) ''round_robin'';
          cs' = cs\<lparr>cs_counter := (cs_counter cs)(''round_robin'' \<mapsto> idx + 1)\<rparr>
      in (cs', if backends = [] \<or> idx < 0 then None
               else Some (backends ! nat (idx mod int (length backends)))))"

fun weightLoop :: "(string \<Rightarrow> int) \<Rightarrow> int \<Rightarrow> string list \<Rightarrow> int \<Rightarrow> string option" where
  "weightLoop w r [] cumulative = None"
| "weightLoop w r (b # bs) cumulative =
     (if r < cumulative + w b then Some b else weightLoop w r bs (cumulative + w b))"

definition cs_selectByWeight ::
    "(int \<Rightarrow> int) \<Rightarrow> string list \<Rightarrow> CloudStrategy \<Rightarrow> CloudStrategy \<times> string option" where
  "cs_selectByWeight rnd backends cs =
     (let weights = get_int (map_of (crc_CloudWeights (cs_cfg cs)));
          totalWeight = sum_list (map weights backends)
      in if crc_CloudWeights (cs_cfg cs) = [] then cs_selectRoundRobin backends cs
         else if totalWeight = 0 then cs_selectRoundRobin backends cs
         else if totalWeight < 0 then (cs, None)
         else (cs, case weightLoop weights (rnd totalWeight) backends 0 of
                     Some b \<Rightarrow> Some b
                   | None \<Rightarrow> (case backends of [] \<Rightarrow> None | b # bs \<Rightarrow> Some b)))"

definition cs_selectLeastBusy :: "string list \<Rightarrow> CloudStrategy \<Rightarrow> CloudStrategy \<times> string option" where
  "cs_selectLeastBusy backends cs =
     (case cs_latencyTracker cs of None \<Rightarrow> cs_selectRoundRobin backends cs
      | Some lt \<Rightarrow>
         (cs, case backends of [] \<Rightarrow> None
              | b # bs \<Rightarrow> Some (usageLoop (\<lambda>x. lt_SampleCount x lt) bs b (lt_SampleCount b lt))))"

definition cs_selectStrategy ::
    "time \<Rightarrow> (int \<Rightarrow> int) \<Rightarrow> string \<Rightarrow> string list \<Rightarrow> CloudStrategy \<Rightarrow> CloudStrategy \<times> string option" where
  "cs_selectStrategy now rnd strategy candidates cs =
     (if strategy = ''latency'' then cs_selectByLatency now candidates cs
      else if strategy = ''cost'' then (cs, cs_selectByCost candidates)
      else if strategy = ''weight'' then cs_selectByWeight rnd candidates cs
      else if strategy = ''least-busy'' then cs_selectLeastBusy candidates cs
      else if strategy = ''usage'' then (cs, cs_selectByUsage candidates cs)
      else if strategy = ''round-robin'' then cs_selectRoundRobin candidates cs
      else (cs, case candidates of [] \<Rightarrow> None | b # bs \<Rightarrow> Some b))"

definition cs_Select :: "time \<Rightarrow> (int \<Rightarrow> int) \<Rightarrow> string list \<Rightarrow> CloudStrategy \<Rightarrow> CloudStrategy \<times> string option" where
  "cs_Select now rnd backends cs =
     (case backends of
        [] \<Rightarrow> (cs, Some '''')
      | [b] \<Rightarrow> (cs_recordUsage b cs, Some b)
      | _ \<Rightarrow>
         (let candidates = (if crc_CooldownSeconds (cs_cfg cs) > 0
                            then cs_filterCooled now backends cs else backends)
          in case cs_selectStrategy now rnd (crc_Strategy (cs_cfg cs)) candidates cs of
               (cs', None) \<Rightarrow> (cs', None)
             | (cs', Some chosen) \<Rightarrow> (cs_recordUsage chosen cs', Some chosen)))"

text \<open>The governance event an outcome fires, if any.\<close>

datatype cooldown_event = CooldownCleared string | CooldownArmed string int time

definition cs_RecordOutcome ::
    "time \<Rightarrow> string \<Rightarrow> bool \<Rightarrow> CloudStrategy \<Rightarrow> CloudStrategy \<times> cooldown_event option" where
  "cs_RecordOutcome now backend ok cs =
     (if ok then
        (let cs1 = (if get_int (cs_failures cs) backend > 0
                    then cs\<lparr>cs_failures := (cs_failures cs)(backend := None)\<rparr> else cs)
         in if cs_cooldownUntil cs1 backend \<noteq> None
            then (cs1\<lparr>cs_cooldownUntil := (cs_cooldownUntil cs1)(backend := None)\<rparr>,
                  Some (CooldownCleared backend))
            else (cs1, None))
      else
        (let threshold = (if crc_FailureThreshold (cs_cfg cs) \<le> 0 then 1
                          else crc_FailureThreshold (cs_cfg cs));
             n = get_int (cs_failures cs) backend + 1;
             cs1 = cs\<lparr>cs_failures := (cs_failures cs)(backend \<mapsto> n)\<rparr>
         in if n \<ge> threshold \<and> crc_CooldownSeconds (cs_cfg cs) > 0
            then let until = now + crc_CooldownSeconds (cs_cfg cs) * second
                 in (cs1\<lparr>cs_cooldownUntil := (cs_cooldownUntil cs1)(backend \<mapsto> until),
                         cs_failures := (cs_failures cs1)(backend := None)\<rparr>,
                     Some (CooldownArmed backend (crc_CooldownSeconds (cs_cfg cs)) until))
            else (cs1, None)))"

section \<open>Selection stays inside the candidates\<close>

lemma usageLoop_min:
  assumes "bestCount = cnt best"
  shows "usageLoop cnt bs best bestCount \<in> insert best (set bs) \<and>
    (\<forall>x \<in> insert best (set bs). cnt (usageLoop cnt bs best bestCount) \<le> cnt x)"
  using assms
proof (induction bs arbitrary: best bestCount)
  case (Cons b bs)
  show ?case
  proof (cases "cnt b < bestCount")
    case True
    then show ?thesis using Cons.IH [of "cnt b" b] Cons.prems by fastforce
  next
    case False
    then show ?thesis using Cons.IH [of bestCount best] Cons.prems by fastforce
  qed
qed simp

lemma costLoop_in: "costLoop bs best c \<in> insert best (set bs)"
  by (induction bs arbitrary: best c) (auto split: option.splits)

lemma weightLoop_in: "weightLoop w r bs c = Some b \<Longrightarrow> b \<in> set bs"
  by (induction bs arbitrary: c) (auto split: if_splits)

definition min_positive :: "('a \<Rightarrow> int) \<Rightarrow> 'a set \<Rightarrow> 'a \<Rightarrow> bool" where
  "min_positive f A x \<longleftrightarrow> (\<forall>y \<in> A. 0 < f y \<longrightarrow> 0 < f x \<and> f x \<le> f y)"

lemma latencyLoop_correct:
  assumes "lt_coherent lt" and "bl = p95_of (lt_samples lt best)"
  shows "\<exists>lt' b. latencyLoop now bs best bl lt = (lt', Some b) \<and> lt_coherent lt' \<and>
    lt_samples lt' = lt_samples lt \<and> b \<in> insert best (set bs) \<and>
    min_positive (\<lambda>x. p95_of (lt_samples lt x)) (insert best (set bs)) b"
  using assms
proof (induction bs arbitrary: best bl lt)
  case Nil
  then show ?case by (auto simp: min_positive_def)
next
  case (Cons b bs)
  let ?f = "\<lambda>x. p95_of (lt_samples lt x)"
  obtain lt1 where p: "lt_P95 now b lt = (lt1, Some (?f b))"
    and lt1: "lt_coherent lt1" "lt_samples lt1 = lt_samples lt"
    using lt_P95_coherent [OF Cons.prems(1), of now b] by (metis prod.collapse)
  show ?case
  proof (cases "?f b > 0 \<and> (bl \<le> 0 \<or> ?f b < bl)")
    case True
    then show ?thesis
      using Cons.IH [of lt1 "?f b" b] lt1 p Cons.prems(2) by (force simp: min_positive_def)
  next
    case False
    then show ?thesis
      using Cons.IH [of lt1 bl best] lt1 p Cons.prems(2) by (force simp: min_positive_def)
  qed
qed

lemma selectByLatency_correct:
  assumes "backends = b # bs" and "cs_latencyTracker cs = Some lt" and "lt_coherent lt"
  shows "\<exists>cs' x. cs_selectByLatency now backends cs = (cs', Some x) \<and> x \<in> set backends \<and>
    min_positive (\<lambda>y. p95_of (lt_samples lt y)) (set backends) x"
proof -
  obtain lt1 where p: "lt_P95 now b lt = (lt1, Some (p95_of (lt_samples lt b)))"
    and lt1: "lt_coherent lt1" "lt_samples lt1 = lt_samples lt"
    using lt_P95_coherent [OF assms(3), of now b] by (metis prod.collapse)
  obtain lt2 x where l: "latencyLoop now bs b (p95_of (lt_samples lt b)) lt1 = (lt2, Some x)"
    and "x \<in> insert b (set bs)"
    and "min_positive (\<lambda>y. p95_of (lt_samples lt1 y)) (insert b (set bs)) x"
    using latencyLoop_correct [of lt1 "p95_of (lt_samples lt b)" b now bs] lt1 by auto
  then show ?thesis using assms(1,2) p lt1 by (simp add: cs_selectByLatency_def)
qed

definition cs_wf :: "CloudStrategy \<Rightarrow> bool" where
  "cs_wf cs \<longleftrightarrow> 0 \<le> get_int (cs_counter cs) ''round_robin'' \<and>
     (\<forall>lt. cs_latencyTracker cs = Some lt \<longrightarrow> lt_coherent lt) \<and>
     (\<forall>(b, w) \<in> set (crc_CloudWeights (cs_cfg cs)). 0 \<le> w)"

lemma weights_nonneg:
  "\<forall>(b, w) \<in> set ws. 0 \<le> w \<Longrightarrow> 0 \<le> sum_list (map (get_int (map_of ws)) bs)"
  by (rule sum_list_nonneg_int) (auto simp: get_int_def split: option.splits dest!: map_of_SomeD)

lemma selectRoundRobin_in:
  assumes "backends \<noteq> []" and "0 \<le> get_int (cs_counter cs) ''round_robin''"
  shows "\<exists>cs' b. cs_selectRoundRobin backends cs = (cs', Some b) \<and> b \<in> set backends"
  using assms by (simp add: cs_selectRoundRobin_def Let_def nat_less_iff)

lemma selectStrategy_in:
  assumes "cs_wf cs" and "candidates \<noteq> []"
  shows "\<exists>cs' b. cs_selectStrategy now rnd strategy candidates cs = (cs', Some b) \<and> b \<in> set candidates"
proof -
  obtain c bs where c: "candidates = c # bs" using assms(2) by (cases candidates) auto
  have rr: "\<exists>cs' b. cs_selectRoundRobin candidates cs = (cs', Some b) \<and> b \<in> set candidates"
    using assms by (intro selectRoundRobin_in) (auto simp: cs_wf_def)
  have "\<exists>cs' b. cs_selectByLatency now candidates cs = (cs', Some b) \<and> b \<in> set candidates"
    using selectByLatency_correct [OF c] assms(1) c
    by (cases "cs_latencyTracker cs") (fastforce simp: cs_selectByLatency_def cs_wf_def)+
  moreover have "\<exists>b. cs_selectByCost candidates = Some b \<and> b \<in> set candidates"
    using costLoop_in [of candidates c 999] c by (auto simp: cs_selectByCost_def)
  moreover have "\<exists>cs' b. cs_selectByWeight rnd candidates cs = (cs', Some b) \<and> b \<in> set candidates"
    using rr c weights_nonneg [of "crc_CloudWeights (cs_cfg cs)" candidates] assms(1)
    by (auto simp: cs_selectByWeight_def cs_wf_def Let_def not_less
        split: option.splits dest: weightLoop_in)
  moreover have "\<exists>cs' b. cs_selectLeastBusy candidates cs = (cs', Some b) \<and> b \<in> set candidates"
    using rr c usageLoop_min [of _ _ c bs]
    by (auto simp: cs_selectLeastBusy_def split: option.splits)
  moreover have "\<exists>b. cs_selectByUsage candidates cs = Some b \<and> b \<in> set candidates"
    using c usageLoop_min [of _ "get_int (cs_usage cs)" c bs] by (auto simp: cs_selectByUsage_def)
  ultimately show ?thesis using rr c unfolding cs_selectStrategy_def by auto
qed

text \<open>
  Every strategy selects one of the offered backends and never panics (the index expressions
  are in range, \<^verbatim>\<open>rand.Intn\<close> is called with a positive argument), provided no configured weight is
  negative; and with the cooldown enabled a backend in its cooldown window is selected only if all
  offered backends are cooling down.
\<close>

theorem cloud_select_sound:
  assumes "cs_wf cs" and "2 \<le> length backends"
  shows "\<exists>cs' b. cs_Select now rnd backends cs = (cs', Some b) \<and> b \<in> set backends \<and>
    (0 < crc_CooldownSeconds (cs_cfg cs) \<and> cs_cooled now cs b \<longrightarrow>
      (\<forall>x \<in> set backends. cs_cooled now cs x))"
proof -
  obtain a b bs where bl: "backends = a # b # bs" using assms(2)
    by (metis Suc_le_length_iff numeral_2_eq_2)
  define cand where "cand = (if crc_CooldownSeconds (cs_cfg cs) > 0
      then cs_filterCooled now backends cs else backends)"
  have cand: "cand \<noteq> []" "set cand \<subseteq> set backends"
    "0 < crc_CooldownSeconds (cs_cfg cs) \<Longrightarrow> x \<in> set cand \<Longrightarrow> cs_cooled now cs x \<Longrightarrow>
      \<forall>y \<in> set backends. cs_cooled now cs y" for x
    unfolding cand_def using bl
    by (auto simp: cs_filterCooled_def Let_def filter_empty_conv split: if_splits)
  obtain cs' x where s: "cs_selectStrategy now rnd (crc_Strategy (cs_cfg cs)) cand cs = (cs', Some x)"
    and x: "x \<in> set cand"
    using selectStrategy_in [OF assms(1) cand(1)] by blast
  have "cs_Select now rnd backends cs = (cs_recordUsage x cs', Some x)"
    using s unfolding cs_Select_def bl cand_def by (simp add: Let_def)
  then show ?thesis using cand x by blast
qed

definition cs_example :: CloudStrategy where
  "cs_example = (NewCloudStrategy \<lparr>crc_Strategy = ''round-robin'', crc_CloudWeights = [],
     crc_CooldownSeconds = 30, crc_FailureThreshold = 2\<rparr> None)\<lparr>cs_cooldownUntil := [''a'' \<mapsto> 100]\<rparr>"

lemma cs_example_wf: "cs_wf cs_example"
  by (simp add: cs_wf_def cs_example_def NewCloudStrategy_def)

theorem cloud_select_sound_witness:
  "\<exists>cs'. cs_Select 50 (\<lambda>_. 0) [''a'', ''b''] cs_example = (cs', Some ''b'')"
  using cloud_select_sound [OF cs_example_wf, of "[''a'', ''b'']" 50 "\<lambda>_. 0"]
  by (auto simp: cs_example_def NewCloudStrategy_def cs_cooled_def)

section \<open>What the strategies optimise\<close>

text \<open>
  The latency strategy returns a backend with the smallest positive 95th percentile among the
  candidates (backends without samples count as unknown, not as fast); the usage and least-busy
  strategies return one with a minimal selection count, respectively sample count.
\<close>

theorem cloud_strategies_optimal:
  assumes "backends \<noteq> []" and "cs_latencyTracker cs = Some lt" and "lt_coherent lt"
  shows "(\<exists>cs' x. cs_selectByLatency now backends cs = (cs', Some x) \<and> x \<in> set backends \<and>
      (\<forall>y \<in> set backends. 0 < p95_of (lt_samples lt y) \<longrightarrow>
         0 < p95_of (lt_samples lt x) \<and> p95_of (lt_samples lt x) \<le> p95_of (lt_samples lt y))) \<and>
    (\<exists>x \<in> set backends. cs_selectByUsage backends cs = Some x \<and>
      (\<forall>y \<in> set backends. get_int (cs_usage cs) x \<le> get_int (cs_usage cs) y)) \<and>
    (\<exists>x \<in> set backends. snd (cs_selectLeastBusy backends cs) = Some x \<and>
      (\<forall>y \<in> set backends. lt_SampleCount x lt \<le> lt_SampleCount y lt))"
proof -
  obtain b bs where b: "backends = b # bs" using assms(1) by (cases backends) auto
  show ?thesis
    using selectByLatency_correct [OF b assms(2,3)] assms(2)
      usageLoop_min [of _ "get_int (cs_usage cs)" b bs] usageLoop_min [of _ "\<lambda>x. lt_SampleCount x lt" b bs]
    by (simp add: min_positive_def cs_selectByUsage_def cs_selectLeastBusy_def b)
qed

lemma lt_example_coherent: "lt_coherent (lt_Record ''b'' 7 (NewLatencyTracker 10))"
  by (rule lt_Record_coherent [OF lt_coherent_New])

theorem cloud_strategies_optimal_witness:
  "\<exists>cs'. cs_selectByLatency 5 [''a'', ''b'']
     (cs_example\<lparr>cs_latencyTracker := Some (lt_Record ''b'' 7 (NewLatencyTracker 10))\<rparr>) = (cs', Some ''b'')"
proof -
  let ?lt = "lt_Record ''b'' 7 (NewLatencyTracker 10)"
  have "lt_samples ?lt ''b'' = [7]" "lt_samples ?lt ''a'' = []"
    by (simp_all add: lt_Record_def Let_def lt_samples_def NewLatencyTracker_def)
  then have p: "p95_of (lt_samples ?lt ''b'') = 7" "p95_of (lt_samples ?lt ''a'') = 0"
    by (simp_all add: p95_of_def)
  obtain cs' x where "cs_selectByLatency 5 [''a'', ''b''] (cs_example\<lparr>cs_latencyTracker := Some ?lt\<rparr>) =
      (cs', Some x)" "x \<in> set [''a'', ''b'']" "0 < p95_of (lt_samples ?lt x)"
    using cloud_strategies_optimal [of "[''a'', ''b'']" "cs_example\<lparr>cs_latencyTracker := Some ?lt\<rparr>" ?lt 5]
      lt_example_coherent p by auto
  then show ?thesis using p by auto
qed

text \<open>Repeated selection, collecting the choices.\<close>

fun cs_SelectMany ::
    "nat \<Rightarrow> time \<Rightarrow> (int \<Rightarrow> int) \<Rightarrow> string list \<Rightarrow> CloudStrategy \<Rightarrow> string option list" where
  "cs_SelectMany 0 now rnd backends cs = []"
| "cs_SelectMany (Suc n) now rnd backends cs =
     (let (cs', r) = cs_Select now rnd backends cs in r # cs_SelectMany n now rnd backends cs')"

lemma cs_recordUsage_frame [simp]:
  "cs_counter (cs_recordUsage b cs) = cs_counter cs" "cs_cfg (cs_recordUsage b cs) = cs_cfg cs"
  by (simp_all add: cs_recordUsage_def)

lemma roundRobin_Select:
  assumes "crc_Strategy (cs_cfg cs) = ''round-robin''" "crc_CooldownSeconds (cs_cfg cs) \<le> 0"
    and "2 \<le> length backends" "get_int (cs_counter cs) ''round_robin'' = int c"
  shows "\<exists>cs'. cs_Select now rnd backends cs = (cs', Some (backends ! (c mod length backends))) \<and>
    cs_cfg cs' = cs_cfg cs \<and> get_int (cs_counter cs') ''round_robin'' = int (Suc c)"
proof -
  obtain a b bs where bl: "backends = a # b # bs" using assms(3)
    by (metis Suc_le_length_iff numeral_2_eq_2)
  have "nat (int c mod int (length backends)) = c mod length backends" by (simp flip: zmod_int)
  then show ?thesis
    using assms(1,2,4) bl by (simp add: cs_Select_def cs_selectStrategy_def cs_selectRoundRobin_def Let_def)
qed

lemma roundRobin_many:
  assumes "crc_Strategy (cs_cfg cs) = ''round-robin''" "crc_CooldownSeconds (cs_cfg cs) \<le> 0"
    and "2 \<le> length backends" "get_int (cs_counter cs) ''round_robin'' = int c"
  shows "cs_SelectMany n now rnd backends cs =
    map (\<lambda>i. Some (backends ! (i mod length backends))) [c..<c + n]"
  using assms
proof (induction n arbitrary: cs c)
  case (Suc n)
  obtain cs' where "cs_Select now rnd backends cs = (cs', Some (backends ! (c mod length backends)))"
    "cs_cfg cs' = cs_cfg cs" "get_int (cs_counter cs') ''round_robin'' = int (Suc c)"
    using roundRobin_Select [OF Suc.prems] by blast
  then show ?case using Suc.IH [of cs' "Suc c"] Suc.prems by (simp add: upt_conv_Cons del: upt_Suc)
qed simp

lemma mod_window_bij:
  assumes "0 < n"
  shows "(\<lambda>i. i mod n) ` {c..<c + n} = {0..<n::nat}"
proof -
  have "inj_on (\<lambda>i. i mod n) {c..<c + n}"
  proof (rule inj_onI)
    fix x y assume "x \<in> {c..<c + n}" "y \<in> {c..<c + n}" "x mod n = y mod n"
    then have "int x mod int n = int y mod int n" "\<bar>int x - int y\<bar> < int n"
      by (auto simp flip: zmod_int)
    then show "x = y"
      by (metis mod_eq_dvd_iff dvd_imp_le_int of_nat_eq_iff right_minus_eq abs_of_nat not_less)
  qed
  moreover have "(\<lambda>i. i mod n) ` {c..<c + n} \<subseteq> {0..<n}" using assms by auto
  ultimately show ?thesis by (intro card_subset_eq) (auto simp: card_image)
qed

text \<open>
  Round robin is fair: with no cooldown, any \<open>n\<close> consecutive selections over \<open>n\<close> backends pick
  every backend exactly once, in cyclic order from the current counter.
\<close>

theorem round_robin_fair:
  assumes "crc_Strategy (cs_cfg cs) = ''round-robin''" and "crc_CooldownSeconds (cs_cfg cs) \<le> 0"
    and "2 \<le> length backends" and "get_int (cs_counter cs) ''round_robin'' = int c"
  shows "cs_SelectMany (length backends) now rnd backends cs =
      map (\<lambda>i. Some (backends ! (i mod length backends))) [c..<c + length backends] \<and>
    mset (cs_SelectMany (length backends) now rnd backends cs) = mset (map Some backends)"
proof -
  let ?n = "length backends"
  have many: "cs_SelectMany ?n now rnd backends cs =
      map (\<lambda>i. Some (backends ! (i mod ?n))) [c..<c + ?n]"
    using roundRobin_many [OF assms] .
  have n: "0 < ?n" using assms(3) by linarith
  have "mset (map (\<lambda>i. i mod ?n) [c..<c + ?n]) = mset [0..<?n]"
  proof (rule iffD1 [OF set_eq_iff_mset_eq_distinct])
    show "distinct (map (\<lambda>i. i mod ?n) [c..<c + ?n])"
      using mod_window_bij [OF n, of c] by (intro card_distinct) simp
    show "set (map (\<lambda>i. i mod ?n) [c..<c + ?n]) = set [0..<?n]"
      using mod_window_bij [OF n, of c] by simp
  qed simp
  then have "mset (map (\<lambda>i. Some (backends ! i)) (map (\<lambda>i. i mod ?n) [c..<c + ?n])) =
      mset (map (\<lambda>i. Some (backends ! i)) [0..<?n])"
    by (simp only: mset_map)
  also have "map (\<lambda>i. Some (backends ! i)) [0..<?n] = map Some backends"
    by (metis (no_types, lifting) map_map map_nth comp_apply map_eq_conv)
  finally show ?thesis using many by (simp add: comp_def)
qed

definition cs_rr_example :: CloudStrategy where
  "cs_rr_example = NewCloudStrategy \<lparr>crc_Strategy = ''round-robin'', crc_CloudWeights = [],
     crc_CooldownSeconds = 0, crc_FailureThreshold = 0\<rparr> None"

theorem round_robin_fair_witness:
  "mset (cs_SelectMany (length [''a'', ''b'', ''c'']) 0 (\<lambda>_. 0) [''a'', ''b'', ''c''] cs_rr_example) =
   mset [Some ''a'', Some ''b'', Some ''c'']"
proof -
  have "crc_Strategy (cs_cfg cs_rr_example) = ''round-robin''"
    "crc_CooldownSeconds (cs_cfg cs_rr_example) \<le> 0"
    "get_int (cs_counter cs_rr_example) ''round_robin'' = int 0"
    by (simp_all add: cs_rr_example_def NewCloudStrategy_def)
  from round_robin_fair [OF this(1,2) _ this(3), of "[''a'', ''b'', ''c'']" 0 "\<lambda>_. 0"]
  show ?thesis by (simp only: list.map) simp
qed

section \<open>Cooldown\<close>

definition cs_failN :: "nat \<Rightarrow> time \<Rightarrow> string \<Rightarrow> CloudStrategy \<Rightarrow> CloudStrategy" where
  "cs_failN n now b cs = ((\<lambda>cs. fst (cs_RecordOutcome now b False cs)) ^^ n) cs"

lemma cs_failN_Suc: "cs_failN (Suc n) now b cs = fst (cs_RecordOutcome now b False (cs_failN n now b cs))"
  by (simp add: cs_failN_def)

lemma cs_failN_cfg [simp]: "cs_cfg (cs_failN n now b cs) = cs_cfg cs"
  by (induction n) (simp_all add: cs_failN_Suc cs_RecordOutcome_def Let_def, simp add: cs_failN_def)

lemma cs_failN_below:
  assumes "get_int (cs_failures cs) b = 0" and "cs_cooldownUntil cs b = None"
    and "int n < max 1 (crc_FailureThreshold (cs_cfg cs))" "0 < crc_CooldownSeconds (cs_cfg cs)"
  shows "get_int (cs_failures (cs_failN n now b cs)) b = int n \<and>
    cs_cooldownUntil (cs_failN n now b cs) b = None"
  using assms(3)
proof (induction n)
  case 0
  then show ?case using assms by (simp add: cs_failN_def)
next
  case (Suc n)
  then show ?case using assms(4)
    by (auto simp: cs_failN_Suc cs_RecordOutcome_def Let_def max_def get_int_def split: if_splits)
qed

lemma cs_failN_disabled:
  assumes "cs_cooldownUntil cs b = None" and "crc_CooldownSeconds (cs_cfg cs) \<le> 0"
  shows "cs_cooldownUntil (cs_failN n now b cs) b = None"
  using assms by (induction n) (auto simp: cs_failN_Suc cs_RecordOutcome_def Let_def, simp add: cs_failN_def)

lemma cs_success_clears:
  "cs_cooldownUntil (fst (cs_RecordOutcome t b True cs)) b = None"
  by (simp add: cs_RecordOutcome_def Let_def)

text \<open>
  Cooldown arming: starting without a failure streak or cooldown, a backend is cooled down
  by exactly \<open>max 1 failure_threshold\<close> consecutive failures, for the configured number of seconds;
  one success ends the cooldown at once; with the cooldown disabled failures never
  exclude a backend.
\<close>

theorem cooldown_arms_at_threshold:
  assumes "get_int (cs_failures cs) b = 0" and "cs_cooldownUntil cs b = None"
    and "int n \<le> max 1 (crc_FailureThreshold (cs_cfg cs))"
  shows "cs_cooldownUntil (cs_failN n now b cs) b =
      (if 0 < crc_CooldownSeconds (cs_cfg cs) \<and> int n = max 1 (crc_FailureThreshold (cs_cfg cs))
       then Some (now + crc_CooldownSeconds (cs_cfg cs) * second) else None) \<and>
    cs_cooldownUntil (fst (cs_RecordOutcome later b True (cs_failN n now b cs))) b = None"
proof (cases "0 < crc_CooldownSeconds (cs_cfg cs) \<and> int n = max 1 (crc_FailureThreshold (cs_cfg cs))")
  case True
  then obtain m where m: "n = Suc m" by (cases n) auto
  with True have "int m < max 1 (crc_FailureThreshold (cs_cfg cs))" by simp
  from cs_failN_below [OF assms(1,2) this] True m show ?thesis
    by (auto simp: cs_success_clears cs_failN_Suc cs_RecordOutcome_def Let_def max_def split: if_splits)
next
  case False
  then have "cs_cooldownUntil (cs_failN n now b cs) b = None"
    using assms(3) cs_failN_below [OF assms(1,2), of n now] cs_failN_disabled [OF assms(2), of n now]
    by (cases "0 < crc_CooldownSeconds (cs_cfg cs)") simp_all
  then show ?thesis using False by (auto simp: cs_success_clears)
qed

theorem cooldown_arms_at_threshold_witness:
  "cs_cooldownUntil (cs_failN 2 7 ''b'' cs_example) ''b'' = Some (7 + 30 * second)"
  using cooldown_arms_at_threshold [of cs_example "''b''" 2 7 9]
  by (simp add: cs_example_def NewCloudStrategy_def)

end
