(* ===== verification/Principals.thy ===== *)
theory Principals
  imports Gateway_Prelude
begin

text \<open>
  Who a request is from and what it may do: the principal (\<^verbatim>\<open>middleware/principal.go\<close>), role-based access
  (\<^verbatim>\<open>middleware/rbac.go\<close>), scopes (\<^verbatim>\<open>middleware/scope.go\<close>) and the access checks of \<^verbatim>\<open>middleware/auth.go\<close>.

  A middleware is a function on the request context that returns the context its successor sees and, when it answers itself,
  the status and message of its answer (or that it panics).  The principal and the request-log entry are pointers in the context: \<open>outer_view\<close> is
  what a caller that still holds the original context sees of them afterwards.
\<close>

section \<open>Principals\<close>

type_synonym Role = string

abbreviation RoleAdmin :: Role where "RoleAdmin \<equiv> ''admin''"
abbreviation RoleEditor :: Role where "RoleEditor \<equiv> ''editor''"
abbreviation RoleViewer :: Role where "RoleViewer \<equiv> ''viewer''"
abbreviation RoleInference :: Role where "RoleInference \<equiv> ''inference''"

record TeamInfo =
  ti_ID :: string
  ti_Name :: string
  ti_Role :: Role
  ti_QuotaLimit :: float64
  ti_QuotaUsed :: float64
  ti_AllowedModels :: "string list"
  ti_Tier :: string

definition newTeamInfo :: "string \<Rightarrow> string \<Rightarrow> Role \<Rightarrow> TeamInfo" where
  "newTeamInfo ident name role =
     \<lparr>ti_ID = ident, ti_Name = name, ti_Role = role, ti_QuotaLimit = 0, ti_QuotaUsed = 0, ti_AllowedModels = [], ti_Tier = ''''\<rparr>"

record AuthKeyConfig =
  akc_Key :: string
  akc_Name :: string
  akc_AllowedBackends :: "string list"
  akc_AllowedModels :: "string list"
  akc_ModelModules :: "string list"
  akc_RPM :: int
  akc_TPM :: int
  akc_ExpiresAt :: string
  akc_BudgetLimit :: float64
  akc_DailyBudgetLimit :: float64
  akc_TeamID :: string
  akc_Scopes :: "string list"

text \<open>A configuration with only a key and a name; the other fields have their zero values.\<close>

definition keyConfig :: "string \<Rightarrow> string \<Rightarrow> AuthKeyConfig" where
  "keyConfig key name =
     \<lparr>akc_Key = key, akc_Name = name, akc_AllowedBackends = [], akc_AllowedModels = [], akc_ModelModules = [], akc_RPM = 0,
      akc_TPM = 0, akc_ExpiresAt = '''', akc_BudgetLimit = 0, akc_DailyBudgetLimit = 0, akc_TeamID = '''', akc_Scopes = []\<rparr>"

text \<open>Claims of a token, as far as the code distinguishes their dynamic types.\<close>

datatype claim = ClaimString string | ClaimList "claim list" | ClaimOther

type_synonym MapClaims = "string \<Rightarrow> claim option"

record Principal =
  pr_AuthMethod :: string
  pr_KeyConfig :: "AuthKeyConfig option"
  pr_IsMaster :: bool
  pr_OIDCClaims :: "MapClaims option"
  pr_OIDCToken :: string
  pr_Role :: Role
  pr_Team :: "TeamInfo option"
  pr_ModelModules :: "string list"

definition newPrincipal :: "Role \<Rightarrow> Principal" where
  "newPrincipal role =
     \<lparr>pr_AuthMethod = '''', pr_KeyConfig = None, pr_IsMaster = False, pr_OIDCClaims = None, pr_OIDCToken = '''', pr_Role = role,
      pr_Team = None, pr_ModelModules = []\<rparr>"

record IdentityLease =
  il_LeaseID :: string
  il_TenantID :: string
  il_Priority :: int
  il_MaxAllowedTokens :: int

record RequestCtx =
  rc_Principal :: "Principal option"
  rc_Tenant :: string
  rc_CallerName :: string
  rc_Lease :: "IdentityLease option"
  rc_LogKeyName :: "string option"

record InboundRequest =
  in_Method :: string
  in_Path :: string
  in_Authorization :: string
  in_XApiKey :: string
  in_RemoteAddr :: string
  in_Body :: string

definition bearerToken :: "InboundRequest \<Rightarrow> string" where
  "bearerToken r = (if HasPrefix (in_Authorization r) ''Bearer '' then TrimSpace (drop 7 (in_Authorization r)) else '''')"

datatype mw_answer = Respond int string | Panics

type_synonym refusal = "mw_answer option"
type_synonym mw = "InboundRequest \<Rightarrow> RequestCtx \<Rightarrow> RequestCtx \<times> refusal"

definition outer_view :: "RequestCtx \<Rightarrow> RequestCtx \<Rightarrow> RequestCtx" where
  "outer_view outer derived =
     outer\<lparr>rc_Principal := (if rc_Principal outer = None then None else rc_Principal derived), rc_LogKeyName := rc_LogKeyName derived\<rparr>"

definition WithTenant :: "RequestCtx \<Rightarrow> string \<Rightarrow> RequestCtx" where
  "WithTenant ctx tenant = (if tenant = '''' then ctx else ctx\<lparr>rc_Tenant := tenant\<rparr>)"

definition WithPrincipal :: "RequestCtx \<Rightarrow> string \<Rightarrow> RequestCtx" where
  "WithPrincipal ctx name = (if name = '''' then ctx else ctx\<lparr>rc_CallerName := name\<rparr>)"

definition StampAPIKeyName :: "RequestCtx \<Rightarrow> string \<Rightarrow> RequestCtx" where
  "StampAPIKeyName ctx keyName =
     (if keyName = '''' then ctx else ctx\<lparr>rc_LogKeyName := map_option (\<lambda>_. keyName) (rc_LogKeyName ctx)\<rparr>)"

definition EnsurePrincipal :: "RequestCtx \<Rightarrow> RequestCtx \<times> Principal" where
  "EnsurePrincipal ctx =
     (case rc_Principal ctx of
        Some p \<Rightarrow> (ctx, p)
      | None \<Rightarrow> (let p = newPrincipal RoleViewer in (ctx\<lparr>rc_Principal := Some p\<rparr>, p)))"

definition Subject :: "Principal \<Rightarrow> string" where
  "Subject p =
     (case pr_OIDCClaims p of
        Some claims \<Rightarrow>
          (case claims ''sub'' of Some (ClaimString sub) \<Rightarrow> sub
           | _ \<Rightarrow> (case pr_KeyConfig p of
                Some k \<Rightarrow> if akc_Name k \<noteq> '''' then akc_Name k else if pr_IsMaster p then ''master'' else ''anonymous''
              | None \<Rightarrow> if pr_IsMaster p then ''master'' else ''anonymous''))
      | None \<Rightarrow> (case pr_KeyConfig p of
           Some k \<Rightarrow> if akc_Name k \<noteq> '''' then akc_Name k else if pr_IsMaster p then ''master'' else ''anonymous''
         | None \<Rightarrow> if pr_IsMaster p then ''master'' else ''anonymous''))"

definition KeyName :: "Principal \<Rightarrow> string" where
  "KeyName p =
     (case pr_KeyConfig p of
        Some k \<Rightarrow> if akc_Name k \<noteq> '''' then akc_Name k else if pr_IsMaster p then ''master'' else ''anonymous''
      | None \<Rightarrow> if pr_IsMaster p then ''master'' else ''anonymous'')"

definition EffectiveRole :: "Principal \<Rightarrow> Role" where
  "EffectiveRole p = (if pr_IsMaster p then RoleInference else if pr_Role p \<noteq> '''' then pr_Role p else RoleViewer)"

definition GetAuthKeyConfig :: "RequestCtx \<Rightarrow> AuthKeyConfig option" where
  "GetAuthKeyConfig ctx = (case rc_Principal ctx of None \<Rightarrow> None | Some p \<Rightarrow> pr_KeyConfig p)"

definition IsMasterKey :: "RequestCtx \<Rightarrow> bool" where
  "IsMasterKey ctx = (case rc_Principal ctx of None \<Rightarrow> False | Some p \<Rightarrow> pr_IsMaster p)"

definition GetOIDCClaims :: "RequestCtx \<Rightarrow> MapClaims option" where
  "GetOIDCClaims ctx = (case rc_Principal ctx of None \<Rightarrow> None | Some p \<Rightarrow> pr_OIDCClaims p)"

definition GetRBACRole :: "RequestCtx \<Rightarrow> Role" where
  "GetRBACRole ctx = (case rc_Principal ctx of None \<Rightarrow> RoleViewer | Some p \<Rightarrow> EffectiveRole p)"

definition IsAdmin :: "RequestCtx \<Rightarrow> bool" where
  "IsAdmin ctx = (case rc_Principal ctx of None \<Rightarrow> False | Some p \<Rightarrow> EffectiveRole p = RoleAdmin)"

definition CanWrite :: "RequestCtx \<Rightarrow> bool" where
  "CanWrite ctx =
     (case rc_Principal ctx of None \<Rightarrow> False | Some p \<Rightarrow> EffectiveRole p = RoleAdmin \<or> EffectiveRole p = RoleEditor)"

section \<open>Role-based access\<close>

record RBACConfig =
  rb_Enabled :: bool
  rb_DefaultRole :: string
  rb_TrustOIDCClaims :: bool

record TeamConfig =
  tc_Enabled :: bool
  tc_DefaultTeam :: string

definition isMutationMethod :: "string \<Rightarrow> bool" where
  "isMutationMethod meth \<longleftrightarrow> meth = ''POST'' \<or> meth = ''PUT'' \<or> meth = ''PATCH'' \<or> meth = ''DELETE''"

fun groupsRole :: "claim list \<Rightarrow> Role \<Rightarrow> Role" where
  "groupsRole [] role = role"
| "groupsRole (g # gs) role =
     (let grp = (case g of ClaimString s \<Rightarrow> s | _ \<Rightarrow> '''') in
      if grp = ''fusion-admin'' \<or> grp = ''admins'' then RoleAdmin
      else groupsRole gs (if (grp = ''fusion-editor'' \<or> grp = ''editors'') \<and> role \<noteq> RoleAdmin then RoleEditor else role))"

definition claimRole :: "MapClaims \<Rightarrow> Role \<Rightarrow> Role" where
  "claimRole claims role0 =
     (let role = (case claims ''role'' of
                    Some (ClaimString s) \<Rightarrow> (let r = ToLower s in if r = RoleAdmin \<or> r = RoleEditor \<or> r = RoleViewer then r else role0)
                  | _ \<Rightarrow> role0)
      in case claims ''groups'' of Some (ClaimList gs) \<Rightarrow> groupsRole gs role | _ \<Rightarrow> role)"

definition rbacRole :: "RBACConfig \<Rightarrow> Principal \<Rightarrow> Role" where
  "rbacRole cfg p =
     (let role = (if rb_DefaultRole cfg = '''' then RoleViewer else rb_DefaultRole cfg);
          role1 = (case pr_OIDCClaims p of Some claims \<Rightarrow> if rb_TrustOIDCClaims cfg then claimRole claims role else role | None \<Rightarrow> role)
      in if pr_IsMaster p then RoleInference else role1)"

text \<open>The team of the configuration or of the claims; it replaces whatever team the principal had.\<close>

definition rbacTeamID :: "TeamConfig \<Rightarrow> Principal \<Rightarrow> string" where
  "rbacTeamID tc p =
     (case pr_OIDCClaims p of
        Some claims \<Rightarrow> (case claims ''team'' of Some (ClaimString tid) \<Rightarrow> if tid \<noteq> '''' then tid else tc_DefaultTeam tc | _ \<Rightarrow> tc_DefaultTeam tc)
      | None \<Rightarrow> tc_DefaultTeam tc)"

definition rbacTeam :: "TeamConfig option \<Rightarrow> Role \<Rightarrow> Principal \<Rightarrow> RequestCtx \<Rightarrow> RequestCtx" where
  "rbacTeam teamCfg role p ctx =
     (case teamCfg of
        Some tc \<Rightarrow>
          (let teamID = rbacTeamID tc p in
           if tc_Enabled tc \<and> teamID \<noteq> ''''
           then (let ctx1 = ctx\<lparr>rc_Principal := Some (p\<lparr>pr_Team := Some (newTeamInfo teamID teamID role)\<rparr>)\<rparr>
                 in if rc_Tenant ctx1 = '''' then WithTenant ctx1 teamID else ctx1)
           else ctx\<lparr>rc_Principal := Some p\<rparr>)
      | None \<Rightarrow> ctx\<lparr>rc_Principal := Some p\<rparr>)"

definition RBACAuth :: "RBACConfig \<Rightarrow> TeamConfig option \<Rightarrow> mw" where
  "RBACAuth cfg teamCfg r ctx0 =
     (let (ctx, p) = EnsurePrincipal ctx0 in
      if pr_AuthMethod p = ''admin-jwt'' \<or> pr_AuthMethod p = ''shell-session'' then (ctx, None)
      else if \<not> rb_Enabled cfg then (ctx, None)
      else
        (let role = rbacRole cfg p; ctx1 = rbacTeam teamCfg role (p\<lparr>pr_Role := role\<rparr>) ctx
         in if role = RoleViewer \<and> isMutationMethod (in_Method r) then (ctx1, Some (Respond 403 ''Insufficient permissions'')) else (ctx1, None)))"

section \<open>Scopes and access checks\<close>

definition inferenceModule :: "InboundRequest \<Rightarrow> string" where
  "inferenceModule r =
     (let path = in_Path r in
      if HasPrefix path ''/v1/chat/'' \<or> HasPrefix path ''/v1/messages'' \<or> HasPrefix path ''/v1/completions'' then ''chat''
      else if HasPrefix path ''/v1/embeddings'' \<or> HasPrefix path ''/v1/rerank'' then ''rag''
      else if HasPrefix path ''/v1/images'' then ''design''
      else if HasPrefix path ''/gateway/v1/connector'' then ''agent''
      else '''')"

definition ScopeAllowsModule :: "string list \<Rightarrow> string \<Rightarrow> bool" where
  "ScopeAllowsModule scopes modl \<longleftrightarrow>
     modl = '''' \<or> list_ex (\<lambda>sc. sc = ''*'' \<or> sc = modl \<or> HasPrefix sc (modl @ '':'')) scopes"

definition ScopeEnforce :: mw where
  "ScopeEnforce r ctx =
     (case rc_Principal ctx of
        None \<Rightarrow> (ctx, None)
      | Some p \<Rightarrow>
          if pr_IsMaster p then (ctx, None)
          else (case pr_KeyConfig p of
             None \<Rightarrow> (ctx, None)
           | Some k \<Rightarrow>
               if akc_Scopes k = [] then (ctx, None)
               else if pr_AuthMethod p \<noteq> ''apikey'' then (ctx, None)
               else if inferenceModule r = '''' then (ctx, None)
               else if ScopeAllowsModule (akc_Scopes k) (inferenceModule r) then (ctx, None)
               else (ctx, Some (Respond 403 ''API key not authorized for this module''))))"

fun modelPatternMatch :: "string \<Rightarrow> string list \<Rightarrow> bool" where
  "modelPatternMatch model [] = False"
| "modelPatternMatch model (allowed # rest) =
     (let a = ToLower allowed in
      if allowed = ''*'' then True
      else if a = model then True
      else if HasSuffix a ''*'' \<and> HasPrefix model (take (length a - 1) a) then True
      else modelPatternMatch model rest)"

definition CheckModelAllowlist :: "RequestCtx \<Rightarrow> string \<Rightarrow> bool" where
  "CheckModelAllowlist ctx model =
     (case rc_Principal ctx of
        None \<Rightarrow> True
      | Some p \<Rightarrow>
          if pr_IsMaster p then True
          else (case pr_KeyConfig p of
             None \<Rightarrow> True
           | Some k \<Rightarrow> if akc_AllowedModels k = [] then True else modelPatternMatch (ToLower model) (akc_AllowedModels k)))"

definition ValidModule :: "string \<Rightarrow> bool" where
  "ValidModule modl \<longleftrightarrow> modl \<in> {''chat'', ''code'', ''design'', ''rag'', ''agent''}"

definition CheckModelModuleAccess :: "RequestCtx \<Rightarrow> string \<Rightarrow> bool" where
  "CheckModelModuleAccess ctx modl =
     (case rc_Principal ctx of
        None \<Rightarrow> True
      | Some p \<Rightarrow> if pr_IsMaster p then True else if pr_ModelModules p = [] then True
                  else list_ex (\<lambda>a. a = ''*'' \<or> a = modl) (pr_ModelModules p))"

definition CheckBackendAccess :: "RequestCtx \<Rightarrow> string \<Rightarrow> bool" where
  "CheckBackendAccess ctx backend =
     (case rc_Principal ctx of
        None \<Rightarrow> True
      | Some p \<Rightarrow>
          if pr_IsMaster p then True
          else (case pr_KeyConfig p of
             None \<Rightarrow> True
           | Some k \<Rightarrow> if akc_AllowedBackends k = [] then True else list_ex (\<lambda>a. a = ''*'' \<or> a = backend) (akc_AllowedBackends k)))"

end
