(* ===== verification/Rate_Limiter.thy ===== *)
theory Rate_Limiter
  imports Principals
begin

text \<open>
  The per-key rate limiter and its HTTP middleware (\<^verbatim>\<open>middleware/ratelimit.go\<close>).

  The limiter keeps, per counter key, the timestamps (and token counts) of the requests it granted; each check purges what
  is older than a minute.  The middleware takes the RPM slot first and gives it back when the TPM check refuses.  A request
  is one operation at one instant; a tick of the cleanup goroutine is an operation too.  The theory shows that purging,
  rollback and cleanup are invisible: the middleware answers exactly like one that keeps the complete log of granted requests
  and counts in it, and so no window of a minute ever holds more requests or tokens than configured.
\<close>

section \<open>State\<close>

record slidingWindow =
  sw_timestamps :: "time list"
  sw_tokens :: "int list"
  sw_totalTokens :: int

record keyState =
  ks_sw :: slidingWindow
  ks_lastAccess :: time

record RateLimiter =
  rl_counters :: "string \<Rightarrow> keyState option"

record RateLimitConfig =
  rlc_Enabled :: bool
  rlc_KeyEnforcement :: bool
  rlc_AnonymousRPM :: int

record HttpRequest =
  hr_Principal :: "Principal option"
  hr_RemoteAddr :: string
  hr_Body :: string

definition NewRateLimiter :: RateLimiter where
  "NewRateLimiter = \<lparr>rl_counters = (\<lambda>_. None)\<rparr>"

section \<open>Limiter operations\<close>

definition getOrCreate :: "time \<Rightarrow> string \<Rightarrow> RateLimiter \<Rightarrow> RateLimiter \<times> keyState" where
  "getOrCreate now key rl =
     (let ks = (case rl_counters rl key of
                  Some ks \<Rightarrow> ks\<lparr>ks_lastAccess := now\<rparr>
                | None \<Rightarrow> \<lparr>ks_sw = \<lparr>sw_timestamps = [], sw_tokens = [], sw_totalTokens = 0\<rparr>, ks_lastAccess = now\<rparr>)
      in (rl\<lparr>rl_counters := (rl_counters rl)(key \<mapsto> ks)\<rparr>, ks))"

text \<open>Writing back the window of a counter through its pointer.\<close>

definition putWindow :: "string \<Rightarrow> keyState \<Rightarrow> slidingWindow \<Rightarrow> RateLimiter \<Rightarrow> RateLimiter" where
  "putWindow key ks sw rl = rl\<lparr>rl_counters := (rl_counters rl)(key \<mapsto> ks\<lparr>ks_sw := sw\<rparr>)\<rparr>"

definition RollbackRPM :: "string \<Rightarrow> int \<Rightarrow> RateLimiter \<Rightarrow> RateLimiter" where
  "RollbackRPM key rpm rl =
     (if rpm \<le> 0 then rl
      else case rl_counters rl (key @ '':rpm'') of
        None \<Rightarrow> rl
      | Some ks \<Rightarrow>
          (if sw_timestamps (ks_sw ks) \<noteq> []
           then putWindow (key @ '':rpm'') ks
                  ((ks_sw ks)\<lparr>sw_timestamps := butlast (sw_timestamps (ks_sw ks))\<rparr>) rl
           else rl))"

definition AllowRPM :: "time \<Rightarrow> string \<Rightarrow> int \<Rightarrow> RateLimiter \<Rightarrow> RateLimiter \<times> bool" where
  "AllowRPM now key rpm rl =
     (if rpm \<le> 0 then (rl, True)
      else
        (let (rl1, ks) = getOrCreate now (key @ '':rpm'') rl;
             windowStart = now - minute;
             filtered = filter (\<lambda>t. windowStart < t) (sw_timestamps (ks_sw ks));
             sw = (ks_sw ks)\<lparr>sw_timestamps := filtered\<rparr>
         in if int (length filtered) \<ge> rpm then (putWindow (key @ '':rpm'') ks sw rl1, False)
            else (putWindow (key @ '':rpm'') ks (sw\<lparr>sw_timestamps := filtered @ [now]\<rparr>) rl1, True)))"

text \<open>The purge loop of \<^verbatim>\<open>AllowTPM\<close>; \<open>None\<close> is an index out of range of the token slice.\<close>

fun tpmLoop :: "time \<Rightarrow> time list \<Rightarrow> int list \<Rightarrow> (time list \<times> int list \<times> int) option" where
  "tpmLoop windowStart [] toks = Some ([], [], 0)"
| "tpmLoop windowStart (t # ts) toks =
     (if windowStart < t
      then (case toks of [] \<Rightarrow> None
            | k # ks \<Rightarrow> (case tpmLoop windowStart ts ks of None \<Rightarrow> None
                         | Some (fts, ftoks, tot) \<Rightarrow> Some (t # fts, k # ftoks, k + tot)))
      else tpmLoop windowStart ts (tl toks))"

definition AllowTPM :: "time \<Rightarrow> string \<Rightarrow> int \<Rightarrow> int \<Rightarrow> RateLimiter \<Rightarrow> (RateLimiter \<times> bool) option" where
  "AllowTPM now key tpm tokenCount rl =
     (if tpm \<le> 0 then Some (rl, True)
      else
        (let (rl1, ks) = getOrCreate now (key @ '':tpm'') rl
         in case tpmLoop (now - minute) (sw_timestamps (ks_sw ks)) (sw_tokens (ks_sw ks)) of
              None \<Rightarrow> None
            | Some (fts, ftoks, tot) \<Rightarrow>
                (if tot + tokenCount > tpm
                 then Some (putWindow (key @ '':tpm'') ks
                        \<lparr>sw_timestamps = fts, sw_tokens = ftoks, sw_totalTokens = tot\<rparr> rl1, False)
                 else Some (putWindow (key @ '':tpm'') ks
                        \<lparr>sw_timestamps = fts @ [now], sw_tokens = ftoks @ [tokenCount],
                         sw_totalTokens = tot + tokenCount\<rparr> rl1, True))))"

definition RemainingRPM :: "time \<Rightarrow> string \<Rightarrow> int \<Rightarrow> RateLimiter \<Rightarrow> RateLimiter \<times> int" where
  "RemainingRPM now key rpm rl =
     (if rpm \<le> 0 then (rl, -1)
      else
        (let (rl1, ks) = getOrCreate now (key @ '':rpm'') rl;
             count = int (length (filter (\<lambda>t. now - minute < t) (sw_timestamps (ks_sw ks))));
             remaining = rpm - count
         in (rl1, if remaining < 0 then 0 else remaining)))"

text \<open>One tick of the cleanup goroutine.\<close>

definition cleanupIdle :: "time \<Rightarrow> RateLimiter \<Rightarrow> RateLimiter" where
  "cleanupIdle now rl =
     rl\<lparr>rl_counters := (\<lambda>key. case rl_counters rl key of None \<Rightarrow> None
        | Some ks \<Rightarrow> if now - ks_lastAccess ks > 10 * minute then None else Some ks)\<rparr>"

section \<open>Client address and decimal printing\<close>

text \<open>
  \<^verbatim>\<open>net.SplitHostPort\<close>: the host ends at the last colon, an IPv6 host is in brackets, stray brackets and further colons
  are errors.
\<close>

definition SplitHostPort :: "string \<Rightarrow> (string \<times> string) option" where
  "SplitHostPort hp =
     (if CHR '':'' \<notin> set hp then None
      else if hd hp = CHR ''['' then
        (if CHR '']'' \<notin> set hp then None
         else
           (let host = takeWhile (\<lambda>c. c \<noteq> CHR '']'') (tl hp); rest = drop (length host + 2) hp
            in if rest = CHR '':'' # afterLastColon hp
                  \<and> CHR ''['' \<notin> set (tl hp) \<and> CHR '']'' \<notin> set rest
               then Some (host, afterLastColon hp) else None))
      else
        (let host = beforeLastColon hp
         in if CHR '':'' \<in> set host \<or> CHR ''['' \<in> set hp \<or> CHR '']'' \<in> set hp then None
            else Some (host, afterLastColon hp)))"

definition clientIP :: "HttpRequest \<Rightarrow> string" where
  "clientIP r = (case SplitHostPort (hr_RemoteAddr r) of None \<Rightarrow> hr_RemoteAddr r | Some (host, _) \<Rightarrow> host)"

definition digit_char :: "int \<Rightarrow> char" where
  "digit_char d = char_of (48 + nat d)"

text \<open>The digit loop appends the lowest digit first; the reversal loop comes after the sign.\<close>

function digitLoop :: "int \<Rightarrow> string" where
  "digitLoop v = (if 0 < v then digit_char (v mod 10) # digitLoop (v div 10) else [])"
  by pat_completeness auto
termination by (relation "measure nat") auto

declare digitLoop.simps [simp del]

text \<open>Negation of a 64-bit integer: the smallest one is its own negative.\<close>

definition neg64 :: "int \<Rightarrow> int" where
  "neg64 v = (if v = - (2 ^ 63) then v else - v)"

definition formatInt :: "int \<Rightarrow> string" where
  "formatInt v =
     (if v = 0 then ''0''
      else if v < 0 then rev (digitLoop (neg64 v) @ ''-'') else rev (digitLoop v))"

section \<open>The middleware\<close>

text \<open>The request goes on with the remaining-requests header, or is answered 429 (with the retry headers or without).\<close>

datatype RateLimitOutcome = ServeNext "string option" | TooManyRequests bool string

definition rateLimitKeyName :: "AuthKeyConfig \<Rightarrow> string" where
  "rateLimitKeyName k =
     (if akc_Name k = '''' then (if length (akc_Key k) \<ge> 8 then take 8 (akc_Key k) else akc_Key k)
      else akc_Name k)"

definition remainingHeader :: "int \<Rightarrow> string option" where
  "remainingHeader remaining = (if 0 \<le> remaining then Some (formatInt remaining) else None)"

text \<open>The part of the middleware for a request with a key.\<close>

definition rateLimitKey ::
    "(HttpRequest \<Rightarrow> int) option \<Rightarrow> time \<Rightarrow> HttpRequest \<Rightarrow> AuthKeyConfig \<Rightarrow> RateLimiter \<Rightarrow>
       (RateLimiter \<times> RateLimitOutcome) option" where
  "rateLimitKey tokFn now r k rl =
     (let keyName = rateLimitKeyName k; (rl1, ok) = AllowRPM now keyName (akc_RPM k) rl in
      if \<not> ok then Some (rl1, TooManyRequests True ''Rate limit exceeded (RPM)'')
      else
        (let tokenCount = (case tokFn of Some f \<Rightarrow> if akc_TPM k > 0 then f r else 0 | None \<Rightarrow> 0)
         in case (if tokenCount > 0 then AllowTPM now keyName (akc_TPM k) tokenCount rl1 else Some (rl1, True)) of
              None \<Rightarrow> None
            | Some (rl2, False) \<Rightarrow>
                Some (RollbackRPM keyName (akc_RPM k) rl2, TooManyRequests True ''Rate limit exceeded (TPM)'')
            | Some (rl2, True) \<Rightarrow>
                (let (rl3, remaining) = RemainingRPM now keyName (akc_RPM k) rl2
                 in Some (rl3, ServeNext (remainingHeader remaining)))))"

text \<open>The part for a request without one.\<close>

definition rateLimitAnonymous ::
    "RateLimitConfig \<Rightarrow> time \<Rightarrow> HttpRequest \<Rightarrow> RateLimiter \<Rightarrow> RateLimiter \<times> RateLimitOutcome" where
  "rateLimitAnonymous cfg now r rl =
     (if rlc_KeyEnforcement cfg then (rl, TooManyRequests False ''Rate limit: no API key'')
      else if rlc_AnonymousRPM cfg > 0 then
        (let ip = ''anon:'' @ clientIP r; (rl1, ok) = AllowRPM now ip (rlc_AnonymousRPM cfg) rl in
         if \<not> ok then (rl1, TooManyRequests True ''Rate limit exceeded (anonymous RPM)'')
         else (let (rl2, remaining) = RemainingRPM now ip (rlc_AnonymousRPM cfg) rl1
               in (rl2, ServeNext (remainingHeader remaining))))
      else (rl, ServeNext None))"

definition RateLimit ::
    "RateLimitConfig \<Rightarrow> (HttpRequest \<Rightarrow> int) option \<Rightarrow> time \<Rightarrow> HttpRequest \<Rightarrow> RateLimiter \<Rightarrow>
       (RateLimiter \<times> RateLimitOutcome) option" where
  "RateLimit cfg tokFn now r rl =
     (if \<not> rlc_Enabled cfg then Some (rl, ServeNext None)
      else case hr_Principal r of
        None \<Rightarrow> Some (rateLimitAnonymous cfg now r rl)
      | Some p \<Rightarrow>
          (if pr_IsMaster p \<or> pr_AuthMethod p = ''admin-jwt'' \<or> pr_AuthMethod p = ''shell-session''
           then Some (rl, ServeNext None)
           else case pr_KeyConfig p of
             None \<Rightarrow> Some (rateLimitAnonymous cfg now r rl)
           | Some k \<Rightarrow> rateLimitKey tokFn now r k rl))"

section \<open>The reference limiter\<close>

text \<open>
  The reference keeps the complete log of granted requests: per key name the instants of those that took an RPM slot, and
  instants with token counts of those that took TPM tokens.  It never purges, never rolls back and has no cleanup.
\<close>

record grant_log =
  gl_rpm :: "string \<Rightarrow> time list"
  gl_tpm :: "string \<Rightarrow> (time \<times> int) list"

definition recent :: "('x \<Rightarrow> time) \<Rightarrow> time \<Rightarrow> 'x list \<Rightarrow> 'x list" where
  "recent f now xs = filter (\<lambda>x. now - minute < f x) xs"

definition spec_grant ::
    "time \<Rightarrow> string \<Rightarrow> int \<Rightarrow> int \<Rightarrow> grant_log \<Rightarrow> grant_log" where
  "spec_grant now name rpm tok gl =
     gl\<lparr>gl_rpm := (if rpm \<le> 0 then gl_rpm gl else (gl_rpm gl)(name := gl_rpm gl name @ [now])),
        gl_tpm := (if tok \<le> 0 then gl_tpm gl else (gl_tpm gl)(name := gl_tpm gl name @ [(now, tok)]))\<rparr>"

definition spec_limit ::
    "time \<Rightarrow> string \<Rightarrow> int \<Rightarrow> int \<Rightarrow> int \<Rightarrow> string \<Rightarrow> grant_log \<Rightarrow> grant_log \<times> RateLimitOutcome" where
  "spec_limit now name rpm tpm tok msg gl =
     (let used = int (length (recent id now (gl_rpm gl name)));
          usedTok = sum_list (map snd (recent fst now (gl_tpm gl name)))
      in if 0 < rpm \<and> rpm \<le> used then (gl, TooManyRequests True msg)
         else if 0 < tok \<and> tpm < usedTok + tok then (gl, TooManyRequests True ''Rate limit exceeded (TPM)'')
         else (spec_grant now name rpm tok gl,
               ServeNext (if 0 < rpm then Some (formatInt (rpm - (used + 1))) else None)))"

text \<open>Who is limited, under which name and how.\<close>

definition spec_anonymous :: "RateLimitConfig \<Rightarrow> time \<Rightarrow> HttpRequest \<Rightarrow> grant_log \<Rightarrow> grant_log \<times> RateLimitOutcome" where
  "spec_anonymous cfg now r gl =
     (if rlc_KeyEnforcement cfg then (gl, TooManyRequests False ''Rate limit: no API key'')
      else if 0 < rlc_AnonymousRPM cfg
      then spec_limit now (''anon:'' @ clientIP r) (rlc_AnonymousRPM cfg) 0 0
             ''Rate limit exceeded (anonymous RPM)'' gl
      else (gl, ServeNext None))"

definition request_tokens :: "(HttpRequest \<Rightarrow> int) option \<Rightarrow> HttpRequest \<Rightarrow> AuthKeyConfig \<Rightarrow> int" where
  "request_tokens tokFn r k = (case tokFn of Some f \<Rightarrow> if akc_TPM k > 0 then f r else 0 | None \<Rightarrow> 0)"

definition bypassesLimit :: "Principal \<Rightarrow> bool" where
  "bypassesLimit p \<longleftrightarrow> pr_IsMaster p \<or> pr_AuthMethod p = ''admin-jwt'' \<or> pr_AuthMethod p = ''shell-session''"

definition spec_RateLimit ::
    "RateLimitConfig \<Rightarrow> (HttpRequest \<Rightarrow> int) option \<Rightarrow> time \<Rightarrow> HttpRequest \<Rightarrow> grant_log \<Rightarrow>
       grant_log \<times> RateLimitOutcome" where
  "spec_RateLimit cfg tokFn now r gl =
     (if \<not> rlc_Enabled cfg then (gl, ServeNext None)
      else case hr_Principal r of None \<Rightarrow> spec_anonymous cfg now r gl
      | Some p \<Rightarrow>
          (if bypassesLimit p then (gl, ServeNext None)
           else case pr_KeyConfig p of None \<Rightarrow> spec_anonymous cfg now r gl
           | Some k \<Rightarrow> spec_limit now (rateLimitKeyName k) (akc_RPM k) (akc_TPM k) (request_tokens tokFn r k)
                        ''Rate limit exceeded (RPM)'' gl))"

text \<open>Events of a run: requests with the configuration in force, and cleanup ticks.\<close>

datatype rl_event = Request RateLimitConfig HttpRequest | CleanupTick

fun rl_step :: "(HttpRequest \<Rightarrow> int) option \<Rightarrow> time \<Rightarrow> rl_event \<Rightarrow> RateLimiter option \<Rightarrow>
    RateLimiter option \<times> RateLimitOutcome option" where
  "rl_step tokFn now e None = (None, None)"
| "rl_step tokFn now CleanupTick (Some rl) = (Some (cleanupIdle now rl), None)"
| "rl_step tokFn now (Request cfg r) (Some rl) =
     (case RateLimit cfg tokFn now r rl of None \<Rightarrow> (None, None) | Some (rl', out) \<Rightarrow> (Some rl', Some out))"

fun spec_step :: "(HttpRequest \<Rightarrow> int) option \<Rightarrow> time \<Rightarrow> rl_event \<Rightarrow> grant_log \<Rightarrow>
    grant_log \<times> RateLimitOutcome option" where
  "spec_step tokFn now CleanupTick gl = (gl, None)"
| "spec_step tokFn now (Request cfg r) gl =
     (let (gl', out) = spec_RateLimit cfg tokFn now r gl in (gl', Some out))"

section \<open>The simulation\<close>

lemma recent_recent: "now \<le> now' \<Longrightarrow> recent f now' (recent f now xs) = recent f now' xs"
  by (auto simp: recent_def intro: filter_cong)

lemma recent_mono: "recent f now xs = recent f now ys \<Longrightarrow> now \<le> now' \<Longrightarrow> recent f now' xs = recent f now' ys"
  by (metis recent_recent)

lemma recent_append [simp]: "recent f now (xs @ ys) = recent f now xs @ recent f now ys"
  by (simp add: recent_def)

lemma recent_Nil [simp]: "recent f now [] = []"
  by (simp add: recent_def)

lemma recent_now [simp]: "f x = now \<Longrightarrow> recent f now [x] = [x]"
  by (simp add: recent_def)

lemma rpm_tpm_keys [simp]: "k @ '':rpm'' \<noteq> k' @ '':tpm''" "k' @ '':tpm'' \<noteq> k @ '':rpm''"
  by simp_all

definition rpm_times :: "RateLimiter \<Rightarrow> string \<Rightarrow> time list" where
  "rpm_times rl k = (case rl_counters rl (k @ '':rpm'') of None \<Rightarrow> [] | Some ks \<Rightarrow> sw_timestamps (ks_sw ks))"

definition tpm_grants :: "RateLimiter \<Rightarrow> string \<Rightarrow> (time \<times> int) list" where
  "tpm_grants rl k = (case rl_counters rl (k @ '':tpm'') of None \<Rightarrow> []
     | Some ks \<Rightarrow> zip (sw_timestamps (ks_sw ks)) (sw_tokens (ks_sw ks)))"

definition ks_wf :: "time \<Rightarrow> keyState \<Rightarrow> bool" where
  "ks_wf now ks \<longleftrightarrow> ks_lastAccess ks \<le> now \<and> (\<forall>t \<in> set (sw_timestamps (ks_sw ks)). t \<le> ks_lastAccess ks)"

definition rl_wf :: "time \<Rightarrow> RateLimiter \<Rightarrow> bool" where
  "rl_wf now rl \<longleftrightarrow>
     (\<forall>key ks. rl_counters rl key = Some ks \<longrightarrow> ks_wf now ks) \<and>
     (\<forall>k ks. rl_counters rl (k @ '':tpm'') = Some ks \<longrightarrow>
        length (sw_tokens (ks_sw ks)) = length (sw_timestamps (ks_sw ks)))"

definition rl_sim :: "time \<Rightarrow> RateLimiter \<Rightarrow> grant_log \<Rightarrow> bool" where
  "rl_sim now rl gl \<longleftrightarrow> rl_wf now rl \<and>
     (\<forall>k. recent id now (rpm_times rl k) = recent id now (gl_rpm gl k)) \<and>
     (\<forall>k. recent fst now (tpm_grants rl k) = recent fst now (gl_tpm gl k))"

lemma ks_wf_mono: "ks_wf t ks \<Longrightarrow> t \<le> now \<Longrightarrow> ks_wf now ks"
  by (auto simp: ks_wf_def)

lemma ks_wf_touch: "ks_wf t ks \<Longrightarrow> t \<le> now \<Longrightarrow> ks_wf now (ks\<lparr>ks_lastAccess := now\<rparr>)"
  by (force simp: ks_wf_def)

lemma tpmLoop_zip:
  "length toks = length ts \<Longrightarrow>
   tpmLoop ws ts toks =
     Some (map fst (filter (\<lambda>x. ws < fst x) (zip ts toks)), map snd (filter (\<lambda>x. ws < fst x) (zip ts toks)),
           sum_list (map snd (filter (\<lambda>x. ws < fst x) (zip ts toks))))"
proof (induction ts arbitrary: toks)
  case (Cons t ts)
  then show ?case by (cases toks) auto
qed simp

text \<open>What \<^verbatim>\<open>getOrCreate\<close> hands out and what writing through it does to the two views of the state.\<close>

definition fresh_state :: "time \<Rightarrow> string \<Rightarrow> RateLimiter \<Rightarrow> keyState" where
  "fresh_state now key rl = (case rl_counters rl key of
     Some ks \<Rightarrow> ks\<lparr>ks_lastAccess := now\<rparr>
   | None \<Rightarrow> \<lparr>ks_sw = \<lparr>sw_timestamps = [], sw_tokens = [], sw_totalTokens = 0\<rparr>, ks_lastAccess = now\<rparr>)"

lemma getOrCreate_eq:
  "getOrCreate now key rl = (rl\<lparr>rl_counters := (rl_counters rl)(key \<mapsto> fresh_state now key rl)\<rparr>, fresh_state now key rl)"
  by (simp add: getOrCreate_def fresh_state_def Let_def)

lemma fresh_state_wf:
  assumes "rl_wf t rl" "t \<le> now"
  shows "ks_wf now (fresh_state now key rl)" "ks_lastAccess (fresh_state now key rl) = now"
  using assms by (auto simp: fresh_state_def rl_wf_def intro: ks_wf_touch split: option.splits)
    (simp add: ks_wf_def)

lemma fresh_state_rpm: "sw_timestamps (ks_sw (fresh_state now (k @ '':rpm'') rl)) = rpm_times rl k"
  by (simp add: fresh_state_def rpm_times_def split: option.splits)

lemma fresh_state_tpm:
  assumes "rl_wf t rl"
  shows "zip (sw_timestamps (ks_sw (fresh_state now (k @ '':tpm'') rl)))
           (sw_tokens (ks_sw (fresh_state now (k @ '':tpm'') rl))) = tpm_grants rl k"
    and "length (sw_tokens (ks_sw (fresh_state now (k @ '':tpm'') rl))) =
         length (sw_timestamps (ks_sw (fresh_state now (k @ '':tpm'') rl)))"
  using assms by (auto simp: fresh_state_def tpm_grants_def rl_wf_def split: option.splits)

lemma views_put_rpm:
  "rpm_times (rl\<lparr>rl_counters := (rl_counters rl)(k @ '':rpm'' \<mapsto> ks)\<rparr>) =
     (rpm_times rl)(k := sw_timestamps (ks_sw ks))"
  "tpm_grants (rl\<lparr>rl_counters := (rl_counters rl)(k @ '':rpm'' \<mapsto> ks)\<rparr>) = tpm_grants rl"
  by (auto simp: rpm_times_def tpm_grants_def fun_eq_iff)

lemma views_put_tpm:
  "tpm_grants (rl\<lparr>rl_counters := (rl_counters rl)(k @ '':tpm'' \<mapsto> ks)\<rparr>) =
     (tpm_grants rl)(k := zip (sw_timestamps (ks_sw ks)) (sw_tokens (ks_sw ks)))"
  "rpm_times (rl\<lparr>rl_counters := (rl_counters rl)(k @ '':tpm'' \<mapsto> ks)\<rparr>) = rpm_times rl"
  by (auto simp: rpm_times_def tpm_grants_def fun_eq_iff)

lemma wf_put:
  assumes "rl_wf t rl" "t \<le> now" "ks_wf now ks"
    and "\<And>k. key = k @ '':tpm'' \<Longrightarrow> length (sw_tokens (ks_sw ks)) = length (sw_timestamps (ks_sw ks))"
  shows "rl_wf now (rl\<lparr>rl_counters := (rl_counters rl)(key \<mapsto> ks)\<rparr>)"
  using assms by (auto simp: rl_wf_def intro: ks_wf_mono)

lemma AllowRPM_eff:
  fixes now k rl defines "R \<equiv> recent id now (rpm_times rl k)"
  assumes "rl_wf t rl" "t \<le> now" "0 < rpm"
  shows "snd (AllowRPM now k rpm rl) \<longleftrightarrow> int (length R) < rpm"
    and "rpm_times (fst (AllowRPM now k rpm rl)) =
         (rpm_times rl)(k := R @ (if int (length R) < rpm then [now] else []))"
    and "tpm_grants (fst (AllowRPM now k rpm rl)) = tpm_grants rl"
    and "rl_wf now (fst (AllowRPM now k rpm rl))"
proof -
  let ?ks = "fresh_state now (k @ '':rpm'') rl"
  have R: "filter (\<lambda>t. now - minute < t) (sw_timestamps (ks_sw ?ks)) = R"
    by (simp add: fresh_state_rpm R_def recent_def)
  have eq: "AllowRPM now k rpm rl =
    (rl\<lparr>rl_counters := (rl_counters rl)(k @ '':rpm'' \<mapsto>
       ?ks\<lparr>ks_sw := (ks_sw ?ks)\<lparr>sw_timestamps := R @ (if int (length R) < rpm then [now] else [])\<rparr>\<rparr>)\<rparr>,
     int (length R) < rpm)"
    using assms(4) by (simp add: AllowRPM_def getOrCreate_eq putWindow_def Let_def R)
  show "snd (AllowRPM now k rpm rl) \<longleftrightarrow> int (length R) < rpm" by (simp add: eq)
  show "rpm_times (fst (AllowRPM now k rpm rl)) =
         (rpm_times rl)(k := R @ (if int (length R) < rpm then [now] else []))"
    by (simp add: eq views_put_rpm)
  show "tpm_grants (fst (AllowRPM now k rpm rl)) = tpm_grants rl" by (simp add: eq views_put_rpm)
  have "ks_wf now ?ks" "ks_lastAccess ?ks = now" using fresh_state_wf assms(2,3) by blast+
  then show "rl_wf now (fst (AllowRPM now k rpm rl))"
    unfolding eq fst_conv using assms(2,3)
    by (intro wf_put) (auto simp: ks_wf_def R_def recent_def fresh_state_rpm)
qed

lemma AllowTPM_eff:
  fixes now k rl defines "G \<equiv> recent fst now (tpm_grants rl k)"
  assumes "rl_wf t rl" "t \<le> now" "0 < tpm"
  obtains rl' where "AllowTPM now k tpm tok rl = Some (rl', sum_list (map snd G) + tok \<le> tpm)"
    "tpm_grants rl' = (tpm_grants rl)(k := G @ (if sum_list (map snd G) + tok \<le> tpm then [(now, tok)] else []))"
    "rpm_times rl' = rpm_times rl" "rl_wf now rl'"
proof -
  let ?ks = "fresh_state now (k @ '':tpm'') rl"
  let ?ok = "sum_list (map snd G) + tok \<le> tpm"
  let ?G = "G @ (if ?ok then [(now, tok)] else [])"
  let ?sw = "\<lparr>sw_timestamps = map fst ?G, sw_tokens = map snd ?G, sw_totalTokens = sum_list (map snd ?G)\<rparr>"
  let ?rl = "rl\<lparr>rl_counters := (rl_counters rl)(k @ '':tpm'' \<mapsto> ?ks\<lparr>ks_sw := ?sw\<rparr>)\<rparr>"
  have "tpmLoop (now - minute) (sw_timestamps (ks_sw ?ks)) (sw_tokens (ks_sw ?ks)) =
      Some (map fst G, map snd G, sum_list (map snd G))"
    using tpmLoop_zip [OF fresh_state_tpm(2) [OF assms(2)]]
    by (simp add: fresh_state_tpm(1) [OF assms(2)] G_def recent_def)
  then have eq: "AllowTPM now k tpm tok rl = Some (?rl, ?ok)"
    using assms(4) by (simp add: AllowTPM_def getOrCreate_eq putWindow_def not_less)
  have "ks_wf now ?ks" "ks_lastAccess ?ks = now" using fresh_state_wf assms(2,3) by blast+
  moreover have "set (map fst G) \<subseteq> set (sw_timestamps (ks_sw ?ks))"
    using fresh_state_tpm(1) [OF assms(2), of now k] by (auto simp: G_def recent_def) (metis set_zip_leftD)
  ultimately have "ks_wf now (?ks\<lparr>ks_sw := ?sw\<rparr>)" by (auto simp: ks_wf_def)
  then have "rl_wf now ?rl" using assms(2,3) by (intro wf_put) auto
  then show thesis
    using eq by (intro that [of ?rl]) (simp_all add: views_put_tpm zip_map_fst_snd)
qed

lemma RemainingRPM_eff:
  assumes "rl_wf t rl" "t \<le> now" "0 < rpm"
  shows "snd (RemainingRPM now k rpm rl) = max 0 (rpm - int (length (recent id now (rpm_times rl k))))"
    and "rpm_times (fst (RemainingRPM now k rpm rl)) = rpm_times rl"
    and "tpm_grants (fst (RemainingRPM now k rpm rl)) = tpm_grants rl"
    and "rl_wf now (fst (RemainingRPM now k rpm rl))"
proof -
  let ?ks = "fresh_state now (k @ '':rpm'') rl"
  have eq: "RemainingRPM now k rpm rl = (rl\<lparr>rl_counters := (rl_counters rl)(k @ '':rpm'' \<mapsto> ?ks)\<rparr>,
      max 0 (rpm - int (length (recent id now (rpm_times rl k)))))"
    using assms(3) by (simp add: RemainingRPM_def getOrCreate_eq Let_def fresh_state_rpm recent_def)
  show "snd (RemainingRPM now k rpm rl) = max 0 (rpm - int (length (recent id now (rpm_times rl k))))"
    by (simp add: eq)
  show "rpm_times (fst (RemainingRPM now k rpm rl)) = rpm_times rl"
    by (simp add: eq views_put_rpm fresh_state_rpm)
  show "tpm_grants (fst (RemainingRPM now k rpm rl)) = tpm_grants rl" by (simp add: eq views_put_rpm)
  show "rl_wf now (fst (RemainingRPM now k rpm rl))"
    unfolding eq fst_conv using assms(1,2) fresh_state_wf by (intro wf_put) auto
qed

lemma RollbackRPM_eff:
  assumes "rl_wf now rl" "0 < rpm" "rpm_times rl k = xs @ [x]"
  shows "rpm_times (RollbackRPM k rpm rl) = (rpm_times rl)(k := xs)"
    and "tpm_grants (RollbackRPM k rpm rl) = tpm_grants rl"
    and "rl_wf now (RollbackRPM k rpm rl)"
proof -
  obtain ks where ks: "rl_counters rl (k @ '':rpm'') = Some ks" "sw_timestamps (ks_sw ks) = xs @ [x]"
    using assms(3) by (auto simp: rpm_times_def split: option.splits)
  then have eq: "RollbackRPM k rpm rl = rl\<lparr>rl_counters := (rl_counters rl)(k @ '':rpm'' \<mapsto>
      ks\<lparr>ks_sw := (ks_sw ks)\<lparr>sw_timestamps := xs\<rparr>\<rparr>)\<rparr>"
    using assms(2) by (simp add: RollbackRPM_def putWindow_def)
  show "rpm_times (RollbackRPM k rpm rl) = (rpm_times rl)(k := xs)" by (simp add: eq views_put_rpm)
  show "tpm_grants (RollbackRPM k rpm rl) = tpm_grants rl" by (simp add: eq views_put_rpm)
  have "ks_wf now ks" using assms(1) ks(1) by (simp add: rl_wf_def)
  then have "ks_wf now (ks\<lparr>ks_sw := (ks_sw ks)\<lparr>sw_timestamps := xs\<rparr>\<rparr>)" using ks(2) by (simp add: ks_wf_def)
  then show "rl_wf now (RollbackRPM k rpm rl)" unfolding eq using assms(1) by (intro wf_put [of now]) auto
qed

text \<open>Cleanup drops only states whose every timestamp has left the window.\<close>

lemma cleanup_times:
  assumes "rl_wf t rl"
  shows "recent id now (rpm_times (cleanupIdle now rl) k) = recent id now (rpm_times rl k)"
    and "recent fst now (tpm_grants (cleanupIdle now rl) k) = recent fst now (tpm_grants rl k)"
proof -
  have old: "recent id now (sw_timestamps (ks_sw ks)) = [] \<and>
      recent fst now (zip (sw_timestamps (ks_sw ks)) toks) = []"
    if "rl_counters rl key = Some ks" "10 * minute < now - ks_lastAccess ks" for key ks and toks :: "int list"
  proof -
    have "\<forall>x \<in> set (sw_timestamps (ks_sw ks)). x \<le> now - minute"
      using assms that by (force simp: rl_wf_def ks_wf_def minute_def second_def)
    then show ?thesis by (fastforce simp: recent_def filter_empty_conv dest: set_zip_leftD)
  qed
  show "recent id now (rpm_times (cleanupIdle now rl) k) = recent id now (rpm_times rl k)"
    using old by (auto simp: cleanupIdle_def rpm_times_def split: option.splits)
  show "recent fst now (tpm_grants (cleanupIdle now rl) k) = recent fst now (tpm_grants rl k)"
    using old by (auto simp: cleanupIdle_def tpm_grants_def split: option.splits)
qed

lemma rl_wf_mono: "rl_wf t rl \<Longrightarrow> t \<le> now \<Longrightarrow> rl_wf now rl"
  by (auto simp: rl_wf_def intro: ks_wf_mono)

lemma rl_sim_views:
  assumes "rl_sim t rl gl" "t \<le> now"
  shows "recent id now (gl_rpm gl k) = recent id now (rpm_times rl k)"
    and "recent fst now (gl_tpm gl k) = recent fst now (tpm_grants rl k)"
  using assms by (auto simp: rl_sim_def intro: recent_mono [symmetric])

lemma rl_sim_same:
  assumes "rl_sim t rl gl" "t \<le> now" "rl_wf now rl'"
    and "\<And>k. recent id now (rpm_times rl' k) = recent id now (rpm_times rl k)"
    and "\<And>k. recent fst now (tpm_grants rl' k) = recent fst now (tpm_grants rl k)"
  shows "rl_sim now rl' gl"
  using assms by (simp add: rl_sim_def [of now]) (simp add: rl_sim_views [OF assms(1,2)])

lemma rl_sim_grant:
  assumes "rl_sim t rl gl" "t \<le> now" "rl_wf now rl'"
    and "\<And>j. recent id now (rpm_times rl' j) =
           recent id now (rpm_times rl j) @ (if 0 < rpm \<and> j = k then [now] else [])"
    and "\<And>j. recent fst now (tpm_grants rl' j) =
           recent fst now (tpm_grants rl j) @ (if 0 < tok \<and> j = k then [(now, tok)] else [])"
  shows "rl_sim now rl' (spec_grant now k rpm tok gl)"
  using assms(3) unfolding rl_sim_def [of now] assms(4,5)
  by (simp add: spec_grant_def rl_sim_views [OF assms(1,2)])

lemma cleanup_sim:
  assumes "rl_sim t rl gl" "t \<le> now"
  shows "rl_sim now (cleanupIdle now rl) gl"
proof -
  have wf: "rl_wf t rl" using assms(1) by (simp add: rl_sim_def)
  then have "rl_wf now (cleanupIdle now rl)"
    using assms(2) by (auto simp: cleanupIdle_def rl_wf_def intro: ks_wf_mono split: option.splits if_splits)
  then show ?thesis using rl_sim_same [OF assms] cleanup_times [OF wf] by blast
qed

text \<open>The RPM check alone, for every value of the limit.\<close>

lemma AllowRPM_sim:
  fixes k :: string
  assumes "rl_sim t rl gl" "t \<le> now"
  defines "used \<equiv> int (length (recent id now (gl_rpm gl k)))"
  obtains (refused) rl' where "AllowRPM now k rpm rl = (rl', False)" "0 < rpm" "rpm \<le> used" "rl_sim now rl' gl"
  | (granted) rl' where "AllowRPM now k rpm rl = (rl', True)" "rpm \<le> 0 \<or> used < rpm" "rl_wf now rl'"
      "\<And>j. recent id now (rpm_times rl' j) =
           recent id now (rpm_times rl j) @ (if 0 < rpm \<and> j = k then [now] else [])"
      "0 < rpm \<Longrightarrow> rpm_times rl' k = recent id now (rpm_times rl k) @ [now]"
      "tpm_grants rl' = tpm_grants rl"
proof (cases "0 < rpm")
  case False
  moreover have "rl_wf now rl" using assms(1,2) rl_wf_mono by (simp add: rl_sim_def) blast
  ultimately show thesis using granted [of rl] by (simp add: AllowRPM_def)
next
  case True
  have wf: "rl_wf t rl" using assms(1) by (simp add: rl_sim_def)
  obtain rl' ok where eq: "AllowRPM now k rpm rl = (rl', ok)" by (cases "AllowRPM now k rpm rl")
  note eff = AllowRPM_eff [OF wf assms(2) True, of k, unfolded eq fst_conv snd_conv]
  have used: "int (length (recent id now (rpm_times rl k))) = used"
    by (simp add: used_def rl_sim_views [OF assms(1,2)])
  show thesis
  proof (cases ok)
    case True
    then show thesis using granted [of rl'] eq eff used by (simp add: recent_recent)
  next
    case False
    then show thesis using refused [of rl'] eq eff used \<open>0 < rpm\<close> rl_sim_same [OF assms(1,2), of rl']
      by (simp add: recent_recent)
  qed
qed

lemma RemainingRPM_sim:
  assumes "rl_wf now rl"
  obtains rl' rem where "RemainingRPM now k rpm rl = (rl', rem)" "rl_wf now rl'"
    "rpm_times rl' = rpm_times rl" "tpm_grants rl' = tpm_grants rl"
    "rem = (if 0 < rpm then max 0 (rpm - int (length (recent id now (rpm_times rl k)))) else -1)"
proof (cases "0 < rpm")
  case True
  obtain rl' rem where eq: "RemainingRPM now k rpm rl = (rl', rem)" by (cases "RemainingRPM now k rpm rl")
  show thesis
    using RemainingRPM_eff [OF assms order.refl True, of k, unfolded eq fst_conv snd_conv] that [OF eq] True by simp
next
  case False
  then show thesis using that [of rl "-1"] assms by (simp add: RemainingRPM_def)
qed

text \<open>The tail of a granted request: the remaining count is what the reference announces.\<close>

lemma grant_tail:
  assumes sim: "rl_sim t rl gl" "t \<le> now" and wf: "rl_wf now rl1"
    and used: "rpm \<le> 0 \<or> int (length (recent id now (gl_rpm gl k))) < rpm"
    and R: "\<And>j. recent id now (rpm_times rl1 j) =
           recent id now (rpm_times rl j) @ (if 0 < rpm \<and> j = k then [now] else [])"
    and T: "\<And>j. recent fst now (tpm_grants rl1 j) =
           recent fst now (tpm_grants rl j) @ (if 0 < tok \<and> j = k then [(now, tok)] else [])"
  obtains rl' rem where "RemainingRPM now k rpm rl1 = (rl', rem)"
    "rl_sim now rl' (spec_grant now k rpm tok gl)"
    "remainingHeader rem =
       (if 0 < rpm then Some (formatInt (rpm - (int (length (recent id now (gl_rpm gl k))) + 1))) else None)"
proof -
  obtain rl' rem where r: "RemainingRPM now k rpm rl1 = (rl', rem)" "rl_wf now rl'"
    "rpm_times rl' = rpm_times rl1" "tpm_grants rl' = tpm_grants rl1"
    "rem = (if 0 < rpm then max 0 (rpm - int (length (recent id now (rpm_times rl1 k)))) else -1)"
    using RemainingRPM_sim [OF wf] by metis
  have "rl_sim now rl' (spec_grant now k rpm tok gl)"
    using rl_sim_grant [OF sim r(2), of rpm k tok] r(3,4) R T by simp
  moreover have "remainingHeader rem =
       (if 0 < rpm then Some (formatInt (rpm - (int (length (recent id now (gl_rpm gl k))) + 1))) else None)"
    using used unfolding r(5) R by (auto simp: remainingHeader_def rl_sim_views [OF sim] max_def add.commute)
  ultimately show thesis using that r(1) by blast
qed

text \<open>A TPM refusal gives the RPM slot back: nothing is left of the request.\<close>

lemma rollback_sim:
  assumes sim: "rl_sim t rl gl" "t \<le> now" and wf: "rl_wf now rl2"
    and R: "\<And>j. recent id now (rpm_times rl2 j) =
           recent id now (rpm_times rl j) @ (if 0 < rpm \<and> j = k then [now] else [])"
    and k: "0 < rpm \<Longrightarrow> rpm_times rl2 k = recent id now (rpm_times rl k) @ [now]"
    and T: "\<And>j. recent fst now (tpm_grants rl2 j) = recent fst now (tpm_grants rl j)"
  shows "rl_sim now (RollbackRPM k rpm rl2) gl"
proof (cases "0 < rpm")
  case True
  note eff = RollbackRPM_eff [OF wf True k [OF True]]
  show ?thesis using R T by (intro rl_sim_same [OF sim eff(3)]) (auto simp: eff(1,2) recent_recent)
next
  case False
  then show ?thesis using wf R T by (intro rl_sim_same [OF sim]) (auto simp: RollbackRPM_def)
qed

lemma rateLimitKey_sim:
  fixes tokFn r k
  assumes sim: "rl_sim t rl gl" "t \<le> now"
  defines "sp \<equiv> spec_limit now (rateLimitKeyName k) (akc_RPM k) (akc_TPM k) (request_tokens tokFn r k)
                  ''Rate limit exceeded (RPM)'' gl"
  obtains rl' where "rateLimitKey tokFn now r k rl = Some (rl', snd sp)" "rl_sim now rl' (fst sp)"
proof -
  let ?n = "rateLimitKeyName k" and ?rpm = "akc_RPM k" and ?tpm = "akc_TPM k" and ?tok = "request_tokens tokFn r k"
  let ?G = "recent fst now (tpm_grants rl ?n)"
  note defs = rateLimitKey_def sp_def spec_limit_def request_tokens_def [symmetric] Let_def
  show thesis
  proof (cases rule: AllowRPM_sim [OF sim, of ?n ?rpm, case_names refused granted])
    case (refused rl1)
    then show thesis using that [of rl1] by (simp add: defs)
  next
    case g: (granted rl1)
    show thesis
    proof (cases "0 < ?tok")
      case False
      obtain rl' rem where "RemainingRPM now ?n ?rpm rl1 = (rl', rem)"
        "rl_sim now rl' (spec_grant now ?n ?rpm ?tok gl)" "remainingHeader rem = (if 0 < ?rpm then
            Some (formatInt (?rpm - (int (length (recent id now (gl_rpm gl ?n))) + 1))) else None)"
        using grant_tail [OF sim g(3,2,4), of ?tok] g(6) False by auto
      then show thesis using that [of rl'] g(1,2) False by (auto simp: defs)
    next
      case tok: True
      then have "0 < ?tpm" by (auto simp: request_tokens_def split: option.splits if_splits)
      then obtain rl2 where a: "AllowTPM now ?n ?tpm ?tok rl1 = Some (rl2, sum_list (map snd ?G) + ?tok \<le> ?tpm)"
        "tpm_grants rl2 = (tpm_grants rl)(?n := ?G @ (if sum_list (map snd ?G) + ?tok \<le> ?tpm then [(now, ?tok)] else []))"
        "rpm_times rl2 = rpm_times rl1" "rl_wf now rl2"
        using AllowTPM_eff [OF g(3) order.refl, of ?tpm ?n ?tok] g(6) by metis
      show thesis
      proof (cases "sum_list (map snd ?G) + ?tok \<le> ?tpm")
        case True
        have "recent id now (rpm_times rl2 j) =
              recent id now (rpm_times rl j) @ (if 0 < ?rpm \<and> j = ?n then [now] else [])"
          and "recent fst now (tpm_grants rl2 j) =
              recent fst now (tpm_grants rl j) @ (if 0 < ?tok \<and> j = ?n then [(now, ?tok)] else [])" for j
          using g(4) a(2,3) True tok by (auto simp: recent_recent)
        then obtain rl' rem where "RemainingRPM now ?n ?rpm rl2 = (rl', rem)"
          "rl_sim now rl' (spec_grant now ?n ?rpm ?tok gl)" "remainingHeader rem = (if 0 < ?rpm then
            Some (formatInt (?rpm - (int (length (recent id now (gl_rpm gl ?n))) + 1))) else None)"
          by (rule grant_tail [OF sim a(4) g(2)])
        then show thesis
          using that [of rl'] g(1,2) a(1) True tok by (auto simp: defs rl_sim_views [OF sim])
      next
        case False
        have "rl_sim now (RollbackRPM ?n ?rpm rl2) gl"
          using g(4,5) a(2,3) False by (intro rollback_sim [OF sim a(4)]) (auto simp: recent_recent)
        then show thesis
          using that g(1,2) a(1) False tok by (auto simp: defs rl_sim_views [OF sim])
      qed
    qed
  qed
qed

lemma rateLimitAnonymous_sim:
  assumes sim: "rl_sim t rl gl" "t \<le> now"
  shows "snd (rateLimitAnonymous cfg now r rl) = snd (spec_anonymous cfg now r gl) \<and>
    rl_sim now (fst (rateLimitAnonymous cfg now r rl)) (fst (spec_anonymous cfg now r gl))"
proof (cases "rlc_KeyEnforcement cfg \<or> \<not> 0 < rlc_AnonymousRPM cfg")
  case True
  moreover have "rl_wf now rl" using sim rl_wf_mono by (simp add: rl_sim_def) blast
  then have "rl_sim now rl gl" by (intro rl_sim_same [OF sim]) simp_all
  ultimately show ?thesis by (auto simp: rateLimitAnonymous_def spec_anonymous_def)
next
  case False
  let ?n = "''anon:'' @ clientIP r" and ?rpm = "rlc_AnonymousRPM cfg"
  note defs = rateLimitAnonymous_def spec_anonymous_def spec_limit_def Let_def
  show ?thesis
  proof (cases rule: AllowRPM_sim [OF sim, of ?n ?rpm, case_names refused granted])
    case (refused rl1)
    then show ?thesis using False by (simp add: defs)
  next
    case g: (granted rl1)
    have "recent fst now (tpm_grants rl1 j) =
        recent fst now (tpm_grants rl j) @ (if 0 < (0 :: int) \<and> j = ?n then [(now, 0)] else [])" for j
      by (simp add: g(6))
    then obtain rl' rem where "RemainingRPM now ?n ?rpm rl1 = (rl', rem)"
      "rl_sim now rl' (spec_grant now ?n ?rpm 0 gl)" "remainingHeader rem = (if 0 < ?rpm then
          Some (formatInt (?rpm - (int (length (recent id now (gl_rpm gl ?n))) + 1))) else None)"
      by (rule grant_tail [OF sim g(3,2,4)])
    then show ?thesis using g(1,2) False by (simp add: defs)
  qed
qed

lemma RateLimit_sim:
  assumes sim: "rl_sim t rl gl" "t \<le> now"
  shows "\<exists>rl'. RateLimit cfg tokFn now r rl = Some (rl', snd (spec_RateLimit cfg tokFn now r gl)) \<and>
    rl_sim now rl' (fst (spec_RateLimit cfg tokFn now r gl))"
proof -
  have "rl_wf now rl" using sim rl_wf_mono by (simp add: rl_sim_def) blast
  then have same: "rl_sim now rl gl" by (intro rl_sim_same [OF sim]) simp_all
  have anon: "\<exists>rl'. rateLimitAnonymous cfg now r rl = (rl', snd (spec_anonymous cfg now r gl)) \<and>
      rl_sim now rl' (fst (spec_anonymous cfg now r gl))"
    using rateLimitAnonymous_sim [OF sim, of cfg r] by (cases "rateLimitAnonymous cfg now r rl") simp
  consider "\<not> rlc_Enabled cfg" | "rlc_Enabled cfg" "hr_Principal r = None"
    | p where "rlc_Enabled cfg" "hr_Principal r = Some p" "bypassesLimit p"
    | p where "rlc_Enabled cfg" "hr_Principal r = Some p" "\<not> bypassesLimit p" "pr_KeyConfig p = None"
    | p k where "rlc_Enabled cfg" "hr_Principal r = Some p" "\<not> bypassesLimit p" "pr_KeyConfig p = Some k"
    by (metis option.exhaust)
  then show ?thesis
  proof cases
    case (5 p k)
    obtain rl' where "rateLimitKey tokFn now r k rl = Some (rl', snd (spec_RateLimit cfg tokFn now r gl))"
      "rl_sim now rl' (fst (spec_RateLimit cfg tokFn now r gl))"
      using rateLimitKey_sim [OF sim, of tokFn r k] 5 by (auto simp: spec_RateLimit_def)
    then show ?thesis using 5 by (simp add: RateLimit_def bypassesLimit_def)
  qed (use same anon in \<open>auto simp: RateLimit_def spec_RateLimit_def bypassesLimit_def\<close>)
qed

lemma rl_sim_init: "rl_sim start NewRateLimiter \<lparr>gl_rpm = (\<lambda>_. []), gl_tpm = (\<lambda>_. [])\<rparr>"
  by (simp add: rl_sim_def rl_wf_def NewRateLimiter_def rpm_times_def tpm_grants_def)

interpretation limiter: timed_simulation "rl_step tokFn" "spec_step tokFn"
  "\<lambda>now s gl. \<exists>rl. s = Some rl \<and> rl_sim now rl gl" for tokFn
proof unfold_locales
  fix t t' :: time and c gl e
  assume "\<exists>rl. c = Some rl \<and> rl_sim t rl gl" and le: "t \<le> t'"
  then obtain rl where c: "c = Some rl" and sim: "rl_sim t rl gl" by blast
  have "\<exists>rl. fst (rl_step tokFn t' e c) = Some rl \<and> rl_sim t' rl (fst (spec_step tokFn t' e gl)) \<and>
      snd (rl_step tokFn t' e c) = snd (spec_step tokFn t' e gl)"
  proof (cases e)
    case (Request cfg r)
    then show ?thesis using RateLimit_sim [OF sim le, of cfg tokFn r] by (auto simp: c split: prod.splits)
  qed (simp add: c cleanup_sim [OF sim le])
  then show "\<exists>rl. fst (rl_step tokFn t' e c) = Some rl \<and> rl_sim t' rl (fst (spec_step tokFn t' e gl))"
    and "snd (rl_step tokFn t' e c) = snd (spec_step tokFn t' e gl)" by blast+
qed

section \<open>No window exceeds the limits\<close>

text \<open>Under which name, limits and token count an event is charged, if at all.\<close>

definition charge :: "(HttpRequest \<Rightarrow> int) option \<Rightarrow> rl_event \<Rightarrow> (string \<times> int \<times> int \<times> int) option" where
  "charge tokFn e =
     (case e of CleanupTick \<Rightarrow> None
      | Request cfg r \<Rightarrow>
          (let anon = (if \<not> rlc_KeyEnforcement cfg \<and> 0 < rlc_AnonymousRPM cfg
                       then Some (''anon:'' @ clientIP r, rlc_AnonymousRPM cfg, 0, 0) else None)
           in if \<not> rlc_Enabled cfg then None
              else case hr_Principal r of None \<Rightarrow> anon
              | Some p \<Rightarrow> (if bypassesLimit p then None
                  else case pr_KeyConfig p of None \<Rightarrow> anon
                  | Some k \<Rightarrow> Some (rateLimitKeyName k, akc_RPM k, akc_TPM k, request_tokens tokFn r k))))"

definition passed :: "RateLimitOutcome option \<Rightarrow> bool" where
  "passed out = (case out of Some (ServeNext h) \<Rightarrow> True | _ \<Rightarrow> False)"

text \<open>Instants and token counts of the requests of a name that went through.\<close>

definition granted_entry ::
    "(HttpRequest \<Rightarrow> int) option \<Rightarrow> string \<Rightarrow> (time \<times> rl_event) \<times> RateLimitOutcome option \<Rightarrow> (time \<times> int) option" where
  "granted_entry tokFn n x =
     (case charge tokFn (snd (fst x)) of None \<Rightarrow> None
      | Some (m, rpm, tpm, tok) \<Rightarrow> if m = n \<and> passed (snd x) then Some (fst (fst x), max 0 tok) else None)"

definition granted ::
    "(HttpRequest \<Rightarrow> int) option \<Rightarrow> string \<Rightarrow> (time \<times> rl_event) list \<Rightarrow> RateLimitOutcome option list \<Rightarrow>
       (time \<times> int) list" where
  "granted tokFn n evs outs = List.map_filter (granted_entry tokFn n) (zip evs outs)"

definition in_minute :: "time \<Rightarrow> time \<times> int \<Rightarrow> bool" where
  "in_minute s x \<longleftrightarrow> s < fst x \<and> fst x \<le> s + minute"

definition within_limits :: "int \<Rightarrow> int \<Rightarrow> (time \<times> int) list \<Rightarrow> bool" where
  "within_limits L M xs \<longleftrightarrow> (\<forall>s. int (length (filter (in_minute s) xs)) \<le> L \<and>
     sum_list (map snd (filter (in_minute s) xs)) \<le> M)"

lemma sum_list_filter_mono:
  "(\<And>x. x \<in> set xs \<Longrightarrow> P x \<Longrightarrow> Q x) \<Longrightarrow> (\<And>x. x \<in> set xs \<Longrightarrow> 0 \<le> f x) \<Longrightarrow>
   sum_list (map f (filter P xs)) \<le> sum_list (map f (filter Q xs) :: int list)"
  by (induction xs) fastforce+

lemma length_filter_mono:
  "(\<And>x. x \<in> set xs \<Longrightarrow> P x \<Longrightarrow> Q x) \<Longrightarrow> length (filter P xs) \<le> length (filter Q xs)"
  by (induction xs) auto

lemma within_limits_snoc:
  assumes lim: "within_limits L M xs" and nonneg: "\<forall>x \<in> set xs. 0 \<le> snd x"
    and used: "int (length (recent fst now xs)) < L"
    and tok: "0 < tok \<longrightarrow> sum_list (map snd (recent fst now xs)) + tok \<le> M"
  shows "within_limits L M (xs @ [(now, max 0 tok)])"
proof -
  have "int (length (filter (in_minute s) xs)) < L \<and> sum_list (map snd (filter (in_minute s) xs)) + max 0 tok \<le> M"
    if "in_minute s (now, max 0 tok)" for s
  proof -
    have sub: "in_minute s x \<Longrightarrow> now - minute < fst x" for x using that by (simp add: in_minute_def)
    have "length (filter (in_minute s) xs) \<le> length (recent fst now xs)"
      unfolding recent_def by (rule length_filter_mono) (rule sub)
    moreover have "sum_list (map snd (filter (in_minute s) xs)) \<le> sum_list (map snd (recent fst now xs))"
      unfolding recent_def using nonneg by (intro sum_list_filter_mono) (auto intro: sub)
    moreover have "sum_list (map snd (filter (in_minute s) xs)) \<le> M" using lim by (simp add: within_limits_def)
    ultimately show ?thesis using used tok by (cases "0 < tok") auto
  qed
  then show ?thesis using lim by (fastforce simp: within_limits_def)
qed

text \<open>One step of the reference, read through its charge.\<close>

lemma spec_step_charge:
  "(case charge tokFn e of
      None \<Rightarrow> fst (spec_step tokFn now e gl) = gl
    | Some (n, rpm, tpm, tok) \<Rightarrow>
        \<exists>msg. spec_step tokFn now e gl =
              (fst (spec_limit now n rpm tpm tok msg gl), Some (snd (spec_limit now n rpm tpm tok msg gl))))"
proof (cases e)
  case (Request cfg r)
  then show ?thesis
    by (auto simp: charge_def spec_RateLimit_def spec_anonymous_def Let_def case_prod_beta split: option.splits)
qed (simp add: charge_def)

text \<open>The reference log of a name agrees with a list of granted entries.\<close>

definition logs_as :: "string \<Rightarrow> grant_log \<Rightarrow> (time \<times> int) list \<Rightarrow> bool" where
  "logs_as n gl xs \<longleftrightarrow> gl_rpm gl n = map fst xs \<and> gl_tpm gl n = filter (\<lambda>x. 0 < snd x) xs \<and> (\<forall>x \<in> set xs. 0 \<le> snd x)"

lemma logs_as_recent:
  assumes "logs_as n gl xs"
  shows "length (recent id now (gl_rpm gl n)) = length (recent fst now xs)"
    and "sum_list (map snd (recent fst now (gl_tpm gl n))) = sum_list (map snd (recent fst now xs))"
proof -
  show "length (recent id now (gl_rpm gl n)) = length (recent fst now xs)"
    using assms by (simp add: logs_as_def recent_def filter_map comp_def)
  have "sum_list (map snd (filter P (filter (\<lambda>x. 0 < snd x) xs))) = sum_list (map snd (filter P xs))"
    if "\<forall>x \<in> set xs. 0 \<le> snd x" for P :: "time \<times> int \<Rightarrow> bool" and xs
    using that by (induction xs) auto
  then show "sum_list (map snd (recent fst now (gl_tpm gl n))) = sum_list (map snd (recent fst now xs))"
    using assms by (simp add: logs_as_def recent_def)
qed

lemma spec_step_limits:
  fixes n now e tokFn gl
  defines "new \<equiv> (case granted_entry tokFn n ((now, e), snd (spec_step tokFn now e gl)) of None \<Rightarrow> [] | Some x \<Rightarrow> [x])"
  assumes "logs_as n gl xs" "within_limits L M xs"
    and lim: "\<forall>rpm tpm tok. charge tokFn e = Some (n, rpm, tpm, tok) \<longrightarrow>
        0 < rpm \<and> rpm \<le> L \<and> (0 < tok \<longrightarrow> tpm \<le> M)"
    and "0 \<le> M"
  shows "logs_as n (fst (spec_step tokFn now e gl)) (xs @ new) \<and> within_limits L M (xs @ new)"
proof (cases "charge tokFn e")
  case None
  then show ?thesis using spec_step_charge [where tokFn = tokFn and e = e and now = now and gl = gl] assms by (simp add: granted_entry_def)
next
  case (Some c)
  obtain m rpm tpm tok where c: "c = (m, rpm, tpm, tok)" by (cases c)
  obtain msg where st: "spec_step tokFn now e gl =
      (fst (spec_limit now m rpm tpm tok msg gl), Some (snd (spec_limit now m rpm tpm tok msg gl)))"
    using spec_step_charge [where tokFn = tokFn and e = e and now = now and gl = gl] Some c by auto
  show ?thesis
  proof (cases "m = n \<and> passed (snd (spec_step tokFn now e gl))")
    case False
    then have "new = []" using Some c by (auto simp: new_def granted_entry_def)
    moreover have "gl_rpm (fst (spec_step tokFn now e gl)) n = gl_rpm gl n \<and>
        gl_tpm (fst (spec_step tokFn now e gl)) n = gl_tpm gl n"
      using False by (auto simp: st spec_limit_def passed_def Let_def spec_grant_def split: if_splits)
    ultimately show ?thesis using assms(2,3) by (simp add: logs_as_def)
  next
    case True
    then have new: "new = [(now, max 0 tok)]" using Some c by (simp add: new_def granted_entry_def)
    have lims: "0 < rpm" "rpm \<le> L" "0 < tok \<longrightarrow> tpm \<le> M" using lim Some c True by auto
    have ok: "int (length (recent fst now xs)) < rpm"
      "0 < tok \<longrightarrow> sum_list (map snd (recent fst now xs)) + tok \<le> tpm"
      and gl': "fst (spec_step tokFn now e gl) = spec_grant now n rpm tok gl"
      using True lims(1) logs_as_recent [OF assms(2), of now]
      by (auto simp: st spec_limit_def passed_def Let_def split: if_splits)
    have "within_limits L M (xs @ new)"
      using ok lims logs_as_recent assms(2,3) unfolding new by (intro within_limits_snoc) (auto simp: logs_as_def)
    moreover have "logs_as n (spec_grant now n rpm tok gl) (xs @ new)"
      using assms(2) lims(1) by (auto simp: logs_as_def spec_grant_def new)
    ultimately show ?thesis by (simp add: gl')
  qed
qed

lemma granted_Cons:
  "granted tokFn n (x # evs) (out # outs) =
     (case granted_entry tokFn n (x, out) of None \<Rightarrow> [] | Some y \<Rightarrow> [y]) @ granted tokFn n evs outs"
  by (simp add: granted_def List.map_filter_simps split: option.splits)

lemma spec_run_limits:
  assumes "logs_as n gl xs" "within_limits L M xs" "0 \<le> M"
    and "\<forall>(t, e) \<in> set evs. \<forall>rpm tpm tok. charge tokFn e = Some (n, rpm, tpm, tok) \<longrightarrow>
        0 < rpm \<and> rpm \<le> L \<and> (0 < tok \<longrightarrow> tpm \<le> M)"
  shows "within_limits L M (xs @ granted tokFn n evs (run_outputs (spec_step tokFn) gl evs))"
  using assms
proof (induction evs arbitrary: gl xs)
  case (Cons x evs)
  obtain t e where x: "x = (t, e)" by (cases x)
  let ?s = "spec_step tokFn t e gl"
  let ?new = "case granted_entry tokFn n ((t, e), snd ?s) of None \<Rightarrow> [] | Some y \<Rightarrow> [y]"
  have "logs_as n (fst ?s) (xs @ ?new) \<and> within_limits L M (xs @ ?new)"
    using Cons.prems x by (intro spec_step_limits) auto
  then have "within_limits L M ((xs @ ?new) @ granted tokFn n evs (run_outputs (spec_step tokFn) (fst ?s) evs))"
    using Cons.prems(3,4) by (intro Cons.IH) auto
  then show ?case by (simp add: x granted_Cons)
qed (simp add: granted_def List.map_filter_simps)

section \<open>Addresses, names and printing\<close>

text \<open>All connections of a peer share one anonymous counter: the port does not matter, for IPv4 and bracketed IPv6.\<close>

lemma clientIP_ignores_port:
  assumes "set port \<inter> set '':[]'' = {}"
  shows "set host \<inter> set '':[]'' = {} \<Longrightarrow> hr_RemoteAddr r = host @ '':'' @ port \<Longrightarrow> clientIP r = host"
    and "set host \<inter> set ''[]'' = {} \<Longrightarrow> hr_RemoteAddr r = ''['' @ host @ '']:'' @ port \<Longrightarrow> clientIP r = host"
proof -
  show "clientIP r = host" if "set host \<inter> set '':[]'' = {}" "hr_RemoteAddr r = host @ '':'' @ port"
  proof -
    have "hd (host @ '':'' @ port) \<noteq> CHR ''[''" using that(1) by (cases host) auto
    then show ?thesis using that assms split_last_colon [of port host]
      by (simp add: clientIP_def SplitHostPort_def Let_def)
  qed
  show "clientIP r = host" if "set host \<inter> set ''[]'' = {}" "hr_RemoteAddr r = ''['' @ host @ '']:'' @ port"
  proof -
    have "takeWhile (\<lambda>c. c \<noteq> CHR '']'') (host @ '']:'' @ port) = host"
      using that(1) by (simp add: while_until)
    moreover have "afterLastColon (''['' @ host @ '']:'' @ port) = port"
      using split_last_colon(1) [of port "''['' @ host @ '']''"] assms by simp
    ultimately show ?thesis using that assms by (simp add: clientIP_def SplitHostPort_def Let_def)
  qed
qed

text \<open>Reading a decimal number back.\<close>

definition digit_value :: "char \<Rightarrow> int" where
  "digit_value c = int (of_char c) - 48"

primrec read_low :: "string \<Rightarrow> int" where
  "read_low [] = 0"
| "read_low (c # cs) = digit_value c + 10 * read_low cs"

definition parseInt :: "string \<Rightarrow> int" where
  "parseInt s = (if s \<noteq> [] \<and> hd s = CHR ''-'' then - read_low (rev (tl s)) else read_low (rev s))"

lemma digit_value_char: "0 \<le> d \<Longrightarrow> d < 10 \<Longrightarrow> digit_value (digit_char d) = d"
  by (simp add: digit_value_def digit_char_def)

lemma digit_char_not_minus: "0 \<le> d \<Longrightarrow> d < 10 \<Longrightarrow> digit_char d \<noteq> CHR ''-''"
  using digit_value_char [of d] by (auto simp: digit_value_def)

lemma digitLoop_read: "0 \<le> v \<Longrightarrow> read_low (digitLoop v) = v"
proof (induction v rule: digitLoop.induct)
  case (1 v)
  then show ?case by (subst digitLoop.simps) (simp add: digit_value_char)
qed

lemma digitLoop_digits: "0 \<le> v \<Longrightarrow> CHR ''-'' \<notin> set (digitLoop v)"
proof (induction v rule: digitLoop.induct)
  case (1 v)
  have "CHR ''-'' \<noteq> digit_char (v mod 10)" using digit_char_not_minus [of "v mod 10"] by (metis pos_mod_bound
        pos_mod_sign zero_less_numeral)
  moreover have "CHR ''-'' \<notin> set (digitLoop (v div 10))" if "0 < v" using 1 that by simp
  ultimately show ?case by (simp add: digitLoop.simps [of v])
qed

lemma digitLoop_nonempty: "0 < v \<Longrightarrow> digitLoop v \<noteq> []"
  by (subst digitLoop.simps) simp

lemma formatInt_parse:
  assumes "- (2 ^ 63) < v" "v < 2 ^ 63"
  shows "parseInt (formatInt v) = v"
proof -
  consider "v = 0" | "v < 0" | "0 < v" by linarith
  then show ?thesis
  proof cases
    case 1
    then show ?thesis by (simp add: formatInt_def parseInt_def digit_value_def)
  next
    case 2
    then have "neg64 v = - v" using assms by (simp add: neg64_def)
    then show ?thesis using 2 digitLoop_read [of "- v"] by (simp add: formatInt_def parseInt_def)
  next
    case 3
    then have "hd (rev (digitLoop v)) \<in> set (digitLoop v)"
      using digitLoop_nonempty [of v] by (metis hd_in_set rev_is_Nil_conv set_rev)
    then have "hd (rev (digitLoop v)) \<noteq> CHR ''-''" using digitLoop_digits [of v] 3 by auto
    then show ?thesis using 3 digitLoop_read [of v] by (simp add: formatInt_def parseInt_def)
  qed
qed

section \<open>Properties\<close>

text \<open>
  C14. The rate limiter answers every request of every run (requests and cleanup ticks at non-decreasing instants, under
  configurations that may change between requests) exactly like the reference that keeps the complete log of granted
  requests: a request with a key is refused for RPM exactly when the requests granted under that key in the last minute have
  reached the limit, for TPM exactly when its tokens do not fit into what the grants of the last minute left, and otherwise
  granted with the exact remaining count.  Purging, rollback of a refused request and removal of idle states are invisible,
  and no index is ever out of range.
\<close>

theorem rate_limit_is_sliding_log:
  assumes "chronological start evs"
  shows "run_outputs (rl_step tokFn) (Some NewRateLimiter) evs =
         run_outputs (spec_step tokFn) \<lparr>gl_rpm = (\<lambda>_. []), gl_tpm = (\<lambda>_. [])\<rparr> evs"
proof -
  have "rl_sim start NewRateLimiter \<lparr>gl_rpm = (\<lambda>_. []), gl_tpm = (\<lambda>_. [])\<rparr>" by (rule rl_sim_init)
  then show ?thesis using limiter.outputs_eq assms by blast
qed

text \<open>Three requests of a key with two requests and ten tokens a minute; the clock is in seconds.\<close>

definition rl_example_cfg :: RateLimitConfig where
  "rl_example_cfg = \<lparr>rlc_Enabled = True, rlc_KeyEnforcement = True, rlc_AnonymousRPM = 0\<rparr>"

definition rl_example_req :: HttpRequest where
  "rl_example_req = \<lparr>hr_Principal = Some ((newPrincipal RoleViewer)\<lparr>pr_AuthMethod := ''apikey'',
      pr_KeyConfig := Some ((keyConfig ''sk-12345678'' ''team'')\<lparr>akc_RPM := 2, akc_TPM := 10\<rparr>)\<rparr>),
     hr_RemoteAddr = ''10.0.0.1:4242'', hr_Body = ''hello''\<rparr>"

definition rl_example_run :: "(time \<times> rl_event) list" where
  "rl_example_run = [(0, Request rl_example_cfg rl_example_req), (second, CleanupTick),
     (2 * second, Request rl_example_cfg rl_example_req), (3 * second, Request rl_example_cfg rl_example_req),
     (61 * second, Request rl_example_cfg rl_example_req)]"

definition rl_example_tok :: "(HttpRequest \<Rightarrow> int) option" where
  "rl_example_tok = Some (\<lambda>r. int (length (hr_Body r)))"

lemmas rl_example_defs = rl_example_cfg_def rl_example_req_def rl_example_run_def rl_example_tok_def

theorem rate_limit_is_sliding_log_witness:
  "run_outputs (rl_step rl_example_tok) (Some NewRateLimiter) rl_example_run =
     [Some (ServeNext (Some ''1'')), None, Some (ServeNext (Some ''0'')),
      Some (TooManyRequests True ''Rate limit exceeded (RPM)''), Some (ServeNext (Some ''0''))]"
proof -
  have "chronological 0 rl_example_run" by (simp add: rl_example_defs second_def)
  then show ?thesis unfolding rate_limit_is_sliding_log [OF \<open>chronological 0 rl_example_run\<close>] by code_simp
qed

text \<open>
  In every half-open window of one minute, and over every run, at most the configured number of requests of a key (or of
  an anonymous peer) goes through, and their tokens do not exceed the configured token limit, when every request charged to
  that name has a positive request limit of at most \<open>L\<close> and, where it counts tokens, a token limit of at most \<open>M\<close>.
\<close>

theorem rate_limit_window_bound:
  assumes "chronological start evs" "0 \<le> L" "0 \<le> M"
    and "\<forall>(t, e) \<in> set evs. \<forall>rpm tpm tok. charge tokFn e = Some (n, rpm, tpm, tok) \<longrightarrow>
        0 < rpm \<and> rpm \<le> L \<and> (0 < tok \<longrightarrow> tpm \<le> M)"
  shows "within_limits L M (granted tokFn n evs (run_outputs (rl_step tokFn) (Some NewRateLimiter) evs))"
proof -
  let ?gl = "\<lparr>gl_rpm = (\<lambda>_. []), gl_tpm = (\<lambda>_. [])\<rparr>"
  have "rl_sim start NewRateLimiter ?gl" by (rule rl_sim_init)
  then have "run_outputs (rl_step tokFn) (Some NewRateLimiter) evs = run_outputs (spec_step tokFn) ?gl evs"
    using limiter.outputs_eq assms(1) by blast
  moreover have "within_limits L M ([] @ granted tokFn n evs (run_outputs (spec_step tokFn) ?gl evs))"
    using assms by (intro spec_run_limits) (simp_all add: logs_as_def within_limits_def)
  ultimately show ?thesis by simp
qed

theorem rate_limit_window_bound_witness:
  "within_limits 2 10 (granted rl_example_tok ''team'' rl_example_run
     (run_outputs (rl_step rl_example_tok) (Some NewRateLimiter) rl_example_run)) \<and>
   granted rl_example_tok ''team'' rl_example_run
     (run_outputs (rl_step rl_example_tok) (Some NewRateLimiter) rl_example_run) =
     [(0, 5), (2 * second, 5), (61 * second, 5)]"
proof
  show "within_limits 2 10 (granted rl_example_tok ''team'' rl_example_run
     (run_outputs (rl_step rl_example_tok) (Some NewRateLimiter) rl_example_run))"
    by (rule rate_limit_window_bound [of 0])
      (simp_all add: rl_example_defs charge_def bypassesLimit_def rateLimitKeyName_def request_tokens_def second_def)
  show "granted rl_example_tok ''team'' rl_example_run
     (run_outputs (rl_step rl_example_tok) (Some NewRateLimiter) rl_example_run) =
     [(0, 5), (2 * second, 5), (61 * second, 5)]" by code_simp
qed

end
