(* ===== verification/Response_Cache.thy ===== *)
theory Response_Cache
  imports Gateway_Prelude "HOL-Library.AList"
begin

text \<open>
  The response cache (\<^verbatim>\<open>cache/cache.go\<close>) and its backends (\<^verbatim>\<open>cache/backend.go\<close>).

  The cache is a map from keys to elements of a doubly linked list in recency order; every method of the list works on element
  identity, so elements are addresses into a heap of entries and the map stores addresses.  \<^verbatim>\<open>Get\<close> reads under the read
  lock and finishes under the write lock: the two halves are separate definitions, their composition is the uninterrupted
  call.  The reference is a plain list of entries, most recent first, trimmed from the front; the theory shows that map,
  list, heap and byte counter implement it, and what an interleaved \<^verbatim>\<open>Get\<close> of an expired entry does to them.
\<close>

section \<open>State\<close>

type_synonym elem = nat
type_synonym bytes = string

record entry =
  en_key :: string
  en_value :: bytes
  en_expiresAt :: time
  en_size :: int

record CacheConfig =
  cc_Enabled :: bool
  cc_MaxEntries :: int
  cc_TTL :: duration
  cc_MaxMemoryMB :: int

text \<open>The Go map \<^verbatim>\<open>items\<close> is an association list with distinct keys; \<open>c_next\<close> is the allocator of elements.\<close>

record Cache =
  c_items :: "(string \<times> elem) list"
  c_order :: "elem list"
  c_heap :: "elem \<Rightarrow> entry"
  c_next :: elem
  c_maxEntries :: int
  c_ttl :: duration
  c_maxBytes :: int
  c_usedBytes :: int
  c_hits :: int
  c_misses :: int

definition null_entry :: entry where
  "null_entry = \<lparr>en_key = '''', en_value = '''', en_expiresAt = 0, en_size = 0\<rparr>"

definition cache_New :: "CacheConfig \<Rightarrow> Cache option" where
  "cache_New cfg =
     (if \<not> cc_Enabled cfg then None
      else Some
        \<lparr>c_items = [], c_order = [], c_heap = (\<lambda>_. null_entry), c_next = 0,
         c_maxEntries = (if cc_MaxEntries cfg \<le> 0 then 10000 else cc_MaxEntries cfg),
         c_ttl = (if cc_TTL cfg \<le> 0 then 5 * minute else cc_TTL cfg),
         c_maxBytes = (if cc_MaxMemoryMB cfg > 0 then cc_MaxMemoryMB cfg * 1024 * 1024 else 0),
         c_usedBytes = 0, c_hits = 0, c_misses = 0\<rparr>)"

section \<open>Operations\<close>

text \<open>
  \<^verbatim>\<open>list.Remove\<close> and \<^verbatim>\<open>list.MoveToFront\<close> ignore an element that is no longer in the list.
\<close>

definition removeElement :: "elem \<Rightarrow> Cache \<Rightarrow> Cache" where
  "removeElement el c =
     (let e = c_heap c el in
      c\<lparr>c_order := remove1 el (c_order c), c_items := AList.delete (en_key e) (c_items c),
        c_usedBytes := c_usedBytes c - en_size e\<rparr>)"

definition moveToFront :: "elem \<Rightarrow> elem list \<Rightarrow> elem list" where
  "moveToFront el order = (if el \<in> set order then el # remove1 el order else order)"

text \<open>\<^verbatim>\<open>Get\<close>, first half, under the read lock.\<close>

datatype get_read = ReadMiss | ReadExpired elem | ReadHit elem bytes

definition cache_Get_read :: "time \<Rightarrow> string \<Rightarrow> Cache \<Rightarrow> get_read" where
  "cache_Get_read now key c =
     (case map_of (c_items c) key of
        None \<Rightarrow> ReadMiss
      | Some el \<Rightarrow>
          (if en_expiresAt (c_heap c el) < now then ReadExpired el
           else ReadHit el (en_value (c_heap c el))))"

text \<open>Second half, under the write lock.\<close>

definition cache_Get_finish :: "get_read \<Rightarrow> Cache \<Rightarrow> Cache \<times> bytes option" where
  "cache_Get_finish r c =
     (case r of
        ReadMiss \<Rightarrow> (c\<lparr>c_misses := c_misses c + 1\<rparr>, None)
      | ReadExpired el \<Rightarrow> (let c1 = removeElement el c in (c1\<lparr>c_misses := c_misses c1 + 1\<rparr>, None))
      | ReadHit el v \<Rightarrow> (c\<lparr>c_order := moveToFront el (c_order c), c_hits := c_hits c + 1\<rparr>, Some v))"

definition cache_Get :: "time \<Rightarrow> string \<Rightarrow> Cache \<Rightarrow> Cache \<times> bytes option" where
  "cache_Get now key c = cache_Get_finish (cache_Get_read now key c) c"

text \<open>The eviction loops of \<^verbatim>\<open>Set\<close> and \<^verbatim>\<open>UpdateConfig\<close> differ only in their condition.\<close>

function evictLoop :: "(Cache \<Rightarrow> bool) \<Rightarrow> Cache \<Rightarrow> Cache" where
  "evictLoop over c =
     (if over c \<and> c_order c \<noteq> [] then evictLoop over (removeElement (last (c_order c)) c) else c)"
  by pat_completeness auto
termination
  by (relation "measure (\<lambda>(over, c). length (c_order c))")
    (auto simp: removeElement_def Let_def length_remove1)

declare evictLoop.simps [simp del]

definition overBytes :: "Cache \<Rightarrow> bool" where
  "overBytes c \<longleftrightarrow> c_maxBytes c > 0 \<and> c_usedBytes c > c_maxBytes c"

definition overEntries :: "Cache \<Rightarrow> bool" where
  "overEntries c \<longleftrightarrow> int (length (c_items c)) > c_maxEntries c"

definition dropKey :: "string \<Rightarrow> Cache \<Rightarrow> Cache" where
  "dropKey key c = (case map_of (c_items c) key of Some el \<Rightarrow> removeElement el c | None \<Rightarrow> c)"

definition cache_Set :: "time \<Rightarrow> string \<Rightarrow> bytes \<Rightarrow> Cache \<Rightarrow> Cache" where
  "cache_Set now key value c =
     (let c1 = dropKey key c;
          e = \<lparr>en_key = key, en_value = value, en_expiresAt = now + c_ttl c1, en_size = int (length value)\<rparr>;
          el = c_next c1;
          c2 = c1\<lparr>c_heap := (c_heap c1)(el := e), c_next := Suc el, c_order := el # c_order c1,
                  c_items := AList.update key el (c_items c1), c_usedBytes := c_usedBytes c1 + en_size e\<rparr>
      in evictLoop (\<lambda>c. overBytes c \<or> overEntries c) c2)"

definition cache_Delete :: "string \<Rightarrow> Cache \<Rightarrow> Cache" where
  "cache_Delete key c = dropKey key c"

text \<open>One tick of the eviction goroutine: the expired keys are collected under the read lock, removed under the write lock.\<close>

definition evictExpired_collect :: "time \<Rightarrow> Cache \<Rightarrow> string list" where
  "evictExpired_collect now c =
     map fst (filter (\<lambda>(key, el). en_expiresAt (c_heap c el) < now) (c_items c))"

definition evictExpired_remove :: "string list \<Rightarrow> Cache \<Rightarrow> Cache" where
  "evictExpired_remove keys c = fold dropKey keys c"

definition cache_evictExpired :: "time \<Rightarrow> Cache \<Rightarrow> Cache" where
  "cache_evictExpired now c = evictExpired_remove (evictExpired_collect now c) c"

definition cache_Stats :: "Cache \<Rightarrow> int \<times> int \<times> nat" where
  "cache_Stats c = (c_hits c, c_misses c, length (c_items c))"

definition cache_UpdateConfig :: "CacheConfig \<Rightarrow> Cache \<Rightarrow> Cache" where
  "cache_UpdateConfig cfg c =
     (let c1 = (if cc_MaxEntries cfg > 0
                then evictLoop overEntries (c\<lparr>c_maxEntries := cc_MaxEntries cfg\<rparr>) else c);
          c2 = (if cc_TTL cfg > 0 then c1\<lparr>c_ttl := cc_TTL cfg\<rparr> else c1)
      in if cc_MaxMemoryMB cfg > 0
         then evictLoop overBytes (c2\<lparr>c_maxBytes := cc_MaxMemoryMB cfg * 1024 * 1024\<rparr>) else c2)"

section \<open>The reference: a list in recency order\<close>

type_synonym lru_entry = "string \<times> bytes \<times> time"

record lru =
  lr_entries :: "lru_entry list"
  lr_maxEntries :: int
  lr_ttl :: duration
  lr_maxBytes :: int
  lr_hits :: int
  lr_misses :: int

abbreviation (input) lru_size :: "lru_entry \<Rightarrow> int" where
  "lru_size x \<equiv> int (length (fst (snd x)))"

text \<open>The longest run of most recent entries within an entry budget and a byte budget (\<open>None\<close>: no limit).\<close>

fun keep :: "int option \<Rightarrow> int option \<Rightarrow> lru_entry list \<Rightarrow> lru_entry list" where
  "keep n b [] = []"
| "keep n b (x # xs) =
     (if (\<exists>k. n = Some k \<and> k \<le> 0) \<or> (\<exists>k. b = Some k \<and> k < lru_size x) then []
      else x # keep (map_option (\<lambda>k. k - 1) n) (map_option (\<lambda>k. k - lru_size x) b) xs)"

definition byteBudget :: "int \<Rightarrow> int option" where
  "byteBudget b = (if 0 < b then Some b else None)"

definition without :: "string \<Rightarrow> lru_entry list \<Rightarrow> lru_entry list" where
  "without k xs = filter (\<lambda>x. fst x \<noteq> k) xs"

definition lru_Get :: "time \<Rightarrow> string \<Rightarrow> lru \<Rightarrow> lru \<times> bytes option" where
  "lru_Get now k l =
     (case map_of (lr_entries l) k of
        None \<Rightarrow> (l\<lparr>lr_misses := lr_misses l + 1\<rparr>, None)
      | Some (v, expiry) \<Rightarrow>
          (if expiry < now
           then (l\<lparr>lr_entries := without k (lr_entries l), lr_misses := lr_misses l + 1\<rparr>, None)
           else (l\<lparr>lr_entries := (k, v, expiry) # without k (lr_entries l), lr_hits := lr_hits l + 1\<rparr>, Some v)))"

definition lru_Set :: "time \<Rightarrow> string \<Rightarrow> bytes \<Rightarrow> lru \<Rightarrow> lru" where
  "lru_Set now k v l =
     l\<lparr>lr_entries := keep (Some (lr_maxEntries l)) (byteBudget (lr_maxBytes l))
                       ((k, v, now + lr_ttl l) # without k (lr_entries l))\<rparr>"

definition lru_UpdateConfig :: "CacheConfig \<Rightarrow> lru \<Rightarrow> lru" where
  "lru_UpdateConfig cfg l =
     (let n = (if cc_MaxEntries cfg > 0 then cc_MaxEntries cfg else lr_maxEntries l);
          b = (if cc_MaxMemoryMB cfg > 0 then cc_MaxMemoryMB cfg * 1024 * 1024 else lr_maxBytes l)
      in l\<lparr>lr_entries := keep (if cc_MaxEntries cfg > 0 then Some n else None)
                          (if cc_MaxMemoryMB cfg > 0 then Some b else None) (lr_entries l),
           lr_maxEntries := n, lr_maxBytes := b,
           lr_ttl := (if cc_TTL cfg > 0 then cc_TTL cfg else lr_ttl l)\<rparr>)"

datatype cache_op =
  OpGet string | OpSet string bytes | OpDelete string | OpEvictTick | OpStats | OpUpdateConfig CacheConfig

datatype cache_out = OutValue "bytes option" | OutDone | OutStats int int nat

fun cache_step :: "time \<Rightarrow> cache_op \<Rightarrow> Cache \<Rightarrow> Cache \<times> cache_out" where
  "cache_step now (OpGet k) c = (let (c', v) = cache_Get now k c in (c', OutValue v))"
| "cache_step now (OpSet k v) c = (cache_Set now k v c, OutDone)"
| "cache_step now (OpDelete k) c = (cache_Delete k c, OutDone)"
| "cache_step now OpEvictTick c = (cache_evictExpired now c, OutDone)"
| "cache_step now OpStats c = (c, case cache_Stats c of (h, m, n) \<Rightarrow> OutStats h m n)"
| "cache_step now (OpUpdateConfig cfg) c = (cache_UpdateConfig cfg c, OutDone)"

fun lru_step :: "time \<Rightarrow> cache_op \<Rightarrow> lru \<Rightarrow> lru \<times> cache_out" where
  "lru_step now (OpGet k) l = (let (l', v) = lru_Get now k l in (l', OutValue v))"
| "lru_step now (OpSet k v) l = (lru_Set now k v l, OutDone)"
| "lru_step now (OpDelete k) l = (l\<lparr>lr_entries := without k (lr_entries l)\<rparr>, OutDone)"
| "lru_step now OpEvictTick l =
     (l\<lparr>lr_entries := filter (\<lambda>x. now \<le> snd (snd x)) (lr_entries l)\<rparr>, OutDone)"
| "lru_step now OpStats l = (l, OutStats (lr_hits l) (lr_misses l) (length (lr_entries l)))"
| "lru_step now (OpUpdateConfig cfg) l = (lru_UpdateConfig cfg l, OutDone)"

section \<open>Trimming from the back is keeping from the front\<close>

definition fits :: "int option \<Rightarrow> int option \<Rightarrow> lru_entry list \<Rightarrow> bool" where
  "fits n b xs \<longleftrightarrow> (\<forall>k. n = Some k \<longrightarrow> int (length xs) \<le> k) \<and> (\<forall>k. b = Some k \<longrightarrow> sum_list (map lru_size xs) \<le> k)"

lemma lru_sizes_nonneg: "0 \<le> sum_list (map lru_size xs)"
  by (induction xs) auto

lemma keep_fits: "fits n b xs \<Longrightarrow> keep n b xs = xs"
proof (induction n b xs rule: keep.induct)
  case (2 n b x xs)
  have "fits (map_option (\<lambda>k. k - 1) n) (map_option (\<lambda>k. k - lru_size x) b) xs"
    using "2.prems" by (auto simp: fits_def)
  moreover have "\<not> ((\<exists>k. n = Some k \<and> k \<le> 0) \<or> (\<exists>k. b = Some k \<and> k < lru_size x))"
    using "2.prems" lru_sizes_nonneg [of xs] by (fastforce simp: fits_def)
  ultimately show ?case using "2.IH" by simp
qed simp

lemma keep_snoc: "\<not> fits n b (xs @ [x]) \<Longrightarrow> keep n b (xs @ [x]) = keep n b xs"
proof (induction n b xs rule: keep.induct)
  case (1 n b)
  then show ?case by (auto simp: fits_def)
next
  case (2 n b y ys)
  show ?case
  proof (cases "(\<exists>k. n = Some k \<and> k \<le> 0) \<or> (\<exists>k. b = Some k \<and> k < lru_size y)")
    case True
    then show ?thesis by auto
  next
    case False
    have "\<not> fits (map_option (\<lambda>k. k - 1) n) (map_option (\<lambda>k. k - lru_size y) b) (ys @ [x])"
      using "2.prems" by (auto simp: fits_def)
    then show ?thesis using "2.IH" False by simp
  qed
qed

text \<open>What is kept is a prefix within the limits, and no longer prefix is.\<close>

lemma keep_prefix: "\<exists>ys. xs = keep n b xs @ ys"
  by (induction n b xs rule: keep.induct) auto

lemma keep_ok:
  "(\<forall>k. n = Some k \<longrightarrow> 0 \<le> k) \<Longrightarrow> (\<forall>k. b = Some k \<longrightarrow> 0 \<le> k) \<Longrightarrow> fits n b (keep n b xs)"
proof (induction n b xs rule: keep.induct)
  case (2 n b x xs)
  show ?case
  proof (cases "(\<exists>k. n = Some k \<and> k \<le> 0) \<or> (\<exists>k. b = Some k \<and> k < lru_size x)")
    case False
    then have "fits (map_option (\<lambda>k. k - 1) n) (map_option (\<lambda>k. k - lru_size x) b)
        (keep (map_option (\<lambda>k. k - 1) n) (map_option (\<lambda>k. k - lru_size x) b) xs)"
      by (intro "2.IH") auto
    then show ?thesis using False by (auto simp: fits_def)
  qed (use "2.prems" in \<open>auto simp: fits_def\<close>)
qed (auto simp: fits_def)

lemma keep_keep: "keep None b (keep n None xs) = keep n b xs"
proof (induction xs arbitrary: n b)
  case (Cons x xs)
  show ?case by (simp add: Cons.IH)
qed simp

section \<open>The representation invariant\<close>

definition elem_entry :: "Cache \<Rightarrow> elem \<Rightarrow> lru_entry" where
  "elem_entry c el = (en_key (c_heap c el), en_value (c_heap c el), en_expiresAt (c_heap c el))"

definition elem_key :: "Cache \<Rightarrow> elem \<Rightarrow> string" where
  "elem_key c el = en_key (c_heap c el)"

definition abs_entries :: "Cache \<Rightarrow> lru_entry list" where
  "abs_entries c = map (elem_entry c) (c_order c)"

definition cache_inv :: "Cache \<Rightarrow> bool" where
  "cache_inv c \<longleftrightarrow>
     distinct (map (elem_key c) (c_order c)) \<and> distinct (map fst (c_items c)) \<and>
     set (c_items c) = (\<lambda>el. (elem_key c el, el)) ` set (c_order c) \<and>
     (\<forall>el \<in> set (c_order c). el < c_next c \<and> en_size (c_heap c el) = int (length (en_value (c_heap c el)))) \<and>
     c_usedBytes c = sum_list (map lru_size (abs_entries c))"

lemma elem_entry_simps [simp]:
  "fst (elem_entry c el) = elem_key c el"
  "fst (snd (elem_entry c el)) = en_value (c_heap c el)"
  "snd (snd (elem_entry c el)) = en_expiresAt (c_heap c el)"
  by (simp_all add: elem_entry_def elem_key_def)

lemma cache_inv_distinct: "cache_inv c \<Longrightarrow> distinct (c_order c)"
  by (auto simp: cache_inv_def distinct_map)

lemma cache_inv_lookup:
  assumes "cache_inv c"
  shows "map_of (c_items c) k = Some el \<longleftrightarrow> el \<in> set (c_order c) \<and> elem_key c el = k"
proof -
  have "map_of (c_items c) k = Some el \<longleftrightarrow> (k, el) \<in> set (c_items c)"
    using assms by (intro map_of_eq_Some_iff) (simp add: cache_inv_def)
  then show ?thesis using assms by (auto simp: cache_inv_def)
qed

lemma cache_inv_absent:
  assumes "cache_inv c"
  shows "map_of (c_items c) k = None \<longleftrightarrow> k \<notin> elem_key c ` set (c_order c)"
  using cache_inv_lookup [OF assms, of k] by (metis (no_types, lifting) imageE image_eqI not_None_eq)

lemma cache_inv_length:
  assumes "cache_inv c"
  shows "length (c_items c) = length (c_order c)"
proof -
  have "length (c_items c) = card (set (c_items c))"
    using assms by (metis cache_inv_def distinct_card distinct_map)
  also have "\<dots> = card (set (c_order c))"
    using assms by (auto simp: cache_inv_def intro!: card_image inj_onI)
  finally show ?thesis using cache_inv_distinct [OF assms] by (simp add: distinct_card)
qed

text \<open>Everything but list, map and byte counter.\<close>

definition cache_frame :: "Cache \<Rightarrow> (elem \<Rightarrow> entry) \<times> elem \<times> int \<times> duration \<times> int \<times> int \<times> int" where
  "cache_frame c = (c_heap c, c_next c, c_maxEntries c, c_ttl c, c_maxBytes c, c_hits c, c_misses c)"

lemma removeElement_frame [simp]: "cache_frame (removeElement el c) = cache_frame c"
  by (simp add: cache_frame_def removeElement_def Let_def)

lemma filter_key_remove1:
  assumes "distinct (map f xs)" "x \<in> set xs"
  shows "filter (\<lambda>y. f y \<noteq> f x) xs = remove1 x xs"
proof -
  have "filter (\<lambda>y. f y \<noteq> f x) xs = filter (\<lambda>y. y \<noteq> x) xs"
    using assms by (auto simp: distinct_map dest: inj_onD intro!: filter_cong)
  also have "\<dots> = remove1 x xs" using assms(1) by (simp add: distinct_map distinct_remove1_removeAll removeAll_filter_not_eq eq_commute)
  finally show ?thesis .
qed

lemma sum_without:
  assumes "distinct (map f xs)" "x \<in> set xs"
  shows "sum_list (map g (remove1 x xs)) = sum_list (map g xs) - (g x :: int)"
  using assms(2) by (simp add: sum_list_map_remove1)

lemma removeElement_abs:
  assumes "cache_inv c" "el \<in> set (c_order c)"
  shows "cache_inv (removeElement el c)"
    and "abs_entries (removeElement el c) = without (elem_key c el) (abs_entries c)"
proof -
  have heap: "c_heap (removeElement el c) = c_heap c" "elem_key (removeElement el c) = elem_key c"
    "elem_entry (removeElement el c) = elem_entry c" "c_next (removeElement el c) = c_next c"
    by (simp_all add: removeElement_def Let_def elem_key_def elem_entry_def fun_eq_iff)
  have ord: "c_order (removeElement el c) = remove1 el (c_order c)"
    by (simp add: removeElement_def Let_def)
  have d: "distinct (map (elem_key c) (c_order c))" using assms(1) by (simp add: cache_inv_def)
  have keys: "filter (\<lambda>y. elem_key c y \<noteq> elem_key c el) (c_order c) = remove1 el (c_order c)"
    using filter_key_remove1 [OF d assms(2)] .
  have items: "c_items (removeElement el c) = AList.delete (elem_key c el) (c_items c)"
    by (simp add: removeElement_def Let_def elem_key_def)
  have "set (c_items (removeElement el c)) = {p \<in> set (c_items c). fst p \<noteq> elem_key c el}"
    by (auto simp: items AList.delete_eq)
  also have "\<dots> = (\<lambda>y. (elem_key c y, y)) ` set (filter (\<lambda>y. elem_key c y \<noteq> elem_key c el) (c_order c))"
    using assms(1) by (auto simp: cache_inv_def)
  finally have set_items: "set (c_items (removeElement el c)) = (\<lambda>y. (elem_key c y, y)) ` set (remove1 el (c_order c))"
    by (simp only: keys)
  have used: "c_usedBytes (removeElement el c) = sum_list (map lru_size (abs_entries (removeElement el c)))"
    using assms d sum_without [OF d assms(2), of "\<lambda>y. lru_size (elem_entry c y)"]
    by (simp add: removeElement_def Let_def abs_entries_def cache_inv_def comp_def elem_entry_def)
  have "distinct (map (elem_key c) (remove1 el (c_order c)))" using distinct_map_filter [OF d] keys by metis
  moreover have "distinct (map fst (c_items (removeElement el c)))"
    unfolding items using assms(1) by (intro AList.distinct_delete) (simp add: cache_inv_def)
  moreover have "\<forall>y \<in> set (remove1 el (c_order c)). y < c_next c \<and>
      en_size (c_heap c y) = int (length (en_value (c_heap c y)))"
    using assms(1) set_remove1_subset [of el "c_order c"] by (auto simp: cache_inv_def)
  ultimately show "cache_inv (removeElement el c)"
    using used by (simp add: cache_inv_def [of "removeElement el c"] heap ord set_items)
  show "abs_entries (removeElement el c) = without (elem_key c el) (abs_entries c)"
    by (simp add: abs_entries_def without_def heap ord filter_map comp_def keys)
qed

lemma dropKey_abs:
  assumes "cache_inv c"
  shows "cache_inv (dropKey k c)" "abs_entries (dropKey k c) = without k (abs_entries c)"
    "cache_frame (dropKey k c) = cache_frame c"
proof -
  have "cache_inv (dropKey k c) \<and> abs_entries (dropKey k c) = without k (abs_entries c) \<and>
      cache_frame (dropKey k c) = cache_frame c"
  proof (cases "map_of (c_items c) k")
    case None
    then have "\<forall>el \<in> set (c_order c). elem_key c el \<noteq> k" using cache_inv_absent [OF assms] by auto
    then show ?thesis using None assms by (simp add: dropKey_def without_def abs_entries_def filter_map comp_def)
  next
    case (Some el)
    then show ?thesis using removeElement_abs [OF assms, of el] cache_inv_lookup [OF assms, of k el]
      by (simp add: dropKey_def)
  qed
  then show "cache_inv (dropKey k c)" "abs_entries (dropKey k c) = without k (abs_entries c)"
    "cache_frame (dropKey k c) = cache_frame c" by blast+
qed

text \<open>Removing the back element removes the last entry.\<close>

lemma remove_back:
  assumes "cache_inv c" "c_order c \<noteq> []"
  shows "cache_inv (removeElement (last (c_order c)) c)"
    and "abs_entries (removeElement (last (c_order c)) c) = butlast (abs_entries c)"
proof -
  show "cache_inv (removeElement (last (c_order c)) c)" using assms by (intro removeElement_abs) auto
  obtain xs el where o: "c_order c = xs @ [el]" using assms(2) by (metis append_butlast_last_id)
  moreover have "el \<notin> set xs" using cache_inv_distinct [OF assms(1)] o by simp
  ultimately show "abs_entries (removeElement (last (c_order c)) c) = butlast (abs_entries c)"
    by (simp add: removeElement_def Let_def abs_entries_def elem_entry_def remove1_append comp_def)
qed

lemma evictLoop_keep:
  assumes "cache_inv c"
    and over: "\<And>c'. cache_inv c' \<Longrightarrow> cache_frame c' = cache_frame c \<Longrightarrow> over c' \<longleftrightarrow> \<not> fits n b (abs_entries c')"
  shows "cache_inv (evictLoop over c) \<and> abs_entries (evictLoop over c) = keep n b (abs_entries c) \<and>
    cache_frame (evictLoop over c) = cache_frame c"
  using assms
proof (induction over c rule: evictLoop.induct)
  case (1 over c)
  show ?case
  proof (cases "over c \<and> c_order c \<noteq> []")
    case True
    let ?c = "removeElement (last (c_order c)) c"
    obtain ys y where y: "abs_entries c = ys @ [y]"
      using True by (metis abs_entries_def append_butlast_last_id map_is_Nil_conv)
    have "abs_entries ?c = ys" "cache_inv ?c" using remove_back "1.prems"(1) True y by auto
    moreover have "cache_inv (evictLoop over ?c) \<and> abs_entries (evictLoop over ?c) = keep n b (abs_entries ?c) \<and>
        cache_frame (evictLoop over ?c) = cache_frame ?c"
      using "1.IH" [OF True] "1.prems"(2) \<open>cache_inv ?c\<close> by simp
    moreover have "\<not> fits n b (ys @ [y])" using "1.prems" True y by simp
    ultimately show ?thesis using True y keep_snoc by (simp add: evictLoop.simps [of over c])
  next
    case False
    have "keep n b (abs_entries c) = abs_entries c"
    proof (cases "over c")
      case True
      with False show ?thesis by (simp add: abs_entries_def)
    next
      case False
      then show ?thesis using "1.prems" keep_fits by blast
    qed
    moreover have "evictLoop over c = c" using False by (subst evictLoop.simps) (rule if_not_P)
    ultimately show ?thesis using "1.prems"(1) by simp
  qed
qed

lemma abs_entries_length: "cache_inv c \<Longrightarrow> length (c_items c) = length (abs_entries c)"
  by (simp add: cache_inv_length abs_entries_def)

lemma overEntries_fits:
  "cache_inv c \<Longrightarrow> overEntries c \<longleftrightarrow> \<not> fits (Some (c_maxEntries c)) None (abs_entries c)"
  by (auto simp: overEntries_def fits_def abs_entries_length)

lemma overBytes_fits:
  "cache_inv c \<Longrightarrow> overBytes c \<longleftrightarrow> \<not> fits None (byteBudget (c_maxBytes c)) (abs_entries c)"
  by (auto simp: overBytes_def fits_def cache_inv_def byteBudget_def)

lemma over_fits:
  "cache_inv c \<Longrightarrow> overBytes c \<or> overEntries c \<longleftrightarrow>
     \<not> fits (Some (c_maxEntries c)) (byteBudget (c_maxBytes c)) (abs_entries c)"
  by (auto simp: overEntries_fits overBytes_fits fits_def)

section \<open>The simulation\<close>

definition cache_sim :: "Cache \<Rightarrow> lru \<Rightarrow> bool" where
  "cache_sim c l \<longleftrightarrow> cache_inv c \<and> lr_entries l = abs_entries c \<and> lr_maxEntries l = c_maxEntries c \<and>
     lr_ttl l = c_ttl c \<and> lr_maxBytes l = c_maxBytes c \<and> lr_hits l = c_hits c \<and> lr_misses l = c_misses c"

lemma map_of_entries:
  assumes "cache_inv c"
  shows "map_of (abs_entries c) k =
    map_option (\<lambda>el. (en_value (c_heap c el), en_expiresAt (c_heap c el))) (map_of (c_items c) k)"
proof (cases "map_of (c_items c) k")
  case None
  then have "k \<notin> fst ` set (abs_entries c)" using cache_inv_absent [OF assms] by (auto simp: abs_entries_def)
  then have "map_of (abs_entries c) k = None" by (simp add: map_of_eq_None_iff)
  then show ?thesis unfolding None by simp
next
  case (Some el)
  then have el: "el \<in> set (c_order c)" "elem_key c el = k" using cache_inv_lookup [OF assms] by auto
  have "distinct (map fst (abs_entries c))" using assms by (simp add: cache_inv_def abs_entries_def comp_def)
  moreover have "elem_entry c el \<in> set (abs_entries c)" using el by (simp add: abs_entries_def)
  ultimately have "map_of (abs_entries c) (fst (elem_entry c el)) = Some (snd (elem_entry c el))"
    by (intro map_of_is_SomeI) (simp_all del: elem_entry_simps)
  then show ?thesis using Some el by (simp add: elem_entry_def elem_key_def)
qed

lemma elem_order_hits [simp]:
  "elem_key (c\<lparr>c_order := xs, c_hits := h\<rparr>) = elem_key c" "elem_entry (c\<lparr>c_order := xs, c_hits := h\<rparr>) = elem_entry c"
  by (simp_all add: elem_key_def elem_entry_def fun_eq_iff)

lemma moveToFront_inv:
  assumes "cache_inv c" "el \<in> set (c_order c)"
  shows "cache_inv (c\<lparr>c_order := moveToFront el (c_order c), c_hits := h\<rparr>)"
    and "abs_entries (c\<lparr>c_order := moveToFront el (c_order c), c_hits := h\<rparr>) =
         elem_entry c el # without (elem_key c el) (abs_entries c)"
proof -
  let ?c = "c\<lparr>c_order := moveToFront el (c_order c), c_hits := h\<rparr>"
  have d: "distinct (map (elem_key c) (c_order c))" using assms(1) by (simp add: cache_inv_def)
  have rem: "remove1 el (c_order c) = filter (\<lambda>y. elem_key c y \<noteq> elem_key c el) (c_order c)"
    using filter_key_remove1 [OF d assms(2)] by simp
  have "set (moveToFront el (c_order c)) = set (c_order c)"
    using assms(2) cache_inv_distinct [OF assms(1)] by (auto simp: moveToFront_def)
  moreover have "distinct (map (elem_key c) (moveToFront el (c_order c)))"
    using assms(2) distinct_map_filter [OF d] by (auto simp: moveToFront_def rem)
  moreover have "sum_list (map lru_size (abs_entries ?c)) = sum_list (map lru_size (abs_entries c))"
    using assms(2) sum_without [OF d assms(2), of "\<lambda>y. lru_size (elem_entry c y)"]
    by (simp add: abs_entries_def moveToFront_def comp_def)
  ultimately show "cache_inv ?c" using assms(1) by (simp add: cache_inv_def [of ?c]) (simp add: cache_inv_def)
  show "abs_entries ?c = elem_entry c el # without (elem_key c el) (abs_entries c)"
    using assms(2) by (simp add: abs_entries_def moveToFront_def without_def filter_map comp_def rem)
qed

lemma cache_counters [simp]:
  "cache_inv (c\<lparr>c_misses := m\<rparr>) = cache_inv c" "abs_entries (c\<lparr>c_misses := m\<rparr>) = abs_entries c"
  "cache_inv (c\<lparr>c_ttl := d\<rparr>) = cache_inv c" "abs_entries (c\<lparr>c_ttl := d\<rparr>) = abs_entries c"
  "cache_inv (c\<lparr>c_maxEntries := n\<rparr>) = cache_inv c" "abs_entries (c\<lparr>c_maxEntries := n\<rparr>) = abs_entries c"
  "cache_inv (c\<lparr>c_maxBytes := n\<rparr>) = cache_inv c" "abs_entries (c\<lparr>c_maxBytes := n\<rparr>) = abs_entries c"
  by (simp_all add: cache_inv_def abs_entries_def elem_key_def elem_entry_def fun_eq_iff cong: map_cong)

lemma cache_Get_sim:
  assumes "cache_sim c l"
  shows "cache_sim (fst (cache_Get now k c)) (fst (lru_Get now k l))"
    and "snd (cache_Get now k c) = snd (lru_Get now k l)"
proof -
  have inv: "cache_inv c" and ent: "lr_entries l = abs_entries c" using assms by (auto simp: cache_sim_def)
  note lookup = map_of_entries [OF inv, of k, folded ent]
  have "cache_sim (fst (cache_Get now k c)) (fst (lru_Get now k l)) \<and> snd (cache_Get now k c) = snd (lru_Get now k l)"
  proof (cases "map_of (c_items c) k")
    case None
    then show ?thesis using lookup assms
      by (simp add: cache_Get_def cache_Get_read_def cache_Get_finish_def lru_Get_def cache_sim_def)
  next
    case (Some el)
    then have el: "el \<in> set (c_order c)" "elem_key c el = k" using cache_inv_lookup [OF inv] by auto
    show ?thesis
    proof (cases "en_expiresAt (c_heap c el) < now")
      case True
      then show ?thesis using Some lookup assms removeElement_abs [OF inv el(1)] removeElement_frame [of el c] el(2)
        by (simp add: cache_Get_def cache_Get_read_def cache_Get_finish_def lru_Get_def cache_sim_def Let_def
            cache_frame_def)
    next
      case False
      then show ?thesis using Some lookup assms moveToFront_inv [OF inv el(1)] el(2)
        by (simp add: cache_Get_def cache_Get_read_def cache_Get_finish_def lru_Get_def cache_sim_def Let_def)
          (simp add: elem_entry_def elem_key_def)
    qed
  qed
  then show "cache_sim (fst (cache_Get now k c)) (fst (lru_Get now k l))"
    and "snd (cache_Get now k c) = snd (lru_Get now k l)" by blast+
qed

lemma set_update_fresh: "k \<notin> fst ` set xs \<Longrightarrow> set (AList.update k v xs) = insert (k, v) (set xs)"
  by (induction xs) auto

lemma push_inv:
  assumes "cache_inv c" "k \<notin> elem_key c ` set (c_order c)" "en_key e = k" "en_size e = int (length (en_value e))"
  defines "c' \<equiv> c\<lparr>c_heap := (c_heap c)(c_next c := e), c_next := Suc (c_next c), c_order := c_next c # c_order c,
      c_items := AList.update k (c_next c) (c_items c), c_usedBytes := c_usedBytes c + en_size e\<rparr>"
  shows "cache_inv c'" "abs_entries c' = (k, en_value e, en_expiresAt e) # abs_entries c"
proof -
  have fresh: "c_next c \<notin> set (c_order c)" using assms(1) by (auto simp: cache_inv_def)
  then have same: "elem_key c' el = elem_key c el" "elem_entry c' el = elem_entry c el" "c_heap c' el = c_heap c el"
    if "el \<in> set (c_order c)" for el
    using that by (auto simp: c'_def elem_key_def elem_entry_def)
  have new: "elem_key c' (c_next c) = k" "elem_entry c' (c_next c) = (k, en_value e, en_expiresAt e)"
    "c_heap c' (c_next c) = e"
    using assms(3) by (simp_all add: c'_def elem_key_def elem_entry_def)
  have ord: "c_order c' = c_next c # c_order c" and nxt: "c_next c' = Suc (c_next c)"
    and itm: "c_items c' = AList.update k (c_next c) (c_items c)"
    and usd: "c_usedBytes c' = c_usedBytes c + en_size e" by (simp_all add: c'_def)
  show ents: "abs_entries c' = (k, en_value e, en_expiresAt e) # abs_entries c"
    by (simp add: abs_entries_def ord new same cong: map_cong)
  have k: "k \<notin> fst ` set (c_items c)" using assms(1,2) by (auto simp: cache_inv_def)
  then have items: "set (c_items c') = insert (k, c_next c) (set (c_items c))"
    unfolding itm by (rule set_update_fresh)
  show "cache_inv c'" unfolding cache_inv_def
  proof (intro conjI)
    show "distinct (map (elem_key c') (c_order c'))"
      using assms(1,2) by (simp add: ord new cache_inv_def cong: map_cong) (auto simp: same distinct_map inj_on_def)
    show "distinct (map fst (c_items c'))"
      unfolding itm using assms(1) by (intro distinct_update) (simp add: cache_inv_def)
    show "set (c_items c') = (\<lambda>el. (elem_key c' el, el)) ` set (c_order c')"
      using assms(1) same(1) by (simp add: items ord new cache_inv_def)
    show "\<forall>el \<in> set (c_order c'). el < c_next c' \<and> en_size (c_heap c' el) = int (length (en_value (c_heap c' el)))"
      using assms(1,4) by (auto simp: ord nxt new same cache_inv_def less_Suc_eq)
    show "c_usedBytes c' = sum_list (map lru_size (abs_entries c'))"
      using assms(1,4) by (simp add: ents usd cache_inv_def)
  qed
qed

lemma cache_Set_sim:
  assumes "cache_sim c l"
  shows "cache_sim (cache_Set now k v c) (lru_Set now k v l)"
proof -
  have inv: "cache_inv c" using assms by (simp add: cache_sim_def)
  let ?c1 = "dropKey k c"
  let ?e = "\<lparr>en_key = k, en_value = v, en_expiresAt = now + c_ttl ?c1, en_size = int (length v)\<rparr>"
  let ?c2 = "?c1\<lparr>c_heap := (c_heap ?c1)(c_next ?c1 := ?e), c_next := Suc (c_next ?c1), c_order := c_next ?c1 # c_order ?c1,
      c_items := AList.update k (c_next ?c1) (c_items ?c1), c_usedBytes := c_usedBytes ?c1 + en_size ?e\<rparr>"
  note drop = dropKey_abs [OF inv, of k]
  have "fst ` set (abs_entries ?c1) = elem_key ?c1 ` set (c_order ?c1)" by (simp add: abs_entries_def image_image)
  then have "k \<notin> elem_key ?c1 ` set (c_order ?c1)" using drop(2) by (auto simp: without_def)
  then have push: "cache_inv ?c2" "abs_entries ?c2 = (k, v, now + c_ttl ?c1) # without k (abs_entries c)"
    using push_inv [OF drop(1), of k ?e] drop(2) by simp_all
  have "cache_inv (evictLoop (\<lambda>c. overBytes c \<or> overEntries c) ?c2) \<and>
      abs_entries (evictLoop (\<lambda>c. overBytes c \<or> overEntries c) ?c2) =
        keep (Some (c_maxEntries ?c2)) (byteBudget (c_maxBytes ?c2)) (abs_entries ?c2) \<and>
      cache_frame (evictLoop (\<lambda>c. overBytes c \<or> overEntries c) ?c2) = cache_frame ?c2"
    by (intro evictLoop_keep push(1)) (simp add: over_fits cache_frame_def)
  then show ?thesis
    using assms drop(3) unfolding push(2) by (simp add: cache_sim_def cache_Set_def lru_Set_def Let_def cache_frame_def)
qed

lemma fold_dropKey:
  assumes "cache_inv c"
  shows "cache_inv (fold dropKey ks c) \<and> abs_entries (fold dropKey ks c) = filter (\<lambda>x. fst x \<notin> set ks) (abs_entries c) \<and>
    cache_frame (fold dropKey ks c) = cache_frame c"
  using assms
proof (induction ks arbitrary: c)
  case (Cons k ks)
  then show ?case using Cons.IH [OF dropKey_abs(1) [OF Cons.prems, of k]] dropKey_abs [OF Cons.prems, of k]
    by (auto simp: without_def intro: filter_cong)
qed simp

lemma cache_evictExpired_sim:
  assumes "cache_sim c l"
  shows "cache_sim (cache_evictExpired now c) (l\<lparr>lr_entries := filter (\<lambda>x. now \<le> snd (snd x)) (lr_entries l)\<rparr>)"
proof -
  have inv: "cache_inv c" and ent: "lr_entries l = abs_entries c" using assms by (auto simp: cache_sim_def)
  let ?ks = "evictExpired_collect now c"
  have ks: "elem_key c el \<in> set ?ks \<longleftrightarrow> en_expiresAt (c_heap c el) < now" if "el \<in> set (c_order c)" for el
  proof -
    have "set (c_items c) = (\<lambda>el. (elem_key c el, el)) ` set (c_order c)" using inv by (simp add: cache_inv_def)
    then have "set ?ks = elem_key c ` {el \<in> set (c_order c). en_expiresAt (c_heap c el) < now}"
      by (auto simp: evictExpired_collect_def image_iff)
    then have "elem_key c el \<in> set ?ks \<longleftrightarrow>
        (\<exists>el' \<in> set (c_order c). elem_key c el' = elem_key c el \<and> en_expiresAt (c_heap c el') < now)"
      by (simp add: image_iff) (metis (no_types))
    moreover have "inj_on (elem_key c) (set (c_order c))" using inv by (simp add: cache_inv_def distinct_map)
    ultimately show ?thesis using that by (metis inj_onD)
  qed
  have "filter (\<lambda>x. fst x \<notin> set ?ks) (abs_entries c) = filter (\<lambda>x. now \<le> snd (snd x)) (abs_entries c)"
    by (simp add: abs_entries_def filter_map comp_def ks not_less cong: filter_cong)
  then show ?thesis
    using fold_dropKey [OF inv, of ?ks] assms
    by (simp add: cache_sim_def cache_evictExpired_def evictExpired_remove_def cache_frame_def)
qed

lemma cache_UpdateConfig_sim:
  assumes "cache_sim c l"
  shows "cache_sim (cache_UpdateConfig cfg c) (lru_UpdateConfig cfg l)"
proof -
  have inv: "cache_inv c" using assms by (simp add: cache_sim_def)
  let ?n = "if cc_MaxEntries cfg > 0 then Some (cc_MaxEntries cfg) else None"
  define c1 where "c1 = (if cc_MaxEntries cfg > 0
      then evictLoop overEntries (c\<lparr>c_maxEntries := cc_MaxEntries cfg\<rparr>) else c)"
  have c1: "cache_inv c1 \<and> abs_entries c1 = keep ?n None (abs_entries c) \<and>
      cache_frame c1 = cache_frame (if cc_MaxEntries cfg > 0 then c\<lparr>c_maxEntries := cc_MaxEntries cfg\<rparr> else c)"
  proof (cases "cc_MaxEntries cfg > 0")
    case True
    then show ?thesis
      using evictLoop_keep [of "c\<lparr>c_maxEntries := cc_MaxEntries cfg\<rparr>" overEntries "Some (cc_MaxEntries cfg)" None] inv
      by (simp add: c1_def overEntries_fits cache_frame_def)
  qed (use inv in \<open>simp add: c1_def keep_fits fits_def\<close>)
  define c2 where "c2 = (if cc_TTL cfg > 0 then c1\<lparr>c_ttl := cc_TTL cfg\<rparr> else c1)"
  have c2: "cache_inv c2" "abs_entries c2 = keep ?n None (abs_entries c)" using c1 by (simp_all add: c2_def)
  have upd: "cache_UpdateConfig cfg c =
      (if cc_MaxMemoryMB cfg > 0 then evictLoop overBytes (c2\<lparr>c_maxBytes := cc_MaxMemoryMB cfg * 1024 * 1024\<rparr>) else c2)"
    by (simp add: cache_UpdateConfig_def c1_def c2_def Let_def)
  show ?thesis
  proof (cases "cc_MaxMemoryMB cfg > 0")
    case True
    let ?b = "cc_MaxMemoryMB cfg * 1024 * 1024"
    have "byteBudget ?b = Some ?b" using True by (simp add: byteBudget_def)
    then have "cache_inv (evictLoop overBytes (c2\<lparr>c_maxBytes := ?b\<rparr>)) \<and>
        abs_entries (evictLoop overBytes (c2\<lparr>c_maxBytes := ?b\<rparr>)) = keep None (Some ?b) (abs_entries c2) \<and>
        cache_frame (evictLoop overBytes (c2\<lparr>c_maxBytes := ?b\<rparr>)) = cache_frame (c2\<lparr>c_maxBytes := ?b\<rparr>)"
      using evictLoop_keep [of "c2\<lparr>c_maxBytes := ?b\<rparr>" overBytes None "Some ?b"] c2(1)
      by (simp add: overBytes_fits cache_frame_def)
    then show ?thesis
      using True c1 assms unfolding upd c2(2) keep_keep
      by (auto simp: cache_sim_def lru_UpdateConfig_def Let_def cache_frame_def c2_def)
  next
    case False
    then show ?thesis using c1 c2 assms
      by (auto simp: upd cache_sim_def lru_UpdateConfig_def Let_def cache_frame_def c2_def keep_fits fits_def)
  qed
qed

interpretation lru_cache: timed_simulation cache_step lru_step "\<lambda>_. cache_sim"
proof unfold_locales
  fix t t' :: time and c l op
  assume sim: "cache_sim c l"
  then have inv: "cache_inv c" by (simp add: cache_sim_def)
  show "cache_sim (fst (cache_step t' op c)) (fst (lru_step t' op l))"
    using sim cache_Get_sim(1) [OF sim] cache_Set_sim [OF sim] cache_evictExpired_sim [OF sim]
      cache_UpdateConfig_sim [OF sim] dropKey_abs [OF inv]
    by (cases op) (auto simp: case_prod_beta cache_Delete_def cache_sim_def cache_frame_def)
  show "snd (cache_step t' op c) = snd (lru_step t' op l)"
    using sim cache_Get_sim(2) [OF sim]
    by (cases op) (simp_all add: case_prod_beta cache_Stats_def abs_entries_length cache_sim_def)
qed

lemma cache_New_sim:
  "cache_New cfg = Some c \<Longrightarrow>
   cache_sim c \<lparr>lr_entries = [], lr_maxEntries = c_maxEntries c, lr_ttl = c_ttl c, lr_maxBytes = c_maxBytes c,
     lr_hits = 0, lr_misses = 0\<rparr>"
  by (auto simp: cache_New_def cache_sim_def cache_inv_def abs_entries_def split: if_splits)

section \<open>Properties\<close>

text \<open>
  C15. Every sequence of uninterrupted cache operations (get, set, delete, eviction ticks, configuration updates, statistics)
  answers exactly like a list of entries in recency order: a get returns the unexpired value and moves it to the front, a
  set puts the entry at the front and keeps the longest run of most recent entries that fits the entry limit and the byte
  limit, and hit and miss counters and sizes agree.  Map, linked list and byte counter never disagree.
\<close>

theorem cache_is_lru:
  assumes "cache_New cfg = Some c" and "chronological start ops"
  shows "run_outputs cache_step c ops =
    run_outputs lru_step \<lparr>lr_entries = [], lr_maxEntries = c_maxEntries c, lr_ttl = c_ttl c,
      lr_maxBytes = c_maxBytes c, lr_hits = 0, lr_misses = 0\<rparr> ops"
  using lru_cache.outputs_eq [OF cache_New_sim [OF assms(1)] assms(2)] .

text \<open>Two entries of at most a megabyte together: a get refreshes the first, a third set drops the second.\<close>

definition cache_example :: Cache where
  "cache_example = \<lparr>c_items = [], c_order = [], c_heap = (\<lambda>_. null_entry), c_next = 0, c_maxEntries = 2,
     c_ttl = 10, c_maxBytes = 1024 * 1024, c_usedBytes = 0, c_hits = 0, c_misses = 0\<rparr>"

definition cache_example_ops :: "(time \<times> cache_op) list" where
  "cache_example_ops = [(0, OpSet ''a'' ''1''), (1, OpSet ''b'' ''2''), (2, OpGet ''a''), (3, OpSet ''c'' ''3''),
     (4, OpGet ''b''), (11, OpGet ''a''), (12, OpStats)]"

theorem cache_is_lru_witness:
  "run_outputs cache_step cache_example cache_example_ops =
     [OutDone, OutDone, OutValue (Some ''1''), OutDone, OutValue None, OutValue None, OutStats 1 2 1]"
proof -
  have "cache_New \<lparr>cc_Enabled = True, cc_MaxEntries = 2, cc_TTL = 10, cc_MaxMemoryMB = 1\<rparr> = Some cache_example"
    by (simp add: cache_New_def cache_example_def)
  moreover have "chronological 0 cache_example_ops" by (simp add: cache_example_ops_def)
  ultimately show ?thesis
    unfolding cache_is_lru [OF \<open>cache_New _ = _\<close> \<open>chronological 0 cache_example_ops\<close>]
    by (simp add: cache_example_ops_def cache_example_def lru_Set_def lru_Get_def byteBudget_def without_def)
qed

end
