(* ===== verification/Cache_Backends.thy ===== *)
theory Cache_Backends
  imports Response_Cache
begin

text \<open>
  Cache backends (\<^verbatim>\<open>cache/backend.go\<close>) and the interleavings of the cache's two-phase operations.

  A backend is a record of its methods.  The locale \<open>cache_store\<close> states what the tiered backend relies on in its second
  level (a Redis client in production): a deleted key stays absent until it is set again.  The local cache satisfies it, and
  so does a tiered backend built on any store that does.  The tiered backend's lookup is split where the code takes its
  mutex, so that sequences of operations include lookups that straddle a deletion.
\<close>

section \<open>Backends\<close>

record 'b CacheBackend =
  be_Get :: "time \<Rightarrow> string \<Rightarrow> 'b \<Rightarrow> 'b \<times> bytes option"
  be_Set :: "time \<Rightarrow> string \<Rightarrow> bytes \<Rightarrow> duration \<Rightarrow> 'b \<Rightarrow> 'b"
  be_Delete :: "string \<Rightarrow> 'b \<Rightarrow> 'b"
  be_Stats :: "'b \<Rightarrow> int \<times> int \<times> nat"

text \<open>Methods of \<^verbatim>\<open>*Cache\<close> accept a nil receiver.\<close>

definition ocache_Get :: "time \<Rightarrow> string \<Rightarrow> Cache option \<Rightarrow> Cache option \<times> bytes option" where
  "ocache_Get now k oc = (case oc of None \<Rightarrow> (None, None) | Some c \<Rightarrow> (let (c', v) = cache_Get now k c in (Some c', v)))"

definition ocache_Set :: "time \<Rightarrow> string \<Rightarrow> bytes \<Rightarrow> Cache option \<Rightarrow> Cache option" where
  "ocache_Set now k v oc = map_option (cache_Set now k v) oc"

definition ocache_Delete :: "string \<Rightarrow> Cache option \<Rightarrow> Cache option" where
  "ocache_Delete k oc = map_option (cache_Delete k) oc"

definition ocache_Stats :: "Cache option \<Rightarrow> int \<times> int \<times> nat" where
  "ocache_Stats oc = (case oc of None \<Rightarrow> (0, 0, 0) | Some c \<Rightarrow> cache_Stats c)"

definition localBackend :: "Cache option CacheBackend" where
  "localBackend = \<lparr>be_Get = ocache_Get, be_Set = (\<lambda>now k v ttl. ocache_Set now k v), be_Delete = ocache_Delete,
     be_Stats = ocache_Stats\<rparr>"

definition noopBackend :: "unit CacheBackend" where
  "noopBackend = \<lparr>be_Get = (\<lambda>now k b. (b, None)), be_Set = (\<lambda>now k v ttl b. b), be_Delete = (\<lambda>k b. b),
     be_Stats = (\<lambda>b. (0, 0, 0))\<rparr>"

record 'b tieredBackend =
  tb_l1 :: "Cache option"
  tb_l2 :: 'b

text \<open>\<^verbatim>\<open>Get\<close>: the probe of L1, and the section under the mutex that consults L2 and refills L1.\<close>

definition tiered_probe :: "time \<Rightarrow> string \<Rightarrow> 'b tieredBackend \<Rightarrow> 'b tieredBackend \<times> bytes option" where
  "tiered_probe now k t = (let (l1, v) = ocache_Get now k (tb_l1 t) in (t\<lparr>tb_l1 := l1\<rparr>, v))"

definition tiered_refill ::
    "'b CacheBackend \<Rightarrow> time \<Rightarrow> string \<Rightarrow> 'b tieredBackend \<Rightarrow> 'b tieredBackend \<times> bytes option" where
  "tiered_refill be now k t =
     (case be_Get be now k (tb_l2 t) of
        (l2, Some v) \<Rightarrow> (t\<lparr>tb_l1 := ocache_Set now k v (tb_l1 t), tb_l2 := l2\<rparr>, Some v)
      | (l2, None) \<Rightarrow> (t\<lparr>tb_l2 := l2\<rparr>, None))"

definition tiered_Get ::
    "'b CacheBackend \<Rightarrow> time \<Rightarrow> string \<Rightarrow> 'b tieredBackend \<Rightarrow> 'b tieredBackend \<times> bytes option" where
  "tiered_Get be now k t =
     (case tiered_probe now k t of (t1, Some v) \<Rightarrow> (t1, Some v) | (t1, None) \<Rightarrow> tiered_refill be now k t1)"

definition tiered_Set ::
    "'b CacheBackend \<Rightarrow> time \<Rightarrow> string \<Rightarrow> bytes \<Rightarrow> duration \<Rightarrow> 'b tieredBackend \<Rightarrow> 'b tieredBackend" where
  "tiered_Set be now k v ttl t =
     t\<lparr>tb_l1 := ocache_Set now k v (tb_l1 t), tb_l2 := be_Set be now k v ttl (tb_l2 t)\<rparr>"

definition tiered_Delete :: "'b CacheBackend \<Rightarrow> string \<Rightarrow> 'b tieredBackend \<Rightarrow> 'b tieredBackend" where
  "tiered_Delete be k t = t\<lparr>tb_l1 := ocache_Delete k (tb_l1 t), tb_l2 := be_Delete be k (tb_l2 t)\<rparr>"

definition tieredBackend_of :: "'b CacheBackend \<Rightarrow> 'b tieredBackend CacheBackend" where
  "tieredBackend_of be = \<lparr>be_Get = tiered_Get be, be_Set = tiered_Set be, be_Delete = tiered_Delete be,
     be_Stats = (\<lambda>t. ocache_Stats (tb_l1 t))\<rparr>"

text \<open>\<^verbatim>\<open>NewBackend\<close>: the choice among the three.\<close>

datatype backend_kind = KindTiered | KindLocal | KindNoop

definition NewBackend :: "Cache option \<Rightarrow> bool \<Rightarrow> backend_kind" where
  "NewBackend localCache redis = (if redis then KindTiered else if localCache \<noteq> None then KindLocal else KindNoop)"

text \<open>
  Operations on a tiered backend as they interleave: the mutex makes a refill and a deletion atomic to each other, a probe of
  L1 is outside it, so a lookup is a probe followed at any later point by its refill.
\<close>

datatype tiered_op = TProbe string | TRefill string | TSet string bytes duration | TDelete string | TEvictTick

fun tiered_step ::
    "'b CacheBackend \<Rightarrow> time \<Rightarrow> tiered_op \<Rightarrow> 'b tieredBackend \<Rightarrow> 'b tieredBackend \<times> bytes option" where
  "tiered_step be now (TProbe k) t = tiered_probe now k t"
| "tiered_step be now (TRefill k) t = tiered_refill be now k t"
| "tiered_step be now (TSet k v ttl) t = (tiered_Set be now k v ttl t, None)"
| "tiered_step be now (TDelete k) t = (tiered_Delete be k t, None)"
| "tiered_step be now TEvictTick t = (t\<lparr>tb_l1 := map_option (cache_evictExpired now) (tb_l1 t)\<rparr>, None)"

section \<open>The contract of a store\<close>

locale cache_store =
  fixes be :: "'b CacheBackend" and store_ok :: "'b \<Rightarrow> bool" and absent :: "string \<Rightarrow> 'b \<Rightarrow> bool"
  assumes ok_Get: "store_ok b \<Longrightarrow> store_ok (fst (be_Get be now k b))"
    and ok_Set: "store_ok b \<Longrightarrow> store_ok (be_Set be now k v ttl b)"
    and ok_Delete: "store_ok b \<Longrightarrow> store_ok (be_Delete be k b)"
    and absent_Delete: "store_ok b \<Longrightarrow> absent k (be_Delete be k b)"
    and absent_Delete_keep: "store_ok b \<Longrightarrow> absent k b \<Longrightarrow> absent k (be_Delete be k' b)"
    and absent_Get: "store_ok b \<Longrightarrow> absent k b \<Longrightarrow> snd (be_Get be now k b) = None"
    and absent_Get_keep: "store_ok b \<Longrightarrow> absent k b \<Longrightarrow> absent k (fst (be_Get be now k' b))"
    and absent_Set_keep: "store_ok b \<Longrightarrow> absent k b \<Longrightarrow> k' \<noteq> k \<Longrightarrow> absent k (be_Set be now k' v ttl b)"
begin

lemma get_after_delete: "store_ok b \<Longrightarrow> snd (be_Get be now k (be_Delete be k b)) = None"
  by (simp add: absent_Get absent_Delete ok_Delete)

end

definition ocache_ok :: "Cache option \<Rightarrow> bool" where
  "ocache_ok oc = (case oc of None \<Rightarrow> True | Some c \<Rightarrow> cache_inv c)"

definition ocache_absent :: "string \<Rightarrow> Cache option \<Rightarrow> bool" where
  "ocache_absent k oc = (case oc of None \<Rightarrow> True | Some c \<Rightarrow> k \<notin> fst ` set (abs_entries c))"

text \<open>The reference state of a cache that satisfies the invariant.\<close>

definition lru_of :: "Cache \<Rightarrow> lru" where
  "lru_of c = \<lparr>lr_entries = abs_entries c, lr_maxEntries = c_maxEntries c, lr_ttl = c_ttl c, lr_maxBytes = c_maxBytes c,
     lr_hits = c_hits c, lr_misses = c_misses c\<rparr>"

lemma lru_of_sim: "cache_inv c \<Longrightarrow> cache_sim c (lru_of c)"
  by (simp add: cache_sim_def lru_of_def)

lemma keep_subset: "set (keep n b xs) \<subseteq> set xs"
  using keep_prefix [of xs n b] by (metis Un_upper1 set_append)

lemma ocache_Get_absent:
  assumes "ocache_ok oc" "ocache_absent k oc"
  shows "snd (ocache_Get now k oc) = None"
proof (cases oc)
  case (Some c)
  have "map_of (lr_entries (lru_of c)) k = None"
    using assms(2) Some by (simp add: ocache_absent_def lru_of_def map_of_eq_None_iff)
  then have "snd (cache_Get now k c) = None"
    using cache_Get_sim(2) [OF lru_of_sim, of c] assms(1) Some by (simp add: ocache_ok_def lru_Get_def)
  then show ?thesis using Some by (simp add: ocache_Get_def case_prod_beta)
qed (simp add: ocache_Get_def)

lemma lru_Get_keys: "fst ` set (lr_entries (fst (lru_Get now k l))) \<subseteq> fst ` set (lr_entries l)"
  by (auto simp: lru_Get_def without_def split: option.splits dest!: map_of_SomeD intro: rev_image_eqI)

lemma cache_Set_entries:
  assumes "cache_inv c"
  shows "set (abs_entries (cache_Set t k v c)) \<subseteq> set ((k, v, t + c_ttl c) # without k (abs_entries c))"
proof -
  have "abs_entries (cache_Set t k v c) = lr_entries (lru_Set t k v (lru_of c))"
    using cache_Set_sim [OF lru_of_sim [OF assms]] by (simp add: cache_sim_def)
  also have "\<dots> = keep (Some (c_maxEntries c)) (byteBudget (c_maxBytes c)) ((k, v, t + c_ttl c) # without k (abs_entries c))"
    by (simp add: lru_Set_def lru_of_def del: keep.simps)
  finally show ?thesis using keep_subset by metis
qed

lemma without_other: "x \<in> set (without k xs) \<Longrightarrow> fst x \<noteq> k"
  by (simp add: without_def)

lemma ocache_ops:
  assumes "ocache_ok oc"
  shows "ocache_ok (fst (ocache_Get now k oc))" "ocache_ok (ocache_Set now k v oc)" "ocache_ok (ocache_Delete k oc)"
    "ocache_absent k (ocache_Delete k oc)" "ocache_absent j oc \<Longrightarrow> ocache_absent j (ocache_Delete k oc)"
    "ocache_absent j oc \<Longrightarrow> ocache_absent j (fst (ocache_Get now k oc))"
    "ocache_absent j oc \<Longrightarrow> k \<noteq> j \<Longrightarrow> ocache_absent j (ocache_Set now k v oc)"
proof -
  consider "oc = None" | c where "oc = Some c" "cache_inv c" using assms by (cases oc) (auto simp: ocache_ok_def)
  then have "ocache_ok (fst (ocache_Get now k oc)) \<and> ocache_ok (ocache_Set now k v oc) \<and> ocache_ok (ocache_Delete k oc) \<and>
    ocache_absent k (ocache_Delete k oc) \<and> (ocache_absent j oc \<longrightarrow> ocache_absent j (ocache_Delete k oc)) \<and>
    (ocache_absent j oc \<longrightarrow> ocache_absent j (fst (ocache_Get now k oc))) \<and>
    (ocache_absent j oc \<longrightarrow> k \<noteq> j \<longrightarrow> ocache_absent j (ocache_Set now k v oc))"
  proof cases
    case (2 c)
    note get = cache_Get_sim(1) [OF lru_of_sim [OF 2(2)], of now k]
    note set = cache_Set_sim [OF lru_of_sim [OF 2(2)], of now k v]
    have "fst ` set (abs_entries (fst (cache_Get now k c))) \<subseteq> fst ` set (abs_entries c)"
      using get lru_Get_keys [of now k "lru_of c"] by (simp add: cache_sim_def lru_of_def)
    moreover have "fst ` set (abs_entries (cache_Set now k v c)) \<subseteq> insert k (fst ` set (abs_entries c))"
      using cache_Set_entries [OF 2(2), of now k v] by (auto simp: without_def)
    moreover have "fst ` set (abs_entries (cache_Delete k c)) = fst ` set (abs_entries c) - {k}"
      using dropKey_abs [OF 2(2), of k] by (auto simp: cache_Delete_def without_def)
    ultimately show ?thesis
      using 2 get set dropKey_abs [OF 2(2), of k]
      by (auto simp: ocache_ok_def ocache_absent_def ocache_Get_def ocache_Set_def ocache_Delete_def cache_sim_def
          cache_Delete_def case_prod_beta)
  qed (simp add: ocache_ok_def ocache_absent_def ocache_Get_def ocache_Set_def ocache_Delete_def)
  then show "ocache_ok (fst (ocache_Get now k oc))" "ocache_ok (ocache_Set now k v oc)" "ocache_ok (ocache_Delete k oc)"
    "ocache_absent k (ocache_Delete k oc)" "ocache_absent j oc \<Longrightarrow> ocache_absent j (ocache_Delete k oc)"
    "ocache_absent j oc \<Longrightarrow> ocache_absent j (fst (ocache_Get now k oc))"
    "ocache_absent j oc \<Longrightarrow> k \<noteq> j \<Longrightarrow> ocache_absent j (ocache_Set now k v oc)" by blast+
qed

lemma ocache_evict:
  assumes "ocache_ok oc"
  shows "ocache_ok (map_option (cache_evictExpired now) oc)"
    and "ocache_absent j oc \<Longrightarrow> ocache_absent j (map_option (cache_evictExpired now) oc)"
proof -
  consider "oc = None" | c where "oc = Some c" "cache_inv c" using assms by (cases oc) (auto simp: ocache_ok_def)
  then have "ocache_ok (map_option (cache_evictExpired now) oc) \<and>
    (ocache_absent j oc \<longrightarrow> ocache_absent j (map_option (cache_evictExpired now) oc))"
  proof cases
    case (2 c)
    have "abs_entries (cache_evictExpired now c) = filter (\<lambda>x. now \<le> snd (snd x)) (abs_entries c)"
      and "cache_inv (cache_evictExpired now c)"
      using cache_evictExpired_sim [OF lru_of_sim [OF 2(2)], of now] by (simp_all add: cache_sim_def lru_of_def)
    then show ?thesis using 2(1) by (auto simp: ocache_ok_def ocache_absent_def)
  qed (simp_all add: ocache_ok_def ocache_absent_def)
  then show "ocache_ok (map_option (cache_evictExpired now) oc)"
    and "ocache_absent j oc \<Longrightarrow> ocache_absent j (map_option (cache_evictExpired now) oc)" by blast+
qed

interpretation local_store: cache_store localBackend ocache_ok ocache_absent
  by unfold_locales (simp_all add: localBackend_def ocache_ops ocache_Get_absent)

section \<open>The tiered backend satisfies the contract\<close>

context cache_store
begin

definition tiered_ok :: "'b tieredBackend \<Rightarrow> bool" where
  "tiered_ok t \<longleftrightarrow> ocache_ok (tb_l1 t) \<and> store_ok (tb_l2 t)"

definition tiered_absent :: "string \<Rightarrow> 'b tieredBackend \<Rightarrow> bool" where
  "tiered_absent k t \<longleftrightarrow> ocache_absent k (tb_l1 t) \<and> absent k (tb_l2 t)"

lemma probe_ok: "tiered_ok t \<Longrightarrow> tiered_ok (fst (tiered_probe now k t))"
  by (simp add: tiered_ok_def tiered_probe_def case_prod_beta ocache_ops)

lemma probe_absent:
  "tiered_ok t \<Longrightarrow> tiered_absent k t \<Longrightarrow> tiered_absent k (fst (tiered_probe now j t))"
  "tiered_ok t \<Longrightarrow> tiered_absent k t \<Longrightarrow> snd (tiered_probe now k t) = None"
  by (simp_all add: tiered_ok_def tiered_absent_def tiered_probe_def case_prod_beta ocache_ops ocache_Get_absent)

lemma refill_ok: "tiered_ok t \<Longrightarrow> tiered_ok (fst (tiered_refill be now k t))"
  using ok_Get [of "tb_l2 t" now k]
  by (auto simp: tiered_ok_def tiered_refill_def ocache_ops split: prod.splits option.splits)

text \<open>The refill of another key leaves an absent key absent, and the refill of an absent key finds nothing.\<close>

lemma refill_absent:
  assumes "tiered_ok t" "tiered_absent k t"
  shows "tiered_absent k (fst (tiered_refill be now j t))" "snd (tiered_refill be now k t) = None"
proof -
  have l2: "store_ok (tb_l2 t)" "absent k (tb_l2 t)" using assms by (simp_all add: tiered_ok_def tiered_absent_def)
  have none: "snd (be_Get be now k (tb_l2 t)) = None" using absent_Get [OF l2] .
  then show "snd (tiered_refill be now k t) = None"
    by (simp add: tiered_refill_def case_prod_beta split: option.splits)
  show "tiered_absent k (fst (tiered_refill be now j t))"
    using assms absent_Get_keep [OF l2, of now j] none ocache_ops(7) [of "tb_l1 t" k j now]
    by (cases "j = k") (auto simp: tiered_ok_def tiered_absent_def tiered_refill_def split: prod.splits option.splits)
qed

lemma tiered_store: "cache_store (tieredBackend_of be) tiered_ok tiered_absent"
proof unfold_locales
  fix t k k' now v ttl
  assume ok: "tiered_ok t"
  show "tiered_ok (fst (be_Get (tieredBackend_of be) now k t))"
    using refill_ok probe_ok [OF ok, of now k]
    by (auto simp: tieredBackend_of_def tiered_Get_def split: prod.splits option.splits)
  show "tiered_ok (be_Set (tieredBackend_of be) now k v ttl t)" "tiered_ok (be_Delete (tieredBackend_of be) k t)"
    "tiered_absent k (be_Delete (tieredBackend_of be) k t)"
    using ok by (simp_all add: tieredBackend_of_def tiered_ok_def tiered_absent_def tiered_Set_def tiered_Delete_def
        ocache_ops ok_Set ok_Delete absent_Delete)
  assume ab: "tiered_absent k t"
  show "tiered_absent k (be_Delete (tieredBackend_of be) k' t)"
    using ok ab by (simp add: tieredBackend_of_def tiered_ok_def tiered_absent_def tiered_Delete_def ocache_ops
        absent_Delete_keep)
  note p = probe_ok [OF ok, of now k'] probe_absent [OF ok ab]
  show "snd (be_Get (tieredBackend_of be) now k t) = None"
    using refill_absent(2) [OF probe_ok [OF ok] probe_absent(1) [OF ok ab]] probe_absent(2) [OF ok ab]
    by (simp add: tieredBackend_of_def tiered_Get_def case_prod_beta split: option.splits)
  show "tiered_absent k (fst (be_Get (tieredBackend_of be) now k' t))"
    using refill_absent(1) [OF probe_ok [OF ok] probe_absent(1) [OF ok ab]] probe_absent(1) [OF ok ab]
    by (auto simp: tieredBackend_of_def tiered_Get_def case_prod_beta split: option.splits)
  show "k' \<noteq> k \<Longrightarrow> tiered_absent k (be_Set (tieredBackend_of be) now k' v ttl t)"
    using ok ab by (simp add: tieredBackend_of_def tiered_ok_def tiered_absent_def tiered_Set_def ocache_ops
        absent_Set_keep)
qed

lemma tiered_step_absent:
  assumes "tiered_ok t" "tiered_absent k t" "\<And>v ttl. op \<noteq> TSet k v ttl"
  shows "tiered_ok (fst (tiered_step be now op t)) \<and> tiered_absent k (fst (tiered_step be now op t))"
proof (cases op)
  case TEvictTick
  then show ?thesis using assms ocache_evict by (simp add: tiered_ok_def tiered_absent_def)
next
  case (TSet j v ttl)
  then have "j \<noteq> k" using assms(3) by auto
  then show ?thesis using assms TSet
    by (simp add: tiered_Set_def tiered_ok_def tiered_absent_def ocache_ops ok_Set absent_Set_keep)
next
  case (TDelete j)
  then show ?thesis using assms
    by (simp add: tiered_Delete_def tiered_ok_def tiered_absent_def ocache_ops ok_Delete absent_Delete_keep)
qed (use assms in \<open>simp_all add: probe_ok probe_absent refill_ok refill_absent\<close>)

lemma tiered_run_absent:
  assumes "tiered_ok t" "tiered_absent k t" "\<forall>x \<in> set ops. \<forall>v ttl. snd x \<noteq> TSet k v ttl"
    and "(x, out) \<in> set (zip ops (run_outputs (tiered_step be) t ops))" "snd x = TProbe k \<or> snd x = TRefill k"
  shows "out = None"
  using assms
proof (induction ops arbitrary: t)
  case (Cons y ops)
  note step = tiered_step_absent [OF Cons.prems(1,2), of "snd y" "fst y"]
  from Cons.prems(4) consider "x = y" "out = snd (tiered_step be (fst y) (snd y) t)"
    | "(x, out) \<in> set (zip ops (run_outputs (tiered_step be) (fst (tiered_step be (fst y) (snd y) t)) ops))"
    by auto
  then show ?case
  proof cases
    case 1
    then show ?thesis using Cons.prems(1,2,5) probe_absent(2) refill_absent(2) by auto
  next
    case 2
    then show ?thesis using Cons.IH step Cons.prems(3,5) by auto
  qed
qed simp

end

section \<open>A fresh entry stored between the halves of a lookup\<close>

lemma evictLoop_frame: "cache_frame (evictLoop over c) = cache_frame c"
proof (induction over c rule: evictLoop.induct)
  case (1 over c)
  then show ?case by (subst evictLoop.simps) simp
qed

lemma evictLoop_order: "set (c_order (evictLoop over c)) \<subseteq> set (c_order c)"
proof (induction over c rule: evictLoop.induct)
  case (1 over c)
  have "set (c_order (removeElement el c)) \<subseteq> set (c_order c)" for el
    using set_remove1_subset by (simp add: removeElement_def Let_def)
  with 1 show ?case by (subst evictLoop.simps) auto
qed

lemma dropKey_frame: "cache_frame (dropKey k c) = cache_frame c"
  by (simp add: dropKey_def split: option.splits)

lemma cache_Set_heap:
  "c_heap (cache_Set t k v c) = (c_heap c)(c_next c :=
     \<lparr>en_key = k, en_value = v, en_expiresAt = t + c_ttl c, en_size = int (length v)\<rparr>)"
  using dropKey_frame [of k c] evictLoop_frame by (simp add: cache_Set_def Let_def cache_frame_def)

lemma cache_Set_order:
  assumes "cache_inv c" "map_of (c_items c) k = Some el"
  shows "set (c_order (cache_Set t k v c)) \<subseteq> insert (c_next c) (set (c_order c) - {el})"
proof -
  have "set (c_order (dropKey k c)) = set (c_order c) - {el}"
    using assms(2) cache_inv_distinct [OF assms(1)] by (simp add: dropKey_def removeElement_def Let_def)
  moreover have "c_next (dropKey k c) = c_next c" using dropKey_frame [of k c] by (simp add: cache_frame_def)
  ultimately show ?thesis using evictLoop_order by (fastforce simp: cache_Set_def Let_def)
qed

section \<open>Properties\<close>

text \<open>
  On every second-level store that keeps a deleted key absent until it is set again, a key deleted from the tiered
  backend is not revived: whatever probes, refills, deletions, eviction ticks and writes of other keys follow in whatever
  order, including refills whose probe happened before the deletion, no lookup of the key finds a value until it is set again.
\<close>

theorem tiered_delete_no_revival:
  assumes "cache_store be store_ok absent" "ocache_ok (tb_l1 t)" "store_ok (tb_l2 t)"
    and "\<forall>x \<in> set ops. \<forall>v ttl. snd x \<noteq> TSet k v ttl"
    and "(x, out) \<in> set (zip ops (run_outputs (tiered_step be) (tiered_Delete be k t) ops))"
    and "snd x = TProbe k \<or> snd x = TRefill k"
  shows "out = None"
proof -
  have "cache_store.tiered_ok store_ok (tiered_Delete be k t)"
    "cache_store.tiered_absent absent k (tiered_Delete be k t)"
    using assms(2,3) cache_store.ok_Delete [OF assms(1)] cache_store.absent_Delete [OF assms(1)]
    by (simp_all add: cache_store.tiered_ok_def [OF assms(1)] cache_store.tiered_absent_def [OF assms(1)]
        tiered_Delete_def ocache_ops)
  then show ?thesis using cache_store.tiered_run_absent [OF assms(1)] assms(4-6) by blast
qed

text \<open>A value in both levels; a lookup misses L1 before the deletion and refills after it.\<close>

definition tiered_example :: "Cache option tieredBackend" where
  "tiered_example = tiered_Set localBackend 0 ''a'' ''1'' 60
     \<lparr>tb_l1 = Some (cache_example\<lparr>c_ttl := 1\<rparr>), tb_l2 = Some cache_example\<rparr>"

definition tiered_example_ops :: "(time \<times> tiered_op) list" where
  "tiered_example_ops = [(3, TRefill ''a''), (4, TSet ''b'' ''2'' 60), (5, TProbe ''a''), (5, TRefill ''a'')]"

lemma cache_example_inv: "cache_inv cache_example"
  by (simp add: cache_inv_def cache_example_def abs_entries_def)

definition tiered_example_run :: "((time \<times> tiered_op) \<times> bytes option) list" where
  "tiered_example_run = zip tiered_example_ops
     (run_outputs (tiered_step localBackend) (tiered_Delete localBackend ''a'' tiered_example) tiered_example_ops)"

lemma nth_in_tiered_example_run: "i < 4 \<Longrightarrow> (fst (tiered_example_run ! i), snd (tiered_example_run ! i)) \<in> set tiered_example_run"
proof -
  have "length tiered_example_run = 4" by (simp add: tiered_example_run_def tiered_example_ops_def)
  then show "i < 4 \<Longrightarrow> ?thesis" by simp
qed

theorem tiered_delete_no_revival_witness:
  "snd (tiered_Get localBackend 2 ''a'' tiered_example) = Some ''1'' \<and>
   snd (tiered_example_run ! 0) = None \<and> snd (tiered_example_run ! 2) = None \<and> snd (tiered_example_run ! 3) = None"
proof (intro conjI)
  show "snd (tiered_Get localBackend 2 ''a'' tiered_example) = Some ''1''" by code_simp
  have inv: "ocache_ok (tb_l1 tiered_example)" "ocache_ok (tb_l2 tiered_example)"
    using ocache_ops(2) [of "Some (cache_example\<lparr>c_ttl := 1\<rparr>)" 0 "''a''" "''1''"]
      ocache_ops(2) [of "Some cache_example" 0 "''a''" "''1''"] cache_example_inv
    by (simp_all add: tiered_example_def tiered_Set_def localBackend_def) (simp_all add: ocache_ok_def)
  have ops: "\<forall>x \<in> set tiered_example_ops. \<forall>v ttl. snd x \<noteq> TSet ''a'' v ttl" by (simp add: tiered_example_ops_def)
  note none = tiered_delete_no_revival [OF local_store.cache_store_axioms inv ops nth_in_tiered_example_run [unfolded tiered_example_run_def],
      folded tiered_example_run_def]
  show "snd (tiered_example_run ! 0) = None" "snd (tiered_example_run ! 2) = None" "snd (tiered_example_run ! 3) = None"
    by (rule none; simp add: tiered_example_run_def tiered_example_ops_def)+
qed

text \<open>
  Between the two halves of a get that found an expired entry, another request may store a fresh value under the key.  The
  second half then removes the fresh value from the map although it is still in the list, and takes the old entry's size from
  the byte counter a second time, so the counter no longer is the sum of the stored sizes.
\<close>

theorem cache_expired_get_drops_fresh:
  assumes "cache_inv c" "cache_Get_read now k c = ReadExpired el"
    and "map_of (c_items (cache_Set t k v c)) k \<noteq> None" "en_value (c_heap c el) \<noteq> []"
  defines "c2 \<equiv> fst (cache_Get_finish (ReadExpired el) (cache_Set t k v c))"
  shows "map_of (c_items c2) k = None \<and> (k, v, t + c_ttl c) \<in> set (abs_entries c2) \<and>
    c_usedBytes c2 \<noteq> sum_list (map (\<lambda>x. int (length (fst (snd x)))) (abs_entries c2))"
proof -
  let ?c1 = "cache_Set t k v c"
  have look: "map_of (c_items c) k = Some el" using assms(2) by (auto simp: cache_Get_read_def split: option.splits if_splits)
  then have el: "el \<in> set (c_order c)" "elem_key c el = k" using cache_inv_lookup [OF assms(1)] by auto
  then have lt: "el < c_next c" and size: "en_size (c_heap c el) = int (length (en_value (c_heap c el)))"
    using assms(1) by (auto simp: cache_inv_def)
  have heap: "c_heap ?c1 el = c_heap c el" using lt by (simp add: cache_Set_heap)
  have out: "el \<notin> set (c_order ?c1)" using cache_Set_order [OF assms(1) look] lt by auto
  have inv1: "cache_inv ?c1" using cache_Set_sim [OF lru_of_sim [OF assms(1)]] by (simp add: cache_sim_def)
  obtain el' where "map_of (c_items ?c1) k = Some el'" using assms(3) by auto
  then have "elem_entry ?c1 el' \<in> set (abs_entries ?c1)" "elem_key ?c1 el' = k"
    using cache_inv_lookup [OF inv1] by (auto simp: abs_entries_def)
  then have mem: "(k, v, t + c_ttl c) \<in> set (abs_entries ?c1)"
    using cache_Set_entries [OF assms(1), of t k v] by (metis elem_entry_simps(1) in_mono set_ConsD without_other)
  have same: "c_order c2 = c_order ?c1" "c_heap c2 = c_heap ?c1"
    using out by (simp_all add: c2_def cache_Get_finish_def removeElement_def Let_def remove1_idem)
  then have ents: "abs_entries c2 = abs_entries ?c1" by (simp add: abs_entries_def elem_entry_def fun_eq_iff cong: map_cong)
  have "c_usedBytes c2 = c_usedBytes ?c1 - int (length (en_value (c_heap c el)))"
    by (simp add: c2_def cache_Get_finish_def removeElement_def Let_def heap size)
  moreover have "map_of (c_items c2) k = None"
    using el(2) heap by (simp add: c2_def cache_Get_finish_def removeElement_def Let_def AList.delete_conv' elem_key_def)
  ultimately show ?thesis using inv1 assms(4) mem by (simp add: ents cache_inv_def)
qed

text \<open>An entry of lifetime ten expires; while a lookup at 20 is between its halves the key is stored again.\<close>

definition cache_race_example :: Cache where
  "cache_race_example = cache_Set 0 ''a'' ''old'' cache_example"

theorem cache_expired_get_drops_fresh_witness:
  "cache_Get_read 20 ''a'' cache_race_example = ReadExpired 0 \<and>
   (let c2 = fst (cache_Get_finish (ReadExpired 0) (cache_Set 20 ''a'' ''new'' cache_race_example)) in
    map_of (c_items c2) ''a'' = None \<and> (''a'', ''new'', 30) \<in> set (abs_entries c2) \<and>
    c_usedBytes c2 \<noteq> sum_list (map (\<lambda>x. int (length (fst (snd x)))) (abs_entries c2)))"
proof -
  have read: "cache_Get_read 20 ''a'' cache_race_example = ReadExpired 0" by code_simp
  have inv: "cache_inv cache_race_example"
    using cache_Set_sim [OF lru_of_sim [OF cache_example_inv]] by (simp add: cache_race_example_def cache_sim_def)
  have "map_of (c_items (cache_Set 20 ''a'' ''new'' cache_race_example)) ''a'' \<noteq> None"
    and "en_value (c_heap cache_race_example 0) \<noteq> []" and "c_ttl cache_race_example = 10" by code_simp+
  then show ?thesis using cache_expired_get_drops_fresh [OF inv read, of 20 "''new''"] read by (simp add: Let_def)
qed

end
