(* ===== verification/Stream_Buffer.thy ===== *)
theory Stream_Buffer
  imports Gateway_Prelude "HOL-Library.AList" "HOL-Library.Sublist"
begin

text \<open>
  Resumable streams: the event buffer (\<^verbatim>\<open>server/stream_buffer.go\<close>) and its two users in \<^verbatim>\<open>server/stream_resume.go\<close>, the
  consumer loop that buffers and forwards the events of a generation, and the replay endpoint.

  An entry is reached through a pointer from the store and from the handler that opened it, so entries live in a heap of the
  store.  The theory shows that a buffer always is the tail of the complete event log, that the cursor printed into a frame
  is read back exactly, and that a client which lost its connection and replays from the last event it saw holds a prefix of
  the log after every read of the replay, and every event of the generation when the replay ends, without gap or duplicate, as
  long as the buffer still reaches back to its cursor.  The reads of a replay fall at any instants of the producing handler.
\<close>

section \<open>Entries\<close>

type_synonym sbytes = string

record streamEventFrame =
  sf_seq :: int
  sf_frame :: sbytes

record streamBufferEntry =
  se_sid :: string
  se_owner :: string
  se_frames :: "streamEventFrame list"
  se_bytes :: int
  se_maxEvents :: int
  se_maxBytes :: int
  se_nextSeq :: int
  se_finalized :: bool
  se_finalizedAt :: time
  se_createdAt :: time

text \<open>The event as it goes to the wire: identifier line, data line, empty line.\<close>

definition frame_bytes :: "string \<Rightarrow> int \<Rightarrow> sbytes \<Rightarrow> sbytes" where
  "frame_bytes sid seq d = ''id: '' @ sid @ '':'' @ fmt_d seq @ [CHR 0x0A] @ ''data: '' @ d @ [CHR 0x0A, CHR 0x0A]"

definition trimCond :: "streamBufferEntry \<Rightarrow> bool" where
  "trimCond e \<longleftrightarrow>
     (se_maxEvents e > 0 \<and> int (length (se_frames e)) > se_maxEvents e) \<or>
     (se_maxBytes e > 0 \<and> se_bytes e > se_maxBytes e \<and> length (se_frames e) > 1)"

function trimLoop :: "streamBufferEntry \<Rightarrow> streamBufferEntry" where
  "trimLoop e =
     (if trimCond e
      then trimLoop (e\<lparr>se_frames := tl (se_frames e), se_bytes := se_bytes e - int (length (sf_frame (hd (se_frames e))))\<rparr>)
      else e)"
  by pat_completeness auto
termination
  by (relation "measure (\<lambda>e. length (se_frames e))") (auto simp: trimCond_def)

declare trimLoop.simps [simp del]

definition buf_Append :: "sbytes \<Rightarrow> streamBufferEntry \<Rightarrow> streamBufferEntry \<times> int \<times> sbytes" where
  "buf_Append d e =
     (let seq = se_nextSeq e + 1; frame = frame_bytes (se_sid e) seq d;
          e1 = e\<lparr>se_nextSeq := seq, se_frames := se_frames e @ [\<lparr>sf_seq = seq, sf_frame = frame\<rparr>],
                 se_bytes := se_bytes e + int (length frame)\<rparr>
      in (trimLoop e1, seq, frame))"

definition buf_MarkFinalized :: "time \<Rightarrow> streamBufferEntry \<Rightarrow> streamBufferEntry" where
  "buf_MarkFinalized now e = (if se_finalized e then e else e\<lparr>se_finalized := True, se_finalizedAt := now\<rparr>)"

definition buf_FramesAfter :: "int \<Rightarrow> streamBufferEntry \<Rightarrow> streamEventFrame list" where
  "buf_FramesAfter afterSeq e = filter (\<lambda>f. sf_seq f > afterSeq) (se_frames e)"

definition buf_LastSeq :: "streamBufferEntry \<Rightarrow> int" where
  "buf_LastSeq e = (if se_frames e = [] then 0 else sf_seq (last (se_frames e)))"

text \<open>
  \<^verbatim>\<open>WaitForNew\<close>: the entry as it is when the call takes the lock, and as it is at each wake-up of the condition variable
  (a broadcast of \<^verbatim>\<open>Append\<close>, of \<^verbatim>\<open>MarkFinalized\<close>, or of the timer); \<open>None\<close> when it is still waiting after the last one.
\<close>

fun waitWake :: "int \<Rightarrow> streamBufferEntry list \<Rightarrow> streamBufferEntry option" where
  "waitWake afterSeq [] = None"
| "waitWake afterSeq (e # wakes) =
     (if buf_FramesAfter afterSeq e \<noteq> [] \<or> se_finalized e then Some e else waitWake afterSeq wakes)"

definition buf_WaitForNew ::
    "int \<Rightarrow> duration \<Rightarrow> streamBufferEntry \<Rightarrow> streamBufferEntry list \<Rightarrow> (streamEventFrame list \<times> bool) option" where
  "buf_WaitForNew afterSeq timeout e wakes =
     (if buf_FramesAfter afterSeq e = [] \<and> \<not> se_finalized e \<and> timeout > 0
      then map_option (\<lambda>e'. (buf_FramesAfter afterSeq e', se_finalized e')) (waitWake afterSeq wakes)
      else Some (buf_FramesAfter afterSeq e, se_finalized e))"

section \<open>The store\<close>

record StreamBufferStore =
  sb_buffers :: "(string \<times> nat) list"
  sb_heap :: "nat \<Rightarrow> streamBufferEntry"
  sb_next :: nat
  sb_maxEvents :: int
  sb_maxBytes :: int
  sb_ttl :: duration
  sb_maxEntries :: int

definition NewStreamBufferStore :: "int \<Rightarrow> int \<Rightarrow> int \<Rightarrow> duration \<Rightarrow> streamBufferEntry \<Rightarrow> StreamBufferStore" where
  "NewStreamBufferStore maxEvents maxBytes maxEntries ttl dummy =
     \<lparr>sb_buffers = [], sb_heap = (\<lambda>_. dummy), sb_next = 0,
      sb_maxEvents = (if maxEvents \<le> 0 then 256 else maxEvents),
      sb_maxBytes = (if maxBytes \<le> 0 then 1048576 else maxBytes),
      sb_ttl = (if ttl \<le> 0 then 10 * minute else ttl), sb_maxEntries = maxEntries\<rparr>"

definition newEntry :: "time \<Rightarrow> string \<Rightarrow> string \<Rightarrow> StreamBufferStore \<Rightarrow> streamBufferEntry" where
  "newEntry now sid owner s =
     \<lparr>se_sid = sid, se_owner = owner, se_frames = [], se_bytes = 0, se_maxEvents = sb_maxEvents s,
      se_maxBytes = sb_maxBytes s, se_nextSeq = 0, se_finalized = False, se_finalizedAt = zero_time, se_createdAt = now\<rparr>"

text \<open>The scan for the oldest entry, in the order in which the map happens to be iterated (the order of the list).\<close>

fun oldestLoop :: "(nat \<Rightarrow> streamBufferEntry) \<Rightarrow> (string \<times> nat) list \<Rightarrow> string \<Rightarrow> time \<Rightarrow> string" where
  "oldestLoop heap [] oldestSid oldestAt = oldestSid"
| "oldestLoop heap ((bSid, p) # bs) oldestSid oldestAt =
     (if oldestSid = '''' \<or> se_createdAt (heap p) < oldestAt
      then oldestLoop heap bs bSid (se_createdAt (heap p))
      else oldestLoop heap bs oldestSid oldestAt)"

definition sb_Open :: "time \<Rightarrow> string \<Rightarrow> string \<Rightarrow> StreamBufferStore \<Rightarrow> StreamBufferStore \<times> nat option" where
  "sb_Open now sid owner s =
     (if sid = '''' then (s, None)
      else
        (let p = sb_next s;
             bufs = (if sb_maxEntries s > 0 \<and> int (length (sb_buffers s)) \<ge> sb_maxEntries s \<and>
                        map_of (sb_buffers s) sid = None
                     then (let oldest = oldestLoop (sb_heap s) (sb_buffers s) '''' zero_time
                           in if oldest \<noteq> '''' then AList.delete oldest (sb_buffers s) else sb_buffers s)
                     else sb_buffers s)
         in (s\<lparr>sb_buffers := AList.update sid p bufs, sb_heap := (sb_heap s)(p := newEntry now sid owner s),
               sb_next := Suc p\<rparr>, Some p)))"

definition sb_Get :: "string \<Rightarrow> StreamBufferStore \<Rightarrow> nat option" where
  "sb_Get sid s = map_of (sb_buffers s) sid"

definition sb_Release :: "string \<Rightarrow> StreamBufferStore \<Rightarrow> StreamBufferStore" where
  "sb_Release sid s = (if sid = '''' then s else s\<lparr>sb_buffers := AList.delete sid (sb_buffers s)\<rparr>)"

definition sb_ReapExpired :: "time \<Rightarrow> StreamBufferStore \<Rightarrow> StreamBufferStore \<times> nat" where
  "sb_ReapExpired now s =
     (if sb_ttl s \<le> 0 then (s, 0)
      else
        (let keep = filter (\<lambda>(sid, p). now - sb_ttl s < se_createdAt (sb_heap s p)) (sb_buffers s)
         in (s\<lparr>sb_buffers := keep\<rparr>, length (sb_buffers s) - length keep)))"

section \<open>The consumer loop\<close>

record stream_conn =
  sc_entry :: streamBufferEntry
  sc_clientGone :: bool
  sc_written :: "sbytes list"
  sc_chunkCount :: nat
  sc_lastChunkAt :: time
  sc_streamStart :: time
  sc_tripped :: bool

definition writeFrameClient :: "bool \<Rightarrow> sbytes \<Rightarrow> stream_conn \<Rightarrow> stream_conn" where
  "writeFrameClient writeOk frame c =
     (if sc_clientGone c then c
      else if writeOk then c\<lparr>sc_written := sc_written c @ [frame]\<rparr> else c\<lparr>sc_clientGone := True\<rparr>)"

text \<open>A keepalive comment carries no event; only its failure is remembered.\<close>

definition writeKeepalive :: "bool \<Rightarrow> stream_conn \<Rightarrow> stream_conn" where
  "writeKeepalive writeOk c = (if sc_clientGone c \<or> writeOk then c else c\<lparr>sc_clientGone := True\<rparr>)"

definition appendAndWrite :: "bool \<Rightarrow> sbytes \<Rightarrow> stream_conn \<Rightarrow> stream_conn" where
  "appendAndWrite writeOk d c =
     (case buf_Append d (sc_entry c) of (e, seq, frame) \<Rightarrow> writeFrameClient writeOk frame (c\<lparr>sc_entry := e\<rparr>))"

text \<open>What the loop receives: a chunk of the pump, or a tick; each with the result of the write it causes.\<close>

datatype pump_event = PumpChunk time sbytes bool | PumpTick time bool

fun consume :: "duration \<Rightarrow> pump_event list \<Rightarrow> stream_conn \<Rightarrow> stream_conn" where
  "consume idleTimeout [] c = c"
| "consume idleTimeout (PumpChunk now d ok # evs) c =
     consume idleTimeout evs
       (appendAndWrite ok d (c\<lparr>sc_chunkCount := Suc (sc_chunkCount c), sc_lastChunkAt := now\<rparr>))"
| "consume idleTimeout (PumpTick now ok # evs) c =
     (let idle = (if sc_chunkCount c = 0 then now - sc_streamStart c else now - sc_lastChunkAt c)
      in if idleTimeout > 0 \<and> idle \<ge> idleTimeout then c\<lparr>sc_tripped := True\<rparr>
         else consume idleTimeout evs (writeKeepalive ok c))"

text \<open>After the loop: finalize, then the optional usage event and the terminator, for a client that is still there.\<close>

definition finishStream :: "time \<Rightarrow> bool \<Rightarrow> (sbytes \<times> bool) option \<Rightarrow> bool \<Rightarrow> stream_conn \<Rightarrow> stream_conn" where
  "finishStream now ctxOk usage doneOk c =
     (let c1 = c\<lparr>sc_entry := buf_MarkFinalized now (sc_entry c)\<rparr> in
      if \<not> sc_clientGone c1 \<and> ctxOk
      then (let c2 = (case usage of None \<Rightarrow> c1 | Some (d, ok) \<Rightarrow> appendAndWrite ok d c1)
            in appendAndWrite doneOk ''[DONE]'' c2)
      else c1)"

section \<open>The replay endpoint\<close>

definition parseStreamCursor :: "string \<Rightarrow> (int \<times> string) option" where
  "parseStreamCursor cursor =
     (if CHR '':'' \<notin> set cursor then None
      else case Atoi (afterLastColon cursor) of
        None \<Rightarrow> None
      | Some seq \<Rightarrow> if seq < 0 then None else Some (seq, beforeLastColon cursor))"

definition trimPrefix :: "string \<Rightarrow> string \<Rightarrow> string" where
  "trimPrefix p s = (if take (length p) s = p then drop (length p) s else s)"

text \<open>\<^verbatim>\<open>strings.Split(s, "/")\<close>.\<close>

fun splitSlash :: "string \<Rightarrow> string list" where
  "splitSlash [] = [[]]"
| "splitSlash (c # cs) =
     (if c = CHR ''/'' then [] # splitSlash cs
      else case splitSlash cs of [] \<Rightarrow> [[c]] | p # ps \<Rightarrow> (c # p) # ps)"

datatype resume_answer =
  ResumeNotFound
| ResumeForbidden
| ResumeWrongStream
| ResumeReplay string nat int

definition resumeCursor :: "string \<Rightarrow> string \<Rightarrow> int option" where
  "resumeCursor sid cursor =
     (if cursor = '''' then Some 0
      else case parseStreamCursor cursor of
        Some (seq, cursorSID) \<Rightarrow> if cursorSID = sid then Some seq else None
      | None \<Rightarrow> Some 0)"

definition handleStreamResume ::
    "string \<Rightarrow> string \<Rightarrow> string \<Rightarrow> string \<Rightarrow> StreamBufferStore option \<Rightarrow> resume_answer" where
  "handleStreamResume path requester lastEventID queryCursor store =
     (case store of None \<Rightarrow> ResumeNotFound
      | Some s \<Rightarrow>
          (case splitSlash (trimPrefix ''/v1/stream/'' (trimPrefix ''/v1/messages/'' path)) of
             [sid, ev] \<Rightarrow>
               (if ev \<noteq> ''events'' \<or> sid = '''' then ResumeNotFound
                else case sb_Get sid s of None \<Rightarrow> ResumeNotFound
                | Some p \<Rightarrow>
                    (let owner = se_owner (sb_heap s p) in
                     if owner = '''' \<or> requester = '''' \<or> owner \<noteq> requester then ResumeForbidden
                     else case resumeCursor sid (if lastEventID = '''' then queryCursor else lastEventID) of
                       None \<Rightarrow> ResumeWrongStream
                     | Some afterSeq \<Rightarrow> ResumeReplay sid p afterSeq))
           | _ \<Rightarrow> ResumeNotFound))"

text \<open>
  What a replay writes while its client stays: the buffered frames after the cursor, then round by round the frames that
  \<^verbatim>\<open>WaitForNew\<close> returns.  The list holds the entry as each round finds it.
\<close>

definition lastSeqOr :: "int \<Rightarrow> streamEventFrame list \<Rightarrow> int" where
  "lastSeqOr afterSeq fs = (if fs = [] then afterSeq else sf_seq (last fs))"

fun replayRounds :: "int \<Rightarrow> streamBufferEntry list \<Rightarrow> streamEventFrame list" where
  "replayRounds afterSeq [] = []"
| "replayRounds afterSeq (e # es) =
     (let fs = buf_FramesAfter afterSeq e
      in if se_finalized e \<and> fs = [] then [] else fs @ replayRounds (lastSeqOr afterSeq fs) es)"

definition replayAll :: "int \<Rightarrow> streamBufferEntry \<Rightarrow> streamBufferEntry list \<Rightarrow> streamEventFrame list" where
  "replayAll afterSeq e es =
     (let fs = buf_FramesAfter afterSeq e in fs @ replayRounds (lastSeqOr afterSeq fs) es)"

section \<open>The buffer is a tail of the log\<close>

definition log_of :: "string \<Rightarrow> sbytes list \<Rightarrow> streamEventFrame list" where
  "log_of sid ds =
     map (\<lambda>i. \<lparr>sf_seq = int i + 1, sf_frame = frame_bytes sid (int i + 1) (ds ! i)\<rparr>) [0..<length ds]"

abbreviation (input) frames_size :: "streamEventFrame list \<Rightarrow> int" where
  "frames_size fs \<equiv> sum_list (map (\<lambda>f. int (length (sf_frame f))) fs)"

definition buf_inv :: "sbytes list \<Rightarrow> streamBufferEntry \<Rightarrow> bool" where
  "buf_inv ds e \<longleftrightarrow> se_nextSeq e = int (length ds) \<and> length (se_frames e) \<le> length ds \<and>
     se_frames e = drop (length ds - length (se_frames e)) (log_of (se_sid e) ds) \<and> se_bytes e = frames_size (se_frames e)"

definition window_start :: "streamBufferEntry \<Rightarrow> int" where
  "window_start e = se_nextSeq e - int (length (se_frames e))"

lemma log_of_snoc:
  "log_of sid (ds @ [d]) =
     log_of sid ds @ [\<lparr>sf_seq = int (length ds) + 1, sf_frame = frame_bytes sid (int (length ds) + 1) d\<rparr>]"
  by (simp add: log_of_def nth_append)

lemma log_of_length [simp]: "length (log_of sid ds) = length ds"
  by (simp add: log_of_def)

lemma log_of_append_take: "take (length xs) (log_of sid (xs @ ys)) = log_of sid xs"
  by (simp add: log_of_def take_map nth_append)

lemma filter_upt_ge: "filter (\<lambda>i. m \<le> i) [k..<n] = [max k m..<n]"
  by (induction n) auto

lemma frames_after_log:
  assumes "0 \<le> a"
  shows "filter (\<lambda>f. a < sf_seq f) (drop k (log_of sid ds)) = drop (max k (nat a)) (log_of sid ds)"
proof -
  have "filter (\<lambda>i. a < int i + 1) [k..<length ds] = filter (\<lambda>i. nat a \<le> i) [k..<length ds]"
    using assms by (intro filter_cong) auto
  then show ?thesis by (simp add: log_of_def drop_map filter_map comp_def filter_upt_ge)
qed

lemma frames_size_split: "frames_size fs = frames_size (take j fs) + frames_size (drop j fs)"
  by (metis append_take_drop_id map_append sum_list_append)

lemma trimLoop_drop:
  "\<exists>j \<le> length (se_frames e). trimLoop e =
     e\<lparr>se_frames := drop j (se_frames e), se_bytes := se_bytes e - frames_size (take j (se_frames e))\<rparr> \<and>
     \<not> trimCond (trimLoop e)"
proof (induction e rule: trimLoop.induct)
  case (1 e)
  show ?case
  proof (cases "trimCond e")
    case True
    let ?e = "e\<lparr>se_frames := tl (se_frames e), se_bytes := se_bytes e - int (length (sf_frame (hd (se_frames e))))\<rparr>"
    obtain f fs where fs: "se_frames e = f # fs" using True by (cases "se_frames e") (auto simp: trimCond_def)
    obtain j where "j \<le> length fs" "\<not> trimCond (trimLoop ?e)" "trimLoop ?e =
        ?e\<lparr>se_frames := drop j fs, se_bytes := se_bytes ?e - frames_size (take j fs)\<rparr>"
      using "1.IH" [OF True] fs by auto
    moreover have "trimLoop e = trimLoop ?e" using True by (subst trimLoop.simps) simp
    ultimately show ?thesis using fs by (intro exI [of _ "Suc j"]) simp
  next
    case False
    then have "trimLoop e = e" by (subst trimLoop.simps) simp
    with False show ?thesis by (intro exI [of _ 0]) simp
  qed
qed

lemma buf_inv_drop:
  assumes "buf_inv ds e" "j \<le> length (se_frames e)"
  shows "buf_inv ds (e\<lparr>se_frames := drop j (se_frames e), se_bytes := se_bytes e - frames_size (take j (se_frames e))\<rparr>)"
proof -
  have "drop j (se_frames e) = drop (j + (length ds - length (se_frames e))) (log_of (se_sid e) ds)"
    using assms(1) by (metis buf_inv_def drop_drop)
  moreover have "j + (length ds - length (se_frames e)) = length ds - (length (se_frames e) - j)"
    using assms by (auto simp: buf_inv_def)
  moreover have "se_bytes e - frames_size (take j (se_frames e)) = frames_size (drop j (se_frames e))"
    using assms(1) frames_size_split [of "se_frames e" j] by (simp add: buf_inv_def)
  moreover have "length (se_frames e) - j \<le> length ds" using assms(1) by (auto simp: buf_inv_def)
  ultimately show ?thesis using assms by (simp add: buf_inv_def)
qed

lemma buf_Append_inv:
  assumes "buf_inv ds e"
  shows "buf_inv (ds @ [d]) (fst (buf_Append d e))"
    and "snd (buf_Append d e) = (int (length ds) + 1, frame_bytes (se_sid e) (int (length ds) + 1) d)"
    and "se_sid (fst (buf_Append d e)) = se_sid e" "\<not> trimCond (fst (buf_Append d e))"
    and "se_finalized (fst (buf_Append d e)) = se_finalized e"
proof -
  let ?f = "\<lparr>sf_seq = int (length ds) + 1, sf_frame = frame_bytes (se_sid e) (int (length ds) + 1) d\<rparr>"
  let ?e = "e\<lparr>se_nextSeq := int (length ds) + 1, se_frames := se_frames e @ [?f],
      se_bytes := se_bytes e + int (length (sf_frame ?f))\<rparr>"
  have nxt: "se_nextSeq e = int (length ds)" using assms by (simp add: buf_inv_def)
  have "buf_inv (ds @ [d]) ?e" using assms by (auto simp: buf_inv_def log_of_snoc)
  moreover obtain j where j: "j \<le> length (se_frames ?e)" "\<not> trimCond (trimLoop ?e)" "trimLoop ?e =
      ?e\<lparr>se_frames := drop j (se_frames ?e), se_bytes := se_bytes ?e - frames_size (take j (se_frames ?e))\<rparr>"
    using trimLoop_drop [of ?e] by auto
  moreover have app: "buf_Append d e = (trimLoop ?e, int (length ds) + 1, sf_frame ?f)"
    by (simp add: buf_Append_def Let_def nxt)
  ultimately show "buf_inv (ds @ [d]) (fst (buf_Append d e))" using buf_inv_drop by (metis fst_conv)
  show "snd (buf_Append d e) = (int (length ds) + 1, frame_bytes (se_sid e) (int (length ds) + 1) d)" by (simp add: app)
  show "se_sid (fst (buf_Append d e)) = se_sid e" "se_finalized (fst (buf_Append d e)) = se_finalized e"
    unfolding app fst_conv j(3) by simp_all
  show "\<not> trimCond (fst (buf_Append d e))" using j(2) by (simp add: app)
qed

lemma buf_FramesAfter_log:
  assumes "buf_inv ds e" "0 \<le> a" "window_start e \<le> a"
  shows "buf_FramesAfter a e = drop (nat a) (log_of (se_sid e) ds)"
proof -
  have "length ds - length (se_frames e) \<le> nat a" using assms by (auto simp: buf_inv_def window_start_def)
  then show ?thesis using assms frames_after_log [OF assms(2)]
    by (metis buf_FramesAfter_def buf_inv_def max.absorb2)
qed

section \<open>Cursors\<close>

lemma parseStreamCursor_print:
  assumes "0 \<le> seq" "int64_ok seq"
  shows "parseStreamCursor (sid @ '':'' @ fmt_d seq) = Some (seq, sid)"
proof -
  have "CHR '':'' \<notin> set (fmt_d seq)" using assms(1) dec_of_nat_chars [of "CHR '':''"] by (auto simp: fmt_d_def)
  then show ?thesis using split_last_colon [of "fmt_d seq" sid] Atoi_fmt_d [OF assms(2)] assms(1)
    by (simp add: parseStreamCursor_def)
qed

text \<open>The identifier a client reads off an event: what follows \<^verbatim>\<open>id: \<close> on its first line.\<close>

definition event_id :: "sbytes \<Rightarrow> string" where
  "event_id frame = takeWhile (\<lambda>c. c \<noteq> CHR 0x0A) (drop 4 frame)"

lemma event_id_frame:
  assumes "CHR 0x0A \<notin> set sid" "0 \<le> seq"
  shows "event_id (frame_bytes sid seq d) = sid @ '':'' @ fmt_d seq"
proof -
  have "CHR 0x0A \<notin> set (fmt_d seq)"
    using assms(2) dec_of_nat_chars [of "CHR 0x0A"] by (auto simp: fmt_d_def is_dec_digit_def)
  then have "CHR 0x0A \<notin> set (sid @ '':'' @ fmt_d seq)" using assms(1) by auto
  then have "takeWhile (\<lambda>c. c \<noteq> CHR 0x0A) ((sid @ '':'' @ fmt_d seq) @ CHR 0x0A # (''data: '' @ d @ [CHR 0x0A, CHR 0x0A])) =
      sid @ '':'' @ fmt_d seq" by (rule while_until)
  then show ?thesis by (simp add: event_id_def frame_bytes_def)
qed

section \<open>The consumer\<close>

fun chunk_data :: "pump_event list \<Rightarrow> sbytes list" where
  "chunk_data [] = []"
| "chunk_data (PumpChunk now d ok # evs) = d # chunk_data evs"
| "chunk_data (PumpTick now ok # evs) = chunk_data evs"

text \<open>The client has received a prefix of the log, and all of it while its connection holds.\<close>

definition conn_inv :: "sbytes list \<Rightarrow> stream_conn \<Rightarrow> bool" where
  "conn_inv ds c \<longleftrightarrow> buf_inv ds (sc_entry c) \<and> length (sc_written c) \<le> length ds \<and>
     sc_written c = map sf_frame (take (length (sc_written c)) (log_of (se_sid (sc_entry c)) ds)) \<and>
     (\<not> sc_clientGone c \<longrightarrow> length (sc_written c) = length ds)"

lemma appendAndWrite_inv:
  assumes "conn_inv ds c"
  shows "conn_inv (ds @ [d]) (appendAndWrite ok d c)"
    and "se_sid (sc_entry (appendAndWrite ok d c)) = se_sid (sc_entry c)"
    and "sc_tripped (appendAndWrite ok d c) = sc_tripped c"
    and "sc_entry (appendAndWrite ok d c) = fst (buf_Append d (sc_entry c))"
proof -
  have inv: "buf_inv ds (sc_entry c)" using assms by (simp add: conn_inv_def)
  note app = buf_Append_inv [OF inv, of d]
  obtain e where e: "buf_Append d (sc_entry c) =
      (e, int (length ds) + 1, frame_bytes (se_sid (sc_entry c)) (int (length ds) + 1) d)"
    using app(2) by (metis prod.collapse)
  have aw: "appendAndWrite ok d c = writeFrameClient ok
      (frame_bytes (se_sid (sc_entry c)) (int (length ds) + 1) d) (c\<lparr>sc_entry := e\<rparr>)"
    by (simp add: appendAndWrite_def e)
  have ee: "buf_inv (ds @ [d]) e" "se_sid e = se_sid (sc_entry c)" using app(1,3) by (simp_all add: e)
  have len: "length (sc_written c) \<le> length ds" using assms by (simp add: conn_inv_def)
  then show "conn_inv (ds @ [d]) (appendAndWrite ok d c)"
    using assms ee by (auto simp: conn_inv_def aw writeFrameClient_def log_of_snoc)
  show "se_sid (sc_entry (appendAndWrite ok d c)) = se_sid (sc_entry c)"
    "sc_tripped (appendAndWrite ok d c) = sc_tripped c"
    "sc_entry (appendAndWrite ok d c) = fst (buf_Append d (sc_entry c))"
    using ee(2) by (auto simp: aw writeFrameClient_def e)
qed

lemma consume_inv:
  assumes "conn_inv ds c" "\<not> sc_tripped c"
  shows "\<exists>ds'. conn_inv (ds @ ds') (consume idle evs c) \<and> se_sid (sc_entry (consume idle evs c)) = se_sid (sc_entry c) \<and>
    (\<exists>rest. chunk_data evs = ds' @ rest \<and> (\<not> sc_tripped (consume idle evs c) \<longrightarrow> rest = []))"
  using assms
proof (induction idle evs c arbitrary: ds rule: consume.induct)
  case (2 idle now d ok evs c)
  let ?c = "c\<lparr>sc_chunkCount := Suc (sc_chunkCount c), sc_lastChunkAt := now\<rparr>"
  have c: "conn_inv ds ?c" using "2.prems"(1) by (simp add: conn_inv_def)
  note aw = appendAndWrite_inv [OF c, where d = d and ok = ok]
  obtain ds' rest where "conn_inv ((ds @ [d]) @ ds') (consume idle evs (appendAndWrite ok d ?c))"
    "se_sid (sc_entry (consume idle evs (appendAndWrite ok d ?c))) = se_sid (sc_entry (appendAndWrite ok d ?c))"
    "chunk_data evs = ds' @ rest" "\<not> sc_tripped (consume idle evs (appendAndWrite ok d ?c)) \<longrightarrow> rest = []"
    using "2.IH" [OF aw(1)] aw(3) "2.prems"(2) by auto
  then show ?case using aw(2) by (intro exI [of _ "d # ds'"]) simp
next
  case (3 idle now ok evs c)
  let ?idle = "if sc_chunkCount c = 0 then now - sc_streamStart c else now - sc_lastChunkAt c"
  show ?case
  proof (cases "idle > 0 \<and> ?idle \<ge> idle")
    case True
    then show ?thesis using "3.prems" by (intro exI [of _ "[]"]) (simp add: conn_inv_def Let_def)
  next
    case False
    have k: "conn_inv ds (writeKeepalive ok c)" "\<not> sc_tripped (writeKeepalive ok c)"
      "se_sid (sc_entry (writeKeepalive ok c)) = se_sid (sc_entry c)"
      using "3.prems" by (auto simp: conn_inv_def writeKeepalive_def)
    have "consume idle (PumpTick now ok # evs) c = consume idle evs (writeKeepalive ok c)"
      by (simp only: consume.simps Let_def False if_False)
    then show ?thesis using "3.IH" [OF refl False k(1,2)] k(3) by simp
  qed
qed (auto intro: exI [of _ "[]"])

definition freshConn :: "time \<Rightarrow> streamBufferEntry \<Rightarrow> stream_conn" where
  "freshConn now e = \<lparr>sc_entry = e, sc_clientGone = False, sc_written = [], sc_chunkCount = 0, sc_lastChunkAt = now,
     sc_streamStart = now, sc_tripped = False\<rparr>"

lemma freshConn_inv: "conn_inv [] (freshConn now (newEntry t sid owner s))"
  by (simp add: conn_inv_def freshConn_def buf_inv_def newEntry_def log_of_def)

lemma consume_fresh:
  fixes idle evs now t sid owner s
  defines "c \<equiv> consume idle evs (freshConn now (newEntry t sid owner s))"
  obtains ds rest where "conn_inv ds c" "se_sid (sc_entry c) = sid" "chunk_data evs = ds @ rest"
    "\<not> sc_tripped c \<longrightarrow> rest = []"
proof -
  have "\<not> sc_tripped (freshConn now (newEntry t sid owner s))"
    "se_sid (sc_entry (freshConn now (newEntry t sid owner s))) = sid"
    by (simp_all add: freshConn_def newEntry_def)
  then show thesis using consume_inv [OF freshConn_inv [of now t sid owner s], of idle evs] that
    by (auto simp: c_def)
qed

section \<open>The live replay\<close>

text \<open>
  A history of the entry as the rounds of a replay see it: the log only grows, and the buffer still reaches back to the last
  event delivered.
\<close>

fun live_history :: "string \<Rightarrow> sbytes list \<Rightarrow> (sbytes list \<times> streamBufferEntry) list \<Rightarrow> bool" where
  "live_history sid seen [] = True"
| "live_history sid seen ((ds, e) # h) =
     (prefix seen ds \<and> buf_inv ds e \<and> se_sid e = sid \<and> window_start e \<le> int (length seen) \<and> live_history sid ds h)"

text \<open>Some round found the stream finalized with nothing new, which ends the replay.\<close>

fun roundsDrained :: "int \<Rightarrow> streamBufferEntry list \<Rightarrow> bool" where
  "roundsDrained afterSeq [] = False"
| "roundsDrained afterSeq (e # es) =
     (let fs = buf_FramesAfter afterSeq e
      in (se_finalized e \<and> fs = []) \<or> roundsDrained (lastSeqOr afterSeq fs) es)"

definition replayDrained :: "int \<Rightarrow> streamBufferEntry \<Rightarrow> streamBufferEntry list \<Rightarrow> bool" where
  "replayDrained afterSeq e es = roundsDrained (lastSeqOr afterSeq (buf_FramesAfter afterSeq e)) es"

lemma log_of_last:
  assumes "n < length ds"
  shows "sf_seq (last (drop n (log_of sid ds))) = int (length ds)"
proof -
  have "last (drop n (log_of sid ds)) = log_of sid ds ! (length ds - 1)"
    using assms by (simp add: last_drop last_conv_nth)
  then show ?thesis using assms by (simp add: log_of_def of_nat_diff)
qed

lemma lastSeqOr_log: "n \<le> length ds \<Longrightarrow> lastSeqOr (int n) (drop n (log_of sid ds)) = int (length ds)"
  using log_of_last [of n ds sid] by (cases "n = length ds") (auto simp: lastSeqOr_def)

lemma log_of_prefix: "prefix xs ys \<Longrightarrow> log_of sid xs = take (length xs) (log_of sid ys)"
  by (auto simp: prefix_def log_of_append_take)

lemma log_of_join:
  assumes "prefix xs ys" "n \<le> length xs"
  shows "drop n (log_of sid xs) @ drop (length xs) (log_of sid ys) = drop n (log_of sid ys)"
proof -
  have "log_of sid ys = log_of sid xs @ drop (length xs) (log_of sid ys)"
    using log_of_prefix [OF assms(1)] by simp
  then show ?thesis using assms(2) by (metis append_take_drop_id drop_append log_of_length diff_is_0_eq' drop_0)
qed

lemma replayRounds_log:
  "live_history sid seen h \<Longrightarrow>
   \<exists>d. prefix seen d \<and> replayRounds (int (length seen)) (map snd h) = drop (length seen) (log_of sid d) \<and>
     (if roundsDrained (int (length seen)) (map snd h) then \<exists>e. (d, e) \<in> set h \<and> se_finalized e
      else d = last (seen # map fst h))"
proof (induction sid seen h rule: live_history.induct)
  case (2 sid seen ds e h)
  have pre: "prefix seen ds" and le: "length seen \<le> length ds" using "2.prems" by (auto dest: prefix_length_le)
  have fs: "buf_FramesAfter (int (length seen)) e = drop (length seen) (log_of sid ds)"
    using buf_FramesAfter_log [of ds e "int (length seen)"] "2.prems" by simp
  show ?case
  proof (cases "se_finalized e \<and> ds = seen")
    case True
    then show ?thesis using fs by (intro exI [of _ seen]) auto
  next
    case False
    then have "\<not> (se_finalized e \<and> drop (length seen) (log_of sid ds) = [])" using pre by (auto simp: prefix_def)
    moreover obtain d where d: "prefix ds d"
      "replayRounds (int (length ds)) (map snd h) = drop (length ds) (log_of sid d)"
      "if roundsDrained (int (length ds)) (map snd h) then \<exists>e. (d, e) \<in> set h \<and> se_finalized e
       else d = last (ds # map fst h)" using "2.IH" "2.prems" by auto
    ultimately have "prefix seen d" "replayRounds (int (length seen)) (map snd ((ds, e) # h)) = drop (length seen) (log_of sid d)"
      "roundsDrained (int (length seen)) (map snd ((ds, e) # h)) = roundsDrained (int (length ds)) (map snd h)"
      using pre log_of_join [OF d(1) le, of sid] lastSeqOr_log [OF le, of sid]
      by (auto simp: fs Let_def dest: prefix_order.trans)
    then show ?thesis using d(3) by (intro exI [of _ d]) auto
  qed
qed (simp add: log_of_def)

lemma replayAll_log:
  assumes "buf_inv ds e" "se_sid e = sid" "window_start e \<le> int a" "a \<le> length ds" "live_history sid ds h"
  shows "\<exists>d. prefix ds d \<and> replayAll (int a) e (map snd h) = drop a (log_of sid d) \<and>
    (if replayDrained (int a) e (map snd h) then \<exists>e. (d, e) \<in> set h \<and> se_finalized e else d = last (ds # map fst h))"
proof -
  have fs: "buf_FramesAfter (int a) e = drop a (log_of sid ds)"
    using buf_FramesAfter_log [of ds e "int a"] assms(1-3) by simp
  obtain d where d: "prefix ds d" "replayRounds (int (length ds)) (map snd h) = drop (length ds) (log_of sid d)"
    "if roundsDrained (int (length ds)) (map snd h) then \<exists>e. (d, e) \<in> set h \<and> se_finalized e
     else d = last (ds # map fst h)" using replayRounds_log [OF assms(5)] by blast
  then have "replayAll (int a) e (map snd h) = drop a (log_of sid d)"
    "replayDrained (int a) e (map snd h) = roundsDrained (int (length ds)) (map snd h)"
    using log_of_join [OF d(1) assms(4), of sid] lastSeqOr_log [OF assms(4), of sid]
    by (simp_all add: replayAll_def replayDrained_def fs Let_def)
  then show ?thesis using d(1,3) by auto
qed

section \<open>The instants of a stream\<close>

text \<open>
  The states a producing handler goes through: after each received item of the loop, after \<^verbatim>\<open>MarkFinalized\<close>, after the usage
  event and after the terminator.  A replay takes the lock of the entry between any two of them.
\<close>

definition finishTrace :: "time \<Rightarrow> bool \<Rightarrow> (sbytes \<times> bool) option \<Rightarrow> bool \<Rightarrow> stream_conn \<Rightarrow> stream_conn list" where
  "finishTrace now ctxOk usage doneOk c =
     (let c1 = c\<lparr>sc_entry := buf_MarkFinalized now (sc_entry c)\<rparr> in
      c1 # (if \<not> sc_clientGone c \<and> ctxOk
            then (case usage of None \<Rightarrow> [] | Some (d, ok) \<Rightarrow> [appendAndWrite ok d c1]) @
                 [finishStream now ctxOk usage doneOk c]
            else []))"

definition streamTrace ::
    "duration \<Rightarrow> pump_event list \<Rightarrow> time \<Rightarrow> bool \<Rightarrow> (sbytes \<times> bool) option \<Rightarrow> bool \<Rightarrow> stream_conn \<Rightarrow> stream_conn list" where
  "streamTrace idle evs now ctxOk usage doneOk c =
     map (\<lambda>n. consume idle (take n evs) c) [0..<Suc (length evs)] @ finishTrace now ctxOk usage doneOk (consume idle evs c)"

lemma streamTrace_last:
  "last (streamTrace idle evs now ctxOk usage doneOk c) = finishStream now ctxOk usage doneOk (consume idle evs c)"
  by (simp add: streamTrace_def finishTrace_def finishStream_def Let_def)

text \<open>What the handler appends after the loop.\<close>

definition terminalEvents :: "bool \<Rightarrow> (sbytes \<times> bool) option \<Rightarrow> stream_conn \<Rightarrow> sbytes list" where
  "terminalEvents ctxOk usage c =
     (if sc_clientGone c \<or> \<not> ctxOk then []
      else (case usage of None \<Rightarrow> [] | Some (d, ok) \<Rightarrow> [d]) @ [''[DONE]''])"

text \<open>The logs behind a list of states of one stream: each is a prefix of the next.\<close>

definition logs_behind :: "string \<Rightarrow> sbytes list list \<Rightarrow> stream_conn list \<Rightarrow> bool" where
  "logs_behind sid Ds cs \<longleftrightarrow> list_all2 (\<lambda>ds c. conn_inv ds c \<and> se_sid (sc_entry c) = sid) Ds cs \<and> sorted_wrt prefix Ds"

lemma consume_append:
  "consume idle (xs @ ys) c = (let c' = consume idle xs c in if sc_tripped c' then c' else consume idle ys c')"
  if "\<not> sc_tripped c"
  using that
proof (induction idle xs c rule: consume.induct)
  case (2 idle now d ok evs c)
  then show ?case by (simp add: appendAndWrite_def writeFrameClient_def Let_def split: prod.splits)
next
  case (3 idle now ok evs c)
  then show ?case by (simp add: writeKeepalive_def Let_def)
qed simp

lemma consume_finalized: "se_finalized (sc_entry (consume idle evs c)) = se_finalized (sc_entry c)"
proof (induction idle evs c rule: consume.induct)
  case (2 idle now d ok evs c)
  have "se_finalized (trimLoop e) = se_finalized e" for e using trimLoop_drop [of e] by auto
  then show ?case using 2
    by (simp add: appendAndWrite_def writeFrameClient_def buf_Append_def Let_def split: prod.splits)
qed (simp_all add: writeKeepalive_def Let_def)

lemma logs_behind_snoc:
  assumes "logs_behind sid (Ds @ [d]) cs" "conn_inv d' c" "se_sid (sc_entry c) = sid" "prefix d d'"
  shows "logs_behind sid ((Ds @ [d]) @ [d']) (cs @ [c])"
proof -
  let ?P = "\<lambda>ds c. conn_inv ds c \<and> se_sid (sc_entry c) = sid"
  have "list_all2 ?P (Ds @ [d]) cs" "sorted_wrt prefix (Ds @ [d])" using assms(1) by (simp_all add: logs_behind_def)
  moreover have "list_all2 ?P [d'] [c]" using assms(2,3) by simp
  ultimately have l: "list_all2 ?P ((Ds @ [d]) @ [d']) (cs @ [c])" and "sorted_wrt prefix (Ds @ [d])"
    by (blast intro: list_all2_appendI)+
  then have "sorted_wrt prefix ((Ds @ [d]) @ [d'])"
    using assms(4) by (auto simp: sorted_wrt_append intro: prefix_order.trans)
  with l show ?thesis unfolding logs_behind_def by blast
qed

lemma consume_logs:
  fixes idle evs now t sid owner s
  defines "c0 \<equiv> freshConn now (newEntry t sid owner s)"
  shows "\<exists>Ds ds. logs_behind sid (Ds @ [ds]) (map (\<lambda>n. consume idle (take n evs) c0) [0..<Suc (length evs)]) \<and>
    conn_inv ds (consume idle evs c0) \<and> se_sid (sc_entry (consume idle evs c0)) = sid \<and> prefix ds (chunk_data evs) \<and>
    (\<not> sc_tripped (consume idle evs c0) \<longrightarrow> ds = chunk_data evs)"
proof (induction evs rule: rev_induct)
  case Nil
  have "se_sid (sc_entry c0) = sid" by (simp add: c0_def freshConn_def newEntry_def)
  then show ?case using freshConn_inv [of now t sid owner s]
    by (intro exI [of _ "[]"]) (simp add: logs_behind_def c0_def [symmetric])
next
  case (snoc x evs)
  let ?c = "consume idle evs c0"
  obtain Ds ds where l: "logs_behind sid (Ds @ [ds]) (map (\<lambda>n. consume idle (take n evs) c0) [0..<Suc (length evs)])"
    and c: "conn_inv ds ?c" "se_sid (sc_entry ?c) = sid" "prefix ds (chunk_data evs)"
      "\<not> sc_tripped ?c \<longrightarrow> ds = chunk_data evs" using snoc by blast
  have fresh: "\<not> sc_tripped c0" by (simp add: c0_def freshConn_def)
  have ch: "chunk_data (evs @ [x]) = chunk_data evs @ chunk_data [x]" by (induction evs rule: chunk_data.induct) auto
  obtain ds' where n: "conn_inv ds' (consume idle (evs @ [x]) c0)" "se_sid (sc_entry (consume idle (evs @ [x]) c0)) = sid"
    "prefix ds ds'" "prefix ds' (chunk_data (evs @ [x]))"
    "\<not> sc_tripped (consume idle (evs @ [x]) c0) \<longrightarrow> ds' = chunk_data (evs @ [x])"
  proof (cases "sc_tripped ?c")
    case True
    then show thesis using that [of ds] c ch fresh by (auto simp: consume_append Let_def)
  next
    case False
    have app: "consume idle (evs @ [x]) c0 = consume idle [x] ?c" using consume_append [OF fresh] False by (simp add: Let_def)
    obtain ds' rest where "conn_inv (ds @ ds') (consume idle [x] ?c)" "se_sid (sc_entry (consume idle [x] ?c)) = sid"
      "chunk_data [x] = ds' @ rest" "\<not> sc_tripped (consume idle [x] ?c) \<longrightarrow> rest = []"
      using consume_inv [OF c(1) False, of idle "[x]"] c(2) by auto
    then show thesis using that [of "ds @ ds'"] c(4) False ch by (simp add: app)
  qed
  have "map (\<lambda>n. consume idle (take n (evs @ [x])) c0) [0..<Suc (length (evs @ [x]))] =
      map (\<lambda>n. consume idle (take n evs) c0) [0..<Suc (length evs)] @ [consume idle (evs @ [x]) c0]" by simp
  then show ?case using logs_behind_snoc [OF l n(1-3)] n by metis
qed

lemma finish_logs:
  assumes "logs_behind sid (Ds @ [ds]) cs" "conn_inv ds c" "se_sid (sc_entry c) = sid"
  shows "\<exists>Fs. logs_behind sid ((Ds @ [ds]) @ Fs) (cs @ finishTrace now ctxOk usage doneOk c) \<and> Fs \<noteq> [] \<and>
    last Fs = ds @ terminalEvents ctxOk usage c \<and> (\<forall>d \<in> set Fs. prefix ds d)"
proof -
  define c1 where "c1 = c\<lparr>sc_entry := buf_MarkFinalized now (sc_entry c)\<rparr>"
  have c1: "conn_inv ds c1" "se_sid (sc_entry c1) = sid" "sc_clientGone c1 = sc_clientGone c"
    using assms(2,3) by (auto simp: c1_def conn_inv_def buf_inv_def buf_MarkFinalized_def)
  note l1 = logs_behind_snoc [OF assms(1) c1(1,2) prefix_order.refl]
  note aw = appendAndWrite_inv [where c = c1, OF c1(1)]
  show ?thesis
  proof (cases "sc_clientGone c \<or> \<not> ctxOk")
    case True
    then show ?thesis using l1
      by (intro exI [of _ "[ds]"]) (auto simp: finishTrace_def terminalEvents_def Let_def c1_def [symmetric])
  next
    case on: False
    show ?thesis
    proof (cases usage)
      case None
      have "logs_behind sid (((Ds @ [ds]) @ [ds]) @ [ds @ [''[DONE]'']]) ((cs @ [c1]) @ [appendAndWrite doneOk ''[DONE]'' c1])"
        by (rule logs_behind_snoc [OF l1 aw(1)]) (simp_all add: aw(2) c1)
      then show ?thesis using on None c1(3)
        by (intro exI [of _ "[ds, ds @ [''[DONE]'']]"])
          (auto simp: finishTrace_def finishStream_def terminalEvents_def Let_def c1_def [symmetric])
    next
      case (Some u)
      obtain d ok where u: "u = (d, ok)" by fastforce
      let ?c2 = "appendAndWrite ok d c1"
      note aw2 = appendAndWrite_inv [where c = ?c2, OF aw(1)]
      have "logs_behind sid (((Ds @ [ds]) @ [ds]) @ [ds @ [d]]) ((cs @ [c1]) @ [?c2])"
        by (rule logs_behind_snoc [OF l1 aw(1)]) (simp_all add: aw(2) c1)
      then have "logs_behind sid ((((Ds @ [ds]) @ [ds]) @ [ds @ [d]]) @ [(ds @ [d]) @ [''[DONE]'']])
          (((cs @ [c1]) @ [?c2]) @ [appendAndWrite doneOk ''[DONE]'' ?c2])"
        by (rule logs_behind_snoc [OF _ aw2(1)]) (simp_all add: aw(2) aw2(2) c1)
      then show ?thesis using on Some u c1(3)
        by (intro exI [of _ "[ds, ds @ [d], (ds @ [d]) @ [''[DONE]'']]"])
          (auto simp: finishTrace_def finishStream_def terminalEvents_def Let_def c1_def [symmetric])
    qed
  qed
qed

lemma streamTrace_logs:
  fixes idle evs now ctxOk usage doneOk start t sid owner s
  defines "c0 \<equiv> freshConn start (newEntry t sid owner s)"
  defines "tr \<equiv> streamTrace idle evs now ctxOk usage doneOk c0"
  obtains Ds ds where "logs_behind sid Ds tr" "prefix ds (chunk_data evs)"
    "\<not> sc_tripped (consume idle evs c0) \<longrightarrow> ds = chunk_data evs"
    "last Ds = ds @ terminalEvents ctxOk usage (consume idle evs c0)"
    "\<And>i. i < length tr \<Longrightarrow> se_finalized (sc_entry (tr ! i)) \<Longrightarrow> prefix ds (Ds ! i)"
proof -
  let ?cs = "map (\<lambda>n. consume idle (take n evs) c0) [0..<Suc (length evs)]"
  obtain Ds ds where d: "logs_behind sid (Ds @ [ds]) ?cs" "conn_inv ds (consume idle evs c0)"
    "se_sid (sc_entry (consume idle evs c0)) = sid" "prefix ds (chunk_data evs)"
    "\<not> sc_tripped (consume idle evs c0) \<longrightarrow> ds = chunk_data evs"
    using consume_logs [of sid idle evs start t owner s] unfolding c0_def by blast
  obtain Fs where f: "logs_behind sid ((Ds @ [ds]) @ Fs) tr" "Fs \<noteq> []"
    "last Fs = ds @ terminalEvents ctxOk usage (consume idle evs c0)" "\<forall>d \<in> set Fs. prefix ds d"
    using finish_logs [OF d(1-3)] unfolding tr_def streamTrace_def by blast
  have len: "length (Ds @ [ds]) = length ?cs" "length ((Ds @ [ds]) @ Fs) = length tr"
    using d(1) f(1) list_all2_lengthD unfolding logs_behind_def by blast+
  have "prefix ds (((Ds @ [ds]) @ Fs) ! i)" if i: "i < length tr" and fin: "se_finalized (sc_entry (tr ! i))" for i
  proof -
    have "\<not> i < length ?cs"
    proof
      assume "i < length ?cs"
      then have "tr ! i = consume idle (take i evs) c0"
        by (simp add: tr_def streamTrace_def nth_append del: upt_Suc)
      then show False using fin by (simp add: consume_finalized c0_def freshConn_def newEntry_def)
    qed
    then have "((Ds @ [ds]) @ Fs) ! i \<in> set Fs" using len i unfolding nth_append by (simp del: upt_Suc)
    then show ?thesis using f(4) by blast
  qed
  then show thesis using that [OF f(1) d(4,5)] f(2,3) by simp
qed

text \<open>What a client cites when it reconnects: the identifier of the last event it holds, if any.\<close>

definition client_cursor :: "sbytes list \<Rightarrow> string" where
  "client_cursor held = (if held = [] then '''' else event_id (last held))"

lemma resumeCursor_held:
  assumes "CHR 0x0A \<notin> set sid" "int m < 2 ^ 63" "m \<le> length ds"
  shows "resumeCursor sid (client_cursor (map sf_frame (take m (log_of sid ds)))) = Some (int m)"
proof (cases m)
  case (Suc n)
  then have "take m (log_of sid ds) = take n (log_of sid ds) @ [log_of sid ds ! n]"
    using assms(3) by (simp add: take_Suc_conv_app_nth)
  then have "client_cursor (map sf_frame (take m (log_of sid ds))) = event_id (frame_bytes sid (int m) (ds ! n))"
    using assms(3) Suc by (simp add: client_cursor_def log_of_def add.commute)
  also have "\<dots> = sid @ '':'' @ fmt_d (int m)" by (rule event_id_frame) (use assms in auto)
  finally show ?thesis
    using parseStreamCursor_print [of "int m" sid] assms(2) by (simp add: resumeCursor_def int64_ok_def)
qed (simp add: client_cursor_def resumeCursor_def)

text \<open>The reads of a replay at increasing instants of a stream are a history of its entry.\<close>

fun reaches_back :: "stream_conn list \<Rightarrow> nat \<Rightarrow> nat list \<Rightarrow> bool" where
  "reaches_back tr i [] = True"
| "reaches_back tr i (j # js) =
     (i \<le> j \<and> j < length tr \<and> window_start (sc_entry (tr ! j)) \<le> se_nextSeq (sc_entry (tr ! i)) \<and> reaches_back tr j js)"

lemma logs_behind_nth:
  assumes "logs_behind sid Ds tr" "i < length tr"
  shows "conn_inv (Ds ! i) (tr ! i)" "se_sid (sc_entry (tr ! i)) = sid" "buf_inv (Ds ! i) (sc_entry (tr ! i))"
    "se_nextSeq (sc_entry (tr ! i)) = int (length (Ds ! i))" "Ds \<noteq> []" "prefix (Ds ! i) (last Ds)"
    and "i \<le> j \<Longrightarrow> j < length tr \<Longrightarrow> prefix (Ds ! i) (Ds ! j)"
proof -
  have len: "length Ds = length tr" and "sorted_wrt prefix Ds"
    and a: "\<forall>i < length tr. conn_inv (Ds ! i) (tr ! i) \<and> se_sid (sc_entry (tr ! i)) = sid"
    using assms(1) by (auto simp: logs_behind_def list_all2_conv_all_nth)
  then have p: "prefix (Ds ! i) (Ds ! j)" if "i \<le> j" "j < length tr" for i j
    using that by (cases "i = j") (auto simp: sorted_wrt_iff_nth_less)
  show "conn_inv (Ds ! i) (tr ! i)" "se_sid (sc_entry (tr ! i)) = sid" "buf_inv (Ds ! i) (sc_entry (tr ! i))"
    "se_nextSeq (sc_entry (tr ! i)) = int (length (Ds ! i))" using a assms(2) by (auto simp: conn_inv_def buf_inv_def)
  show ne: "Ds \<noteq> []" using len assms(2) by auto
  show "prefix (Ds ! i) (last Ds)" using p [of i "length Ds - 1"] assms(2) len ne by (simp add: last_conv_nth)
  show "i \<le> j \<Longrightarrow> j < length tr \<Longrightarrow> prefix (Ds ! i) (Ds ! j)" by (rule p)
qed

lemma reaches_back_history:
  assumes "logs_behind sid Ds tr" "i < length tr" "reaches_back tr i js"
  shows "live_history sid (Ds ! i) (map (\<lambda>j. (Ds ! j, sc_entry (tr ! j))) js)" and "set js \<subseteq> {..<length tr}"
  using assms(2,3) by (induction js arbitrary: i) (use logs_behind_nth [OF assms(1)] in auto)

lemma logs_behind_written:
  assumes "logs_behind sid Ds tr" "tr \<noteq> []"
  shows "prefix (sc_written (last tr)) (map sf_frame (log_of sid (last Ds)))"
proof -
  have ln: "length Ds = length tr" using assms(1) by (auto simp: logs_behind_def list_all2_lengthD)
  then have "Ds \<noteq> []" using assms(2) by auto
  then have "conn_inv (last Ds) (last tr)" "se_sid (sc_entry (last tr)) = sid"
    using logs_behind_nth(1,2) [OF assms(1), of "length tr - 1"] assms(2) ln by (simp_all add: last_conv_nth)
  then show ?thesis unfolding conn_inv_def by (metis take_map take_is_prefix)
qed

lemma replay_reads:
  assumes "logs_behind sid Ds tr" "i < length tr" "window_start (sc_entry (tr ! i)) \<le> int m" "m \<le> length (Ds ! i)"
    and "reaches_back tr i js"
  obtains j where "j < length tr" "prefix (Ds ! i) (Ds ! j)"
    "replayAll (int m) (sc_entry (tr ! i)) (map (\<lambda>j. sc_entry (tr ! j)) js) = drop m (log_of sid (Ds ! j))"
    "if replayDrained (int m) (sc_entry (tr ! i)) (map (\<lambda>j. sc_entry (tr ! j)) js)
     then se_finalized (sc_entry (tr ! j)) else j = last (i # js)"
proof -
  let ?es = "map (\<lambda>j. sc_entry (tr ! j)) js"
  define h where "h = map (\<lambda>j. (Ds ! j, sc_entry (tr ! j))) js"
  have h: "map snd h = ?es" "map fst h = map (\<lambda>j. Ds ! j) js" by (simp_all add: h_def)
  note hist = reaches_back_history [OF assms(1,2,5), folded h_def]
  note at = logs_behind_nth [OF assms(1,2)]
  obtain d where d: "prefix (Ds ! i) d" "replayAll (int m) (sc_entry (tr ! i)) ?es = drop m (log_of sid d)"
    "if replayDrained (int m) (sc_entry (tr ! i)) ?es then \<exists>e. (d, e) \<in> set h \<and> se_finalized e
     else d = last (Ds ! i # map fst h)"
    using replayAll_log [OF at(3,2) assms(3,4) hist(1)] unfolding h(1) by blast
  show thesis
  proof (cases "replayDrained (int m) (sc_entry (tr ! i)) ?es")
    case True
    then obtain j where "j \<in> set js" "d = Ds ! j" "se_finalized (sc_entry (tr ! j))" using d(3) by (auto simp: h_def)
    then show thesis using that [of j] True hist(2) d(1,2) by auto
  next
    case False
    then have "d = Ds ! last (i # js)" using d(3) by (cases "js = []") (auto simp: h(2) last_map)
    moreover have "last (i # js) < length tr" using hist(2) assms(2) last_in_set [of "i # js"] by auto
    ultimately show thesis using that [of "last (i # js)"] False d(1,2) by simp
  qed
qed

section \<open>The store\<close>

lemma oldestLoop_min:
  assumes "cur = '''' \<or> (\<exists>p. (cur, p) \<in> set all \<and> since = se_createdAt (heap p))" "set bs \<subseteq> set all"
    and "\<forall>x \<in> set all. fst x \<noteq> ''''" "cur \<noteq> '''' \<or> bs \<noteq> []"
  shows "\<exists>p. (oldestLoop heap bs cur since, p) \<in> set all \<and> (\<forall>x \<in> set bs. se_createdAt (heap p) \<le> se_createdAt (heap (snd x))) \<and>
    (cur \<noteq> '''' \<longrightarrow> se_createdAt (heap p) \<le> since)"
  using assms
proof (induction heap bs cur since rule: oldestLoop.induct)
  case (2 heap bSid p bs cur since)
  have b: "(bSid, p) \<in> set all" "bSid \<noteq> ''''" using "2.prems"(2,3) by auto
  show ?case
  proof (cases "cur = '''' \<or> se_createdAt (heap p) < since")
    case True
    have "\<exists>q. (oldestLoop heap bs bSid (se_createdAt (heap p)), q) \<in> set all \<and>
        (\<forall>x \<in> set bs. se_createdAt (heap q) \<le> se_createdAt (heap (snd x))) \<and>
        (bSid \<noteq> '''' \<longrightarrow> se_createdAt (heap q) \<le> se_createdAt (heap p))"
      using "2.IH"(1) [OF True] b "2.prems"(2,3) by auto
    then show ?thesis using True b(2) by auto
  next
    case False
    then have "\<exists>q. (oldestLoop heap bs cur since, q) \<in> set all \<and>
        (\<forall>x \<in> set bs. se_createdAt (heap q) \<le> se_createdAt (heap (snd x))) \<and>
        (cur \<noteq> '''' \<longrightarrow> se_createdAt (heap q) \<le> since)"
      using "2.IH"(2) "2.prems" by auto
    then show ?thesis using False by auto
  qed
qed auto

text \<open>Bounded, distinct and never empty keys.\<close>

definition sb_inv :: "StreamBufferStore \<Rightarrow> bool" where
  "sb_inv s \<longleftrightarrow> distinct (map fst (sb_buffers s)) \<and> (\<forall>x \<in> set (sb_buffers s). fst x \<noteq> '''' \<and> snd x < sb_next s) \<and>
     (sb_maxEntries s > 0 \<longrightarrow> int (length (sb_buffers s)) \<le> sb_maxEntries s)"

lemma update_length:
  "length (AList.update k v xs) = (if k \<in> fst ` set xs then length xs else Suc (length xs))"
  by (induction xs) auto

lemma delete_length: "k \<in> fst ` set xs \<Longrightarrow> length (AList.delete k xs) < length xs"
proof (induction xs)
  case (Cons x xs)
  have "length (AList.delete k xs) \<le> length xs" by (simp add: AList.delete_eq)
  then show ?case using Cons by auto
qed simp

lemma sb_Open_inv:
  assumes "sb_inv s"
  shows "sb_inv (fst (sb_Open now sid owner s))"
proof (cases "sid = ''''")
  case False
  define full where "full \<longleftrightarrow> sb_maxEntries s > 0 \<and> int (length (sb_buffers s)) \<ge> sb_maxEntries s \<and>
      map_of (sb_buffers s) sid = None"
  define bufs where "bufs = (if full then (let oldest = oldestLoop (sb_heap s) (sb_buffers s) '''' zero_time
      in if oldest \<noteq> '''' then AList.delete oldest (sb_buffers s) else sb_buffers s) else sb_buffers s)"
  have op: "fst (sb_Open now sid owner s) = s\<lparr>sb_buffers := AList.update sid (sb_next s) bufs,
      sb_heap := (sb_heap s)(sb_next s := newEntry now sid owner s), sb_next := Suc (sb_next s)\<rparr>"
    using False by (simp add: sb_Open_def bufs_def full_def Let_def)
  have sub: "set bufs \<subseteq> set (sb_buffers s)" "distinct (map fst bufs)"
    using assms by (auto simp: bufs_def Let_def sb_inv_def AList.delete_eq AList.distinct_delete intro: distinct_map_filter)
  have len: "int (length (AList.update sid (sb_next s) bufs)) \<le> sb_maxEntries s" if m: "sb_maxEntries s > 0"
  proof (cases full)
    case True
    then have ne: "sb_buffers s \<noteq> []" using m by (auto simp: full_def)
    obtain p where "(oldestLoop (sb_heap s) (sb_buffers s) '''' zero_time, p) \<in> set (sb_buffers s)"
      using oldestLoop_min [of "''''" "sb_buffers s" zero_time "sb_heap s" "sb_buffers s"] assms ne
      by (auto simp: sb_inv_def)
    then have "length bufs < length (sb_buffers s)" using True assms delete_length [of _ "sb_buffers s"]
      by (force simp: bufs_def Let_def sb_inv_def)
    then show ?thesis using assms m by (auto simp: update_length sb_inv_def)
  next
    case nfull: False
    then have "bufs = sb_buffers s" by (simp add: bufs_def)
    moreover have "sid \<in> fst ` set (sb_buffers s) \<or> int (length (sb_buffers s)) < sb_maxEntries s"
      using nfull m by (auto simp: full_def map_of_eq_None_iff)
    ultimately show ?thesis using assms m by (auto simp: update_length sb_inv_def)
  qed
  have "set (AList.update sid (sb_next s) bufs) \<subseteq> insert (sid, sb_next s) (set bufs)"
    by (induction bufs) auto
  then show ?thesis
    using assms sub len False AList.distinct_update [OF sub(2), of sid "sb_next s"]
    by (fastforce simp: op sb_inv_def less_Suc_eq)
qed (use assms in \<open>simp add: sb_Open_def\<close>)

text \<open>
  A wake-up by the timer alone does not end the wait: while no frame arrives and the stream is not finalized, no number of
  wake-ups makes the call return, whatever the timeout.
\<close>

lemma wait_ignores_timeout:
  assumes "timeout > 0" "\<forall>e' \<in> set (e # wakes). buf_FramesAfter afterSeq e' = [] \<and> \<not> se_finalized e'"
  shows "buf_WaitForNew afterSeq timeout e wakes = None"
proof -
  have "\<forall>e' \<in> set wakes. buf_FramesAfter afterSeq e' = [] \<and> \<not> se_finalized e' \<Longrightarrow> waitWake afterSeq wakes = None"
    by (induction wakes) auto
  then show ?thesis using assms by (simp add: buf_WaitForNew_def)
qed

section \<open>Properties\<close>

text \<open>
  C23. A client that loses its connection loses nothing.  Take the instants of one resumable stream, from the first chunk
  through \<^verbatim>\<open>MarkFinalized\<close> to the usage event and the terminator, with any failing writes and the watchdog.  What the first
  connection writes is a prefix of the stream's log.  A client that holds the first m events of the log, and reconnects with
  the identifier of the last one, is replayed from exactly that position; reading the entry at any increasing instants, at
  each of which the buffer still reaches back to the last event delivered, it then holds exactly a prefix of the log, in order
  and without duplicate: everything appended up to its last read, or, once a round finds the stream finalized and drained and
  the replay ends, at least every chunk of the generation (all of the log when the first connection had been noticed gone).
  The identifier of the stream holds no newline and the positions are machine integers.
\<close>

theorem stream_resume_lossless:
  fixes idle evs now ctxOk usage doneOk start t sid owner s i js m
  defines "c \<equiv> consume idle evs (freshConn start (newEntry t sid owner s))"
  defines "tr \<equiv> streamTrace idle evs now ctxOk usage doneOk (freshConn start (newEntry t sid owner s))"
  defines "entries \<equiv> map (\<lambda>j. sc_entry (tr ! j)) js"
  assumes "i < length tr" "int m \<le> se_nextSeq (sc_entry (tr ! i))" "window_start (sc_entry (tr ! i)) \<le> int m"
    and "reaches_back tr i js" "CHR 0x0A \<notin> set sid" "int m < 2 ^ 63"
  shows "\<exists>ds a n. prefix ds (chunk_data evs) \<and> (\<not> sc_tripped c \<longrightarrow> ds = chunk_data evs) \<and>
    (let all = log_of sid (ds @ terminalEvents ctxOk usage c); held = map sf_frame (take m all) in
     prefix (sc_written (finishStream now ctxOk usage doneOk c)) (map sf_frame all) \<and>
     resumeCursor sid (client_cursor held) = Some a \<and>
     held @ map sf_frame (replayAll a (sc_entry (tr ! i)) entries) = map sf_frame (take n all) \<and>
     (if replayDrained a (sc_entry (tr ! i)) entries then length ds \<le> n
      else int n = se_nextSeq (sc_entry (tr ! last (i # js)))))"
proof -
  obtain Ds ds where l: "logs_behind sid Ds tr" "prefix ds (chunk_data evs)" "\<not> sc_tripped c \<longrightarrow> ds = chunk_data evs"
    "last Ds = ds @ terminalEvents ctxOk usage c"
    "\<And>j. j < length tr \<Longrightarrow> se_finalized (sc_entry (tr ! j)) \<Longrightarrow> prefix ds (Ds ! j)"
    unfolding c_def tr_def by (rule streamTrace_logs) blast
  have m: "m \<le> length (Ds ! i)" using assms(5) logs_behind_nth(4) [OF l(1) assms(4)] by simp
  obtain j where j: "j < length tr" "prefix (Ds ! i) (Ds ! j)"
    "replayAll (int m) (sc_entry (tr ! i)) entries = drop m (log_of sid (Ds ! j))"
    "if replayDrained (int m) (sc_entry (tr ! i)) entries then se_finalized (sc_entry (tr ! j)) else j = last (i # js)"
    unfolding entries_def by (rule replay_reads [OF l(1) assms(4,6) m assms(7)])
  have n: "if replayDrained (int m) (sc_entry (tr ! i)) entries then length ds \<le> length (Ds ! j)
      else int (length (Ds ! j)) = se_nextSeq (sc_entry (tr ! last (i # js)))"
    using j(4) l(5) [OF j(1)] logs_behind_nth(4) [OF l(1) j(1)] by (auto dest: prefix_length_le)
  let ?all = "log_of sid (last Ds)"
  have "prefix (Ds ! j) (last Ds)" using j(1) by (rule logs_behind_nth(6) [OF l(1)])
  then have logd: "log_of sid (Ds ! j) = take (length (Ds ! j)) ?all" and le: "length (Ds ! j) \<le> length (last Ds)"
    by (auto intro: log_of_prefix dest: prefix_length_le)
  have md: "m \<le> length (Ds ! j)" using m prefix_length_le [OF j(2)] by simp
  then have "take m ?all = take m (log_of sid (Ds ! j))" by (simp add: logd)
  then have got: "map sf_frame (take m ?all) @ map sf_frame (drop m (log_of sid (Ds ! j))) =
      map sf_frame (take (length (Ds ! j)) ?all)" by (metis append_take_drop_id logd map_append)
  have cur: "resumeCursor sid (client_cursor (map sf_frame (take m ?all))) = Some (int m)"
    by (rule resumeCursor_held) (use assms(8,9) md le in auto)
  have "tr \<noteq> []" using assms(4) by auto
  from logs_behind_written [OF l(1) this]
  have w: "prefix (sc_written (finishStream now ctxOk usage doneOk c)) (map sf_frame ?all)"
    unfolding c_def tr_def streamTrace_last .
  show ?thesis unfolding Let_def
    by (intro exI [of _ ds] exI [of _ "int m"] exI [of _ "length (Ds ! j)"] conjI)
      (use l(2,3) w cur got n j(3) in \<open>simp_all add: l(4)\<close>)
qed

definition stream_example_store :: StreamBufferStore where
  "stream_example_store = \<lparr>sb_buffers = [], sb_heap = (\<lambda>_. \<lparr>se_sid = [], se_owner = [], se_frames = [], se_bytes = 0, se_maxEvents = 0,
     se_maxBytes = 0, se_nextSeq = 0, se_finalized = False, se_finalizedAt = 0, se_createdAt = 0\<rparr>), sb_next = 0, sb_maxEvents = 2, sb_maxBytes = 1000,
     sb_ttl = minute, sb_maxEntries = 1\<rparr>"

definition stream_example :: stream_conn where
  "stream_example = consume 100 [PumpChunk 1 ''a'' True, PumpChunk 2 ''b'' False, PumpTick 3 True, PumpChunk 4 ''c'' True]
     (freshConn 0 (newEntry 0 ''s:1'' ''me'' stream_example_store))"

abbreviation (input) stream_example_trace :: "stream_conn list" where
  "stream_example_trace \<equiv> streamTrace 100 [PumpChunk 1 ''a'' True, PumpChunk 2 ''b'' False, PumpTick 3 True, PumpChunk 4 ''c'' True]
     9 True None True (freshConn 0 (newEntry 0 ''s:1'' ''me'' stream_example_store))"

theorem stream_resume_lossless_witness:
  "sc_written stream_example = [frame_bytes ''s:1'' 1 ''a''] \<and> \<not> sc_tripped stream_example \<and> length stream_example_trace = 6 \<and>
   replayDrained 1 (sc_entry (stream_example_trace ! 2)) (map (\<lambda>j. sc_entry (stream_example_trace ! j)) [4, 5]) \<and>
   (\<exists>ds a n. prefix ds [''a'', ''b'', ''c''] \<and> (\<not> sc_tripped stream_example \<longrightarrow> ds = [''a'', ''b'', ''c'']) \<and>
    (let all = log_of ''s:1'' (ds @ terminalEvents True None stream_example); held = map sf_frame (take 1 all) in
     prefix (sc_written (finishStream 9 True None True stream_example)) (map sf_frame all) \<and>
     resumeCursor ''s:1'' (client_cursor held) = Some a \<and>
     held @ map sf_frame (replayAll a (sc_entry (stream_example_trace ! 2))
       (map (\<lambda>j. sc_entry (stream_example_trace ! j)) [4, 5])) = map sf_frame (take n all) \<and>
     (if replayDrained a (sc_entry (stream_example_trace ! 2)) (map (\<lambda>j. sc_entry (stream_example_trace ! j)) [4, 5])
      then length ds \<le> n
      else int n = se_nextSeq (sc_entry (stream_example_trace ! last [2, 4, 5])))))"
proof -
  have c: "sc_written stream_example = [frame_bytes ''s:1'' 1 ''a'']" "\<not> sc_tripped stream_example"
    "length stream_example_trace = 6"
    "replayDrained 1 (sc_entry (stream_example_trace ! 2)) (map (\<lambda>j. sc_entry (stream_example_trace ! j)) [4, 5])"
    by code_simp+
  have h: "2 < length stream_example_trace" "int 1 \<le> se_nextSeq (sc_entry (stream_example_trace ! 2))"
    "window_start (sc_entry (stream_example_trace ! 2)) \<le> int 1" "reaches_back stream_example_trace 2 [4, 5]"
    "CHR 0x0A \<notin> set ''s:1''" "int 1 < 2 ^ 63" by code_simp+
  have d: "chunk_data [PumpChunk 1 ''a'' True, PumpChunk 2 ''b'' False, PumpTick 3 True, PumpChunk 4 ''c'' True] =
      [''a'', ''b'', ''c'']" by simp
  show ?thesis using c stream_resume_lossless [OF h, folded stream_example_def, unfolded d] by blast
qed

text \<open>
  Only the owner replays a stream: the endpoint starts a replay only for a stored stream whose recorded owner is the
  requesting principal and not empty, from a cursor that is zero or cites this very stream; the store keeps at most the
  configured number of streams under distinct non-empty identifiers, whatever streams are opened.
\<close>

theorem replay_only_by_owner:
  assumes "handleStreamResume path requester lastEventID queryCursor (Some s) = ResumeReplay sid p afterSeq" "sb_inv s"
  shows "sb_Get sid s = Some p \<and> se_owner (sb_heap s p) = requester \<and> requester \<noteq> '''' \<and> 0 \<le> afterSeq \<and>
    (0 < afterSeq \<longrightarrow> parseStreamCursor (if lastEventID = '''' then queryCursor else lastEventID) = Some (afterSeq, sid)) \<and>
    sb_inv (fst (sb_Open now sid' owner s))"
proof -
  have cur: "resumeCursor sid c = Some a \<Longrightarrow> 0 \<le> a \<and> (0 < a \<longrightarrow> parseStreamCursor c = Some (a, sid))" for c a sid
    by (auto simp: resumeCursor_def parseStreamCursor_def split: if_splits option.splits)
  have "sb_Get sid s = Some p \<and> se_owner (sb_heap s p) = requester \<and> requester \<noteq> '''' \<and>
      resumeCursor sid (if lastEventID = '''' then queryCursor else lastEventID) = Some afterSeq"
    using assms(1) unfolding handleStreamResume_def
    by (auto simp: Let_def split: list.splits if_splits option.splits)
  then show ?thesis using cur sb_Open_inv [OF assms(2)] by blast
qed

definition stream_open_store :: StreamBufferStore where
  "stream_open_store = fst (sb_Open 0 ''req-1'' ''me'' stream_example_store)"

theorem replay_only_by_owner_witness:
  "handleStreamResume ''/v1/stream/req-1/events'' ''me'' ''req-1:7'' '''' (Some stream_open_store) = ResumeReplay ''req-1'' 0 7 \<and>
   sb_Get ''req-1'' stream_open_store = Some 0 \<and> se_owner (sb_heap stream_open_store 0) = ''me'' \<and>
   sb_inv (fst (sb_Open 5 ''req-2'' ''you'' stream_open_store))"
proof -
  have h: "handleStreamResume ''/v1/stream/req-1/events'' ''me'' ''req-1:7'' '''' (Some stream_open_store) =
      ResumeReplay ''req-1'' 0 7" by code_simp
  moreover have "sb_inv stream_open_store"
    unfolding stream_open_store_def by (rule sb_Open_inv) (simp add: sb_inv_def stream_example_store_def)
  ultimately show ?thesis using replay_only_by_owner [OF h] by blast
qed

end
