(* ===== verification/Browser_Framing.thy ===== *)
theory Browser_Framing
  imports Gateway_Prelude "HOL-Library.Word"
begin

text \<open>
  Length-prefixed frames on the browser-node socket (\<^verbatim>\<open>browser/framing.go\<close>): a 32-bit big-endian length, then the body.

  Bytes are 8-bit words and the length is a 32-bit word, so the conversion of a Go length to \<^verbatim>\<open>uint32\<close> wraps as it does in the
  code.  A reader is what the peer has sent so far together with what happens after it: the connection is closed, or the
  peer stays silent.  A read that would block for ever returns \<open>None\<close>.
\<close>

unbundle bit_operations_syntax

type_synonym octet = "8 word"

definition defaultFrameMaxBytes :: int where
  "defaultFrameMaxBytes = 8 * 1024 * 1024"

definition defaultFrameTimeout :: duration where
  "defaultFrameTimeout = 30 * second"

datatype frame_error =
  MarshalError
| PrefixReadError
| ErrFrameEmpty
| ErrFrameOversize "32 word"
| ErrFrameTimeout nat
| BodyReadError
| PrefixWriteError
| BodyWriteError

section \<open>Big-endian words\<close>

definition PutUint32 :: "32 word \<Rightarrow> octet list" where
  "PutUint32 v = [ucast (drop_bit 24 v), ucast (drop_bit 16 v), ucast (drop_bit 8 v), ucast v]"

fun Uint32 :: "octet list \<Rightarrow> 32 word" where
  "Uint32 [b0, b1, b2, b3] =
     ucast b3 OR push_bit 8 (ucast b2) OR push_bit 16 (ucast b1) OR push_bit 24 (ucast b0)"
| "Uint32 _ = 0"

lemma PutUint32_length [simp]: "length (PutUint32 v) = 4"
  by (simp add: PutUint32_def)

lemma Uint32_PutUint32 [simp]: "Uint32 (PutUint32 v) = v"
proof (rule bit_word_eqI)
  fix n assume n: "n < LENGTH(32)"
  consider "n < 8" | "8 \<le> n" "n < 16" | "16 \<le> n" "n < 24" | "24 \<le> n" by linarith
  then show "bit (Uint32 (PutUint32 v)) n = bit v n"
    by cases (use n in \<open>auto simp: PutUint32_def bit_simps\<close>)
qed

section \<open>Writing\<close>

text \<open>
  The body is what \<^verbatim>\<open>json.Marshal\<close> returned.  A writer holds the bytes that went out and how many more the
  connection takes before it fails.
\<close>

record writer =
  wr_bytes :: "octet list"
  wr_room :: nat

definition writer_Write :: "octet list \<Rightarrow> writer \<Rightarrow> writer \<times> bool" where
  "writer_Write bs w =
     (w\<lparr>wr_bytes := wr_bytes w @ take (wr_room w) bs, wr_room := wr_room w - length bs\<rparr>, length bs \<le> wr_room w)"

definition WriteFrame :: "octet list option \<Rightarrow> writer \<Rightarrow> writer \<times> frame_error option" where
  "WriteFrame marshalled w =
     (case marshalled of None \<Rightarrow> (w, Some MarshalError)
      | Some body \<Rightarrow>
          (case writer_Write (PutUint32 (word_of_nat (length body))) w of
             (w1, False) \<Rightarrow> (w1, Some PrefixWriteError)
           | (w1, True) \<Rightarrow>
               (case writer_Write body w1 of
                  (w2, False) \<Rightarrow> (w2, Some BodyWriteError)
                | (w2, True) \<Rightarrow> (w2, None))))"

fun writeFrames :: "octet list list \<Rightarrow> writer \<Rightarrow> writer \<times> frame_error option" where
  "writeFrames [] w = (w, None)"
| "writeFrames (body # bodies) w =
     (case WriteFrame (Some body) w of
        (w1, None) \<Rightarrow> writeFrames bodies w1
      | (w1, Some e) \<Rightarrow> (w1, Some e))"

section \<open>Reading\<close>

text \<open>
  The bytes the peer sends, whether the reader is a \<^verbatim>\<open>net.Conn\<close> that accepts a read deadline, and whether the peer
  stays silent after its bytes instead of closing.
\<close>

record reader =
  rd_bytes :: "octet list"
  rd_isConn :: bool
  rd_silent :: bool

text \<open>
  \<^verbatim>\<open>io.ReadFull\<close> of \<open>n\<close> bytes: the bytes, or how the read ends short of them.
\<close>

datatype read_end = ReadClosed | ReadSilent

definition ReadFull :: "nat \<Rightarrow> reader \<Rightarrow> reader \<times> (read_end + octet list)" where
  "ReadFull n r =
     (if n \<le> length (rd_bytes r)
      then (r\<lparr>rd_bytes := drop n (rd_bytes r)\<rparr>, Inr (take n (rd_bytes r)))
      else (r\<lparr>rd_bytes := []\<rparr>, Inl (if rd_silent r then ReadSilent else ReadClosed)))"

text \<open>
  The body read is bounded by a deadline on a connection: silence becomes the timeout error there, and blocks elsewhere.
\<close>

definition readFullBounded :: "nat \<Rightarrow> reader \<Rightarrow> (reader \<times> (frame_error + octet list)) option" where
  "readFullBounded n r =
     (case ReadFull n r of
        (r', Inr body) \<Rightarrow> Some (r', Inr body)
      | (r', Inl ReadClosed) \<Rightarrow> Some (r', Inl BodyReadError)
      | (r', Inl ReadSilent) \<Rightarrow> if rd_isConn r then Some (r', Inl (ErrFrameTimeout n)) else None)"

definition ReadFrame :: "int \<Rightarrow> reader \<Rightarrow> (reader \<times> (frame_error + octet list)) option" where
  "ReadFrame maxBytes r =
     (let cap = (if maxBytes \<le> 0 then defaultFrameMaxBytes else maxBytes) in
      case ReadFull 4 r of
        (r1, Inl ReadSilent) \<Rightarrow> None
      | (r1, Inl ReadClosed) \<Rightarrow> Some (r1, Inl PrefixReadError)
      | (r1, Inr prefix) \<Rightarrow>
          (let n = Uint32 prefix in
           if n = 0 then Some (r1, Inl ErrFrameEmpty)
           else if uint n > cap then Some (r1, Inl (ErrFrameOversize n))
           else readFullBounded (unat n) r1))"

text \<open>Reading frames one after the other until the first one that is not a body.\<close>

fun readFrames :: "nat \<Rightarrow> int \<Rightarrow> reader \<Rightarrow> octet list list" where
  "readFrames 0 maxBytes r = []"
| "readFrames (Suc k) maxBytes r =
     (case ReadFrame maxBytes r of Some (r', Inr body) \<Rightarrow> body # readFrames k maxBytes r' | _ \<Rightarrow> [])"

section \<open>Properties\<close>

definition frame_ok :: "int \<Rightarrow> octet list \<Rightarrow> bool" where
  "frame_ok maxBytes body \<longleftrightarrow> body \<noteq> [] \<and> length body < 2 ^ 32 \<and>
     int (length body) \<le> (if maxBytes \<le> 0 then defaultFrameMaxBytes else maxBytes)"

definition encode_frame :: "octet list \<Rightarrow> octet list" where
  "encode_frame body = PutUint32 (word_of_nat (length body)) @ body"

lemma WriteFrame_room:
  "4 + length body \<le> wr_room w \<Longrightarrow>
   WriteFrame (Some body) w = (w\<lparr>wr_bytes := wr_bytes w @ encode_frame body, wr_room := wr_room w - 4 - length body\<rparr>, None)"
  by (cases w) (auto simp: WriteFrame_def writer_Write_def encode_frame_def split: bool.split)

lemma WriteFrame_no_room:
  "wr_room w < 4 + length body \<Longrightarrow> snd (WriteFrame (Some body) w) \<noteq> None"
  by (auto simp: WriteFrame_def writer_Write_def split: bool.split)

lemma WriteFrame_ok:
  assumes "WriteFrame (Some body) w = (w', None)"
  shows "wr_bytes w' = wr_bytes w @ encode_frame body"
proof (cases "4 + length body \<le> wr_room w")
  case True then show ?thesis using assms by (simp add: WriteFrame_room) auto
next
  case False then show ?thesis using assms WriteFrame_no_room [of w body] by simp
qed

lemma writeFrames_ok:
  "writeFrames bodies w = (w', None) \<Longrightarrow> wr_bytes w' = wr_bytes w @ concat (map encode_frame bodies)"
proof (induction bodies arbitrary: w)
  case (Cons body bodies)
  then obtain w1 where "WriteFrame (Some body) w = (w1, None)" "writeFrames bodies w1 = (w', None)"
    by (auto split: prod.splits option.splits)
  then show ?case using Cons.IH WriteFrame_ok by fastforce
qed simp

lemma ReadFrame_encoded:
  assumes "frame_ok maxBytes body" "rd_bytes r = encode_frame body @ rest"
  shows "ReadFrame maxBytes r = Some (r\<lparr>rd_bytes := rest\<rparr>, Inr body)"
proof -
  let ?n = "word_of_nat (length body) :: 32 word"
  have n: "unat ?n = length body" "uint ?n = int (length body)"
    using assms(1) by (simp_all add: frame_ok_def unsigned_of_nat take_bit_nat_eq_self)
  then have "?n \<noteq> 0" using assms(1) by (auto simp: frame_ok_def)
  moreover have "ReadFull 4 r = (r\<lparr>rd_bytes := body @ rest\<rparr>, Inr (PutUint32 ?n))"
    using assms(2) by (simp add: ReadFull_def encode_frame_def)
  moreover have "readFullBounded (length body) (r\<lparr>rd_bytes := body @ rest\<rparr>) = Some (r\<lparr>rd_bytes := rest\<rparr>, Inr body)"
    by (simp add: readFullBounded_def ReadFull_def)
  ultimately show ?thesis using assms(1) n by (simp add: ReadFrame_def Let_def frame_ok_def)
qed

lemma ReadFrame_refused:
  assumes "\<not> frame_ok maxBytes body" "length body < 2 ^ 32" "rd_bytes r = encode_frame body @ rest"
  shows "\<exists>r' e. ReadFrame maxBytes r = Some (r', Inl e) \<and> (if body = [] then e = ErrFrameEmpty else e = ErrFrameOversize (word_of_nat (length body)))"
proof -
  let ?n = "word_of_nat (length body) :: 32 word"
  have n: "unat ?n = length body" "uint ?n = int (length body)"
    using assms(2) by (simp_all add: unsigned_of_nat take_bit_nat_eq_self)
  moreover have "ReadFull 4 r = (r\<lparr>rd_bytes := body @ rest\<rparr>, Inr (PutUint32 ?n))"
    using assms(3) by (simp add: ReadFull_def encode_frame_def)
  moreover have "?n = 0 \<longleftrightarrow> body = []" using n(1) by (metis length_0_conv unat_eq_0)
  ultimately show ?thesis using assms(1,2) by (auto simp: ReadFrame_def Let_def frame_ok_def)
qed

lemma readFrames_encoded:
  assumes "\<forall>body \<in> set bodies. frame_ok maxBytes body" "rd_bytes r = concat (map encode_frame bodies) @ rest"
  shows "readFrames (length bodies + k) maxBytes r = bodies @ readFrames k maxBytes (r\<lparr>rd_bytes := rest\<rparr>)"
  using assms
proof (induction bodies arbitrary: r)
  case (Cons body bodies)
  then have "ReadFrame maxBytes r = Some (r\<lparr>rd_bytes := concat (map encode_frame bodies) @ rest\<rparr>, Inr body)"
    by (intro ReadFrame_encoded) auto
  then show ?case using Cons by simp
next
  case Nil
  then have "r\<lparr>rd_bytes := rest\<rparr> = r" by simp
  then show ?case by simp
qed

text \<open>
  C34. Frames survive the socket, and the reader's cap is the exact limit.  Of frames written one after the other without a write error, the bodies up to the first
  one that is empty or above the cap are read back one after the other, byte for byte, whatever bytes they contain; the first such body was written
  without an error as well and is refused by the reader, which returns nothing after it.  Bodies are shorter than 4 GiB, the range of the prefix.
\<close>

theorem frames_roundtrip:
  assumes "writeFrames (bodies @ extra) w = (w', None)" "wr_bytes w = []" "rd_bytes r = wr_bytes w'"
    and "\<forall>body \<in> set bodies. frame_ok maxBytes body" "\<forall>body \<in> set extra. length body < 2 ^ 32"
  shows "readFrames (length bodies) maxBytes r = bodies \<and>
    (extra \<noteq> [] \<and> \<not> frame_ok maxBytes (hd extra) \<longrightarrow> readFrames (length (bodies @ extra)) maxBytes r = bodies)"
proof -
  have b: "rd_bytes r = concat (map encode_frame bodies) @ concat (map encode_frame extra)"
    using writeFrames_ok [OF assms(1)] assms(2,3) by simp
  note read = readFrames_encoded [OF assms(4) b]
  have "readFrames (length extra) maxBytes (r\<lparr>rd_bytes := concat (map encode_frame extra)\<rparr>) = []" if ne: "extra \<noteq> []" and big: "\<not> frame_ok maxBytes (hd extra)"
  proof -
    obtain x xs where x: "extra = x # xs" using ne by (cases extra) auto
    have "\<exists>r' e. ReadFrame maxBytes (r\<lparr>rd_bytes := concat (map encode_frame extra)\<rparr>) = Some (r', Inl e)"
      using ReadFrame_refused [of maxBytes x "r\<lparr>rd_bytes := concat (map encode_frame extra)\<rparr>" "concat (map encode_frame xs)"] big assms(5) x by auto
    then show ?thesis by (auto simp: x)
  qed
  then show ?thesis using read [of 0] read [of "length extra"] by simp
qed

definition sample_bodies :: "octet list list" where
  "sample_bodies = [[1, 2, 255], [7]]"

definition sample_stream :: reader where
  "sample_stream = \<lparr>rd_bytes = wr_bytes (fst (writeFrames (sample_bodies @ [[1, 2, 3, 4]]) \<lparr>wr_bytes = [], wr_room = 100\<rparr>)), rd_isConn = True, rd_silent = True\<rparr>"

theorem frames_roundtrip_witness:
  "readFrames 2 3 sample_stream = sample_bodies \<and> readFrames 3 3 sample_stream = sample_bodies"
proof -
  have w: "writeFrames (sample_bodies @ [[1, 2, 3, 4]]) \<lparr>wr_bytes = [], wr_room = 100\<rparr> =
      (fst (writeFrames (sample_bodies @ [[1, 2, 3, 4]]) \<lparr>wr_bytes = [], wr_room = 100\<rparr>), None)"
    by (simp add: sample_bodies_def WriteFrame_room)
  have l: "length sample_bodies = 2" "length (sample_bodies @ [[1, 2, 3, 4]]) = 3" by (simp_all add: sample_bodies_def)
  have "rd_bytes sample_stream = wr_bytes (fst (writeFrames (sample_bodies @ [[1, 2, 3, 4]]) \<lparr>wr_bytes = [], wr_room = 100\<rparr>))"
    by (simp add: sample_stream_def)
  moreover have "\<forall>body \<in> set sample_bodies. frame_ok 3 body" "\<not> frame_ok 3 [1, 2, 3, 4]" by (simp_all add: sample_bodies_def frame_ok_def)
  ultimately show ?thesis
    using frames_roundtrip [OF w, of sample_stream 3] unfolding l by (simp del: readFrames.simps)
qed

text \<open>
  A hostile peer cannot make the reader hold more than the cap: whatever bytes arrive, a body that is returned is exactly
  as long as its prefix declares, is not empty and does not exceed the cap; a larger declared length is refused before any
  of the body is read, a zero length is refused, and on a connection whose four prefix bytes have arrived the read always
  ends, by the timeout at the latest.
\<close>

theorem read_frame_bounded:
  fixes r maxBytes
  assumes "4 \<le> length (rd_bytes r)" "rd_isConn r"
  defines "n \<equiv> Uint32 (take 4 (rd_bytes r))" and "cap \<equiv> if maxBytes \<le> 0 then defaultFrameMaxBytes else maxBytes"
  shows "\<exists>r' res. ReadFrame maxBytes r = Some (r', res) \<and>
    (case res of
       Inr body \<Rightarrow> body = take (unat n) (drop 4 (rd_bytes r)) \<and> length body = unat n \<and> body \<noteq> [] \<and> int (length body) \<le> cap
     | Inl e \<Rightarrow> (n = 0 \<and> e = ErrFrameEmpty \<and> rd_bytes r' = drop 4 (rd_bytes r)) \<or>
         (n \<noteq> 0 \<and> cap < uint n \<and> e = ErrFrameOversize n \<and> rd_bytes r' = drop 4 (rd_bytes r)) \<or>
         (n \<noteq> 0 \<and> uint n \<le> cap \<and> length (rd_bytes r) < 4 + unat n \<and>
          e = (if rd_silent r then ErrFrameTimeout (unat n) else BodyReadError)))"
proof -
  have pre: "ReadFull 4 r = (r\<lparr>rd_bytes := drop 4 (rd_bytes r)\<rparr>, Inr (take 4 (rd_bytes r)))"
    using assms(1) by (simp add: ReadFull_def)
  have size: "int (unat n) = uint n" by simp
  have ne: "n \<noteq> 0 \<Longrightarrow> 0 < unat n" by (simp add: unat_gt_0)
  consider "n = 0" | "n \<noteq> 0" "cap < uint n" | "n \<noteq> 0" "uint n \<le> cap" "unat n \<le> length (rd_bytes r) - 4"
    | "n \<noteq> 0" "uint n \<le> cap" "length (rd_bytes r) - 4 < unat n" by linarith
  then show ?thesis
  proof cases
    case 3
    have "readFullBounded (unat n) (r\<lparr>rd_bytes := drop 4 (rd_bytes r)\<rparr>) =
        Some (r\<lparr>rd_bytes := drop (unat n) (drop 4 (rd_bytes r))\<rparr>, Inr (take (unat n) (drop 4 (rd_bytes r))))"
      using 3 by (simp add: readFullBounded_def ReadFull_def)
    then have "ReadFrame maxBytes r =
        Some (r\<lparr>rd_bytes := drop (unat n) (drop 4 (rd_bytes r))\<rparr>, Inr (take (unat n) (drop 4 (rd_bytes r))))"
      using 3 by (simp add: ReadFrame_def Let_def pre n_def [symmetric] cap_def [symmetric])
    moreover have "take (unat n) (drop 4 (rd_bytes r)) \<noteq> []" "length (take (unat n) (drop 4 (rd_bytes r))) = unat n"
      using 3(3) ne [OF 3(1)] by auto
    ultimately show ?thesis using 3(2) size by (intro exI conjI) (assumption, simp)
  next
    case 4
    have "readFullBounded (unat n) (r\<lparr>rd_bytes := drop 4 (rd_bytes r)\<rparr>) =
        Some (r\<lparr>rd_bytes := []\<rparr>, Inl (if rd_silent r then ErrFrameTimeout (unat n) else BodyReadError))"
      using 4 assms(2) by (simp add: readFullBounded_def ReadFull_def)
    then have "ReadFrame maxBytes r =
        Some (r\<lparr>rd_bytes := []\<rparr>, Inl (if rd_silent r then ErrFrameTimeout (unat n) else BodyReadError))"
      using 4 by (simp add: ReadFrame_def Let_def pre n_def [symmetric] cap_def [symmetric])
    moreover have "length (rd_bytes r) < 4 + unat n" using 4(3) assms(1) by linarith
    ultimately show ?thesis using 4 by simp
  qed (simp_all add: ReadFrame_def Let_def pre n_def [symmetric] cap_def [symmetric])
qed

definition hostile_reader :: reader where
  "hostile_reader = \<lparr>rd_bytes = [0, 0, 1, 0, 9], rd_isConn = True, rd_silent = True\<rparr>"

theorem read_frame_bounded_witness:
  "Uint32 [0, 0, 1, 0] = 256 \<and>
   (\<exists>r'. ReadFrame 8 hostile_reader = Some (r', Inl (ErrFrameOversize 256)) \<and> rd_bytes r' = [9]) \<and>
   (\<exists>r'. ReadFrame 300 hostile_reader = Some (r', Inl (ErrFrameTimeout 256)))"
proof -
  have r: "4 \<le> length (rd_bytes hostile_reader)" "rd_isConn hostile_reader" "take 4 (rd_bytes hostile_reader) = [0, 0, 1, 0]"
    "drop 4 (rd_bytes hostile_reader) = [9]" "rd_silent hostile_reader" "length (rd_bytes hostile_reader) = 5"
    by (simp_all add: hostile_reader_def)
  have u: "Uint32 [0, 0, 1, 0] = 256" by (simp add: push_bit_eq_mult)
  obtain r1 res1 where "ReadFrame 8 hostile_reader = Some (r1, res1)" "res1 = Inl (ErrFrameOversize 256)" "rd_bytes r1 = [9]"
    using read_frame_bounded [OF r(1,2), of 8] unfolding r u by (elim exE, case_tac res) auto
  moreover obtain r2 res2 where "ReadFrame 300 hostile_reader = Some (r2, res2)" "res2 = Inl (ErrFrameTimeout 256)"
    using read_frame_bounded [OF r(1,2), of 300] unfolding r u by (elim exE, case_tac res) (auto simp: r)
  ultimately show ?thesis using u by blast
qed

end
