(* ===== verification/Cluster_Selector.thy ===== *)
theory Cluster_Selector
  imports Gateway_Prelude
begin

text \<open>
  The interface between the router and the cluster membership service: \<^verbatim>\<open>router.ClusterSelector\<close>
  (\<^verbatim>\<open>internal/router/engine.go\<close>) as a record of operations on a provider state \<open>'c\<close>.  A selection
  returns the node identifier, or \<open>None\<close> for a non-nil error.  The locales \<open>cluster_selection\<close> and
  \<open>cluster_selector\<close> state what the routing engine relies on; \<open>Cluster_Discovery\<close> discharges it.
\<close>

text \<open>The part of \<^verbatim>\<open>config.ClusterConfig\<close> that discovery and routing read.\<close>

record ClusterNodeConfig =
  nc_ID :: string
  nc_Address :: string
  nc_GPU :: string
  nc_MemoryGB :: int
  nc_Platform :: string

record ClusterConfig =
  cc_Enabled :: bool
  cc_Nodes :: "ClusterNodeConfig list"
  cc_IgnoreMasterStrategy :: bool
  cc_MaxStaleAge :: duration
  cc_LoadBalancer :: string
  cc_FailureThreshold :: int
  cc_HAEnabled :: bool
  cc_MacPlatformTag :: string
  cc_HeavyModelPlatform :: string
  cc_DiffusionPlatform :: string

text \<open>The operations of the interface.\<close>

record 'c ClusterSelector =
  sel_HealthyNodes :: "'c \<Rightarrow> int"
  sel_SelectNode :: "string \<Rightarrow> 'c \<Rightarrow> 'c \<times> string option"
  sel_HealthyNodesByPlatform :: "string \<Rightarrow> 'c \<Rightarrow> int"
  sel_SelectNodeByPlatform :: "string \<Rightarrow> string \<Rightarrow> 'c \<Rightarrow> 'c \<times> string option"
  sel_HealthyNodesByModel :: "string \<Rightarrow> 'c \<Rightarrow> int"
  sel_SelectNodeByModel :: "string \<Rightarrow> string \<Rightarrow> int \<Rightarrow> 'c \<Rightarrow> 'c \<times> string option"
  sel_MarkNodeBreakerOpen :: "string \<Rightarrow> 'c \<Rightarrow> 'c"
  sel_MarkNodeBreakerClosed :: "string \<Rightarrow> 'c \<Rightarrow> 'c"
  sel_NodePlatform :: "string \<Rightarrow> 'c \<Rightarrow> string"

text \<open>
  The contract.  \<open>routable c n\<close>: node \<open>n\<close> may receive traffic; \<open>serves c m n\<close>: its registry lists
  model \<open>m\<close>.  Selections return routable nodes and change neither predicate nor the platform tags.
\<close>

locale cluster_selection =
  fixes cs :: "'c ClusterSelector"
    and wf :: "'c \<Rightarrow> bool"
    and routable :: "'c \<Rightarrow> string \<Rightarrow> bool"
    and serves :: "'c \<Rightarrow> string \<Rightarrow> string \<Rightarrow> bool"
  assumes select_model:
      "wf c \<Longrightarrow> sel_SelectNodeByModel cs st m cap c = (c', r) \<Longrightarrow>
        wf c' \<and> routable c' = routable c \<and> serves c' = serves c \<and>
        (\<forall>k. sel_NodePlatform cs k c' = sel_NodePlatform cs k c) \<and>
        (\<forall>n. r = Some n \<longrightarrow> routable c n \<and> serves c m n)"
    and select_platform:
      "wf c \<Longrightarrow> sel_SelectNodeByPlatform cs st p c = (c', r) \<Longrightarrow>
        wf c' \<and> routable c' = routable c \<and> serves c' = serves c \<and>
        (\<forall>k. sel_NodePlatform cs k c' = sel_NodePlatform cs k c) \<and>
        (\<forall>n. r = Some n \<longrightarrow> routable c n \<and> (p \<noteq> '''' \<longrightarrow> sel_NodePlatform cs n c = p))"

text \<open>
  The breaker notifications switch the routability of one node and leave every other node alone.
\<close>

locale cluster_selector = cluster_selection +
  assumes mark_open:
      "wf c \<Longrightarrow> n \<noteq> '''' \<Longrightarrow> wf (sel_MarkNodeBreakerOpen cs n c) \<and>
        (\<forall>k. routable (sel_MarkNodeBreakerOpen cs n c) k \<longleftrightarrow> k \<noteq> n \<and> routable c k)"
    and mark_closed:
      "wf c \<Longrightarrow> wf (sel_MarkNodeBreakerClosed cs n c) \<and>
        (\<forall>k. k \<noteq> n \<longrightarrow> routable (sel_MarkNodeBreakerClosed cs n c) k = routable c k)"
begin

lemma open_node_not_selected:
  assumes "wf c" "n \<noteq> ''''"
  shows "snd (sel_SelectNodeByModel cs st m cap (sel_MarkNodeBreakerOpen cs n c)) \<noteq> Some n"
    and "snd (sel_SelectNodeByPlatform cs st p (sel_MarkNodeBreakerOpen cs n c)) \<noteq> Some n"
  using mark_open [OF assms] select_model select_platform by (metis prod.collapse)+

end

end
