(* ===== verification/Cluster_Discovery.thy ===== *)
theory Cluster_Discovery
  imports Cluster_Selector "HOL-Library.Word" "HOL-Library.List_Lexorder" "HOL-Library.Char_ord"
    "HOL-Library.AList" "HOL-Library.Multiset"
begin

text \<open>
  Cluster membership, health and node selection (\<^verbatim>\<open>internal/cluster/discovery.go\<close>).

  The node map \<^verbatim>\<open>d.nodes\<close> is an association list with distinct keys.  Go iterates a map in an
  unspecified order, so every operation that picks a node from the map takes the iteration order as a
  parameter \<open>it\<close>; \<open>iterate it\<close> applies it when it permutes the entries, so every value of \<open>it\<close>
  stands for some legal order.  HTTP
  answers of the nodes and of the master are parameters: the outcome of a probe, the polled metrics
  and model list, the master's node list and routing strategy.  \<^verbatim>\<open>rrIndex\<close> is a 64-bit word.
  A selection yields the node, an error, or \<open>SelPanic\<close> where Go would dereference nil or index out
  of range.
\<close>

section \<open>Nodes\<close>

datatype NodeState = NodeStateHealthy | NodeStateUnhealthy | NodeStateDead

record NodeRemoteMetrics =
  rm_MemoryUsedRatio :: float64
  rm_QueueDepth :: int
  rm_CollectedAt :: time

record Node =
  n_ID :: string
  n_Address :: string
  n_GPU :: string
  n_MemoryGB :: int
  n_Platform :: string
  n_state :: NodeState
  n_failures :: int
  n_lastCheck :: time
  n_lastHealth :: time
  n_inFlight :: int
  n_remoteMetrics :: NodeRemoteMetrics
  n_models :: "string list"
  n_modelsReady :: bool
  n_breakerBypassed :: bool

definition servesModel :: "string \<Rightarrow> Node \<Rightarrow> bool" where
  "servesModel model n = (model = '''' \<or> (n_modelsReady n \<and> model \<in> set (n_models n)))"

definition selectable :: "Node \<Rightarrow> bool" where
  "selectable n \<longleftrightarrow> n_state n = NodeStateHealthy \<and> \<not> n_breakerBypassed n"

definition IncrInFlight :: "Node \<Rightarrow> Node" where
  "IncrInFlight n = n\<lparr>n_inFlight := n_inFlight n + 1\<rparr>"

definition DecrInFlight :: "Node \<Rightarrow> Node" where
  "DecrInFlight n = n\<lparr>n_inFlight := n_inFlight n - 1\<rparr>"

definition SetBreakerBypassed :: "bool \<Rightarrow> Node \<Rightarrow> Node" where
  "SetBreakerBypassed b n = n\<lparr>n_breakerBypassed := b\<rparr>"

definition markHealthy :: "time \<Rightarrow> Node \<Rightarrow> Node" where
  "markHealthy now n =
     n\<lparr>n_state := NodeStateHealthy, n_failures := 0, n_lastHealth := now, n_lastCheck := now\<rparr>"

definition markUnhealthy :: "time \<Rightarrow> Node \<Rightarrow> Node" where
  "markUnhealthy now n =
     n\<lparr>n_failures := n_failures n + 1, n_state := NodeStateUnhealthy, n_lastCheck := now\<rparr>"

definition markDead :: "time \<Rightarrow> Node \<Rightarrow> Node" where
  "markDead now n = n\<lparr>n_state := NodeStateDead, n_lastCheck := now\<rparr>"

section \<open>State\<close>

record Discovery =
  d_nodes :: "(string \<times> Node) list"
  d_cfg :: ClusterConfig
  d_rrIndex :: "64 word"
  d_masterClient :: bool
  d_masterStrategy :: "(string \<times> time) option"

type_synonym iteration = "(string \<times> Node) list \<Rightarrow> (string \<times> Node) list"

definition freshNode :: "ClusterNodeConfig \<Rightarrow> Node" where
  "freshNode c =
     \<lparr>n_ID = nc_ID c, n_Address = nc_Address c, n_GPU = nc_GPU c, n_MemoryGB = nc_MemoryGB c,
      n_Platform = nc_Platform c, n_state = NodeStateUnhealthy, n_failures = 0,
      n_lastCheck = zero_time, n_lastHealth = zero_time, n_inFlight = 0,
      n_remoteMetrics = \<lparr>rm_MemoryUsedRatio = 0, rm_QueueDepth = 0, rm_CollectedAt = zero_time\<rparr>,
      n_models = [], n_modelsReady = False, n_breakerBypassed = False\<rparr>"

definition d_modify :: "string \<Rightarrow> (Node \<Rightarrow> Node) \<Rightarrow> Discovery \<Rightarrow> Discovery" where
  "d_modify nid f d = d\<lparr>d_nodes := map (\<lambda>(k, n). (k, if k = nid then f n else n)) (d_nodes d)\<rparr>"

section \<open>Membership\<close>

definition loadNode :: "(string \<times> Node) list \<Rightarrow> ClusterNodeConfig \<Rightarrow> (string \<times> Node) list" where
  "loadNode ns c = (if map_of ns (nc_ID c) \<noteq> None then ns else ns @ [(nc_ID c, freshNode c)])"

definition loadNodesFromConfig :: "Discovery \<Rightarrow> Discovery" where
  "loadNodesFromConfig d = d\<lparr>d_nodes := foldl loadNode (d_nodes d) (cc_Nodes (d_cfg d))\<rparr>"

definition updateNode :: "(string \<times> Node) list \<Rightarrow> ClusterNodeConfig \<Rightarrow> (string \<times> Node) list" where
  "updateNode ns c =
     (case map_of ns (nc_ID c) of
        Some n \<Rightarrow> AList.update (nc_ID c)
                   (n\<lparr>n_Address := nc_Address c, n_GPU := nc_GPU c, n_MemoryGB := nc_MemoryGB c,
                      n_Platform := nc_Platform c\<rparr>) ns
      | None \<Rightarrow> ns @ [(nc_ID c, freshNode c)])"

definition d_UpdateConfig :: "ClusterConfig \<Rightarrow> Discovery \<Rightarrow> Discovery" where
  "d_UpdateConfig cfg d =
     d\<lparr>d_cfg := cfg,
       d_nodes := filter (\<lambda>(k, n). k \<in> set (map nc_ID (cc_Nodes cfg)))
                    (foldl updateNode (d_nodes d) (cc_Nodes cfg))\<rparr>"

record MasterNode =
  mn_NodeID :: string
  mn_Address :: string
  mn_GPU :: string
  mn_MemoryGB :: int
  mn_MemoryUsed :: float64
  mn_QueueDepth :: int
  mn_Status :: string

definition syncNode :: "time \<Rightarrow> (string \<times> Node) list \<Rightarrow> MasterNode \<Rightarrow> (string \<times> Node) list" where
  "syncNode now ns mn =
     (let st = (if mn_Status mn = ''online'' then NodeStateHealthy else NodeStateUnhealthy);
          rm = \<lparr>rm_MemoryUsedRatio = mn_MemoryUsed mn, rm_QueueDepth = mn_QueueDepth mn,
                rm_CollectedAt = now\<rparr>
      in case map_of ns (mn_NodeID mn) of
           Some n \<Rightarrow> AList.update (mn_NodeID mn)
                      (n\<lparr>n_Address := mn_Address mn, n_GPU := mn_GPU mn, n_MemoryGB := mn_MemoryGB mn,
                         n_state := st, n_remoteMetrics := rm\<rparr>) ns
         | None \<Rightarrow> ns @ [(mn_NodeID mn,
             (freshNode \<lparr>nc_ID = mn_NodeID mn, nc_Address = mn_Address mn, nc_GPU = mn_GPU mn,
                nc_MemoryGB = mn_MemoryGB mn, nc_Platform = ''''\<rparr>)
             \<lparr>n_remoteMetrics := rm, n_state := st\<rparr>)])"

text \<open>The argument is the master's answer: \<open>None\<close> when \<^verbatim>\<open>ListNodes\<close> fails.\<close>

definition syncFromMaster :: "time \<Rightarrow> MasterNode list option \<Rightarrow> Discovery \<Rightarrow> Discovery" where
  "syncFromMaster now resp d =
     (if \<not> d_masterClient d then d
      else case resp of
        None \<Rightarrow> d
      | Some mns \<Rightarrow>
          d\<lparr>d_nodes := filter (\<lambda>(k, n). k \<in> set (map mn_NodeID mns)) (foldl (syncNode now) (d_nodes d) mns)\<rparr>)"

definition syncMasterStrategy :: "time \<Rightarrow> string option \<Rightarrow> Discovery \<Rightarrow> Discovery" where
  "syncMasterStrategy now summary d =
     (if \<not> d_masterClient d \<or> cc_IgnoreMasterStrategy (d_cfg d) then d
      else case summary of
        None \<Rightarrow> d
      | Some st \<Rightarrow> (if st = '''' then d else d\<lparr>d_masterStrategy := Some (st, now)\<rparr>))"

section \<open>Health checks\<close>

record probe =
  pr_health :: bool
  pr_metrics :: "(float64 \<times> int) option"
  pr_models :: "string list option"

definition fetchRemoteMetrics :: "time \<Rightarrow> (float64 \<times> int) option \<Rightarrow> Node \<Rightarrow> Node" where
  "fetchRemoteMetrics now m n =
     (case m of None \<Rightarrow> n
      | Some (ratio, depth) \<Rightarrow>
          n\<lparr>n_remoteMetrics := \<lparr>rm_MemoryUsedRatio = ratio, rm_QueueDepth = depth, rm_CollectedAt = now\<rparr>\<rparr>)"

definition fetchModels :: "string list option \<Rightarrow> Node \<Rightarrow> Node" where
  "fetchModels ms n =
     (case ms of None \<Rightarrow> n
      | Some ids \<Rightarrow> n\<lparr>n_models := filter (\<lambda>i. i \<noteq> '''') ids, n_modelsReady := True\<rparr>)"

definition checkFailureThreshold :: "time \<Rightarrow> ClusterConfig \<Rightarrow> Node \<Rightarrow> Node" where
  "checkFailureThreshold now cfg n =
     (let threshold = (if cc_FailureThreshold cfg = 0 then 3 else cc_FailureThreshold cfg)
      in if n_failures n \<ge> threshold then markDead now n else n)"

definition checkNode :: "time \<Rightarrow> ClusterConfig \<Rightarrow> probe \<Rightarrow> Node \<Rightarrow> Node" where
  "checkNode now cfg p n =
     (if pr_health p
      then markHealthy now (fetchModels (pr_models p) (fetchRemoteMetrics now (pr_metrics p) n))
      else checkFailureThreshold now cfg (markUnhealthy now n))"

definition checkAll :: "time \<Rightarrow> (string \<Rightarrow> probe) \<Rightarrow> Discovery \<Rightarrow> Discovery" where
  "checkAll now pr d =
     d\<lparr>d_nodes := map (\<lambda>(k, n). (k, checkNode now (d_cfg d) (pr k) n)) (d_nodes d)\<rparr>"

definition syncNodeModels :: "(string \<Rightarrow> string list option) \<Rightarrow> Discovery \<Rightarrow> Discovery" where
  "syncNodeModels ms d =
     d\<lparr>d_nodes := map (\<lambda>(k, n). (k, if n_state n = NodeStateHealthy then fetchModels (ms k) n else n))
                    (d_nodes d)\<rparr>"

section \<open>Selection\<close>

datatype SelectResult = SelNode Node | SelError | SelPanic

definition resolveStrategy :: "time \<Rightarrow> string \<Rightarrow> Discovery \<Rightarrow> string" where
  "resolveStrategy now local d =
     (if \<not> d_masterClient d \<or> cc_IgnoreMasterStrategy (d_cfg d) then local
      else case d_masterStrategy d of
        None \<Rightarrow> local
      | Some (st, cachedAt) \<Rightarrow>
          (if st = '''' then local
           else if cc_MaxStaleAge (d_cfg d) > 0 \<and> now - cachedAt > cc_MaxStaleAge (d_cfg d) then local
           else st))"

definition selectRoundRobin :: "Node list \<Rightarrow> Discovery \<Rightarrow> Discovery \<times> SelectResult" where
  "selectRoundRobin nodes d =
     (let sorted = sort_key n_ID nodes;
          idx = sint (d_rrIndex d)
      in (d\<lparr>d_rrIndex := d_rrIndex d + 1\<rparr>,
          if idx < 0 \<or> nodes = [] then SelPanic
          else SelNode (sorted ! nat (idx mod int (length nodes)))))"

fun leastConnLoop :: "Node list \<Rightarrow> int \<Rightarrow> Node option \<Rightarrow> Node option" where
  "leastConnLoop [] minInFlight best = best"
| "leastConnLoop (n # ns) minInFlight best =
     (if minInFlight < 0 \<or> n_inFlight n < minInFlight then leastConnLoop ns (n_inFlight n) (Some n)
      else leastConnLoop ns minInFlight best)"

definition selectLeastConnections :: "Node list \<Rightarrow> SelectResult" where
  "selectLeastConnections nodes =
     (case leastConnLoop nodes (-1) None of None \<Rightarrow> SelPanic | Some n \<Rightarrow> SelNode n)"

definition nodeScore :: "Node \<Rightarrow> float64" where
  "nodeScore n =
     (let metrics = n_remoteMetrics n; memGB = of_int (n_MemoryGB n); inf = n_inFlight n
      in if rm_CollectedAt metrics = zero_time
         then (if inf > 0 then memGB / of_int (inf + 1) else memGB)
         else
           (let memAvail = max 0 ((1 - rm_MemoryUsedRatio metrics) * memGB);
                queueFactor = (if rm_QueueDepth metrics > 0 then 1 / of_int (rm_QueueDepth metrics + 1) else 1);
                inFlightFactor = (if inf > 0 then 1 / of_int (inf + 1) else 1)
            in memAvail * (6/10) + memGB * queueFactor * (3/10) + memGB * inFlightFactor * (1/10)))"

fun hardwareLoop :: "Node list \<Rightarrow> float64 \<Rightarrow> Node option \<Rightarrow> Node option" where
  "hardwareLoop [] bestScore best = best"
| "hardwareLoop (n # ns) bestScore best =
     (if nodeScore n > bestScore then hardwareLoop ns (nodeScore n) (Some n)
      else hardwareLoop ns bestScore best)"

definition selectHardwareAware :: "Node list \<Rightarrow> SelectResult" where
  "selectHardwareAware nodes =
     (case hardwareLoop nodes (-1) None of None \<Rightarrow> SelPanic | Some n \<Rightarrow> SelNode n)"

text \<open>The strategy switch the three \<^verbatim>\<open>SelectNode*\<close> methods share.\<close>

definition selectByStrategy ::
    "time \<Rightarrow> string \<Rightarrow> Node list \<Rightarrow> Discovery \<Rightarrow> Discovery \<times> SelectResult" where
  "selectByStrategy now strategy healthy d =
     (if healthy = [] then (d, SelError)
      else let st = resolveStrategy now strategy d in
        if st = ''least-connections'' then (d, selectLeastConnections healthy)
        else if st = ''hardware-aware'' then (d, selectHardwareAware healthy)
        else if st = ''round-robin'' then selectRoundRobin healthy d
        else (d, selectLeastConnections healthy))"

definition HealthyNodeList :: "iteration \<Rightarrow> Discovery \<Rightarrow> Node list" where
  "HealthyNodeList it d = filter selectable (map snd (iterate it (d_nodes d)))"

definition SelectNode :: "time \<Rightarrow> iteration \<Rightarrow> string \<Rightarrow> Discovery \<Rightarrow> Discovery \<times> SelectResult" where
  "SelectNode now it strategy d = selectByStrategy now strategy (HealthyNodeList it d) d"

definition SelectNodeByPlatform ::
    "time \<Rightarrow> iteration \<Rightarrow> string \<Rightarrow> string \<Rightarrow> Discovery \<Rightarrow> Discovery \<times> SelectResult" where
  "SelectNodeByPlatform now it strategy platform d =
     (if platform = '''' then SelectNode now it strategy d
      else selectByStrategy now strategy
             (filter (\<lambda>n. selectable n \<and> n_Platform n = platform) (map snd (iterate it (d_nodes d)))) d)"

definition belowSlotCap :: "int \<Rightarrow> Node \<Rightarrow> bool" where
  "belowSlotCap maxConcurrent n = (\<not> (maxConcurrent > 0 \<and> n_inFlight n \<ge> maxConcurrent))"

definition SelectNodeByModel ::
    "time \<Rightarrow> iteration \<Rightarrow> string \<Rightarrow> string \<Rightarrow> int \<Rightarrow> Discovery \<Rightarrow> Discovery \<times> SelectResult" where
  "SelectNodeByModel now it strategy model maxConcurrent d =
     (if model = '''' then SelectNode now it strategy d
      else selectByStrategy now strategy
             (filter (\<lambda>n. selectable n \<and> servesModel model n \<and> belowSlotCap maxConcurrent n)
                (map snd (iterate it (d_nodes d)))) d)"

definition HealthyNodes :: "Discovery \<Rightarrow> int" where
  "HealthyNodes d = int (length (filter selectable (map snd (d_nodes d))))"

definition HealthyNodesByPlatform :: "string \<Rightarrow> Discovery \<Rightarrow> int" where
  "HealthyNodesByPlatform platform d =
     (if platform = '''' then HealthyNodes d
      else int (length (filter (\<lambda>n. selectable n \<and> n_Platform n = platform) (map snd (d_nodes d)))))"

definition HealthyNodesByModel :: "string \<Rightarrow> Discovery \<Rightarrow> int" where
  "HealthyNodesByModel model d =
     (if model = '''' then HealthyNodes d
      else int (length (filter (\<lambda>n. selectable n \<and> servesModel model n) (map snd (d_nodes d)))))"

definition NodePlatform :: "string \<Rightarrow> Discovery \<Rightarrow> string" where
  "NodePlatform nid d = (case map_of (d_nodes d) nid of None \<Rightarrow> '''' | Some n \<Rightarrow> n_Platform n)"

definition MarkNodeBreakerOpen :: "string \<Rightarrow> Discovery \<Rightarrow> Discovery" where
  "MarkNodeBreakerOpen nid d = (if nid = '''' then d else d_modify nid (SetBreakerBypassed True) d)"

definition MarkNodeBreakerClosed :: "string \<Rightarrow> Discovery \<Rightarrow> Discovery" where
  "MarkNodeBreakerClosed nid d = (if nid = '''' then d else d_modify nid (SetBreakerBypassed False) d)"

text \<open>\<^verbatim>\<open>Status()\<close>'s routability view (\<^verbatim>\<open>NodeStatus.Routable\<close>) of one node.\<close>

definition status_Routable :: "Node \<Rightarrow> bool" where
  "status_Routable n = (n_state n = NodeStateHealthy \<and> \<not> n_breakerBypassed n)"

section \<open>Every selection is sound\<close>

lemma leastConnLoop_in: "leastConnLoop ns m best = Some n \<Longrightarrow> n \<in> set ns \<or> best = Some n"
  by (induction ns arbitrary: m best) (auto split: if_splits)

lemma leastConnLoop_min:
  assumes "\<forall>n \<in> set ns. 0 \<le> n_inFlight n" and "0 \<le> n_inFlight b"
  shows "\<exists>n \<in> insert b (set ns). leastConnLoop ns (n_inFlight b) (Some b) = Some n \<and>
    (\<forall>y \<in> insert b (set ns). n_inFlight n \<le> n_inFlight y)"
  using assms
proof (induction ns arbitrary: b)
  case (Cons a ns)
  show ?case
  proof (cases "n_inFlight a < n_inFlight b")
    case True
    then show ?thesis using Cons.IH [of a] Cons.prems by fastforce
  next
    case False
    then show ?thesis using Cons.IH [of b] Cons.prems by fastforce
  qed
qed simp

lemma hardwareLoop_in: "hardwareLoop ns m best = Some n \<Longrightarrow> n \<in> set ns \<or> best = Some n"
  by (induction ns arbitrary: m best) (auto split: if_splits)

lemma hardwareLoop_max:
  "\<exists>n \<in> insert b (set ns). hardwareLoop ns (nodeScore b) (Some b) = Some n \<and>
    (\<forall>y \<in> insert b (set ns). nodeScore y \<le> nodeScore n)"
proof (induction ns arbitrary: b)
  case (Cons a ns)
  show ?case
  proof (cases "nodeScore a > nodeScore b")
    case True
    then show ?thesis using Cons.IH [of a] by fastforce
  next
    case False
    then show ?thesis using Cons.IH [of b] by fastforce
  qed
qed simp

lemma selectByStrategy_in:
  "snd (selectByStrategy now st ns d) = SelNode n \<Longrightarrow> n \<in> set ns"
proof -
  have "SelNode (sort_key n_ID ns ! i) = SelNode n \<Longrightarrow> i < length ns \<Longrightarrow> n \<in> set ns" for i
    by (metis SelectResult.inject length_sort nth_mem set_sort)
  then show "snd (selectByStrategy now st ns d) = SelNode n \<Longrightarrow> n \<in> set ns"
    by (auto simp: selectByStrategy_def selectLeastConnections_def selectHardwareAware_def
        selectRoundRobin_def Let_def nat_less_iff
        dest: leastConnLoop_in hardwareLoop_in split: if_splits option.splits)
qed

lemma selectByStrategy_frame [simp]:
  "d_nodes (fst (selectByStrategy now st ns d)) = d_nodes d"
  "d_cfg (fst (selectByStrategy now st ns d)) = d_cfg d"
  by (auto simp: selectByStrategy_def selectRoundRobin_def Let_def)

lemma selectByStrategy_error: "snd (selectByStrategy now st ns d) = SelError \<longleftrightarrow> ns = []"
  by (auto simp: selectByStrategy_def selectLeastConnections_def selectHardwareAware_def
      selectRoundRobin_def Let_def split: option.splits)

text \<open>No strategy panics on sane nodes while the round-robin counter has not reached the sign bit.\<close>

definition sane_node :: "Node \<Rightarrow> bool" where
  "sane_node n \<longleftrightarrow> 0 \<le> n_inFlight n \<and> -1 < nodeScore n"

lemma selectByStrategy_total:
  assumes "ns \<noteq> []" "\<forall>n \<in> set ns. sane_node n" "0 \<le> sint (d_rrIndex d)"
  shows "\<exists>n \<in> set ns. snd (selectByStrategy now st ns d) = SelNode n"
proof -
  obtain a rest where ns: "ns = a # rest" using assms(1) by (cases ns) auto
  have "\<exists>n. selectLeastConnections ns = SelNode n"
    using leastConnLoop_min [of rest a] assms(2) ns
    by (fastforce simp: selectLeastConnections_def sane_node_def)
  moreover have "\<exists>n. selectHardwareAware ns = SelNode n"
    using hardwareLoop_max [of a rest] assms(2) ns
    by (fastforce simp: selectHardwareAware_def sane_node_def)
  ultimately have "\<exists>n. snd (selectByStrategy now st ns d) = SelNode n"
    using assms(1,3) by (auto simp: selectByStrategy_def selectRoundRobin_def Let_def)
  then show ?thesis using selectByStrategy_in by blast
qed

definition eligible :: "string \<Rightarrow> int \<Rightarrow> Node \<Rightarrow> bool" where
  "eligible model cap n \<longleftrightarrow>
     selectable n \<and> servesModel model n \<and> (model \<noteq> '''' \<longrightarrow> belowSlotCap cap n)"

lemma SelectNodeByModel_alt:
  "SelectNodeByModel now it st model cap d =
     selectByStrategy now st (filter (eligible model cap) (map snd (iterate it (d_nodes d)))) d"
  by (auto simp: SelectNodeByModel_def SelectNode_def HealthyNodeList_def eligible_def servesModel_def
      intro!: arg_cong [where f = "\<lambda>ns. selectByStrategy now st ns d"] filter_cong)

lemma SelectNodeByModel_sound:
  assumes "SelectNodeByModel now it st model cap d = (d', SelNode n)"
  shows "n \<in> snd ` set (d_nodes d) \<and> eligible model cap n"
  using assms selectByStrategy_in [of now st "filter (eligible model cap) (map snd (iterate it (d_nodes d)))" d n]
  by (auto simp: SelectNodeByModel_alt)

lemma SelectNodeByPlatform_sound:
  assumes "SelectNodeByPlatform now it st p d = (d', SelNode n)"
  shows "n \<in> snd ` set (d_nodes d) \<and> selectable n \<and> (p \<noteq> '''' \<longrightarrow> n_Platform n = p)"
proof -
  obtain P where "\<And>x. P x \<longleftrightarrow> selectable x \<and> (p \<noteq> '''' \<longrightarrow> n_Platform x = p)"
    and "selectByStrategy now st (filter P (map snd (iterate it (d_nodes d)))) d = (d', SelNode n)"
    using assms by (auto simp: SelectNodeByPlatform_def SelectNode_def HealthyNodeList_def split: if_splits)
  then show ?thesis using selectByStrategy_in [of now st "filter P (map snd (iterate it (d_nodes d)))" d n]
    by auto
qed

text \<open>
  Model-aware node selection: a selected node is a member, healthy, not bypassed by its breaker,
  serves the requested model according to a completed poll and is below the slot cap; selection fails
  with an error exactly when no such node exists; and it never panics as long as in-flight counts are
  not negative, scores exceed \<open>-1\<close> and fewer than \<open>2^63\<close> selections were made.
\<close>

theorem select_by_model_sound:
  assumes "\<forall>n \<in> snd ` set (d_nodes d). sane_node n" and "0 \<le> sint (d_rrIndex d)"
  shows "case snd (SelectNodeByModel now it st model cap d) of
      SelNode n \<Rightarrow> n \<in> snd ` set (d_nodes d) \<and> selectable n \<and> servesModel model n \<and>
        (model \<noteq> '''' \<and> 0 < cap \<longrightarrow> n_inFlight n < cap)
    | SelError \<Rightarrow> \<forall>n \<in> snd ` set (d_nodes d). \<not> eligible model cap n
    | SelPanic \<Rightarrow> False"
proof -
  let ?ns = "filter (eligible model cap) (map snd (iterate it (d_nodes d)))"
  have sane: "\<forall>n \<in> set ?ns. sane_node n" using assms(1) by auto
  show ?thesis
  proof (cases "?ns = []")
    case True
    then show ?thesis
      by (auto simp: SelectNodeByModel_alt selectByStrategy_def filter_empty_conv)
  next
    case False
    from selectByStrategy_total [OF this sane assms(2), of now st]
    obtain n where "n \<in> set ?ns" "snd (selectByStrategy now st ?ns d) = SelNode n" by blast
    then show ?thesis
      by (auto simp: SelectNodeByModel_alt eligible_def belowSlotCap_def)
  qed
qed

definition d_example :: Discovery where
  "d_example = (let n = (freshNode \<lparr>nc_ID = ''n'', nc_Address = '''', nc_GPU = '''', nc_MemoryGB = 8,
        nc_Platform = ''mac''\<rparr>)\<lparr>n_state := NodeStateHealthy, n_models := [''m''], n_modelsReady := True\<rparr>
     in \<lparr>d_nodes = [(''a'', n\<lparr>n_ID := ''a'', n_inFlight := 2\<rparr>), (''b'', n\<lparr>n_ID := ''b'', n_inFlight := 1\<rparr>),
           (''c'', n\<lparr>n_ID := ''c'', n_breakerBypassed := True\<rparr>)],
         d_cfg = \<lparr>cc_Enabled = True, cc_Nodes = [], cc_IgnoreMasterStrategy = False, cc_MaxStaleAge = 0,
           cc_LoadBalancer = '''', cc_FailureThreshold = 0, cc_HAEnabled = False, cc_MacPlatformTag = '''',
           cc_HeavyModelPlatform = '''', cc_DiffusionPlatform = ''''\<rparr>,
         d_rrIndex = 0, d_masterClient = False, d_masterStrategy = None\<rparr>)"

lemma d_example_sane: "\<forall>n \<in> snd ` set (d_nodes d_example). sane_node n"
  by (simp add: d_example_def sane_node_def nodeScore_def freshNode_def Let_def)

theorem select_by_model_sound_witness:
  "\<exists>n. snd (SelectNodeByModel 0 rev ''round-robin'' ''m'' 2 d_example) = SelNode n \<and>
     servesModel ''m'' n \<and> n_inFlight n < 2 \<and> selectable n"
  using select_by_model_sound [OF d_example_sane, where now = 0 and it = rev and
      st = "''round-robin''" and model = "''m''" and cap = 2]
  by (auto simp: d_example_def freshNode_def Let_def eligible_def selectable_def servesModel_def
      belowSlotCap_def split: SelectResult.splits)

section \<open>The interface the router uses\<close>

fun sel_result :: "Discovery \<times> SelectResult \<Rightarrow> Discovery \<times> string option" where
  "sel_result (d, SelNode n) = (d, Some (n_ID n))"
| "sel_result (d, r) = (d, None)"

text \<open>
  \<^verbatim>\<open>ClusterSelectorAdapter\<close>.  The adapter's \<open>None\<close> stands for an error.  A panic, which takes the whole
  request down in the code, is folded into it here; the lemma \<open>sel_result_exact\<close> shows that under the
  conditions of \<open>selectByStrategy_total\<close> none of the three methods panics, so that \<open>None\<close> is the error.
\<close>

definition ClusterSelectorAdapter :: "time \<Rightarrow> iteration \<Rightarrow> Discovery ClusterSelector" where
  "ClusterSelectorAdapter now it =
     \<lparr>sel_HealthyNodes = HealthyNodes,
      sel_SelectNode = (\<lambda>st d. sel_result (SelectNode now it st d)),
      sel_HealthyNodesByPlatform = HealthyNodesByPlatform,
      sel_SelectNodeByPlatform = (\<lambda>st p d. sel_result (SelectNodeByPlatform now it st p d)),
      sel_HealthyNodesByModel = HealthyNodesByModel,
      sel_SelectNodeByModel = (\<lambda>st m cap d. sel_result (SelectNodeByModel now it st m cap d)),
      sel_MarkNodeBreakerOpen = MarkNodeBreakerOpen,
      sel_MarkNodeBreakerClosed = MarkNodeBreakerClosed,
      sel_NodePlatform = NodePlatform\<rparr>"

lemma sel_result_exact:
  assumes "\<forall>n \<in> snd ` set (d_nodes d). sane_node n" "0 \<le> sint (d_rrIndex d)"
  shows "snd (sel_result (SelectNode now it st d)) = None \<longleftrightarrow> snd (SelectNode now it st d) = SelError"
    and "snd (sel_result (SelectNodeByPlatform now it st p d)) = None \<longleftrightarrow> snd (SelectNodeByPlatform now it st p d) = SelError"
    and "snd (sel_result (SelectNodeByModel now it st m cap d)) = None \<longleftrightarrow> snd (SelectNodeByModel now it st m cap d) = SelError"
proof -
  have none: "snd (sel_result x) = None \<longleftrightarrow> (\<forall>n. snd x \<noteq> SelNode n)" for x by (cases x rule: sel_result.cases) auto
  have key: "(\<forall>n. snd (selectByStrategy now st ns d) \<noteq> SelNode n) \<longleftrightarrow> snd (selectByStrategy now st ns d) = SelError"
    if "set ns \<subseteq> snd ` set (d_nodes d)" for ns
  proof (cases "ns = []")
    case False
    have "\<forall>n \<in> set ns. sane_node n" using assms(1) that by blast
    from selectByStrategy_total [OF False this assms(2)] show ?thesis using selectByStrategy_error [of now st ns d] False by blast
  qed (simp add: selectByStrategy_def)
  show "snd (sel_result (SelectNode now it st d)) = None \<longleftrightarrow> snd (SelectNode now it st d) = SelError"
    unfolding none SelectNode_def HealthyNodeList_def by (rule key) auto
  then show "snd (sel_result (SelectNodeByPlatform now it st p d)) = None \<longleftrightarrow> snd (SelectNodeByPlatform now it st p d) = SelError"
    unfolding none SelectNodeByPlatform_def by (cases "p = ''''") (simp_all, rule key, auto)
  show "snd (sel_result (SelectNodeByModel now it st m cap d)) = None \<longleftrightarrow> snd (SelectNodeByModel now it st m cap d) = SelError"
    unfolding none SelectNodeByModel_alt by (rule key) auto
qed

definition d_wf :: "Discovery \<Rightarrow> bool" where
  "d_wf d \<longleftrightarrow> distinct (map fst (d_nodes d)) \<and> (\<forall>(k, n) \<in> set (d_nodes d). n_ID n = k)"

definition d_routable :: "Discovery \<Rightarrow> string \<Rightarrow> bool" where
  "d_routable d k = (case map_of (d_nodes d) k of None \<Rightarrow> False | Some n \<Rightarrow> selectable n)"

definition d_serves :: "Discovery \<Rightarrow> string \<Rightarrow> string \<Rightarrow> bool" where
  "d_serves d m k = (case map_of (d_nodes d) k of None \<Rightarrow> False | Some n \<Rightarrow> servesModel m n)"

lemma d_wf_member:
  "d_wf d \<Longrightarrow> n \<in> snd ` set (d_nodes d) \<Longrightarrow> map_of (d_nodes d) (n_ID n) = Some n"
  unfolding d_wf_def by (auto intro: map_of_is_SomeI)

lemma sel_result_Some: "sel_result (d, r) = (d', Some k) \<Longrightarrow> d' = d \<and> (\<exists>n. r = SelNode n \<and> n_ID n = k)"
  by (cases r) auto

lemma fst_sel_result [simp]: "fst (sel_result x) = fst x"
  by (cases x rule: sel_result.cases) auto

lemma select_frame [simp]:
  "d_nodes (fst (SelectNodeByModel now it st m cap d)) = d_nodes d"
  "d_nodes (fst (SelectNodeByPlatform now it st p d)) = d_nodes d"
  by (simp_all add: SelectNodeByModel_alt SelectNodeByPlatform_def SelectNode_def)

lemma d_views_cong:
  assumes "d_nodes d' = d_nodes d"
  shows "d_wf d' = d_wf d" "d_routable d' = d_routable d" "d_serves d' = d_serves d"
    "NodePlatform k d' = NodePlatform k d"
  using assms by (auto simp: d_wf_def d_routable_def d_serves_def NodePlatform_def fun_eq_iff)

lemma map_of_d_modify:
  "map_of (d_nodes (d_modify nid f d)) k =
     (if k = nid then map_option f (map_of (d_nodes d) k) else map_of (d_nodes d) k)"
proof -
  have "map_of (map (\<lambda>(k, n). (k, if k = nid then f n else n)) xs) k =
      (if k = nid then map_option f (map_of xs k) else map_of xs k)" for xs
    by (induction xs) auto
  then show ?thesis by (simp add: d_modify_def)
qed

lemma d_modify_wf: "d_wf d \<Longrightarrow> (\<And>n. n_ID (f n) = n_ID n) \<Longrightarrow> d_wf (d_modify nid f d)"
  by (auto simp: d_wf_def d_modify_def comp_def case_prod_beta)

interpretation disc: cluster_selector "ClusterSelectorAdapter now it" d_wf d_routable d_serves
  for now it
proof unfold_locales
  fix c c' st m cap r
  assume wf: "d_wf c" and s: "sel_SelectNodeByModel (ClusterSelectorAdapter now it) st m cap c = (c', r)"
  have n: "d_nodes c' = d_nodes c"
    using s by (simp add: ClusterSelectorAdapter_def) (metis fst_conv fst_sel_result select_frame(1))
  have "r = Some k \<Longrightarrow> d_routable c k \<and> d_serves c m k" for k
  proof -
    assume "r = Some k"
    with s obtain d n where "SelectNodeByModel now it st m cap c = (d, SelNode n)" "n_ID n = k"
      by (cases "SelectNodeByModel now it st m cap c") (auto simp: ClusterSelectorAdapter_def dest: sel_result_Some)
    from SelectNodeByModel_sound [OF this(1)] this(2) d_wf_member [OF wf, of n]
    show ?thesis by (simp add: d_routable_def d_serves_def eligible_def split: option.splits)
  qed
  then show "d_wf c' \<and> d_routable c' = d_routable c \<and> d_serves c' = d_serves c \<and>
      (\<forall>k. sel_NodePlatform (ClusterSelectorAdapter now it) k c' =
        sel_NodePlatform (ClusterSelectorAdapter now it) k c) \<and>
      (\<forall>n. r = Some n \<longrightarrow> d_routable c n \<and> d_serves c m n)"
    using wf d_views_cong [OF n] by (simp add: ClusterSelectorAdapter_def)
next
  fix c c' st p r
  assume wf: "d_wf c" and s: "sel_SelectNodeByPlatform (ClusterSelectorAdapter now it) st p c = (c', r)"
  have n: "d_nodes c' = d_nodes c"
    using s by (simp add: ClusterSelectorAdapter_def) (metis fst_conv fst_sel_result select_frame(2))
  have "r = Some k \<Longrightarrow> d_routable c k \<and> (p \<noteq> '''' \<longrightarrow> NodePlatform k c = p)" for k
  proof -
    assume "r = Some k"
    with s obtain d n where "SelectNodeByPlatform now it st p c = (d, SelNode n)" "n_ID n = k"
      by (cases "SelectNodeByPlatform now it st p c") (auto simp: ClusterSelectorAdapter_def dest: sel_result_Some)
    from SelectNodeByPlatform_sound [OF this(1)] this(2) d_wf_member [OF wf, of n]
    show ?thesis by (simp add: d_routable_def NodePlatform_def split: option.splits)
  qed
  then show "d_wf c' \<and> d_routable c' = d_routable c \<and> d_serves c' = d_serves c \<and>
      (\<forall>k. sel_NodePlatform (ClusterSelectorAdapter now it) k c' =
        sel_NodePlatform (ClusterSelectorAdapter now it) k c) \<and>
      (\<forall>n. r = Some n \<longrightarrow> d_routable c n \<and>
        (p \<noteq> '''' \<longrightarrow> sel_NodePlatform (ClusterSelectorAdapter now it) n c = p))"
    using wf d_views_cong [OF n] by (simp add: ClusterSelectorAdapter_def)
qed (auto simp: ClusterSelectorAdapter_def MarkNodeBreakerOpen_def MarkNodeBreakerClosed_def
      SetBreakerBypassed_def d_routable_def map_of_d_modify selectable_def intro!: d_modify_wf
      split: option.splits)

text \<open>Selection does not touch the node table at all, so the contract also holds relative to a fixed table.\<close>

interpretation disc_at: cluster_selection "ClusterSelectorAdapter now it" "\<lambda>c. d_wf c \<and> d_nodes c = N" d_routable d_serves
  for now it N
proof unfold_locales
  fix c c' st m cap r
  assume c: "d_wf c \<and> d_nodes c = N"
    and s: "sel_SelectNodeByModel (ClusterSelectorAdapter now it) st m cap c = (c', r)"
  have "d_nodes c' = d_nodes c"
    using s by (simp add: ClusterSelectorAdapter_def) (metis fst_conv fst_sel_result select_frame(1))
  then show "(d_wf c' \<and> d_nodes c' = N) \<and> d_routable c' = d_routable c \<and> d_serves c' = d_serves c \<and>
      (\<forall>k. sel_NodePlatform (ClusterSelectorAdapter now it) k c' =
        sel_NodePlatform (ClusterSelectorAdapter now it) k c) \<and>
      (\<forall>n. r = Some n \<longrightarrow> d_routable c n \<and> d_serves c m n)"
    using disc.select_model [OF conjunct1 [OF c] s] c by simp
next
  fix c c' st p r
  assume c: "d_wf c \<and> d_nodes c = N"
    and s: "sel_SelectNodeByPlatform (ClusterSelectorAdapter now it) st p c = (c', r)"
  have "d_nodes c' = d_nodes c"
    using s by (simp add: ClusterSelectorAdapter_def) (metis fst_conv fst_sel_result select_frame(2))
  then show "(d_wf c' \<and> d_nodes c' = N) \<and> d_routable c' = d_routable c \<and> d_serves c' = d_serves c \<and>
      (\<forall>k. sel_NodePlatform (ClusterSelectorAdapter now it) k c' =
        sel_NodePlatform (ClusterSelectorAdapter now it) k c) \<and>
      (\<forall>n. r = Some n \<longrightarrow> d_routable c n \<and>
        (p \<noteq> '''' \<longrightarrow> sel_NodePlatform (ClusterSelectorAdapter now it) n c = p))"
    using disc.select_platform [OF conjunct1 [OF c] s] c by simp
qed

section \<open>What the strategies optimise\<close>

lemma singleton_list: "distinct xs \<Longrightarrow> set xs = {k} \<Longrightarrow> xs = [k]"
  by (metis distinct_card distinct_singleton card_1_singleton_iff length_Suc_conv length_0_conv One_nat_def
      is_singletonI is_singleton_altdef list.set_intros(1) singletonD)

lemma sort_key_unique:
  assumes "mset xs = mset ys" and "inj_on n_ID (set xs)" and "distinct xs"
  shows "sort_key n_ID xs = sort_key n_ID ys"
proof (rule sym, rule properties_for_sort_key)
  show "mset (sort_key n_ID xs) = mset ys" using assms(1) by simp
  fix k
  assume k: "k \<in> set (sort_key n_ID xs)"
  have one: "filter (\<lambda>x. n_ID k = n_ID x) zs = [k]" if "mset zs = mset xs" for zs
  proof (rule singleton_list)
    have z: "distinct zs" "set zs = set xs"
      using that assms(3) mset_eq_imp_distinct_iff mset_eq_setD by blast+
    show "distinct (filter (\<lambda>x. n_ID k = n_ID x) zs)" using z(1) by simp
    show "set (filter (\<lambda>x. n_ID k = n_ID x) zs) = {k}"
      using k z(2) assms(2) by (auto dest: inj_onD)
  qed
  show "filter (\<lambda>x. n_ID k = n_ID x) (sort_key n_ID xs) = filter (\<lambda>x. n_ID k = n_ID x) ys"
    using one [of "sort_key n_ID xs"] one [of ys] assms(1) by simp
qed simp

text \<open>
  Least-connections returns a node with the fewest requests in flight, and hardware-aware one
  with the highest score, whatever order the map is iterated in; round-robin does not depend on the
  iteration order at all: it takes the candidates in the order of their identifiers.
\<close>

theorem cluster_strategies_optimal:
  assumes "d_wf d" and "\<forall>n \<in> snd ` set (d_nodes d). sane_node n" and "ns = filter P (map snd (iterate it (d_nodes d)))"
    and "ns \<noteq> []"
  shows "(\<exists>n \<in> set ns. selectLeastConnections ns = SelNode n \<and> (\<forall>y \<in> set ns. n_inFlight n \<le> n_inFlight y)) \<and>
    (\<exists>n \<in> set ns. selectHardwareAware ns = SelNode n \<and> (\<forall>y \<in> set ns. nodeScore y \<le> nodeScore n)) \<and>
    selectRoundRobin ns d = selectRoundRobin (filter P (map snd (d_nodes d))) d"
proof (intro conjI)
  obtain a rest where ns: "ns = a # rest" using assms(4) by (cases ns) auto
  have sane: "\<forall>n \<in> set ns. 0 \<le> n_inFlight n \<and> -1 < nodeScore n"
    using assms(2,3) by (auto simp: sane_node_def)
  show "\<exists>n \<in> set ns. selectLeastConnections ns = SelNode n \<and> (\<forall>y \<in> set ns. n_inFlight n \<le> n_inFlight y)"
    using leastConnLoop_min [of rest a] sane unfolding ns by (fastforce simp: selectLeastConnections_def)
  show "\<exists>n \<in> set ns. selectHardwareAware ns = SelNode n \<and> (\<forall>y \<in> set ns. nodeScore y \<le> nodeScore n)"
    using hardwareLoop_max [of a rest] sane unfolding ns by (fastforce simp: selectHardwareAware_def)
  have m: "mset ns = mset (filter P (map snd (d_nodes d)))" unfolding assms(3) by simp
  have "distinct (map n_ID (map snd (d_nodes d)))"
  proof -
    have "map n_ID (map snd (d_nodes d)) = map fst (d_nodes d)" using assms(1) by (auto simp: d_wf_def)
    then show ?thesis using assms(1) by (simp only: d_wf_def)
  qed
  then have "distinct (map snd (d_nodes d))" "inj_on n_ID (set (map snd (d_nodes d)))"
    unfolding distinct_map [of n_ID] by simp_all
  moreover have sub: "set ns \<subseteq> set (map snd (d_nodes d))" unfolding assms(3) by auto
  moreover have "distinct ns"
    using mset_eq_imp_distinct_iff [OF m] \<open>distinct (map snd (d_nodes d))\<close> by (simp only: distinct_filter)
  ultimately have "sort_key n_ID ns = sort_key n_ID (filter P (map snd (d_nodes d)))"
    by (intro sort_key_unique m) (rule inj_on_subset)
  moreover have "length ns = length (filter P (map snd (d_nodes d)))"
    and "ns = [] \<longleftrightarrow> filter P (map snd (d_nodes d)) = []"
    using mset_eq_length [OF m] m by (simp_all only: mset_zero_iff_right mset_zero_iff flip: mset_zero_iff)
  ultimately show "selectRoundRobin ns d = selectRoundRobin (filter P (map snd (d_nodes d))) d"
    by (simp only: selectRoundRobin_def Let_def)
qed

lemma d_example_wf: "d_wf d_example"
  by (simp add: d_wf_def d_example_def freshNode_def Let_def)

theorem cluster_strategies_optimal_witness:
  "\<exists>n. selectLeastConnections (filter selectable (map snd (iterate rev (d_nodes d_example)))) = SelNode n \<and>
     n_inFlight n = 1"
  using cluster_strategies_optimal [OF d_example_wf d_example_sane refl, of selectable rev]
  by (auto simp: d_example_def freshNode_def Let_def iterate_def selectable_def)

section \<open>Health lifecycle\<close>

fun probe_run :: "ClusterConfig \<Rightarrow> (time \<times> probe) list \<Rightarrow> Node \<Rightarrow> Node" where
  "probe_run cfg [] n = n"
| "probe_run cfg ((t, p) # ps) n = probe_run cfg ps (checkNode t cfg p n)"

lemma probe_run_append: "probe_run cfg (ps @ qs) n = probe_run cfg qs (probe_run cfg ps n)"
  by (induction ps arbitrary: n) auto

lemma probe_run_failing:
  assumes "\<forall>(t, p) \<in> set ps. \<not> pr_health p" and "ps \<noteq> []"
  shows "n_failures (probe_run cfg ps n) = n_failures n + int (length ps) \<and>
    n_state (probe_run cfg ps n) =
      (if n_failures n + int (length ps) \<ge> (if cc_FailureThreshold cfg = 0 then 3 else cc_FailureThreshold cfg)
       then NodeStateDead else NodeStateUnhealthy)"
  using assms
proof (induction ps arbitrary: n)
  case (Cons x ps)
  obtain t p where x: "x = (t, p)" by (cases x)
  show ?case
  proof (cases "ps = []")
    case True
    then show ?thesis using Cons.prems x
      by (simp add: checkNode_def checkFailureThreshold_def markUnhealthy_def markDead_def Let_def)
  next
    case False
    then show ?thesis using Cons.IH [OF _ False, of "checkNode t cfg p n"] Cons.prems x
      by (simp add: checkNode_def checkFailureThreshold_def markUnhealthy_def markDead_def Let_def)
  qed
qed simp

text \<open>
  Health lifecycle: after a successful probe, a node is healthy with its model registry
  from that very poll in place; it becomes unhealthy with the first failing probe and dead after
  exactly the configured number of consecutive failures (three when unset), and no number of
  failures changes its breaker flag.
\<close>

theorem node_dead_after_threshold:
  assumes "pr_health p" and "\<forall>(t, q) \<in> set ps. \<not> pr_health q"
  shows "n_state (probe_run cfg [(t0, p)] n) = NodeStateHealthy \<and>
    (\<forall>ids. pr_models p = Some ids \<longrightarrow>
       (\<forall>m. servesModel m (probe_run cfg [(t0, p)] n) \<longleftrightarrow> m = '''' \<or> m \<in> set ids)) \<and>
    n_state (probe_run cfg ((t0, p) # ps) n) =
      (if ps = [] then NodeStateHealthy
       else if int (length ps) \<ge> (if cc_FailureThreshold cfg = 0 then 3 else cc_FailureThreshold cfg)
       then NodeStateDead else NodeStateUnhealthy) \<and>
    n_breakerBypassed (probe_run cfg ((t0, p) # ps) n) = n_breakerBypassed n"
proof -
  let ?n = "checkNode t0 cfg p n"
  have h: "n_state ?n = NodeStateHealthy" "n_failures ?n = 0"
    using assms(1) by (simp_all add: checkNode_def markHealthy_def)
  have m: "\<forall>ids. pr_models p = Some ids \<longrightarrow> (\<forall>m. servesModel m ?n \<longleftrightarrow> m = '''' \<or> m \<in> set ids)"
    using assms(1) by (auto simp: checkNode_def markHealthy_def fetchModels_def servesModel_def)
  have b: "n_breakerBypassed (probe_run cfg qs x) = n_breakerBypassed x" for qs x
  proof (induction qs arbitrary: x)
    case (Cons y qs)
    have "n_breakerBypassed (checkNode t cfg q x) = n_breakerBypassed x" for t q
      by (simp add: checkNode_def markHealthy_def fetchModels_def fetchRemoteMetrics_def
          checkFailureThreshold_def markUnhealthy_def markDead_def Let_def split: option.splits prod.splits)
    then show ?case using Cons by (cases y) simp
  qed simp
  show ?thesis using h m b [of "(t0, p) # ps" n] probe_run_failing [OF assms(2), of cfg ?n] by auto
qed

theorem node_dead_after_threshold_witness:
  "n_state (probe_run (d_cfg d_example)
     ((1, \<lparr>pr_health = True, pr_metrics = None, pr_models = None\<rparr>) #
       replicate 3 (2, \<lparr>pr_health = False, pr_metrics = None, pr_models = None\<rparr>))
     (snd (hd (d_nodes d_example)))) = NodeStateDead"
  using node_dead_after_threshold [of "\<lparr>pr_health = True, pr_metrics = None, pr_models = None\<rparr>"
      "replicate 3 (2, \<lparr>pr_health = False, pr_metrics = None, pr_models = None\<rparr>)" "d_cfg d_example" 1
      "snd (hd (d_nodes d_example))"]
  by (simp add: d_example_def Let_def)

end
