(* ===== verification/Engine.thy ===== *)
theory Engine
  imports Circuit_Breaker Wait_Queues Session_Affinity Cluster_Selector "HOL-Library.Word"
begin

text \<open>
  The routing engine (\<^verbatim>\<open>internal/router/engine.go\<close>, \<^verbatim>\<open>internal/router/intent.go\<close>): intent
  classification, the P-1 to P7 rule chain of \<^verbatim>\<open>decideLocked\<close>, the decide-then-admit tail of
  \<^verbatim>\<open>Decide\<close>, outcome recording and the hot-reload sequence.

  Each rule of the chain is one definition of type \<open>'c phase\<close>: it may move breaker state (reading a
  breaker drives its lazy transitions, admission reserves probes) and selector state, and returns a
  decision with the trip reasons it appended, or passes.  The chain is \<open>first_decision\<close> over the rules in the order
  of the source.  One call of \<^verbatim>\<open>Decide\<close> reads the clock once (\<open>now\<close>) and sees one value of each
  callback (\<open>localInFlight\<close>, \<open>localModels\<close>, hardware metrics); logging and metrics are left out.
  \<^verbatim>\<open>e.breakers\<close> always has the keys \<^verbatim>\<open>local\<close>, \<^verbatim>\<open>cloud\<close> and \<^verbatim>\<open>cluster\<close>, so it is three
  fields.  JSON details of a rejection are kept as the values that are marshalled.
\<close>

section \<open>Data\<close>

datatype Backend = NoBackend | LocalBackend | CloudBackend | ClusterBackend

datatype RequestType = RequestTypeChat | RequestTypeEmbedding | RequestTypeRerank

datatype RejectDetail =
    NoDetail
  | GuardDetail string
  | Overloaded string CircuitBreakerState string
  | SupplyMiss
  | UnknownBackendDetail

record RouteDecision =
  rd_Backend :: Backend
  rd_Reason :: string
  rd_NodeID :: string
  rd_CloudTarget :: string
  rd_Adapter :: string
  rd_Rejected :: bool
  rd_RejectDetail :: RejectDetail
  rd_RejectStatus :: int

definition decision :: "Backend \<Rightarrow> string \<Rightarrow> RouteDecision" where
  "decision b reason =
     \<lparr>rd_Backend = b, rd_Reason = reason, rd_NodeID = '''', rd_CloudTarget = '''', rd_Adapter = '''',
      rd_Rejected = False, rd_RejectDetail = NoDetail, rd_RejectStatus = 0\<rparr>"

record RouteRequest =
  rq_Model :: string
  rq_Text :: string
  rq_Type :: RequestType
  rq_SpaceID :: string

datatype Intent = IntentLightweight | IntentHeavyModel | IntentDiffusion | IntentCode | IntentUnknown

fun Intent_string :: "Intent \<Rightarrow> string" where
  "Intent_string IntentLightweight = ''lightweight''"
| "Intent_string IntentHeavyModel = ''heavy_model''"
| "Intent_string IntentDiffusion = ''diffusion''"
| "Intent_string IntentCode = ''code''"
| "Intent_string IntentUnknown = ''unknown''"

record IntentResult =
  ir_Intent :: Intent
  ir_Confidence :: float64
  ir_Params :: "string \<Rightarrow> string option"

text \<open>\<open>Inl ()\<close> is an error; \<open>Inr None\<close> a nil result without error.\<close>

type_synonym IntentClassifier = "RouteRequest \<Rightarrow> unit + IntentResult option"

definition NoopClassifier :: IntentClassifier where
  "NoopClassifier req =
     Inr (Some \<lparr>ir_Intent = IntentUnknown, ir_Confidence = 0, ir_Params = Map.empty\<rparr>)"

record TokenBudget =
  tb_InputTokens :: int
  tb_PredictOutputTokens :: int
  tb_TotalBudget :: int

record HardwareMetrics =
  hw_CollectionError :: bool
  hw_MemoryUsedRatio :: float64
  hw_SwapPageInRate :: "64 word"
  hw_SwapPageOutRate :: "64 word"
  hw_GPUAllocMemory :: "64 word"
  hw_GPUInUseMemory :: "64 word"
  hw_MLXActiveMemory :: "64 word"

record LocalPriorityConfig =
  lp_MaxSystemMemoryRatio :: float64
  lp_MaxMLXMemoryRatio :: float64
  lp_SwapPageRateThreshold :: "64 word"
  lp_MaxConcurrent :: int
  lp_QueueEnabled :: bool
  lp_QueueTimeout :: duration

record RoutingConfig =
  rc_Mode :: string
  rc_CloudModels :: "string list"
  rc_TokenThreshold :: int
  rc_OutputInputRatioThreshold :: float64
  rc_OutputInputRatioMinInputTokens :: int
  rc_RatioTiersEnabled :: bool
  rc_RatioRules :: "(float64 \<times> string) list"
  rc_TokenTiersEnabled :: bool
  rc_TokenMetric :: string
  rc_TokenRules :: "(int \<times> string) list"
  rc_LocalPriority :: LocalPriorityConfig
  rc_CircuitBreaker :: CircuitBreakerConfig
  rc_FallbackEnabled :: bool
  rc_ModelMapping :: "(string \<Rightarrow> string option) option"
  rc_ContextWindowFallback :: "string \<Rightarrow> string option"
  rc_IntentEnabled :: bool
  rc_IntentMinConfidence :: float64
  rc_HeuristicEnabled :: bool
  rc_HeuristicMinConfidence :: float64
  rc_CodeAdapter :: string
  rc_TierQueue :: TierQueueConfig

record Config =
  cfg_Routing :: RoutingConfig
  cfg_CollectionErrorProtection :: bool
  cfg_Supply :: "string \<Rightarrow> string list option"
  cfg_AllowCrossSupply :: "bool option"
  cfg_Backends :: "string \<Rightarrow> bool option"
  cfg_Cluster :: ClusterConfig
  cfg_BreakerDrainTimeout :: duration

type_synonym model_set = "(string \<Rightarrow> bool option) option"

record routeSnapshot =
  rs_localReady :: bool
  rs_localInFlight :: int
  rs_localModels :: model_set
  rs_hw :: HardwareMetrics
  rs_sessionAffinity :: "SessionAffinity option"
  rs_classifier :: "IntentClassifier option"
  rs_heuristicClassifier :: "IntentClassifier option"
  rs_adapterLookup :: "(string \<Rightarrow> string option) option"

record 'c Engine =
  e_cfg :: Config
  e_local :: CircuitBreaker
  e_cloud :: CircuitBreaker
  e_clusterBreaker :: CircuitBreaker
  e_nodeBreakers :: "string \<Rightarrow> CircuitBreaker option"
  e_cluster :: "'c option"
  e_wiring :: routeSnapshot
  e_localQueue :: "slotQueue option"
  e_tierQueue :: "TierQueue option"

text \<open>\<^verbatim>\<open>localModels != nil && localModels[m]\<close> and its companion reads.\<close>

definition in_local_set :: "model_set \<Rightarrow> string \<Rightarrow> bool" where
  "in_local_set ms m = (case ms of None \<Rightarrow> False | Some f \<Rightarrow> f m = Some True)"

definition known_not_local :: "model_set \<Rightarrow> string \<Rightarrow> bool" where
  "known_not_local ms m = (case ms of None \<Rightarrow> False | Some f \<Rightarrow> f m \<noteq> Some True)"

section \<open>Construction and wiring\<close>

definition buildLocalQueue :: "Config \<Rightarrow> slotQueue option" where
  "buildLocalQueue cfg =
     (let r = cfg_Routing cfg in
      if rc_Mode r \<noteq> ''local'' \<or> \<not> lp_QueueEnabled (rc_LocalPriority r) then None
      else let n = lp_MaxConcurrent (rc_LocalPriority r) in Some (newSlotQueue (if n \<le> 0 then 8 else n)))"

definition buildTierQueue :: "Config option \<Rightarrow> TierQueue option" where
  "buildTierQueue cfg =
     (case cfg of None \<Rightarrow> None
      | Some c \<Rightarrow> (let tc = rc_TierQueue (cfg_Routing c) in
          if \<not> tqc_Enabled tc then None else Some (NewTierQueue tc)))"

definition NewEngine :: "Config \<Rightarrow> HardwareMetrics \<Rightarrow> 'c Engine" where
  "NewEngine cfg hw =
     (let nb = NewCircuitBreaker (rc_CircuitBreaker (cfg_Routing cfg)) in
      \<lparr>e_cfg = cfg, e_local = nb, e_cloud = nb, e_clusterBreaker = nb, e_nodeBreakers = Map.empty,
       e_cluster = None,
       e_wiring = \<lparr>rs_localReady = False, rs_localInFlight = 0, rs_localModels = None, rs_hw = hw,
         rs_sessionAffinity = Some (NewSessionAffinity (30 * minute)),
         rs_classifier = Some NoopClassifier, rs_heuristicClassifier = None, rs_adapterLookup = None\<rparr>,
       e_localQueue = buildLocalQueue cfg, e_tierQueue = buildTierQueue (Some cfg)\<rparr>)"

definition SetClusterSelector :: "'c option \<Rightarrow> 'c Engine \<Rightarrow> 'c Engine" where
  "SetClusterSelector c e = e\<lparr>e_cluster := c\<rparr>"

definition SetIntentClassifier :: "IntentClassifier option \<Rightarrow> 'c Engine \<Rightarrow> 'c Engine" where
  "SetIntentClassifier c e = e\<lparr>e_wiring := (e_wiring e)\<lparr>rs_classifier := c\<rparr>\<rparr>"

definition SetHeuristicClassifier :: "IntentClassifier option \<Rightarrow> 'c Engine \<Rightarrow> 'c Engine" where
  "SetHeuristicClassifier c e = e\<lparr>e_wiring := (e_wiring e)\<lparr>rs_heuristicClassifier := c\<rparr>\<rparr>"

definition SetAdapterLookup :: "(string \<Rightarrow> string option) option \<Rightarrow> 'c Engine \<Rightarrow> 'c Engine" where
  "SetAdapterLookup a e = e\<lparr>e_wiring := (e_wiring e)\<lparr>rs_adapterLookup := a\<rparr>\<rparr>"

definition SetLocalReady :: "bool \<Rightarrow> 'c Engine \<Rightarrow> 'c Engine" where
  "SetLocalReady r e = e\<lparr>e_wiring := (e_wiring e)\<lparr>rs_localReady := r\<rparr>\<rparr>"

text \<open>The callbacks are represented by the value they return; a nil callback becomes the no-op.\<close>

definition SetLocalInFlight :: "int option \<Rightarrow> 'c Engine \<Rightarrow> 'c Engine" where
  "SetLocalInFlight fn e =
     e\<lparr>e_wiring := (e_wiring e)\<lparr>rs_localInFlight := (case fn of None \<Rightarrow> 0 | Some n \<Rightarrow> n)\<rparr>\<rparr>"

definition SetLocalModels :: "model_set option \<Rightarrow> 'c Engine \<Rightarrow> 'c Engine" where
  "SetLocalModels fn e =
     e\<lparr>e_wiring := (e_wiring e)\<lparr>rs_localModels := (case fn of None \<Rightarrow> None | Some m \<Rightarrow> m)\<rparr>\<rparr>"

definition UpdateConfig :: "Config \<Rightarrow> 'c Engine \<Rightarrow> 'c Engine" where
  "UpdateConfig cfg e = e\<lparr>e_cfg := cfg\<rparr>"

definition snapshotWiring :: "'c Engine \<Rightarrow> routeSnapshot" where
  "snapshotWiring e = e_wiring e"

definition IsLocalModel :: "string \<Rightarrow> 'c Engine \<Rightarrow> bool" where
  "IsLocalModel m e = (m \<noteq> '''' \<and> in_local_set (rs_localModels (e_wiring e)) m)"

definition QueueTimeout :: "'c Engine \<Rightarrow> duration" where
  "QueueTimeout e =
     (let t = lp_QueueTimeout (rc_LocalPriority (cfg_Routing (e_cfg e))) in if t \<le> 0 then 5 * second else t)"

definition RecordAffinity :: "time \<Rightarrow> string \<Rightarrow> string \<Rightarrow> 'c Engine \<Rightarrow> 'c Engine" where
  "RecordAffinity now spaceID provider e =
     (case rs_sessionAffinity (e_wiring e) of None \<Rightarrow> e
      | Some sa \<Rightarrow> e\<lparr>e_wiring := (e_wiring e)\<lparr>rs_sessionAffinity := Some (sa_Record now spaceID provider sa)\<rparr>\<rparr>)"

section \<open>Breakers\<close>

definition get_breaker :: "string \<Rightarrow> 'c Engine \<Rightarrow> CircuitBreaker option" where
  "get_breaker backend e =
     (if backend = ''local'' then Some (e_local e)
      else if backend = ''cloud'' then Some (e_cloud e)
      else if backend = ''cluster'' then Some (e_clusterBreaker e) else None)"

definition put_breaker :: "string \<Rightarrow> CircuitBreaker \<Rightarrow> 'c Engine \<Rightarrow> 'c Engine" where
  "put_breaker backend b e =
     (if backend = ''local'' then e\<lparr>e_local := b\<rparr>
      else if backend = ''cloud'' then e\<lparr>e_cloud := b\<rparr>
      else if backend = ''cluster'' then e\<lparr>e_clusterBreaker := b\<rparr> else e)"

definition CircuitBreakerState_of :: "time \<Rightarrow> string \<Rightarrow> 'c Engine \<Rightarrow> 'c Engine \<times> CircuitBreakerState" where
  "CircuitBreakerState_of now backend e =
     (case get_breaker backend e of
        None \<Rightarrow> (e, StateOpen)
      | Some b \<Rightarrow> (let (b', st) = cb_State now b in (put_breaker backend b' e, st)))"

definition RecordSuccess :: "time \<Rightarrow> string \<Rightarrow> 'c Engine \<Rightarrow> 'c Engine" where
  "RecordSuccess now backend e =
     (case get_breaker backend e of None \<Rightarrow> e
      | Some b \<Rightarrow> put_breaker backend (fst (cb_State now (cb_RecordSuccess b))) e)"

text \<open>The result's flag: a trip was counted and its event recorded.\<close>

definition RecordFailure :: "time \<Rightarrow> string \<Rightarrow> 'c Engine \<Rightarrow> 'c Engine \<times> bool" where
  "RecordFailure now backend e =
     (case get_breaker backend e of None \<Rightarrow> (e, False)
      | Some b \<Rightarrow> (let (b', st) = cb_State now (cb_RecordFailure now b)
                  in (put_breaker backend b' e, st = StateOpen)))"

definition Trip :: "time \<Rightarrow> string \<Rightarrow> string \<Rightarrow> 'c Engine \<Rightarrow> 'c Engine" where
  "Trip now backend reason e =
     (case get_breaker backend e of None \<Rightarrow> e
      | Some b \<Rightarrow> put_breaker backend (cb_Trip now reason b) e)"

definition nodeBreakerLocked :: "string \<Rightarrow> CircuitBreakerConfig \<Rightarrow> 'c Engine \<Rightarrow> CircuitBreaker" where
  "nodeBreakerLocked nid cbCfg e =
     (case e_nodeBreakers e nid of None \<Rightarrow> NewCircuitBreaker cbCfg | Some b \<Rightarrow> b)"

definition RecordNodeSuccess :: "time \<Rightarrow> 'c ClusterSelector \<Rightarrow> string \<Rightarrow> 'c Engine \<Rightarrow> 'c Engine" where
  "RecordNodeSuccess now cs nid e =
     (if nid = '''' then e
      else
        (let b = nodeBreakerLocked nid (rc_CircuitBreaker (cfg_Routing (e_cfg e))) e;
             (b1, prevState) = cb_State now b;
             (b2, st) = cb_State now (cb_RecordSuccess b1);
             e1 = e\<lparr>e_nodeBreakers := (e_nodeBreakers e)(nid \<mapsto> b2)\<rparr>
         in if st = StateClosed \<and> prevState \<noteq> StateClosed
            then e1\<lparr>e_cluster := map_option (sel_MarkNodeBreakerClosed cs nid) (e_cluster e1)\<rparr>
            else e1))"

definition RecordNodeFailure :: "time \<Rightarrow> 'c ClusterSelector \<Rightarrow> string \<Rightarrow> 'c Engine \<Rightarrow> 'c Engine" where
  "RecordNodeFailure now cs nid e =
     (if nid = '''' then e
      else
        (let b = nodeBreakerLocked nid (rc_CircuitBreaker (cfg_Routing (e_cfg e))) e;
             (b1, st) = cb_State now (cb_RecordFailure now b);
             e1 = e\<lparr>e_nodeBreakers := (e_nodeBreakers e)(nid \<mapsto> b1)\<rparr>
         in if st = StateOpen
            then e1\<lparr>e_cluster := map_option (sel_MarkNodeBreakerOpen cs nid) (e_cluster e1)\<rparr>
            else e1))"

definition nodeBreakerOpenLocked :: "time \<Rightarrow> string \<Rightarrow> 'c Engine \<Rightarrow> 'c Engine \<times> bool" where
  "nodeBreakerOpenLocked now nid e =
     (if nid = '''' then (e, False)
      else case e_nodeBreakers e nid of
        None \<Rightarrow> (e, False)
      | Some b \<Rightarrow> (let (b', st) = cb_State now b
                  in (e\<lparr>e_nodeBreakers := (e_nodeBreakers e)(nid \<mapsto> b')\<rparr>, st = StateOpen)))"

definition NodeBreakerState :: "time \<Rightarrow> string \<Rightarrow> 'c Engine \<Rightarrow> CircuitBreakerState" where
  "NodeBreakerState now nid e =
     (if nid = '''' then StateClosed
      else case e_nodeBreakers e nid of None \<Rightarrow> StateClosed | Some b \<Rightarrow> snd (cb_State now b))"

text \<open>\<^verbatim>\<open>Server.recordOutcome\<close>: where an outcome is recorded.\<close>

fun Backend_string :: "Backend \<Rightarrow> string" where
  "Backend_string NoBackend = ''''"
| "Backend_string LocalBackend = ''local''"
| "Backend_string CloudBackend = ''cloud''"
| "Backend_string ClusterBackend = ''cluster''"

definition recordOutcome ::
    "time \<Rightarrow> 'c ClusterSelector \<Rightarrow> Backend \<Rightarrow> string \<Rightarrow> bool \<Rightarrow> 'c Engine \<Rightarrow> 'c Engine" where
  "recordOutcome now cs backend nid success e =
     (if backend = ClusterBackend \<and> nid \<noteq> ''''
      then (if success then RecordNodeSuccess now cs nid e else RecordNodeFailure now cs nid e)
      else (if success then RecordSuccess now (Backend_string backend) e
            else fst (RecordFailure now (Backend_string backend) e)))"

section \<open>Helpers of the rule chain\<close>

definition matchesCloudPattern :: "string \<Rightarrow> string \<Rightarrow> bool" where
  "matchesCloudPattern modelLower pattern =
     (let pLower = ToLower (TrimSpace pattern) in
      pLower = ''*'' \<or> pLower = modelLower \<or>
      (HasSuffix pLower ''*'' \<and> HasPrefix modelLower (take (length pLower - 1) pLower)))"

definition modelAllowedByCloudList :: "string \<Rightarrow> string list \<Rightarrow> bool" where
  "modelAllowedByCloudList model patterns =
     (patterns = [] \<or> list_ex (matchesCloudPattern (ToLower model)) patterns)"

definition localExclusiveDecision :: "Config \<Rightarrow> RouteRequest \<Rightarrow> routeSnapshot \<Rightarrow> RouteDecision option" where
  "localExclusiveDecision cfg req snap =
     (if \<not> in_local_set (rs_localModels snap) (rq_Model req) then None
      else case rc_ModelMapping (cfg_Routing cfg) of
        None \<Rightarrow> Some (decision LocalBackend ''local_exclusive_model'')
      | Some mapping \<Rightarrow>
          (if \<not> rc_FallbackEnabled (cfg_Routing cfg) \<or> mapping (rq_Model req) = None
           then Some (decision LocalBackend ''local_exclusive_model'') else None))"

definition lbStrategy :: "Config \<Rightarrow> string" where
  "lbStrategy cfg =
     (if cc_LoadBalancer (cfg_Cluster cfg) = '''' then ''least-connections''
      else cc_LoadBalancer (cfg_Cluster cfg))"

text \<open>\<^verbatim>\<open>e.breakers["cluster"].Admit()\<close>\<close>

definition admitCluster :: "time \<Rightarrow> 'c Engine \<Rightarrow> 'c Engine \<times> bool" where
  "admitCluster now e =
     (let (b, ok) = cb_Admit now (e_clusterBreaker e) in (e\<lparr>e_clusterBreaker := b\<rparr>, ok))"

text \<open>The common tail of the cluster dispatchers: bypass a node whose own breaker is open.\<close>

definition dispatchNode ::
    "time \<Rightarrow> string \<Rightarrow> string option \<Rightarrow> 'c Engine \<Rightarrow> 'c Engine \<times> RouteDecision option" where
  "dispatchNode now reason r e =
     (case r of None \<Rightarrow> (e, None)
      | Some nid \<Rightarrow>
         (let (e', isOpen) = nodeBreakerOpenLocked now nid e
          in if isOpen then (e', None)
             else (e', Some ((decision ClusterBackend reason)\<lparr>rd_NodeID := nid\<rparr>))))"

definition tryClusterLocked ::
    "time \<Rightarrow> 'c ClusterSelector \<Rightarrow> Config \<Rightarrow> string \<Rightarrow> 'c Engine \<Rightarrow> 'c Engine \<times> RouteDecision option" where
  "tryClusterLocked now cs cfg model e =
     (case e_cluster e of None \<Rightarrow> (e, None)
      | Some c \<Rightarrow>
         if \<not> cc_Enabled (cfg_Cluster cfg) then (e, None)
         else let (e1, ok) = admitCluster now e in
           if \<not> ok then (e1, None)
           else if sel_HealthyNodes cs c = 0 then (e1, None)
           else let (c', r) = sel_SelectNodeByModel cs (lbStrategy cfg) model
                                (lp_MaxConcurrent (rc_LocalPriority (cfg_Routing cfg))) c
                in dispatchNode now ''cluster_fallback'' r (e1\<lparr>e_cluster := Some c'\<rparr>))"

definition tryClusterByPlatformLocked ::
    "time \<Rightarrow> 'c ClusterSelector \<Rightarrow> Config \<Rightarrow> string \<Rightarrow> 'c Engine \<Rightarrow> 'c Engine \<times> RouteDecision option" where
  "tryClusterByPlatformLocked now cs cfg platform e =
     (case e_cluster e of None \<Rightarrow> (e, None)
      | Some c \<Rightarrow>
         if \<not> cc_Enabled (cfg_Cluster cfg) \<or> platform = '''' then (e, None)
         else let (e1, ok) = admitCluster now e in
           if \<not> ok then (e1, None)
           else if sel_HealthyNodesByPlatform cs platform c = 0 then (e1, None)
           else let (c', r) = sel_SelectNodeByPlatform cs (lbStrategy cfg) platform c
                in dispatchNode now (''cluster_platform:'' @ platform) r (e1\<lparr>e_cluster := Some c'\<rparr>))"

definition haTag :: "Config \<Rightarrow> string" where
  "haTag cfg = (if cc_MacPlatformTag (cfg_Cluster cfg) = '''' then ''mac'' else cc_MacPlatformTag (cfg_Cluster cfg))"

definition tryLocalClusterHALocked ::
    "time \<Rightarrow> 'c ClusterSelector \<Rightarrow> Config \<Rightarrow> string \<Rightarrow> 'c Engine \<Rightarrow> 'c Engine \<times> RouteDecision option" where
  "tryLocalClusterHALocked now cs cfg model e =
     (if \<not> cc_Enabled (cfg_Cluster cfg) \<or> \<not> cc_HAEnabled (cfg_Cluster cfg) then (e, None)
      else case e_cluster e of None \<Rightarrow> (e, None)
      | Some c \<Rightarrow>
         if sel_HealthyNodesByPlatform cs (haTag cfg) c = 0 then (e, None)
         else let (e1, ok) = admitCluster now e in
           if \<not> ok then (e1, None)
           else if sel_HealthyNodesByModel cs model c = 0 then (e1, None)
           else let (c', r) = sel_SelectNodeByModel cs (lbStrategy cfg) model
                                (lp_MaxConcurrent (rc_LocalPriority (cfg_Routing cfg))) c
                in case r of None \<Rightarrow> (e1\<lparr>e_cluster := Some c'\<rparr>, None)
                   | Some nid \<Rightarrow>
                      (if sel_NodePlatform cs nid c' \<noteq> haTag cfg then (e1\<lparr>e_cluster := Some c'\<rparr>, None)
                       else dispatchNode now ''ha_routing:mac'' r (e1\<lparr>e_cluster := Some c'\<rparr>)))"

definition cloudOrLocalLocked ::
    "time \<Rightarrow> RouteRequest \<Rightarrow> routeSnapshot \<Rightarrow> RouteDecision \<Rightarrow> 'c Engine \<Rightarrow> 'c Engine \<times> RouteDecision" where
  "cloudOrLocalLocked now req snap cloudDecision e =
     (let (b, ok) = cb_Admit now (e_cloud e); e1 = e\<lparr>e_cloud := b\<rparr> in
      if ok then (e1, cloudDecision)
      else let e2 = e1\<lparr>e_cloud := fst (cb_State now (e_cloud e1))\<rparr> in
        if known_not_local (rs_localModels snap) (rq_Model req) then (e2, cloudDecision)
        else (e2, decision LocalBackend (rd_Reason cloudDecision @ ''_local_fallback'')))"

definition cloudOrFallbackLocked ::
    "time \<Rightarrow> 'c ClusterSelector \<Rightarrow> Config \<Rightarrow> RouteRequest \<Rightarrow> routeSnapshot \<Rightarrow> RouteDecision \<Rightarrow>
       'c Engine \<Rightarrow> 'c Engine \<times> RouteDecision" where
  "cloudOrFallbackLocked now cs cfg req snap cloudDecision e =
     (case tryClusterLocked now cs cfg (rq_Model req) e of
        (e1, Some d) \<Rightarrow> (e1, d)
      | (e1, None) \<Rightarrow> cloudOrLocalLocked now req snap cloudDecision e1)"

text \<open>The recurring ``cluster, else this decision''.\<close>

definition clusterOr ::
    "time \<Rightarrow> 'c ClusterSelector \<Rightarrow> Config \<Rightarrow> string \<Rightarrow> RouteDecision \<Rightarrow> 'c Engine \<Rightarrow> 'c Engine \<times> RouteDecision" where
  "clusterOr now cs cfg model d0 e =
     (case tryClusterLocked now cs cfg model e of
        (e1, Some d) \<Rightarrow> (e1, d) | (e1, None) \<Rightarrow> (e1, d0))"

definition resolveAdapterPath :: "(string \<Rightarrow> string option) option \<Rightarrow> string \<Rightarrow> string" where
  "resolveAdapterPath lookup name =
     (case lookup of None \<Rightarrow> name
      | Some f \<Rightarrow> (if name = '''' then name else case f name of Some path \<Rightarrow> path | None \<Rightarrow> name))"

definition tokenValue :: "string \<Rightarrow> TokenBudget \<Rightarrow> int" where
  "tokenValue metric budget =
     (if metric = ''input'' then tb_InputTokens budget
      else if metric = ''output'' then tb_PredictOutputTokens budget
      else tb_TotalBudget budget)"

fun tierRules :: "int \<Rightarrow> (int \<times> string) list \<Rightarrow> string" where
  "tierRules v [] = ''''"
| "tierRules v ((maxTokens, backend) # rules) =
     (if maxTokens = 0 \<or> v \<le> maxTokens then backend else tierRules v rules)"

definition resolveCloudByTier :: "TokenBudget \<Rightarrow> RoutingConfig \<Rightarrow> string" where
  "resolveCloudByTier budget rc = tierRules (tokenValue (rc_TokenMetric rc) budget) (rc_TokenRules rc)"

fun resolveCloudByRatio :: "float64 \<Rightarrow> (float64 \<times> string) list \<Rightarrow> string" where
  "resolveCloudByRatio ratio [] = ''''"
| "resolveCloudByRatio ratio ((maxRatio, backend) # rules) =
     (if ratio \<le> maxRatio then backend else resolveCloudByRatio ratio rules)"

definition isRerankModel :: "string \<Rightarrow> bool" where
  "isRerankModel model = list_ex (Contains model) [''rerank'', ''reranker'', ''bge-rerank'', ''cohere-rerank'']"

definition PlatformForIntent :: "Intent \<Rightarrow> string \<Rightarrow> string \<Rightarrow> string" where
  "PlatformForIntent i heavyPlatform diffusionPlatform =
     (case i of
        IntentHeavyModel \<Rightarrow> (if heavyPlatform = '''' then ''windows-cuda'' else heavyPlatform)
      | IntentDiffusion \<Rightarrow> (if diffusionPlatform = '''' then ''windows-cuda'' else diffusionPlatform)
      | _ \<Rightarrow> '''')"

section \<open>Intent classification\<close>

definition unknownIntent :: IntentResult where
  "unknownIntent = \<lparr>ir_Intent = IntentUnknown, ir_Confidence = 0, ir_Params = Map.empty\<rparr>"

definition classifyAndLog :: "IntentClassifier \<Rightarrow> RouteRequest \<Rightarrow> IntentResult" where
  "classifyAndLog c req =
     (case c req of Inl _ \<Rightarrow> unknownIntent | Inr None \<Rightarrow> unknownIntent | Inr (Some r) \<Rightarrow> r)"

definition guardBlocked :: "IntentResult \<Rightarrow> bool" where
  "guardBlocked r = (ir_Params r ''_guard_blocked'' = Some ''true'')"

definition heuristicResult :: "Config \<Rightarrow> RouteRequest \<Rightarrow> IntentClassifier option \<Rightarrow> IntentResult option" where
  "heuristicResult cfg req heuristic =
     (case heuristic of None \<Rightarrow> None
      | Some h \<Rightarrow>
         if \<not> rc_HeuristicEnabled (cfg_Routing cfg) then None
         else let hRes = classifyAndLog h req in
           if ir_Intent hRes = IntentCode \<and> ir_Confidence hRes \<ge> rc_HeuristicMinConfidence (cfg_Routing cfg)
           then Some (hRes\<lparr>ir_Params := (ir_Params hRes)(''_source'' \<mapsto> ''heuristic'')\<rparr>) else None)"

definition classifyIntentUnlocked ::
    "Config \<Rightarrow> RouteRequest \<Rightarrow> IntentClassifier option \<Rightarrow> IntentClassifier option \<Rightarrow> IntentResult option" where
  "classifyIntentUnlocked cfg req llm heuristic =
     (case heuristicResult cfg req heuristic of
        Some r \<Rightarrow> Some r
      | None \<Rightarrow>
         if \<not> rc_IntentEnabled (cfg_Routing cfg) then None
         else let res = classifyAndLog (case llm of None \<Rightarrow> NoopClassifier | Some c \<Rightarrow> c) req in
           if ir_Intent res = IntentUnknown then None
           else if guardBlocked res then Some res
           else if ir_Confidence res < rc_IntentMinConfidence (cfg_Routing cfg) then None
           else Some (res\<lparr>ir_Params := (case ir_Params res ''_source'' of
                              None \<Rightarrow> (ir_Params res)(''_source'' \<mapsto> ''llm'')
                            | Some _ \<Rightarrow> ir_Params res)\<rparr>))"

definition guardDecision :: "IntentResult \<Rightarrow> RouteDecision" where
  "guardDecision r =
     (decision LocalBackend ''laya_guard_blocked'')
       \<lparr>rd_Rejected := True, rd_RejectDetail := GuardDetail (get_str (ir_Params r) ''_guard_detail'')\<rparr>"

definition decideIntentLocked ::
    "time \<Rightarrow> 'c ClusterSelector \<Rightarrow> Config \<Rightarrow> IntentResult option \<Rightarrow> routeSnapshot \<Rightarrow>
       'c Engine \<Rightarrow> 'c Engine \<times> RouteDecision option" where
  "decideIntentLocked now cs cfg res snap e =
     (case res of None \<Rightarrow> (e, None)
      | Some r \<Rightarrow>
         if guardBlocked r then (e, Some (guardDecision r))
         else if ir_Intent r = IntentLightweight then (e, None)
         else if ir_Intent r = IntentCode then
           (let a0 = get_str (ir_Params r) ''code_adapter'';
                adapter = (if a0 = '''' then rc_CodeAdapter (cfg_Routing cfg) else a0)
            in if adapter = '''' then (e, None)
               else (e, Some ((decision LocalBackend (''intent:code:lora:'' @ adapter))
                         \<lparr>rd_Adapter := resolveAdapterPath (rs_adapterLookup snap) adapter\<rparr>)))
         else
           (let platform = PlatformForIntent (ir_Intent r) (cc_HeavyModelPlatform (cfg_Cluster cfg))
                             (cc_DiffusionPlatform (cfg_Cluster cfg))
            in if platform = '''' then (e, None)
               else case tryClusterByPlatformLocked now cs cfg platform e of
                 (e1, Some d) \<Rightarrow>
                   (e1, Some (d\<lparr>rd_Reason := ''intent:'' @ Intent_string (ir_Intent r) @ '':'' @ rd_Reason d\<rparr>))
               | (e1, None) \<Rightarrow>
                   (e1, Some (decision CloudBackend
                         (''intent:'' @ Intent_string (ir_Intent r) @ '':no_platform_node'')))))"

section \<open>The rule chain\<close>

type_synonym 'c phase = "'c Engine \<Rightarrow> 'c Engine \<times> (RouteDecision \<times> string list) option"

definition decide :: "'c Engine \<times> RouteDecision \<Rightarrow> 'c Engine \<times> (RouteDecision \<times> string list) option" where
  "decide x = (fst x, Some (snd x, []))"

definition decideTrip ::
    "string \<Rightarrow> 'c Engine \<times> RouteDecision \<Rightarrow> 'c Engine \<times> (RouteDecision \<times> string list) option" where
  "decideTrip reason x = (fst x, Some (snd x, [reason]))"

definition attempt ::
    "'c Engine \<times> RouteDecision option \<Rightarrow> 'c Engine \<times> (RouteDecision \<times> string list) option" where
  "attempt x = (fst x, map_option (\<lambda>d. (d, [])) (snd x))"

definition pass :: "'c Engine \<Rightarrow> 'c Engine \<times> (RouteDecision \<times> string list) option" where
  "pass e = (e, None)"

text \<open>Reads of the local breaker; both drive its lazy transition.\<close>

definition localState :: "time \<Rightarrow> 'c Engine \<Rightarrow> 'c Engine \<times> CircuitBreakerState" where
  "localState now e = (let (b, st) = cb_State now (e_local e) in (e\<lparr>e_local := b\<rparr>, st))"

definition localIsOpen :: "time \<Rightarrow> 'c Engine \<Rightarrow> 'c Engine \<times> bool" where
  "localIsOpen now e = (let (b, r) = cb_IsOpen now (e_local e) in (e\<lparr>e_local := b\<rparr>, r))"

definition decideEmbeddingLocked ::
    "time \<Rightarrow> 'c ClusterSelector \<Rightarrow> Config \<Rightarrow> string \<Rightarrow> routeSnapshot \<Rightarrow> 'c Engine \<Rightarrow> 'c Engine \<times> RouteDecision" where
  "decideEmbeddingLocked now cs cfg model snap e =
     (if rc_Mode (cfg_Routing cfg) = ''local'' then (e, decision LocalBackend ''mode_local:embedding'')
      else if rc_Mode (cfg_Routing cfg) = ''cloud''
      then clusterOr now cs cfg model (decision CloudBackend ''mode_cloud:embedding'') e
      else
        (let (e1, st) = localState now e in
         if st = StateOpen \<or> \<not> rs_localReady snap
         then clusterOr now cs cfg model (decision CloudBackend ''embedding_local_unavailable'') e1
         else (e1, decision LocalBackend ''embedding_local_priority'')))"

definition rerankLocal :: "time \<Rightarrow> string \<Rightarrow> routeSnapshot \<Rightarrow> 'c Engine \<Rightarrow> 'c Engine \<times> bool" where
  "rerankLocal now model snap e =
     (case rs_localModels snap of None \<Rightarrow> (e, False)
      | Some ms \<Rightarrow>
         (if rs_localReady snap \<and> isRerankModel model \<and> ms model \<noteq> None
          then (let (e1, st) = localState now e in (e1, st \<noteq> StateOpen))
          else (e, False)))"

definition decideRerankLocked ::
    "time \<Rightarrow> 'c ClusterSelector \<Rightarrow> Config \<Rightarrow> string \<Rightarrow> routeSnapshot \<Rightarrow> 'c Engine \<Rightarrow> 'c Engine \<times> RouteDecision" where
  "decideRerankLocked now cs cfg model snap e =
     (if rc_Mode (cfg_Routing cfg) = ''local'' then (e, decision LocalBackend ''mode_local:rerank'')
      else if rc_Mode (cfg_Routing cfg) = ''cloud''
      then clusterOr now cs cfg model (decision CloudBackend ''mode_cloud:rerank'') e
      else
        (let (e1, isLocal) = rerankLocal now model snap e in
         if isLocal then (e1, decision LocalBackend ''rerank_local_available'')
         else if \<not> modelAllowedByCloudList model (rc_CloudModels (cfg_Routing cfg))
         then (e1, decision LocalBackend ''cloud_models_allowlist_miss:rerank'')
         else clusterOr now cs cfg model (decision CloudBackend ''rerank_cloud_default'') e1))"

definition p_type ::
    "time \<Rightarrow> 'c ClusterSelector \<Rightarrow> Config \<Rightarrow> RouteRequest \<Rightarrow> routeSnapshot \<Rightarrow> 'c phase" where
  "p_type now cs cfg req snap e =
     (case rq_Type req of
        RequestTypeEmbedding \<Rightarrow> decide (decideEmbeddingLocked now cs cfg (rq_Model req) snap e)
      | RequestTypeRerank \<Rightarrow> decide (decideRerankLocked now cs cfg (rq_Model req) snap e)
      | RequestTypeChat \<Rightarrow> pass e)"

definition p_guard :: "IntentResult option \<Rightarrow> 'c phase" where
  "p_guard intent e =
     (case intent of None \<Rightarrow> pass e
      | Some r \<Rightarrow> if guardBlocked r then decide (e, guardDecision r) else pass e)"

definition p_mode :: "time \<Rightarrow> 'c ClusterSelector \<Rightarrow> Config \<Rightarrow> RouteRequest \<Rightarrow> 'c phase" where
  "p_mode now cs cfg req e =
     (if rc_Mode (cfg_Routing cfg) = ''local'' then decide (e, decision LocalBackend ''mode_local'')
      else if rc_Mode (cfg_Routing cfg) = ''cloud''
      then decide (clusterOr now cs cfg (rq_Model req) (decision CloudBackend ''mode_cloud'') e)
      else pass e)"

definition p_intent ::
    "time \<Rightarrow> 'c ClusterSelector \<Rightarrow> Config \<Rightarrow> IntentResult option \<Rightarrow> routeSnapshot \<Rightarrow> 'c phase" where
  "p_intent now cs cfg intent snap e = attempt (decideIntentLocked now cs cfg intent snap e)"

definition overloadedDecision :: "RouteRequest \<Rightarrow> CircuitBreaker \<Rightarrow> RouteDecision" where
  "overloadedDecision req b =
     (decision NoBackend ''local_exclusive_model_breaker_open'')
       \<lparr>rd_Rejected := True, rd_RejectStatus := 503,
        rd_RejectDetail := Overloaded (rq_Model req) (snap_State (cb_Snapshot b)) (snap_TripReason (cb_Snapshot b))\<rparr>"

definition p0_breaker ::
    "time \<Rightarrow> 'c ClusterSelector \<Rightarrow> Config \<Rightarrow> RouteRequest \<Rightarrow> routeSnapshot \<Rightarrow> 'c phase" where
  "p0_breaker now cs cfg req snap e =
     (let (e1, isOpen) = localIsOpen now e in
      if \<not> isOpen then pass e1
      else if localExclusiveDecision cfg req snap \<noteq> None
      then decide (e1, overloadedDecision req (e_local e1))
      else decide (clusterOr now cs cfg (rq_Model req) (decision CloudBackend ''circuit_breaker_open'') e1))"

definition p015_allowlist :: "Config \<Rightarrow> RouteRequest \<Rightarrow> 'c phase" where
  "p015_allowlist cfg req e =
     (if \<not> modelAllowedByCloudList (rq_Model req) (rc_CloudModels (cfg_Routing cfg))
      then decide (e, decision LocalBackend ''cloud_models_allowlist_miss'') else pass e)"

fun supplyLoop ::
    "time \<Rightarrow> Config \<Rightarrow> string \<Rightarrow> routeSnapshot \<Rightarrow> string list \<Rightarrow> 'c Engine \<Rightarrow> 'c Engine \<times> RouteDecision option" where
  "supplyLoop now cfg model snap [] e = (e, None)"
| "supplyLoop now cfg model snap (n # ns) e =
     (let name = TrimSpace n in
      if name = '''' then supplyLoop now cfg model snap ns e
      else if name = ''fusion-mlx'' then
        (if in_local_set (rs_localModels snap) model
         then let (e1, st) = localState now e in
              if st \<noteq> StateOpen \<and> rs_localReady snap
              then (e1, Some (decision LocalBackend ''models_supply:fusion-mlx''))
              else supplyLoop now cfg model snap ns e1
         else supplyLoop now cfg model snap ns e)
      else if cfg_Backends cfg name \<noteq> Some True then supplyLoop now cfg model snap ns e
      else if \<not> modelAllowedByCloudList model (rc_CloudModels (cfg_Routing cfg))
      then supplyLoop now cfg model snap ns e
      else (e, Some ((decision CloudBackend (''models_supply:'' @ name))\<lparr>rd_CloudTarget := name\<rparr>)))"

definition modelsSupplyDecision ::
    "time \<Rightarrow> Config \<Rightarrow> string \<Rightarrow> routeSnapshot \<Rightarrow> 'c Engine \<Rightarrow> 'c Engine \<times> RouteDecision option" where
  "modelsSupplyDecision now cfg model snap e =
     (case cfg_Supply cfg model of None \<Rightarrow> (e, None)
      | Some supply \<Rightarrow>
         if supply = [] then (e, None)
         else case supplyLoop now cfg model snap supply e of
           (e1, Some d) \<Rightarrow> (e1, Some d)
         | (e1, None) \<Rightarrow>
             (if cfg_AllowCrossSupply cfg = Some False
              then (e1, Some ((decision CloudBackend ''models_supply_miss'')
                      \<lparr>rd_Rejected := True, rd_RejectDetail := SupplyMiss\<rparr>))
              else (e1, None)))"

definition p018_supply :: "time \<Rightarrow> Config \<Rightarrow> RouteRequest \<Rightarrow> routeSnapshot \<Rightarrow> 'c phase" where
  "p018_supply now cfg req snap e = attempt (modelsSupplyDecision now cfg (rq_Model req) snap e)"

definition p02_exclusive :: "Config \<Rightarrow> RouteRequest \<Rightarrow> routeSnapshot \<Rightarrow> 'c phase" where
  "p02_exclusive cfg req snap e = attempt (e, localExclusiveDecision cfg req snap)"

definition p025_ha :: "time \<Rightarrow> 'c ClusterSelector \<Rightarrow> Config \<Rightarrow> RouteRequest \<Rightarrow> 'c phase" where
  "p025_ha now cs cfg req e = attempt (tryLocalClusterHALocked now cs cfg (rq_Model req) e)"

definition p03_affinity :: "time \<Rightarrow> RouteRequest \<Rightarrow> routeSnapshot \<Rightarrow> 'c phase" where
  "p03_affinity now req snap e =
     (case rs_sessionAffinity snap of None \<Rightarrow> pass e
      | Some sa \<Rightarrow>
         if rq_SpaceID req = '''' then pass e
         else case sa_Lookup now (rq_SpaceID req) sa of None \<Rightarrow> pass e
           | Some providerName \<Rightarrow>
              (if providerName = ''fusion-mlx'' then
                 (let (e1, st) = localState now e in
                  if st \<noteq> StateOpen \<and> rs_localReady snap
                  then decide (e1, decision LocalBackend ''session_affinity:local'') else pass e1)
               else decide (e, (decision CloudBackend (''session_affinity:'' @ providerName))
                                 \<lparr>rd_CloudTarget := providerName\<rparr>)))"

definition p05_hwerror ::
    "time \<Rightarrow> 'c ClusterSelector \<Rightarrow> Config \<Rightarrow> RouteRequest \<Rightarrow> routeSnapshot \<Rightarrow> 'c phase" where
  "p05_hwerror now cs cfg req snap e =
     (if hw_CollectionError (rs_hw snap) \<and> cfg_CollectionErrorProtection cfg
      then decide (cloudOrFallbackLocked now cs cfg req snap (decision CloudBackend ''metrics_collection_error'') e)
      else pass e)"

definition p1_memory ::
    "time \<Rightarrow> 'c ClusterSelector \<Rightarrow> Config \<Rightarrow> RouteRequest \<Rightarrow> routeSnapshot \<Rightarrow> 'c phase" where
  "p1_memory now cs cfg req snap e =
     (if hw_MemoryUsedRatio (rs_hw snap) > lp_MaxSystemMemoryRatio (rc_LocalPriority (cfg_Routing cfg))
      then decideTrip ''memory_overload''
             (cloudOrFallbackLocked now cs cfg req snap (decision CloudBackend ''memory_overload'') e)
      else pass e)"

definition p15_mlx ::
    "time \<Rightarrow> 'c ClusterSelector \<Rightarrow> Config \<Rightarrow> RouteRequest \<Rightarrow> routeSnapshot \<Rightarrow> 'c phase" where
  "p15_mlx now cs cfg req snap e =
     (let mlx = uint (hw_MLXActiveMemory (rs_hw snap)); alloc = uint (hw_GPUAllocMemory (rs_hw snap)) in
      if mlx > 0 \<and> alloc > 0 \<and>
         of_int mlx / of_int alloc > lp_MaxMLXMemoryRatio (rc_LocalPriority (cfg_Routing cfg))
      then decide (cloudOrFallbackLocked now cs cfg req snap (decision CloudBackend ''mlx_memory_overload'') e)
      else pass e)"

definition p2_swap ::
    "time \<Rightarrow> 'c ClusterSelector \<Rightarrow> Config \<Rightarrow> RouteRequest \<Rightarrow> routeSnapshot \<Rightarrow> 'c phase" where
  "p2_swap now cs cfg req snap e =
     (let threshold = lp_SwapPageRateThreshold (rc_LocalPriority (cfg_Routing cfg)) in
      if hw_SwapPageInRate (rs_hw snap) > threshold \<or> hw_SwapPageOutRate (rs_hw snap) > threshold
      then decideTrip ''swap_thrashing''
             (cloudOrFallbackLocked now cs cfg req snap (decision CloudBackend ''swap_thrashing'') e)
      else pass e)"

text \<open>The subtraction is on \<^verbatim>\<open>uint64\<close> and wraps.\<close>

definition gpuMemoryLow :: "HardwareMetrics \<Rightarrow> bool" where
  "gpuMemoryLow hw =
     (hw_GPUAllocMemory hw > 0 \<and> hw_GPUInUseMemory hw > 0 \<and>
      uint (hw_GPUAllocMemory hw - hw_GPUInUseMemory hw) <
        \<lfloor>(of_int (uint (hw_GPUAllocMemory hw)) :: float64) * (2 / 10)\<rfloor>)"

definition p25_gpu ::
    "time \<Rightarrow> 'c ClusterSelector \<Rightarrow> Config \<Rightarrow> RouteRequest \<Rightarrow> routeSnapshot \<Rightarrow> 'c phase" where
  "p25_gpu now cs cfg req snap e =
     (if gpuMemoryLow (rs_hw snap)
      then decide (cloudOrFallbackLocked now cs cfg req snap (decision CloudBackend ''gpu_memory_low'') e)
      else pass e)"

definition p3_ready ::
    "time \<Rightarrow> 'c ClusterSelector \<Rightarrow> Config \<Rightarrow> RouteRequest \<Rightarrow> routeSnapshot \<Rightarrow> 'c phase" where
  "p3_ready now cs cfg req snap e =
     (if \<not> rs_localReady snap
      then decide (cloudOrFallbackLocked now cs cfg req snap (decision CloudBackend ''local_not_ready'') e)
      else pass e)"

definition tierDecision :: "TokenBudget \<Rightarrow> RoutingConfig \<Rightarrow> RouteDecision" where
  "tierDecision b rc =
     (let target = (if rc_TokenTiersEnabled rc then resolveCloudByTier b rc else '''') in
      (decision CloudBackend
         (if target = '''' then ''token_budget_exceeded'' else ''token_budget_exceeded:tier:'' @ target))
        \<lparr>rd_CloudTarget := target\<rparr>)"

definition p4_budget ::
    "time \<Rightarrow> Config \<Rightarrow> RouteRequest \<Rightarrow> routeSnapshot \<Rightarrow> TokenBudget option \<Rightarrow> 'c phase" where
  "p4_budget now cfg req snap budget e =
     (case budget of
        None \<Rightarrow> decide (cloudOrLocalLocked now req snap (decision CloudBackend ''token_budget_missing'') e)
      | Some b \<Rightarrow>
         (if tb_InputTokens b = 0 then decide (e, decision LocalBackend ''empty_prompt_local'')
          else if tb_InputTokens b > rc_TokenThreshold (cfg_Routing cfg)
          then decide (cloudOrLocalLocked now req snap (tierDecision b (cfg_Routing cfg)) e)
          else pass e))"

definition minInputTokens :: "Config \<Rightarrow> int" where
  "minInputTokens cfg =
     (if rc_OutputInputRatioMinInputTokens (cfg_Routing cfg) \<le> 0 then 32
      else rc_OutputInputRatioMinInputTokens (cfg_Routing cfg))"

definition p45_ratio ::
    "time \<Rightarrow> Config \<Rightarrow> RouteRequest \<Rightarrow> routeSnapshot \<Rightarrow> TokenBudget option \<Rightarrow> 'c phase" where
  "p45_ratio now cfg req snap budget e =
     (case budget of None \<Rightarrow> pass e
      | Some b \<Rightarrow>
         if tb_InputTokens b > 0 \<and> tb_InputTokens b < minInputTokens cfg then pass e
         else if tb_InputTokens b > 0 then
           (let rc = cfg_Routing cfg;
                ratio = of_int (tb_PredictOutputTokens b) / of_int (tb_InputTokens b);
                target = (if rc_RatioTiersEnabled rc \<and> rc_RatioRules rc \<noteq> []
                          then resolveCloudByRatio ratio (rc_RatioRules rc) else '''')
            in if target \<noteq> ''''
               then decide (cloudOrLocalLocked now req snap
                      ((decision CloudBackend ''ratio_tier_matched'')\<lparr>rd_CloudTarget := target\<rparr>) e)
               else if rc_OutputInputRatioThreshold rc > 0 \<and> ratio > rc_OutputInputRatioThreshold rc
               then decide (cloudOrLocalLocked now req snap (decision CloudBackend ''output_input_ratio_exceeded'') e)
               else pass e)
         else pass e)"

definition p5_concurrent ::
    "time \<Rightarrow> 'c ClusterSelector \<Rightarrow> Config \<Rightarrow> RouteRequest \<Rightarrow> routeSnapshot \<Rightarrow> 'c phase" where
  "p5_concurrent now cs cfg req snap e =
     (let maxConcurrent = lp_MaxConcurrent (rc_LocalPriority (cfg_Routing cfg)) in
      if maxConcurrent > 0 \<and> rs_localInFlight snap \<ge> maxConcurrent
      then decide (clusterOr now cs cfg (rq_Model req) (decision CloudBackend ''concurrent_limit'') e)
      else pass e)"

definition p6_model ::
    "time \<Rightarrow> 'c ClusterSelector \<Rightarrow> Config \<Rightarrow> RouteRequest \<Rightarrow> routeSnapshot \<Rightarrow> 'c phase" where
  "p6_model now cs cfg req snap e =
     (if known_not_local (rs_localModels snap) (rq_Model req) then
        (case rc_ContextWindowFallback (cfg_Routing cfg) (rq_Model req) of
           Some fallback \<Rightarrow>
             (if in_local_set (rs_localModels snap) fallback
              then decide (e, decision LocalBackend (''context_window_fallback:'' @ fallback))
              else decide (clusterOr now cs cfg (rq_Model req) (decision CloudBackend ''model_not_available_locally'') e))
         | None \<Rightarrow> decide (clusterOr now cs cfg (rq_Model req) (decision CloudBackend ''model_not_available_locally'') e))
      else pass e)"

definition rule_chain ::
    "time \<Rightarrow> 'c ClusterSelector \<Rightarrow> Config \<Rightarrow> RouteRequest \<Rightarrow> IntentResult option \<Rightarrow> routeSnapshot \<Rightarrow>
       TokenBudget option \<Rightarrow> 'c phase list" where
  "rule_chain now cs cfg req intent snap budget =
     [p_type now cs cfg req snap, p_guard intent, p_mode now cs cfg req, p_intent now cs cfg intent snap,
      p0_breaker now cs cfg req snap, p015_allowlist cfg req, p018_supply now cfg req snap,
      p02_exclusive cfg req snap, p025_ha now cs cfg req, p03_affinity now req snap,
      p05_hwerror now cs cfg req snap, p1_memory now cs cfg req snap, p15_mlx now cs cfg req snap,
      p2_swap now cs cfg req snap, p25_gpu now cs cfg req snap, p3_ready now cs cfg req snap,
      p4_budget now cfg req snap budget, p45_ratio now cfg req snap budget,
      p5_concurrent now cs cfg req snap, p6_model now cs cfg req snap]"

text \<open>P7, the default, is the decision when every rule passes.\<close>

definition decideLocked ::
    "time \<Rightarrow> 'c ClusterSelector \<Rightarrow> Config \<Rightarrow> RouteRequest \<Rightarrow> IntentResult option \<Rightarrow> routeSnapshot \<Rightarrow>
       TokenBudget option \<Rightarrow> 'c Engine \<Rightarrow> 'c Engine \<times> RouteDecision \<times> string list" where
  "decideLocked now cs cfg req intent snap budget e =
     (case first_decision (rule_chain now cs cfg req intent snap budget) e of
        (e1, Some r) \<Rightarrow> (e1, r)
      | (e1, None) \<Rightarrow> (e1, decision LocalBackend ''local_priority'', []))"

text \<open>The decide-then-admit tail of \<^verbatim>\<open>Decide\<close>.\<close>

definition admitLocal ::
    "time \<Rightarrow> 'c ClusterSelector \<Rightarrow> Config \<Rightarrow> RouteRequest \<Rightarrow> routeSnapshot \<Rightarrow> RouteDecision \<Rightarrow>
       'c Engine \<Rightarrow> 'c Engine \<times> RouteDecision" where
  "admitLocal now cs cfg req snap d e =
     (if \<not> rd_Rejected d \<and> rd_Backend d = LocalBackend \<and> rc_Mode (cfg_Routing cfg) \<noteq> ''local'' then
        (let (b, ok) = cb_Admit now (e_local e); e1 = e\<lparr>e_local := b\<rparr> in
         if ok then (e1, d)
         else if localExclusiveDecision cfg req snap \<noteq> None then (e1, overloadedDecision req (e_local e1))
         else clusterOr now cs cfg (rq_Model req) (decision CloudBackend ''half_open_probe_busy'') e1)
      else (e, d))"

definition Decide ::
    "time \<Rightarrow> 'c ClusterSelector \<Rightarrow> Config \<Rightarrow> TokenBudget option \<Rightarrow> RouteRequest \<Rightarrow> 'c Engine \<Rightarrow>
       'c Engine \<times> RouteDecision" where
  "Decide now cs cfg budget req e =
     (let snap = snapshotWiring e;
          intent = classifyIntentUnlocked cfg req (rs_classifier snap) (rs_heuristicClassifier snap);
          (e1, d, trips) = decideLocked now cs cfg req intent snap budget e;
          e2 = foldl (\<lambda>x reason. Trip now ''local'' reason x) e1 trips
      in admitLocal now cs cfg req snap d e2)"

section \<open>Hot reload\<close>

text \<open>
  Phase 1 of \<^verbatim>\<open>DrainAndApply\<close>: each observation is the instant of one poll with the in-flight and
  waiter counts it read; the loop stops at the first zero observation or at the deadline.
\<close>

definition drainTimeout :: "Config \<Rightarrow> duration" where
  "drainTimeout cfg = (if cfg_BreakerDrainTimeout cfg = 0 then 10 * second else cfg_BreakerDrainTimeout cfg)"

fun drainLoop :: "time \<Rightarrow> (time \<times> int \<times> int) list \<Rightarrow> bool" where
  "drainLoop deadline [] = False"
| "drainLoop deadline ((t, inFlight, waiters) # obs) =
     (if \<not> t < deadline then False
      else if inFlight = 0 \<and> waiters = 0 then True
      else drainLoop deadline obs)"

definition inheritBreaker :: "Config \<Rightarrow> CircuitBreaker \<Rightarrow> CircuitBreaker" where
  "inheritBreaker cfg old =
     cb_InheritSnapshot (cb_Snapshot old) (NewCircuitBreaker (rc_CircuitBreaker (cfg_Routing cfg)))"

definition warmup :: "CircuitBreaker \<Rightarrow> CircuitBreaker" where
  "warmup b = (if snap_State (cb_Snapshot b) = StateOpen then cb_ResetToHalfOpen b else b)"

text \<open>Phases 2 and 3: swap configuration and queues, rebuild the breakers, warm up the local one.\<close>

definition DrainAndApply :: "Config \<Rightarrow> 'c Engine \<Rightarrow> 'c Engine" where
  "DrainAndApply cfg e =
     e\<lparr>e_cfg := cfg, e_localQueue := buildLocalQueue cfg, e_tierQueue := buildTierQueue (Some cfg),
       e_local := warmup (inheritBreaker cfg (e_local e)),
       e_cloud := inheritBreaker cfg (e_cloud e),
       e_clusterBreaker := inheritBreaker cfg (e_clusterBreaker e),
       e_nodeBreakers := (\<lambda>k. map_option (inheritBreaker cfg) (e_nodeBreakers e k))\<rparr>"

section \<open>Rules and breakers\<close>

lemmas phase_defs = p_type_def p_guard_def p_mode_def p_intent_def p0_breaker_def p015_allowlist_def
  p018_supply_def p02_exclusive_def p025_ha_def p03_affinity_def p05_hwerror_def p1_memory_def p15_mlx_def
  p2_swap_def p25_gpu_def p3_ready_def p4_budget_def p45_ratio_def p5_concurrent_def p6_model_def

lemmas outcome_defs = decide_def decideTrip_def attempt_def pass_def

declare phase_defs [gw_defs] outcome_defs [gw_defs]

lemma decision_sel [simp]:
  "rd_Backend (decision b r) = b" "rd_Reason (decision b r) = r" "rd_Rejected (decision b r) = False"
  "rd_RejectStatus (decision b r) = 0" "rd_NodeID (decision b r) = ''''"
  by (simp_all add: decision_def)

lemma overloaded_sel [simp]:
  "rd_Rejected (overloadedDecision req b)" "rd_RejectStatus (overloadedDecision req b) = 503"
  "rd_Backend (overloadedDecision req b) = NoBackend"
  by (simp_all add: overloadedDecision_def)

lemma guardDecision_sel [simp]:
  "rd_Rejected (guardDecision r)" "rd_RejectStatus (guardDecision r) = 0"
  "rd_Backend (guardDecision r) = LocalBackend" "rd_Reason (guardDecision r) = ''laya_guard_blocked''"
  by (simp_all add: guardDecision_def)

lemma localExclusive_cases:
  "localExclusiveDecision cfg req snap = None \<or>
   localExclusiveDecision cfg req snap = Some (decision LocalBackend ''local_exclusive_model'')"
  by (auto simp: localExclusiveDecision_def split: option.splits)

text \<open>A dispatcher touches the cluster breaker, node breakers and selector only.\<close>

lemma nodeBreakerOpen_frame [simp]:
  "e_local (fst (nodeBreakerOpenLocked now nid e)) = e_local e"
  "e_cloud (fst (nodeBreakerOpenLocked now nid e)) = e_cloud e"
  "e_cluster (fst (nodeBreakerOpenLocked now nid e)) = e_cluster e"
  "e_wiring (fst (nodeBreakerOpenLocked now nid e)) = e_wiring e"
  by (simp_all add: nodeBreakerOpenLocked_def split: option.splits prod.splits)

lemma dispatchNode_frame [simp]:
  "e_local (fst (dispatchNode now r s e)) = e_local e"
  "e_cloud (fst (dispatchNode now r s e)) = e_cloud e"
  "e_cluster (fst (dispatchNode now r s e)) = e_cluster e"
  by (simp_all add: dispatchNode_def case_prod_beta split: option.splits)

lemma tryCluster_frame [simp]:
  "e_local (fst (tryClusterLocked now cs cfg m e)) = e_local e"
  "e_local (fst (tryClusterByPlatformLocked now cs cfg p e)) = e_local e"
  "e_local (fst (tryLocalClusterHALocked now cs cfg m e)) = e_local e"
  "e_cloud (fst (tryClusterLocked now cs cfg m e)) = e_cloud e"
  by (auto simp: tryClusterLocked_def tryClusterByPlatformLocked_def tryLocalClusterHALocked_def admitCluster_def
      split: option.splits prod.splits)

lemma dispatchNode_backend:
  "dispatchNode now r s e = (e', Some d) \<Longrightarrow> rd_Backend d = ClusterBackend \<and> \<not> rd_Rejected d"
  by (auto simp: dispatchNode_def split: option.splits prod.splits if_splits)

lemma tryCluster_backend:
  "tryClusterLocked now cs cfg m e = (e', Some d) \<Longrightarrow> rd_Backend d = ClusterBackend \<and> \<not> rd_Rejected d"
  "tryClusterByPlatformLocked now cs cfg p e = (e', Some d) \<Longrightarrow> rd_Backend d = ClusterBackend \<and> \<not> rd_Rejected d"
  "tryLocalClusterHALocked now cs cfg m e = (e', Some d) \<Longrightarrow> rd_Backend d = ClusterBackend \<and> \<not> rd_Rejected d"
  by (auto simp: tryClusterLocked_def tryClusterByPlatformLocked_def tryLocalClusterHALocked_def
      dest: dispatchNode_backend split: option.splits prod.splits if_splits)

lemma clusterOr_cases:
  assumes "clusterOr now cs cfg m d0 e = (e', d)"
  shows "e_local e' = e_local e \<and> (d = d0 \<or> rd_Backend d = ClusterBackend \<and> \<not> rd_Rejected d)"
  using assms tryCluster_frame(1) [of now cs cfg m e] tryCluster_backend(1) [of now cs cfg m e]
  by (cases "tryClusterLocked now cs cfg m e") (auto simp: clusterOr_def split: option.splits)

lemma tryCluster_None: "e_cluster e = None \<Longrightarrow> tryClusterLocked now cs cfg m e = (e, None)"
  by (simp add: tryClusterLocked_def)

end
