(* ===== verification/Engine_Routing.thy ===== *)
theory Engine_Routing
  imports Engine
begin

text \<open>
  Properties of the routing decision: mode overrides, admission of local dispatches, what an open local
  breaker, a local-exclusive model and the cloud allowlist force, how overload trips interact with the
  admission tail, and two places where the chain does not do what its comments say.
\<close>

section \<open>A concrete engine\<close>

definition noSelector :: "unit ClusterSelector" where
  "noSelector = \<lparr>sel_HealthyNodes = (\<lambda>_. 0), sel_SelectNode = (\<lambda>_ c. (c, None)),
     sel_HealthyNodesByPlatform = (\<lambda>_ _. 0), sel_SelectNodeByPlatform = (\<lambda>_ _ c. (c, None)),
     sel_HealthyNodesByModel = (\<lambda>_ _. 0), sel_SelectNodeByModel = (\<lambda>_ _ _ c. (c, None)),
     sel_MarkNodeBreakerOpen = (\<lambda>_ c. c), sel_MarkNodeBreakerClosed = (\<lambda>_ c. c), sel_NodePlatform = (\<lambda>_ _. '''')\<rparr>"

definition cfg_example :: Config where
  "cfg_example =
     \<lparr>cfg_Routing = \<lparr>rc_Mode = ''hybrid'', rc_CloudModels = [], rc_TokenThreshold = 1000,
        rc_OutputInputRatioThreshold = 0, rc_OutputInputRatioMinInputTokens = 0, rc_RatioTiersEnabled = False,
        rc_RatioRules = [], rc_TokenTiersEnabled = False, rc_TokenMetric = '''', rc_TokenRules = [],
        rc_LocalPriority = \<lparr>lp_MaxSystemMemoryRatio = 9/10, lp_MaxMLXMemoryRatio = 1,
          lp_SwapPageRateThreshold = 100, lp_MaxConcurrent = 4, lp_QueueEnabled = False, lp_QueueTimeout = 0\<rparr>,
        rc_CircuitBreaker = \<lparr>FailureThreshold = 3, cbTimeout = 30 * second, HalfOpenMaxRequests = 1, SuccessThreshold = 1\<rparr>,
        rc_FallbackEnabled = True, rc_ModelMapping = Some [''m'' \<mapsto> ''gpt''], rc_ContextWindowFallback = Map.empty,
        rc_IntentEnabled = True, rc_IntentMinConfidence = 1/2, rc_HeuristicEnabled = True,
        rc_HeuristicMinConfidence = 1/2, rc_CodeAdapter = ''lora-code'',
        rc_TierQueue = \<lparr>tqc_Enabled = False, tqc_MaxConcurrent = 0, tqc_QueueTimeout = 0, tqc_HeavyGuarantee = 0,
          tqc_LightGuarantee = 0\<rparr>\<rparr>,
      cfg_CollectionErrorProtection = True, cfg_Supply = Map.empty, cfg_AllowCrossSupply = None,
      cfg_Backends = Map.empty,
      cfg_Cluster = \<lparr>cc_Enabled = False, cc_Nodes = [], cc_IgnoreMasterStrategy = False, cc_MaxStaleAge = 0,
        cc_LoadBalancer = '''', cc_FailureThreshold = 0, cc_HAEnabled = False, cc_MacPlatformTag = '''',
        cc_HeavyModelPlatform = '''', cc_DiffusionPlatform = ''''\<rparr>,
      cfg_BreakerDrainTimeout = 0\<rparr>"

definition hw_example :: HardwareMetrics where
  "hw_example = \<lparr>hw_CollectionError = False, hw_MemoryUsedRatio = 1/2, hw_SwapPageInRate = 0,
     hw_SwapPageOutRate = 0, hw_GPUAllocMemory = 0, hw_GPUInUseMemory = 0, hw_MLXActiveMemory = 0\<rparr>"

definition e_example :: "unit Engine" where
  "e_example = SetLocalModels (Some (Some [''m'' \<mapsto> True, ''x'' \<mapsto> True]))
     (SetLocalReady True (NewEngine cfg_example hw_example))"

definition chat :: "string \<Rightarrow> RouteRequest" where
  "chat m = \<lparr>rq_Model = m, rq_Text = '''', rq_Type = RequestTypeChat, rq_SpaceID = ''''\<rparr>"

definition blocker :: IntentClassifier where
  "blocker req = Inr (Some \<lparr>ir_Intent = IntentHeavyModel, ir_Confidence = 0,
     ir_Params = [''_guard_blocked'' \<mapsto> ''true'', ''_guard_detail'' \<mapsto> ''jailbreak'']\<rparr>)"

definition coder :: IntentClassifier where
  "coder req = Inr (Some \<lparr>ir_Intent = IntentCode, ir_Confidence = 1, ir_Params = Map.empty\<rparr>)"

lemmas example_defs = e_example_def cfg_example_def hw_example_def chat_def NewEngine_def SetLocalModels_def
  SetLocalReady_def SetIntentClassifier_def SetHeuristicClassifier_def NewCircuitBreaker_def Let_def

section \<open>The chain for a plain chat request\<close>

text \<open>A chat request the intent layer leaves to the rules, outside the \<open>local\<close> and \<open>cloud\<close> modes.\<close>

definition ruled_chat :: "Config \<Rightarrow> RouteRequest \<Rightarrow> 'c Engine \<Rightarrow> bool" where
  "ruled_chat cfg req e \<longleftrightarrow> rq_Type req = RequestTypeChat \<and>
     rc_Mode (cfg_Routing cfg) \<noteq> ''local'' \<and> rc_Mode (cfg_Routing cfg) \<noteq> ''cloud'' \<and>
     classifyIntentUnlocked cfg req (rs_classifier (e_wiring e)) (rs_heuristicClassifier (e_wiring e)) = None"

definition chat_rules ::
    "time \<Rightarrow> 'c ClusterSelector \<Rightarrow> Config \<Rightarrow> RouteRequest \<Rightarrow> routeSnapshot \<Rightarrow> TokenBudget option \<Rightarrow> 'c phase list" where
  "chat_rules now cs cfg req snap budget = drop 5 (rule_chain now cs cfg req None snap budget)"

lemma decideLocked_ruled:
  assumes "rq_Type req = RequestTypeChat" "rc_Mode (cfg_Routing cfg) \<noteq> ''local''"
    "rc_Mode (cfg_Routing cfg) \<noteq> ''cloud''"
  shows "decideLocked now cs cfg req None snap budget e =
    (case p0_breaker now cs cfg req snap e of
       (e1, Some r) \<Rightarrow> (e1, r)
     | (e1, None) \<Rightarrow>
         (case first_decision (chat_rules now cs cfg req snap budget) e1 of
            (e2, Some r) \<Rightarrow> (e2, r)
          | (e2, None) \<Rightarrow> (e2, decision LocalBackend ''local_priority'', [])))"
proof -
  have "p_type now cs cfg req snap e = (e, None)" "p_guard None e = (e, None)" "p_mode now cs cfg req e = (e, None)"
    "p_intent now cs cfg None snap e = (e, None)"
    using assms by (simp_all add: p_type_def p_guard_def p_mode_def p_intent_def decideIntentLocked_def pass_def attempt_def)
  moreover obtain e1 r where "p0_breaker now cs cfg req snap e = (e1, r)"
    by (cases "p0_breaker now cs cfg req snap e")
  ultimately show ?thesis
    by (cases r) (simp_all add: decideLocked_def chat_rules_def rule_chain_def)
qed

text \<open>The local breaker when it is about to be read: not open, or open past its timeout.\<close>

definition local_not_open :: "time \<Rightarrow> 'c Engine \<Rightarrow> bool" where
  "local_not_open now e \<longleftrightarrow> snd (cb_State now (e_local e)) \<noteq> StateOpen"

lemma p0_passes:
  "local_not_open now e \<Longrightarrow>
     p0_breaker now cs cfg req snap e = (e\<lparr>e_local := fst (cb_State now (e_local e))\<rparr>, None)"
  by (simp add: p0_breaker_def localIsOpen_def cb_IsOpen_def local_not_open_def pass_def case_prod_beta Let_def)

section \<open>The safety guard\<close>

lemma guard_decides:
  assumes "rq_Type req = RequestTypeChat" and "rc_IntentEnabled (cfg_Routing cfg)"
    and "heuristicResult cfg req (rs_heuristicClassifier (e_wiring e)) = None"
    and "rs_classifier (e_wiring e) = Some c" and "c req = Inr (Some r)"
    and "ir_Intent r \<noteq> IntentUnknown" and "ir_Params r ''_guard_blocked'' = Some ''true''"
  shows "Decide now cs cfg budget req e = (e, guardDecision r)"
proof -
  have "classifyIntentUnlocked cfg req (rs_classifier (e_wiring e)) (rs_heuristicClassifier (e_wiring e)) = Some r"
    using assms by (simp add: classifyIntentUnlocked_def classifyAndLog_def guardBlocked_def)
  moreover have "guardBlocked r" using assms(7) by (simp add: guardBlocked_def)
  ultimately show ?thesis using assms(1)
    by (simp add: Decide_def snapshotWiring_def decideLocked_def rule_chain_def p_type_def p_guard_def
        outcome_defs admitLocal_def Let_def guardDecision_def decision_def)
qed

text \<open>
  C1. A request the safety guard blocked is never dispatched: if the configured classifier flags the
  chat request (with any confidence and any known intent) and no heuristic shortcut applied, the decision is a
  rejection carrying the guard's detail, in every routing mode, and no breaker, probe or cluster state is touched.
\<close>

theorem guard_blocked_never_dispatched:
  assumes "rq_Type req = RequestTypeChat" and "rc_IntentEnabled (cfg_Routing cfg)"
    and "heuristicResult cfg req (rs_heuristicClassifier (e_wiring e)) = None"
    and "rs_classifier (e_wiring e) = Some c" and "c req = Inr (Some r)"
    and "ir_Intent r \<noteq> IntentUnknown" and "ir_Params r ''_guard_blocked'' = Some ''true''"
  shows "\<exists>d. Decide now cs cfg budget req e = (e, d) \<and> rd_Rejected d \<and> rd_RejectStatus d = 0 \<and>
    rd_RejectDetail d = GuardDetail (get_str (ir_Params r) ''_guard_detail'')"
  using guard_decides [OF assms] by (simp add: guardDecision_def decision_def)

theorem guard_blocked_never_dispatched_witness:
  "rd_Rejected (snd (Decide 5 noSelector cfg_example None (chat ''m'') (SetIntentClassifier (Some blocker) e_example)))"
proof -
  let ?e = "SetIntentClassifier (Some blocker) e_example"
  have "rq_Type (chat ''m'') = RequestTypeChat" "rc_IntentEnabled (cfg_Routing cfg_example)"
    "heuristicResult cfg_example (chat ''m'') (rs_heuristicClassifier (e_wiring ?e)) = None"
    "rs_classifier (e_wiring ?e) = Some blocker"
    by (simp_all add: example_defs heuristicResult_def)
  moreover obtain r where "blocker (chat ''m'') = Inr (Some r)" "ir_Intent r \<noteq> IntentUnknown"
    "ir_Params r ''_guard_blocked'' = Some ''true''"
    by (simp add: blocker_def)
  ultimately obtain d where "Decide 5 noSelector cfg_example None (chat ''m'') ?e = (?e, d)" "rd_Rejected d"
    using guard_blocked_never_dispatched by metis
  then show ?thesis by simp
qed

text \<open>
  The heuristic shortcut bypasses the guard: when the in-process heuristic recognises code and a code adapter
  is configured, the decision is the local code dispatch (subject to breaker admission) and the guard-bearing classifier
  is never consulted, so replacing it by one that blocks everything changes nothing.
\<close>

theorem heuristic_code_skips_guard:
  assumes "rq_Type req = RequestTypeChat"
    and "rc_Mode (cfg_Routing cfg) \<noteq> ''local''" and "rc_Mode (cfg_Routing cfg) \<noteq> ''cloud''"
    and "heuristicResult cfg req (rs_heuristicClassifier (e_wiring e)) = Some r" and "\<not> guardBlocked r"
    and "get_str (ir_Params r) ''code_adapter'' = ''''" and "rc_CodeAdapter (cfg_Routing cfg) \<noteq> ''''"
    and "cb_state (e_local e) = StateClosed"
  shows "\<exists>e' d. Decide now cs cfg budget req (SetIntentClassifier (Some blocker) e) = (e', d) \<and>
    rd_Backend d = LocalBackend \<and> \<not> rd_Rejected d \<and>
    rd_Reason d = ''intent:code:lora:'' @ rc_CodeAdapter (cfg_Routing cfg)"
proof -
  let ?e = "SetIntentClassifier (Some blocker) e"
  have w: "rs_heuristicClassifier (e_wiring ?e) = rs_heuristicClassifier (e_wiring e)" "e_local ?e = e_local e"
    by (simp_all add: SetIntentClassifier_def)
  have c: "classifyIntentUnlocked cfg req l (rs_heuristicClassifier (e_wiring e)) = Some r" for l
    using assms(4) by (simp add: classifyIntentUnlocked_def)
  have i: "ir_Intent r = IntentCode"
    using assms(4) by (auto simp: heuristicResult_def Let_def split: option.splits if_splits)
  show ?thesis using assms(1-3,5-8) w c i
    by (simp add: Decide_def snapshotWiring_def decideLocked_def rule_chain_def p_type_def p_guard_def p_mode_def
        p_intent_def decideIntentLocked_def outcome_defs admitLocal_def Let_def cb_Admit_def)
qed

theorem heuristic_code_skips_guard_witness:
  "\<exists>d. snd (Decide 5 noSelector cfg_example None (chat ''m'')
       (SetIntentClassifier (Some blocker) (SetHeuristicClassifier (Some coder) e_example))) = d \<and>
     rd_Backend d = LocalBackend \<and> \<not> rd_Rejected d"
proof -
  let ?e = "SetHeuristicClassifier (Some coder) e_example"
  obtain r where "heuristicResult cfg_example (chat ''m'') (rs_heuristicClassifier (e_wiring ?e)) = Some r"
    "\<not> guardBlocked r" "get_str (ir_Params r) ''code_adapter'' = ''''"
    by (simp add: example_defs heuristicResult_def coder_def classifyAndLog_def guardBlocked_def get_str_def)
  moreover have "rq_Type (chat ''m'') = RequestTypeChat" "rc_Mode (cfg_Routing cfg_example) \<noteq> ''local''"
    "rc_Mode (cfg_Routing cfg_example) \<noteq> ''cloud''" "rc_CodeAdapter (cfg_Routing cfg_example) \<noteq> ''''"
    "cb_state (e_local ?e) = StateClosed"
    by (simp_all add: example_defs)
  ultimately obtain e' d where "Decide 5 noSelector cfg_example None (chat ''m'') (SetIntentClassifier (Some blocker) ?e) = (e', d)"
    "rd_Backend d = LocalBackend" "\<not> rd_Rejected d"
    using heuristic_code_skips_guard by metis
  then show ?thesis by simp
qed

section \<open>Modes\<close>

text \<open>
  In mode \<open>local\<close> every request the guard does not block is dispatched locally, whatever the state of
  breakers, hardware, cluster and model set; no probe is consumed and nothing changes in the engine.
\<close>

theorem mode_local_forces_local:
  assumes "rc_Mode (cfg_Routing cfg) = ''local''"
    and "\<forall>r. classifyIntentUnlocked cfg req (rs_classifier (e_wiring e)) (rs_heuristicClassifier (e_wiring e)) = Some r \<longrightarrow>
      \<not> guardBlocked r"
  shows "\<exists>d. Decide now cs cfg budget req e = (e, d) \<and> rd_Backend d = LocalBackend \<and> \<not> rd_Rejected d"
  using assms
  by (cases "rq_Type req")
    (auto simp: Decide_def snapshotWiring_def decideLocked_def rule_chain_def p_type_def p_guard_def p_mode_def
      decideEmbeddingLocked_def decideRerankLocked_def outcome_defs admitLocal_def Let_def split: option.splits)

theorem mode_local_forces_local_witness:
  "\<exists>d. Decide 5 noSelector (cfg_example\<lparr>cfg_Routing := (cfg_Routing cfg_example)\<lparr>rc_Mode := ''local''\<rparr>\<rparr>) None
      (chat ''m'') (Trip 1 ''local'' ''test'' e_example) = (Trip 1 ''local'' ''test'' e_example, d) \<and>
      rd_Backend d = LocalBackend \<and> \<not> rd_Rejected d"
  using mode_local_forces_local [of "cfg_example\<lparr>cfg_Routing := (cfg_Routing cfg_example)\<lparr>rc_Mode := ''local''\<rparr>\<rparr>"
      "chat ''m''" "Trip 1 ''local'' ''test'' e_example" 5 noSelector None]
  by (simp add: example_defs Trip_def get_breaker_def put_breaker_def classifyIntentUnlocked_def heuristicResult_def
      classifyAndLog_def NoopClassifier_def)

section \<open>Admission of local dispatches\<close>

lemma cb_Admit_granted:
  "cb_Admit now b = (b', True) \<Longrightarrow>
     cb_state b' = StateClosed \<or>
     (cb_state b' = StateHalfOpen \<and> cb_probeInFlight b' \<and> cb_probeDeadline b' = now + cb_probeWindow b')"
  by (auto simp: cb_Admit_def cb_probeWindow_def split: CircuitBreakerState.splits if_splits)

lemma admitLocal_granted:
  assumes "admitLocal now cs cfg req snap d0 e = (e', d)" "rc_Mode (cfg_Routing cfg) \<noteq> ''local''"
    and "rd_Backend d = LocalBackend" "\<not> rd_Rejected d"
  shows "d = d0 \<and> cb_Admit now (e_local e) = (e_local e', True)"
proof -
  have *: "\<not> rd_Rejected d0" "rd_Backend d0 = LocalBackend"
    using assms by (auto simp: admitLocal_def split: if_splits)
  obtain b ok where a: "cb_Admit now (e_local e) = (b, ok)" by (cases "cb_Admit now (e_local e)")
  show ?thesis
  proof (cases ok)
    case True
    then show ?thesis using a assms * by (auto simp: admitLocal_def)
  next
    case False
    then show ?thesis using a assms * clusterOr_cases [of now cs cfg "rq_Model req"
        "decision CloudBackend ''half_open_probe_busy''" "e\<lparr>e_local := b\<rparr>" e' d]
      by (auto simp: admitLocal_def Let_def split: if_splits)
  qed
qed

text \<open>
  C2. Decide-then-admit: outside mode \<open>local\<close>, whenever the engine decides for the local backend the local
  breaker has admitted exactly this request at that instant: it is closed, or it is half-open and its single
  probe has just been reserved for this request with a fresh deadline.
\<close>

theorem decide_local_is_admitted:
  assumes "Decide now cs cfg budget req e = (e', d)" and "rc_Mode (cfg_Routing cfg) \<noteq> ''local''"
    and "rd_Backend d = LocalBackend" and "\<not> rd_Rejected d"
  shows "cb_state (e_local e') = StateClosed \<or>
    (cb_state (e_local e') = StateHalfOpen \<and> cb_probeInFlight (e_local e') \<and>
     cb_probeDeadline (e_local e') = now + cb_probeWindow (e_local e'))"
proof -
  obtain snap d0 e2 where "admitLocal now cs cfg req snap d0 e2 = (e', d)"
    using assms(1) by (auto simp: Decide_def Let_def split: prod.splits)
  from admitLocal_granted [OF this assms(2-4)] cb_Admit_granted show ?thesis by blast
qed

lemma ruled_chat_example: "ruled_chat cfg_example (chat m) e_example"
  by (simp add: ruled_chat_def example_defs classifyIntentUnlocked_def heuristicResult_def classifyAndLog_def
      NoopClassifier_def)

theorem decide_local_is_admitted_witness:
  "\<exists>e' d. Decide 5 noSelector cfg_example (Some \<lparr>tb_InputTokens = 0, tb_PredictOutputTokens = 0, tb_TotalBudget = 0\<rparr>)
      (chat ''x'') (e_example\<lparr>e_local := (e_local e_example)\<lparr>cb_state := StateHalfOpen\<rparr>\<rparr>) = (e', d) \<and>
     rd_Backend d = LocalBackend \<and> cb_probeInFlight (e_local e')"
proof -
  let ?e = "e_example\<lparr>e_local := (e_local e_example)\<lparr>cb_state := StateHalfOpen\<rparr>\<rparr>"
  let ?b = "Some \<lparr>tb_InputTokens = 0, tb_PredictOutputTokens = 0, tb_TotalBudget = 0\<rparr>"
  obtain e' d where *: "Decide 5 noSelector cfg_example ?b (chat ''x'') ?e = (e', d)" "rd_Backend d = LocalBackend"
    "\<not> rd_Rejected d" "cb_state (e_local e') = StateHalfOpen"
    by (simp add: Decide_def snapshotWiring_def decideLocked_def rule_chain_def phase_defs outcome_defs
        decideIntentLocked_def classifyIntentUnlocked_def heuristicResult_def classifyAndLog_def NoopClassifier_def
        localIsOpen_def cb_IsOpen_def cb_State_def modelAllowedByCloudList_def modelsSupplyDecision_def
        localExclusiveDecision_def in_local_set_def admitLocal_def cb_Admit_def example_defs)
  moreover have "rc_Mode (cfg_Routing cfg_example) \<noteq> ''local''" by (simp add: cfg_example_def)
  ultimately have "cb_probeInFlight (e_local e')" using decide_local_is_admitted by fastforce
  then show ?thesis using * by blast
qed

section \<open>Rules leave a settled local breaker alone\<close>

text \<open>A breaker is settled at an instant when reading it does not move it.\<close>

definition settled :: "time \<Rightarrow> CircuitBreaker \<Rightarrow> bool" where
  "settled now b \<longleftrightarrow> fst (cb_State now b) = b"

lemma cb_State_settles: "settled now (fst (cb_State now b))"
  by (simp add: settled_def cb_State_def)

lemma local_reads_settled:
  assumes "settled now (e_local e)"
  shows "fst (localState now e) = e" "fst (localIsOpen now e) = e"
  using assms by (simp_all add: settled_def localState_def localIsOpen_def cb_IsOpen_def case_prod_beta Let_def)

lemma helpers_local [simp]:
  "e_local (fst (clusterOr now cs cfg m d0 e)) = e_local e"
  "e_local (fst (cloudOrLocalLocked now req snap d0 e)) = e_local e"
  "e_local (fst (cloudOrFallbackLocked now cs cfg req snap d0 e)) = e_local e"
proof -
  show cl: "e_local (fst (cloudOrLocalLocked now req snap d0 e)) = e_local e" for e :: "'a Engine"
    by (simp add: cloudOrLocalLocked_def case_prod_beta Let_def)
  show "e_local (fst (clusterOr now cs cfg m d0 e)) = e_local e"
    using tryCluster_frame(1) [of now cs cfg m e]
    by (cases "tryClusterLocked now cs cfg m e") (auto simp: clusterOr_def split: option.splits)
  show "e_local (fst (cloudOrFallbackLocked now cs cfg req snap d0 e)) = e_local e"
    using tryCluster_frame(1) [of now cs cfg "rq_Model req" e] cl
    by (cases "tryClusterLocked now cs cfg (rq_Model req) e") (auto simp: cloudOrFallbackLocked_def split: option.splits)
qed

lemma supplyLoop_settled:
  "settled now (e_local e) \<Longrightarrow> fst (supplyLoop now cfg m snap ns e) = e"
proof (induction ns)
  case (Cons n ns)
  obtain st where "localState now e = (e, st)"
    using local_reads_settled(1) [OF Cons.prems] by (metis prod.collapse)
  then show ?case using Cons by (simp add: Let_def)
qed simp

lemma embedding_settled [simp]:
  "settled now (e_local e) \<Longrightarrow> e_local (fst (decideEmbeddingLocked now cs cfg m snap e)) = e_local e"
  using local_reads_settled(1) [of now e]
  by (cases "localState now e") (simp add: decideEmbeddingLocked_def)

lemma rerank_settled [simp]:
  "settled now (e_local e) \<Longrightarrow> e_local (fst (decideRerankLocked now cs cfg m snap e)) = e_local e"
  using local_reads_settled(1) [of now e]
  by (cases "localState now e") (simp add: decideRerankLocked_def rerankLocal_def split: option.splits)

lemma supply_settled [simp]:
  "settled now (e_local e) \<Longrightarrow> e_local (fst (modelsSupplyDecision now cfg m snap e)) = e_local e"
  using supplyLoop_settled [of now e cfg m snap]
  by (auto simp: modelsSupplyDecision_def split: option.splits prod.splits)
    (metis fst_conv)+

lemma intent_settled [simp]: "e_local (fst (decideIntentLocked now cs cfg r snap e)) = e_local e"
  by (simp add: decideIntentLocked_def Let_def split: option.splits)

lemma phases_settled:
  assumes "settled now (e_local e)"
  shows "e_local (fst (p_type now cs cfg req snap e)) = e_local e"
    "e_local (fst (p_guard intent e)) = e_local e" "e_local (fst (p_mode now cs cfg req e)) = e_local e"
    "e_local (fst (p_intent now cs cfg intent snap e)) = e_local e"
    "e_local (fst (p0_breaker now cs cfg req snap e)) = e_local e"
    "e_local (fst (p015_allowlist cfg req e)) = e_local e"
    "e_local (fst (p018_supply now cfg req snap e)) = e_local e"
    "e_local (fst (p02_exclusive cfg req snap e)) = e_local e"
    "e_local (fst (p025_ha now cs cfg req e)) = e_local e"
    "e_local (fst (p03_affinity now req snap e)) = e_local e"
    "e_local (fst (p05_hwerror now cs cfg req snap e)) = e_local e"
    "e_local (fst (p1_memory now cs cfg req snap e)) = e_local e"
    "e_local (fst (p15_mlx now cs cfg req snap e)) = e_local e"
    "e_local (fst (p2_swap now cs cfg req snap e)) = e_local e"
    "e_local (fst (p25_gpu now cs cfg req snap e)) = e_local e"
    "e_local (fst (p3_ready now cs cfg req snap e)) = e_local e"
    "e_local (fst (p4_budget now cfg req snap budget e)) = e_local e"
    "e_local (fst (p45_ratio now cfg req snap budget e)) = e_local e"
    "e_local (fst (p5_concurrent now cs cfg req snap e)) = e_local e"
    "e_local (fst (p6_model now cs cfg req snap e)) = e_local e"
proof -
  show "e_local (fst (p0_breaker now cs cfg req snap e)) = e_local e"
    using local_reads_settled(2) [OF assms] by (cases "localIsOpen now e") (simp add: p0_breaker_def outcome_defs)
  show "e_local (fst (p03_affinity now req snap e)) = e_local e"
    using local_reads_settled(1) [OF assms]
    by (cases "localState now e") (simp add: p03_affinity_def outcome_defs split: option.splits)
qed (use assms in \<open>simp_all add: p_type_def p_guard_def p_mode_def p_intent_def p015_allowlist_def p018_supply_def
      p02_exclusive_def p025_ha_def p05_hwerror_def p1_memory_def p15_mlx_def p2_swap_def p25_gpu_def p3_ready_def
      p4_budget_def p45_ratio_def p5_concurrent_def p6_model_def outcome_defs Let_def
      split: option.splits RequestType.splits\<close>)

lemma decideLocked_settled:
  assumes "settled now (e_local e)"
  shows "e_local (fst (decideLocked now cs cfg req intent snap budget e)) = e_local e"
proof -
  have "\<forall>p \<in> set (rule_chain now cs cfg req intent snap budget).
      rule_keeps (\<lambda>x. e_local x = e_local e) (\<lambda>_ _. True) p"
    using assms by (simp add: rule_chain_def rule_keeps_def case_prod_beta phases_settled)
  from first_decision_keeps [OF this]
  have "e_local (fst (first_decision (rule_chain now cs cfg req intent snap budget) e)) = e_local e"
    by (simp add: rule_keeps_def case_prod_beta)
  then show ?thesis by (simp add: decideLocked_def)
qed

section \<open>Open breakers, trips and pinned models\<close>

lemma Trip_local [simp]: "e_local (Trip now ''local'' r e) = cb_Trip now r (e_local e)"
  "e_cluster (Trip now ''local'' r e) = e_cluster e"
  by (simp_all add: Trip_def get_breaker_def put_breaker_def)

lemma trips_state:
  "cb_state (e_local (foldl (\<lambda>x r. Trip now ''local'' r x) e trips)) =
     (if trips = [] then cb_state (e_local e) else StateOpen)"
  by (induction trips arbitrary: e) (simp_all add: cb_Trip_def)

lemma trips_cluster [simp]:
  "e_cluster (foldl (\<lambda>x r. Trip now ''local'' r x) e trips) = e_cluster e"
  by (induction trips arbitrary: e) simp_all

lemma admit_open_denied: "cb_state b = StateOpen \<Longrightarrow> snd (cb_Admit now b) = False"
  by (simp add: cb_Admit_def)

lemma admitLocal_open:
  assumes "cb_state (e_local e) = StateOpen" "rc_Mode (cfg_Routing cfg) \<noteq> ''local''"
    and "admitLocal now cs cfg req snap d0 e = (e', d)"
  shows "\<not> (rd_Backend d = LocalBackend \<and> \<not> rd_Rejected d)"
  using admitLocal_granted [OF assms(3,2)] admit_open_denied [OF assms(1), of now] by (metis snd_conv)

text \<open>
  While the local breaker is open and its timeout has not elapsed, no request is dispatched locally (outside
  mode \<open>local\<close>); and a rule-routed chat request for a local-exclusive model, which no cloud backend can serve, is
  answered with a retryable 503 that names the model, the breaker state and the trip reason.
\<close>

theorem open_local_breaker_not_used:
  assumes "cb_state (e_local e) = StateOpen"
    and "now - cb_lastFailureTime (e_local e) \<le> cbTimeout (cb_cfg (e_local e))"
    and "rc_Mode (cfg_Routing cfg) \<noteq> ''local''" and "Decide now cs cfg budget req e = (e', d)"
  shows "\<not> (rd_Backend d = LocalBackend \<and> \<not> rd_Rejected d) \<and>
    (ruled_chat cfg req e \<and> localExclusiveDecision cfg req (e_wiring e) \<noteq> None \<longrightarrow>
      rd_Rejected d \<and> rd_RejectStatus d = 503 \<and>
      rd_RejectDetail d = Overloaded (rq_Model req) StateOpen (cb_tripReason (e_local e)))"
proof -
  have set: "settled now (e_local e)" using assms(1,2) by (simp add: settled_def cb_State_def)
  obtain intent e1 d0 trips where dl: "decideLocked now cs cfg req intent (e_wiring e) budget e = (e1, d0, trips)"
    and i: "intent = classifyIntentUnlocked cfg req (rs_classifier (e_wiring e)) (rs_heuristicClassifier (e_wiring e))"
    and a: "admitLocal now cs cfg req (e_wiring e) d0 (foldl (\<lambda>x r. Trip now ''local'' r x) e1 trips) = (e', d)"
    using assms(4) by (auto simp: Decide_def snapshotWiring_def Let_def split: prod.splits)
  have "cb_state (e_local e1) = StateOpen"
    using decideLocked_settled [OF set, of cs cfg req intent "e_wiring e" budget] dl assms(1) by simp
  then have A: "\<not> (rd_Backend d = LocalBackend \<and> \<not> rd_Rejected d)"
    using admitLocal_open [OF _ assms(3) a] by (simp add: trips_state)
  have B: "rd_Rejected d \<and> rd_RejectStatus d = 503 \<and>
      rd_RejectDetail d = Overloaded (rq_Model req) StateOpen (cb_tripReason (e_local e))"
    if c: "ruled_chat cfg req e \<and> localExclusiveDecision cfg req (e_wiring e) \<noteq> None"
  proof -
    have "localIsOpen now e = (e, True)"
      using assms(1,2) by (simp add: localIsOpen_def cb_IsOpen_def cb_State_def)
    then have "(e1, d0, trips) = (e, overloadedDecision req (e_local e), [])"
      using dl i c by (auto simp: ruled_chat_def decideLocked_ruled p0_breaker_def decide_def split: if_splits)
    then have "d = overloadedDecision req (e_local e)" using a by (auto simp: admitLocal_def)
    then show ?thesis
      using assms(1) by (simp add: overloadedDecision_def cb_Snapshot_def)
  qed
  show ?thesis using A B by blast
qed

theorem open_local_breaker_not_used_witness:
  "\<exists>e' d. Decide 5 noSelector cfg_example None (chat ''x'') (Trip 1 ''local'' ''oom'' e_example) = (e', d) \<and>
     rd_RejectStatus d = 503 \<and> rd_RejectDetail d = Overloaded ''x'' StateOpen ''oom''"
proof -
  let ?e = "Trip 1 ''local'' ''oom'' e_example"
  obtain e' d where d: "Decide 5 noSelector cfg_example None (chat ''x'') ?e = (e', d)" by fastforce
  have w: "e_wiring ?e = e_wiring e_example" by (simp add: Trip_def get_breaker_def put_breaker_def)
  have "cb_state (e_local ?e) = StateOpen" "5 - cb_lastFailureTime (e_local ?e) \<le> cbTimeout (cb_cfg (e_local ?e))"
    "rc_Mode (cfg_Routing cfg_example) \<noteq> ''local''" "cb_tripReason (e_local ?e) = ''oom''"
    by (simp_all add: cb_Trip_def example_defs second_def)
  moreover have "ruled_chat cfg_example (chat ''x'') ?e"
    using ruled_chat_example [of "''x''"] unfolding ruled_chat_def w .
  moreover have "localExclusiveDecision cfg_example (chat ''x'') (e_wiring ?e) \<noteq> None"
    unfolding w by (simp add: localExclusiveDecision_def in_local_set_def example_defs)
  moreover have "rq_Model (chat ''x'') = ''x''" by (simp add: chat_def)
  ultimately show ?thesis using open_local_breaker_not_used [OF _ _ _ d] d by metis
qed

text \<open>
  An overload that trips the local breaker (P1 memory, P2 swap) never ends in a local dispatch, even
  where \<^verbatim>\<open>cloudOrLocalLocked\<close> chose the local fallback because the cloud breaker refused: the trip is
  applied before the admission gate, which then denies; without a cluster the request goes to the cloud that
  had just refused admission, or is rejected if the model is local-exclusive.
\<close>

theorem overload_trip_overrides_local_fallback:
  assumes "rc_Mode (cfg_Routing cfg) \<noteq> ''local''"
    and "decideLocked now cs cfg req
      (classifyIntentUnlocked cfg req (rs_classifier (e_wiring e)) (rs_heuristicClassifier (e_wiring e)))
      (e_wiring e) budget e = (e1, d0, trips)" and "trips \<noteq> []"
    and "Decide now cs cfg budget req e = (e', d)"
  shows "\<not> (rd_Backend d = LocalBackend \<and> \<not> rd_Rejected d) \<and>
    (rd_Backend d0 = LocalBackend \<and> \<not> rd_Rejected d0 \<and> e_cluster e1 = None \<and>
       localExclusiveDecision cfg req (e_wiring e) = None \<longrightarrow>
     d = decision CloudBackend ''half_open_probe_busy'')"
proof -
  let ?e2 = "foldl (\<lambda>x r. Trip now ''local'' r x) e1 trips"
  have a: "admitLocal now cs cfg req (e_wiring e) d0 ?e2 = (e', d)"
    using assms(2,4) by (simp add: Decide_def snapshotWiring_def)
  have o: "cb_state (e_local ?e2) = StateOpen" using assms(3) by (simp add: trips_state)
  obtain b where b: "cb_Admit now (e_local ?e2) = (b, False)"
    using admit_open_denied [OF o, of now] by (metis prod.collapse)
  have "e_cluster e1 = None \<Longrightarrow> tryClusterLocked now cs cfg m (?e2\<lparr>e_local := b\<rparr>) = (?e2\<lparr>e_local := b\<rparr>, None)" for m
    by (rule tryCluster_None) simp
  then show ?thesis
    using admitLocal_open [OF o assms(1) a] a b assms(1)
    by (auto simp: admitLocal_def clusterOr_def)
qed

definition e_overloaded :: "unit Engine" where
  "e_overloaded = (Trip 4 ''cloud'' ''down'' e_example)
     \<lparr>e_wiring := (e_wiring e_example)\<lparr>rs_hw := hw_example\<lparr>hw_MemoryUsedRatio := 95/100\<rparr>\<rparr>\<rparr>"

lemma e_overloaded_plan:
  "\<exists>e1. decideLocked 5 noSelector cfg_example (chat ''m'')
     (classifyIntentUnlocked cfg_example (chat ''m'') (rs_classifier (e_wiring e_overloaded))
        (rs_heuristicClassifier (e_wiring e_overloaded))) (e_wiring e_overloaded) None e_overloaded =
     (e1, decision LocalBackend ''memory_overload_local_fallback'', [''memory_overload'']) \<and> e_cluster e1 = None"
  by (simp add: e_overloaded_def Trip_def get_breaker_def put_breaker_def decideLocked_def rule_chain_def phase_defs
      outcome_defs decideIntentLocked_def classifyIntentUnlocked_def heuristicResult_def classifyAndLog_def
      NoopClassifier_def localIsOpen_def cb_IsOpen_def cb_State_def modelAllowedByCloudList_def
      modelsSupplyDecision_def localExclusiveDecision_def in_local_set_def known_not_local_def cb_Admit_def
      tryLocalClusterHALocked_def tryClusterLocked_def cloudOrFallbackLocked_def cloudOrLocalLocked_def cb_Trip_def
      example_defs second_def)

theorem overload_trip_overrides_local_fallback_witness:
  "snd (Decide 5 noSelector cfg_example None (chat ''m'') e_overloaded) =
     decision CloudBackend ''half_open_probe_busy''"
proof -
  obtain e1 where p: "decideLocked 5 noSelector cfg_example (chat ''m'')
     (classifyIntentUnlocked cfg_example (chat ''m'') (rs_classifier (e_wiring e_overloaded))
        (rs_heuristicClassifier (e_wiring e_overloaded))) (e_wiring e_overloaded) None e_overloaded =
     (e1, decision LocalBackend ''memory_overload_local_fallback'', [''memory_overload''])" "e_cluster e1 = None"
    using e_overloaded_plan by blast
  obtain e' d where d: "Decide 5 noSelector cfg_example None (chat ''m'') e_overloaded = (e', d)" by fastforce
  have "rc_Mode (cfg_Routing cfg_example) \<noteq> ''local''"
    "localExclusiveDecision cfg_example (chat ''m'') (e_wiring e_overloaded) = None"
    by (simp_all add: e_overloaded_def localExclusiveDecision_def in_local_set_def example_defs)
  then show ?thesis using overload_trip_overrides_local_fallback [OF _ p(1) _ d] p(2) d by simp
qed

lemma admitLocal_admitted:
  assumes "cb_Admit now (e_local e) = (b, True)"
  shows "admitLocal now cs cfg req snap (decision LocalBackend r) e =
    (if rc_Mode (cfg_Routing cfg) = ''local'' then e else e\<lparr>e_local := b\<rparr>, decision LocalBackend r)"
  using assms by (simp add: admitLocal_def)

lemma admit_after_state:
  assumes "snd (cb_State now b) = StateClosed \<or> snd (cb_State now b) = StateHalfOpen \<and> \<not> cb_probeInFlight b"
  shows "\<exists>b'. cb_Admit now (fst (cb_State now b)) = (b', True)"
  using assms by (auto simp: cb_State_def cb_Admit_def split: if_splits)

text \<open>
  The cloud allowlist pins: when \<^verbatim>\<open>cloud_models\<close> is set and does not match the model, a rule-routed chat
  request stays on the local backend, whatever hardware load, token budget, ratio or availability rules say, as
  long as the local breaker can admit it.
\<close>

theorem cloud_allowlist_miss_stays_local:
  assumes "ruled_chat cfg req e"
    and "\<not> modelAllowedByCloudList (rq_Model req) (rc_CloudModels (cfg_Routing cfg))"
    and "snd (cb_State now (e_local e)) = StateClosed \<or>
      snd (cb_State now (e_local e)) = StateHalfOpen \<and> \<not> cb_probeInFlight (e_local e)"
  shows "snd (Decide now cs cfg budget req e) = decision LocalBackend ''cloud_models_allowlist_miss''"
proof -
  let ?e1 = "e\<lparr>e_local := fst (cb_State now (e_local e))\<rparr>"
  obtain b where b: "cb_Admit now (e_local ?e1) = (b, True)" using admit_after_state [OF assms(3)] by auto
  have no: "local_not_open now e" using assms(3) by (auto simp: local_not_open_def)
  have "first_decision (chat_rules now cs cfg req snap budget) x =
      (x, Some (decision LocalBackend ''cloud_models_allowlist_miss'', []))" for snap x
    using assms(2) by (simp add: chat_rules_def rule_chain_def p015_allowlist_def decide_def)
  then show ?thesis using assms(1) admitLocal_admitted [OF b]
    by (simp add: ruled_chat_def Decide_def snapshotWiring_def decideLocked_ruled p0_passes [OF no])
qed

theorem cloud_allowlist_miss_stays_local_witness:
  "rd_Backend (snd (Decide 5 noSelector
     (cfg_example\<lparr>cfg_Routing := (cfg_Routing cfg_example)\<lparr>rc_CloudModels := [''Claude-*'']\<rparr>\<rparr>) None
     (chat ''gpt'') e_overloaded)) = LocalBackend"
proof -
  let ?cfg = "cfg_example\<lparr>cfg_Routing := (cfg_Routing cfg_example)\<lparr>rc_CloudModels := [''Claude-*'']\<rparr>\<rparr>"
  have "ruled_chat ?cfg (chat ''gpt'') e_overloaded"
    by (simp add: ruled_chat_def e_overloaded_def example_defs classifyIntentUnlocked_def heuristicResult_def
        classifyAndLog_def NoopClassifier_def)
  moreover have "\<not> modelAllowedByCloudList (rq_Model (chat ''gpt'')) (rc_CloudModels (cfg_Routing ?cfg))"
    by (simp add: chat_def modelAllowedByCloudList_def matchesCloudPattern_def ToLower_def TrimSpace_def to_lower_def
        is_space_def HasSuffix_def Let_def)
  moreover have "snd (cb_State 5 (e_local e_overloaded)) = StateClosed"
    by (simp add: e_overloaded_def cb_State_def Trip_def get_breaker_def put_breaker_def example_defs)
  ultimately show ?thesis using cloud_allowlist_miss_stays_local by (metis decision_sel(1))
qed

lemma exclusive_chain:
  assumes "localExclusiveDecision cfg req snap \<noteq> None"
    and "cfg_Supply cfg (rq_Model req) = None"
  shows "\<exists>reason. first_decision (chat_rules now cs cfg req snap budget) x = (x, Some (decision LocalBackend reason, []))"
  using assms localExclusive_cases [of cfg req snap]
  by (auto simp: chat_rules_def rule_chain_def p015_allowlist_def p018_supply_def p02_exclusive_def modelsSupplyDecision_def
      outcome_defs)

text \<open>
  C31. A local-exclusive model (in the local set, without a cloud mapping) is never sent to a cloud or cluster backend by the
  rules: a rule-routed chat request for it, with no explicit supply list, is dispatched locally or rejected with 503 when
  the local breaker refuses, regardless of memory, swap, GPU, token and concurrency rules.
\<close>

theorem local_exclusive_never_diverted:
  assumes "ruled_chat cfg req e" and "localExclusiveDecision cfg req (e_wiring e) \<noteq> None"
    and "cfg_Supply cfg (rq_Model req) = None" and "Decide now cs cfg budget req e = (e', d)"
  shows "rd_Backend d = LocalBackend \<and> \<not> rd_Rejected d \<or> rd_Rejected d \<and> rd_RejectStatus d = 503"
proof (cases "local_not_open now e")
  case True
  let ?e1 = "e\<lparr>e_local := fst (cb_State now (e_local e))\<rparr>"
  obtain reason where "decideLocked now cs cfg req None (e_wiring e) budget e = (?e1, decision LocalBackend reason, [])"
    using assms(1) exclusive_chain [OF assms(2,3), of now cs budget ?e1]
    by (auto simp: ruled_chat_def decideLocked_ruled p0_passes [OF True])
  then have "admitLocal now cs cfg req (e_wiring e) (decision LocalBackend reason) ?e1 = (e', d)"
    using assms(1,4) by (simp add: ruled_chat_def Decide_def snapshotWiring_def)
  then show ?thesis using assms(2)
    by (cases "cb_Admit now (e_local ?e1)") (auto simp: admitLocal_def Let_def split: if_splits)
next
  case False
  then obtain b where "localIsOpen now e = (e\<lparr>e_local := b\<rparr>, True)"
    by (auto simp: local_not_open_def localIsOpen_def cb_IsOpen_def case_prod_beta Let_def)
  then show ?thesis using assms(1,2,4)
    by (auto simp: ruled_chat_def Decide_def snapshotWiring_def decideLocked_ruled p0_breaker_def decide_def admitLocal_def)
qed

theorem local_exclusive_never_diverted_witness:
  "rd_Backend (snd (Decide 5 noSelector cfg_example None (chat ''x'') e_overloaded)) = LocalBackend \<or>
   rd_RejectStatus (snd (Decide 5 noSelector cfg_example None (chat ''x'') e_overloaded)) = 503"
proof -
  have "ruled_chat cfg_example (chat ''x'') e_overloaded"
    by (simp add: ruled_chat_def e_overloaded_def example_defs classifyIntentUnlocked_def heuristicResult_def
        classifyAndLog_def NoopClassifier_def)
  moreover have "localExclusiveDecision cfg_example (chat ''x'') (e_wiring e_overloaded) \<noteq> None"
    "cfg_Supply cfg_example (rq_Model (chat ''x'')) = None"
    by (simp_all add: e_overloaded_def localExclusiveDecision_def in_local_set_def example_defs)
  ultimately show ?thesis using local_exclusive_never_diverted by (metis prod.collapse)
qed

end
