(* ===== verification/Engine_Cluster.thy ===== *)
theory Engine_Cluster
  imports Engine_Routing Cluster_Discovery
begin

text \<open>
  The engine against the cluster interface: every cluster dispatch goes to a routable node whose own breaker is
  not open.  The lemmas are proved once for any provider of \<open>cluster_selection\<close> and used at the discovery
  service.  Then per-node outcome recording, and the life of a node whose breaker has opened.
\<close>

section \<open>Cluster dispatches, for any selector\<close>

context cluster_selection
begin

definition sel_wf :: "bool \<Rightarrow> 'c Engine \<Rightarrow> bool" where
  "sel_wf wired e \<longleftrightarrow> (e_cluster e \<noteq> None) = wired \<and> (\<forall>c. e_cluster e = Some c \<longrightarrow> wf c)"

lemma sel_wfD: "sel_wf True e \<Longrightarrow> \<exists>c. e_cluster e = Some c \<and> wf c"
  by (auto simp: sel_wf_def)

definition node_ok :: "'c Engine \<Rightarrow> string \<Rightarrow> bool" where
  "node_ok e n \<longleftrightarrow> (\<exists>c. e_cluster e = Some c \<and> routable c n) \<and>
     (\<forall>b. n \<noteq> '''' \<longrightarrow> e_nodeBreakers e n = Some b \<longrightarrow> cb_state b \<noteq> StateOpen)"

definition dispatch_ok :: "RouteDecision \<Rightarrow> 'c Engine \<Rightarrow> bool" where
  "dispatch_ok d e \<longleftrightarrow> (rd_Backend d = ClusterBackend \<longrightarrow> node_ok e (rd_NodeID d))"

lemma dispatchNode_ok:
  assumes "sel_wf wired e" "\<forall>n. r = Some n \<longrightarrow> (\<exists>c. e_cluster e = Some c \<and> routable c n)"
    and "dispatchNode now reason r e = (e', x)"
  shows "sel_wf wired e' \<and> (\<forall>d. x = Some d \<longrightarrow> rd_Backend d = ClusterBackend \<and> node_ok e' (rd_NodeID d))"
  using assms
  by (auto simp: dispatchNode_def nodeBreakerOpenLocked_def cb_State_def sel_wf_def node_ok_def
      split: option.splits if_splits prod.splits)

lemma admitCluster_frame [simp]:
  "e_cluster (fst (admitCluster now e)) = e_cluster e" "sel_wf wired (fst (admitCluster now e)) = sel_wf wired e"
  by (simp_all add: admitCluster_def sel_wf_def case_prod_beta Let_def)

lemma selected_ok:
  assumes "wf c" "sel_SelectNodeByModel cs st m cap c = (c', r)"
  shows "sel_wf True (e\<lparr>e_cluster := Some c'\<rparr>)" "\<forall>n. r = Some n \<longrightarrow> (\<exists>x. e_cluster (e\<lparr>e_cluster := Some c'\<rparr>) = Some x \<and> routable x n)"
  using select_model [OF assms] by (auto simp: sel_wf_def)

lemma selected_platform_ok:
  assumes "wf c" "sel_SelectNodeByPlatform cs st p c = (c', r)"
  shows "sel_wf True (e\<lparr>e_cluster := Some c'\<rparr>)" "\<forall>n. r = Some n \<longrightarrow> (\<exists>x. e_cluster (e\<lparr>e_cluster := Some c'\<rparr>) = Some x \<and> routable x n)"
  using select_platform [OF assms] by (auto simp: sel_wf_def)

lemma tryCluster_ok:
  assumes "sel_wf wired e" "tryClusterLocked now cs cfg m e = (e', x)"
  shows "sel_wf wired e' \<and> (\<forall>d. x = Some d \<longrightarrow> rd_Backend d = ClusterBackend \<and> node_ok e' (rd_NodeID d))"
proof (cases "e_cluster e")
  case (Some c)
  then have wf: "wf c" and w: "wired = True" using assms(1) by (auto simp: sel_wf_def)
  obtain e1 ok where a: "admitCluster now e = (e1, ok)" by (cases "admitCluster now e")
  then have e1: "sel_wf wired e1" using admitCluster_frame(2) [of wired now e] assms(1) by simp
  obtain c' r where s: "sel_SelectNodeByModel cs (lbStrategy cfg) m
      (lp_MaxConcurrent (rc_LocalPriority (cfg_Routing cfg))) c = (c', r)" by fastforce
  show ?thesis using assms Some a e1 s w dispatchNode_ok [OF selected_ok(1) [OF wf s] selected_ok(2) [OF wf s]]
    by (auto simp: tryClusterLocked_def split: if_splits)
qed (use assms in \<open>auto simp: tryClusterLocked_def\<close>)

lemma tryClusterByPlatform_ok:
  assumes "sel_wf wired e" "tryClusterByPlatformLocked now cs cfg p e = (e', x)"
  shows "sel_wf wired e' \<and> (\<forall>d. x = Some d \<longrightarrow> rd_Backend d = ClusterBackend \<and> node_ok e' (rd_NodeID d))"
proof (cases "e_cluster e")
  case (Some c)
  then have wf: "wf c" and w: "wired = True" using assms(1) by (auto simp: sel_wf_def)
  obtain e1 ok where a: "admitCluster now e = (e1, ok)" by (cases "admitCluster now e")
  then have e1: "sel_wf wired e1" using admitCluster_frame(2) [of wired now e] assms(1) by simp
  obtain c' r where s: "sel_SelectNodeByPlatform cs (lbStrategy cfg) p c = (c', r)" by fastforce
  show ?thesis using assms Some a e1 s w dispatchNode_ok [OF selected_platform_ok(1) [OF wf s] selected_platform_ok(2) [OF wf s]]
    by (auto simp: tryClusterByPlatformLocked_def split: if_splits)
qed (use assms in \<open>auto simp: tryClusterByPlatformLocked_def\<close>)

lemma tryHA_ok:
  assumes "sel_wf wired e" "tryLocalClusterHALocked now cs cfg m e = (e', x)"
  shows "sel_wf wired e' \<and> (\<forall>d. x = Some d \<longrightarrow> rd_Backend d = ClusterBackend \<and> node_ok e' (rd_NodeID d))"
proof (cases "e_cluster e")
  case (Some c)
  then have wf: "wf c" and w: "wired = True" using assms(1) by (auto simp: sel_wf_def)
  obtain e1 ok where a: "admitCluster now e = (e1, ok)" by (cases "admitCluster now e")
  then have e1: "sel_wf wired e1" using admitCluster_frame(2) [of wired now e] assms(1) by simp
  obtain c' r where s: "sel_SelectNodeByModel cs (lbStrategy cfg) m
      (lp_MaxConcurrent (rc_LocalPriority (cfg_Routing cfg))) c = (c', r)" by fastforce
  show ?thesis
    using assms Some a e1 s w selected_ok(1) [OF wf s] dispatchNode_ok [OF selected_ok(1) [OF wf s] selected_ok(2) [OF wf s]]
    by (cases r) (auto simp: tryLocalClusterHALocked_def split: if_splits)
qed (use assms in \<open>auto simp: tryLocalClusterHALocked_def split: if_splits\<close>)

lemma clusterOr_ok:
  assumes "sel_wf wired e" "clusterOr now cs cfg m d0 e = (e', d)" "rd_Backend d0 \<noteq> ClusterBackend"
  shows "sel_wf wired e' \<and> dispatch_ok d e'"
  using assms tryCluster_ok [OF assms(1), of now cfg m]
  by (cases "tryClusterLocked now cs cfg m e") (auto simp: clusterOr_def dispatch_ok_def split: option.splits)

lemma cloudOrLocal_ok:
  assumes "sel_wf wired e" "cloudOrLocalLocked now req snap d0 e = (e', d)" "rd_Backend d0 \<noteq> ClusterBackend"
  shows "sel_wf wired e' \<and> dispatch_ok d e'"
  using assms by (auto simp: cloudOrLocalLocked_def dispatch_ok_def sel_wf_def case_prod_beta Let_def split: if_splits)

lemma cloudOrFallback_ok:
  assumes "sel_wf wired e" "cloudOrFallbackLocked now cs cfg req snap d0 e = (e', d)" "rd_Backend d0 \<noteq> ClusterBackend"
  shows "sel_wf wired e' \<and> dispatch_ok d e'"
  using assms tryCluster_ok [OF assms(1), of now cfg "rq_Model req"] cloudOrLocal_ok
  by (cases "tryClusterLocked now cs cfg (rq_Model req) e")
    (auto simp: cloudOrFallbackLocked_def dispatch_ok_def split: option.splits)

abbreviation keeps :: "bool \<Rightarrow> 'c phase \<Rightarrow> bool" where
  "keeps wired \<equiv> rule_keeps (sel_wf wired) (\<lambda>x. dispatch_ok (fst x))"

definition good :: "bool \<Rightarrow> 'c Engine \<times> (RouteDecision \<times> string list) option \<Rightarrow> bool" where
  "good wired x \<longleftrightarrow> sel_wf wired (fst x) \<and> (\<forall>y. snd x = Some y \<longrightarrow> dispatch_ok (fst y) (fst x))"

lemma keepsI: "(\<And>e. sel_wf wired e \<Longrightarrow> good wired (p e)) \<Longrightarrow> keeps wired p"
  by (simp add: rule_keeps_def good_def case_prod_beta)

lemma keeps_decide:
  assumes "\<And>e e' d. sel_wf wired e \<Longrightarrow> f e = (e', d) \<Longrightarrow> sel_wf wired e' \<and> dispatch_ok d e'"
  shows "sel_wf wired e \<Longrightarrow> good wired (decide (f e))"
    "sel_wf wired e \<Longrightarrow> good wired (decideTrip t (f e))"
  using assms [of e "fst (f e)" "snd (f e)"] by (simp_all add: decide_def decideTrip_def good_def)

lemma keeps_attempt:
  assumes "\<And>e e' x. sel_wf wired e \<Longrightarrow> f e = (e', x) \<Longrightarrow> sel_wf wired e' \<and> (\<forall>d. x = Some d \<longrightarrow> dispatch_ok d e')"
  shows "sel_wf wired e \<Longrightarrow> good wired (attempt (f e))"
  using assms [of e "fst (f e)" "snd (f e)"] by (auto simp: attempt_def good_def)

lemma keeps_pass:
  "sel_wf wired e \<Longrightarrow> good wired (pass e)"
  by (simp add: pass_def good_def)

lemma dispatch_ok_other [simp]: "rd_Backend d \<noteq> ClusterBackend \<Longrightarrow> dispatch_ok d e"
  by (simp add: dispatch_ok_def)

lemma local_reads_wf [simp]:
  "sel_wf wired (fst (localState now e)) = sel_wf wired e" "sel_wf wired (fst (localIsOpen now e)) = sel_wf wired e"
  "sel_wf wired (e\<lparr>e_local := b\<rparr>) = sel_wf wired e"
  by (simp_all add: localState_def localIsOpen_def sel_wf_def case_prod_beta Let_def)

lemma local_read_wfD:
  "localState now e = (e1, st) \<Longrightarrow> sel_wf wired e \<Longrightarrow> sel_wf wired e1"
  "localIsOpen now e = (e1, b) \<Longrightarrow> sel_wf wired e \<Longrightarrow> sel_wf wired e1"
  by (metis fst_conv local_reads_wf(1)) (metis fst_conv local_reads_wf(2))

lemma embedding_ok:
  assumes "sel_wf wired e" "decideEmbeddingLocked now cs cfg m snap e = (e', d)"
  shows "sel_wf wired e' \<and> dispatch_ok d e'"
proof -
  obtain e1 st where l: "localState now e = (e1, st)" by fastforce
  then have "sel_wf wired e1" using local_read_wfD(1) assms(1) by blast
  then show ?thesis using assms l clusterOr_ok [OF assms(1), of now cfg m] clusterOr_ok [of wired e1 now cfg m]
    by (auto simp: decideEmbeddingLocked_def split: if_splits)
qed

lemma rerankLocal_wf: "rerankLocal now m snap e = (e1, b) \<Longrightarrow> sel_wf wired e \<Longrightarrow> sel_wf wired e1"
  by (auto simp: rerankLocal_def dest: local_read_wfD split: if_splits prod.splits option.splits)

lemma rerank_ok:
  assumes "sel_wf wired e" "decideRerankLocked now cs cfg m snap e = (e', d)"
  shows "sel_wf wired e' \<and> dispatch_ok d e'"
proof -
  obtain e1 b where l: "rerankLocal now m snap e = (e1, b)" by fastforce
  then have "sel_wf wired e1" using rerankLocal_wf assms(1) by blast
  then show ?thesis using assms l clusterOr_ok [OF assms(1), of now cfg m] clusterOr_ok [of wired e1 now cfg m]
    by (auto simp: decideRerankLocked_def split: if_splits)
qed

lemma supplyLoop_ok:
  "sel_wf wired e \<Longrightarrow> supplyLoop now cfg m snap ns e = (e', x) \<Longrightarrow> sel_wf wired e' \<and> (\<forall>d. x = Some d \<longrightarrow> dispatch_ok d e')"
proof (induction ns arbitrary: e)
  case (Cons n ns)
  obtain e1 st where l: "localState now e = (e1, st)" by fastforce
  then have "sel_wf wired e1" using local_read_wfD(1) Cons.prems(1) by blast
  then show ?case using Cons.prems Cons.IH [of e] Cons.IH [of e1] l
    by (auto simp: Let_def split: if_splits)
qed simp

lemma supply_ok:
  "sel_wf wired e \<Longrightarrow> modelsSupplyDecision now cfg m snap e = (e', x) \<Longrightarrow> sel_wf wired e' \<and> (\<forall>d. x = Some d \<longrightarrow> dispatch_ok d e')"
  using supplyLoop_ok [of wired e now cfg m snap "the (cfg_Supply cfg m)"]
  by (cases "supplyLoop now cfg m snap (the (cfg_Supply cfg m)) e")
    (auto simp: modelsSupplyDecision_def split: option.splits if_splits)

lemma intent_ok:
  assumes "sel_wf wired e" "decideIntentLocked now cs cfg r snap e = (e', x)"
  shows "sel_wf wired e' \<and> (\<forall>d. x = Some d \<longrightarrow> dispatch_ok d e')"
proof (cases r)
  case (Some i)
  let ?p = "PlatformForIntent (ir_Intent i) (cc_HeavyModelPlatform (cfg_Cluster cfg)) (cc_DiffusionPlatform (cfg_Cluster cfg))"
  show ?thesis using assms Some tryClusterByPlatform_ok [OF assms(1), of now cfg ?p]
    by (cases "tryClusterByPlatformLocked now cs cfg ?p e")
      (auto simp: decideIntentLocked_def dispatch_ok_def Let_def split: option.splits if_splits)
qed (use assms in \<open>auto simp: decideIntentLocked_def\<close>)

lemmas keeps_rules = keeps_pass keeps_decide(1) [OF embedding_ok] keeps_decide(1) [OF rerank_ok]

lemma p0_ok: "keeps wired (p0_breaker now cs cfg req snap)"
proof -
  have "sel_wf wired e' \<and> (\<forall>x. r = Some x \<longrightarrow> dispatch_ok (fst x) e')"
    if "sel_wf wired e" "p0_breaker now cs cfg req snap e = (e', r)" for e e' r
  proof -
    obtain e1 b where l: "localIsOpen now e = (e1, b)" by fastforce
    then have "sel_wf wired e1" using local_read_wfD(2) that(1) by blast
    then show ?thesis using that l
        clusterOr_ok [of wired e1 now cfg "rq_Model req" "decision CloudBackend ''circuit_breaker_open''"]
      by (cases "clusterOr now cs cfg (rq_Model req) (decision CloudBackend ''circuit_breaker_open'') e1")
        (auto simp: p0_breaker_def outcome_defs split: if_splits)
  qed
  then show ?thesis by (auto simp: rule_keeps_def)
qed

lemma p03_ok: "keeps wired (p03_affinity now req snap)"
proof -
  have "sel_wf wired e' \<and> (\<forall>x. r = Some x \<longrightarrow> dispatch_ok (fst x) e')"
    if "sel_wf wired e" "p03_affinity now req snap e = (e', r)" for e e' r
  proof -
    obtain e1 st where l: "localState now e = (e1, st)" by fastforce
    then have "sel_wf wired e1" using local_read_wfD(1) that(1) by blast
    then show ?thesis using that l
      by (auto simp: p03_affinity_def outcome_defs split: if_splits option.splits)
  qed
  then show ?thesis by (auto simp: rule_keeps_def)
qed

lemma try_ok:
  "sel_wf wired e \<Longrightarrow> tryLocalClusterHALocked now cs cfg m e = (e', x) \<Longrightarrow> sel_wf wired e' \<and> (\<forall>d. x = Some d \<longrightarrow> dispatch_ok d e')"
  using tryHA_ok [of wired e now cfg m e' x] by (auto simp: dispatch_ok_def)

lemma fallback_ok:
  assumes "rd_Backend d0 \<noteq> ClusterBackend"
  shows "sel_wf wired e \<Longrightarrow> good wired (decide (cloudOrFallbackLocked now cs cfg req snap d0 e))"
    "sel_wf wired e \<Longrightarrow> good wired (decideTrip t (cloudOrFallbackLocked now cs cfg req snap d0 e))"
    "sel_wf wired e \<Longrightarrow> good wired (decide (cloudOrLocalLocked now req snap d0 e))"
    "sel_wf wired e \<Longrightarrow> good wired (decide (clusterOr now cs cfg m d0 e))"
  by (erule keeps_decide [where f = "cloudOrFallbackLocked now cs cfg req snap d0", rotated], erule (1) cloudOrFallback_ok [OF _ _ assms])
    (erule keeps_decide(2) [where f = "cloudOrFallbackLocked now cs cfg req snap d0", rotated], erule (1) cloudOrFallback_ok [OF _ _ assms],
     erule keeps_decide(1) [where f = "cloudOrLocalLocked now req snap d0", rotated], erule (1) cloudOrLocal_ok [OF _ _ assms],
     erule keeps_decide(1) [where f = "clusterOr now cs cfg m d0", rotated], erule (1) clusterOr_ok [OF _ _ assms])

lemma plain_ok:
  assumes "rd_Backend d \<noteq> ClusterBackend"
  shows "sel_wf wired e \<Longrightarrow> good wired (decide (e, d))"
  using assms by (simp add: decide_def good_def)

lemma phases_ok:
  "keeps wired (p_type now cs cfg req snap)" "keeps wired (p_guard intent)" "keeps wired (p_mode now cs cfg req)"
  "keeps wired (p_intent now cs cfg intent snap)" "keeps wired (p015_allowlist cfg req)" "keeps wired (p018_supply now cfg req snap)"
  "keeps wired (p02_exclusive cfg req snap)" "keeps wired (p025_ha now cs cfg req)" "keeps wired (p05_hwerror now cs cfg req snap)"
  "keeps wired (p1_memory now cs cfg req snap)" "keeps wired (p15_mlx now cs cfg req snap)" "keeps wired (p2_swap now cs cfg req snap)"
  "keeps wired (p25_gpu now cs cfg req snap)" "keeps wired (p3_ready now cs cfg req snap)" "keeps wired (p4_budget now cfg req snap budget)"
  "keeps wired (p45_ratio now cfg req snap budget)" "keeps wired (p5_concurrent now cs cfg req snap)"
  "keeps wired (p6_model now cs cfg req snap)"
proof -
  show "keeps wired (p02_exclusive cfg req snap)"
    using localExclusive_cases [of cfg req snap] by (auto simp: rule_keeps_def p02_exclusive_def attempt_def)
  show "keeps wired (p025_ha now cs cfg req)"
    unfolding p025_ha_def by (rule keepsI) (rule keeps_attempt [OF try_ok])
  show "keeps wired (p_intent now cs cfg intent snap)"
    unfolding p_intent_def by (rule keepsI) (rule keeps_attempt [OF intent_ok])
  show "keeps wired (p018_supply now cfg req snap)"
    unfolding p018_supply_def by (rule keepsI) (rule keeps_attempt [OF supply_ok])
  show "keeps wired (p_type now cs cfg req snap)"
    unfolding p_type_def by (rule keepsI) (auto intro: keeps_rules split: RequestType.splits)
qed (auto intro!: keepsI keeps_pass fallback_ok plain_ok simp: p_guard_def p_mode_def p015_allowlist_def
      p05_hwerror_def p1_memory_def p15_mlx_def p2_swap_def p25_gpu_def p3_ready_def p4_budget_def
      p45_ratio_def p5_concurrent_def p6_model_def tierDecision_def Let_def split: option.splits)

lemma decideLocked_ok:
  assumes "sel_wf wired e" "decideLocked now cs cfg req intent snap budget e = (e', d, trips)"
  shows "sel_wf wired e' \<and> dispatch_ok d e'"
proof -
  let ?ps = "rule_chain now cs cfg req intent snap budget"
  have "keeps wired (first_decision ?ps)"
    by (rule first_decision_keeps) (simp add: rule_chain_def phases_ok p0_ok p03_ok)
  then show ?thesis using assms rule_keepsD [of "sel_wf wired" "\<lambda>x. dispatch_ok (fst x)" "first_decision ?ps" e]
    by (cases "first_decision ?ps e") (auto simp: decideLocked_def split: option.splits)
qed

lemma Decide_ok:
  assumes "sel_wf wired e" "Decide now cs cfg budget req e = (e', d)"
  shows "sel_wf wired e' \<and> dispatch_ok d e'"
proof -
  obtain intent e1 d0 trips where dl: "decideLocked now cs cfg req intent (e_wiring e) budget e = (e1, d0, trips)"
    and a: "admitLocal now cs cfg req (e_wiring e) d0 (foldl (\<lambda>x r. Trip now ''local'' r x) e1 trips) = (e', d)"
    using assms(2) by (auto simp: Decide_def snapshotWiring_def Let_def split: prod.splits)
  let ?e2 = "foldl (\<lambda>x r. Trip now ''local'' r x) e1 trips"
  have n: "e_nodeBreakers ?e2 = e_nodeBreakers e1"
    by (induction trips arbitrary: e1) (simp_all add: Trip_def get_breaker_def put_breaker_def)
  have ok: "sel_wf wired ?e2 \<and> dispatch_ok d0 ?e2"
    using decideLocked_ok [OF assms(1) dl] n by (simp add: sel_wf_def dispatch_ok_def node_ok_def)
  obtain b ok where b: "cb_Admit now (e_local ?e2) = (b, ok)" by fastforce
  have "sel_wf wired (?e2\<lparr>e_local := b\<rparr>)" using ok by simp
  from clusterOr_ok [OF this, of now cfg "rq_Model req" "decision CloudBackend ''half_open_probe_busy''"]
  show ?thesis using a b ok by (auto simp: admitLocal_def Let_def split: if_splits)
qed

end

section \<open>The discovery service behind the engine\<close>

definition disc_wf :: "Discovery Engine \<Rightarrow> bool" where
  "disc_wf e \<longleftrightarrow> (\<forall>c. e_cluster e = Some c \<longrightarrow> d_wf c)"

text \<open>
  C3. Whenever a request is decided for a cluster node, that node is, at the instant of the decision, a
  member of the cluster that is healthy and not bypassed, and its own circuit breaker is not open; this holds for
  fallback, platform and HA dispatch alike, and the decision leaves the node table unchanged.
\<close>

theorem cluster_dispatch_sound:
  assumes "disc_wf e" and "Decide now (ClusterSelectorAdapter now it) cfg budget req e = (e', d)"
    and "rd_Backend d = ClusterBackend"
  shows "\<exists>c c' n. e_cluster e = Some c \<and> e_cluster e' = Some c' \<and> d_nodes c' = d_nodes c \<and>
    map_of (d_nodes c) (rd_NodeID d) = Some n \<and> n_state n = NodeStateHealthy \<and> \<not> n_breakerBypassed n \<and>
    (\<forall>b. rd_NodeID d \<noteq> '''' \<longrightarrow> e_nodeBreakers e' (rd_NodeID d) = Some b \<longrightarrow> cb_state b \<noteq> StateOpen)"
proof -
  let ?N = "case e_cluster e of Some c \<Rightarrow> d_nodes c | None \<Rightarrow> []"
  have "disc_at.sel_wf ?N (e_cluster e \<noteq> None) e" using assms(1) by (auto simp: disc_wf_def disc_at.sel_wf_def)
  from disc_at.Decide_ok [OF this assms(2)] assms(3)
  obtain c' where c': "e_cluster e' = Some c'" "d_routable c' (rd_NodeID d)" "d_nodes c' = ?N"
    and b: "\<forall>b. rd_NodeID d \<noteq> '''' \<longrightarrow> e_nodeBreakers e' (rd_NodeID d) = Some b \<longrightarrow> cb_state b \<noteq> StateOpen"
    by (auto simp: disc_at.dispatch_ok_def disc_at.node_ok_def disc_at.sel_wf_def)
  then obtain n where n: "map_of ?N (rd_NodeID d) = Some n" "selectable n"
    by (auto simp: d_routable_def split: option.splits)
  then obtain c where "e_cluster e = Some c" by (cases "e_cluster e") auto
  then show ?thesis using c' n b by (auto simp: selectable_def)
qed

definition cfg_cloud :: Config where
  "cfg_cloud = cfg_example\<lparr>cfg_Routing := (cfg_Routing cfg_example)\<lparr>rc_Mode := ''cloud''\<rparr>,
     cfg_Cluster := (cfg_Cluster cfg_example)\<lparr>cc_Enabled := True\<rparr>\<rparr>"

definition e_disc :: "Discovery Engine" where
  "e_disc = (NewEngine cfg_cloud hw_example)\<lparr>e_cluster := Some d_example\<rparr>"

lemma e_disc_dispatch:
  "\<exists>e' d. Decide 5 (ClusterSelectorAdapter 5 rev) cfg_cloud None (chat ''m'') e_disc = (e', d) \<and>
     rd_Backend d = ClusterBackend \<and> rd_NodeID d = ''b''"
proof -
  have c: "classifyIntentUnlocked cfg_cloud (chat ''m'') (Some NoopClassifier) None = None"
    by (simp add: classifyIntentUnlocked_def heuristicResult_def classifyAndLog_def NoopClassifier_def cfg_cloud_def
        cfg_example_def)
  have h: "HealthyNodes d_example \<noteq> 0"
    by (simp add: HealthyNodes_def d_example_def freshNode_def selectable_def Let_def)
  have "sel_result (SelectNodeByModel 5 rev ''least-connections'' ''m'' 4 d_example) = (d_example, Some ''b'')"
    by (simp add: SelectNodeByModel_def selectByStrategy_def resolveStrategy_def selectLeastConnections_def iterate_def
        d_example_def freshNode_def selectable_def servesModel_def belowSlotCap_def Let_def)
  then have "tryClusterLocked 5 (ClusterSelectorAdapter 5 rev) cfg_cloud ''m'' e_disc =
      (e_disc, Some ((decision ClusterBackend ''cluster_fallback'')\<lparr>rd_NodeID := ''b''\<rparr>))"
    using h by (simp add: tryClusterLocked_def admitCluster_def cb_Admit_def ClusterSelectorAdapter_def lbStrategy_def
        dispatchNode_def nodeBreakerOpenLocked_def e_disc_def cfg_cloud_def example_defs)
  moreover have "rs_classifier (e_wiring e_disc) = Some NoopClassifier" "rs_heuristicClassifier (e_wiring e_disc) = None"
    "rc_Mode (cfg_Routing cfg_cloud) = ''cloud''" "rq_Model (chat ''m'') = ''m''" "rq_Type (chat ''m'') = RequestTypeChat"
    by (simp_all add: e_disc_def NewEngine_def cfg_cloud_def chat_def Let_def)
  ultimately show ?thesis using c
    by (simp add: Decide_def snapshotWiring_def decideLocked_def rule_chain_def p_type_def p_guard_def p_mode_def
        outcome_defs clusterOr_def admitLocal_def Let_def)
qed

lemma e_disc_wf: "disc_wf e_disc"
  by (simp add: disc_wf_def e_disc_def d_example_wf)

theorem cluster_dispatch_sound_witness:
  "\<exists>e' d n. Decide 5 (ClusterSelectorAdapter 5 rev) cfg_cloud None (chat ''m'') e_disc = (e', d) \<and>
     map_of (d_nodes d_example) (rd_NodeID d) = Some n \<and> n_state n = NodeStateHealthy"
proof -
  obtain e' d where d: "Decide 5 (ClusterSelectorAdapter 5 rev) cfg_cloud None (chat ''m'') e_disc = (e', d)"
    "rd_Backend d = ClusterBackend"
    using e_disc_dispatch by blast
  from cluster_dispatch_sound [OF e_disc_wf d] d(1) show ?thesis by (auto simp: e_disc_def)
qed

section \<open>Per-node outcomes\<close>

text \<open>
  A failing node only hurts itself: recording a failure of one cluster node leaves the local, cloud and
  aggregate cluster breakers and every other node's breaker and routability as they were; if the node's
  breaker is open afterwards, no selection returns it.
\<close>

theorem node_failure_is_isolated:
  assumes "disc_wf e" and "n \<noteq> ''''" and "e_cluster e = Some c"
    and "e' = recordOutcome now (ClusterSelectorAdapter now it) ClusterBackend n False e"
  shows "e_local e' = e_local e \<and> e_cloud e' = e_cloud e \<and> e_clusterBreaker e' = e_clusterBreaker e \<and>
    (\<forall>k. k \<noteq> n \<longrightarrow> e_nodeBreakers e' k = e_nodeBreakers e k) \<and>
    (\<exists>c'. e_cluster e' = Some c' \<and> (\<forall>k. k \<noteq> n \<longrightarrow> d_routable c' k = d_routable c k) \<and>
      (NodeBreakerState now n e' = StateOpen \<longrightarrow>
        (\<forall>st m cap p. snd (sel_SelectNodeByModel (ClusterSelectorAdapter now it) st m cap c') \<noteq> Some n \<and>
          snd (sel_SelectNodeByPlatform (ClusterSelectorAdapter now it) st p c') \<noteq> Some n)))"
proof -
  let ?cs = "ClusterSelectorAdapter now it"
  have wf: "d_wf c" using assms(1,3) by (simp add: disc_wf_def)
  let ?b = "fst (cb_State now (cb_RecordFailure now (nodeBreakerLocked n (rc_CircuitBreaker (cfg_Routing (e_cfg e))) e)))"
  let ?st = "snd (cb_State now (cb_RecordFailure now (nodeBreakerLocked n (rc_CircuitBreaker (cfg_Routing (e_cfg e))) e)))"
  have e': "e' = (let e1 = e\<lparr>e_nodeBreakers := (e_nodeBreakers e)(n \<mapsto> ?b)\<rparr>
      in if ?st = StateOpen then e1\<lparr>e_cluster := Some (sel_MarkNodeBreakerOpen ?cs n c)\<rparr> else e1)"
    using assms(2-4) by (simp add: recordOutcome_def RecordNodeFailure_def case_prod_beta Let_def)
  have "NodeBreakerState now n e' = ?st"
    using assms(2) unfolding e' by (simp add: NodeBreakerState_def cb_State_def Let_def)
  then show ?thesis
    using disc.mark_open [OF wf assms(2), of now it] disc.open_node_not_selected [OF wf assms(2)] assms(3)
    unfolding e' by (cases "?st = StateOpen") (auto simp: Let_def)
qed

theorem node_failure_is_isolated_witness:
  "e_local (recordOutcome 7 (ClusterSelectorAdapter 7 rev) ClusterBackend ''b'' False e_disc) = e_local e_disc"
  using node_failure_is_isolated [OF e_disc_wf, of "''b''" d_example
      "recordOutcome 7 (ClusterSelectorAdapter 7 rev) ClusterBackend ''b'' False e_disc" 7 rev]
  by (simp add: e_disc_def)

section \<open>A node whose breaker opened\<close>

text \<open>
  The engine with its discovery service under load: requests are decided, outcomes are recorded for nodes
  requests were dispatched to (\<open>out\<close> lists the dispatches without an outcome), the health-check and master-sync loops run, and the
  configuration is reloaded.  A reload (\<^verbatim>\<open>OnReload\<close> in \<^verbatim>\<open>cmd/gateway/main.go\<close>) applies it to the engine, wires classifiers, models and adapters
  anew and updates the members of an enabled cluster.
\<close>

datatype rt_event =
    RtDecide time iteration Config "TokenBudget option" RouteRequest
  | RtNodeOutcome time iteration string bool
  | RtOutcome time iteration Backend bool
  | RtCheckAll time "string \<Rightarrow> probe"
  | RtSyncModels "string \<Rightarrow> string list option"
  | RtSyncMaster time "MasterNode list option"
  | RtSyncStrategy time "string option"
  | RtReload Config routeSnapshot

definition reload_engine :: "Config \<Rightarrow> routeSnapshot \<Rightarrow> Discovery Engine \<Rightarrow> Discovery Engine" where
  "reload_engine cfg w e =
     (let e1 = (DrainAndApply cfg e)\<lparr>e_wiring := w\<rparr>
      in if cc_Enabled (cfg_Cluster cfg) then e1\<lparr>e_cluster := map_option (d_UpdateConfig (cfg_Cluster cfg)) (e_cluster e1)\<rparr> else e1)"

fun rt_step :: "Discovery Engine \<times> string list \<Rightarrow> rt_event \<Rightarrow> Discovery Engine \<times> string list" where
  "rt_step (e, out) (RtDecide now it cfg budget req) =
     (let (e', d) = Decide now (ClusterSelectorAdapter now it) cfg budget req e
      in (e', if rd_Backend d = ClusterBackend then rd_NodeID d # out else out))"
| "rt_step (e, out) (RtNodeOutcome now it k ok) =
     (if k \<in> set out
      then (recordOutcome now (ClusterSelectorAdapter now it) ClusterBackend k ok e, remove1 k out)
      else (e, out))"
| "rt_step (e, out) (RtOutcome now it backend ok) =
     (if backend = ClusterBackend then (e, out)
      else (recordOutcome now (ClusterSelectorAdapter now it) backend '''' ok e, out))"
| "rt_step (e, out) (RtCheckAll now pr) = (e\<lparr>e_cluster := map_option (checkAll now pr) (e_cluster e)\<rparr>, out)"
| "rt_step (e, out) (RtSyncModels ms) = (e\<lparr>e_cluster := map_option (syncNodeModels ms) (e_cluster e)\<rparr>, out)"
| "rt_step (e, out) (RtSyncMaster now resp) = (e\<lparr>e_cluster := map_option (syncFromMaster now resp) (e_cluster e)\<rparr>, out)"
| "rt_step (e, out) (RtSyncStrategy now st) = (e\<lparr>e_cluster := map_option (syncMasterStrategy now st) (e_cluster e)\<rparr>, out)"
| "rt_step (e, out) (RtReload cfg w) = (reload_engine cfg w e, out)"

text \<open>Neither the reloaded configuration nor the master's answer drops the node from the cluster.\<close>

fun keeps_member :: "string \<Rightarrow> rt_event \<Rightarrow> bool" where
  "keeps_member n (RtReload cfg w) = (cc_Enabled (cfg_Cluster cfg) \<longrightarrow> n \<in> set (map nc_ID (cc_Nodes (cfg_Cluster cfg))))"
| "keeps_member n (RtSyncMaster now (Some mns)) = (n \<in> set (map mn_NodeID mns))"
| "keeps_member n ev = True"

definition bypassed :: "Discovery \<Rightarrow> string \<Rightarrow> bool" where
  "bypassed c n \<longleftrightarrow> (\<exists>x. map_of (d_nodes c) n = Some x \<and> n_breakerBypassed x)"

definition stranded :: "string \<Rightarrow> Discovery Engine \<times> string list \<Rightarrow> bool" where
  "stranded n s \<longleftrightarrow> n \<noteq> '''' \<and> n \<notin> set (snd s) \<and>
     (\<exists>c. e_cluster (fst s) = Some c \<and> d_wf c \<and> bypassed c n)"

lemma map_of_map_node: "map_of (map (\<lambda>(k, x). (k, f k x)) xs) n = map_option (f n) (map_of xs n)"
  by (induction xs) auto

lemma d_wf_map_node:
  assumes "d_wf c" "\<And>k x. n_ID (f k x) = n_ID x"
  shows "d_wf (c\<lparr>d_nodes := map (\<lambda>(k, x). (k, f k x)) (d_nodes c)\<rparr>)"
  using assms by (auto simp: d_wf_def comp_def case_prod_beta)

lemma checkNode_frame [simp]:
  "n_ID (checkNode t cfg p x) = n_ID x" "n_breakerBypassed (checkNode t cfg p x) = n_breakerBypassed x"
  by (simp_all add: checkNode_def markHealthy_def fetchModels_def fetchRemoteMetrics_def checkFailureThreshold_def
      markUnhealthy_def markDead_def Let_def split: option.splits prod.splits)

lemma fetchModels_frame [simp]:
  "n_ID (fetchModels ms x) = n_ID x" "n_breakerBypassed (fetchModels ms x) = n_breakerBypassed x"
  by (simp_all add: fetchModels_def split: option.splits)

lemma checks_keep_bypass:
  assumes "d_wf c" "bypassed c n"
  shows "d_wf (checkAll t pr c) \<and> bypassed (checkAll t pr c) n"
    and "d_wf (syncNodeModels ms c) \<and> bypassed (syncNodeModels ms c) n"
proof -
  show "d_wf (checkAll t pr c) \<and> bypassed (checkAll t pr c) n"
    using assms d_wf_map_node [OF assms(1), of "\<lambda>k x. checkNode t (d_cfg c) (pr k) x"]
    by (auto simp: checkAll_def bypassed_def map_of_map_node)
  let ?f = "\<lambda>k x. if n_state x = NodeStateHealthy then fetchModels (ms k) x else x"
  obtain x where x: "map_of (d_nodes c) n = Some x" "n_breakerBypassed x" using assms(2) by (auto simp: bypassed_def)
  have "d_wf (c\<lparr>d_nodes := map (\<lambda>(k, x). (k, ?f k x)) (d_nodes c)\<rparr>)" by (rule d_wf_map_node [OF assms(1)]) simp
  moreover have "map_of (map (\<lambda>(k, x). (k, ?f k x)) (d_nodes c)) n = Some (?f n x)"
    by (simp only: map_of_map_node x(1) option.map)
  ultimately show "d_wf (syncNodeModels ms c) \<and> bypassed (syncNodeModels ms c) n"
    using x(2) unfolding syncNodeModels_def bypassed_def by (simp del: map_map)
qed

lemma mark_keeps_bypass:
  assumes "d_wf c" "bypassed c n"
  shows "k \<noteq> n \<Longrightarrow> d_wf (MarkNodeBreakerClosed k c) \<and> bypassed (MarkNodeBreakerClosed k c) n"
    and "d_wf (MarkNodeBreakerOpen k c) \<and> bypassed (MarkNodeBreakerOpen k c) n"
  using assms
  by (auto simp: MarkNodeBreakerClosed_def MarkNodeBreakerOpen_def bypassed_def map_of_d_modify SetBreakerBypassed_def
      intro!: d_modify_wf)

lemma node_outcome_cluster:
  assumes "e_cluster e = Some c" "k \<noteq> ''''"
  shows "e_cluster (recordOutcome now (ClusterSelectorAdapter now it) ClusterBackend k ok e) \<in>
    {Some c, Some (MarkNodeBreakerOpen k c), Some (MarkNodeBreakerClosed k c)}"
  using assms
  by (simp add: recordOutcome_def RecordNodeSuccess_def RecordNodeFailure_def ClusterSelectorAdapter_def case_prod_beta Let_def)

lemma outcome_cluster [simp]:
  "backend \<noteq> ClusterBackend \<or> k = '''' \<Longrightarrow> e_cluster (recordOutcome now cs backend k ok e) = e_cluster e"
  by (auto simp: recordOutcome_def RecordSuccess_def RecordFailure_def put_breaker_def split: option.splits prod.splits)

text \<open>Updates of the members keep the flag of a node that stays.\<close>

definition members_ok :: "string \<Rightarrow> (string \<times> Node) list \<Rightarrow> bool" where
  "members_ok n ns \<longleftrightarrow> distinct (map fst ns) \<and> (\<forall>(k, x) \<in> set ns. n_ID x = k) \<and> (\<exists>x. map_of ns n = Some x \<and> n_breakerBypassed x)"

lemma members_ok_wf: "d_wf c \<and> bypassed c n \<longleftrightarrow> members_ok n (d_nodes c)"
  by (auto simp: members_ok_def d_wf_def bypassed_def)

lemma members_ok_update:
  assumes "members_ok n ns" "n_ID x = k" "k = n \<longrightarrow> n_breakerBypassed x"
  shows "members_ok n (AList.update k x ns)"
proof -
  have upd: "(j, y) \<in> set (AList.update k x ns) \<Longrightarrow> (j, y) = (k, x) \<or> (j, y) \<in> set ns" for j y
    by (induction ns) (auto split: if_splits)
  have "distinct (map fst (AList.update k x ns))" using assms(1) by (intro distinct_update) (simp add: members_ok_def)
  moreover have "\<forall>(j, y) \<in> set (AList.update k x ns). n_ID y = j" using assms(1,2) upd unfolding members_ok_def by blast
  moreover have "\<exists>y. map_of (AList.update k x ns) n = Some y \<and> n_breakerBypassed y"
    using assms(1,3) by (cases "k = n") (auto simp: members_ok_def update_conv')
  ultimately show ?thesis by (simp add: members_ok_def)
qed

lemma members_ok_append: "members_ok n ns \<Longrightarrow> map_of ns k = None \<Longrightarrow> n_ID x = k \<Longrightarrow> members_ok n (ns @ [(k, x)])"
  by (auto simp: members_ok_def map_of_eq_None_iff)

lemma map_of_filter_key: "map_of (filter (\<lambda>(k, x). P k) xs) n = (if P n then map_of xs n else None)"
  by (induction xs) auto

lemma members_ok_filter: "members_ok n ns \<Longrightarrow> P n \<Longrightarrow> members_ok n (filter (\<lambda>(k, x). P k) ns)"
  by (auto simp: members_ok_def map_of_filter_key distinct_map_filter)

lemma members_ok_id: "members_ok n ns \<Longrightarrow> map_of ns k = Some x \<Longrightarrow> n_ID x = k \<and> (k = n \<longrightarrow> n_breakerBypassed x)"
  unfolding members_ok_def by (metis (mono_tags, lifting) case_prodD map_of_SomeD option.inject)

lemma members_ok_step:
  assumes "members_ok n ns"
  shows "members_ok n (updateNode ns c)" "members_ok n (syncNode now ns mn)"
proof -
  show "members_ok n (updateNode ns c)"
    unfolding updateNode_def using assms
    by (auto simp: freshNode_def split: option.split intro!: members_ok_update members_ok_append dest: members_ok_id)
  show "members_ok n (syncNode now ns mn)"
    unfolding syncNode_def Let_def using assms
    by (auto simp: freshNode_def split: option.split intro!: members_ok_update members_ok_append dest: members_ok_id)
qed

lemma members_ok_foldl: "members_ok n ns \<Longrightarrow> (\<And>ns x. members_ok n ns \<Longrightarrow> members_ok n (f ns x)) \<Longrightarrow> members_ok n (foldl f ns xs)"
  by (induction xs arbitrary: ns) auto

lemma membership_keeps_bypass:
  assumes "d_wf c" "bypassed c n"
  shows "n \<in> set (map nc_ID (cc_Nodes cfg)) \<Longrightarrow> d_wf (d_UpdateConfig cfg c) \<and> bypassed (d_UpdateConfig cfg c) n"
    and "(\<And>mns. resp = Some mns \<Longrightarrow> n \<in> set (map mn_NodeID mns)) \<Longrightarrow> d_wf (syncFromMaster now resp c) \<and> bypassed (syncFromMaster now resp c) n"
    and "d_wf (syncMasterStrategy now st c) \<and> bypassed (syncMasterStrategy now st c) n"
proof -
  have m: "members_ok n (d_nodes c)" using assms members_ok_wf by blast
  show "d_wf (d_UpdateConfig cfg c) \<and> bypassed (d_UpdateConfig cfg c) n" if "n \<in> set (map nc_ID (cc_Nodes cfg))"
    unfolding members_ok_wf d_UpdateConfig_def using that
    by (simp add: members_ok_filter [of n _ "\<lambda>k. k \<in> nc_ID ` set (cc_Nodes cfg)"] members_ok_foldl [OF m] members_ok_step)
  show "d_wf (syncFromMaster now resp c) \<and> bypassed (syncFromMaster now resp c) n" if "\<And>mns. resp = Some mns \<Longrightarrow> n \<in> set (map mn_NodeID mns)"
    unfolding members_ok_wf syncFromMaster_def using that m
    by (auto split: option.split intro!: members_ok_filter [of n _ "\<lambda>k. k \<in> mn_NodeID ` set _"] members_ok_foldl [OF m] members_ok_step)
  show "d_wf (syncMasterStrategy now st c) \<and> bypassed (syncMasterStrategy now st c) n"
    unfolding members_ok_wf syncMasterStrategy_def using m by (auto split: option.split)
qed

lemma reload_cluster:
  "e_cluster (reload_engine cfg w e) = (if cc_Enabled (cfg_Cluster cfg) then map_option (d_UpdateConfig (cfg_Cluster cfg)) (e_cluster e) else e_cluster e)"
  by (simp add: reload_engine_def DrainAndApply_def Let_def)

lemma stranded_step: "stranded n s \<Longrightarrow> keeps_member n ev \<Longrightarrow> stranded n (rt_step s ev)"
proof (cases "(s, ev)" rule: rt_step.cases)
  case (1 e out now it cfg budget req)
  assume st: "stranded n s"
  then obtain c where c: "e_cluster e = Some c" "d_wf c" "bypassed c n" using 1 by (auto simp: stranded_def)
  obtain e' d where d: "Decide now (ClusterSelectorAdapter now it) cfg budget req e = (e', d)" by fastforce
  have "disc_at.sel_wf (d_nodes c) True e" using c by (simp add: disc_at.sel_wf_def)
  from disc_at.Decide_ok [OF this d]
  have k: "disc_at.sel_wf (d_nodes c) True e'" "disc_at.dispatch_ok d e'" by blast+
  from disc_at.sel_wfD [OF k(1)] obtain c' where c': "e_cluster e' = Some c'" "d_wf c'" "d_nodes c' = d_nodes c"
    by blast
  have b': "bypassed c' n" using c(3) c'(3) by (simp add: bypassed_def)
  then have "\<not> d_routable c' n" by (auto simp: bypassed_def d_routable_def selectable_def)
  then have "rd_Backend d = ClusterBackend \<Longrightarrow> rd_NodeID d \<noteq> n"
    using k(2) c'(1) by (auto simp: disc_at.dispatch_ok_def disc_at.node_ok_def)
  then show ?thesis using st 1 d c' b' by (auto simp: stranded_def)
next
  case (2 e out now it k ok)
  assume st: "stranded n s"
  then obtain c where c: "e_cluster e = Some c" "d_wf c" "bypassed c n" using 2 by (auto simp: stranded_def)
  show ?thesis
  proof (cases "k \<in> set out \<and> k \<noteq> ''''")
    case True
    then have "k \<noteq> n" using st 2 by (auto simp: stranded_def)
    then show ?thesis using node_outcome_cluster [OF c(1), of k now it ok] True st 2 mark_keeps_bypass [OF c(2,3), of k] c
      by (auto simp: stranded_def dest: notin_set_remove1)
  next
    case False
    then show ?thesis using st 2 by (auto simp: stranded_def dest: notin_set_remove1)
  qed
next
  case (6 e out now resp)
  assume st: "stranded n s" and k: "keeps_member n ev"
  then obtain c where c: "e_cluster e = Some c" "d_wf c" "bypassed c n" using 6 by (auto simp: stranded_def)
  have "resp = Some mns \<Longrightarrow> n \<in> set (map mn_NodeID mns)" for mns using k 6 by simp
  from membership_keeps_bypass(2) [OF c(2,3) this] show ?thesis using st 6 c(1) by (auto simp: stranded_def)
next
  case (8 e out cfg w)
  assume st: "stranded n s" and k: "keeps_member n ev"
  then obtain c where c: "e_cluster e = Some c" "d_wf c" "bypassed c n" using 8 by (auto simp: stranded_def)
  then show ?thesis using st k 8 membership_keeps_bypass(1) [OF c(2,3), of "cfg_Cluster cfg"] by (auto simp: stranded_def reload_cluster)
qed (auto simp: stranded_def dest: checks_keep_bypass membership_keeps_bypass(3))

text \<open>The engine steps once and for all on the events that keep the member.\<close>

interpretation strand: step_system "\<lambda>s ev. if keeps_member n ev then rt_step s ev else s" "stranded n" for n
  by unfold_locales (simp add: stranded_step)

lemma run_keeping: "list_all (keeps_member n) evs \<Longrightarrow> run_steps (\<lambda>s ev. if keeps_member n ev then rt_step s ev else s) s evs = run_steps rt_step s evs"
  by (induction evs arbitrary: s) simp_all

text \<open>
  C30. A node that is bypassed because its breaker opened, and has no request of its own still in flight, never becomes selectable again while it stays a member: under any
  sequence of requests, outcomes, health checks, model polls, syncs with the master and reloads that do not drop it from the cluster, for however long, it stays bypassed
  and no further request is dispatched to it (the flag is only cleared by a success on that node, which needs a dispatch).  The field comment promises a return once the
  cooldown elapses.
\<close>

theorem bypassed_node_never_recovers:
  assumes "n \<noteq> ''''" and "e_cluster e = Some c" and "d_wf c" and "bypassed c n" and "n \<notin> set out" and "list_all (keeps_member n) evs"
  shows "\<exists>c'. e_cluster (fst (run_steps rt_step (e, out) evs)) = Some c' \<and> bypassed c' n \<and>
    \<not> d_routable c' n \<and> n \<notin> set (snd (run_steps rt_step (e, out) evs))"
proof -
  have "stranded n (e, out)" using assms by (auto simp: stranded_def)
  from strand.run_inv [OF this, of evs] show ?thesis
    by (auto simp: run_keeping [OF assms(6)] stranded_def bypassed_def d_routable_def selectable_def)
qed

definition cfg_members :: Config where
  "cfg_members = cfg_cloud\<lparr>cfg_Cluster := (cfg_Cluster cfg_cloud)\<lparr>cc_Nodes :=
     [\<lparr>nc_ID = ''c'', nc_Address = ''h:1'', nc_GPU = '''', nc_MemoryGB = 0, nc_Platform = ''''\<rparr>]\<rparr>\<rparr>"

theorem bypassed_node_never_recovers_witness:
  "\<exists>c'. e_cluster (fst (run_steps rt_step (e_disc, [])
      [RtDecide 5 rev cfg_cloud None (chat ''m''), RtReload cfg_members (e_wiring e_disc),
       RtCheckAll 9000 (\<lambda>_. \<lparr>pr_health = True, pr_metrics = None, pr_models = None\<rparr>)]))
    = Some c' \<and> bypassed c' ''c''"
proof -
  have "e_cluster e_disc = Some d_example" by (simp add: e_disc_def)
  moreover have "bypassed d_example ''c''" by (simp add: bypassed_def d_example_def Let_def)
  moreover have "list_all (keeps_member ''c'') [RtDecide 5 rev cfg_cloud None (chat ''m''), RtReload cfg_members (e_wiring e_disc),
       RtCheckAll 9000 (\<lambda>_. \<lparr>pr_health = True, pr_metrics = None, pr_models = None\<rparr>)]"
    by (simp add: cfg_members_def)
  ultimately show ?thesis
    using bypassed_node_never_recovers [of "''c''" e_disc d_example "[]"] d_example_wf by fastforce
qed

text \<open>What does clear the flag is a reload without the node followed by one with it: the node comes back as a new one.\<close>

lemma updateNode_unbypassed:
  assumes "\<And>x. map_of ns n = Some x \<Longrightarrow> \<not> n_breakerBypassed x"
  shows "map_of (foldl updateNode ns cs) n = Some x \<Longrightarrow> \<not> n_breakerBypassed x"
  using assms
proof (induction cs arbitrary: ns)
  case (Cons c cs)
  have "\<not> n_breakerBypassed y" if "map_of (updateNode ns c) n = Some y" for y
    using that Cons.prems(2)
    by (cases "map_of ns (nc_ID c)"; cases "nc_ID c = n") (auto simp: updateNode_def update_conv' freshNode_def map_add_def split: option.splits if_splits)
  then show ?case using Cons.IH [of "updateNode ns c"] Cons.prems(1) by simp
qed simp

lemma readded_node_recovers:
  assumes "n \<notin> set (map nc_ID (cc_Nodes cfg1))" "n \<in> set (map nc_ID (cc_Nodes cfg2))"
  shows "\<not> bypassed (d_UpdateConfig cfg2 (d_UpdateConfig cfg1 c)) n"
proof -
  have "map_of (d_nodes (d_UpdateConfig cfg1 c)) n = None"
    using assms(1) by (simp add: d_UpdateConfig_def map_of_filter_key)
  then have "map_of (foldl updateNode (d_nodes (d_UpdateConfig cfg1 c)) (cc_Nodes cfg2)) n = Some x \<Longrightarrow> \<not> n_breakerBypassed x" for x
    using updateNode_unbypassed [of "d_nodes (d_UpdateConfig cfg1 c)" n] by simp
  moreover have "d_nodes (d_UpdateConfig cfg2 c') = filter (\<lambda>(k, x). k \<in> set (map nc_ID (cc_Nodes cfg2))) (foldl updateNode (d_nodes c') (cc_Nodes cfg2))" for c'
    by (simp add: d_UpdateConfig_def)
  ultimately show ?thesis using assms(2) by (auto simp: bypassed_def map_of_filter_key)
qed

end
