(* ===== verification/Engine_Reload.thy ===== *)
theory Engine_Reload
  imports Engine_Routing
begin

text \<open>
  Hot reload of the engine (\<^verbatim>\<open>Engine.DrainAndApply\<close>): the drain loop, what the rebuilt breakers remember,
  and the arithmetic of the GPU-memory rule on 64-bit words.
\<close>

section \<open>Draining\<close>

lemma drainLoop_observed:
  "drainLoop deadline obs \<Longrightarrow> \<exists>t. (t, 0, 0) \<in> set obs \<and> t < deadline"
  by (induction obs rule: drainLoop.induct [of _ deadline]) (auto split: if_splits)

lemma drainLoop_stops:
  "\<forall>(u, f, w) \<in> set pre. u < deadline \<Longrightarrow> t < deadline \<Longrightarrow> drainLoop deadline (pre @ (t, 0, 0) # rest)"
  by (induction pre) auto

section \<open>What a reload keeps\<close>

lemma inherit_state [simp]:
  "cb_state (inheritBreaker cfg b) = cb_state b"
  "cb_probeInFlight (inheritBreaker cfg b) = False"
  "cb_state b \<noteq> StateClosed \<Longrightarrow> cb_tripReason (inheritBreaker cfg b) = cb_tripReason b"
  "cb_state b \<noteq> StateClosed \<Longrightarrow> cb_lastFailureTime (inheritBreaker cfg b) = cb_lastFailureTime b"
  "cb_cfg (inheritBreaker cfg b) = rc_CircuitBreaker (cfg_Routing cfg)"
  by (auto simp: inheritBreaker_def cb_InheritSnapshot_def cb_Snapshot_def NewCircuitBreaker_def)

text \<open>The new breaker is in the state of the old one, remembers reason, time and failures of a trip, and obeys the new configuration.\<close>

definition trip_kept :: "Config \<Rightarrow> CircuitBreaker \<Rightarrow> CircuitBreaker \<Rightarrow> bool" where
  "trip_kept cfg b b' \<longleftrightarrow> cb_state b' = cb_state b \<and> cb_cfg b' = rc_CircuitBreaker (cfg_Routing cfg) \<and>
     (cb_state b \<noteq> StateClosed \<longrightarrow> cb_tripReason b' = cb_tripReason b \<and> cb_lastFailureTime b' = cb_lastFailureTime b \<and>
        cb_failureCount b' = cb_failureCount b)"

lemma inherit_trip_kept: "trip_kept cfg b (inheritBreaker cfg b)"
  by (auto simp: trip_kept_def inheritBreaker_def cb_InheritSnapshot_def cb_Snapshot_def NewCircuitBreaker_def)

text \<open>
  C33. A hot reload keeps every trip: cloud, cluster and per-node breakers come out in the state they went in, with the new configuration in force and, unless closed,
  with reason, time and failure count of the trip; the set of known nodes is kept.  The local breaker alone is warmed up: open becomes half-open, and whatever its
  state it admits the next request at once, so a probe that was in flight before the reload no longer excludes a second one.
\<close>

theorem reload_keeps_trips:
  "let e' = DrainAndApply cfg e in
     trip_kept cfg (e_cloud e) (e_cloud e') \<and> trip_kept cfg (e_clusterBreaker e) (e_clusterBreaker e') \<and>
     (\<forall>n. case e_nodeBreakers e n of
            None \<Rightarrow> e_nodeBreakers e' n = None
          | Some b \<Rightarrow> \<exists>b'. e_nodeBreakers e' n = Some b' \<and> trip_kept cfg b b') \<and>
     cb_state (e_local e') = (if cb_state (e_local e) = StateOpen then StateHalfOpen else cb_state (e_local e)) \<and>
     snd (cb_Admit now (e_local e'))"
  by (auto simp: DrainAndApply_def Let_def warmup_def cb_Snapshot_def cb_ResetToHalfOpen_def cb_Admit_def inherit_trip_kept
      split: option.split CircuitBreakerState.splits)

definition e_tripped :: "unit Engine" where
  "e_tripped = Trip 4 ''cluster'' ''down'' (e_example\<lparr>e_nodeBreakers := [''n1'' \<mapsto> cb_Trip 3 ''bad'' (e_cloud e_example)]\<rparr>)"

theorem reload_keeps_trips_witness:
  "cb_tripReason (e_clusterBreaker (DrainAndApply cfg_example e_tripped)) = ''down'' \<and>
   (\<exists>b. e_nodeBreakers (DrainAndApply cfg_example e_tripped) ''n1'' = Some b \<and> cb_state b = StateOpen \<and> cb_tripReason b = ''bad'' \<and> cb_lastFailureTime b = 3)"
proof -
  have "cb_state (e_clusterBreaker e_tripped) = StateOpen" "cb_tripReason (e_clusterBreaker e_tripped) = ''down''"
    "e_nodeBreakers e_tripped ''n1'' = Some (cb_Trip 3 ''bad'' (e_cloud e_example))"
    by (simp_all add: e_tripped_def Trip_def get_breaker_def put_breaker_def cb_Trip_def)
  note tripped = this
  have t: "cb_state (cb_Trip 3 ''bad'' b) = StateOpen" "cb_tripReason (cb_Trip 3 ''bad'' b) = ''bad''" "cb_lastFailureTime (cb_Trip 3 ''bad'' b) = 3" for b
    by (simp_all add: cb_Trip_def)
  note k = reload_keeps_trips [of cfg_example e_tripped 0, unfolded Let_def]
  from k have "trip_kept cfg_example (e_clusterBreaker e_tripped) (e_clusterBreaker (DrainAndApply cfg_example e_tripped))" by blast
  moreover from k have "case e_nodeBreakers e_tripped ''n1'' of None \<Rightarrow> e_nodeBreakers (DrainAndApply cfg_example e_tripped) ''n1'' = None
      | Some b \<Rightarrow> \<exists>b'. e_nodeBreakers (DrainAndApply cfg_example e_tripped) ''n1'' = Some b' \<and> trip_kept cfg_example b b'" by blast
  then have "\<exists>b'. e_nodeBreakers (DrainAndApply cfg_example e_tripped) ''n1'' = Some b' \<and> trip_kept cfg_example (cb_Trip 3 ''bad'' (e_cloud e_example)) b'"
    unfolding tripped(3) by simp
  ultimately show ?thesis using tripped(1,2) t by (auto simp: trip_kept_def)
qed

section \<open>The GPU rule on machine words\<close>

lemma fifth_floor: "\<lfloor>(of_int n :: rat) * (2 / 10)\<rfloor> = n div 5"
proof -
  have "(of_int n :: rat) * (2 / 10) = of_int n / of_int 5" by simp
  then show ?thesis by (simp only: floor_divide_of_int_eq)
qed

lemma wrapped_not_low:
  fixes a u :: "64 word"
  assumes "uint a < uint u"
  shows "uint a div 5 \<le> uint (a - u)"
proof -
  have "uint (a - u) = uint a - uint u + 2 ^ 64" using assms by (simp add: uint_sub_if')
  moreover have "uint u < 2 ^ 64" using uint_bounded [of u] by simp
  moreover have "uint a div 5 \<le> uint a" using uint_nonnegative [of a] by linarith
  ultimately show ?thesis by linarith
qed

text \<open>
  The GPU-memory rule fires exactly when the memory in use does not exceed the allocated budget and less than a
  fifth of the budget is left.  When the reported use exceeds the budget, the unsigned difference wraps around and
  the rule stays silent.
\<close>

theorem gpu_memory_low_exact:
  "gpuMemoryLow hw \<longleftrightarrow>
     0 < uint (hw_GPUInUseMemory hw) \<and> uint (hw_GPUInUseMemory hw) \<le> uint (hw_GPUAllocMemory hw) \<and>
     uint (hw_GPUAllocMemory hw) - uint (hw_GPUInUseMemory hw) < uint (hw_GPUAllocMemory hw) div 5"
proof (cases "uint (hw_GPUInUseMemory hw) \<le> uint (hw_GPUAllocMemory hw)")
  case True
  then have "uint (hw_GPUAllocMemory hw - hw_GPUInUseMemory hw) =
      uint (hw_GPUAllocMemory hw) - uint (hw_GPUInUseMemory hw)"
    by (simp add: uint_sub_lem)
  then show ?thesis using True
    unfolding gpuMemoryLow_def fifth_floor by (auto simp: word_less_def)
next
  case False
  then show ?thesis using wrapped_not_low [of "hw_GPUAllocMemory hw" "hw_GPUInUseMemory hw"]
    unfolding gpuMemoryLow_def fifth_floor by auto
qed

end
