(* ===== verification/Browser_Nodes.thy ===== *)
theory Browser_Nodes
  imports Gateway_Prelude "HOL-Library.List_Lexorder" "HOL-Library.Char_ord" "HOL-Library.Product_Lexorder" "HOL-Library.AList"
begin

text \<open>
  The browser nodes: their registry with the capacity poll (\<^verbatim>\<open>browser/registry.go\<close>) and the placement of a new session
  (\<^verbatim>\<open>browser/scheduler.go\<close>).

  The node map is an association list with distinct keys; an operation that depends on the iteration order of the map takes
  it as the parameter \<open>it\<close>.  The answer of a node to a capacity query and the label of a dial-in node (a SHA-1 prefix of
  its socket path) are parameters.
\<close>

section \<open>Data\<close>

record FBNodeCapacity =
  cap_NodeID :: string
  cap_MaxSessions :: int
  cap_LiveSessions :: int
  cap_MaxTotalMemoryMB :: int
  cap_FreeMemoryMB :: int
  cap_RamGB :: int

record BrowserNodeConfig =
  bc_ID :: string
  bc_SocketPath :: string
  bc_Token :: string

datatype BrowserNodeState = NodeStateLive | NodeStateGone

datatype nodeSource = sourceConfig | sourceDialin

record BrowserNode =
  bn_NodeID :: string
  bn_SocketPath :: string
  bn_Token :: string
  bn_Capacity :: "FBNodeCapacity option"
  bn_State :: BrowserNodeState
  bn_failures :: int
  bn_lastPoll :: time
  bn_source :: nodeSource

record nodeView =
  nv_NodeID :: string
  nv_SocketPath :: string
  nv_Token :: string
  nv_Capacity :: "FBNodeCapacity option"
  nv_State :: BrowserNodeState
  nv_Failures :: int
  nv_LastPoll :: time
  nv_Source :: nodeSource

record Registry =
  reg_nodes :: "(string \<times> BrowserNode) list"
  reg_failureThreshold :: int
  reg_recoveryInterval :: duration

type_synonym bn_order = "(string \<times> BrowserNode) list \<Rightarrow> (string \<times> BrowserNode) list"

section \<open>Registry\<close>

definition configNode :: "BrowserNodeConfig \<Rightarrow> BrowserNode" where
  "configNode c =
     \<lparr>bn_NodeID = bc_ID c, bn_SocketPath = bc_SocketPath c, bn_Token = bc_Token c, bn_Capacity = None,
      bn_State = NodeStateLive, bn_failures = 0, bn_lastPoll = zero_time, bn_source = sourceConfig\<rparr>"

text \<open>The seed loop: the duplicate label is the error.\<close>

fun seedNodes :: "(string \<times> BrowserNode) list \<Rightarrow> BrowserNodeConfig list \<Rightarrow> string + (string \<times> BrowserNode) list" where
  "seedNodes ns [] = Inr ns"
| "seedNodes ns (c # cs) =
     (if map_of ns (bc_ID c) \<noteq> None then Inl (bc_ID c) else seedNodes (AList.update (bc_ID c) (configNode c) ns) cs)"

definition NewRegistry :: "int \<Rightarrow> duration \<Rightarrow> BrowserNodeConfig list \<Rightarrow> string + Registry" where
  "NewRegistry failureThreshold recoveryInterval seed =
     (case seedNodes [] seed of
        Inl dup \<Rightarrow> Inl dup
      | Inr ns \<Rightarrow> Inr \<lparr>reg_nodes = ns, reg_failureThreshold = failureThreshold, reg_recoveryInterval = recoveryInterval\<rparr>)"

definition bn_view :: "BrowserNode \<Rightarrow> nodeView" where
  "bn_view n =
     \<lparr>nv_NodeID = bn_NodeID n, nv_SocketPath = bn_SocketPath n, nv_Token = bn_Token n, nv_Capacity = bn_Capacity n,
      nv_State = bn_State n, nv_Failures = bn_failures n, nv_LastPoll = bn_lastPoll n, nv_Source = bn_source n\<rparr>"

definition isDue :: "time \<Rightarrow> duration \<Rightarrow> BrowserNode \<Rightarrow> bool" where
  "isDue now recoveryInterval n \<longleftrightarrow> \<not> (bn_State n = NodeStateGone \<and> now - bn_lastPoll n < recoveryInterval)"

definition dueNodes :: "bn_order \<Rightarrow> time \<Rightarrow> Registry \<Rightarrow> nodeView list" where
  "dueNodes it now r =
     map bn_view (filter (isDue now (reg_recoveryInterval r)) (map snd (iterate it (reg_nodes r))))"

definition recordSuccess :: "time \<Rightarrow> FBNodeCapacity \<Rightarrow> BrowserNode \<Rightarrow> BrowserNode" where
  "recordSuccess now cap n =
     n\<lparr>bn_Capacity := Some cap, bn_failures := 0, bn_lastPoll := now, bn_State := NodeStateLive\<rparr>"

definition recordFailure :: "time \<Rightarrow> int \<Rightarrow> BrowserNode \<Rightarrow> BrowserNode" where
  "recordFailure now threshold n =
     (let n1 = n\<lparr>bn_failures := bn_failures n + 1, bn_lastPoll := now\<rparr>
      in if bn_failures n1 \<ge> threshold \<and> bn_State n1 = NodeStateLive then n1\<lparr>bn_State := NodeStateGone\<rparr> else n1)"

text \<open>One polled view: the answer and the instant at which it is recorded; \<open>None\<close> is a failed query.\<close>

definition pollNode :: "time \<Rightarrow> FBNodeCapacity option \<Rightarrow> nodeView \<Rightarrow> Registry \<Rightarrow> Registry" where
  "pollNode now answer v r =
     (case map_of (reg_nodes r) (nv_NodeID v) of
        None \<Rightarrow> r
      | Some n \<Rightarrow>
          r\<lparr>reg_nodes := AList.update (nv_NodeID v)
              (case answer of None \<Rightarrow> recordFailure now (reg_failureThreshold r) n
               | Some cap \<Rightarrow> recordSuccess now cap n) (reg_nodes r)\<rparr>)"

definition pollOnce :: "bn_order \<Rightarrow> time \<Rightarrow> (nodeView \<Rightarrow> time \<times> FBNodeCapacity option) \<Rightarrow> Registry \<Rightarrow> Registry" where
  "pollOnce it now probe r = foldl (\<lambda>r v. pollNode (fst (probe v)) (snd (probe v)) v r) r (dueNodes it now r)"

definition findBySocket :: "bn_order \<Rightarrow> string \<Rightarrow> Registry \<Rightarrow> (string \<times> BrowserNode) option" where
  "findBySocket it socketPath r = find (\<lambda>(k, n). bn_SocketPath n = socketPath) (iterate it (reg_nodes r))"

definition RegisterDialin ::
    "(string \<Rightarrow> string) \<Rightarrow> bn_order \<Rightarrow> time \<Rightarrow> string \<Rightarrow> string \<Rightarrow> FBNodeCapacity option \<Rightarrow> Registry \<Rightarrow> Registry \<times> string" where
  "RegisterDialin dialinLabel it now socketPath token cap r =
     (case findBySocket it socketPath r of
        Some (k, n) \<Rightarrow>
          (r\<lparr>reg_nodes := AList.update k
               (n\<lparr>bn_Capacity := cap, bn_failures := 0, bn_lastPoll := now, bn_State := NodeStateLive\<rparr>) (reg_nodes r)\<rparr>,
           bn_NodeID n)
      | None \<Rightarrow>
          (let nid = dialinLabel socketPath in
           (r\<lparr>reg_nodes := AList.update nid
                \<lparr>bn_NodeID = nid, bn_SocketPath = socketPath, bn_Token = token, bn_Capacity = cap, bn_State = NodeStateLive,
                 bn_failures = 0, bn_lastPoll = now, bn_source = sourceDialin\<rparr> (reg_nodes r)\<rparr>,
            nid)))"

definition reg_Snapshot :: "bn_order \<Rightarrow> Registry \<Rightarrow> nodeView list" where
  "reg_Snapshot it r = sort_key nv_NodeID (map bn_view (map snd (iterate it (reg_nodes r))))"

definition SocketOf :: "string \<Rightarrow> Registry \<Rightarrow> string option" where
  "SocketOf nid r = map_option bn_SocketPath (map_of (reg_nodes r) nid)"

definition TokenOf :: "string \<Rightarrow> Registry \<Rightarrow> string option" where
  "TokenOf nid r = map_option bn_Token (map_of (reg_nodes r) nid)"

definition IsDead :: "string \<Rightarrow> Registry \<Rightarrow> bool" where
  "IsDead nid r = (case map_of (reg_nodes r) nid of None \<Rightarrow> True | Some n \<Rightarrow> bn_State n = NodeStateGone)"

definition reloadNode :: "Registry \<Rightarrow> (string \<times> BrowserNode) list \<Rightarrow> BrowserNodeConfig \<Rightarrow> (string \<times> BrowserNode) list" where
  "reloadNode r newSet c =
     AList.update (bc_ID c)
       (case map_of (reg_nodes r) (bc_ID c) of
          Some old \<Rightarrow> if bn_SocketPath old = bc_SocketPath c then old else configNode c
        | None \<Rightarrow> configNode c) newSet"

definition keepDialin :: "(string \<times> BrowserNode) list \<Rightarrow> string \<times> BrowserNode \<Rightarrow> (string \<times> BrowserNode) list" where
  "keepDialin newSet e =
     (if bn_source (snd e) = sourceDialin \<and> map_of newSet (fst e) = None then AList.update (fst e) (snd e) newSet else newSet)"

definition reg_DrainAndApply :: "bn_order \<Rightarrow> BrowserNodeConfig list \<Rightarrow> Registry \<Rightarrow> Registry" where
  "reg_DrainAndApply it seed r =
     r\<lparr>reg_nodes := foldl keepDialin (foldl (reloadNode r) [] seed) (iterate it (reg_nodes r))\<rparr>"

section \<open>Scheduler\<close>

record Scheduler =
  sch_globalMaxSessions :: int
  sch_minFreeMBPerSession :: int

datatype pick_error = ErrGlobalQuotaExceeded int int | ErrNoNodeHeadroom

definition freeMem :: "nodeView \<Rightarrow> int" where
  "freeMem v = (case nv_Capacity v of None \<Rightarrow> 0 | Some c \<Rightarrow> cap_FreeMemoryMB c)"

definition liveSessions :: "nodeView \<Rightarrow> int" where
  "liveSessions v = (case nv_Capacity v of None \<Rightarrow> 0 | Some c \<Rightarrow> cap_LiveSessions c)"

definition candidateFor :: "Scheduler \<Rightarrow> nodeView \<Rightarrow> bool" where
  "candidateFor s v =
     (let (live, mx, free) =
        (case nv_Capacity v of
           None \<Rightarrow> (0, 2 ^ 31 - 1, 0)
         | Some c \<Rightarrow> (cap_LiveSessions c, cap_MaxSessions c, cap_FreeMemoryMB c))
      in if live \<ge> mx then False else if free \<noteq> 0 \<and> free < sch_minFreeMBPerSession s then False else True)"

definition rank_less :: "nodeView \<Rightarrow> nodeView \<Rightarrow> bool" where
  "rank_less a b =
     (if freeMem a \<noteq> freeMem b then freeMem a > freeMem b
      else if liveSessions a \<noteq> liveSessions b then liveSessions a < liveSessions b
      else nv_NodeID a < nv_NodeID b)"

text \<open>The inner loop swaps the element at \<open>k\<close> down; the outer loop runs over the positions from 1.\<close>

fun sinkLoop :: "nodeView list \<Rightarrow> nat \<Rightarrow> nodeView list" where
  "sinkLoop ranked 0 = ranked"
| "sinkLoop ranked (Suc k) =
     (if rank_less (ranked ! Suc k) (ranked ! k)
      then sinkLoop (ranked[Suc k := ranked ! k, k := ranked ! Suc k]) k else ranked)"

definition rankCandidates :: "nodeView list \<Rightarrow> nodeView list" where
  "rankCandidates c = foldl sinkLoop c [1..<length c]"

fun pickLoop :: "Scheduler \<Rightarrow> nodeView list \<Rightarrow> int \<Rightarrow> nodeView list \<Rightarrow> int \<times> nodeView list" where
  "pickLoop s [] totalLive candidates = (totalLive, candidates)"
| "pickLoop s (v # vs) totalLive candidates =
     (if nv_State v \<noteq> NodeStateLive then pickLoop s vs totalLive candidates
      else pickLoop s vs
        (case nv_Capacity v of None \<Rightarrow> totalLive | Some c \<Rightarrow> totalLive + cap_LiveSessions c)
        (if candidateFor s v then candidates @ [v] else candidates))"

definition Pick :: "bn_order \<Rightarrow> Scheduler \<Rightarrow> Registry \<Rightarrow> pick_error + string" where
  "Pick it s r =
     (let (totalLive, candidates) = pickLoop s (reg_Snapshot it r) 0 [] in
      if sch_globalMaxSessions s > 0 \<and> totalLive \<ge> sch_globalMaxSessions s
      then Inl (ErrGlobalQuotaExceeded totalLive (sch_globalMaxSessions s))
      else if candidates = [] then Inl ErrNoNodeHeadroom
      else Inr (nv_NodeID (rankCandidates candidates ! 0)))"

lemma bn_view_simps [simp]: "nv_NodeID (bn_view n) = bn_NodeID n" "nv_State (bn_view n) = bn_State n"
  by (simp_all add: bn_view_def)

section \<open>The registry invariant\<close>

text \<open>
  Keys are distinct and label their node, and with a positive threshold a node is dead exactly when at least that many polls
  in a row have failed.
\<close>

definition node_ok :: "int \<Rightarrow> string \<Rightarrow> BrowserNode \<Rightarrow> bool" where
  "node_ok threshold k n \<longleftrightarrow> bn_NodeID n = k \<and> 0 \<le> bn_failures n \<and>
     (0 < threshold \<longrightarrow> (bn_State n = NodeStateGone \<longleftrightarrow> threshold \<le> bn_failures n))"

definition nodes_ok :: "int \<Rightarrow> (string \<times> BrowserNode) list \<Rightarrow> bool" where
  "nodes_ok threshold ns \<longleftrightarrow> distinct (map fst ns) \<and> (\<forall>k n. map_of ns k = Some n \<longrightarrow> node_ok threshold k n)"

definition reg_ok :: "Registry \<Rightarrow> bool" where
  "reg_ok r \<longleftrightarrow> nodes_ok (reg_failureThreshold r) (reg_nodes r)"

lemma nodes_ok_Nil [simp]: "nodes_ok th []"
  by (simp add: nodes_ok_def)

lemma nodes_ok_update: "nodes_ok th ns \<Longrightarrow> node_ok th k n \<Longrightarrow> nodes_ok th (AList.update k n ns)"
  by (simp add: nodes_ok_def update_conv' distinct_update)

lemma node_ok_config [simp]: "node_ok th (bc_ID c) (configNode c)"
  by (simp add: node_ok_def configNode_def)

lemma node_ok_success: "node_ok th k n \<Longrightarrow> node_ok th k (recordSuccess now cap n)"
  by (simp add: node_ok_def recordSuccess_def)

lemma node_ok_failure: "node_ok th k n \<Longrightarrow> node_ok th k (recordFailure now th n)"
  by (cases "bn_State n") (auto simp: node_ok_def recordFailure_def Let_def)

lemma node_ok_live: "node_ok th k n \<Longrightarrow>
    node_ok th k (n\<lparr>bn_Capacity := c, bn_failures := 0, bn_lastPoll := now, bn_State := NodeStateLive\<rparr>)"
  by (simp add: node_ok_def)

lemma nodes_ok_entry: "nodes_ok th ns \<Longrightarrow> (k, n) \<in> set ns \<Longrightarrow> map_of ns k = Some n \<and> node_ok th k n"
  by (auto simp: nodes_ok_def)

lemma nodes_ok_seed: "nodes_ok th ns \<Longrightarrow> seedNodes ns cs = Inr ns' \<Longrightarrow> nodes_ok th ns'"
  by (induction ns cs rule: seedNodes.induct) (auto simp: nodes_ok_update split: if_splits)

lemma nodes_ok_reload:
  assumes "reg_ok r"
  shows "nodes_ok (reg_failureThreshold r) newSet \<Longrightarrow> nodes_ok (reg_failureThreshold r) (foldl (reloadNode r) newSet seed)"
proof (induction seed arbitrary: newSet)
  case (Cons c seed)
  have "nodes_ok (reg_failureThreshold r) (reloadNode r newSet c)"
    unfolding reloadNode_def
    using assms Cons.prems by (intro nodes_ok_update) (auto simp: reg_ok_def nodes_ok_def split: option.split)
  then show ?case using Cons.IH by simp
qed simp

lemma nodes_ok_keepDialin:
  "nodes_ok th newSet \<Longrightarrow> \<forall>(k, n) \<in> set es. node_ok th k n \<Longrightarrow> nodes_ok th (foldl keepDialin newSet es)"
  by (induction es arbitrary: newSet) (auto simp: keepDialin_def nodes_ok_update)

lemma reg_ok_poll: "reg_ok r \<Longrightarrow> reg_ok (pollNode now answer v r)"
  by (auto simp: pollNode_def reg_ok_def nodes_ok_def [of _ "reg_nodes r"] split: option.splits
      intro!: nodes_ok_update node_ok_failure node_ok_success)

lemma reg_ok_polls: "reg_ok r \<Longrightarrow> reg_ok (foldl (\<lambda>r v. pollNode (fst (probe v)) (snd (probe v)) v r) r vs)"
  by (induction vs arbitrary: r) (simp_all add: reg_ok_poll)

text \<open>The events of a registry.\<close>

datatype reg_event =
  PollTick bn_order time "nodeView \<Rightarrow> time \<times> FBNodeCapacity option"
| LatePoll time "FBNodeCapacity option" nodeView
| DialIn bn_order time string string "FBNodeCapacity option"
| ConfigReload bn_order "BrowserNodeConfig list"

fun reg_step :: "(string \<Rightarrow> string) \<Rightarrow> Registry \<Rightarrow> reg_event \<Rightarrow> Registry" where
  "reg_step label r (PollTick it now probe) = pollOnce it now probe r"
| "reg_step label r (LatePoll now answer v) = pollNode now answer v r"
| "reg_step label r (DialIn it now socket token cap) = fst (RegisterDialin label it now socket token cap r)"
| "reg_step label r (ConfigReload it seed) = reg_DrainAndApply it seed r"

lemma find_in_set: "find P xs = Some x \<Longrightarrow> x \<in> set xs"
  by (auto simp: find_Some_iff)

lemma reg_ok_dialin: "reg_ok r \<Longrightarrow> reg_ok (fst (RegisterDialin label it now socket token cap r))"
proof (cases "findBySocket it socket r")
  case (Some e)
  moreover obtain k n where e: "e = (k, n)" by (cases e)
  ultimately have "(k, n) \<in> set (reg_nodes r)"
    using find_in_set [of _ "iterate it (reg_nodes r)" "(k, n)"] by (simp add: findBySocket_def)
  moreover assume "reg_ok r"
  ultimately show ?thesis using Some e nodes_ok_entry [of _ "reg_nodes r" k n]
    by (simp add: RegisterDialin_def reg_ok_def nodes_ok_update node_ok_live)
next
  case None
  moreover assume "reg_ok r"
  ultimately show ?thesis
    by (simp add: RegisterDialin_def reg_ok_def Let_def) (rule nodes_ok_update, simp_all add: node_ok_def)
qed

lemma reg_ok_step: "reg_ok r \<Longrightarrow> reg_ok (reg_step label r e)"
proof (cases e)
  case (ConfigReload it seed)
  moreover assume ok: "reg_ok r"
  moreover have "\<forall>(k, n) \<in> set (iterate it (reg_nodes r)). node_ok (reg_failureThreshold r) k n"
    using ok nodes_ok_entry by (auto simp: reg_ok_def)
  ultimately show ?thesis
    using nodes_ok_keepDialin nodes_ok_reload [OF ok] by (simp add: reg_DrainAndApply_def reg_ok_def)
qed (simp_all add: pollOnce_def reg_ok_polls reg_ok_poll reg_ok_dialin)

lemma pollNode_threshold [simp]: "reg_failureThreshold (pollNode now answer v r) = reg_failureThreshold r"
  by (simp add: pollNode_def split: option.split)

lemma polls_threshold: "reg_failureThreshold (foldl (\<lambda>r v. pollNode (f v) (g v) v r) r vs) = reg_failureThreshold r"
  by (induction vs arbitrary: r) simp_all

lemma run_steps_threshold: "reg_failureThreshold (run_steps (reg_step label) r evs) = reg_failureThreshold r"
proof (induction evs arbitrary: r)
  case (Cons e evs)
  have "reg_failureThreshold (reg_step label r e) = reg_failureThreshold r"
    by (cases e) (auto simp: pollOnce_def polls_threshold RegisterDialin_def reg_DrainAndApply_def Let_def split: option.split)
  then show ?case using Cons.IH by simp
qed simp

interpretation registry: step_system "reg_step label" reg_ok
  by unfold_locales (rule reg_ok_step)

lemma reg_ok_New: "NewRegistry th rec seed = Inr r \<Longrightarrow> reg_ok r"
  by (auto simp: NewRegistry_def reg_ok_def split: sum.splits intro: nodes_ok_seed [OF nodes_ok_Nil])

text \<open>
  In every state the registry reaches from its configuration seed, through any interleaving of poll ticks, poll answers
  that arrive after a reload, dial-in registrations and reloads, every key labels its own node, and with a positive threshold a
  node is dead exactly when at least that many of its polls in a row have failed; a successful poll makes it live at once.
\<close>

theorem browser_liveness_exact:
  assumes "NewRegistry th rec seed = Inr r0" "0 < th"
    and "map_of (reg_nodes (run_steps (reg_step label) r0 evs)) k = Some n"
  shows "reg_failureThreshold (run_steps (reg_step label) r0 evs) = th \<and> bn_NodeID n = k \<and> 0 \<le> bn_failures n \<and>
    (bn_State n = NodeStateGone \<longleftrightarrow> th \<le> bn_failures n) \<and>
    bn_failures (recordFailure now th n) = bn_failures n + 1 \<and>
    bn_State (recordSuccess now cap n) = NodeStateLive \<and> bn_failures (recordSuccess now cap n) = 0"
proof -
  let ?r = "run_steps (reg_step label) r0 evs"
  have th: "reg_failureThreshold ?r = th"
    using assms(1) run_steps_threshold by (auto simp: NewRegistry_def split: sum.splits)
  have "reg_ok ?r" by (rule registry.run_inv [OF reg_ok_New [OF assms(1)]])
  then have "node_ok th k n" using assms(3) th by (simp add: reg_ok_def nodes_ok_def)
  then show ?thesis using th assms(2) by (simp add: node_ok_def recordFailure_def recordSuccess_def Let_def)
qed

definition browser_seed :: "BrowserNodeConfig list" where
  "browser_seed = [\<lparr>bc_ID = ''b1'', bc_SocketPath = ''/run/b1'', bc_Token = ''t1''\<rparr>,
     \<lparr>bc_ID = ''b2'', bc_SocketPath = ''/run/b2'', bc_Token = ''t2''\<rparr>]"

definition browser_polls :: "reg_event list" where
  "browser_polls = [PollTick id 1 (\<lambda>v. (1, None)), PollTick rev 2 (\<lambda>v. (2, None)), ConfigReload id browser_seed]"

definition browser_seeded :: Registry where
  "browser_seeded = \<lparr>reg_nodes = [(''b1'', configNode (hd browser_seed)), (''b2'', configNode (last browser_seed))],
     reg_failureThreshold = 2, reg_recoveryInterval = 10\<rparr>"

definition browser_dead_node :: BrowserNode where
  "browser_dead_node = (configNode (hd browser_seed))\<lparr>bn_failures := 2, bn_lastPoll := 2, bn_State := NodeStateGone\<rparr>"

lemma browser_example_run:
  "NewRegistry 2 10 browser_seed = Inr browser_seeded"
  "map_of (reg_nodes (run_steps (reg_step id) browser_seeded browser_polls)) ''b1'' = Some browser_dead_node"
  by code_simp+

theorem browser_liveness_exact_witness:
  "bn_NodeID browser_dead_node = ''b1'' \<and> (bn_State browser_dead_node = NodeStateGone \<longleftrightarrow> 2 \<le> bn_failures browser_dead_node) \<and>
   bn_State browser_dead_node = NodeStateGone"
  using browser_liveness_exact [OF browser_example_run(1) _ browser_example_run(2)]
  by (simp add: browser_dead_node_def)

section \<open>Ranking\<close>

text \<open>The composite key: most free memory, then fewest live sessions, then the label.\<close>

definition rank_key :: "nodeView \<Rightarrow> int \<times> int \<times> string" where
  "rank_key v = (- freeMem v, liveSessions v, nv_NodeID v)"

lemma rank_less_key: "rank_less a b \<longleftrightarrow> rank_key a < rank_key b"
  by (auto simp: rank_less_def rank_key_def less_prod_def)

lemma swap_adjacent: "(xs @ a # b # ys)[Suc (length xs) := a, length xs := b] = xs @ b # a # ys"
  by (simp add: list_update_append)

lemma sinkLoop_inserts:
  "sorted (map rank_key ys) \<Longrightarrow>
   sinkLoop (ys @ x # zs) (length ys) =
     takeWhile (\<lambda>y. rank_key y \<le> rank_key x) ys @ x # dropWhile (\<lambda>y. rank_key y \<le> rank_key x) ys @ zs"
proof (induction ys arbitrary: zs rule: rev_induct)
  case (snoc y ys)
  let ?P = "\<lambda>y. rank_key y \<le> rank_key x"
  have nth: "(ys @ y # x # zs) ! Suc (length ys) = x" "(ys @ y # x # zs) ! length ys = y"
    by (simp_all add: nth_append)
  show ?case
  proof (cases "?P y")
    case True
    then have "\<forall>z \<in> set (ys @ [y]). ?P z" using snoc.prems by (auto simp: sorted_append)
    then have "takeWhile ?P (ys @ [y]) = ys @ [y]" "dropWhile ?P (ys @ [y]) = []" by auto
    then show ?thesis using leD [OF True] nth by (simp add: rank_less_key del: takeWhile_append dropWhile_append)
  next
    case False
    then have "sinkLoop ((ys @ [y]) @ x # zs) (length (ys @ [y])) = sinkLoop (ys @ x # y # zs) (length ys)"
      using nth swap_adjacent [of ys y x zs] by (simp add: rank_less_key not_le)
    also have "\<dots> = takeWhile ?P ys @ x # dropWhile ?P ys @ y # zs"
      using snoc by (simp add: sorted_append)
    finally show ?thesis using False by (simp add: takeWhile_tail dropWhile_append)
  qed
qed simp

lemma insert_right_sorts:
  assumes "ys = sort_key f pre"
  shows "takeWhile (\<lambda>y. f y \<le> f x) ys @ x # dropWhile (\<lambda>y. f y \<le> f x) ys = sort_key f (pre @ [x])"
proof (rule properties_for_sort_key [symmetric])
  let ?P = "\<lambda>y. f y \<le> (f x :: 'b :: linorder)"
  have s: "sorted (map f ys)" and m: "mset ys = mset pre" using assms by simp_all
  have split: "takeWhile ?P ys @ dropWhile ?P ys = ys" by simp
  show "mset (takeWhile ?P ys @ x # dropWhile ?P ys) = mset (pre @ [x])"
  proof -
    have "mset (takeWhile ?P ys) + mset (dropWhile ?P ys) = mset ys" by (metis mset_append split)
    then show ?thesis using m by simp
  qed
  have gt: "\<forall>y \<in> set (dropWhile ?P ys). f x < f y"
  proof
    fix y assume y: "y \<in> set (dropWhile ?P ys)"
    then have "dropWhile ?P ys \<noteq> []" by (metis empty_iff empty_set)
    then have "\<not> ?P (hd (dropWhile ?P ys))" by (rule hd_dropWhile)
    moreover have "sorted (map f (dropWhile ?P ys))"
      using s split by (metis map_append sorted_append)
    then have "f (hd (dropWhile ?P ys)) \<le> f y" using y by (cases "dropWhile ?P ys") auto
    ultimately show "f x < f y" by simp
  qed
  show "sorted (map f (takeWhile ?P ys @ x # dropWhile ?P ys))"
  proof -
    have "sorted (map f (takeWhile ?P ys))" "sorted (map f (dropWhile ?P ys))"
      using s split by (metis map_append sorted_append)+
    moreover have "\<forall>a \<in> set (takeWhile ?P ys). f a \<le> f x" by (auto dest: set_takeWhileD)
    ultimately show ?thesis using gt by (force simp: sorted_append intro: less_imp_le)
  qed
  fix k assume "k \<in> set (takeWhile ?P ys @ x # dropWhile ?P ys)"
  have "filter (\<lambda>z. f k = f z) ys = filter (\<lambda>z. f k = f z) pre"
    unfolding assms using sort_key_stable [of f "f k" pre] by (simp add: eq_commute)
  moreover have "f k = f x \<Longrightarrow> filter (\<lambda>z. f k = f z) (dropWhile ?P ys) = []" using gt by (auto simp: filter_empty_conv)
  ultimately show "filter (\<lambda>z. f k = f z) (takeWhile ?P ys @ x # dropWhile ?P ys) = filter (\<lambda>z. f k = f z) (pre @ [x])"
    using arg_cong [OF split, of "filter (\<lambda>z. f k = f z)"]
    by (cases "f k = f x") (simp_all del: takeWhile_dropWhile_id)
qed

text \<open>The outer loop keeps a sorted prefix.\<close>

lemma rankLoop_prefix:
  "0 < i \<Longrightarrow> i \<le> length c \<Longrightarrow> foldl sinkLoop c [1..<i] = sort_key rank_key (take i c) @ drop i c"
proof (induction i rule: nat_induct_non_zero)
  case 1
  then show ?case by (cases c) auto
next
  case (Suc i)
  let ?ys = "sort_key rank_key (take i c)"
  have d: "drop i c = c ! i # drop (Suc i) c" using Suc.prems by (simp add: Cons_nth_drop_Suc)
  have "foldl sinkLoop c [1..<Suc i] = sinkLoop (?ys @ c ! i # drop (Suc i) c) i"
    using Suc d by simp
  also have "\<dots> = sinkLoop (?ys @ c ! i # drop (Suc i) c) (length ?ys)" using Suc.prems by simp
  also have "\<dots> = sort_key rank_key (take i c @ [c ! i]) @ drop (Suc i) c"
    using insert_right_sorts [of ?ys rank_key "take i c" "c ! i", OF refl]
    by (subst sinkLoop_inserts) (simp_all flip: append_assoc)
  finally show ?case using Suc.prems by (simp add: take_Suc_conv_app_nth)
qed

lemma rankCandidates_sorts_aux: "rankCandidates c = sort_key rank_key c"
proof (cases "c = []")
  case False
  then show ?thesis using rankLoop_prefix [of "length c" c] by (simp add: rankCandidates_def)
qed (simp add: rankCandidates_def)

text \<open>
  The hand-written insertion sort of the scheduler is the stable sort by the documented priority: most free memory first,
  then fewest live sessions, then the label.
\<close>

theorem rankCandidates_sorts:
  "rankCandidates c = sort_key (\<lambda>v. (- freeMem v, liveSessions v, nv_NodeID v)) c"
  by (simp add: rankCandidates_sorts_aux rank_key_def [abs_def])

section \<open>Placement\<close>

lemma pickLoop_eq:
  "pickLoop s vs t cs =
     (t + sum_list (map liveSessions (filter (\<lambda>v. nv_State v = NodeStateLive) vs)),
      cs @ filter (\<lambda>v. nv_State v = NodeStateLive \<and> candidateFor s v) vs)"
  by (induction s vs t cs rule: pickLoop.induct) (auto simp: liveSessions_def split: option.splits)

lemma node_labels: "nodes_ok th ns \<Longrightarrow> map (\<lambda>e. bn_NodeID (snd e)) ns = map fst ns"
  using nodes_ok_entry by (fastforce simp: node_ok_def)

lemma node_ids_distinct: "nodes_ok th ns \<Longrightarrow> distinct (map (\<lambda>e. bn_NodeID (snd e)) ns)"
  using node_labels [of th ns] by (metis nodes_ok_def)

lemma Snapshot_order: "reg_ok r \<Longrightarrow> reg_Snapshot it r = reg_Snapshot it' r"
proof -
  assume "reg_ok r"
  then have "distinct (map (\<lambda>e. bn_NodeID (snd e)) (reg_nodes r))" using node_ids_distinct by (auto simp: reg_ok_def)
  then have "inj_on (\<lambda>e. bn_NodeID (snd e)) (set (reg_nodes r))" by (simp add: distinct_map)
  then have "inj_on nv_NodeID (set (map bn_view (map snd (iterate it (reg_nodes r)))))"
    by (auto simp: inj_on_def bn_view_def)
  then show ?thesis unfolding reg_Snapshot_def
    by (intro sort_key_inj_key_eq) simp_all
qed

lemma Snapshot_set: "set (reg_Snapshot it r) = bn_view ` snd ` set (reg_nodes r)"
  by (simp add: reg_Snapshot_def image_image)

lemma Snapshot_sum:
  "sum_list (map (f :: nodeView \<Rightarrow> int) (filter P (reg_Snapshot it r))) = sum_list (map (\<lambda>e. f (bn_view (snd e))) (filter (\<lambda>e. P (bn_view (snd e))) (reg_nodes r)))"
proof -
  have "sum_list (map f (filter P (reg_Snapshot it r))) = sum_mset (image_mset f (filter_mset P (mset (reg_Snapshot it r))))"
    by (simp flip: sum_mset_sum_list)
  also have "mset (reg_Snapshot it r) = image_mset (\<lambda>e. bn_view (snd e)) (mset (reg_nodes r))"
    by (simp add: reg_Snapshot_def multiset.map_comp comp_def)
  also have "image_mset f (filter_mset P \<dots>) = mset (map (\<lambda>e. f (bn_view (snd e))) (filter (\<lambda>e. P (bn_view (snd e))) (reg_nodes r)))"
    by (simp add: filter_mset_image_mset multiset.map_comp comp_def)
  finally show ?thesis by (simp only: sum_mset_sum_list)
qed

text \<open>
  The live sessions the nodes have reported, and the nodes that may take another one: live, not yet polled or with fewer
  sessions than their maximum and with free memory that is unknown or at least the floor.
\<close>

definition liveTotal :: "Registry \<Rightarrow> int" where
  "liveTotal r = sum_list (map (\<lambda>e. liveSessions (bn_view (snd e)))
     (filter (\<lambda>e. bn_State (snd e) = NodeStateLive) (reg_nodes r)))"

definition hasHeadroom :: "Scheduler \<Rightarrow> Registry \<Rightarrow> string \<Rightarrow> bool" where
  "hasHeadroom s r k \<longleftrightarrow>
     (case map_of (reg_nodes r) k of None \<Rightarrow> False
      | Some n \<Rightarrow> bn_State n = NodeStateLive \<and>
          (case bn_Capacity n of None \<Rightarrow> True
           | Some c \<Rightarrow> cap_LiveSessions c < cap_MaxSessions c \<and>
               (cap_FreeMemoryMB c = 0 \<or> sch_minFreeMBPerSession s \<le> cap_FreeMemoryMB c)))"

lemma hasHeadroom_candidate:
  "hasHeadroom s r k \<longleftrightarrow>
     (case map_of (reg_nodes r) k of None \<Rightarrow> False | Some n \<Rightarrow> bn_State n = NodeStateLive \<and> candidateFor s (bn_view n))"
  by (auto simp: hasHeadroom_def candidateFor_def bn_view_def split: option.split)

definition node_rank :: "Registry \<Rightarrow> string \<Rightarrow> int \<times> int \<times> string" where
  "node_rank r k = (case map_of (reg_nodes r) k of None \<Rightarrow> (0, 0, k) | Some n \<Rightarrow> rank_key (bn_view n))"

definition candidates :: "bn_order \<Rightarrow> Scheduler \<Rightarrow> Registry \<Rightarrow> nodeView list" where
  "candidates it s r = filter (\<lambda>v. nv_State v = NodeStateLive \<and> candidateFor s v) (reg_Snapshot it r)"

lemma Pick_eq:
  "Pick it s r =
     (if sch_globalMaxSessions s > 0 \<and> liveTotal r \<ge> sch_globalMaxSessions s
      then Inl (ErrGlobalQuotaExceeded (liveTotal r) (sch_globalMaxSessions s))
      else if candidates it s r = [] then Inl ErrNoNodeHeadroom
      else Inr (nv_NodeID (sort_key rank_key (candidates it s r) ! 0)))"
proof -
  have "sum_list (map liveSessions (filter (\<lambda>v. nv_State v = NodeStateLive) (reg_Snapshot it r))) = liveTotal r"
    by (simp add: Snapshot_sum liveTotal_def)
  then show ?thesis
    by (simp add: Pick_def pickLoop_eq candidates_def rankCandidates_sorts_aux)
qed


lemma candidates_set:
  assumes "reg_ok r"
  shows "nv_NodeID ` set (candidates it s r) = {k. hasHeadroom s r k}"
    "v \<in> set (candidates it s r) \<Longrightarrow> rank_key v = node_rank r (nv_NodeID v)"
proof -
  have e: "(k, n) \<in> set (reg_nodes r) \<longleftrightarrow> map_of (reg_nodes r) k = Some n" for k n
    using assms by (auto simp: reg_ok_def nodes_ok_def)
  have lab: "map_of (reg_nodes r) k = Some n \<Longrightarrow> bn_NodeID n = k" for k n
    using assms by (auto simp: reg_ok_def nodes_ok_def node_ok_def)
  have mem: "v \<in> set (candidates it s r) \<longleftrightarrow> (\<exists>k n. map_of (reg_nodes r) k = Some n \<and> v = bn_view n \<and>
      bn_State n = NodeStateLive \<and> candidateFor s (bn_view n))" for v
    unfolding candidates_def set_filter Snapshot_set using e by (force simp: bn_view_def)
  show "nv_NodeID ` set (candidates it s r) = {k. hasHeadroom s r k}"
  proof (rule set_eqI)
    fix k
    have "k \<in> nv_NodeID ` set (candidates it s r) \<longleftrightarrow>
        (\<exists>k' n. map_of (reg_nodes r) k' = Some n \<and> k = bn_NodeID n \<and> bn_State n = NodeStateLive \<and> candidateFor s (bn_view n))"
      unfolding image_iff Bex_def mem using bn_view_simps by metis
    also have "\<dots> \<longleftrightarrow> hasHeadroom s r k"
      using lab by (auto simp: hasHeadroom_candidate split: option.splits)
    finally show "k \<in> nv_NodeID ` set (candidates it s r) \<longleftrightarrow> k \<in> {k. hasHeadroom s r k}" by simp
  qed
  show "v \<in> set (candidates it s r) \<Longrightarrow> rank_key v = node_rank r (nv_NodeID v)"
    using lab by (auto simp: mem node_rank_def bn_view_def)
qed

lemma sort_key_hd_min: "xs \<noteq> [] \<Longrightarrow> sort_key f xs ! 0 \<in> set xs \<and> (\<forall>x \<in> set xs. f (sort_key f xs ! 0) \<le> f x)"
proof -
  assume "xs \<noteq> []"
  then obtain y ys where y: "sort_key f xs = y # ys" by (cases "sort_key f xs") (auto dest: arg_cong [of _ _ length])
  then have "sorted (map f (y # ys))" "set (y # ys) = set xs" by (metis sorted_sort_key, metis set_sort)
  then show ?thesis using y by auto
qed

text \<open>
  Placement is exact and does not depend on the iteration order of the node map.  A session is refused with the quota
  error exactly when a ceiling is set and the live nodes report at least that many sessions, with the headroom error exactly
  when otherwise no live node has a free slot and enough memory; else it goes to a node that has both, and no such node has
  more free memory, or as much and fewer sessions, or as much of both and a smaller label.
\<close>

theorem pick_exact:
  fixes evs label s
  assumes "NewRegistry th rec seed = Inr r0"
  defines "r \<equiv> run_steps (reg_step label) r0 evs" and "quota \<equiv> sch_globalMaxSessions s"
  shows "(if quota > 0 \<and> liveTotal r \<ge> quota then Pick it s r = Inl (ErrGlobalQuotaExceeded (liveTotal r) quota)
     else if \<forall>k. \<not> hasHeadroom s r k then Pick it s r = Inl ErrNoNodeHeadroom
     else \<exists>k. Pick it s r = Inr k \<and> hasHeadroom s r k \<and> (\<forall>k'. hasHeadroom s r k' \<longrightarrow> node_rank r k \<le> node_rank r k')) \<and>
    Pick it s r = Pick it' s r"
proof -
  have ok: "reg_ok r" unfolding r_def by (rule registry.run_inv [OF reg_ok_New [OF assms(1)]])
  note c = candidates_set [OF ok, where it = it and s = s]
  have none: "candidates it s r = [] \<longleftrightarrow> (\<forall>k. \<not> hasHeadroom s r k)" using c(1) by auto
  have best: "\<exists>k. Inr (nv_NodeID (sort_key rank_key (candidates it s r) ! 0)) = (Inr k :: pick_error + string) \<and>
      hasHeadroom s r k \<and> (\<forall>k'. hasHeadroom s r k' \<longrightarrow> node_rank r k \<le> node_rank r k')" if "candidates it s r \<noteq> []"
    using sort_key_hd_min [OF that, of rank_key] c by (auto simp: set_eq_iff image_iff) (metis c(2))
  have "candidates it s r = candidates it' s r" unfolding candidates_def by (simp add: Snapshot_order [OF ok, of it it'])
  then have "Pick it' s r = Pick it s r" by (simp add: Pick_eq)
  moreover have "if quota > 0 \<and> liveTotal r \<ge> quota then Pick it s r = Inl (ErrGlobalQuotaExceeded (liveTotal r) quota)
     else if \<forall>k. \<not> hasHeadroom s r k then Pick it s r = Inl ErrNoNodeHeadroom
     else \<exists>k. Pick it s r = Inr k \<and> hasHeadroom s r k \<and> (\<forall>k'. hasHeadroom s r k' \<longrightarrow> node_rank r k \<le> node_rank r k')"
    using best none by (simp add: Pick_eq quota_def)
  ultimately show ?thesis by simp
qed


text \<open>Two nodes after a first poll; the second has more memory left, the first is below the floor of 512 MB.\<close>

definition browser_capacity :: "int \<Rightarrow> int \<Rightarrow> FBNodeCapacity" where
  "browser_capacity live free =
     \<lparr>cap_NodeID = ''p'', cap_MaxSessions = 4, cap_LiveSessions = live, cap_MaxTotalMemoryMB = 8192, cap_FreeMemoryMB = free,
      cap_RamGB = 16\<rparr>"

definition browser_first_poll :: "reg_event list" where
  "browser_first_poll = [PollTick rev 1
     (\<lambda>v. (1, Some (if nv_NodeID v = ''b1'' then browser_capacity 1 256 else browser_capacity 3 4096)))]"

abbreviation browser_polled :: Registry where
  "browser_polled \<equiv> run_steps (reg_step id) browser_seeded browser_first_poll"

lemma browser_polled_facts:
  "liveTotal browser_polled = 4"
  "hasHeadroom \<lparr>sch_globalMaxSessions = 5, sch_minFreeMBPerSession = 512\<rparr> browser_polled ''b2''"
  by code_simp+

theorem pick_exact_witness:
  "Pick id \<lparr>sch_globalMaxSessions = 4, sch_minFreeMBPerSession = 512\<rparr> browser_polled = Inl (ErrGlobalQuotaExceeded 4 4) \<and>
   (\<exists>k. Pick id \<lparr>sch_globalMaxSessions = 5, sch_minFreeMBPerSession = 512\<rparr> browser_polled = Inr k)"
proof
  note ex = pick_exact [OF browser_example_run(1), where evs = browser_first_poll and label = id and it = id and it' = id]
  show "Pick id \<lparr>sch_globalMaxSessions = 4, sch_minFreeMBPerSession = 512\<rparr> browser_polled = Inl (ErrGlobalQuotaExceeded 4 4)"
    using ex [where s = "\<lparr>sch_globalMaxSessions = 4, sch_minFreeMBPerSession = 512\<rparr>"] browser_polled_facts by simp
  show "\<exists>k. Pick id \<lparr>sch_globalMaxSessions = 5, sch_minFreeMBPerSession = 512\<rparr> browser_polled = Inr k"
    using ex [where s = "\<lparr>sch_globalMaxSessions = 5, sch_minFreeMBPerSession = 512\<rparr>"] browser_polled_facts
    by (auto split: if_splits)
qed

section \<open>Reload\<close>

lemma reload_lookup:
  "map_of (foldl (reloadNode r) ns seed) k =
     (case find (\<lambda>c. bc_ID c = k) (rev seed) of
        Some c \<Rightarrow> Some (case map_of (reg_nodes r) k of
            Some old \<Rightarrow> if bn_SocketPath old = bc_SocketPath c then old else configNode c
          | None \<Rightarrow> configNode c)
      | None \<Rightarrow> map_of ns k)"
  by (induction seed rule: rev_induct) (auto simp: reloadNode_def update_conv')

lemma keepDialin_lookup:
  "distinct (map fst es) \<Longrightarrow>
   map_of (foldl keepDialin ns es) k =
     (case map_of ns k of Some n \<Rightarrow> Some n
      | None \<Rightarrow> (case map_of es k of Some n \<Rightarrow> if bn_source n = sourceDialin then Some n else None | None \<Rightarrow> None))"
proof (induction es arbitrary: ns)
  case (Cons e es)
  have "map_of es (fst e) = None" using Cons.prems by (simp add: map_of_eq_None_iff)
  then show ?case using Cons by (auto simp: keepDialin_def update_conv' split: option.splits)
qed (simp split: option.split)

text \<open>
  A reload keeps a configured node with its capacity, liveness and token exactly when its socket path is unchanged, starts it
  afresh otherwise, keeps the dial-in nodes the seed does not name and drops the rest.
\<close>

lemma reload_exact:
  assumes "reg_ok r"
  shows "map_of (reg_nodes (reg_DrainAndApply it seed r)) k =
    (case find (\<lambda>c. bc_ID c = k) (rev seed) of
       Some c \<Rightarrow> Some (case map_of (reg_nodes r) k of
           Some old \<Rightarrow> if bn_SocketPath old = bc_SocketPath c then old else configNode c
         | None \<Rightarrow> configNode c)
     | None \<Rightarrow> (case map_of (reg_nodes r) k of
           Some n \<Rightarrow> if bn_source n = sourceDialin then Some n else None | None \<Rightarrow> None))"
proof -
  have d: "distinct (map fst (reg_nodes r))" using assms by (simp add: reg_ok_def nodes_ok_def)
  then have "map_of (iterate it (reg_nodes r)) = map_of (reg_nodes r)"
    by (intro map_of_inject_set [THEN iffD2]) simp_all
  then show ?thesis using keepDialin_lookup [of "iterate it (reg_nodes r)"] d
    by (simp add: reg_DrainAndApply_def reload_lookup split: option.split)
qed

text \<open>So a rotated token of an unchanged socket is not adopted.\<close>

lemma reload_keeps_old_token:
  assumes "reg_ok r" "map_of (reg_nodes r) (bc_ID c) = Some old" "bn_SocketPath old = bc_SocketPath c"
  shows "TokenOf (bc_ID c) (reg_DrainAndApply it [c] r) = Some (bn_Token old)"
  using assms by (simp add: TokenOf_def reload_exact)

end
