(* ===== verification/Browser_Proxy.thy ===== *)
theory Browser_Proxy
  imports Browser_Framing Browser_Nodes
begin

text \<open>
  The browser plane above its nodes: the node client with its authentication handshake (\<^verbatim>\<open>browser/client.go\<close>), the
  session proxy with its pins (\<^verbatim>\<open>browser/proxy.go\<close>) and the HTTP handlers (\<^verbatim>\<open>browser/handler.go\<close>).

  JSON encoding and decoding are parameters, bundled in \<open>codec\<close>; so is the result of a dial, a connection with the bytes the
  node will send.  An exchange that blocks for ever is \<open>None\<close>.  The proxy reads the pins when it looks a session up and writes
  them at its end, under its mutex each; an operation therefore takes the pin it has looked up, returns its effect on the pins,
  and the two halves interleave with those of other operations by the step relation \<open>proxy_sys\<close>.  Every read of the registry
  has its own argument, because a reload or a poll may come between two reads.
\<close>

section \<open>Wire types\<close>

record AuthMessage =
  am_Type :: string
  am_Token :: string

record RequestFrame =
  rq_Type :: string
  rq_Payload :: "octet list"
  rq_SessionID :: string

record ResponseFrame =
  rf_Type :: string
  rf_Payload :: "octet list"
  rf_SessionID :: string

record FBError =
  fe_Code :: string
  fe_Message :: string
  fe_Retryable :: bool

record CreateSessionRequest =
  cr_Mode :: string
  cr_InitialURL :: "string option"
  cr_MaxActions :: "int option"
  cr_TaskTimeoutMs :: "int option"
  cr_CredentialDomain :: "string option"

record CreateSessionResponse =
  cs_SessionID :: string
  cs_CredentialInjected :: bool

record BrowserActionRequest =
  ba_SessionID :: string
  ba_Action :: string
  ba_TargetNodeID :: "string option"
  ba_PayloadText :: "string option"
  ba_ScrollDeltaY :: "float64 option"
  ba_TraceID :: "string option"

record codec =
  enc_Auth :: "AuthMessage \<Rightarrow> octet list option"
  enc_Request :: "RequestFrame \<Rightarrow> octet list option"
  enc_Create :: "CreateSessionRequest \<Rightarrow> octet list option"
  enc_Action :: "BrowserActionRequest \<Rightarrow> octet list option"
  dec_Response :: "octet list \<Rightarrow> ResponseFrame option"
  dec_Error :: "octet list \<Rightarrow> FBError option"
  dec_Capacity :: "octet list \<Rightarrow> FBNodeCapacity option"
  dec_Create :: "octet list \<Rightarrow> CreateSessionResponse option"

section \<open>Errors\<close>

record OpError =
  oe_Code :: string
  oe_Message :: string
  oe_Retryable :: bool
  oe_HTTPStatus :: int

datatype client_failure =
  DialFailed | MissingToken | AuthWriteFailed frame_error | AuthReadFailed frame_error | AuthUndecodable | AuthUnexpected string
| RequestWriteFailed frame_error | ResponseReadFailed frame_error | ResponseUndecodable | ErrorUndecodable
| UnexpectedType string | PayloadUndecodable | PayloadMarshalFailed

datatype browser_error =
  IsOpError OpError
| IsNodeError FBError string
| IsPickError pick_error
| IsClientFailure client_failure

section \<open>Node client\<close>

record NodeClient =
  cl_dialTimeout :: duration
  cl_frameMax :: int
  cl_frameTimeout :: duration

definition NewNodeClient :: "duration \<Rightarrow> int \<Rightarrow> duration \<Rightarrow> NodeClient" where
  "NewNodeClient dialTimeout frameMax frameTimeout =
     \<lparr>cl_dialTimeout = (if dialTimeout \<le> 0 then 2 * second else dialTimeout),
      cl_frameMax = (if frameMax \<le> 0 then defaultFrameMaxBytes else frameMax),
      cl_frameTimeout = (if frameTimeout \<le> 0 then defaultFrameTimeout else frameTimeout)\<rparr>"

record conn =
  cn_in :: reader
  cn_out :: writer

definition conn_write :: "octet list option \<Rightarrow> conn \<Rightarrow> conn \<times> frame_error option" where
  "conn_write body c = (case WriteFrame body (cn_out c) of (w, e) \<Rightarrow> (c\<lparr>cn_out := w\<rparr>, e))"

definition conn_read :: "NodeClient \<Rightarrow> conn \<Rightarrow> (conn \<times> (frame_error + octet list)) option" where
  "conn_read cl c = map_option (\<lambda>(r, res). (c\<lparr>cn_in := r\<rparr>, res)) (ReadFrame (cl_frameMax cl) (cn_in c))"

definition decodeNodeError :: "codec \<Rightarrow> octet list \<Rightarrow> string \<Rightarrow> browser_error" where
  "decodeNodeError cd payload socketPath =
     (case dec_Error cd payload of None \<Rightarrow> IsClientFailure ErrorUndecodable | Some fe \<Rightarrow> IsNodeError fe socketPath)"

definition authenticate ::
    "codec \<Rightarrow> NodeClient \<Rightarrow> string \<Rightarrow> string \<Rightarrow> conn \<Rightarrow> (conn \<times> browser_error option) option" where
  "authenticate cd cl socketPath token c =
     (if token = '''' then Some (c, Some (IsClientFailure MissingToken))
      else case conn_write (enc_Auth cd \<lparr>am_Type = ''auth'', am_Token = token\<rparr>) c of
        (c1, Some e) \<Rightarrow> Some (c1, Some (IsClientFailure (AuthWriteFailed e)))
      | (c1, None) \<Rightarrow>
          (case conn_read cl c1 of
             None \<Rightarrow> None
           | Some (c2, Inl e) \<Rightarrow> Some (c2, Some (IsClientFailure (AuthReadFailed e)))
           | Some (c2, Inr body) \<Rightarrow>
               (case dec_Response cd body of
                  None \<Rightarrow> Some (c2, Some (IsClientFailure AuthUndecodable))
                | Some ack \<Rightarrow>
                    if rf_Type ack = ''auth_ack'' then Some (c2, None)
                    else if rf_Type ack = ''error'' then Some (c2, Some (decodeNodeError cd (rf_Payload ack) socketPath))
                    else Some (c2, Some (IsClientFailure (AuthUnexpected (rf_Type ack)))))))"

definition roundTrip ::
    "codec \<Rightarrow> NodeClient \<Rightarrow> string \<Rightarrow> string \<Rightarrow> RequestFrame \<Rightarrow> conn option \<Rightarrow> (conn option \<times> (browser_error + ResponseFrame)) option" where
  "roundTrip cd cl socketPath token req dialed =
     (case dialed of
        None \<Rightarrow> Some (None, Inl (IsClientFailure DialFailed))
      | Some c \<Rightarrow>
          (case authenticate cd cl socketPath token c of
             None \<Rightarrow> None
           | Some (c1, Some e) \<Rightarrow> Some (Some c1, Inl e)
           | Some (c1, None) \<Rightarrow>
               (case conn_write (enc_Request cd req) c1 of
                  (c2, Some e) \<Rightarrow> Some (Some c2, Inl (IsClientFailure (RequestWriteFailed e)))
                | (c2, None) \<Rightarrow>
                    (case conn_read cl c2 of
                       None \<Rightarrow> None
                     | Some (c3, Inl e) \<Rightarrow> Some (Some c3, Inl (IsClientFailure (ResponseReadFailed e)))
                     | Some (c3, Inr body) \<Rightarrow>
                         (case dec_Response cd body of
                            None \<Rightarrow> Some (Some c3, Inl (IsClientFailure ResponseUndecodable))
                          | Some resp \<Rightarrow> Some (Some c3, Inr resp))))))"

text \<open>What the operations do with the response; \<open>expected\<close> is the response type they accept.\<close>

definition checkResponse :: "codec \<Rightarrow> string \<Rightarrow> string option \<Rightarrow> ResponseFrame \<Rightarrow> browser_error + ResponseFrame" where
  "checkResponse cd socketPath expected resp =
     (if rf_Type resp = ''error'' then Inl (decodeNodeError cd (rf_Payload resp) socketPath)
      else case expected of
        None \<Rightarrow> Inr resp
      | Some t \<Rightarrow> if rf_Type resp \<noteq> t then Inl (IsClientFailure (UnexpectedType (rf_Type resp))) else Inr resp)"

definition call_node ::
    "codec \<Rightarrow> NodeClient \<Rightarrow> (string \<Rightarrow> conn option) \<Rightarrow> string \<Rightarrow> string \<Rightarrow> RequestFrame \<Rightarrow> string option \<Rightarrow>
      (browser_error + ResponseFrame) option" where
  "call_node cd cl dial socketPath token req expected =
     map_option (\<lambda>(c, res). case res of Inl e \<Rightarrow> Inl e | Inr resp \<Rightarrow> checkResponse cd socketPath expected resp)
       (roundTrip cd cl socketPath token req (dial socketPath))"

definition decodePayload :: "('a \<Rightarrow> 'b option) \<Rightarrow> (ResponseFrame \<Rightarrow> 'a) \<Rightarrow> browser_error + ResponseFrame \<Rightarrow> browser_error + 'b" where
  "decodePayload dec sel res =
     (case res of Inl e \<Rightarrow> Inl e
      | Inr resp \<Rightarrow> (case dec (sel resp) of None \<Rightarrow> Inl (IsClientFailure PayloadUndecodable) | Some x \<Rightarrow> Inr x))"

definition client_Capacity ::
    "codec \<Rightarrow> NodeClient \<Rightarrow> (string \<Rightarrow> conn option) \<Rightarrow> string \<Rightarrow> string \<Rightarrow> (browser_error + FBNodeCapacity) option" where
  "client_Capacity cd cl dial socketPath token =
     map_option (decodePayload (dec_Capacity cd) rf_Payload)
       (call_node cd cl dial socketPath token \<lparr>rq_Type = ''capacity'', rq_Payload = [], rq_SessionID = ''''\<rparr> (Some ''capacity''))"

definition client_Create ::
    "codec \<Rightarrow> NodeClient \<Rightarrow> (string \<Rightarrow> conn option) \<Rightarrow> string \<Rightarrow> string \<Rightarrow> CreateSessionRequest \<Rightarrow>
      (browser_error + CreateSessionResponse) option" where
  "client_Create cd cl dial socketPath token req =
     (case enc_Create cd req of
        None \<Rightarrow> Some (Inl (IsClientFailure PayloadMarshalFailed))
      | Some payload \<Rightarrow>
          map_option (decodePayload (dec_Create cd) rf_Payload)
            (call_node cd cl dial socketPath token
               \<lparr>rq_Type = ''create_session'', rq_Payload = payload, rq_SessionID = ''''\<rparr> (Some ''create_session'')))"

definition client_Execute ::
    "codec \<Rightarrow> NodeClient \<Rightarrow> (string \<Rightarrow> conn option) \<Rightarrow> string \<Rightarrow> string \<Rightarrow> BrowserActionRequest \<Rightarrow>
      (browser_error + ResponseFrame) option" where
  "client_Execute cd cl dial socketPath token req =
     (case enc_Action cd req of
        None \<Rightarrow> Some (Inl (IsClientFailure PayloadMarshalFailed))
      | Some payload \<Rightarrow>
          call_node cd cl dial socketPath token \<lparr>rq_Type = ''execute'', rq_Payload = payload, rq_SessionID = ''''\<rparr> None)"

definition client_Close ::
    "codec \<Rightarrow> NodeClient \<Rightarrow> (string \<Rightarrow> conn option) \<Rightarrow> string \<Rightarrow> string \<Rightarrow> string \<Rightarrow> (browser_error + ResponseFrame) option" where
  "client_Close cd cl dial socketPath token sessionID =
     call_node cd cl dial socketPath token \<lparr>rq_Type = ''close'', rq_Payload = [], rq_SessionID = sessionID\<rparr> (Some ''closed'')"

definition client_Metrics ::
    "codec \<Rightarrow> NodeClient \<Rightarrow> (string \<Rightarrow> conn option) \<Rightarrow> string \<Rightarrow> string \<Rightarrow> (browser_error + ResponseFrame) option" where
  "client_Metrics cd cl dial socketPath token =
     call_node cd cl dial socketPath token \<lparr>rq_Type = ''metrics'', rq_Payload = [], rq_SessionID = ''''\<rparr> (Some ''metrics'')"

section \<open>Proxy\<close>

type_synonym pins = "string \<Rightarrow> string option"

datatype pin_effect = KeepPins | SetPin string string | EvictPin string

fun apply_effect :: "pins \<Rightarrow> pin_effect \<Rightarrow> pins" where
  "apply_effect p KeepPins = p"
| "apply_effect p (SetPin sid nid) = p(sid \<mapsto> nid)"
| "apply_effect p (EvictPin sid) = p(sid := None)"

definition tokenOr :: "string \<Rightarrow> Registry \<Rightarrow> string" where
  "tokenOr nid r = (case TokenOf nid r of None \<Rightarrow> '''' | Some t \<Rightarrow> t)"

record CreateResult =
  res_SessionID :: string
  res_NodeID :: string
  res_CredentialInjected :: bool

text \<open>The registry is read by the scheduler, for the socket and for the token.\<close>

definition proxy_Create ::
    "(string \<Rightarrow> string \<Rightarrow> (browser_error + CreateSessionResponse) option) \<Rightarrow> bn_order \<Rightarrow> Scheduler \<Rightarrow> Registry \<Rightarrow> Registry \<Rightarrow> Registry \<Rightarrow>
      (pin_effect \<times> (browser_error + CreateResult)) option" where
  "proxy_Create create it sch rPick rSocket rToken =
     (case Pick it sch rPick of
        Inl e \<Rightarrow> Some (KeepPins, Inl (IsPickError e))
      | Inr nodeID \<Rightarrow>
          (case SocketOf nodeID rSocket of
             None \<Rightarrow> Some (KeepPins, Inl (IsPickError ErrNoNodeHeadroom))
           | Some socket \<Rightarrow>
               (case create socket (tokenOr nodeID rToken) of
                  None \<Rightarrow> None
                | Some (Inl e) \<Rightarrow> Some (KeepPins, Inl e)
                | Some (Inr resp) \<Rightarrow>
                    Some (SetPin (cs_SessionID resp) nodeID,
                      Inr \<lparr>res_SessionID = cs_SessionID resp, res_NodeID = nodeID,
                           res_CredentialInjected = cs_CredentialInjected resp\<rparr>))))"

definition err_session_not_found :: OpError where
  "err_session_not_found =
     \<lparr>oe_Code = ''session_not_found'', oe_Message = ''session unknown to this gateway (created on a stale gateway or pre-existing)'',
      oe_Retryable = False, oe_HTTPStatus = 404\<rparr>"

definition err_session_lost :: "string \<Rightarrow> OpError" where
  "err_session_lost msg = \<lparr>oe_Code = ''session_lost'', oe_Message = msg, oe_Retryable = True, oe_HTTPStatus = 503\<rparr>"

text \<open>\<open>pin\<close> is what \<^verbatim>\<open>lookupPin\<close> returned.\<close>

definition lookupPin :: "string \<Rightarrow> pins \<Rightarrow> string option" where
  "lookupPin sid p = p sid"

definition proxy_Execute ::
    "(string \<Rightarrow> string \<Rightarrow> (browser_error + ResponseFrame) option) \<Rightarrow> string \<Rightarrow> Registry \<Rightarrow> Registry \<Rightarrow> Registry \<Rightarrow> string option \<Rightarrow>
      (pin_effect \<times> (browser_error + octet list)) option" where
  "proxy_Execute execute sid rDead rSocket rToken pin =
     (case pin of
        None \<Rightarrow> Some (KeepPins, Inl (IsOpError err_session_not_found))
      | Some nodeID \<Rightarrow>
          if IsDead nodeID rDead
          then Some (EvictPin sid, Inl (IsOpError (err_session_lost ''pinned node is dead; in-flight session is lost'')))
          else (case SocketOf nodeID rSocket of
             None \<Rightarrow> Some (EvictPin sid, Inl (IsOpError (err_session_lost ''pinned node removed from registry'')))
           | Some socket \<Rightarrow>
               (case execute socket (tokenOr nodeID rToken) of
                  None \<Rightarrow> None
                | Some (Inl e) \<Rightarrow> Some (KeepPins, Inl e)
                | Some (Inr resp) \<Rightarrow> Some (KeepPins, Inr (rf_Payload resp)))))"

text \<open>Close forwards to a live node, ignores how that ends and evicts the pin.\<close>

definition proxy_Close ::
    "(string \<Rightarrow> string \<Rightarrow> (browser_error + ResponseFrame) option) \<Rightarrow> string \<Rightarrow> Registry \<Rightarrow> Registry \<Rightarrow> Registry \<Rightarrow> string option \<Rightarrow> pin_effect option" where
  "proxy_Close close sid rSocket rDead rToken pin =
     (case pin of
        None \<Rightarrow> Some KeepPins
      | Some nodeID \<Rightarrow>
          (case SocketOf nodeID rSocket of
             Some socket \<Rightarrow>
               if \<not> IsDead nodeID rDead
               then (case close socket (tokenOr nodeID rToken) of None \<Rightarrow> None | Some _ \<Rightarrow> Some (EvictPin sid))
               else Some (EvictPin sid)
           | None \<Rightarrow> Some (EvictPin sid)))"

definition firstLiveNode :: "bn_order \<Rightarrow> Registry \<Rightarrow> string" where
  "firstLiveNode it r =
     (case find (\<lambda>v. nv_State v = NodeStateLive) (reg_Snapshot it r) of None \<Rightarrow> '''' | Some v \<Rightarrow> nv_NodeID v)"

definition proxy_Metrics ::
    "(string \<Rightarrow> string \<Rightarrow> (browser_error + ResponseFrame) option) \<Rightarrow> bn_order \<Rightarrow> string \<Rightarrow>
      Registry \<Rightarrow> Registry \<Rightarrow> Registry \<Rightarrow> Registry \<Rightarrow> (browser_error + octet list) option" where
  "proxy_Metrics metrics it nodeID0 rLive rSocket rDead rToken =
     (let nodeID = (if nodeID0 = '''' then firstLiveNode it rLive else nodeID0) in
      if nodeID = ''''
      then Some (Inl (IsOpError \<lparr>oe_Code = ''no_live_node'', oe_Message = ''no live browser node to query metrics'',
             oe_Retryable = True, oe_HTTPStatus = 503\<rparr>))
      else case SocketOf nodeID rSocket of
        None \<Rightarrow> Some (Inl (IsOpError \<lparr>oe_Code = ''session_not_found'', oe_Message = ''unknown node id'',
             oe_Retryable = False, oe_HTTPStatus = 404\<rparr>))
      | Some socket \<Rightarrow>
          if IsDead nodeID rDead
          then Some (Inl (IsOpError \<lparr>oe_Code = ''node_unreachable'', oe_Message = ''selected node is dead'',
                 oe_Retryable = True, oe_HTTPStatus = 503\<rparr>))
          else map_option (\<lambda>res. case res of Inl e \<Rightarrow> Inl e | Inr resp \<Rightarrow> Inr (rf_Payload resp))
                 (metrics socket (tokenOr nodeID rToken)))"

text \<open>The message of an error that is relayed as its \<^verbatim>\<open>Error()\<close> text is kept as the error itself.\<close>

datatype relay_message = RelayText string | RelayErrorText browser_error

fun relayError :: "browser_error \<Rightarrow> int \<times> string \<times> relay_message \<times> bool" where
  "relayError (IsOpError oe) = (oe_HTTPStatus oe, oe_Code oe, RelayText (oe_Message oe), oe_Retryable oe)"
| "relayError (IsNodeError fe socket) = (503, fe_Code fe, RelayText (fe_Message fe), fe_Retryable fe)"
| "relayError (IsPickError (ErrGlobalQuotaExceeded live quota)) =
     (503, ''quota_exceeded'', RelayErrorText (IsPickError (ErrGlobalQuotaExceeded live quota)), False)"
| "relayError (IsPickError ErrNoNodeHeadroom) = (503, ''no_headroom'', RelayErrorText (IsPickError ErrNoNodeHeadroom), True)"
| "relayError (IsClientFailure f) = (503, ''node_unreachable'', RelayErrorText (IsClientFailure f), True)"

section \<open>Handlers\<close>

record nodeMapEntry =
  me_ID :: string
  me_NodeID :: string
  me_SocketPath :: string
  me_State :: string
  me_Source :: string
  me_LiveSessions :: int
  me_MaxSessions :: int
  me_FreeMemoryMB :: int
  me_MaxTotalMemoryMB :: int
  me_RamGB :: int
  me_Failures :: int
  me_LastPoll :: string

datatype browser_body =
  BodyError string relay_message bool
| BodyCreated CreateResult
| BodyPayload "octet list"
| BodyNodes "nodeMapEntry list" nat
| BodyNone

type_synonym http_answer = "int \<times> browser_body"

definition invalid_request :: "string \<Rightarrow> http_answer" where
  "invalid_request msg = (400, BodyError ''invalid_request'' (RelayText msg) False)"

definition writeRelayError :: "browser_error \<Rightarrow> http_answer" where
  "writeRelayError e = (case relayError e of (status, code, message, retryable) \<Rightarrow> (status, BodyError code message retryable))"

text \<open>The body is the decoded request, or the text of the decoding error.\<close>

definition handleCreate ::
    "(CreateSessionRequest \<Rightarrow> (pin_effect \<times> (browser_error + CreateResult)) option) \<Rightarrow> string + CreateSessionRequest \<Rightarrow>
      (pin_effect \<times> http_answer) option" where
  "handleCreate proxyCreate body =
     (case body of
        Inl err \<Rightarrow> Some (KeepPins, invalid_request (''malformed create_session body: '' @ err))
      | Inr req \<Rightarrow>
          if cr_Mode req \<noteq> ''headless'' \<and> cr_Mode req \<noteq> ''headed'' \<and> cr_Mode req \<noteq> ''''
          then Some (KeepPins, invalid_request (''mode must be headless or headed, got '' @ cr_Mode req))
          else map_option (\<lambda>(eff, res). (eff, case res of Inl e \<Rightarrow> writeRelayError e | Inr cr \<Rightarrow> (201, BodyCreated cr)))
                 (proxyCreate (if cr_Mode req = '''' then req\<lparr>cr_Mode := ''headless''\<rparr> else req)))"

definition handleExecute ::
    "(BrowserActionRequest \<Rightarrow> (pin_effect \<times> (browser_error + octet list)) option) \<Rightarrow> string \<Rightarrow> string + BrowserActionRequest \<Rightarrow>
      (pin_effect \<times> http_answer) option" where
  "handleExecute proxyExecute sessionID body =
     (if sessionID = '''' then Some (KeepPins, invalid_request ''missing session id in path'')
      else case body of
        Inl err \<Rightarrow> Some (KeepPins, invalid_request (''malformed action body: '' @ err))
      | Inr req \<Rightarrow>
          map_option (\<lambda>(eff, res). (eff, case res of Inl e \<Rightarrow> writeRelayError e | Inr payload \<Rightarrow> (200, BodyPayload payload)))
            (proxyExecute (req\<lparr>ba_SessionID := sessionID\<rparr>)))"

definition handleClose :: "(string \<Rightarrow> pin_effect option) \<Rightarrow> string \<Rightarrow> (pin_effect \<times> http_answer) option" where
  "handleClose proxyClose sessionID =
     (if sessionID = '''' then Some (KeepPins, invalid_request ''missing session id in path'')
      else map_option (\<lambda>eff. (eff, (204, BodyNone))) (proxyClose sessionID))"

fun state_text :: "BrowserNodeState \<Rightarrow> string" where
  "state_text NodeStateLive = ''live''"
| "state_text NodeStateGone = ''dead''"

fun source_text :: "nodeSource \<Rightarrow> string" where
  "source_text sourceConfig = ''config''"
| "source_text sourceDialin = ''dialin''"

definition nodeEntry :: "(time \<Rightarrow> string) \<Rightarrow> nodeView \<Rightarrow> nodeMapEntry" where
  "nodeEntry rfc3339 v =
     (let e = \<lparr>me_ID = nv_NodeID v, me_NodeID = '''', me_SocketPath = nv_SocketPath v, me_State = state_text (nv_State v),
               me_Source = source_text (nv_Source v), me_LiveSessions = 0, me_MaxSessions = 0, me_FreeMemoryMB = 0,
               me_MaxTotalMemoryMB = 0, me_RamGB = 0, me_Failures = nv_Failures v, me_LastPoll = rfc3339 (nv_LastPoll v)\<rparr>
      in case nv_Capacity v of
           None \<Rightarrow> e
         | Some c \<Rightarrow> e\<lparr>me_NodeID := cap_NodeID c, me_LiveSessions := cap_LiveSessions c, me_MaxSessions := cap_MaxSessions c,
                       me_FreeMemoryMB := cap_FreeMemoryMB c, me_MaxTotalMemoryMB := cap_MaxTotalMemoryMB c, me_RamGB := cap_RamGB c\<rparr>)"

definition handleNodes :: "(time \<Rightarrow> string) \<Rightarrow> bn_order \<Rightarrow> Registry \<Rightarrow> http_answer" where
  "handleNodes rfc3339 it r =
     (let out = map (nodeEntry rfc3339) (reg_Snapshot it r) in (200, BodyNodes out (length out)))"

definition handleMetrics :: "(string \<Rightarrow> (browser_error + octet list) option) \<Rightarrow> string \<Rightarrow> http_answer option" where
  "handleMetrics proxyMetrics nodeID =
     map_option (\<lambda>res. case res of Inl e \<Rightarrow> writeRelayError e | Inr payload \<Rightarrow> (200, BodyPayload payload)) (proxyMetrics nodeID)"

section \<open>The handshake\<close>

lemma WriteFrame_prefix:
  assumes "WriteFrame (Some body) w = (w', e)"
  shows "\<exists>k. wr_bytes w' = wr_bytes w @ take k (encode_frame body) \<and> (e = None \<longrightarrow> length (encode_frame body) \<le> k)"
proof (cases "length (PutUint32 (word_of_nat (length body))) \<le> wr_room w")
  case True
  then show ?thesis using assms
    by (intro exI [of _ "wr_room w"])
      (auto simp: WriteFrame_def writer_Write_def encode_frame_def split: bool.splits prod.splits)
next
  case False
  then show ?thesis using assms
    by (intro exI [of _ "wr_room w"]) (auto simp: WriteFrame_def writer_Write_def encode_frame_def)
qed

lemma conn_write_ok:
  assumes "conn_write b c = (c', e)"
  shows "cn_in c' = cn_in c \<and>
    (\<exists>k. wr_bytes (cn_out c') = wr_bytes (cn_out c) @ take k (case b of None \<Rightarrow> [] | Some x \<Rightarrow> encode_frame x) \<and>
      (e = None \<longrightarrow> b \<noteq> None \<and> length (case b of None \<Rightarrow> [] | Some x \<Rightarrow> encode_frame x) \<le> k))"
proof (cases b)
  case None
  then show ?thesis using assms by (auto simp: conn_write_def WriteFrame_def)
next
  case (Some x)
  then obtain w' where "WriteFrame (Some x) (cn_out c) = (w', e)" "c' = c\<lparr>cn_out := w'\<rparr>"
    using assms by (auto simp: conn_write_def split: prod.splits)
  then show ?thesis using WriteFrame_prefix [of x "cn_out c" w' e] Some by auto
qed

lemma conn_read_out: "conn_read cl c = Some (c', res) \<Longrightarrow> cn_out c' = cn_out c"
  by (auto simp: conn_read_def)

definition frame_of :: "octet list option \<Rightarrow> octet list" where
  "frame_of b = (case b of None \<Rightarrow> [] | Some x \<Rightarrow> encode_frame x)"

definition auth_frame :: "codec \<Rightarrow> string \<Rightarrow> octet list" where
  "auth_frame cd token = frame_of (enc_Auth cd \<lparr>am_Type = ''auth'', am_Token = token\<rparr>)"

text \<open>The first frame that arrives is an acknowledgement.\<close>

definition acknowledges :: "codec \<Rightarrow> NodeClient \<Rightarrow> reader \<Rightarrow> bool" where
  "acknowledges cd cl r \<longleftrightarrow>
     (case ReadFrame (cl_frameMax cl) r of
        Some (r', Inr body) \<Rightarrow> (case dec_Response cd body of Some ack \<Rightarrow> rf_Type ack = ''auth_ack'' | None \<Rightarrow> False)
      | _ \<Rightarrow> False)"

lemma authenticate_writes:
  assumes "authenticate cd cl socketPath token c = Some (c', res)"
  shows "\<exists>k. wr_bytes (cn_out c') = wr_bytes (cn_out c) @ take k (auth_frame cd token) \<and> (token = '''' \<longrightarrow> k = 0) \<and>
    (res = None \<longrightarrow> token \<noteq> '''' \<and> acknowledges cd cl (cn_in c) \<and> length (auth_frame cd token) \<le> k)"
proof (cases "token = ''''")
  case True
  then show ?thesis using assms by (auto simp: authenticate_def intro: exI [of _ 0])
next
  case False
  obtain c1 e1 where w: "conn_write (enc_Auth cd \<lparr>am_Type = ''auth'', am_Token = token\<rparr>) c = (c1, e1)" by force
  obtain k where k: "cn_in c1 = cn_in c" "wr_bytes (cn_out c1) = wr_bytes (cn_out c) @ take k (auth_frame cd token)"
      "e1 = None \<longrightarrow> length (auth_frame cd token) \<le> k"
    using conn_write_ok [OF w] by (auto simp: auth_frame_def frame_of_def)
  have "cn_out c' = cn_out c1" "res = None \<longrightarrow> e1 = None \<and> acknowledges cd cl (cn_in c1)"
    using assms w False conn_read_out [of cl c1]
    by (auto simp: authenticate_def acknowledges_def conn_read_def split: option.splits sum.splits if_splits)
  then show ?thesis using k False by (intro exI [of _ k]) simp
qed

text \<open>
  The handshake is fail-closed.  Whatever the node sends and wherever the connection breaks, an exchange without a token
  writes nothing; otherwise it writes a part of the authentication frame, and any byte of the request only after the whole
  authentication frame went out and the first frame of the node acknowledged it.
\<close>

theorem request_only_after_auth_ack:
  assumes "roundTrip cd cl socketPath token req (Some c) = Some (Some c', res)"
  shows "\<exists>sent. wr_bytes (cn_out c') = wr_bytes (cn_out c) @ sent \<and> (token = '''' \<longrightarrow> sent = []) \<and>
    (length (auth_frame cd token) < length sent \<or> res \<in> range Inr \<longrightarrow>
       token \<noteq> '''' \<and> acknowledges cd cl (cn_in c) \<and>
       (\<exists>k. sent = auth_frame cd token @ take k (frame_of (enc_Request cd req))))"
proof -
  obtain c1 a where a: "authenticate cd cl socketPath token c = Some (c1, a)"
    using assms by (auto simp: roundTrip_def split: option.splits)
  obtain k where k: "wr_bytes (cn_out c1) = wr_bytes (cn_out c) @ take k (auth_frame cd token)" "token = '''' \<longrightarrow> k = 0"
      "a = None \<longrightarrow> token \<noteq> '''' \<and> acknowledges cd cl (cn_in c) \<and> length (auth_frame cd token) \<le> k"
    using authenticate_writes [OF a] by blast
  show ?thesis
  proof (cases a)
    case (Some e)
    then have "c' = c1" "res = Inl e" using assms a by (simp_all add: roundTrip_def)
    then show ?thesis using k by (intro exI [of _ "take k (auth_frame cd token)"]) auto
  next
    case None
    obtain c2 e where w: "conn_write (enc_Request cd req) c1 = (c2, e)" by force
    obtain j where j: "wr_bytes (cn_out c2) = wr_bytes (cn_out c1) @ take j (frame_of (enc_Request cd req))"
      using conn_write_ok [OF w] by (auto simp: frame_of_def)
    have "cn_out c' = cn_out c2" using assms a None w conn_read_out [of cl c2]
      by (auto simp: roundTrip_def split: option.splits sum.splits)
    then show ?thesis using j k None
      by (intro exI [of _ "auth_frame cd token @ take j (frame_of (enc_Request cd req))"]) auto
  qed
qed

text \<open>A codec that tells message kinds apart by one byte, and a node that acknowledges and then reports its capacity.\<close>

definition sample_codec :: codec where
  "sample_codec =
     \<lparr>enc_Auth = (\<lambda>m. Some [1]), enc_Request = (\<lambda>r. Some [2]), enc_Create = (\<lambda>r. Some [3]), enc_Action = (\<lambda>r. Some [4]),
      dec_Response = (\<lambda>b. if b = [9] then Some \<lparr>rf_Type = ''auth_ack'', rf_Payload = [], rf_SessionID = ''''\<rparr>
                          else if b = [8] then Some \<lparr>rf_Type = ''capacity'', rf_Payload = [5], rf_SessionID = ''''\<rparr> else None),
      dec_Error = (\<lambda>b. None), dec_Capacity = (\<lambda>b. Some (browser_capacity 0 1024)), dec_Create = (\<lambda>b. None)\<rparr>"

definition sample_client :: NodeClient where
  "sample_client = NewNodeClient 0 0 0"

definition sample_conn :: "octet list list \<Rightarrow> conn" where
  "sample_conn answers = \<lparr>cn_in = \<lparr>rd_bytes = concat (map encode_frame answers), rd_isConn = True, rd_silent = True\<rparr>,
     cn_out = \<lparr>wr_bytes = [], wr_room = 1000\<rparr>\<rparr>"

definition capacity_request :: RequestFrame where
  "capacity_request = \<lparr>rq_Type = ''capacity'', rq_Payload = [], rq_SessionID = ''''\<rparr>"

lemma frame_ok_single: "frame_ok (cl_frameMax sample_client) [x]"
  by (simp add: frame_ok_def sample_client_def NewNodeClient_def defaultFrameMaxBytes_def)

lemma sample_conn_read:
  "conn_read sample_client \<lparr>cn_in = \<lparr>rd_bytes = encode_frame [x] @ rest, rd_isConn = a, rd_silent = b\<rparr>, cn_out = w\<rparr> =
     Some (\<lparr>cn_in = \<lparr>rd_bytes = rest, rd_isConn = a, rd_silent = b\<rparr>, cn_out = w\<rparr>, Inr [x])"
  by (simp add: conn_read_def ReadFrame_encoded [OF frame_ok_single])

lemmas sample_conn_reads = sample_conn_read sample_conn_read [where rest = "[]", simplified]

lemma sample_exchange:
  "\<exists>c'. roundTrip sample_codec sample_client ''/run/b1'' ''t1'' capacity_request (Some (sample_conn [[9], [8]])) =
     Some (Some c', Inr \<lparr>rf_Type = ''capacity'', rf_Payload = [5], rf_SessionID = ''''\<rparr>)"
  by (simp add: roundTrip_def authenticate_def sample_conn_def sample_codec_def conn_write_def WriteFrame_room
      sample_conn_reads)

theorem request_only_after_auth_ack_witness:
  "acknowledges sample_codec sample_client (cn_in (sample_conn [[9], [8]]))"
  using request_only_after_auth_ack sample_exchange by blast

section \<open>A silent node\<close>

definition silent_conn :: "conn \<Rightarrow> bool" where
  "silent_conn c \<longleftrightarrow> length (rd_bytes (cn_in c)) < 4 \<and> rd_silent (cn_in c)"

lemma conn_read_silent: "silent_conn c \<Longrightarrow> conn_read cl c = None"
  by (simp add: conn_read_def silent_conn_def ReadFrame_def ReadFull_def Let_def)

text \<open>The poll of the due views with the client; \<open>None\<close> when it does not come back.\<close>

fun pollClient :: "(string \<Rightarrow> string \<Rightarrow> (browser_error + FBNodeCapacity) option) \<Rightarrow> time \<Rightarrow> nodeView list \<Rightarrow> Registry \<Rightarrow> Registry option" where
  "pollClient capacity now [] r = Some r"
| "pollClient capacity now (v # vs) r =
     (case capacity (nv_SocketPath v) (nv_Token v) of
        None \<Rightarrow> None
      | Some res \<Rightarrow> pollClient capacity now vs
          (pollNode now (case res of Inl e \<Rightarrow> None | Inr cap \<Rightarrow> Some cap) v r))"

lemma pollClient_stuck:
  "v \<in> set vs \<Longrightarrow> capacity (nv_SocketPath v) (nv_Token v) = None \<Longrightarrow> pollClient capacity now vs r = None"
  by (induction vs arbitrary: r) (auto split: option.splits)

text \<open>
  A node that accepts the connection and the authentication frame and then stays silent blocks the poll for ever, whatever
  dial and frame timeouts are configured: the frame timeout starts only after the length prefix has arrived.  The query never
  returns, so the poll round with this node in it never ends, its failure is never counted and no node is polled again.
\<close>

theorem silent_node_blocks_poll:
  assumes "dial (nv_SocketPath v) = Some c" "silent_conn c" "wr_room (cn_out c) \<ge> 4 + length body"
    and "enc_Auth cd \<lparr>am_Type = ''auth'', am_Token = nv_Token v\<rparr> = Some body" "nv_Token v \<noteq> ''''"
    and "v \<in> set (dueNodes it now r)"
  shows "client_Capacity cd (NewNodeClient dialTimeout frameMax frameTimeout) dial (nv_SocketPath v) (nv_Token v) = None \<and>
    pollClient (client_Capacity cd (NewNodeClient dialTimeout frameMax frameTimeout) dial) now' (dueNodes it now r) r = None"
proof -
  have silent: "silent_conn (c\<lparr>cn_out := w\<rparr>)" for w using assms(2) by (simp add: silent_conn_def)
  have "client_Capacity cd (NewNodeClient dialTimeout frameMax frameTimeout) dial (nv_SocketPath v) (nv_Token v) = None"
    using assms(1,3-5)
    by (simp add: client_Capacity_def call_node_def roundTrip_def authenticate_def conn_write_def WriteFrame_room
        conn_read_silent [OF silent])
  then show ?thesis using pollClient_stuck assms(6) by blast
qed

lemma seeded_due: "bn_view (configNode (hd browser_seed)) \<in> set (dueNodes id 5 browser_seeded)"
  by (simp add: dueNodes_def browser_seeded_def isDue_def configNode_def)

theorem silent_node_blocks_poll_witness:
  "pollClient (client_Capacity sample_codec (NewNodeClient 1 1 1) (\<lambda>s. Some (sample_conn []))) 6
     (dueNodes id 5 browser_seeded) browser_seeded = None"
  using silent_node_blocks_poll [where dial = "\<lambda>s. Some (sample_conn [])" and c = "sample_conn []" and body = "[1]"
      and cd = sample_codec and now' = 6, OF _ _ _ _ _ seeded_due]
  by (simp add: silent_conn_def sample_conn_def sample_codec_def bn_view_def configNode_def browser_seed_def)

section \<open>Sessions\<close>

text \<open>
  Operations in progress hold the pin they have looked up.  The log lists what has been answered: a create that named a node, an action that found its node
  gone, and a close of a pinned session.
\<close>

datatype pending = PendExecute string "string option" | PendClose string "string option"

datatype session_event = Created string string | Lost string | Closed string

type_synonym proxy_state = "pins \<times> pending list \<times> session_event list"

definition lostEvents :: "string \<Rightarrow> browser_error + octet list \<Rightarrow> session_event list" where
  "lostEvents sid ans = (case ans of Inl (IsOpError e) \<Rightarrow> if oe_Code e = ''session_lost'' then [Lost sid] else [] | _ \<Rightarrow> [])"

text \<open>An operation that never returns stays pending.  The client never answers with an \<^verbatim>\<open>OpError\<close> (\<open>client_Execute_no_op\<close>).\<close>

inductive proxy_sys :: "proxy_state \<Rightarrow> proxy_state \<Rightarrow> bool" where
  ps_create: "proxy_Create create it sch rPick rSocket rToken = Some (eff, res) \<Longrightarrow>
    proxy_sys (p, pend, lg)
      (apply_effect p eff, pend, lg @ (case res of Inl _ \<Rightarrow> [] | Inr cr \<Rightarrow> [Created (res_SessionID cr) (res_NodeID cr)]))"
| ps_lookup_execute: "proxy_sys (p, pend, lg) (p, PendExecute sid (lookupPin sid p) # pend, lg)"
| ps_lookup_close: "proxy_sys (p, pend, lg) (p, PendClose sid (lookupPin sid p) # pend, lg)"
| ps_execute: "PendExecute sid pin \<in> set pend \<Longrightarrow> (\<And>socket token e. execute socket token \<noteq> Some (Inl (IsOpError e))) \<Longrightarrow>
    proxy_Execute execute sid rDead rSocket rToken pin = Some (eff, ans) \<Longrightarrow>
    proxy_sys (p, pend, lg) (apply_effect p eff, remove1 (PendExecute sid pin) pend, lg @ lostEvents sid ans)"
| ps_close: "PendClose sid pin \<in> set pend \<Longrightarrow> proxy_Close close sid rSocket rDead rToken pin = Some eff \<Longrightarrow>
    proxy_sys (p, pend, lg) (apply_effect p eff, remove1 (PendClose sid pin) pend, lg @ (if pin = None then [] else [Closed sid]))"

inductive_cases proxy_sysE: "proxy_sys s s'"

abbreviation proxy_reachable :: "proxy_state \<Rightarrow> bool" where
  "proxy_reachable s \<equiv> proxy_sys\<^sup>*\<^sup>* (Map.empty, [], []) s"

text \<open>The node of a session by the answers given: created there, and neither closed nor found lost since.\<close>

fun owner_step :: "string \<Rightarrow> string option \<Rightarrow> session_event \<Rightarrow> string option" where
  "owner_step sid cur (Created s nid) = (if s = sid then Some nid else cur)"
| "owner_step sid cur (Lost s) = (if s = sid then None else cur)"
| "owner_step sid cur (Closed s) = (if s = sid then None else cur)"

definition owner :: "string \<Rightarrow> session_event list \<Rightarrow> string option" where
  "owner sid lg = foldl (owner_step sid) None lg"

lemma owner_append: "owner sid (lg @ evs) = foldl (owner_step sid) (owner sid lg) evs"
  by (simp add: owner_def)

lemma create_effect:
  assumes "proxy_Create create it sch rPick rSocket rToken = Some (eff, res)"
  shows "eff = (case res of Inl _ \<Rightarrow> KeepPins | Inr cr \<Rightarrow> SetPin (res_SessionID cr) (res_NodeID cr))"
  using assms by (auto simp: proxy_Create_def split: sum.splits option.splits)

lemma execute_effect:
  assumes "proxy_Execute execute sid rDead rSocket rToken pin = Some (eff, ans)" "\<And>socket token e. execute socket token \<noteq> Some (Inl (IsOpError e))"
  shows "(eff = KeepPins \<and> lostEvents sid ans = []) \<or> (eff = EvictPin sid \<and> lostEvents sid ans = [Lost sid])"
  using assms
  by (auto simp: proxy_Execute_def lostEvents_def err_session_lost_def err_session_not_found_def
      split: option.splits if_splits sum.splits browser_error.splits)

lemma close_effect: "proxy_Close close sid rSocket rDead rToken pin = Some eff \<Longrightarrow> eff = (if pin = None then KeepPins else EvictPin sid)"
  by (auto simp: proxy_Close_def split: option.splits if_splits)

fun pend_pin :: "pending \<Rightarrow> string \<times> string option" where
  "pend_pin (PendExecute sid pin) = (sid, pin)"
| "pend_pin (PendClose sid pin) = (sid, pin)"

text \<open>The pins are the owners by the log, and a pin that was looked up was the owner at some earlier point of the log.\<close>

definition proxy_inv :: "proxy_state \<Rightarrow> bool" where
  "proxy_inv s \<longleftrightarrow>
     (case s of (p, pend, lg) \<Rightarrow>
        (\<forall>sid. p sid = owner sid lg) \<and>
        (\<forall>x \<in> set pend. case pend_pin x of (sid, pin) \<Rightarrow> \<exists>before since. lg = before @ since \<and> owner sid before = pin))"

lemma proxy_inv_extend:
  assumes "proxy_inv (p, pend, lg)" "set pend' \<subseteq> set pend" "\<And>sid. apply_effect p eff sid = owner sid (lg @ evs)"
  shows "proxy_inv (apply_effect p eff, pend', lg @ evs)"
proof -
  have "\<exists>before since. lg @ evs = before @ since \<and> owner sid before = pin" if x: "x \<in> set pend'" "pend_pin x = (sid, pin)" for x sid pin
  proof -
    have "x \<in> set pend" using x(1) assms(2) by blast
    then have "\<exists>before since. lg = before @ since \<and> owner sid before = pin" using assms(1) x(2) unfolding proxy_inv_def by fastforce
    then obtain before since where "lg = before @ since" "owner sid before = pin" by blast
    then show ?thesis by (intro exI [of _ before] exI [of _ "since @ evs"]) simp
  qed
  then show ?thesis using assms(3) by (auto simp: proxy_inv_def split: prod.split)
qed

lemma proxy_inv_step:
  assumes "proxy_sys s s'" "proxy_inv s"
  shows "proxy_inv s'"
  using assms(1)
proof cases
  case (ps_create create it sch rPick rSocket rToken eff res p pend lg)
  have "\<And>sid. p sid = owner sid lg" using assms(2) ps_create(1) by (simp add: proxy_inv_def)
  then show ?thesis unfolding ps_create(2) using assms(2) ps_create(1) create_effect [OF ps_create(3)]
    by (intro proxy_inv_extend) (auto simp: owner_append split: sum.split)
next
  case (ps_lookup_execute p pend lg sid)
  then show ?thesis using assms(2) by (auto simp: proxy_inv_def lookupPin_def intro: exI [of _ lg])
next
  case (ps_lookup_close p pend lg sid)
  then show ?thesis using assms(2) by (auto simp: proxy_inv_def lookupPin_def intro: exI [of _ lg])
next
  case (ps_execute sid pin pend execute rDead rSocket rToken eff ans p lg)
  have "\<And>sid. p sid = owner sid lg" using assms(2) ps_execute(1) by (simp add: proxy_inv_def)
  then show ?thesis unfolding ps_execute(2) using assms(2) ps_execute(1) execute_effect [OF ps_execute(5,4)]
    by (intro proxy_inv_extend [of p pend]) (auto simp: owner_append set_remove1_subset)
next
  case (ps_close sid pin pend close rSocket rDead rToken eff p lg)
  have "\<And>sid. p sid = owner sid lg" using assms(2) ps_close(1) by (simp add: proxy_inv_def)
  then show ?thesis unfolding ps_close(2) using assms(2) ps_close(1) close_effect [OF ps_close(4)]
    by (intro proxy_inv_extend [of p pend]) (auto simp: owner_append set_remove1_subset)
qed

lemma proxy_reachable_inv: "proxy_reachable s \<Longrightarrow> proxy_inv s"
proof (induction rule: rtranclp_induct)
  case base
  show ?case by (simp add: proxy_inv_def owner_def)
next
  case (step s s')
  then show ?case using proxy_inv_step by blast
qed

text \<open>
  C35. Sessions are sticky under every interleaving of creates, actions and closes with each other and with reloads and polls of the registry.
  An action that looks its session up gets the node by the answers given so far: the one the session was last created on, if it was neither closed nor found
  lost since.  An action in progress has looked up the owner of its session at some earlier point.  Without an owner it is answered with 404, not
  retryable, and reaches no node.  When the owner is dead or no longer registered it is answered with 503, retryable, and the pin is evicted.  Otherwise
  it goes to the socket that was registered for this node, with the token registered for the node when the token is read (the token of that socket unless the
  entry of the node changes between the two reads), and the answer of the node is relayed unchanged.
\<close>

theorem session_sticky:
  assumes "proxy_reachable (p, pend, lg)"
  shows "(\<forall>sid. lookupPin sid p = owner sid lg) \<and>
    (\<forall>sid pin. PendExecute sid pin \<in> set pend \<longrightarrow>
      (\<exists>before since. lg = before @ since \<and> owner sid before = pin) \<and>
      (pin = None \<longrightarrow> proxy_Execute execute sid rDead rSocket rToken pin = Some (KeepPins, Inl (IsOpError err_session_not_found))) \<and>
      (\<forall>k. pin = Some k \<and> (IsDead k rDead \<or> SocketOf k rSocket = None) \<longrightarrow>
        (\<exists>e. proxy_Execute execute sid rDead rSocket rToken pin = Some (EvictPin sid, Inl (IsOpError e)) \<and> oe_HTTPStatus e = 503 \<and> oe_Retryable e)) \<and>
      (\<forall>k n. pin = Some k \<and> \<not> IsDead k rDead \<and> map_of (reg_nodes rSocket) k = Some n \<longrightarrow>
        proxy_Execute execute sid rDead rSocket rToken pin =
          map_option (\<lambda>res. (KeepPins, case res of Inl e \<Rightarrow> Inl e | Inr resp \<Rightarrow> Inr (rf_Payload resp)))
            (execute (bn_SocketPath n) (tokenOr k rToken)) \<and>
        (map_of (reg_nodes rToken) k = Some n \<longrightarrow> tokenOr k rToken = bn_Token n)))"
proof -
  have inv: "proxy_inv (p, pend, lg)" using proxy_reachable_inv [OF assms] .
  then have pins: "lookupPin sid p = owner sid lg" for sid by (simp add: proxy_inv_def lookupPin_def)
  have "\<exists>before since. lg = before @ since \<and> owner sid before = pin" if "PendExecute sid pin \<in> set pend" for sid pin
    using inv that unfolding proxy_inv_def by fastforce
  then show ?thesis using pins
    by (auto simp: proxy_Execute_def err_session_lost_def SocketOf_def tokenOr_def TokenOf_def split: option.splits sum.splits)
qed

lemma sticky_create:
  "proxy_Create (\<lambda>_ _. Some (Inr \<lparr>cs_SessionID = ''s1'', cs_CredentialInjected = False\<rparr>)) id
     \<lparr>sch_globalMaxSessions = 0, sch_minFreeMBPerSession = 0\<rparr> browser_seeded browser_seeded browser_seeded =
   Some (SetPin ''s1'' ''b1'', Inr \<lparr>res_SessionID = ''s1'', res_NodeID = ''b1'', res_CredentialInjected = False\<rparr>)"
  by code_simp

lemma sticky_reachable: "proxy_reachable ([''s1'' \<mapsto> ''b1''], [PendExecute ''s1'' (Some ''b1'')], [Created ''s1'' ''b1''])"
proof -
  have "proxy_sys (Map.empty, [], []) ([''s1'' \<mapsto> ''b1''], [], [Created ''s1'' ''b1''])"
    using ps_create [OF sticky_create, of Map.empty "[]" "[]"] by simp
  moreover have "proxy_sys ([''s1'' \<mapsto> ''b1''], [], [Created ''s1'' ''b1'']) ([''s1'' \<mapsto> ''b1''], [PendExecute ''s1'' (Some ''b1'')], [Created ''s1'' ''b1''])"
    using ps_lookup_execute [of "[''s1'' \<mapsto> ''b1'']" "[]" "[Created ''s1'' ''b1'']" "''s1''"] by (simp add: lookupPin_def)
  ultimately show ?thesis by (rule rtranclp.rtrancl_into_rtrancl [OF r_into_rtranclp])
qed

lemma sticky_live: "\<not> IsDead ''b1'' browser_seeded" "map_of (reg_nodes browser_seeded) ''b1'' = Some (configNode (hd browser_seed))"
  by code_simp+

theorem session_sticky_witness:
  "proxy_Execute (\<lambda>s t. Some (Inr \<lparr>rf_Type = s, rf_Payload = [42], rf_SessionID = t\<rparr>)) ''s1'' browser_seeded browser_seeded browser_seeded (Some ''b1'') =
   Some (KeepPins, Inr [42])"
  using session_sticky [OF sticky_reachable, of "\<lambda>s t. Some (Inr \<lparr>rf_Type = s, rf_Payload = [42], rf_SessionID = t\<rparr>)" browser_seeded browser_seeded browser_seeded]
    sticky_live
  by auto

text \<open>
  A reload between the two reads pairs the old socket of a node with its new token: the action authenticates at the old socket with a secret meant for the new one.
\<close>

theorem reload_mixes_socket_and_token:
  assumes "reg_ok r" "map_of (reg_nodes r) (bc_ID c) = Some old" "bn_State old = NodeStateLive" "bn_SocketPath old \<noteq> bc_SocketPath c"
    and "execute (bn_SocketPath old) (bc_Token c) = Some (Inr resp)"
  shows "proxy_Execute execute sid r r (reg_DrainAndApply it [c] r) (Some (bc_ID c)) = Some (KeepPins, Inr (rf_Payload resp))"
  using assms by (simp add: proxy_Execute_def IsDead_def SocketOf_def tokenOr_def TokenOf_def reload_exact configNode_def)

section \<open>Error relay\<close>

text \<open>The answers of a create handler over the proxy and the client.\<close>

definition serveCreate ::
    "codec \<Rightarrow> NodeClient \<Rightarrow> (string \<Rightarrow> conn option) \<Rightarrow> bn_order \<Rightarrow> Scheduler \<Rightarrow> Registry \<Rightarrow> Registry \<Rightarrow> Registry \<Rightarrow>
      string + CreateSessionRequest \<Rightarrow> (pin_effect \<times> http_answer) option" where
  "serveCreate cd cl dial it sch rPick rSocket rToken =
     handleCreate (\<lambda>req. proxy_Create (\<lambda>socket token. client_Create cd cl dial socket token req) it sch rPick rSocket rToken)"

text \<open>The errors a create can end with: none of them is an \<^verbatim>\<open>OpError\<close>.\<close>

definition relayable :: "codec \<Rightarrow> bn_order \<Rightarrow> Scheduler \<Rightarrow> Registry \<Rightarrow> browser_error \<Rightarrow> bool" where
  "relayable cd it sch rPick e \<longleftrightarrow>
     (case e of
        IsOpError oe \<Rightarrow> False
      | IsNodeError fe s \<Rightarrow> (\<exists>payload. dec_Error cd payload = Some fe)
      | IsPickError ErrNoNodeHeadroom \<Rightarrow> True
      | IsPickError (ErrGlobalQuotaExceeded live quota) \<Rightarrow> Pick it sch rPick = Inl (ErrGlobalQuotaExceeded live quota)
      | IsClientFailure f \<Rightarrow> True)"

lemma relayable_decode: "relayable cd it sch rPick (decodeNodeError cd payload s)"
  by (auto simp: relayable_def decodeNodeError_def split: option.split)

lemma relayable_client [simp]: "relayable cd it sch rPick (IsClientFailure f)"
  by (simp add: relayable_def)

lemma authenticate_errors: "authenticate cd cl s t c = Some (c', Some e) \<Longrightarrow> relayable cd it sch rPick e"
  by (auto simp: authenticate_def relayable_decode split: if_splits option.splits prod.splits sum.splits)

lemma roundTrip_errors: "roundTrip cd cl s t req d = Some (c', Inl e) \<Longrightarrow> relayable cd it sch rPick e"
  by (auto simp: roundTrip_def authenticate_errors split: option.splits prod.splits sum.splits)

lemma checkResponse_errors: "checkResponse cd s expected resp = Inl e \<Longrightarrow> relayable cd it sch rPick e"
  by (auto simp: checkResponse_def relayable_decode split: if_splits option.splits)

lemma call_node_errors:
  assumes "call_node cd cl dial s t req expected = Some (Inl e)"
  shows "relayable cd it sch rPick e"
proof -
  obtain c res where r: "roundTrip cd cl s t req (dial s) = Some (c, res)"
    "(case res of Inl e \<Rightarrow> Inl e | Inr resp \<Rightarrow> checkResponse cd s expected resp) = Inl e"
    using assms by (auto simp: call_node_def)
  then show ?thesis by (cases res) (auto intro: roundTrip_errors checkResponse_errors)
qed

lemma client_Create_errors:
  assumes "client_Create cd cl dial s t req = Some (Inl e)"
  shows "relayable cd it sch rPick e"
proof (cases "enc_Create cd req")
  case None
  then show ?thesis using assms by (auto simp: client_Create_def)
next
  case (Some payload)
  then obtain res where "call_node cd cl dial s t \<lparr>rq_Type = ''create_session'', rq_Payload = payload, rq_SessionID = ''''\<rparr>
      (Some ''create_session'') = Some res" "decodePayload (dec_Create cd) rf_Payload res = Inl e"
    using assms by (auto simp: client_Create_def)
  then show ?thesis by (cases res) (auto simp: decodePayload_def intro: call_node_errors split: option.splits)
qed

text \<open>So the client meets what the step relation of the sessions assumes of it.\<close>

lemma client_Execute_no_op: "client_Execute cd cl dial socket token req \<noteq> Some (Inl (IsOpError e))"
proof
  assume "client_Execute cd cl dial socket token req = Some (Inl (IsOpError e))"
  then have "\<exists>r. call_node cd cl dial socket token r None = Some (Inl (IsOpError e))"
    by (auto simp: client_Execute_def split: option.splits)
  then show False using call_node_errors [where e = "IsOpError e"] by (auto simp: relayable_def)
qed

lemma proxy_Create_errors:
  assumes "proxy_Create (\<lambda>s t. client_Create cd cl dial s t req) it sch rPick rSocket rToken = Some (eff, Inl e)"
  shows "eff = KeepPins \<and> relayable cd it sch rPick e"
  using assms client_Create_errors
  by (fastforce simp: proxy_Create_def relayable_def split: sum.splits option.splits pick_error.splits)

text \<open>
  The create endpoint reports every failure as what it is.  A session is pinned exactly by the answers with status 201, to
  the node the scheduler picked; a body that does not decode or names an unknown mode is 400 and contacts no node; every other
  failure is 503 and never 502: the exhausted quota as not retryable, missing headroom and every dial, frame and decoding failure
  as retryable, and an error of the node with the code, message and retryable flag the node sent.
\<close>

theorem create_errors_relayed:
  assumes "serveCreate cd cl dial it sch rPick rSocket rToken body = Some (eff, status, answer)"
  shows "(case body of
      Inl err \<Rightarrow> status = 400 \<and> eff = KeepPins
    | Inr req \<Rightarrow>
        if cr_Mode req \<notin> {'''', ''headless'', ''headed''} then status = 400 \<and> eff = KeepPins
        else (status = 201 \<and> (\<exists>k res. Pick it sch rPick = Inr k \<and> answer = BodyCreated res \<and> res_NodeID res = k \<and>
                eff = SetPin (res_SessionID res) k)) \<or>
          (status = 503 \<and> eff = KeepPins \<and>
            (\<exists>code msg retryable. answer = BodyError code msg retryable \<and>
              ((code = ''quota_exceeded'' \<and> \<not> retryable \<and> (\<exists>live quota. Pick it sch rPick = Inl (ErrGlobalQuotaExceeded live quota))) \<or>
               (code = ''no_headroom'' \<and> retryable) \<or>
               (code = ''node_unreachable'' \<and> retryable) \<or>
               (\<exists>payload fe. dec_Error cd payload = Some fe \<and> code = fe_Code fe \<and> msg = RelayText (fe_Message fe) \<and>
                  retryable = fe_Retryable fe)))))"
proof (cases body)
  case (Inl err)
  then show ?thesis using assms by (simp add: serveCreate_def handleCreate_def invalid_request_def)
next
  case (Inr req)
  show ?thesis
  proof (cases "cr_Mode req \<in> {'''', ''headless'', ''headed''}")
    case False
    then show ?thesis using assms Inr by (simp add: serveCreate_def handleCreate_def invalid_request_def)
  next
    case True
    then obtain req' eff' res where c: "proxy_Create (\<lambda>s t. client_Create cd cl dial s t req') it sch rPick rSocket rToken = Some (eff', res)"
      "eff = eff'" "(status, answer) = (case res of Inl e \<Rightarrow> writeRelayError e | Inr cr \<Rightarrow> (201, BodyCreated cr))"
      using assms Inr by (auto simp: serveCreate_def handleCreate_def split: if_splits)
    show ?thesis
    proof (cases res)
      case (Inr cr)
      then show ?thesis using c True \<open>body = Inr req\<close>
        by (auto simp: proxy_Create_def split: sum.splits option.splits)
    next
      case (Inl e)
      then have "eff = KeepPins" "relayable cd it sch rPick e" using c proxy_Create_errors by blast+
      then show ?thesis using c Inl True \<open>body = Inr req\<close>
        by (auto simp: relayable_def writeRelayError_def split: browser_error.splits pick_error.splits)
    qed
  qed
qed

definition headless_request :: CreateSessionRequest where
  "headless_request = \<lparr>cr_Mode = '''', cr_InitialURL = None, cr_MaxActions = None, cr_TaskTimeoutMs = None, cr_CredentialDomain = None\<rparr>"

lemma sample_quota_error:
  "Pick id \<lparr>sch_globalMaxSessions = 4, sch_minFreeMBPerSession = 512\<rparr> browser_polled = Inl (ErrGlobalQuotaExceeded 4 4)"
  by code_simp

lemma sample_quota_answer:
  "serveCreate sample_codec sample_client (\<lambda>s. None) id \<lparr>sch_globalMaxSessions = 4, sch_minFreeMBPerSession = 512\<rparr>
     browser_polled browser_polled browser_polled (Inr headless_request) =
   Some (KeepPins, 503, BodyError ''quota_exceeded'' (RelayErrorText (IsPickError (ErrGlobalQuotaExceeded 4 4))) False)"
  by (simp add: serveCreate_def handleCreate_def headless_request_def proxy_Create_def sample_quota_error writeRelayError_def)

theorem create_errors_relayed_witness:
  "\<exists>live quota. Pick id \<lparr>sch_globalMaxSessions = 4, sch_minFreeMBPerSession = 512\<rparr> browser_polled =
     Inl (ErrGlobalQuotaExceeded live quota)"
  using create_errors_relayed [OF sample_quota_answer]
  by (auto simp: headless_request_def sample_codec_def)

end
