(* ===== verification/Model_Policy.thy ===== *)
theory Model_Policy
  imports Gateway_Prelude "HOL-Library.AList"
begin

text \<open>
  The model-policy plane (\<^verbatim>\<open>modelpolicy/policy.go\<close>): per-tenant policies, per-user preferences and the chain that resolves
  the model of a module, with its persistence.

  Maps are association lists.  The JSON file is represented by the value it encodes.  Setting a preference checks the
  allowlist under the read lock and writes under the write lock, and saving copies the preferences under the read lock and
  writes the file later; both are given as their two steps and as the composition.
\<close>

section \<open>Data\<close>

record Policy =
  po_DefaultModel :: string
  po_ModuleOverrides :: "(string \<times> string) list"
  po_UserAllowlist :: "string list"
  po_PrivacyMode :: string

definition zero_policy :: Policy where
  "zero_policy = \<lparr>po_DefaultModel = '''', po_ModuleOverrides = [], po_UserAllowlist = [], po_PrivacyMode = ''''\<rparr>"

datatype policy_source = SourceNone | SourceModuleOverride | SourceUserPreference | SourceTenantDefault | SourceFallback

datatype policy_error = ErrInvalidPrivacyMode | ErrInvalidPolicy | ErrNotInAllowlist

record PolicyDecision =
  pd_Model :: string
  pd_Source :: policy_source
  pd_PrivacyFiltered :: bool

type_synonym userPrefKey = "string \<times> string"
type_synonym modules = "(string \<times> string) list"

record PolicyStore =
  ps_policies :: "(string \<times> Policy option) list"
  ps_prefs :: "(userPrefKey \<times> modules) list"
  ps_path :: string

record persistedStore =
  file_Policies :: "(string \<times> Policy option) list option"
  file_Prefs :: "(string \<times> (string \<times> modules) list) list option"

definition NewPolicyStore :: PolicyStore where
  "NewPolicyStore = \<lparr>ps_policies = [], ps_prefs = [], ps_path = ''''\<rparr>"

definition SetPersistence :: "string \<Rightarrow> PolicyStore \<Rightarrow> PolicyStore" where
  "SetPersistence path s = s\<lparr>ps_path := path\<rparr>"

text \<open>A stored nil pointer counts as absent.\<close>

definition stored_policy :: "string \<Rightarrow> PolicyStore \<Rightarrow> Policy option" where
  "stored_policy tenant s = (case map_of (ps_policies s) tenant of Some (Some p) \<Rightarrow> Some p | _ \<Rightarrow> None)"

definition tenant_policy :: "string \<Rightarrow> PolicyStore \<Rightarrow> Policy" where
  "tenant_policy tenant s = (case stored_policy tenant s of Some p \<Rightarrow> p | None \<Rightarrow> zero_policy)"

section \<open>Writes\<close>

definition blank :: "string \<Rightarrow> bool" where
  "blank s \<longleftrightarrow> TrimSpace s = ''''"

definition checkPolicy :: "Policy \<Rightarrow> policy_error option" where
  "checkPolicy p =
     (if po_PrivacyMode p \<noteq> '''' \<and> po_PrivacyMode p \<noteq> ''all'' \<and> po_PrivacyMode p \<noteq> ''local_only'' then Some ErrInvalidPrivacyMode
      else if list_ex (\<lambda>(modl, model). blank modl \<or> blank model) (po_ModuleOverrides p) then Some ErrInvalidPolicy
      else if list_ex blank (po_UserAllowlist p) then Some ErrInvalidPolicy
      else if po_DefaultModel p \<noteq> '''' \<and> blank (po_DefaultModel p) then Some ErrInvalidPolicy
      else None)"

definition SetPolicy :: "string \<Rightarrow> Policy \<Rightarrow> PolicyStore \<Rightarrow> PolicyStore \<times> policy_error option" where
  "SetPolicy tenant p s =
     (case checkPolicy p of
        Some e \<Rightarrow> (s, Some e)
      | None \<Rightarrow> (s\<lparr>ps_policies := AList.update tenant (Some p) (ps_policies s)\<rparr>, None))"

text \<open>The check under the read lock, the write under the write lock.\<close>

definition checkPreference :: "string \<Rightarrow> string \<Rightarrow> string \<Rightarrow> string \<Rightarrow> PolicyStore \<Rightarrow> policy_error option" where
  "checkPreference tenant user modl model s =
     (if blank modl \<or> blank model \<or> blank user then Some ErrInvalidPolicy
      else case stored_policy tenant s of
        None \<Rightarrow> None
      | Some p \<Rightarrow> if po_UserAllowlist p \<noteq> [] \<and> model \<notin> set (po_UserAllowlist p) then Some ErrNotInAllowlist else None)"

definition user_modules :: "userPrefKey \<Rightarrow> PolicyStore \<Rightarrow> modules" where
  "user_modules key s = (case map_of (ps_prefs s) key of None \<Rightarrow> [] | Some mods \<Rightarrow> mods)"

definition writePreference :: "string \<Rightarrow> string \<Rightarrow> string \<Rightarrow> string \<Rightarrow> PolicyStore \<Rightarrow> PolicyStore" where
  "writePreference tenant user modl model s =
     s\<lparr>ps_prefs := AList.update (tenant, user) (AList.update modl model (user_modules (tenant, user) s)) (ps_prefs s)\<rparr>"

definition SetUserPreference ::
    "string \<Rightarrow> string \<Rightarrow> string \<Rightarrow> string \<Rightarrow> PolicyStore \<Rightarrow> PolicyStore \<times> policy_error option" where
  "SetUserPreference tenant user modl model s =
     (case checkPreference tenant user modl model s of
        Some e \<Rightarrow> (s, Some e)
      | None \<Rightarrow> (writePreference tenant user modl model s, None))"

definition UserPreference :: "string \<Rightarrow> string \<Rightarrow> string \<Rightarrow> PolicyStore \<Rightarrow> string" where
  "UserPreference tenant user modl s = get_str (map_of (user_modules (tenant, user) s)) modl"

definition DeleteUserPreference :: "string \<Rightarrow> string \<Rightarrow> string \<Rightarrow> PolicyStore \<Rightarrow> PolicyStore" where
  "DeleteUserPreference tenant user modl s =
     (case map_of (ps_prefs s) (tenant, user) of
        None \<Rightarrow> s
      | Some mods \<Rightarrow>
          (let mods' = AList.delete modl mods in
           s\<lparr>ps_prefs := (if mods' = [] then AList.delete (tenant, user) (ps_prefs s)
                          else AList.update (tenant, user) mods' (ps_prefs s))\<rparr>))"

section \<open>Resolution\<close>

definition preferenceOK :: "Policy \<Rightarrow> string \<Rightarrow> string \<Rightarrow> bool" where
  "preferenceOK p pref modl \<longleftrightarrow>
     pref \<noteq> '''' \<and> modl \<noteq> '''' \<and> (po_UserAllowlist p \<noteq> [] \<longrightarrow> pref \<in> set (po_UserAllowlist p))"

fun resolveLoop :: "(string \<Rightarrow> bool) option \<Rightarrow> PolicyDecision \<Rightarrow> (string \<times> policy_source \<times> bool) list \<Rightarrow> PolicyDecision" where
  "resolveLoop filter_local d [] = d"
| "resolveLoop filter_local d ((model, source, active) # cs) =
     (if \<not> active \<or> model = '''' then resolveLoop filter_local d cs
      else if (case filter_local of Some isLocal \<Rightarrow> \<not> isLocal model | None \<Rightarrow> False) then resolveLoop filter_local d cs
      else d\<lparr>pd_Model := model, pd_Source := source\<rparr>)"

definition policy_candidates :: "string \<Rightarrow> string \<Rightarrow> string \<Rightarrow> string \<Rightarrow> PolicyStore \<Rightarrow> (string \<times> policy_source \<times> bool) list" where
  "policy_candidates tenant user modl fallback s =
     (let p = tenant_policy tenant s; pref = UserPreference tenant user modl s in
      [(get_str (map_of (po_ModuleOverrides p)) modl, SourceModuleOverride, modl \<noteq> ''''),
       (pref, SourceUserPreference, preferenceOK p pref modl),
       (po_DefaultModel p, SourceTenantDefault, True),
       (fallback, SourceFallback, True)])"

definition localFilter :: "string \<Rightarrow> (string \<Rightarrow> bool) option \<Rightarrow> PolicyStore \<Rightarrow> (string \<Rightarrow> bool) option" where
  "localFilter tenant isLocal s = (if po_PrivacyMode (tenant_policy tenant s) = ''local_only'' then isLocal else None)"

definition Resolve :: "string \<Rightarrow> string \<Rightarrow> string \<Rightarrow> string \<Rightarrow> (string \<Rightarrow> bool) option \<Rightarrow> PolicyStore \<Rightarrow> PolicyDecision" where
  "Resolve tenant user modl fallback isLocal s =
     resolveLoop (localFilter tenant isLocal s)
       \<lparr>pd_Model = '''', pd_Source = SourceNone, pd_PrivacyFiltered = (localFilter tenant isLocal s \<noteq> None)\<rparr>
       (policy_candidates tenant user modl fallback s)"

section \<open>Persistence\<close>

definition nest_pref :: "(string \<times> (string \<times> modules) list) list \<Rightarrow> userPrefKey \<times> modules \<Rightarrow> (string \<times> (string \<times> modules) list) list" where
  "nest_pref acc e =
     (case e of ((tenant, user), mods) \<Rightarrow>
        AList.update tenant (AList.update user mods (case map_of acc tenant of None \<Rightarrow> [] | Some us \<Rightarrow> us)) acc)"

definition save_collect :: "PolicyStore \<Rightarrow> (string \<times> (string \<times> modules) list) list" where
  "save_collect s = foldl nest_pref [] (ps_prefs s)"

text \<open>The policies are marshalled through the live map when the file is written; \<open>ok\<close> tells whether mkdir, write and rename succeed.\<close>

definition save_write :: "bool \<Rightarrow> (string \<times> (string \<times> modules) list) list \<Rightarrow> PolicyStore \<Rightarrow> persistedStore option \<Rightarrow> persistedStore option" where
  "save_write ok prefs s file =
     (if ok then Some \<lparr>file_Policies = Some (ps_policies s), file_Prefs = Some prefs\<rparr> else file)"

definition policy_save :: "bool \<Rightarrow> PolicyStore \<Rightarrow> persistedStore option \<Rightarrow> persistedStore option" where
  "policy_save ok s file = (if ps_path s = '''' then file else save_write ok (save_collect s) s file)"

definition restore_prefs :: "(string \<times> (string \<times> modules) list) list \<Rightarrow> (userPrefKey \<times> modules) list" where
  "restore_prefs nested =
     foldl (\<lambda>acc (tenant, users). foldl (\<lambda>acc (user, mods). AList.update (tenant, user) mods acc) acc users) [] nested"

text \<open>The content of the file: \<open>None\<close> when there is none; a corrupt file is an error that leaves the store as it was.\<close>

datatype policy_file = NoFile | Unreadable | Stored persistedStore

definition policy_Load :: "policy_file \<Rightarrow> PolicyStore \<Rightarrow> PolicyStore \<times> bool" where
  "policy_Load file s =
     (if ps_path s = '''' then (s, True)
      else case file of
        NoFile \<Rightarrow> (s, True)
      | Unreadable \<Rightarrow> (s, False)
      | Stored ps \<Rightarrow>
          (s\<lparr>ps_policies := (case file_Policies ps of None \<Rightarrow> ps_policies s | Some p \<Rightarrow> p),
             ps_prefs := (case file_Prefs ps of None \<Rightarrow> ps_prefs s | Some n \<Rightarrow> restore_prefs n)\<rparr>, True))"

section \<open>What a decision respects\<close>

definition admissible :: "(string \<Rightarrow> bool) option \<Rightarrow> string \<times> policy_source \<times> bool \<Rightarrow> bool" where
  "admissible filter_local c \<longleftrightarrow>
     snd (snd c) \<and> fst c \<noteq> '''' \<and> (case filter_local of Some isLocal \<Rightarrow> isLocal (fst c) | None \<Rightarrow> True)"

lemma resolveLoop_find:
  "resolveLoop f d cs =
     (case find (admissible f) cs of None \<Rightarrow> d | Some c \<Rightarrow> d\<lparr>pd_Model := fst c, pd_Source := fst (snd c)\<rparr>)"
  by (induction f d cs rule: resolveLoop.induct) (auto simp: admissible_def split: option.split)

text \<open>
  A resolved model respects the policy of its tenant in every state of the store, also one in which a preference was
  written while the allowlist was being narrowed: under local-only privacy the model is local; a model taken from the user's
  preference is the stored one, passes the present allowlist, and no override of the module was admissible; an override that
  is admissible always wins; and the decision is empty exactly when override, allowed preference, tenant default and fallback
  are all missing or not local.
\<close>

theorem resolve_respects_policy:
  fixes tenant user modl fallback isLocal s
  defines "d \<equiv> Resolve tenant user modl fallback isLocal s" and "p \<equiv> tenant_policy tenant s"
    and "pref \<equiv> UserPreference tenant user modl s" and "ovr \<equiv> get_str (map_of (po_ModuleOverrides (tenant_policy tenant s))) modl"
    and "ok \<equiv> (\<lambda>m. m \<noteq> '''' \<and> (po_PrivacyMode (tenant_policy tenant s) = ''local_only'' \<longrightarrow> (\<forall>f. isLocal = Some f \<longrightarrow> f m)))"
  shows "(pd_Model d \<noteq> '''' \<longrightarrow> ok (pd_Model d)) \<and>
    (pd_Source d = SourceUserPreference \<longrightarrow> pd_Model d = pref \<and> (po_UserAllowlist p \<noteq> [] \<longrightarrow> pref \<in> set (po_UserAllowlist p)) \<and>
       (modl = '''' \<or> \<not> ok ovr)) \<and>
    (modl \<noteq> '''' \<and> ok ovr \<longrightarrow> pd_Model d = ovr \<and> pd_Source d = SourceModuleOverride) \<and>
    (pd_Model d = '''' \<longleftrightarrow> \<not> (modl \<noteq> '''' \<and> ok ovr) \<and> \<not> (preferenceOK p pref modl \<and> ok pref) \<and>
       \<not> ok (po_DefaultModel p) \<and> \<not> ok fallback)"
proof -
  have adm: "admissible (localFilter tenant isLocal s) (m, src, act) \<longleftrightarrow> act \<and> ok m" for m src act
    by (cases isLocal) (auto simp: admissible_def localFilter_def ok_def)
  show ?thesis
    unfolding d_def Resolve_def resolveLoop_find policy_candidates_def Let_def find.simps adm p_def pref_def ovr_def
    by (auto simp: preferenceOK_def ok_def [symmetric]) (auto simp: ok_def)
qed

section \<open>Histories\<close>

datatype policy_event =
  EvSetPolicy string Policy
| EvSetPreference string string string string
| EvDeletePreference string string string

fun event_tenant :: "policy_event \<Rightarrow> string" where
  "event_tenant (EvSetPolicy t p) = t"
| "event_tenant (EvSetPreference t u m x) = t"
| "event_tenant (EvDeletePreference t u m) = t"

fun policy_step :: "PolicyStore \<Rightarrow> policy_event \<Rightarrow> PolicyStore" where
  "policy_step s (EvSetPolicy t p) = fst (SetPolicy t p s)"
| "policy_step s (EvSetPreference t u m x) = fst (SetUserPreference t u m x s)"
| "policy_step s (EvDeletePreference t u m) = DeleteUserPreference t u m s"

text \<open>Two stores that agree on a tenant.\<close>

definition agree :: "string \<Rightarrow> PolicyStore \<Rightarrow> PolicyStore \<Rightarrow> bool" where
  "agree t s s' \<longleftrightarrow> map_of (ps_policies s) t = map_of (ps_policies s') t \<and>
     (\<forall>u. map_of (ps_prefs s) (t, u) = map_of (ps_prefs s') (t, u))"

lemma agree_reads:
  assumes "agree t s s'"
  shows "stored_policy t s = stored_policy t s'" "tenant_policy t s = tenant_policy t s'"
    "user_modules (t, u) s = user_modules (t, u) s'" "UserPreference t u m s = UserPreference t u m s'"
    "Resolve t u m fb isLocal s = Resolve t u m fb isLocal s'"
    "checkPreference t u m x s = checkPreference t u m x s'"
  using assms
  by (simp_all add: agree_def Resolve_def policy_candidates_def localFilter_def UserPreference_def user_modules_def
      tenant_policy_def stored_policy_def checkPreference_def)

lemma agree_other: "event_tenant e \<noteq> t \<Longrightarrow> agree t (policy_step s e) s"
  by (cases e) (auto simp: agree_def SetPolicy_def SetUserPreference_def writePreference_def DeleteUserPreference_def Let_def
      update_conv' AList.delete_conv' split: option.splits)

lemma agree_same: "event_tenant e = t \<Longrightarrow> agree t s s' \<Longrightarrow> agree t (policy_step s e) (policy_step s' e)"
proof (cases e)
  case (EvSetPolicy t' p)
  then show "event_tenant e = t \<Longrightarrow> agree t s s' \<Longrightarrow> ?thesis"
    by (auto simp: SetPolicy_def agree_def update_conv' split: option.split)
next
  case (EvSetPreference t' u m x)
  assume "event_tenant e = t" and a: "agree t s s'"
  then show ?thesis using EvSetPreference agree_reads(3) [OF a] agree_reads(6) [OF a, of u m x]
    by (auto simp: SetUserPreference_def writePreference_def agree_def update_conv' split: option.split)
next
  case (EvDeletePreference t' u m)
  assume "event_tenant e = t" and a: "agree t s s'"
  then show ?thesis using EvDeletePreference
    by (auto simp: DeleteUserPreference_def agree_def update_conv' AList.delete_conv' Let_def split: option.splits)
qed

lemma agree_run:
  "agree t s s' \<Longrightarrow> agree t (run_steps policy_step s es) (run_steps policy_step s' (filter (\<lambda>e. event_tenant e = t) es))"
proof (induction es arbitrary: s s')
  case (Cons e es)
  then show ?case
    using agree_same [of e t s s'] agree_other [of e t s]
    by (cases "event_tenant e = t") (auto simp: agree_def)
qed simp

text \<open>
  Tenants are isolated: after any history of policy and preference changes, what a tenant reads (its policy, the preference
  of each of its users, every resolution) is what it would read had only its own changes happened, in their order.
\<close>

theorem tenants_isolated:
  fixes es s0 tenant
  defines "s \<equiv> run_steps policy_step s0 es" and "own \<equiv> run_steps policy_step s0 (filter (\<lambda>e. event_tenant e = tenant) es)"
  shows "tenant_policy tenant s = tenant_policy tenant own \<and>
    UserPreference tenant user modl s = UserPreference tenant user modl own \<and>
    Resolve tenant user modl fallback isLocal s = Resolve tenant user modl fallback isLocal own"
proof -
  have "agree tenant s own" unfolding s_def own_def by (rule agree_run) (simp add: agree_def)
  then show ?thesis using agree_reads by simp
qed

definition sample_policy :: Policy where
  "sample_policy = \<lparr>po_DefaultModel = ''cloud-xl'', po_ModuleOverrides = [(''chat'', ''mlx-s'')], po_UserAllowlist = [''mlx-m''],
     po_PrivacyMode = ''local_only''\<rparr>"

definition sample_policies :: PolicyStore where
  "sample_policies = run_steps policy_step NewPolicyStore
     [EvSetPreference ''t'' ''u'' ''code'' ''cloud-m'', EvSetPolicy ''t'' sample_policy]"

theorem resolve_respects_policy_witness:
  "UserPreference ''t'' ''u'' ''code'' sample_policies = ''cloud-m'' \<and>
   pd_Model (Resolve ''t'' ''u'' ''chat'' ''cloud-xl'' (Some (\<lambda>m. HasPrefix m ''mlx'')) sample_policies) = ''mlx-s'' \<and>
   pd_Model (Resolve ''t'' ''u'' ''code'' ''cloud-xl'' (Some (\<lambda>m. HasPrefix m ''mlx'')) sample_policies) = ''''"
proof -
  have s: "tenant_policy ''t'' sample_policies = sample_policy" "UserPreference ''t'' ''u'' ''code'' sample_policies = ''cloud-m''"
    by code_simp+
  show ?thesis
    using resolve_respects_policy [where tenant = "''t''" and user = "''u''" and modl = "''chat''" and fallback = "''cloud-xl''"
        and isLocal = "Some (\<lambda>m. HasPrefix m ''mlx'')" and s = sample_policies]
      resolve_respects_policy [where tenant = "''t''" and user = "''u''" and modl = "''code''" and fallback = "''cloud-xl''"
        and isLocal = "Some (\<lambda>m. HasPrefix m ''mlx'')" and s = sample_policies]
    by (simp add: s) (simp add: sample_policy_def get_str_def preferenceOK_def)
qed

section \<open>Persistence round trip\<close>

definition nested_lookup :: "(string \<times> (string \<times> modules) list) list \<Rightarrow> userPrefKey \<Rightarrow> modules option" where
  "nested_lookup n key = (case map_of n (fst key) of None \<Rightarrow> None | Some us \<Rightarrow> map_of us (snd key))"

definition nested_ok :: "(string \<times> (string \<times> modules) list) list \<Rightarrow> bool" where
  "nested_ok n \<longleftrightarrow> distinct (map fst n) \<and> (\<forall>t us. map_of n t = Some us \<longrightarrow> distinct (map fst us))"

lemma nest_pref_lookup:
  "nested_lookup (nest_pref n (key, mods)) key' = (if key' = key then Some mods else nested_lookup n key')"
  by (cases key; cases key') (auto simp: nested_lookup_def nest_pref_def update_conv' split: option.splits)

lemma nest_pref_ok: "nested_ok n \<Longrightarrow> nested_ok (nest_pref n e)"
  by (auto simp: nested_ok_def nest_pref_def update_conv' distinct_update simp del: map_of_eq_Some_iff
      split: prod.splits option.splits if_splits)

lemma save_collect_lookup: "distinct (map fst es) \<Longrightarrow> nested_ok (foldl nest_pref [] es) \<and> nested_lookup (foldl nest_pref [] es) = map_of es"
proof (induction es rule: rev_induct)
  case (snoc e es)
  obtain key mods where e: "e = (key, mods)" by (cases e)
  have "map_of es key = None" using snoc.prems e by (simp add: map_of_eq_None_iff)
  then show ?case using snoc e nest_pref_lookup nest_pref_ok by (auto simp: fun_eq_iff map_add_def split: option.split)
qed (auto simp: nested_ok_def nested_lookup_def)

lemma restore_users_lookup:
  "distinct (map fst us) \<Longrightarrow>
   map_of (foldl (\<lambda>acc (user, mods). AList.update (t, user) mods acc) acc us) key =
     (if fst key = t \<and> map_of us (snd key) \<noteq> None then map_of us (snd key) else map_of acc key)"
proof (induction us arbitrary: acc)
  case (Cons x us)
  obtain u mods where x: "x = (u, mods)" by (cases x)
  have "map_of us u = None" using Cons.prems x by (simp add: map_of_eq_None_iff)
  then show ?case using Cons x by (cases key) (auto simp: update_conv')
qed simp

lemma restore_lookup_acc:
  "nested_ok n \<Longrightarrow>
   map_of (foldl (\<lambda>acc (tenant, users). foldl (\<lambda>acc (user, mods). AList.update (tenant, user) mods acc) acc users) acc n) key =
     (case nested_lookup n key of Some mods \<Rightarrow> Some mods | None \<Rightarrow> map_of acc key)"
proof (induction n arbitrary: acc)
  case (Cons x n)
  obtain t us where x: "x = (t, us)" by (cases x)
  have t: "map_of n t = None" and ok: "nested_ok n" "distinct (map fst us)"
    using Cons.prems x by (auto simp: nested_ok_def map_of_eq_None_iff image_iff split: if_splits)
  obtain a b where key: "key = (a, b)" by (cases key)
  show ?case using x t unfolding key
    by (auto simp: nested_lookup_def Cons.IH [OF ok(1), unfolded key] restore_users_lookup [OF ok(2)] split: option.splits)
qed (simp add: nested_lookup_def)

lemma restore_lookup: "nested_ok n \<Longrightarrow> map_of (restore_prefs n) = nested_lookup n"
  by (rule ext) (simp add: restore_prefs_def restore_lookup_acc split: option.split)

definition store_ok :: "PolicyStore \<Rightarrow> bool" where
  "store_ok s \<longleftrightarrow> distinct (map fst (ps_prefs s))"

lemma store_ok_step: "store_ok s \<Longrightarrow> store_ok (policy_step s e)"
  by (cases e) (auto simp: store_ok_def SetPolicy_def SetUserPreference_def writePreference_def DeleteUserPreference_def Let_def
      distinct_update distinct_delete split: option.splits)

interpretation policies: step_system policy_step store_ok
  by unfold_locales (rule store_ok_step)

lemma load_agrees:
  assumes "store_ok s" "ps_path s' \<noteq> ''''"
  shows "agree t (fst (policy_Load (Stored \<lparr>file_Policies = Some (ps_policies s), file_Prefs = Some (save_collect s)\<rparr>) s')) s"
  using assms save_collect_lookup [of "ps_prefs s"] restore_lookup [of "save_collect s"]
  by (simp add: policy_Load_def agree_def store_ok_def save_collect_def)

text \<open>
  The store survives a restart: after any history, what a successful save writes to the file, loaded into a fresh store,
  gives every tenant the same policy, every user the same preferences and every query the same resolution.
\<close>

theorem policy_persistence_roundtrip:
  assumes "ps_path s \<noteq> ''''" "path \<noteq> ''''" "policy_save True s old = Some file" "s = run_steps policy_step (SetPersistence p NewPolicyStore) es"
  defines "s' \<equiv> fst (policy_Load (Stored file) (SetPersistence path NewPolicyStore))"
  shows "tenant_policy tenant s' = tenant_policy tenant s \<and> UserPreference tenant user modl s' = UserPreference tenant user modl s \<and>
    Resolve tenant user modl fallback isLocal s' = Resolve tenant user modl fallback isLocal s"
proof -
  have "store_ok s" unfolding assms(4) by (rule policies.run_inv) (simp add: store_ok_def SetPersistence_def NewPolicyStore_def)
  moreover have "file = \<lparr>file_Policies = Some (ps_policies s), file_Prefs = Some (save_collect s)\<rparr>"
    using assms(1,3) by (simp add: policy_save_def save_write_def)
  ultimately have "agree tenant s' s" unfolding s'_def by (simp add: load_agrees assms(2) SetPersistence_def)
  then show ?thesis using agree_reads by simp
qed

definition sample_history :: "policy_event list" where
  "sample_history = [EvSetPreference ''t'' ''u'' ''code'' ''cloud-m'', EvSetPolicy ''t'' sample_policy]"

definition sample_persisted :: PolicyStore where
  "sample_persisted = run_steps policy_step (SetPersistence ''p'' NewPolicyStore) sample_history"

lemma sample_persisted_facts: "ps_path sample_persisted = ''p''" "tenant_policy ''t'' sample_persisted = sample_policy"
  by code_simp+

lemma sample_saved:
  "policy_save True sample_persisted None =
     Some \<lparr>file_Policies = Some (ps_policies sample_persisted), file_Prefs = Some (save_collect sample_persisted)\<rparr>"
  by (simp add: policy_save_def save_write_def sample_persisted_facts)

theorem policy_persistence_roundtrip_witness:
  "tenant_policy ''t''
     (fst (policy_Load (Stored \<lparr>file_Policies = Some (ps_policies sample_persisted), file_Prefs = Some (save_collect sample_persisted)\<rparr>)
        (SetPersistence ''p'' NewPolicyStore))) = sample_policy"
  using policy_persistence_roundtrip [OF _ _ sample_saved sample_persisted_def, of "''p''" "''t''"] sample_persisted_facts by simp

section \<open>Two writers\<close>

lemma save_collect_restore: "store_ok s \<Longrightarrow> map_of (restore_prefs (save_collect s)) = map_of (ps_prefs s)"
  using save_collect_lookup [of "ps_prefs s"] restore_lookup [of "save_collect s"] by (simp add: store_ok_def save_collect_def)

text \<open>
  Two preferences set at the same time can leave the file without one of them: when the first writer copies the preferences,
  the second one stores its preference, copies and writes the file, and the first one writes its older copy last, both calls have
  returned without error and the memory holds both, but after a restart the second preference is gone.
\<close>

theorem preference_lost_on_disk:
  fixes m1 x1 m2
  assumes "store_ok s" "ps_path s \<noteq> ''''" "(t1, u1) \<noteq> (t2, u2)" "map_of (ps_prefs s) (t2, u2) = None" "x2 \<noteq> ''''"
  defines "s1 \<equiv> writePreference t1 u1 m1 x1 s" and "s2 \<equiv> writePreference t2 u2 m2 x2 (writePreference t1 u1 m1 x1 s)"
  shows "UserPreference t2 u2 m2 s2 = x2 \<and>
    (\<exists>file. save_write True (save_collect s1) s2 (save_write True (save_collect s2) s2 old) = Some file \<and>
       UserPreference t2 u2 m2 (fst (policy_Load (Stored file) (SetPersistence (ps_path s) NewPolicyStore))) = '''')"
proof -
  have "store_ok s1" using assms(1) by (simp add: s1_def writePreference_def store_ok_def distinct_update)
  moreover have "map_of (ps_prefs s1) (t2, u2) = None"
    using assms(3,4) by (auto simp: s1_def writePreference_def update_conv')
  ultimately have "map_of (restore_prefs (save_collect s1)) (t2, u2) = None" by (simp add: save_collect_restore)
  then show ?thesis using assms(2)
    by (simp add: save_write_def policy_Load_def SetPersistence_def UserPreference_def user_modules_def get_str_def)
      (simp add: s2_def writePreference_def user_modules_def update_conv')
qed

theorem preference_lost_on_disk_witness:
  "\<exists>file. save_write True (save_collect (writePreference ''t'' ''u'' ''chat'' ''a'' sample_persisted))
       (writePreference ''t'' ''v'' ''chat'' ''b'' (writePreference ''t'' ''u'' ''chat'' ''a'' sample_persisted))
       (save_write True (save_collect (writePreference ''t'' ''v'' ''chat'' ''b'' (writePreference ''t'' ''u'' ''chat'' ''a'' sample_persisted)))
         (writePreference ''t'' ''v'' ''chat'' ''b'' (writePreference ''t'' ''u'' ''chat'' ''a'' sample_persisted)) None) = Some file \<and>
     UserPreference ''t'' ''v'' ''chat'' (fst (policy_Load (Stored file) (SetPersistence ''p'' NewPolicyStore))) = ''''"
proof -
  have ok: "store_ok sample_persisted" unfolding sample_persisted_def
    by (rule policies.run_inv) (simp add: store_ok_def SetPersistence_def NewPolicyStore_def)
  have "map_of (ps_prefs sample_persisted) (''t'', ''v'') = None" by code_simp
  then show ?thesis
    using preference_lost_on_disk [OF ok, of "''t''" "''u''" "''t''" "''v''" "''b''" "''chat''" "''chat''" "''a''"]
      sample_persisted_facts(1) by simp
qed

end
