(* ===== verification/Try_Quota.thy ===== *)
theory Try_Quota
  imports Gateway_Prelude "HOL-Library.AList"
begin

text \<open>
  Metering of product calls per identity subject: the usage store and the token verifiers (\<^verbatim>\<open>tryquota/tryquota.go\<close>) and the
  gate in front of the handlers (\<^verbatim>\<open>middleware/tryquota.go\<close>).

  The calendar of the process (\<^verbatim>\<open>time.Format\<close> and \<^verbatim>\<open>ISOWeek\<close> in the local zone) is the parameter \<open>cal\<close>; token parsing and
  the content of the key document are parameters.  The snapshot file is the value it encodes.
\<close>

section \<open>Windows\<close>

record calendar =
  cal_day :: "time \<Rightarrow> string"
  cal_month :: "time \<Rightarrow> string"
  cal_isoweek :: "time \<Rightarrow> int \<times> int"

definition DayKey :: "calendar \<Rightarrow> time \<Rightarrow> string" where
  "DayKey cal t = cal_day cal t"

definition fmt_02d :: "int \<Rightarrow> string" where
  "fmt_02d i = (if 0 \<le> i \<and> i < 10 then ''0'' @ fmt_d i else fmt_d i)"

definition WindowKey :: "calendar \<Rightarrow> time \<Rightarrow> string \<Rightarrow> string" where
  "WindowKey cal t window =
     (if window = ''weekly'' then (case cal_isoweek cal t of (y, w) \<Rightarrow> fmt_d y @ ''-W'' @ fmt_02d w)
      else if window = ''monthly'' then cal_month cal t
      else DayKey cal t)"

section \<open>Usage store\<close>

record CallDetail =
  cd_Time :: time
  cd_Model :: string
  cd_Backend :: string
  cd_Product :: string
  cd_Tokens :: int

record dayUse =
  du_Day :: string
  du_Total :: int
  du_Calls :: "CallDetail list"
  du_CallsCapped :: bool
  du_SoftAlerted :: bool

definition maxDetailPerDay :: nat where
  "maxDetailPerDay = 200"

record UsageStore =
  us_usage :: "(string \<times> dayUse) list"
  us_overrides :: "(string \<times> int) list"
  us_window :: string
  us_path :: string
  us_saveArmed :: bool

record usage_snapshot =
  sn_Usage :: "(string \<times> dayUse) list option"
  sn_Overrides :: "(string \<times> int) list option"

definition scheduleSave :: "UsageStore \<Rightarrow> UsageStore" where
  "scheduleSave s = (if us_path s = '''' then s else s\<lparr>us_saveArmed := True\<rparr>)"

text \<open>Missing and corrupt files are \<open>None\<close>.\<close>

definition usage_load :: "usage_snapshot option \<Rightarrow> UsageStore \<Rightarrow> UsageStore" where
  "usage_load snap s =
     (case snap of None \<Rightarrow> s
      | Some sn \<Rightarrow> s\<lparr>us_usage := (case sn_Usage sn of None \<Rightarrow> us_usage s | Some u \<Rightarrow> u),
                     us_overrides := (case sn_Overrides sn of None \<Rightarrow> us_overrides s | Some ov \<Rightarrow> ov)\<rparr>)"

definition NewUsageStore :: "string \<Rightarrow> usage_snapshot option \<Rightarrow> UsageStore" where
  "NewUsageStore path snap =
     (let s = \<lparr>us_usage = [], us_overrides = [], us_window = '''', us_path = path, us_saveArmed = False\<rparr>
      in if path \<noteq> '''' then usage_load snap s else s)"

definition usage_Save :: "bool \<Rightarrow> UsageStore \<Rightarrow> usage_snapshot option \<Rightarrow> usage_snapshot option" where
  "usage_Save ok s snap =
     (if us_path s = '''' then snap
      else if ok then Some \<lparr>sn_Usage = Some (us_usage s), sn_Overrides = Some (us_overrides s)\<rparr> else snap)"

definition usage_Flush :: "bool \<Rightarrow> UsageStore \<Rightarrow> usage_snapshot option \<Rightarrow> UsageStore \<times> usage_snapshot option" where
  "usage_Flush ok s snap =
     (if us_saveArmed s then (s\<lparr>us_saveArmed := False\<rparr>, usage_Save ok (s\<lparr>us_saveArmed := False\<rparr>) snap)
      else (s\<lparr>us_saveArmed := False\<rparr>, snap))"

definition SetWindow :: "string \<Rightarrow> UsageStore \<Rightarrow> UsageStore" where
  "SetWindow window s = (if window \<in> {'''', ''daily'', ''weekly'', ''monthly''} then s\<lparr>us_window := window\<rparr> else s)"

definition UsedToday :: "calendar \<Rightarrow> string \<Rightarrow> time \<Rightarrow> UsageStore \<Rightarrow> int" where
  "UsedToday cal sub now s =
     (case map_of (us_usage s) sub of
        None \<Rightarrow> 0
      | Some u \<Rightarrow> if du_Day u \<noteq> WindowKey cal now (us_window s) then 0 else du_Total u)"

definition freshUse :: "string \<Rightarrow> dayUse" where
  "freshUse key = \<lparr>du_Day = key, du_Total = 0, du_Calls = [], du_CallsCapped = False, du_SoftAlerted = False\<rparr>"

text \<open>The bucket of the current window, a fresh one when there is none.\<close>

definition currentUse :: "string \<Rightarrow> string \<Rightarrow> UsageStore \<Rightarrow> dayUse" where
  "currentUse key sub s =
     (case map_of (us_usage s) sub of None \<Rightarrow> freshUse key | Some u \<Rightarrow> if du_Day u \<noteq> key then freshUse key else u)"

definition MarkSoftAlerted :: "calendar \<Rightarrow> string \<Rightarrow> time \<Rightarrow> UsageStore \<Rightarrow> UsageStore \<times> bool" where
  "MarkSoftAlerted cal sub now s =
     (let u = currentUse (WindowKey cal now (us_window s)) sub s;
          s1 = s\<lparr>us_usage := AList.update sub u (us_usage s)\<rparr>
      in if du_SoftAlerted u then (s1, False)
         else (scheduleSave (s\<lparr>us_usage := AList.update sub (u\<lparr>du_SoftAlerted := True\<rparr>) (us_usage s)\<rparr>), True))"

definition usage_Record :: "calendar \<Rightarrow> string \<Rightarrow> int \<Rightarrow> CallDetail \<Rightarrow> time \<Rightarrow> UsageStore \<Rightarrow> UsageStore" where
  "usage_Record cal sub tokens detail0 now s =
     (if sub = '''' then s
      else
        (let detail = (if cd_Time detail0 = zero_time then detail0\<lparr>cd_Time := now\<rparr> else detail0);
             u = currentUse (WindowKey cal now (us_window s)) sub s;
             u1 = u\<lparr>du_Total := du_Total u + tokens\<rparr>;
             u2 = (if length (du_Calls u1) \<ge> maxDetailPerDay
                   then u1\<lparr>du_Calls := tl (du_Calls u1), du_CallsCapped := True\<rparr> else u1);
             u3 = u2\<lparr>du_Calls := du_Calls u2 @ [detail]\<rparr>
         in scheduleSave (s\<lparr>us_usage := AList.update sub u3 (us_usage s)\<rparr>)))"

definition SetBudgetOverride :: "string \<Rightarrow> int \<Rightarrow> UsageStore \<Rightarrow> UsageStore" where
  "SetBudgetOverride sub budget s =
     (if budget \<le> 0 then scheduleSave (s\<lparr>us_overrides := AList.delete sub (us_overrides s)\<rparr>)
      else scheduleSave (s\<lparr>us_overrides := AList.update sub budget (us_overrides s)\<rparr>))"

definition BudgetOverride :: "string \<Rightarrow> UsageStore \<Rightarrow> int option" where
  "BudgetOverride sub s = map_of (us_overrides s) sub"

record UsageRow =
  ur_Sub :: string
  ur_Day :: string
  ur_Used :: int
  ur_Budget :: int
  ur_Override :: int
  ur_Recent :: "CallDetail list"
  ur_LastSeen :: time
  ur_SoftAlerted :: bool

definition usageRow :: "string \<Rightarrow> UsageStore \<Rightarrow> string \<times> dayUse \<Rightarrow> UsageRow" where
  "usageRow day s e =
     (case e of (sub, u) \<Rightarrow>
        \<lparr>ur_Sub = sub, ur_Day = du_Day u, ur_Used = du_Total u, ur_Budget = 0, ur_Override = get_int (map_of (us_overrides s)) sub,
         ur_Recent = (if du_Day u = day then du_Calls u else []),
         ur_LastSeen = (if du_Day u = day \<and> du_Calls u \<noteq> [] then cd_Time (last (du_Calls u)) else zero_time),
         ur_SoftAlerted = du_SoftAlerted u\<rparr>)"

definition usage_Rows :: "calendar \<Rightarrow> ((string \<times> dayUse) list \<Rightarrow> (string \<times> dayUse) list) \<Rightarrow> time \<Rightarrow> (string \<Rightarrow> int) option \<Rightarrow>
    UsageStore \<Rightarrow> UsageRow list" where
  "usage_Rows cal it now budgetFn s =
     map (\<lambda>row. case budgetFn of None \<Rightarrow> row | Some f \<Rightarrow> row\<lparr>ur_Budget := f (ur_Sub row)\<rparr>)
       (map (usageRow (DayKey cal now) s) (iterate it (us_usage s)))"

section \<open>Verifiers\<close>

text \<open>
  A parsed token: its signing method, key id and claims.  \<open>parse\<close> stands for the signature and expiry check of the JWT library
  under the given method and key; it yields the \<^verbatim>\<open>sub\<close> claim.
\<close>

type_synonym ('t, 'k) jwt_parser = "'t \<Rightarrow> time \<Rightarrow> string \<Rightarrow> 'k \<Rightarrow> string option"

definition nonempty_sub :: "string option \<Rightarrow> string option" where
  "nonempty_sub claim = (case claim of None \<Rightarrow> None | Some sub \<Rightarrow> if sub = '''' then None else Some sub)"

definition HS256_Verify :: "('t, string) jwt_parser \<Rightarrow> string \<Rightarrow> 't \<Rightarrow> time \<Rightarrow> string option" where
  "HS256_Verify parse secret tok now = nonempty_sub (parse tok now ''HS256'' secret)"

record 'k RS256Verifier =
  rv_keys :: "string \<Rightarrow> 'k option"
  rv_fetchedAt :: time
  rv_refetchCooldown :: duration

definition NewRS256Verifier :: "'k RS256Verifier" where
  "NewRS256Verifier = \<lparr>rv_keys = Map.empty, rv_fetchedAt = zero_time, rv_refetchCooldown = 5 * second\<rparr>"

definition jwksRefreshInterval :: duration where
  "jwksRefreshInterval = 15 * minute"

record jwk =
  jwk_Kid :: string
  jwk_Kty :: string
  jwk_Use :: string
  jwk_N :: string
  jwk_E :: string

definition jwkToRSAPublicKey :: "(string \<Rightarrow> nat list option) \<Rightarrow> string \<Rightarrow> string \<Rightarrow> (nat \<times> nat) option" where
  "jwkToRSAPublicKey base64url nStr eStr =
     (case base64url nStr of
        None \<Rightarrow> None
      | Some nBytes \<Rightarrow>
          (case base64url eStr of
             None \<Rightarrow> None
           | Some eBytes \<Rightarrow>
               if nBytes = [] \<or> eBytes = [] \<or> length eBytes > 8 then None
               else (let setBytes = foldl (\<lambda>acc b. 256 * acc + b) 0; e = setBytes eBytes in
                     if e \<ge> 2 ^ 63 \<or> e \<le> 1 \<or> e > 2 ^ 31 - 1 then None else Some (setBytes nBytes, e))))"

definition jwksKeys :: "(string \<Rightarrow> nat list option) \<Rightarrow> jwk list \<Rightarrow> (string \<Rightarrow> (nat \<times> nat) option)" where
  "jwksKeys base64url doc =
     foldl (\<lambda>keys j.
        if jwk_Kty j \<noteq> ''RSA'' \<or> (jwk_Use j \<noteq> '''' \<and> jwk_Use j \<noteq> ''sig'') then keys
        else case jwkToRSAPublicKey base64url (jwk_N j) (jwk_E j) of None \<Rightarrow> keys | Some pub \<Rightarrow> keys(jwk_Kid j \<mapsto> pub))
       Map.empty doc"

text \<open>A fetch yields the key set of the document, or fails and leaves the verifier as it was.\<close>

definition rs256_fetch :: "time \<Rightarrow> (string \<Rightarrow> 'k option) option \<Rightarrow> 'k RS256Verifier \<Rightarrow> 'k RS256Verifier \<times> bool" where
  "rs256_fetch now answer v = (case answer of None \<Rightarrow> (v, False) | Some keys \<Rightarrow> (v\<lparr>rv_keys := keys, rv_fetchedAt := now\<rparr>, True))"

datatype 'k key_result = KeyFound 'k | KeyThrottled | KeyFetchFailed | KeyUnknown

text \<open>The last component tells whether the identity service was contacted.\<close>

definition rs256_key ::
    "time \<Rightarrow> (string \<Rightarrow> 'k option) option \<Rightarrow> string \<Rightarrow> 'k RS256Verifier \<Rightarrow> 'k RS256Verifier \<times> 'k key_result \<times> bool" where
  "rs256_key now answer kid v =
     (let age = now - rv_fetchedAt v in
      case rv_keys v kid of
        Some key \<Rightarrow>
          if age < jwksRefreshInterval then (v, KeyFound key, False)
          else (case rs256_fetch now answer v of
             (v1, False) \<Rightarrow> (v1, KeyFound key, True)
           | (v1, True) \<Rightarrow> (v1, (case rv_keys v1 kid of Some k \<Rightarrow> KeyFound k | None \<Rightarrow> KeyUnknown), True))
      | None \<Rightarrow>
          if age < rv_refetchCooldown v then (v, KeyThrottled, False)
          else (case rs256_fetch now answer v of
             (v1, False) \<Rightarrow> (v1, KeyFetchFailed, True)
           | (v1, True) \<Rightarrow> (v1, (case rv_keys v1 kid of Some k \<Rightarrow> KeyFound k | None \<Rightarrow> KeyUnknown), True)))"

section \<open>The gate\<close>

record TryQuotaSettings =
  ts_Enabled :: bool
  ts_Budget :: int
  ts_Algorithm :: string
  ts_Secret :: string
  ts_IdentityURL :: string
  ts_EstimateFallback :: int
  ts_SoftLimitPercent :: int

definition resolveAlgorithm :: "TryQuotaSettings \<Rightarrow> string" where
  "resolveAlgorithm s =
     (let a = ToLower (TrimSpace (ts_Algorithm s)) in
      if a = ''rs256'' then ''rs256''
      else if a = ''hs256'' then ''hs256''
      else if a = '''' then (if ts_Secret s \<noteq> '''' then ''hs256'' else ''rs256'')
      else '''')"

definition exactGatePaths :: "string list" where
  "exactGatePaths = [''/v1/chat/completions'', ''/v1/completions'', ''/v1/embeddings'', ''/v1/messages'', ''/v1/rerank'']"

definition prefixGatePaths :: "string list" where
  "prefixGatePaths = [''/v1/images/'', ''/v1/audio/'']"

definition gateApplies :: "string \<Rightarrow> bool" where
  "gateApplies path \<longleftrightarrow> path \<in> set exactGatePaths \<or> list_ex (HasPrefix path) prefixGatePaths"

text \<open>
  The outcome of the gate: pass without metering, admit under a subject and an estimate, refuse with 401 or 429, or the
  dereference of a meter that is nil.  An admission or a refusal may come with the soft-limit alert.
\<close>

datatype gate_outcome =
  GatePass
| GateAdmit string int
| GateUnauthorized string int
| GateExceeded int int int
| GatePanic

text \<open>The part of the gate that reads the meter.\<close>

definition gateMeter ::
    "calendar \<Rightarrow> TryQuotaSettings \<Rightarrow> int option \<Rightarrow> time \<Rightarrow> string \<Rightarrow> UsageStore \<Rightarrow> UsageStore \<times> gate_outcome \<times> bool" where
  "gateMeter cal settings estimate now sub s =
     (let budget = (case BudgetOverride sub s of Some b \<Rightarrow> b | None \<Rightarrow> ts_Budget settings);
          est = (case estimate of Some e \<Rightarrow> if e > 0 then e else ts_EstimateFallback settings | None \<Rightarrow> ts_EstimateFallback settings);
          used = UsedToday cal sub now s;
          soft = budget * ts_SoftLimitPercent settings div 100;
          (s1, alert) = (if ts_SoftLimitPercent settings > 0 \<and> budget > 0 \<and> soft > 0 \<and> used + est \<ge> soft
                         then MarkSoftAlerted cal sub now s else (s, False))
      in if used + est > budget then (s1, GateExceeded used budget est, alert) else (s1, GateAdmit sub est, alert))"

definition tryQuotaGate ::
    "calendar \<Rightarrow> TryQuotaSettings \<Rightarrow> (string \<Rightarrow> string option) \<Rightarrow> int option \<Rightarrow> time \<Rightarrow> string \<Rightarrow> bool \<Rightarrow> string \<Rightarrow>
      UsageStore option \<Rightarrow> UsageStore option \<times> gate_outcome \<times> bool" where
  "tryQuotaGate cal settings verify estimate now path isMaster header meter =
     (if \<not> gateApplies path then (meter, GatePass, False)
      else if \<not> ts_Enabled settings then (meter, GatePass, False)
      else if resolveAlgorithm settings = ''hs256'' \<and> ts_Secret settings = '''' then (meter, GatePass, False)
      else if resolveAlgorithm settings = '''' then (meter, GatePass, False)
      else if isMaster then (meter, GatePass, False)
      else if TrimSpace header = '''' then (meter, GateUnauthorized ''identity token required'' (ts_Budget settings), False)
      else case verify (TrimSpace header) of
        None \<Rightarrow> (meter, GateUnauthorized ''invalid identity token'' (ts_Budget settings), False)
      | Some sub \<Rightarrow>
          (case meter of
             None \<Rightarrow> (None, GatePanic, False)
           | Some s \<Rightarrow> (case gateMeter cal settings estimate now sub s of (s1, out, alert) \<Rightarrow> (Some s1, out, alert))))"

record RequestLog =
  lg_TryQuotaSub :: string
  lg_TryQuotaEst :: int
  lg_TotalTokens :: int
  lg_StatusCode :: int
  lg_Scenario :: string
  lg_Model :: string
  lg_ChannelType :: string

definition TryQuotaFinalize :: "calendar \<Rightarrow> time \<Rightarrow> RequestLog option \<Rightarrow> UsageStore option \<Rightarrow> UsageStore option" where
  "TryQuotaFinalize cal now entry0 meter =
     (case (meter, entry0) of
        (Some s, Some entry) \<Rightarrow>
          if lg_TryQuotaSub entry = '''' then meter
          else if lg_TotalTokens entry \<le> 0 \<and> lg_StatusCode entry \<ge> 400 then meter
          else
            (let tokens = (if lg_TotalTokens entry \<le> 0 then lg_TryQuotaEst entry else lg_TotalTokens entry);
                 prod = (if lg_Scenario entry \<noteq> '''' then lg_Scenario entry else ''web'')
             in Some (usage_Record cal (lg_TryQuotaSub entry) tokens
                  \<lparr>cd_Time = now, cd_Model = lg_Model entry, cd_Backend = lg_ChannelType entry, cd_Product = prod, cd_Tokens = tokens\<rparr>
                  now s))
      | _ \<Rightarrow> meter)"

section \<open>Usage of a window\<close>

datatype usage_event =
  UseRecord string int CallDetail
| UseAlert string
| UseOverride string int

definition concerns :: "string \<Rightarrow> usage_event \<Rightarrow> bool" where
  "concerns sub e \<longleftrightarrow> (case e of UseRecord x n d \<Rightarrow> x = sub | UseAlert x \<Rightarrow> x = sub | UseOverride x b \<Rightarrow> False)"

fun event_tokens :: "usage_event \<Rightarrow> int" where
  "event_tokens (UseRecord sub n d) = n"
| "event_tokens e = 0"

fun usage_step :: "calendar \<Rightarrow> UsageStore \<Rightarrow> time \<times> usage_event \<Rightarrow> UsageStore" where
  "usage_step cal s (now, UseRecord sub n d) = usage_Record cal sub n d now s"
| "usage_step cal s (now, UseAlert sub) = fst (MarkSoftAlerted cal sub now s)"
| "usage_step cal s (now, UseOverride sub b) = SetBudgetOverride sub b s"

text \<open>The events of a subject, the latest first, back to the last change of the window.\<close>

definition window_events :: "calendar \<Rightarrow> string \<Rightarrow> string \<Rightarrow> string \<Rightarrow> (time \<times> usage_event) list \<Rightarrow> usage_event list" where
  "window_events cal w key sub evs =
     map snd (takeWhile (\<lambda>x. WindowKey cal (fst x) w = key) (rev (filter (\<lambda>x. concerns sub (snd x)) evs)))"

definition use_sum :: "usage_event list \<Rightarrow> int" where
  "use_sum es = sum_list (map event_tokens es)"

definition use_alerted :: "usage_event list \<Rightarrow> bool" where
  "use_alerted es \<longleftrightarrow> list_ex (\<lambda>e. case e of UseAlert x \<Rightarrow> True | _ \<Rightarrow> False) es"

lemma window_events_snoc:
  "window_events cal w key sub (evs @ [x]) =
     (if concerns sub (snd x)
      then (if WindowKey cal (fst x) w = key then snd x # window_events cal w key sub evs else [])
      else window_events cal w key sub evs)"
  by (simp add: window_events_def)

lemma scheduleSave_simps [simp]:
  "us_usage (scheduleSave s) = us_usage s" "us_window (scheduleSave s) = us_window s"
  "us_overrides (scheduleSave s) = us_overrides s"
  by (simp_all add: scheduleSave_def)

lemma usage_step_window [simp]: "us_window (usage_step cal s x) = us_window s"
  by (cases x; cases "snd x") (auto simp: usage_Record_def MarkSoftAlerted_def SetBudgetOverride_def Let_def)

lemma run_window [simp]: "us_window (run_steps (usage_step cal) s evs) = us_window s"
  by (induction evs arbitrary: s) simp_all

text \<open>What the store knows of a subject after a history: the bucket of the window of its last event.\<close>

definition bucket_ok :: "calendar \<Rightarrow> string \<Rightarrow> (time \<times> usage_event) list \<Rightarrow> UsageStore \<Rightarrow> bool" where
  "bucket_ok cal sub evs s \<longleftrightarrow>
     (\<forall>key. let u = currentUse key sub s; es = window_events cal (us_window s) key sub evs in
        du_Day u = key \<and> du_Total u = use_sum es \<and> du_SoftAlerted u = use_alerted es \<and> length (du_Calls u) \<le> maxDetailPerDay)"

lemma currentUse_update:
  "currentUse key sub (s\<lparr>us_usage := AList.update sub' u us\<rparr>) =
     (if sub = sub' then (if du_Day u = key then u else freshUse key)
      else currentUse key sub (s\<lparr>us_usage := us\<rparr>))"
  by (simp add: currentUse_def update_conv')

lemma currentUse_schedule [simp]: "currentUse key sub (scheduleSave s) = currentUse key sub s"
  by (simp add: currentUse_def)

lemma currentUse_day [simp]: "du_Day (currentUse key sub s) = key"
  by (simp add: currentUse_def freshUse_def split: option.split)

lemma fresh_facts [simp]:
  "du_Total (freshUse k) = 0" "\<not> du_SoftAlerted (freshUse k)" "du_Calls (freshUse k) = []" "du_Day (freshUse k) = k"
  by (simp_all add: freshUse_def)

lemma use_simps [simp]:
  "use_sum [] = 0" "use_sum (e # es) = event_tokens e + use_sum es" "\<not> use_alerted []"
  "use_alerted (UseAlert x # es)" "use_alerted (UseRecord x n d # es) = use_alerted es"
  by (simp_all add: use_sum_def use_alerted_def)

lemma bucket_ok_step:
  assumes "bucket_ok cal sub evs s" "sub \<noteq> ''''"
  shows "bucket_ok cal sub (evs @ [x]) (usage_step cal s x)"
proof -
  obtain now e where x: "x = (now, e)" by (cases x)
  have ring: "length (du_Calls (currentUse (WindowKey cal now (us_window s)) sub s)) - Suc 0 \<le> 199"
    using assms(1) by (simp add: bucket_ok_def Let_def maxDetailPerDay_def le_diff_conv)
  show ?thesis
  proof (cases e)
    case (UseRecord y n d)
    then show ?thesis using assms x ring
      by (auto simp: bucket_ok_def usage_Record_def Let_def window_events_snoc concerns_def currentUse_update maxDetailPerDay_def)
  next
    case (UseAlert y)
    then show ?thesis using assms x
      by (auto simp: bucket_ok_def MarkSoftAlerted_def Let_def window_events_snoc concerns_def currentUse_update)
  next
    case (UseOverride y b)
    then show ?thesis using assms x
      by (auto simp: bucket_ok_def SetBudgetOverride_def Let_def window_events_snoc concerns_def currentUse_def)
  qed
qed

lemma bucket_ok_run: "sub \<noteq> '''' \<Longrightarrow> us_usage s0 = [] \<Longrightarrow> bucket_ok cal sub evs (run_steps (usage_step cal) s0 evs)"
proof (induction evs rule: rev_induct)
  case Nil
  then show ?case by (simp add: bucket_ok_def currentUse_def window_events_def Let_def)
next
  case (snoc x evs)
  then show ?case using bucket_ok_step by simp
qed

lemma UsedToday_current: "UsedToday cal sub now s = du_Total (currentUse (WindowKey cal now (us_window s)) sub s)"
  by (simp add: UsedToday_def currentUse_def split: option.split)

text \<open>
  The meter is exact although it keeps one bucket per subject and at most 200 call details: after any history of recorded
  calls, alerts and budget overrides of all subjects, the usage of a subject in the current window is the sum of the tokens
  recorded for it since the window last changed, and a soft-limit alert fires exactly when none has fired in that window.
\<close>

theorem usage_window_exact:
  fixes evs now cal
  assumes "sub \<noteq> ''''" "us_usage s0 = []"
  defines "s \<equiv> run_steps (usage_step cal) s0 evs"
    and "es \<equiv> window_events cal (us_window s0) (WindowKey cal now (us_window s0)) sub evs"
  shows "UsedToday cal sub now s = use_sum es \<and> snd (MarkSoftAlerted cal sub now s) = (\<not> use_alerted es) \<and>
    (case map_of (us_usage s) sub of None \<Rightarrow> True | Some u \<Rightarrow> length (du_Calls u) \<le> maxDetailPerDay)"
proof -
  have b: "bucket_ok cal sub evs s" unfolding s_def by (rule bucket_ok_run [OF assms(1,2)])
  have w: "us_window s = us_window s0" by (simp add: s_def)
  have "length (du_Calls u) \<le> maxDetailPerDay" if "map_of (us_usage s) sub = Some u" for u
    using b [unfolded bucket_ok_def, rule_format, of "du_Day u"] that by (simp add: currentUse_def Let_def)
  then show ?thesis
    using b [unfolded bucket_ok_def, rule_format, of "WindowKey cal now (us_window s)"]
    by (simp add: UsedToday_current MarkSoftAlerted_def Let_def es_def w split: option.split)
qed

definition day_calendar :: calendar where
  "day_calendar = \<lparr>cal_day = (\<lambda>t. fmt_d (t div 100)), cal_month = (\<lambda>t. ''m''), cal_isoweek = (\<lambda>t. (2026, 5))\<rparr>"

definition plain_call :: CallDetail where
  "plain_call = \<lparr>cd_Time = 1, cd_Model = ''m'', cd_Backend = ''local'', cd_Product = ''web'', cd_Tokens = 0\<rparr>"

definition usage_history :: "(time \<times> usage_event) list" where
  "usage_history = [(10, UseRecord ''u'' 70 plain_call), (110, UseRecord ''u'' 30 plain_call), (120, UseRecord ''v'' 9 plain_call),
     (130, UseAlert ''u''), (140, UseRecord ''u'' 5 plain_call)]"

lemma usage_history_window:
  "window_events day_calendar '''' (WindowKey day_calendar 150 '''') ''u'' usage_history =
     [UseRecord ''u'' 5 plain_call, UseAlert ''u'', UseRecord ''u'' 30 plain_call]"
  by code_simp

theorem usage_window_exact_witness:
  "UsedToday day_calendar ''u'' 150 (run_steps (usage_step day_calendar) (NewUsageStore '''' None) usage_history) = 35 \<and>
   \<not> snd (MarkSoftAlerted day_calendar ''u'' 150 (run_steps (usage_step day_calendar) (NewUsageStore '''' None) usage_history))"
  using usage_window_exact [where sub = "''u''" and ?s0.0 = "NewUsageStore '''' None" and cal = day_calendar
      and evs = usage_history and now = 150]
  by (simp add: NewUsageStore_def usage_history_window)

section \<open>How far a budget can be overrun\<close>

text \<open>
  Requests within one window, with those in flight: a request is admitted by the gate or refused, and a finished one is settled with whatever tokens its log
  entry carries.  Many requests may pass the gate before the first of them is settled, and the tokens of an answer may exceed the estimate of its prompt.
\<close>

definition settled_tokens :: "RequestLog \<Rightarrow> int" where
  "settled_tokens entry =
     (if 0 < lg_TotalTokens entry then lg_TotalTokens entry else if 400 \<le> lg_StatusCode entry then 0 else lg_TryQuotaEst entry)"

text \<open>The label of a step is the number of tokens a finished request has consumed.\<close>

inductive metered :: "calendar \<Rightarrow> TryQuotaSettings \<Rightarrow> (string \<Rightarrow> string option) \<Rightarrow> string \<Rightarrow> int \<Rightarrow>
    UsageStore \<times> (string \<times> int) list \<Rightarrow> UsageStore \<times> (string \<times> int) list \<Rightarrow> bool"
  for cal settings verify key where
  admit: "tryQuotaGate cal settings verify estimate now path isMaster header (Some s) = (Some s', GateAdmit sub est, alert) \<Longrightarrow>
    WindowKey cal now (us_window s) = key \<Longrightarrow> metered cal settings verify key 0 (s, fl) (s', (sub, est) # fl)"
| refused: "tryQuotaGate cal settings verify estimate now path isMaster header (Some s) = (Some s', out, alert) \<Longrightarrow>
    (\<And>sub est. out \<noteq> GateAdmit sub est) \<Longrightarrow> WindowKey cal now (us_window s) = key \<Longrightarrow>
    metered cal settings verify key 0 (s, fl) (s', fl)"
| finish: "(lg_TryQuotaSub entry, lg_TryQuotaEst entry) \<in> set fl \<Longrightarrow>
    TryQuotaFinalize cal now (Some entry) (Some s) = Some s' \<Longrightarrow> WindowKey cal now (us_window s) = key \<Longrightarrow>
    metered cal settings verify key (settled_tokens entry) (s, fl) (s', remove1 (lg_TryQuotaSub entry, lg_TryQuotaEst entry) fl)"

inductive_cases metered_cases: "metered cal settings verify key c a b"

definition in_flight :: "string \<Rightarrow> (string \<times> int) list \<Rightarrow> nat" where
  "in_flight sub fl = length (filter (\<lambda>x. fst x = sub) fl)"

definition user_budget :: "TryQuotaSettings \<Rightarrow> string \<Rightarrow> UsageStore \<Rightarrow> int" where
  "user_budget settings sub s = (case BudgetOverride sub s of Some b \<Rightarrow> b | None \<Rightarrow> ts_Budget settings)"

abbreviation used_in :: "string \<Rightarrow> string \<Rightarrow> UsageStore \<Rightarrow> int" where
  "used_in key sub s \<equiv> du_Total (currentUse key sub s)"

text \<open>A step that keeps at most \<open>k\<close> requests of the subject in flight and consumes at most \<open>M\<close> tokens.\<close>

definition metered_within :: "calendar \<Rightarrow> TryQuotaSettings \<Rightarrow> (string \<Rightarrow> string option) \<Rightarrow> string \<Rightarrow> nat \<Rightarrow> int \<Rightarrow> string \<Rightarrow>
    UsageStore \<times> (string \<times> int) list \<Rightarrow> UsageStore \<times> (string \<times> int) list \<Rightarrow> bool" where
  "metered_within cal settings verify key k M sub st st' \<longleftrightarrow>
     (\<exists>c \<le> M. metered cal settings verify key c st st') \<and> in_flight sub (snd st') \<le> k"

lemma Mark_frame:
  "us_window (fst (MarkSoftAlerted cal sub' now s)) = us_window s"
  "us_overrides (fst (MarkSoftAlerted cal sub' now s)) = us_overrides s"
  "WindowKey cal now (us_window s) = key \<Longrightarrow> used_in key sub (fst (MarkSoftAlerted cal sub' now s)) = used_in key sub s"
  by (auto simp: MarkSoftAlerted_def Let_def currentUse_update)

lemma gateMeter_store: "fst (gateMeter cal settings estimate now sub s) \<in> {s, fst (MarkSoftAlerted cal sub now s)}"
  by (auto simp: gateMeter_def Let_def split: prod.splits if_splits)

lemma gate_store:
  assumes "tryQuotaGate cal settings verify estimate now path isMaster header (Some s) = (Some s', out, alert)"
  shows "s' = s \<or> (\<exists>sub. s' = fst (MarkSoftAlerted cal sub now s))"
  using assms gateMeter_store [of cal settings estimate now _ s]
  by (auto simp: tryQuotaGate_def split: if_splits option.splits prod.splits)
    (metis fst_conv)+

lemma gate_frame:
  assumes "tryQuotaGate cal settings verify estimate now path isMaster header (Some s) = (Some s', out, alert)"
  shows "us_window s' = us_window s" "us_overrides s' = us_overrides s"
    "WindowKey cal now (us_window s) = key \<Longrightarrow> used_in key sub s' = used_in key sub s"
  using gate_store [OF assms] Mark_frame by auto

lemma gate_admits:
  assumes "tryQuotaGate cal settings verify estimate now path isMaster header (Some s) = (Some s', GateAdmit sub est, alert)"
    and "0 \<le> ts_EstimateFallback settings" "WindowKey cal now (us_window s) = key"
  shows "used_in key sub s + est \<le> user_budget settings sub s" "0 \<le> est" "verify (TrimSpace header) = Some sub"
  using assms
  by (auto simp: tryQuotaGate_def gateMeter_def Let_def user_budget_def UsedToday_current
      split: if_splits option.splits prod.splits)

lemma finalize_frame:
  assumes "TryQuotaFinalize cal now (Some entry) (Some s) = Some s'" "WindowKey cal now (us_window s) = key"
  shows "us_window s' = us_window s" "us_overrides s' = us_overrides s"
    "used_in key sub s' = used_in key sub s + (if lg_TryQuotaSub entry = sub \<and> sub \<noteq> '''' then settled_tokens entry else 0)"
  using assms by (auto simp: TryQuotaFinalize_def settled_tokens_def usage_Record_def Let_def currentUse_update split: if_splits)

lemma in_flight_simps [simp]:
  "in_flight sub [] = 0" "in_flight sub (x # fl) = (if fst x = sub then Suc (in_flight sub fl) else in_flight sub fl)"
  by (simp_all add: in_flight_def)

lemma in_flight_remove:
  "(a, e) \<in> set fl \<Longrightarrow> int (in_flight sub (remove1 (a, e) fl)) = int (in_flight sub fl) - (if a = sub then 1 else 0)"
  by (induction fl) auto

text \<open>The invariant: usage and what the requests in flight may still add stay within the budget and \<open>k\<close> charges.\<close>

definition meter_inv :: "TryQuotaSettings \<Rightarrow> string \<Rightarrow> int \<Rightarrow> nat \<Rightarrow> int \<Rightarrow> string \<Rightarrow> string \<Rightarrow> UsageStore \<times> (string \<times> int) list \<Rightarrow> bool" where
  "meter_inv settings w B k M key sub st \<longleftrightarrow>
     (case st of (s, fl) \<Rightarrow> us_window s = w \<and> user_budget settings sub s = B \<and>
        used_in key sub s + int (in_flight sub fl) * M \<le> B + int k * M)"

lemma meter_inv_step:
  assumes "metered cal settings verify key c st st'" "c \<le> M" "in_flight sub (snd st') \<le> k" "0 \<le> ts_EstimateFallback settings" "0 \<le> M"
    and inv: "meter_inv settings w B k M key sub st"
  shows "meter_inv settings w B k M key sub st'"
  using assms(1)
proof (cases rule: metered.cases)
  case (admit estimate now path isMaster header s s' sub' est alert fl)
  note g = gate_frame [OF admit(4)] gate_admits [OF admit(4) assms(4) admit(5)]
  show ?thesis
  proof (cases "sub' = sub")
    case True
    then have "used_in key sub s' \<le> user_budget settings sub s" using g(3) [OF admit(5), of sub] g(4,5) by simp
    moreover have "int (in_flight sub (snd st')) * M \<le> int k * M" using assms(3,5) by (intro mult_right_mono) simp_all
    ultimately show ?thesis using inv g(1,2) admit(2,3) by (simp add: meter_inv_def user_budget_def BudgetOverride_def)
  next
    case False
    then show ?thesis using inv g(1,2) g(3) [OF admit(5), of sub] admit(2,3)
      by (simp add: meter_inv_def user_budget_def BudgetOverride_def)
  qed
next
  case (refused estimate now path isMaster header s s' out alert fl)
  then show ?thesis using inv gate_frame [OF refused(4)] by (simp add: meter_inv_def user_budget_def BudgetOverride_def)
next
  case (finish entry fl now s s')
  note f = finalize_frame [OF finish(5,6)]
  have b: "used_in key sub s' \<le> used_in key sub s + (if lg_TryQuotaSub entry = sub then M else 0)"
    using assms(2,5) finish(1) f(3) [of sub] by simp
  have "int (in_flight sub (snd st')) * M = int (in_flight sub fl) * M - (if lg_TryQuotaSub entry = sub then M else 0)"
    unfolding finish(3) using in_flight_remove [OF finish(4), of sub] by (simp add: left_diff_distrib)
  then show ?thesis using inv f(1,2) b finish(2,3) by (simp add: meter_inv_def user_budget_def BudgetOverride_def)
qed


definition quota_settings :: TryQuotaSettings where
  "quota_settings = \<lparr>ts_Enabled = True, ts_Budget = 100, ts_Algorithm = ''HS256'', ts_Secret = ''k'', ts_IdentityURL = '''',
     ts_EstimateFallback = 10, ts_SoftLimitPercent = 50\<rparr>"

definition quota_admit :: "UsageStore \<Rightarrow> UsageStore" where
  "quota_admit s = the (fst (tryQuotaGate day_calendar quota_settings Some (Some 60) 10 ''/v1/embeddings'' False ''u'' (Some s)))"

definition quota_entry :: RequestLog where
  "quota_entry = \<lparr>lg_TryQuotaSub = ''u'', lg_TryQuotaEst = 60, lg_TotalTokens = 90, lg_StatusCode = 200, lg_Scenario = '''', lg_Model = ''m'', lg_ChannelType = ''cloud''\<rparr>"

definition quota_finish :: "UsageStore \<Rightarrow> UsageStore" where
  "quota_finish s = the (TryQuotaFinalize day_calendar 10 (Some quota_entry) (Some s))"

abbreviation (input) quota_two :: UsageStore where
  "quota_two \<equiv> quota_admit (quota_admit (NewUsageStore '''' None))"

lemma quota_admits:
  "tryQuotaGate day_calendar quota_settings Some (Some 60) 10 ''/v1/embeddings'' False ''u'' (Some (NewUsageStore '''' None)) =
     (Some (quota_admit (NewUsageStore '''' None)), GateAdmit ''u'' 60, True)"
  "tryQuotaGate day_calendar quota_settings Some (Some 60) 10 ''/v1/embeddings'' False ''u'' (Some (quota_admit (NewUsageStore '''' None))) =
     (Some quota_two, GateAdmit ''u'' 60, False)"
  by code_simp+

lemma quota_finishes: "TryQuotaFinalize day_calendar 10 (Some quota_entry) (Some s) = Some (quota_finish s)"
  by (simp add: quota_finish_def TryQuotaFinalize_def quota_entry_def Let_def)


text \<open>
  Enabling the meter by a reload breaks the gated routes: the server creates the store only when the meter is enabled at
  start, so with it nil every gated request of a non-master principal whose identity token verifies dereferences nil, although
  the gate is documented to run with metering disabled.
\<close>

theorem nil_meter_panics:
  assumes "gateApplies path" "ts_Enabled settings" "resolveAlgorithm settings \<noteq> ''''"
    "resolveAlgorithm settings = ''hs256'' \<longrightarrow> ts_Secret settings \<noteq> ''''" "TrimSpace header \<noteq> ''''"
    "verify (TrimSpace header) = Some sub"
  shows "tryQuotaGate cal settings verify estimate now path False header None = (None, GatePanic, False)"
  using assms by (auto simp: tryQuotaGate_def)

theorem nil_meter_panics_witness:
  "tryQuotaGate day_calendar quota_settings Some None 0 ''/v1/rerank'' False ''tok'' None = (None, GatePanic, False)"
  by (rule nil_meter_panics [of _ _ _ _ "''tok''"]) code_simp+

section \<open>Key refresh\<close>

text \<open>Probes with a key id the verifier does not know; the fetch of each probe and the instants are given.\<close>

fun probe_fetches :: "'k RS256Verifier \<Rightarrow> (time \<times> string \<times> (string \<Rightarrow> 'k option) option) list \<Rightarrow> bool list" where
  "probe_fetches v [] = []"
| "probe_fetches v ((now, kid, answer) # ps) =
     (case rs256_key now answer kid v of (v1, res, fetched) \<Rightarrow> fetched # probe_fetches v1 ps)"

lemma failed_fetch_state: "rs256_key now None kid v = (v1, res, fetched) \<Longrightarrow> v1 = v"
  by (auto simp: rs256_key_def rs256_fetch_def Let_def split: option.splits if_splits)

text \<open>
  The cooldown between fetches of the key set does not hold while the identity service is failing: a failed fetch does not
  move the time of the last fetch, so once the cooldown has passed since the last success, every probe with an unknown key id
  contacts the service, however many there are and however close together; after a success no such probe does until the
  cooldown has passed.
\<close>

theorem failed_fetch_not_throttled:
  assumes "\<forall>p \<in> set ps. rv_keys v (fst (snd p)) = None \<and> snd (snd p) = None \<and> rv_fetchedAt v + rv_refetchCooldown v \<le> fst p"
  shows "probe_fetches v ps = replicate (length ps) True \<and>
    (rv_keys v kid = None \<and> now < rv_fetchedAt v + rv_refetchCooldown v \<longrightarrow> probe_fetches v [(now, kid, answer)] = [False])"
proof
  show "probe_fetches v ps = replicate (length ps) True"
    using assms
  proof (induction ps)
    case (Cons p ps)
    obtain t k a where p: "p = (t, k, a)" by (cases p)
    then have "rs256_key t a k v = (v, KeyFetchFailed, True)"
      using Cons.prems by (simp add: rs256_key_def rs256_fetch_def Let_def)
    then show ?case using Cons p by simp
  qed simp
  show "rv_keys v kid = None \<and> now < rv_fetchedAt v + rv_refetchCooldown v \<longrightarrow> probe_fetches v [(now, kid, answer)] = [False]"
    by (simp add: rs256_key_def Let_def)
qed

theorem failed_fetch_not_throttled_witness:
  "probe_fetches (NewRS256Verifier :: nat RS256Verifier) [(9000000000, ''x'', None), (9000000001, ''y'', None)] = [True, True]"
  using failed_fetch_not_throttled [of "[(9000000000, ''x'', None), (9000000001, ''y'', None)]" "NewRS256Verifier :: nat RS256Verifier"]
  by (simp add: NewRS256Verifier_def second_def)

end
