(* ===== verification/Key_Store.thy ===== *)
theory Key_Store
  imports Gateway_Prelude "HOL-Library.AList"
begin

text \<open>
  The in-memory store of API keys (\<^verbatim>\<open>store/memory/keys.go\<close>) with the part of the persister that writes and reads
  \<^verbatim>\<open>keys.json\<close> (\<^verbatim>\<open>store/memory/persist.go\<close>).

  Keys are stored under their name; a second map indexes them by the hash of the current and of the previous credential.  The
  interface \<open>key_lookup\<close> is what the authentication middleware relies on: a lookup by hash only returns a key that carries the
  hash.  The store provides it for every history that does not reuse the name of a deleted key.
\<close>

section \<open>Operations\<close>

record APIKeyEntry =
  ke_Name :: string
  ke_KeyPrefix :: string
  ke_KeyHash :: string
  ke_Status :: string
  ke_QuotaLimit :: float64
  ke_QuotaUsed :: float64
  ke_QuotaRemaining :: float64
  ke_AllowedModels :: "string list"
  ke_RPM :: int
  ke_TPM :: int
  ke_ExpiresAt :: "time option"
  ke_BudgetLimit :: float64
  ke_DailyBudgetLimit :: float64
  ke_DailyUsed :: float64
  ke_DailyDate :: string
  ke_AllowedBackends :: "string list"
  ke_ModelModules :: "string list"
  ke_Scopes :: "string list"
  ke_KeyPrevHash :: string
  ke_KeyRotatedAt :: "time option"
  ke_Metadata :: "(string \<times> string) list"
  ke_CreatedAt :: time
  ke_UpdatedAt :: time

record KeyStore =
  kst_keys :: "(string \<times> APIKeyEntry) list"
  kst_byHash :: "string \<Rightarrow> string option"

datatype key_error = KeyNotFound string | KeyExists string

definition NewKeyStore :: KeyStore where
  "NewKeyStore = \<lparr>kst_keys = [], kst_byHash = Map.empty\<rparr>"

definition keys_List :: "((string \<times> APIKeyEntry) list \<Rightarrow> (string \<times> APIKeyEntry) list) \<Rightarrow> KeyStore \<Rightarrow> APIKeyEntry list" where
  "keys_List it s = map snd (iterate it (kst_keys s))"

definition keys_Get :: "string \<Rightarrow> KeyStore \<Rightarrow> key_error + APIKeyEntry" where
  "keys_Get name s = (case map_of (kst_keys s) name of None \<Rightarrow> Inl (KeyNotFound name) | Some k \<Rightarrow> Inr k)"

definition keys_GetByHash :: "string \<Rightarrow> KeyStore \<Rightarrow> APIKeyEntry option" where
  "keys_GetByHash hash s = (case kst_byHash s hash of None \<Rightarrow> None | Some name \<Rightarrow> map_of (kst_keys s) name)"

text \<open>Both hashes of a key point to its name.\<close>

definition indexKey :: "APIKeyEntry \<Rightarrow> (string \<Rightarrow> string option) \<Rightarrow> string \<Rightarrow> string option" where
  "indexKey key m =
     (let m1 = (if ke_KeyHash key \<noteq> '''' then m(ke_KeyHash key \<mapsto> ke_Name key) else m)
      in if ke_KeyPrevHash key \<noteq> '''' \<and> ke_KeyPrevHash key \<noteq> ke_KeyHash key then m1(ke_KeyPrevHash key \<mapsto> ke_Name key) else m1)"

definition keys_Create :: "time \<Rightarrow> APIKeyEntry \<Rightarrow> KeyStore \<Rightarrow> KeyStore \<times> key_error option" where
  "keys_Create now key0 s =
     (if map_of (kst_keys s) (ke_Name key0) \<noteq> None then (s, Some (KeyExists (ke_Name key0)))
      else
        (let key = key0\<lparr>ke_CreatedAt := now, ke_UpdatedAt := now,
                        ke_Status := (if ke_Status key0 = '''' then ''active'' else ke_Status key0),
                        ke_QuotaRemaining := ke_QuotaLimit key0 - ke_QuotaUsed key0\<rparr>
         in (s\<lparr>kst_keys := AList.update (ke_Name key) key (kst_keys s), kst_byHash := indexKey key (kst_byHash s)\<rparr>, None)))"

definition unindexOld :: "APIKeyEntry \<Rightarrow> APIKeyEntry \<Rightarrow> (string \<Rightarrow> string option) \<Rightarrow> string \<Rightarrow> string option" where
  "unindexOld old key m =
     (let m1 = (if ke_KeyHash old \<noteq> '''' \<and> ke_KeyHash old \<noteq> ke_KeyHash key then m(ke_KeyHash old := None) else m)
      in if ke_KeyPrevHash old \<noteq> '''' \<and> ke_KeyPrevHash old \<noteq> ke_KeyPrevHash key then m1(ke_KeyPrevHash old := None) else m1)"

definition keys_Update :: "time \<Rightarrow> APIKeyEntry \<Rightarrow> KeyStore \<Rightarrow> KeyStore \<times> key_error option" where
  "keys_Update now key0 s =
     (case map_of (kst_keys s) (ke_Name key0) of
        None \<Rightarrow> (s, Some (KeyNotFound (ke_Name key0)))
      | Some old \<Rightarrow>
          (let key = key0\<lparr>ke_UpdatedAt := now, ke_QuotaRemaining := ke_QuotaLimit key0 - ke_QuotaUsed key0\<rparr>
           in (s\<lparr>kst_keys := AList.update (ke_Name key) key (kst_keys s),
                 kst_byHash := indexKey key (unindexOld old key (kst_byHash s))\<rparr>, None)))"

text \<open>Only the current hash is removed from the index.\<close>

definition keys_Delete :: "string \<Rightarrow> KeyStore \<Rightarrow> KeyStore \<times> key_error option" where
  "keys_Delete name s =
     (case map_of (kst_keys s) name of
        None \<Rightarrow> (s, Some (KeyNotFound name))
      | Some k \<Rightarrow>
          (s\<lparr>kst_keys := AList.delete name (kst_keys s),
             kst_byHash := (if ke_KeyHash k \<noteq> '''' then (kst_byHash s)(ke_KeyHash k := None) else kst_byHash s)\<rparr>, None))"

definition UpdateUsage :: "string \<Rightarrow> float64 \<Rightarrow> float64 \<Rightarrow> float64 \<Rightarrow> string \<Rightarrow> KeyStore \<Rightarrow> KeyStore" where
  "UpdateUsage name quotaUsed quotaRemaining dailyUsed dailyDate s =
     (case map_of (kst_keys s) name of
        None \<Rightarrow> s
      | Some k \<Rightarrow> s\<lparr>kst_keys := AList.update name (k\<lparr>ke_QuotaUsed := quotaUsed, ke_QuotaRemaining := quotaRemaining,
             ke_DailyUsed := dailyUsed, ke_DailyDate := dailyDate\<rparr>) (kst_keys s)\<rparr>)"

definition loadKey :: "string \<Rightarrow> APIKeyEntry \<Rightarrow> KeyStore \<Rightarrow> KeyStore" where
  "loadKey name k s =
     s\<lparr>kst_keys := AList.update name k (kst_keys s),
       kst_byHash := (if ke_KeyHash k \<noteq> '''' then (kst_byHash s)(ke_KeyHash k \<mapsto> name) else kst_byHash s)\<rparr>"

definition keys_LoadFromConfig :: "(string \<times> APIKeyEntry) list \<Rightarrow> KeyStore \<Rightarrow> KeyStore" where
  "keys_LoadFromConfig ks s = foldl (\<lambda>s (name, k). loadKey name k s) s ks"

text \<open>
  The file \<^verbatim>\<open>keys.json\<close> is the list of the entries it encodes; a missing file is \<open>None\<close>.  A file that does not parse is
  renamed and leaves the store as it was.
\<close>

definition SaveKeys :: "((string \<times> APIKeyEntry) list \<Rightarrow> (string \<times> APIKeyEntry) list) \<Rightarrow> string \<Rightarrow> bool \<Rightarrow> KeyStore \<Rightarrow>
    APIKeyEntry list option \<Rightarrow> APIKeyEntry list option" where
  "SaveKeys it dataDir ok s disk = (if dataDir = '''' then disk else if ok then Some (keys_List it s) else disk)"

datatype keys_file = KeysMissing | KeysUnreadable | KeysCorrupt | KeysStored "APIKeyEntry list"

definition loadKeys :: "keys_file \<Rightarrow> KeyStore \<Rightarrow> KeyStore \<times> bool" where
  "loadKeys disk s =
     (case disk of
        KeysMissing \<Rightarrow> (s, True)
      | KeysUnreadable \<Rightarrow> (s, False)
      | KeysCorrupt \<Rightarrow> (s, False)
      | KeysStored entries \<Rightarrow>
          (foldl (\<lambda>s k. loadKey (ke_Name k) (k\<lparr>ke_QuotaRemaining := ke_QuotaLimit k - ke_QuotaUsed k\<rparr>) s) s entries, True))"

lemmas key_ops = keys_Create_def keys_Update_def keys_Delete_def UpdateUsage_def loadKey_def

section \<open>The index\<close>

definition carries :: "string \<Rightarrow> APIKeyEntry \<Rightarrow> bool" where
  "carries h k \<longleftrightarrow> h \<noteq> '''' \<and> (h = ke_KeyHash k \<or> h = ke_KeyPrevHash k)"

text \<open>Every index entry belongs to a key that carries the hash, or to the name of a deleted key.\<close>

definition index_ok :: "string set \<Rightarrow> KeyStore \<Rightarrow> bool" where
  "index_ok gone s \<longleftrightarrow>
     (\<forall>n k. map_of (kst_keys s) n = Some k \<longrightarrow> ke_Name k = n \<and> n \<notin> gone) \<and>
     (\<forall>h n. kst_byHash s h = Some n \<longrightarrow> (\<exists>k. map_of (kst_keys s) n = Some k \<and> carries h k) \<or> n \<in> gone)"

datatype key_event =
  EvCreate time APIKeyEntry
| EvUpdate time APIKeyEntry
| EvDelete string
| EvUsage string float64 float64 float64 string
| EvRestart "(string \<times> APIKeyEntry) list \<Rightarrow> (string \<times> APIKeyEntry) list"

text \<open>A restart starts from the empty store and reads the file that the last mutation wrote.\<close>

fun key_step :: "KeyStore \<Rightarrow> key_event \<Rightarrow> KeyStore" where
  "key_step s (EvCreate now k) = fst (keys_Create now k s)"
| "key_step s (EvUpdate now k) = fst (keys_Update now k s)"
| "key_step s (EvDelete name) = fst (keys_Delete name s)"
| "key_step s (EvUsage name a b c d) = UpdateUsage name a b c d s"
| "key_step s (EvRestart it) = fst (loadKeys (KeysStored (keys_List it s)) NewKeyStore)"

text \<open>No key is created under the name of a deleted one.\<close>

fun no_reuse :: "string set \<Rightarrow> key_event list \<Rightarrow> bool" where
  "no_reuse gone [] = True"
| "no_reuse gone (EvCreate now k # evs) = (ke_Name k \<notin> gone \<and> no_reuse gone evs)"
| "no_reuse gone (EvDelete n # evs) = no_reuse (insert n gone) evs"
| "no_reuse gone (e # evs) = no_reuse gone evs"

lemma indexKey_lookup:
  "indexKey key m h = (if carries h key then Some (ke_Name key) else m h)"
  by (auto simp: indexKey_def carries_def Let_def)

lemma unindexOld_keeps: "unindexOld old key m h = Some n \<Longrightarrow> m h = Some n \<and> (carries h old \<longrightarrow> carries h key)"
  by (auto simp: unindexOld_def carries_def Let_def split: if_splits)

lemma carries_update [simp]:
  "carries h (k\<lparr>ke_UpdatedAt := a\<rparr>) = carries h k" "carries h (k\<lparr>ke_QuotaRemaining := q\<rparr>) = carries h k"
  "carries h (k\<lparr>ke_CreatedAt := a\<rparr>) = carries h k" "carries h (k\<lparr>ke_Status := st\<rparr>) = carries h k"
  "carries h (k\<lparr>ke_QuotaUsed := q\<rparr>) = carries h k" "carries h (k\<lparr>ke_DailyUsed := q\<rparr>) = carries h k"
  "carries h (k\<lparr>ke_DailyDate := st\<rparr>) = carries h k"
  by (simp_all add: carries_def)

lemma index_okD:
  assumes "index_ok gone s"
  shows "map_of (kst_keys s) n = Some k \<Longrightarrow> ke_Name k = n" "map_of (kst_keys s) n = Some k \<Longrightarrow> n \<notin> gone"
    "kst_byHash s h = Some n \<Longrightarrow> n \<notin> gone \<Longrightarrow> \<exists>k. map_of (kst_keys s) n = Some k \<and> carries h k"
  using assms by (auto simp: index_ok_def)

lemma index_ok_Create:
  assumes "index_ok gone s" "ke_Name k \<notin> gone"
  shows "index_ok gone (fst (keys_Create now k s))"
  using assms by (fastforce simp: keys_Create_def index_ok_def update_conv' indexKey_lookup Let_def)

lemma index_ok_Update:
  assumes "index_ok gone s"
  shows "index_ok gone (fst (keys_Update now k s))"
proof (cases "map_of (kst_keys s) (ke_Name k)")
  case (Some old)
  let ?m = "unindexOld old (k\<lparr>ke_UpdatedAt := now, ke_QuotaRemaining := ke_QuotaLimit k - ke_QuotaUsed k\<rparr>) (kst_byHash s)"
  have b: "carries h k \<or> n \<noteq> ke_Name k \<and> kst_byHash s h = Some n \<or> n \<in> gone" if "?m h = Some n" for h n
    using unindexOld_keeps [OF that] index_okD(3) [OF assms, of h n] Some by auto
  show ?thesis
    unfolding index_ok_def
  proof (intro conjI allI impI)
    fix n key assume "map_of (kst_keys (fst (keys_Update now k s))) n = Some key"
    then show "ke_Name key = n" "n \<notin> gone" using Some index_okD(1,2) [OF assms]
      by (auto simp: keys_Update_def update_conv' Let_def split: if_splits)
  next
    fix h n assume "kst_byHash (fst (keys_Update now k s)) h = Some n"
    then show "(\<exists>key. map_of (kst_keys (fst (keys_Update now k s))) n = Some key \<and> carries h key) \<or> n \<in> gone"
      using Some b [of h n] index_okD(3) [OF assms, of h n]
      by (auto simp: keys_Update_def update_conv' indexKey_lookup Let_def split: if_splits)
  qed
qed (use assms in \<open>simp add: keys_Update_def\<close>)

lemma index_ok_Delete:
  assumes "index_ok gone s"
  shows "index_ok (insert name gone) (fst (keys_Delete name s))"
  using assms by (auto simp: keys_Delete_def index_ok_def delete_conv' split: option.splits if_splits)

lemma index_ok_Usage:
  assumes "index_ok gone s"
  shows "index_ok gone (UpdateUsage name a b c d s)"
  using assms by (fastforce simp: UpdateUsage_def index_ok_def update_conv' split: option.split)

lemma index_ok_loadKey:
  assumes "index_ok gone s" "ke_Name k \<notin> gone" "\<And>h. kst_byHash s h \<noteq> Some (ke_Name k)"
  shows "index_ok gone (loadKey (ke_Name k) k s)"
  using assms by (auto simp: loadKey_def index_ok_def update_conv' carries_def)

lemma index_ok_load:
  assumes "index_ok gone s" "distinct (map ke_Name entries)" "ke_Name ` set entries \<inter> gone = {}"
    "\<And>h n. kst_byHash s h = Some n \<Longrightarrow> n \<notin> ke_Name ` set entries"
  shows "index_ok gone (fst (loadKeys (KeysStored entries) s))"
proof -
  let ?k = "\<lambda>k. k\<lparr>ke_QuotaRemaining := ke_QuotaLimit k - ke_QuotaUsed k\<rparr>"
  have "index_ok gone (foldl (\<lambda>s k. loadKey (ke_Name k) (?k k) s) s entries)"
    using assms
  proof (induction entries arbitrary: s)
    case (Cons k entries)
    have "index_ok gone (loadKey (ke_Name k) (?k k) s)"
      using index_ok_loadKey [of gone s "?k k"] Cons.prems by fastforce
    moreover have "n \<notin> ke_Name ` set entries" if "kst_byHash (loadKey (ke_Name k) (?k k) s) h = Some n" for h n
      using that Cons.prems(2) Cons.prems(4) [of h n] by (auto simp: loadKey_def split: if_splits)
    ultimately show ?case using Cons.IH [of "loadKey (ke_Name k) (?k k) s"] Cons.prems(2,3) by simp
  qed simp
  then show ?thesis by (simp add: loadKeys_def)
qed

lemma keys_List_names: "index_ok gone s \<Longrightarrow> distinct (map fst (kst_keys s)) \<Longrightarrow>
    distinct (map ke_Name (keys_List it s)) \<and> ke_Name ` set (keys_List it s) \<inter> gone = {}"
proof -
  assume ok: "index_ok gone s" and d: "distinct (map fst (kst_keys s))"
  have "(n, k) \<in> set (kst_keys s) \<Longrightarrow> ke_Name k = n \<and> n \<notin> gone" for n k
    using index_okD(1,2) [OF ok] d by (metis map_of_eq_Some_iff)
  then have "map ke_Name (keys_List it s) = map fst (iterate it (kst_keys s))"
    "ke_Name ` set (keys_List it s) = fst ` set (kst_keys s)" "fst ` set (kst_keys s) \<inter> gone = {}"
    by (auto simp: keys_List_def image_image) force+
  then show ?thesis using d by simp
qed

lemma distinct_keys_step: "distinct (map fst (kst_keys s)) \<Longrightarrow> distinct (map fst (kst_keys (key_step s e)))"
proof (cases e)
  case (EvRestart it)
  have "distinct (map fst (kst_keys t)) \<Longrightarrow>
      distinct (map fst (kst_keys (foldl (\<lambda>s k. loadKey (ke_Name k) (f k) s) t entries)))" for t f entries
    by (induction entries arbitrary: t) (auto simp: loadKey_def distinct_update)
  then show ?thesis
    using EvRestart by (simp add: loadKeys_def NewKeyStore_def
        \<open>\<And>t f entries. distinct (map fst (kst_keys t)) \<Longrightarrow>
          distinct (map fst (kst_keys (foldl (\<lambda>s k. loadKey (ke_Name k) (f k) s) t entries)))\<close>)
qed (auto simp: key_ops distinct_update distinct_delete Let_def split: option.split)

text \<open>The invariant along a history that does not reuse names of deleted keys.\<close>

lemma index_ok_run:
  assumes "index_ok gone s" "distinct (map fst (kst_keys s))" "no_reuse gone evs"
  shows "\<exists>gone'. index_ok gone' (run_steps key_step s evs)"
  using assms
proof (induction evs arbitrary: gone s)
  case (Cons e evs)
  have d: "distinct (map fst (kst_keys (key_step s e)))" using Cons.prems(2) by (rule distinct_keys_step)
  show ?case
  proof (cases e)
    case (EvDelete n)
    then show ?thesis using Cons.IH [OF index_ok_Delete [OF Cons.prems(1)]] Cons.prems(3) d by simp
  next
    case (EvRestart it)
    have "index_ok gone NewKeyStore" by (simp add: index_ok_def NewKeyStore_def)
    then have "index_ok gone (key_step s e)"
      using index_ok_load [of gone NewKeyStore] keys_List_names [OF Cons.prems(1,2), of it] EvRestart
      by (simp add: NewKeyStore_def)
    then show ?thesis using Cons.IH Cons.prems(3) d EvRestart by simp
  qed (use Cons.IH [of gone "key_step s e"] Cons.prems d in \<open>auto simp: index_ok_Create index_ok_Update index_ok_Usage\<close>)
qed auto

end
