(* ===== verification/Team_Store.thy ===== *)
theory Team_Store
  imports Gateway_Prelude "HOL-Library.AList"
begin

text \<open>
  Teams, organizations, the binding of keys to teams and the team quotas (\<^verbatim>\<open>store/memory/teams.go\<close>), with the part of the
  persister for \<^verbatim>\<open>teams.json\<close> (\<^verbatim>\<open>store/memory/persist.go\<close>) and the debounced writer the quota paths use
  (\<^verbatim>\<open>store/memory/persist_debounce.go\<close>).  The local date of an instant is the parameter \<open>day\<close>.
\<close>

section \<open>The debounced writer\<close>

text \<open>
  The timer is the instant at which it fires.  Between two operations the timer may fire: \<open>deb_elapse\<close> brings the writer to the
  instant \<open>now\<close> and counts the writes.
\<close>

record debouncedPersister =
  dp_d :: duration
  dp_timer :: "time option"

definition newDebouncedPersister :: "duration \<Rightarrow> debouncedPersister" where
  "newDebouncedPersister d = \<lparr>dp_d = (if d \<le> 0 then 2 * second else d), dp_timer = None\<rparr>"

definition Schedule :: "time \<Rightarrow> debouncedPersister \<Rightarrow> debouncedPersister" where
  "Schedule now p = p\<lparr>dp_timer := Some (now + dp_d p)\<rparr>"

definition deb_elapse :: "time \<Rightarrow> debouncedPersister \<Rightarrow> debouncedPersister \<times> bool" where
  "deb_elapse now p =
     (case dp_timer p of
        Some t \<Rightarrow> if t \<le> now then (p\<lparr>dp_timer := None\<rparr>, True) else (p, False)
      | None \<Rightarrow> (p, False))"

definition deb_Flush :: "debouncedPersister \<Rightarrow> debouncedPersister \<times> bool" where
  "deb_Flush p = (p\<lparr>dp_timer := None\<rparr>, True)"

definition deb_Pending :: "debouncedPersister \<Rightarrow> bool" where
  "deb_Pending p \<longleftrightarrow> dp_timer p \<noteq> None"

section \<open>Teams\<close>

record TeamMember =
  tm_UserID :: string
  tm_Role :: string

record Team =
  t_ID :: string
  t_Name :: string
  t_OrgID :: string
  t_QuotaLimit :: float64
  t_QuotaUsed :: float64
  t_Members :: "TeamMember list"
  t_AllowedModels :: "string list"
  t_CostAccumulated :: float64
  t_Tier :: string
  t_DailyQuotaLimit :: float64
  t_DailyQuotaUsed :: float64
  t_DailyQuotaDate :: string
  t_CreatedAt :: time
  t_UpdatedAt :: time

record Organization =
  o_ID :: string
  o_Name :: string
  o_CreatedAt :: time
  o_UpdatedAt :: time

record TeamsStore =
  ts_teams :: "(string \<times> Team) list"
  ts_orgs :: "(string \<times> Organization) list"
  ts_keyTeam :: "(string \<times> string) list"

datatype team_error =
  TeamExists string | TeamNotFound string | TeamIsDefault | OrgExists string | OrgNotFound string | OrgIsDefault
| OrgHasTeams string | NoTeamForKey | UserInTeam string | UserNotInTeam string

definition seedDefaults :: "time \<Rightarrow> TeamsStore" where
  "seedDefaults now =
     \<lparr>ts_teams = [(''default'',
        \<lparr>t_ID = ''default'', t_Name = ''Default Team'', t_OrgID = ''default'', t_QuotaLimit = 1000, t_QuotaUsed = 0,
         t_Members = [\<lparr>tm_UserID = ''admin'', tm_Role = ''admin''\<rparr>], t_AllowedModels = [''*''], t_CostAccumulated = 0, t_Tier = '''',
         t_DailyQuotaLimit = 0, t_DailyQuotaUsed = 0, t_DailyQuotaDate = '''', t_CreatedAt = now, t_UpdatedAt = now\<rparr>)],
      ts_orgs = [(''default'',
        \<lparr>o_ID = ''default'', o_Name = ''Default Organization'', o_CreatedAt = now, o_UpdatedAt = now\<rparr>)],
      ts_keyTeam = []\<rparr>"

definition CreateTeam :: "time \<Rightarrow> Team \<Rightarrow> TeamsStore \<Rightarrow> TeamsStore \<times> team_error option" where
  "CreateTeam now team s =
     (if map_of (ts_teams s) (t_ID team) \<noteq> None then (s, Some (TeamExists (t_ID team)))
      else (s\<lparr>ts_teams := AList.update (t_ID team) (team\<lparr>t_CreatedAt := now, t_UpdatedAt := now\<rparr>) (ts_teams s)\<rparr>, None))"

definition GetTeam :: "string \<Rightarrow> TeamsStore \<Rightarrow> team_error + Team" where
  "GetTeam ident s = (case map_of (ts_teams s) ident of None \<Rightarrow> Inl (TeamNotFound ident) | Some t \<Rightarrow> Inr t)"

definition ListTeams :: "((string \<times> Team) list \<Rightarrow> (string \<times> Team) list) \<Rightarrow> TeamsStore \<Rightarrow> Team list" where
  "ListTeams it s = map snd (iterate it (ts_teams s))"

definition UpdateTeam :: "time \<Rightarrow> Team \<Rightarrow> TeamsStore \<Rightarrow> TeamsStore \<times> team_error option" where
  "UpdateTeam now team s =
     (case map_of (ts_teams s) (t_ID team) of
        None \<Rightarrow> (s, Some (TeamNotFound (t_ID team)))
      | Some existing \<Rightarrow>
          (s\<lparr>ts_teams := AList.update (t_ID team) (team\<lparr>t_CreatedAt := t_CreatedAt existing, t_UpdatedAt := now\<rparr>) (ts_teams s)\<rparr>, None))"

definition DeleteTeam :: "string \<Rightarrow> TeamsStore \<Rightarrow> TeamsStore \<times> team_error option" where
  "DeleteTeam ident s =
     (if ident = ''default'' then (s, Some TeamIsDefault)
      else if map_of (ts_teams s) ident = None then (s, Some (TeamNotFound ident))
      else (s\<lparr>ts_teams := AList.delete ident (ts_teams s), ts_keyTeam := filter (\<lambda>(key, tid). tid \<noteq> ident) (ts_keyTeam s)\<rparr>, None))"

definition CreateOrg :: "time \<Rightarrow> Organization \<Rightarrow> TeamsStore \<Rightarrow> TeamsStore \<times> team_error option" where
  "CreateOrg now org s =
     (if map_of (ts_orgs s) (o_ID org) \<noteq> None then (s, Some (OrgExists (o_ID org)))
      else (s\<lparr>ts_orgs := AList.update (o_ID org) (org\<lparr>o_CreatedAt := now, o_UpdatedAt := now\<rparr>) (ts_orgs s)\<rparr>, None))"

definition GetOrg :: "string \<Rightarrow> TeamsStore \<Rightarrow> team_error + Organization" where
  "GetOrg ident s = (case map_of (ts_orgs s) ident of None \<Rightarrow> Inl (OrgNotFound ident) | Some org \<Rightarrow> Inr org)"

definition ListOrgs :: "((string \<times> Organization) list \<Rightarrow> (string \<times> Organization) list) \<Rightarrow> TeamsStore \<Rightarrow> Organization list" where
  "ListOrgs it s = map snd (iterate it (ts_orgs s))"

definition DeleteOrg :: "string \<Rightarrow> TeamsStore \<Rightarrow> TeamsStore \<times> team_error option" where
  "DeleteOrg ident s =
     (if ident = ''default'' then (s, Some OrgIsDefault)
      else if map_of (ts_orgs s) ident = None then (s, Some (OrgNotFound ident))
      else if list_ex (\<lambda>e. t_OrgID (snd e) = ident) (ts_teams s) then (s, Some (OrgHasTeams ident))
      else (s\<lparr>ts_orgs := AList.delete ident (ts_orgs s)\<rparr>, None))"

definition BindKeyToTeam :: "string \<Rightarrow> string \<Rightarrow> TeamsStore \<Rightarrow> TeamsStore \<times> team_error option" where
  "BindKeyToTeam apiKey teamID s =
     (if map_of (ts_teams s) teamID = None then (s, Some (TeamNotFound teamID))
      else (s\<lparr>ts_keyTeam := AList.update apiKey teamID (ts_keyTeam s)\<rparr>, None))"

definition GetTeamByKey :: "string \<Rightarrow> TeamsStore \<Rightarrow> team_error + Team" where
  "GetTeamByKey apiKey s =
     (case map_of (ts_keyTeam s) apiKey of
        None \<Rightarrow> Inl NoTeamForKey
      | Some teamID \<Rightarrow> (case map_of (ts_teams s) teamID of None \<Rightarrow> Inl (TeamNotFound teamID) | Some t \<Rightarrow> Inr t))"

definition chargeTeam :: "string \<Rightarrow> time \<Rightarrow> float64 \<Rightarrow> Team \<Rightarrow> Team" where
  "chargeTeam today now cost team =
     (let team1 = (if t_DailyQuotaDate team \<noteq> today then team\<lparr>t_DailyQuotaUsed := 0, t_DailyQuotaDate := today\<rparr> else team)
      in team1\<lparr>t_QuotaUsed := t_QuotaUsed team1 + cost, t_CostAccumulated := t_CostAccumulated team1 + cost,
               t_DailyQuotaUsed := t_DailyQuotaUsed team1 + cost, t_UpdatedAt := now\<rparr>)"

definition teams_AddCost :: "(time \<Rightarrow> string) \<Rightarrow> time \<Rightarrow> string \<Rightarrow> float64 \<Rightarrow> TeamsStore \<Rightarrow> TeamsStore \<times> team_error option" where
  "teams_AddCost day now teamID cost s =
     (case map_of (ts_teams s) teamID of
        None \<Rightarrow> (s, Some (TeamNotFound teamID))
      | Some team \<Rightarrow> (s\<lparr>ts_teams := AList.update teamID (chargeTeam (day now) now cost team) (ts_teams s)\<rparr>, None))"

definition teams_CheckQuota :: "(time \<Rightarrow> string) \<Rightarrow> time \<Rightarrow> string \<Rightarrow> TeamsStore \<Rightarrow> float64 \<times> float64 \<times> bool" where
  "teams_CheckQuota day now teamID s =
     (case map_of (ts_teams s) teamID of
        None \<Rightarrow> (0, 0, False)
      | Some team \<Rightarrow>
          if t_QuotaUsed team \<ge> t_QuotaLimit team then (t_QuotaLimit team, t_QuotaUsed team, False)
          else if t_DailyQuotaLimit team > 0 \<and>
                  (if t_DailyQuotaDate team \<noteq> day now then 0 else t_DailyQuotaUsed team) \<ge> t_DailyQuotaLimit team
          then (t_QuotaLimit team, t_QuotaUsed team, False)
          else (t_QuotaLimit team, t_QuotaUsed team, t_QuotaUsed team < t_QuotaLimit team))"

definition AddMember :: "time \<Rightarrow> string \<Rightarrow> string \<Rightarrow> string \<Rightarrow> TeamsStore \<Rightarrow> TeamsStore \<times> team_error option" where
  "AddMember now teamID userID role s =
     (case map_of (ts_teams s) teamID of
        None \<Rightarrow> (s, Some (TeamNotFound teamID))
      | Some team \<Rightarrow>
          if list_ex (\<lambda>m. tm_UserID m = userID) (t_Members team) then (s, Some (UserInTeam userID))
          else (s\<lparr>ts_teams := AList.update teamID
                  (team\<lparr>t_Members := t_Members team @ [\<lparr>tm_UserID = userID, tm_Role = role\<rparr>], t_UpdatedAt := now\<rparr>) (ts_teams s)\<rparr>, None))"

text \<open>The first member with the id is removed.\<close>

fun dropMember :: "string \<Rightarrow> TeamMember list \<Rightarrow> TeamMember list option" where
  "dropMember userID [] = None"
| "dropMember userID (m # ms) = (if tm_UserID m = userID then Some ms else map_option ((#) m) (dropMember userID ms))"

definition RemoveMember :: "time \<Rightarrow> string \<Rightarrow> string \<Rightarrow> TeamsStore \<Rightarrow> TeamsStore \<times> team_error option" where
  "RemoveMember now teamID userID s =
     (case map_of (ts_teams s) teamID of
        None \<Rightarrow> (s, Some (TeamNotFound teamID))
      | Some team \<Rightarrow>
          (case dropMember userID (t_Members team) of
             None \<Rightarrow> (s, Some (UserNotInTeam userID))
           | Some ms \<Rightarrow> (s\<lparr>ts_teams := AList.update teamID (team\<lparr>t_Members := ms, t_UpdatedAt := now\<rparr>) (ts_teams s)\<rparr>, None)))"

section \<open>Persistence\<close>

record teams_payload =
  tp_Teams :: "Team list option"
  tp_Orgs :: "Organization list option"
  tp_KeyTeam :: "(string \<times> string) list option"

definition SaveTeams ::
    "((string \<times> Team) list \<Rightarrow> (string \<times> Team) list) \<Rightarrow> ((string \<times> Organization) list \<Rightarrow> (string \<times> Organization) list) \<Rightarrow>
      string \<Rightarrow> bool \<Rightarrow> TeamsStore \<Rightarrow> teams_payload option \<Rightarrow> teams_payload option" where
  "SaveTeams it ito dataDir ok s disk =
     (if dataDir = '''' then disk
      else if ok then Some \<lparr>tp_Teams = Some (ListTeams it s), tp_Orgs = Some (ListOrgs ito s), tp_KeyTeam = Some (ts_keyTeam s)\<rparr>
      else disk)"

definition loadTeams :: "teams_payload option \<Rightarrow> TeamsStore \<Rightarrow> TeamsStore" where
  "loadTeams disk s =
     (case disk of
        None \<Rightarrow> s
      | Some pl \<Rightarrow>
          \<lparr>ts_teams = (case tp_Teams pl of None \<Rightarrow> ts_teams s | Some ts \<Rightarrow> foldl (\<lambda>m t. AList.update (t_ID t) t m) [] ts),
           ts_orgs = (case tp_Orgs pl of None \<Rightarrow> ts_orgs s | Some os \<Rightarrow> foldl (\<lambda>m org. AList.update (o_ID org) org m) [] os),
           ts_keyTeam = (case tp_KeyTeam pl of None \<Rightarrow> ts_keyTeam s | Some kt \<Rightarrow> foldl (\<lambda>m (k, t). AList.update k t m) [] kt)\<rparr>)"

section \<open>Invariant\<close>

text \<open>
  Every team is stored under its id, every key binding names an existing team, the default team is never removed, and the map
  representations have no duplicate keys.
\<close>

definition teams_ok :: "TeamsStore \<Rightarrow> bool" where
  "teams_ok s \<longleftrightarrow>
     distinct (map fst (ts_teams s)) \<and> distinct (map fst (ts_orgs s)) \<and> distinct (map fst (ts_keyTeam s)) \<and>
     (\<forall>i t. map_of (ts_teams s) i = Some t \<longrightarrow> t_ID t = i) \<and>
     (\<forall>i org. map_of (ts_orgs s) i = Some org \<longrightarrow> o_ID org = i) \<and>
     (\<forall>k i. map_of (ts_keyTeam s) k = Some i \<longrightarrow> map_of (ts_teams s) i \<noteq> None) \<and>
     map_of (ts_teams s) ''default'' \<noteq> None \<and> map_of (ts_orgs s) ''default'' \<noteq> None"

datatype team_event =
  TCreate Team | TUpdate Team | TDelete string | TCreateOrg Organization | TDeleteOrg string | TBind string string
| TAddCost string float64 | TAddMember string string string | TRemoveMember string string
| TSave "(string \<times> Team) list \<Rightarrow> (string \<times> Team) list" "(string \<times> Organization) list \<Rightarrow> (string \<times> Organization) list" string bool
| TRestart

text \<open>
  The store together with its file.  The debounced writer saves at any time, late or not at all, and a write may fail; a restart
  loads whatever the last successful write left, and seeds the defaults when there is no file.
\<close>

fun team_step :: "(time \<Rightarrow> string) \<Rightarrow> TeamsStore \<times> teams_payload option \<Rightarrow> time \<times> team_event \<Rightarrow> TeamsStore \<times> teams_payload option" where
  "team_step day (s, disk) (now, TCreate t) = (fst (CreateTeam now t s), disk)"
| "team_step day (s, disk) (now, TUpdate t) = (fst (UpdateTeam now t s), disk)"
| "team_step day (s, disk) (now, TDelete i) = (fst (DeleteTeam i s), disk)"
| "team_step day (s, disk) (now, TCreateOrg org) = (fst (CreateOrg now org s), disk)"
| "team_step day (s, disk) (now, TDeleteOrg i) = (fst (DeleteOrg i s), disk)"
| "team_step day (s, disk) (now, TBind k i) = (fst (BindKeyToTeam k i s), disk)"
| "team_step day (s, disk) (now, TAddCost i c) = (fst (teams_AddCost day now i c s), disk)"
| "team_step day (s, disk) (now, TAddMember i u r) = (fst (AddMember now i u r s), disk)"
| "team_step day (s, disk) (now, TRemoveMember i u) = (fst (RemoveMember now i u s), disk)"
| "team_step day (s, disk) (now, TSave it ito dataDir ok) = (s, SaveTeams it ito dataDir ok s disk)"
| "team_step day (s, disk) (now, TRestart) = (loadTeams disk (seedDefaults now), disk)"

lemma map_of_filter_value:
  assumes "distinct (map fst xs)"
  shows "map_of (filter (\<lambda>(k, v). P v) xs) k = (case map_of xs k of None \<Rightarrow> None | Some v \<Rightarrow> if P v then Some v else None)"
  using assms
proof (induction xs)
  case (Cons x xs)
  have "k \<notin> fst ` set xs \<Longrightarrow> map_of (filter (\<lambda>(k, v). P v) xs) k = None"
    by (auto simp: map_of_eq_None_iff intro: rev_image_eqI)
  then show ?case using Cons by (auto split: option.split)
qed simp

text \<open>A map written to a list of values and read back by their keys.\<close>

lemma foldl_update_lookup:
  "distinct (map f vs) \<Longrightarrow> map_of (foldl (\<lambda>m v. AList.update (f v) v m) m vs) k =
     (case map_of (map (\<lambda>v. (f v, v)) vs) k of Some v \<Rightarrow> Some v | None \<Rightarrow> map_of m k)"
proof (induction vs arbitrary: m)
  case (Cons v vs)
  have "map_of (map (\<lambda>v. (f v, v)) vs) (f v) = None" using Cons.prems by (force simp: map_of_eq_None_iff)
  then show ?case using Cons by (auto simp: update_conv' split: option.split)
qed simp

lemma foldl_update_distinct:
  "distinct (map fst m) \<Longrightarrow> distinct (map fst (foldl (\<lambda>m v. AList.update (f v) (g v) m) m vs))"
  by (induction vs arbitrary: m) (auto simp: distinct_update)

lemma rebuild_map:
  assumes "distinct (map fst xs)" "\<And>k v. (k, v) \<in> set xs \<Longrightarrow> f v = k"
  shows "map_of (foldl (\<lambda>m v. AList.update (f v) v m) [] (map snd (iterate it xs))) = map_of xs"
proof -
  have e: "map (\<lambda>v. (f v, v)) (map snd (iterate it xs)) = iterate it xs"
    using assms(2) by (auto intro: map_idI)
  then have f: "map f (map snd (iterate it xs)) = map fst (iterate it xs)"
    by (metis (no_types, lifting) comp_apply fst_conv list.map_comp map_ext)
  have "distinct (map f (map snd (iterate it xs)))" unfolding f using assms(1) by simp
  then have "map_of (foldl (\<lambda>m v. AList.update (f v) v m) [] (map snd (iterate it xs))) k = map_of (iterate it xs) k" for k
    by (subst foldl_update_lookup) (auto simp: e simp del: map_map split: option.split)
  then have "map_of (foldl (\<lambda>m v. AList.update (f v) v m) [] (map snd (iterate it xs))) = map_of (iterate it xs)" by blast
  also have "\<dots> = map_of xs" by (rule map_of_inject_set [THEN iffD2]) (use assms(1) in simp_all)
  finally show ?thesis .
qed

lemma teams_ok_seed: "teams_ok (seedDefaults now)"
  by (auto simp: teams_ok_def seedDefaults_def)

lemma teams_okD:
  assumes "teams_ok s"
  shows "distinct (map fst (ts_teams s))" "distinct (map fst (ts_orgs s))" "distinct (map fst (ts_keyTeam s))"
    "(i, t) \<in> set (ts_teams s) \<Longrightarrow> t_ID t = i" "(j, org) \<in> set (ts_orgs s) \<Longrightarrow> o_ID org = j"
  using assms by (auto simp: teams_ok_def)

lemma t_ID_charge [simp]: "t_ID (chargeTeam d n c t) = t_ID t"
  by (simp add: chargeTeam_def Let_def)

lemma teams_ok_put:
  assumes "teams_ok s" "t_ID t = i"
  shows "teams_ok (s\<lparr>ts_teams := AList.update i t (ts_teams s)\<rparr>)"
  using assms by (auto simp: teams_ok_def update_conv' distinct_update)

lemma teams_ok_restart:
  assumes "teams_ok s"
  shows "teams_ok (loadTeams (SaveTeams it ito ''data'' True s None) s0)"
proof -
  note d = teams_okD [OF assms]
  have t: "map_of (foldl (\<lambda>m t. AList.update (t_ID t) t m) [] (ListTeams it s)) = map_of (ts_teams s)"
    unfolding ListTeams_def by (rule rebuild_map [OF d(1)]) (rule d(4))
  have org: "map_of (foldl (\<lambda>m x. AList.update (o_ID x) x m) [] (ListOrgs ito s)) = map_of (ts_orgs s)"
    unfolding ListOrgs_def by (rule rebuild_map [OF d(2)]) (rule d(5))
  have kt: "map_of (foldl (\<lambda>m (k, t). AList.update k t m) [] xs) = map_of xs" if "distinct (map fst xs)" for xs :: "(string \<times> string) list"
  proof -
    have "map_of (foldl (\<lambda>m (k, t). AList.update k t m) m xs) = map_of m ++ map_of xs" for m
      using that
    proof (induction xs arbitrary: m)
      case (Cons x xs)
      have "map_of xs (fst x) = None" using Cons.prems by (simp add: map_of_eq_None_iff)
      then show ?case using Cons by (auto simp: update_conv' fun_eq_iff map_add_def split: option.split prod.split)
    qed simp
    then show ?thesis by simp
  qed
  have dk: "distinct (map fst (foldl (\<lambda>m (k, t). AList.update k t m) [] xs))" for xs :: "(string \<times> string) list"
    using foldl_update_distinct [of "[]" fst snd xs] by (simp add: case_prod_beta')
  show ?thesis
    using assms by (simp add: loadTeams_def SaveTeams_def teams_ok_def t org kt [OF d(3)] dk foldl_update_distinct
        del: map_of_eq_Some_iff)
qed

text \<open>A file that restarts a store well-formed.\<close>

definition teams_disk_ok :: "TeamsStore \<times> teams_payload option \<Rightarrow> bool" where
  "teams_disk_ok x \<longleftrightarrow> teams_ok (fst x) \<and> (\<forall>now. teams_ok (loadTeams (snd x) (seedDefaults now)))"

lemma teams_ok_step: "teams_disk_ok x \<Longrightarrow> teams_disk_ok (team_step day x y)"
proof (induction day x y rule: team_step.induct)
  case (3 day s disk now i)
  then show ?case
    by (auto simp: teams_disk_ok_def DeleteTeam_def teams_ok_def delete_conv' map_of_filter_value distinct_delete distinct_map_filter
        simp del: map_of_eq_Some_iff split: option.splits if_splits)
next
  case (10 day s disk now it ito dataDir ok)
  then show ?case using teams_ok_restart [of s it ito] by (auto simp: teams_disk_ok_def SaveTeams_def)
qed (auto simp: teams_disk_ok_def CreateTeam_def UpdateTeam_def CreateOrg_def DeleteOrg_def BindKeyToTeam_def teams_AddCost_def AddMember_def RemoveMember_def
      simp del: map_of_eq_Some_iff intro!: teams_ok_put split: option.split,
    auto simp: teams_ok_def update_conv' delete_conv' distinct_update distinct_delete simp del: map_of_eq_Some_iff)

interpretation teams: step_system "team_step day" teams_disk_ok
  by unfold_locales (rule teams_ok_step)


text \<open>
  C40. The references of the team store always resolve: after any history of creating, changing and deleting teams and organizations, binding keys,
  charging, changing members, saving (with any failed or missing writes) and restarting from the last file written, every key binding leads to a team stored under its own id, and the default team and
  organization exist.
\<close>

theorem team_references_resolve:
  fixes day :: "time \<Rightarrow> string" and evs :: "(time \<times> team_event) list" and now :: time
  defines "s \<equiv> fst (run_steps (team_step day) (seedDefaults now, None) evs)"
  shows "(map_of (ts_keyTeam s) key = Some i \<longrightarrow> (\<exists>t. GetTeamByKey key s = Inr t \<and> t_ID t = i \<and> GetTeam i s = Inr t)) \<and>
    (\<exists>t. GetTeam ''default'' s = Inr t \<and> t_ID t = ''default'') \<and> (\<exists>org. GetOrg ''default'' s = Inr org)"
proof -
  have "teams_disk_ok (run_steps (team_step day) (seedDefaults now, None) evs)"
    by (rule teams.run_inv) (simp add: teams_disk_ok_def teams_ok_seed loadTeams_def)
  then have "teams_ok s" by (simp add: s_def teams_disk_ok_def)
  then show ?thesis
    by (fastforce simp: teams_ok_def GetTeamByKey_def GetTeam_def GetOrg_def simp del: map_of_eq_Some_iff split: option.split)
qed

theorem team_references_resolve_witness:
  "\<exists>t. GetTeamByKey ''k1'' (fst (run_steps (team_step (\<lambda>_. ''d'')) (seedDefaults 0, None)
     [(1, TBind ''k1'' ''default''), (2, TSave id id ''data'' True), (3, TBind ''k2'' ''default''), (4, TSave id id ''data'' False), (5, TRestart)])) = Inr t \<and>
     t_ID t = ''default''"
proof -
  let ?evs = "[(1, TBind ''k1'' ''default''), (2, TSave id id ''data'' True), (3, TBind ''k2'' ''default''), (4, TSave id id ''data'' False), (5, TRestart)]"
  have "map_of (ts_keyTeam (fst (run_steps (team_step (\<lambda>_. ''d'')) (seedDefaults 0, None) ?evs))) ''k1'' = Some ''default''"
    by (simp add: BindKeyToTeam_def seedDefaults_def loadTeams_def SaveTeams_def)
  then show ?thesis
    using team_references_resolve [where day = "\<lambda>_. ''d''" and now = 0 and evs = ?evs and key = "''k1''" and i = "''default''"] by blast
qed

end
