(* ===== verification/Key_Auth.thy ===== *)
theory Key_Auth
  imports Principals Key_Store Team_Store
begin

text \<open>
  Authentication by API key (\<^verbatim>\<open>middleware/auth.go\<close>) and the handlers that issue, rotate and revoke user keys
  (\<^verbatim>\<open>server/userkeys.go\<close>).

  The SHA-256 digest in hexadecimal is the parameter \<open>sha\<close>, the RFC 3339 format a pair of parameters, the random bytes of a new
  credential an argument.  The store the middleware looks keys up in is an interface, the record \<open>keyLookupStore\<close>; its law is the
  locale \<open>key_lookup\<close>, interpreted on the in-memory store.
\<close>

section \<open>The middleware\<close>

record AuthConfig =
  au_Enabled :: bool
  au_APIKeys :: "AuthKeyConfig list"
  au_Passthrough :: bool
  au_MasterKey :: string
  au_KeyRotationGrace :: duration

record keyLookupStore =
  kls_GetKeyByHash :: "string \<Rightarrow> unit + APIKeyEntry option"
  kls_GetTeamByKey :: "string \<Rightarrow> team_error + Team option"

record timeFormat =
  tf_Format :: "time \<Rightarrow> string"
  tf_Parse :: "string \<Rightarrow> time option"

definition extractAPIKey :: "InboundRequest \<Rightarrow> string" where
  "extractAPIKey r =
     (if HasPrefix (in_Authorization r) ''Bearer '' then drop (length ''Bearer '') (in_Authorization r)
      else if in_XApiKey r \<noteq> '''' then in_XApiKey r else '''')"

definition lookupKeyByHash ::
    "(string \<Rightarrow> string) \<Rightarrow> timeFormat \<Rightarrow> keyLookupStore \<Rightarrow> string \<Rightarrow> duration \<Rightarrow> time \<Rightarrow> AuthKeyConfig option" where
  "lookupKeyByHash sha tf st key grace now =
     (let hash = sha key in
      case kls_GetKeyByHash st hash of
        Inl _ \<Rightarrow> None
      | Inr None \<Rightarrow> None
      | Inr (Some e) \<Rightarrow>
          if ke_Status e \<noteq> '''' \<and> ke_Status e \<noteq> ''active'' then None
          else if hash \<noteq> ke_KeyHash e \<and> hash = ke_KeyPrevHash e \<and>
                  (case ke_KeyRotatedAt e of None \<Rightarrow> True | Some t \<Rightarrow> now - t > grace) then None
          else Some \<lparr>akc_Key = key, akc_Name = ke_Name e, akc_AllowedBackends = ke_AllowedBackends e,
                     akc_AllowedModels = ke_AllowedModels e, akc_ModelModules = ke_ModelModules e, akc_RPM = ke_RPM e, akc_TPM = ke_TPM e,
                     akc_ExpiresAt = (case ke_ExpiresAt e of Some t \<Rightarrow> if t \<noteq> zero_time then tf_Format tf t else '''' | None \<Rightarrow> ''''),
                     akc_BudgetLimit = ke_BudgetLimit e, akc_DailyBudgetLimit = ke_DailyBudgetLimit e,
                     akc_TeamID = (case kls_GetTeamByKey st key of Inr (Some team) \<Rightarrow> t_ID team | _ \<Rightarrow> ''''), akc_Scopes = ke_Scopes e\<rparr>)"

fun firstMatch :: "(string \<Rightarrow> AuthKeyConfig option) option list \<Rightarrow> string \<Rightarrow> AuthKeyConfig option" where
  "firstMatch [] key = None"
| "firstMatch (None # ms) key = firstMatch ms key"
| "firstMatch (Some f # ms) key = (case f key of Some kc \<Rightarrow> Some kc | None \<Rightarrow> firstMatch ms key)"

definition rotationGrace :: "AuthConfig \<Rightarrow> duration" where
  "rotationGrace cfg = (if au_KeyRotationGrace cfg \<le> 0 then 24 * 60 * minute else au_KeyRotationGrace cfg)"

definition matchKey ::
    "(string \<Rightarrow> string) \<Rightarrow> timeFormat \<Rightarrow> AuthConfig \<Rightarrow> keyLookupStore option \<Rightarrow> (string \<Rightarrow> AuthKeyConfig option) option list \<Rightarrow>
      string \<Rightarrow> time \<Rightarrow> AuthKeyConfig option" where
  "matchKey sha tf cfg st matchers key now =
     (case find (\<lambda>k. akc_Key k = key) (au_APIKeys cfg) of
        Some kc \<Rightarrow> Some kc
      | None \<Rightarrow>
          (case (case st of None \<Rightarrow> None | Some s \<Rightarrow> lookupKeyByHash sha tf s key (rotationGrace cfg) now) of
             Some kc \<Rightarrow> Some kc
           | None \<Rightarrow> firstMatch matchers key))"

definition keyExpired :: "timeFormat \<Rightarrow> time \<Rightarrow> AuthKeyConfig \<Rightarrow> bool" where
  "keyExpired tf now kc \<longleftrightarrow>
     akc_ExpiresAt kc \<noteq> '''' \<and> (case tf_Parse tf (akc_ExpiresAt kc) of None \<Rightarrow> False | Some t \<Rightarrow> now > t)"

text \<open>The team of a key is stamped when the principal has none; the store is consulted for its tier without a nil check.\<close>

definition acceptKey :: "keyLookupStore option \<Rightarrow> string \<Rightarrow> AuthKeyConfig \<Rightarrow> Principal \<Rightarrow> RequestCtx \<Rightarrow> RequestCtx \<times> refusal" where
  "acceptKey st key kc p ctx0 =
     (let p1 = p\<lparr>pr_AuthMethod := ''apikey'', pr_IsMaster := False, pr_KeyConfig := Some kc, pr_ModelModules := akc_ModelModules kc\<rparr>;
          ctx = StampAPIKeyName (ctx0\<lparr>rc_Principal := Some p1\<rparr>) (akc_Name kc);
          done = (\<lambda>c. (WithPrincipal (WithTenant c (akc_TeamID kc)) (akc_Name kc), None))
      in if akc_TeamID kc \<noteq> '''' \<and> pr_Team p1 = None
         then (case st of
             None \<Rightarrow> (ctx, Some Panics)
           | Some s \<Rightarrow>
               (let ti = newTeamInfo (akc_TeamID kc) (akc_TeamID kc) RoleInference;
                    ti1 = (case kls_GetTeamByKey s key of Inr (Some team) \<Rightarrow> ti\<lparr>ti_Tier := t_Tier team\<rparr> | _ \<Rightarrow> ti)
                in done (ctx\<lparr>rc_Principal := Some (p1\<lparr>pr_Team := Some ti1\<rparr>)\<rparr>)))
         else done ctx)"

definition APIKeyAuthWithStore ::
    "(string \<Rightarrow> string) \<Rightarrow> timeFormat \<Rightarrow> AuthConfig \<Rightarrow> keyLookupStore option \<Rightarrow> (string \<Rightarrow> AuthKeyConfig option) option list \<Rightarrow>
      time \<Rightarrow> mw" where
  "APIKeyAuthWithStore sha tf cfg st matchers now r ctx0 =
     (let (ctx, p) = EnsurePrincipal ctx0 in
      if pr_AuthMethod p = ''admin-jwt'' \<or> pr_AuthMethod p = ''shell-session'' then (ctx, None)
      else if \<not> au_Enabled cfg \<or> au_Passthrough cfg then (ctx, None)
      else
        (let key = extractAPIKey r in
         if key = '''' then (ctx, Some (Respond 401 ''Missing API key''))
         else if au_MasterKey cfg \<noteq> '''' \<and> au_MasterKey cfg = key
         then (let p1 = p\<lparr>pr_AuthMethod := ''apikey'', pr_IsMaster := True, pr_KeyConfig := Some (keyConfig (au_MasterKey cfg) ''master'')\<rparr>
               in (WithPrincipal (StampAPIKeyName (ctx\<lparr>rc_Principal := Some p1\<rparr>) ''master'') ''master'', None))
         else
           (case matchKey sha tf cfg st matchers key now of
              None \<Rightarrow> (ctx, Some (Respond 401 (''Invalid API key '' @ take 8 (sha key))))
            | Some kc \<Rightarrow>
                if keyExpired tf now kc then (ctx, Some (Respond 401 ''API key expired'')) else acceptKey st key kc p ctx)))"

section \<open>User keys\<close>

record CredentialStore =
  cs_keys :: KeyStore
  cs_teams :: TeamsStore

definition memoryLookup :: "CredentialStore \<Rightarrow> keyLookupStore" where
  "memoryLookup s =
     \<lparr>kls_GetKeyByHash = (\<lambda>h. Inr (keys_GetByHash h (cs_keys s))),
      kls_GetTeamByKey = (\<lambda>k. case GetTeamByKey k (cs_teams s) of Inl e \<Rightarrow> Inl e | Inr t \<Rightarrow> Inr (Some t))\<rparr>"

definition hex_digit :: "nat \<Rightarrow> char" where
  "hex_digit d = (if d < 10 then char_of (48 + d) else char_of (87 + d))"

definition hexEncode :: "nat list \<Rightarrow> string" where
  "hexEncode bs = concat (map (\<lambda>b. [hex_digit (b div 16), hex_digit (b mod 16)]) bs)"

definition generateUserAPIKey :: "(string \<Rightarrow> string) \<Rightarrow> nat list \<Rightarrow> string \<times> string \<times> string" where
  "generateUserAPIKey sha buf =
     (let raw = ''fk-'' @ hexEncode buf
      in (raw, sha raw, ''fk-'' @ [CHR 0xE2, CHR 0x80, CHR 0xA6] @ drop (length raw - 4) raw))"

record createUserKeyRequest =
  cu_Name :: string
  cu_Scopes :: "string list"
  cu_Tenant :: string
  cu_AllowedModels :: "string list"
  cu_QuotaLimit :: float64
  cu_RPM :: int
  cu_TPM :: int

record userKeyResponse =
  uk_Name :: string
  uk_KeyPrefix :: string
  uk_RawKey :: string
  uk_Scopes :: "string list"
  uk_Tenant :: string
  uk_Status :: string

datatype key_answer = KeyIssued int userKeyResponse | KeyRevoked string | KeyRefused int string

definition newUserKey :: "createUserKeyRequest \<Rightarrow> string \<Rightarrow> string \<Rightarrow> APIKeyEntry" where
  "newUserKey req hash prefix =
     \<lparr>ke_Name = cu_Name req, ke_KeyPrefix = prefix, ke_KeyHash = hash, ke_Status = ''active'', ke_QuotaLimit = cu_QuotaLimit req,
      ke_QuotaUsed = 0, ke_QuotaRemaining = 0, ke_AllowedModels = cu_AllowedModels req, ke_RPM = cu_RPM req, ke_TPM = cu_TPM req,
      ke_ExpiresAt = None, ke_BudgetLimit = 0, ke_DailyBudgetLimit = 0, ke_DailyUsed = 0, ke_DailyDate = '''', ke_AllowedBackends = [],
      ke_ModelModules = [], ke_Scopes = cu_Scopes req, ke_KeyPrevHash = '''', ke_KeyRotatedAt = None,
      ke_Metadata = (if cu_Tenant req \<noteq> '''' then [(''tenant'', cu_Tenant req)] else []), ke_CreatedAt = zero_time,
      ke_UpdatedAt = zero_time\<rparr>"

text \<open>\<open>buf\<close> is what \<^verbatim>\<open>rand.Read\<close> yields, \<open>None\<close> when it fails; \<open>req\<close> the decoded body, \<open>None\<close> when it does not parse.\<close>

definition handleUserKeyCreate ::
    "(string \<Rightarrow> string) \<Rightarrow> nat list option \<Rightarrow> time \<Rightarrow> createUserKeyRequest option \<Rightarrow> CredentialStore \<Rightarrow> CredentialStore \<times> key_answer" where
  "handleUserKeyCreate sha buf now req0 s =
     (case req0 of
        None \<Rightarrow> (s, KeyRefused 400 ''invalid JSON'')
      | Some req \<Rightarrow>
          if TrimSpace (cu_Name req) = '''' then (s, KeyRefused 400 ''name is required'')
          else if cu_Scopes req = [] then (s, KeyRefused 400 ''scopes is required (module or module:action grants)'')
          else if cu_QuotaLimit req < 0 \<or> cu_RPM req < 0 \<or> cu_TPM req < 0 then (s, KeyRefused 400 ''quota/rpm/tpm must be non-negative'')
          else if cu_Tenant req \<noteq> '''' \<and> map_of (ts_teams (cs_teams s)) (cu_Tenant req) = None then (s, KeyRefused 400 ''unknown tenant'')
          else (case buf of
             None \<Rightarrow> (s, KeyRefused 500 ''key generation failed'')
           | Some bs \<Rightarrow>
               (let (raw, hash, prefix) = generateUserAPIKey sha bs; entry = newUserKey req hash prefix in
                case keys_Create now entry (cs_keys s) of
                  (ks, Some e) \<Rightarrow> (s, KeyRefused 409 ''key creation failed'')
                | (ks, None) \<Rightarrow>
                    (let ts = (if cu_Tenant req \<noteq> '''' then fst (BindKeyToTeam raw (cu_Tenant req) (cs_teams s)) else cs_teams s)
                     in (\<lparr>cs_keys = ks, cs_teams = ts\<rparr>,
                         KeyIssued 201 \<lparr>uk_Name = ke_Name entry, uk_KeyPrefix = prefix, uk_RawKey = raw, uk_Scopes = cu_Scopes req,
                           uk_Tenant = cu_Tenant req, uk_Status = ''active''\<rparr>)))))"

definition metaTenant :: "APIKeyEntry \<Rightarrow> string" where
  "metaTenant e = get_str (map_of (ke_Metadata e)) ''tenant''"

text \<open>A rotation reads the entry and writes it back later; \<open>handleUserKeyRotate\<close> is the two without anything in between.\<close>

definition rotateRead :: "string \<Rightarrow> CredentialStore \<Rightarrow> key_answer + APIKeyEntry" where
  "rotateRead name s =
     (case keys_Get name (cs_keys s) of
        Inl _ \<Rightarrow> Inl (KeyRefused 404 ''key not found'')
      | Inr e \<Rightarrow> if ke_Status e \<noteq> ''active'' then Inl (KeyRefused 409 ''key is not active'') else Inr e)"

definition rotatedEntry :: "time \<Rightarrow> string \<Rightarrow> string \<Rightarrow> APIKeyEntry \<Rightarrow> APIKeyEntry" where
  "rotatedEntry now hash prefix e =
     e\<lparr>ke_KeyPrevHash := ke_KeyHash e, ke_KeyRotatedAt := Some now, ke_KeyHash := hash, ke_KeyPrefix := prefix\<rparr>"

definition rotateWrite ::
    "(string \<Rightarrow> string) \<Rightarrow> nat list option \<Rightarrow> time \<Rightarrow> APIKeyEntry \<Rightarrow> CredentialStore \<Rightarrow> CredentialStore \<times> key_answer" where
  "rotateWrite sha buf now e s =
     (case buf of
        None \<Rightarrow> (s, KeyRefused 500 ''key generation failed'')
      | Some bs \<Rightarrow>
          (let (raw, hash, prefix) = generateUserAPIKey sha bs; entry = rotatedEntry now hash prefix e;
               ts = (if metaTenant e \<noteq> '''' then fst (BindKeyToTeam raw (metaTenant e) (cs_teams s)) else cs_teams s)
           in case keys_Update now entry (cs_keys s) of
                (ks, Some err) \<Rightarrow> (s\<lparr>cs_teams := ts\<rparr>, KeyRefused 500 ''rotation failed'')
              | (ks, None) \<Rightarrow>
                  (\<lparr>cs_keys = ks, cs_teams = ts\<rparr>,
                   KeyIssued 200 \<lparr>uk_Name = ke_Name e, uk_KeyPrefix = prefix, uk_RawKey = raw, uk_Scopes = ke_Scopes e,
                     uk_Tenant = metaTenant e, uk_Status = ke_Status e\<rparr>)))"

definition handleUserKeyRotate ::
    "(string \<Rightarrow> string) \<Rightarrow> nat list option \<Rightarrow> time \<Rightarrow> string \<Rightarrow> CredentialStore \<Rightarrow> CredentialStore \<times> key_answer" where
  "handleUserKeyRotate sha buf now name s =
     (case rotateRead name s of Inl a \<Rightarrow> (s, a) | Inr e \<Rightarrow> rotateWrite sha buf now e s)"

definition handleUserKeyRevoke :: "time \<Rightarrow> string \<Rightarrow> CredentialStore \<Rightarrow> CredentialStore \<times> key_answer" where
  "handleUserKeyRevoke now name s =
     (case keys_Get name (cs_keys s) of
        Inl _ \<Rightarrow> (s, KeyRefused 404 ''key not found'')
      | Inr e \<Rightarrow>
          if ke_Status e = ''revoked'' then (s, KeyRefused 409 ''key already revoked'')
          else (case keys_Update now (e\<lparr>ke_Status := ''revoked''\<rparr>) (cs_keys s) of
             (ks, Some err) \<Rightarrow> (s, KeyRefused 500 ''revoke failed'')
           | (ks, None) \<Rightarrow> (s\<lparr>cs_keys := ks\<rparr>, KeyRevoked name)))"

record userKeyListEntry =
  ul_Name :: string
  ul_KeyPrefix :: string
  ul_Status :: string
  ul_Scopes :: "string list"
  ul_Tenant :: string
  ul_QuotaLimit :: float64
  ul_QuotaUsed :: float64
  ul_RPM :: int
  ul_TPM :: int
  ul_RotatedAt :: "time option"

definition handleUserKeysList :: "((string \<times> APIKeyEntry) list \<Rightarrow> (string \<times> APIKeyEntry) list) \<Rightarrow> CredentialStore \<Rightarrow> userKeyListEntry list" where
  "handleUserKeysList it s =
     map (\<lambda>k. \<lparr>ul_Name = ke_Name k, ul_KeyPrefix = ke_KeyPrefix k, ul_Status = ke_Status k, ul_Scopes = ke_Scopes k,
               ul_Tenant = metaTenant k, ul_QuotaLimit = ke_QuotaLimit k, ul_QuotaUsed = ke_QuotaUsed k, ul_RPM = ke_RPM k,
               ul_TPM = ke_TPM k, ul_RotatedAt = ke_KeyRotatedAt k\<rparr>) (keys_List it (cs_keys s))"

section \<open>Soundness of authentication\<close>

text \<open>A credential is good for an entry: the key is active and the credential is its current one, or its previous one within the grace.\<close>

definition credential_valid :: "(string \<Rightarrow> string) \<Rightarrow> duration \<Rightarrow> time \<Rightarrow> string \<Rightarrow> APIKeyEntry \<Rightarrow> bool" where
  "credential_valid sha grace now key e \<longleftrightarrow>
     (ke_Status e = '''' \<or> ke_Status e = ''active'') \<and>
     (sha key = ke_KeyHash e \<or> sha key = ke_KeyPrevHash e \<and> (\<exists>t. ke_KeyRotatedAt e = Some t \<and> now - t \<le> grace))"

locale key_lookup =
  fixes lookup :: "'s \<Rightarrow> keyLookupStore" and ok :: "'s \<Rightarrow> bool"
  assumes lookup_carries: "ok s \<Longrightarrow> kls_GetKeyByHash (lookup s) h = Inr (Some e) \<Longrightarrow> carries h e"
begin

lemma lookup_sound:
  assumes "ok s" "lookupKeyByHash sha tf (lookup s) key grace now = Some kc"
  shows "\<exists>e. kls_GetKeyByHash (lookup s) (sha key) = Inr (Some e) \<and> akc_Name kc = ke_Name e \<and> credential_valid sha grace now key e"
proof -
  obtain e where e: "kls_GetKeyByHash (lookup s) (sha key) = Inr (Some e)"
    using assms(2) by (auto simp: lookupKeyByHash_def Let_def split: sum.splits option.splits)
  have "carries (sha key) e" using lookup_carries [OF assms(1) e] .
  then show ?thesis using assms(2) e
    by (auto simp: lookupKeyByHash_def credential_valid_def carries_def Let_def split: if_splits option.splits)
qed

end

interpretation memory_keys: key_lookup memoryLookup "\<lambda>s. \<exists>gone. index_ok gone (cs_keys s)"
proof unfold_locales
  fix s h e
  assume "\<exists>gone. index_ok gone (cs_keys s)" "kls_GetKeyByHash (memoryLookup s) h = Inr (Some e)"
  then obtain gone n where ok: "index_ok gone (cs_keys s)" and n: "kst_byHash (cs_keys s) h = Some n" "map_of (kst_keys (cs_keys s)) n = Some e"
    by (auto simp: memoryLookup_def keys_GetByHash_def split: option.splits)
  then show "carries h e" using index_okD(2) [OF ok n(2)] index_okD(3) [OF ok n(1)] by auto
qed

lemma memory_lookup_entry:
  assumes "\<exists>gone. index_ok gone (cs_keys s)" "lookupKeyByHash sha tf (memoryLookup s) key grace now = Some kc"
  shows "\<exists>e. map_of (kst_keys (cs_keys s)) (akc_Name kc) = Some e \<and> credential_valid sha grace now key e"
proof -
  obtain e where e: "kls_GetKeyByHash (memoryLookup s) (sha key) = Inr (Some e)" "akc_Name kc = ke_Name e"
      "credential_valid sha grace now key e"
    using memory_keys.lookup_sound [OF assms] by blast
  then obtain n where n: "map_of (kst_keys (cs_keys s)) n = Some e"
    by (auto simp: memoryLookup_def keys_GetByHash_def split: option.splits)
  then have "ke_Name e = n" using assms(1) index_okD(1) by blast
  then show ?thesis using e n by auto
qed

lemma firstMatch_Some: "firstMatch ms key = Some kc \<Longrightarrow> \<exists>f. Some f \<in> set ms \<and> f key = Some kc"
  by (induction ms key rule: firstMatch.induct) (auto split: option.splits)

lemma ctx_principal [simp]:
  "rc_Principal (WithTenant c t) = rc_Principal c" "rc_Principal (WithPrincipal c n) = rc_Principal c"
  "rc_Principal (StampAPIKeyName c n) = rc_Principal c"
  by (simp_all add: WithTenant_def WithPrincipal_def StampAPIKeyName_def)

lemma acceptKey_principal:
  assumes "acceptKey st key kc p ctx0 = (ctx, None)"
  shows "\<exists>q. rc_Principal ctx = Some q \<and> pr_AuthMethod q = ''apikey'' \<and> \<not> pr_IsMaster q \<and> pr_KeyConfig q = Some kc \<and>
    pr_OIDCClaims q = pr_OIDCClaims p \<and> pr_Role q = pr_Role p"
  using assms by (auto simp: acceptKey_def Let_def split: if_splits option.splits)

text \<open>What the presented credential was matched with.\<close>

lemma matchKey_cases:
  assumes "matchKey sha tf cfg st matchers key now = Some kc"
  obtains (configured) "kc \<in> set (au_APIKeys cfg)" "akc_Key kc = key"
  | (stored) s where "st = Some s" "lookupKeyByHash sha tf s key (rotationGrace cfg) now = Some kc"
  | (backend) f where "Some f \<in> set matchers" "f key = Some kc"
proof -
  show thesis
  proof (cases "find (\<lambda>k. akc_Key k = key) (au_APIKeys cfg)")
    case (Some k)
    then have "k \<in> set (au_APIKeys cfg)" "akc_Key k = key" by (auto simp: find_Some_iff)
    moreover have "kc = k" using assms Some by (simp add: matchKey_def)
    ultimately show thesis using configured by simp
  next
    case None
    then show thesis using assms stored backend firstMatch_Some [of matchers key kc]
      by (auto simp: matchKey_def split: option.splits)
  qed
qed


text \<open>A scripted history: a key is created, rotated and used inside the grace, with the identity as digest.\<close>

definition script_format :: timeFormat where
  "script_format = \<lparr>tf_Format = (\<lambda>_. ''never''), tf_Parse = (\<lambda>_. None)\<rparr>"

definition script_request :: createUserKeyRequest where
  "script_request = \<lparr>cu_Name = ''ci'', cu_Scopes = [''chat''], cu_Tenant = '''', cu_AllowedModels = [], cu_QuotaLimit = 0, cu_RPM = 0, cu_TPM = 0\<rparr>"

definition script_entry :: APIKeyEntry where
  "script_entry = newUserKey script_request ''fk-0a'' ''p''"

definition script_history :: "key_event list" where
  "script_history = [EvCreate 1 script_entry, EvUpdate 5 (rotatedEntry 5 ''fk-0b'' ''p'' (script_entry\<lparr>ke_CreatedAt := 1\<rparr>))]"

definition script_config :: AuthConfig where
  "script_config = \<lparr>au_Enabled = True, au_APIKeys = [], au_Passthrough = False, au_MasterKey = ''root'', au_KeyRotationGrace = 10\<rparr>"

definition bearer :: "string \<Rightarrow> InboundRequest" where
  "bearer key = \<lparr>in_Method = ''POST'', in_Path = ''/v1/chat/completions'', in_Authorization = ''Bearer '' @ key, in_XApiKey = '''',
     in_RemoteAddr = ''10.0.0.1:1'', in_Body = ''''\<rparr>"

definition empty_ctx :: RequestCtx where
  "empty_ctx = \<lparr>rc_Principal = None, rc_Tenant = '''', rc_CallerName = '''', rc_Lease = None, rc_LogKeyName = Some ''''\<rparr>"

lemma script_auth:
  "no_reuse {} script_history"
  "snd (APIKeyAuthWithStore id script_format script_config
      (Some (memoryLookup \<lparr>cs_keys = run_steps key_step NewKeyStore script_history, cs_teams = seedDefaults 0\<rparr>)) [] 9 (bearer ''fk-0a'') empty_ctx) = None"
  "au_Enabled script_config" "\<not> au_Passthrough script_config"
  "pr_AuthMethod (snd (EnsurePrincipal empty_ctx)) \<noteq> ''admin-jwt''" "pr_AuthMethod (snd (EnsurePrincipal empty_ctx)) \<noteq> ''shell-session''"
  by code_simp+


section \<open>Issued credentials\<close>

text \<open>
  Stores reached by the handlers.  A new credential has a fresh digest: nonempty and of no key so far.  Teams may change at any
  time, in any way.
\<close>

definition fresh_digest :: "string \<Rightarrow> CredentialStore \<Rightarrow> bool" where
  "fresh_digest h s \<longleftrightarrow> h \<noteq> '''' \<and> (\<forall>n e. map_of (kst_keys (cs_keys s)) n = Some e \<longrightarrow> \<not> carries h e)"

inductive issuing :: "(string \<Rightarrow> string) \<Rightarrow> CredentialStore \<Rightarrow> bool" for sha where
  start: "issuing sha \<lparr>cs_keys = NewKeyStore, cs_teams = ts\<rparr>"
| create: "issuing sha s \<Longrightarrow> fresh_digest (sha (''fk-'' @ hexEncode buf)) s \<Longrightarrow> issuing sha (fst (handleUserKeyCreate sha (Some buf) now req s))"
| rotate: "issuing sha s \<Longrightarrow> fresh_digest (sha (''fk-'' @ hexEncode buf)) s \<Longrightarrow> issuing sha (fst (handleUserKeyRotate sha (Some buf) now name s))"
| revoke: "issuing sha s \<Longrightarrow> issuing sha (fst (handleUserKeyRevoke now name s))"
| usage: "issuing sha s \<Longrightarrow> issuing sha (s\<lparr>cs_keys := UpdateUsage name a b c d (cs_keys s)\<rparr>)"
| teams: "issuing sha s \<Longrightarrow> issuing sha (s\<lparr>cs_teams := ts\<rparr>)"

definition creds_ok :: "CredentialStore \<Rightarrow> bool" where
  "creds_ok s \<longleftrightarrow>
     index_ok {} (cs_keys s) \<and>
     (\<forall>n e h. map_of (kst_keys (cs_keys s)) n = Some e \<and> carries h e \<longrightarrow> kst_byHash (cs_keys s) h = Some n)"

lemma creds_okD:
  assumes "creds_ok s"
  shows "index_ok {} (cs_keys s)" "map_of (kst_keys (cs_keys s)) n = Some e \<Longrightarrow> carries h e \<Longrightarrow> kst_byHash (cs_keys s) h = Some n"
  using assms by (auto simp: creds_ok_def)

lemma unindexOld_other: "\<not> carries h old \<Longrightarrow> unindexOld old key m h = m h"
  by (auto simp: unindexOld_def carries_def Let_def)

lemma creds_ok_Create:
  assumes "creds_ok s" "\<And>h. carries h k \<Longrightarrow> fresh_digest h s" "keys_Create now k (cs_keys s) = (ks, None)"
  shows "creds_ok (s\<lparr>cs_keys := ks\<rparr>)"
proof -
  have i: "index_ok {} ks" using index_ok_Create [OF creds_okD(1) [OF assms(1)], of k now] assms(3) by simp
  have "kst_byHash ks h = Some n" if "map_of (kst_keys ks) n = Some e" "carries h e" for n e h
    using that assms(3) creds_okD(2) [OF assms(1), of n e h] assms(2) [of h]
    by (auto simp: keys_Create_def update_conv' indexKey_lookup fresh_digest_def Let_def split: if_splits)
  then show ?thesis using i by (simp add: creds_ok_def)
qed

lemma creds_ok_Update:
  assumes ok: "creds_ok s" and old: "map_of (kst_keys (cs_keys s)) (ke_Name k) = Some old"
    and c: "\<And>h. carries h k \<Longrightarrow> carries h old \<or> fresh_digest h s" and u: "keys_Update now k (cs_keys s) = (ks, None)"
  shows "creds_ok (s\<lparr>cs_keys := ks\<rparr>)"
proof -
  have i: "index_ok {} ks" using index_ok_Update [OF creds_okD(1) [OF ok], of now k] u by simp
  have "kst_byHash ks h = Some n" if e: "map_of (kst_keys ks) n = Some e" "carries h e" for n e h
  proof (cases "n = ke_Name k")
    case True
    then show ?thesis using e u old by (auto simp: keys_Update_def update_conv' indexKey_lookup Let_def split: if_splits)
  next
    case False
    then have n: "map_of (kst_keys (cs_keys s)) n = Some e" using e(1) u old
      by (auto simp: keys_Update_def update_conv' Let_def)
    have "\<not> carries h old" using creds_okD(2) [OF ok old] creds_okD(2) [OF ok n e(2)] False by auto
    then have "\<not> carries h k" using c n e(2) by (auto simp: fresh_digest_def)
    then show ?thesis using u old creds_okD(2) [OF ok n e(2)] unindexOld_other [OF \<open>\<not> carries h old\<close>]
      by (auto simp: keys_Update_def indexKey_lookup Let_def)
  qed
  then show ?thesis using i by (simp add: creds_ok_def)
qed

lemma generated:
  "generateUserAPIKey sha buf = (raw, hash, prefix) \<Longrightarrow> hash = sha (''fk-'' @ hexEncode buf)"
  "generateUserAPIKey sha buf = (raw, hash, prefix) \<Longrightarrow> raw = ''fk-'' @ hexEncode buf"
  by (auto simp: generateUserAPIKey_def Let_def)

lemma carries_newUserKey: "carries h (newUserKey req hash prefix) \<Longrightarrow> h = hash"
  by (auto simp: carries_def newUserKey_def)

lemma carries_rotated: "carries h (rotatedEntry now hash prefix e) \<Longrightarrow> h = hash \<or> carries h e"
  by (auto simp: carries_def rotatedEntry_def)

lemma rotated_simps [simp]:
  "ke_Name (rotatedEntry now hash prefix e) = ke_Name e" "ke_KeyHash (rotatedEntry now hash prefix e) = hash"
  "ke_KeyPrevHash (rotatedEntry now hash prefix e) = ke_KeyHash e" "ke_KeyRotatedAt (rotatedEntry now hash prefix e) = Some now"
  "ke_Status (rotatedEntry now hash prefix e) = ke_Status e"
  by (simp_all add: rotatedEntry_def)

lemma creds_ok_teams: "creds_ok s \<Longrightarrow> creds_ok (s\<lparr>cs_teams := ts\<rparr>)"
  by (simp add: creds_ok_def)

lemma creds_ok_name: "creds_ok s \<Longrightarrow> map_of (kst_keys (cs_keys s)) n = Some e \<Longrightarrow> ke_Name e = n"
  using creds_okD(1) index_okD(1) by blast

text \<open>What a rotation writes, whatever happened since it read the entry.\<close>

lemma creds_ok_rotateWrite:
  assumes ok: "creds_ok s" and f: "fresh_digest (sha (''fk-'' @ hexEncode buf)) s"
    and cur: "map_of (kst_keys (cs_keys s)) (ke_Name e) = Some old" "ke_KeyHash old = ke_KeyHash e"
  shows "creds_ok (fst (rotateWrite sha (Some buf) now e s))"
proof -
  obtain raw hash prefix where g: "generateUserAPIKey sha buf = (raw, hash, prefix)" by (metis prod_cases3)
  then have h: "hash = sha (''fk-'' @ hexEncode buf)" by (rule generated)
  let ?k = "rotatedEntry now hash prefix e"
  obtain ks where u: "keys_Update now ?k (cs_keys s) = (ks, None)" using cur(1) by (simp add: keys_Update_def Let_def)
  have "creds_ok (s\<lparr>cs_keys := ks\<rparr>)"
  proof (rule creds_ok_Update [OF ok _ _ u])
    show "map_of (kst_keys (cs_keys s)) (ke_Name ?k) = Some old" using cur(1) by simp
    show "carries h' ?k \<Longrightarrow> carries h' old \<or> fresh_digest h' s" for h'
      using cur(2) f h by (auto simp: carries_def)
  qed
  then show ?thesis using g u by (simp add: rotateWrite_def creds_ok_def Let_def)
qed

lemma issuing_ok: "issuing sha s \<Longrightarrow> creds_ok s"
proof (induction rule: issuing.induct)
  case (start ts)
  then show ?case by (simp add: creds_ok_def index_ok_def NewKeyStore_def)
next
  case (create s buf now req)
  show ?case
  proof (cases req)
    case (Some rq)
    obtain raw hash prefix where g: "generateUserAPIKey sha buf = (raw, hash, prefix)" by (metis prod_cases3)
    then have h: "hash = sha (''fk-'' @ hexEncode buf)" by (rule generated)
    have "creds_ok (s\<lparr>cs_keys := ks\<rparr>)" if "keys_Create now (newUserKey rq hash prefix) (cs_keys s) = (ks, None)" for ks
      using creds_ok_Create [OF create.IH _ that] create.hyps(2) h carries_newUserKey by blast
    then have "creds_ok \<lparr>cs_keys = ks, cs_teams = ts\<rparr>"
      if "keys_Create now (newUserKey rq hash prefix) (cs_keys s) = (ks, None)" for ks ts
      using that by (simp add: creds_ok_def)
    then show ?thesis using Some g create.IH by (auto simp: handleUserKeyCreate_def Let_def split: option.split prod.split)
  qed (use create.IH in \<open>simp add: handleUserKeyCreate_def\<close>)
next
  case (rotate s buf now name)
  show ?case
  proof (cases "rotateRead name s")
    case (Inr e)
    then have e: "map_of (kst_keys (cs_keys s)) name = Some e"
      by (auto simp: rotateRead_def keys_Get_def split: option.splits sum.splits if_splits)
    then show ?thesis
      using creds_ok_rotateWrite [where sha = sha and now = now and e = e, OF rotate.IH rotate.hyps(2)] creds_ok_name [OF rotate.IH e] Inr
      by (simp add: handleUserKeyRotate_def)
  qed (use rotate.IH in \<open>simp add: handleUserKeyRotate_def\<close>)
next
  case (revoke s now name)
  show ?case
  proof (cases "map_of (kst_keys (cs_keys s)) name")
    case (Some e)
    have n: "ke_Name e = name" using creds_ok_name [OF revoke.IH Some] .
    obtain ks where u: "keys_Update now (e\<lparr>ke_Status := ''revoked''\<rparr>) (cs_keys s) = (ks, None)"
      using Some n by (simp add: keys_Update_def Let_def)
    have "creds_ok (s\<lparr>cs_keys := ks\<rparr>)" using creds_ok_Update [OF revoke.IH _ _ u, of e] Some n by simp
    then show ?thesis using Some u revoke.IH by (simp add: handleUserKeyRevoke_def keys_Get_def)
  qed (use revoke.IH in \<open>simp add: handleUserKeyRevoke_def keys_Get_def\<close>)
next
  case (usage s name a b c d)
  let ?k = "\<lambda>k. k\<lparr>ke_QuotaUsed := a, ke_QuotaRemaining := b, ke_DailyUsed := c, ke_DailyDate := d\<rparr>"
  have "kst_byHash (UpdateUsage name a b c d (cs_keys s)) = kst_byHash (cs_keys s)"
    by (simp add: UpdateUsage_def split: option.split)
  moreover have "\<exists>e'. map_of (kst_keys (cs_keys s)) n = Some e' \<and> carries h e' = carries h e"
    if "map_of (kst_keys (UpdateUsage name a b c d (cs_keys s))) n = Some e" for n e h
    using that by (auto simp: UpdateUsage_def update_conv' split: option.splits if_splits)
  ultimately have "kst_byHash (UpdateUsage name a b c d (cs_keys s)) h = Some n"
    if "map_of (kst_keys (UpdateUsage name a b c d (cs_keys s))) n = Some e" "carries h e" for n e h
    using that creds_okD(2) [OF usage.IH, of n _ h] by fastforce
  then show ?case using index_ok_Usage [OF creds_okD(1) [OF usage.IH]] by (simp add: creds_ok_def)
qed (simp add: creds_ok_teams)

text \<open>The lookup of a complete index: exactly the keys the credential is valid for.\<close>

lemma lookup_exact:
  assumes "creds_ok s" "sha key \<noteq> ''''"
  shows "map_option akc_Name (lookupKeyByHash sha tf (memoryLookup s) key grace now) = Some n \<longleftrightarrow>
    (\<exists>e. map_of (kst_keys (cs_keys s)) n = Some e \<and> credential_valid sha grace now key e)"
    (is "?L \<longleftrightarrow> ?R")
proof
  assume ?L
  then obtain kc where kc: "lookupKeyByHash sha tf (memoryLookup s) key grace now = Some kc" "akc_Name kc = n" by auto
  then show ?R using memory_lookup_entry [of s sha tf key grace now kc] creds_okD(1) [OF assms(1)] by blast
next
  assume ?R
  then obtain e where e: "map_of (kst_keys (cs_keys s)) n = Some e" "credential_valid sha grace now key e" by blast
  then have "carries (sha key) e" using assms(2) by (auto simp: carries_def credential_valid_def)
  then have "keys_GetByHash (sha key) (cs_keys s) = Some e" using creds_okD(2) [OF assms(1) e(1)] e(1) by (simp add: keys_GetByHash_def)
  then show ?L using e(2) creds_ok_name [OF assms(1) e(1)]
    by (auto simp: lookupKeyByHash_def memoryLookup_def credential_valid_def Let_def split: option.split)
qed

text \<open>
  C21. A credential authenticates exactly while it should.  In every store the handlers can reach, the lookup of a credential
  answers with a key exactly when that key is active and the credential is its current one or, within the rotation grace, its
  previous one.  In particular an issued credential works at once, a rotation keeps the old one alive for exactly the grace, and a
  revocation kills both at once.
\<close>

theorem credential_lookup_exact:
  assumes "issuing sha s" "sha key \<noteq> ''''"
  shows "map_option akc_Name (lookupKeyByHash sha tf (memoryLookup s) key grace now) = Some n \<longleftrightarrow>
    (\<exists>e. map_of (kst_keys (cs_keys s)) n = Some e \<and> credential_valid sha grace now key e)"
  using issuing_ok [OF assms(1)] assms(2) by (rule lookup_exact)

definition script_issue :: "CredentialStore \<times> key_answer" where
  "script_issue = handleUserKeyCreate id (Some [10]) 1 (Some script_request) \<lparr>cs_keys = NewKeyStore, cs_teams = seedDefaults 0\<rparr>"

lemma script_issued: "issuing id (fst script_issue)"
  unfolding script_issue_def by (rule issuing.create [OF issuing.start]) (simp add: fresh_digest_def NewKeyStore_def)

theorem credential_lookup_exact_witness:
  "map_option akc_Name (lookupKeyByHash id script_format (memoryLookup (fst script_issue)) ''fk-0a'' 10 7) = Some ''ci''"
proof -
  have "(case map_of (kst_keys (cs_keys (fst script_issue))) ''ci'' of None \<Rightarrow> False
      | Some e \<Rightarrow> ke_Status e = ''active'' \<and> ke_KeyHash e = ''fk-0a'')"
    by code_simp
  then have "\<exists>e. map_of (kst_keys (cs_keys (fst script_issue))) ''ci'' = Some e \<and> credential_valid id 10 7 ''fk-0a'' e"
    by (auto simp: credential_valid_def split: option.splits)
  then show ?thesis
    using credential_lookup_exact [OF script_issued, where key = "''fk-0a''" and tf = script_format and grace = 10 and now = 7 and n = "''ci''"]
    by simp
qed

lemma rotateRead_active: "rotateRead name s = Inr e \<Longrightarrow> map_of (kst_keys (cs_keys s)) name = Some e \<and> ke_Status e = ''active''"
  by (auto simp: rotateRead_def keys_Get_def split: option.splits if_splits)

lemma rotateWrite_entry:
  assumes "generateUserAPIKey sha buf = (raw, hash, prefix)" "map_of (kst_keys (cs_keys s)) (ke_Name e) \<noteq> None"
    "rotateWrite sha (Some buf) now e s = (s', ans)"
  shows "\<exists>e' resp. ans = KeyIssued 200 resp \<and> uk_RawKey resp = raw \<and> map_of (kst_keys (cs_keys s')) (ke_Name e) = Some e' \<and>
    ke_KeyHash e' = hash \<and> ke_KeyPrevHash e' = ke_KeyHash e \<and> ke_KeyRotatedAt e' = Some now \<and> ke_Status e' = ke_Status e"
proof -
  obtain old where "map_of (kst_keys (cs_keys s)) (ke_Name e) = Some old" using assms(2) by blast
  then show ?thesis using assms(1,3) by (auto simp: rotateWrite_def keys_Update_def update_conv' Let_def)
qed

lemma revoke_entry:
  assumes "creds_ok s" "handleUserKeyRevoke now name s = (s', KeyRevoked name)"
  shows "creds_ok s'" "\<exists>e e'. map_of (kst_keys (cs_keys s)) name = Some e \<and> map_of (kst_keys (cs_keys s')) name = Some e' \<and>
    ke_Status e' = ''revoked'' \<and> (\<forall>h. carries h e' = carries h e) \<and> ke_KeyHash e' = ke_KeyHash e"
    "fresh_digest h s \<Longrightarrow> fresh_digest h s'"
proof -
  obtain e where e: "map_of (kst_keys (cs_keys s)) name = Some e"
    using assms(2) by (auto simp: handleUserKeyRevoke_def keys_Get_def split: option.splits)
  have n: "ke_Name e = name" using creds_ok_name [OF assms(1) e] .
  obtain ks where u: "keys_Update now (e\<lparr>ke_Status := ''revoked''\<rparr>) (cs_keys s) = (ks, None)" "s' = s\<lparr>cs_keys := ks\<rparr>"
    using assms(2) e n by (auto simp: handleUserKeyRevoke_def keys_Get_def keys_Update_def Let_def split: if_splits)
  show "creds_ok s'" using creds_ok_Update [OF assms(1) _ _ u(1), of e] e n u(2) by simp
  have m: "map_of (kst_keys ks) = (map_of (kst_keys (cs_keys s)))(name \<mapsto> e\<lparr>ke_Status := ''revoked'', ke_UpdatedAt := now,
      ke_QuotaRemaining := ke_QuotaLimit e - ke_QuotaUsed e\<rparr>)"
    using u(1) e n by (auto simp: keys_Update_def update_conv Let_def)
  show "\<exists>e e'. map_of (kst_keys (cs_keys s)) name = Some e \<and> map_of (kst_keys (cs_keys s')) name = Some e' \<and>
    ke_Status e' = ''revoked'' \<and> (\<forall>h. carries h e' = carries h e) \<and> ke_KeyHash e' = ke_KeyHash e"
    using e m u(2) by simp
  show "fresh_digest h s \<Longrightarrow> fresh_digest h s'" using e m u(2) by (auto simp: fresh_digest_def)
qed

text \<open>
  A revocation can be lost.  Rotation reads the entry, and writes all of it back later.  When a revocation is answered in
  between, the rotation still succeeds and restores the status it read: the revoked key is active again, with a new credential
  and with its old one for the grace.
\<close>

theorem revocation_lost_by_rotation:
  assumes "issuing sha s" "fresh_digest (sha (''fk-'' @ hexEncode buf)) s"
    and "rotateRead name s = Inr e"
    and "handleUserKeyRevoke t1 name s = (s1, KeyRevoked name)"
    and "rotateWrite sha (Some buf) t2 e s1 = (s2, ans)"
  shows "\<exists>resp. ans = KeyIssued 200 resp \<and>
    map_option akc_Name (lookupKeyByHash sha tf (memoryLookup s2) (uk_RawKey resp) grace now) = Some name"
proof -
  have ok: "creds_ok s" by (rule issuing_ok [OF assms(1)])
  have e: "map_of (kst_keys (cs_keys s)) name = Some e" "ke_Status e = ''active''" using rotateRead_active [OF assms(3)] by auto
  note r = revoke_entry [OF ok assms(4)]
  have n: "ke_Name e = name" using creds_ok_name [OF ok e(1)] .
  obtain raw hash prefix where g: "generateUserAPIKey sha buf = (raw, hash, prefix)" by (metis prod_cases3)
  obtain e1 where e1: "map_of (kst_keys (cs_keys s1)) (ke_Name e) = Some e1" "ke_KeyHash e1 = ke_KeyHash e"
    using r(2) e(1) n by auto
  obtain e2 resp where e2: "ans = KeyIssued 200 resp" "uk_RawKey resp = raw" "map_of (kst_keys (cs_keys s2)) name = Some e2"
      "ke_KeyHash e2 = hash" "ke_Status e2 = ''active''"
    using rotateWrite_entry [OF g _ assms(5)] e1(1) e(2) n by auto
  have "creds_ok s2" using creds_ok_rotateWrite [where sha = sha and now = t2, OF r(1) r(3) [OF assms(2)] e1] assms(5) by simp
  moreover have "sha raw = hash" "hash \<noteq> ''''" using generated [OF g] assms(2) by (auto simp: fresh_digest_def)
  ultimately have "map_option akc_Name (lookupKeyByHash sha tf (memoryLookup s2) raw grace now) = Some name"
    using e2 lookup_exact [of s2 sha raw tf grace now name] by (auto simp: credential_valid_def simp del: map_option_eq_Some)
  then show ?thesis using e2 by auto
qed

theorem revocation_lost_by_rotation_witness:
  "\<exists>e s1 s2 resp. rotateRead ''ci'' (fst script_issue) = Inr e \<and>
     handleUserKeyRevoke 2 ''ci'' (fst script_issue) = (s1, KeyRevoked ''ci'') \<and>
     rotateWrite id (Some [11]) 3 e s1 = (s2, KeyIssued 200 resp) \<and>
     map_option akc_Name (lookupKeyByHash id script_format (memoryLookup s2) (uk_RawKey resp) 10 7) = Some ''ci''"
proof -
  have "\<not> isl (rotateRead ''ci'' (fst script_issue))" by code_simp
  then obtain e where e: "rotateRead ''ci'' (fst script_issue) = Inr e" by (cases "rotateRead ''ci'' (fst script_issue)") auto
  have "snd (handleUserKeyRevoke 2 ''ci'' (fst script_issue)) = KeyRevoked ''ci''" by code_simp
  then obtain s1 where s1: "handleUserKeyRevoke 2 ''ci'' (fst script_issue) = (s1, KeyRevoked ''ci'')" by (metis prod.collapse)
  obtain s2 ans where s2: "rotateWrite id (Some [11]) 3 e s1 = (s2, ans)" by (cases "rotateWrite id (Some [11]) 3 e s1")
  have "list_all (\<lambda>(n, e). ke_KeyHash e \<noteq> ''fk-'' @ hexEncode [11] \<and> ke_KeyPrevHash e \<noteq> ''fk-'' @ hexEncode [11])
      (kst_keys (cs_keys (fst script_issue)))" by code_simp
  then have "fresh_digest (id (''fk-'' @ hexEncode [11])) (fst script_issue)"
    by (fastforce simp: fresh_digest_def carries_def list_all_iff dest: map_of_SomeD)
  then obtain resp where "ans = KeyIssued 200 resp"
      "map_option akc_Name (lookupKeyByHash id script_format (memoryLookup s2) (uk_RawKey resp) 10 7) = Some ''ci''"
    using revocation_lost_by_rotation [OF script_issued _ e s1 s2, of script_format 10 7] by blast
  then show ?thesis using e s1 s2 by blast
qed

section \<open>Restart and deletion\<close>

lemma loaded_index:
  "kst_byHash (fst (loadKeys (KeysStored entries) s)) h = Some n \<Longrightarrow> kst_byHash s h = Some n \<or> (\<exists>e \<in> set entries. ke_KeyHash e = h)"
  unfolding loadKeys_def keys_file.case fst_conv
proof (induction entries arbitrary: s)
  case (Cons k ks)
  let ?s1 = "loadKey (ke_Name k) (k\<lparr>ke_QuotaRemaining := ke_QuotaLimit k - ke_QuotaUsed k\<rparr>) s"
  from Cons.IH [of ?s1] Cons.prems have "kst_byHash ?s1 h = Some n \<or> (\<exists>e \<in> set ks. ke_KeyHash e = h)" by simp
  moreover have "kst_byHash ?s1 h = Some n \<Longrightarrow> kst_byHash s h = Some n \<or> ke_KeyHash k = h"
    by (simp add: loadKey_def split: if_splits)
  ultimately show ?case by auto
qed simp

lemma issuing_names: "issuing sha s \<Longrightarrow> distinct (map fst (kst_keys (cs_keys s)))"
proof (induction rule: issuing.induct)
  case (create s buf now req)
  then show ?case
    by (auto simp: handleUserKeyCreate_def keys_Create_def distinct_update Let_def split: option.split prod.splits if_splits)
next
  case (rotate s buf now name)
  then show ?case
    by (auto simp: handleUserKeyRotate_def rotateWrite_def keys_Update_def distinct_update Let_def split: option.split sum.split prod.splits)
next
  case (revoke s now name)
  then show ?case
    by (auto simp: handleUserKeyRevoke_def keys_Update_def distinct_update Let_def split: option.split sum.split prod.splits)
qed (auto simp: NewKeyStore_def UpdateUsage_def distinct_update split: option.split)

text \<open>
  A restart ends the rotation grace.  Loading \<^verbatim>\<open>keys.json\<close> indexes current digests only, so in the restarted store the
  previous credential of a key is refused at any time, also where the running store accepts it because the grace has not passed.
\<close>

theorem restart_ends_rotation_grace:
  assumes "issuing sha s" "map_of (kst_keys (cs_keys s)) n = Some e"
    and "ke_Status e = ''active''" "ke_KeyRotatedAt e = Some t" "now - t \<le> grace"
    and "sha key = ke_KeyPrevHash e" "sha key \<noteq> ''''" "ke_KeyHash e \<noteq> ke_KeyPrevHash e"
  shows "map_option akc_Name (lookupKeyByHash sha tf (memoryLookup s) key grace now) = Some n \<and>
    lookupKeyByHash sha tf (memoryLookup (s\<lparr>cs_keys := key_step (cs_keys s) (EvRestart it)\<rparr>)) key grace now = None"
proof -
  have ok: "creds_ok s" by (rule issuing_ok [OF assms(1)])
  have c: "carries (sha key) e" using assms(6,7) by (simp add: carries_def)
  have "ke_KeyHash e' \<noteq> sha key" if "(n', e') \<in> set (kst_keys (cs_keys s))" for n' e'
  proof
    assume "ke_KeyHash e' = sha key"
    have m: "map_of (kst_keys (cs_keys s)) n' = Some e'" using that issuing_names [OF assms(1)] by simp
    moreover have "carries (sha key) e'" using \<open>ke_KeyHash e' = sha key\<close> assms(7) by (simp add: carries_def)
    ultimately have "n' = n" using creds_okD(2) [OF ok m, of "sha key"] creds_okD(2) [OF ok assms(2) c] by simp
    then show False using m assms(2,6,8) \<open>ke_KeyHash e' = sha key\<close> by simp
  qed
  then have "kst_byHash (key_step (cs_keys s) (EvRestart it)) (sha key) = None"
    using loaded_index [of "keys_List it (cs_keys s)" NewKeyStore "sha key"]
    by (cases "kst_byHash (key_step (cs_keys s) (EvRestart it)) (sha key)") (auto simp: keys_List_def NewKeyStore_def)
  moreover have "credential_valid sha grace now key e" using assms by (simp add: credential_valid_def)
  ultimately show ?thesis using lookup_exact [OF ok, of sha key tf grace now n] assms(2,7)
    by (auto simp: lookupKeyByHash_def memoryLookup_def keys_GetByHash_def Let_def simp del: map_option_eq_Some)
qed

definition script_rotate :: "CredentialStore \<times> key_answer" where
  "script_rotate = handleUserKeyRotate id (Some [11]) 5 ''ci'' (fst script_issue)"

lemma script_rotated: "issuing id (fst script_rotate)"
proof -
  have "list_all (\<lambda>(n, e). ke_KeyHash e \<noteq> ''fk-'' @ hexEncode [11] \<and> ke_KeyPrevHash e \<noteq> ''fk-'' @ hexEncode [11])
      (kst_keys (cs_keys (fst script_issue)))" by code_simp
  then have "fresh_digest (id (''fk-'' @ hexEncode [11])) (fst script_issue)"
    by (fastforce simp: fresh_digest_def carries_def list_all_iff dest: map_of_SomeD)
  then show ?thesis unfolding script_rotate_def by (rule issuing.rotate [OF script_issued])
qed

theorem restart_ends_rotation_grace_witness:
  "map_option akc_Name (lookupKeyByHash id script_format (memoryLookup (fst script_rotate)) ''fk-0a'' 10 7) = Some ''ci'' \<and>
   lookupKeyByHash id script_format (memoryLookup ((fst script_rotate)\<lparr>cs_keys := key_step (cs_keys (fst script_rotate)) (EvRestart id)\<rparr>)) ''fk-0a'' 10 7 = None"
proof -
  have "(case map_of (kst_keys (cs_keys (fst script_rotate))) ''ci'' of None \<Rightarrow> False
      | Some e \<Rightarrow> ke_Status e = ''active'' \<and> ke_KeyRotatedAt e = Some 5 \<and> ke_KeyPrevHash e = ''fk-0a'' \<and> ke_KeyHash e = ''fk-0b'')"
    by code_simp
  then obtain e where "map_of (kst_keys (cs_keys (fst script_rotate))) ''ci'' = Some e" "ke_Status e = ''active''"
      "ke_KeyRotatedAt e = Some 5" "ke_KeyPrevHash e = ''fk-0a''" "ke_KeyHash e = ''fk-0b''"
    by (auto split: option.splits)
  then show ?thesis
    using restart_ends_rotation_grace [OF script_rotated, of "''ci''" e 5 7 10 "''fk-0a''" script_format id] by simp
qed

text \<open>
  Why the histories of authentication may not reuse names: deleting a rotated key leaves its previous digest in the index, so
  once another key of the same name is created, the old credential authenticates as that key, at any time.
\<close>

lemma deleted_credential_revived:
  fixes t
  assumes "creds_ok s" "map_of (kst_keys (cs_keys s)) n = Some e" "sha key = ke_KeyPrevHash e" "sha key \<noteq> ''''"
    "ke_KeyHash e \<noteq> ke_KeyPrevHash e" "ke_Name k = n" "ke_Status k = ''active''" "\<not> carries (sha key) k"
  defines "ks \<equiv> fst (keys_Create t k (fst (keys_Delete n (cs_keys s))))"
  shows "map_option akc_Name (lookupKeyByHash sha tf (memoryLookup (s\<lparr>cs_keys := ks\<rparr>)) key grace now) = Some n"
proof -
  have "kst_byHash (cs_keys s) (sha key) = Some n" using creds_okD(2) [OF assms(1,2)] assms(3,4) by (simp add: carries_def)
  moreover have "map_of (kst_keys (fst (keys_Delete n (cs_keys s)))) n = None" using assms(2) by (simp add: keys_Delete_def delete_conv')
  ultimately have "keys_GetByHash (sha key) ks = Some (k\<lparr>ke_CreatedAt := t, ke_UpdatedAt := t, ke_QuotaRemaining := ke_QuotaLimit k - ke_QuotaUsed k\<rparr>)"
    using assms(2-8) by (simp add: ks_def keys_GetByHash_def keys_Create_def keys_Delete_def update_conv' indexKey_lookup Let_def)
  then show ?thesis using assms(4,6,7,8)
    by (auto simp: lookupKeyByHash_def memoryLookup_def carries_def Let_def simp del: map_option_eq_Some)
qed

text \<open>A configured key with a team needs a store: without one the middleware dereferences nil.\<close>

lemma nil_store_panics:
  assumes "akc_TeamID kc \<noteq> ''''" "pr_Team p = None"
  shows "snd (acceptKey None key kc p ctx) = Some Panics"
  using assms by (simp add: acceptKey_def Let_def)

end
