(* ===== verification/Budgets.thy ===== *)
theory Budgets
  imports Principals Key_Store Team_Store
begin

text \<open>
  Budgets of keys and teams: the per-key usage (\<^verbatim>\<open>store/memory/quota.go\<close>), its persistence (\<^verbatim>\<open>store/memory/persist.go\<close>), the
  gate in front of the handlers (\<^verbatim>\<open>middleware/budget.go\<close>) and the charge at the end of a request (\<^verbatim>\<open>chargeQuota\<close> and
  \<^verbatim>\<open>recordAndCharge\<close> in \<^verbatim>\<open>server/server.go\<close>).

  The record \<open>BudgetStore\<close> is the part of the memory store these read and write: keys, teams and the three usage maps.  The local
  date of an instant is the parameter \<open>day\<close>, the price of a request is computed elsewhere and is an argument.
\<close>

section \<open>Usage per key\<close>

record BudgetStore =
  bs_keys :: KeyStore
  bs_teams :: TeamsStore
  bs_usage :: "(string \<times> float64) list"
  bs_dailyUsage :: "(string \<times> float64) list"
  bs_dailyDate :: "(string \<times> string) list"

abbreviation usage_of :: "BudgetStore \<Rightarrow> string \<Rightarrow> float64" where "usage_of q name \<equiv> get_rat (map_of (bs_usage q)) name"
abbreviation daily_of :: "BudgetStore \<Rightarrow> string \<Rightarrow> float64" where "daily_of q name \<equiv> get_rat (map_of (bs_dailyUsage q)) name"
abbreviation date_of :: "BudgetStore \<Rightarrow> string \<Rightarrow> string" where "date_of q name \<equiv> get_str (map_of (bs_dailyDate q)) name"

definition rolloverLocked :: "string \<Rightarrow> string \<Rightarrow> BudgetStore \<Rightarrow> BudgetStore" where
  "rolloverLocked keyName today q =
     (if date_of q keyName \<noteq> today
      then q\<lparr>bs_dailyUsage := AList.update keyName 0 (bs_dailyUsage q), bs_dailyDate := AList.update keyName today (bs_dailyDate q)\<rparr>
      else q)"

record quota_result =
  qr_used :: float64
  qr_limit :: float64
  qr_exceeded :: bool
  qr_err :: "key_error option"

definition quota_Check :: "(time \<Rightarrow> string) \<Rightarrow> time \<Rightarrow> string \<Rightarrow> BudgetStore \<Rightarrow> BudgetStore \<times> quota_result" where
  "quota_Check day now keyName q =
     (case keys_Get keyName (bs_keys q) of
        Inl e \<Rightarrow> (q, \<lparr>qr_used = usage_of q keyName, qr_limit = 0, qr_exceeded = False, qr_err = Some e\<rparr>)
      | Inr k \<Rightarrow>
          (let limit = (if ke_BudgetLimit k \<le> 0 then ke_QuotaLimit k else ke_BudgetLimit k); used = usage_of q keyName
           in if limit > 0 \<and> used \<ge> limit then (q, \<lparr>qr_used = used, qr_limit = limit, qr_exceeded = True, qr_err = None\<rparr>)
              else
                (let q1 = rolloverLocked keyName (day now) q
                 in (q1, \<lparr>qr_used = used, qr_limit = limit,
                          qr_exceeded = (ke_DailyBudgetLimit k > 0 \<and> daily_of q1 keyName \<ge> ke_DailyBudgetLimit k), qr_err = None\<rparr>))))"

definition quota_Deduct :: "(time \<Rightarrow> string) \<Rightarrow> time \<Rightarrow> string \<Rightarrow> float64 \<Rightarrow> BudgetStore \<Rightarrow> BudgetStore" where
  "quota_Deduct day now keyName amount q0 =
     (let q1 = q0\<lparr>bs_usage := AList.update keyName (usage_of q0 keyName + amount) (bs_usage q0)\<rparr>;
          q2 = rolloverLocked keyName (day now) q1;
          q = q2\<lparr>bs_dailyUsage := AList.update keyName (daily_of q2 keyName + amount) (bs_dailyUsage q2)\<rparr>
      in case keys_Get keyName (bs_keys q) of
           Inl _ \<Rightarrow> q
         | Inr k \<Rightarrow>
             (let remaining = (if ke_QuotaLimit k > 0 then ke_QuotaLimit k - usage_of q keyName else ke_QuotaRemaining k)
              in q\<lparr>bs_keys := UpdateUsage keyName (usage_of q keyName) remaining (daily_of q keyName) (date_of q keyName) (bs_keys q)\<rparr>))"

definition GetUsage :: "string \<Rightarrow> BudgetStore \<Rightarrow> float64" where
  "GetUsage keyName q = usage_of q keyName"

definition SetUsage :: "string \<Rightarrow> float64 \<Rightarrow> BudgetStore \<Rightarrow> BudgetStore" where
  "SetUsage keyName amount q = q\<lparr>bs_usage := AList.update keyName amount (bs_usage q)\<rparr>"

definition quota_DailyUsage :: "(time \<Rightarrow> string) \<Rightarrow> time \<Rightarrow> string \<Rightarrow> BudgetStore \<Rightarrow> BudgetStore \<times> float64 \<times> string" where
  "quota_DailyUsage day now keyName q =
     (let q1 = rolloverLocked keyName (day now) q in (q1, daily_of q1 keyName, date_of q1 keyName))"

definition forgetUsage :: "string \<Rightarrow> BudgetStore \<Rightarrow> BudgetStore" where
  "forgetUsage name q =
     q\<lparr>bs_usage := AList.delete name (bs_usage q), bs_dailyUsage := AList.delete name (bs_dailyUsage q),
       bs_dailyDate := AList.delete name (bs_dailyDate q)\<rparr>"

text \<open>The second component tells whether a write was scheduled.\<close>

definition ReclaimKey :: "string \<Rightarrow> BudgetStore \<Rightarrow> BudgetStore \<times> bool" where
  "ReclaimKey keyName q =
     (forgetUsage keyName q,
      map_of (bs_usage q) keyName \<noteq> None \<or> map_of (bs_dailyUsage q) keyName \<noteq> None \<or> map_of (bs_dailyDate q) keyName \<noteq> None)"

definition quota_DeleteKey :: "string \<Rightarrow> BudgetStore \<Rightarrow> BudgetStore \<times> key_error option" where
  "quota_DeleteKey name q =
     (case keys_Delete name (bs_keys q) of
        (ks, Some e) \<Rightarrow> (q, Some e)
      | (ks, None) \<Rightarrow> (fst (ReclaimKey name (q\<lparr>bs_keys := ks\<rparr>)), None))"

text \<open>\<open>parse\<close> is \<^verbatim>\<open>time.ParseInLocation\<close> with the layout of a date.\<close>

definition staleUnknown :: "(string \<Rightarrow> time option) \<Rightarrow> time \<Rightarrow> BudgetStore \<Rightarrow> string \<times> string \<Rightarrow> bool" where
  "staleUnknown parse cutoff q e \<longleftrightarrow>
     map_of (kst_keys (bs_keys q)) (fst e) = None \<and> (case parse (snd e) of None \<Rightarrow> False | Some seen \<Rightarrow> seen \<le> cutoff)"

definition PruneUnknownStale ::
    "((string \<times> string) list \<Rightarrow> (string \<times> string) list) \<Rightarrow> (string \<Rightarrow> time option) \<Rightarrow> time \<Rightarrow> BudgetStore \<Rightarrow> BudgetStore \<times> nat" where
  "PruneUnknownStale it parse cutoff q =
     (let names = map fst (filter (staleUnknown parse cutoff q) (iterate it (bs_dailyDate q)))
      in (foldl (\<lambda>q n. forgetUsage n q) q names, length names))"

record quota_payload =
  qp_Usage :: "(string \<times> float64) list"
  qp_DailyUsage :: "(string \<times> float64) list"
  qp_DailyDate :: "(string \<times> string) list"

definition SnapshotQuota :: "BudgetStore \<Rightarrow> quota_payload" where
  "SnapshotQuota q = \<lparr>qp_Usage = bs_usage q, qp_DailyUsage = bs_dailyUsage q, qp_DailyDate = bs_dailyDate q\<rparr>"

definition mergeEntries :: "(string \<times> 'v) list \<Rightarrow> (string \<times> 'v) list \<Rightarrow> (string \<times> 'v) list" where
  "mergeEntries new m = foldl (\<lambda>m (k, v). AList.update k v m) m new"

definition seedKey :: "quota_payload \<Rightarrow> string \<times> float64 \<Rightarrow> KeyStore \<Rightarrow> KeyStore" where
  "seedKey pl e ks =
     (case keys_Get (fst e) ks of
        Inl _ \<Rightarrow> ks
      | Inr k \<Rightarrow>
          UpdateUsage (fst e) (snd e) (if ke_QuotaLimit k > 0 then ke_QuotaLimit k - snd e else ke_QuotaRemaining k)
            (case map_of (qp_DailyUsage pl) (fst e) of Some du \<Rightarrow> du | None \<Rightarrow> ke_DailyUsed k)
            (case map_of (qp_DailyDate pl) (fst e) of Some dd \<Rightarrow> dd | None \<Rightarrow> ke_DailyDate k) ks)"

definition SeedUsage :: "((string \<times> float64) list \<Rightarrow> (string \<times> float64) list) \<Rightarrow> quota_payload \<Rightarrow> BudgetStore \<Rightarrow> BudgetStore" where
  "SeedUsage it pl q =
     q\<lparr>bs_usage := mergeEntries (qp_Usage pl) (bs_usage q), bs_dailyUsage := mergeEntries (qp_DailyUsage pl) (bs_dailyUsage q),
       bs_dailyDate := mergeEntries (qp_DailyDate pl) (bs_dailyDate q),
       bs_keys := foldl (\<lambda>ks e. seedKey pl e ks) (bs_keys q) (iterate it (qp_Usage pl))\<rparr>"

definition SaveQuota :: "string \<Rightarrow> bool \<Rightarrow> BudgetStore \<Rightarrow> quota_payload option \<Rightarrow> quota_payload option" where
  "SaveQuota dataDir ok q disk = (if dataDir = '''' then disk else if ok then Some (SnapshotQuota q) else disk)"

definition loadQuota ::
    "((string \<times> float64) list \<Rightarrow> (string \<times> float64) list) \<Rightarrow> ((string \<times> string) list \<Rightarrow> (string \<times> string) list) \<Rightarrow>
      (string \<Rightarrow> time option) \<Rightarrow> time \<Rightarrow> quota_payload option \<Rightarrow> BudgetStore \<Rightarrow> BudgetStore" where
  "loadQuota it itd parse weekAgo disk q =
     (case disk of None \<Rightarrow> q | Some pl \<Rightarrow> fst (PruneUnknownStale itd parse weekAgo (SeedUsage it pl q)))"

section \<open>The gate and the charge\<close>

text \<open>The store of the gate may be nil.\<close>

definition BudgetBlock :: "(time \<Rightarrow> string) \<Rightarrow> time \<Rightarrow> BudgetStore option \<Rightarrow> RequestCtx \<Rightarrow> BudgetStore option \<times> refusal" where
  "BudgetBlock day now st ctx =
     (case GetAuthKeyConfig ctx of
        None \<Rightarrow> (st, None)
      | Some kc \<Rightarrow>
          if akc_Name kc = '''' then (st, None)
          else if akc_BudgetLimit kc \<le> 0 \<and> akc_DailyBudgetLimit kc \<le> 0 then (st, None)
          else (case st of
             None \<Rightarrow> (st, None)
           | Some q \<Rightarrow>
               (case quota_Check day now (akc_Name kc) q of (q1, res) \<Rightarrow>
                  if qr_err res \<noteq> None then (Some q1, Some (Respond 503 ''Budget quota check unavailable''))
                  else if qr_exceeded res then (Some q1, Some (Respond 403 ''Budget quota exceeded''))
                  else (case rc_Principal ctx of
                     Some p \<Rightarrow>
                       (case pr_Team p of
                          Some team \<Rightarrow>
                            if ti_ID team \<noteq> '''' \<and> \<not> snd (snd (teams_CheckQuota day now (ti_ID team) (bs_teams q1)))
                            then (Some q1, Some (Respond 403 ''Tenant quota exceeded'')) else (Some q1, None)
                        | None \<Rightarrow> (Some q1, None))
                   | None \<Rightarrow> (Some q1, None)))))"

definition chargeQuota :: "(time \<Rightarrow> string) \<Rightarrow> time \<Rightarrow> string \<Rightarrow> string \<Rightarrow> float64 \<Rightarrow> BudgetStore option \<Rightarrow> BudgetStore option" where
  "chargeQuota day now keyName teamID costUSD st =
     (case st of
        None \<Rightarrow> None
      | Some q \<Rightarrow>
          if costUSD \<le> 0 then Some q
          else
            (let q1 = (if keyName \<noteq> '''' \<and> keyName \<noteq> ''anonymous'' \<and> keyName \<noteq> ''master'' then quota_Deduct day now keyName costUSD q else q)
             in Some (if teamID \<noteq> '''' then q1\<lparr>bs_teams := fst (teams_AddCost day now teamID costUSD (bs_teams q1))\<rparr> else q1)))"

definition chargedKey :: "RequestCtx \<Rightarrow> string" where
  "chargedKey ctx = (case GetAuthKeyConfig ctx of Some kc \<Rightarrow> if akc_Name kc \<noteq> '''' then akc_Name kc else ''anonymous'' | None \<Rightarrow> ''anonymous'')"

definition chargedTeam :: "RequestCtx \<Rightarrow> string" where
  "chargedTeam ctx = (case rc_Principal ctx of Some p \<Rightarrow> (case pr_Team p of Some t \<Rightarrow> ti_ID t | None \<Rightarrow> '''') | None \<Rightarrow> '''')"

text \<open>\<open>billed\<close> is what the cost tracker makes of the tokens of the request.\<close>

definition recordAndCharge :: "(time \<Rightarrow> string) \<Rightarrow> time \<Rightarrow> float64 \<Rightarrow> RequestCtx \<Rightarrow> BudgetStore option \<Rightarrow> BudgetStore option" where
  "recordAndCharge day now billed ctx st = chargeQuota day now (chargedKey ctx) (chargedTeam ctx) billed st"

section \<open>Usage is the ledger of the charges\<close>

datatype budget_event =
  BCheck string
| BCharge string string float64
| BDaily string

fun budget_step :: "(time \<Rightarrow> string) \<Rightarrow> BudgetStore \<Rightarrow> time \<times> budget_event \<Rightarrow> BudgetStore" where
  "budget_step day q (now, BCheck name) = fst (quota_Check day now name q)"
| "budget_step day q (now, BCharge name team cost) = the (chargeQuota day now name team cost (Some q))"
| "budget_step day q (now, BDaily name) = fst (quota_DailyUsage day now name q)"

text \<open>What has been charged to a key, in all and on a given day.\<close>

fun charge_of :: "string \<Rightarrow> budget_event \<Rightarrow> float64" where
  "charge_of name (BCharge n team cost) =
     (if n = name \<and> n \<noteq> '''' \<and> n \<noteq> ''anonymous'' \<and> n \<noteq> ''master'' \<and> cost > 0 then cost else 0)"
| "charge_of name _ = 0"

definition charged :: "string \<Rightarrow> (time \<times> budget_event) list \<Rightarrow> float64" where
  "charged name evs = sum_list (map (charge_of name \<circ> snd) evs)"

definition charged_on :: "(time \<Rightarrow> string) \<Rightarrow> string \<Rightarrow> string \<Rightarrow> (time \<times> budget_event) list \<Rightarrow> float64" where
  "charged_on day d name evs = charged name (filter (\<lambda>x. day (fst x) = d) evs)"

text \<open>Days are intervals of time, and no date is empty.\<close>

definition days_ok :: "(time \<Rightarrow> string) \<Rightarrow> bool" where
  "days_ok day \<longleftrightarrow> (\<forall>t. day t \<noteq> '''') \<and> (\<forall>a b c. a \<le> b \<and> b \<le> c \<and> day a = day c \<longrightarrow> day b = day a)"

text \<open>The daily usage of a key as seen at an instant: that of another day counts as nothing.\<close>

definition daily_at :: "(time \<Rightarrow> string) \<Rightarrow> time \<Rightarrow> string \<Rightarrow> BudgetStore \<Rightarrow> float64" where
  "daily_at day now name q = (if date_of q name = day now then daily_of q name else 0)"

definition ledger_ok :: "(time \<Rightarrow> string) \<Rightarrow> string \<Rightarrow> (time \<times> budget_event) list \<Rightarrow> time \<Rightarrow> BudgetStore \<Rightarrow> bool" where
  "ledger_ok day name evs T q \<longleftrightarrow>
     usage_of q name = charged name evs \<and>
     (date_of q name \<noteq> '''' \<longrightarrow> (\<exists>t \<le> T. date_of q name = day t)) \<and>
     (\<forall>now \<ge> T. daily_at day now name q = charged_on day (day now) name evs)"

lemma charged_snoc [simp]:
  "charged name (evs @ [x]) = charged name evs + charge_of name (snd x)"
  "charged_on day d name (evs @ [x]) = charged_on day d name evs + (if day (fst x) = d then charge_of name (snd x) else 0)"
  by (simp_all add: charged_def charged_on_def)

text \<open>A step that leaves the maps of the key alone, and one that brings its bucket to the current day and adds a charge.\<close>

lemma ledger_idle:
  assumes ok: "ledger_ok day name evs T q" and T: "T \<le> t" and e: "charge_of name e = 0"
    and q': "usage_of q' name = usage_of q name" "date_of q' name = date_of q name" "daily_of q' name = daily_of q name"
  shows "ledger_ok day name (evs @ [(t, e)]) t q'"
proof -
  have "daily_at day now name q' = daily_at day now name q" for now by (simp only: daily_at_def q')
  moreover have "\<exists>u \<le> t. date_of q name = day u" if "\<exists>u \<le> T. date_of q name = day u" using that T by (meson order_trans)
  ultimately show ?thesis using ok T e q'(1,2) by (auto simp: ledger_ok_def)
qed

lemma ledger_touch:
  assumes ok: "ledger_ok day name evs T q" and T: "T \<le> t" and days: "days_ok day"
    and q': "usage_of q' name = usage_of q name + c" "date_of q' name = day t" "daily_of q' name = daily_at day t name q + c"
    and c: "charge_of name e = c"
  shows "ledger_ok day name (evs @ [(t, e)]) t q'"
proof -
  have "daily_at day now name q' = charged_on day (day now) name (evs @ [(t, e)])" if now: "t \<le> now" for now
  proof (cases "day now = day t")
    case True
    then show ?thesis using ok T q' c by (simp add: ledger_ok_def daily_at_def)
  next
    case False
    have "date_of q name \<noteq> day now"
    proof
      assume d: "date_of q name = day now"
      moreover have "day now \<noteq> ''''" using days unfolding days_ok_def by blast
      ultimately obtain u where "u \<le> T" "day u = day now" using ok by (auto simp: ledger_ok_def)
      then have "u \<le> t" using T by simp
      then have "day t = day u" using days now \<open>day u = day now\<close> unfolding days_ok_def by blast
      then show False using False \<open>day u = day now\<close> by simp
    qed
    then have "daily_at day now name q = 0" by (simp add: daily_at_def)
    moreover have "T \<le> now" using T now by simp
    ultimately have "charged_on day (day now) name evs = 0" using ok by (simp add: ledger_ok_def)
    then show ?thesis using False q'(2) by (simp add: daily_at_def)
  qed
  moreover have "usage_of q' name = charged name (evs @ [(t, e)])" using ok q'(1) c by (simp add: ledger_ok_def)
  moreover have "\<exists>u \<le> t. date_of q' name = day u" using q'(2) by (intro exI [of _ t]) simp
  ultimately show ?thesis unfolding ledger_ok_def by blast
qed

lemma get_update [simp]:
  "get_rat (map_of (AList.update k v xs)) n = (if n = k then v else get_rat (map_of xs) n)"
  "get_str (map_of (AList.update k w ys)) n = (if n = k then w else get_str (map_of ys) n)"
  by (simp_all add: get_rat_def get_str_def update_conv')

lemma rollover_simps [simp]:
  "bs_usage (rolloverLocked n d q) = bs_usage q" "bs_keys (rolloverLocked n d q) = bs_keys q"
  "bs_teams (rolloverLocked n d q) = bs_teams q"
  "date_of (rolloverLocked n d q) m = (if m = n then d else date_of q m)"
  "daily_of (rolloverLocked n d q) m = (if m = n then (if date_of q n = d then daily_of q n else 0) else daily_of q m)"
  by (auto simp: rolloverLocked_def)

lemma Deduct_simps:
  "usage_of (quota_Deduct day t n c q) m = (if m = n then usage_of q n + c else usage_of q m)"
  "date_of (quota_Deduct day t n c q) m = (if m = n then day t else date_of q m)"
  "daily_of (quota_Deduct day t n c q) m = (if m = n then daily_at day t n q + c else daily_of q m)"
  by (simp_all add: quota_Deduct_def daily_at_def Let_def split: sum.split)

lemma ledger_step:
  assumes "ledger_ok day name evs T q" "T \<le> t" "days_ok day"
  shows "ledger_ok day name (evs @ [(t, e)]) t (budget_step day q (t, e))"
proof (cases e)
  case (BCheck n)
  have "fst (quota_Check day t n q) = q \<or> fst (quota_Check day t n q) = rolloverLocked n (day t) q"
    by (simp add: quota_Check_def Let_def split: sum.split)
  then show ?thesis
  proof
    assume "fst (quota_Check day t n q) = q"
    then show ?thesis using BCheck by (intro ledger_idle [OF assms(1,2)]) simp_all
  next
    assume roll: "fst (quota_Check day t n q) = rolloverLocked n (day t) q"
    show ?thesis
    proof (cases "n = name")
      case True
      then show ?thesis using roll BCheck by (intro ledger_touch [OF assms, where c = 0]) (simp_all add: daily_at_def)
    next
      case False
      then show ?thesis using roll BCheck by (intro ledger_idle [OF assms(1,2)]) simp_all
    qed
  qed
next
  case (BCharge n team cost)
  show ?thesis
  proof (cases "n = name \<and> n \<noteq> '''' \<and> n \<noteq> ''anonymous'' \<and> n \<noteq> ''master'' \<and> cost > 0")
    case True
    then have n: "n = name" "name \<noteq> ''''" "name \<noteq> ''anonymous''" "name \<noteq> ''master''" "\<not> cost \<le> 0" "0 < cost" by auto
    show ?thesis unfolding BCharge
      by (intro ledger_touch [OF assms, where c = cost]) (simp_all add: chargeQuota_def Deduct_simps Let_def n)
  next
    case False
    then show ?thesis using BCharge
      by (intro ledger_idle [OF assms(1,2)]) (auto simp: chargeQuota_def Deduct_simps Let_def)
  qed
next
  case (BDaily n)
  show ?thesis
  proof (cases "n = name")
    case True
    then show ?thesis using BDaily
      by (intro ledger_touch [OF assms, where c = 0]) (simp_all add: quota_DailyUsage_def daily_at_def Let_def)
  next
    case False
    then show ?thesis using BDaily by (intro ledger_idle [OF assms(1,2)]) (simp_all add: quota_DailyUsage_def Let_def)
  qed
qed

lemma ledger_run:
  assumes "ledger_ok day name evs0 T q" "chronological T evs" "days_ok day"
  shows "ledger_ok day name (evs0 @ evs) (last_time T evs) (run_steps (budget_step day) q evs)"
  using assms
proof (induction evs arbitrary: evs0 T q)
  case (Cons x evs)
  obtain t e where x: "x = (t, e)" by (cases x)
  have "ledger_ok day name (evs0 @ [x]) t (budget_step day q x)"
    using ledger_step [OF Cons.prems(1) _ Cons.prems(3), of t e] Cons.prems(2) x by simp
  then show ?case using Cons.IH [of "evs0 @ [x]" t] Cons.prems(2,3) x by simp
qed simp


text \<open>The limits of a key are not touched by checks and charges.\<close>

definition same_limits :: "string \<Rightarrow> BudgetStore \<Rightarrow> BudgetStore \<Rightarrow> bool" where
  "same_limits name q q' \<longleftrightarrow>
     map_option (\<lambda>k. (ke_BudgetLimit k, ke_QuotaLimit k, ke_DailyBudgetLimit k)) (map_of (kst_keys (bs_keys q')) name) =
     map_option (\<lambda>k. (ke_BudgetLimit k, ke_QuotaLimit k, ke_DailyBudgetLimit k)) (map_of (kst_keys (bs_keys q)) name)"

lemma limits_UpdateUsage:
  "map_option (\<lambda>k. (ke_BudgetLimit k, ke_QuotaLimit k, ke_DailyBudgetLimit k)) (map_of (kst_keys (UpdateUsage n a b c d ks)) name) =
   map_option (\<lambda>k. (ke_BudgetLimit k, ke_QuotaLimit k, ke_DailyBudgetLimit k)) (map_of (kst_keys ks) name)"
  by (simp add: UpdateUsage_def update_conv' split: option.split)

lemma same_limits_Deduct: "same_limits name q (quota_Deduct day t n c q)"
  by (simp add: same_limits_def quota_Deduct_def Let_def limits_UpdateUsage split: sum.split)

lemma same_limits_step: "same_limits name q (budget_step day q x)"
proof (induction day q x rule: budget_step.induct)
  case (1 day q now n)
  show ?case by (simp add: same_limits_def quota_Check_def Let_def split: sum.split)
next
  case (2 day q now n team cost)
  show ?case
    using same_limits_Deduct [of name q day now n cost] by (auto simp: chargeQuota_def Let_def same_limits_def)
next
  case (3 day q now n)
  show ?case by (simp add: same_limits_def quota_DailyUsage_def Let_def)
qed

lemma same_limits_run: "same_limits name q (run_steps (budget_step day) q evs)"
proof (induction evs arbitrary: q)
  case (Cons x evs)
  show ?case using Cons [of "budget_step day q x"] same_limits_step [of name q day x] by (simp add: same_limits_def)
qed (simp add: same_limits_def)

lemma Check_exceeded:
  assumes "map_of (kst_keys (bs_keys q)) name = Some k"
  shows "qr_exceeded (snd (quota_Check day now name q)) \<longleftrightarrow>
      (let limit = (if ke_BudgetLimit k \<le> 0 then ke_QuotaLimit k else ke_BudgetLimit k)
       in limit > 0 \<and> usage_of q name \<ge> limit \<or> ke_DailyBudgetLimit k > 0 \<and> daily_at day now name q \<ge> ke_DailyBudgetLimit k)"
    and "qr_err (snd (quota_Check day now name q)) = None" "bs_teams (fst (quota_Check day now name q)) = bs_teams q"
  using assms by (simp_all add: quota_Check_def keys_Get_def Let_def daily_at_def) blast

lemma BudgetBlock_eq:
  assumes "GetAuthKeyConfig ctx = Some kc" "akc_Name kc \<noteq> ''''" "akc_BudgetLimit kc > 0 \<or> akc_DailyBudgetLimit kc > 0"
    and err: "qr_err (snd (quota_Check day now (akc_Name kc) q)) = None"
    and teams: "bs_teams (fst (quota_Check day now (akc_Name kc) q)) = bs_teams q"
  shows "snd (BudgetBlock day now (Some q) ctx) =
     (if qr_exceeded (snd (quota_Check day now (akc_Name kc) q)) then Some (Respond 403 ''Budget quota exceeded'')
      else if chargedTeam ctx \<noteq> '''' \<and> \<not> snd (snd (teams_CheckQuota day now (chargedTeam ctx) (bs_teams q)))
      then Some (Respond 403 ''Tenant quota exceeded'') else None)"
proof -
  have "(akc_BudgetLimit kc \<le> 0 \<and> akc_DailyBudgetLimit kc \<le> 0) = False" using assms(3) by auto
  note lims = this [unfolded eq_False]
  show ?thesis
    using err teams assms(1,2) by (simp only: BudgetBlock_def lims if_False option.case)
      (simp add: chargedTeam_def case_prod_beta split: option.split)
qed

lemma ledger_empty:
  assumes "usage_of q name = 0" "date_of q name = ''''" "days_ok day"
  shows "ledger_ok day name [] T q"
proof -
  have ne: "day t \<noteq> ''''" for t using assms(3) unfolding days_ok_def by blast
  then have "'''' \<noteq> day t" for t by metis
  with ne assms(1,2) show ?thesis by (simp add: ledger_ok_def daily_at_def charged_on_def charged_def)
qed

text \<open>
  C20. The budget gate is exact.  Let a key start with no recorded usage and let any chronological run of budget checks, daily-usage
  reads and charges, of this and of other keys and teams, happen.  A later request of the key with a budget in its credential is refused for its
  budget exactly when the positive charges made to it since the beginning reach its limit (the budget limit or, without one, the quota limit) or the
  charges made on the current day reach its daily limit; otherwise only the quota of its team can refuse it.
\<close>

theorem budget_gate_exact:
  fixes q :: BudgetStore and evs :: "(time \<times> budget_event) list"
  assumes "days_ok day" "chronological T evs" "last_time T evs \<le> now"
    and key: "map_of (kst_keys (bs_keys q)) name = Some k" and fresh: "usage_of q name = 0" "date_of q name = ''''"
    and ctx: "GetAuthKeyConfig ctx = Some kc" "akc_Name kc = name" "name \<noteq> ''''" "akc_BudgetLimit kc > 0 \<or> akc_DailyBudgetLimit kc > 0"
  defines "q' \<equiv> run_steps (budget_step day) q evs"
    and "limit \<equiv> (if ke_BudgetLimit k \<le> 0 then ke_QuotaLimit k else ke_BudgetLimit k)"
  shows "snd (BudgetBlock day now (Some q') ctx) =
     (if limit > 0 \<and> charged name evs \<ge> limit \<or> ke_DailyBudgetLimit k > 0 \<and> charged_on day (day now) name evs \<ge> ke_DailyBudgetLimit k
      then Some (Respond 403 ''Budget quota exceeded'')
      else if chargedTeam ctx \<noteq> '''' \<and> \<not> snd (snd (teams_CheckQuota day now (chargedTeam ctx) (bs_teams q')))
      then Some (Respond 403 ''Tenant quota exceeded'') else None)"
proof -
  have ledger: "ledger_ok day name evs (last_time T evs) q'"
    using ledger_run [OF ledger_empty [OF fresh assms(1), of T] assms(2,1)] by (simp add: q'_def)
  then have used: "usage_of q' name = charged name evs" "daily_at day now name q' = charged_on day (day now) name evs"
    using assms(3) by (simp_all add: ledger_ok_def)
  obtain k' where k': "map_of (kst_keys (bs_keys q')) name = Some k'" "ke_BudgetLimit k' = ke_BudgetLimit k"
      "ke_QuotaLimit k' = ke_QuotaLimit k" "ke_DailyBudgetLimit k' = ke_DailyBudgetLimit k"
    using same_limits_run [of name q day evs] key by (auto simp: same_limits_def q'_def simp del: map_of_eq_Some_iff)
  note check = Check_exceeded [OF k'(1), of day now]
  have exc: "qr_exceeded (snd (quota_Check day now name q')) \<longleftrightarrow>
      limit > 0 \<and> charged name evs \<ge> limit \<or> ke_DailyBudgetLimit k > 0 \<and> charged_on day (day now) name evs \<ge> ke_DailyBudgetLimit k"
    unfolding check(1) used k'(2-4) Let_def limit_def ..
  show ?thesis
    by (subst BudgetBlock_eq [where kc = kc]) (use ctx check(2,3) in \<open>simp_all only: exc simp_thms\<close>)
qed


definition ledger_key :: APIKeyEntry where
  "ledger_key = \<lparr>ke_Name = ''ci'', ke_KeyPrefix = ''fk'', ke_KeyHash = ''h'', ke_Status = ''active'', ke_QuotaLimit = 0, ke_QuotaUsed = 0,
     ke_QuotaRemaining = 0, ke_AllowedModels = [], ke_RPM = 0, ke_TPM = 0, ke_ExpiresAt = None, ke_BudgetLimit = 10,
     ke_DailyBudgetLimit = 4, ke_DailyUsed = 0, ke_DailyDate = '''', ke_AllowedBackends = [], ke_ModelModules = [], ke_Scopes = [],
     ke_KeyPrevHash = '''', ke_KeyRotatedAt = None, ke_Metadata = [], ke_CreatedAt = 0, ke_UpdatedAt = 0\<rparr>"

definition ledger_store :: BudgetStore where
  "ledger_store = \<lparr>bs_keys = NewKeyStore\<lparr>kst_keys := [(''ci'', ledger_key)]\<rparr>, bs_teams = seedDefaults 0, bs_usage = [], bs_dailyUsage = [], bs_dailyDate = []\<rparr>"

definition ledger_ctx :: RequestCtx where
  "ledger_ctx = \<lparr>rc_Principal = Some ((newPrincipal RoleViewer)\<lparr>pr_KeyConfig := Some ((keyConfig ''fk'' ''ci'')\<lparr>akc_BudgetLimit := 10, akc_DailyBudgetLimit := 4\<rparr>)\<rparr>),
     rc_Tenant = '''', rc_CallerName = '''', rc_Lease = None, rc_LogKeyName = None\<rparr>"

definition two_days :: "time \<Rightarrow> string" where
  "two_days t = (if t < 100 then ''2026-01-01'' else ''2026-01-02'')"

definition ledger_script :: "(time \<times> budget_event) list" where
  "ledger_script = [(10, BCharge ''ci'' '''' 3), (20, BCharge ''anonymous'' ''default'' 5), (30, BCheck ''ci''), (110, BCharge ''ci'' ''default'' 3)]"

text \<open>Three on each of two days: below both limits, although the sum of both days is above the daily limit.\<close>

theorem budget_gate_exact_witness:
  "snd (BudgetBlock two_days 120 (Some (run_steps (budget_step two_days) ledger_store ledger_script)) ledger_ctx) = None"
proof -
  have days: "days_ok two_days" by (auto simp: days_ok_def two_days_def)
  have sums: "charged ''ci'' ledger_script = 6" "charged_on two_days (two_days 120) ''ci'' ledger_script = 3"
    "chronological 0 ledger_script" "last_time 0 ledger_script \<le> 120"
    by (simp_all add: charged_def charged_on_def ledger_script_def two_days_def)
  show ?thesis
    using budget_gate_exact [OF days sums(3,4), of ledger_store "''ci''" ledger_key ledger_ctx
        "(keyConfig ''fk'' ''ci'')\<lparr>akc_BudgetLimit := 10, akc_DailyBudgetLimit := 4\<rparr>"]
    by (simp add: sums ledger_store_def ledger_key_def ledger_ctx_def GetAuthKeyConfig_def newPrincipal_def keyConfig_def
        get_rat_def get_str_def chargedTeam_def)
qed

section \<open>When usage reaches the disk\<close>

text \<open>Each charge schedules a write; before it, the writer is brought to the instant of the charge.\<close>

fun deb_run :: "debouncedPersister \<Rightarrow> time list \<Rightarrow> debouncedPersister \<times> nat" where
  "deb_run p [] = (p, 0)"
| "deb_run p (t # ts) = (case deb_elapse t p of (p1, wrote) \<Rightarrow>
     (case deb_run (Schedule t p1) ts of (p2, n) \<Rightarrow> (p2, (if wrote then 1 else 0) + n)))"

fun gaps_below :: "duration \<Rightarrow> time \<Rightarrow> time list \<Rightarrow> bool" where
  "gaps_below d t [] = True"
| "gaps_below d t (u # us) = (t \<le> u \<and> u - t < d \<and> gaps_below d u us)"

lemma deb_run_gaps:
  "gaps_below d t ts \<Longrightarrow> deb_run \<lparr>dp_d = d, dp_timer = Some (t + d)\<rparr> ts = (\<lparr>dp_d = d, dp_timer = Some (last (t # ts) + d)\<rparr>, 0)"
proof (induction ts arbitrary: t)
  case (Cons u us)
  then have "\<not> t + d \<le> u" by simp
  then show ?case using Cons by (simp add: deb_elapse_def Schedule_def)
qed simp

text \<open>
  The debounced writer of the usage maps postpones its write at every charge: while the distance between two charges stays
  below the window (two seconds when none is configured), nothing is written, however long the traffic lasts and however much is
  charged; the one write comes a full window after the last charge.  The comment of the writer promises that at most one window of
  cost is lost in a crash.
\<close>

theorem persist_starved:
  fixes d :: duration and ts :: "time list"
  assumes "gaps_below (dp_d (newDebouncedPersister d)) t ts"
  defines "r \<equiv> deb_run (newDebouncedPersister d) (t # ts)"
  shows "snd r = 0 \<and> (\<forall>now. snd (deb_elapse now (fst r)) \<longleftrightarrow> last (t # ts) + dp_d (newDebouncedPersister d) \<le> now)"
proof -
  have "r = (\<lparr>dp_d = dp_d (newDebouncedPersister d), dp_timer = Some (last (t # ts) + dp_d (newDebouncedPersister d))\<rparr>, 0)"
    using deb_run_gaps [OF assms(1)] by (simp add: r_def newDebouncedPersister_def deb_elapse_def Schedule_def)
  then show ?thesis by (simp add: deb_elapse_def)
qed

theorem persist_starved_witness:
  "snd (deb_run (newDebouncedPersister 0) (map (\<lambda>i. int i * second) [0..<20])) = 0"
  using persist_starved [of 0 0 "map (\<lambda>i. int i * second) [1..<20]"]
  by (simp add: newDebouncedPersister_def upt_rec second_def)

end
