(* ===== verification/Identity_Plane.thy ===== *)
theory Identity_Plane
  imports Principals
begin

text \<open>
  The identity control plane: the client with its circuit breaker (\<^verbatim>\<open>identity/client.go\<close>), the middleware that asks it for
  permission and a lease (\<^verbatim>\<open>middleware/identity_auth.go\<close>) and the release of the lease at the end of a request
  (\<^verbatim>\<open>releaseIdentityLease\<close> in \<^verbatim>\<open>server/server.go\<close>).

  The gRPC stub is a parameter: it maps the state of the connection (closed or not) and the request to an answer or an error.  The
  body of a request is seen through the tokens \<^verbatim>\<open>json.Decoder.Token\<close> delivers, up to the first error.
\<close>

section \<open>The breaker\<close>

record breaker =
  br_failures :: int
  br_threshold :: int
  br_openUntil :: time
  br_openDuration :: duration
  br_halfOpenInFlight :: bool

definition newBreaker :: "int \<Rightarrow> duration \<Rightarrow> breaker" where
  "newBreaker threshold openDuration =
     \<lparr>br_failures = 0, br_threshold = threshold, br_openUntil = 0, br_openDuration = openDuration, br_halfOpenInFlight = False\<rparr>"

definition br_allow :: "time \<Rightarrow> breaker \<Rightarrow> breaker \<times> bool" where
  "br_allow now b =
     (if br_openUntil b = 0 \<or> br_openUntil b < now
      then if br_openUntil b \<noteq> 0
           then if \<not> br_halfOpenInFlight b then (b\<lparr>br_halfOpenInFlight := True\<rparr>, True) else (b, False)
           else (b, True)
      else (b, False))"

definition br_recordSuccess :: "breaker \<Rightarrow> breaker" where
  "br_recordSuccess b = b\<lparr>br_failures := 0, br_openUntil := 0, br_halfOpenInFlight := False\<rparr>"

definition br_recordFailure :: "time \<Rightarrow> breaker \<Rightarrow> breaker" where
  "br_recordFailure now b =
     (let b1 = b\<lparr>br_failures := br_failures b + 1, br_halfOpenInFlight := False\<rparr>
      in if br_failures b1 \<ge> br_threshold b1 then b1\<lparr>br_openUntil := now + br_openDuration b1\<rparr> else b1)"

section \<open>The client\<close>

datatype AuthErrorCode =
  AUTH_ERROR_CODE_UNSPECIFIED | INVALID_API_KEY | TENANT_DISABLED | MODULE_UNAUTHORIZED | MODEL_UNAUTHORIZED
| CONCURRENCY_LIMIT_EXCEEDED | DAILY_QUOTA_EXCEEDED | RATE_LIMIT_EXCEEDED | OTHER_ERROR_CODE int

datatype InferenceStatus = SUCCESS | FAILED | CANCELED

record AuthorizeRequest =
  aq_ApiKey :: string
  aq_TargetModule :: string
  aq_TargetModel :: string
  aq_RequestId :: string
  aq_ClientIp :: string
  aq_TenantId :: string

record TenantContext =
  tx_TenantId :: string
  tx_TenantName :: string
  tx_Tier :: string
  tx_Priority :: int

record AuthorizeResponse =
  ap_IsAllowed :: bool
  ap_ErrorCode :: AuthErrorCode
  ap_ErrorMessage :: string
  ap_TenantContext :: "TenantContext option"
  ap_LeaseId :: string
  ap_MaxAllowedTokens :: int

datatype rpc_error = RpcCanceled | RpcDeadlineExceeded | RpcUnavailable | RpcClientConnClosing

datatype identity_error = ErrBreakerOpen | RpcFailed rpc_error

type_synonym identity_stub = "bool \<Rightarrow> AuthorizeRequest \<Rightarrow> rpc_error + AuthorizeResponse"

record IdentityClient =
  ic_closed :: bool
  ic_breaker :: breaker
  ic_deadline :: duration
  ic_fallback :: bool
  ic_endpoint :: string

record AuthResult =
  ar_Allowed :: bool
  ar_ErrorCode :: AuthErrorCode
  ar_ErrorMessage :: string
  ar_TenantID :: string
  ar_TenantName :: string
  ar_Tier :: string
  ar_Priority :: int
  ar_LeaseID :: string
  ar_MaxAllowedTokens :: int

text \<open>\<open>dialled\<close> tells whether \<^verbatim>\<open>grpc.NewClient\<close> accepted the options.\<close>

definition NewIdentityClient :: "bool \<Rightarrow> string \<Rightarrow> int \<Rightarrow> int \<Rightarrow> int \<Rightarrow> bool \<Rightarrow> IdentityClient option" where
  "NewIdentityClient dialled endpoint deadlineMS breakerThreshold breakerOpenSec fallback =
     (if endpoint = '''' then None
      else if \<not> dialled then None
      else Some \<lparr>ic_closed = False, ic_breaker = newBreaker breakerThreshold (breakerOpenSec * second),
                 ic_deadline = deadlineMS * 1000000, ic_fallback = fallback, ic_endpoint = endpoint\<rparr>)"

definition authResult :: "AuthorizeResponse \<Rightarrow> AuthResult" where
  "authResult resp =
     (let ar = \<lparr>ar_Allowed = ap_IsAllowed resp, ar_ErrorCode = ap_ErrorCode resp, ar_ErrorMessage = ap_ErrorMessage resp,
                ar_TenantID = '''', ar_TenantName = '''', ar_Tier = '''', ar_Priority = 0, ar_LeaseID = ap_LeaseId resp,
                ar_MaxAllowedTokens = ap_MaxAllowedTokens resp\<rparr>
      in case ap_TenantContext resp of
           None \<Rightarrow> ar
         | Some tc \<Rightarrow> ar\<lparr>ar_TenantID := tx_TenantId tc, ar_TenantName := tx_TenantName tc, ar_Tier := tx_Tier tc,
                           ar_Priority := tx_Priority tc\<rparr>)"

text \<open>The breaker is asked at \<open>now\<close>; the RPC ends at \<open>later\<close>.\<close>

definition AuthorizeAndAcquire ::
    "identity_stub \<Rightarrow> time \<Rightarrow> time \<Rightarrow> AuthorizeRequest \<Rightarrow> IdentityClient \<Rightarrow> IdentityClient \<times> (identity_error + AuthResult)" where
  "AuthorizeAndAcquire stub now later req c =
     (case br_allow now (ic_breaker c) of
        (b, False) \<Rightarrow> (c\<lparr>ic_breaker := b\<rparr>, Inl ErrBreakerOpen)
      | (b, True) \<Rightarrow>
          (case stub (ic_closed c) req of
             Inl e \<Rightarrow> (c\<lparr>ic_breaker := br_recordFailure later b\<rparr>, Inl (RpcFailed e))
           | Inr resp \<Rightarrow> (c\<lparr>ic_breaker := br_recordSuccess b\<rparr>, Inr (authResult resp))))"

definition identity_Close :: "IdentityClient option \<Rightarrow> IdentityClient option" where
  "identity_Close c = map_option (\<lambda>c. c\<lparr>ic_closed := True\<rparr>) c"

text \<open>The messages the client sends about a lease, in the order it starts them.\<close>

record UsageReport =
  ur_LeaseID :: string
  ur_TenantID :: string
  ur_ModelName :: string
  ur_PromptTokens :: int
  ur_CompletionTokens :: int
  ur_ExecutionTimeMS :: int
  ur_Status :: InferenceStatus

datatype lease_message = ReleaseMsg string string string | UsageMsg UsageReport

definition ReleaseLease :: "string \<Rightarrow> string \<Rightarrow> string \<Rightarrow> lease_message list" where
  "ReleaseLease leaseID tenantID reason = (if leaseID = '''' then [] else [ReleaseMsg leaseID tenantID reason])"

definition ReportUsage :: "UsageReport \<Rightarrow> lease_message list" where
  "ReportUsage rep = (if ur_LeaseID rep = '''' then [] else [UsageMsg rep])"

section \<open>The model a request names\<close>

datatype json = JObj "(string \<times> json) list" | JArr "json list" | JStr string | JNum int | JBool bool | JNull

datatype json_token = Delim char | TStr string | TNum int | TBool bool | TNull

fun opens :: "json_token \<Rightarrow> bool" where
  "opens (Delim c) \<longleftrightarrow> c = CHR ''{'' \<or> c = CHR ''[''"
| "opens _ \<longleftrightarrow> False"

fun isDelim :: "json_token \<Rightarrow> bool" where
  "isDelim (Delim c) \<longleftrightarrow> True"
| "isDelim _ \<longleftrightarrow> False"

text \<open>The inner loop of \<^verbatim>\<open>skipJSONValue\<close> at a given depth; running out of tokens is the decoder's error.\<close>

fun skipDepth :: "nat \<Rightarrow> json_token list \<Rightarrow> json_token list option" where
  "skipDepth 0 ts = Some ts"
| "skipDepth (Suc d) [] = None"
| "skipDepth (Suc d) (t # ts) = skipDepth (if isDelim t then (if opens t then Suc (Suc d) else d) else Suc d) ts"

fun skipJSONValue :: "json_token list \<Rightarrow> json_token list option" where
  "skipJSONValue [] = None"
| "skipJSONValue (t # ts) = (if isDelim t then skipDepth 1 ts else Some ts)"

lemma skipDepth_shorter: "skipDepth d ts = Some us \<Longrightarrow> length us \<le> length ts"
  by (induction d ts rule: skipDepth.induct) (auto simp: le_SucI split: if_splits)

lemma skipJSONValue_shorter: "skipJSONValue ts = Some us \<Longrightarrow> length us < length ts"
  by (cases ts) (auto dest: skipDepth_shorter split: if_splits)

definition dec_More :: "json_token list \<Rightarrow> bool" where
  "dec_More ts \<longleftrightarrow> ts \<noteq> [] \<and> \<not> (isDelim (hd ts) \<and> \<not> opens (hd ts))"

function peekFields :: "json_token list \<Rightarrow> string" where
  "peekFields ts =
     (if \<not> dec_More ts then ''''
      else if hd ts = TStr ''model'' then (case tl ts of TStr s # _ \<Rightarrow> s | _ \<Rightarrow> '''')
      else (case skipJSONValue (tl ts) of None \<Rightarrow> '''' | Some us \<Rightarrow> peekFields us))"
  by pat_completeness auto
termination
  by (relation "measure length") (auto simp: dec_More_def neq_Nil_conv dest: skipJSONValue_shorter)

declare peekFields.simps [simp del]

definition peekModel :: "json_token list \<Rightarrow> string" where
  "peekModel ts = (case ts of Delim c # us \<Rightarrow> if c = CHR ''{'' then peekFields us else '''' | _ \<Rightarrow> '''')"

definition requestModel :: "(string \<Rightarrow> json_token list) \<Rightarrow> InboundRequest \<Rightarrow> string" where
  "requestModel tokens r = peekModel (tokens (in_Body r))"

section \<open>The middleware\<close>

record IdentityConfig =
  idc_Enabled :: bool
  idc_Endpoint :: string
  idc_DeadlineMS :: int
  idc_KeepAliveSec :: int
  idc_FallbackToLocal :: bool
  idc_BreakerThreshold :: int
  idc_BreakerOpenSec :: int

definition pickMsg :: "string \<Rightarrow> string \<Rightarrow> string" where
  "pickMsg identityMsg fallback = (if identityMsg \<noteq> '''' then identityMsg else fallback)"

definition mapAuthErrorCode :: "AuthErrorCode \<Rightarrow> string \<Rightarrow> int \<times> string" where
  "mapAuthErrorCode code msg =
     (case code of
        INVALID_API_KEY \<Rightarrow> (401, pickMsg msg ''invalid api key'')
      | TENANT_DISABLED \<Rightarrow> (403, pickMsg msg ''tenant disabled'')
      | MODULE_UNAUTHORIZED \<Rightarrow> (403, pickMsg msg ''module unauthorized'')
      | MODEL_UNAUTHORIZED \<Rightarrow> (403, pickMsg msg ''model unauthorized'')
      | CONCURRENCY_LIMIT_EXCEEDED \<Rightarrow> (429, pickMsg msg ''concurrency limit exceeded'')
      | DAILY_QUOTA_EXCEEDED \<Rightarrow> (402, pickMsg msg ''daily quota exceeded'')
      | RATE_LIMIT_EXCEEDED \<Rightarrow> (429, pickMsg msg ''rate limit exceeded'')
      | _ \<Rightarrow> (403, pickMsg msg ''authorization denied''))"

text \<open>What an allowed request takes from the answer: the tenant and the lease.  The scheduling signals are the last two fields of the lease.\<close>

definition stampTenant :: "AuthResult \<Rightarrow> Principal \<Rightarrow> RequestCtx \<Rightarrow> RequestCtx" where
  "stampTenant ar p ctx =
     (if ar_TenantID ar = '''' then ctx
      else
        (let team = (case pr_Team p of
                       None \<Rightarrow> newTeamInfo (ar_TenantID ar) (ar_TenantName ar) RoleInference
                     | Some t \<Rightarrow> (let t1 = t\<lparr>ti_ID := ar_TenantID ar\<rparr>
                                  in if ar_TenantName ar \<noteq> '''' then t1\<lparr>ti_Name := ar_TenantName ar\<rparr> else t1))
         in WithTenant (ctx\<lparr>rc_Principal := Some (p\<lparr>pr_Team := Some team\<rparr>)\<rparr>) (ar_TenantID ar)))"

definition stampLease :: "AuthResult \<Rightarrow> RequestCtx \<Rightarrow> RequestCtx" where
  "stampLease ar ctx =
     (if ar_LeaseID ar = '''' then ctx
      else ctx\<lparr>rc_Lease := Some \<lparr>il_LeaseID = ar_LeaseID ar, il_TenantID = ar_TenantID ar, il_Priority = ar_Priority ar,
                                 il_MaxAllowedTokens = ar_MaxAllowedTokens ar\<rparr>\<rparr>)"

definition authorizeRequest :: "(string \<Rightarrow> json_token list) \<Rightarrow> string \<Rightarrow> InboundRequest \<Rightarrow> Principal \<Rightarrow> AuthorizeRequest" where
  "authorizeRequest tokens requestID r p =
     \<lparr>aq_ApiKey = (case pr_KeyConfig p of Some k \<Rightarrow> akc_Key k | None \<Rightarrow> ''''), aq_TargetModule = inferenceModule r,
      aq_TargetModel = requestModel tokens r, aq_RequestId = requestID, aq_ClientIp = in_RemoteAddr r,
      aq_TenantId = (case pr_Team p of Some t \<Rightarrow> ti_ID t | None \<Rightarrow> '''')\<rparr>"

definition IdentityAuth ::
    "(string \<Rightarrow> json_token list) \<Rightarrow> identity_stub \<Rightarrow> time \<Rightarrow> time \<Rightarrow> string \<Rightarrow> IdentityConfig option \<Rightarrow> IdentityClient option \<Rightarrow>
      InboundRequest \<Rightarrow> RequestCtx \<Rightarrow> IdentityClient option \<times> RequestCtx \<times> refusal" where
  "IdentityAuth tokens stub now later requestID cfg client r ctx0 =
     (case (client, cfg) of
        (Some c, Some icfg) \<Rightarrow>
          if \<not> idc_Enabled icfg then (client, ctx0, None)
          else
            (let (ctx, p) = EnsurePrincipal ctx0; req = authorizeRequest tokens requestID r p in
             if pr_AuthMethod p = ''admin-jwt'' \<or> pr_IsMaster p then (client, ctx, None)
             else if aq_ApiKey req = '''' then (client, ctx, None)
             else
               (case AuthorizeAndAcquire stub now later req c of
                  (c1, Inl e) \<Rightarrow>
                    if ic_fallback c1 then (Some c1, ctx, None)
                    else (Some c1, ctx, Some (Respond 503 ''identity service unavailable''))
                | (c1, Inr ar) \<Rightarrow>
                    if \<not> ar_Allowed ar
                    then (case mapAuthErrorCode (ar_ErrorCode ar) (ar_ErrorMessage ar) of (status, msg) \<Rightarrow>
                            (Some c1, ctx, Some (Respond status msg)))
                    else (Some c1, stampLease ar (stampTenant ar p ctx), None)))
      | _ \<Rightarrow> (client, ctx0, None))"

section \<open>The end of a request\<close>

text \<open>The fields of the request log entry the release reads; the latency is in seconds.\<close>

record lease_entry =
  le_StatusCode :: int
  le_IsSuccess :: bool
  le_Model :: string
  le_InputTokens :: int
  le_OutputTokens :: int
  le_Latency :: float64

definition releaseStatus :: "lease_entry \<Rightarrow> InferenceStatus" where
  "releaseStatus entry =
     (if 200 \<le> le_StatusCode entry \<and> le_StatusCode entry < 400 then SUCCESS
      else if le_StatusCode entry = 499 then CANCELED
      else if \<not> le_IsSuccess entry then FAILED else SUCCESS)"

text \<open>The conversion to 32 bits keeps the low half, as a signed number.\<close>

definition int32 :: "int \<Rightarrow> int" where
  "int32 n = (n + 2 ^ 31) mod 2 ^ 32 - 2 ^ 31"

definition releaseIdentityLease :: "IdentityClient option \<Rightarrow> RequestCtx \<Rightarrow> lease_entry \<Rightarrow> lease_message list" where
  "releaseIdentityLease client ctx entry =
     (if client = None then []
      else
        (case rc_Lease ctx of
           None \<Rightarrow> []
         | Some lease \<Rightarrow>
             if il_LeaseID lease = '''' then []
             else
               (let status = releaseStatus entry;
                    reason = (case status of CANCELED \<Rightarrow> ''client-cancel'' | FAILED \<Rightarrow> ''inference-failed'' | SUCCESS \<Rightarrow> ''stream-end'')
                in ReleaseLease (il_LeaseID lease) (il_TenantID lease) reason @
                   ReportUsage \<lparr>ur_LeaseID = il_LeaseID lease, ur_TenantID = il_TenantID lease, ur_ModelName = le_Model entry,
                     ur_PromptTokens = int32 (le_InputTokens entry), ur_CompletionTokens = int32 (le_OutputTokens entry),
                     ur_ExecutionTimeMS = \<lfloor>le_Latency entry * 1000\<rfloor>, ur_Status = status\<rparr>)))"


section \<open>Which model is authorized\<close>

fun json_tokens :: "json \<Rightarrow> json_token list" and
  field_tokens :: "(string \<times> json) list \<Rightarrow> json_token list" and
  elem_tokens :: "json list \<Rightarrow> json_token list" where
  "json_tokens (JObj fs) = Delim (CHR ''{'') # field_tokens fs @ [Delim (CHR ''}'')]"
| "json_tokens (JArr vs) = Delim (CHR ''['') # elem_tokens vs @ [Delim (CHR '']'')]"
| "json_tokens (JStr s) = [TStr s]"
| "json_tokens (JNum n) = [TNum n]"
| "json_tokens (JBool b) = [TBool b]"
| "json_tokens JNull = [TNull]"
| "field_tokens [] = []"
| "field_tokens ((k, v) # fs) = TStr k # json_tokens v @ field_tokens fs"
| "elem_tokens [] = []"
| "elem_tokens (v # vs) = json_tokens v @ elem_tokens vs"

text \<open>
  The field \<^verbatim>\<open>Model\<close> after \<^verbatim>\<open>json.Unmarshal\<close> of an object into a request of the handlers, as the package documents it: names
  match without regard to case, a later field overwrites, null leaves the field alone, and a value of another type is an error.
\<close>

fun unmarshalModel :: "string \<Rightarrow> (string \<times> json) list \<Rightarrow> string option" where
  "unmarshalModel acc [] = Some acc"
| "unmarshalModel acc ((k, v) # fs) =
     (if ToLower k = ''model''
      then (case v of JStr s \<Rightarrow> unmarshalModel s fs | JNull \<Rightarrow> unmarshalModel acc fs | _ \<Rightarrow> None)
      else unmarshalModel acc fs)"

lemma skipDepth_tokens:
  "skipDepth (Suc d) (json_tokens v @ ts) = skipDepth (Suc d) ts"
  "skipDepth (Suc d) (field_tokens fs @ ts) = skipDepth (Suc d) ts"
  "skipDepth (Suc d) (elem_tokens vs @ ts) = skipDepth (Suc d) ts"
  by (induction v and fs and vs arbitrary: d ts and d ts and d ts rule: json_tokens_field_tokens_elem_tokens.induct) simp_all

lemma skip_value: "skipJSONValue (json_tokens v @ ts) = Some ts"
  by (cases v) (simp_all add: skipDepth_tokens)

lemma peekFields_first:
  "peekFields (field_tokens fs @ Delim (CHR ''}'') # ts) = (case map_of fs ''model'' of Some (JStr s) \<Rightarrow> s | _ \<Rightarrow> '''')"
proof (induction fs)
  case Nil
  show ?case by (subst peekFields.simps) (simp add: dec_More_def)
next
  case (Cons f fs)
  obtain k v where f: "f = (k, v)" by (cases f)
  show ?case
  proof (cases "k = ''model''")
    case True
    then show ?thesis by (subst peekFields.simps) (cases v; simp add: f dec_More_def)
  next
    case False
    then show ?thesis using Cons by (subst peekFields.simps) (simp add: f dec_More_def skip_value)
  qed
qed


lemma unmarshal_append:
  "unmarshalModel acc fs = Some acc' \<Longrightarrow> unmarshalModel acc (fs @ gs) = unmarshalModel acc' gs"
  by (induction acc fs rule: unmarshalModel.induct) (auto split: json.splits if_splits)

text \<open>
  Which model the identity service is asked about.  For every JSON object the middleware asks for the first field named
  \<open>model\<close>, and for no model when there is none or it is not a string, whatever else the object nests; the search ends on every body.
\<close>

theorem identity_model_first:
  assumes "tokens (in_Body r) = json_tokens (JObj fs) @ junk"
  shows "aq_TargetModel (authorizeRequest tokens requestID r p) = (case map_of fs ''model'' of Some (JStr s) \<Rightarrow> s | _ \<Rightarrow> '''')"
  using assms by (simp add: authorizeRequest_def requestModel_def peekModel_def peekFields_first)

theorem identity_model_first_witness:
  "requestModel (\<lambda>_. json_tokens (JObj [(''messages'', JArr [JObj [(''model'', JStr ''x'')]]), (''model'', JStr ''qwen'')]))
     \<lparr>in_Method = ''POST'', in_Path = ''/v1/chat/completions'', in_Authorization = '''', in_XApiKey = '''', in_RemoteAddr = '''', in_Body = ''''\<rparr> = ''qwen''"
  using identity_model_first [where tokens = "\<lambda>_. json_tokens (JObj [(''messages'', JArr [JObj [(''model'', JStr ''x'')]]), (''model'', JStr ''qwen'')])"
      and junk = "[]" and requestID = "''''" and p = "newPrincipal RoleViewer"
      and r = "\<lparr>in_Method = ''POST'', in_Path = ''/v1/chat/completions'', in_Authorization = '''', in_XApiKey = '''', in_RemoteAddr = '''', in_Body = ''''\<rparr>"
      and fs = "[(''messages'', JArr [JObj [(''model'', JStr ''x'')]]), (''model'', JStr ''qwen'')]"]
  by (simp add: authorizeRequest_def)

text \<open>
  The model authorized is not the model served.  A body that names its model twice, or a second time in another letter case, is
  authorized for the first and decoded by the handlers to the last: whatever the service answers about \<open>a\<close>, the request goes on with \<open>b\<close>.
\<close>

theorem identity_model_confusion:
  assumes body: "tokens (in_Body r) = json_tokens (JObj ((''model'', JStr a) # fs @ [(k, JStr b)])) @ junk"
    and k: "ToLower k = ''model''" and others: "unmarshalModel a fs = Some c"
  shows "aq_TargetModel (authorizeRequest tokens requestID r p) = a \<and> unmarshalModel '''' ((''model'', JStr a) # fs @ [(k, JStr b)]) = Some b"
proof -
  have "ToLower ''model'' = ''model''" by code_simp
  moreover have "unmarshalModel a (fs @ [(k, JStr b)]) = Some b" using unmarshal_append [OF others] k by simp
  ultimately show ?thesis using body by (simp add: authorizeRequest_def requestModel_def peekModel_def peekFields.simps dec_More_def)
qed

theorem identity_model_confusion_witness:
  "requestModel (\<lambda>_. json_tokens (JObj [(''model'', JStr ''cheap''), (''Model'', JStr ''forbidden'')]))
     \<lparr>in_Method = ''POST'', in_Path = ''/v1/chat/completions'', in_Authorization = '''', in_XApiKey = '''', in_RemoteAddr = '''', in_Body = ''''\<rparr> = ''cheap''
   \<and> unmarshalModel '''' [(''model'', JStr ''cheap''), (''Model'', JStr ''forbidden'')] = Some ''forbidden''"
proof -
  have "ToLower ''Model'' = ''model''" by code_simp
  then show ?thesis
    using identity_model_confusion [where tokens = "\<lambda>_. json_tokens (JObj [(''model'', JStr ''cheap''), (''Model'', JStr ''forbidden'')])"
      and junk = "[]" and requestID = "''''" and p = "newPrincipal RoleViewer" and k = "''Model''" and fs = "[]" and c = "''cheap''"
      and r = "\<lparr>in_Method = ''POST'', in_Path = ''/v1/chat/completions'', in_Authorization = '''', in_XApiKey = '''', in_RemoteAddr = '''', in_Body = ''''\<rparr>"
      and a = "''cheap''" and b = "''forbidden''"]
    by (simp add: authorizeRequest_def)
qed

section \<open>An outage of the identity service\<close>

text \<open>
  Calls of the client one after the other, each with the instants of its start and of its end, while every RPC fails.  The result
  counts the RPCs that were sent.
\<close>

fun outage :: "identity_stub \<Rightarrow> AuthorizeRequest \<Rightarrow> IdentityClient \<Rightarrow> (time \<times> time) list \<Rightarrow> nat" where
  "outage stub req c [] = 0"
| "outage stub req c ((now, later) # cs) =
     (case AuthorizeAndAcquire stub now later req c of (c', res) \<Rightarrow> (if res = Inl ErrBreakerOpen then 0 else 1) + outage stub req c' cs)"

fun sequential :: "time \<Rightarrow> (time \<times> time) list \<Rightarrow> time \<Rightarrow> bool" where
  "sequential t [] T \<longleftrightarrow> t \<le> T"
| "sequential t ((now, later) # cs) T \<longleftrightarrow> t \<le> now \<and> now \<le> later \<and> sequential later cs T"

lemma sequential_le: "sequential t cs T \<Longrightarrow> t \<le> T"
  by (induction t cs T rule: sequential.induct) auto

text \<open>
  While the breaker is open (with enough failures on record), an admitted call moves the end of the window to a full window after
  its own end.
\<close>

lemma outage_open:
  assumes down: "\<And>req. isl (stub False req)"
  shows "\<lbrakk>sequential t cs T; 0 < t; \<not> ic_closed c; br_threshold (ic_breaker c) \<le> br_failures (ic_breaker c);
      \<not> br_halfOpenInFlight (ic_breaker c); br_openUntil (ic_breaker c) \<noteq> 0; br_openDuration (ic_breaker c) = D; 0 < D\<rbrakk> \<Longrightarrow>
    outage stub req c cs = 0 \<or> int (outage stub req c cs) * D < T - (br_openUntil (ic_breaker c) - D)"
proof (induction cs arbitrary: t c)
  case (Cons x cs)
  obtain now later where x: "x = (now, later)" by (cases x)
  let ?b = "ic_breaker c"
  obtain e where e: "stub False req = Inl e" using down [of req] by (auto simp: isl_def)
  have le: "t \<le> now" "now \<le> later" "sequential later cs T" using Cons.prems(1) by (auto simp: x)
  show ?case
  proof (cases "br_openUntil ?b < now")
    case False
    then have "AuthorizeAndAcquire stub now later req c = (c, Inl ErrBreakerOpen)"
      using Cons.prems(6) by (simp add: AuthorizeAndAcquire_def br_allow_def)
    then show ?thesis using Cons.IH [OF le(3), of c] Cons.prems le by (simp add: x)
  next
    case True
    define c' where "c' = c\<lparr>ic_breaker := br_recordFailure later (?b\<lparr>br_halfOpenInFlight := True\<rparr>)\<rparr>"
    have "AuthorizeAndAcquire stub now later req c = (c', Inl (RpcFailed e))"
      using Cons.prems(3,5,6) True e by (simp add: AuthorizeAndAcquire_def br_allow_def c'_def)
    then have count: "outage stub req c (x # cs) = Suc (outage stub req c' cs)" by (simp add: x)
    have "outage stub req c' cs = 0 \<or> int (outage stub req c' cs) * D < T - (br_openUntil (ic_breaker c') - D)"
      using Cons.IH [OF le(3), of c'] Cons.prems le by (simp add: c'_def br_recordFailure_def Let_def)
    moreover have "br_openUntil (ic_breaker c') = later + D" using Cons.prems(4,7) by (simp add: c'_def br_recordFailure_def Let_def)
    ultimately have "outage stub req c' cs = 0 \<or> int (outage stub req c' cs) * D < T - later" by simp
    moreover have "later \<le> T" by (rule sequential_le [OF le(3)])
    ultimately show ?thesis using True le(2) by (auto simp: count algebra_simps)
  qed
qed simp

lemma outage_closed:
  assumes down: "\<And>req. isl (stub False req)"
  shows "\<lbrakk>sequential t cs T; 0 < t; \<not> ic_closed c; br_failures (ic_breaker c) < br_threshold (ic_breaker c);
      br_openUntil (ic_breaker c) = 0; br_openDuration (ic_breaker c) = D; 0 < D\<rbrakk> \<Longrightarrow>
    int (outage stub req c cs) * D \<le> (br_threshold (ic_breaker c) - br_failures (ic_breaker c)) * D + (T - t)"
proof (induction cs arbitrary: t c)
  case (Cons x cs)
  obtain now later where x: "x = (now, later)" by (cases x)
  let ?b = "ic_breaker c"
  obtain e where e: "stub False req = Inl e" using down [of req] by (auto simp: isl_def)
  have le: "t \<le> now" "now \<le> later" "sequential later cs T" using Cons.prems(1) by (auto simp: x)
  define c' where "c' = c\<lparr>ic_breaker := br_recordFailure later ?b\<rparr>"
  have "AuthorizeAndAcquire stub now later req c = (c', Inl (RpcFailed e))"
    using Cons.prems(3,5) e by (simp add: AuthorizeAndAcquire_def br_allow_def c'_def)
  then have count: "outage stub req c (x # cs) = Suc (outage stub req c' cs)" by (simp add: x)
  have d: "0 \<le> (br_threshold ?b - br_failures ?b - 1) * D" using Cons.prems(4,7) by simp
  have "int (outage stub req c' cs) * D \<le> (br_threshold ?b - br_failures ?b - 1) * D + (T - t)"
  proof (cases "br_failures ?b + 1 < br_threshold ?b")
    case True
    then have b': "br_failures (ic_breaker c') = br_failures ?b + 1" "br_openUntil (ic_breaker c') = 0"
      "br_threshold (ic_breaker c') = br_threshold ?b" "br_openDuration (ic_breaker c') = D" "\<not> ic_closed c'"
      using Cons.prems by (simp_all add: c'_def br_recordFailure_def)
    show ?thesis
      using Cons.IH [OF le(3), of c'] Cons.prems(2,7) le True by (simp add: b' algebra_simps)
  next
    case False
    then have b': "br_threshold (ic_breaker c') \<le> br_failures (ic_breaker c')" "br_openUntil (ic_breaker c') = later + D"
      "br_openDuration (ic_breaker c') = D" "\<not> ic_closed c'" "\<not> br_halfOpenInFlight (ic_breaker c')"
      using Cons.prems by (simp_all add: c'_def br_recordFailure_def)
    have "outage stub req c' cs = 0 \<or> int (outage stub req c' cs) * D < T - later"
      using outage_open [where stub = stub, OF down le(3) _ b'(4,1,5) _ b'(3), of req] Cons.prems(2,7) le by (simp add: b'(2))
    moreover have "later \<le> T" by (rule sequential_le [OF le(3)])
    ultimately show ?thesis using d le by auto
  qed
  then show ?case by (simp add: count algebra_simps)
qed (simp add: sequential_le)

text \<open>
  In an outage of the identity service the client stops asking: of any number of calls, one after the other, the RPCs it sends number
  at most the threshold of the breaker plus one per open window that fits into the time they span.
\<close>

theorem identity_outage_bounded:
  fixes stub :: identity_stub
  assumes down: "\<And>req. isl (stub False req)"
    and "NewIdentityClient True endpoint deadlineMS threshold openSec fallback = Some c" "0 < threshold" "0 < openSec"
    and "sequential t cs T" "0 < t"
  shows "int (outage stub req c cs) \<le> threshold + (T - t) div (openSec * second)"
proof -
  have c: "ic_breaker c = newBreaker threshold (openSec * second)" "\<not> ic_closed c"
    using assms(2) by (auto simp: NewIdentityClient_def split: if_splits)
  have pos: "0 < openSec * second" using assms(4) by simp
  have "int (outage stub req c cs) * (openSec * second) \<le> threshold * (openSec * second) + (T - t)"
    using outage_closed [where stub = stub, OF down assms(5,6) c(2), of "openSec * second" req] assms(3) pos by (simp add: c(1) newBreaker_def)
  then have "(int (outage stub req c cs) - threshold) * (openSec * second) \<le> T - t" by (simp add: algebra_simps)
  from zdiv_mono1 [OF this pos] have "int (outage stub req c cs) - threshold \<le> (T - t) div (openSec * second)"
    using pos by (simp only: nonzero_mult_div_cancel_right less_imp_neq [symmetric] not_False_eq_True)
  then show ?thesis by simp
qed

theorem identity_outage_bounded_witness:
  "int (outage (\<lambda>_ _. Inl RpcUnavailable)
      \<lparr>aq_ApiKey = ''k'', aq_TargetModule = '''', aq_TargetModel = '''', aq_RequestId = '''', aq_ClientIp = '''', aq_TenantId = ''''\<rparr>
      \<lparr>ic_closed = False, ic_breaker = newBreaker 3 (5 * second), ic_deadline = 10000000, ic_fallback = False, ic_endpoint = ''id:1''\<rparr>
      (map (\<lambda>i. (int i * second, int i * second)) [1..<20])) \<le> 6"
proof -
  let ?cs = "map (\<lambda>i. (int i * second, int i * second)) [1..<20]"
  let ?c = "\<lparr>ic_closed = False, ic_breaker = newBreaker 3 (5 * second), ic_deadline = 10000000, ic_fallback = False, ic_endpoint = ''id:1''\<rparr>"
  have c: "NewIdentityClient True ''id:1'' 10 3 5 False = Some ?c" by (simp add: NewIdentityClient_def)
  have seq: "sequential second ?cs (19 * second)" by (simp add: upt_rec second_def)
  have "(19 * second - second) div (5 * second) = 3" by (simp add: second_def)
  then show ?thesis
    using identity_outage_bounded [where stub = "\<lambda>_ _. Inl RpcUnavailable", OF _ c _ _ seq] by simp
qed

end
