(* ===== verification/Request_Chain.thy ===== *)
theory Request_Chain
  imports Key_Auth Budgets Identity_Plane Rate_Limiter
begin

text \<open>
  The path of a request from the listener to its handler: the OIDC stage (\<^verbatim>\<open>middleware/oidc.go\<close>), the middleware chain, its
  cached composition, the wrapper around every handler and the rebuild on a configuration reload (\<^verbatim>\<open>server/server.go\<close>), and the
  bridges and gates of the admin plane (\<^verbatim>\<open>server/admin_handlers.go\<close>).

  The chain composes the stages of the other theories over one server state.  A chain captures pointers: the configuration and the
  address of the identity client it was built with.  Clients therefore live in a heap, and closing or replacing one is visible
  wherever its address is.  The prompt filter and the token quota gate are arguments of the chain; what is shown holds for any of them that leave the context alone.
\<close>

section \<open>OIDC\<close>

record OIDCConfig =
  oi_Enabled :: bool
  oi_Issuer :: string
  oi_ClientID :: string
  oi_Audiences :: string
  oi_Scopes :: string
  oi_ClaimMappings :: string

record OIDCProvider =
  op_publicKeys :: "string \<Rightarrow> (nat \<times> nat) option"
  op_fetchedAt :: time

record OIDCAuthenticator =
  oa_provider :: "OIDCProvider option"
  oa_cfg :: OIDCConfig

record oidcJWK =
  oj_Kid :: string
  oj_Kty :: string
  oj_Use :: string
  oj_N :: string
  oj_E :: string

text \<open>Exponents shorter than four bytes are padded, longer ones pass through a 64-bit integer.\<close>

definition oidc_jwkToRSAPublicKey :: "(string \<Rightarrow> nat list option) \<Rightarrow> string \<Rightarrow> string \<Rightarrow> (nat \<times> nat) option" where
  "oidc_jwkToRSAPublicKey base64url nStr eStr =
     (case base64url nStr of
        None \<Rightarrow> None
      | Some nBytes \<Rightarrow>
          (case base64url eStr of
             None \<Rightarrow> None
           | Some eBytes \<Rightarrow>
               (let setBytes = foldl (\<lambda>acc b. 256 * acc + b) 0
                in Some (setBytes nBytes,
                         if length eBytes < 4 then setBytes (replicate (4 - length eBytes) 0 @ eBytes) else setBytes eBytes mod 2 ^ 64))))"

definition oidcKeys :: "(string \<Rightarrow> nat list option) \<Rightarrow> oidcJWK list \<Rightarrow> string \<Rightarrow> (nat \<times> nat) option" where
  "oidcKeys base64url doc =
     foldl (\<lambda>keys j.
        if oj_Kty j \<noteq> ''RSA'' \<or> oj_Use j \<noteq> ''sig'' then keys
        else case oidc_jwkToRSAPublicKey base64url (oj_N j) (oj_E j) of None \<Rightarrow> keys | Some pub \<Rightarrow> keys(oj_Kid j \<mapsto> pub))
       Map.empty doc"

text \<open>The answer of the issuer is its document, or nothing when the fetch or the decoding failed.\<close>

definition fetchJWKS :: "(string \<Rightarrow> nat list option) \<Rightarrow> time \<Rightarrow> oidcJWK list option \<Rightarrow> OIDCProvider \<Rightarrow> OIDCProvider" where
  "fetchJWKS base64url now answer p =
     (case answer of None \<Rightarrow> p | Some doc \<Rightarrow> p\<lparr>op_publicKeys := oidcKeys base64url doc, op_fetchedAt := now\<rparr>)"

definition refreshIfNeeded :: "(string \<Rightarrow> nat list option) \<Rightarrow> time \<Rightarrow> oidcJWK list option \<Rightarrow> OIDCProvider \<Rightarrow> OIDCProvider" where
  "refreshIfNeeded base64url now answer p = (if now - op_fetchedAt p > 60 * minute then fetchJWKS base64url now answer p else p)"

text \<open>
  \<^verbatim>\<open>jwt.Parse\<close> checks signature and time claims under the key that the callback chooses from the signing method and the header.
\<close>

type_synonym jwt_parse = "(bool \<Rightarrow> string \<Rightarrow> (nat \<times> nat) option) \<Rightarrow> time \<Rightarrow> string \<Rightarrow> MapClaims option"

definition oidcKeyFunc :: "OIDCProvider \<Rightarrow> bool \<Rightarrow> string \<Rightarrow> (nat \<times> nat) option" where
  "oidcKeyFunc p isRSA kid = (if \<not> isRSA then None else op_publicKeys p kid)"

fun splitComma :: "string \<Rightarrow> string list" where
  "splitComma [] = ['''']"
| "splitComma (c # cs) = (if c = CHR '','' then [] # splitComma cs else (case splitComma cs of s # ss \<Rightarrow> (c # s) # ss | [] \<Rightarrow> [[c]]))"

text \<open>\<open>sprint\<close> renders a value that is not a string.\<close>

definition audienceOk :: "(claim \<Rightarrow> string) \<Rightarrow> string list \<Rightarrow> claim option \<Rightarrow> bool" where
  "audienceOk sprint auds aud =
     (case aud of
        Some (ClaimString v) \<Rightarrow> list_ex (\<lambda>a. v = TrimSpace a) auds
      | Some (ClaimList vs) \<Rightarrow>
          list_ex (\<lambda>v. list_ex (\<lambda>want. (case v of ClaimString s \<Rightarrow> s | _ \<Rightarrow> sprint v) = TrimSpace want) auds) vs
      | _ \<Rightarrow> False)"

definition issuerOk :: "OIDCConfig \<Rightarrow> MapClaims \<Rightarrow> bool" where
  "issuerOk cfg claims \<longleftrightarrow> oi_Issuer cfg = '''' \<or> (case claims ''iss'' of Some (ClaimString iss) \<Rightarrow> iss | _ \<Rightarrow> '''') = oi_Issuer cfg"

record env =
  ev_sha :: "string \<Rightarrow> string"
  ev_tf :: timeFormat
  ev_matchers :: "(string \<Rightarrow> AuthKeyConfig option) option list"
  ev_tokens :: "string \<Rightarrow> json_token list"
  ev_stub :: identity_stub
  ev_day :: "time \<Rightarrow> string"
  ev_jwt :: jwt_parse
  ev_sprint :: "claim \<Rightarrow> string"
  ev_base64url :: "string \<Rightarrow> nat list option"
  ev_jwks :: "oidcJWK list option"
  ev_estimate :: "HttpRequest \<Rightarrow> int"

definition validateToken :: "env \<Rightarrow> time \<Rightarrow> OIDCConfig \<Rightarrow> string \<Rightarrow> OIDCProvider \<Rightarrow> OIDCProvider \<times> MapClaims option" where
  "validateToken ev now cfg tokenStr p0 =
     (let p = refreshIfNeeded (ev_base64url ev) now (ev_jwks ev) p0 in
      case ev_jwt ev (oidcKeyFunc p) now tokenStr of
        None \<Rightarrow> (p, None)
      | Some claims \<Rightarrow>
          if \<not> issuerOk cfg claims then (p, None)
          else if oi_Audiences cfg \<noteq> '''' \<and> \<not> audienceOk (ev_sprint ev) (splitComma (oi_Audiences cfg)) (claims ''aud'') then (p, None)
          else (p, Some claims))"

definition OIDCMiddleware :: "env \<Rightarrow> time \<Rightarrow> OIDCAuthenticator \<Rightarrow> InboundRequest \<Rightarrow> RequestCtx \<Rightarrow> OIDCAuthenticator \<times> RequestCtx \<times> refusal" where
  "OIDCMiddleware ev now a r ctx0 =
     (let (ctx, p) = EnsurePrincipal ctx0 in
      case oa_provider a of
        None \<Rightarrow> (a, ctx, None)
      | Some prov \<Rightarrow>
          if \<not> oi_Enabled (oa_cfg a) then (a, ctx, None)
          else if pr_AuthMethod p \<noteq> '''' \<and> (pr_IsMaster p \<or> pr_KeyConfig p \<noteq> None) then (a, ctx, None)
          else if \<not> HasPrefix (in_Authorization r) ''Bearer '' then (a, ctx, None)
          else
            (let tokenStr = drop 7 (in_Authorization r) in
             case validateToken ev now (oa_cfg a) tokenStr prov of
               (prov1, None) \<Rightarrow> (a\<lparr>oa_provider := Some prov1\<rparr>, ctx, Some (Respond 401 ''Invalid OIDC token''))
             | (prov1, Some claims) \<Rightarrow>
                 (a\<lparr>oa_provider := Some prov1\<rparr>,
                  ctx\<lparr>rc_Principal := Some (p\<lparr>pr_AuthMethod := ''oidc'', pr_OIDCClaims := Some claims, pr_OIDCToken := tokenStr\<rparr>)\<rparr>, None)))"

section \<open>The chain\<close>

record ChainConfig =
  ch_Auth :: AuthConfig
  ch_Identity :: IdentityConfig
  ch_RBAC :: RBACConfig
  ch_Team :: TeamConfig
  ch_RateLimit :: RateLimitConfig

text \<open>
  The server state.  \<open>sv_clients\<close> is the heap of identity clients, \<open>sv_identityClient\<close> the server's pointer into it, \<open>sv_chain\<close>
  what the cached chain captured when it was built.
\<close>

record Server =
  sv_cfg :: ChainConfig
  sv_clients :: "IdentityClient list"
  sv_identityClient :: "nat option"
  sv_chain :: "ChainConfig \<times> nat option"
  sv_oidc :: OIDCAuthenticator
  sv_store :: "BudgetStore option"
  sv_limiter :: RateLimiter

definition clientAt :: "Server \<Rightarrow> nat option \<Rightarrow> IdentityClient option" where
  "clientAt s a = (case a of Some i \<Rightarrow> if i < length (sv_clients s) then Some (sv_clients s ! i) else None | None \<Rightarrow> None)"

definition putClient :: "nat option \<Rightarrow> IdentityClient option \<Rightarrow> Server \<Rightarrow> Server" where
  "putClient a c s = (case (a, c) of (Some i, Some c1) \<Rightarrow> s\<lparr>sv_clients := (sv_clients s)[i := c1]\<rparr> | _ \<Rightarrow> s)"

text \<open>
  A middleware either answers the request itself or calls the next handler, with the state and the context it leaves.  What the client
  gets is an answer of a middleware or the result of the handler.
\<close>

datatype outcome = Stopped RequestCtx mw_answer | Handled RequestCtx lease_entry

type_synonym handler = "InboundRequest \<Rightarrow> Server \<times> RequestCtx \<Rightarrow> Server \<times> outcome"
type_synonym stage = "InboundRequest \<Rightarrow> Server \<times> RequestCtx \<Rightarrow> (Server \<times> RequestCtx) \<times> refusal"

definition as_middleware :: "stage \<Rightarrow> handler \<Rightarrow> handler" where
  "as_middleware st nxt r x = (case st r x of ((s, ctx), Some a) \<Rightarrow> (s, Stopped ctx a) | ((s, ctx), None) \<Rightarrow> nxt r (s, ctx))"

definition as_handler :: "(InboundRequest \<Rightarrow> Server \<times> RequestCtx \<Rightarrow> Server \<times> lease_entry) \<Rightarrow> handler" where
  "as_handler h r x = (case h r x of (s, entry) \<Rightarrow> (s, Handled (snd x) entry))"

definition credentialStore :: "BudgetStore \<Rightarrow> CredentialStore" where
  "credentialStore q = \<lparr>cs_keys = bs_keys q, cs_teams = bs_teams q\<rparr>"

definition corsStage :: stage where
  "corsStage r x = (if in_Method r = ''OPTIONS'' then (x, Some (Respond 204 '''')) else (x, None))"

definition authStage :: "env \<Rightarrow> time \<Rightarrow> AuthConfig \<Rightarrow> stage" where
  "authStage ev now cfg r x =
     (case x of (s, ctx) \<Rightarrow>
        (case APIKeyAuthWithStore (ev_sha ev) (ev_tf ev) cfg (map_option (memoryLookup \<circ> credentialStore) (sv_store s)) (ev_matchers ev) now r ctx of
           (ctx1, a) \<Rightarrow> ((s, ctx1), a)))"

definition identityStage :: "env \<Rightarrow> time \<Rightarrow> time \<Rightarrow> string \<Rightarrow> IdentityConfig \<Rightarrow> nat option \<Rightarrow> stage" where
  "identityStage ev now later rid cfg a r x =
     (case x of (s, ctx) \<Rightarrow>
        (case IdentityAuth (ev_tokens ev) (ev_stub ev) now later rid (Some cfg) (clientAt s a) r ctx of
           (c, ctx1, ans) \<Rightarrow> ((putClient a c s, ctx1), ans)))"

definition oidcStage :: "env \<Rightarrow> time \<Rightarrow> stage" where
  "oidcStage ev now r x =
     (case x of (s, ctx) \<Rightarrow> (case OIDCMiddleware ev now (sv_oidc s) r ctx of (oa, ctx1, ans) \<Rightarrow> ((s\<lparr>sv_oidc := oa\<rparr>, ctx1), ans)))"

definition pureStage :: "mw \<Rightarrow> stage" where
  "pureStage m r x = (case x of (s, ctx) \<Rightarrow> (case m r ctx of (ctx1, ans) \<Rightarrow> ((s, ctx1), ans)))"

definition budgetStage :: "env \<Rightarrow> time \<Rightarrow> stage" where
  "budgetStage ev now r x =
     (case x of (s, ctx) \<Rightarrow> (case BudgetBlock (ev_day ev) now (sv_store s) ctx of (q, ans) \<Rightarrow> ((s\<lparr>sv_store := q\<rparr>, ctx), ans)))"

definition rateStage :: "env \<Rightarrow> time \<Rightarrow> RateLimitConfig \<Rightarrow> stage" where
  "rateStage ev now cfg r x =
     (case x of (s, ctx) \<Rightarrow>
        (case RateLimit cfg (Some (ev_estimate ev)) now
            \<lparr>hr_Principal = rc_Principal ctx, hr_RemoteAddr = in_RemoteAddr r, hr_Body = in_Body r\<rparr> (sv_limiter s) of
           None \<Rightarrow> ((s, ctx), Some Panics)
         | Some (rl, ServeNext _) \<Rightarrow> ((s\<lparr>sv_limiter := rl\<rparr>, ctx), None)
         | Some (rl, TooManyRequests _ msg) \<Rightarrow> ((s\<lparr>sv_limiter := rl\<rparr>, ctx), Some (Respond 429 msg))))"

text \<open>The stages in the order of the source; the two that only add headers or traces are left out.\<close>

definition chainStages :: "env \<Rightarrow> time \<Rightarrow> time \<Rightarrow> string \<Rightarrow> stage \<Rightarrow> stage \<Rightarrow> ChainConfig \<times> nat option \<Rightarrow> stage list" where
  "chainStages ev now later rid promptInjection tryQuota captured =
     (case captured of (cfg, client) \<Rightarrow>
        [corsStage, authStage ev now (ch_Auth cfg), identityStage ev now later rid (ch_Identity cfg) client, oidcStage ev now,
         pureStage (RBACAuth (ch_RBAC cfg) (Some (ch_Team cfg))), pureStage ScopeEnforce, promptInjection, budgetStage ev now,
         rateStage ev now (ch_RateLimit cfg), tryQuota])"

text \<open>The loop that composes the middlewares from the last to the first.\<close>

fun combineFrom :: "(handler \<Rightarrow> handler) list \<Rightarrow> (handler \<Rightarrow> handler) option \<Rightarrow> (handler \<Rightarrow> handler) option" where
  "combineFrom [] combined = combined"
| "combineFrom (m # ms) combined = combineFrom ms (Some (case combined of None \<Rightarrow> m | Some prev \<Rightarrow> (\<lambda>nxt. m (prev nxt))))"

definition combinedChain :: "(handler \<Rightarrow> handler) list \<Rightarrow> handler \<Rightarrow> handler" where
  "combinedChain chain = (case combineFrom (rev chain) None of None \<Rightarrow> (\<lambda>nxt. nxt) | Some c \<Rightarrow> c)"

definition buildMiddlewareChain :: "Server \<Rightarrow> Server" where
  "buildMiddlewareChain s = s\<lparr>sv_chain := (sv_cfg s, sv_identityClient s)\<rparr>"

definition chainOf :: "env \<Rightarrow> time \<Rightarrow> time \<Rightarrow> string \<Rightarrow> stage \<Rightarrow> stage \<Rightarrow> Server \<Rightarrow> handler \<Rightarrow> handler" where
  "chainOf ev now later rid pinj tq s = combinedChain (map as_middleware (chainStages ev now later rid pinj tq (sv_chain s)))"

definition isLogSkippedPoll :: "InboundRequest \<Rightarrow> bool" where
  "isLogSkippedPoll r \<longleftrightarrow>
     in_Method r = ''GET'' \<and> (in_Path r = ''/v1/models'' \<or> HasPrefix (in_Path r) ''/v1/models/'') \<or>
     in_Method r = ''POST'' \<and> in_Path r = ''/api/v1/shell/manifests''"

text \<open>
  The wrapper: the answer, the messages about the lease, and the key name of the log line (none for a skipped poll).  A panic is answered with 500 and
  skips the rest.  The context of the wrapper is not the one the stages derived from it: only the objects it points to are shared.
\<close>

record served =
  sd_status :: int
  sd_lease :: "lease_message list"
  sd_logged :: "string option"

definition refusedEntry :: "int \<Rightarrow> lease_entry" where
  "refusedEntry status =
     \<lparr>le_StatusCode = status, le_IsSuccess = False, le_Model = '''', le_InputTokens = 0, le_OutputTokens = 0, le_Latency = 0\<rparr>"

definition finishRequest :: "InboundRequest \<Rightarrow> Server \<Rightarrow> RequestCtx \<Rightarrow> lease_entry \<Rightarrow> served" where
  "finishRequest r s ctx entry =
     \<lparr>sd_status = le_StatusCode entry, sd_lease = releaseIdentityLease (clientAt s (sv_identityClient s)) ctx entry,
      sd_logged = (if isLogSkippedPoll r then None
                   else Some (case GetAuthKeyConfig ctx of Some k \<Rightarrow> if akc_Name k \<noteq> '''' then akc_Name k else ''anonymous'' | None \<Rightarrow> ''anonymous''))\<rparr>"

definition withMiddleware ::
    "env \<Rightarrow> time \<Rightarrow> time \<Rightarrow> string \<Rightarrow> stage \<Rightarrow> stage \<Rightarrow> (InboundRequest \<Rightarrow> Server \<times> RequestCtx \<Rightarrow> Server \<times> lease_entry) \<Rightarrow>
      InboundRequest \<Rightarrow> RequestCtx \<Rightarrow> Server \<Rightarrow> Server \<times> served" where
  "withMiddleware ev now later rid pinj tq h r ctx0 s =
     (let ctx = ctx0\<lparr>rc_LogKeyName := Some ''''\<rparr> in
      case chainOf ev now later rid pinj tq s (as_handler h) r (s, ctx) of
        (s1, Stopped inner Panics) \<Rightarrow> (s1, \<lparr>sd_status = 500, sd_lease = [], sd_logged = None\<rparr>)
      | (s1, Stopped inner (Respond status msg)) \<Rightarrow> (s1, finishRequest r s1 (outer_view ctx inner) (refusedEntry status))
      | (s1, Handled inner entry) \<Rightarrow> (s1, finishRequest r s1 (outer_view ctx inner) entry))"

text \<open>The reload: the chain is rebuilt, then the old client is closed and a new one takes its place in the server.\<close>

definition RebuildMiddlewareChain :: "ChainConfig \<Rightarrow> bool \<Rightarrow> Server \<Rightarrow> Server" where
  "RebuildMiddlewareChain newCfg dialled s0 =
     (let s1 = buildMiddlewareChain (s0\<lparr>sv_cfg := newCfg\<rparr>);
          s2 = putClient (sv_identityClient s1) (identity_Close (clientAt s1 (sv_identityClient s1))) s1;
          ic = ch_Identity newCfg
      in case NewIdentityClient dialled (idc_Endpoint ic) (idc_DeadlineMS ic) (idc_BreakerThreshold ic) (idc_BreakerOpenSec ic) (idc_FallbackToLocal ic) of
           None \<Rightarrow> s2\<lparr>sv_identityClient := None\<rparr>
         | Some c \<Rightarrow> s2\<lparr>sv_clients := sv_clients s2 @ [c], sv_identityClient := Some (length (sv_clients s2))\<rparr>)"

section \<open>The admin plane\<close>

text \<open>
  Tokens of the two login planes: the role of a valid admin token, the subject and tenant of a valid shell session, and roles
  and disabled flag of an account.  Absent when the plane is not configured.
\<close>

record admin_plane =
  pl_adminRole :: "(string \<Rightarrow> string option) option"
  pl_shellSession :: "(string \<Rightarrow> (string \<times> string) option) option"
  pl_account :: "(string \<Rightarrow> (string list \<times> bool) option) option"

definition bridgeAdminJWT :: "admin_plane \<Rightarrow> InboundRequest \<Rightarrow> RequestCtx \<Rightarrow> RequestCtx" where
  "bridgeAdminJWT pl r ctx =
     (case pl_adminRole pl of
        None \<Rightarrow> ctx
      | Some validate \<Rightarrow>
          if \<not> HasPrefix (in_Authorization r) ''Bearer '' then ctx
          else (case validate (drop 7 (in_Authorization r)) of
             None \<Rightarrow> ctx
           | Some role \<Rightarrow>
               if role \<noteq> ''admin'' then ctx else ctx\<lparr>rc_Principal := Some ((newPrincipal RoleAdmin)\<lparr>pr_AuthMethod := ''admin-jwt''\<rparr>)\<rparr>))"

definition bridgeShellSession :: "admin_plane \<Rightarrow> InboundRequest \<Rightarrow> RequestCtx \<Rightarrow> RequestCtx" where
  "bridgeShellSession pl r ctx =
     (case (pl_shellSession pl, pl_account pl) of
        (Some validate, Some account) \<Rightarrow>
          if rc_Principal ctx \<noteq> None then ctx
          else if bearerToken r = '''' then ctx
          else (case validate (bearerToken r) of
             None \<Rightarrow> ctx
           | Some (sub, tenant) \<Rightarrow>
               (case account sub of
                  None \<Rightarrow> ctx
                | Some (roles, disabled) \<Rightarrow>
                    if disabled \<or> \<not> list_ex (\<lambda>x. x = ''admin'') roles then ctx
                    else WithTenant (ctx\<lparr>rc_Principal := Some ((newPrincipal RoleAdmin)\<lparr>pr_AuthMethod := ''shell-session''\<rparr>)\<rparr>) tenant))
      | _ \<Rightarrow> ctx)"

text \<open>The gates return the context the wrapped handler starts with, or the refusal.\<close>

definition withAdminOnly :: "admin_plane \<Rightarrow> mw" where
  "withAdminOnly pl r ctx0 =
     (if IsMasterKey ctx0 then (ctx0, Some (Respond 403 ''Admin access required''))
      else
        (let ctx = bridgeShellSession pl r (bridgeAdminJWT pl r ctx0)
         in if \<not> IsAdmin ctx then (ctx, Some (Respond 403 ''Admin access required'')) else (ctx, None)))"

definition withMasterKey :: "AuthConfig \<Rightarrow> mw" where
  "withMasterKey cfg r ctx =
     (if au_MasterKey cfg = '''' then (ctx, Some (Respond 401 ''Unauthorized''))
      else if (if HasPrefix (in_Authorization r) ''Bearer '' then drop 7 (in_Authorization r) else in_Authorization r) \<noteq> au_MasterKey cfg
      then (ctx, Some (Respond 401 ''Unauthorized'')) else (ctx, None))"


section \<open>What the chain establishes\<close>

text \<open>The reference: the stages one after the other, up to the first that answers.\<close>

fun runStages :: "stage list \<Rightarrow> handler \<Rightarrow> handler" where
  "runStages [] h = h"
| "runStages (st # sts) h = as_middleware st (runStages sts h)"

lemma combineFrom_snoc:
  "combineFrom (ms @ [m]) c = Some (case combineFrom ms c of None \<Rightarrow> m | Some prev \<Rightarrow> (\<lambda>nxt. m (prev nxt)))"
  by (induction ms arbitrary: c) auto

lemma combined_runs: "combinedChain (map as_middleware sts) h = runStages sts h"
proof (induction sts)
  case (Cons st sts)
  have "combineFrom (map as_middleware (rev sts)) None = None \<Longrightarrow> runStages sts h = h"
    using Cons by (simp add: combinedChain_def rev_map [symmetric])
  then show ?case
    using Cons by (auto simp: combinedChain_def rev_map combineFrom_snoc split: option.splits)
qed (simp add: combinedChain_def)

text \<open>A stage establishes a condition when it lets a request pass only into contexts that satisfy it.\<close>

definition establishes :: "(InboundRequest \<Rightarrow> RequestCtx \<Rightarrow> bool) \<Rightarrow> stage \<Rightarrow> (InboundRequest \<Rightarrow> RequestCtx \<Rightarrow> bool) \<Rightarrow> bool" where
  "establishes P st Q \<longleftrightarrow> (\<forall>r s ctx s' ctx'. P r ctx \<and> st r (s, ctx) = ((s', ctx'), None) \<longrightarrow> Q r ctx')"

definition keeps_ctx :: "stage \<Rightarrow> bool" where
  "keeps_ctx st \<longleftrightarrow> (\<forall>r s ctx s' ctx' a. st r (s, ctx) = ((s', ctx'), a) \<longrightarrow> ctx' = ctx)"

lemma establishesI:
  "(\<And>r s ctx s' ctx'. P r ctx \<Longrightarrow> st r (s, ctx) = ((s', ctx'), None) \<Longrightarrow> Q r ctx') \<Longrightarrow> establishes P st Q"
  unfolding establishes_def by blast

lemma keeps_establishes: "keeps_ctx st \<Longrightarrow> establishes P st P"
  unfolding keeps_ctx_def establishes_def by metis

text \<open>The conditions along a list of stages.\<close>

inductive established ::
    "(InboundRequest \<Rightarrow> RequestCtx \<Rightarrow> bool) \<Rightarrow> stage list \<Rightarrow> (InboundRequest \<Rightarrow> RequestCtx \<Rightarrow> bool) \<Rightarrow> bool" where
  none: "established P [] P"
| more: "establishes P st Q \<Longrightarrow> established Q sts R \<Longrightarrow> established P (st # sts) R"

lemma established_handled:
  assumes "established P sts R" "P r (snd x)" "runStages sts (as_handler h) r x = (s1, Handled inner entry)"
  shows "R r inner"
  using assms
proof (induction arbitrary: x rule: established.induct)
  case (none P)
  then show ?case by (auto simp: as_handler_def split: prod.splits)
next
  case (more P st Q sts R)
  obtain s' ctx' a where st: "st r x = ((s', ctx'), a)" by (metis prod_cases3 prod.collapse)
  then have a: "a = None" "runStages sts (as_handler h) r (s', ctx') = (s1, Handled inner entry)"
    using more.prems(2) by (auto simp: as_middleware_def split: option.splits)
  have "Q r ctx'" using more.hyps(1) more.prems(1) st a(1) by (cases x) (auto simp: establishes_def)
  then show ?case using more.IH a(2) by auto
qed

lemma stages_keep_ctx: "keeps_ctx corsStage" "keeps_ctx (pureStage ScopeEnforce)" "keeps_ctx (budgetStage ev now)" "keeps_ctx (rateStage ev now cfg)"
  by (auto simp: keeps_ctx_def corsStage_def pureStage_def ScopeEnforce_def budgetStage_def rateStage_def
      split: option.splits prod.splits if_splits RateLimitOutcome.splits)

lemmas keep_stages = stages_keep_ctx [THEN keeps_establishes]


text \<open>A principal that an API key established, with the role it starts with; after the role stage, with a role that stage may give.\<close>

definition by_key :: "(Principal \<Rightarrow> bool) \<Rightarrow> RequestCtx \<Rightarrow> bool" where
  "by_key C ctx \<longleftrightarrow> (\<exists>p k. rc_Principal ctx = Some p \<and> pr_AuthMethod p = ''apikey'' \<and> pr_KeyConfig p = Some k \<and> pr_OIDCClaims p = None \<and> C p)"

definition defaultRole :: "RBACConfig \<Rightarrow> Role" where
  "defaultRole cfg = (if rb_DefaultRole cfg = '''' then RoleViewer else rb_DefaultRole cfg)"

definition role_granted :: "RBACConfig \<Rightarrow> Principal \<Rightarrow> bool" where
  "role_granted cfg p \<longleftrightarrow>
     EffectiveRole p \<noteq> RoleAdmin \<or>
     \<not> pr_IsMaster p \<and> rb_Enabled cfg \<and>
     (rb_DefaultRole cfg = RoleAdmin \<or>
      rb_TrustOIDCClaims cfg \<and> (\<exists>claims. pr_OIDCClaims p = Some claims \<and> claimRole claims (defaultRole cfg) = RoleAdmin))"

definition scope_ok :: "InboundRequest \<Rightarrow> RequestCtx \<Rightarrow> bool" where
  "scope_ok r ctx \<longleftrightarrow>
     (\<forall>p k. rc_Principal ctx = Some p \<and> \<not> pr_IsMaster p \<and> pr_AuthMethod p = ''apikey'' \<and> pr_KeyConfig p = Some k \<and> akc_Scopes k \<noteq> [] \<longrightarrow>
        ScopeAllowsModule (akc_Scopes k) (inferenceModule r))"

lemma stamps_principal [simp]:
  "rc_Principal (WithPrincipal ctx n) = rc_Principal ctx" "rc_Principal (WithTenant ctx t) = rc_Principal ctx"
  "rc_Principal (StampAPIKeyName ctx n) = rc_Principal ctx" "rc_Principal (stampLease ar ctx) = rc_Principal ctx"
  by (simp_all add: WithPrincipal_def WithTenant_def StampAPIKeyName_def stampLease_def)

text \<open>
  The credential of the request, checked against what the gateway holds when the request enters: the master key, or a key of the
  configuration, of the store or of a backend that has not expired.
\<close>

definition credential_ok :: "env \<Rightarrow> time \<Rightarrow> AuthConfig \<Rightarrow> BudgetStore option \<Rightarrow> InboundRequest \<Rightarrow> Principal \<Rightarrow> bool" where
  "credential_ok ev now cfg store r p \<longleftrightarrow>
     extractAPIKey r \<noteq> '''' \<and>
     (if pr_IsMaster p then extractAPIKey r = au_MasterKey cfg
      else \<exists>k. pr_KeyConfig p = Some k \<and> \<not> keyExpired (ev_tf ev) now k \<and>
        matchKey (ev_sha ev) (ev_tf ev) cfg (map_option (memoryLookup \<circ> credentialStore) store) (ev_matchers ev) (extractAPIKey r) now = Some k)"

lemma credential_ok_stable:
  "credential_ok ev now cfg store r (p\<lparr>pr_Team := t\<rparr>) = credential_ok ev now cfg store r p"
  "credential_ok ev now cfg store r (p\<lparr>pr_Role := ro, pr_Team := t\<rparr>) = credential_ok ev now cfg store r p"
  by (simp_all add: credential_ok_def)

lemma auth_stage:
  assumes "au_Enabled cfg" "\<not> au_Passthrough cfg" "rc_Principal ctx = None"
    and "authStage ev now cfg r (s, ctx) = ((s', ctx'), None)"
  shows "s' = s \<and> by_key (credential_ok ev now cfg (sv_store s) r) ctx'"
proof -
  let ?st = "map_option (memoryLookup \<circ> credentialStore) (sv_store s)"
  have a: "s' = s" "APIKeyAuthWithStore (ev_sha ev) (ev_tf ev) cfg ?st (ev_matchers ev) now r ctx = (ctx', None)"
    using assms(4) by (auto simp: authStage_def split: prod.splits)
  have fresh: "EnsurePrincipal ctx = (c, q) \<Longrightarrow> pr_OIDCClaims q = None \<and> pr_AuthMethod q = ''''" for c q
    using assms(3) by (auto simp: EnsurePrincipal_def newPrincipal_def Let_def)
  obtain c q where cq: "EnsurePrincipal ctx = (c, q)" by fastforce
  note un = APIKeyAuthWithStore_def cq fresh [OF cq] Let_def
  have ne: "extractAPIKey r \<noteq> ''''" using a(2) assms(1,2) by (auto simp: un)
  show ?thesis
  proof (cases "au_MasterKey cfg \<noteq> '''' \<and> au_MasterKey cfg = extractAPIKey r")
    case True
    then show ?thesis using a assms(1,2) ne by (auto simp: un by_key_def credential_ok_def)
  next
    case False
    then obtain kc where k: "matchKey (ev_sha ev) (ev_tf ev) cfg ?st (ev_matchers ev) (extractAPIKey r) now = Some kc"
        "\<not> keyExpired (ev_tf ev) now kc" "acceptKey ?st (extractAPIKey r) kc q c = (ctx', None)"
      using a(2) assms(1,2) ne by (auto simp: un split: if_splits option.splits)
    show ?thesis using acceptKey_principal [OF k(3)] k(1,2) a(1) ne fresh [OF cq] by (auto simp: by_key_def credential_ok_def)
  qed
qed

lemma identity_stage:
  assumes "\<And>p t. C (p\<lparr>pr_Team := t\<rparr>) = C p"
  shows "establishes (\<lambda>_. by_key C) (identityStage ev now later rid cfg a) (\<lambda>_. by_key C)"
proof (rule establishesI)
  fix r s ctx s' ctx'
  assume ctx: "by_key C ctx" and st: "identityStage ev now later rid cfg a r (s, ctx) = ((s', ctx'), None)"
  obtain p where p: "rc_Principal ctx = Some p" using ctx by (auto simp: by_key_def)
  have "rc_Principal ctx' = Some p \<or> (\<exists>t. rc_Principal ctx' = Some (p\<lparr>pr_Team := t\<rparr>))"
    using st p
    by (auto simp: identityStage_def IdentityAuth_def EnsurePrincipal_def stampTenant_def Let_def
        split: prod.splits if_splits option.splits sum.splits)
  then show "by_key C ctx'" using ctx p assms by (auto simp: by_key_def)
qed

lemma oidc_stage: "establishes (\<lambda>_. by_key C) (oidcStage ev now) (\<lambda>_. by_key C)"
  by (rule establishesI) (auto simp: by_key_def oidcStage_def OIDCMiddleware_def EnsurePrincipal_def Let_def
      split: prod.splits if_splits option.splits)

lemma rbacTeam_principal:
  "\<exists>t. rc_Principal (rbacTeam teamCfg role p ctx) = Some (p\<lparr>pr_Team := t\<rparr>)"
proof -
  have "p = p\<lparr>pr_Team := pr_Team p\<rparr>" by simp
  then show ?thesis
    by (cases "rc_Principal (rbacTeam teamCfg role p ctx) = Some p")
      (auto simp: rbacTeam_def Let_def split: option.split if_split intro: exI [of _ "pr_Team p"])
qed


text \<open>Requests that did not enter through one of the login bridges.\<close>

definition not_bridged :: "(Principal \<Rightarrow> bool) \<Rightarrow> RequestCtx \<Rightarrow> bool" where
  "not_bridged C ctx \<longleftrightarrow>
     (\<exists>p. rc_Principal ctx = Some p \<and> pr_AuthMethod p \<noteq> ''admin-jwt'' \<and> pr_AuthMethod p \<noteq> ''shell-session'' \<and> C p)"

lemma auth_stage_open:
  "establishes (\<lambda>_ ctx. rc_Principal ctx = None) (authStage ev now cfg) (\<lambda>_. not_bridged (\<lambda>p. pr_Role p = RoleViewer))"
  by (rule establishesI) (auto simp: authStage_def APIKeyAuthWithStore_def EnsurePrincipal_def newPrincipal_def acceptKey_def not_bridged_def
      Let_def split: prod.splits if_splits option.splits)

lemma identity_stage_open:
  "establishes (\<lambda>_. not_bridged (\<lambda>p. pr_Role p = RoleViewer)) (identityStage ev now later rid cfg a) (\<lambda>_. not_bridged (\<lambda>p. pr_Role p = RoleViewer))"
proof (rule establishesI)
  fix r s ctx s' ctx'
  assume ctx: "not_bridged (\<lambda>p. pr_Role p = RoleViewer) ctx" and st: "identityStage ev now later rid cfg a r (s, ctx) = ((s', ctx'), None)"
  obtain p where p: "rc_Principal ctx = Some p" using ctx by (auto simp: not_bridged_def)
  have "rc_Principal ctx' = Some p \<or> (\<exists>t. rc_Principal ctx' = Some (p\<lparr>pr_Team := t\<rparr>))"
    using st p
    by (auto simp: identityStage_def IdentityAuth_def EnsurePrincipal_def stampTenant_def Let_def
        split: prod.splits if_splits option.splits sum.splits)
  then show "not_bridged (\<lambda>p. pr_Role p = RoleViewer) ctx'" using ctx p by (auto simp: not_bridged_def)
qed

lemma oidc_stage_open:
  "establishes (\<lambda>_. not_bridged (\<lambda>p. pr_Role p = RoleViewer)) (oidcStage ev now) (\<lambda>_. not_bridged (\<lambda>p. pr_Role p = RoleViewer))"
  by (rule establishesI) (auto simp: not_bridged_def oidcStage_def OIDCMiddleware_def EnsurePrincipal_def Let_def
      split: prod.splits if_splits option.splits)

lemma rbacRole_granted:
  assumes "rb_Enabled cfg"
  shows "role_granted cfg (p\<lparr>pr_Role := rbacRole cfg p, pr_Team := t\<rparr>)"
  using assms by (auto simp: role_granted_def defaultRole_def rbacRole_def EffectiveRole_def Let_def split: option.splits if_splits)

lemma RBAC_principal:
  assumes "rc_Principal ctx = Some p" "pr_AuthMethod p \<noteq> ''admin-jwt''" "pr_AuthMethod p \<noteq> ''shell-session''"
    "RBACAuth cfg tc r ctx = (ctx', a)"
  shows "\<not> rb_Enabled cfg \<and> ctx' = ctx \<or> rb_Enabled cfg \<and> (\<exists>t. rc_Principal ctx' = Some (p\<lparr>pr_Role := rbacRole cfg p, pr_Team := t\<rparr>))"
  using assms rbacTeam_principal [of tc "rbacRole cfg p" "p\<lparr>pr_Role := rbacRole cfg p\<rparr>" ctx]
  by (auto simp: RBACAuth_def EnsurePrincipal_def Let_def split: if_splits)

lemma role_granted_viewer: "pr_Role p = RoleViewer \<Longrightarrow> role_granted cfg p"
  by (simp add: role_granted_def EffectiveRole_def)

lemma rbac_stage_open:
  "establishes (\<lambda>_. not_bridged (\<lambda>p. pr_Role p = RoleViewer)) (pureStage (RBACAuth cfg tc)) (\<lambda>_. not_bridged (role_granted cfg))"
proof (rule establishesI)
  fix r s ctx s' ctx'
  assume ctx: "not_bridged (\<lambda>p. pr_Role p = RoleViewer) ctx" and st: "pureStage (RBACAuth cfg tc) r (s, ctx) = ((s', ctx'), None)"
  obtain p where p: "rc_Principal ctx = Some p" "pr_AuthMethod p \<noteq> ''admin-jwt''" "pr_AuthMethod p \<noteq> ''shell-session''" "pr_Role p = RoleViewer"
    using ctx by (auto simp: not_bridged_def)
  have "RBACAuth cfg tc r ctx = (ctx', None)" using st by (auto simp: pureStage_def split: prod.splits)
  from RBAC_principal [OF p(1-3) this] show "not_bridged (role_granted cfg) ctx'"
    using p rbacRole_granted [of cfg _ p] role_granted_viewer [of p cfg] by (auto simp: not_bridged_def)
qed

lemma rbac_stage:
  assumes "\<And>p ro t. C (p\<lparr>pr_Role := ro, pr_Team := t\<rparr>) = C p"
  shows "establishes (\<lambda>_. by_key C) (pureStage (RBACAuth cfg tc)) (\<lambda>_. by_key C)"
proof (rule establishesI)
  fix r s ctx s' ctx'
  assume ctx: "by_key C ctx" and st: "pureStage (RBACAuth cfg tc) r (s, ctx) = ((s', ctx'), None)"
  obtain p where p: "rc_Principal ctx = Some p" "pr_AuthMethod p = ''apikey''" using ctx by (auto simp: by_key_def)
  have "RBACAuth cfg tc r ctx = (ctx', None)" using st by (auto simp: pureStage_def split: prod.splits)
  from RBAC_principal [OF p(1) _ _ this] show "by_key C ctx'" using p ctx by (auto simp: by_key_def assms)
qed

lemma scope_stage: "establishes (\<lambda>_. by_key C) (pureStage ScopeEnforce) (\<lambda>r ctx. by_key C ctx \<and> scope_ok r ctx)"
  by (rule establishesI) (auto simp: by_key_def scope_ok_def pureStage_def ScopeEnforce_def ScopeAllowsModule_def split: prod.splits if_splits)

lemma chain_established:
  assumes "established P (chainStages ev now later rid pinj tq (sv_chain s)) R" "P r ctx"
    "chainOf ev now later rid pinj tq s (as_handler h) r (s, ctx) = (s1, Handled inner entry)"
  shows "R r inner"
  by (rule established_handled [OF assms(1), where x = "(s, ctx)"]) (use assms(2,3) in \<open>simp_all add: chainOf_def combined_runs\<close>)

text \<open>The chain behind the first two stages.\<close>

lemma chain_after_auth:
  assumes "sv_chain s = (cfg, a)" "chainOf ev now later rid pinj tq s (as_handler h) r (s, ctx) = (s1, Handled inner entry)"
  obtains s' ctx' where "authStage ev now (ch_Auth cfg) r (s, ctx) = ((s', ctx'), None)"
    "runStages (drop 2 (chainStages ev now later rid pinj tq (cfg, a))) (as_handler h) r (s', ctx') = (s1, Handled inner entry)"
proof -
  let ?rest = "drop 2 (chainStages ev now later rid pinj tq (cfg, a))"
  have "runStages (corsStage # authStage ev now (ch_Auth cfg) # ?rest) (as_handler h) r (s, ctx) = (s1, Handled inner entry)"
    using assms by (simp add: chainOf_def combined_runs [of "chainStages ev now later rid pinj tq (cfg, a)"]) (simp add: chainStages_def)
  then show thesis using that
    by (auto simp: as_middleware_def corsStage_def split: prod.splits option.splits if_splits)
qed

text \<open>
  C16. With key authentication on, every request that enters the cached chain without a principal and reaches a handler presented a
  valid credential: the master key, or a key that the configuration, the store at that time or a backend matched and that had not
  expired, and this is the key the handler sees.  It carries no OIDC identity, and a key with scopes has one that covers the module
  of the path.  A request that a login bridge of the admin routes gave a principal passes the key stage without a key and is not
  covered here.  The prompt filter and the token quota gate are any that leave the context alone; the identity service is any.
\<close>

theorem chain_authenticates:
  assumes "rc_Principal ctx = None" "sv_chain s = (cfg, a)" "au_Enabled (ch_Auth cfg)" "\<not> au_Passthrough (ch_Auth cfg)"
    "keeps_ctx pinj" "keeps_ctx tq"
    and "chainOf ev now later rid pinj tq s (as_handler h) r (s, ctx) = (s1, Handled inner entry)"
  shows "\<exists>p k. rc_Principal inner = Some p \<and> pr_AuthMethod p = ''apikey'' \<and> pr_KeyConfig p = Some k \<and> pr_OIDCClaims p = None \<and>
    extractAPIKey r \<noteq> '''' \<and>
    (if pr_IsMaster p then extractAPIKey r = au_MasterKey (ch_Auth cfg)
     else \<not> keyExpired (ev_tf ev) now k \<and>
       matchKey (ev_sha ev) (ev_tf ev) (ch_Auth cfg) (map_option (memoryLookup \<circ> credentialStore) (sv_store s)) (ev_matchers ev)
         (extractAPIKey r) now = Some k) \<and>
    (\<not> pr_IsMaster p \<and> akc_Scopes k \<noteq> [] \<longrightarrow> ScopeAllowsModule (akc_Scopes k) (inferenceModule r))"
proof -
  let ?C = "credential_ok ev now (ch_Auth cfg) (sv_store s) r"
  obtain s' ctx' where auth: "authStage ev now (ch_Auth cfg) r (s, ctx) = ((s', ctx'), None)"
    and run: "runStages (drop 2 (chainStages ev now later rid pinj tq (cfg, a))) (as_handler h) r (s', ctx') = (s1, Handled inner entry)"
    by (rule chain_after_auth [OF assms(2,7)])
  have key: "by_key ?C ctx'" using auth_stage [OF assms(3,4,1) auth] by blast
  have "established (\<lambda>_. by_key ?C) (drop 2 (chainStages ev now later rid pinj tq (cfg, a))) (\<lambda>r ctx. by_key ?C ctx \<and> scope_ok r ctx)"
    unfolding chainStages_def prod.case drop_Suc_Cons numeral_2_eq_2 drop_0
    by (intro established.more)
      (rule established.none scope_stage keep_stages assms(5,6) [THEN keeps_establishes] identity_stage oidc_stage rbac_stage credential_ok_stable)+
  from established_handled [OF this _ run] have "by_key ?C inner \<and> scope_ok r inner" using key by simp
  then obtain p k where "rc_Principal inner = Some p" "pr_AuthMethod p = ''apikey''" "pr_KeyConfig p = Some k" "pr_OIDCClaims p = None" "?C p"
    and "scope_ok r inner" by (auto simp: by_key_def)
  then show ?thesis by (intro exI [of _ p] exI [of _ k]) (auto simp: scope_ok_def credential_ok_def)
qed

text \<open>
  C18. No request becomes an administrator in the chain unless the operator configured it: a request that enters without a login bridge and
  reaches a handler with the admin role does not use the master key, and either the default role is admin or claims are trusted and its
  OIDC claims name the role.
\<close>

theorem chain_no_escalation:
  assumes "rc_Principal ctx = None" "sv_chain s = (cfg, a)" "keeps_ctx pinj" "keeps_ctx tq"
    and "chainOf ev now later rid pinj tq s (as_handler h) r (s, ctx) = (s1, Handled inner entry)" "IsAdmin inner"
  shows "\<not> IsMasterKey inner \<and> rb_Enabled (ch_RBAC cfg) \<and>
    (rb_DefaultRole (ch_RBAC cfg) = RoleAdmin \<or>
     rb_TrustOIDCClaims (ch_RBAC cfg) \<and> (\<exists>claims. GetOIDCClaims inner = Some claims \<and> claimRole claims (defaultRole (ch_RBAC cfg)) = RoleAdmin))"
proof -
  have "established (\<lambda>_ ctx. rc_Principal ctx = None) (chainStages ev now later rid pinj tq (cfg, a)) (\<lambda>_. not_bridged (role_granted (ch_RBAC cfg)))"
    unfolding chainStages_def prod.case
    by (intro established.more)
      (rule established.none keep_stages assms(3,4) [THEN keeps_establishes] auth_stage_open identity_stage_open oidc_stage_open rbac_stage_open)+
  then have "not_bridged (role_granted (ch_RBAC cfg)) inner"
    using chain_established [OF _ _ assms(5)] assms(1,2) by simp
  then show ?thesis using assms(6)
    by (auto simp: not_bridged_def role_granted_def IsAdmin_def IsMasterKey_def GetOIDCClaims_def)
qed


text \<open>A gateway with key authentication, an identity service, roles and teams on, for the examples.\<close>

definition demo_stub :: identity_stub where
  "demo_stub cl req =
     (if cl then Inl RpcClientConnClosing
      else Inr \<lparr>ap_IsAllowed = True, ap_ErrorCode = AUTH_ERROR_CODE_UNSPECIFIED, ap_ErrorMessage = '''',
                ap_TenantContext = Some \<lparr>tx_TenantId = ''acme'', tx_TenantName = ''Acme'', tx_Tier = ''gold'', tx_Priority = 2\<rparr>,
                ap_LeaseId = ''lease-1'', ap_MaxAllowedTokens = 4096\<rparr>)"

definition demo_env :: env where
  "demo_env = \<lparr>ev_sha = id, ev_tf = script_format, ev_matchers = [], ev_tokens = (\<lambda>_. []), ev_stub = demo_stub, ev_day = (\<lambda>_. ''2026-01-01''),
     ev_jwt = (\<lambda>_ _ _. None), ev_sprint = (\<lambda>_. ''''), ev_base64url = (\<lambda>_. None), ev_jwks = None, ev_estimate = (\<lambda>_. 0)\<rparr>"

definition demo_config :: ChainConfig where
  "demo_config =
     \<lparr>ch_Auth = \<lparr>au_Enabled = True, au_APIKeys = [(keyConfig ''k1'' ''ci'')\<lparr>akc_Scopes := [''chat'']\<rparr>], au_Passthrough = False, au_MasterKey = ''root'', au_KeyRotationGrace = 10\<rparr>,
      ch_Identity = \<lparr>idc_Enabled = True, idc_Endpoint = ''id:1'', idc_DeadlineMS = 10, idc_KeepAliveSec = 30, idc_FallbackToLocal = False,
                     idc_BreakerThreshold = 3, idc_BreakerOpenSec = 5\<rparr>,
      ch_RBAC = \<lparr>rb_Enabled = True, rb_DefaultRole = ''admin'', rb_TrustOIDCClaims = False\<rparr>,
      ch_Team = \<lparr>tc_Enabled = True, tc_DefaultTeam = ''default''\<rparr>,
      ch_RateLimit = \<lparr>rlc_Enabled = False, rlc_KeyEnforcement = False, rlc_AnonymousRPM = 0\<rparr>\<rparr>"

definition demo_server :: Server where
  "demo_server =
     \<lparr>sv_cfg = demo_config,
      sv_clients = [\<lparr>ic_closed = False, ic_breaker = newBreaker 3 (5 * second), ic_deadline = 10000000, ic_fallback = False, ic_endpoint = ''id:1''\<rparr>],
      sv_identityClient = Some 0, sv_chain = (demo_config, Some 0),
      sv_oidc = \<lparr>oa_provider = None, oa_cfg = \<lparr>oi_Enabled = False, oi_Issuer = '''', oi_ClientID = '''', oi_Audiences = '''', oi_Scopes = '''', oi_ClaimMappings = ''''\<rparr>\<rparr>,
      sv_store = Some ledger_store, sv_limiter = NewRateLimiter\<rparr>"

definition passStage :: stage where
  "passStage r x = (x, None)"

definition demo_handler :: "InboundRequest \<Rightarrow> Server \<times> RequestCtx \<Rightarrow> Server \<times> lease_entry" where
  "demo_handler r x = (fst x, \<lparr>le_StatusCode = 200, le_IsSuccess = True, le_Model = ''m'', le_InputTokens = 5, le_OutputTokens = 7, le_Latency = 1\<rparr>)"

abbreviation demo_run :: "Server \<times> outcome" where
  "demo_run \<equiv> chainOf demo_env 100 101 ''rid'' passStage passStage demo_server (as_handler demo_handler) (bearer ''k1'') (demo_server, empty_ctx)"

lemma passStage_keeps: "keeps_ctx passStage"
  by (simp add: keeps_ctx_def passStage_def)

lemma demo_handled: "\<exists>s1 inner entry. demo_run = (s1, Handled inner entry)"
proof -
  have "(case snd demo_run of Handled _ _ \<Rightarrow> True | Stopped _ _ \<Rightarrow> False)" by code_simp
  then show ?thesis by (cases demo_run) (auto split: outcome.splits)
qed

lemma demo_admin: "demo_run = (s1, Handled inner entry) \<Longrightarrow> IsAdmin inner"
proof -
  have "(case snd demo_run of Handled c _ \<Rightarrow> IsAdmin c | Stopped _ _ \<Rightarrow> False)" by code_simp
  then show "demo_run = (s1, Handled inner entry) \<Longrightarrow> IsAdmin inner" by simp
qed

theorem chain_authenticates_witness:
  "\<exists>s1 inner entry p k. demo_run = (s1, Handled inner entry) \<and> rc_Principal inner = Some p \<and> pr_AuthMethod p = ''apikey'' \<and>
     pr_KeyConfig p = Some k \<and> (\<not> pr_IsMaster p \<longrightarrow> \<not> keyExpired (ev_tf demo_env) 100 k)"
proof -
  obtain s1 inner entry where run: "demo_run = (s1, Handled inner entry)" using demo_handled by blast
  have "\<exists>p k. rc_Principal inner = Some p \<and> pr_AuthMethod p = ''apikey'' \<and> pr_KeyConfig p = Some k \<and>
      (\<not> pr_IsMaster p \<longrightarrow> \<not> keyExpired (ev_tf demo_env) 100 k)"
    using chain_authenticates [where cfg = demo_config and a = "Some 0", OF _ _ _ _ passStage_keeps passStage_keeps run]
    by (auto simp: empty_ctx_def demo_server_def demo_config_def)
  then show ?thesis using run by blast
qed

theorem chain_no_escalation_witness:
  "\<exists>s1 inner entry. demo_run = (s1, Handled inner entry) \<and> \<not> IsMasterKey inner"
proof -
  obtain s1 inner entry where run: "demo_run = (s1, Handled inner entry)" using demo_handled by blast
  have "\<not> IsMasterKey inner"
    using chain_no_escalation [where cfg = demo_config and a = "Some 0", OF _ _ passStage_keeps passStage_keeps run demo_admin [OF run]]
    by (simp add: empty_ctx_def demo_server_def)
  then show ?thesis using run by blast
qed

section \<open>The identity lease\<close>

text \<open>
  The lease of the identity service is never released.  The identity stage stamps the lease into a context derived from the wrapper's,
  and the wrapper releases with its own: whenever a handler ran under a lease, no release and no usage report is sent, although the
  same release with the handler's context would have sent them.
\<close>

theorem identity_lease_leak:
  assumes "rc_Lease ctx0 = None"
    and "chainOf ev now later rid pinj tq s (as_handler h) r (s, ctx0\<lparr>rc_LogKeyName := Some ''''\<rparr>) = (s1, Handled inner entry)"
    and "rc_Lease inner = Some lease" "il_LeaseID lease \<noteq> ''''" "clientAt s1 (sv_identityClient s1) \<noteq> None"
  shows "sd_lease (snd (withMiddleware ev now later rid pinj tq h r ctx0 s)) = [] \<and>
    (\<exists>tenant reason. ReleaseMsg (il_LeaseID lease) tenant reason \<in> set (releaseIdentityLease (clientAt s1 (sv_identityClient s1)) inner entry))"
  using assms
  by (simp add: withMiddleware_def finishRequest_def outer_view_def releaseIdentityLease_def ReleaseLease_def ReportUsage_def Let_def)

theorem identity_lease_leak_witness:
  "\<exists>s1 inner entry tenant reason. demo_run = (s1, Handled inner entry) \<and>
     ReleaseMsg ''lease-1'' tenant reason \<in> set (releaseIdentityLease (clientAt s1 (sv_identityClient s1)) inner entry) \<and>
     sd_lease (snd (withMiddleware demo_env 100 101 ''rid'' passStage passStage demo_handler (bearer ''k1'') empty_ctx demo_server)) = []"
proof -
  obtain s1 inner entry where run: "demo_run = (s1, Handled inner entry)" using demo_handled by blast
  have "(case demo_run of (s1, Handled c _) \<Rightarrow> (case rc_Lease c of Some l \<Rightarrow> il_LeaseID l = ''lease-1'' | None \<Rightarrow> False) \<and>
      (case clientAt s1 (sv_identityClient s1) of Some _ \<Rightarrow> True | None \<Rightarrow> False) | _ \<Rightarrow> False)" by code_simp
  then obtain lease where lease: "rc_Lease inner = Some lease" "il_LeaseID lease = ''lease-1''" "clientAt s1 (sv_identityClient s1) \<noteq> None"
    by (auto simp: run split: option.splits)
  have "empty_ctx\<lparr>rc_LogKeyName := Some ''''\<rparr> = empty_ctx" "rc_Lease empty_ctx = None" by (simp_all add: empty_ctx_def)
  then show ?thesis
    using identity_lease_leak [of empty_ctx demo_env 100 101 "''rid''" passStage passStage demo_server demo_handler "bearer ''k1''" s1 inner entry lease]
      run lease by auto
qed

section \<open>Reload\<close>

definition chain_cut :: "Server \<Rightarrow> bool" where
  "chain_cut s \<longleftrightarrow>
     (\<exists>cfg i c. sv_chain s = (cfg, Some i) \<and> idc_Enabled (ch_Identity cfg) \<and> clientAt s (Some i) = Some c \<and> ic_closed c \<and> \<not> ic_fallback c)"

text \<open>A request that the key stage lets pass with an API key, in the context it leaves.\<close>

definition keyed_request :: "env \<Rightarrow> time \<Rightarrow> Server \<Rightarrow> InboundRequest \<Rightarrow> RequestCtx \<Rightarrow> bool" where
  "keyed_request ev now s r ctx \<longleftrightarrow>
     in_Method r \<noteq> ''OPTIONS'' \<and>
     (\<exists>ctx1 p k. authStage ev now (ch_Auth (fst (sv_chain s))) r (s, ctx) = ((s, ctx1), None) \<and> rc_Principal ctx1 = Some p \<and>
        pr_AuthMethod p \<noteq> ''admin-jwt'' \<and> \<not> pr_IsMaster p \<and> pr_KeyConfig p = Some k \<and> akc_Key k \<noteq> '''')"

lemma closed_client_refuses:
  assumes "\<And>req. isl (stub True req)" "ic_closed c"
  shows "\<exists>c1 e. AuthorizeAndAcquire stub now later req c = (c1, Inl e) \<and> ic_closed c1 \<and> ic_fallback c1 = ic_fallback c"
  using assms(2) assms(1) [of req] by (auto simp: AuthorizeAndAcquire_def isl_def split: prod.split bool.split)

lemma cut_request:
  assumes closed: "\<And>req. isl (ev_stub ev True req)" and cut: "chain_cut s" and req: "keyed_request ev now s r ctx"
  shows "\<exists>s1 ctx1. chainOf ev now later rid pinj tq s h r (s, ctx) = (s1, Stopped ctx1 (Respond 503 ''identity service unavailable'')) \<and> chain_cut s1"
proof -
  obtain cfg i c where s: "sv_chain s = (cfg, Some i)" "idc_Enabled (ch_Identity cfg)" "clientAt s (Some i) = Some c" "ic_closed c" "\<not> ic_fallback c"
    using cut by (auto simp: chain_cut_def)
  obtain ctx1 p k where a: "authStage ev now (ch_Auth cfg) r (s, ctx) = ((s, ctx1), None)" "rc_Principal ctx1 = Some p"
      "pr_AuthMethod p \<noteq> ''admin-jwt''" "\<not> pr_IsMaster p" "pr_KeyConfig p = Some k" "akc_Key k \<noteq> ''''"
    using req s(1) by (auto simp: keyed_request_def)
  let ?req = "authorizeRequest (ev_tokens ev) rid r p"
  obtain c1 e where c1: "AuthorizeAndAcquire (ev_stub ev) now later ?req c = (c1, Inl e)" "ic_closed c1" "\<not> ic_fallback c1"
    using closed_client_refuses [of "ev_stub ev" c now later ?req] closed s(4,5) by auto
  have key: "aq_ApiKey ?req = akc_Key k" using a(5) by (simp add: authorizeRequest_def)
  have "IdentityAuth (ev_tokens ev) (ev_stub ev) now later rid (Some (ch_Identity cfg)) (Some c) r ctx1 =
      (Some c1, ctx1, Some (Respond 503 ''identity service unavailable''))"
    using a s(2) c1 key by (simp add: IdentityAuth_def EnsurePrincipal_def Let_def)
  then have id: "identityStage ev now later rid (ch_Identity cfg) (Some i) r (s, ctx1) =
      ((putClient (Some i) (Some c1) s, ctx1), Some (Respond 503 ''identity service unavailable''))"
    by (simp add: identityStage_def s(3))
  have cors: "corsStage r (s, ctx) = ((s, ctx), None)" using req by (simp add: keyed_request_def corsStage_def)
  have "chainOf ev now later rid pinj tq s h r (s, ctx) =
      (putClient (Some i) (Some c1) s, Stopped ctx1 (Respond 503 ''identity service unavailable''))"
    unfolding chainOf_def combined_runs by (simp add: chainStages_def s(1) as_middleware_def cors a(1) id)
  moreover have "chain_cut (putClient (Some i) (Some c1) s)"
    using s c1 by (auto simp: chain_cut_def putClient_def clientAt_def split: if_splits)
  ultimately show ?thesis by blast
qed

text \<open>
  C22. After a reload the chain asks a closed client.  The reload rebuilds the chain first and replaces the identity client afterwards, so the
  chain keeps the client that is closed in the next step, while the server's own client is new and open.  Unless that client falls
  back, every request with a key is answered 503 from then on, and nothing the requests do changes that.  The hypothesis on the
  stub is the documented behaviour of a closed gRPC connection.
\<close>

theorem reload_cuts_identity:
  assumes closed: "\<And>req. isl (ev_stub ev True req)"
    and "sv_identityClient s = Some i" "i < length (sv_clients s)" "\<not> ic_fallback (sv_clients s ! i)"
    and "idc_Enabled (ch_Identity newCfg)" "idc_Endpoint (ch_Identity newCfg) \<noteq> ''''"
  defines "s' \<equiv> RebuildMiddlewareChain newCfg True s"
  shows "chain_cut s' \<and> (\<exists>c. clientAt s' (sv_identityClient s') = Some c \<and> \<not> ic_closed c) \<and>
    (\<forall>s now later rid pinj tq h r ctx. chain_cut s \<and> keyed_request ev now s r ctx \<longrightarrow>
      (\<exists>s1 ctx1. chainOf ev now later rid pinj tq s h r (s, ctx) = (s1, Stopped ctx1 (Respond 503 ''identity service unavailable'')) \<and> chain_cut s1))"
proof (intro conjI allI impI)
  show "chain_cut s'"
    using assms(2-6)
    by (auto simp: s'_def RebuildMiddlewareChain_def buildMiddlewareChain_def chain_cut_def putClient_def identity_Close_def clientAt_def
        NewIdentityClient_def Let_def nth_append)
  show "\<exists>c. clientAt s' (sv_identityClient s') = Some c \<and> \<not> ic_closed c"
    using assms(6) by (simp add: s'_def RebuildMiddlewareChain_def clientAt_def NewIdentityClient_def Let_def)
  show "\<exists>s1 ctx1. chainOf ev now later rid pinj tq s h r (s, ctx) = (s1, Stopped ctx1 (Respond 503 ''identity service unavailable'')) \<and> chain_cut s1"
    if "chain_cut s \<and> keyed_request ev now s r ctx" for s now later rid pinj tq h r ctx
    using cut_request [OF closed] that by blast
qed

theorem reload_cuts_identity_witness:
  "\<exists>s1 ctx1. chainOf demo_env 200 201 ''rid'' passStage passStage (RebuildMiddlewareChain demo_config True demo_server) (as_handler demo_handler)
      (bearer ''k1'') (RebuildMiddlewareChain demo_config True demo_server, empty_ctx) =
      (s1, Stopped ctx1 (Respond 503 ''identity service unavailable''))"
proof -
  let ?s = "RebuildMiddlewareChain demo_config True demo_server"
  have "(case authStage demo_env 200 (ch_Auth (fst (sv_chain ?s))) (bearer ''k1'') (?s, empty_ctx) of
      ((s, ctx1), None) \<Rightarrow> (case rc_Principal ctx1 of Some p \<Rightarrow> pr_AuthMethod p = ''apikey'' \<and> \<not> pr_IsMaster p \<and>
        (case pr_KeyConfig p of Some k \<Rightarrow> akc_Key k = ''k1'' | None \<Rightarrow> False) | None \<Rightarrow> False) | _ \<Rightarrow> False)"
    by code_simp
  moreover have "fst (fst (authStage demo_env 200 (ch_Auth (fst (sv_chain ?s))) (bearer ''k1'') (?s, empty_ctx))) = ?s"
    by (simp add: authStage_def split: prod.split)
  moreover have "in_Method (bearer ''k1'') \<noteq> ''OPTIONS''" by (simp add: bearer_def)
  ultimately have req: "keyed_request demo_env 200 ?s (bearer ''k1'') empty_ctx"
    unfolding keyed_request_def by (fastforce split: prod.splits option.splits)
  have "\<And>q. isl (ev_stub demo_env True q)" by (simp add: demo_env_def demo_stub_def)
  from reload_cuts_identity [where s = demo_server and i = 0 and newCfg = demo_config, OF this]
  have "chain_cut ?s \<and> (\<forall>s now later rid pinj tq h r ctx. chain_cut s \<and> keyed_request demo_env now s r ctx \<longrightarrow>
      (\<exists>s1 ctx1. chainOf demo_env now later rid pinj tq s h r (s, ctx) = (s1, Stopped ctx1 (Respond 503 ''identity service unavailable'')) \<and> chain_cut s1))"
    by (simp add: demo_server_def demo_config_def)
  then show ?thesis using req by blast
qed

section \<open>Tenants and quotas\<close>

text \<open>
  The role stage replaces the team of the credential.  With teams and roles enabled and a default team, a request whose principal already has
  a team (of its key, or of the identity service) leaves the stage with the default team and no tier: the default team's quota is the one that is
  checked and charged, while the tenant sent upstream remains the credential's.
\<close>

theorem rbac_replaces_tenant:
  assumes "rc_Principal ctx = Some p" "pr_AuthMethod p \<noteq> ''admin-jwt''" "pr_AuthMethod p \<noteq> ''shell-session''" "pr_OIDCClaims p = None"
    and "pr_Team p = Some t" "rc_Tenant ctx = ti_ID t" "ti_ID t \<noteq> ''''"
    and "rb_Enabled cfg" "tc_Enabled tc" "tc_DefaultTeam tc = d" "d \<noteq> ''''"
    and "RBACAuth cfg (Some tc) r ctx = (ctx', a)"
  shows "rc_Tenant ctx' = ti_ID t \<and> chargedTeam ctx' = d \<and>
    (\<exists>p' t'. rc_Principal ctx' = Some p' \<and> pr_Team p' = Some t' \<and> ti_Tier t' = '''') \<and>
    recordAndCharge day now cost ctx' st = chargeQuota day now (chargedKey ctx) d cost st"
proof -
  have "ctx' = ctx\<lparr>rc_Principal := Some (p\<lparr>pr_Role := rbacRole cfg p, pr_Team := Some (newTeamInfo d d (rbacRole cfg p))\<rparr>)\<rparr>"
    using assms by (auto simp: RBACAuth_def EnsurePrincipal_def rbacTeam_def rbacTeamID_def Let_def split: if_splits)
  then show ?thesis
    using assms(1,6) by (simp add: chargedTeam_def newTeamInfo_def recordAndCharge_def chargedKey_def GetAuthKeyConfig_def)
qed

definition demo_principal :: Principal where
  "demo_principal = (newPrincipal RoleViewer)\<lparr>pr_AuthMethod := ''apikey'', pr_KeyConfig := Some (keyConfig ''k1'' ''ci''),
     pr_Team := Some ((newTeamInfo ''acme'' ''Acme'' RoleInference)\<lparr>ti_Tier := ''gold''\<rparr>)\<rparr>"

theorem rbac_replaces_tenant_witness:
  "chargedTeam (fst (RBACAuth (ch_RBAC demo_config) (Some (ch_Team demo_config)) (bearer ''k1'')
     (empty_ctx\<lparr>rc_Principal := Some demo_principal, rc_Tenant := ''acme''\<rparr>))) = ''default''"
proof -
  let ?x = "RBACAuth (ch_RBAC demo_config) (Some (ch_Team demo_config)) (bearer ''k1'') (empty_ctx\<lparr>rc_Principal := Some demo_principal, rc_Tenant := ''acme''\<rparr>)"
  have x: "?x = (fst ?x, snd ?x)" by simp
  show ?thesis
    using rbac_replaces_tenant [OF _ _ _ _ _ _ _ _ _ _ _ x, where p = demo_principal and t = "(newTeamInfo ''acme'' ''Acme'' RoleInference)\<lparr>ti_Tier := ''gold''\<rparr>" and d = "''default''"]
    by (simp add: demo_principal_def newPrincipal_def newTeamInfo_def demo_config_def)
qed

text \<open>
  The quota limit of a key is not enforced at the gate.  A key with a quota limit and no budget limits (as every key issued by the user-key
  endpoint) whose usage has reached the limit is reported as exceeded by the store, but its requests pass the gate, which looks at the budget limits of
  the credential before it asks the store; with it the quota of the team is skipped.
\<close>

theorem quota_limit_not_enforced:
  assumes ok: "creds_ok (credentialStore q)" and e: "map_of (kst_keys (bs_keys q)) name = Some e"
    and lim: "ke_BudgetLimit e \<le> 0" "ke_DailyBudgetLimit e \<le> 0" "ke_QuotaLimit e > 0" "usage_of q name \<ge> ke_QuotaLimit e"
    and kc: "lookupKeyByHash sha tf (memoryLookup (credentialStore q)) key grace t = Some kc" "akc_Name kc = name"
    and ctx: "GetAuthKeyConfig ctx = Some kc"
  shows "qr_exceeded (snd (quota_Check day now name q)) \<and> BudgetBlock day now (Some q) ctx = (Some q, None)"
proof -
  obtain e' where e': "keys_GetByHash (sha key) (bs_keys q) = Some e'" "ke_Name e' = name" "akc_BudgetLimit kc = ke_BudgetLimit e'"
      "akc_DailyBudgetLimit kc = ke_DailyBudgetLimit e'"
    using kc by (auto simp: lookupKeyByHash_def memoryLookup_def credentialStore_def Let_def split: option.splits if_splits)
  then obtain n where "map_of (kst_keys (bs_keys q)) n = Some e'" by (auto simp: keys_GetByHash_def split: option.splits)
  then have "e' = e" using creds_ok_name [OF ok, of n e'] e e'(2) by (auto simp: credentialStore_def simp del: map_of_eq_Some_iff)
  then have "BudgetBlock day now (Some q) ctx = (Some q, None)" using ctx e' lim by (simp add: BudgetBlock_def)
  moreover have "qr_exceeded (snd (quota_Check day now name q))" using e lim by (simp add: quota_Check_def keys_Get_def Let_def)
  ultimately show ?thesis by simp
qed

text \<open>A key issued with a quota of one and charged twice that.\<close>

definition demo_quota_store :: BudgetStore where
  "demo_quota_store = (let s = fst (handleUserKeyCreate id (Some [10]) 1 (Some (script_request\<lparr>cu_QuotaLimit := 1\<rparr>)) \<lparr>cs_keys = NewKeyStore, cs_teams = seedDefaults 0\<rparr>)
     in \<lparr>bs_keys = cs_keys s, bs_teams = cs_teams s, bs_usage = [(''ci'', 2)], bs_dailyUsage = [], bs_dailyDate = []\<rparr>)"

theorem quota_limit_not_enforced_witness:
  "\<exists>kc. lookupKeyByHash id script_format (memoryLookup (credentialStore demo_quota_store)) ''fk-0a'' 10 7 = Some kc \<and>
     BudgetBlock (\<lambda>_. ''d'') 8 (Some demo_quota_store) (empty_ctx\<lparr>rc_Principal := Some ((newPrincipal RoleViewer)\<lparr>pr_KeyConfig := Some kc\<rparr>)\<rparr>) = (Some demo_quota_store, None)"
proof -
  let ?s0 = "\<lparr>cs_keys = NewKeyStore, cs_teams = seedDefaults 0\<rparr>"
  let ?l = "lookupKeyByHash id script_format (memoryLookup (credentialStore demo_quota_store)) ''fk-0a'' 10 7"
  have "issuing id (fst (handleUserKeyCreate id (Some [10]) 1 (Some (script_request\<lparr>cu_QuotaLimit := 1\<rparr>)) ?s0))"
    by (rule issuing.create [OF issuing.start]) (simp add: fresh_digest_def NewKeyStore_def)
  from issuing_ok [OF this] have ok: "creds_ok (credentialStore demo_quota_store)"
    by (simp add: demo_quota_store_def credentialStore_def Let_def creds_ok_def)
  have "(case map_of (kst_keys (bs_keys demo_quota_store)) ''ci'' of None \<Rightarrow> False
      | Some e \<Rightarrow> ke_BudgetLimit e \<le> 0 \<and> ke_DailyBudgetLimit e \<le> 0 \<and> 0 < ke_QuotaLimit e \<and> ke_QuotaLimit e \<le> usage_of demo_quota_store ''ci'')"
    by code_simp
  then obtain e where e: "map_of (kst_keys (bs_keys demo_quota_store)) ''ci'' = Some e" "ke_BudgetLimit e \<le> 0" "ke_DailyBudgetLimit e \<le> 0"
      "0 < ke_QuotaLimit e" "ke_QuotaLimit e \<le> usage_of demo_quota_store ''ci''"
    by (auto split: option.splits)
  have "(case ?l of None \<Rightarrow> False | Some kc \<Rightarrow> akc_Name kc = ''ci'')" by code_simp
  then obtain kc where kc: "?l = Some kc" "akc_Name kc = ''ci''" by (auto split: option.splits)
  have "GetAuthKeyConfig (empty_ctx\<lparr>rc_Principal := Some ((newPrincipal RoleViewer)\<lparr>pr_KeyConfig := Some kc\<rparr>)\<rparr>) = Some kc"
    by (simp add: GetAuthKeyConfig_def)
  from quota_limit_not_enforced [OF ok e kc this] show ?thesis using kc(1) by blast
qed

section \<open>The admin gate\<close>

text \<open>
  C19. The admin gate is exact: a request without a principal passes precisely with a valid admin token of role admin, or with a valid shell session
  whose account is enabled and holds the admin role at that moment.  No API key, and not the master key, passes.
\<close>

theorem admin_gate_exact:
  assumes "rc_Principal ctx = None"
  shows "snd (withAdminOnly pl r ctx) = None \<longleftrightarrow>
    (HasPrefix (in_Authorization r) ''Bearer '' \<and>
     ((\<exists>v. pl_adminRole pl = Some v \<and> v (drop 7 (in_Authorization r)) = Some ''admin'') \<or>
      (\<exists>v acc sub tenant roles. pl_shellSession pl = Some v \<and> pl_account pl = Some acc \<and> bearerToken r \<noteq> '''' \<and>
         v (bearerToken r) = Some (sub, tenant) \<and> acc sub = Some (roles, False) \<and> ''admin'' \<in> set roles)))"
proof (cases "\<exists>v. pl_adminRole pl = Some v \<and> HasPrefix (in_Authorization r) ''Bearer '' \<and> v (drop 7 (in_Authorization r)) = Some ''admin''")
  case True
  then have "rc_Principal (bridgeShellSession pl r (bridgeAdminJWT pl r ctx)) = Some ((newPrincipal RoleAdmin)\<lparr>pr_AuthMethod := ''admin-jwt''\<rparr>)"
    by (auto simp: bridgeAdminJWT_def bridgeShellSession_def split: option.split)
  then show ?thesis
    using True assms by (auto simp: withAdminOnly_def IsMasterKey_def IsAdmin_def EffectiveRole_def newPrincipal_def Let_def)
next
  case False
  then have b: "bridgeAdminJWT pl r ctx = ctx" by (auto simp: bridgeAdminJWT_def split: option.split)
  have "IsAdmin (bridgeShellSession pl r ctx) \<longleftrightarrow> HasPrefix (in_Authorization r) ''Bearer '' \<and>
     (\<exists>v acc sub tenant roles. pl_shellSession pl = Some v \<and> pl_account pl = Some acc \<and> bearerToken r \<noteq> '''' \<and>
         v (bearerToken r) = Some (sub, tenant) \<and> acc sub = Some (roles, False) \<and> ''admin'' \<in> set roles)"
    using assms
    by (auto simp: bridgeShellSession_def IsAdmin_def EffectiveRole_def newPrincipal_def bearerToken_def list_ex_iff split: option.splits prod.splits if_splits)
  then show ?thesis using False assms by (auto simp: withAdminOnly_def b IsMasterKey_def Let_def)
qed

theorem admin_gate_exact_witness:
  "snd (withAdminOnly \<lparr>pl_adminRole = Some (\<lambda>_. None), pl_shellSession = Some (\<lambda>t. if t = ''s1'' then Some (''ann'', ''local'') else None),
      pl_account = Some (\<lambda>u. Some ([''viewer'', ''admin''], u = ''bob''))\<rparr> (bearer ''s1'') empty_ctx) = None"
proof -
  have "HasPrefix (in_Authorization (bearer ''s1'')) ''Bearer ''" "bearerToken (bearer ''s1'') = ''s1''" by code_simp+
  then show ?thesis by (subst admin_gate_exact) (simp_all add: empty_ctx_def)
qed

end
