(* ===== verification/Master_Pool.thy ===== *)
theory Master_Pool
  imports Gateway_Prelude
begin

text \<open>
  The pool of cluster masters (\<^verbatim>\<open>cluster/master_pool.go\<close>): least-connection selection with a rotating tie break, cooldown with
  exponential backoff, and failover.

  Entries are addressed by their position.  A call of a master is an argument: per attempt the instants of selection and failure, and the
  answer of each address.  Every operation of the pool (\<^verbatim>\<open>ListNodes\<close>, \<^verbatim>\<open>GetNode\<close>, \<^verbatim>\<open>SubmitTask\<close>, \<^verbatim>\<open>RoutingSummary\<close>,
  \<^verbatim>\<open>HealthCheck\<close>) is \<open>pool_run\<close> with the answers of its endpoint.  The rotation counter is a natural number; the code's
  counter wraps after \<open>2^64\<close> selections.
\<close>

section \<open>Operations\<close>

definition masterCoolDuration :: duration where
  "masterCoolDuration = 5 * second"

definition masterMaxCool :: duration where
  "masterMaxCool = 2 * minute"

record masterEntry =
  me_address :: string
  me_inFlight :: int
  me_coolUntil :: time
  me_failCount :: int

record masterPool =
  mp_entries :: "masterEntry list"
  mp_rrIndex :: nat

definition resolveMasterAddresses :: "string list \<Rightarrow> string \<Rightarrow> string list" where
  "resolveMasterAddresses addresses address =
     (if addresses \<noteq> [] then addresses else if address \<noteq> '''' then [address] else [])"

definition NewMasterPool :: "string list \<Rightarrow> string \<Rightarrow> masterPool option" where
  "NewMasterPool addresses address =
     (case resolveMasterAddresses addresses address of
        [] \<Rightarrow> None
      | addrs \<Rightarrow> Some \<lparr>mp_entries = map (\<lambda>a. \<lparr>me_address = a, me_inFlight = 0, me_coolUntil = 0, me_failCount = 0\<rparr>) addrs, mp_rrIndex = 0\<rparr>)"

text \<open>The scan over the entries in rotated order: the best eligible position so far and the cooled ones.\<close>

fun pickScan :: "time \<Rightarrow> masterEntry list \<Rightarrow> nat list \<Rightarrow> nat option \<Rightarrow> nat list \<Rightarrow> nat option \<times> nat list" where
  "pickScan now es [] best cooled = (best, cooled)"
| "pickScan now es (i # is) best cooled =
     (if me_coolUntil (es ! i) > now then pickScan now es is best (cooled @ [i])
      else pickScan now es is
        (case best of None \<Rightarrow> Some i | Some b \<Rightarrow> if me_inFlight (es ! i) < me_inFlight (es ! b) then Some i else best) cooled)"

fun earliestCooled :: "masterEntry list \<Rightarrow> nat \<Rightarrow> nat list \<Rightarrow> nat" where
  "earliestCooled es e [] = e"
| "earliestCooled es e (i # is) = earliestCooled es (if me_coolUntil (es ! i) < me_coolUntil (es ! e) then i else e) is"

definition pickOrder :: "nat \<Rightarrow> nat \<Rightarrow> nat list" where
  "pickOrder start n = map (\<lambda>i. (start + i) mod n) [0..<n]"

definition master_pick :: "time \<Rightarrow> masterPool \<Rightarrow> masterPool \<times> nat option" where
  "master_pick now p =
     (let n = length (mp_entries p); start = mp_rrIndex p mod n
      in (p\<lparr>mp_rrIndex := mp_rrIndex p + 1\<rparr>,
          case pickScan now (mp_entries p) (pickOrder start n) None [] of
            (Some b, _) \<Rightarrow> Some b
          | (None, c # cs) \<Rightarrow> Some (earliestCooled (mp_entries p) c cs)
          | (None, []) \<Rightarrow> None))"

definition master_markHealthy :: "nat \<Rightarrow> masterPool \<Rightarrow> masterPool" where
  "master_markHealthy i p =
     (let e = mp_entries p ! i
      in p\<lparr>mp_entries := (mp_entries p)[i := if me_failCount e \<noteq> 0 then e\<lparr>me_failCount := 0, me_coolUntil := 0\<rparr> else e]\<rparr>)"

text \<open>Shifting a 64-bit duration to the left keeps the low 64 bits, as a signed number.\<close>

definition wrap64 :: "int \<Rightarrow> int" where
  "wrap64 x = (x + 2 ^ 63) mod 2 ^ 64 - 2 ^ 63"

definition masterBackoff :: "int \<Rightarrow> duration" where
  "masterBackoff n =
     (let backoff = wrap64 (masterCoolDuration * 2 ^ nat (n - 1))
      in if backoff > masterMaxCool \<or> backoff \<le> 0 then masterMaxCool else backoff)"

definition master_markFailed :: "time \<Rightarrow> nat \<Rightarrow> masterPool \<Rightarrow> masterPool" where
  "master_markFailed now i p =
     (let e = mp_entries p ! i; n = me_failCount e + 1
      in p\<lparr>mp_entries := (mp_entries p)[i := e\<lparr>me_failCount := n, me_coolUntil := now + masterBackoff n\<rparr>]\<rparr>)"

definition addInFlight :: "int \<Rightarrow> nat \<Rightarrow> masterPool \<Rightarrow> masterPool" where
  "addInFlight d i p =
     p\<lparr>mp_entries := (mp_entries p)[i := (mp_entries p ! i)\<lparr>me_inFlight := me_inFlight (mp_entries p ! i) + d\<rparr>]\<rparr>"

definition inFlightTotal :: "masterPool \<Rightarrow> int" where
  "inFlightTotal p = sum_list (map me_inFlight (mp_entries p))"

text \<open>
  One attempt: its instants and what each address would answer.  The loop makes as many attempts as there are masters; the
  list of the positions it called is kept for the statements.
\<close>

type_synonym ('e, 'r) attempt = "time \<times> time \<times> (string \<Rightarrow> 'e + 'r)"

datatype 'e pool_error = PoolCallFailed 'e | NoEligibleMaster

fun runAttempts :: "('e, 'r) attempt list \<Rightarrow> 'e option \<Rightarrow> masterPool \<Rightarrow> masterPool \<times> ('e pool_error + 'r) \<times> nat list" where
  "runAttempts [] lastErr p = (p, Inl (case lastErr of None \<Rightarrow> NoEligibleMaster | Some e \<Rightarrow> PoolCallFailed e), [])"
| "runAttempts ((now, later, answer) # as) lastErr p =
     (case master_pick now p of
        (p1, None) \<Rightarrow> (p1, Inl (case lastErr of None \<Rightarrow> NoEligibleMaster | Some e \<Rightarrow> PoolCallFailed e), [])
      | (p1, Some i) \<Rightarrow>
          (case answer (me_address (mp_entries p1 ! i)) of
             Inr r \<Rightarrow> (master_markHealthy i (addInFlight (- 1) i (addInFlight 1 i p1)), Inr r, [i])
           | Inl e \<Rightarrow>
               (case runAttempts as (Some e) (master_markFailed later i (addInFlight (- 1) i (addInFlight 1 i p1))) of
                  (p2, res, is) \<Rightarrow> (p2, res, i # is))))"

definition pool_run :: "(nat \<Rightarrow> ('e, 'r) attempt) \<Rightarrow> masterPool \<Rightarrow> masterPool \<times> ('e pool_error + 'r) \<times> nat list" where
  "pool_run attempts p = runAttempts (map attempts [0..<length (mp_entries p)]) None p"

section \<open>The backoff\<close>

lemma wrap64_id: "- (2 ^ 63) \<le> x \<Longrightarrow> x < 2 ^ 63 \<Longrightarrow> wrap64 x = x"
  by (simp add: wrap64_def)

lemma wrap64_dvd:
  assumes "2 ^ k dvd x" "k \<le> 63"
  shows "(2 :: int) ^ k dvd wrap64 x"
proof -
  have d: "(2 :: int) ^ k dvd 2 ^ 63" "(2 :: int) ^ k dvd 2 ^ 64" using assms(2) by (auto intro!: le_imp_power_dvd simp del: power_numeral)
  then have "2 ^ k dvd (x + 2 ^ 63) mod 2 ^ 64" using assms(1) by (simp add: dvd_mod dvd_add)
  then show ?thesis unfolding wrap64_def using d(1) by (rule dvd_diff)
qed

lemma master_backoff_eq:
  assumes "1 \<le> n"
  shows "masterBackoff n = (if n \<le> 5 then 5 * second * 2 ^ nat (n - 1) else 2 * minute)"
proof (cases "n \<le> 31")
  case True
  then have "n \<in> set [1..31]" using assms by simp
  moreover have "\<forall>m \<in> set [1..31]. masterBackoff m = (if m \<le> 5 then 5 * second * 2 ^ nat (m - 1) else 2 * minute)"
    by (simp add: upto_rec1 masterBackoff_def masterCoolDuration_def masterMaxCool_def minute_def second_def wrap64_def)
  ultimately show ?thesis by blast
next
  case False
  define k where "k = nat (n - 1)"
  have k: "31 \<le> k" using False by (simp add: k_def)
  have "(2 :: int) ^ 40 dvd masterCoolDuration * 2 ^ k"
  proof -
    have "(2 :: int) ^ 40 = 2 ^ 9 * 2 ^ 31" by simp
    moreover have "(2 :: int) ^ 9 dvd masterCoolDuration" by (simp add: masterCoolDuration_def second_def)
    moreover have "(2 :: int) ^ 31 dvd 2 ^ k" using k by (rule le_imp_power_dvd)
    ultimately show ?thesis by (metis mult_dvd_mono)
  qed
  then have "(2 :: int) ^ 40 dvd wrap64 (masterCoolDuration * 2 ^ k)" by (rule wrap64_dvd) simp
  then have "wrap64 (masterCoolDuration * 2 ^ k) \<le> 0 \<or> 2 ^ 40 \<le> wrap64 (masterCoolDuration * 2 ^ k)"
    using zdvd_imp_le by fastforce
  moreover have "masterMaxCool < 2 ^ 40" by (simp add: masterMaxCool_def minute_def second_def)
  ultimately have "wrap64 (masterCoolDuration * 2 ^ k) \<le> 0 \<or> masterMaxCool < wrap64 (masterCoolDuration * 2 ^ k)" by linarith
  then show ?thesis using False by (auto simp: masterBackoff_def Let_def k_def masterMaxCool_def)
qed

text \<open>
  The cooldown of a failed master is between five seconds and two minutes after any number of failures in a row, although the shift that
  computes it overflows: it doubles up to the cap and stays there.
\<close>

theorem master_backoff_bounded:
  assumes "1 \<le> n"
  shows "masterBackoff n = (if n \<le> 5 then 5 * second * 2 ^ nat (n - 1) else 2 * minute)"
  using assms by (rule master_backoff_eq)

theorem master_backoff_bounded_witness:
  "masterBackoff 64 = 2 * minute \<and> masterBackoff 3 = 20 * second"
  using master_backoff_bounded [of 64] master_backoff_bounded [of 3] by (simp add: numeral_eq_Suc)

section \<open>Failover\<close>

lemma rotation_inj:
  assumes "i < n" "k < n" "(a + i) mod n = (a + k) mod n"
  shows "i = (k :: nat)"
proof -
  have "\<not> j < i" if "i < n" "(a + i) mod n = (a + j) mod n" for i j :: nat
  proof
    assume "j < i"
    then have "n dvd i - j" using that(2) mod_eq_dvd_iff_nat [of "a + j" "a + i" n] by simp
    then show False using \<open>j < i\<close> that(1) dvd_imp_le [of n "i - j"] by simp
  qed
  from this [of i k] this [of k i] show ?thesis using assms by linarith
qed

lemma pickScan_keeps:
  "(\<And>j. j \<in> set is \<Longrightarrow> me_inFlight (es ! b) \<le> me_inFlight (es ! j)) \<Longrightarrow> fst (pickScan now es is (Some b) cooled) = Some b"
proof (induction "is" arbitrary: cooled)
  case (Cons i "is")
  then have "\<not> me_inFlight (es ! i) < me_inFlight (es ! b)" by (simp add: not_less)
  then show ?case using Cons by simp
qed simp

lemma pick_rotates:
  assumes "\<And>j. j < length (mp_entries p) \<Longrightarrow> me_inFlight (mp_entries p ! j) = f" "0 < length (mp_entries p)"
    "me_coolUntil (mp_entries p ! (mp_rrIndex p mod length (mp_entries p))) \<le> now"
  shows "master_pick now p = (p\<lparr>mp_rrIndex := mp_rrIndex p + 1\<rparr>, Some (mp_rrIndex p mod length (mp_entries p)))"
proof -
  let ?n = "length (mp_entries p)" and ?s = "mp_rrIndex p mod length (mp_entries p)"
  have order: "pickOrder ?s ?n = ?s # map (\<lambda>i. (?s + i) mod ?n) [1..<?n]"
    using assms(2) by (simp add: pickOrder_def upt_conv_Cons)
  have "fst (pickScan now (mp_entries p) (pickOrder ?s ?n) None []) = Some ?s"
    unfolding order using assms(3) by (simp add: not_less, intro pickScan_keeps) (use assms(1,2) in auto)
  then show ?thesis
    by (cases "pickScan now (mp_entries p) (pickOrder ?s ?n) None []") (simp add: master_pick_def Let_def)
qed

text \<open>What a failed attempt leaves: the entry is cooled, the in-flight counts are as before.\<close>

lemma failed_attempt:
  fixes r :: nat and later :: time
  assumes "i < length (mp_entries p)"
  defines "p' \<equiv> master_markFailed later i (addInFlight (- 1) i (addInFlight 1 i (p\<lparr>mp_rrIndex := r\<rparr>)))"
  shows "mp_rrIndex p' = r" "length (mp_entries p') = length (mp_entries p)" "map me_address (mp_entries p') = map me_address (mp_entries p)"
    "\<And>j. j < length (mp_entries p) \<Longrightarrow> me_inFlight (mp_entries p' ! j) = me_inFlight (mp_entries p ! j)"
    "\<And>j. j \<noteq> i \<Longrightarrow> mp_entries p' ! j = mp_entries p ! j"
  using assms(1)
  by (auto simp: p'_def master_markFailed_def addInFlight_def Let_def nth_list_update map_update intro!: nth_equalityI)

lemma attempts_rotate:
  assumes "k \<le> n" "n = length (mp_entries p)" "map me_address (mp_entries p) = addrs" "mp_rrIndex p = rr + k"
    and "\<And>j. j < n \<Longrightarrow> me_inFlight (mp_entries p ! j) = f"
    and "\<And>i j. k \<le> i \<Longrightarrow> i < n \<Longrightarrow> j < n \<Longrightarrow> me_coolUntil (mp_entries p ! ((rr + i) mod n)) \<le> fst (attempts j)"
    and "k \<le> m" "m < n" "snd (snd (attempts m)) (addrs ! ((rr + m) mod n)) = Inr r"
  shows "\<exists>p' r' is. runAttempts (map attempts [k..<n]) lastErr p = (p', Inr r', is)"
  using assms
proof (induction "n - k" arbitrary: k p lastErr)
  case (Suc d)
  obtain now later answer where at: "attempts k = (now, later, answer)" by (metis prod_cases3)
  have k: "k < n" using Suc.hyps(2) by simp
  let ?i = "(rr + k) mod n"
  have i: "?i < n" using k by simp
  have pick: "master_pick now p = (p\<lparr>mp_rrIndex := rr + k + 1\<rparr>, Some ?i)"
  proof -
    have "mp_entries p \<noteq> []" using k Suc.prems(2) by auto
    then show ?thesis using pick_rotates [of p f now] Suc.prems(2,4,5) Suc.prems(6) [of k k] k at by simp
  qed
  have unfold: "[k..<n] = k # [Suc k..<n]" using k by (simp add: upt_conv_Cons)
  have addr: "me_address (mp_entries p ! ?i) = addrs ! ?i" using Suc.prems(2,3) i by (metis nth_map)
  show ?case
  proof (cases "answer (addrs ! ?i)")
    case (Inr r')
    then show ?thesis by (simp add: unfold at pick addr)
  next
    case (Inl e)
    then have "m \<noteq> k" using Suc.prems(9) at by auto
    define p1 where "p1 = master_markFailed later ?i (addInFlight (- 1) ?i (addInFlight 1 ?i (p\<lparr>mp_rrIndex := rr + k + 1\<rparr>)))"
    note f = failed_attempt [where i = ?i and p = p and later = later and r = "rr + k + 1", folded p1_def]
    have "\<exists>p' r' is. runAttempts (map attempts [Suc k..<n]) (Some e) p1 = (p', Inr r', is)"
    proof (rule Suc.hyps(1))
      show "d = n - Suc k" "Suc k \<le> n" "Suc k \<le> m" using Suc.hyps(2) k Suc.prems(7) \<open>m \<noteq> k\<close> by simp_all
      show "n = length (mp_entries p1)" "map me_address (mp_entries p1) = addrs" "mp_rrIndex p1 = rr + Suc k"
        using f(1-3) i Suc.prems(2,3) by simp_all
      show "me_inFlight (mp_entries p1 ! j) = f" if "j < n" for j using f(4) i Suc.prems(2,5) that by simp
      show "me_coolUntil (mp_entries p1 ! ((rr + i) mod n)) \<le> fst (attempts j)" if "Suc k \<le> i" "i < n" "j < n" for i j
      proof -
        have "(rr + i) mod n \<noteq> ?i" using rotation_inj [OF that(2) k] that(1) by fastforce
        then show ?thesis using f(5) i Suc.prems(2) Suc.prems(6) [of i j] that by simp
      qed
    qed (use Suc.prems(8,9) in simp_all)
    then show ?thesis using Inl by (auto simp: unfold at pick addr p1_def)
  qed
qed simp

text \<open>
  Failover is complete when the pool starts idle: with no master cooled and equal loads, a call succeeds whenever some master
  answers it throughout, whatever the others do and however long their failures take.
\<close>

theorem failover_complete:
  fixes p :: masterPool and attempts :: "nat \<Rightarrow> ('e, 'r) attempt"
  assumes "\<And>e. e \<in> set (mp_entries p) \<Longrightarrow> me_inFlight e = f"
    and "\<And>e j. e \<in> set (mp_entries p) \<Longrightarrow> j < length (mp_entries p) \<Longrightarrow> me_coolUntil e \<le> fst (attempts j)"
    and "u \<in> set (mp_entries p)" "\<And>j. j < length (mp_entries p) \<Longrightarrow> \<not> isl (snd (snd (attempts j)) (me_address u))"
  shows "\<exists>p' r is. pool_run attempts p = (p', Inr r, is)"
proof -
  let ?n = "length (mp_entries p)"
  obtain i where i: "i < ?n" "mp_entries p ! i = u" using assms(3) by (auto simp: in_set_conv_nth)
  have ne: "mp_entries p \<noteq> []" using i(1) by auto
  obtain m where m: "m < ?n" "(mp_rrIndex p + m) mod ?n = i"
  proof
    show "(i + ?n - mp_rrIndex p mod ?n) mod ?n < ?n" using ne by simp
    have "mp_rrIndex p mod ?n < ?n" using ne by simp
    then have "mp_rrIndex p mod ?n \<le> i + ?n" by simp
    then have "(mp_rrIndex p mod ?n + (i + ?n - mp_rrIndex p mod ?n)) mod ?n = i" using i(1) by simp
    then show "(mp_rrIndex p + (i + ?n - mp_rrIndex p mod ?n) mod ?n) mod ?n = i" by (simp add: mod_simps)
  qed
  obtain r where "snd (snd (attempts m)) (map me_address (mp_entries p) ! ((mp_rrIndex p + m) mod ?n)) = Inr r"
    using assms(4) [OF m(1)] m(2) i by (auto simp: isl_def) (metis (full_types) sum.exhaust)
  moreover have "me_coolUntil (mp_entries p ! ((mp_rrIndex p + l) mod ?n)) \<le> fst (attempts j)" if "j < ?n" for l j
    using assms(2) that ne by simp
  ultimately show ?thesis unfolding pool_run_def
    by (intro attempts_rotate [where k = 0 and m = m and f = f and rr = "mp_rrIndex p" and addrs = "map me_address (mp_entries p)"])
      (use assms(1,2) m i in auto)
qed


definition pool_of_three :: masterPool where
  "pool_of_three = the (NewMasterPool [''a'', ''b'', ''c''] '''')"

theorem failover_complete_witness:
  "\<exists>p' r is. pool_run (\<lambda>j. (100 * second * int j, 100 * second * int j, \<lambda>a. if a = ''c'' then Inr (7 :: nat) else Inl ''timeout'')) pool_of_three = (p', Inr r, is)"
  by (rule failover_complete [where f = 0 and u = "\<lparr>me_address = ''c'', me_inFlight = 0, me_coolUntil = 0, me_failCount = 0\<rparr>"])
    (auto simp: pool_of_three_def NewMasterPool_def resolveMasterAddresses_def second_def)

text \<open>
  Failover is not complete once a master is cooled.  In a pool of two, let one master be in a cooldown that ends later than the first cooldown of
  the other.  A call that fails on the other is retried on the same one, and fails, although the cooled master would have answered:
  a cooled master is not tried last, as the comment says, but only when its cooldown ends first.
\<close>

theorem cooled_master_never_tried:
  assumes "mp_entries p = [a, b]" "me_coolUntil b \<le> now0"
    and "later0 + masterBackoff (me_failCount b + 1) < me_coolUntil a" "now0 < me_coolUntil a" "now1 < me_coolUntil a"
    and "attempts 0 = (now0, later0, answer0)" "attempts 1 = (now1, later1, answer1)"
    and "answer0 (me_address b) = Inl e0" "answer1 (me_address b) = Inl e1" "answer0 (me_address a) = Inr r" "answer1 (me_address a) = Inr r"
  shows "fst (snd (pool_run attempts p)) = Inl (PoolCallFailed e1) \<and> snd (snd (pool_run attempts p)) = [1, 1]"
proof -
  have picks: "\<exists>q. master_pick now p' = (p'\<lparr>mp_rrIndex := q\<rparr>, Some 1)"
    if "mp_entries p' = [a, b']" "now < me_coolUntil a" "me_coolUntil b' < me_coolUntil a" for p' b' now
  proof -
    have n: "length (mp_entries p') = 2" using that(1) by simp
    have "pickOrder 0 2 = [0, 1]" "pickOrder 1 2 = [1, 0]" by code_simp+
    then have "pickOrder (mp_rrIndex p' mod 2) 2 = [0, 1] \<or> pickOrder (mp_rrIndex p' mod 2) 2 = [1, 0]"
      by (cases "mp_rrIndex p' mod 2 = 0") (simp_all add: mod_2_eq_odd)
    then show ?thesis unfolding master_pick_def Let_def n using that by auto
  qed
  obtain q where q: "master_pick now0 p = (p\<lparr>mp_rrIndex := q\<rparr>, Some 1)"
    using picks [of p b now0] assms(1-4) by auto
  define b' where "b' = b\<lparr>me_failCount := me_failCount b + 1, me_coolUntil := later0 + masterBackoff (me_failCount b + 1)\<rparr>"
  define p1 where "p1 = master_markFailed later0 1 (addInFlight (- 1) 1 (addInFlight 1 1 (p\<lparr>mp_rrIndex := q\<rparr>)))"
  have p1: "mp_entries p1 = [a, b']" using assms(1) by (simp add: p1_def b'_def master_markFailed_def addInFlight_def Let_def)
  obtain q' where q': "master_pick now1 p1 = (p1\<lparr>mp_rrIndex := q'\<rparr>, Some 1)"
    using picks [OF p1, of now1] assms(3,5) by (auto simp: b'_def)
  have "[0..<length (mp_entries p)] = [0, 1]" using assms(1) by (simp add: upt_rec)
  then have "pool_run attempts p = runAttempts [(now0, later0, answer0), (now1, later1, answer1)] None p"
    using assms(6,7) by (simp add: pool_run_def)
  moreover have "answer0 (me_address (mp_entries p ! 1)) = Inl e0" "answer1 (me_address (mp_entries p1 ! 1)) = Inl e1"
    using assms(1,8,9) p1 by (simp_all add: b'_def)
  ultimately show ?thesis using q' by (simp add: q p1_def [symmetric] del: One_nat_def)
qed

definition cooled_pair :: masterPool where
  "cooled_pair = \<lparr>mp_entries = [\<lparr>me_address = ''a'', me_inFlight = 0, me_coolUntil = 100 * second, me_failCount = 5\<rparr>,
     \<lparr>me_address = ''b'', me_inFlight = 0, me_coolUntil = 0, me_failCount = 0\<rparr>], mp_rrIndex = 0\<rparr>"

theorem cooled_master_never_tried_witness:
  "snd (snd (pool_run (\<lambda>j. (second, second, \<lambda>x. if x = ''a'' then Inr (1 :: nat) else Inl ''refused'')) cooled_pair)) = [1, 1]"
proof -
  have "masterBackoff 1 = 5 * second" using master_backoff_eq [of 1] by simp
  then show ?thesis
    using cooled_master_never_tried [of cooled_pair _ _ second second second "\<lambda>j. (second, second, \<lambda>x. if x = ''a'' then Inr (1 :: nat) else Inl ''refused'')"]
    by (simp add: cooled_pair_def second_def)
qed

end
