(* ===== verification/Embedding_Shards.thy ===== *)
theory Embedding_Shards
  imports Cluster_Discovery
begin

text \<open>
  Batch embeddings over the cluster (\<^verbatim>\<open>cluster/shard.go\<close>): the input is cut into shards, workers on the healthy nodes take them from a
  shared counter, and the results are merged in order.

  The plan and the merge are functions; the workers in between run concurrently and are the step relation \<open>shard_step\<close>, one step per atomic access:
  taking a shard, and storing the answer of the node.  What a node may answer is a parameter of the relation.
\<close>

section \<open>Plan\<close>

definition defaultShardSize :: nat where
  "defaultShardSize = 32"

function splitFrom :: "string list \<Rightarrow> nat \<Rightarrow> string list list" where
  "splitFrom input i =
     (if i < length input
      then take (min (i + defaultShardSize) (length input) - i) (drop i input) # splitFrom input (i + defaultShardSize) else [])"
  by auto
termination
  by (relation "measure (\<lambda>(input, i). length input - i)") (auto simp: defaultShardSize_def)

declare splitFrom.simps [simp del]

definition splitInput :: "string list \<Rightarrow> string list list" where
  "splitInput input = splitFrom input 0"

datatype shard_error =
  EmptyInput | NoServingNode string | NodeCallFailed string | AllShardsFailed string | PartialFailure nat nat string | DataLoss nat nat
| SelectionFailed

datatype shard_plan = PlanError shard_error | PlanPanic | PlanSingle Node | PlanShards "Node list" "string list list" nat

text \<open>The state of the discovery changes only by the selection of a single node.\<close>

definition servingNodes :: "iteration \<Rightarrow> string \<Rightarrow> Discovery \<Rightarrow> Node list" where
  "servingNodes it model d =
     (if model \<noteq> '''' then filter (servesModel model) (HealthyNodeList it d) else HealthyNodeList it d)"

definition shardPlan :: "time \<Rightarrow> iteration \<Rightarrow> string \<Rightarrow> string list \<Rightarrow> Discovery \<Rightarrow> Discovery \<times> shard_plan" where
  "shardPlan now it model input d =
     (if length input = 0 then (d, PlanError EmptyInput)
      else
        (let healthyNodes = servingNodes it model d in
         if length healthyNodes = 0 then (d, PlanError (NoServingNode model))
         else if length input \<le> defaultShardSize \<or> length healthyNodes < 2
         then (case SelectNodeByModel now it ''least-connections'' model 0 d of
                 (d1, SelNode n) \<Rightarrow> (d1, PlanSingle n)
               | (d1, SelError) \<Rightarrow> (d1, PlanError SelectionFailed)
               | (d1, SelPanic) \<Rightarrow> (d1, PlanPanic))
         else (let shards = splitInput input in (d, PlanShards healthyNodes shards (min (length shards) (length healthyNodes))))))"

section \<open>Workers\<close>

record 'v EmbeddingData =
  ed_Embedding :: 'v
  ed_Index :: int

record 'v shardResult =
  sr_data :: "'v EmbeddingData list"
  sr_tokens :: int
  sr_err :: "string option"

definition zeroResult :: "'v shardResult" where
  "zeroResult = \<lparr>sr_data = [], sr_tokens = 0, sr_err = None\<rparr>"

datatype worker = WIdle | WWorking nat | WDone

record 'v shard_state =
  ss_next :: nat
  ss_workers :: "worker list"
  ss_results :: "'v shardResult list"

definition shard_init :: "nat \<Rightarrow> string list list \<Rightarrow> 'v shard_state" where
  "shard_init numWorkers shards =
     \<lparr>ss_next = 0, ss_workers = replicate numWorkers WIdle, ss_results = replicate (length shards) zeroResult\<rparr>"

type_synonym 'v node_answer = "Node \<Rightarrow> string list \<Rightarrow> string + ('v EmbeddingData list \<times> int) \<Rightarrow> bool"

text \<open>The worker \<open>w\<close> uses the node at position \<open>w mod length nodes\<close> for all its shards, and stops at its first error.\<close>

inductive shard_step :: "'v node_answer \<Rightarrow> Node list \<Rightarrow> string list list \<Rightarrow> 'v shard_state \<Rightarrow> 'v shard_state \<Rightarrow> bool"
  for answers nodes shards where
  claim: "w < length (ss_workers s) \<Longrightarrow> ss_workers s ! w = WIdle \<Longrightarrow>
    shard_step answers nodes shards s
      (s\<lparr>ss_next := ss_next s + 1, ss_workers := (ss_workers s)[w := if ss_next s \<ge> length shards then WDone else WWorking (ss_next s)]\<rparr>)"
| answered: "w < length (ss_workers s) \<Longrightarrow> ss_workers s ! w = WWorking idx \<Longrightarrow>
    answers (nodes ! (w mod length nodes)) (shards ! idx) (Inr (data, tokens)) \<Longrightarrow>
    shard_step answers nodes shards s
      (s\<lparr>ss_workers := (ss_workers s)[w := WIdle],
         ss_results := (ss_results s)[idx := \<lparr>sr_data = data, sr_tokens = tokens, sr_err = None\<rparr>]\<rparr>)"
| failed: "w < length (ss_workers s) \<Longrightarrow> ss_workers s ! w = WWorking idx \<Longrightarrow>
    answers (nodes ! (w mod length nodes)) (shards ! idx) (Inl e) \<Longrightarrow>
    shard_step answers nodes shards s
      (s\<lparr>ss_workers := (ss_workers s)[w := WDone],
         ss_results := (ss_results s)[idx := \<lparr>sr_data = [], sr_tokens = 0, sr_err = Some e\<rparr>]\<rparr>)"

definition workers_finished :: "'v shard_state \<Rightarrow> bool" where
  "workers_finished s \<longleftrightarrow> list_all (\<lambda>w. w = WDone) (ss_workers s)"

section \<open>Merge\<close>

definition reindex :: "nat \<Rightarrow> nat \<Rightarrow> 'v EmbeddingData list \<Rightarrow> 'v EmbeddingData list" where
  "reindex inputLen i data =
     map (\<lambda>(j, x). x\<lparr>ed_Index := (let ix = int (i * defaultShardSize + j) in if ix \<ge> int inputLen then int inputLen - 1 else ix)\<rparr>)
       (List.enumerate 0 data)"

fun mergeData :: "nat \<Rightarrow> nat \<Rightarrow> 'v shardResult list \<Rightarrow> 'v EmbeddingData list" where
  "mergeData inputLen i [] = []"
| "mergeData inputLen i (r # rs) =
     (if sr_err r \<noteq> None then [] else reindex inputLen i (sr_data r)) @ mergeData inputLen (i + 1) rs"

definition failedShards :: "'v shardResult list \<Rightarrow> 'v shardResult list" where
  "failedShards rs = filter (\<lambda>r. sr_err r \<noteq> None) rs"

definition mergeShards :: "nat \<Rightarrow> 'v shardResult list \<Rightarrow> shard_error + ('v EmbeddingData list \<times> int)" where
  "mergeShards inputLen results =
     (let allData = mergeData inputLen 0 results;
          totalTokens = sum_list (map sr_tokens (filter (\<lambda>r. sr_err r = None) results))
      in case failedShards results of
           r # rs \<Rightarrow>
             (if length (r # rs) = length results then Inl (AllShardsFailed (the (sr_err r)))
              else Inl (PartialFailure (length (r # rs)) (length results) (the (sr_err r))))
         | [] \<Rightarrow> if length allData < inputLen then Inl (DataLoss inputLen (length allData)) else Inr (allData, totalTokens))"

section \<open>Shards partition the input\<close>

lemma splitFrom_shard:
  "j < length (splitFrom input i) \<Longrightarrow>
     splitFrom input i ! j = take defaultShardSize (drop (i + j * defaultShardSize) input) \<and> i + j * defaultShardSize < length input"
proof (induction input i arbitrary: j rule: splitFrom.induct)
  case (1 input i)
  then have i: "i < length input" by (subst (asm) (2) splitFrom.simps) (auto split: if_splits)
  show ?case
  proof (cases j)
    case 0
    have "take (min (i + defaultShardSize) (length input) - i) (drop i input) = take defaultShardSize (drop i input)"
      using i by (cases "i + defaultShardSize \<le> length input") (simp_all add: min_def)
    then show ?thesis using i 0 by (subst splitFrom.simps) simp
  next
    case (Suc j')
    then have "j' < length (splitFrom input (i + defaultShardSize))" using 1(2) i by (subst (asm) splitFrom.simps) simp
    from 1(1) [OF i this] show ?thesis using Suc i by (subst splitFrom.simps) (simp add: algebra_simps)
  qed
qed

lemma concat_splitFrom: "concat (splitFrom input i) = drop i input"
proof (induction input i rule: splitFrom.induct)
  case (1 input i)
  show ?case
  proof (cases "i < length input")
    case True
    have "take (min (i + defaultShardSize) (length input) - i) (drop i input) @ drop (i + defaultShardSize) input = drop i input"
      by (simp add: min_def) (metis add.commute append_take_drop_id drop_drop)
    then show ?thesis using 1 True by (subst splitFrom.simps) simp
  next
    case False
    then show ?thesis by (subst splitFrom.simps) simp
  qed
qed

lemma concat_splitInput: "concat (splitInput input) = input"
  by (simp add: splitInput_def concat_splitFrom)

section \<open>Invariant of the workers\<close>

definition shard_done :: "(string \<Rightarrow> 'v) \<Rightarrow> string list \<Rightarrow> 'v shardResult \<Rightarrow> bool" where
  "shard_done v sh r \<longleftrightarrow> sr_err r = None \<and> map ed_Embedding (sr_data r) = map v sh"

definition shard_failed :: "'v node_answer \<Rightarrow> string list \<Rightarrow> 'v shardResult \<Rightarrow> bool" where
  "shard_failed answers sh r \<longleftrightarrow> (\<exists>n e. sr_err r = Some e \<and> answers n sh (Inl e))"

definition held :: "'v shard_state \<Rightarrow> nat \<Rightarrow> nat \<Rightarrow> bool" where
  "held s w idx \<longleftrightarrow> w < length (ss_workers s) \<and> ss_workers s ! w = WWorking idx"

definition shard_inv :: "(string \<Rightarrow> 'v) \<Rightarrow> 'v node_answer \<Rightarrow> nat \<Rightarrow> string list list \<Rightarrow> 'v shard_state \<Rightarrow> bool" where
  "shard_inv v answers k shards s \<longleftrightarrow>
     length (ss_workers s) = k \<and> length (ss_results s) = length shards
     \<and> (\<forall>w idx. held s w idx \<longrightarrow> idx < length shards \<and> idx < ss_next s \<and> sr_err (ss_results s ! idx) = None)
     \<and> (\<forall>w w' idx. held s w idx \<longrightarrow> held s w' idx \<longrightarrow> w = w')
     \<and> (\<forall>idx < length shards. sr_err (ss_results s ! idx) \<noteq> None \<longrightarrow>
           idx < ss_next s \<and> shard_failed answers (shards ! idx) (ss_results s ! idx))
     \<and> (\<forall>idx < length shards. idx < ss_next s \<longrightarrow> (\<exists>w. held s w idx) \<or> sr_err (ss_results s ! idx) \<noteq> None
           \<or> shard_done v (shards ! idx) (ss_results s ! idx))
     \<and> (\<forall>w < k. ss_workers s ! w = WDone \<longrightarrow> length shards \<le> ss_next s \<or> (\<exists>idx < length shards. sr_err (ss_results s ! idx) \<noteq> None))"

lemma shard_inv_init: "shard_inv v answers k shards (shard_init k shards)"
  by (auto simp: shard_inv_def shard_init_def held_def zeroResult_def)

lemma held_claim:
  "w0 < length (ss_workers s) \<Longrightarrow> ss_workers s ! w0 = WIdle \<Longrightarrow>
     held (s\<lparr>ss_next := n, ss_workers := (ss_workers s)[w0 := if ss_next s \<ge> m then WDone else WWorking (ss_next s)]\<rparr>) w idx
       \<longleftrightarrow> held s w idx \<or> (w = w0 \<and> ss_next s < m \<and> idx = ss_next s)"
  by (auto simp: held_def nth_list_update)

lemma held_release:
  "held s w0 i \<Longrightarrow> x \<noteq> WWorking i \<Longrightarrow> (\<forall>j. x \<noteq> WWorking j) \<Longrightarrow>
     held (s\<lparr>ss_workers := (ss_workers s)[w0 := x], ss_results := rs\<rparr>) w idx \<longleftrightarrow> held s w idx \<and> w \<noteq> w0"
  by (auto simp: held_def nth_list_update)


lemma shard_inv_claim:
  assumes inv: "shard_inv v answers k shards s" and w0: "w0 < length (ss_workers s)" "ss_workers s ! w0 = WIdle"
  defines "s' \<equiv> s\<lparr>ss_next := ss_next s + 1,
      ss_workers := (ss_workers s)[w0 := if ss_next s \<ge> length shards then WDone else WWorking (ss_next s)]\<rparr>"
  shows "shard_inv v answers k shards s'"
proof -
  have h: "held s' w idx \<longleftrightarrow> held s w idx \<or> (w = w0 \<and> ss_next s < length shards \<and> idx = ss_next s)" for w idx
    unfolding s'_def by (rule held_claim [OF w0])
  have eqs: "ss_results s' = ss_results s" "ss_next s' = Suc (ss_next s)" by (simp_all add: s'_def)
  have fresh: "ss_next s < length shards \<Longrightarrow> sr_err (ss_results s ! ss_next s) = None"
    using inv unfolding shard_inv_def by blast
  have lt: "held s w idx \<Longrightarrow> idx < ss_next s" for w idx using inv by (auto simp: shard_inv_def)
  have dn: "ss_workers s' ! w = WDone \<Longrightarrow> ss_workers s ! w = WDone \<or> length shards \<le> ss_next s" if "w < k" for w
    using that by (cases "w = w0") (auto simp: s'_def w0(1) split: if_splits)
  show ?thesis unfolding shard_inv_def
  proof (intro conjI)
    show "length (ss_workers s') = k" using inv by (simp add: shard_inv_def s'_def)
    show "length (ss_results s') = length shards" using inv by (simp add: shard_inv_def s'_def)
    show "\<forall>w idx. held s' w idx \<longrightarrow> idx < length shards \<and> idx < ss_next s' \<and> sr_err (ss_results s' ! idx) = None"
      using inv fresh by (auto simp: h eqs shard_inv_def less_Suc_eq)
    show "\<forall>w w' idx. held s' w idx \<longrightarrow> held s' w' idx \<longrightarrow> w = w'"
      using inv lt by (auto simp: h shard_inv_def)
    show "\<forall>idx < length shards. sr_err (ss_results s' ! idx) \<noteq> None \<longrightarrow>
           idx < ss_next s' \<and> shard_failed answers (shards ! idx) (ss_results s' ! idx)"
      using inv unfolding eqs shard_inv_def by (metis less_SucI)
    show "\<forall>idx < length shards. idx < ss_next s' \<longrightarrow> (\<exists>w. held s' w idx) \<or> sr_err (ss_results s' ! idx) \<noteq> None
           \<or> shard_done v (shards ! idx) (ss_results s' ! idx)"
      using inv unfolding h eqs less_Suc_eq shard_inv_def by blast
    show "\<forall>w < k. ss_workers s' ! w = WDone \<longrightarrow> length shards \<le> ss_next s' \<or> (\<exists>idx < length shards. sr_err (ss_results s' ! idx) \<noteq> None)"
      using inv dn unfolding eqs shard_inv_def by (metis le_SucI)
  qed
qed

lemma shard_inv_store:
  assumes inv: "shard_inv v answers k shards s" and w0: "held s w0 i" and x: "x \<in> {WIdle, WDone}"
    and r: "sr_err r = None \<Longrightarrow> shard_done v (shards ! i) r" "sr_err r \<noteq> None \<Longrightarrow> shard_failed answers (shards ! i) r"
    and stop: "x = WDone \<Longrightarrow> sr_err r \<noteq> None"
  defines "s' \<equiv> s\<lparr>ss_workers := (ss_workers s)[w0 := x], ss_results := (ss_results s)[i := r]\<rparr>"
  shows "shard_inv v answers k shards s'"
proof -
  have h: "held s' w idx \<longleftrightarrow> held s w idx \<and> w \<noteq> w0" for w idx
    unfolding s'_def using x by (intro held_release [OF w0]) auto
  have i: "i < length shards" "length (ss_results s) = length shards" "sr_err (ss_results s ! i) = None" "w0 < k"
    using inv w0 by (auto simp: shard_inv_def) (simp add: held_def)
  have res: "ss_results s' ! j = (if j = i then r else ss_results s ! j)" if "j < length shards" for j
    using that i by (simp add: s'_def nth_list_update)
  have nx: "ss_next s' = ss_next s" by (simp add: s'_def)
  have only: "held s w idx \<Longrightarrow> w \<noteq> w0 \<Longrightarrow> idx \<noteq> i" for w idx using inv w0 unfolding shard_inv_def by blast
  have dn: "ss_workers s' ! w = WDone \<Longrightarrow> ss_workers s ! w = WDone \<or> sr_err r \<noteq> None" if "w < k" for w
    using that w0 stop by (cases "w = w0") (auto simp: s'_def held_def)
  have keep: "\<exists>idx < length shards. sr_err (ss_results s' ! idx) \<noteq> None"
    if "\<exists>idx < length shards. sr_err (ss_results s ! idx) \<noteq> None" using that i res by metis
  show ?thesis unfolding shard_inv_def
  proof (intro conjI)
    show "length (ss_workers s') = k" using inv by (simp add: shard_inv_def s'_def)
    show "length (ss_results s') = length shards" using inv by (simp add: shard_inv_def s'_def)
    show "\<forall>w idx. held s' w idx \<longrightarrow> idx < length shards \<and> idx < ss_next s' \<and> sr_err (ss_results s' ! idx) = None"
      using inv only res unfolding h nx shard_inv_def by metis
    show "\<forall>w w' idx. held s' w idx \<longrightarrow> held s' w' idx \<longrightarrow> w = w'"
      using inv unfolding h shard_inv_def by blast
    show "\<forall>idx < length shards. sr_err (ss_results s' ! idx) \<noteq> None \<longrightarrow>
           idx < ss_next s' \<and> shard_failed answers (shards ! idx) (ss_results s' ! idx)"
      using inv r(2) w0 res unfolding nx shard_inv_def by metis
    show "\<forall>idx < length shards. idx < ss_next s' \<longrightarrow> (\<exists>w. held s' w idx) \<or> sr_err (ss_results s' ! idx) \<noteq> None
           \<or> shard_done v (shards ! idx) (ss_results s' ! idx)"
    proof (intro allI impI)
      fix idx assume idx: "idx < length shards" "idx < ss_next s'"
      show "(\<exists>w. held s' w idx) \<or> sr_err (ss_results s' ! idx) \<noteq> None \<or> shard_done v (shards ! idx) (ss_results s' ! idx)"
      proof (cases "idx = i")
        case True then show ?thesis using r(1) res i by auto
      next
        case False
        then have "held s w idx \<Longrightarrow> w \<noteq> w0" for w using w0 by (auto simp: held_def)
        then show ?thesis using inv idx False unfolding h nx res [OF idx(1)] shard_inv_def by auto
      qed
    qed
    show "\<forall>w < k. ss_workers s' ! w = WDone \<longrightarrow> length shards \<le> ss_next s' \<or> (\<exists>idx < length shards. sr_err (ss_results s' ! idx) \<noteq> None)"
      using inv dn keep i res unfolding nx shard_inv_def by metis
  qed
qed

lemma shard_inv_step:
  assumes honest: "\<And>n sh data t. answers n sh (Inr (data, t)) \<Longrightarrow> map ed_Embedding data = map v sh"
    and "shard_inv v answers k shards s" "shard_step answers nodes shards s s'"
  shows "shard_inv v answers k shards s'"
  using assms(3,2)
proof (cases rule: shard_step.cases)
  case (claim w)
  then show ?thesis using shard_inv_claim [OF assms(2)] by simp
next
  case (answered w idx data tokens)
  show ?thesis unfolding answered(1)
    by (rule shard_inv_store [OF assms(2)]) (use answered honest in \<open>auto simp: held_def shard_done_def\<close>)
next
  case (failed w idx e)
  show ?thesis unfolding failed(1)
    by (rule shard_inv_store [OF assms(2)]) (use failed in \<open>auto simp: held_def shard_failed_def\<close>)
qed

lemma shard_inv_reachable:
  assumes honest: "\<And>n sh data t. answers n sh (Inr (data, t)) \<Longrightarrow> map ed_Embedding data = map v sh"
    and "(shard_step answers nodes shards)\<^sup>*\<^sup>* (shard_init k shards) s"
  shows "shard_inv v answers k shards s"
  using assms(2) by induction (auto intro: shard_inv_init shard_inv_step honest)

lemma finished_results:
  assumes inv: "shard_inv v answers k shards s" and fin: "workers_finished s" and k: "0 < k"
    and ok: "\<And>idx. idx < length shards \<Longrightarrow> sr_err (ss_results s ! idx) = None"
  shows "list_all2 (shard_done v) shards (ss_results s)"
proof -
  have dn: "ss_workers s ! w = WDone" if "w < k" for w
    using fin inv that by (simp add: workers_finished_def list_all_length shard_inv_def)
  then have "length shards \<le> ss_next s" using inv k ok unfolding shard_inv_def by metis
  moreover have "\<not> held s w idx" for w idx using dn [of w] inv by (auto simp: held_def shard_inv_def)
  ultimately have "shard_done v (shards ! idx) (ss_results s ! idx)" if "idx < length shards" for idx
    using inv ok that unfolding shard_inv_def by (meson order_less_le_trans)
  then show ?thesis using inv by (auto simp: list_all2_conv_all_nth shard_inv_def)
qed

section \<open>The merge restores the order of the input\<close>

lemma reindex_embeddings: "map ed_Embedding (reindex n i data) = map ed_Embedding data"
  by (rule nth_equalityI) (simp_all add: reindex_def nth_enumerate_eq)

lemma reindex_indices:
  "i * defaultShardSize + length data \<le> n \<Longrightarrow>
     map ed_Index (reindex n i data) = map int [i * defaultShardSize..<i * defaultShardSize + length data]"
  unfolding of_nat_add of_nat_mult
  by (rule nth_equalityI) (auto simp: reindex_def nth_enumerate_eq Let_def simp flip: of_nat_add of_nat_mult)

lemma mergeData_exact:
  "list_all2 (shard_done v) (splitFrom input (i * defaultShardSize)) rs \<Longrightarrow>
     map ed_Embedding (mergeData (length input) i rs) = map v (drop (i * defaultShardSize) input)
     \<and> map ed_Index (mergeData (length input) i rs) = map int [i * defaultShardSize..<length input]"
proof (induction rs arbitrary: i)
  case Nil
  then have "length input \<le> i * defaultShardSize" by (subst (asm) splitFrom.simps) (auto split: if_splits)
  then show ?case by simp
next
  case (Cons r rs)
  let ?p = "i * defaultShardSize"
  let ?q = "Suc i * defaultShardSize"
  let ?sh = "splitFrom input ?p ! 0"
  have lt: "?p < length input" using Cons.prems by (subst (asm) splitFrom.simps) (auto split: if_splits)
  have unf: "splitFrom input ?p = ?sh # splitFrom input ?q"
    using lt by (subst (1 2) splitFrom.simps) (simp add: add.commute)
  then have "0 < length (splitFrom input ?p)" by (metis length_Cons zero_less_Suc)
  then have sh: "?sh = take defaultShardSize (drop ?p input)" using splitFrom_shard [of 0 input ?p] by simp
  from Cons.prems unf have r: "shard_done v ?sh r" and rs: "list_all2 (shard_done v) (splitFrom input ?q) rs" by (metis list_all2_Cons)+
  from r have data: "sr_err r = None" "map ed_Embedding (sr_data r) = map v ?sh" by (auto simp: shard_done_def)
  then have len: "length (sr_data r) = min defaultShardSize (length input - ?p)" using sh by (metis length_drop length_map length_take min.commute)
  have le: "?p + length (sr_data r) \<le> length input" using len lt by (auto simp: min_def)
  have "drop ?q input = drop defaultShardSize (drop ?p input)" by (simp add: add.commute)
  then have emb: "map v ?sh @ map v (drop ?q input) = map v (drop ?p input)" using sh by (metis append_take_drop_id map_append)
  have "[?p..<?p + length (sr_data r)] @ [?q..<length input] = [?p..<length input]"
  proof (cases "?q \<le> length input")
    case True
    then have "?p + length (sr_data r) = ?q" using len by (simp add: min_def)
    then show ?thesis using True by (metis le_add1 le_iff_add upt_add_eq_append)
  next
    case False
    then have "?p + length (sr_data r) = length input" using len lt by (simp add: min_def)
    then show ?thesis using False by simp
  qed
  then have ix: "map int [?p..<?p + length (sr_data r)] @ map int [?q..<length input] = map int [?p..<length input]"
    by (metis map_append)
  show ?case using Cons.IH [OF rs] data emb ix reindex_indices [OF le]
    by (simp add: reindex_embeddings)
qed

lemma mergeShards_exact:
  assumes "list_all2 (shard_done v) (splitInput input) rs"
  shows "\<exists>data t. mergeShards (length input) rs = Inr (data, t) \<and> map ed_Embedding data = map v input
           \<and> map ed_Index data = map int [0..<length input]"
proof -
  have d: "map ed_Embedding (mergeData (length input) 0 rs) = map v input"
    "map ed_Index (mergeData (length input) 0 rs) = map int [0..<length input]"
    using mergeData_exact [of v input 0 rs] assms by (simp_all add: splitInput_def)
  then have "length (mergeData (length input) 0 rs) = length input" by (metis length_map)
  moreover have "failedShards rs = []"
    using assms by (auto simp: failedShards_def filter_empty_conv in_set_conv_nth list_all2_conv_all_nth shard_done_def)
  ultimately show ?thesis using d by (simp add: mergeShards_def)
qed

lemma mergeShards_failed:
  assumes "r \<in> set rs" "sr_err r \<noteq> None"
  shows "\<exists>i < length rs. \<exists>m. sr_err (rs ! i) = Some m \<and>
           (mergeShards n rs = Inl (AllShardsFailed m) \<or> (\<exists>f. 0 < f \<and> f < length rs \<and> mergeShards n rs = Inl (PartialFailure f (length rs) m)))"
proof -
  obtain q qs where q: "failedShards rs = q # qs" using assms by (cases "failedShards rs") (auto simp: failedShards_def filter_empty_conv)
  then have "q \<in> set (failedShards rs)" by simp
  then obtain m i where m: "sr_err q = Some m" "i < length rs" "rs ! i = q" by (auto simp: failedShards_def in_set_conv_nth)
  have "length (q # qs) \<le> length rs" using q by (metis failedShards_def length_filter_le)
  then show ?thesis using q m by (intro exI [of _ i] conjI exI [of _ m]) (auto simp: mergeShards_def)
qed

section \<open>Every run ends\<close>

fun worker_weight :: "worker \<Rightarrow> nat" where
  "worker_weight WIdle = 1"
| "worker_weight (WWorking i) = 2"
| "worker_weight WDone = 0"

definition shard_measure :: "nat \<Rightarrow> 'v shard_state \<Rightarrow> nat" where
  "shard_measure numShards s = 2 * (numShards - ss_next s) + sum_list (map worker_weight (ss_workers s))"

lemma weight_update:
  "w < length ws \<Longrightarrow>
     sum_list (map worker_weight (ws[w := x])) + worker_weight (ws ! w) = sum_list (map worker_weight ws) + worker_weight x"
proof -
  assume w: "w < length ws"
  then have "worker_weight (ws ! w) \<le> sum_list (map worker_weight ws)" by (simp add: elem_le_sum_list [of w "map worker_weight ws", simplified])
  then show ?thesis using w by (simp add: map_update sum_list_update)
qed

lemma shard_step_decreases:
  assumes "shard_step answers nodes shards s s'"
  shows "shard_measure (length shards) s' < shard_measure (length shards) s"
  using assms
proof (cases rule: shard_step.cases)
  case (claim w)
  then show ?thesis
    using weight_update [of w "ss_workers s" "if ss_next s \<ge> length shards then WDone else WWorking (ss_next s)"]
    by (auto simp: shard_measure_def split: if_splits)
next
  case (answered w idx data tokens)
  then show ?thesis using weight_update [of w "ss_workers s" WIdle] by (simp add: shard_measure_def)
next
  case (failed w idx e)
  then show ?thesis using weight_update [of w "ss_workers s" WDone] by (simp add: shard_measure_def)
qed

lemma shard_steps_bounded:
  "(shard_step answers nodes shards ^^ n) s s' \<Longrightarrow> n + shard_measure (length shards) s' \<le> shard_measure (length shards) s"
proof (induction n arbitrary: s')
  case (Suc n)
  then obtain t where "(shard_step answers nodes shards ^^ n) s t" "shard_step answers nodes shards t s'" by auto
  then show ?case using Suc.IH shard_step_decreases by fastforce
qed simp

lemma shard_measure_init: "shard_measure (length shards) (shard_init k shards) = 2 * length shards + k"
  by (simp add: shard_measure_def shard_init_def map_replicate_const sum_list_replicate)

lemma shard_progress:
  assumes "\<And>n sh. \<exists>r. answers n sh r" and "\<not> workers_finished s"
  shows "\<exists>s'. shard_step answers nodes shards s s'"
proof -
  obtain w where w: "w < length (ss_workers s)" "ss_workers s ! w \<noteq> WDone"
    using assms(2) by (auto simp: workers_finished_def list_all_length)
  show ?thesis
  proof (cases "ss_workers s ! w")
    case WIdle
    then show ?thesis using w shard_step.claim by blast
  next
    case (WWorking idx)
    obtain r where "answers (nodes ! (w mod length nodes)) (shards ! idx) r" using assms(1) by blast
    then show ?thesis using w WWorking shard_step.answered shard_step.failed by (cases r) (auto, blast+)
  qed (use w in simp)
qed

lemma shard_finishes:
  assumes "\<And>n sh. \<exists>r. answers n sh r"
  shows "\<exists>t. (shard_step answers nodes shards)\<^sup>*\<^sup>* s t \<and> workers_finished t"
proof (induction "shard_measure (length shards) s" arbitrary: s rule: less_induct)
  case less
  show ?case
  proof (cases "workers_finished s")
    case False
    then obtain s' where "shard_step answers nodes shards s s'" using shard_progress assms by metis
    then show ?thesis using less shard_step_decreases converse_rtranclp_into_rtranclp by metis
  qed blast
qed

section \<open>Properties\<close>

lemma shardPlan_shards:
  "shardPlan now it model input d = (d', PlanShards nodes shards k) \<Longrightarrow>
     shards = splitInput input \<and> 2 \<le> length nodes \<and> 0 < k \<and> k \<le> length nodes \<and> k \<le> length shards"
proof -
  assume a: "shardPlan now it model input d = (d', PlanShards nodes shards k)"
  then have l: "shards = splitInput input" "defaultShardSize < length input" "2 \<le> length nodes" "k = min (length shards) (length nodes)"
    by (auto simp: shardPlan_def Let_def split: if_splits prod.splits SelectResult.splits)
  then have "concat shards \<noteq> []" by (auto simp: concat_splitInput)
  then have "shards \<noteq> []" by auto
  with l show ?thesis by (auto simp: min_def Suc_le_eq)
qed

text \<open>
  C10. Whatever the interleaving of the workers, a finished batch whose plan has shards either returns, for the inputs in their order, exactly the
  vectors of the inputs with the indices 0, 1, 2, and so on, or an error that carries the failure of a call for one of its shards: no partial
  and no misplaced result.  The hypothesis on the nodes is that a successful call returns the vectors of its shard, in order.
\<close>
theorem sharding_exact:
  assumes "\<And>n sh data t. answers n sh (Inr (data, t)) \<Longrightarrow> map ed_Embedding data = map v sh"
    and "shardPlan now it model input d = (d', PlanShards nodes shards k)"
    and "(shard_step answers nodes shards)\<^sup>*\<^sup>* (shard_init k shards) s" and "workers_finished s"
  shows "case mergeShards (length input) (ss_results s) of
           Inr (data, tokens) \<Rightarrow> map ed_Embedding data = map v input \<and> map ed_Index data = map int [0..<length input]
         | Inl e \<Rightarrow> (\<exists>n sh m. sh \<in> set (splitInput input) \<and> answers n sh (Inl m) \<and>
                      (e = AllShardsFailed m \<or> (\<exists>f. 0 < f \<and> f < length shards \<and> e = PartialFailure f (length shards) m)))"
proof -
  have inv: "shard_inv v answers k shards s" by (rule shard_inv_reachable [OF assms(1,3)])
  have sh: "shards = splitInput input" "0 < k" using shardPlan_shards [OF assms(2)] by auto
  show ?thesis
  proof (cases "\<exists>idx < length shards. sr_err (ss_results s ! idx) \<noteq> None")
    case False
    then have "list_all2 (shard_done v) (splitInput input) (ss_results s)"
      using finished_results [OF inv assms(4) sh(2)] sh(1) by blast
    from mergeShards_exact [OF this] show ?thesis by auto
  next
    case True
    have len: "length (ss_results s) = length shards" using inv by (simp add: shard_inv_def)
    with True obtain r where "r \<in> set (ss_results s)" "sr_err r \<noteq> None" by (metis nth_mem)
    from mergeShards_failed [OF this, of "length input"] obtain i m where i: "i < length shards" "sr_err (ss_results s ! i) = Some m"
      "mergeShards (length input) (ss_results s) = Inl (AllShardsFailed m)
       \<or> (\<exists>f. 0 < f \<and> f < length shards \<and> mergeShards (length input) (ss_results s) = Inl (PartialFailure f (length shards) m))"
      unfolding len by auto
    then have "shard_failed answers (shards ! i) (ss_results s ! i)" using inv by (simp add: shard_inv_def)
    then obtain n where "answers n (shards ! i) (Inl m)" using i(2) by (auto simp: shard_failed_def)
    then show ?thesis using i sh(1) by (auto intro!: exI [of _ n] exI [of _ "shards ! i"])
  qed
qed

text \<open>
  Sharding always ends: a run of the workers has at most two steps for each shard and one for each worker, and as long as a call returns with
  an answer or an error some worker of an unfinished run can step, so that the wait for the workers returns.
\<close>
theorem sharding_terminates:
  assumes "\<And>n sh. \<exists>r. answers n sh r"
    and "(shard_step answers nodes shards ^^ n) (shard_init k shards) s"
  shows "n \<le> 2 * length shards + k \<and> (workers_finished s \<or> (\<exists>s'. shard_step answers nodes shards s s'))
         \<and> (\<exists>t. (shard_step answers nodes shards)\<^sup>*\<^sup>* s t \<and> workers_finished t)"
  using shard_steps_bounded [OF assms(2)] shard_progress [of answers s nodes shards] shard_finishes [of answers nodes shards s] assms(1)
  by (auto simp: shard_measure_init)

definition sample_answers :: "nat node_answer" where
  "sample_answers n sh r \<longleftrightarrow> r = Inr (map (\<lambda>x. \<lparr>ed_Embedding = length x, ed_Index = 0\<rparr>) sh, 0)"

theorem sharding_terminates_witness:
  "\<exists>s. (shard_step sample_answers [] [[''a''], [''b'']] ^^ 0) (shard_init 2 [[''a''], [''b'']]) s
     \<and> (\<exists>t. (shard_step sample_answers [] [[''a''], [''b'']])\<^sup>*\<^sup>* s t \<and> workers_finished t)"
  using sharding_terminates [of sample_answers 0 "[]" "[[''a''], [''b'']]" 2 "shard_init 2 [[''a''], [''b'']]"]
  by (auto simp: sample_answers_def)

theorem sharding_exact_witness:
  "\<exists>nodes shards k s. shardPlan 0 rev '''' (replicate 33 ''xy'') d_example = (d_example, PlanShards nodes shards k)
     \<and> (shard_step sample_answers nodes shards)\<^sup>*\<^sup>* (shard_init k shards) s \<and> workers_finished s
     \<and> (\<exists>data t. mergeShards 33 (ss_results s) = Inr (data, t) \<and> map ed_Embedding data = replicate 33 2)"
proof -
  obtain nodes shards k where p: "shardPlan 0 rev '''' (replicate 33 ''xy'') d_example = (d_example, PlanShards nodes shards k)"
    by (simp add: shardPlan_def servingNodes_def HealthyNodeList_def iterate_def d_example_def freshNode_def selectable_def
        defaultShardSize_def Let_def)
  obtain s where s: "(shard_step sample_answers nodes shards)\<^sup>*\<^sup>* (shard_init k shards) s" "workers_finished s"
    using shard_finishes [of sample_answers] by (metis sample_answers_def)
  have "case mergeShards 33 (ss_results s) of
      Inr (data, tokens) \<Rightarrow> map ed_Embedding data = replicate 33 2 \<and> map ed_Index data = map int [0..<33] | Inl e \<Rightarrow> False"
    using sharding_exact [where answers = sample_answers and v = length, OF _ p s]
    by (auto simp: sample_answers_def split: sum.splits)
  then show ?thesis using p s by (auto split: sum.splits)
qed

text \<open>The number of vectors is checked for the batch and not for each shard: a node that returns one vector too few is covered by another one that
  returns one too many, and the batch is delivered with the index 31 missing and the index 32 given twice.\<close>

definition miscounted :: "nat shardResult list" where
  "miscounted =
     [\<lparr>sr_data = replicate 31 \<lparr>ed_Embedding = 0, ed_Index = 0\<rparr>, sr_tokens = 0, sr_err = None\<rparr>,
      \<lparr>sr_data = replicate 2 \<lparr>ed_Embedding = 0, ed_Index = 0\<rparr>, sr_tokens = 0, sr_err = None\<rparr>]"

lemma shard_counts_unchecked:
  "\<exists>data. mergeShards 33 miscounted = Inr (data, 0) \<and> map ed_Index data = map int [0..<31] @ [32, 32]"
  by (simp add: mergeShards_def miscounted_def failedShards_def reindex_def defaultShardSize_def upt_conv_Cons numeral_nat)

end
