(* ===== verification/Anthropic_Bridge.thy ===== *)
theory Anthropic_Bridge
  imports Gateway_Prelude
begin

text \<open>
  The protocol bridge of \<^verbatim>\<open>/v1/messages\<close> for OpenAI-compatible backends (\<^verbatim>\<open>server/anthropic_openai_bridge.go\<close>): a chat
  completion becomes an Anthropic message, a stream of chunks becomes a stream of Anthropic events.

  The decoders of \<^verbatim>\<open>encoding/json\<close> into the structs of the file are the fields of the record \<open>decoders\<close>, arbitrary functions in every
  statement.  What the bridge writes is the list \<open>ab_out\<close> of its events; the status line is \<open>ab_sent\<close>.  Random message ids are arguments.
\<close>

section \<open>Messages\<close>

record bridgeToolCall =
  tc_Index :: int
  tc_ID :: string
  tc_Name :: string
  tc_Args :: string
  tc_FunctionName :: string
  tc_FunctionArguments :: string

record bridgeUsage =
  us_PromptTokens :: int
  us_CompletionTokens :: int
  us_CachedTokens :: "int option"

definition CachedTokenCount :: "bridgeUsage option \<Rightarrow> int" where
  "CachedTokenCount u = (case u of None \<Rightarrow> 0 | Some v \<Rightarrow> (case us_CachedTokens v of None \<Rightarrow> 0 | Some c \<Rightarrow> c))"

text \<open>The content of a message is any JSON value; only a string is read.\<close>

datatype json_content = ContentString string | ContentOther

record bridgeErrorBody =
  eb_Message :: string
  eb_Type :: string

record bridgeChatChoice =
  cc_Content :: json_content
  cc_ReasoningContent :: string
  cc_ToolCalls :: "bridgeToolCall list"
  cc_FinishReason :: string

record bridgeChatCompletion =
  bc_ID :: string
  bc_Model :: string
  bc_Choices :: "bridgeChatChoice list"
  bc_Usage :: "bridgeUsage option"
  bc_Error :: "bridgeErrorBody option"

record stream_choice =
  sc_Content :: json_content
  sc_ReasoningContent :: string
  sc_ToolCalls :: "bridgeToolCall list"
  sc_FinishReason :: "string option"

record stream_chunk =
  ck_ID :: string
  ck_Model :: string
  ck_Choices :: "stream_choice list"
  ck_Usage :: "bridgeUsage option"
  ck_Error :: "bridgeErrorBody option"

text \<open>
  \<open>dc_errorField\<close> is the raw text of a non-empty error field of a JSON object; \<open>dc_detail\<close> its message and type;
  \<open>dc_valid\<close> says whether a text is valid JSON, without which it cannot be marshalled as a raw message.
\<close>

record decoders =
  dc_chunk :: "string \<Rightarrow> stream_chunk option"
  dc_completion :: "string \<Rightarrow> bridgeChatCompletion option"
  dc_errorField :: "string \<Rightarrow> string option"
  dc_detail :: "string \<Rightarrow> (string \<times> string) option"
  dc_valid :: "string \<Rightarrow> bool"

datatype content_block = ThinkingBlock string string | TextBlock string | ToolUseBlock string string string

record AnthropicUsage =
  au_InputTokens :: int
  au_OutputTokens :: int
  au_CacheReadInputTokens :: int

record AnthropicResponse =
  ar_ID :: string
  ar_Content :: "content_block list"
  ar_Model :: string
  ar_StopReason :: string
  ar_Usage :: AnthropicUsage

definition zeroUsage :: AnthropicUsage where
  "zeroUsage = \<lparr>au_InputTokens = 0, au_OutputTokens = 0, au_CacheReadInputTokens = 0\<rparr>"

section \<open>Completions\<close>

definition anthropicStopReasonFromOpenAI :: "string \<Rightarrow> string" where
  "anthropicStopReasonFromOpenAI fr =
     (if fr = ''length'' then ''max_tokens''
      else if fr = ''tool_calls'' \<or> fr = ''function_call'' then ''tool_use''
      else if fr = ''stop_sequence'' then ''stop_sequence'' else ''end_turn'')"

definition bridgeThinkingSignature :: string where
  "bridgeThinkingSignature = ''ZnVzaW9uLWdhdGV3YXktYnJpZGdlLXN5bnRoZXRpYy1zaWduYXR1cmU=''"

definition truncateBridgeMessage :: "string \<Rightarrow> string" where
  "truncateBridgeMessage s = (if length s > 512 then take 512 s else s)"

text \<open>The type and the message of the error object.\<close>

definition anthropicErrorEnvelope :: "decoders \<Rightarrow> string \<Rightarrow> int \<Rightarrow> string \<times> string" where
  "anthropicErrorEnvelope dc raw status =
     (case dc_errorField dc raw of
        Some e \<Rightarrow>
          (case dc_detail dc e of
             Some (msg, typ) \<Rightarrow>
               if msg \<noteq> '''' then (if typ \<noteq> '''' then typ else ''api_error'', msg) else (''api_error'', e)
           | None \<Rightarrow> (''api_error'', e))
      | None \<Rightarrow> (''api_error'', ''upstream status '' @ fmt_d status @ '': '' @ truncateBridgeMessage raw))"

definition toolName :: "bridgeToolCall \<Rightarrow> string" where
  "toolName tc = (if tc_Name tc = '''' then tc_FunctionName tc else tc_Name tc)"

definition toolArgs :: "bridgeToolCall \<Rightarrow> string" where
  "toolArgs tc = (if tc_Args tc = '''' then tc_FunctionArguments tc else tc_Args tc)"

definition toolBlock :: "bridgeToolCall \<Rightarrow> content_block" where
  "toolBlock tc =
     ToolUseBlock (tc_ID tc) (toolName tc) (if TrimSpace (toolArgs tc) = '''' then ''{}'' else toolArgs tc)"

definition choiceBlocks :: "bridgeChatChoice \<Rightarrow> content_block list" where
  "choiceBlocks ch =
     (if cc_ReasoningContent ch \<noteq> '''' then [ThinkingBlock (cc_ReasoningContent ch) bridgeThinkingSignature] else [])
     @ (case cc_Content ch of ContentString text \<Rightarrow> if text \<noteq> '''' then [TextBlock text] else [] | ContentOther \<Rightarrow> [])
     @ map toolBlock (cc_ToolCalls ch)"

definition marshals :: "decoders \<Rightarrow> content_block list \<Rightarrow> bool" where
  "marshals dc bs = list_all (\<lambda>b. case b of ToolUseBlock _ _ input \<Rightarrow> dc_valid dc input | _ \<Rightarrow> True) bs"

datatype message_body = MessageBody AnthropicResponse | ErrorBody string string

definition errorBody :: "decoders \<Rightarrow> string \<Rightarrow> int \<Rightarrow> message_body" where
  "errorBody dc raw status = (case anthropicErrorEnvelope dc raw status of (typ, msg) \<Rightarrow> ErrorBody typ msg)"

definition completionMessage :: "string \<Rightarrow> bridgeChatCompletion \<Rightarrow> AnthropicResponse" where
  "completionMessage newID cc =
     \<lparr>ar_ID = newID,
      ar_Content = (case bc_Choices cc of [] \<Rightarrow> [] | ch # _ \<Rightarrow> choiceBlocks ch),
      ar_Model = bc_Model cc,
      ar_StopReason = (case bc_Choices cc of [] \<Rightarrow> ''end_turn'' | ch # _ \<Rightarrow> anthropicStopReasonFromOpenAI (cc_FinishReason ch)),
      ar_Usage = (case bc_Usage cc of
                    None \<Rightarrow> zeroUsage
                  | Some u \<Rightarrow> \<lparr>au_InputTokens = us_PromptTokens u, au_OutputTokens = us_CompletionTokens u,
                              au_CacheReadInputTokens = CachedTokenCount (Some u)\<rparr>)\<rparr>"

definition noContentError :: message_body where
  "noContentError = ErrorBody ''api_error'' ''upstream produced no content (thinking, text, or tool_use); the backend request failed''"

definition openAICompletionToAnthropicMessage :: "decoders \<Rightarrow> string \<Rightarrow> string \<Rightarrow> int \<Rightarrow> message_body \<times> int" where
  "openAICompletionToAnthropicMessage dc newID raw status =
     (case dc_completion dc raw of
        None \<Rightarrow> (errorBody dc raw status, status)
      | Some cc \<Rightarrow>
          if bc_ID cc = '''' \<and> bc_Choices cc = [] \<and> bc_Error cc = None then (errorBody dc raw status, status)
          else if bc_Error cc \<noteq> None \<or> status \<ge> 400 then (errorBody dc raw status, status)
          else
            (let resp = completionMessage newID cc in
             if ar_Content resp = [] then (noContentError, 502)
             else if marshals dc (ar_Content resp) then (MessageBody resp, status)
             else (errorBody dc raw status, status)))"

record nonStreamBridgeWriter =
  nb_status :: int
  nb_body :: string

definition newNonStreamBridgeWriter :: nonStreamBridgeWriter where
  "newNonStreamBridgeWriter = \<lparr>nb_status = 200, nb_body = ''''\<rparr>"

definition nb_WriteHeader :: "int \<Rightarrow> nonStreamBridgeWriter \<Rightarrow> nonStreamBridgeWriter" where
  "nb_WriteHeader code b = (if nb_status b = 200 then b\<lparr>nb_status := code\<rparr> else b)"

definition nb_Write :: "string \<Rightarrow> nonStreamBridgeWriter \<Rightarrow> nonStreamBridgeWriter" where
  "nb_Write p b = b\<lparr>nb_body := nb_body b @ p\<rparr>"

definition nb_finalize :: "decoders \<Rightarrow> string \<Rightarrow> nonStreamBridgeWriter \<Rightarrow> message_body \<times> int" where
  "nb_finalize dc newID b = openAICompletionToAnthropicMessage dc newID (nb_body b) (nb_status b)"

section \<open>Streams\<close>

datatype block_delta = ThinkingDelta string | SignatureDelta string | TextDelta string | InputJsonDelta string

datatype anthropic_event =
  MessageStart string string
| BlockStart int content_block
| BlockDelta int block_delta
| BlockStop int
| MessageDelta string AnthropicUsage
| MessageStop
| ErrorEvent string string
| Ping
| Verbatim string
| ErrorEnvelope string string

record anthropicSSEBridge =
  ab_status :: int
  ab_headerSent :: bool
  ab_pending :: string
  ab_msgID :: string
  ab_model :: string
  ab_nextIndex :: int
  ab_thinkOpen :: bool
  ab_thinkIdx :: int
  ab_textOpen :: bool
  ab_textIdx :: int
  ab_toolBlocks :: "int \<Rightarrow> int option"
  ab_openBlocks :: "int set"
  ab_stopReason :: string
  ab_inTok :: int
  ab_outTok :: int
  ab_cachedTok :: int
  ab_stopped :: bool
  ab_errEmitted :: bool
  ab_sawContent :: bool
  ab_sent :: "int option"
  ab_out :: "anthropic_event list"

definition newAnthropicSSEBridge :: anthropicSSEBridge where
  "newAnthropicSSEBridge =
     \<lparr>ab_status = 200, ab_headerSent = False, ab_pending = '''', ab_msgID = '''', ab_model = '''', ab_nextIndex = 0,
      ab_thinkOpen = False, ab_thinkIdx = -1, ab_textOpen = False, ab_textIdx = -1, ab_toolBlocks = Map.empty,
      ab_openBlocks = {}, ab_stopReason = '''', ab_inTok = 0, ab_outTok = 0, ab_cachedTok = 0, ab_stopped = False,
      ab_errEmitted = False, ab_sawContent = False, ab_sent = None, ab_out = []\<rparr>"

definition ab_WriteHeader :: "int \<Rightarrow> anthropicSSEBridge \<Rightarrow> anthropicSSEBridge" where
  "ab_WriteHeader code b = b\<lparr>ab_status := code\<rparr>"

definition sendHeader :: "anthropicSSEBridge \<Rightarrow> anthropicSSEBridge" where
  "sendHeader b = (if ab_headerSent b then b else b\<lparr>ab_headerSent := True, ab_sent := Some (ab_status b)\<rparr>)"

definition forward :: "anthropic_event \<Rightarrow> anthropicSSEBridge \<Rightarrow> anthropicSSEBridge" where
  "forward ev b = (sendHeader b)\<lparr>ab_out := ab_out b @ [ev]\<rparr>"

text \<open>A frame that is passed on is terminated by exactly one blank line, unless it ends in one already.\<close>

definition blankLine :: string where
  "blankLine = [CHR 0x0A, CHR 0x0A]"

definition terminated :: "string \<Rightarrow> string" where
  "terminated fr =
     (if HasSuffix fr blankLine then fr else rev (dropWhile (\<lambda>c. c = CHR 0x0A) (rev fr)) @ blankLine)"

definition forwardVerbatim :: "string \<Rightarrow> anthropicSSEBridge \<Rightarrow> anthropicSSEBridge" where
  "forwardVerbatim fr = forward (Verbatim (terminated fr))"

definition ensureMessageStart :: "string \<Rightarrow> string \<Rightarrow> string \<Rightarrow> anthropicSSEBridge \<Rightarrow> anthropicSSEBridge" where
  "ensureMessageStart newID ident model b =
     (if ab_msgID b \<noteq> '''' then b
      else
        (let mid = (if ident \<noteq> '''' then ''msg_'' @ TrimPrefix ident ''chatcmpl-'' else newID)
         in forward (MessageStart mid model) (b\<lparr>ab_msgID := mid, ab_model := model\<rparr>)))"

text \<open>The block that a delta opens: it takes the next index.\<close>

definition openBlock :: "content_block \<Rightarrow> anthropicSSEBridge \<Rightarrow> anthropicSSEBridge" where
  "openBlock blk b =
     forward (BlockStart (ab_nextIndex b) blk)
       (b\<lparr>ab_nextIndex := ab_nextIndex b + 1, ab_openBlocks := insert (ab_nextIndex b) (ab_openBlocks b)\<rparr>)"

definition emitThinkingDelta :: "string \<Rightarrow> anthropicSSEBridge \<Rightarrow> anthropicSSEBridge" where
  "emitThinkingDelta text b =
     (let b1 = b\<lparr>ab_sawContent := True\<rparr>;
          b2 = (if ab_thinkOpen b1 then b1
                else openBlock (ThinkingBlock '''' '''') (b1\<lparr>ab_thinkOpen := True, ab_thinkIdx := ab_nextIndex b1\<rparr>))
      in forward (BlockDelta (ab_thinkIdx b2) (ThinkingDelta text)) b2)"

definition closeThinkingBlock :: "anthropicSSEBridge \<Rightarrow> anthropicSSEBridge" where
  "closeThinkingBlock b =
     (if \<not> ab_thinkOpen b then b
      else
        forward (BlockStop (ab_thinkIdx b))
          (forward (BlockDelta (ab_thinkIdx b) (SignatureDelta bridgeThinkingSignature))
             (b\<lparr>ab_thinkOpen := False, ab_openBlocks := ab_openBlocks b - {ab_thinkIdx b}\<rparr>)))"

definition emitTextDelta :: "string \<Rightarrow> anthropicSSEBridge \<Rightarrow> anthropicSSEBridge" where
  "emitTextDelta text b =
     (let b1 = closeThinkingBlock (b\<lparr>ab_sawContent := True\<rparr>);
          b2 = (if ab_textOpen b1 then b1
                else openBlock (TextBlock '''') (b1\<lparr>ab_textOpen := True, ab_textIdx := ab_nextIndex b1\<rparr>))
      in forward (BlockDelta (ab_textIdx b2) (TextDelta text)) b2)"

definition emitToolDelta :: "bridgeToolCall \<Rightarrow> anthropicSSEBridge \<Rightarrow> anthropicSSEBridge" where
  "emitToolDelta tc b =
     (let b1 = closeThinkingBlock (b\<lparr>ab_sawContent := True\<rparr>);
          (blockIdx, b2) =
            (case ab_toolBlocks b1 (tc_Index tc) of
               Some i \<Rightarrow> (i, b1)
             | None \<Rightarrow>
                 (ab_nextIndex b1,
                  openBlock (ToolUseBlock (tc_ID tc) (toolName tc) ''{}'')
                    (b1\<lparr>ab_toolBlocks := (ab_toolBlocks b1)(tc_Index tc \<mapsto> ab_nextIndex b1)\<rparr>)))
      in if toolArgs tc \<noteq> '''' then forward (BlockDelta blockIdx (InputJsonDelta (toolArgs tc))) b2 else b2)"

definition closeBlock :: "int \<Rightarrow> anthropicSSEBridge \<Rightarrow> anthropicSSEBridge" where
  "closeBlock idx b =
     (if idx \<in> ab_openBlocks b then forward (BlockStop idx) (b\<lparr>ab_openBlocks := ab_openBlocks b - {idx}\<rparr>) else b)"

definition closeOpenBlocks :: "anthropicSSEBridge \<Rightarrow> anthropicSSEBridge" where
  "closeOpenBlocks b =
     (let b1 = closeThinkingBlock b in
      if ab_openBlocks b1 = {} then b1 else fold closeBlock [0..ab_nextIndex b1 - 1] b1)"

definition emitError :: "bridgeErrorBody \<Rightarrow> anthropicSSEBridge \<Rightarrow> anthropicSSEBridge" where
  "emitError e b =
     forward (ErrorEvent (if eb_Type e = '''' then ''api_error'' else eb_Type e) (eb_Message e)) (b\<lparr>ab_errEmitted := True\<rparr>)"

definition noContentBody :: bridgeErrorBody where
  "noContentBody =
     \<lparr>eb_Message = ''upstream stream closed without producing any content (thinking, text, or tool_use); the backend request failed'',
      eb_Type = ''api_error''\<rparr>"

definition finalizeMessage :: "anthropicSSEBridge \<Rightarrow> anthropicSSEBridge" where
  "finalizeMessage b =
     (if ab_stopped b then b
      else
        (let b1 = b\<lparr>ab_stopped := True\<rparr> in
         if ab_errEmitted b1 then b1
         else if \<not> ab_sawContent b1 then emitError noContentBody b1
         else
           (let b2 = closeOpenBlocks b1;
                stop = (if ab_stopReason b2 = '''' then ''end_turn'' else ab_stopReason b2);
                usage = \<lparr>au_InputTokens = max 0 (ab_inTok b2 - ab_cachedTok b2), au_OutputTokens = ab_outTok b2,
                         au_CacheReadInputTokens = ab_cachedTok b2\<rparr>
            in forward MessageStop (forward (MessageDelta stop usage) b2))))"

definition noteUsage :: "bridgeUsage option \<Rightarrow> anthropicSSEBridge \<Rightarrow> anthropicSSEBridge" where
  "noteUsage u b =
     (case u of
        None \<Rightarrow> b
      | Some v \<Rightarrow> b\<lparr>ab_inTok := us_PromptTokens v, ab_outTok := us_CompletionTokens v,
                   ab_cachedTok := (let c = CachedTokenCount u in if c > ab_cachedTok b then c else ab_cachedTok b)\<rparr>)"

definition textOf :: "stream_choice \<Rightarrow> string" where
  "textOf ch = (case sc_Content ch of ContentString text \<Rightarrow> text | ContentOther \<Rightarrow> '''')"

definition finishOf :: "stream_choice \<Rightarrow> string" where
  "finishOf ch = (case sc_FinishReason ch of None \<Rightarrow> '''' | Some fr \<Rightarrow> fr)"

definition handleChoice :: "stream_choice \<Rightarrow> anthropicSSEBridge \<Rightarrow> anthropicSSEBridge" where
  "handleChoice ch b =
     (let b1 = (if sc_ReasoningContent ch \<noteq> '''' then emitThinkingDelta (sc_ReasoningContent ch) b else b);
          b2 = (if textOf ch \<noteq> '''' then emitTextDelta (textOf ch) b1 else b1);
          b3 = fold emitToolDelta (sc_ToolCalls ch) b2
      in if finishOf ch \<noteq> '''' then closeOpenBlocks (b3\<lparr>ab_stopReason := anthropicStopReasonFromOpenAI (finishOf ch)\<rparr>) else b3)"

definition choiceEmits :: "stream_choice \<Rightarrow> bool" where
  "choiceEmits ch \<longleftrightarrow> sc_ReasoningContent ch \<noteq> '''' \<or> textOf ch \<noteq> '''' \<or> sc_ToolCalls ch \<noteq> [] \<or> finishOf ch \<noteq> ''''"

definition handleChunk :: "string \<Rightarrow> stream_chunk \<Rightarrow> anthropicSSEBridge \<Rightarrow> anthropicSSEBridge" where
  "handleChunk newID ck b =
     (let b1 = noteUsage (ck_Usage ck) (ensureMessageStart newID (ck_ID ck) (ck_Model ck) b);
          b2 = fold handleChoice (ck_Choices ck) b1
      in if \<not> list_ex choiceEmits (ck_Choices ck) \<and> ck_Choices ck \<noteq> [] then forward Ping b2 else b2)"

fun splitNewline :: "string \<Rightarrow> string list" where
  "splitNewline [] = [[]]"
| "splitNewline (c # s) =
     (if c = CHR 0x0A then [] # splitNewline s
      else (case splitNewline s of l # ls \<Rightarrow> (c # l) # ls | [] \<Rightarrow> [[c]]))"

definition dataLines :: "string \<Rightarrow> string list" where
  "dataLines fr = map (\<lambda>l. TrimSpace (TrimPrefix l ''data:'')) (filter (\<lambda>l. HasPrefix l ''data:'') (splitNewline fr))"

fun joinNewline :: "string list \<Rightarrow> string" where
  "joinNewline [] = []"
| "joinNewline [l] = l"
| "joinNewline (l # ls) = l @ CHR 0x0A # joinNewline ls"

text \<open>What a frame is: passed on as it is, the end marker, an error, or a chunk.\<close>

datatype frame_kind = PassOn | DoneMark | ErrorChunk bridgeErrorBody | Chunk stream_chunk

definition frameKind :: "decoders \<Rightarrow> string \<Rightarrow> frame_kind" where
  "frameKind dc fr =
     (if dataLines fr = [] then PassOn
      else
        (let data = joinNewline (dataLines fr) in
         if TrimSpace data = ''[DONE]'' then DoneMark
         else
           (case dc_chunk dc data of
              None \<Rightarrow> PassOn
            | Some cc \<Rightarrow>
                if ck_ID cc = '''' \<and> ck_Choices cc = [] \<and> ck_Usage cc = None \<and> ck_Error cc = None then PassOn
                else (case ck_Error cc of Some e \<Rightarrow> ErrorChunk e | None \<Rightarrow> Chunk cc))))"

definition handleFrame :: "decoders \<Rightarrow> string \<Rightarrow> string \<Rightarrow> anthropicSSEBridge \<Rightarrow> anthropicSSEBridge" where
  "handleFrame dc newID fr b =
     (case frameKind dc fr of
        PassOn \<Rightarrow> forwardVerbatim fr b
      | DoneMark \<Rightarrow> finalizeMessage b
      | ErrorChunk e \<Rightarrow> emitError e b
      | Chunk ck \<Rightarrow> handleChunk newID ck b)"

fun indexDoubleNewline :: "string \<Rightarrow> nat option" where
  "indexDoubleNewline (c # d # s) =
     (if c = CHR 0x0A \<and> d = CHR 0x0A then Some 0 else map_option Suc (indexDoubleNewline (d # s)))"
| "indexDoubleNewline s = None"

lemma indexDoubleNewline_less: "indexDoubleNewline s = Some i \<Longrightarrow> Suc i < length s"
  by (induction s arbitrary: i rule: indexDoubleNewline.induct) (auto split: if_splits)

function writeLoop :: "decoders \<Rightarrow> string \<Rightarrow> string \<Rightarrow> anthropicSSEBridge \<Rightarrow> anthropicSSEBridge" where
  "writeLoop dc newID p b =
     (case indexDoubleNewline p of
        None \<Rightarrow> b\<lparr>ab_pending := p\<rparr>
      | Some i \<Rightarrow> writeLoop dc newID (drop (i + 2) p) (handleFrame dc newID (take i p) (b\<lparr>ab_pending := drop (i + 2) p\<rparr>)))"
  by auto
termination
  by (relation "measure (\<lambda>(dc, newID, p, b). length p)") (auto dest: indexDoubleNewline_less)

declare writeLoop.simps [simp del]

definition ab_Write :: "decoders \<Rightarrow> string \<Rightarrow> string \<Rightarrow> anthropicSSEBridge \<Rightarrow> anthropicSSEBridge" where
  "ab_Write dc newID p b = writeLoop dc newID (ab_pending b @ p) b"

definition ab_Finalize :: "decoders \<Rightarrow> string \<Rightarrow> anthropicSSEBridge \<Rightarrow> anthropicSSEBridge" where
  "ab_Finalize dc newID b =
     (if \<not> ab_headerSent b \<and> (ab_status b \<ge> 400 \<or> ab_pending b \<noteq> '''')
      then (case anthropicErrorEnvelope dc (ab_pending b) (ab_status b) of
              (typ, msg) \<Rightarrow> (sendHeader b)\<lparr>ab_out := ab_out b @ [ErrorEnvelope typ msg], ab_pending := ''''\<rparr>)
      else
        (let b1 = sendHeader b;
             b2 = (if ab_pending b1 \<noteq> '''' then handleFrame dc newID (ab_pending b1) (b1\<lparr>ab_pending := ''''\<rparr>) else b1)
         in finalizeMessage b2))"

definition UsageTotals :: "anthropicSSEBridge \<Rightarrow> int \<times> int \<times> int" where
  "UsageTotals b = (ab_inTok b, ab_outTok b, ab_cachedTok b)"

text \<open>The bridge of one request: the inner handler sets a status, writes its body in pieces and returns.\<close>

definition bridge_run :: "decoders \<Rightarrow> string \<Rightarrow> int \<Rightarrow> string list \<Rightarrow> anthropicSSEBridge" where
  "bridge_run dc newID status pieces =
     ab_Finalize dc newID (fold (ab_Write dc newID) pieces (ab_WriteHeader status newAnthropicSSEBridge))"

lemma newBridge_fields [simp]:
  "ab_pending newAnthropicSSEBridge = []" "\<not> ab_headerSent newAnthropicSSEBridge" "ab_msgID newAnthropicSSEBridge = []"
  "\<not> ab_stopped newAnthropicSSEBridge" "\<not> ab_errEmitted newAnthropicSSEBridge" "\<not> ab_sawContent newAnthropicSSEBridge"
  "ab_out newAnthropicSSEBridge = []" "ab_nextIndex newAnthropicSSEBridge = 0" "ab_toolBlocks newAnthropicSSEBridge = Map.empty"
  "ab_openBlocks newAnthropicSSEBridge = {}" "\<not> ab_thinkOpen newAnthropicSSEBridge" "\<not> ab_textOpen newAnthropicSSEBridge"
  by (simp_all add: newAnthropicSSEBridge_def)

section \<open>Frames\<close>

text \<open>No operation on a frame reads or writes the bytes that wait for the rest of their frame.\<close>

definition keeps_pending :: "(anthropicSSEBridge \<Rightarrow> anthropicSSEBridge) \<Rightarrow> bool" where
  "keeps_pending f \<longleftrightarrow> (\<forall>b x. f (b\<lparr>ab_pending := x\<rparr>) = (f b)\<lparr>ab_pending := x\<rparr>)"

lemma keeps_pending_fold: "(\<And>x. keeps_pending (f x)) \<Longrightarrow> keeps_pending (fold f xs)"
  unfolding keeps_pending_def by (induction xs) simp_all

lemma keeps_pending_forward [simp]: "keeps_pending (forward ev)"
  by (simp add: keeps_pending_def forward_def sendHeader_def)

lemma keeps_pending_close:
  "keeps_pending closeThinkingBlock" "keeps_pending (closeBlock i)"
  by (simp_all add: keeps_pending_def forward_def sendHeader_def closeThinkingBlock_def closeBlock_def)

lemma keeps_pending_closeOpen: "keeps_pending closeOpenBlocks"
  using keeps_pending_fold [of closeBlock "[0..ab_nextIndex (closeThinkingBlock b) - 1]" for b, OF keeps_pending_close(2)] keeps_pending_close(1)
  by (simp add: keeps_pending_def closeOpenBlocks_def Let_def)

lemma keeps_pending_open: "keeps_pending (openBlock blk)"
  by (simp add: keeps_pending_def openBlock_def forward_def sendHeader_def)

lemma keeps_pending_emit:
  "keeps_pending (emitThinkingDelta t)" "keeps_pending (emitTextDelta t)" "keeps_pending (emitToolDelta tc)" "keeps_pending (emitError e)"
proof -
  have u: "b\<lparr>ab_pending := x, ab_sawContent := s\<rparr> = b\<lparr>ab_sawContent := s, ab_pending := x\<rparr>"
    "b\<lparr>ab_pending := x, ab_thinkOpen := s, ab_thinkIdx := i\<rparr> = b\<lparr>ab_thinkOpen := s, ab_thinkIdx := i, ab_pending := x\<rparr>"
    "b\<lparr>ab_pending := x, ab_textOpen := s, ab_textIdx := i\<rparr> = b\<lparr>ab_textOpen := s, ab_textIdx := i, ab_pending := x\<rparr>"
    "b\<lparr>ab_pending := x, ab_toolBlocks := m\<rparr> = b\<lparr>ab_toolBlocks := m, ab_pending := x\<rparr>"
    "b\<lparr>ab_pending := x, ab_errEmitted := s\<rparr> = b\<lparr>ab_errEmitted := s, ab_pending := x\<rparr>"
    for b :: anthropicSSEBridge and x s i m by simp_all
  note eqs = keeps_pending_forward [unfolded keeps_pending_def] keeps_pending_open [unfolded keeps_pending_def]
    keeps_pending_close(1) [unfolded keeps_pending_def]
  show "keeps_pending (emitThinkingDelta t)" "keeps_pending (emitTextDelta t)" "keeps_pending (emitError e)"
    using eqs by (simp_all add: keeps_pending_def emitThinkingDelta_def emitTextDelta_def emitError_def u Let_def)
  show "keeps_pending (emitToolDelta tc)"
    using eqs by (simp add: keeps_pending_def emitToolDelta_def u Let_def split: option.split)
qed

lemma keeps_pending_choice: "keeps_pending (handleChoice ch)"
proof -
  have f: "keeps_pending (fold emitToolDelta (sc_ToolCalls ch))" by (rule keeps_pending_fold) (rule keeps_pending_emit)
  have u: "b\<lparr>ab_pending := x, ab_stopReason := s\<rparr> = b\<lparr>ab_stopReason := s, ab_pending := x\<rparr>" for b :: anthropicSSEBridge and x s by simp
  show ?thesis using f keeps_pending_emit keeps_pending_closeOpen
    by (simp add: keeps_pending_def handleChoice_def Let_def u del: anthropicSSEBridge.surjective)
qed

lemma keeps_pending_frame: "keeps_pending (handleFrame dc newID fr)"
proof -
  have f: "keeps_pending (fold handleChoice chs)" for chs by (rule keeps_pending_fold) (rule keeps_pending_choice)
  have e: "keeps_pending (ensureMessageStart newID i m)" for i m
    by (simp add: keeps_pending_def ensureMessageStart_def forward_def sendHeader_def Let_def)
  have n: "keeps_pending (noteUsage u)" for u by (simp add: keeps_pending_def noteUsage_def Let_def split: option.split)
  have c: "keeps_pending (handleChunk newID ck)" for ck
    using f e n keeps_pending_forward by (simp add: keeps_pending_def handleChunk_def Let_def)
  have u: "b\<lparr>ab_pending := x, ab_stopped := s\<rparr> = b\<lparr>ab_stopped := s, ab_pending := x\<rparr>" for b :: anthropicSSEBridge and x s by simp
  have m: "keeps_pending finalizeMessage"
    using keeps_pending_closeOpen keeps_pending_emit(4) keeps_pending_forward
    by (simp add: keeps_pending_def finalizeMessage_def Let_def u)
  show ?thesis using c m keeps_pending_emit(4) keeps_pending_forward
    by (cases "frameKind dc fr") (simp_all add: keeps_pending_def handleFrame_def forwardVerbatim_def)
qed

function sse_frames :: "string \<Rightarrow> string list \<times> string" where
  "sse_frames p =
     (case indexDoubleNewline p of
        None \<Rightarrow> ([], p)
      | Some i \<Rightarrow> (case sse_frames (drop (i + 2) p) of (fs, r) \<Rightarrow> (take i p # fs, r)))"
  by auto
termination
  by (relation "measure length") (auto dest: indexDoubleNewline_less)

declare sse_frames.simps [simp del]

lemma sse_frames_Nil [simp]: "sse_frames [] = ([], [])"
  by (simp add: sse_frames.simps)

lemma indexDoubleNewline_append: "indexDoubleNewline p = Some i \<Longrightarrow> indexDoubleNewline (p @ q) = Some i"
  by (induction p arbitrary: i rule: indexDoubleNewline.induct) (auto split: if_splits)

lemma sse_frames_append:
  "sse_frames (p @ q) = (fst (sse_frames p) @ fst (sse_frames (snd (sse_frames p) @ q)), snd (sse_frames (snd (sse_frames p) @ q)))"
proof (induction p rule: sse_frames.induct)
  case (1 p)
  show ?case
  proof (cases "indexDoubleNewline p")
    case None
    then show ?thesis by (simp add: sse_frames.simps [of p])
  next
    case (Some i)
    then have "drop (i + 2) (p @ q) = drop (i + 2) p @ q" "take i (p @ q) = take i p" using indexDoubleNewline_less [of p i] by auto
    then show ?thesis using 1 [OF Some] Some indexDoubleNewline_append [OF Some, of q]
      by (simp add: sse_frames.simps [of p] sse_frames.simps [of "p @ q"] split: prod.split)
  qed
qed

lemma writeLoop_frames:
  "writeLoop dc newID p b = (fold (handleFrame dc newID) (fst (sse_frames p)) b)\<lparr>ab_pending := snd (sse_frames p)\<rparr>"
proof (induction dc newID p b rule: writeLoop.induct)
  case (1 dc newID p b)
  show ?case
  proof (cases "indexDoubleNewline p")
    case None
    then show ?thesis by (simp add: writeLoop.simps [of _ _ p] sse_frames.simps [of p])
  next
    case (Some i)
    have k: "keeps_pending (handleFrame dc newID fr)" "keeps_pending (fold (handleFrame dc newID) fs)" for fr fs
      by (rule keeps_pending_frame) (rule keeps_pending_fold, rule keeps_pending_frame)
    show ?thesis using 1 [OF Some] Some k
      by (simp add: writeLoop.simps [of _ _ p] sse_frames.simps [of p] keeps_pending_def split: prod.split)
  qed
qed

text \<open>The writes of a stream amount to the frames of their concatenation, however the bytes are cut.\<close>

lemma writes_frames:
  "fold (ab_Write dc newID) pieces b =
     (if pieces = [] then b
      else (fold (handleFrame dc newID) (fst (sse_frames (ab_pending b @ concat pieces))) b)\<lparr>ab_pending := snd (sse_frames (ab_pending b @ concat pieces))\<rparr>)"
proof (induction pieces arbitrary: b)
  case (Cons p ps)
  have k: "keeps_pending (fold (handleFrame dc newID) fs)" for fs by (rule keeps_pending_fold) (rule keeps_pending_frame)
  show ?case using Cons [of "ab_Write dc newID p b"] k
    by (cases ps) (simp_all add: ab_Write_def writeLoop_frames keeps_pending_def
        sse_frames_append [of "ab_pending b @ p", simplified])
qed simp

lemma bridge_run_concat:
  "bridge_run dc newID status pieces = bridge_run dc newID status [concat pieces]"
proof -
  have "ab_Write dc newID [] (ab_WriteHeader status newAnthropicSSEBridge) = ab_WriteHeader status newAnthropicSSEBridge"
    by (simp add: ab_Write_def writeLoop_frames ab_WriteHeader_def)
  then show ?thesis by (simp add: bridge_run_def writes_frames) (simp add: ab_Write_def writeLoop_frames ab_WriteHeader_def)
qed

text \<open>
  The events a client receives do not depend on how the inner handler cuts the stream into writes: writing it in pieces or at once
  gives the same bridge.
\<close>
theorem bridge_split_independent:
  "bridge_run dc newID status pieces = bridge_run dc newID status [concat pieces]"
  by (rule bridge_run_concat)

section \<open>What the events carry\<close>

lemma forward_fields [simp]:
  "ab_out (forward ev b) = ab_out b @ [ev]" "ab_nextIndex (forward ev b) = ab_nextIndex b" "ab_thinkOpen (forward ev b) = ab_thinkOpen b"
  "ab_thinkIdx (forward ev b) = ab_thinkIdx b" "ab_textOpen (forward ev b) = ab_textOpen b" "ab_textIdx (forward ev b) = ab_textIdx b"
  "ab_toolBlocks (forward ev b) = ab_toolBlocks b" "ab_openBlocks (forward ev b) = ab_openBlocks b" "ab_headerSent (forward ev b)"
  "ab_stopped (forward ev b) = ab_stopped b" "ab_errEmitted (forward ev b) = ab_errEmitted b" "ab_sawContent (forward ev b) = ab_sawContent b"
  "ab_msgID (forward ev b) = ab_msgID b" "ab_pending (forward ev b) = ab_pending b" "ab_stopReason (forward ev b) = ab_stopReason b"
  by (simp_all add: forward_def sendHeader_def)

lemma closeThinkingBlock_fields [simp]:
  "ab_nextIndex (closeThinkingBlock b) = ab_nextIndex b" "ab_toolBlocks (closeThinkingBlock b) = ab_toolBlocks b"
  "ab_textOpen (closeThinkingBlock b) = ab_textOpen b" "ab_textIdx (closeThinkingBlock b) = ab_textIdx b"
  "ab_thinkOpen (closeThinkingBlock b) \<longleftrightarrow> False" "ab_sawContent (closeThinkingBlock b) = ab_sawContent b"
  "ab_stopped (closeThinkingBlock b) = ab_stopped b" "ab_errEmitted (closeThinkingBlock b) = ab_errEmitted b"
  "ab_msgID (closeThinkingBlock b) = ab_msgID b"
  "ab_openBlocks (closeThinkingBlock b) = (if ab_thinkOpen b then ab_openBlocks b - {ab_thinkIdx b} else ab_openBlocks b)"
  by (simp_all add: closeThinkingBlock_def)

lemma openBlock_fields [simp]:
  "ab_nextIndex (openBlock blk b) = ab_nextIndex b + 1" "ab_toolBlocks (openBlock blk b) = ab_toolBlocks b"
  "ab_thinkOpen (openBlock blk b) = ab_thinkOpen b" "ab_thinkIdx (openBlock blk b) = ab_thinkIdx b"
  "ab_textOpen (openBlock blk b) = ab_textOpen b" "ab_textIdx (openBlock blk b) = ab_textIdx b"
  "ab_openBlocks (openBlock blk b) = insert (ab_nextIndex b) (ab_openBlocks b)" "ab_sawContent (openBlock blk b) = ab_sawContent b"
  "ab_stopped (openBlock blk b) = ab_stopped b" "ab_errEmitted (openBlock blk b) = ab_errEmitted b" "ab_msgID (openBlock blk b) = ab_msgID b"
  "ab_out (openBlock blk b) = ab_out b @ [BlockStart (ab_nextIndex b) blk]"
  by (simp_all add: openBlock_def)

lemma closeBlock_fields [simp]:
  "ab_nextIndex (closeBlock i b) = ab_nextIndex b" "ab_toolBlocks (closeBlock i b) = ab_toolBlocks b" "ab_thinkOpen (closeBlock i b) = ab_thinkOpen b"
  "ab_openBlocks (closeBlock i b) = ab_openBlocks b - {i}" "ab_stopped (closeBlock i b) = ab_stopped b" "ab_errEmitted (closeBlock i b) = ab_errEmitted b"
  "ab_sawContent (closeBlock i b) = ab_sawContent b" "ab_msgID (closeBlock i b) = ab_msgID b" "ab_textOpen (closeBlock i b) = ab_textOpen b"
  by (simp_all add: closeBlock_def)

lemma closeBlocks_fields [simp]:
  "ab_nextIndex (fold closeBlock is b) = ab_nextIndex b" "ab_toolBlocks (fold closeBlock is b) = ab_toolBlocks b"
  "ab_thinkOpen (fold closeBlock is b) = ab_thinkOpen b" "ab_openBlocks (fold closeBlock is b) = ab_openBlocks b - set is"
  "ab_stopped (fold closeBlock is b) = ab_stopped b" "ab_errEmitted (fold closeBlock is b) = ab_errEmitted b"
  "ab_sawContent (fold closeBlock is b) = ab_sawContent b" "ab_msgID (fold closeBlock is b) = ab_msgID b" "ab_textOpen (fold closeBlock is b) = ab_textOpen b"
  by (induction "is" arbitrary: b) auto

lemma closeOpenBlocks_fields [simp]:
  "ab_nextIndex (closeOpenBlocks b) = ab_nextIndex b" "ab_toolBlocks (closeOpenBlocks b) = ab_toolBlocks b"
  "ab_thinkOpen (closeOpenBlocks b) \<longleftrightarrow> False" "ab_stopped (closeOpenBlocks b) = ab_stopped b"
  "ab_errEmitted (closeOpenBlocks b) = ab_errEmitted b" "ab_sawContent (closeOpenBlocks b) = ab_sawContent b" "ab_msgID (closeOpenBlocks b) = ab_msgID b"
  by (simp_all add: closeOpenBlocks_def Let_def)

text \<open>
  A view reads a string off each content delta and nothing off the other events; the views of a bridge are determined by the
  contents it was given.
\<close>

locale delta_view =
  fixes h :: "anthropic_event \<Rightarrow> string"
  assumes h_other: "(\<And>i d. ev = BlockDelta i d \<Longrightarrow> \<exists>s. d = SignatureDelta s) \<Longrightarrow> h ev = []"
begin

definition view :: "anthropicSSEBridge \<Rightarrow> string" where
  "view b = concat (map h (ab_out b))"

lemma h_frame [simp]:
  "h (MessageStart i m) = []" "h (BlockStart j blk) = []" "h (BlockStop j) = []" "h (MessageDelta s u) = []" "h MessageStop = []"
  "h (ErrorEvent t m) = []" "h Ping = []" "h (Verbatim f) = []" "h (ErrorEnvelope t m) = []" "h (BlockDelta j (SignatureDelta s)) = []"
  by (auto intro: h_other)

lemma view_forward [simp]: "view (forward ev b) = view b @ h ev"
  by (simp add: view_def)

lemma view_cong: "ab_out b = ab_out b' \<Longrightarrow> view b = view b'"
  by (simp add: view_def)

lemma view_update [simp]:
  "view (b\<lparr>ab_sawContent := x\<rparr>) = view b" "view (b\<lparr>ab_thinkOpen := x\<rparr>) = view b" "view (b\<lparr>ab_thinkIdx := i\<rparr>) = view b"
  "view (b\<lparr>ab_textOpen := x\<rparr>) = view b" "view (b\<lparr>ab_textIdx := i\<rparr>) = view b" "view (b\<lparr>ab_toolBlocks := tb\<rparr>) = view b"
  "view (b\<lparr>ab_openBlocks := ob\<rparr>) = view b" "view (b\<lparr>ab_nextIndex := i\<rparr>) = view b" "view (b\<lparr>ab_stopped := x\<rparr>) = view b"
  "view (b\<lparr>ab_errEmitted := x\<rparr>) = view b" "view (b\<lparr>ab_stopReason := s\<rparr>) = view b" "view (b\<lparr>ab_msgID := s\<rparr>) = view b"
  "view (b\<lparr>ab_model := s\<rparr>) = view b" "view (b\<lparr>ab_pending := s\<rparr>) = view b" "view (b\<lparr>ab_inTok := i\<rparr>) = view b"
  "view (b\<lparr>ab_outTok := i\<rparr>) = view b" "view (b\<lparr>ab_cachedTok := i\<rparr>) = view b" "view (b\<lparr>ab_headerSent := x\<rparr>) = view b"
  "view (b\<lparr>ab_sent := so\<rparr>) = view b"
  by (simp_all add: view_def)

lemma view_close [simp]:
  "view (closeThinkingBlock b) = view b" "view (closeBlock i b) = view b" "view (fold closeBlock is b) = view b" "view (openBlock blk b) = view b"
proof -
  show c: "view (closeBlock i b) = view b" for i b by (simp add: closeBlock_def)
  show "view (fold closeBlock is b) = view b" by (induction "is" arbitrary: b) (simp_all add: c)
qed (simp_all add: closeThinkingBlock_def openBlock_def)

lemma view_closeOpen [simp]: "view (closeOpenBlocks b) = view b"
  by (simp add: closeOpenBlocks_def Let_def)

lemma view_finalize [simp]: "view (finalizeMessage b) = view b"
  by (simp add: finalizeMessage_def emitError_def Let_def)

lemma view_error [simp]: "view (emitError e b) = view b"
  by (simp add: emitError_def)

lemma view_start [simp]: "view (ensureMessageStart newID i m b) = view b" "view (noteUsage u b) = view b"
  by (simp_all add: ensureMessageStart_def noteUsage_def Let_def split: option.split)

lemma view_thinking: "\<exists>i. view (emitThinkingDelta t b) = view b @ h (BlockDelta i (ThinkingDelta t))"
  by (auto simp: emitThinkingDelta_def Let_def)

lemma view_text: "\<exists>i. view (emitTextDelta t b) = view b @ h (BlockDelta i (TextDelta t))"
  by (auto simp: emitTextDelta_def Let_def)

lemma view_tool:
  "view (emitToolDelta tc b) =
     view b @ (if toolArgs tc \<noteq> [] then h (BlockDelta (case ab_toolBlocks b (tc_Index tc) of Some i \<Rightarrow> i | None \<Rightarrow> ab_nextIndex b) (InputJsonDelta (toolArgs tc))) else [])"
  by (simp add: emitToolDelta_def Let_def split: option.split)

end

text \<open>The views of thinking and text, and of the arguments of one block.\<close>

fun h_thinking :: "anthropic_event \<Rightarrow> string" where
  "h_thinking (BlockDelta i (ThinkingDelta t)) = t"
| "h_thinking _ = []"

fun h_text :: "anthropic_event \<Rightarrow> string" where
  "h_text (BlockDelta i (TextDelta t)) = t"
| "h_text _ = []"

fun h_input :: "int \<Rightarrow> anthropic_event \<Rightarrow> string" where
  "h_input k (BlockDelta i (InputJsonDelta t)) = (if i = k then t else [])"
| "h_input k _ = []"

interpretation thinkview: delta_view h_thinking
proof
  fix ev assume "\<And>i d. ev = BlockDelta i d \<Longrightarrow> \<exists>s. d = SignatureDelta s"
  then show "h_thinking ev = []" by (cases ev rule: h_thinking.cases) auto
qed

interpretation textview: delta_view h_text
proof
  fix ev assume "\<And>i d. ev = BlockDelta i d \<Longrightarrow> \<exists>s. d = SignatureDelta s"
  then show "h_text ev = []" by (cases ev rule: h_text.cases) auto
qed

interpretation argview: delta_view "h_input k" for k
proof
  fix ev assume "\<And>i d. ev = BlockDelta i d \<Longrightarrow> \<exists>s. d = SignatureDelta s"
  then show "h_input k ev = []" by (cases "(k, ev)" rule: h_input.cases) auto
qed

lemma thinking_emit [simp]:
  "thinkview.view (emitThinkingDelta t b) = thinkview.view b @ t" "thinkview.view (emitTextDelta t b) = thinkview.view b"
  "thinkview.view (emitToolDelta tc b) = thinkview.view b"
  using thinkview.view_thinking [of t b] thinkview.view_text [of t b] by (simp_all add: thinkview.view_tool)

lemma text_emit [simp]:
  "textview.view (emitThinkingDelta t b) = textview.view b" "textview.view (emitTextDelta t b) = textview.view b @ t"
  "textview.view (emitToolDelta tc b) = textview.view b"
  using textview.view_thinking [of t b] textview.view_text [of t b] by (simp_all add: textview.view_tool)

lemma input_emit [simp]:
  "argview.view k (emitThinkingDelta t b) = argview.view k b" "argview.view k (emitTextDelta t b) = argview.view k b"
  using argview.view_thinking [of k t b] argview.view_text [of k t b] by simp_all

lemma tools_emit [simp]:
  "thinkview.view (fold emitToolDelta tcs b) = thinkview.view b" "textview.view (fold emitToolDelta tcs b) = textview.view b"
  by (induction tcs arbitrary: b) simp_all

lemma choice_views [simp]:
  "thinkview.view (handleChoice ch b) = thinkview.view b @ sc_ReasoningContent ch" "textview.view (handleChoice ch b) = textview.view b @ textOf ch"
  by (simp_all add: handleChoice_def Let_def)

lemma choices_views [simp]:
  "thinkview.view (fold handleChoice chs b) = thinkview.view b @ concat (map sc_ReasoningContent chs)"
  "textview.view (fold handleChoice chs b) = textview.view b @ concat (map textOf chs)"
  by (induction chs arbitrary: b) simp_all

definition frameChoices :: "decoders \<Rightarrow> string \<Rightarrow> stream_choice list" where
  "frameChoices dc fr = (case frameKind dc fr of Chunk ck \<Rightarrow> ck_Choices ck | _ \<Rightarrow> [])"

lemma frame_views:
  "thinkview.view (handleFrame dc newID fr b) = thinkview.view b @ concat (map sc_ReasoningContent (frameChoices dc fr))"
  "textview.view (handleFrame dc newID fr b) = textview.view b @ concat (map textOf (frameChoices dc fr))"
  by (simp_all add: handleFrame_def frameChoices_def forwardVerbatim_def handleChunk_def Let_def split: frame_kind.split)

section \<open>Tool calls\<close>

definition callsOf :: "int \<Rightarrow> bridgeToolCall list \<Rightarrow> bridgeToolCall list" where
  "callsOf k calls = filter (\<lambda>tc. tc_Index tc = k) calls"

text \<open>The block of each tool index, after the calls that were seen.\<close>

definition tool_inv :: "bridgeToolCall list \<Rightarrow> anthropicSSEBridge \<Rightarrow> bool" where
  "tool_inv calls b \<longleftrightarrow>
     (\<forall>k. case ab_toolBlocks b k of
            None \<Rightarrow> callsOf k calls = []
          | Some i \<Rightarrow> i < ab_nextIndex b \<and> callsOf k calls \<noteq> []
              \<and> BlockStart i (ToolUseBlock (tc_ID (hd (callsOf k calls))) (toolName (hd (callsOf k calls))) ''{}'') \<in> set (ab_out b)
              \<and> argview.view i b = concat (map toolArgs (callsOf k calls)))
     \<and> (\<forall>k k' i. ab_toolBlocks b k = Some i \<longrightarrow> ab_toolBlocks b k' = Some i \<longrightarrow> k = k')
     \<and> (\<forall>i \<ge> ab_nextIndex b. argview.view i b = [])"

definition tool_neutral :: "anthropicSSEBridge \<Rightarrow> anthropicSSEBridge \<Rightarrow> bool" where
  "tool_neutral b b' \<longleftrightarrow>
     ab_toolBlocks b' = ab_toolBlocks b \<and> ab_nextIndex b \<le> ab_nextIndex b' \<and> set (ab_out b) \<subseteq> set (ab_out b')
     \<and> (\<forall>i. argview.view i b' = argview.view i b)"

lemma tool_inv_neutral:
  assumes inv: "tool_inv calls b" and n: "tool_neutral b b'"
  shows "tool_inv calls b'"
proof -
  have e: "ab_toolBlocks b' = ab_toolBlocks b" "ab_nextIndex b \<le> ab_nextIndex b'" "set (ab_out b) \<subseteq> set (ab_out b')"
    "\<And>i. argview.view i b' = argview.view i b" using n by (auto simp: tool_neutral_def)
  show ?thesis unfolding tool_inv_def e(1,4)
  proof (intro conjI allI)
    fix k
    show "case ab_toolBlocks b k of None \<Rightarrow> callsOf k calls = []
      | Some i \<Rightarrow> i < ab_nextIndex b' \<and> callsOf k calls \<noteq> []
          \<and> BlockStart i (ToolUseBlock (tc_ID (hd (callsOf k calls))) (toolName (hd (callsOf k calls))) ''{}'') \<in> set (ab_out b')
          \<and> argview.view i b = concat (map toolArgs (callsOf k calls))"
      using inv e(2,3) by (simp add: tool_inv_def split: option.split option.split_asm) force
  qed (use inv e(2) in \<open>auto simp: tool_inv_def\<close>)
qed

lemma closeThinkingBlock_out: "\<exists>evs. ab_out (closeThinkingBlock b) = ab_out b @ evs"
  by (simp add: closeThinkingBlock_def)

lemma closeBlocks_out: "\<exists>evs. ab_out (fold closeBlock is b) = ab_out b @ evs"
proof (induction "is" arbitrary: b)
  case (Cons i "is")
  from Cons [of "closeBlock i b"] show ?case by (auto simp: closeBlock_def split: if_splits)
qed simp

lemma closeOpenBlocks_out: "set (ab_out b) \<subseteq> set (ab_out (closeOpenBlocks b))"
  using closeThinkingBlock_out [of b] closeBlocks_out [of "[0..ab_nextIndex b - 1]" "closeThinkingBlock b"]
  by (auto simp: closeOpenBlocks_def Let_def)

lemma neutral_trans: "tool_neutral a b \<Longrightarrow> tool_neutral b c \<Longrightarrow> tool_neutral a c"
  by (auto simp: tool_neutral_def)

lemma neutral_refl [simp]: "tool_neutral b b"
  by (simp add: tool_neutral_def)

lemma neutral_close: "tool_neutral b (closeThinkingBlock b)" "tool_neutral b (closeOpenBlocks b)"
  using closeThinkingBlock_out [of b] closeOpenBlocks_out [of b] by (auto simp: tool_neutral_def)

lemma neutral_update:
  "tool_neutral b (b\<lparr>ab_sawContent := x\<rparr>)" "tool_neutral b (b\<lparr>ab_stopReason := s\<rparr>)" "tool_neutral b (noteUsage u b)" "tool_neutral b (ensureMessageStart n i m b)"
  "tool_neutral b (b\<lparr>ab_stopped := x\<rparr>)" "tool_neutral b (emitError e b)" "tool_neutral b (sendHeader b)" "tool_neutral b (b\<lparr>ab_pending := s\<rparr>)"
  by (auto simp: tool_neutral_def noteUsage_def ensureMessageStart_def emitError_def sendHeader_def Let_def split: option.split)

lemma neutral_forward: "(\<And>i. h_input i ev = []) \<Longrightarrow> tool_neutral b (forward ev b)"
  by (auto simp: tool_neutral_def)

lemma neutral_thinking: "tool_neutral b (emitThinkingDelta t b)"
  by (auto simp: tool_neutral_def) (auto simp: emitThinkingDelta_def Let_def)

lemma neutral_text: "tool_neutral b (emitTextDelta t b)"
proof -
  have "set (ab_out b) \<subseteq> set (ab_out (emitTextDelta t b))"
    using closeThinkingBlock_out [of "b\<lparr>ab_sawContent := True\<rparr>"] by (auto simp: emitTextDelta_def Let_def)
  then show ?thesis by (auto simp: tool_neutral_def) (auto simp: emitTextDelta_def Let_def)
qed

lemma neutral_finalize: "tool_neutral b (finalizeMessage b)"
proof -
  have "tool_neutral (b\<lparr>ab_stopped := True\<rparr>) (closeOpenBlocks (b\<lparr>ab_stopped := True\<rparr>))" by (rule neutral_close)
  then have "tool_neutral b (closeOpenBlocks (b\<lparr>ab_stopped := True\<rparr>))" using neutral_update(5) neutral_trans by blast
  moreover have "tool_neutral c (forward MessageStop (forward (MessageDelta st us) c))" for c st us
    by (rule neutral_trans [OF neutral_forward neutral_forward]) simp_all
  ultimately show ?thesis
    using neutral_trans [OF neutral_update(5) neutral_update(6)] neutral_update(5) neutral_trans
    by (auto simp: finalizeMessage_def Let_def)
qed

lemma emitToolDelta_inv:
  assumes "tool_inv calls b"
  shows "tool_inv (calls @ [tc]) (emitToolDelta tc b)"
proof -
  define b1 where "b1 = closeThinkingBlock (b\<lparr>ab_sawContent := True\<rparr>)"
  have inv: "tool_inv calls b1" unfolding b1_def using assms neutral_update(1) neutral_close(1) tool_inv_neutral by blast
  define i where "i = (case ab_toolBlocks b1 (tc_Index tc) of Some j \<Rightarrow> j | None \<Rightarrow> ab_nextIndex b1)"
  have tb: "ab_toolBlocks (emitToolDelta tc b) = (ab_toolBlocks b1)(tc_Index tc \<mapsto> i)"
    by (auto simp: emitToolDelta_def b1_def i_def Let_def split: option.split)
  have nx: "ab_nextIndex (emitToolDelta tc b) = (if ab_toolBlocks b1 (tc_Index tc) = None then ab_nextIndex b1 + 1 else ab_nextIndex b1)"
    by (simp add: emitToolDelta_def b1_def Let_def split: option.split)
  have vw: "argview.view j (emitToolDelta tc b) = argview.view j b1 @ (if j = i then toolArgs tc else [])" for j
  proof -
    have "ab_toolBlocks b1 = ab_toolBlocks b" "ab_nextIndex b1 = ab_nextIndex b" "argview.view j b1 = argview.view j b" by (simp_all add: b1_def)
    then show ?thesis by (auto simp: argview.view_tool i_def split: option.split)
  qed
  have out: "set (ab_out b1) \<subseteq> set (ab_out (emitToolDelta tc b))"
    "ab_toolBlocks b1 (tc_Index tc) = None \<Longrightarrow> BlockStart i (ToolUseBlock (tc_ID tc) (toolName tc) ''{}'') \<in> set (ab_out (emitToolDelta tc b))"
    by (auto simp: emitToolDelta_def b1_def i_def Let_def split: option.split)
  have cs: "callsOf k (calls @ [tc]) = callsOf k calls @ (if tc_Index tc = k then [tc] else [])" for k by (simp add: callsOf_def)
  have old: "ab_toolBlocks b1 k = Some j \<Longrightarrow> j < ab_nextIndex b1 \<and> callsOf k calls \<noteq> []
      \<and> BlockStart j (ToolUseBlock (tc_ID (hd (callsOf k calls))) (toolName (hd (callsOf k calls))) ''{}'') \<in> set (ab_out b1)
      \<and> argview.view j b1 = concat (map toolArgs (callsOf k calls))" for k j
    using spec [OF conjunct1 [OF inv [unfolded tool_inv_def]], of k] by simp
  have none: "ab_toolBlocks b1 k = None \<Longrightarrow> callsOf k calls = []" for k
    using spec [OF conjunct1 [OF inv [unfolded tool_inv_def]], of k] by simp
  have inj: "ab_toolBlocks b1 k = Some j \<Longrightarrow> ab_toolBlocks b1 k' = Some j \<Longrightarrow> k = k'" for k k' j
    using inv unfolding tool_inv_def by blast
  have fresh: "ab_nextIndex b1 \<le> j \<Longrightarrow> argview.view j b1 = []" for j using inv by (simp add: tool_inv_def)
  have other: "ab_toolBlocks b1 k = Some j \<Longrightarrow> k \<noteq> tc_Index tc \<Longrightarrow> j \<noteq> i" for k j
    using old [of k j] inj [of k j "tc_Index tc"] by (auto simp: i_def split: option.splits)
  show ?thesis unfolding tool_inv_def tb vw cs
  proof (intro conjI allI impI)
    fix k
    show "case ((ab_toolBlocks b1)(tc_Index tc \<mapsto> i)) k of
        None \<Rightarrow> callsOf k calls @ (if tc_Index tc = k then [tc] else []) = []
      | Some j \<Rightarrow> j < ab_nextIndex (emitToolDelta tc b) \<and> callsOf k calls @ (if tc_Index tc = k then [tc] else []) \<noteq> []
          \<and> BlockStart j (ToolUseBlock (tc_ID (hd (callsOf k calls @ (if tc_Index tc = k then [tc] else []))))
                (toolName (hd (callsOf k calls @ (if tc_Index tc = k then [tc] else [])))) ''{}'') \<in> set (ab_out (emitToolDelta tc b))
          \<and> argview.view j b1 @ (if j = i then toolArgs tc else []) = concat (map toolArgs (callsOf k calls @ (if tc_Index tc = k then [tc] else [])))"
    proof (cases "k = tc_Index tc")
      case True
      then show ?thesis using out old [of k i] none [of k] fresh [of i] by (cases "ab_toolBlocks b1 k") (auto simp: i_def nx)
    next
      case False
      then show ?thesis using none [of k] old [of k] other [of k] out(1) by (cases "ab_toolBlocks b1 k") (auto simp: nx)
    qed
  next
    fix k k' j
    assume "((ab_toolBlocks b1)(tc_Index tc \<mapsto> i)) k = Some j" "((ab_toolBlocks b1)(tc_Index tc \<mapsto> i)) k' = Some j"
    then show "k = k'" using inj [of k j k'] other [of k j] other [of k' j] by (auto split: if_splits)
  next
    fix j assume "ab_nextIndex (emitToolDelta tc b) \<le> j"
    then show "argview.view j b1 @ (if j = i then toolArgs tc else []) = []"
      using fresh [of j] old [of "tc_Index tc" i] by (auto simp: nx i_def split: if_splits option.splits)
  qed
qed

lemma emitTools_inv: "tool_inv calls b \<Longrightarrow> tool_inv (calls @ tcs) (fold emitToolDelta tcs b)"
proof (induction tcs arbitrary: b calls)
  case (Cons tc tcs)
  from Cons.IH [OF emitToolDelta_inv [OF Cons.prems, of tc]] show ?case by simp
qed simp

lemma handleChoice_inv:
  assumes "tool_inv calls b"
  shows "tool_inv (calls @ sc_ToolCalls ch) (handleChoice ch b)"
proof -
  define b1 where "b1 = (if sc_ReasoningContent ch \<noteq> '''' then emitThinkingDelta (sc_ReasoningContent ch) b else b)"
  define b2 where "b2 = (if textOf ch \<noteq> '''' then emitTextDelta (textOf ch) b1 else b1)"
  have "tool_inv calls b1" using assms neutral_thinking tool_inv_neutral by (simp add: b1_def)
  then have "tool_inv calls b2" using neutral_text tool_inv_neutral by (simp add: b2_def)
  then have t: "tool_inv (calls @ sc_ToolCalls ch) (fold emitToolDelta (sc_ToolCalls ch) b2)" by (rule emitTools_inv)
  have "handleChoice ch b = (if finishOf ch \<noteq> ''''
      then closeOpenBlocks ((fold emitToolDelta (sc_ToolCalls ch) b2)\<lparr>ab_stopReason := anthropicStopReasonFromOpenAI (finishOf ch)\<rparr>)
      else fold emitToolDelta (sc_ToolCalls ch) b2)" by (simp add: handleChoice_def Let_def b1_def b2_def)
  then show ?thesis using t neutral_close(2) neutral_update(2) tool_inv_neutral by metis
qed

lemma handleChoices_inv: "tool_inv calls b \<Longrightarrow> tool_inv (calls @ concat (map sc_ToolCalls chs)) (fold handleChoice chs b)"
proof (induction chs arbitrary: b calls)
  case (Cons ch chs)
  from Cons.IH [OF handleChoice_inv [OF Cons.prems, of ch]] show ?case by simp
qed simp

lemma handleFrame_inv:
  assumes "tool_inv calls b"
  shows "tool_inv (calls @ concat (map sc_ToolCalls (frameChoices dc fr))) (handleFrame dc newID fr b)"
proof (cases "frameKind dc fr")
  case (Chunk ck)
  have "tool_inv calls (noteUsage (ck_Usage ck) (ensureMessageStart newID (ck_ID ck) (ck_Model ck) b))"
    using assms neutral_update(3,4) tool_inv_neutral by blast
  from handleChoices_inv [OF this, of "ck_Choices ck"]
  have "tool_inv (calls @ concat (map sc_ToolCalls (ck_Choices ck)))
      (fold handleChoice (ck_Choices ck) (noteUsage (ck_Usage ck) (ensureMessageStart newID (ck_ID ck) (ck_Model ck) b)))" .
  moreover have "tool_neutral c (forward Ping c)" for c by (rule neutral_forward) simp
  ultimately show ?thesis using tool_inv_neutral Chunk by (auto simp: handleFrame_def frameChoices_def handleChunk_def Let_def)
next
  case PassOn
  have "tool_neutral b (forwardVerbatim fr b)" unfolding forwardVerbatim_def by (rule neutral_forward) simp
  then show ?thesis using assms tool_inv_neutral PassOn by (auto simp: handleFrame_def frameChoices_def)
next
  case DoneMark
  then show ?thesis using assms neutral_finalize tool_inv_neutral by (auto simp: handleFrame_def frameChoices_def)
next
  case (ErrorChunk e)
  then show ?thesis using assms neutral_update(6) tool_inv_neutral by (auto simp: handleFrame_def frameChoices_def)
qed

section \<open>The whole stream\<close>

text \<open>
  The frames that are handled: those of the stream, and what follows the last blank line if some frame came before it.
\<close>

definition handledFrames :: "string \<Rightarrow> string list" where
  "handledFrames s =
     (case sse_frames s of (fs, r) \<Rightarrow> if fs = [] then [] else fs @ (if r \<noteq> [] then [r] else []))"

definition streamChoices :: "decoders \<Rightarrow> string \<Rightarrow> stream_choice list" where
  "streamChoices dc s = concat (map (frameChoices dc) (handledFrames s))"

lemma handleFrame_headerSent:
  "ab_headerSent b \<or> ab_msgID b = [] \<and> \<not> ab_stopped b \<and> \<not> ab_errEmitted b \<and> \<not> ab_sawContent b \<Longrightarrow> ab_headerSent (handleFrame dc newID fr b)"
proof -
  assume a: "ab_headerSent b \<or> ab_msgID b = [] \<and> \<not> ab_stopped b \<and> \<not> ab_errEmitted b \<and> \<not> ab_sawContent b"
  have c1: "ab_headerSent c \<Longrightarrow> ab_headerSent (closeThinkingBlock c)" for c by (simp add: closeThinkingBlock_def)
  have c2: "ab_headerSent c \<Longrightarrow> ab_headerSent (fold closeBlock is c)" for c "is"
    by (induction "is" arbitrary: c) (simp_all add: closeBlock_def)
  have c3: "ab_headerSent c \<Longrightarrow> ab_headerSent (closeOpenBlocks c)" for c by (simp add: closeOpenBlocks_def Let_def c1 c2)
  have t: "ab_headerSent c \<Longrightarrow> ab_headerSent (emitToolDelta tc c)" for c tc
    using c1 [of "c\<lparr>ab_sawContent := True\<rparr>"] by (simp add: emitToolDelta_def openBlock_def Let_def split: option.split)
  have ts: "ab_headerSent c \<Longrightarrow> ab_headerSent (fold emitToolDelta tcs c)" for c tcs
    by (induction tcs arbitrary: c) (simp_all add: t)
  have ch: "ab_headerSent c \<Longrightarrow> ab_headerSent (handleChoice ch c)" for c ch
  proof -
    assume "ab_headerSent c"
    then have "ab_headerSent (if sc_ReasoningContent ch \<noteq> '''' then emitThinkingDelta (sc_ReasoningContent ch) c else c)" (is "ab_headerSent ?d")
      by (simp add: emitThinkingDelta_def Let_def)
    then have "ab_headerSent (if textOf ch \<noteq> '''' then emitTextDelta (textOf ch) ?d else ?d)" by (simp add: emitTextDelta_def Let_def)
    from ts [OF this] show ?thesis by (simp add: handleChoice_def Let_def c3)
  qed
  have chs: "ab_headerSent c \<Longrightarrow> ab_headerSent (fold handleChoice cs c)" for c cs
    by (induction cs arbitrary: c) (simp_all add: ch)
  have st: "ab_headerSent (ensureMessageStart newID i m b)" for i m using a by (auto simp: ensureMessageStart_def Let_def)
  have us: "ab_headerSent (noteUsage u c) = ab_headerSent c" for u c by (simp add: noteUsage_def Let_def split: option.split)
  have fin: "ab_headerSent (finalizeMessage b)" using a by (auto simp: finalizeMessage_def emitError_def Let_def)
  show ?thesis using st us chs fin
    by (cases "frameKind dc fr") (simp_all add: handleFrame_def forwardVerbatim_def emitError_def handleChunk_def Let_def)
qed

lemma handleFrames_headerSent:
  "ab_headerSent (fold (handleFrame dc newID) fs (newAnthropicSSEBridge\<lparr>ab_status := st\<rparr>)) \<longleftrightarrow> fs \<noteq> []"
proof -
  have k: "ab_headerSent b \<Longrightarrow> ab_headerSent (fold (handleFrame dc newID) fs b)" for b fs
    by (induction fs arbitrary: b) (simp_all add: handleFrame_headerSent)
  show ?thesis by (cases fs) (auto intro!: k handleFrame_headerSent)
qed

text \<open>The whole run: the handled frames and then the terminal events, or an error envelope when no frame was complete.\<close>

lemma bridge_run_frames:
  "bridge_run dc newID status pieces =
     (let s = concat pieces; b = newAnthropicSSEBridge\<lparr>ab_status := status\<rparr> in
      if fst (sse_frames s) = [] \<and> (status \<ge> 400 \<or> s \<noteq> [])
      then (case anthropicErrorEnvelope dc s status of
              (typ, msg) \<Rightarrow> b\<lparr>ab_headerSent := True, ab_sent := Some status, ab_out := [ErrorEnvelope typ msg]\<rparr>)
      else finalizeMessage (fold (handleFrame dc newID) (handledFrames s)
             (if fst (sse_frames s) = [] then sendHeader b else b)\<lparr>ab_pending := []\<rparr>))"
proof -
  define b where "b = newAnthropicSSEBridge\<lparr>ab_status := status\<rparr>"
  define s where "s = concat pieces"
  have k: "keeps_pending (fold (handleFrame dc newID) fs)" for fs by (rule keeps_pending_fold) (rule keeps_pending_frame)
  have w: "fold (ab_Write dc newID) [s] b = (fold (handleFrame dc newID) (fst (sse_frames s)) b)\<lparr>ab_pending := snd (sse_frames s)\<rparr>"
    by (simp add: ab_Write_def writeLoop_frames b_def)
  have e: "fst (sse_frames s) = [] \<Longrightarrow> snd (sse_frames s) = s"
    by (subst (asm) sse_frames.simps, subst sse_frames.simps) (auto split: option.splits prod.splits)
  have run: "bridge_run dc newID status pieces = ab_Finalize dc newID (fold (ab_Write dc newID) [s] b)"
    using bridge_run_concat [of dc newID status pieces] by (simp add: bridge_run_def ab_WriteHeader_def b_def s_def)
  show ?thesis
  proof (cases "fst (sse_frames s) = []")
    case True
    then have f: "sse_frames s = ([], s)" using e by (simp add: prod_eq_iff)
    show ?thesis unfolding run w
      by (simp add: ab_Finalize_def s_def [symmetric] b_def handledFrames_def f sendHeader_def Let_def split: prod.split)
        (simp add: newAnthropicSSEBridge_def)
  next
    case False
    obtain fs q where f: "sse_frames s = (fs, q)" by fastforce
    have "ab_headerSent (fold (handleFrame dc newID) (fst (sse_frames s)) b)" using False unfolding b_def by (simp add: handleFrames_headerSent)
    then show ?thesis unfolding run w using False k [unfolded keeps_pending_def] keeps_pending_frame [unfolded keeps_pending_def]
      by (simp add: ab_Finalize_def s_def [symmetric] handledFrames_def f sendHeader_def Let_def b_def)
  qed
qed

lemma handleFrames_views:
  "thinkview.view (fold (handleFrame dc newID) fs b) = thinkview.view b @ concat (map sc_ReasoningContent (concat (map (frameChoices dc) fs)))"
  "textview.view (fold (handleFrame dc newID) fs b) = textview.view b @ concat (map textOf (concat (map (frameChoices dc) fs)))"
  by (induction fs arbitrary: b) (simp_all add: frame_views)

lemma handleFrames_inv:
  "tool_inv calls b \<Longrightarrow> tool_inv (calls @ concat (map sc_ToolCalls (concat (map (frameChoices dc) fs)))) (fold (handleFrame dc newID) fs b)"
proof (induction fs arbitrary: b calls)
  case (Cons fr fs)
  from Cons.IH [OF handleFrame_inv [OF Cons.prems, of dc fr newID]] show ?case by simp
qed simp

lemma tool_inv_new: "ab_toolBlocks b = Map.empty \<Longrightarrow> ab_out b = [] \<Longrightarrow> tool_inv [] b"
  by (simp add: tool_inv_def callsOf_def argview.view_def)

definition thinkingOut :: "anthropic_event list \<Rightarrow> string" where
  "thinkingOut evs = concat (map h_thinking evs)"

definition textOut :: "anthropic_event list \<Rightarrow> string" where
  "textOut evs = concat (map h_text evs)"

definition inputOut :: "int \<Rightarrow> anthropic_event list \<Rightarrow> string" where
  "inputOut i evs = concat (map (h_input i) evs)"

lemma bridge_views:
  fixes dc newID status pieces
  defines "evs \<equiv> ab_out (bridge_run dc newID status pieces)" and "chs \<equiv> streamChoices dc (concat pieces)"
  shows "thinkingOut evs = concat (map sc_ReasoningContent chs) \<and> textOut evs = concat (map textOf chs) \<and>
    (\<exists>blk. inj_on blk {k. callsOf k (concat (map sc_ToolCalls chs)) \<noteq> []} \<and>
       (\<forall>k. callsOf k (concat (map sc_ToolCalls chs)) = [] \<or>
          (let first = hd (callsOf k (concat (map sc_ToolCalls chs)))
           in BlockStart (blk k) (ToolUseBlock (tc_ID first) (toolName first) ''{}'') \<in> set evs) \<and>
          inputOut (blk k) evs = concat (map toolArgs (callsOf k (concat (map sc_ToolCalls chs))))))"
proof -
  define b where "b = newAnthropicSSEBridge\<lparr>ab_status := status\<rparr>"
  define b1 where "b1 = (if fst (sse_frames (concat pieces)) = [] then sendHeader b else b)"
  define r where "r = bridge_run dc newID status pieces"
  have b1: "ab_toolBlocks b1 = Map.empty" "ab_out b1 = []" by (simp_all add: b1_def b_def sendHeader_def)
  have c: "chs = concat (map (frameChoices dc) (handledFrames (concat pieces)))" by (simp add: chs_def streamChoices_def)
  have "thinkview.view r = concat (map sc_ReasoningContent chs) \<and> textview.view r = concat (map textOf chs)
      \<and> tool_inv (concat (map sc_ToolCalls chs)) r"
  proof (cases "fst (sse_frames (concat pieces)) = [] \<and> (status \<ge> 400 \<or> concat pieces \<noteq> [])")
    case True
    then have "chs = []" by (cases "sse_frames (concat pieces)") (simp add: c handledFrames_def)
    moreover have "\<exists>t m. ab_out r = [ErrorEnvelope t m] \<and> ab_toolBlocks r = Map.empty" using True
      by (simp add: r_def bridge_run_frames Let_def split: prod.split)
    ultimately show ?thesis by (auto simp: thinkview.view_def textview.view_def tool_inv_def callsOf_def argview.view_def)
  next
    case False
    then have r: "r = finalizeMessage ((fold (handleFrame dc newID) (handledFrames (concat pieces)) b1)\<lparr>ab_pending := []\<rparr>)"
      unfolding r_def bridge_run_frames by (simp add: Let_def b1_def b_def)
    have "tool_inv (concat (map sc_ToolCalls chs)) (fold (handleFrame dc newID) (handledFrames (concat pieces)) b1)"
      using handleFrames_inv [OF tool_inv_new [OF b1], of dc "handledFrames (concat pieces)" newID] by (simp add: c)
    then have "tool_inv (concat (map sc_ToolCalls chs)) r" unfolding r using neutral_finalize neutral_update(8) tool_inv_neutral by blast
    moreover have "thinkview.view b1 = []" "textview.view b1 = []" using b1 by (simp_all add: thinkview.view_def textview.view_def)
    ultimately show ?thesis by (simp add: r handleFrames_views c)
  qed
  then have v: "thinkview.view r = concat (map sc_ReasoningContent chs)" "textview.view r = concat (map textOf chs)"
    and t: "tool_inv (concat (map sc_ToolCalls chs)) r" by auto
  define blk where "blk k = the (ab_toolBlocks r k)" for k
  have some: "callsOf k (concat (map sc_ToolCalls chs)) \<noteq> [] \<Longrightarrow> ab_toolBlocks r k = Some (blk k)" for k
    using spec [OF conjunct1 [OF t [unfolded tool_inv_def]], of k] by (auto simp: blk_def split: option.splits)
  have inj: "ab_toolBlocks r k = Some i \<Longrightarrow> ab_toolBlocks r k' = Some i \<Longrightarrow> k = k'" for k k' i
    using t unfolding tool_inv_def by blast
  have "inj_on blk {k. callsOf k (concat (map sc_ToolCalls chs)) \<noteq> []}"
  proof (rule inj_onI)
    fix k k' assume "k \<in> {k. callsOf k (concat (map sc_ToolCalls chs)) \<noteq> []}" "k' \<in> {k. callsOf k (concat (map sc_ToolCalls chs)) \<noteq> []}"
      "blk k = blk k'"
    then show "k = k'" using some [of k] some [of k'] inj [of k "blk k" k'] by simp
  qed
  moreover have "callsOf k (concat (map sc_ToolCalls chs)) = [] \<or>
      (let first = hd (callsOf k (concat (map sc_ToolCalls chs))) in BlockStart (blk k) (ToolUseBlock (tc_ID first) (toolName first) ''{}'') \<in> set evs) \<and>
      inputOut (blk k) evs = concat (map toolArgs (callsOf k (concat (map sc_ToolCalls chs))))" for k
    using spec [OF conjunct1 [OF t [unfolded tool_inv_def]], of k] some [of k]
    by (auto simp: evs_def r_def [symmetric] inputOut_def argview.view_def Let_def)
  ultimately show ?thesis using v by (auto simp: evs_def r_def [symmetric] thinkingOut_def textOut_def thinkview.view_def textview.view_def)
qed

text \<open>
  C9. The bridge loses and reorders nothing: the thinking and text deltas of its events concatenate to the reasoning and the text of
  the handled chunks, and every tool index has a block of its own, started with the id and name of its first call, whose argument deltas concatenate to
  the arguments of its calls.
\<close>
theorem bridge_lossless:
  "let evs = ab_out (bridge_run dc newID status pieces); chs = streamChoices dc (concat pieces)
   in thinkingOut evs = concat (map sc_ReasoningContent chs) \<and> textOut evs = concat (map textOf chs) \<and>
      (\<exists>blk. inj_on blk {k. callsOf k (concat (map sc_ToolCalls chs)) \<noteq> []} \<and>
         (\<forall>k. callsOf k (concat (map sc_ToolCalls chs)) = [] \<or>
            (let first = hd (callsOf k (concat (map sc_ToolCalls chs)))
             in BlockStart (blk k) (ToolUseBlock (tc_ID first) (toolName first) ''{}'') \<in> set evs) \<and>
            inputOut (blk k) evs = concat (map toolArgs (callsOf k (concat (map sc_ToolCalls chs))))))"
  using bridge_views [of dc newID status pieces] by (simp only: Let_def)

end
