(* ===== verification/Anthropic_Protocol.thy ===== *)
theory Anthropic_Protocol
  imports Anthropic_Bridge
begin

text \<open>
  The events of the Anthropic bridge form a legal stream: the grammar of the protocol as a checker of event lists, the discipline the upstream must
  keep, and the proof that every disciplined upstream yields a stream the checker accepts up to its end.
\<close>

section \<open>The event protocol\<close>

text \<open>
  The grammar of an Anthropic stream: one message start; blocks numbered from zero, each started once, its deltas between its start
  and its stop; one message delta when all blocks are closed, and the stop.  An error ends the stream at any point before.  Pings and frames that
  are passed on may come anywhere.
\<close>

datatype stream_phase = NotStarted | Streaming | Closing | Ended

type_synonym proto = "stream_phase \<times> int \<times> int set"

fun proto_step :: "anthropic_event \<Rightarrow> proto \<Rightarrow> proto option" where
  "proto_step (MessageStart i m) (ph, n, op) = (if ph = NotStarted then Some (Streaming, n, op) else None)"
| "proto_step (BlockStart i blk) (ph, n, op) = (if ph = Streaming \<and> i = n then Some (Streaming, n + 1, insert i op) else None)"
| "proto_step (BlockDelta i d) (ph, n, op) = (if ph = Streaming \<and> i \<in> op then Some (Streaming, n, op) else None)"
| "proto_step (BlockStop i) (ph, n, op) = (if ph = Streaming \<and> i \<in> op then Some (Streaming, n, op - {i}) else None)"
| "proto_step (MessageDelta s u) (ph, n, op) = (if ph = Streaming \<and> op = {} then Some (Closing, n, op) else None)"
| "proto_step MessageStop (ph, n, op) = (if ph = Closing then Some (Ended, n, op) else None)"
| "proto_step (ErrorEvent t m) (ph, n, op) = (if ph = NotStarted \<or> ph = Streaming then Some (Ended, n, op) else None)"
| "proto_step Ping p = Some p"
| "proto_step (Verbatim f) p = Some p"
| "proto_step (ErrorEnvelope t m) (ph, n, op) = (if ph = NotStarted then Some (Ended, n, op) else None)"

fun proto_run :: "anthropic_event list \<Rightarrow> proto \<Rightarrow> proto option" where
  "proto_run [] p = Some p"
| "proto_run (e # es) p = (case proto_step e p of None \<Rightarrow> None | Some p' \<Rightarrow> proto_run es p')"

lemma proto_run_append: "proto_run (es @ fs) p = (case proto_run es p of None \<Rightarrow> None | Some q \<Rightarrow> proto_run fs q)"
  by (induction es arbitrary: p) (auto split: option.split)

definition conforms :: "stream_phase \<Rightarrow> anthropicSSEBridge \<Rightarrow> bool" where
  "conforms ph b \<longleftrightarrow> proto_run (ab_out b) (NotStarted, 0, {}) = Some (ph, ab_nextIndex b, ab_openBlocks b)"

lemma conforms_forward:
  assumes "conforms ph b" "ab_out c = ab_out b" "proto_step ev (ph, ab_nextIndex b, ab_openBlocks b) = Some (ph', ab_nextIndex c, ab_openBlocks c)"
  shows "conforms ph' (forward ev c)"
  using assms by (simp add: conforms_def proto_run_append)

lemma conforms_cong:
  "conforms ph b \<Longrightarrow> ab_out c = ab_out b \<Longrightarrow> ab_nextIndex c = ab_nextIndex b \<Longrightarrow> ab_openBlocks c = ab_openBlocks b \<Longrightarrow> conforms ph c"
  by (simp add: conforms_def)

text \<open>The blocks the bridge will write to are open.\<close>

definition blocks_ok :: "anthropicSSEBridge \<Rightarrow> bool" where
  "blocks_ok b \<longleftrightarrow>
     0 \<le> ab_nextIndex b \<and> ab_openBlocks b \<subseteq> {0..<ab_nextIndex b}
     \<and> (ab_thinkOpen b \<longrightarrow> ab_thinkIdx b \<in> ab_openBlocks b \<and> (ab_textOpen b \<longrightarrow> ab_textIdx b \<noteq> ab_thinkIdx b) \<and> (\<forall>k. ab_toolBlocks b k \<noteq> Some (ab_thinkIdx b)))
     \<and> (ab_textOpen b \<longrightarrow> ab_textIdx b \<in> ab_openBlocks b)
     \<and> (\<forall>k i. ab_toolBlocks b k = Some i \<longrightarrow> i \<in> ab_openBlocks b)"

lemma closeThinking_ok:
  assumes "blocks_ok b" "conforms Streaming b"
  shows "blocks_ok (closeThinkingBlock b) \<and> conforms Streaming (closeThinkingBlock b)"
proof (cases "ab_thinkOpen b")
  case True
  define c where "c = b\<lparr>ab_thinkOpen := False, ab_openBlocks := ab_openBlocks b - {ab_thinkIdx b}\<rparr>"
  have i: "ab_thinkIdx b \<in> ab_openBlocks b" using assms(1) True by (simp add: blocks_ok_def)
  have "closeThinkingBlock b = forward (BlockStop (ab_thinkIdx b)) (forward (BlockDelta (ab_thinkIdx b) (SignatureDelta bridgeThinkingSignature)) c)"
    using True by (simp add: closeThinkingBlock_def c_def)
  moreover have "ab_out c = ab_out b" "ab_nextIndex c = ab_nextIndex b" "ab_openBlocks c = ab_openBlocks b - {ab_thinkIdx b}" by (simp_all add: c_def)
  ultimately have "conforms Streaming (closeThinkingBlock b)" using assms(2) i by (simp add: conforms_def proto_run_append)
  moreover have "blocks_ok (closeThinkingBlock b)" using assms(1) True by (auto simp: blocks_ok_def)
  ultimately show ?thesis by simp
next
  case False
  then show ?thesis using assms by (simp add: closeThinkingBlock_def)
qed

lemma closeBlocks_ok:
  "conforms Streaming b \<Longrightarrow> conforms Streaming (fold closeBlock is b)"
proof (induction "is" arbitrary: b)
  case (Cons i "is")
  have "conforms Streaming (closeBlock i b)" using Cons.prems by (simp add: closeBlock_def conforms_def proto_run_append)
  then show ?case using Cons.IH by simp
qed simp

lemma closeOpen_ok:
  assumes "blocks_ok b" "conforms Streaming b"
  shows "conforms Streaming (closeOpenBlocks b) \<and> ab_openBlocks (closeOpenBlocks b) = {}"
proof -
  have "ab_openBlocks (closeThinkingBlock b) \<subseteq> {0..<ab_nextIndex b}" using closeThinking_ok [OF assms] by (simp add: blocks_ok_def)
  then have "ab_openBlocks (closeThinkingBlock b) - set [0..ab_nextIndex b - 1] = {}" by auto
  then show ?thesis using closeThinking_ok [OF assms] closeBlocks_ok by (auto simp: closeOpenBlocks_def Let_def simp del: closeThinkingBlock_fields(10))
qed

lemma openBlock_ok:
  assumes "conforms Streaming b" "ab_out c = ab_out b" "ab_nextIndex c = ab_nextIndex b" "ab_openBlocks c = ab_openBlocks b"
  shows "conforms Streaming (openBlock blk c)"
  using assms by (simp add: conforms_def proto_run_append)

lemma delta_ok: "conforms Streaming b \<Longrightarrow> i \<in> ab_openBlocks b \<Longrightarrow> conforms Streaming (forward (BlockDelta i d) b)"
  by (simp add: conforms_def proto_run_append)

lemma blocks_ok_forward [simp]: "blocks_ok (forward ev b) = blocks_ok b"
  by (simp add: blocks_ok_def)

lemma emitThinking_ok:
  assumes "blocks_ok b" "conforms Streaming b"
  shows "blocks_ok (emitThinkingDelta t b) \<and> conforms Streaming (emitThinkingDelta t b)"
proof -
  define b1 where "b1 = b\<lparr>ab_sawContent := True\<rparr>"
  define b2 where "b2 = (if ab_thinkOpen b1 then b1
                else openBlock (ThinkingBlock '''' '''') (b1\<lparr>ab_thinkOpen := True, ab_thinkIdx := ab_nextIndex b1\<rparr>))"
  have "emitThinkingDelta t b = forward (BlockDelta (ab_thinkIdx b2) (ThinkingDelta t)) b2"
    by (simp add: emitThinkingDelta_def b1_def b2_def Let_def)
  moreover have "conforms Streaming b2"
    using assms(2) by (auto simp: b2_def b1_def intro: openBlock_ok conforms_cong)
  moreover have ok: "blocks_ok b2" using assms(1) by (fastforce simp: b2_def b1_def blocks_ok_def)
  moreover have "ab_thinkOpen b2" by (simp add: b2_def)
  then have "ab_thinkIdx b2 \<in> ab_openBlocks b2" using ok by (simp add: blocks_ok_def)
  ultimately show ?thesis by (simp add: delta_ok)
qed

lemma emitText_ok:
  assumes "blocks_ok b" "conforms Streaming b"
  shows "blocks_ok (emitTextDelta t b) \<and> conforms Streaming (emitTextDelta t b)"
proof -
  define b0 where "b0 = b\<lparr>ab_sawContent := True\<rparr>"
  define b1 where "b1 = closeThinkingBlock b0"
  define b2 where "b2 = (if ab_textOpen b1 then b1
                else openBlock (TextBlock '''') (b1\<lparr>ab_textOpen := True, ab_textIdx := ab_nextIndex b1\<rparr>))"
  have "emitTextDelta t b = forward (BlockDelta (ab_textIdx b2) (TextDelta t)) b2"
    by (simp add: emitTextDelta_def b0_def b1_def b2_def Let_def)
  moreover have "blocks_ok b0" "conforms Streaming b0" using assms by (auto simp: b0_def blocks_ok_def conforms_def)
  then have b1: "blocks_ok b1" "conforms Streaming b1" "\<not> ab_thinkOpen b1" using closeThinking_ok by (auto simp: b1_def)
  then have "conforms Streaming b2" by (auto simp: b2_def intro: openBlock_ok)
  moreover have ok: "blocks_ok b2" using b1(1,3) by (fastforce simp: b2_def blocks_ok_def)
  moreover have "ab_textOpen b2" by (simp add: b2_def)
  then have "ab_textIdx b2 \<in> ab_openBlocks b2" using ok by (simp add: blocks_ok_def)
  ultimately show ?thesis by (simp add: delta_ok)
qed

lemma emitTool_ok:
  assumes "blocks_ok b" "conforms Streaming b"
  shows "blocks_ok (emitToolDelta tc b) \<and> conforms Streaming (emitToolDelta tc b)"
proof -
  define b0 where "b0 = b\<lparr>ab_sawContent := True\<rparr>"
  define b1 where "b1 = closeThinkingBlock b0"
  define i where "i = (case ab_toolBlocks b1 (tc_Index tc) of Some j \<Rightarrow> j | None \<Rightarrow> ab_nextIndex b1)"
  define b2 where "b2 = (case ab_toolBlocks b1 (tc_Index tc) of Some j \<Rightarrow> b1
    | None \<Rightarrow> openBlock (ToolUseBlock (tc_ID tc) (toolName tc) ''{}'') (b1\<lparr>ab_toolBlocks := (ab_toolBlocks b1)(tc_Index tc \<mapsto> ab_nextIndex b1)\<rparr>))"
  have e: "emitToolDelta tc b = (if toolArgs tc \<noteq> '''' then forward (BlockDelta i (InputJsonDelta (toolArgs tc))) b2 else b2)"
    by (simp add: emitToolDelta_def b0_def b1_def b2_def i_def Let_def split: option.split)
  have "blocks_ok b0" "conforms Streaming b0" using assms by (auto simp: b0_def blocks_ok_def conforms_def)
  then have b1: "blocks_ok b1" "conforms Streaming b1" "\<not> ab_thinkOpen b1" using closeThinking_ok by (auto simp: b1_def)
  then have "conforms Streaming b2" by (auto simp: b2_def intro: openBlock_ok split: option.split)
  moreover have "blocks_ok b2" using b1(1,3) by (fastforce simp: b2_def blocks_ok_def split: option.split if_splits)
  moreover have "i \<in> ab_openBlocks b2" using b1(1) by (auto simp: b2_def i_def blocks_ok_def split: option.split)
  ultimately show ?thesis by (simp add: e delta_ok)
qed

lemma emitTools_ok:
  "blocks_ok b \<Longrightarrow> conforms Streaming b \<Longrightarrow> blocks_ok (fold emitToolDelta tcs b) \<and> conforms Streaming (fold emitToolDelta tcs b)"
  by (induction tcs arbitrary: b) (simp_all add: emitTool_ok)

section \<open>Disciplined upstreams\<close>

text \<open>
  An upstream is disciplined when nothing but empty deltas follows a finish reason and no chunk follows the end marker or an error.
\<close>

datatype upstream = Sending | Finished | Terminal

definition hasContent :: "stream_choice \<Rightarrow> bool" where
  "hasContent ch \<longleftrightarrow> sc_ReasoningContent ch \<noteq> '''' \<or> textOf ch \<noteq> '''' \<or> sc_ToolCalls ch \<noteq> []"

fun choices_step :: "stream_choice list \<Rightarrow> upstream \<Rightarrow> upstream option" where
  "choices_step [] u = Some u"
| "choices_step (ch # chs) u =
     (if hasContent ch \<and> u = Finished then None else choices_step chs (if finishOf ch \<noteq> '''' then Finished else u))"

fun upstream_step :: "frame_kind \<Rightarrow> upstream \<Rightarrow> upstream option" where
  "upstream_step PassOn u = Some u"
| "upstream_step DoneMark u = Some Terminal"
| "upstream_step (ErrorChunk e) u = (if u = Terminal then None else Some Terminal)"
| "upstream_step (Chunk ck) u = (if u = Terminal then None else choices_step (ck_Choices ck) u)"

fun upstream_run :: "frame_kind list \<Rightarrow> upstream \<Rightarrow> upstream option" where
  "upstream_run [] u = Some u"
| "upstream_run (k # ks) u = (case upstream_step k u of None \<Rightarrow> None | Some u' \<Rightarrow> upstream_run ks u')"

definition disciplined :: "decoders \<Rightarrow> string \<Rightarrow> bool" where
  "disciplined dc s \<longleftrightarrow> upstream_run (map (frameKind dc) (handledFrames s)) Sending \<noteq> None"

definition live :: "upstream \<Rightarrow> anthropicSSEBridge \<Rightarrow> bool" where
  "live u b \<longleftrightarrow> \<not> ab_stopped b \<and> \<not> ab_errEmitted b \<and> (u = Sending \<longrightarrow> blocks_ok b)
     \<and> (u = Finished \<longrightarrow> ab_openBlocks b = {} \<and> \<not> ab_thinkOpen b)"

fun bridge_inv :: "upstream \<Rightarrow> anthropicSSEBridge \<Rightarrow> bool" where
  "bridge_inv Terminal b \<longleftrightarrow> (ab_stopped b \<or> ab_errEmitted b) \<and> conforms Ended b"
| "bridge_inv u b \<longleftrightarrow> live u b \<and> (ab_sawContent b \<longrightarrow> ab_msgID b \<noteq> []) \<and> conforms (if ab_msgID b = [] then NotStarted else Streaming) b"

lemma emit_flags [simp]:
  "ab_stopped (emitThinkingDelta t b) = ab_stopped b" "ab_errEmitted (emitThinkingDelta t b) = ab_errEmitted b" "ab_msgID (emitThinkingDelta t b) = ab_msgID b"
  "ab_stopped (emitTextDelta t b) = ab_stopped b" "ab_errEmitted (emitTextDelta t b) = ab_errEmitted b" "ab_msgID (emitTextDelta t b) = ab_msgID b"
  "ab_stopped (emitToolDelta tc b) = ab_stopped b" "ab_errEmitted (emitToolDelta tc b) = ab_errEmitted b" "ab_msgID (emitToolDelta tc b) = ab_msgID b"
  by (simp_all add: emitThinkingDelta_def emitTextDelta_def emitToolDelta_def Let_def split: option.split)

lemma emitTools_flags [simp]:
  "ab_stopped (fold emitToolDelta tcs b) = ab_stopped b" "ab_errEmitted (fold emitToolDelta tcs b) = ab_errEmitted b"
  "ab_msgID (fold emitToolDelta tcs b) = ab_msgID b"
  by (induction tcs arbitrary: b) simp_all

lemma handleChoice_flags [simp]:
  "ab_stopped (handleChoice ch b) = ab_stopped b" "ab_errEmitted (handleChoice ch b) = ab_errEmitted b" "ab_msgID (handleChoice ch b) = ab_msgID b"
  by (simp_all add: handleChoice_def Let_def)

lemma handleChoices_flags [simp]:
  "ab_stopped (fold handleChoice chs b) = ab_stopped b" "ab_errEmitted (fold handleChoice chs b) = ab_errEmitted b"
  "ab_msgID (fold handleChoice chs b) = ab_msgID b"
  by (induction chs arbitrary: b) simp_all

lemma closeOpen_noop: "ab_openBlocks b = {} \<Longrightarrow> \<not> ab_thinkOpen b \<Longrightarrow> closeOpenBlocks b = b"
  by (simp add: closeOpenBlocks_def closeThinkingBlock_def)

lemma handleChoice_ok:
  assumes "live u b" "conforms Streaming b" "u \<noteq> Terminal" "\<not> (hasContent ch \<and> u = Finished)"
  shows "live (if finishOf ch \<noteq> '''' then Finished else u) (handleChoice ch b) \<and> conforms Streaming (handleChoice ch b)"
proof (cases u)
  case Sending
  define b1 where "b1 = (if sc_ReasoningContent ch \<noteq> '''' then emitThinkingDelta (sc_ReasoningContent ch) b else b)"
  define b2 where "b2 = (if textOf ch \<noteq> '''' then emitTextDelta (textOf ch) b1 else b1)"
  define b3 where "b3 = (fold emitToolDelta (sc_ToolCalls ch) b2)"
  have "blocks_ok b1 \<and> conforms Streaming b1" using assms(1,2) Sending emitThinking_ok by (simp add: b1_def live_def)
  then have "blocks_ok b2 \<and> conforms Streaming b2" using emitText_ok by (simp add: b2_def)
  then have b3: "blocks_ok b3" "conforms Streaming b3" using emitTools_ok by (simp_all add: b3_def)
  have f: "\<not> ab_stopped b3" "\<not> ab_errEmitted b3" using assms(1) by (simp_all add: b3_def b2_def b1_def live_def)
  define c where "c = b3\<lparr>ab_stopReason := anthropicStopReasonFromOpenAI (finishOf ch)\<rparr>"
  have "blocks_ok c" "conforms Streaming c" "\<not> ab_stopped c" "\<not> ab_errEmitted c" using b3 f by (simp_all add: c_def blocks_ok_def conforms_def)
  then have "live Finished (closeOpenBlocks c)" "conforms Streaming (closeOpenBlocks c)" using closeOpen_ok by (auto simp: live_def)
  moreover have "handleChoice ch b = (if finishOf ch \<noteq> '''' then closeOpenBlocks c else b3)"
    by (simp add: handleChoice_def Let_def b1_def b2_def b3_def c_def)
  ultimately show ?thesis using b3 f Sending by (simp add: live_def)
next
  case Finished
  then have n: "sc_ReasoningContent ch = ''''" "textOf ch = ''''" "sc_ToolCalls ch = []" using assms(4) by (auto simp: hasContent_def)
  have "live Finished (b\<lparr>ab_stopReason := s\<rparr>) \<and> conforms Streaming (b\<lparr>ab_stopReason := s\<rparr>)" for s
    using assms(1,2) Finished by (auto simp: live_def conforms_def)
  then show ?thesis using n assms(1,2) Finished by (simp add: handleChoice_def Let_def closeOpen_noop live_def)
next
  case Terminal
  then show ?thesis using assms(3) by simp
qed

lemma handleChoices_ok:
  "live u b \<Longrightarrow> conforms Streaming b \<Longrightarrow> u \<noteq> Terminal \<Longrightarrow> choices_step chs u = Some u' \<Longrightarrow>
     live u' (fold handleChoice chs b) \<and> conforms Streaming (fold handleChoice chs b) \<and> u' \<noteq> Terminal"
proof (induction chs arbitrary: u b)
  case (Cons ch chs)
  define v where "v = (if finishOf ch \<noteq> '''' then Finished else u)"
  have n: "\<not> (hasContent ch \<and> u = Finished)" and s: "choices_step chs v = Some u'" using Cons.prems(4) by (auto simp: v_def split: if_splits)
  have "v \<noteq> Terminal" using Cons.prems(3) by (simp add: v_def)
  then show ?case using Cons.IH [of v "handleChoice ch b"] s handleChoice_ok [OF Cons.prems(1-3) n] unfolding v_def by simp
qed simp

lemma handleChunk_ok:
  assumes "bridge_inv u b" "u \<noteq> Terminal" "newID \<noteq> []" "choices_step (ck_Choices ck) u = Some u'"
  shows "bridge_inv u' (handleChunk newID ck b)"
proof -
  define b1 where "b1 = ensureMessageStart newID (ck_ID ck) (ck_Model ck) b"
  have i: "live u b" "conforms (if ab_msgID b = [] then NotStarted else Streaming) b" using assms(1,2) by (cases u; simp)+
  have b1: "live u b1" "conforms Streaming b1" "ab_msgID b1 \<noteq> []"
    using i assms(3) by (auto simp: b1_def ensureMessageStart_def live_def blocks_ok_def conforms_def proto_run_append Let_def split: if_splits)
  define b2 where "b2 = noteUsage (ck_Usage ck) b1"
  have b2: "live u b2" "conforms Streaming b2" "ab_msgID b2 \<noteq> []"
    using b1 by (auto simp: b2_def noteUsage_def live_def blocks_ok_def conforms_def Let_def split: option.split)
  define b3 where "b3 = fold handleChoice (ck_Choices ck) b2"
  have b3: "live u' b3" "conforms Streaming b3" "u' \<noteq> Terminal" "ab_msgID b3 \<noteq> []"
    using handleChoices_ok [OF b2(1,2) assms(2,4)] b2(3) by (simp_all add: b3_def)
  then have "live u' (forward Ping b3)" "conforms Streaming (forward Ping b3)" by (simp_all add: live_def conforms_def proto_run_append)
  moreover have "handleChunk newID ck b = (if \<not> list_ex choiceEmits (ck_Choices ck) \<and> ck_Choices ck \<noteq> [] then forward Ping b3 else b3)"
    by (simp add: handleChunk_def b1_def b2_def b3_def Let_def)
  ultimately show ?thesis using b3 by (cases u') auto
qed

lemma finalize_ok:
  assumes "bridge_inv u b"
  shows "bridge_inv Terminal (finalizeMessage b) \<and> ab_stopped (finalizeMessage b)"
proof (cases "ab_stopped b \<or> ab_errEmitted b")
  case True
  then have "conforms Ended b" using assms by (cases u) (auto simp: live_def)
  then show ?thesis using True by (auto simp: finalizeMessage_def conforms_def Let_def)
next
  case False
  then have u: "u = Sending \<or> u = Finished" using assms by (cases u) auto
  then have l: "live u b" "ab_sawContent b \<longrightarrow> ab_msgID b \<noteq> []" "conforms (if ab_msgID b = [] then NotStarted else Streaming) b" using assms by auto
  define c where "c = b\<lparr>ab_stopped := True\<rparr>"
  show ?thesis
  proof (cases "ab_sawContent b")
    case True
    then have "conforms Streaming c" using l by (auto simp: c_def conforms_def)
    then have d: "conforms Streaming (closeOpenBlocks c)" "ab_openBlocks (closeOpenBlocks c) = {}"
      using u l(1) closeOpen_ok [of c] closeOpen_noop [of c] by (auto simp: live_def c_def blocks_ok_def)
    then show ?thesis using False True by (simp add: finalizeMessage_def Let_def c_def [symmetric] conforms_def proto_run_append) (simp add: c_def)
  next
    case no: False
    then show ?thesis using False l(3)
      by (auto simp: finalizeMessage_def emitError_def Let_def conforms_def proto_run_append split: if_splits)
  qed
qed

lemma handleFrame_ok:
  assumes "bridge_inv u b" "newID \<noteq> []" "upstream_step (frameKind dc fr) u = Some u'"
  shows "bridge_inv u' (handleFrame dc newID fr b)"
proof (cases "frameKind dc fr")
  case PassOn
  then have "u' = u" using assms(3) by simp
  then show ?thesis using assms(1) PassOn by (cases u) (auto simp: handleFrame_def forwardVerbatim_def live_def conforms_def proto_run_append)
next
  case DoneMark
  then show ?thesis using assms(1,3) finalize_ok by (auto simp: handleFrame_def)
next
  case (ErrorChunk e)
  then have "u \<noteq> Terminal" "u' = Terminal" using assms(3) by (auto split: if_splits)
  then show ?thesis using assms(1) ErrorChunk by (cases u) (auto simp: handleFrame_def emitError_def conforms_def proto_run_append split: if_splits)
next
  case (Chunk ck)
  then show ?thesis using assms handleChunk_ok by (auto simp: handleFrame_def split: if_splits)
qed

lemma handleFrames_ok:
  "bridge_inv u b \<Longrightarrow> newID \<noteq> [] \<Longrightarrow> upstream_run (map (frameKind dc) fs) u = Some u' \<Longrightarrow> bridge_inv u' (fold (handleFrame dc newID) fs b)"
proof (induction fs arbitrary: u b)
  case (Cons fr fs)
  then obtain v where "upstream_step (frameKind dc fr) u = Some v" "upstream_run (map (frameKind dc) fs) v = Some u'"
    by (auto split: option.splits)
  then show ?case using Cons.IH [of v "handleFrame dc newID fr b"] handleFrame_ok [OF Cons.prems(1,2)] Cons.prems(2) by simp
qed simp

text \<open>
  C8. Every disciplined upstream is turned into a complete legal Anthropic stream: one message start, blocks numbered from zero and started once, deltas only of
  open blocks, every block closed before the one message delta and stop; or it ends with an error event, or is an error envelope alone.
\<close>
theorem bridge_protocol:
  assumes "newID \<noteq> []" and "disciplined dc (concat pieces)"
  shows "\<exists>n op. proto_run (ab_out (bridge_run dc newID status pieces)) (NotStarted, 0, {}) = Some (Ended, n, op)"
proof (cases "fst (sse_frames (concat pieces)) = [] \<and> (status \<ge> 400 \<or> concat pieces \<noteq> [])")
  case True
  have "\<exists>t m. ab_out (bridge_run dc newID status pieces) = [ErrorEnvelope t m]"
    using True by (simp add: bridge_run_frames Let_def split: prod.split)
  then show ?thesis by auto
next
  case False
  define b where "b = (if fst (sse_frames (concat pieces)) = [] then sendHeader (newAnthropicSSEBridge\<lparr>ab_status := status\<rparr>)
    else newAnthropicSSEBridge\<lparr>ab_status := status\<rparr>)"
  have r: "bridge_run dc newID status pieces = finalizeMessage ((fold (handleFrame dc newID) (handledFrames (concat pieces)) b)\<lparr>ab_pending := []\<rparr>)"
    using False by (simp only: bridge_run_frames Let_def b_def if_False)
  have "bridge_inv Sending b" by (simp add: b_def sendHeader_def live_def blocks_ok_def conforms_def)
  then obtain u where "bridge_inv u (fold (handleFrame dc newID) (handledFrames (concat pieces)) b)"
    using assms handleFrames_ok [of Sending b newID dc] by (auto simp: disciplined_def)
  then have "bridge_inv u ((fold (handleFrame dc newID) (handledFrames (concat pieces)) b)\<lparr>ab_pending := []\<rparr>)"
    by (cases u) (auto simp: live_def blocks_ok_def conforms_def)
  from finalize_ok [OF this] show ?thesis unfolding r by (auto simp: conforms_def)
qed

text \<open>A chunk with a word, then a finishing chunk, then the end marker.\<close>

definition sample_choice :: "string \<Rightarrow> string option \<Rightarrow> stream_choice" where
  "sample_choice t fin = \<lparr>sc_Content = ContentString t, sc_ReasoningContent = [], sc_ToolCalls = [], sc_FinishReason = fin\<rparr>"

definition sample_decoders :: "stream_choice list \<Rightarrow> decoders" where
  "sample_decoders chs =
     \<lparr>dc_chunk = (\<lambda>s. if s = ''a'' then Some \<lparr>ck_ID = ''i'', ck_Model = ''m'', ck_Choices = [sample_choice ''x'' None], ck_Usage = None, ck_Error = None\<rparr>
                      else if s = ''b'' then Some \<lparr>ck_ID = ''i'', ck_Model = ''m'', ck_Choices = chs, ck_Usage = None, ck_Error = None\<rparr>
                      else None),
      dc_completion = (\<lambda>s. None), dc_errorField = (\<lambda>s. None), dc_detail = (\<lambda>s. None), dc_valid = (\<lambda>s. True)\<rparr>"

definition sample_stream :: "string list" where
  "sample_stream = [''data: a'' @ blankLine, ''data: b'' @ blankLine, ''data: [DONE]'' @ blankLine]"

lemma sample_disciplined: "disciplined (sample_decoders [sample_choice [] (Some ''stop'')]) (concat sample_stream)"
  by code_simp

theorem bridge_protocol_witness:
  "\<exists>n op. proto_run (ab_out (bridge_run (sample_decoders [sample_choice [] (Some ''stop'')]) ''msg_1'' 200 sample_stream)) (NotStarted, 0, {})
     = Some (Ended, n, op)"
  by (rule bridge_protocol [OF _ sample_disciplined]) simp

text \<open>
  With two choices in a chunk, one that finishes and one that goes on, the bridge writes a delta of a block it has closed: closing the blocks does
  not reset \<open>ab_textOpen\<close> and the table of tool blocks.
\<close>

lemma bridge_writes_closed_block:
  "proto_run (ab_out (bridge_run (sample_decoders [sample_choice [] (Some ''stop''), sample_choice ''y'' None]) ''msg_1'' 200 sample_stream)) (NotStarted, 0, {})
     = None"
  by code_simp

section \<open>Completions\<close>

text \<open>
  A completion becomes a message exactly when it decodes, carries no error, has a status below 400 and at least one block, and all its tool
  arguments are JSON; a message is never empty.
\<close>

lemma completion_message_iff:
  "openAICompletionToAnthropicMessage dc newID raw status = (MessageBody r, st) \<longleftrightarrow>
     st = status \<and> status < 400 \<and> (\<exists>cc. dc_completion dc raw = Some cc \<and> bc_Error cc = None \<and> r = completionMessage newID cc
       \<and> ar_Content r \<noteq> [] \<and> marshals dc (ar_Content r))"
proof -
  have e: "errorBody dc raw status \<noteq> MessageBody r" "noContentError \<noteq> MessageBody r" for r
    by (simp_all add: errorBody_def noContentError_def split: prod.split)
  show ?thesis
    by (auto simp: openAICompletionToAnthropicMessage_def e e [symmetric] Let_def completionMessage_def split: option.split list.splits)
qed

text \<open>Arguments that are no JSON, as in a completion that was cut at its token limit, are answered with an error body under the status of success.\<close>

lemma malformed_arguments_status:
  assumes "dc_completion dc raw = Some cc" "bc_Error cc = None" "status < 400" "ar_Content (completionMessage newID cc) \<noteq> []"
    "\<not> marshals dc (ar_Content (completionMessage newID cc))"
  shows "\<exists>t m. openAICompletionToAnthropicMessage dc newID raw status = (ErrorBody t m, status)"
  using assms by (auto simp: openAICompletionToAnthropicMessage_def errorBody_def completionMessage_def Let_def split: prod.split list.splits)

end
