(* ===== verification/Model_Identity.thy ===== *)
theory Model_Identity
  imports Engine_Routing
begin

text \<open>
  Model names: aliases and qualified ids (\<^verbatim>\<open>config/models_config.go\<close>), and the lock that pins a request to the backend its qualified id names
  (\<^verbatim>\<open>server/model_identity.go\<close>), as the chat handlers compose them with the decision of the engine.

  The pool of providers is the pair of predicates the lock reads: which names are local, and which are built.
\<close>

section \<open>Resolution\<close>

record ResolvedModel =
  rm_Requested :: string
  rm_Bare :: string
  rm_Backend :: string
  rm_AliasHops :: "(string \<times> string) list"

definition Qualified :: "ResolvedModel \<Rightarrow> string" where
  "Qualified r = (if rm_Backend r = '''' then rm_Bare r else rm_Backend r @ ''/'' @ rm_Bare r)"

definition maxAliasHops :: nat where
  "maxAliasHops = 3"

fun aliasLoop :: "nat \<Rightarrow> (string \<Rightarrow> string option) \<Rightarrow> string \<Rightarrow> (string \<times> string) list \<Rightarrow> string \<times> (string \<times> string) list" where
  "aliasLoop 0 aliases cur hops = (cur, hops)"
| "aliasLoop (Suc n) aliases cur hops =
     (case aliases cur of
        None \<Rightarrow> (cur, hops)
      | Some target \<Rightarrow>
          if TrimSpace target = '''' \<or> target = cur then (cur, hops)
          else aliasLoop n aliases (TrimSpace target) (hops @ [(cur, target)]))"

text \<open>What precedes and follows the first slash, when there is one.\<close>

fun indexSlash :: "string \<Rightarrow> nat option" where
  "indexSlash [] = None"
| "indexSlash (c # s) = (if c = CHR ''/'' then Some 0 else map_option Suc (indexSlash s))"

definition splitQualified :: "(string \<Rightarrow> bool) \<Rightarrow> string \<Rightarrow> (string \<times> string) option" where
  "splitQualified backends cur =
     (case indexSlash cur of
        None \<Rightarrow> None
      | Some idx \<Rightarrow>
          if idx > 0 \<and> idx < length cur - 1 \<and> backends (take idx cur) then Some (take idx cur, drop (idx + 1) cur) else None)"

definition ResolveModel :: "string \<Rightarrow> (string \<Rightarrow> bool) \<Rightarrow> (string \<Rightarrow> string option) \<Rightarrow> ResolvedModel" where
  "ResolveModel raw backends aliases =
     (case aliasLoop maxAliasHops aliases (TrimSpace raw) [] of
        (cur, hops) \<Rightarrow>
          (case splitQualified backends cur of
             None \<Rightarrow> \<lparr>rm_Requested = TrimSpace raw, rm_Bare = cur, rm_Backend = '''', rm_AliasHops = hops\<rparr>
           | Some (backend, bare) \<Rightarrow> \<lparr>rm_Requested = TrimSpace raw, rm_Bare = bare, rm_Backend = backend, rm_AliasHops = hops\<rparr>))"

datatype models_error = EmptyAlias string string | EmptySupplyModel

definition validateModels :: "(string \<times> string) list \<Rightarrow> (string \<times> string list) list \<Rightarrow> models_error option" where
  "validateModels aliases supply =
     (case filter (\<lambda>(a, t). TrimSpace a = '''' \<or> TrimSpace t = '''') aliases of
        (a, t) # _ \<Rightarrow> Some (EmptyAlias a t)
      | [] \<Rightarrow> if list_ex (\<lambda>(m, bs). TrimSpace m = '''') supply then Some EmptySupplyModel else None)"

section \<open>The lock\<close>

record pool =
  po_local :: "string \<Rightarrow> bool"
  po_built :: "string \<Rightarrow> bool"

definition applyQualifiedModelLock :: "Config \<Rightarrow> pool \<Rightarrow> ResolvedModel \<Rightarrow> RouteDecision \<Rightarrow> RouteDecision" where
  "applyQualifiedModelLock cfg p res d =
     (if rm_Backend res = '''' then d
      else if po_local p (rm_Backend res) then
        (if rd_Backend d = LocalBackend then d\<lparr>rd_Reason := ''qualified_lock:'' @ rd_Reason d\<rparr>
         else decision LocalBackend (''qualified_lock:'' @ rd_Reason d))
      else if \<not> modelAllowedByCloudList (rm_Bare res) (rc_CloudModels (cfg_Routing cfg)) then d
      else if \<not> po_built p (rm_Backend res) then
        (decision CloudBackend ''qualified_lock_unknown_backend'')\<lparr>rd_Rejected := True, rd_RejectDetail := UnknownBackendDetail\<rparr>
      else if rd_Backend d = CloudBackend \<and> rd_CloudTarget d = rm_Backend res then d\<lparr>rd_Reason := ''qualified_lock:'' @ rd_Reason d\<rparr>
      else (decision CloudBackend (''qualified_lock:'' @ rd_Reason d))\<lparr>rd_CloudTarget := rm_Backend res\<rparr>)"

text \<open>
  From the requested name to the decision the chat handler acts on: resolution, the rewriting for the language hint and the BNUP mode (an argument), the
  engine unless the request is multimodal, the lock, and only then the check for a rejection.
\<close>

definition chatDecision ::
    "time \<Rightarrow> 'c ClusterSelector \<Rightarrow> Config \<Rightarrow> TokenBudget option \<Rightarrow> pool \<Rightarrow> (string \<Rightarrow> bool) \<Rightarrow> (string \<Rightarrow> string option) \<Rightarrow>
       (string \<Rightarrow> string) \<Rightarrow> RouteDecision option \<Rightarrow> string \<Rightarrow> string \<Rightarrow> string \<Rightarrow> 'c Engine \<Rightarrow> 'c Engine \<times> (RouteDecision + RouteDecision)" where
  "chatDecision now cs cfg budget p backends aliases rewrite multimodal raw txt space e =
     (let res = ResolveModel raw backends aliases;
          req = \<lparr>rq_Model = rewrite (rm_Bare res), rq_Text = txt, rq_Type = RequestTypeChat, rq_SpaceID = space\<rparr>;
          (e1, d) = (case multimodal of Some m \<Rightarrow> (e, m) | None \<Rightarrow> Decide now cs cfg budget req e);
          d1 = applyQualifiedModelLock cfg p res d
      in (e1, if rd_Rejected d1 then Inl d1 else Inr d1))"

section \<open>Names\<close>

lemma indexSlash_split: "indexSlash s = Some i \<Longrightarrow> i < length s \<and> s = take i s @ ''/'' @ drop (i + 1) s \<and> CHR ''/'' \<notin> set (take i s)"
  by (induction s arbitrary: i) (auto split: if_splits)

lemma indexSlash_append: "CHR ''/'' \<notin> set b \<Longrightarrow> indexSlash (b @ CHR ''/'' # m) = Some (length b)"
  by (induction b) auto

lemma splitQualified_join:
  "splitQualified backends cur = Some (b, m) \<Longrightarrow> cur = b @ ''/'' @ m \<and> b \<noteq> [] \<and> m \<noteq> [] \<and> backends b \<and> CHR ''/'' \<notin> set b"
proof -
  assume a: "splitQualified backends cur = Some (b, m)"
  then obtain i where i: "indexSlash cur = Some i" "0 < i" "i < length cur - 1" "backends (take i cur)" "b = take i cur" "m = drop (i + 1) cur"
    by (auto simp: splitQualified_def split: option.splits if_splits)
  note sp = indexSlash_split [OF i(1)]
  have "cur = b @ ''/'' @ m" using sp unfolding i(5,6) by blast
  moreover have "b \<noteq> []" "m \<noteq> []" using i(2,3) unfolding i(5,6) by auto
  ultimately show ?thesis using sp i(4) unfolding i(5) by simp
qed

lemma splitQualified_of_join:
  "b \<noteq> [] \<Longrightarrow> m \<noteq> [] \<Longrightarrow> backends b \<Longrightarrow> CHR ''/'' \<notin> set b \<Longrightarrow> splitQualified backends (b @ ''/'' @ m) = Some (b, m)"
  by (simp add: splitQualified_def indexSlash_append)

lemma TrimSpace_idem [simp]: "TrimSpace (TrimSpace s) = TrimSpace s"
proof -
  define t where "t = dropWhile is_space s"
  have "dropWhile is_space (rev (dropWhile is_space (rev t))) = rev (dropWhile is_space (rev t))"
  proof (cases "dropWhile is_space (rev t)")
    case Nil
    show ?thesis unfolding Nil by simp
  next
    case (Cons c cs)
    obtain ws where ws: "rev t = ws @ dropWhile is_space (rev t)" by (metis takeWhile_dropWhile_id)
    then have "t = rev (dropWhile is_space (rev t)) @ rev ws" by (metis rev_append rev_rev_ident)
    moreover have "rev (dropWhile is_space (rev t)) \<noteq> []" using Cons by simp
    moreover have "t \<noteq> [] \<Longrightarrow> \<not> is_space (hd t)" using hd_dropWhile [of is_space s] by (simp add: t_def)
    ultimately have "\<not> is_space (hd (rev (dropWhile is_space (rev t))))" by (metis append_is_Nil_conv hd_append2)
    then show ?thesis using Cons by (metis dropWhile_eq_self_iff)
  qed
  moreover have "dropWhile is_space (dropWhile is_space (rev t)) = dropWhile is_space (rev t)" by (simp add: dropWhile_idem)
  ultimately show ?thesis by (simp add: TrimSpace_def t_def)
qed

lemma aliasLoop_trimmed: "TrimSpace cur = cur \<Longrightarrow> TrimSpace (fst (aliasLoop n aliases cur hops)) = fst (aliasLoop n aliases cur hops)"
  by (induction n arbitrary: cur hops) (auto split: option.split)

lemma aliasLoop_hops: "length (snd (aliasLoop n aliases cur hops)) \<le> length hops + n"
proof (induction n arbitrary: cur hops)
  case (Suc n)
  show ?case using Suc [of "TrimSpace (the (aliases cur))" "hops @ [(cur, the (aliases cur))]"] by (auto split: option.split)
qed simp

definition settled :: "(string \<Rightarrow> string option) \<Rightarrow> string \<Rightarrow> bool" where
  "settled aliases cur \<longleftrightarrow> (case aliases cur of None \<Rightarrow> True | Some t \<Rightarrow> TrimSpace t = '''' \<or> t = cur)"

lemma aliasLoop_settled: "settled aliases cur \<Longrightarrow> aliasLoop n aliases cur hops = (cur, hops)"
  by (cases n) (auto simp: settled_def split: option.splits)

lemma ResolveModel_Qualified: "Qualified (ResolveModel raw backends aliases) = fst (aliasLoop maxAliasHops aliases (TrimSpace raw) [])"
  using splitQualified_join [of backends "fst (aliasLoop maxAliasHops aliases (TrimSpace raw) [])"]
  by (auto simp: ResolveModel_def Qualified_def split: prod.split option.split)

text \<open>
  Resolution is bounded and stable: at most three aliases are followed, a pinned backend is configured, and when the chain of aliases has ended the
  qualified form of the result resolves to the same backend and model again.
\<close>
theorem resolve_model_stable:
  assumes "settled aliases (Qualified (ResolveModel raw backends aliases))"
  shows "let r = ResolveModel raw backends aliases; r' = ResolveModel (Qualified r) backends aliases
    in length (rm_AliasHops r) \<le> maxAliasHops \<and> (if rm_Backend r = '''' then True else backends (rm_Backend r))
       \<and> rm_Backend r' = rm_Backend r \<and> rm_Bare r' = rm_Bare r"
proof -
  define cur where "cur = fst (aliasLoop maxAliasHops aliases (TrimSpace raw) [])"
  obtain hops where a: "aliasLoop maxAliasHops aliases (TrimSpace raw) [] = (cur, hops)" by (metis cur_def prod.collapse)
  have q: "Qualified (ResolveModel raw backends aliases) = cur" by (simp add: ResolveModel_Qualified cur_def)
  have t: "TrimSpace cur = cur" unfolding cur_def by (rule aliasLoop_trimmed) simp
  have s: "aliasLoop maxAliasHops aliases cur [] = (cur, [])" using assms q by (simp add: aliasLoop_settled)
  have h: "length hops \<le> maxAliasHops" using aliasLoop_hops [of maxAliasHops aliases "TrimSpace raw" "[]"] a by simp
  show ?thesis unfolding Let_def q using h splitQualified_join [of backends cur]
    by (simp add: ResolveModel_def a s t split: option.split)
qed

theorem resolve_model_stable_witness:
  "rm_Backend (ResolveModel (Qualified (ResolveModel '' fast'' (\<lambda>b. b = ''glm'') [''fast'' \<mapsto> ''glm/glm-5''])) (\<lambda>b. b = ''glm'') [''fast'' \<mapsto> ''glm/glm-5'']) = ''glm''"
proof -
  have r: "ResolveModel '' fast'' (\<lambda>b. b = ''glm'') [''fast'' \<mapsto> ''glm/glm-5'']
      = \<lparr>rm_Requested = ''fast'', rm_Bare = ''glm-5'', rm_Backend = ''glm'', rm_AliasHops = [(''fast'', ''glm/glm-5'')]\<rparr>"
    by code_simp
  have "settled [''fast'' \<mapsto> ''glm/glm-5''] (Qualified (ResolveModel '' fast'' (\<lambda>b. b = ''glm'') [''fast'' \<mapsto> ''glm/glm-5'']))"
    unfolding r by (simp add: settled_def Qualified_def)
  from resolve_model_stable [OF this] show ?thesis by (simp add: Let_def r)
qed

section \<open>Pinned requests\<close>

text \<open>
  A qualified id is never served by another cloud backend: it goes to the backend it names, or, for a model the cloud list keeps local, as the engine
  decided; an id that names a backend that is not built is rejected.
\<close>

lemma qualified_lock_cases:
  assumes "rm_Backend res \<noteq> ''''"
  shows "let d1 = applyQualifiedModelLock cfg p res d in
     if po_local p (rm_Backend res) then rd_Backend d1 = LocalBackend
     else if modelAllowedByCloudList (rm_Bare res) (rc_CloudModels (cfg_Routing cfg))
     then rd_Backend d1 = CloudBackend \<and> (if po_built p (rm_Backend res) then rd_CloudTarget d1 = rm_Backend res else rd_Rejected d1)
     else d1 = d"
  using assms by (simp add: applyQualifiedModelLock_def decision_def)

text \<open>
  C7. The lock overrides the safety guard.  A chat request that the classifier flags as blocked is rejected by the engine, but when its model is a
  qualified id of a built cloud backend whose model the cloud list allows, the lock replaces the rejection by a fresh decision before the handler looks at it, and the
  request is dispatched to that backend.
\<close>
theorem qualified_model_bypasses_guard:
  assumes "ResolveModel raw backends aliases = res" and "rm_Backend res \<noteq> ''''"
    and "\<not> po_local p (rm_Backend res)" and "po_built p (rm_Backend res)"
    and "modelAllowedByCloudList (rm_Bare res) (rc_CloudModels (cfg_Routing cfg))"
    and "req = \<lparr>rq_Model = rewrite (rm_Bare res), rq_Text = txt, rq_Type = RequestTypeChat, rq_SpaceID = space\<rparr>"
    and "rc_IntentEnabled (cfg_Routing cfg)" and "heuristicResult cfg req (rs_heuristicClassifier (e_wiring e)) = None"
    and "rs_classifier (e_wiring e) = Some c" and "c req = Inr (Some r)"
    and "ir_Intent r \<noteq> IntentUnknown" and "ir_Params r ''_guard_blocked'' = Some ''true''"
  shows "rd_Rejected (snd (Decide now cs cfg budget req e)) \<and>
    (\<exists>d. chatDecision now cs cfg budget p backends aliases rewrite None raw txt space e = (e, Inr d)
       \<and> rd_Backend d = CloudBackend \<and> rd_CloudTarget d = rm_Backend res)"
proof -
  have "rq_Type req = RequestTypeChat" using assms(6) by simp
  from guard_decides [OF this assms(7-12), of now cs budget] have g: "Decide now cs cfg budget req e = (e, guardDecision r)" .
  then show ?thesis using assms(2-5)
    by (simp add: chatDecision_def Let_def assms(1) assms(6) [symmetric] applyQualifiedModelLock_def guardDecision_def decision_def)
qed

theorem qualified_model_bypasses_guard_witness:
  "\<exists>d. chatDecision 5 noSelector cfg_example None \<lparr>po_local = (\<lambda>n. False), po_built = (\<lambda>n. n = ''glm'')\<rparr> (\<lambda>n. n = ''glm'') Map.empty id None
        ''glm/glm-5'' ''how do I ...'' '''' (SetIntentClassifier (Some blocker) e_example) = (SetIntentClassifier (Some blocker) e_example, Inr d)
       \<and> rd_CloudTarget d = ''glm''"
proof -
  let ?e = "SetIntentClassifier (Some blocker) e_example"
  let ?req = "\<lparr>rq_Model = id ''glm-5'', rq_Text = ''how do I ...'', rq_Type = RequestTypeChat, rq_SpaceID = ''''\<rparr>"
  have r: "ResolveModel ''glm/glm-5'' (\<lambda>n. n = ''glm'') Map.empty = \<lparr>rm_Requested = ''glm/glm-5'', rm_Bare = ''glm-5'', rm_Backend = ''glm'', rm_AliasHops = []\<rparr>"
    by code_simp
  obtain b where b: "blocker ?req = Inr (Some b)" "ir_Intent b \<noteq> IntentUnknown" "ir_Params b ''_guard_blocked'' = Some ''true''"
    by (simp add: blocker_def)
  have w: "heuristicResult cfg_example ?req (rs_heuristicClassifier (e_wiring ?e)) = None" "rs_classifier (e_wiring ?e) = Some blocker"
    "rc_IntentEnabled (cfg_Routing cfg_example)" "modelAllowedByCloudList ''glm-5'' (rc_CloudModels (cfg_Routing cfg_example))"
    by (simp_all add: example_defs heuristicResult_def modelAllowedByCloudList_def)
  have "rd_Rejected (snd (Decide 5 noSelector cfg_example None ?req ?e)) \<and>
    (\<exists>d. chatDecision 5 noSelector cfg_example None \<lparr>po_local = (\<lambda>n. False), po_built = (\<lambda>n. n = ''glm'')\<rparr> (\<lambda>n. n = ''glm'') Map.empty id None
        ''glm/glm-5'' ''how do I ...'' '''' ?e = (?e, Inr d) \<and> rd_Backend d = CloudBackend \<and> rd_CloudTarget d = ''glm'')"
    by (rule qualified_model_bypasses_guard [where res = "\<lparr>rm_Requested = ''glm/glm-5'', rm_Bare = ''glm-5'', rm_Backend = ''glm'', rm_AliasHops = []\<rparr>"
          and c = blocker and r = b, simplified])
      (use r b w in simp_all)
  then show ?thesis by blast
qed

end
