(* ===== verification/Config_Loading.thy ===== *)
theory Config_Loading
  imports Gateway_Prelude
begin

text \<open>
  How the configuration file becomes a snapshot (\<^verbatim>\<open>Load\<close> and \<^verbatim>\<open>Reload\<close> of \<^verbatim>\<open>config/config.go\<close>, the normalization of
  \<^verbatim>\<open>config/models_config.go\<close>), and how a broken file is recovered from its last good copy (\<^verbatim>\<open>config/guard.go\<close>).

  The configuration has the sections these steps touch; the others are the component \<open>gc_rest\<close> of any type.  The decoding of YAML by viper with its
  environment bindings, the environment, the decryption and the validation rules are the record \<open>loader\<close>, arbitrary functions in every statement.
  The disk is a map from paths to contents; faults of a write or a rename are arguments.
\<close>

section \<open>Backends\<close>

record BackendConfig =
  be_Type :: string
  be_BaseURL :: string
  be_APIKey :: string
  be_APIKeyEnv :: string
  be_Timeout :: duration

definition vendorDefaults :: "string \<Rightarrow> (string \<times> duration) option" where
  "vendorDefaults = map_of
     [(''anthropic'', ''https://api.anthropic.com'', 60 * second),
      (''openai'', ''https://api.openai.com/v1'', 60 * second),
      (''deepseek'', ''https://api.deepseek.com/v1'', 60 * second),
      (''dashscope'', ''https://dashscope.aliyuncs.com/compatible-mode/v1'', 60 * second),
      (''baichuan'', ''https://api.baichuan-ai.com/v1'', 60 * second),
      (''moonshot'', ''https://api.moonshot.cn/v1'', 60 * second),
      (''minimax'', ''https://api.minimax.chat/v1'', 60 * second),
      (''hunyuan'', ''https://api.hunyuan.cloud.tencent.com/v1'', 60 * second),
      (''qianfan'', ''https://aip.baidubce.com/rpc/2.0/ai_custom/v1/wenxinworkshop'', 120 * second),
      (''glm'', ''https://api.z.ai'', 60 * second),
      (''lingyiwanwu'', ''https://api.lingyiwanwu.com/v1'', 60 * second),
      (''siliconflow'', ''https://api.siliconflow.cn/v1'', 60 * second),
      (''openrouter'', ''https://openrouter.ai/api/v1'', 60 * second)]"

definition legacyEnvAliases :: "string \<Rightarrow> string list" where
  "legacyEnvAliases n = (if n = ''FUSION_CLIENT_KEY'' then [''FUSION_MLX_API_KEY'', ''FUSION_API_KEY''] else [])"

fun firstSet :: "(string \<Rightarrow> string) \<Rightarrow> string list \<Rightarrow> string" where
  "firstSet env [] = ''''"
| "firstSet env (n # ns) = (if TrimSpace (env n) \<noteq> '''' then TrimSpace (env n) else firstSet env ns)"

definition keyFromEnv :: "(string \<Rightarrow> string) \<Rightarrow> string \<Rightarrow> string" where
  "keyFromEnv env n = (let v = TrimSpace (env n) in if v = '''' then firstSet env (legacyEnvAliases n) else v)"

definition normalizeBackend :: "(string \<Rightarrow> string) \<Rightarrow> BackendConfig \<Rightarrow> BackendConfig" where
  "normalizeBackend env be =
     (let b1 = (if be_APIKeyEnv be \<noteq> '''' \<and> TrimSpace (be_APIKey be) = '''' \<and> keyFromEnv env (be_APIKeyEnv be) \<noteq> ''''
                then be\<lparr>be_APIKey := keyFromEnv env (be_APIKeyEnv be)\<rparr> else be);
          b2 = (if be_BaseURL b1 = '''' then (case vendorDefaults (ToLower (be_Type b1)) of Some (u, t) \<Rightarrow> b1\<lparr>be_BaseURL := u\<rparr> | None \<Rightarrow> b1) else b1)
      in if be_Timeout b2 = 0 then (case vendorDefaults (ToLower (be_Type b2)) of Some (u, t) \<Rightarrow> b2\<lparr>be_Timeout := t\<rparr> | None \<Rightarrow> b2) else b2)"

definition normalizeBackends :: "(string \<Rightarrow> string) \<Rightarrow> (string \<times> BackendConfig) list \<Rightarrow> (string \<times> BackendConfig) list" where
  "normalizeBackends env bs = map (\<lambda>(n, be). (n, normalizeBackend env be)) bs"

section \<open>Loading\<close>

record 'r GwConfig =
  gc_Backends :: "(string \<times> BackendConfig) list"
  gc_Supply :: "(string \<times> string list) list"
  gc_Aliases :: "(string \<times> string) list"
  gc_EncryptionKey :: "string option"
  gc_ServiceKeys :: "string \<Rightarrow> string option"
  gc_rest :: 'r

record 'r ConfigSnapshot =
  sn_Config :: "'r GwConfig"
  sn_Version :: nat

text \<open>
  \<open>ld_parses\<close>: the bytes are YAML; \<open>ld_fileKey\<close>: the key of the local backend written in the file; \<open>ld_unmarshal\<close>: the decoded
  configuration over the defaults; \<open>ld_models\<close>: the models section read directly (\<open>None\<close> when that parse fails, \<open>Some None\<close> when it is
  absent); \<open>ld_valid\<close>: the validation rules; \<open>ld_environ\<close>: the process environment in order; \<open>ld_decrypt\<close>: decryption
  under a key.
\<close>

record 'r loader =
  ld_parses :: "string \<Rightarrow> bool"
  ld_fileKey :: "string \<Rightarrow> string option"
  ld_unmarshal :: "string \<Rightarrow> 'r GwConfig option"
  ld_models :: "string \<Rightarrow> ((string \<times> string list) list \<times> (string \<times> string) list) option option"
  ld_valid :: "'r GwConfig \<Rightarrow> bool"
  ld_env :: "string \<Rightarrow> string"
  ld_environ :: "(string \<times> string) list"
  ld_decrypt :: "string \<Rightarrow> string \<Rightarrow> string option"

datatype load_error = ReadFailed | KeySourceConflict | UnmarshalFailed | Invalid | BadCipherKey | DecryptFailed string

definition checkFusionMLXKeySource :: "'r loader \<Rightarrow> string \<Rightarrow> bool" where
  "checkFusionMLXKeySource ld raw =
     (let mlxEnv = TrimSpace (ld_env ld ''FUSION_MLX_API_KEY'')
      in \<not> (mlxEnv \<noteq> '''' \<and> (case ld_fileKey ld raw of None \<Rightarrow> False | Some k \<Rightarrow> k \<noteq> mlxEnv)))"

definition serviceModule :: "string \<Rightarrow> string option" where
  "serviceModule n =
     (if HasPrefix n ''FUSION_SERVICE_KEY_''
      then Some (map (\<lambda>c. if c = CHR ''_'' then CHR ''-'' else c) (ToLower (drop (length ''FUSION_SERVICE_KEY_'') n))) else None)"

definition overlayServiceKeyEnvs :: "(string \<times> string) list \<Rightarrow> 'r GwConfig \<Rightarrow> 'r GwConfig" where
  "overlayServiceKeyEnvs environ cfg =
     fold (\<lambda>(n, v) c. case serviceModule n of
         Some m \<Rightarrow> if v = '''' \<or> m = '''' then c else c\<lparr>gc_ServiceKeys := (gc_ServiceKeys c)(m \<mapsto> v)\<rparr>
       | None \<Rightarrow> c) environ cfg"

definition loadModelsNamespace :: "'r loader \<Rightarrow> string \<Rightarrow> 'r GwConfig \<Rightarrow> 'r GwConfig" where
  "loadModelsNamespace ld raw cfg =
     (case ld_models ld raw of
        None \<Rightarrow> cfg
      | Some None \<Rightarrow> cfg\<lparr>gc_Supply := [], gc_Aliases := []\<rparr>
      | Some (Some (supply, aliases)) \<Rightarrow> cfg\<lparr>gc_Supply := supply, gc_Aliases := aliases\<rparr>)"

definition encPrefix :: string where
  "encPrefix = ''enc:''"

definition cipherKeyOk :: "string \<Rightarrow> bool" where
  "cipherKeyOk k \<longleftrightarrow> length k \<ge> 32"

fun decryptKeys :: "(string \<Rightarrow> string option) \<Rightarrow> (string \<times> BackendConfig) list \<Rightarrow> load_error + (string \<times> BackendConfig) list" where
  "decryptKeys dec [] = Inr []"
| "decryptKeys dec ((n, be) # bs) =
     (if be_APIKey be = '''' \<or> \<not> HasPrefix (be_APIKey be) encPrefix
      then (case decryptKeys dec bs of Inl e \<Rightarrow> Inl e | Inr r \<Rightarrow> Inr ((n, be) # r))
      else
        (case dec (drop (length encPrefix) (be_APIKey be)) of
           None \<Rightarrow> Inl (DecryptFailed n)
         | Some plain \<Rightarrow> (case decryptKeys dec bs of Inl e \<Rightarrow> Inl e | Inr r \<Rightarrow> Inr ((n, be\<lparr>be_APIKey := plain\<rparr>) # r))))"

definition decryptBackendAPIKeys :: "'r loader \<Rightarrow> 'r GwConfig \<Rightarrow> load_error + 'r GwConfig" where
  "decryptBackendAPIKeys ld cfg =
     (case gc_EncryptionKey cfg of
        None \<Rightarrow> Inr cfg
      | Some k \<Rightarrow>
          if k = '''' then Inr cfg
          else if \<not> cipherKeyOk k then Inl BadCipherKey
          else (case decryptKeys (ld_decrypt ld k) (gc_Backends cfg) of Inl e \<Rightarrow> Inl e | Inr bs \<Rightarrow> Inr (cfg\<lparr>gc_Backends := bs\<rparr>)))"

definition normalizeConfig :: "'r loader \<Rightarrow> 'r GwConfig \<Rightarrow> 'r GwConfig" where
  "normalizeConfig ld cfg = cfg\<lparr>gc_Backends := normalizeBackends (ld_env ld) (gc_Backends cfg)\<rparr>"

text \<open>What the bytes of a file load to, at a start and at a reload.\<close>

definition loadConfig :: "'r loader \<Rightarrow> string \<Rightarrow> load_error + 'r GwConfig" where
  "loadConfig ld raw =
     (if \<not> ld_parses ld raw then Inl ReadFailed
      else if \<not> checkFusionMLXKeySource ld raw then Inl KeySourceConflict
      else
        (case ld_unmarshal ld raw of
           None \<Rightarrow> Inl UnmarshalFailed
         | Some c0 \<Rightarrow>
             (let cfg = normalizeConfig ld (loadModelsNamespace ld raw (overlayServiceKeyEnvs (ld_environ ld) c0))
              in if \<not> ld_valid ld cfg then Inl Invalid else decryptBackendAPIKeys ld cfg)))"

definition reloadConfig :: "'r loader \<Rightarrow> string \<Rightarrow> load_error + 'r GwConfig" where
  "reloadConfig ld raw =
     (if \<not> ld_parses ld raw then Inl ReadFailed
      else if \<not> checkFusionMLXKeySource ld raw then Inl KeySourceConflict
      else
        (case ld_unmarshal ld raw of
           None \<Rightarrow> Inl UnmarshalFailed
         | Some c0 \<Rightarrow>
             (let cfg = normalizeConfig ld (loadModelsNamespace ld raw c0)
              in if \<not> ld_valid ld cfg then Inl Invalid else Inr cfg)))"

type_synonym disk = "string \<Rightarrow> string option"

text \<open>
  The process: its current snapshot, the version counter, and the pairs of snapshots the reload handlers were called with.
\<close>

record 'r process =
  pc_snap :: "'r ConfigSnapshot option"
  pc_version :: nat
  pc_applied :: "('r ConfigSnapshot \<times> 'r ConfigSnapshot) list"

definition GetSnapshot :: "'r GwConfig \<Rightarrow> 'r process \<Rightarrow> 'r ConfigSnapshot" where
  "GetSnapshot dflt p = (case pc_snap p of Some s \<Rightarrow> s | None \<Rightarrow> \<lparr>sn_Config = dflt, sn_Version = 0\<rparr>)"

definition readFile :: "disk \<Rightarrow> string \<Rightarrow> (string \<Rightarrow> load_error + 'a) \<Rightarrow> load_error + 'a" where
  "readFile d path f = (case d path of None \<Rightarrow> Inl ReadFailed | Some raw \<Rightarrow> f raw)"

definition Load :: "'r loader \<Rightarrow> disk \<Rightarrow> string \<Rightarrow> 'r process \<Rightarrow> 'r process \<times> (load_error + 'r ConfigSnapshot)" where
  "Load ld d path p =
     (case readFile d path (loadConfig ld) of
        Inl e \<Rightarrow> (p, Inl e)
      | Inr cfg \<Rightarrow>
          (let s = \<lparr>sn_Config = cfg, sn_Version = pc_version p + 1\<rparr>
           in (p\<lparr>pc_version := pc_version p + 1, pc_snap := Some s\<rparr>, Inr s)))"

definition Reload :: "'r loader \<Rightarrow> 'r GwConfig \<Rightarrow> disk \<Rightarrow> string \<Rightarrow> 'r process \<Rightarrow> 'r process \<times> (load_error + 'r ConfigSnapshot)" where
  "Reload ld dflt d path p =
     (case readFile d path (reloadConfig ld) of
        Inl e \<Rightarrow> (p, Inl e)
      | Inr cfg \<Rightarrow>
          (let s = \<lparr>sn_Config = cfg, sn_Version = pc_version p + 1\<rparr>
           in (p\<lparr>pc_version := pc_version p + 1, pc_applied := pc_applied p @ [(GetSnapshot dflt p, s)], pc_snap := Some s\<rparr>, Inr s)))"

section \<open>The guard\<close>

definition LastGoodPath :: "string \<Rightarrow> string" where
  "LastGoodPath path = path @ ''.lastgood''"

definition quarantinePath :: "string \<Rightarrow> string \<Rightarrow> string" where
  "quarantinePath path ts = path @ ''.corrupt-'' @ ts"

datatype write_step = CreateTemp | WriteTemp | SyncTemp | CloseTemp | ChmodTemp | RenameTemp

record faults =
  ft_write :: "write_step option"
  ft_rename :: bool
  ft_read :: "string \<Rightarrow> bool"

definition noFaults :: faults where
  "noFaults = \<lparr>ft_write = None, ft_rename = False, ft_read = (\<lambda>path. False)\<rparr>"

text \<open>A write that fails at any of its steps removes its temporary file and leaves the target as it was.\<close>

definition atomicWrite :: "faults \<Rightarrow> string \<Rightarrow> string \<Rightarrow> disk \<Rightarrow> disk \<times> bool" where
  "atomicWrite ft path data d = (case ft_write ft of Some st \<Rightarrow> (d, False) | None \<Rightarrow> (d(path \<mapsto> data), True))"

definition BackupFile :: "faults \<Rightarrow> string \<Rightarrow> disk \<Rightarrow> disk \<times> bool" where
  "BackupFile ft path d =
     (case d path of
        None \<Rightarrow> (d, True)
      | Some raw \<Rightarrow>
          if ft_read ft path then (d, False)
          else if d (LastGoodPath path) = Some raw \<and> \<not> ft_read ft (LastGoodPath path) then (d, True)
          else atomicWrite ft (LastGoodPath path) raw d)"

definition quarantine :: "faults \<Rightarrow> string \<Rightarrow> string \<Rightarrow> disk \<Rightarrow> disk \<times> bool" where
  "quarantine ft ts path d =
     (case d path of
        None \<Rightarrow> (d, False)
      | Some raw \<Rightarrow> if ft_rename ft then (d, False) else (d(path := None, quarantinePath path ts \<mapsto> raw), True))"

datatype guard_error =
  NoBackup load_error | BackupBroken load_error load_error | BackupUnreadable | QuarantineFailed load_error | RestoreFailed

definition LoadWithRecovery ::
    "'r loader \<Rightarrow> faults \<Rightarrow> string \<Rightarrow> string \<Rightarrow> disk \<Rightarrow> 'r process \<Rightarrow> disk \<times> 'r process \<times> (guard_error + 'r ConfigSnapshot)" where
  "LoadWithRecovery ld ft ts path d p =
     (case Load ld d path p of
        (p1, Inr s) \<Rightarrow> (fst (BackupFile ft path d), p1, Inr s)
      | (p1, Inl e) \<Rightarrow>
          (case d (LastGoodPath path) of
             None \<Rightarrow> (d, p1, Inl (NoBackup e))
           | Some bakRaw \<Rightarrow>
               (case Load ld d (LastGoodPath path) p1 of
                  (p2, Inl e2) \<Rightarrow> (d, p2, Inl (BackupBroken e e2))
                | (p2, Inr s) \<Rightarrow>
                    if ft_read ft (LastGoodPath path) then (d, p2, Inl BackupUnreadable)
                    else
                      (case quarantine ft ts path d of
                         (d1, False) \<Rightarrow> (d1, p2, Inl (QuarantineFailed e))
                       | (d1, True) \<Rightarrow>
                           (case atomicWrite ft path bakRaw d1 of
                              (d2, False) \<Rightarrow> (d2, p2, Inl RestoreFailed)
                            | (d2, True) \<Rightarrow> (d2, p2, Inr s))))))"

definition ReloadWithRecovery ::
    "'r loader \<Rightarrow> 'r GwConfig \<Rightarrow> faults \<Rightarrow> string \<Rightarrow> string \<Rightarrow> disk \<Rightarrow> 'r process \<Rightarrow> disk \<times> 'r process \<times> (load_error + 'r ConfigSnapshot)" where
  "ReloadWithRecovery ld dflt ft ts path d p =
     (case Reload ld dflt d path p of
        (p1, Inr s) \<Rightarrow> (d, p1, Inr s)
      | (p1, Inl e) \<Rightarrow>
          (case d (LastGoodPath path) of
             None \<Rightarrow> (d, p1, Inl e)
           | Some bakRaw \<Rightarrow>
               (case Reload ld dflt d (LastGoodPath path) p1 of
                  (p2, Inl e2) \<Rightarrow> (d, p2, Inl e)
                | (p2, Inr s) \<Rightarrow>
                    if ft_read ft (LastGoodPath path) then (d, p2, Inr s)
                    else
                      (case quarantine ft ts path d of
                         (d1, False) \<Rightarrow> (d1, p2, Inr s)
                       | (d1, True) \<Rightarrow> (fst (atomicWrite ft path bakRaw d1), p2, Inr s)))))"

text \<open>The disk after each system call of a recovery: a crash may leave any of these states.\<close>

definition recoveryStates :: "string \<Rightarrow> string \<Rightarrow> string \<Rightarrow> string \<Rightarrow> string \<Rightarrow> disk \<Rightarrow> disk list" where
  "recoveryStates tmp ts path raw bakRaw d =
     (let d1 = d(path := None, quarantinePath path ts \<mapsto> raw)
      in [d, d1, d1(tmp \<mapsto> ''''), d1(tmp \<mapsto> bakRaw), d1(path \<mapsto> bakRaw)])"

section \<open>Recovery\<close>

lemma guard_paths [simp]:
  "LastGoodPath path \<noteq> path" "path \<noteq> LastGoodPath path" "quarantinePath path ts \<noteq> path" "path \<noteq> quarantinePath path ts"
  "quarantinePath path ts \<noteq> LastGoodPath path" "LastGoodPath path \<noteq> quarantinePath path ts"
  by (simp_all add: LastGoodPath_def quarantinePath_def)

lemma noFaults_ops [simp]:
  "atomicWrite noFaults path data d = (d(path \<mapsto> data), True)"
  "quarantine noFaults ts path d = (case d path of None \<Rightarrow> (d, False) | Some raw \<Rightarrow> (d(path := None, quarantinePath path ts \<mapsto> raw), True))"
  "ft_read noFaults path = False"
  by (simp_all add: atomicWrite_def quarantine_def noFaults_def split: option.split)

lemma BackupFile_noFaults: "d path = Some raw \<Longrightarrow> BackupFile noFaults path d = (d(LastGoodPath path \<mapsto> raw), True)"
  by (auto simp: BackupFile_def)

definition loads :: "'r loader \<Rightarrow> string \<Rightarrow> bool" where
  "loads ld raw \<longleftrightarrow> (case loadConfig ld raw of Inl e \<Rightarrow> False | Inr cfg \<Rightarrow> True)"

definition servedConfig :: "(guard_error + 'r ConfigSnapshot) \<Rightarrow> 'r GwConfig option" where
  "servedConfig r = (case r of Inl e \<Rightarrow> None | Inr s \<Rightarrow> Some (sn_Config s))"

lemma LoadWithRecovery_good:
  assumes "d path = Some raw" "loadConfig ld raw = Inr cfg"
  shows "\<exists>p'. LoadWithRecovery ld noFaults ts path d p
           = (d(LastGoodPath path \<mapsto> raw), p', Inr \<lparr>sn_Config = cfg, sn_Version = pc_version p + 1\<rparr>)"
  using assms by (simp add: LoadWithRecovery_def Load_def readFile_def BackupFile_noFaults Let_def)

lemma LoadWithRecovery_broken:
  assumes "d path = Some raw" "loadConfig ld raw = Inl e"
  shows "\<exists>p'. LoadWithRecovery ld noFaults ts path d p =
     (case d (LastGoodPath path) of
        None \<Rightarrow> (d, p', Inl (NoBackup e))
      | Some g \<Rightarrow>
          (case loadConfig ld g of
             Inl e2 \<Rightarrow> (d, p', Inl (BackupBroken e e2))
           | Inr cfg \<Rightarrow> (d(quarantinePath path ts \<mapsto> raw, path \<mapsto> g), p', Inr \<lparr>sn_Config = cfg, sn_Version = pc_version p + 1\<rparr>)))"
proof -
  have "d(path := None, quarantinePath path ts \<mapsto> raw, path \<mapsto> g) = d(quarantinePath path ts \<mapsto> raw, path \<mapsto> g)" for g
    by (auto simp: fun_eq_iff)
  then show ?thesis using assms
    by (auto simp: LoadWithRecovery_def Load_def readFile_def Let_def split: option.split sum.split)
qed

text \<open>With an up-to-date copy a start writes nothing: it succeeds in the same way when every write and rename fails.\<close>

lemma LoadWithRecovery_again:
  assumes "d path = Some raw" "d (LastGoodPath path) = Some raw" "loadConfig ld raw = Inr cfg" "\<And>f. \<not> ft_read ft f"
  shows "BackupFile ft path d = (d, True)"
    and "\<exists>p3 r2. LoadWithRecovery ld ft ts path d p = (d, p3, r2) \<and> servedConfig r2 = Some cfg"
proof -
  show b: "BackupFile ft path d = (d, True)" using assms by (simp add: BackupFile_def)
  show "\<exists>p3 r2. LoadWithRecovery ld ft ts path d p = (d, p3, r2) \<and> servedConfig r2 = Some cfg"
    using assms(1,3) by (simp add: LoadWithRecovery_def Load_def readFile_def Let_def b servedConfig_def)
qed

lemma LoadWithRecovery_missing:
  assumes "d path = None"
  shows "\<exists>p' e. LoadWithRecovery ld ft ts path d p = (d, p', Inl e)"
  using assms by (auto simp: LoadWithRecovery_def Load_def readFile_def quarantine_def Let_def split: option.split sum.split)

lemma start_recovers_present:
  fixes ld :: "'r loader"
  assumes "d path = Some raw"
  shows "let (d1, p1, r1) = LoadWithRecovery ld noFaults ts path d p in
      ((\<exists>s. r1 = Inr s) \<longleftrightarrow> loads ld raw \<or> (\<exists>g. d (LastGoodPath path) = Some g \<and> loads ld g))
      \<and> (\<exists>f. d1 f = Some raw)
      \<and> (if \<exists>s. r1 = Inr s
         then \<exists>raw' cfg. servedConfig r1 = Some cfg \<and> d1 path = Some raw' \<and> d1 (LastGoodPath path) = Some raw' \<and> loadConfig ld raw' = Inr cfg
         else d1 = d)"
proof (cases "loadConfig ld raw")
  case (Inr cfg)
  obtain p' where e: "LoadWithRecovery ld noFaults ts path d p = (d(LastGoodPath path \<mapsto> raw), p', Inr \<lparr>sn_Config = cfg, sn_Version = pc_version p + 1\<rparr>)"
    using LoadWithRecovery_good [of d path raw ld cfg ts p] assms Inr by blast
  have "(d(LastGoodPath path \<mapsto> raw)) path = Some raw" using assms by simp
  then show ?thesis using Inr by (auto simp: e loads_def servedConfig_def)
next
  case (Inl e)
  obtain p' where r: "LoadWithRecovery ld noFaults ts path d p =
     (case d (LastGoodPath path) of
        None \<Rightarrow> (d, p', Inl (NoBackup e))
      | Some g \<Rightarrow>
          (case loadConfig ld g of
             Inl e2 \<Rightarrow> (d, p', Inl (BackupBroken e e2))
           | Inr cfg \<Rightarrow> (d(quarantinePath path ts \<mapsto> raw, path \<mapsto> g), p', Inr \<lparr>sn_Config = cfg, sn_Version = pc_version p + 1\<rparr>)))"
    using LoadWithRecovery_broken [of d path raw ld e ts p] assms Inl by blast
  show ?thesis
  proof (cases "\<exists>g cfg. d (LastGoodPath path) = Some g \<and> loadConfig ld g = Inr cfg")
    case True
    then obtain g cfg where g: "d (LastGoodPath path) = Some g" "loadConfig ld g = Inr cfg" by blast
    define d1 where "d1 = d(quarantinePath path ts \<mapsto> raw, path \<mapsto> g)"
    have "d1 path = Some g" "d1 (LastGoodPath path) = Some g" using g(1) by (auto simp: d1_def)
    moreover have "\<exists>f. d1 f = Some raw" by (rule exI [of _ "quarantinePath path ts"]) (simp add: d1_def)
    ultimately show ?thesis using g Inl by (auto simp: r d1_def [symmetric] loads_def servedConfig_def)
  next
    case False
    then show ?thesis using Inl assms by (auto simp: r loads_def split: option.split sum.split)
  qed
qed

text \<open>
  C37. A start on a disk without faults succeeds exactly when the configuration file is there and it or its last good copy loads; a missing file is fatal, also with a good copy.
  The bytes of the file are still on the disk afterwards, and a failed start leaves the disk as it was.  After a successful start the next one serves the same configuration
  and writes nothing: file and copy agree, so it succeeds although every write and rename may fail, and its refresh of the copy reports no error.
\<close>
theorem start_recovers:
  fixes ld :: "'r loader"
  shows "let (d1, p1, r1) = LoadWithRecovery ld noFaults ts path d p in
      ((\<exists>s. r1 = Inr s) \<longleftrightarrow> (\<exists>raw. d path = Some raw \<and> (loads ld raw \<or> (\<exists>g. d (LastGoodPath path) = Some g \<and> loads ld g))))
      \<and> (\<forall>raw. d path = Some raw \<longrightarrow> (\<exists>f. d1 f = Some raw))
      \<and> (if \<exists>s. r1 = Inr s
         then servedConfig r1 \<noteq> None \<and>
           (\<forall>ts2 p2 ft. (\<forall>f. \<not> ft_read ft f) \<longrightarrow> BackupFile ft path d1 = (d1, True) \<and>
              (\<exists>p3 r2. LoadWithRecovery ld ft ts2 path d1 p2 = (d1, p3, r2) \<and> servedConfig r2 = servedConfig r1))
         else d1 = d)"
proof (cases "d path")
  case None
  then show ?thesis using LoadWithRecovery_missing [of d path ld noFaults ts p] by (auto simp: Let_def)
next
  case (Some raw)
  obtain d1 p1 r1 where r: "LoadWithRecovery ld noFaults ts path d p = (d1, p1, r1)" by (metis prod_cases3)
  note s = start_recovers_present [of d path raw ld ts p, OF Some, unfolded r Let_def case_prod_conv]
  have "BackupFile ft path d1 = (d1, True) \<and> (\<exists>p3 r2. LoadWithRecovery ld ft ts2 path d1 p2 = (d1, p3, r2) \<and> servedConfig r2 = servedConfig r1)"
    if ok: "\<exists>s. r1 = Inr s" and rd: "\<forall>f. \<not> ft_read ft f" for ts2 p2 ft
  proof -
    obtain raw' cfg where c: "servedConfig r1 = Some cfg" "d1 path = Some raw'" "d1 (LastGoodPath path) = Some raw'" "loadConfig ld raw' = Inr cfg"
      using s ok by auto
    show ?thesis using LoadWithRecovery_again(1) [OF c(2-4), of ft] LoadWithRecovery_again(2) [OF c(2-4), of ft ts2 p2] rd c(1) by simp
  qed
  moreover have "(\<exists>s. r1 = Inr s) \<Longrightarrow> servedConfig r1 \<noteq> None" by (auto simp: servedConfig_def)
  ultimately show ?thesis using s Some by (simp add: r)
qed

definition sample_loader :: "string loader" where
  "sample_loader =
     \<lparr>ld_parses = (\<lambda>raw. raw \<noteq> ''broken''), ld_fileKey = (\<lambda>raw. None),
      ld_unmarshal = (\<lambda>raw. Some \<lparr>gc_Backends = [(''glm'', \<lparr>be_Type = ''glm'', be_BaseURL = '''', be_APIKey = ''enc:c2s'', be_APIKeyEnv = '''', be_Timeout = 0\<rparr>)],
        gc_Supply = [], gc_Aliases = [], gc_EncryptionKey = Some (replicate 32 CHR ''k''), gc_ServiceKeys = Map.empty, gc_rest = raw\<rparr>),
      ld_models = (\<lambda>raw. Some None), ld_valid = (\<lambda>c. True), ld_env = (\<lambda>n. ''''), ld_environ = [],
      ld_decrypt = (\<lambda>k c. if c = ''c2s'' then Some ''sk'' else None)\<rparr>"

definition idle_process :: "'r process" where
  "idle_process = \<lparr>pc_snap = None, pc_version = 0, pc_applied = []\<rparr>"

lemma enc_key_kept:
  assumes "HasPrefix (be_APIKey be) encPrefix"
  shows "be_APIKey (normalizeBackend env be) = be_APIKey be"
proof -
  obtain x where x: "be_APIKey be = CHR ''e'' # x" using assms by (cases "be_APIKey be") (auto simp: encPrefix_def)
  have "\<not> is_space CHR ''e''" by (simp add: is_space_def)
  then have "TrimSpace (be_APIKey be) \<noteq> []" by (auto simp: TrimSpace_def x dropWhile_eq_Nil_conv)
  then show ?thesis by (auto simp: normalizeBackend_def Let_def split: option.split)
qed

lemma sample_loads: "loads sample_loader ''good''" "loadConfig sample_loader ''broken'' = Inl ReadFailed" "\<not> loads sample_loader ''broken''"
proof -
  have "decryptBackendAPIKeys sample_loader (normalizeConfig sample_loader (loadModelsNamespace sample_loader ''good''
      (overlayServiceKeyEnvs [] (the (ld_unmarshal sample_loader ''good''))))) \<noteq> Inl e" for e
    using enc_key_kept [of "\<lparr>be_Type = ''glm'', be_BaseURL = '''', be_APIKey = ''enc:c2s'', be_APIKeyEnv = '''', be_Timeout = 0\<rparr>" "\<lambda>n. ''''"]
    by (simp add: sample_loader_def decryptBackendAPIKeys_def normalizeConfig_def normalizeBackends_def loadModelsNamespace_def overlayServiceKeyEnvs_def
        cipherKeyOk_def encPrefix_def)
  then show "loads sample_loader ''good''"
    by (auto simp: loads_def loadConfig_def checkFusionMLXKeySource_def sample_loader_def Let_def split: sum.split)
  show "loadConfig sample_loader ''broken'' = Inl ReadFailed" "\<not> loads sample_loader ''broken''"
    by (simp_all add: loads_def loadConfig_def sample_loader_def)
qed

theorem start_recovers_witness:
  "\<exists>d1 p1 s. LoadWithRecovery sample_loader noFaults ''t'' ''c'' [''c'' \<mapsto> ''broken'', LastGoodPath ''c'' \<mapsto> ''good''] idle_process = (d1, p1, Inr s)
     \<and> (\<exists>f. d1 f = Some ''broken'')"
proof -
  let ?d = "[''c'' \<mapsto> ''broken'', LastGoodPath ''c'' \<mapsto> ''good'']"
  obtain d1 p1 r1 where r: "LoadWithRecovery sample_loader noFaults ''t'' ''c'' ?d idle_process = (d1, p1, r1)" by (metis prod_cases3)
  have "?d ''c'' = Some ''broken''" "?d (LastGoodPath ''c'') = Some ''good''" by simp_all
  with start_recovers [of sample_loader "''t''" "''c''" ?d idle_process] show ?thesis
    using sample_loads(1) unfolding r Let_def case_prod_conv by blast
qed

text \<open>
  A recovery is not safe against a crash.  Between setting the broken file aside and restoring the copy there is no configuration file, and from that
  state every later start fails for good, with the good copy intact on the disk: only a missing copy is documented to be fatal, but a missing file cannot be set
  aside.
\<close>
theorem crash_in_recovery_is_fatal:
  assumes "d path = Some raw" and "d (LastGoodPath path) = Some g" and "loads ld g" and "\<not> loads ld raw" and "tmp \<notin> {path, LastGoodPath path}"
  shows "\<exists>dc \<in> set (recoveryStates tmp ts path raw g d). dc (LastGoodPath path) = Some g \<and>
    (\<forall>ft ts' p. \<exists>p' e. LoadWithRecovery ld ft ts' path dc p = (dc, p', Inl e))"
proof -
  define dc where "dc = d(path := None, quarantinePath path ts \<mapsto> raw)"
  have dc: "dc path = None" "dc (LastGoodPath path) = Some g" using assms(2) by (simp_all add: dc_def)
  then have "\<exists>p' e. LoadWithRecovery ld ft ts' path dc p = (dc, p', Inl e)" for ft ts' p
    by (simp add: LoadWithRecovery_missing)
  moreover have "dc \<in> set (recoveryStates tmp ts path raw g d)" by (simp only: recoveryStates_def dc_def Let_def) simp
  ultimately show ?thesis using dc(2) by blast
qed

theorem crash_in_recovery_is_fatal_witness:
  "\<exists>dc :: disk. dc (LastGoodPath ''c'') = Some ''good'' \<and> (\<exists>p' e. LoadWithRecovery sample_loader noFaults ''t2'' ''c'' dc idle_process = (dc, p', Inl e))"
proof -
  let ?d = "[''c'' \<mapsto> ''broken'', LastGoodPath ''c'' \<mapsto> ''good'']"
  have "?d ''c'' = Some ''broken''" "?d (LastGoodPath ''c'') = Some ''good''" "''tmp'' \<notin> {''c'', LastGoodPath ''c''}" by (simp_all add: LastGoodPath_def)
  from crash_in_recovery_is_fatal [of ?d, OF this(1,2) sample_loads(1,3) this(3)] show ?thesis by blast
qed

section \<open>Reloads\<close>

lemma decryptKeys_Cons:
  assumes "decryptKeys dec ((m, b) # bs) = Inr rs"
  shows "\<exists>b' rs'. rs = (m, b') # rs' \<and> decryptKeys dec bs = Inr rs' \<and>
    (HasPrefix (be_APIKey b) encPrefix \<longrightarrow>
       (\<exists>plain. dec (drop (length encPrefix) (be_APIKey b)) = Some plain \<and> b' = b\<lparr>be_APIKey := plain\<rparr>))"
proof -
  have "\<not> HasPrefix '''' encPrefix" by (simp add: encPrefix_def)
  then show ?thesis using assms by (auto split: option.splits sum.splits if_splits)
qed

lemma decryptKeys_plain:
  "decryptKeys dec bs = Inr rs \<Longrightarrow> (n, be) \<in> set bs \<Longrightarrow> HasPrefix (be_APIKey be) encPrefix \<Longrightarrow>
     \<exists>plain. dec (drop (length encPrefix) (be_APIKey be)) = Some plain \<and> (n, be\<lparr>be_APIKey := plain\<rparr>) \<in> set rs"
proof (induction bs arbitrary: rs)
  case (Cons x bs)
  obtain m b where x: "x = (m, b)" by (cases x)
  from decryptKeys_Cons [OF Cons.prems(1) [unfolded x]] obtain b' rs' where
    r: "rs = (m, b') # rs'" "decryptKeys dec bs = Inr rs'"
    "HasPrefix (be_APIKey b) encPrefix \<longrightarrow> (\<exists>plain. dec (drop (length encPrefix) (be_APIKey b)) = Some plain \<and> b' = b\<lparr>be_APIKey := plain\<rparr>)"
    by blast
  show ?case
  proof (cases "(n, be) = x")
    case True
    then show ?thesis using r(1,3) Cons.prems(3) x by auto
  next
    case False
    then have "(n, be) \<in> set bs" using Cons.prems(2) by simp
    from Cons.IH [OF r(2) this Cons.prems(3)] show ?thesis using r(1) by auto
  qed
qed simp

text \<open>
  C38. A reload of the very same file serves other keys than a start: a start replaces the encrypted key of every backend by its plaintext, a reload leaves the
  ciphertext in place, so that the providers it builds send the ciphertext to their backends.
\<close>
theorem reload_keeps_ciphertext:
  assumes "loadConfig ld raw = Inr cfg" and "reloadConfig ld raw = Inr cfg'" and "ld_unmarshal ld raw = Some c0"
    and "gc_EncryptionKey c0 = Some k" and "k \<noteq> ''''"
    and "(n, be0) \<in> set (gc_Backends c0)" and "HasPrefix (be_APIKey be0) encPrefix"
  shows "\<exists>be plain. ld_decrypt ld k (drop (length encPrefix) (be_APIKey be0)) = Some plain
    \<and> (n, be) \<in> set (gc_Backends cfg') \<and> be_APIKey be = be_APIKey be0 \<and> (n, be\<lparr>be_APIKey := plain\<rparr>) \<in> set (gc_Backends cfg)"
proof -
  define c1 where "c1 = normalizeConfig ld (loadModelsNamespace ld raw (overlayServiceKeyEnvs (ld_environ ld) c0))"
  define be where "be = normalizeBackend (ld_env ld) be0"
  have ov: "gc_Backends (overlayServiceKeyEnvs env c) = gc_Backends c" "gc_EncryptionKey (overlayServiceKeyEnvs env c) = gc_EncryptionKey c" for env c
    unfolding overlayServiceKeyEnvs_def by (induction env arbitrary: c) (auto split: option.split)
  have mo: "gc_Backends (loadModelsNamespace ld raw c) = gc_Backends c" "gc_EncryptionKey (loadModelsNamespace ld raw c) = gc_EncryptionKey c" for c
    by (simp_all add: loadModelsNamespace_def split: option.split)
  have l: "decryptBackendAPIKeys ld c1 = Inr cfg" using assms(1,3) by (auto simp: loadConfig_def c1_def Let_def split: if_splits)
  have r: "cfg' = normalizeConfig ld (loadModelsNamespace ld raw c0)" using assms(2,3) by (auto simp: reloadConfig_def Let_def split: if_splits)
  have b: "gc_Backends c1 = gc_Backends cfg'" "gc_EncryptionKey c1 = Some k"
    using assms(4) by (simp_all add: c1_def r normalizeConfig_def mo ov)
  have in': "(n, be) \<in> set (gc_Backends cfg')" using assms(6) by (force simp: r normalizeConfig_def mo normalizeBackends_def be_def)
  have key: "be_APIKey be = be_APIKey be0" unfolding be_def by (rule enc_key_kept [OF assms(7)])
  obtain bs where bs: "decryptKeys (ld_decrypt ld k) (gc_Backends c1) = Inr bs" "gc_Backends cfg = bs"
    using l b(2) assms(5) by (auto simp: decryptBackendAPIKeys_def split: if_splits sum.splits)
  from decryptKeys_plain [OF bs(1)] show ?thesis using assms(7) bs(2) b(1) in' key by metis
qed

theorem reload_keeps_ciphertext_witness:
  "\<exists>cfg cfg' be be'. loadConfig sample_loader ''good'' = Inr cfg \<and> reloadConfig sample_loader ''good'' = Inr cfg'
     \<and> (''glm'', be) \<in> set (gc_Backends cfg) \<and> be_APIKey be = ''sk'' \<and> (''glm'', be') \<in> set (gc_Backends cfg') \<and> be_APIKey be' = ''enc:c2s''"
proof -
  obtain cfg where l: "loadConfig sample_loader ''good'' = Inr cfg" using sample_loads(1) by (auto simp: loads_def split: sum.splits)
  obtain cfg' where r: "reloadConfig sample_loader ''good'' = Inr cfg'"
    by (simp add: reloadConfig_def checkFusionMLXKeySource_def sample_loader_def Let_def)
  obtain c0 where c0: "ld_unmarshal sample_loader ''good'' = Some c0" "gc_EncryptionKey c0 = Some (replicate 32 CHR ''k'')"
    "(''glm'', \<lparr>be_Type = ''glm'', be_BaseURL = '''', be_APIKey = ''enc:c2s'', be_APIKeyEnv = '''', be_Timeout = 0\<rparr>) \<in> set (gc_Backends c0)"
    by (simp add: sample_loader_def)
  have "replicate 32 CHR ''k'' \<noteq> ''''" by simp
  from reload_keeps_ciphertext [OF l r c0(1,2) this c0(3)] obtain be plain where
    "ld_decrypt sample_loader (replicate 32 CHR ''k'') ''c2s'' = Some plain" "(''glm'', be) \<in> set (gc_Backends cfg')" "be_APIKey be = ''enc:c2s''"
    "(''glm'', be\<lparr>be_APIKey := plain\<rparr>) \<in> set (gc_Backends cfg)"
    by (auto simp: encPrefix_def)
  moreover from this(1) have "plain = ''sk''" by (simp add: sample_loader_def)
  ultimately show ?thesis using l r by (intro exI [of _ cfg] exI [of _ cfg'] exI [of _ "be\<lparr>be_APIKey := plain\<rparr>"] exI [of _ be]) simp
qed

text \<open>
  The copy is refreshed by starts and by writes through the admin interface, but not by a reload: an edit that was reloaded and served is gone from the
  disk once a later edit is broken, and the configuration before it is served again.
\<close>

lemma reloaded_edit_lost:
  assumes "d (LastGoodPath path) = Some a" "reloadConfig ld a = Inr ca" "reloadConfig ld b = Inr cb" "reloadConfig ld c = Inl e"
  shows "\<exists>p1 s1 p2 s2. ReloadWithRecovery ld dflt noFaults ts path (d(path \<mapsto> b)) p = (d(path \<mapsto> b), p1, Inr s1) \<and> sn_Config s1 = cb
    \<and> ReloadWithRecovery ld dflt noFaults ts2 path (d(path \<mapsto> c)) p1 = (d(quarantinePath path ts2 \<mapsto> c, path \<mapsto> a), p2, Inr s2) \<and> sn_Config s2 = ca"
proof -
  have "d(path := None, quarantinePath path ts2 \<mapsto> c, path \<mapsto> a) = d(quarantinePath path ts2 \<mapsto> c, path \<mapsto> a)"
    by (auto simp: fun_eq_iff)
  then show ?thesis using assms
    by (simp add: ReloadWithRecovery_def Reload_def readFile_def Let_def fun_upd_twist fun_upd_def [symmetric])
qed

end
