(* ===== verification/Audit_Trail.thy ===== *)
theory Audit_Trail
  imports Gateway_Prelude
begin

text \<open>
  The hash-chained audit trail of the web shell (\<^verbatim>\<open>shell/audit.go\<close>).  The digest in hexadecimal and the time format are parameters.  The store file
  is its decoded content; a write may fail.
\<close>

section \<open>The chain\<close>

record AuditEntry =
  ae_Seq :: int
  ae_TS :: time
  ae_User :: string
  ae_Role :: string
  ae_ActionClass :: string
  ae_Method :: string
  ae_Path :: string
  ae_Outcome :: string
  ae_DurationMS :: int
  ae_PrevHash :: string
  ae_Hash :: string

record AuditView =
  av_Entry :: AuditEntry
  av_IntegrityOK :: bool

datatype 'a store_file = FileMissing | FileUnreadable | FileCorrupt | FileHolds 'a

record AuditLog =
  al_entries :: "AuditEntry list"
  al_path :: string
  al_file :: "AuditEntry list store_file"

definition auditClasses :: "string list" where
  "auditClasses = [''read'', ''write'', ''approval'', ''agent_run'', ''config'', ''auth'']"

definition maxAuditEntries :: nat where
  "maxAuditEntries = 10000"

definition NewAuditLog :: "string \<Rightarrow> AuditEntry list store_file \<Rightarrow> AuditLog" where
  "NewAuditLog path f = \<lparr>al_entries = [], al_path = path, al_file = f\<rparr>"

text \<open>The digest and the time format of the hash.\<close>

record audit_lib =
  lib_sha :: "string \<Rightarrow> string"
  lib_ts :: "time \<Rightarrow> string"

definition auditCanon :: "audit_lib \<Rightarrow> AuditEntry \<Rightarrow> string" where
  "auditCanon lib e =
     fmt_d (ae_Seq e) @ ''|'' @ lib_ts lib (ae_TS e) @ ''|'' @ ae_User e @ ''|'' @ ae_Role e @ ''|'' @ ae_ActionClass e @ ''|'' @
     ae_Method e @ ''|'' @ ae_Path e @ ''|'' @ ae_Outcome e @ ''|'' @ fmt_d (ae_DurationMS e) @ ''|'' @ ae_PrevHash e"

definition auditHash :: "audit_lib \<Rightarrow> AuditEntry \<Rightarrow> string" where
  "auditHash lib e = lib_sha lib (auditCanon lib e)"

definition audit_Load :: "AuditLog \<Rightarrow> AuditLog \<times> bool" where
  "audit_Load a =
     (if al_path a = '''' then (a, True)
      else (case al_file a of
              FileMissing \<Rightarrow> (a, True)
            | FileUnreadable \<Rightarrow> (a, False)
            | FileCorrupt \<Rightarrow> (a, True)
            | FileHolds es \<Rightarrow> (a\<lparr>al_entries := es\<rparr>, True)))"

definition audit_Save :: "bool \<Rightarrow> AuditLog \<Rightarrow> AuditLog \<times> bool" where
  "audit_Save wr a =
     (if al_path a = '''' then (a, True) else if wr then (a\<lparr>al_file := FileHolds (al_entries a)\<rparr>, True) else (a, False))"

text \<open>What a caller reports, before the vocabulary is enforced.\<close>

record audit_event =
  ev_TS :: time
  ev_User :: string
  ev_Role :: string
  ev_ActionClass :: string
  ev_Method :: string
  ev_Path :: string
  ev_Outcome :: string
  ev_DurationMS :: int

definition newAuditEntry :: "audit_event \<Rightarrow> AuditEntry list \<Rightarrow> AuditEntry" where
  "newAuditEntry ev es =
     \<lparr>ae_Seq = (if es = [] then 0 else ae_Seq (last es) + 1), ae_TS = ev_TS ev, ae_User = ev_User ev, ae_Role = ev_Role ev,
      ae_ActionClass = (if ev_ActionClass ev \<in> set auditClasses then ev_ActionClass ev else ''read''),
      ae_Method = ev_Method ev, ae_Path = ev_Path ev,
      ae_Outcome = (if ev_Outcome ev \<in> {''ok'', ''denied'', ''error''} then ev_Outcome ev else ''error''),
      ae_DurationMS = ev_DurationMS ev, ae_PrevHash = (if es = [] then '''' else ae_Hash (last es)), ae_Hash = ''''\<rparr>"

definition appendEntry :: "audit_lib \<Rightarrow> audit_event \<Rightarrow> AuditEntry list \<Rightarrow> AuditEntry list" where
  "appendEntry lib ev es =
     (let e = newAuditEntry ev es; es' = es @ [e\<lparr>ae_Hash := auditHash lib e\<rparr>]
      in if maxAuditEntries < length es' then drop (length es' - maxAuditEntries) es' else es')"

definition audit_Record :: "audit_lib \<Rightarrow> bool \<Rightarrow> audit_event \<Rightarrow> AuditLog \<Rightarrow> AuditLog \<times> bool" where
  "audit_Record lib wr ev a = audit_Save wr (a\<lparr>al_entries := appendEntry lib ev (al_entries a)\<rparr>)"

text \<open>The walk from the oldest row, with the flag, the expected previous hash and the expected number.\<close>

fun audit_walk :: "audit_lib \<Rightarrow> bool \<Rightarrow> string \<Rightarrow> int \<Rightarrow> AuditEntry list \<Rightarrow> AuditView list" where
  "audit_walk lib ok prev expectedSeq [] = []"
| "audit_walk lib ok prev expectedSeq (e # es) =
     (let rowOK = (ok \<and> ae_Hash e = auditHash lib e \<and> ae_PrevHash e = prev \<and> ae_Seq e = expectedSeq)
      in \<lparr>av_Entry = e, av_IntegrityOK = rowOK\<rparr> # audit_walk lib rowOK (ae_Hash e) (ae_Seq e + 1) es)"

definition audit_Entries :: "audit_lib \<Rightarrow> string \<Rightarrow> string \<Rightarrow> AuditLog \<Rightarrow> AuditView list" where
  "audit_Entries lib user actionClass a =
     rev (filter (\<lambda>v. (user = '''' \<or> ae_User (av_Entry v) = user) \<and> (actionClass = '''' \<or> ae_ActionClass (av_Entry v) = actionClass))
            (audit_walk lib True '''' 0 (al_entries a)))"

section \<open>Chains\<close>

text \<open>A chain that starts after a hash and at a number.\<close>

fun chained :: "audit_lib \<Rightarrow> string \<Rightarrow> int \<Rightarrow> AuditEntry list \<Rightarrow> bool" where
  "chained lib prev n [] = True"
| "chained lib prev n (e # es) \<longleftrightarrow>
     ae_Hash e = auditHash lib e \<and> ae_PrevHash e = prev \<and> ae_Seq e = n \<and> chained lib (ae_Hash e) (n + 1) es"

lemma chained_snoc:
  "chained lib prev n (es @ [e]) \<longleftrightarrow> chained lib prev n es \<and> ae_Hash e = auditHash lib e \<and>
     ae_PrevHash e = (if es = [] then prev else ae_Hash (last es)) \<and> ae_Seq e = n + int (length es)"
  by (induction es arbitrary: prev n) auto

lemma chained_last: "chained lib prev n es \<Longrightarrow> es \<noteq> [] \<Longrightarrow> ae_Seq (last es) = n + int (length es) - 1"
  by (induction es arbitrary: prev n) auto

lemma chained_tl: "chained lib prev n es \<Longrightarrow> es \<noteq> [] \<Longrightarrow> chained lib (ae_Hash (hd es)) (n + 1) (tl es)"
  by (cases es) auto

lemma walk_chained: "audit_walk lib ok prev n es = map (\<lambda>e. \<lparr>av_Entry = e, av_IntegrityOK = True\<rparr>) es \<longleftrightarrow> es = [] \<or> ok \<and> chained lib prev n es"
  by (induction es arbitrary: ok prev n) (auto simp: Let_def)

lemma walk_poisoned: "audit_walk lib False prev n es = map (\<lambda>e. \<lparr>av_Entry = e, av_IntegrityOK = False\<rparr>) es"
  by (induction es arbitrary: prev n) (auto simp: Let_def)

lemma hash_ignores_hash [simp]: "auditHash lib (e\<lparr>ae_Hash := h\<rparr>) = auditHash lib e"
  by (simp add: auditHash_def auditCanon_def)

text \<open>Appending keeps the log a chain; once it is full the start moves on.\<close>

definition audit_chain :: "audit_lib \<Rightarrow> nat \<Rightarrow> AuditEntry list \<Rightarrow> bool" where
  "audit_chain lib k es \<longleftrightarrow> length es = min k maxAuditEntries \<and>
     (\<exists>prev. chained lib prev (int (k - length es)) es \<and> (k \<le> maxAuditEntries \<longrightarrow> prev = ''''))"

lemma append_chain:
  assumes "audit_chain lib k es"
  shows "audit_chain lib (Suc k) (appendEntry lib ev es)"
proof -
  obtain prev where p: "chained lib prev (int (k - length es)) es" "k \<le> maxAuditEntries \<longrightarrow> prev = ''''" and l: "length es = min k maxAuditEntries"
    using assms by (auto simp: audit_chain_def)
  define e where "e = newAuditEntry ev es"
  have e: "ae_Seq e = (if es = [] then 0 else ae_Seq (last es) + 1)" "ae_PrevHash e = (if es = [] then '''' else ae_Hash (last es))"
    by (simp_all add: e_def newAuditEntry_def)
  define es' where "es' = es @ [e\<lparr>ae_Hash := auditHash lib e\<rparr>]"
  have a: "appendEntry lib ev es = (if maxAuditEntries < length es' then drop (length es' - maxAuditEntries) es' else es')"
    by (simp add: appendEntry_def Let_def e_def es'_def)
  have m: "maxAuditEntries = 10000" by (simp add: maxAuditEntries_def)
  have empty: "es = [] \<Longrightarrow> k = 0" using l m by auto
  have c: "chained lib prev (int (k - length es)) es'"
    unfolding es'_def chained_snoc using p chained_last [OF p(1)] empty e by auto
  show ?thesis
  proof (cases "k < maxAuditEntries")
    case True
    then have "length es = k" using l by simp
    then show ?thesis using c p(2) True a by (auto simp: audit_chain_def es'_def)
  next
    case False
    then have "length es = maxAuditEntries" using l by simp
    then have n: "length es' = Suc maxAuditEntries" by (simp add: es'_def)
    then have "appendEntry lib ev es = tl es'" using a by (simp add: drop_Suc)
    moreover from n have "chained lib (ae_Hash (hd es')) (int (k - length es) + 1) (tl es')"
      using chained_tl [OF c] by (cases es') auto
    moreover have "int (k - length es) + 1 = int (Suc k - maxAuditEntries)" using False \<open>length es = maxAuditEntries\<close> by simp
    ultimately show ?thesis using False n by (auto simp: audit_chain_def)
  qed
qed

definition audit_run :: "audit_lib \<Rightarrow> (bool \<times> audit_event) list \<Rightarrow> AuditLog \<Rightarrow> AuditLog" where
  "audit_run lib evs a = fold (\<lambda>(wr, ev) a. fst (audit_Record lib wr ev a)) evs a"

lemma record_entries [simp]: "al_entries (fst (audit_Record lib wr ev a)) = appendEntry lib ev (al_entries a)"
  by (simp add: audit_Record_def audit_Save_def)

lemma run_chain: "audit_chain lib k (al_entries a) \<Longrightarrow> audit_chain lib (k + length evs) (al_entries (audit_run lib evs a))"
proof (induction evs arbitrary: a k)
  case (Cons x evs)
  obtain wr ev where x: "x = (wr, ev)" by (cases x)
  have "audit_chain lib (Suc k) (al_entries (fst (audit_Record lib wr ev a)))" using append_chain [OF Cons.prems] by simp
  then show ?case using Cons.IH by (fastforce simp: audit_run_def x)
qed (simp add: audit_run_def)

lemma fresh_run: "audit_chain lib (length evs) (al_entries (audit_run lib evs (NewAuditLog path f)))"
proof -
  have "audit_chain lib 0 (al_entries (NewAuditLog path f))" by (simp add: audit_chain_def NewAuditLog_def)
  then show ?thesis using run_chain by fastforce
qed

section \<open>What the read path reports\<close>

text \<open>
  Up to the bound the trail works as documented: after any number of records within the bound, whatever writes fail and whatever the callers
  report, the page lists every record, newest first, and reports every row as intact; a filter only drops rows.
\<close>
theorem audit_trail_intact:
  assumes "length evs \<le> maxAuditEntries" and "a = audit_run lib evs (NewAuditLog path f)"
  shows "map av_Entry (audit_Entries lib '''' '''' a) = rev (al_entries a) \<and> length (al_entries a) = length evs \<and>
    (\<forall>user cls. \<forall>v \<in> set (audit_Entries lib user cls a). av_IntegrityOK v)"
proof -
  have c: "audit_chain lib (length evs) (al_entries a)" using fresh_run assms(2) by simp
  then have "chained lib '''' 0 (al_entries a)" and l: "length (al_entries a) = length evs" using assms(1) by (auto simp: audit_chain_def)
  then have w: "audit_walk lib True '''' 0 (al_entries a) = map (\<lambda>e. \<lparr>av_Entry = e, av_IntegrityOK = True\<rparr>) (al_entries a)"
    by (simp add: walk_chained)
  show ?thesis using l by (auto simp: audit_Entries_def w o_def rev_map [symmetric])
qed

text \<open>
  C29. Beyond the bound the trail reports itself as tampered: the trimmed log starts at a later number, but the walk still expects the number zero, so after
  more than ten thousand records every row is shown as not intact although nobody touched the log.
\<close>
theorem full_trail_reported_tampered:
  assumes "maxAuditEntries < length evs" and "a = audit_run lib evs (NewAuditLog path f)"
  shows "length (audit_Entries lib '''' '''' a) = maxAuditEntries \<and> (\<forall>user cls. \<forall>v \<in> set (audit_Entries lib user cls a). \<not> av_IntegrityOK v)"
proof -
  have c: "audit_chain lib (length evs) (al_entries a)" using fresh_run assms(2) by simp
  then obtain prev where l: "length (al_entries a) = maxAuditEntries" and p: "chained lib prev (int (length evs - maxAuditEntries)) (al_entries a)"
    using assms(1) by (auto simp: audit_chain_def)
  obtain e es where e: "al_entries a = e # es" using l by (cases "al_entries a") (auto simp: maxAuditEntries_def)
  then have "ae_Seq e \<noteq> 0" using p assms(1) by auto
  then have w: "audit_walk lib True '''' 0 (al_entries a) = map (\<lambda>e. \<lparr>av_Entry = e, av_IntegrityOK = False\<rparr>) (al_entries a)"
    by (simp add: e walk_poisoned Let_def)
  show ?thesis using l by (auto simp: audit_Entries_def w)
qed

theorem full_trail_reported_tampered_witness:
  "\<exists>a. a = audit_run \<lparr>lib_sha = id, lib_ts = fmt_d\<rparr> (replicate 10001 (True, \<lparr>ev_TS = 0, ev_User = ''ann'', ev_Role = ''admin'',
      ev_ActionClass = ''config'', ev_Method = ''PUT'', ev_Path = ''/'', ev_Outcome = ''ok'', ev_DurationMS = 1\<rparr>)) (NewAuditLog '''' FileMissing) \<and>
    length (audit_Entries \<lparr>lib_sha = id, lib_ts = fmt_d\<rparr> '''' '''' a) = 10000 \<and>
    (\<forall>v \<in> set (audit_Entries \<lparr>lib_sha = id, lib_ts = fmt_d\<rparr> '''' '''' a). \<not> av_IntegrityOK v)"
  using full_trail_reported_tampered [OF _ refl, of "replicate 10001 (True, \<lparr>ev_TS = 0, ev_User = ''ann'', ev_Role = ''admin'',
      ev_ActionClass = ''config'', ev_Method = ''PUT'', ev_Path = ''/'', ev_Outcome = ''ok'', ev_DurationMS = 1\<rparr>)"
      "\<lparr>lib_sha = id, lib_ts = fmt_d\<rparr>" "''''" FileMissing]
  by (simp add: maxAuditEntries_def)

theorem audit_trail_intact_witness:
  "map av_Entry (audit_Entries \<lparr>lib_sha = id, lib_ts = fmt_d\<rparr> '''' ''''
      (audit_run \<lparr>lib_sha = id, lib_ts = fmt_d\<rparr> [(True, \<lparr>ev_TS = 0, ev_User = ''ann'', ev_Role = ''admin'',
      ev_ActionClass = ''config'', ev_Method = ''PUT'', ev_Path = ''/'', ev_Outcome = ''ok'', ev_DurationMS = 1\<rparr>)] (NewAuditLog '''' FileMissing))) =
    rev (al_entries (audit_run \<lparr>lib_sha = id, lib_ts = fmt_d\<rparr> [(True, \<lparr>ev_TS = 0, ev_User = ''ann'', ev_Role = ''admin'',
      ev_ActionClass = ''config'', ev_Method = ''PUT'', ev_Path = ''/'', ev_Outcome = ''ok'', ev_DurationMS = 1\<rparr>)] (NewAuditLog '''' FileMissing)))"
  using audit_trail_intact [OF _ refl, of "[(True, \<lparr>ev_TS = 0, ev_User = ''ann'', ev_Role = ''admin'',
      ev_ActionClass = ''config'', ev_Method = ''PUT'', ev_Path = ''/'', ev_Outcome = ''ok'', ev_DurationMS = 1\<rparr>)]"]
  by (simp add: maxAuditEntries_def)

section \<open>Edits\<close>

lemma walk_length [simp]: "length (audit_walk lib ok prev n es) = length es"
  by (induction es arbitrary: ok prev n) (auto simp: Let_def)

lemma walk_after_edit:
  assumes "chained lib prev n es" and "Suc i < length es" and "auditHash lib e' \<noteq> auditHash lib (es ! i)" and "i < j" and "j < length es"
  shows "\<not> av_IntegrityOK (audit_walk lib True prev n (es[i := e']) ! j)"
  using assms
proof (induction es arbitrary: prev n i j)
  case (Cons x es)
  obtain k where j: "j = Suc k" using Cons.prems(4) by (cases j) auto
  show ?case
  proof (cases i)
    case 0
    obtain y ys where y: "es = y # ys" using Cons.prems(2) 0 by (cases es) auto
    have "ae_Hash x = auditHash lib x" "ae_PrevHash y = ae_Hash x" using Cons.prems(1) y by auto
    then have "audit_walk lib (ae_Hash e' = auditHash lib e' \<and> ae_PrevHash e' = prev \<and> ae_Seq e' = n) (ae_Hash e') (ae_Seq e' + 1) es =
        map (\<lambda>e. \<lparr>av_Entry = e, av_IntegrityOK = False\<rparr>) es"
    proof (cases "ae_Hash e' = auditHash lib e'")
      case True
      then have "ae_PrevHash y \<noteq> ae_Hash e'" using Cons.prems(3) 0 \<open>ae_Hash x = auditHash lib x\<close> \<open>ae_PrevHash y = ae_Hash x\<close> by simp
      then show ?thesis by (simp add: y walk_poisoned)
    qed (simp add: walk_poisoned)
    then show ?thesis using 0 j Cons.prems(5) by (simp add: Let_def)
  next
    case (Suc i')
    then show ?thesis using Cons.IH [of "ae_Hash x" "n + 1" i' k] Cons.prems j by (auto simp: Let_def)
  qed
qed simp

text \<open>
  An edit of a row that changes its digest shows: in a log of untouched records within the bound, replacing any row but the newest by one with another digest
  makes every later row report as not intact, even when the editor recomputes the hash of the row.
\<close>
theorem audit_edit_detected:
  assumes "length evs \<le> maxAuditEntries" and "a = audit_run lib evs (NewAuditLog path f)" and "Suc i < length evs"
    and "auditHash lib e' \<noteq> auditHash lib (al_entries a ! i)" and "i < j" "j < length evs"
  shows "\<not> av_IntegrityOK (rev (audit_Entries lib '''' '''' (a\<lparr>al_entries := (al_entries a)[i := e']\<rparr>)) ! j)"
proof -
  have c: "audit_chain lib (length evs) (al_entries a)" using fresh_run assms(2) by simp
  then have "chained lib '''' 0 (al_entries a)" "length (al_entries a) = length evs" using assms(1) by (auto simp: audit_chain_def)
  then show ?thesis using walk_after_edit [of lib "''''" 0 "al_entries a" i e' j] assms by (simp add: audit_Entries_def)
qed

text \<open>
  An edit need not change the digest: the fields are joined with a bar that is not escaped, so a bar in the name of the user can be moved into the role.
  A failed login records the name the client sent.
\<close>
theorem shifted_fields_undetected:
  assumes "chained lib prev n es" and "i < length es" and "ae_User (es ! i) = u @ ''|'' @ v"
  shows "chained lib prev n (es[i := (es ! i)\<lparr>ae_User := u, ae_Role := v @ ''|'' @ ae_Role (es ! i)\<rparr>])"
  using assms
proof (induction es arbitrary: prev n i)
  case (Cons x es)
  have h: "auditHash lib (x\<lparr>ae_User := u, ae_Role := v @ ''|'' @ ae_Role x\<rparr>) = auditHash lib x" if "ae_User x = u @ ''|'' @ v"
    using that by (simp add: auditHash_def auditCanon_def)
  show ?case using Cons h by (cases i) auto
qed simp

end
