(* ===== verification/Shell_Registry.thy ===== *)
theory Shell_Registry
  imports Audit_Trail "HOL-Library.AList" "HOL-Library.List_Lexorder" "HOL-Library.Char_ord" "HOL-Library.Product_Lexorder"
begin

text \<open>
  The manifest registry of the web shell (\<^verbatim>\<open>shell/manifest.go\<close>) with the service keys the gateway issues to modules (\<^verbatim>\<open>shell/servicekeys.go\<close>) and the
  health poll (\<^verbatim>\<open>shell/proxy.go\<close>).  The store file is shared by the gateway processes of one data directory, so operations take it beside the
  registry of the process.  \<open>reg_env\<close> is the outside of one operation: instant, map order, whether the lock and the write succeed, random bytes in
  hexadecimal, the digest and \<^verbatim>\<open>url.Parse\<close> as scheme, host and path.
\<close>

section \<open>Manifests\<close>

record ShellSearchProvider =
  sp_ID :: string
  sp_Label :: string
  sp_LabelEn :: string
  sp_Endpoint :: string

record ShellPage =
  pg_Route :: string
  pg_Title :: string
  pg_TitleEn :: string

record ShellNotificationSource =
  nt_ID :: string
  nt_Label :: string
  nt_LabelEn :: string
  nt_Endpoint :: string
  nt_Kind :: string

record ShellHomeCard =
  hc_ID :: string
  hc_Title :: string
  hc_TitleEn :: string
  hc_Description :: string
  hc_DescriptionEn :: string
  hc_Route :: string
  hc_Chip :: bool

record ShellHomeProject =
  hp_ID :: string
  hp_Label :: string
  hp_LabelEn :: string
  hp_Endpoint :: string

record ShellHome =
  hm_Cards :: "ShellHomeCard list"
  hm_Projects :: "ShellHomeProject list"

record ShellManifest =
  sm_ID :: string
  sm_Title :: string
  sm_TitleEn :: string
  sm_Version :: string
  sm_Path :: string
  sm_Icon :: string
  sm_Entry :: string
  sm_Health :: string
  sm_Backend :: string
  sm_Devices :: "string list"
  sm_Category :: string
  sm_Upstream :: string
  sm_APIKey :: string
  sm_SearchProviders :: "ShellSearchProvider list"
  sm_Pages :: "ShellPage list"
  sm_Notifications :: "ShellNotificationSource list"
  sm_Home :: "ShellHome option"
  sm_PermissionsPolicy :: "string list"
  sm_Group :: string
  sm_GroupTitle :: string
  sm_GroupTitleEn :: string
  sm_Sort :: int
  sm_ModelCapable :: bool
  sm_SuggestedModel :: string

datatype manifest_error =
  FieldRequired string | BadCategory | BadFeature string | BadGroup | TitleTooLong | TooManyEntries string | EntryIncomplete string
| BadPath string | BadKind string | BadPrefix | BadEntry | BadUpstream | IDMismatch | NotRegistered
| ErrManifestNotFound | ErrManifestStatic | ErrNoServiceKey | NoEntropy

definition ValidManifestCategory :: "string \<Rightarrow> bool" where
  "ValidManifestCategory c \<longleftrightarrow> c \<in> {''core'', ''governance'', ''platform'', ''domain'', ''infra'', ''dev''}"

definition maxShellExtEntries :: nat where
  "maxShellExtEntries = 32"

text \<open>Runes of a valid UTF-8 string are its bytes that do not continue a rune.\<close>

definition rune_count :: "string \<Rightarrow> nat" where
  "rune_count s = length (filter (\<lambda>c. \<not> (128 \<le> (of_char c :: nat) \<and> (of_char c :: nat) < 192)) s)"

definition validGroupID :: "string \<Rightarrow> bool" where
  "validGroupID g \<longleftrightarrow> 1 \<le> length g \<and> length g \<le> 64 \<and>
     list_all (\<lambda>c. let n = (of_char c :: nat) in (97 \<le> n \<and> n \<le> 122) \<or> (48 \<le> n \<and> n \<le> 57) \<or> n = 45) g"

definition validateManifestGroup :: "ShellManifest \<Rightarrow> manifest_error option" where
  "validateManifestGroup m =
     (if sm_Group m = '''' then None
      else if \<not> validGroupID (sm_Group m) then Some BadGroup
      else if 128 < rune_count (sm_GroupTitle m) \<or> 128 < rune_count (sm_GroupTitleEn m) then Some TitleTooLong
      else None)"

definition validateGatewayAbsolutePath :: "string \<Rightarrow> manifest_error option" where
  "validateGatewayAbsolutePath p = (if \<not> HasPrefix p ''/'' \<or> Contains p ''..'' then Some (BadPath p) else None)"

text \<open>The first error of a list of entries.\<close>

fun first_error :: "('a \<Rightarrow> 'e option) \<Rightarrow> 'a list \<Rightarrow> 'e option" where
  "first_error f [] = None"
| "first_error f (x # xs) = (case f x of Some e \<Rightarrow> Some e | None \<Rightarrow> first_error f xs)"

lemma first_error_None [simp]: "first_error f xs = None \<longleftrightarrow> (\<forall>x \<in> set xs. f x = None)"
  by (induction xs) (auto split: option.split)

definition or_else :: "'e option \<Rightarrow> 'e option \<Rightarrow> 'e option" where
  "or_else a b = (case a of Some e \<Rightarrow> Some e | None \<Rightarrow> b)"

lemma or_else_None [simp]: "or_else a b = None \<longleftrightarrow> a = None \<and> b = None"
  by (auto simp: or_else_def split: option.split)

definition checkProvider :: "ShellSearchProvider \<Rightarrow> manifest_error option" where
  "checkProvider p =
     (if sp_ID p = '''' \<or> sp_Label p = '''' then Some (EntryIncomplete ''search'') else validateGatewayAbsolutePath (sp_Endpoint p))"

definition checkPage :: "ShellPage \<Rightarrow> manifest_error option" where
  "checkPage p =
     (if pg_Title p = '''' then Some (EntryIncomplete ''page'')
      else or_else (validateGatewayAbsolutePath (pg_Route p)) (if Contains (pg_Route p) ''#'' then Some (BadPath (pg_Route p)) else None))"

definition checkNotification :: "ShellNotificationSource \<Rightarrow> manifest_error option" where
  "checkNotification n =
     (if nt_ID n = '''' \<or> nt_Label n = '''' then Some (EntryIncomplete ''notification'')
      else if nt_Kind n \<notin> {''approvals'', ''runs'', ''engine'', ''tasks''} then Some (BadKind (nt_Kind n))
      else validateGatewayAbsolutePath (nt_Endpoint n))"

definition checkCard :: "ShellHomeCard \<Rightarrow> manifest_error option" where
  "checkCard c =
     (if hc_ID c = '''' \<or> hc_Title c = '''' then Some (EntryIncomplete ''card'')
      else or_else (validateGatewayAbsolutePath (hc_Route c)) (if Contains (hc_Route c) ''#'' then Some (BadPath (hc_Route c)) else None))"

definition checkProject :: "ShellHomeProject \<Rightarrow> manifest_error option" where
  "checkProject p =
     (if hp_ID p = '''' \<or> hp_Label p = '''' then Some (EntryIncomplete ''project'') else validateGatewayAbsolutePath (hp_Endpoint p))"

definition bounded :: "string \<Rightarrow> 'a list \<Rightarrow> manifest_error option" where
  "bounded what xs = (if maxShellExtEntries < length xs then Some (TooManyEntries what) else None)"

definition validateManifestExt :: "ShellManifest \<Rightarrow> manifest_error option" where
  "validateManifestExt m =
     or_else (bounded ''search_providers'' (sm_SearchProviders m)) (or_else (first_error checkProvider (sm_SearchProviders m))
     (or_else (bounded ''pages'' (sm_Pages m)) (or_else (first_error checkPage (sm_Pages m))
     (or_else (bounded ''notifications'' (sm_Notifications m)) (or_else (first_error checkNotification (sm_Notifications m))
     (case sm_Home m of
        None \<Rightarrow> None
      | Some h \<Rightarrow>
          or_else (bounded ''cards'' (hm_Cards h)) (or_else (first_error checkCard (hm_Cards h))
          (or_else (bounded ''projects'' (hm_Projects h)) (first_error checkProject (hm_Projects h))))))))))"

definition validateManifest :: "ShellManifest \<Rightarrow> manifest_error option" where
  "validateManifest m =
     (if sm_ID m = '''' then Some (FieldRequired ''id'')
      else if sm_Title m = '''' then Some (FieldRequired ''title'')
      else if sm_Path m = '''' then Some (FieldRequired ''path'')
      else if sm_Entry m = '''' then Some (FieldRequired ''entry'')
      else if sm_Devices m = [] then Some (FieldRequired ''devices'')
      else if \<not> ValidManifestCategory (sm_Category m) then Some BadCategory
      else or_else (first_error (\<lambda>f. if f \<in> {''microphone'', ''camera''} then None else Some (BadFeature f)) (sm_PermissionsPolicy m))
             (or_else (validateManifestGroup m) (validateManifestExt m)))"

section \<open>The registry\<close>

datatype Status = StatusOnline | StatusUnreachable | StatusOffline

record ManifestView =
  mv_Manifest :: ShellManifest
  mv_Status :: Status
  mv_LastHeartbeat :: time
  mv_Registered :: bool
  mv_Unreachable :: bool

record registry_entry =
  en_manifest :: ShellManifest
  en_lastHeartbeat :: time
  en_dynamic :: bool
  en_serviceKeyID :: string
  en_serviceKeyHash :: string
  en_serviceKeyPrevHash :: string
  en_serviceKeyRotatedAt :: time
  en_serviceKeyRevoked :: bool
  en_serviceKeyAuthAt :: "time option"

record persistedManifest =
  pm_Manifest :: ShellManifest
  pm_LastHeartbeat :: time
  pm_ServiceKeyID :: string
  pm_ServiceKeyHash :: string
  pm_ServiceKeyPrevHash :: string
  pm_ServiceKeyRotatedAt :: time
  pm_ServiceKeyRevoked :: bool
  pm_ServiceKeyAuthAt :: "time option"

type_synonym manifest_file = "persistedManifest list store_file"

record reg_env =
  re_now :: time
  re_it :: "(string \<times> registry_entry) list \<Rightarrow> (string \<times> registry_entry) list"
  re_lock :: bool
  re_wr :: bool
  re_rnd :: "string option"
  re_sha :: "string \<Rightarrow> string"
  re_url :: "string \<Rightarrow> (string \<times> string \<times> string) option"

record ShellRegistry =
  rg_lastPersisted :: "string list"
  rg_dynamic :: "(string \<times> registry_entry) list"
  rg_staticFallback :: "ShellManifest list"
  rg_heartbeatExpiry :: duration
  rg_allowlist :: "string list"
  rg_lastHealthy :: "(string \<times> time) list"
  rg_builtins :: "string list"
  rg_proxyUpstreams :: "(string \<times> string) list"
  rg_path :: string

definition NewShellRegistry :: "ShellManifest list \<Rightarrow> string list \<Rightarrow> duration \<Rightarrow> ShellRegistry" where
  "NewShellRegistry staticFallback allowlist expiry =
     \<lparr>rg_lastPersisted = [], rg_dynamic = [], rg_staticFallback = staticFallback,
      rg_heartbeatExpiry = (if expiry \<le> 0 then 30 * second else expiry), rg_allowlist = allowlist, rg_lastHealthy = [], rg_builtins = [],
      rg_proxyUpstreams = [], rg_path = ''''\<rparr>"

definition SetProxyUpstreams :: "(string \<times> string) list \<Rightarrow> ShellRegistry \<Rightarrow> ShellRegistry" where
  "SetProxyUpstreams m r = r\<lparr>rg_proxyUpstreams := m\<rparr>"

definition registry_SetPersistence :: "string \<Rightarrow> ShellRegistry \<Rightarrow> ShellRegistry" where
  "registry_SetPersistence path r = r\<lparr>rg_path := path\<rparr>"

definition checkEntryAllowlist :: "reg_env \<Rightarrow> string \<Rightarrow> ShellRegistry \<Rightarrow> manifest_error option" where
  "checkEntryAllowlist env entryURL r =
     (if HasPrefix entryURL ''/'' then (if Contains entryURL ''..'' then Some BadEntry else None)
      else if rg_allowlist r = [] then None
      else (case re_url env entryURL of
              None \<Rightarrow> Some BadEntry
            | Some (scheme, host, path) \<Rightarrow>
                if scheme = '''' \<or> host = '''' then Some BadEntry
                else if scheme @ ''://'' @ host \<in> set (rg_allowlist r) then None else Some BadEntry))"

definition validateUpstreamURL :: "reg_env \<Rightarrow> ShellManifest \<Rightarrow> manifest_error option" where
  "validateUpstreamURL env m =
     (if sm_Upstream m = '''' then None
      else (case re_url env (sm_Upstream m) of
              None \<Rightarrow> Some BadUpstream
            | Some (scheme, host, path) \<Rightarrow> if scheme \<notin> {''http'', ''https''} \<or> host = '''' then Some BadUpstream else None))"

definition registrable :: "reg_env \<Rightarrow> ShellManifest \<Rightarrow> ShellRegistry \<Rightarrow> manifest_error option" where
  "registrable env m r =
     or_else (validateManifest m) (or_else (if HasPrefix (sm_ID m) ''fusion-'' then None else Some BadPrefix)
       (or_else (checkEntryAllowlist env (sm_Entry m) r) (validateUpstreamURL env m)))"

definition validateForStoreLocked :: "reg_env \<Rightarrow> ShellManifest \<Rightarrow> ShellRegistry \<Rightarrow> manifest_error option" where
  "validateForStoreLocked env m r =
     or_else (validateManifest m) (or_else (if HasPrefix (sm_ID m) ''fusion-'' then None else Some BadPrefix)
       (or_else (validateUpstreamURL env m) (checkEntryAllowlist env (sm_Entry m) r)))"

section \<open>The store file\<close>

definition restoreEntry :: "persistedManifest \<Rightarrow> registry_entry" where
  "restoreEntry p =
     \<lparr>en_manifest = pm_Manifest p, en_lastHeartbeat = pm_LastHeartbeat p, en_dynamic = True, en_serviceKeyID = pm_ServiceKeyID p,
      en_serviceKeyHash = pm_ServiceKeyHash p, en_serviceKeyPrevHash = pm_ServiceKeyPrevHash p,
      en_serviceKeyRotatedAt = pm_ServiceKeyRotatedAt p, en_serviceKeyRevoked = pm_ServiceKeyRevoked p,
      en_serviceKeyAuthAt = pm_ServiceKeyAuthAt p\<rparr>"

definition persistEntry :: "registry_entry \<Rightarrow> persistedManifest" where
  "persistEntry e =
     \<lparr>pm_Manifest = en_manifest e, pm_LastHeartbeat = en_lastHeartbeat e, pm_ServiceKeyID = en_serviceKeyID e,
      pm_ServiceKeyHash = en_serviceKeyHash e, pm_ServiceKeyPrevHash = en_serviceKeyPrevHash e,
      pm_ServiceKeyRotatedAt = en_serviceKeyRotatedAt e, pm_ServiceKeyRevoked = en_serviceKeyRevoked e,
      pm_ServiceKeyAuthAt = en_serviceKeyAuthAt e\<rparr>"

definition registry_Load :: "reg_env \<Rightarrow> manifest_file \<Rightarrow> ShellRegistry \<Rightarrow> ShellRegistry \<times> bool" where
  "registry_Load env f r =
     (if rg_path r = '''' then (r, True)
      else (case f of
              FileMissing \<Rightarrow> (r, True)
            | FileUnreadable \<Rightarrow> (r, False)
            | FileCorrupt \<Rightarrow> (r, False)
            | FileHolds ps \<Rightarrow>
                (let dyn = fold (\<lambda>p d. if validateForStoreLocked env (pm_Manifest p) r \<noteq> None then d
                                      else AList.update (sm_ID (pm_Manifest p)) (restoreEntry p) d) ps (rg_dynamic r)
                 in (r\<lparr>rg_dynamic := dyn, rg_lastPersisted := map fst dyn\<rparr>, True))))"

definition adoptForeign :: "reg_env \<Rightarrow> manifest_file \<Rightarrow> ShellRegistry \<Rightarrow> ShellRegistry" where
  "adoptForeign env f r =
     (case f of
        FileHolds ps \<Rightarrow>
          r\<lparr>rg_dynamic := fold (\<lambda>p d.
              let ident = sm_ID (pm_Manifest p)
              in if map_of d ident \<noteq> None \<or> ident \<in> set (rg_lastPersisted r) \<or> validateForStoreLocked env (pm_Manifest p) r \<noteq> None then d
                 else AList.update ident (restoreEntry p) d) ps (rg_dynamic r)\<rparr>
      | _ \<Rightarrow> r)"

definition registry_save :: "reg_env \<Rightarrow> ShellRegistry \<Rightarrow> manifest_file \<Rightarrow> ShellRegistry \<times> manifest_file" where
  "registry_save env r f =
     (if rg_path r = '''' then (r, f)
      else
        (let r1 = (if re_lock env then adoptForeign env f r else r);
             ps = map (persistEntry \<circ> snd) (iterate (re_it env) (rg_dynamic r1))
         in if re_wr env then (r1\<lparr>rg_lastPersisted := map (sm_ID \<circ> pm_Manifest) ps\<rparr>, FileHolds ps) else (r1, f)))"

section \<open>Registration and heartbeats\<close>

definition freshEntry :: "time \<Rightarrow> ShellManifest \<Rightarrow> registry_entry" where
  "freshEntry now m =
     \<lparr>en_manifest = m, en_lastHeartbeat = now, en_dynamic = True, en_serviceKeyID = '''', en_serviceKeyHash = '''', en_serviceKeyPrevHash = '''',
      en_serviceKeyRotatedAt = zero_time, en_serviceKeyRevoked = False, en_serviceKeyAuthAt = None\<rparr>"

definition keepServiceKey :: "registry_entry \<Rightarrow> registry_entry \<Rightarrow> registry_entry" where
  "keepServiceKey prev e =
     e\<lparr>en_manifest := (en_manifest e)\<lparr>sm_APIKey := sm_APIKey (en_manifest prev)\<rparr>, en_serviceKeyID := en_serviceKeyID prev,
       en_serviceKeyHash := en_serviceKeyHash prev, en_serviceKeyPrevHash := en_serviceKeyPrevHash prev,
       en_serviceKeyRotatedAt := en_serviceKeyRotatedAt prev, en_serviceKeyRevoked := en_serviceKeyRevoked prev,
       en_serviceKeyAuthAt := en_serviceKeyAuthAt prev\<rparr>"

definition Upsert :: "reg_env \<Rightarrow> ShellManifest \<Rightarrow> ShellRegistry \<Rightarrow> manifest_file \<Rightarrow> ShellRegistry \<times> manifest_file \<times> manifest_error option" where
  "Upsert env m r f =
     (case registrable env m r of
        Some e \<Rightarrow> (r, f, Some e)
      | None \<Rightarrow>
          (let e0 = freshEntry (re_now env) m;
               e = (case map_of (rg_dynamic r) (sm_ID m) of
                      Some prev \<Rightarrow> if sm_APIKey m = '''' then keepServiceKey prev e0 else e0
                    | None \<Rightarrow> e0);
               (r', f') = registry_save env (r\<lparr>rg_dynamic := AList.update (sm_ID m) e (rg_dynamic r)\<rparr>) f
           in (r', f', None)))"

definition Heartbeat :: "reg_env \<Rightarrow> string \<Rightarrow> ShellRegistry \<Rightarrow> ShellRegistry \<times> manifest_error option" where
  "Heartbeat env ident r =
     (case map_of (rg_dynamic r) ident of
        None \<Rightarrow> (r, Some NotRegistered)
      | Some e \<Rightarrow> (r\<lparr>rg_dynamic := AList.update ident (e\<lparr>en_lastHeartbeat := re_now env\<rparr>) (rg_dynamic r)\<rparr>, None))"

definition HeartbeatWithManifest ::
  "reg_env \<Rightarrow> string \<Rightarrow> ShellManifest option \<Rightarrow> ShellRegistry \<Rightarrow> manifest_file \<Rightarrow> ShellRegistry \<times> manifest_file \<times> manifest_error option" where
  "HeartbeatWithManifest env ident body r f =
     (case body of
        None \<Rightarrow> (case Heartbeat env ident r of (r', err) \<Rightarrow> (r', f, err))
      | Some m \<Rightarrow>
          if sm_ID m \<noteq> ident then (r, f, Some IDMismatch)
          else (case registrable env m r of
                  Some e \<Rightarrow> (r, f, Some e)
                | None \<Rightarrow>
                    (case map_of (rg_dynamic r) ident of
                       None \<Rightarrow> (r, f, Some NotRegistered)
                     | Some e \<Rightarrow>
                         (let fresh = (if sm_APIKey m = '''' then m\<lparr>sm_APIKey := sm_APIKey (en_manifest e)\<rparr> else m);
                              (r', f') = registry_save env
                                (r\<lparr>rg_dynamic := AList.update ident (e\<lparr>en_manifest := fresh, en_lastHeartbeat := re_now env\<rparr>) (rg_dynamic r)\<rparr>) f
                          in (r', f', None)))))"

definition MarkBuiltin :: "string \<Rightarrow> ShellRegistry \<Rightarrow> ShellRegistry" where
  "MarkBuiltin ident r = r\<lparr>rg_builtins := List.insert ident (rg_builtins r)\<rparr>"

definition registry_Remove :: "reg_env \<Rightarrow> string \<Rightarrow> ShellRegistry \<Rightarrow> manifest_file \<Rightarrow> ShellRegistry \<times> manifest_file \<times> manifest_error option" where
  "registry_Remove env ident r f =
     (if ident \<in> set (rg_builtins r) then (r, f, Some ErrManifestStatic)
      else if map_of (rg_dynamic r) ident = None then
        (r, f, Some (if list_ex (\<lambda>m. sm_ID m = ident) (rg_staticFallback r) then ErrManifestStatic else ErrManifestNotFound))
      else (case registry_save env (r\<lparr>rg_dynamic := AList.delete ident (rg_dynamic r)\<rparr>) f of (r', f') \<Rightarrow> (r', f', None)))"

definition ReplaceStatic :: "ShellManifest list \<Rightarrow> ShellRegistry \<Rightarrow> ShellRegistry" where
  "ReplaceStatic manifests r =
     r\<lparr>rg_staticFallback := manifests,
       rg_lastHealthy := filter (\<lambda>(ident, t). list_ex (\<lambda>m. sm_ID m = ident) manifests) (rg_lastHealthy r)\<rparr>"

definition RecordHealth :: "reg_env \<Rightarrow> string \<Rightarrow> bool \<Rightarrow> ShellRegistry \<Rightarrow> ShellRegistry" where
  "RecordHealth env ident healthy r =
     r\<lparr>rg_lastHealthy := (if healthy then AList.update ident (re_now env) (rg_lastHealthy r) else AList.delete ident (rg_lastHealthy r))\<rparr>"

section \<open>Service keys\<close>

definition serviceKeyPrefix :: string where
  "serviceKeyPrefix = ''fm-''"

definition generateServiceKey :: "reg_env \<Rightarrow> string \<Rightarrow> (string \<times> string) option" where
  "generateServiceKey env moduleID =
     map_option (\<lambda>rnd. let plaintext = serviceKeyPrefix @ moduleID @ ''-'' @ rnd in (plaintext, take 16 (re_sha env plaintext))) (re_rnd env)"

text \<open>The key id, the plaintext when it was issued now, and whether it was.\<close>

definition EnsureServiceKey ::
  "reg_env \<Rightarrow> string \<Rightarrow> ShellRegistry \<Rightarrow> manifest_file \<Rightarrow> ShellRegistry \<times> manifest_file \<times> (manifest_error + string \<times> string \<times> bool)" where
  "EnsureServiceKey env ident r f =
     (case map_of (rg_dynamic r) ident of
        None \<Rightarrow> (r, f, Inl ErrManifestNotFound)
      | Some e \<Rightarrow>
          if en_serviceKeyHash e \<noteq> '''' \<and> \<not> en_serviceKeyRevoked e then (r, f, Inr (en_serviceKeyID e, '''', False))
          else (case generateServiceKey env ident of
                  None \<Rightarrow> (r, f, Inl NoEntropy)
                | Some (plaintext, keyID) \<Rightarrow>
                    (let e' = e\<lparr>en_manifest := (en_manifest e)\<lparr>sm_APIKey := plaintext\<rparr>, en_serviceKeyID := keyID,
                           en_serviceKeyHash := re_sha env plaintext, en_serviceKeyPrevHash := '''', en_serviceKeyRotatedAt := re_now env,
                           en_serviceKeyRevoked := False\<rparr>;
                         (r', f') = registry_save env (r\<lparr>rg_dynamic := AList.update ident e' (rg_dynamic r)\<rparr>) f
                     in (r', f', Inr (keyID, plaintext, True)))))"

definition RotateServiceKey ::
  "reg_env \<Rightarrow> string \<Rightarrow> ShellRegistry \<Rightarrow> manifest_file \<Rightarrow> ShellRegistry \<times> manifest_file \<times> (manifest_error + string \<times> string)" where
  "RotateServiceKey env ident r f =
     (case map_of (rg_dynamic r) ident of
        None \<Rightarrow> (r, f, Inl ErrManifestNotFound)
      | Some e \<Rightarrow>
          if ident \<in> set (rg_builtins r) then (r, f, Inl ErrManifestStatic)
          else if en_serviceKeyHash e = '''' \<or> en_serviceKeyRevoked e then (r, f, Inl ErrNoServiceKey)
          else (case generateServiceKey env ident of
                  None \<Rightarrow> (r, f, Inl NoEntropy)
                | Some (plaintext, keyID) \<Rightarrow>
                    (let e' = e\<lparr>en_manifest := (en_manifest e)\<lparr>sm_APIKey := plaintext\<rparr>, en_serviceKeyPrevHash := en_serviceKeyHash e,
                           en_serviceKeyID := keyID, en_serviceKeyHash := re_sha env plaintext, en_serviceKeyRotatedAt := re_now env\<rparr>;
                         (r', f') = registry_save env (r\<lparr>rg_dynamic := AList.update ident e' (rg_dynamic r)\<rparr>) f
                     in (r', f', Inr (keyID, plaintext)))))"

definition RevokeServiceKey :: "reg_env \<Rightarrow> string \<Rightarrow> ShellRegistry \<Rightarrow> manifest_file \<Rightarrow> ShellRegistry \<times> manifest_file \<times> manifest_error option" where
  "RevokeServiceKey env ident r f =
     (case map_of (rg_dynamic r) ident of
        None \<Rightarrow> (r, f, Some ErrManifestNotFound)
      | Some e \<Rightarrow>
          if ident \<in> set (rg_builtins r) then (r, f, Some ErrManifestStatic)
          else if en_serviceKeyHash e = '''' then (r, f, Some ErrNoServiceKey)
          else
            (let e' = e\<lparr>en_manifest := (en_manifest e)\<lparr>sm_APIKey := ''''\<rparr>, en_serviceKeyID := '''', en_serviceKeyHash := '''',
                   en_serviceKeyPrevHash := '''', en_serviceKeyRotatedAt := zero_time, en_serviceKeyRevoked := True\<rparr>;
                 (r', f') = registry_save env (r\<lparr>rg_dynamic := AList.update ident e' (rg_dynamic r)\<rparr>) f
             in (r', f', None)))"

datatype KeyState = KeyCurrent | KeyStale

text \<open>The first successful authentication of a module is written to the store.\<close>

definition AuthServiceKey ::
  "reg_env \<Rightarrow> duration \<Rightarrow> string \<Rightarrow> string \<Rightarrow> ShellRegistry \<Rightarrow> manifest_file \<Rightarrow> ShellRegistry \<times> manifest_file \<times> KeyState option" where
  "AuthServiceKey env grace ident hash r f =
     (case map_of (rg_dynamic r) ident of
        None \<Rightarrow> (r, f, None)
      | Some e \<Rightarrow>
          if hash = '''' \<or> en_serviceKeyRevoked e then (r, f, None)
          else
            (let accept = (\<lambda>e' state.
                   let r' = r\<lparr>rg_dynamic := AList.update ident (e'\<lparr>en_serviceKeyAuthAt := Some (re_now env)\<rparr>) (rg_dynamic r)\<rparr>
                   in if en_serviceKeyAuthAt e = None then (case registry_save env r' f of (r'', f'') \<Rightarrow> (r'', f'', Some state))
                      else (r', f, Some state))
             in if hash = en_serviceKeyHash e then accept (e\<lparr>en_serviceKeyPrevHash := ''''\<rparr>) KeyCurrent
                else if en_serviceKeyPrevHash e \<noteq> '''' \<and> hash = en_serviceKeyPrevHash e \<and> re_now env - en_serviceKeyRotatedAt e \<le> grace
                then accept e KeyStale
                else (r, f, None)))"

definition ServiceKeyConsumed :: "string \<Rightarrow> ShellRegistry \<Rightarrow> bool" where
  "ServiceKeyConsumed ident r = (case map_of (rg_dynamic r) ident of None \<Rightarrow> False | Some e \<Rightarrow> en_serviceKeyAuthAt e \<noteq> None)"

definition DynamicRegistered :: "string \<Rightarrow> ShellRegistry \<Rightarrow> bool" where
  "DynamicRegistered ident r \<longleftrightarrow> map_of (rg_dynamic r) ident \<noteq> None"

definition IsServiceKeyRevoked :: "string \<Rightarrow> ShellRegistry \<Rightarrow> bool" where
  "IsServiceKeyRevoked ident r = (case map_of (rg_dynamic r) ident of None \<Rightarrow> False | Some e \<Rightarrow> en_serviceKeyRevoked e)"

definition ServiceKeyID :: "string \<Rightarrow> ShellRegistry \<Rightarrow> string" where
  "ServiceKeyID ident r = (case map_of (rg_dynamic r) ident of None \<Rightarrow> '''' | Some e \<Rightarrow> en_serviceKeyID e)"

definition IsServiceKeyPlaintext :: "string \<Rightarrow> bool" where
  "IsServiceKeyPlaintext plaintext = HasPrefix plaintext serviceKeyPrefix"

definition IsModuleServiceKey :: "string \<Rightarrow> string \<Rightarrow> bool" where
  "IsModuleServiceKey plaintext moduleID \<longleftrightarrow> moduleID \<noteq> '''' \<and> HasPrefix plaintext (serviceKeyPrefix @ moduleID @ ''-'')"

section \<open>Listing and routing\<close>

definition normalizeCategory :: "string \<Rightarrow> string" where
  "normalizeCategory raw =
     (if raw \<in> {''core'', ''governance'', ''domain'', ''platform''} then raw
      else if raw = ''dev'' then ''core'' else if raw = ''infra'' then ''platform'' else ''platform'')"

definition statusOf :: "registry_entry \<Rightarrow> time \<Rightarrow> duration \<Rightarrow> Status" where
  "statusOf e now expiry = (if now - en_lastHeartbeat e \<le> expiry then StatusOnline else StatusUnreachable)"

definition effectiveSort :: "ShellManifest \<Rightarrow> int" where
  "effectiveSort m = (if sm_Sort m \<le> 0 then 2 ^ 30 else sm_Sort m)"

definition dynamicView :: "reg_env \<Rightarrow> ShellRegistry \<Rightarrow> registry_entry \<Rightarrow> ManifestView" where
  "dynamicView env r e =
     (let status = statusOf e (re_now env) (rg_heartbeatExpiry r); m = en_manifest e;
          m1 = (case find (\<lambda>s. sm_ID s = sm_ID m) (rg_staticFallback r) of
                  Some s \<Rightarrow> m\<lparr>sm_Category := sm_Category s, sm_Sort := sm_Sort s\<rparr> | None \<Rightarrow> m)
      in \<lparr>mv_Manifest = m1\<lparr>sm_APIKey := '''', sm_Category := normalizeCategory (sm_Category m1)\<rparr>, mv_Status = status,
          mv_LastHeartbeat = en_lastHeartbeat e, mv_Registered = True, mv_Unreachable = (status \<noteq> StatusOnline)\<rparr>)"

definition staticView :: "reg_env \<Rightarrow> ShellRegistry \<Rightarrow> ShellManifest \<Rightarrow> ManifestView" where
  "staticView env r m =
     (let status = (case map_of (rg_lastHealthy r) (sm_ID m) of
            Some t \<Rightarrow> if re_now env - t \<le> rg_heartbeatExpiry r then StatusOnline else StatusOffline
          | None \<Rightarrow> StatusOffline)
      in \<lparr>mv_Manifest = m\<lparr>sm_APIKey := '''', sm_Category := normalizeCategory (sm_Category m)\<rparr>, mv_Status = status,
          mv_LastHeartbeat = zero_time, mv_Registered = False, mv_Unreachable = (status \<noteq> StatusOnline)\<rparr>)"

definition registry_List :: "reg_env \<Rightarrow> ShellRegistry \<Rightarrow> ManifestView list" where
  "registry_List env r =
     sort_key (\<lambda>v. (effectiveSort (mv_Manifest v), sm_ID (mv_Manifest v)))
       (map (dynamicView env r \<circ> snd) (iterate (re_it env) (rg_dynamic r)) @
        map (staticView env r) (filter (\<lambda>m. map_of (rg_dynamic r) (sm_ID m) = None) (rg_staticFallback r)))"

definition UpstreamFor :: "string \<Rightarrow> ShellRegistry \<Rightarrow> (string \<times> string) option" where
  "UpstreamFor ident r =
     (case map_of (rg_dynamic r) ident of
        None \<Rightarrow> None
      | Some e \<Rightarrow> if sm_Upstream (en_manifest e) = '''' then None else Some (sm_Upstream (en_manifest e), sm_APIKey (en_manifest e)))"

definition CredentialFor :: "string \<Rightarrow> ShellRegistry \<Rightarrow> string option" where
  "CredentialFor ident r = map_option (\<lambda>e. sm_APIKey (en_manifest e)) (map_of (rg_dynamic r) ident)"

definition extEndpointMatches :: "string \<Rightarrow> string \<Rightarrow> bool" where
  "extEndpointMatches endpoint path \<longleftrightarrow> endpoint \<noteq> '''' \<and> (path = endpoint \<or> HasPrefix path (endpoint @ ''/''))"

definition manifestHasExtEndpoint :: "ShellManifest \<Rightarrow> string \<Rightarrow> bool" where
  "manifestHasExtEndpoint m path \<longleftrightarrow> path \<noteq> '''' \<and>
     (list_ex (\<lambda>p. extEndpointMatches (sp_Endpoint p) path) (sm_SearchProviders m) \<or>
      list_ex (\<lambda>n. extEndpointMatches (nt_Endpoint n) path) (sm_Notifications m))"

definition ExtRouteFor :: "string \<Rightarrow> string \<Rightarrow> ShellRegistry \<Rightarrow> (string \<times> string) option" where
  "ExtRouteFor ident path r =
     (case map_of (rg_dynamic r) ident of
        None \<Rightarrow> None
      | Some e \<Rightarrow>
          (let m = en_manifest e; rel = ''/'' @ TrimPrefix (TrimPrefix path (''/shell/'' @ ident @ ''/'')) ''/''
           in if sm_Upstream m = '''' \<or> \<not> manifestHasExtEndpoint m path \<and> \<not> manifestHasExtEndpoint m rel then None
              else Some (sm_Upstream m, sm_APIKey m)))"

end
