(* ===== verification/Shell_Keys.thy ===== *)
theory Shell_Keys
  imports Shell_Registry
begin

text \<open>
  What the service keys of the manifest registry promise.  Histories of one gateway process are sequences of registry operations; a ledger that sees only
  requests and answers says which keys a module holds.
\<close>

section \<open>Saving does not change the registrations\<close>

text \<open>The store file holds nothing the process has not written or read itself.\<close>

definition own_file :: "ShellRegistry \<Rightarrow> manifest_file \<Rightarrow> bool" where
  "own_file r f \<longleftrightarrow> (\<forall>ps. f = FileHolds ps \<longrightarrow> (\<forall>p \<in> set ps. sm_ID (pm_Manifest p) \<in> set (rg_lastPersisted r)))"

lemma adopt_own: "own_file r f \<Longrightarrow> adoptForeign env f r = r"
proof (cases f)
  case (FileHolds ps)
  assume "own_file r f"
  then have o: "\<forall>p \<in> set ps. sm_ID (pm_Manifest p) \<in> set (rg_lastPersisted r)" using FileHolds by (simp add: own_file_def)
  have "fold (\<lambda>p d. let ident = sm_ID (pm_Manifest p)
              in if map_of d ident \<noteq> None \<or> ident \<in> set (rg_lastPersisted r) \<or> validateForStoreLocked env (pm_Manifest p) r \<noteq> None then d
                 else AList.update ident (restoreEntry p) d) ps D = D" for D
    using o by (induction ps arbitrary: D) (auto simp: Let_def)
  then show ?thesis using FileHolds by (simp add: adoptForeign_def)
qed (simp_all add: adoptForeign_def)

lemma own_file_dynamic [simp]: "own_file (r\<lparr>rg_dynamic := d\<rparr>) f = own_file r f"
  by (simp add: own_file_def)

lemma save_own:
  assumes "own_file r f" and "registry_save env r f = (r', f')"
  shows "own_file r' f'" "rg_dynamic r' = rg_dynamic r" "rg_builtins r' = rg_builtins r"
  using assms by (auto simp: registry_save_def adopt_own own_file_def Let_def split: if_splits)

section \<open>Histories\<close>

datatype reg_op =
  RUpsert ShellManifest | RBeat string "ShellManifest option" | RRemove string | REnsure string | RRotate string | RRevoke string
| RAuth duration string string | RHealth string bool

type_synonym key_ledger = "string \<Rightarrow> string list"

text \<open>One operation with what the ledger learns from its answer: issued keys enter, a revocation, a removal and an own key of the module end them.\<close>

fun registry_step :: "ShellRegistry \<times> manifest_file \<times> key_ledger \<Rightarrow> reg_env \<times> reg_op \<Rightarrow> ShellRegistry \<times> manifest_file \<times> key_ledger" where
  "registry_step (r, f, G) (env, RUpsert m) =
     (case Upsert env m r f of (r', f', err) \<Rightarrow> (r', f', if err = None \<and> sm_APIKey m \<noteq> '''' then G(sm_ID m := []) else G))"
| "registry_step (r, f, G) (env, RBeat ident m) = (case HeartbeatWithManifest env ident m r f of (r', f', err) \<Rightarrow> (r', f', G))"
| "registry_step (r, f, G) (env, RRemove ident) = (case registry_Remove env ident r f of (r', f', err) \<Rightarrow> (r', f', if err = None then G(ident := []) else G))"
| "registry_step (r, f, G) (env, REnsure ident) =
     (case EnsureServiceKey env ident r f of
        (r', f', Inr (keyID, plaintext, True)) \<Rightarrow> (r', f', G(ident := re_sha env plaintext # G ident))
      | (r', f', _) \<Rightarrow> (r', f', G))"
| "registry_step (r, f, G) (env, RRotate ident) =
     (case RotateServiceKey env ident r f of
        (r', f', Inr (keyID, plaintext)) \<Rightarrow> (r', f', G(ident := re_sha env plaintext # G ident))
      | (r', f', Inl _) \<Rightarrow> (r', f', G))"
| "registry_step (r, f, G) (env, RRevoke ident) = (case RevokeServiceKey env ident r f of (r', f', err) \<Rightarrow> (r', f', if err = None then G(ident := []) else G))"
| "registry_step (r, f, G) (env, RAuth grace ident hash) = (case AuthServiceKey env grace ident hash r f of (r', f', st) \<Rightarrow> (r', f', G))"
| "registry_step (r, f, G) (env, RHealth ident ok) = (RecordHealth env ident ok r, f, G)"

text \<open>The hashes of an entry are keys of the ledger.\<close>

definition key_ok :: "string list \<Rightarrow> registry_entry \<Rightarrow> bool" where
  "key_ok ks e \<longleftrightarrow> (en_serviceKeyHash e \<noteq> '''' \<longrightarrow> en_serviceKeyHash e \<in> set ks) \<and> (en_serviceKeyPrevHash e \<noteq> '''' \<longrightarrow> en_serviceKeyPrevHash e \<in> set ks)"

definition reg_inv :: "ShellRegistry \<times> manifest_file \<times> key_ledger \<Rightarrow> bool" where
  "reg_inv = (\<lambda>(r, f, G). own_file r f \<and> (\<forall>k e. map_of (rg_dynamic r) k = Some e \<longrightarrow> key_ok (G k) e))"

lemma save_inv:
  assumes "own_file r f" and "\<forall>k e. map_of d k = Some e \<longrightarrow> key_ok (G k) e"
    and "registry_save env (r\<lparr>rg_dynamic := d\<rparr>) f = (r', f')"
  shows "reg_inv (r', f', G)"
  using save_own [OF _ assms(3)] assms(1,2) by (simp add: reg_inv_def)

lemma key_ok_simps:
  "key_ok ks (e\<lparr>en_manifest := m\<rparr>) = key_ok ks e" "key_ok ks (e\<lparr>en_lastHeartbeat := t\<rparr>) = key_ok ks e"
  "key_ok ks (e\<lparr>en_serviceKeyAuthAt := t'\<rparr>) = key_ok ks e" "key_ok ks e \<Longrightarrow> key_ok ks (e\<lparr>en_serviceKeyPrevHash := ''''\<rparr>)"
  "key_ok ks (freshEntry t m)" "key_ok ks e \<Longrightarrow> key_ok ks (keepServiceKey e x)" "key_ok ks e \<Longrightarrow> key_ok (k # ks) e"
  by (auto simp: key_ok_def freshEntry_def keepServiceKey_def)

lemma put_inv:
  assumes "reg_inv (r, f, G)" and "registry_save env (r\<lparr>rg_dynamic := AList.update ident e (rg_dynamic r)\<rparr>) f = (r', f')"
    and "key_ok (G' ident) e" and "\<forall>k. k \<noteq> ident \<longrightarrow> G' k = G k"
  shows "reg_inv (r', f', G')"
proof -
  have "\<forall>k x. map_of (AList.update ident e (rg_dynamic r)) k = Some x \<longrightarrow> key_ok (G' k) x"
    using assms(1,3,4) by (auto simp: update_conv' reg_inv_def)
  then show ?thesis using save_inv [OF _ _ assms(2)] assms(1) by (simp add: reg_inv_def)
qed

lemma put_unsaved:
  assumes "reg_inv (r, f, G)" and "key_ok (G ident) e"
  shows "reg_inv (r\<lparr>rg_dynamic := AList.update ident e (rg_dynamic r)\<rparr>, f, G)"
  using assms by (auto simp: reg_inv_def update_conv')

lemma entry_ok: "reg_inv (r, f, G) \<Longrightarrow> map_of (rg_dynamic r) k = Some e \<Longrightarrow> key_ok (G k) e"
  by (simp add: reg_inv_def)

lemma upsert_inv:
  assumes "reg_inv (r, f, G)"
  shows "reg_inv (registry_step (r, f, G) (env, RUpsert m))"
proof (cases "registrable env m r")
  case None
  define G' where "G' = (if sm_APIKey m \<noteq> '''' then G(sm_ID m := []) else G)"
  define e where "e = (case map_of (rg_dynamic r) (sm_ID m) of
      Some prev \<Rightarrow> if sm_APIKey m = '''' then keepServiceKey prev (freshEntry (re_now env) m) else freshEntry (re_now env) m
    | None \<Rightarrow> freshEntry (re_now env) m)"
  have k: "key_ok (G' (sm_ID m)) e" using entry_ok [OF assms] by (auto simp: e_def G'_def key_ok_simps split: option.split)
  obtain r' f' where s: "registry_save env (r\<lparr>rg_dynamic := AList.update (sm_ID m) e (rg_dynamic r)\<rparr>) f = (r', f')" by fastforce
  have "Upsert env m r f = (r', f', None)" using s by (simp add: Upsert_def None Let_def flip: e_def)
  then have "registry_step (r, f, G) (env, RUpsert m) = (r', f', G')" by (simp add: G'_def)
  then show ?thesis using put_inv [OF assms s, of G'] k by (auto simp: G'_def split: if_splits)
qed (use assms in \<open>simp add: Upsert_def\<close>)

lemma beat_inv:
  assumes "reg_inv (r, f, G)"
  shows "reg_inv (registry_step (r, f, G) (env, RBeat ident body))"
proof (cases "map_of (rg_dynamic r) ident")
  case (Some e)
  note k = entry_ok [OF assms Some]
  show ?thesis
  proof (cases body)
    case (Some m)
    define e' where "e' = e\<lparr>en_manifest := (if sm_APIKey m = '''' then m\<lparr>sm_APIKey := sm_APIKey (en_manifest e)\<rparr> else m), en_lastHeartbeat := re_now env\<rparr>"
    obtain r' f' where s: "registry_save env (r\<lparr>rg_dynamic := AList.update ident e' (rg_dynamic r)\<rparr>) f = (r', f')" by fastforce
    have "key_ok (G ident) e'" using k by (simp add: e'_def key_ok_simps)
    then have "reg_inv (r', f', G)" using put_inv [OF assms s, of G] by simp
    then show ?thesis using assms s Some \<open>map_of (rg_dynamic r) ident = Some e\<close>
      by (simp add: HeartbeatWithManifest_def Let_def flip: e'_def split: option.split)
  next
    case None
    then show ?thesis using put_unsaved [OF assms, of ident "e\<lparr>en_lastHeartbeat := re_now env\<rparr>"] k Some
      by (simp add: HeartbeatWithManifest_def Heartbeat_def key_ok_simps)
  qed
qed (use assms in \<open>auto simp: HeartbeatWithManifest_def Heartbeat_def split: option.split\<close>)

lemma remove_inv:
  assumes "reg_inv (r, f, G)"
  shows "reg_inv (registry_step (r, f, G) (env, RRemove ident))"
proof -
  have d: "\<forall>k x. map_of (AList.delete ident (rg_dynamic r)) k = Some x \<longrightarrow> key_ok ((G(ident := [])) k) x"
    using assms by (auto simp: delete_conv' reg_inv_def)
  obtain r' f' where s: "registry_save env (r\<lparr>rg_dynamic := AList.delete ident (rg_dynamic r)\<rparr>) f = (r', f')" by fastforce
  then have "reg_inv (r', f', G(ident := []))" using save_inv [where G = "G(ident := [])", OF _ d s] assms by (simp add: reg_inv_def)
  then show ?thesis using s assms by (auto simp: registry_Remove_def)
qed

lemma key_steps_inv:
  assumes "reg_inv (r, f, G)"
  shows "reg_inv (registry_step (r, f, G) (env, REnsure ident))" "reg_inv (registry_step (r, f, G) (env, RRotate ident))"
    "reg_inv (registry_step (r, f, G) (env, RRevoke ident))"
proof -
  note put = put_inv [OF assms]
  show "reg_inv (registry_step (r, f, G) (env, REnsure ident))"
    using assms entry_ok [OF assms] by (auto simp: EnsureServiceKey_def Let_def key_ok_def split: option.split prod.split elim!: put)
  show "reg_inv (registry_step (r, f, G) (env, RRotate ident))"
    using assms entry_ok [OF assms, of ident] by (auto simp: RotateServiceKey_def Let_def key_ok_def split: option.split prod.split elim!: put)
  show "reg_inv (registry_step (r, f, G) (env, RRevoke ident))"
    using assms by (auto simp: RevokeServiceKey_def Let_def key_ok_def split: option.split prod.split elim!: put)
qed

lemma auth_inv:
  assumes "reg_inv (r, f, G)"
  shows "reg_inv (registry_step (r, f, G) (env, RAuth grace ident hash))"
proof (cases "map_of (rg_dynamic r) ident")
  case (Some e)
  note k = entry_ok [OF assms Some]
  have "key_ok (G ident) (x\<lparr>en_serviceKeyAuthAt := Some t\<rparr>)" if "x = e \<or> x = e\<lparr>en_serviceKeyPrevHash := ''''\<rparr>" for x t
    using k that by (auto simp: key_ok_def)
  then have u: "key_ok (G ident) (e\<lparr>en_serviceKeyAuthAt := Some (re_now env)\<rparr>)"
      "key_ok (G ident) (e\<lparr>en_serviceKeyPrevHash := '''', en_serviceKeyAuthAt := Some (re_now env)\<rparr>)" by auto
  show ?thesis
    using assms Some put_unsaved [OF assms u(1)] put_unsaved [OF assms u(2)]
    by (auto simp: AuthServiceKey_def Let_def split: prod.split elim!: put_inv [OF assms] intro: u)
qed (use assms in \<open>simp add: AuthServiceKey_def\<close>)

interpretation registry: step_system registry_step reg_inv
proof
  fix s :: "ShellRegistry \<times> manifest_file \<times> key_ledger" and q :: "reg_env \<times> reg_op"
  assume i: "reg_inv s"
  obtain r f G where s: "s = (r, f, G)" by (metis surj_pair)
  obtain env x where q: "q = (env, x)" by (metis surj_pair)
  show "reg_inv (registry_step s q)"
  proof (cases x)
    case (RHealth ident ok)
    then show ?thesis using i by (simp add: s q reg_inv_def own_file_def RecordHealth_def)
  qed (use i in \<open>simp_all only: s q upsert_inv beat_inv remove_inv key_steps_inv auth_inv\<close>)
qed

text \<open>
  C24. Only keys that were issued open a module: in every history of registrations, heartbeats, issues, rotations, revocations, removals and authentications of
  a gateway, with any write and lock failures, a presented key that is accepted for a module has the digest of a key that the gateway issued to this very
  module and did not revoke or drop since.
\<close>
theorem accepted_key_was_issued:
  assumes "run_steps registry_step (registry_SetPersistence path (NewShellRegistry static allow expiry), FileMissing, \<lambda>_. []) history = (r, f, ledger)"
    and "AuthServiceKey env grace ident hash r f = (r', f', Some state)"
  shows "hash \<in> set (ledger ident)"
proof -
  have "reg_inv (registry_SetPersistence path (NewShellRegistry static allow expiry), FileMissing, \<lambda>_. [])"
    by (simp add: reg_inv_def own_file_def registry_SetPersistence_def NewShellRegistry_def)
  then have "reg_inv (r, f, ledger)" using registry.run_inv assms(1) by metis
  then have "map_of (rg_dynamic r) ident = Some e \<Longrightarrow> key_ok (ledger ident) e" for e by (rule entry_ok)
  then show ?thesis using assms(2) by (auto simp: AuthServiceKey_def key_ok_def Let_def split: option.splits if_splits)
qed

section \<open>Registrations survive saving and restarting\<close>

definition adoptStep :: "reg_env \<Rightarrow> ShellRegistry \<Rightarrow> persistedManifest \<Rightarrow> (string \<times> registry_entry) list \<Rightarrow> (string \<times> registry_entry) list" where
  "adoptStep env r p d =
     (let ident = sm_ID (pm_Manifest p)
      in if map_of d ident \<noteq> None \<or> ident \<in> set (rg_lastPersisted r) \<or> validateForStoreLocked env (pm_Manifest p) r \<noteq> None then d
         else AList.update ident (restoreEntry p) d)"

lemma adopt_fold: "adoptForeign env (FileHolds ps) r = r\<lparr>rg_dynamic := fold (adoptStep env r) ps (rg_dynamic r)\<rparr>"
  unfolding adoptForeign_def adoptStep_def by simp

lemma adopt_invariant:
  assumes "P (rg_dynamic r)" and "\<And>p d. P d \<Longrightarrow> P (adoptStep env r p d)"
  shows "P (rg_dynamic (adoptForeign env f r))"
proof (cases f)
  case (FileHolds ps)
  have "P d \<Longrightarrow> P (fold (adoptStep env r) ps d)" for d by (induction ps arbitrary: d) (simp_all add: assms(2))
  then show ?thesis using assms(1) FileHolds by (simp add: adopt_fold)
qed (use assms(1) in \<open>simp_all add: adoptForeign_def\<close>)

lemma adopt_keeps: "map_of (rg_dynamic r) k = Some e \<Longrightarrow> map_of (rg_dynamic (adoptForeign env f r)) k = Some e"
  by (rule adopt_invariant) (auto simp: adoptStep_def Let_def update_conv')

lemma save_keeps:
  assumes "registry_save env r f = (r', f')" and "map_of (rg_dynamic r) k = Some e"
  shows "map_of (rg_dynamic r') k = Some e"
  using assms adopt_keeps by (auto simp: registry_save_def Let_def split: if_splits)

text \<open>Entries are filed under the id of their manifest.\<close>

definition reg_wf :: "(string \<times> registry_entry) list \<Rightarrow> bool" where
  "reg_wf d \<longleftrightarrow> distinct (map fst d) \<and> (\<forall>(k, e) \<in> set d. sm_ID (en_manifest e) = k \<and> en_dynamic e)"

lemma set_update_subset: "set (AList.update k v xs) \<subseteq> insert (k, v) (set xs)"
  by (induction xs) auto

lemma reg_wf_update: "reg_wf d \<Longrightarrow> sm_ID (en_manifest e) = k \<Longrightarrow> en_dynamic e \<Longrightarrow> reg_wf (AList.update k e d)"
  using set_update_subset [of k e d] by (auto simp: reg_wf_def distinct_update)

lemma adopt_wf: "reg_wf (rg_dynamic r) \<Longrightarrow> reg_wf (rg_dynamic (adoptForeign env f r))"
  by (rule adopt_invariant) (simp_all add: adoptStep_def Let_def reg_wf_update restoreEntry_def)

lemma persist_manifest [simp]: "pm_Manifest (persistEntry e) = en_manifest e"
  by (simp add: persistEntry_def)

lemma restore_persist: "en_dynamic e \<Longrightarrow> restoreEntry (persistEntry e) = e"
  by (simp add: restoreEntry_def persistEntry_def)

lemma load_fold:
  assumes "reg_wf xs"
  shows "map_of (fold (\<lambda>p d. if bad (pm_Manifest p) then d else AList.update (sm_ID (pm_Manifest p)) (restoreEntry p) d)
       (map (persistEntry \<circ> snd) xs) D) k =
     (case map_of xs k of Some e \<Rightarrow> if bad (en_manifest e) then map_of D k else Some e | None \<Rightarrow> map_of D k)"
  using assms
proof (induction xs arbitrary: D)
  case (Cons x xs)
  obtain i e where x: "x = (i, e)" by (cases x)
  have w: "reg_wf xs" "sm_ID (en_manifest e) = i" "en_dynamic e" "map_of xs i = None"
    using Cons.prems by (auto simp: reg_wf_def x map_of_eq_None_iff)
  show ?case using Cons.IH [OF w(1), of D] Cons.IH [OF w(1), of "AList.update i e D"] w(2,4) restore_persist [OF w(3)]
    by (auto simp: x update_conv' split: option.splits)
qed simp

text \<open>
  A restart loses nothing: what a gateway saved is what it finds after a restart, heartbeats, credentials and the state of the keys included, except
  entries that the configuration no longer admits, whatever the order in which the file was written.
\<close>
theorem registry_roundtrip:
  assumes "reg_wf (rg_dynamic r)" and "rg_path r \<noteq> ''''" and "re_wr env" and "registry_save env r f = (r', f')"
    and "registry_Load env' f' (registry_SetPersistence (rg_path r) (NewShellRegistry static allow expiry)) = (fresh, ok)"
  shows "ok \<and> (\<forall>k. map_of (rg_dynamic fresh) k =
     (case map_of (rg_dynamic r') k of
        Some e \<Rightarrow> if validateForStoreLocked env' (en_manifest e) (registry_SetPersistence (rg_path r) (NewShellRegistry static allow expiry)) = None then Some e else None
      | None \<Rightarrow> None))"
proof -
  let ?r0 = "registry_SetPersistence (rg_path r) (NewShellRegistry static allow expiry)"
  define r1 where "r1 = (if re_lock env then adoptForeign env f r else r)"
  let ?xs = "iterate (re_it env) (rg_dynamic r1)"
  have f: "f' = FileHolds (map (persistEntry \<circ> snd) ?xs)" and d: "rg_dynamic r' = rg_dynamic r1"
    using assms(2-4) by (auto simp: registry_save_def r1_def Let_def)
  have w1: "reg_wf (rg_dynamic r1)" using assms(1) adopt_wf by (simp add: r1_def)
  then have w: "reg_wf ?xs" by (simp add: reg_wf_def)
  have m: "map_of ?xs = map_of (rg_dynamic r1)" using w w1 by (simp add: map_of_inject_set reg_wf_def)
  have "fresh = ?r0\<lparr>rg_dynamic := rg_dynamic fresh, rg_lastPersisted := map fst (rg_dynamic fresh)\<rparr> \<and> ok \<and>
      rg_dynamic fresh = fold (\<lambda>p d. if validateForStoreLocked env' (pm_Manifest p) ?r0 \<noteq> None then d
         else AList.update (sm_ID (pm_Manifest p)) (restoreEntry p) d) (map (persistEntry \<circ> snd) ?xs) []"
    using assms(2,5) by (auto simp: registry_Load_def f registry_SetPersistence_def NewShellRegistry_def Let_def)
  then show ?thesis using load_fold [OF w, of "\<lambda>m. validateForStoreLocked env' m ?r0 \<noteq> None" "[]"] m d by (auto split: option.split)
qed

section \<open>Where the keys depart from their description\<close>

text \<open>
  A heartbeat that carries a credential leaves the issued key alive: unlike a registration with a credential, which ends the issued key, it only swaps the
  credential the proxy sends, so the old service key still authenticates and the proxy no longer presents the key the gateway knows.
\<close>
theorem heartbeat_keeps_issued_key:
  assumes "map_of (rg_dynamic r) ident = Some e" and "en_serviceKeyHash e \<noteq> ''''" "\<not> en_serviceKeyRevoked e"
    and "sm_APIKey m \<noteq> ''''" "sm_ID m = ident"
    and "HeartbeatWithManifest env ident (Some m) r f = (r1, f1, None)" and "Upsert env m r f = (r2, f2, None)"
  shows "snd (snd (AuthServiceKey env' grace ident (en_serviceKeyHash e) r1 f1)) = Some KeyCurrent \<and> CredentialFor ident r1 = Some (sm_APIKey m) \<and>
    snd (snd (AuthServiceKey env' grace ident (en_serviceKeyHash e) r2 f2)) = None \<and> CredentialFor ident r2 = Some (sm_APIKey m)"
proof -
  have "map_of (rg_dynamic r1) ident = Some (e\<lparr>en_manifest := m, en_lastHeartbeat := re_now env\<rparr>)"
    using assms(1,4,5,6) by (auto simp: HeartbeatWithManifest_def Let_def update_conv' split: option.splits prod.splits elim!: save_keeps)
  moreover have "map_of (rg_dynamic r2) ident = Some (freshEntry (re_now env) m)"
    using assms(1,4,5,7) by (auto simp: Upsert_def Let_def update_conv' split: option.splits prod.splits elim!: save_keeps)
  ultimately show ?thesis using assms(2,3)
    by (auto simp: AuthServiceKey_def CredentialFor_def freshEntry_def Let_def split: prod.split)
qed

text \<open>
  A revoked key cannot be rotated: the refusal of a heartbeat tells the module that an administrator must rotate the revoked key, but rotation is refused after a
  revocation and changes nothing.
\<close>
theorem revoked_key_not_rotatable:
  assumes "RevokeServiceKey env ident r f = (r1, f1, None)"
  shows "RotateServiceKey env' ident r1 f1 = (r1, f1, Inl ErrNoServiceKey)"
proof -
  obtain e where e: "map_of (rg_dynamic r) ident = Some e" "ident \<notin> set (rg_builtins r)"
    using assms by (auto simp: RevokeServiceKey_def split: option.splits if_splits)
  define e' where "e' = e\<lparr>en_manifest := (en_manifest e)\<lparr>sm_APIKey := ''''\<rparr>, en_serviceKeyID := '''', en_serviceKeyHash := '''',
                   en_serviceKeyPrevHash := '''', en_serviceKeyRotatedAt := zero_time, en_serviceKeyRevoked := True\<rparr>"
  have s: "registry_save env (r\<lparr>rg_dynamic := AList.update ident e' (rg_dynamic r)\<rparr>) f = (r1, f1)"
    using assms e by (auto simp: RevokeServiceKey_def Let_def e'_def split: prod.splits if_splits)
  have "map_of (rg_dynamic r1) ident = Some e'" using save_keeps [OF s] by (simp add: update_conv')
  moreover have "rg_builtins r1 = rg_builtins r" using s by (auto simp: registry_save_def adoptForeign_def Let_def split: if_splits store_file.splits)
  ultimately show ?thesis using e(2) by (simp add: RotateServiceKey_def e'_def)
qed

text \<open>
  A second gateway on the same data directory undoes a revocation: it keeps its own copy of the entry and writes it back with its next registration of any
  other module, so after a restart the first gateway accepts the revoked key again.
\<close>
theorem peer_undoes_revocation:
  assumes "reg_wf (rg_dynamic rb)" and "map_of (rg_dynamic rb) ident = Some e" and "en_serviceKeyHash e \<noteq> ''''" "\<not> en_serviceKeyRevoked e"
    and "RevokeServiceKey env ident ra f = (ra1, f1, None)"
    and "Upsert env' m rb f1 = (rb1, f2, None)" "sm_ID m \<noteq> ident" "rg_path rb \<noteq> ''''" "re_wr env'"
    and "validateForStoreLocked env'' (en_manifest e) (registry_SetPersistence (rg_path rb) (NewShellRegistry static allow expiry)) = None"
    and "registry_Load env'' f2 (registry_SetPersistence (rg_path rb) (NewShellRegistry static allow expiry)) = (ra2, ok)"
  shows "IsServiceKeyRevoked ident ra1 \<and> snd (snd (AuthServiceKey env'' grace ident (en_serviceKeyHash e) ra2 f2)) = Some KeyCurrent"
proof -
  obtain x where s: "registry_save env' (rb\<lparr>rg_dynamic := AList.update (sm_ID m) x (rg_dynamic rb)\<rparr>) f1 = (rb1, f2)"
      and x: "sm_ID (en_manifest x) = sm_ID m" "en_dynamic x"
    using assms(6) by (auto simp: Upsert_def Let_def freshEntry_def keepServiceKey_def split: option.splits prod.splits if_splits)
  have w: "reg_wf (rg_dynamic (rb\<lparr>rg_dynamic := AList.update (sm_ID m) x (rg_dynamic rb)\<rparr>))" using reg_wf_update [OF assms(1) x] by simp
  have "map_of (rg_dynamic rb1) ident = Some e" using save_keeps [OF s] assms(2,7) by (simp add: update_conv')
  then have "map_of (rg_dynamic ra2) ident = Some e"
    using registry_roundtrip [OF w _ assms(9) s, of env'' static allow expiry ra2 ok] assms(8,10,11) by simp
  then have "snd (snd (AuthServiceKey env'' grace ident (en_serviceKeyHash e) ra2 f2)) = Some KeyCurrent"
    using assms(3,4) by (auto simp: AuthServiceKey_def Let_def split: prod.split)
  moreover have "IsServiceKeyRevoked ident ra1"
    using assms(5) by (auto simp: RevokeServiceKey_def IsServiceKeyRevoked_def Let_def update_conv' split: option.splits prod.splits if_splits dest!: save_keeps [where k = ident])
  ultimately show ?thesis by blast
qed

section \<open>Concrete histories\<close>

definition sample_manifest :: ShellManifest where
  "sample_manifest = \<lparr>sm_ID = ''fusion-a'', sm_Title = ''A'', sm_TitleEn = '''', sm_Version = '''', sm_Path = ''/a'', sm_Icon = '''', sm_Entry = ''/shell/fusion-a/'',
     sm_Health = '''', sm_Backend = '''', sm_Devices = [''desktop''], sm_Category = ''core'', sm_Upstream = '''', sm_APIKey = '''', sm_SearchProviders = [],
     sm_Pages = [], sm_Notifications = [], sm_Home = None, sm_PermissionsPolicy = [], sm_Group = '''', sm_GroupTitle = '''', sm_GroupTitleEn = '''',
     sm_Sort = 0, sm_ModelCapable = False, sm_SuggestedModel = ''''\<rparr>"

definition sample_reg_env :: reg_env where
  "sample_reg_env = \<lparr>re_now = 5, re_it = id, re_lock = True, re_wr = True, re_rnd = Some ''r1'', re_sha = (\<lambda>s. ''h'' @ s), re_url = (\<lambda>_. None)\<rparr>"

lemma sample_env_simps [simp]:
  "re_now sample_reg_env = 5" "re_wr sample_reg_env" "re_rnd sample_reg_env = Some ''r1''" "re_sha sample_reg_env s = ''h'' @ s"
  "sm_ID sample_manifest = ''fusion-a''" "sm_APIKey sample_manifest = ''''"
  by (simp_all add: sample_reg_env_def sample_manifest_def)

lemma sample_registrable [simp]:
  "registrable sample_reg_env sample_manifest r = None" "registrable sample_reg_env (sample_manifest\<lparr>sm_ID := ''fusion-b''\<rparr>) r = None"
  "validateForStoreLocked sample_reg_env (sample_manifest\<lparr>sm_APIKey := k\<rparr>) r = None"
  by (simp_all add: registrable_def validateForStoreLocked_def validateManifest_def sample_manifest_def ValidManifestCategory_def validateManifestGroup_def
      validateManifestExt_def bounded_def maxShellExtEntries_def checkEntryAllowlist_def validateUpstreamURL_def)

text \<open>A gateway that holds one module with an issued key.\<close>

definition keyed_entry :: registry_entry where
  "keyed_entry = (freshEntry 5 (sample_manifest\<lparr>sm_APIKey := ''fm-fusion-a-r1''\<rparr>))
     \<lparr>en_serviceKeyID := ''hfm-fusion-a-r1'', en_serviceKeyHash := ''hfm-fusion-a-r1'', en_serviceKeyRotatedAt := 5\<rparr>"

definition keyed_registry :: ShellRegistry where
  "keyed_registry = (registry_SetPersistence ''m.json'' (NewShellRegistry [] [] 0))\<lparr>rg_dynamic := [(''fusion-a'', keyed_entry)], rg_lastPersisted := [''fusion-a'']\<rparr>"

lemma keyed_entry_simps [simp]:
  "en_serviceKeyHash keyed_entry = ''hfm-fusion-a-r1''" "\<not> en_serviceKeyRevoked keyed_entry" "en_manifest keyed_entry = sample_manifest\<lparr>sm_APIKey := ''fm-fusion-a-r1''\<rparr>"
  "en_dynamic keyed_entry" "sm_ID (en_manifest keyed_entry) = ''fusion-a''"
  by (simp_all add: keyed_entry_def freshEntry_def)

theorem peer_undoes_revocation_witness:
  "\<exists>f ra1 f1 rb1 f2 ra2. RevokeServiceKey sample_reg_env ''fusion-a'' keyed_registry f = (ra1, f1, None) \<and>
     Upsert sample_reg_env (sample_manifest\<lparr>sm_ID := ''fusion-b''\<rparr>) keyed_registry f1 = (rb1, f2, None) \<and>
     registry_Load sample_reg_env f2 (registry_SetPersistence ''m.json'' (NewShellRegistry [] [] 0)) = (ra2, True) \<and>
     IsServiceKeyRevoked ''fusion-a'' ra1 \<and> snd (snd (AuthServiceKey sample_reg_env 10 ''fusion-a'' ''hfm-fusion-a-r1'' ra2 f2)) = Some KeyCurrent"
proof -
  let ?f = "FileHolds [persistEntry keyed_entry]"
  have d: "map_of (rg_dynamic keyed_registry) ''fusion-a'' = Some keyed_entry" "rg_path keyed_registry = ''m.json''" "rg_builtins keyed_registry = []"
    by (simp_all add: keyed_registry_def registry_SetPersistence_def NewShellRegistry_def)
  have w: "reg_wf (rg_dynamic keyed_registry)" by (simp add: keyed_registry_def reg_wf_def)
  obtain ra1 f1 err where a0: "RevokeServiceKey sample_reg_env ''fusion-a'' keyed_registry ?f = (ra1, f1, err)" by (metis surj_pair)
  then have "err = None" using d by (auto simp: RevokeServiceKey_def Let_def split: prod.splits)
  then have a: "RevokeServiceKey sample_reg_env ''fusion-a'' keyed_registry ?f = (ra1, f1, None)" using a0 by simp
  obtain rb1 f2 err' where b0: "Upsert sample_reg_env (sample_manifest\<lparr>sm_ID := ''fusion-b''\<rparr>) keyed_registry f1 = (rb1, f2, err')" by (metis surj_pair)
  then have "err' = None" by (auto simp: Upsert_def Let_def split: prod.splits)
  then have b: "Upsert sample_reg_env (sample_manifest\<lparr>sm_ID := ''fusion-b''\<rparr>) keyed_registry f1 = (rb1, f2, None)" using b0 by simp
  obtain ra2 ok where l: "registry_Load sample_reg_env f2 (registry_SetPersistence ''m.json'' (NewShellRegistry [] [] 0)) = (ra2, ok)" by fastforce
  have "re_wr sample_reg_env" by (simp add: sample_reg_env_def)
  then have ok: ok
    using b l d(2) by (auto simp: Upsert_def registry_save_def registry_Load_def registry_SetPersistence_def NewShellRegistry_def Let_def split: option.splits if_splits)
  have "IsServiceKeyRevoked ''fusion-a'' ra1 \<and>
      snd (snd (AuthServiceKey sample_reg_env 10 ''fusion-a'' (en_serviceKeyHash keyed_entry) ra2 f2)) = Some KeyCurrent"
    by (rule peer_undoes_revocation [OF w d(1) _ _ a b _ _ \<open>re_wr sample_reg_env\<close>, of sample_reg_env "[]" "[]" 0 ra2 ok])
      (use l d(2) in \<open>simp_all\<close>)
  then show ?thesis using a b l ok
    by - (rule exI [of _ ?f], rule exI [of _ ra1], rule exI [of _ f1], rule exI [of _ rb1], rule exI [of _ f2], rule exI [of _ ra2], simp)
qed

theorem accepted_key_was_issued_witness:
  "\<exists>r f ledger r' f'. run_steps registry_step (registry_SetPersistence '''' (NewShellRegistry [] [] 0), FileMissing, \<lambda>_. [])
      [(sample_reg_env, RUpsert sample_manifest), (sample_reg_env, REnsure ''fusion-a'')] = (r, f, ledger) \<and>
     AuthServiceKey sample_reg_env 10 ''fusion-a'' ''hfm-fusion-a-r1'' r f = (r', f', Some KeyCurrent) \<and> ''hfm-fusion-a-r1'' \<in> set (ledger ''fusion-a'')"
proof -
  let ?r0 = "registry_SetPersistence '''' (NewShellRegistry [] [] 0)"
  obtain r f ledger where h: "run_steps registry_step (?r0, FileMissing, \<lambda>_. [])
      [(sample_reg_env, RUpsert sample_manifest), (sample_reg_env, REnsure ''fusion-a'')] = (r, f, ledger)"
    by (metis surj_pair)
  have p: "rg_path ?r0 = ''''" "rg_dynamic ?r0 = []" by (simp_all add: registry_SetPersistence_def NewShellRegistry_def)
  have "Upsert sample_reg_env sample_manifest ?r0 FileMissing = (?r0\<lparr>rg_dynamic := [(''fusion-a'', freshEntry 5 sample_manifest)]\<rparr>, FileMissing, None)"
    using p by (simp add: Upsert_def registry_save_def)
  then have r: "r = ?r0\<lparr>rg_dynamic := [(''fusion-a'', keyed_entry)]\<rparr>"
    using h p by (auto simp: EnsureServiceKey_def registry_save_def generateServiceKey_def serviceKeyPrefix_def freshEntry_def keyed_entry_def)
  obtain r' f' st where a0: "AuthServiceKey sample_reg_env 10 ''fusion-a'' ''hfm-fusion-a-r1'' r f = (r', f', st)" by (metis surj_pair)
  then have "st = Some KeyCurrent" by (auto simp: r AuthServiceKey_def Let_def split: prod.splits if_splits)
  then have a: "AuthServiceKey sample_reg_env 10 ''fusion-a'' ''hfm-fusion-a-r1'' r f = (r', f', Some KeyCurrent)" using a0 by simp
  show ?thesis using accepted_key_was_issued [OF h a] h a by blast
qed

end
