(* ===== verification/Shell_Sessions.thy ===== *)
theory Shell_Sessions
  imports Gateway_Prelude
begin

text \<open>
  Sessions of the web shell (\<^verbatim>\<open>shell/session.go\<close>): signed tokens with an expiry, and the denylist of logged-out tokens.  The keyed digest, the
  token digest and the payload codec (JSON in unpadded base64) are fields of \<open>session_lib\<close>; \<open>codec_ok\<close> is what a token relies on: its payload
  decodes to what was encoded and its encoding is not empty and has no dot, and a signature is not empty.
\<close>

section \<open>Tokens\<close>

record SessionClaims =
  sc_Sub :: string
  sc_Roles :: "string list"
  sc_Modules :: "string list"
  sc_TenantID :: string
  sc_MustChangePassword :: bool
  sc_Exp :: int

datatype SessionError = TokenMalformed | BadSignature | TokenRevoked | BadEncoding | BadClaims | TokenExpired

record session_lib =
  lib_mac :: "string \<Rightarrow> string \<Rightarrow> string"
  lib_digest :: "string \<Rightarrow> string"
  lib_encode :: "SessionClaims \<Rightarrow> string"
  lib_decode :: "string \<Rightarrow> SessionError + SessionClaims"

definition codec_ok :: "session_lib \<Rightarrow> SessionClaims \<Rightarrow> bool" where
  "codec_ok lib c \<longleftrightarrow> lib_decode lib (lib_encode lib c) = Inr c \<and> lib_encode lib c \<noteq> '''' \<and> CHR ''.'' \<notin> set (lib_encode lib c) \<and>
     (\<forall>k. lib_mac lib k (lib_encode lib c) \<noteq> '''')"

text \<open>The instant in whole seconds, and \<^verbatim>\<open>strings.Cut\<close> at a one-byte separator.\<close>

definition Unix :: "time \<Rightarrow> int" where
  "Unix t = t div second"

definition Cut :: "string \<Rightarrow> char \<Rightarrow> string \<times> string \<times> bool" where
  "Cut s c = (if c \<in> set s then (takeWhile (\<lambda>x. x \<noteq> c) s, tl (dropWhile (\<lambda>x. x \<noteq> c) s), True) else (s, '''', False))"

lemma Cut_at [simp]: "c \<notin> set a \<Longrightarrow> Cut (a @ c # b) c = (a, b, True)"
proof -
  assume a: "c \<notin> set a"
  then have "x \<in> set a \<Longrightarrow> x \<noteq> c" for x by blast
  then have "takeWhile (\<lambda>x. x \<noteq> c) (a @ c # b) = a" "dropWhile (\<lambda>x. x \<noteq> c) (a @ c # b) = c # b"
    by (simp_all add: takeWhile_append2 dropWhile_append2)
  then show ?thesis by (simp add: Cut_def)
qed

section \<open>The manager\<close>

record Manager =
  mg_secret :: string
  mg_ttl :: duration
  mg_revoked :: "string \<rightharpoonup> int"

definition NewManager :: "string \<Rightarrow> duration \<Rightarrow> Manager" where
  "NewManager secret ttl = \<lparr>mg_secret = secret, mg_ttl = (if ttl \<le> 0 then 12 * (60 * minute) else ttl), mg_revoked = Map.empty\<rparr>"

definition stampClaims :: "time \<Rightarrow> Manager \<Rightarrow> SessionClaims \<Rightarrow> SessionClaims" where
  "stampClaims now m claims =
     claims\<lparr>sc_Exp := Unix (now + mg_ttl m), sc_TenantID := (if sc_TenantID claims = '''' then ''local'' else sc_TenantID claims)\<rparr>"

definition Issue :: "session_lib \<Rightarrow> time \<Rightarrow> Manager \<Rightarrow> SessionClaims \<Rightarrow> string" where
  "Issue lib now m claims =
     (let encoded = lib_encode lib (stampClaims now m claims);
          sig = lib_mac lib (mg_secret m) encoded
      in encoded @ CHR ''.'' # sig)"

definition Validate :: "session_lib \<Rightarrow> time \<Rightarrow> Manager \<Rightarrow> string \<Rightarrow> SessionError + SessionClaims" where
  "Validate lib now m token =
     (case Cut token CHR ''.'' of (encoded, sig, found) \<Rightarrow>
        if \<not> found \<or> encoded = '''' \<or> sig = '''' then Inl TokenMalformed
        else if sig \<noteq> lib_mac lib (mg_secret m) encoded then Inl BadSignature
        else if mg_revoked m (lib_digest lib token) \<noteq> None then Inl TokenRevoked
        else (case lib_decode lib encoded of
                Inl e \<Rightarrow> Inl e
              | Inr claims \<Rightarrow> if sc_Exp claims \<le> Unix now then Inl TokenExpired else Inr claims))"

definition pruneLocked :: "time \<Rightarrow> Manager \<Rightarrow> Manager" where
  "pruneLocked now m =
     m\<lparr>mg_revoked := (\<lambda>k. case mg_revoked m k of None \<Rightarrow> None | Some x \<Rightarrow> if x \<le> Unix now then None else Some x)\<rparr>"

text \<open>The clock is read once to validate and once more to prune.\<close>

definition Revoke :: "session_lib \<Rightarrow> time \<Rightarrow> time \<Rightarrow> Manager \<Rightarrow> string \<Rightarrow> Manager" where
  "Revoke lib now now' m token =
     (case Validate lib now m token of
        Inl _ \<Rightarrow> m
      | Inr claims \<Rightarrow> pruneLocked now' (m\<lparr>mg_revoked := (mg_revoked m)(lib_digest lib token \<mapsto> sc_Exp claims)\<rparr>))"

section \<open>A token outlives its issue by the lifetime\<close>

lemma token_parts:
  assumes "codec_ok lib (stampClaims now m c)"
  shows "Cut (Issue lib now m c) CHR ''.'' =
     (lib_encode lib (stampClaims now m c), lib_mac lib (mg_secret m) (lib_encode lib (stampClaims now m c)), True)"
  using assms by (simp add: Issue_def Let_def codec_ok_def)

text \<open>
  An issued token that is not revoked validates to the claims it was issued for, stamped with its expiry and tenant, up to the second of the expiry, and
  is refused as expired from then on.
\<close>
theorem issued_session_validates:
  assumes "codec_ok lib (stampClaims now m claims)" and "mg_revoked m' (lib_digest lib (Issue lib now m claims)) = None" and "mg_secret m' = mg_secret m"
  shows "Validate lib later m' (Issue lib now m claims) =
     (if Unix later < Unix (now + mg_ttl m)
      then Inr (claims\<lparr>sc_Exp := Unix (now + mg_ttl m), sc_TenantID := (if sc_TenantID claims = '''' then ''local'' else sc_TenantID claims)\<rparr>)
      else Inl TokenExpired)"
  using assms by (simp add: Validate_def token_parts codec_ok_def stampClaims_def)

section \<open>Logout is final\<close>

text \<open>Operations of the manager with the instants they read; the clock does not go back.\<close>

datatype session_op = OpIssue time SessionClaims | OpValidate time string | OpRevoke time time string

fun session_step :: "session_lib \<Rightarrow> Manager \<Rightarrow> session_op \<Rightarrow> Manager" where
  "session_step lib m (OpIssue _ _) = m"
| "session_step lib m (OpValidate _ _) = m"
| "session_step lib m (OpRevoke now now' token) = Revoke lib now now' m token"

fun op_times :: "session_op \<Rightarrow> time list" where
  "op_times (OpIssue t _) = [t]"
| "op_times (OpValidate t _) = [t]"
| "op_times (OpRevoke t t' _) = [t, t']"

fun op_revokes :: "session_op \<Rightarrow> string list" where
  "op_revokes (OpRevoke _ _ token) = [token]"
| "op_revokes _ = []"

text \<open>What a logout leaves: the token does not validate at \<open>now\<close> and will not later, because it is listed with its own expiry or past it.\<close>

definition logged_out :: "session_lib \<Rightarrow> string \<Rightarrow> time \<Rightarrow> Manager \<Rightarrow> bool" where
  "logged_out lib token now m \<longleftrightarrow>
     (\<forall>claims. lib_decode lib (fst (Cut token CHR ''.'')) = Inr claims \<longrightarrow>
        Unix now < sc_Exp claims \<longrightarrow> snd (snd (Cut token CHR ''.'')) \<longrightarrow> fst (Cut token CHR ''.'') \<noteq> '''' \<longrightarrow> fst (snd (Cut token CHR ''.'')) \<noteq> '''' \<longrightarrow>
        fst (snd (Cut token CHR ''.'')) = lib_mac lib (mg_secret m) (fst (Cut token CHR ''.'')) \<longrightarrow>
        mg_revoked m (lib_digest lib token) = Some (sc_Exp claims))"

lemma Unix_mono: "t \<le> t' \<Longrightarrow> Unix t \<le> Unix t'"
  by (simp add: Unix_def zdiv_mono1)

lemma logged_out_refused: "logged_out lib token now m \<Longrightarrow> \<exists>e. Validate lib now m token = Inl e"
  by (auto simp: logged_out_def Validate_def split: prod.split sum.split)

lemma logged_out_later: "logged_out lib token now m \<Longrightarrow> now \<le> now' \<Longrightarrow> logged_out lib token now' m"
  unfolding logged_out_def by (meson Unix_mono order.strict_trans1)

lemma revoke_secret [simp]: "mg_secret (Revoke lib t t' m x) = mg_secret m"
  by (auto simp: Revoke_def pruneLocked_def split: sum.split)

lemma revoke_logs_out:
  assumes "t \<le> t'" and "mg_revoked m (lib_digest lib token) = None"
  shows "logged_out lib token t' (Revoke lib t t' m token)"
  using assms Unix_mono [OF assms(1)]
  by (auto simp: logged_out_def Revoke_def Validate_def pruneLocked_def split: prod.splits sum.splits)

lemma revoke_keeps_logged_out:
  assumes "logged_out lib token now m" and "now \<le> t" "t \<le> t'" and "lib_digest lib x = lib_digest lib token \<longrightarrow> x = token"
  shows "logged_out lib token t' (Revoke lib t t' m x)"
proof (cases "Validate lib t m x")
  case (Inl e)
  then show ?thesis using logged_out_later [OF assms(1), of t'] assms(2,3) by (simp add: Revoke_def)
next
  case (Inr c)
  then have "x \<noteq> token" using logged_out_refused [OF logged_out_later [OF assms(1,2)]] by auto
  then have "lib_digest lib x \<noteq> lib_digest lib token" using assms(4) by blast
  then show ?thesis using logged_out_later [OF assms(1), of t'] assms(2,3) Inr
    by (auto simp: logged_out_def Revoke_def pruneLocked_def)
qed

lemma run_keeps_logged_out:
  assumes "logged_out lib token now m" and "sorted (now # concat (map op_times ops) @ [later])"
    and "\<forall>x \<in> set (concat (map op_revokes ops)). lib_digest lib x = lib_digest lib token \<longrightarrow> x = token"
  shows "logged_out lib token later (foldl (session_step lib) m ops)"
  using assms
proof (induction ops arbitrary: m now)
  case Nil
  then show ?case using logged_out_later by auto
next
  case (Cons q ops)
  show ?case
  proof (cases q)
    case (OpRevoke t t' x)
    then have "logged_out lib token t' (Revoke lib t t' m x)" using Cons.prems by (auto intro!: revoke_keeps_logged_out)
    then show ?thesis using Cons.IH [of t' "Revoke lib t t' m x"] Cons.prems OpRevoke by auto
  qed (use Cons.IH [of _ m] Cons.prems logged_out_later in auto)
qed

text \<open>
  C26. A logout is final: once a valid session is revoked its token is refused forever, whatever other sessions are issued, checked and revoked, although every
  logout prunes the denylist, because a token leaves the list only once it has expired.  The clock does not go back, and no other token with the same
  digest is logged out.
\<close>
theorem logout_is_final:
  assumes "Validate lib t m token = Inr claims" and "sorted (t # t' # concat (map op_times ops) @ [later])"
    and "\<forall>x \<in> set (concat (map op_revokes ops)). lib_digest lib x = lib_digest lib token \<longrightarrow> x = token"
  shows "\<exists>e. Validate lib later (foldl (session_step lib) (Revoke lib t t' m token) ops) token = Inl e"
proof -
  have "mg_revoked m (lib_digest lib token) = None" using assms(1) by (auto simp: Validate_def split: prod.splits if_splits)
  then have "logged_out lib token t' (Revoke lib t t' m token)" using assms(2) by (intro revoke_logs_out) auto
  then show ?thesis using run_keeps_logged_out [of lib token t' _ ops later] assms(2,3) logged_out_refused by fastforce
qed

text \<open>A concrete instance: payloads are written with the claims' subject and expiry only, in unary.\<close>

definition sample_lib :: session_lib where
  "sample_lib = \<lparr>lib_mac = (\<lambda>k e. k @ ''/'' @ e), lib_digest = id,
     lib_encode = (\<lambda>c. ''a'' @ sc_Sub c),
     lib_decode = (\<lambda>s. Inr \<lparr>sc_Sub = tl s, sc_Roles = [''admin''], sc_Modules = [''*''], sc_TenantID = ''local'', sc_MustChangePassword = False, sc_Exp = 60\<rparr>)\<rparr>"

definition ann_claims :: SessionClaims where
  "ann_claims = \<lparr>sc_Sub = ''ann'', sc_Roles = [''admin''], sc_Modules = [''*''], sc_TenantID = ''local'', sc_MustChangePassword = False, sc_Exp = 60\<rparr>"

definition bob_claims :: SessionClaims where
  "bob_claims = ann_claims\<lparr>sc_Sub := ''bob''\<rparr>"

lemma sample_tokens:
  "Issue sample_lib 0 (NewManager ''k'' minute) ann_claims = ''aann.k/aann''"
  "Issue sample_lib 0 (NewManager ''k'' minute) bob_claims = ''abob.k/abob''"
  by (simp_all add: Issue_def stampClaims_def sample_lib_def ann_claims_def bob_claims_def NewManager_def)

lemma sample_valid: "Validate sample_lib (5 * second) (NewManager ''k'' minute) ''aann.k/aann'' = Inr ann_claims"
  by (simp add: Validate_def Cut_def NewManager_def sample_lib_def ann_claims_def Unix_def)

theorem logout_is_final_witness:
  "\<exists>e. Validate sample_lib (50 * second) (foldl (session_step sample_lib)
      (Revoke sample_lib (5 * second) (6 * second) (NewManager ''k'' minute) ''aann.k/aann'')
      [OpRevoke (40 * second) (40 * second) ''abob.k/abob'']) ''aann.k/aann'' = Inl e"
  by (rule logout_is_final [OF sample_valid]) (simp_all add: sample_lib_def second_def)

theorem issued_session_validates_witness:
  "Validate sample_lib (59 * second) (NewManager ''k'' minute) (Issue sample_lib 0 (NewManager ''k'' minute) ann_claims) = Inr ann_claims"
proof -
  have c: "codec_ok sample_lib (stampClaims 0 (NewManager ''k'' minute) ann_claims)"
    by (simp add: codec_ok_def sample_lib_def stampClaims_def ann_claims_def NewManager_def Unix_def minute_def second_def)
  have r: "mg_revoked (NewManager ''k'' minute) (lib_digest sample_lib (Issue sample_lib 0 (NewManager ''k'' minute) ann_claims)) = None"
    by (simp add: NewManager_def)
  show ?thesis using issued_session_validates [OF c r refl, of "59 * second"]
    by (simp add: Unix_def NewManager_def minute_def second_def ann_claims_def)
qed

end
