(* ===== verification/Shell_Stores.thy ===== *)
theory Shell_Stores
  imports Audit_Trail "HOL-Library.AList" "HOL-Library.List_Lexorder" "HOL-Library.Char_ord"
begin

text \<open>
  The durable stores of the web shell: accounts (\<^verbatim>\<open>shell/users.go\<close>, \<^verbatim>\<open>users_util.go\<close>), roles and the menu matrix (\<^verbatim>\<open>shell/roles.go\<close>).  A Go map is
  an association list with distinct keys; its iteration order \<open>it\<close> is a parameter.  A store file is its decoded content, and \<open>wr\<close> says whether a
  write succeeds: the memory changes before the file is written, and stays changed when the write fails.
\<close>

section \<open>Accounts\<close>

record UserAccount =
  ua_Username :: string
  ua_DisplayName :: string
  ua_PasswordHash :: string
  ua_Roles :: "string list"
  ua_Permissions :: "string list"
  ua_Disabled :: bool
  ua_MustChangePassword :: bool

record UserStore =
  ust_users :: "(string \<times> UserAccount) list"
  ust_path :: string
  ust_file :: "UserAccount list store_file"

datatype user_error = UserAlreadyExists string | UserNotFound string | EmptyUsername nat | WriteFailed | ReadFailed | ParseFailed

type_synonym user_order = "(string \<times> UserAccount) list \<Rightarrow> (string \<times> UserAccount) list"

fun hasRole :: "string list \<Rightarrow> string \<Rightarrow> bool" where
  "hasRole [] role \<longleftrightarrow> False"
| "hasRole (r # rs) role \<longleftrightarrow> r = role \<or> hasRole rs role"

lemma hasRole_iff [simp]: "hasRole rs role \<longleftrightarrow> role \<in> set rs"
  by (induction rs) auto

definition NewUserStore :: "string \<Rightarrow> UserAccount list store_file \<Rightarrow> UserStore" where
  "NewUserStore path f = \<lparr>ust_users = [], ust_path = path, ust_file = f\<rparr>"

fun hydrate_loop :: "nat \<Rightarrow> UserAccount list \<Rightarrow> (string \<times> UserAccount) list \<Rightarrow> user_error + (string \<times> UserAccount) list" where
  "hydrate_loop i [] users = Inr users"
| "hydrate_loop i (a # as) users =
     (if ua_Username a = '''' then Inl (EmptyUsername i) else hydrate_loop (Suc i) as (AList.update (ua_Username a) a users))"

definition hydrate :: "UserAccount list \<Rightarrow> UserStore \<Rightarrow> UserStore \<times> user_error option" where
  "hydrate accounts s =
     (case hydrate_loop 0 accounts [] of Inl e \<Rightarrow> (s, Some e) | Inr users \<Rightarrow> (s\<lparr>ust_users := users\<rparr>, None))"

definition users_Load :: "UserStore \<Rightarrow> UserStore \<times> user_error option" where
  "users_Load s =
     (if ust_path s = '''' then (s, None)
      else (case ust_file s of
              FileMissing \<Rightarrow> (s, None)
            | FileUnreadable \<Rightarrow> (s, Some ReadFailed)
            | FileCorrupt \<Rightarrow> (s, Some ParseFailed)
            | FileHolds accounts \<Rightarrow> hydrate accounts s))"

definition users_Save :: "user_order \<Rightarrow> bool \<Rightarrow> UserStore \<Rightarrow> UserStore \<times> user_error option" where
  "users_Save it wr s =
     (if ust_path s = '''' then (s, None)
      else if wr then (s\<lparr>ust_file := FileHolds (map snd (iterate it (ust_users s)))\<rparr>, None)
      else (s, Some WriteFailed))"

definition SeedFromConfig :: "user_order \<Rightarrow> bool \<Rightarrow> UserAccount list \<Rightarrow> UserStore \<Rightarrow> UserStore \<times> user_error option" where
  "SeedFromConfig it wr accounts s =
     (if ust_users s \<noteq> [] then (s, None)
      else users_Save it wr (s\<lparr>ust_users := fold (\<lambda>a. AList.update (ua_Username a) a) accounts (ust_users s)\<rparr>))"

definition users_Get :: "string \<Rightarrow> UserStore \<Rightarrow> UserAccount option" where
  "users_Get username s = map_of (ust_users s) username"

definition sortAccounts :: "UserAccount list \<Rightarrow> UserAccount list" where
  "sortAccounts accounts = sort_key ua_Username accounts"

definition users_List :: "user_order \<Rightarrow> UserStore \<Rightarrow> UserAccount list" where
  "users_List it s = sortAccounts (map snd (iterate it (ust_users s)))"

definition users_Count :: "UserStore \<Rightarrow> nat" where
  "users_Count s = length (ust_users s)"

definition EnabledAdminCount :: "UserStore \<Rightarrow> nat" where
  "EnabledAdminCount s = length (filter (\<lambda>(k, a). \<not> ua_Disabled a \<and> hasRole (ua_Roles a) ''admin'') (ust_users s))"

definition users_Create :: "user_order \<Rightarrow> bool \<Rightarrow> UserAccount \<Rightarrow> UserStore \<Rightarrow> UserStore \<times> user_error option" where
  "users_Create it wr a s =
     (if map_of (ust_users s) (ua_Username a) \<noteq> None then (s, Some (UserAlreadyExists (ua_Username a)))
      else users_Save it wr (s\<lparr>ust_users := AList.update (ua_Username a) a (ust_users s)\<rparr>))"

definition users_Update :: "user_order \<Rightarrow> bool \<Rightarrow> string \<Rightarrow> (UserAccount \<Rightarrow> UserAccount) \<Rightarrow> UserStore \<Rightarrow> UserStore \<times> user_error option" where
  "users_Update it wr username mutate s =
     (case map_of (ust_users s) username of
        None \<Rightarrow> (s, Some (UserNotFound username))
      | Some a \<Rightarrow> users_Save it wr (s\<lparr>ust_users := AList.update username (mutate a) (ust_users s)\<rparr>))"

definition users_Delete :: "user_order \<Rightarrow> bool \<Rightarrow> string \<Rightarrow> UserStore \<Rightarrow> UserStore \<times> user_error option" where
  "users_Delete it wr username s =
     (if map_of (ust_users s) username = None then (s, Some (UserNotFound username))
      else users_Save it wr (s\<lparr>ust_users := AList.delete username (ust_users s)\<rparr>))"

text \<open>Accounts are filed under their own name.\<close>

definition users_ok :: "UserStore \<Rightarrow> bool" where
  "users_ok s \<longleftrightarrow> distinct (map fst (ust_users s)) \<and> (\<forall>(k, a) \<in> set (ust_users s). ua_Username a = k)"

section \<open>Roles\<close>

record RoleDef =
  rd_Name :: string
  rd_Builtin :: bool
  rd_WriteClasses :: "string list"
  rd_Description :: string

record RoleView =
  rv_Def :: RoleDef
  rv_UserCount :: nat

record CustomRole =
  cr_Name :: string
  cr_Description :: string
  cr_WriteClasses :: "string list"

record RoleStore =
  rst_custom :: "(string \<times> CustomRole) list"
  rst_path :: string
  rst_file :: "CustomRole list store_file"

datatype role_error =
  RoleNameRequired | RoleBuiltin string | RoleClassUnknown string | RoleGrantsNothing | RoleExists string | RoleLimit | RoleNotFound string
| RoleInUse string nat | RoleWriteFailed | RoleReadFailed | RoleParseFailed

type_synonym role_order = "(string \<times> CustomRole) list \<Rightarrow> (string \<times> CustomRole) list"

definition builtinShellRoles :: "RoleDef list" where
  "builtinShellRoles =
     [\<lparr>rd_Name = ''admin'', rd_Builtin = True, rd_WriteClasses = auditClasses, rd_Description = ''full access (built-in)''\<rparr>,
      \<lparr>rd_Name = ''user'', rd_Builtin = True, rd_WriteClasses = [''read'', ''write'', ''agent_run''], rd_Description = ''standard operator (built-in)''\<rparr>,
      \<lparr>rd_Name = ''auditor'', rd_Builtin = True, rd_WriteClasses = [''read'', ''approval''], rd_Description = ''read + approvals (built-in)''\<rparr>]"

definition isBuiltinRole :: "string \<Rightarrow> bool" where
  "isBuiltinRole name = list_ex (\<lambda>b. rd_Name b = name) builtinShellRoles"

definition roles_Load :: "RoleStore \<Rightarrow> RoleStore \<times> role_error option" where
  "roles_Load s =
     (if rst_path s = '''' then (s, None)
      else (case rst_file s of
              FileMissing \<Rightarrow> (s, None)
            | FileUnreadable \<Rightarrow> (s, Some RoleReadFailed)
            | FileCorrupt \<Rightarrow> (s, Some RoleParseFailed)
            | FileHolds roles \<Rightarrow>
                (s\<lparr>rst_custom := fold (\<lambda>r m. if cr_Name r = '''' then m else AList.update (cr_Name r) r m) roles (rst_custom s)\<rparr>, None)))"

definition roles_Save :: "role_order \<Rightarrow> bool \<Rightarrow> RoleStore \<Rightarrow> RoleStore \<times> role_error option" where
  "roles_Save it wr s =
     (if rst_path s = '''' then (s, None)
      else if wr then (s\<lparr>rst_file := FileHolds (sort_key cr_Name (map snd (iterate it (rst_custom s))))\<rparr>, None)
      else (s, Some RoleWriteFailed))"

definition roles_List :: "role_order \<Rightarrow> (string \<Rightarrow> nat) \<Rightarrow> RoleStore \<Rightarrow> RoleView list" where
  "roles_List it userCount s =
     map (\<lambda>b. \<lparr>rv_Def = b, rv_UserCount = userCount (rd_Name b)\<rparr>) builtinShellRoles @
     map (\<lambda>c. \<lparr>rv_Def = \<lparr>rd_Name = cr_Name c, rd_Builtin = False, rd_WriteClasses = cr_WriteClasses c, rd_Description = cr_Description c\<rparr>,
               rv_UserCount = userCount (cr_Name c)\<rparr>)
       (sort_key cr_Name (map snd (iterate it (rst_custom s))))"

fun uniqueClasses :: "string list \<Rightarrow> string list \<Rightarrow> role_error + string list" where
  "uniqueClasses [] classes = Inr classes"
| "uniqueClasses (c # cs) classes =
     (if c \<notin> set auditClasses then Inl (RoleClassUnknown c)
      else if c \<in> set classes then uniqueClasses cs classes
      else uniqueClasses cs (classes @ [c]))"

definition roles_Create :: "role_order \<Rightarrow> bool \<Rightarrow> string \<Rightarrow> string \<Rightarrow> string list \<Rightarrow> RoleStore \<Rightarrow> RoleStore \<times> role_error option" where
  "roles_Create it wr name description writeClasses s =
     (if name = '''' then (s, Some RoleNameRequired)
      else if isBuiltinRole name then (s, Some (RoleBuiltin name))
      else (case uniqueClasses writeClasses [] of
              Inl e \<Rightarrow> (s, Some e)
            | Inr classes \<Rightarrow>
                if classes = [] then (s, Some RoleGrantsNothing)
                else if map_of (rst_custom s) name \<noteq> None then (s, Some (RoleExists name))
                else if 64 \<le> length (rst_custom s) then (s, Some RoleLimit)
                else roles_Save it wr (s\<lparr>rst_custom :=
                       AList.update name \<lparr>cr_Name = name, cr_Description = description, cr_WriteClasses = classes\<rparr> (rst_custom s)\<rparr>)))"

definition roles_Delete :: "role_order \<Rightarrow> bool \<Rightarrow> string \<Rightarrow> (string \<Rightarrow> nat) \<Rightarrow> RoleStore \<Rightarrow> RoleStore \<times> role_error option" where
  "roles_Delete it wr name assignedCount s =
     (if isBuiltinRole name then (s, Some (RoleBuiltin name))
      else if map_of (rst_custom s) name = None then (s, Some (RoleNotFound name))
      else if 0 < assignedCount name then (s, Some (RoleInUse name (assignedCount name)))
      else roles_Save it wr (s\<lparr>rst_custom := AList.delete name (rst_custom s)\<rparr>))"

definition roles_Exists :: "string \<Rightarrow> RoleStore \<Rightarrow> bool" where
  "roles_Exists name s \<longleftrightarrow> isBuiltinRole name \<or> map_of (rst_custom s) name \<noteq> None"

section \<open>The menu matrix\<close>

record MenuItem =
  mi_ID :: string
  mi_Label :: string
  mi_Href :: string
  mi_Roles :: "string list"

record MenuPermissions =
  mp_overrides :: "MenuItem list"
  mp_path :: string
  mp_file :: "MenuItem list store_file"

datatype menu_error =
  MenuTooLarge | MenuItemIncomplete | MenuDuplicate string | MenuNoRole string | MenuUnknownRole string string | MenuWriteFailed
| MenuReadFailed | MenuParseFailed

definition menu_Load :: "MenuPermissions \<Rightarrow> MenuPermissions \<times> menu_error option" where
  "menu_Load m =
     (if mp_path m = '''' then (m, None)
      else (case mp_file m of
              FileMissing \<Rightarrow> (m, None)
            | FileUnreadable \<Rightarrow> (m, Some MenuReadFailed)
            | FileCorrupt \<Rightarrow> (m, Some MenuParseFailed)
            | FileHolds items \<Rightarrow> (m\<lparr>mp_overrides := items\<rparr>, None)))"

definition menu_Save :: "bool \<Rightarrow> MenuPermissions \<Rightarrow> MenuPermissions \<times> menu_error option" where
  "menu_Save wr m =
     (if mp_path m = '''' then (m, None)
      else if wr then (m\<lparr>mp_file := FileHolds (mp_overrides m)\<rparr>, None) else (m, Some MenuWriteFailed))"

definition menu_Get :: "MenuItem list \<Rightarrow> MenuPermissions \<Rightarrow> MenuItem list \<times> MenuItem list" where
  "menu_Get defaults m = (defaults, mp_overrides m)"

fun checkMenu :: "(string \<Rightarrow> bool) \<Rightarrow> string list \<Rightarrow> MenuItem list \<Rightarrow> menu_error option" where
  "checkMenu roleExists seen [] = None"
| "checkMenu roleExists seen (it # items) =
     (if mi_ID it = '''' \<or> mi_Label it = '''' then Some MenuItemIncomplete
      else if mi_ID it \<in> set seen then Some (MenuDuplicate (mi_ID it))
      else if mi_Roles it = [] then Some (MenuNoRole (mi_ID it))
      else (case find (\<lambda>r. \<not> roleExists r) (mi_Roles it) of
              Some r \<Rightarrow> Some (MenuUnknownRole (mi_ID it) r)
            | None \<Rightarrow> checkMenu roleExists (mi_ID it # seen) items))"

definition menu_Put :: "bool \<Rightarrow> MenuItem list \<Rightarrow> (string \<Rightarrow> bool) \<Rightarrow> MenuPermissions \<Rightarrow> MenuPermissions \<times> menu_error option" where
  "menu_Put wr items roleExists m =
     (if 256 < length items then (m, Some MenuTooLarge)
      else (case checkMenu roleExists [] items of
              Some e \<Rightarrow> (m, Some e)
            | None \<Rightarrow> menu_Save wr (m\<lparr>mp_overrides := items\<rparr>)))"

section \<open>The stores keep their invariants\<close>

lemma users_Save_users [simp]: "ust_users (fst (users_Save it wr s)) = ust_users s" "ust_path (fst (users_Save it wr s)) = ust_path s"
  by (simp_all add: users_Save_def)

lemma roles_Save_custom [simp]: "rst_custom (fst (roles_Save it wr s)) = rst_custom s"
  by (simp add: roles_Save_def)

lemma roles_SaveD: "roles_Save it wr s = (s', e) \<Longrightarrow> rst_custom s' = rst_custom s"
  by (metis fst_conv roles_Save_custom)

lemma roles_Save_wr: "\<exists>s'. roles_Save it True s = (s', None)"
  by (cases "rst_path s = ''''") (simp_all add: roles_Save_def)

lemma users_Update_wr:
  "map_of (ust_users s) k = Some a \<Longrightarrow> \<exists>s'. users_Update it True k f s = (s', None) \<and> ust_users s' = AList.update k (f a) (ust_users s)"
  by (cases "ust_path s = ''''") (simp_all add: users_Update_def users_Save_def)

lemma set_alist_update: "set (AList.update k v xs) \<subseteq> insert (k, v) (set xs)"
  by (induction xs) auto

lemma users_ok_update:
  assumes "users_ok s" and "ua_Username a = k"
  shows "users_ok (s\<lparr>ust_users := AList.update k a (ust_users s)\<rparr>)"
  using assms set_alist_update [of k a "ust_users s"] by (auto simp: users_ok_def distinct_update)

lemma users_ok_delete: "users_ok s \<Longrightarrow> users_ok (s\<lparr>ust_users := AList.delete k (ust_users s)\<rparr>)"
  by (auto simp: users_ok_def AList.delete_eq distinct_map_filter)

lemma users_ok_cong: "ust_users s' = ust_users s \<Longrightarrow> users_ok s' = users_ok s"
  by (simp add: users_ok_def)

lemma users_ok_Save [simp]: "users_ok (fst (users_Save it wr s)) = users_ok s"
  by (rule users_ok_cong) simp

lemma users_ops_ok:
  assumes "users_ok s"
  shows "users_ok (fst (users_Create it wr a s))" "users_ok (fst (users_Delete it wr k s))"
    "(\<And>x. ua_Username (mutate x) = ua_Username x) \<Longrightarrow> users_ok (fst (users_Update it wr k mutate s))"
proof -
  show "users_ok (fst (users_Create it wr a s))" "users_ok (fst (users_Delete it wr k s))"
    using assms by (auto simp: users_Create_def users_Delete_def users_ok_update users_ok_delete)
  have "map_of (ust_users s) k = Some x \<Longrightarrow> ua_Username x = k" for x using assms map_of_SomeD by (fastforce simp: users_ok_def)
  then show "(\<And>x. ua_Username (mutate x) = ua_Username x) \<Longrightarrow> users_ok (fst (users_Update it wr k mutate s))"
    using assms by (auto simp: users_Update_def users_ok_update split: option.split)
qed

lemma hydrate_loop_accounts:
  assumes "\<forall>a \<in> set as. ua_Username a \<noteq> ''''"
  shows "\<exists>users'. hydrate_loop i as users = Inr users' \<and> map_of users' = map_of users ++ map_of (rev (map (\<lambda>a. (ua_Username a, a)) as))"
  using assms
proof (induction as arbitrary: i users)
  case (Cons a as)
  then obtain users' where "hydrate_loop (Suc i) as (AList.update (ua_Username a) a users) = Inr users'"
      "map_of users' = map_of (AList.update (ua_Username a) a users) ++ map_of (rev (map (\<lambda>a. (ua_Username a, a)) as))"
    by fastforce
  then show ?case using Cons.prems by (auto simp: update_conv' map_add_def fun_eq_iff split: option.split)
qed simp

lemma map_of_own_names:
  assumes "users_ok s" and "mset xs = mset (ust_users s)"
  shows "map_of (rev (map (\<lambda>a. (ua_Username a, a)) (map snd xs))) = map_of (ust_users s)"
proof -
  have ok: "distinct (map fst (ust_users s))" "\<forall>(k, a) \<in> set (ust_users s). ua_Username a = k" using assms(1) by (auto simp: users_ok_def)
  have "set xs = set (ust_users s)" using assms(2) by (metis set_mset_mset)
  then have e: "map (\<lambda>a. (ua_Username a, a)) (map snd xs) = xs" using ok(2) by (fastforce intro: map_idI)
  have "mset (map fst xs) = mset (map fst (ust_users s))" using assms(2) by (metis mset_map)
  then have "distinct (map fst (rev xs))" using ok(1) by (metis distinct_rev mset_eq_imp_distinct_iff rev_map)
  then show ?thesis unfolding e using ok(1) \<open>set xs = set (ust_users s)\<close> by (intro map_of_eqI) auto
qed

text \<open>
  Accounts survive a restart: what a successful save wrote is read back to the same accounts, whatever order the map is written in.
\<close>
lemma users_roundtrip:
  assumes "users_ok s" and "ust_path s \<noteq> ''''" and "\<forall>(k, a) \<in> set (ust_users s). k \<noteq> ''''"
    and "users_Save it True s = (s1, None)"
  shows "\<exists>s2. users_Load (NewUserStore (ust_path s1) (ust_file s1)) = (s2, None) \<and> map_of (ust_users s2) = map_of (ust_users s)"
proof -
  let ?as = "map snd (iterate it (ust_users s))"
  have "\<forall>a \<in> set ?as. ua_Username a \<noteq> ''''" using assms(1,3) by (fastforce simp: users_ok_def)
  then obtain users' where u: "hydrate_loop 0 ?as [] = Inr users'" "map_of users' = map_of (rev (map (\<lambda>a. (ua_Username a, a)) ?as))"
    using hydrate_loop_accounts [of ?as 0 "[]"] by auto
  have "map_of users' = map_of (ust_users s)" using u(2) map_of_own_names [OF assms(1), of "iterate it (ust_users s)"] by simp
  moreover have "s1 = s\<lparr>ust_file := FileHolds ?as\<rparr>" using assms(2,4) by (simp add: users_Save_def)
  ultimately show ?thesis using assms(2) u(1) by (auto simp: users_Load_def NewUserStore_def hydrate_def)
qed

text \<open>The roles a store resolves: creating adds its role, deleting removes no other.\<close>

lemma roles_Create_exists:
  "roles_Create it wr name d cs s = (s', None) \<Longrightarrow> roles_Exists r s' \<longleftrightarrow> r = name \<or> roles_Exists r s"
proof -
  assume c: "roles_Create it wr name d cs s = (s', None)"
  then obtain e where "rst_custom s' = AList.update name e (rst_custom s)"
    by (auto simp: roles_Create_def split: if_splits sum.splits dest!: roles_SaveD)
  then show ?thesis by (auto simp: roles_Exists_def update_conv')
qed

lemma roles_Delete_exists:
  "roles_Delete it wr name n s = (s', None) \<Longrightarrow> roles_Exists r s' \<longleftrightarrow> (r \<noteq> name \<or> isBuiltinRole r) \<and> roles_Exists r s"
proof -
  assume c: "roles_Delete it wr name n s = (s', None)"
  then have "rst_custom s' = AList.delete name (rst_custom s)"
    by (auto simp: roles_Delete_def split: if_splits dest!: roles_SaveD)
  then show ?thesis by (auto simp: roles_Exists_def delete_conv')
qed

text \<open>A saved matrix names only roles that resolve, and every menu once.\<close>

lemma checkMenu_ok:
  "checkMenu ex seen items = None \<Longrightarrow>
     distinct (map mi_ID items) \<and> mi_ID ` set items \<inter> set seen = {} \<and> (\<forall>i \<in> set items. mi_Roles i \<noteq> [] \<and> (\<forall>r \<in> set (mi_Roles i). ex r))"
proof (induction items arbitrary: seen)
  case (Cons i items)
  have c: "checkMenu ex (mi_ID i # seen) items = None" "mi_ID i \<notin> set seen" "mi_Roles i \<noteq> []" "find (\<lambda>r. \<not> ex r) (mi_Roles i) = None"
    using Cons.prems by (simp_all split: if_splits option.splits)
  then have "\<forall>r \<in> set (mi_Roles i). ex r" by (simp add: find_None_iff)
  then show ?case using Cons.IH [OF c(1)] c(2,3) by auto
qed simp

lemma menu_Put_resolves:
  "menu_Put wr items ex m = (m', None) \<Longrightarrow> \<forall>i \<in> set (mp_overrides m'). \<forall>r \<in> set (mi_Roles i). ex r"
  using checkMenu_ok [of ex "[]" items] by (auto simp: menu_Put_def menu_Save_def split: if_splits option.splits)

text \<open>The classes a custom role grants are those asked for, once each.\<close>

lemma uniqueClasses_Inr:
  "uniqueClasses cs acc = Inr cl \<Longrightarrow> distinct acc \<Longrightarrow> distinct cl \<and> set cl = set acc \<union> set cs \<and> set cs \<subseteq> set auditClasses"
  by (induction cs arbitrary: acc) (auto split: if_splits)

end
