(* ===== verification/Shell_Accounts.thy ===== *)
theory Shell_Accounts
  imports Principals Shell_Sessions Shell_Stores
begin

text \<open>
  Logins, sessions and account management of the web shell: \<^verbatim>\<open>server/shell_users.go\<close>, the session part of \<^verbatim>\<open>server/shell.go\<close> and the role and menu
  handlers of \<^verbatim>\<open>server/shell_admin.go\<close>.  A handler maps the state of the server to the new state and the answer; the texts of the envelopes are
  left out.  A body is \<open>None\<close> when it does not decode.  \<open>shell_env\<close> holds what one request sees of the outside: the instant, map orders, whether the
  files can be written, the bcrypt functions and the random password.
\<close>

section \<open>The server state and the outside\<close>

record shellUserRecord =
  sr_username :: string
  sr_password :: string
  sr_bcryptHash :: string
  sr_displayName :: string
  sr_roles :: "string list"
  sr_modules :: "string list"
  sr_mustChange :: bool

record ShellServer =
  sh_sessions :: "Manager option"
  sh_users :: UserStore
  sh_roles :: "RoleStore option"
  sh_menus :: "MenuPermissions option"
  sh_audit :: "AuditLog option"
  sh_bootstrap :: "shellUserRecord option"
  sh_tenant :: string

record shell_env =
  se_now :: time
  se_users :: user_order
  se_roles :: role_order
  se_wr :: bool
  se_hash :: "string \<Rightarrow> string option"
  se_compare :: "string \<Rightarrow> string \<Rightarrow> bool"
  se_temp :: "string option"
  se_lib :: session_lib
  se_audit :: audit_lib

record shellAdminRow =
  row_UserID :: string
  row_DisplayName :: string
  row_Roles :: "string list"
  row_Disabled :: bool
  row_MustChangePassword :: bool
  row_Permissions :: "string list"

record shellSessionResponse =
  ssr_Token :: string
  ssr_TenantID :: string
  ssr_MustChangePassword :: bool
  ssr_UserID :: string
  ssr_DisplayName :: string
  ssr_Roles :: "string list"
  ssr_Permissions :: "string list"

datatype shell_answer =
  Envelope (ans_status: int) (ans_code: string) (ans_module: string) (ans_retryable: bool)
| RowAnswer int shellAdminRow
| RowsAnswer "shellAdminRow list"
| SessionAnswer shellSessionResponse
| MeAnswer string string "string list" "string list" string bool
| TempPassword string
| NoContent
| RolesAnswer "RoleView list"
| MenusAnswer "MenuItem list" "MenuItem list"
| JSONAnswer string

type_synonym shell_handler = "shell_env \<Rightarrow> SessionClaims \<Rightarrow> InboundRequest \<Rightarrow> ShellServer \<Rightarrow> ShellServer \<times> shell_answer"

fun hasAnyRole :: "string list \<Rightarrow> string \<Rightarrow> bool" where
  "hasAnyRole [] want \<longleftrightarrow> False"
| "hasAnyRole (r # rs) want \<longleftrightarrow> r = want \<or> hasAnyRole rs want"

lemma hasAnyRole_iff [simp]: "hasAnyRole rs want \<longleftrightarrow> want \<in> set rs"
  by (induction rs) auto

section \<open>Gates\<close>

definition withShellSession :: "shell_handler \<Rightarrow> shell_env \<Rightarrow> string option \<Rightarrow> InboundRequest \<Rightarrow> ShellServer \<Rightarrow> ShellServer \<times> shell_answer" where
  "withShellSession next env cookie r s =
     (case sh_sessions s of
        None \<Rightarrow> (s, Envelope 404 ''shell_disabled'' '''' False)
      | Some m \<Rightarrow>
          (let token = (if bearerToken r = '''' then (case cookie of Some c \<Rightarrow> c | None \<Rightarrow> '''') else bearerToken r)
           in if token = '''' then (s, Envelope 401 ''session_required'' '''' False)
              else (case Validate (se_lib env) (se_now env) m token of
                      Inl _ \<Rightarrow> (s, Envelope 401 ''session_invalid'' '''' False)
                    | Inr claims \<Rightarrow> next env claims r s)))"

definition requireShellAdmin :: "shell_handler \<Rightarrow> shell_handler" where
  "requireShellAdmin next env claims r s =
     (if \<not> hasAnyRole (sc_Roles claims) ''admin'' then (s, Envelope 403 ''forbidden'' '''' False) else next env claims r s)"

definition requireShellRole :: "string list \<Rightarrow> shell_handler \<Rightarrow> shell_handler" where
  "requireShellRole roles next env claims r s =
     (if list_ex (hasAnyRole (sc_Roles claims)) roles then next env claims r s else (s, Envelope 403 ''forbidden'' '''' False))"

definition shellModuleAllowed :: "string list \<Rightarrow> string \<Rightarrow> bool" where
  "shellModuleAllowed permissions moduleID = list_ex (\<lambda>p. p = ''*'' \<or> p = moduleID) permissions"

definition shellModuleOf :: "string \<Rightarrow> string" where
  "shellModuleOf path = fst (Cut (TrimPrefix path ''/shell/'') CHR ''/'')"

definition withShellModuleAccess :: "shell_handler \<Rightarrow> shell_handler" where
  "withShellModuleAccess next env claims r s =
     (let moduleID = shellModuleOf (in_Path r)
      in if \<not> shellModuleAllowed (sc_Modules claims) moduleID then (s, Envelope 403 ''module_forbidden'' moduleID False)
         else next env claims r s)"

section \<open>Audit rows\<close>

definition auditRecord :: "shell_env \<Rightarrow> string \<Rightarrow> string \<Rightarrow> string \<Rightarrow> string \<Rightarrow> string \<Rightarrow> string \<Rightarrow> int \<Rightarrow> ShellServer \<Rightarrow> ShellServer" where
  "auditRecord env user role cls method path outcome ms s =
     (case sh_audit s of
        None \<Rightarrow> s
      | Some a \<Rightarrow> s\<lparr>sh_audit := Some (fst (audit_Record (se_audit env) (se_wr env)
          \<lparr>ev_TS = se_now env, ev_User = user, ev_Role = role, ev_ActionClass = cls, ev_Method = method, ev_Path = path,
           ev_Outcome = outcome, ev_DurationMS = ms\<rparr> a))\<rparr>)"

definition shellAuditRecord :: "shell_env \<Rightarrow> SessionClaims \<Rightarrow> InboundRequest \<Rightarrow> string \<Rightarrow> string \<Rightarrow> int \<Rightarrow> ShellServer \<Rightarrow> ShellServer" where
  "shellAuditRecord env claims r cls outcome ms s =
     auditRecord env (sc_Sub claims) (case sc_Roles claims of [] \<Rightarrow> '''' | x # _ \<Rightarrow> x) cls (in_Method r) (in_Path r) outcome ms s"

section \<open>Login and logout\<close>

definition resolveShellUser :: "string \<Rightarrow> ShellServer \<Rightarrow> (shellUserRecord \<times> bool) option" where
  "resolveShellUser username s =
     (let bootstrap = (case sh_bootstrap s of
            Some b \<Rightarrow> if sr_username b = username then Some (b, True) else None
          | None \<Rightarrow> None)
      in case users_Get username (sh_users s) of
           Some a \<Rightarrow>
             if ua_PasswordHash a \<noteq> '''' then
               Some (\<lparr>sr_username = ua_Username a, sr_password = '''', sr_bcryptHash = ua_PasswordHash a, sr_displayName = ua_DisplayName a,
                      sr_roles = ua_Roles a, sr_modules = ua_Permissions a, sr_mustChange = ua_MustChangePassword a\<rparr>, \<not> ua_Disabled a)
             else bootstrap
         | None \<Rightarrow> bootstrap)"

definition checkShellPassword :: "shell_env \<Rightarrow> shellUserRecord \<Rightarrow> string \<Rightarrow> bool" where
  "checkShellPassword env user password =
     (if sr_bcryptHash user \<noteq> '''' then se_compare env (sr_bcryptHash user) password
      else sr_password user \<noteq> '''' \<and> sr_password user = password)"

definition handleShellSessionIssue :: "shell_env \<Rightarrow> (string \<times> string) option \<Rightarrow> ShellServer \<Rightarrow> ShellServer \<times> shell_answer" where
  "handleShellSessionIssue env body s =
     (case sh_sessions s of
        None \<Rightarrow> (s, Envelope 404 ''shell_disabled'' '''' False)
      | Some m \<Rightarrow>
          (case body of
             None \<Rightarrow> (s, Envelope 400 ''invalid_request'' '''' False)
           | Some (username, password) \<Rightarrow>
               if username = '''' then (s, Envelope 400 ''invalid_request'' '''' False)
               else
                 (let denied = (auditRecord env username '''' ''auth'' ''POST'' ''/api/v1/shell/session'' ''denied'' 0 s,
                                Envelope 401 ''invalid_credentials'' '''' False)
                  in case resolveShellUser username s of
                       Some (user, True) \<Rightarrow>
                         if \<not> checkShellPassword env user password then denied
                         else
                           (let tenant = (if sh_tenant s = '''' then ''local'' else sh_tenant s);
                                token = Issue (se_lib env) (se_now env) m
                                  \<lparr>sc_Sub = sr_username user, sc_Roles = sr_roles user, sc_Modules = sr_modules user, sc_TenantID = tenant,
                                   sc_MustChangePassword = sr_mustChange user, sc_Exp = 0\<rparr>
                            in (auditRecord env (sr_username user) (case sr_roles user of [] \<Rightarrow> '''' | x # _ \<Rightarrow> x) ''auth'' ''POST''
                                  ''/api/v1/shell/session'' ''ok'' 0 s,
                                SessionAnswer \<lparr>ssr_Token = token, ssr_TenantID = tenant, ssr_MustChangePassword = sr_mustChange user,
                                  ssr_UserID = sr_username user, ssr_DisplayName = sr_displayName user, ssr_Roles = sr_roles user,
                                  ssr_Permissions = sr_modules user\<rparr>))
                     | _ \<Rightarrow> denied)))"

text \<open>The logout revokes the presented token and that of the cookie.\<close>

definition handleShellSessionLogout :: "string option \<Rightarrow> shell_handler" where
  "handleShellSessionLogout cookie env claims r s =
     (let rev1 = (\<lambda>m. if bearerToken r = '''' then m else Revoke (se_lib env) (se_now env) (se_now env) m (bearerToken r));
          rev2 = (\<lambda>m. case cookie of None \<Rightarrow> m | Some c \<Rightarrow> if c = '''' then m else Revoke (se_lib env) (se_now env) (se_now env) m c)
      in (s\<lparr>sh_sessions := map_option (rev2 \<circ> rev1) (sh_sessions s)\<rparr>, Envelope 200 ''ok'' '''' False))"

text \<open>The caller's identity: the claims, overlaid with the live name and password flag.\<close>

definition handleShellMe :: shell_handler where
  "handleShellMe env claims r s =
     (let account = users_Get (sc_Sub claims) (sh_users s)
      in (s, MeAnswer (sc_Sub claims) (case account of None \<Rightarrow> sc_Sub claims | Some a \<Rightarrow> ua_DisplayName a) (sc_Roles claims)
               (sc_Modules claims) (sc_TenantID claims)
               (case account of None \<Rightarrow> sc_MustChangePassword claims | Some a \<Rightarrow> ua_MustChangePassword a)))"

section \<open>Account management\<close>

definition minShellPassword :: nat where
  "minShellPassword = 8"

definition validateShellRoles :: "string list \<Rightarrow> ShellServer \<Rightarrow> string list" where
  "validateShellRoles roles s = (case sh_roles s of None \<Rightarrow> [] | Some rs \<Rightarrow> filter (\<lambda>r. \<not> roles_Exists r rs) roles)"

definition toShellAdminRow :: "UserAccount \<Rightarrow> shellAdminRow" where
  "toShellAdminRow a =
     \<lparr>row_UserID = ua_Username a, row_DisplayName = ua_DisplayName a, row_Roles = ua_Roles a, row_Disabled = ua_Disabled a,
      row_MustChangePassword = ua_MustChangePassword a, row_Permissions = ua_Permissions a\<rparr>"

definition handleShellUserList :: shell_handler where
  "handleShellUserList env claims r s = (s, RowsAnswer (map toShellAdminRow (users_List (se_users env) (sh_users s))))"

record create_user =
  cu_Username :: string
  cu_DisplayName :: string
  cu_Password :: string
  cu_Permissions :: "string list"

definition handleShellUserCreate :: "create_user option \<Rightarrow> shell_handler" where
  "handleShellUserCreate body env claims r s =
     (case body of
        None \<Rightarrow> (s, Envelope 400 ''invalid_request'' '''' False)
      | Some req \<Rightarrow>
          (let username = TrimSpace (cu_Username req)
           in if username = '''' then (s, Envelope 400 ''invalid_request'' '''' False)
              else if length (cu_Password req) < minShellPassword then (s, Envelope 400 ''invalid_request'' '''' False)
              else if validateShellRoles [''user''] s \<noteq> [] then (s, Envelope 400 ''role_rejected'' '''' False)
              else if users_Get username (sh_users s) \<noteq> None then (s, Envelope 409 ''user_exists'' '''' False)
              else (case se_hash env (cu_Password req) of
                      None \<Rightarrow> (s, Envelope 500 ''user_create_failed'' '''' True)
                    | Some hash \<Rightarrow>
                        (let account = \<lparr>ua_Username = username,
                               ua_DisplayName = (if cu_DisplayName req = '''' then username else cu_DisplayName req),
                               ua_PasswordHash = hash, ua_Roles = [''user''], ua_Permissions = cu_Permissions req, ua_Disabled = False,
                               ua_MustChangePassword = False\<rparr>;
                             (users, err) = users_Create (se_users env) (se_wr env) account (sh_users s);
                             s' = s\<lparr>sh_users := users\<rparr>
                         in if err \<noteq> None then (s', Envelope 500 ''user_create_failed'' '''' False)
                            else (s', RowAnswer 201 (toShellAdminRow account))))))"

record update_user =
  up_DisplayName :: "string option"
  up_Disabled :: "bool option"
  up_Permissions :: "string list option"
  up_Roles :: "string list option"

text \<open>The checks read the store; the change is a later, separate access to it.\<close>

definition updateRefused :: "string \<Rightarrow> update_user \<Rightarrow> ShellServer \<Rightarrow> shell_answer option" where
  "updateRefused ident req s =
     (case users_Get ident (sh_users s) of
        None \<Rightarrow> Some (Envelope 404 ''user_not_found'' '''' False)
      | Some account \<Rightarrow>
          if up_Disabled req = Some True \<and> \<not> ua_Disabled account \<and> hasAnyRole (ua_Roles account) ''admin'' \<and>
             EnabledAdminCount (sh_users s) \<le> 1
          then Some (Envelope 409 ''last_admin'' '''' False)
          else (case up_Roles req of
                  None \<Rightarrow> None
                | Some roles \<Rightarrow>
                    if validateShellRoles roles s \<noteq> [] then Some (Envelope 400 ''role_rejected'' '''' False)
                    else if \<not> hasAnyRole roles ''admin'' \<and> hasAnyRole (ua_Roles account) ''admin'' \<and> \<not> ua_Disabled account \<and>
                            EnabledAdminCount (sh_users s) \<le> 1
                    then Some (Envelope 409 ''last_admin'' '''' False)
                    else None))"

definition mutateAccount :: "update_user \<Rightarrow> UserAccount \<Rightarrow> UserAccount" where
  "mutateAccount req a =
     a\<lparr>ua_DisplayName := case_option (ua_DisplayName a) id (up_DisplayName req), ua_Disabled := case_option (ua_Disabled a) id (up_Disabled req),
       ua_Permissions := case_option (ua_Permissions a) id (up_Permissions req), ua_Roles := case_option (ua_Roles a) id (up_Roles req)\<rparr>"

definition zeroAccount :: UserAccount where
  "zeroAccount = \<lparr>ua_Username = '''', ua_DisplayName = '''', ua_PasswordHash = '''', ua_Roles = [], ua_Permissions = [], ua_Disabled = False,
     ua_MustChangePassword = False\<rparr>"

definition updateApplied :: "shell_env \<Rightarrow> string \<Rightarrow> update_user \<Rightarrow> ShellServer \<Rightarrow> ShellServer \<times> shell_answer" where
  "updateApplied env ident req s =
     (let (users, err) = users_Update (se_users env) (se_wr env) ident (mutateAccount req) (sh_users s); s' = s\<lparr>sh_users := users\<rparr>
      in if err \<noteq> None then (s', Envelope 500 ''user_update_failed'' '''' False)
         else (s', RowAnswer 200 (toShellAdminRow (case users_Get ident users of Some a \<Rightarrow> a | None \<Rightarrow> zeroAccount))))"

definition handleShellUserUpdate :: "string \<Rightarrow> update_user option \<Rightarrow> shell_handler" where
  "handleShellUserUpdate ident body env claims r s =
     (case body of
        None \<Rightarrow> (s, Envelope 400 ''invalid_request'' '''' False)
      | Some req \<Rightarrow> (case updateRefused ident req s of Some answer \<Rightarrow> (s, answer) | None \<Rightarrow> updateApplied env ident req s))"

definition handleShellUserDelete :: "string \<Rightarrow> shell_handler" where
  "handleShellUserDelete ident env claims r s =
     (case users_Get ident (sh_users s) of
        None \<Rightarrow> (s, Envelope 404 ''user_not_found'' '''' False)
      | Some account \<Rightarrow>
          if \<not> ua_Disabled account \<and> hasAnyRole (ua_Roles account) ''admin'' \<and> EnabledAdminCount (sh_users s) \<le> 1
          then (s, Envelope 409 ''last_admin'' '''' False)
          else
            (let (users, err) = users_Delete (se_users env) (se_wr env) ident (sh_users s); s' = s\<lparr>sh_users := users\<rparr>
             in if err \<noteq> None then (s', Envelope 500 ''user_delete_failed'' '''' False) else (s', NoContent)))"

definition setPassword :: "string \<Rightarrow> bool \<Rightarrow> UserAccount \<Rightarrow> UserAccount" where
  "setPassword hash mustChange a = a\<lparr>ua_PasswordHash := hash, ua_MustChangePassword := mustChange\<rparr>"

definition handleShellUserPasswordReset :: "string \<Rightarrow> shell_handler" where
  "handleShellUserPasswordReset ident env claims r s =
     (if users_Get ident (sh_users s) = None then (s, Envelope 404 ''user_not_found'' '''' False)
      else (case se_temp env of
              None \<Rightarrow> (s, Envelope 500 ''user_reset_failed'' '''' True)
            | Some temp \<Rightarrow>
                (case se_hash env temp of
                   None \<Rightarrow> (s, Envelope 500 ''user_reset_failed'' '''' True)
                 | Some hash \<Rightarrow>
                     (let (users, err) = users_Update (se_users env) (se_wr env) ident (setPassword hash True) (sh_users s);
                          s' = s\<lparr>sh_users := users\<rparr>
                      in if err \<noteq> None then (s', Envelope 500 ''user_reset_failed'' '''' False) else (s', TempPassword temp)))))"

text \<open>The own password.  When the update fails, also because the file cannot be written, the bootstrap account is created instead.\<close>

definition handleShellPasswordChange :: "string option \<Rightarrow> shell_handler" where
  "handleShellPasswordChange body env claims r s =
     (case body of
        None \<Rightarrow> (s, Envelope 400 ''invalid_request'' '''' False)
      | Some password \<Rightarrow>
          if length password < minShellPassword then (s, Envelope 400 ''invalid_request'' '''' False)
          else (case se_hash env password of
                  None \<Rightarrow> (s, Envelope 500 ''password_change_failed'' '''' True)
                | Some hash \<Rightarrow>
                    (let (users, err) = users_Update (se_users env) (se_wr env) (sc_Sub claims) (setPassword hash False) (sh_users s);
                         s' = s\<lparr>sh_users := users\<rparr>
                     in if err = None then (s', Envelope 200 ''ok'' '''' False)
                        else (case sh_bootstrap s of
                                None \<Rightarrow> (s', Envelope 500 ''password_change_failed'' '''' False)
                              | Some b \<Rightarrow>
                                  if sr_username b \<noteq> sc_Sub claims then (s', Envelope 500 ''password_change_failed'' '''' False)
                                  else
                                    (let account = \<lparr>ua_Username = sr_username b, ua_DisplayName = sr_username b, ua_PasswordHash = hash,
                                           ua_Roles = sr_roles b, ua_Permissions = sr_modules b, ua_Disabled = False,
                                           ua_MustChangePassword = False\<rparr>;
                                         (users', cerr) = users_Create (se_users env) (se_wr env) account users
                                     in (s\<lparr>sh_users := users'\<rparr>,
                                         if cerr \<noteq> None then Envelope 500 ''password_change_failed'' '''' False
                                         else Envelope 200 ''ok'' '''' False))))))"

section \<open>Roles and menus\<close>

definition shellRoleUserCount :: "shell_env \<Rightarrow> ShellServer \<Rightarrow> string \<Rightarrow> nat" where
  "shellRoleUserCount env s role =
     length (filter (\<lambda>a. \<not> ua_Disabled a \<and> hasAnyRole (ua_Roles a) role) (users_List (se_users env) (sh_users s)))"

definition handleShellRolesList :: shell_handler where
  "handleShellRolesList env claims r s =
     (case sh_roles s of
        None \<Rightarrow> (s, Envelope 503 ''surface_unavailable'' '''' False)
      | Some rs \<Rightarrow> (s, RolesAnswer (roles_List (se_roles env) (shellRoleUserCount env s) rs)))"

definition handleShellRoleCreate :: "(string \<times> string \<times> string list) option \<Rightarrow> shell_handler" where
  "handleShellRoleCreate body env claims r s =
     (case sh_roles s of
        None \<Rightarrow> (s, Envelope 503 ''surface_unavailable'' '''' False)
      | Some rs \<Rightarrow>
          (case body of
             None \<Rightarrow> (s, Envelope 400 ''invalid_request'' '''' False)
           | Some (name, description, writeClasses) \<Rightarrow>
               (let (rs', err) = roles_Create (se_roles env) (se_wr env) name description writeClasses rs; s' = s\<lparr>sh_roles := Some rs'\<rparr>
                in case err of
                     Some e \<Rightarrow> (s', Envelope (if e = RoleExists name \<or> e = RoleBuiltin name then 409 else 400) ''role_rejected'' name False)
                   | None \<Rightarrow> (shellAuditRecord env claims r ''config'' ''ok'' 0 s', JSONAnswer name))))"

definition handleShellRoleDelete :: "string \<Rightarrow> shell_handler" where
  "handleShellRoleDelete name env claims r s =
     (case sh_roles s of
        None \<Rightarrow> (s, Envelope 503 ''surface_unavailable'' '''' False)
      | Some rs \<Rightarrow>
          (let (rs', err) = roles_Delete (se_roles env) (se_wr env) name (shellRoleUserCount env s) rs; s' = s\<lparr>sh_roles := Some rs'\<rparr>
           in case err of
                Some e \<Rightarrow>
                  (s', Envelope (case e of RoleInUse _ _ \<Rightarrow> 409 | RoleBuiltin _ \<Rightarrow> 409 | _ \<Rightarrow> 400) ''role_rejected'' name False)
              | None \<Rightarrow> (shellAuditRecord env claims r ''config'' ''ok'' 0 s', JSONAnswer name)))"

definition handleShellMenuPermissionsGet :: "MenuItem list \<Rightarrow> shell_handler" where
  "handleShellMenuPermissionsGet defaults env claims r s =
     (case sh_menus s of
        None \<Rightarrow> (s, Envelope 503 ''surface_unavailable'' '''' False)
      | Some m \<Rightarrow> (case menu_Get defaults m of (d, ov) \<Rightarrow> (s, MenusAnswer d ov)))"

definition handleShellMenuPermissionsPut :: "MenuItem list option \<Rightarrow> shell_handler" where
  "handleShellMenuPermissionsPut body env claims r s =
     (case sh_menus s of
        None \<Rightarrow> (s, Envelope 503 ''surface_unavailable'' '''' False)
      | Some m \<Rightarrow>
          (case body of
             None \<Rightarrow> (s, Envelope 400 ''invalid_request'' '''' False)
           | Some items \<Rightarrow>
               (let (m', err) = menu_Put (se_wr env) items (\<lambda>name. case sh_roles s of None \<Rightarrow> False | Some rs \<Rightarrow> roles_Exists name rs) m;
                    s' = s\<lparr>sh_menus := Some m'\<rparr>
                in if err \<noteq> None then (s', Envelope 400 ''menus_rejected'' '''' False)
                   else (shellAuditRecord env claims r ''config'' ''ok'' 0 s', JSONAnswer ''saved''))))"

section \<open>Setting up the accounts\<close>

record shell_config_user =
  su_Username :: string
  su_Password :: string
  su_PasswordBcrypt :: string
  su_Roles :: "string list"
  su_Modules :: "string list"

definition seedAccount :: "shell_env \<Rightarrow> shell_config_user \<Rightarrow> UserAccount option" where
  "seedAccount env u =
     (let hash = (if su_PasswordBcrypt u = '''' \<and> su_Password u \<noteq> '''' then se_hash env (su_Password u) else Some (su_PasswordBcrypt u));
          roles = (if su_Roles u = [] then [''user''] else su_Roles u)
      in map_option (\<lambda>h. \<lparr>ua_Username = su_Username u, ua_DisplayName = su_Username u, ua_PasswordHash = h, ua_Roles = roles,
           ua_Permissions = (if hasAnyRole roles ''admin'' then [''*''] else su_Modules u), ua_Disabled = False, ua_MustChangePassword = False\<rparr>) hash)"

definition bootstrapRecord :: "string \<Rightarrow> string \<Rightarrow> shellUserRecord" where
  "bootstrapRecord password hash =
     \<lparr>sr_username = ''admin'', sr_password = password, sr_bcryptHash = hash, sr_displayName = '''', sr_roles = [], sr_modules = [], sr_mustChange = True\<rparr>"

definition bootstrapAccount :: "string \<Rightarrow> UserAccount" where
  "bootstrapAccount hash =
     \<lparr>ua_Username = ''admin'', ua_DisplayName = ''admin'', ua_PasswordHash = hash, ua_Roles = [''admin''], ua_Permissions = [''*''],
      ua_Disabled = False, ua_MustChangePassword = True\<rparr>"

definition setupShellUsers :: "shell_env \<Rightarrow> string \<Rightarrow> string \<Rightarrow> UserAccount list store_file \<Rightarrow> shell_config_user list \<Rightarrow> ShellServer \<Rightarrow> ShellServer" where
  "setupShellUsers env random path f cfgUsers s0 =
     (let fresh = NewUserStore path f;
          users = (case users_Load fresh of (s, None) \<Rightarrow> s | (_, Some _) \<Rightarrow> fresh);
          s = s0\<lparr>sh_bootstrap := None, sh_users := users\<rparr>
      in if cfgUsers = [] \<and> users_Count users = 0 then
           (case se_hash env random of
              None \<Rightarrow> s
            | Some hash \<Rightarrow>
                s\<lparr>sh_bootstrap := Some (bootstrapRecord random hash),
                  sh_users := fst (users_Create (se_users env) (se_wr env) (bootstrapAccount hash) users)\<rparr>)
         else s\<lparr>sh_users := fst (SeedFromConfig (se_users env) (se_wr env) (List.map_filter (seedAccount env) cfgUsers) users)\<rparr>)"

section \<open>The last administrator\<close>

text \<open>How one entry of a map counts for a predicate, before and after a change.\<close>

definition entry_count :: "('k \<times> 'v \<Rightarrow> bool) \<Rightarrow> ('k \<times> 'v) list \<Rightarrow> 'k \<Rightarrow> nat" where
  "entry_count P xs k = (case map_of xs k of Some v \<Rightarrow> if P (k, v) then 1 else 0 | None \<Rightarrow> 0)"

lemma count_update:
  assumes "distinct (map fst xs)"
  shows "length (filter P (AList.update k v xs)) + entry_count P xs k = length (filter P xs) + (if P (k, v) then 1 else 0)"
  using assms by (induction xs) (auto simp: entry_count_def split: option.split)

lemma count_delete:
  assumes "distinct (map fst xs)"
  shows "length (filter P (AList.delete k xs)) + entry_count P xs k = length (filter P xs)"
  using assms
proof (induction xs)
  case (Cons x xs)
  have "AList.delete k xs = xs \<and> map_of xs k = None" if "fst x = k"
  proof -
    have n: "k \<notin> fst ` set xs" using Cons.prems that by auto
    then show ?thesis using map_of_eq_None_iff [of xs k] by (simp add: delete_id)
  qed
  then show ?case using Cons by (cases x) (auto simp: entry_count_def split: option.splits if_splits)
qed (simp add: entry_count_def)

abbreviation enabled_admin :: "string \<times> UserAccount \<Rightarrow> bool" where
  "enabled_admin \<equiv> \<lambda>(k, a). \<not> ua_Disabled a \<and> hasRole (ua_Roles a) ''admin''"

lemma admins_Update:
  assumes "users_ok s" and "map_of (ust_users s) k = Some a"
  shows "EnabledAdminCount (fst (users_Update it wr k f s)) + (if enabled_admin (k, a) then 1 else 0) =
     EnabledAdminCount s + (if enabled_admin (k, f a) then 1 else 0)"
  using count_update [of "ust_users s" enabled_admin k "f a"] assms
  by (auto simp: users_Update_def EnabledAdminCount_def entry_count_def users_ok_def)

lemma admins_Create:
  assumes "users_ok s"
  shows "EnabledAdminCount s \<le> EnabledAdminCount (fst (users_Create it wr a s))"
proof (cases "map_of (ust_users s) (ua_Username a)")
  case None
  then have "entry_count enabled_admin (ust_users s) (ua_Username a) = 0" by (simp add: entry_count_def)
  then have "length (filter enabled_admin (ust_users s)) \<le> length (filter enabled_admin (AList.update (ua_Username a) a (ust_users s)))"
    using count_update [of "ust_users s" enabled_admin "ua_Username a" a] assms by (simp add: users_ok_def)
  then show ?thesis using None by (simp add: users_Create_def EnabledAdminCount_def)
qed (simp add: users_Create_def)

lemma admins_Delete:
  assumes "users_ok s" and "map_of (ust_users s) k = Some a"
  shows "EnabledAdminCount (fst (users_Delete it wr k s)) + (if enabled_admin (k, a) then 1 else 0) = EnabledAdminCount s"
  using count_delete [of "ust_users s" enabled_admin k] assms
  by (auto simp: users_Delete_def EnabledAdminCount_def entry_count_def users_ok_def)

lemma admins_Update_same:
  assumes "users_ok s" and "\<And>a. enabled_admin (k, f a) = enabled_admin (k, a)"
  shows "EnabledAdminCount (fst (users_Update it wr k f s)) = EnabledAdminCount s"
proof (cases "map_of (ust_users s) k")
  case (Some a)
  then show ?thesis using admins_Update [OF assms(1) Some, of it wr f] assms(2) [of a] by (auto split: if_splits)
qed (simp add: users_Update_def)

text \<open>The requests of the account page, each with the outside it sees.\<close>

datatype account_op =
  UserCreate "create_user option" | UserUpdate string "update_user option" | UserDelete string | UserReset string | OwnPassword "string option"

fun account_step :: "ShellServer \<Rightarrow> shell_env \<times> SessionClaims \<times> InboundRequest \<times> account_op \<Rightarrow> ShellServer" where
  "account_step s (env, claims, r, UserCreate body) = fst (handleShellUserCreate body env claims r s)"
| "account_step s (env, claims, r, UserUpdate ident body) = fst (handleShellUserUpdate ident body env claims r s)"
| "account_step s (env, claims, r, UserDelete ident) = fst (handleShellUserDelete ident env claims r s)"
| "account_step s (env, claims, r, UserReset ident) = fst (handleShellUserPasswordReset ident env claims r s)"
| "account_step s (env, claims, r, OwnPassword body) = fst (handleShellPasswordChange body env claims r s)"

definition admin_inv :: "ShellServer \<Rightarrow> bool" where
  "admin_inv s \<longleftrightarrow> users_ok (sh_users s) \<and> 1 \<le> EnabledAdminCount (sh_users s)"

lemma update_keeps_admin:
  assumes "admin_inv s" and "updateRefused ident req s = None"
  shows "admin_inv (fst (updateApplied env ident req s))"
proof -
  have u: "users_ok (sh_users s)" "1 \<le> EnabledAdminCount (sh_users s)" using assms(1) by (auto simp: admin_inv_def)
  obtain a where a: "map_of (ust_users (sh_users s)) ident = Some a"
    using assms(2) by (auto simp: updateRefused_def users_Get_def split: option.splits)
  have k: "enabled_admin (ident, a) \<Longrightarrow> EnabledAdminCount (sh_users s) \<le> 1 \<Longrightarrow> enabled_admin (ident, mutateAccount req a)"
    using assms(2) a by (auto simp: updateRefused_def users_Get_def mutateAccount_def split: option.splits if_splits)
  have "1 \<le> EnabledAdminCount (fst (users_Update (se_users env) (se_wr env) ident (mutateAccount req) (sh_users s)))"
  proof (cases "enabled_admin (ident, mutateAccount req a)")
    case False
    then have "enabled_admin (ident, a) \<longrightarrow> 1 < EnabledAdminCount (sh_users s)" using k by linarith
    then show ?thesis using admins_Update [OF u(1) a, of "se_users env" "se_wr env" "mutateAccount req"] u(2) False by (simp split: if_splits)
  qed (use admins_Update [OF u(1) a, of "se_users env" "se_wr env" "mutateAccount req"] u(2) in \<open>simp split: if_splits\<close>)
  moreover have "users_ok (fst (users_Update (se_users env) (se_wr env) ident (mutateAccount req) (sh_users s)))"
    using users_ops_ok(3) [OF u(1)] by (simp add: mutateAccount_def)
  ultimately show ?thesis by (simp add: admin_inv_def updateApplied_def Let_def case_prod_unfold)
qed

lemma delete_keeps_admin:
  assumes "admin_inv s"
  shows "admin_inv (fst (handleShellUserDelete ident env claims r s))"
proof (cases "map_of (ust_users (sh_users s)) ident")
  case (Some a)
  have u: "users_ok (sh_users s)" "1 \<le> EnabledAdminCount (sh_users s)" using assms by (auto simp: admin_inv_def)
  show ?thesis using admins_Delete [OF u(1) Some, of "se_users env" "se_wr env"] users_ops_ok(2) [OF u(1), of "se_users env" "se_wr env" ident] u Some assms
    by (auto simp: handleShellUserDelete_def users_Get_def admin_inv_def Let_def case_prod_unfold split: if_splits)
qed (use assms in \<open>simp add: handleShellUserDelete_def users_Get_def\<close>)

lemma password_keeps_admin:
  assumes "admin_inv s"
  shows "admin_inv (fst (handleShellUserPasswordReset ident env claims r s))" "admin_inv (fst (handleShellPasswordChange body env claims r s))"
proof -
  have u: "users_ok (sh_users s)" "1 \<le> EnabledAdminCount (sh_users s)" using assms by (auto simp: admin_inv_def)
  have p: "users_ok (fst (users_Update it wr k (setPassword h b) (sh_users s)))"
      "1 \<le> EnabledAdminCount (fst (users_Update it wr k (setPassword h b) (sh_users s)))" for it wr k h b
    using users_ops_ok(3) [OF u(1), of "setPassword h b"] admins_Update_same [OF u(1), of k "setPassword h b"] u(2) by (simp_all add: setPassword_def)
  have c: "1 \<le> EnabledAdminCount (fst (users_Create it wr a (fst (users_Update it' wr' k (setPassword h b) (sh_users s)))))" for it wr a it' wr' k h b
    using admins_Create [OF p(1)] p(2) by (meson order.trans)
  show "admin_inv (fst (handleShellUserPasswordReset ident env claims r s))"
    using assms p by (auto simp: handleShellUserPasswordReset_def admin_inv_def Let_def case_prod_unfold split: option.split)
  show "admin_inv (fst (handleShellPasswordChange body env claims r s))"
    using assms p c users_ops_ok(1) [OF p(1)]
    by (auto simp: handleShellPasswordChange_def admin_inv_def Let_def case_prod_unfold split: option.split)
qed

lemma create_keeps_admin:
  assumes "admin_inv s"
  shows "admin_inv (fst (handleShellUserCreate body env claims r s))"
proof -
  have u: "users_ok (sh_users s)" "1 \<le> EnabledAdminCount (sh_users s)" using assms by (auto simp: admin_inv_def)
  have "users_ok (fst (users_Create it wr a (sh_users s)))" "1 \<le> EnabledAdminCount (fst (users_Create it wr a (sh_users s)))" for it wr a
    using users_ops_ok(1) [OF u(1)] admins_Create [OF u(1)] u(2) by (simp, meson order.trans)
  then show ?thesis using assms by (auto simp: handleShellUserCreate_def admin_inv_def Let_def case_prod_unfold split: option.split)
qed

interpretation accounts: step_system account_step admin_inv
proof
  fix s :: ShellServer and e :: "shell_env \<times> SessionClaims \<times> InboundRequest \<times> account_op"
  assume i: "admin_inv s"
  obtain env claims r q where e: "e = (env, claims, r, q)" by (metis surj_pair)
  show "admin_inv (account_step s e)"
    using i update_keeps_admin [OF i] by (cases q) (auto simp: e create_keeps_admin delete_keeps_admin password_keeps_admin handleShellUserUpdate_def split: option.split)
qed

text \<open>
  C27. There is always an enabled administrator in the account store: whatever sequence of requests the account page sends, with any bodies, any write failures
  and from any sessions, the guards keep the last enabled administrator from being disabled, demoted or deleted, as long as requests are handled one
  after another.
\<close>
theorem last_admin_kept:
  assumes "users_ok (sh_users s)" and "1 \<le> EnabledAdminCount (sh_users s)"
  shows "1 \<le> EnabledAdminCount (sh_users (run_steps account_step s requests))"
  using accounts.run_inv [of s requests] assms by (simp add: admin_inv_def)

text \<open>
  Concurrent requests can remove every administrator: with two enabled administrators, the checks of two requests that disable one each both pass when
  they run before the changes, and after both changes no enabled administrator is left.
\<close>
theorem last_admin_race:
  assumes "users_ok (sh_users s)" and "EnabledAdminCount (sh_users s) = 2" and "u \<noteq> v"
    and "users_Get u (sh_users s) = Some a" "\<not> ua_Disabled a" "''admin'' \<in> set (ua_Roles a)"
    and "users_Get v (sh_users s) = Some b" "\<not> ua_Disabled b" "''admin'' \<in> set (ua_Roles b)"
    and "off = \<lparr>up_DisplayName = None, up_Disabled = Some True, up_Permissions = None, up_Roles = None\<rparr>"
  shows "updateRefused u off s = None \<and> updateRefused v off s = None \<and>
    EnabledAdminCount (sh_users (fst (updateApplied env' v off (fst (updateApplied env u off s))))) = 0"
proof -
  let ?d = "mutateAccount off"
  have d: "ua_Disabled (?d x)" for x by (simp add: mutateAccount_def assms(10))
  have a: "map_of (ust_users (sh_users s)) u = Some a" and b: "map_of (ust_users (sh_users s)) v = Some b"
    using assms(4,7) by (simp_all add: users_Get_def)
  define s1 where "s1 = fst (users_Update (se_users env) (se_wr env) u ?d (sh_users s))"
  have ok: "users_ok s1" using users_ops_ok(3) [OF assms(1)] by (simp add: s1_def mutateAccount_def)
  have "EnabledAdminCount s1 = 1"
    using admins_Update [OF assms(1) a, of "se_users env" "se_wr env" ?d] assms(2,5,6) d by (simp add: s1_def)
  moreover have "map_of (ust_users s1) v = Some b" using a b assms(3) by (simp add: s1_def users_Update_def update_conv')
  ultimately have "EnabledAdminCount (fst (users_Update (se_users env') (se_wr env') v ?d s1)) = 0"
    using admins_Update [OF ok, of v b "se_users env'" "se_wr env'" ?d] assms(8,9) d by simp
  then show ?thesis using assms(2,4,7,10) by (simp add: updateRefused_def updateApplied_def s1_def Let_def case_prod_unfold)
qed

section \<open>Sessions outlive their rights\<close>

text \<open>The update that makes an account an enabled administrator, and a request that carries a bearer token.\<close>

definition promote :: update_user where
  "promote = \<lparr>up_DisplayName = None, up_Disabled = Some False, up_Permissions = None, up_Roles = Some [''admin'']\<rparr>"

lemma promote_allowed: "users_Get u (sh_users s) = Some a \<Longrightarrow> updateRefused u promote s = None"
  by (auto simp: updateRefused_def promote_def validateShellRoles_def roles_Exists_def isBuiltinRole_def builtinShellRoles_def split: option.split)

text \<open>
  C28. A demoted or disabled administrator restores itself: the account page trusts the roles in the token and never looks at the account, so with a token
  issued before the demotion the account patches itself back to an enabled administrator, whatever the store says about it.
\<close>
theorem demoted_admin_restores_itself:
  assumes "sh_sessions s = Some m" and "bearerToken r \<noteq> ''''" and "Validate (se_lib env) (se_now env) m (bearerToken r) = Inr claims"
    and "''admin'' \<in> set (sc_Roles claims)" and "users_Get (sc_Sub claims) (sh_users s) = Some a"
    and "withShellSession (requireShellAdmin (handleShellUserUpdate (sc_Sub claims) (Some promote))) env cookie r s = (s', answer)"
  shows "\<exists>a'. users_Get (sc_Sub claims) (sh_users s') = Some a' \<and> \<not> ua_Disabled a' \<and> ''admin'' \<in> set (ua_Roles a')"
proof -
  have "s' = fst (updateApplied env (sc_Sub claims) promote s)"
    using assms promote_allowed [OF assms(5)] by (simp add: withShellSession_def requireShellAdmin_def handleShellUserUpdate_def)
  then have "sh_users s' = fst (users_Update (se_users env) (se_wr env) (sc_Sub claims) (mutateAccount promote) (sh_users s))"
    by (simp add: updateApplied_def Let_def case_prod_unfold)
  then show ?thesis using assms(5) by (simp add: users_Get_def users_Update_def update_conv' mutateAccount_def promote_def)
qed

section \<open>The bootstrap administrator\<close>

text \<open>
  Deleting the bootstrap administrator does not end its access: for the lifetime of the process a login with the password of the first start still
  succeeds, because the login falls back to the record in memory when the store has no such account, and changing the password with that session creates the
  account again.
\<close>
theorem deleted_bootstrap_returns:
  assumes "sh_bootstrap s = Some (bootstrapRecord password hash)" and "hash \<noteq> ''''" "se_compare env hash password"
    and "sh_sessions s = Some m" and "handleShellUserDelete ''admin'' env' claims' r' s = (s1, NoContent)"
    and "minShellPassword \<le> length fresh" "se_hash env fresh = Some hash'" "se_wr env"
    and "sc_Sub claims = ''admin''"
  shows "users_Get ''admin'' (sh_users s1) = None \<and>
    (\<exists>s2 resp. handleShellSessionIssue env (Some (''admin'', password)) s1 = (s2, SessionAnswer resp) \<and> ssr_UserID resp = ''admin'' \<and>
       (\<exists>s3 a. handleShellPasswordChange (Some fresh) env claims r s2 = (s3, Envelope 200 ''ok'' '''' False) \<and>
          users_Get ''admin'' (sh_users s3) = Some a \<and> \<not> ua_Disabled a \<and> ua_PasswordHash a = hash'))"
proof -
  have s1: "s1 = s\<lparr>sh_users := fst (users_Delete (se_users env') (se_wr env') ''admin'' (sh_users s))\<rparr>" and "users_Get ''admin'' (sh_users s) \<noteq> None"
    using assms(5) by (auto simp: handleShellUserDelete_def Let_def case_prod_unfold split: option.splits if_splits)
  then have n: "map_of (ust_users (sh_users s1)) ''admin'' = None" by (auto simp: users_Get_def users_Delete_def delete_conv')
  let ?b = "bootstrapRecord password hash"
  have u: "resolveShellUser ''admin'' s1 = Some (?b, True)"
    using n assms(1) by (simp add: resolveShellUser_def users_Get_def s1 bootstrapRecord_def)
  have p: "checkShellPassword env ?b password" using assms(2,3) by (simp add: checkShellPassword_def bootstrapRecord_def)
  obtain s2 resp where i: "handleShellSessionIssue env (Some (''admin'', password)) s1 = (s2, SessionAnswer resp)" "ssr_UserID resp = ''admin''"
      and s2: "sh_users s2 = sh_users s1" "sh_bootstrap s2 = Some ?b"
    using u p assms(1,4) by (simp add: handleShellSessionIssue_def Let_def auditRecord_def s1 bootstrapRecord_def split: option.split)
  have "\<exists>s3 a. handleShellPasswordChange (Some fresh) env claims r s2 = (s3, Envelope 200 ''ok'' '''' False) \<and>
          users_Get ''admin'' (sh_users s3) = Some a \<and> \<not> ua_Disabled a \<and> ua_PasswordHash a = hash'"
    using assms(6-9) n s2
    by (simp add: handleShellPasswordChange_def Let_def users_Update_def users_Create_def users_Save_def users_Get_def update_conv' bootstrapRecord_def)
  then show ?thesis using i n by (auto simp: users_Get_def)
qed

section \<open>Roles of disabled accounts\<close>

text \<open>
  A role that is still assigned can be deleted: only enabled accounts are counted, so a role held by disabled accounts goes away, and enabling such an account
  later leaves an enabled account with a role that does not resolve, which the assignment of roles refuses.
\<close>
theorem assigned_role_deleted:
  assumes "users_ok (sh_users s)" and "sh_roles s = Some rs" and "users_Get u (sh_users s) = Some a" "ua_Disabled a" "name \<in> set (ua_Roles a)"
    and "\<forall>(k, b) \<in> set (ust_users (sh_users s)). name \<in> set (ua_Roles b) \<longrightarrow> ua_Disabled b"
    and "\<not> isBuiltinRole name" "roles_Exists name rs" and "se_wr env"
    and "on = \<lparr>up_DisplayName = None, up_Disabled = Some False, up_Permissions = None, up_Roles = None\<rparr>"
  shows "\<exists>s1 s2 row a' rs'. handleShellRoleDelete name env claims r s = (s1, JSONAnswer name) \<and>
    handleShellUserUpdate u (Some on) env claims r' s1 = (s2, RowAnswer 200 row) \<and>
    users_Get u (sh_users s2) = Some a' \<and> \<not> ua_Disabled a' \<and> name \<in> set (ua_Roles a') \<and> sh_roles s2 = Some rs' \<and> \<not> roles_Exists name rs'"
proof -
  have "shellRoleUserCount env s name = 0"
    using assms(6) by (auto simp: shellRoleUserCount_def users_List_def sortAccounts_def filter_empty_conv)
  moreover have "map_of (rst_custom rs) name \<noteq> None" using assms(7,8) by (simp add: roles_Exists_def)
  ultimately obtain rs' where d: "roles_Delete (se_roles env) (se_wr env) name (shellRoleUserCount env s) rs = (rs', None)"
    using assms(7,9) roles_Save_wr by (fastforce simp: roles_Delete_def)
  define s1 where "s1 = shellAuditRecord env claims r ''config'' ''ok'' 0 (s\<lparr>sh_roles := Some rs'\<rparr>)"
  have h: "handleShellRoleDelete name env claims r s = (s1, JSONAnswer name)" using d assms(2) by (simp add: handleShellRoleDelete_def s1_def Let_def)
  have k: "sh_users s1 = sh_users s" "sh_roles s1 = Some rs'" by (simp_all add: s1_def shellAuditRecord_def auditRecord_def split: option.split)
  have "handleShellUserUpdate u (Some on) env claims r' s1 = updateApplied env u on s1"
    using assms(3,10) k by (simp add: handleShellUserUpdate_def updateRefused_def)
  moreover obtain us where "users_Update (se_users env) (se_wr env) u (mutateAccount on) (sh_users s) = (us, None)"
      "ust_users us = AList.update u (mutateAccount on a) (ust_users (sh_users s))"
    using users_Update_wr [of "sh_users s" u a "se_users env" "mutateAccount on"] assms(3,9) by (auto simp: users_Get_def)
  ultimately obtain s2 row where t: "handleShellUserUpdate u (Some on) env claims r' s1 = (s2, RowAnswer 200 row)"
      "users_Get u (sh_users s2) = Some (mutateAccount on a)" "sh_roles s2 = Some rs'"
    using k by (simp add: updateApplied_def users_Get_def update_conv' Let_def)
  have "\<not> roles_Exists name rs'" using roles_Delete_exists [OF d, of name] assms(7) by simp
  then show ?thesis using h t assms(5,10) by (fastforce simp: mutateAccount_def)
qed

section \<open>A concrete shell\<close>

definition sample_env :: shell_env where
  "sample_env = \<lparr>se_now = 5 * second, se_users = id, se_roles = id, se_wr = True, se_hash = (\<lambda>p. Some (''h'' @ p)),
     se_compare = (\<lambda>h p. h = ''h'' @ p), se_temp = Some ''temp'', se_lib = sample_lib, se_audit = \<lparr>lib_sha = id, lib_ts = fmt_d\<rparr>\<rparr>"

definition account :: "string \<Rightarrow> string list \<Rightarrow> bool \<Rightarrow> UserAccount" where
  "account u roles off = \<lparr>ua_Username = u, ua_DisplayName = u, ua_PasswordHash = ''h'' @ u, ua_Roles = roles, ua_Permissions = [''*''],
     ua_Disabled = off, ua_MustChangePassword = False\<rparr>"

definition sample_shell :: ShellServer where
  "sample_shell = \<lparr>sh_sessions = Some (NewManager ''k'' minute),
     sh_users = \<lparr>ust_users = [(''admin'', bootstrapAccount ''hfirst''), (''ann'', account ''ann'' [''user''] True), (''bob'', account ''bob'' [''admin''] False)],
                 ust_path = ''users.json'', ust_file = FileMissing\<rparr>,
     sh_roles = Some \<lparr>rst_custom = [], rst_path = '''', rst_file = FileMissing\<rparr>, sh_menus = None, sh_audit = None,
     sh_bootstrap = Some (bootstrapRecord ''first'' ''hfirst''), sh_tenant = ''''\<rparr>"

definition ann_request :: InboundRequest where
  "ann_request = \<lparr>in_Method = ''PATCH'', in_Path = ''/api/v1/shell/users/ann'', in_Authorization = ''Bearer aann.k/aann'', in_XApiKey = '''',
     in_RemoteAddr = '''', in_Body = ''''\<rparr>"

lemma ann_token: "bearerToken ann_request = ''aann.k/aann''"
  by code_simp

lemma sample_users:
  "users_Get ''ann'' (sh_users sample_shell) = Some (account ''ann'' [''user''] True)"
  "users_Get ''admin'' (sh_users sample_shell) = Some (bootstrapAccount ''hfirst'')"
  "users_Get ''bob'' (sh_users sample_shell) = Some (account ''bob'' [''admin''] False)"
  "users_ok (sh_users sample_shell)" "EnabledAdminCount (sh_users sample_shell) = 2"
  by (simp_all add: sample_shell_def users_Get_def users_ok_def account_def bootstrapAccount_def EnabledAdminCount_def)

theorem demoted_admin_restores_itself_witness:
  "ua_Disabled (account ''ann'' [''user''] True) \<and> users_Get ''ann'' (sh_users sample_shell) = Some (account ''ann'' [''user''] True) \<and>
   (\<exists>a'. users_Get ''ann'' (sh_users (fst (withShellSession (requireShellAdmin (handleShellUserUpdate ''ann'' (Some promote))) sample_env None ann_request sample_shell)))
      = Some a' \<and> \<not> ua_Disabled a' \<and> ''admin'' \<in> set (ua_Roles a'))"
proof -
  have v: "Validate (se_lib sample_env) (se_now sample_env) (NewManager ''k'' minute) (bearerToken ann_request) = Inr ann_claims"
    using sample_valid by (simp add: sample_env_def ann_token)
  have m: "sh_sessions sample_shell = Some (NewManager ''k'' minute)" by (simp add: sample_shell_def)
  have c: "sc_Sub ann_claims = ''ann''" "''admin'' \<in> set (sc_Roles ann_claims)" by (simp_all add: ann_claims_def)
  obtain s' ans where w: "withShellSession (requireShellAdmin (handleShellUserUpdate ''ann'' (Some promote))) sample_env None ann_request sample_shell = (s', ans)"
    by (cases "withShellSession (requireShellAdmin (handleShellUserUpdate ''ann'' (Some promote))) sample_env None ann_request sample_shell")
  show ?thesis
    using demoted_admin_restores_itself [of sample_shell _ ann_request sample_env ann_claims _ None s' ans, OF m _ v c(2), unfolded c(1), OF _ sample_users(1) w] w
      sample_users(1) by (simp add: ann_token account_def)
qed

theorem last_admin_kept_witness:
  "1 \<le> EnabledAdminCount (sh_users (run_steps account_step sample_shell
     [(sample_env, ann_claims, ann_request, UserDelete ''admin''), (sample_env, ann_claims, ann_request, UserDelete ''bob'')]))"
  by (rule last_admin_kept) (simp_all add: sample_users)

theorem last_admin_race_witness:
  "EnabledAdminCount (sh_users (fst (updateApplied sample_env ''bob'' \<lparr>up_DisplayName = None, up_Disabled = Some True, up_Permissions = None, up_Roles = None\<rparr>
     (fst (updateApplied sample_env ''admin'' \<lparr>up_DisplayName = None, up_Disabled = Some True, up_Permissions = None, up_Roles = None\<rparr> sample_shell))))) = 0"
  using last_admin_race [OF sample_users(4,5) _ sample_users(2) _ _ sample_users(3) _ _ refl, of sample_env sample_env]
  by (simp add: bootstrapAccount_def account_def)

theorem deleted_bootstrap_returns_witness:
  "\<exists>s1. handleShellUserDelete ''admin'' sample_env bob_claims ann_request sample_shell = (s1, NoContent) \<and>
     users_Get ''admin'' (sh_users s1) = None \<and>
     (\<exists>s2 resp. handleShellSessionIssue sample_env (Some (''admin'', ''first'')) s1 = (s2, SessionAnswer resp) \<and> ssr_UserID resp = ''admin'' \<and>
       (\<exists>s3 a. handleShellPasswordChange (Some ''password'') sample_env (ann_claims\<lparr>sc_Sub := ''admin''\<rparr>) ann_request s2 = (s3, Envelope 200 ''ok'' '''' False) \<and>
          users_Get ''admin'' (sh_users s3) = Some a \<and> \<not> ua_Disabled a \<and> ua_PasswordHash a = ''hpassword''))"
proof -
  have b: "sh_bootstrap sample_shell = Some (bootstrapRecord ''first'' ''hfirst'')" "sh_sessions sample_shell = Some (NewManager ''k'' minute)"
    by (simp_all add: sample_shell_def)
  have "ust_path (sh_users sample_shell) = ''users.json''" by (simp add: sample_shell_def)
  then obtain s1 where d: "handleShellUserDelete ''admin'' sample_env bob_claims ann_request sample_shell = (s1, NoContent)"
    using sample_users by (simp add: handleShellUserDelete_def users_Delete_def users_Get_def users_Save_def sample_env_def Let_def split: if_splits)
  have e: "se_compare sample_env ''hfirst'' ''first''" "minShellPassword \<le> length ''password''" "se_hash sample_env ''password'' = Some ''hpassword''" "se_wr sample_env"
    by (simp_all add: sample_env_def minShellPassword_def)
  show ?thesis
    using deleted_bootstrap_returns [OF b(1) _ e(1) b(2) d e(2,3,4), of "ann_claims\<lparr>sc_Sub := ''admin''\<rparr>" ann_request] d by auto
qed

end
