(* ===== verification/Shell_Gateway.thy ===== *)
theory Shell_Gateway
  imports Shell_Keys Shell_Accounts
begin

text \<open>
  The manifest and module routes of the web shell: the gates and handlers of \<^verbatim>\<open>server/shell.go\<close> around the registry, the registered service keys
  of \<^verbatim>\<open>server/network_tier.go\<close>, the module proxy and the health poll (\<^verbatim>\<open>shell/proxy.go\<close>).  What the proxy does upstream is a value: where it sends the
  request and with which credential.  A probe of a URL answers a status or fails.
\<close>

section \<open>The module plane\<close>

record shell_config =
  wc_MasterKey :: string
  wc_AdminKey :: string
  wc_KeyRotationGrace :: duration
  wc_ServiceKeys :: "(string \<times> string) list"
  wc_Modules :: "(string \<times> string \<times> string) list"

record module_plane =
  mp_registry :: ShellRegistry
  mp_store :: manifest_file
  mp_shell :: ShellServer

datatype module_answer =
  ModuleEnvelope int string string bool
| KeyResponse string string string
| HeartbeatOK "KeyState option" bool
| Views "ManifestView list"
| Forward string string string
| ShellAnswer shell_answer

definition shellBearerToken :: "InboundRequest \<Rightarrow> string" where
  "shellBearerToken r =
     (let auth = in_Authorization r
      in if 7 < length auth \<and> ToLower (take 7 auth) = ''bearer '' then TrimSpace (drop 7 auth) else '''')"

definition shellHeartbeatAdminToken :: "shell_config \<Rightarrow> string \<Rightarrow> bool" where
  "shellHeartbeatAdminToken cfg token \<longleftrightarrow>
     (wc_MasterKey cfg \<noteq> '''' \<and> token = wc_MasterKey cfg) \<or> (wc_AdminKey cfg \<noteq> '''' \<and> token = wc_AdminKey cfg)"

definition serviceKeyAllowed :: "shell_config \<Rightarrow> InboundRequest \<Rightarrow> string \<Rightarrow> bool" where
  "serviceKeyAllowed cfg r m =
     (m \<noteq> '''' \<and> (case map_of (wc_ServiceKeys cfg) m of
        None \<Rightarrow> False
      | Some registered \<Rightarrow> registered \<noteq> '''' \<and> shellBearerToken r \<noteq> '''' \<and> shellBearerToken r = registered))"

definition shellRotationGrace :: "shell_config \<Rightarrow> duration" where
  "shellRotationGrace cfg = (if wc_KeyRotationGrace cfg \<le> 0 then 24 * (60 * minute) else wc_KeyRotationGrace cfg)"

definition shellManifestAdminAllowed :: "shell_config \<Rightarrow> RequestCtx \<Rightarrow> bool" where
  "shellManifestAdminAllowed cfg ctx =
     (case rc_Principal ctx of
        None \<Rightarrow> False
      | Some p \<Rightarrow> pr_IsMaster p \<or>
          (wc_AdminKey cfg \<noteq> '''' \<and> (case pr_KeyConfig p of None \<Rightarrow> False | Some k \<Rightarrow> akc_Key k = wc_AdminKey cfg)))"

section \<open>Registering\<close>

datatype auth_plane = PlaneAdmin | PlaneServiceKey

text \<open>
  A body is what the two decoders make of it: the id the gate probes for and the manifest the handler decodes.
\<close>

record manifest_body =
  mb_probeID :: "string option"
  mb_manifest :: "ShellManifest option"

definition handleShellManifestUpsert :: "reg_env \<Rightarrow> shell_config \<Rightarrow> auth_plane \<Rightarrow> ShellManifest option \<Rightarrow> module_plane \<Rightarrow> module_plane \<times> module_answer" where
  "handleShellManifestUpsert env cfg plane body s =
     (case body of
        None \<Rightarrow> (s, ModuleEnvelope 400 ''invalid_request'' '''' False)
      | Some m \<Rightarrow>
          (case Upsert env m (mp_registry s) (mp_store s) of
             (r, f, Some e) \<Rightarrow> (s, ModuleEnvelope 403 ''manifest_rejected'' (sm_ID m) False)
           | (r, f, None) \<Rightarrow>
               (let s1 = s\<lparr>mp_registry := r, mp_store := f\<rparr>
                in if sm_APIKey m \<noteq> '''' then (s1, ModuleEnvelope 200 ''ok'' (sm_ID m) False)
                   else (case EnsureServiceKey env (sm_ID m) r f of
                           (r2, f2, Inl e) \<Rightarrow> (s1, ModuleEnvelope 500 ''service_key_error'' (sm_ID m) False)
                         | (r2, f2, Inr (keyID, plaintext, issued)) \<Rightarrow>
                             (let s2 = s\<lparr>mp_registry := r2, mp_store := f2\<rparr>
                              in if issued then (s2, KeyResponse (sm_ID m) keyID plaintext)
                                 else if plane = PlaneAdmin \<and> ServiceKeyConsumed (sm_ID m) r2 then
                                   (case RotateServiceKey env (sm_ID m) r2 f2 of
                                      (r3, f3, Inl e) \<Rightarrow> (s2, KeyResponse (sm_ID m) keyID '''')
                                    | (r3, f3, Inr (rotID, rotPlaintext)) \<Rightarrow>
                                        (s\<lparr>mp_registry := r3, mp_store := f3\<rparr>, KeyResponse (sm_ID m) rotID rotPlaintext))
                                 else (s2, KeyResponse (sm_ID m) keyID ''''))))))"

definition withShellManifestUpsertAuth :: "reg_env \<Rightarrow> shell_config \<Rightarrow> InboundRequest \<Rightarrow> manifest_body option \<Rightarrow> module_plane \<Rightarrow> module_plane \<times> module_answer" where
  "withShellManifestUpsertAuth env cfg r body s =
     (let token = shellBearerToken r; denied = ModuleEnvelope 403 ''manifest_forbidden'' '''' False
      in if shellHeartbeatAdminToken cfg token then handleShellManifestUpsert env cfg PlaneAdmin (case body of None \<Rightarrow> None | Some b \<Rightarrow> mb_manifest b) s
         else (case body of
                 None \<Rightarrow> (s, ModuleEnvelope 400 ''invalid_request'' '''' False)
               | Some b \<Rightarrow>
                   (case mb_probeID b of
                      None \<Rightarrow> (s, denied)
                    | Some ident \<Rightarrow>
                        if ident \<noteq> '''' \<and> serviceKeyAllowed cfg r ident then handleShellManifestUpsert env cfg PlaneServiceKey (mb_manifest b) s
                        else if ident \<noteq> '''' \<and> IsServiceKeyPlaintext token then
                          (case AuthServiceKey env (shellRotationGrace cfg) ident (re_sha env token) (mp_registry s) (mp_store s) of
                             (g, f, Some state) \<Rightarrow> handleShellManifestUpsert env cfg PlaneServiceKey (mb_manifest b) (s\<lparr>mp_registry := g, mp_store := f\<rparr>)
                           | (g, f, None) \<Rightarrow> (s, denied))
                        else (s, denied))))"

definition withShellManifestAuth ::
  "(module_plane \<Rightarrow> module_plane \<times> module_answer) \<Rightarrow> shell_config \<Rightarrow> RequestCtx \<Rightarrow> module_plane \<Rightarrow> module_plane \<times> module_answer" where
  "withShellManifestAuth next cfg ctx s =
     (if shellManifestAdminAllowed cfg ctx then next s else (s, ModuleEnvelope 403 ''manifest_forbidden'' '''' False))"

section \<open>Heartbeats and keys\<close>

definition handleShellManifestHeartbeat ::
  "reg_env \<Rightarrow> string \<Rightarrow> KeyState option \<Rightarrow> ShellManifest option option \<Rightarrow> module_plane \<Rightarrow> module_plane \<times> module_answer" where
  "handleShellManifestHeartbeat env ident state body s =
     (case body of
        Some None \<Rightarrow> (s, ModuleEnvelope 400 ''invalid_request'' ident False)
      | _ \<Rightarrow>
          (let m = (case body of Some (Some c) \<Rightarrow> if sm_ID c \<noteq> '''' then Some c else None | _ \<Rightarrow> None)
           in case HeartbeatWithManifest env ident m (mp_registry s) (mp_store s) of
                (r, f, None) \<Rightarrow> (s\<lparr>mp_registry := r, mp_store := f\<rparr>, HeartbeatOK state (m \<noteq> None))
              | (r, f, Some e) \<Rightarrow>
                  if m = None \<or> e = NotRegistered then (s, ModuleEnvelope 404 ''manifest_unknown'' ident False)
                  else (s\<lparr>mp_registry := fst (Heartbeat env ident r)\<rparr>, ModuleEnvelope 400 ''manifest_refresh_rejected'' ident False)))"

definition withShellHeartbeatAuth ::
  "reg_env \<Rightarrow> shell_config \<Rightarrow> string \<Rightarrow> InboundRequest \<Rightarrow> ShellManifest option option \<Rightarrow> module_plane \<Rightarrow> module_plane \<times> module_answer" where
  "withShellHeartbeatAuth env cfg ident r body s =
     (let token = shellBearerToken r; forbidden = ModuleEnvelope 403 ''heartbeat_forbidden'' ident False
      in if token = '''' then (s, ModuleEnvelope 401 ''heartbeat_unauthorized'' ident False)
         else if shellHeartbeatAdminToken cfg token then handleShellManifestHeartbeat env ident None body s
         else if IsServiceKeyPlaintext token then
           (case AuthServiceKey env (shellRotationGrace cfg) ident (re_sha env token) (mp_registry s) (mp_store s) of
              (g, f, Some state) \<Rightarrow> handleShellManifestHeartbeat env ident (Some state) body (s\<lparr>mp_registry := g, mp_store := f\<rparr>)
            | (g, f, None) \<Rightarrow>
                if \<not> DynamicRegistered ident (mp_registry s) then (s, ModuleEnvelope 404 ''manifest_unknown'' ident False)
                else if IsServiceKeyRevoked ident (mp_registry s) then (s, ModuleEnvelope 403 ''heartbeat_key_revoked'' ident False)
                else (s, forbidden))
         else (s, forbidden))"

definition serviceKeyError :: "string \<Rightarrow> manifest_error \<Rightarrow> module_answer" where
  "serviceKeyError ident e =
     (if e = ErrManifestStatic then ModuleEnvelope 409 ''manifest_static'' ident False
      else if e = ErrNoServiceKey then ModuleEnvelope 409 ''no_service_key'' ident False
      else if e = ErrManifestNotFound then ModuleEnvelope 404 ''manifest_unknown'' ident False
      else ModuleEnvelope 500 ''service_key_error'' ident False)"

definition handleShellServiceKeyRotate :: "reg_env \<Rightarrow> string \<Rightarrow> module_plane \<Rightarrow> module_plane \<times> module_answer" where
  "handleShellServiceKeyRotate env ident s =
     (case RotateServiceKey env ident (mp_registry s) (mp_store s) of
        (r, f, Inl e) \<Rightarrow> (s, serviceKeyError ident e)
      | (r, f, Inr (keyID, plaintext)) \<Rightarrow> (s\<lparr>mp_registry := r, mp_store := f\<rparr>, KeyResponse ident keyID plaintext))"

definition handleShellServiceKeyRevoke :: "reg_env \<Rightarrow> string \<Rightarrow> module_plane \<Rightarrow> module_plane \<times> module_answer" where
  "handleShellServiceKeyRevoke env ident s =
     (case RevokeServiceKey env ident (mp_registry s) (mp_store s) of
        (r, f, Some e) \<Rightarrow> (s, serviceKeyError ident e)
      | (r, f, None) \<Rightarrow> (s\<lparr>mp_registry := r, mp_store := f\<rparr>, ModuleEnvelope 200 ''ok'' ident False))"

definition handleShellManifestDelete :: "reg_env \<Rightarrow> string \<Rightarrow> module_plane \<Rightarrow> module_plane \<times> module_answer" where
  "handleShellManifestDelete env ident s =
     (case registry_Remove env ident (mp_registry s) (mp_store s) of
        (r, f, Some e) \<Rightarrow>
          (s, if e = ErrManifestStatic then ModuleEnvelope 409 ''manifest_static'' ident False else ModuleEnvelope 404 ''manifest_unknown'' ident False)
      | (r, f, None) \<Rightarrow> (s\<lparr>mp_registry := r, mp_store := f\<rparr>, ModuleEnvelope 200 ''ok'' ident False))"

definition handleShellManifestList :: "reg_env \<Rightarrow> SessionClaims \<Rightarrow> module_plane \<Rightarrow> ManifestView list" where
  "handleShellManifestList env claims s =
     filter (\<lambda>v. shellModuleAllowed (sc_Modules claims) (sm_ID (mv_Manifest v))) (registry_List env (mp_registry s))"

section \<open>The proxy\<close>

definition TrimSuffixSlash :: "string \<Rightarrow> string" where
  "TrimSuffixSlash s = (if HasSuffix s ''/'' then butlast s else s)"

definition sameShellUpstream :: "string \<Rightarrow> string \<Rightarrow> bool" where
  "sameShellUpstream a b \<longleftrightarrow> TrimSuffixSlash a = TrimSuffixSlash b"

text \<open>The resolver the server gives to the proxy: upstream and credential of a module.\<close>

definition resolveUpstream :: "shell_config \<Rightarrow> ShellRegistry \<Rightarrow> string \<Rightarrow> string \<times> string" where
  "resolveUpstream cfg g moduleID =
     (case map_of (wc_Modules cfg) moduleID of
        Some (up, key) \<Rightarrow>
          if up \<noteq> '''' then
            (case UpstreamFor moduleID g of
               Some (dynUp, dynKey) \<Rightarrow> if dynKey \<noteq> '''' \<and> sameShellUpstream dynUp up then (up, dynKey) else (up, key)
             | None \<Rightarrow> (up, key))
          else (case UpstreamFor moduleID g of Some (dynUp, dynKey) \<Rightarrow> (dynUp, dynKey) | None \<Rightarrow> ('''', ''''))
      | None \<Rightarrow> (case UpstreamFor moduleID g of Some (dynUp, dynKey) \<Rightarrow> (dynUp, dynKey) | None \<Rightarrow> ('''', '''')))"

definition proxy_ServeHTTP :: "reg_env \<Rightarrow> shell_config \<Rightarrow> string \<Rightarrow> module_plane \<Rightarrow> module_plane \<times> module_answer" where
  "proxy_ServeHTTP env cfg path s =
     (let (moduleID, rest, found) = Cut (TrimPrefix path ''/shell/'') CHR ''/''; g = mp_registry s
      in if moduleID = '''' then (s, ModuleEnvelope 404 ''module_not_found'' '''' False)
         else if IsServiceKeyRevoked moduleID g then (s, ModuleEnvelope 503 ''module_key_revoked'' moduleID True)
         else
           (let (upstream, apiKey) = resolveUpstream cfg g moduleID
            in if upstream = '''' \<or> upstream = ''_'' then (s, ModuleEnvelope 404 ''module_not_found'' moduleID False)
               else
                 (let (up, key) = (case ExtRouteFor moduleID path g of
                        Some (ou, okey) \<Rightarrow> if ou \<noteq> '''' \<and> ou \<noteq> upstream then (ou, okey) else (upstream, apiKey)
                      | None \<Rightarrow> (upstream, apiKey))
                  in case re_url env up of
                       Some (scheme, host, tpath) \<Rightarrow>
                         if scheme = '''' \<or> host = '''' then (s, ModuleEnvelope 500 ''upstream_invalid'' moduleID False)
                         else (s, Forward up (TrimSuffixSlash tpath @ ''/'' @ rest) key)
                     | None \<Rightarrow> (s, ModuleEnvelope 500 ''upstream_invalid'' moduleID False))))"

definition withShellProxyAuth ::
  "reg_env \<Rightarrow> shell_env \<Rightarrow> shell_config \<Rightarrow> string option \<Rightarrow> InboundRequest \<Rightarrow> module_plane \<Rightarrow> module_plane \<times> module_answer" where
  "withShellProxyAuth env senv cfg cookie r s =
     (let moduleID = shellModuleOf (in_Path r); token = bearerToken r
      in if token \<noteq> '''' \<and> IsModuleServiceKey token moduleID then
           (case AuthServiceKey env (shellRotationGrace cfg) moduleID (re_sha env token) (mp_registry s) (mp_store s) of
              (g, f, Some state) \<Rightarrow> proxy_ServeHTTP env cfg (in_Path r) (s\<lparr>mp_registry := g, mp_store := f\<rparr>)
            | (g, f, None) \<Rightarrow> (s, ModuleEnvelope 401 ''service_key_invalid'' moduleID False))
         else
           (case withShellSession (withShellModuleAccess (\<lambda>env claims r sh. (sh, NoContent))) senv cookie r (mp_shell s) of
              (sh, NoContent) \<Rightarrow> proxy_ServeHTTP env cfg (in_Path r) s
            | (sh, answer) \<Rightarrow> (s, ShellAnswer answer)))"

section \<open>The health poll\<close>

datatype probe_result = ProbeFailed | ProbeStatus int

definition health_probe :: "(string \<Rightarrow> probe_result) \<Rightarrow> string \<Rightarrow> bool" where
  "health_probe answer url = (case answer url of ProbeFailed \<Rightarrow> False | ProbeStatus status \<Rightarrow> status < 500)"

definition absoluteHealthURL :: "reg_env \<Rightarrow> string \<Rightarrow> bool" where
  "absoluteHealthURL env raw =
     (case re_url env (TrimSpace raw) of None \<Rightarrow> False | Some (scheme, host, path) \<Rightarrow> scheme \<in> {''http'', ''https''} \<and> host \<noteq> '''')"

definition resolveRelativeHealth :: "reg_env \<Rightarrow> string \<Rightarrow> string \<Rightarrow> string option" where
  "resolveRelativeHealth env baseOrigin raw =
     (if baseOrigin = '''' then None
      else (case re_url env (TrimSpace raw) of
              None \<Rightarrow> None
            | Some (scheme, host, path) \<Rightarrow>
                if \<not> HasPrefix path ''/'' \<or> scheme \<noteq> '''' \<or> host \<noteq> '''' then None else Some (baseOrigin @ TrimSpace raw)))"

definition pollView :: "reg_env \<Rightarrow> string \<Rightarrow> (string \<Rightarrow> probe_result) \<Rightarrow> ManifestView \<Rightarrow> ShellRegistry \<Rightarrow> ShellRegistry" where
  "pollView env baseOrigin answer v g =
     (let ident = sm_ID (mv_Manifest v); health = sm_Health (mv_Manifest v);
          url = (if health = '''' then None else if absoluteHealthURL env health then Some health else resolveRelativeHealth env baseOrigin health)
      in case url of
           None \<Rightarrow> g
         | Some u \<Rightarrow>
             (let g1 = RecordHealth env ident (health_probe answer u) g in if health_probe answer u then fst (Heartbeat env ident g1) else g1))"

definition expireView :: "reg_env \<Rightarrow> (string \<Rightarrow> probe_result) \<Rightarrow> ManifestView \<Rightarrow> ShellRegistry \<times> manifest_file \<Rightarrow> ShellRegistry \<times> manifest_file" where
  "expireView env answer v gf =
     (case gf of (g, f) \<Rightarrow>
        if \<not> mv_Registered v \<or> mv_Status v \<noteq> StatusUnreachable \<or> sm_Upstream (mv_Manifest v) = '''' \<or> health_probe answer (sm_Upstream (mv_Manifest v)) then (g, f)
        else (case registry_Remove env (sm_ID (mv_Manifest v)) g f of (g', f', err) \<Rightarrow> (g', f')))"

definition pollAll :: "reg_env \<Rightarrow> string \<Rightarrow> (string \<Rightarrow> probe_result) \<Rightarrow> ShellRegistry \<times> manifest_file \<Rightarrow> ShellRegistry \<times> manifest_file" where
  "pollAll env baseOrigin answer gf =
     (case gf of (g, f) \<Rightarrow>
        (let g1 = fold (pollView env baseOrigin answer) (registry_List env g) g
         in fold (expireView env answer) (registry_List env g1) (g1, f)))"

section \<open>Operations leave other modules alone\<close>

lemma upsert_other:
  assumes "Upsert env m r f = (r', f', err)" and "k \<noteq> sm_ID m" and "map_of (rg_dynamic r) k = Some e"
  shows "map_of (rg_dynamic r') k = Some e"
  using assms by (auto simp: Upsert_def Let_def update_conv' split: option.splits prod.splits elim!: save_keeps)

lemma ensure_other:
  assumes "EnsureServiceKey env ident r f = (r', f', res)" and "k \<noteq> ident" and "map_of (rg_dynamic r) k = Some e"
  shows "map_of (rg_dynamic r') k = Some e"
  using assms by (auto simp: EnsureServiceKey_def Let_def update_conv' split: option.splits prod.splits if_splits elim!: save_keeps)

lemma rotate_other:
  assumes "RotateServiceKey env ident r f = (r', f', res)" and "k \<noteq> ident" and "map_of (rg_dynamic r) k = Some e"
  shows "map_of (rg_dynamic r') k = Some e"
  using assms by (auto simp: RotateServiceKey_def Let_def update_conv' split: option.splits prod.splits if_splits elim!: save_keeps)

lemma auth_other:
  assumes "AuthServiceKey env grace ident hash r f = (r', f', st)" and "k \<noteq> ident" and "map_of (rg_dynamic r) k = Some e"
  shows "map_of (rg_dynamic r') k = Some e"
  using assms by (auto simp: AuthServiceKey_def Let_def update_conv' split: option.splits prod.splits if_splits elim!: save_keeps)

lemma handler_other:
  assumes "handleShellManifestUpsert env cfg plane (Some m) s = (s', ans)" and "k \<noteq> sm_ID m" and "map_of (rg_dynamic (mp_registry s)) k = Some e"
  shows "map_of (rg_dynamic (mp_registry s')) k = Some e"
proof -
  obtain r f err where u: "Upsert env m (mp_registry s) (mp_store s) = (r, f, err)" by (metis surj_pair)
  have 1: "map_of (rg_dynamic r) k = Some e" using upsert_other [OF u] assms(2,3) by blast
  obtain r2 f2 res where e: "EnsureServiceKey env (sm_ID m) r f = (r2, f2, res)" by (metis surj_pair)
  have 2: "map_of (rg_dynamic r2) k = Some e" using ensure_other [OF e] assms(2) 1 by blast
  obtain r3 f3 res' where t: "RotateServiceKey env (sm_ID m) r2 f2 = (r3, f3, res')" by (metis surj_pair)
  have 3: "map_of (rg_dynamic r3) k = Some e" using rotate_other [OF t] assms(2) 2 by blast
  show ?thesis using assms(1,3) 1 2 3 u e t
    by (cases err; cases res; cases res') (auto simp: handleShellManifestUpsert_def Let_def split: if_splits)
qed

text \<open>
  A module changes only its own registration: when a registration request changes the stored entry of a module that was already registered, it
  carried an administrator key, or it named this very module in its body and carried a service key that is registered for it or that the registry
  accepts for it.  The body's id is the same for the gate and the handler.
\<close>
theorem module_changes_only_itself:
  assumes "withShellManifestUpsertAuth env cfg r (Some b) s = (s', ans)"
    and "\<And>i m. mb_probeID b = Some i \<Longrightarrow> mb_manifest b = Some m \<Longrightarrow> sm_ID m = i"
    and "map_of (rg_dynamic (mp_registry s)) k = Some e" and "map_of (rg_dynamic (mp_registry s')) k \<noteq> Some e"
  shows "shellHeartbeatAdminToken cfg (shellBearerToken r) \<or>
    (mb_probeID b = Some k \<and> (serviceKeyAllowed cfg r k \<or>
       IsServiceKeyPlaintext (shellBearerToken r) \<and>
       (\<exists>st. snd (snd (AuthServiceKey env (shellRotationGrace cfg) k (re_sha env (shellBearerToken r)) (mp_registry s) (mp_store s))) = Some st)))"
proof (rule ccontr)
  assume n: "\<not> ?thesis"
  then have na: "\<not> shellHeartbeatAdminToken cfg (shellBearerToken r)" by blast
  obtain i where i: "mb_probeID b = Some i" using assms(1,3,4) na by (auto simp: withShellManifestUpsertAuth_def Let_def split: option.splits)
  show False
  proof (cases "mb_manifest b")
    case None
    obtain g f st where a: "AuthServiceKey env (shellRotationGrace cfg) i (re_sha env (shellBearerToken r)) (mp_registry s) (mp_store s) = (g, f, st)"
      by (metis surj_pair)
    have "k \<noteq> i \<Longrightarrow> map_of (rg_dynamic g) k = Some e" using auth_other [OF a] assms(3) by blast
    then show ?thesis using assms(1,3,4) n i None a
      by (cases "k = i") (auto simp: withShellManifestUpsertAuth_def handleShellManifestUpsert_def Let_def split: option.splits if_splits)
  next
    case (Some m)
    then have m: "sm_ID m = i" using assms(2) i by blast
    obtain g f st where a: "AuthServiceKey env (shellRotationGrace cfg) i (re_sha env (shellBearerToken r)) (mp_registry s) (mp_store s) = (g, f, st)"
      by (metis surj_pair)
    have g: "k \<noteq> i \<Longrightarrow> map_of (rg_dynamic g) k = Some e" using auth_other [OF a] assms(3) by blast
    have h: "k \<noteq> i \<Longrightarrow> handleShellManifestUpsert env cfg p (Some m) s1 = (s', ans) \<Longrightarrow> map_of (rg_dynamic (mp_registry s1)) k = Some e \<Longrightarrow> False" for p s1
      using handler_other [of env cfg p m s1 s' ans k e] assms(4) m by blast
    show ?thesis using assms(1,3,4) n i Some a h [of PlaneServiceKey s] h [of PlaneServiceKey "s\<lparr>mp_registry := g, mp_store := f\<rparr>"] g
      by (cases "k = i") (auto simp: withShellManifestUpsertAuth_def Let_def split: option.splits if_splits)
  qed
qed

section \<open>Access through the proxy\<close>

lemma proxy_forwards_active: "proxy_ServeHTTP env cfg path s = (s', Forward up p key) \<Longrightarrow> \<not> IsServiceKeyRevoked (shellModuleOf path) (mp_registry s)"
  by (auto simp: proxy_ServeHTTP_def shellModuleOf_def Let_def split: prod.splits if_splits option.splits)

lemma session_gate_NoContent:
  assumes "withShellSession (withShellModuleAccess (\<lambda>env claims r sh. (sh, NoContent))) senv cookie r sh = (sh', NoContent)"
  shows "\<exists>m token claims. sh_sessions sh = Some m \<and> (token = bearerToken r \<or> cookie = Some token) \<and>
     Validate (se_lib senv) (se_now senv) m token = Inr claims \<and> shellModuleAllowed (sc_Modules claims) (shellModuleOf (in_Path r))"
  using assms by (auto simp: withShellSession_def withShellModuleAccess_def Let_def split: option.splits sum.splits if_splits)

text \<open>
  C25. Nobody reaches a module without a right to it: a request that the gateway forwards to a module has a valid session whose permissions include this
  module, or presents a service key the registry accepts for this module; and the service key of the module is not revoked.
\<close>
theorem proxy_access_sound:
  assumes "withShellProxyAuth env senv cfg cookie r s = (s', Forward up path key)"
  shows "\<not> IsServiceKeyRevoked (shellModuleOf (in_Path r)) (mp_registry s) \<and>
    ((\<exists>m token claims. sh_sessions (mp_shell s) = Some m \<and> (token = bearerToken r \<or> cookie = Some token) \<and>
        Validate (se_lib senv) (se_now senv) m token = Inr claims \<and> shellModuleAllowed (sc_Modules claims) (shellModuleOf (in_Path r))) \<or>
     (\<exists>st. snd (snd (AuthServiceKey env (shellRotationGrace cfg) (shellModuleOf (in_Path r)) (re_sha env (bearerToken r)) (mp_registry s) (mp_store s))) = Some st))"
proof (cases "bearerToken r \<noteq> '''' \<and> IsModuleServiceKey (bearerToken r) (shellModuleOf (in_Path r))")
  case True
  obtain g f st where a: "AuthServiceKey env (shellRotationGrace cfg) (shellModuleOf (in_Path r)) (re_sha env (bearerToken r)) (mp_registry s) (mp_store s) = (g, f, st)"
    by (metis surj_pair)
  obtain st' where st: "st = Some st'" using assms True a by (auto simp: withShellProxyAuth_def Let_def split: option.splits)
  have "\<not> IsServiceKeyRevoked (shellModuleOf (in_Path r)) (mp_registry s)"
    using a st by (auto simp: AuthServiceKey_def IsServiceKeyRevoked_def split: option.splits if_splits)
  then show ?thesis using a st by simp
next
  case False
  obtain sh ans where g: "withShellSession (withShellModuleAccess (\<lambda>env claims r sh. (sh, NoContent))) senv cookie r (mp_shell s) = (sh, ans)" by fastforce
  have "ans = NoContent" using assms False g by (cases ans) (auto simp: withShellProxyAuth_def Let_def)
  then show ?thesis using session_gate_NoContent [of senv cookie r "mp_shell s" sh] g assms False proxy_forwards_active
    by (auto simp: withShellProxyAuth_def Let_def)
qed

text \<open>No listing shows a credential, and a session sees only modules of its permissions.\<close>

lemma list_hides_credentials: "v \<in> set (registry_List env g) \<Longrightarrow> sm_APIKey (mv_Manifest v) = ''''"
  by (auto simp: registry_List_def dynamicView_def staticView_def Let_def)

section \<open>Expiry of stale modules\<close>

text \<open>
  A module that accepts connections is dropped: the poll removes a module whose heartbeat expired when the probe of its upstream fails, and a probe
  fails on every answer of 500 and above, so a module that answers with a server error loses its registration and its service key, although only
  modules that refuse connections should go.
\<close>
theorem answering_module_expired:
  assumes "map_of (rg_dynamic g) ident = Some e" "sm_ID (en_manifest e) = ident" and "rg_heartbeatExpiry g < re_now env - en_lastHeartbeat e"
    and "sm_Upstream (en_manifest e) \<noteq> ''''" "answer (sm_Upstream (en_manifest e)) = ProbeStatus status" "500 \<le> status"
    and "ident \<notin> set (rg_builtins g)" and "own_file g f"
    and "expireView env answer (dynamicView env g e) (g, f) = (g', f')"
  shows "map_of (rg_dynamic g') ident = None \<and> snd (snd (AuthServiceKey env' grace ident hash g' f')) = None"
proof -
  have v: "mv_Registered (dynamicView env g e)" "mv_Status (dynamicView env g e) = StatusUnreachable"
      "sm_Upstream (mv_Manifest (dynamicView env g e)) = sm_Upstream (en_manifest e)" "sm_ID (mv_Manifest (dynamicView env g e)) = ident"
    using assms(2,3) by (auto simp: dynamicView_def statusOf_def Let_def split: option.split)
  have "\<not> health_probe answer (sm_Upstream (en_manifest e))" using assms(5,6) by (simp add: health_probe_def)
  then obtain err where r: "registry_Remove env ident g f = (g', f', err)" using assms(4,9) v by (auto simp: expireView_def split: prod.splits)
  then have "registry_save env (g\<lparr>rg_dynamic := AList.delete ident (rg_dynamic g)\<rparr>) f = (g', f')"
    using assms(1,7) by (auto simp: registry_Remove_def split: prod.splits)
  from save_own(2) [OF _ this] have "rg_dynamic g' = AList.delete ident (rg_dynamic g)" using assms(8) by simp
  then show ?thesis by (simp add: delete_conv' AuthServiceKey_def)
qed

section \<open>A concrete gateway\<close>

definition sample_config :: shell_config where
  "sample_config = \<lparr>wc_MasterKey = ''mk'', wc_AdminKey = '''', wc_KeyRotationGrace = 0, wc_ServiceKeys = [], wc_Modules = [(''fusion-a'', (''u'', ''k''))]\<rparr>"

definition sample_plane :: module_plane where
  "sample_plane = \<lparr>mp_registry = keyed_registry, mp_store = FileMissing, mp_shell = sample_shell\<rparr>"

definition proxy_request :: InboundRequest where
  "proxy_request = ann_request\<lparr>in_Path := ''/shell/fusion-a/x''\<rparr>"

definition proxy_env :: reg_env where
  "proxy_env = sample_reg_env\<lparr>re_url := (\<lambda>u. Some (''http'', u, ''''))\<rparr>"

lemma proxy_path: "shellModuleOf ''/shell/fusion-a/x'' = ''fusion-a''" "Cut (TrimPrefix ''/shell/fusion-a/x'' ''/shell/'') CHR ''/'' = (''fusion-a'', ''x'', True)"
  by (simp_all add: shellModuleOf_def TrimPrefix_def Cut_def)

lemma proxy_token: "bearerToken proxy_request = ''aann.k/aann''" "\<not> IsModuleServiceKey (bearerToken proxy_request) ''fusion-a''"
proof -
  show t: "bearerToken proxy_request = ''aann.k/aann''" by code_simp
  show "\<not> IsModuleServiceKey (bearerToken proxy_request) ''fusion-a''" unfolding t by (simp add: IsModuleServiceKey_def serviceKeyPrefix_def)
qed

lemma sample_session_gate:
  "withShellSession (withShellModuleAccess (\<lambda>env claims r sh. (sh, NoContent))) sample_env None proxy_request sample_shell = (sample_shell, NoContent)"
proof -
  have m: "sh_sessions sample_shell = Some (NewManager ''k'' minute)" by (simp add: sample_shell_def)
  show ?thesis using sample_valid
    by (simp add: withShellSession_def m proxy_token withShellModuleAccess_def sample_env_def shellModuleAllowed_def ann_claims_def)
qed

lemma sample_forward: "withShellProxyAuth proxy_env sample_env sample_config None proxy_request sample_plane = (sample_plane, Forward ''u'' ''/x'' ''k'')"
proof -
  have k: "map_of (rg_dynamic keyed_registry) ''fusion-a'' = Some keyed_entry" by (simp add: keyed_registry_def)
  have u: "sm_Upstream sample_manifest = ''''" by (simp add: sample_manifest_def)
  have p: "in_Path proxy_request = ''/shell/fusion-a/x''" by (simp add: proxy_request_def)
  have g: "proxy_ServeHTTP proxy_env sample_config ''/shell/fusion-a/x'' sample_plane = (sample_plane, Forward ''u'' ''/x'' ''k'')"
    by (simp add: proxy_ServeHTTP_def proxy_path sample_plane_def IsServiceKeyRevoked_def k u resolveUpstream_def sample_config_def UpstreamFor_def ExtRouteFor_def
        proxy_env_def TrimSuffixSlash_def HasSuffix_def)
  show ?thesis using proxy_token(2) g sample_session_gate by (simp add: withShellProxyAuth_def Let_def p proxy_path sample_plane_def)
qed

theorem proxy_access_sound_witness:
  "\<exists>m token claims. sh_sessions sample_shell = Some m \<and> (token = bearerToken proxy_request \<or> None = Some token) \<and>
     Validate sample_lib (5 * second) m token = Inr claims \<and> shellModuleAllowed (sc_Modules claims) ''fusion-a''"
proof -
  have p: "in_Path proxy_request = ''/shell/fusion-a/x''" by (simp add: proxy_request_def)
  have "snd (snd (AuthServiceKey proxy_env (shellRotationGrace sample_config) ''fusion-a'' (re_sha proxy_env (bearerToken proxy_request)) keyed_registry FileMissing)) = None"
    by (simp add: AuthServiceKey_def keyed_registry_def proxy_env_def keyed_entry_def freshEntry_def proxy_token)
  then show ?thesis using proxy_access_sound [OF sample_forward]
    by (auto simp: p proxy_path sample_plane_def sample_env_def)
qed

end
