(* ===== verification/Cost_Tracker.thy ===== *)
theory Cost_Tracker
  imports Gateway_Prelude "HOL-Library.AList"
begin

text \<open>
  Prices, markup and the usage ledger: \<^verbatim>\<open>cost/pricing.go\<close>, \<^verbatim>\<open>cost/custom_pricing.go\<close>, \<^verbatim>\<open>cost/tracker.go\<close> and the cost store
  \<^verbatim>\<open>store/memory/cost.go\<close>.  Amounts are exact.  The order in which the price table is searched is the parameter \<open>it\<close>; the price file is what its
  decoder makes of it.
\<close>

section \<open>Prices\<close>

record ModelPricing =
  mpr_Prompt :: float64
  mpr_Completion :: float64

definition defaultTable :: "(string \<times> float64 \<times> float64) list" where
  "defaultTable = [
    (''gpt-4'', 30, 60), (''gpt-4-turbo'', 10, 30), (''gpt-4o'', 5 / 2, 10), (''gpt-4o-mini'', 3 / 20, 3 / 5),
    (''gpt-3.5-turbo'', 1 / 2, 3 / 2), (''claude-3-opus'', 15, 75), (''claude-3-sonnet'', 3, 15), (''claude-3-haiku'', 1 / 4, 5 / 4),
    (''claude-3.5-sonnet'', 3, 15), (''claude-3.5-haiku'', 4 / 5, 4), (''deepseek-chat'', 7 / 50, 7 / 25),
    (''deepseek-reasoner'', 11 / 20, 219 / 100), (''text-embedding-3-small'', 1 / 50, 0), (''text-embedding-3-large'', 13 / 100, 0),
    (''text-embedding-ada-002'', 1 / 10, 0), (''qwen-turbo'', 3 / 10, 3 / 5), (''qwen-plus'', 4 / 5, 2), (''qwen-max'', 2, 6),
    (''qwen-long'', 1 / 2, 2), (''moonshot-v1'', 6 / 5, 6 / 5), (''glm-4'', 3 / 2, 3 / 2), (''glm-4-flash'', 1 / 10, 1 / 10),
    (''glm-4-plus'', 5, 5), (''glm-4-long'', 1, 1), (''MiniMax-Text-01'', 1, 1), (''abab6.5s-chat'', 2 / 5, 2 / 5),
    (''abab6.5-chat'', 3 / 5, 3 / 5), (''Baichuan4'', 6 / 5, 6 / 5), (''Baichuan3-Turbo'', 2 / 5, 2 / 5), (''hunyuan-lite'', 3 / 40, 3 / 40),
    (''hunyuan-standard'', 4 / 5, 4 / 5), (''hunyuan-pro'', 3, 3), (''hunyuan-turbo'', 6 / 5, 6 / 5), (''step-1'', 4 / 5, 4 / 5),
    (''step-2'', 8 / 5, 8 / 5), (''yi-lightning'', 1 / 10, 1 / 10), (''yi-large'', 2, 2), (''yi-medium'', 1 / 2, 1 / 2),
    (''yi-spark'', 1 / 10, 1 / 10), (''text-embedding-v3'', 7 / 10, 0)]"

definition defaultPricing :: "(string \<times> ModelPricing) list" where
  "defaultPricing = map (\<lambda>(key, p, c). (key, \<lparr>mpr_Prompt = p, mpr_Completion = c\<rparr>)) defaultTable"

record CustomPricingManager =
  cpm_pricing :: "(string \<times> ModelPricing) list"
  cpm_filePath :: string

datatype price_file = PricesUnreadable | PricesInvalid | PricesHold "(string \<times> ModelPricing) list"

definition custom_load :: "price_file \<Rightarrow> CustomPricingManager \<Rightarrow> CustomPricingManager \<times> bool" where
  "custom_load f m = (case f of PricesHold models \<Rightarrow> (m\<lparr>cpm_pricing := models\<rparr>, True) | _ \<Rightarrow> (m, False))"

definition NewCustomPricingManager :: "string \<Rightarrow> price_file \<Rightarrow> CustomPricingManager" where
  "NewCustomPricingManager path f =
     (let m = \<lparr>cpm_pricing = [], cpm_filePath = path\<rparr> in if path \<noteq> '''' then fst (custom_load f m) else m)"

definition custom_Lookup :: "string \<Rightarrow> CustomPricingManager \<Rightarrow> ModelPricing option" where
  "custom_Lookup model m = map_of (cpm_pricing m) model"

type_synonym price_order = "(string \<times> ModelPricing) list \<Rightarrow> (string \<times> ModelPricing) list"

definition longerPrefix :: "string \<Rightarrow> string \<times> ModelPricing \<Rightarrow> string \<times> ModelPricing \<Rightarrow> string \<times> ModelPricing" where
  "longerPrefix model entry best = (if HasPrefix model (fst entry) \<and> length (fst best) < length (fst entry) then entry else best)"

definition lookupPricing :: "price_order \<Rightarrow> CustomPricingManager option \<Rightarrow> string \<Rightarrow> ModelPricing option" where
  "lookupPricing it custom model =
     (case Option.bind custom (custom_Lookup model) of
        Some p \<Rightarrow> Some p
      | None \<Rightarrow>
          (case map_of defaultPricing model of
             Some p \<Rightarrow> Some p
           | None \<Rightarrow>
               (let (bestKey, bestPricing) = fold (longerPrefix model) (iterate it defaultPricing) ('''', \<lparr>mpr_Prompt = 0, mpr_Completion = 0\<rparr>)
                in if bestKey \<noteq> '''' then Some bestPricing else None)))"

definition CalculateCost :: "price_order \<Rightarrow> CustomPricingManager option \<Rightarrow> string \<Rightarrow> int \<Rightarrow> int \<Rightarrow> float64" where
  "CalculateCost it custom model promptTokens completionTokens =
     (case lookupPricing it custom model of
        None \<Rightarrow> 0
      | Some p \<Rightarrow> of_int promptTokens / 1000000 * mpr_Prompt p + of_int completionTokens / 1000000 * mpr_Completion p)"

section \<open>The tracker\<close>

record UsageRecord =
  ur_Timestamp :: time
  ur_KeyName :: string
  ur_Backend :: string
  ur_Model :: string
  ur_PromptTokens :: int
  ur_CompletionTokens :: int
  ur_TotalTokens :: int
  ur_CostUSD :: float64

record Tracker =
  tk_records :: "UsageRecord list"
  tk_maxRecords :: nat
  tk_totalCost :: float64
  tk_markup :: float64
  tk_keyMarkups :: "string \<rightharpoonup> float64"

definition NewTracker :: "int \<Rightarrow> Tracker" where
  "NewTracker maxRecords =
     \<lparr>tk_records = [], tk_maxRecords = (if maxRecords \<le> 0 then 10000 else nat maxRecords), tk_totalCost = 0, tk_markup = 0, tk_keyMarkups = Map.empty\<rparr>"

definition applyMarkup :: "string \<Rightarrow> float64 \<Rightarrow> Tracker \<Rightarrow> float64" where
  "applyMarkup keyName baseCost t =
     baseCost * (case tk_keyMarkups t keyName of Some km \<Rightarrow> 1 + km | None \<Rightarrow> 1 + tk_markup t)"

definition trimRecords :: "nat \<Rightarrow> 'a list \<Rightarrow> 'a list" where
  "trimRecords n rs = (if n < length rs then drop (length rs - n) rs else rs)"

record usage =
  us_Key :: string
  us_Backend :: string
  us_Model :: string
  us_Prompt :: int
  us_Completion :: int

definition RecordAndReturn :: "price_order \<Rightarrow> CustomPricingManager option \<Rightarrow> time \<Rightarrow> usage \<Rightarrow> Tracker \<Rightarrow> Tracker \<times> float64" where
  "RecordAndReturn it custom now u t =
     (let baseCost = CalculateCost it custom (us_Model u) (us_Prompt u) (us_Completion u);
          billed = applyMarkup (us_Key u) baseCost t;
          rec = \<lparr>ur_Timestamp = now, ur_KeyName = us_Key u, ur_Backend = us_Backend u, ur_Model = us_Model u, ur_PromptTokens = us_Prompt u,
                 ur_CompletionTokens = us_Completion u, ur_TotalTokens = us_Prompt u + us_Completion u, ur_CostUSD = billed\<rparr>
      in (t\<lparr>tk_totalCost := tk_totalCost t + billed, tk_records := trimRecords (tk_maxRecords t) (tk_records t @ [rec])\<rparr>, billed))"

definition SetGlobalMarkup :: "float64 \<Rightarrow> Tracker \<Rightarrow> Tracker" where
  "SetGlobalMarkup m t = t\<lparr>tk_markup := m\<rparr>"

definition SyncConfigMarkup :: "bool \<Rightarrow> float64 \<Rightarrow> Tracker \<Rightarrow> Tracker" where
  "SyncConfigMarkup enabled globalMarkup t =
     (let m = (if enabled then globalMarkup else 0) in if tk_markup t \<noteq> m then t\<lparr>tk_markup := m\<rparr> else t)"

definition SetKeyMarkup :: "string \<Rightarrow> float64 \<Rightarrow> Tracker \<Rightarrow> Tracker" where
  "SetKeyMarkup keyName m t = t\<lparr>tk_keyMarkups := (tk_keyMarkups t)(keyName := if m \<le> 0 then None else Some m)\<rparr>"

definition DeleteKeyMarkup :: "string \<Rightarrow> Tracker \<Rightarrow> Tracker" where
  "DeleteKeyMarkup keyName t = t\<lparr>tk_keyMarkups := (tk_keyMarkups t)(keyName := None)\<rparr>"

definition GetMarkup :: "string \<Rightarrow> Tracker \<Rightarrow> float64" where
  "GetMarkup keyName t = (case tk_keyMarkups t keyName of Some km \<Rightarrow> km | None \<Rightarrow> tk_markup t)"

record CostSummary =
  cs_TotalCostUSD :: float64
  cs_ByKey :: "string \<rightharpoonup> float64"
  cs_ByBackend :: "string \<rightharpoonup> float64"
  cs_ByModel :: "string \<rightharpoonup> float64"
  cs_TotalTokens :: int
  cs_TotalRequests :: nat

definition addTo :: "string \<Rightarrow> float64 \<Rightarrow> (string \<rightharpoonup> float64) \<Rightarrow> (string \<rightharpoonup> float64)" where
  "addTo k x m = m(k \<mapsto> get_rat m k + x)"

definition addRecord :: "UsageRecord \<Rightarrow> CostSummary \<Rightarrow> CostSummary" where
  "addRecord r s =
     s\<lparr>cs_ByKey := addTo (ur_KeyName r) (ur_CostUSD r) (cs_ByKey s), cs_ByBackend := addTo (ur_Backend r) (ur_CostUSD r) (cs_ByBackend s),
       cs_ByModel := addTo (ur_Model r) (ur_CostUSD r) (cs_ByModel s), cs_TotalTokens := cs_TotalTokens s + ur_TotalTokens r\<rparr>"

definition emptySummary :: CostSummary where
  "emptySummary = \<lparr>cs_TotalCostUSD = 0, cs_ByKey = Map.empty, cs_ByBackend = Map.empty, cs_ByModel = Map.empty, cs_TotalTokens = 0, cs_TotalRequests = 0\<rparr>"

definition tracker_Summary :: "Tracker \<Rightarrow> CostSummary" where
  "tracker_Summary t =
     fold addRecord (tk_records t) (emptySummary\<lparr>cs_TotalCostUSD := tk_totalCost t, cs_TotalRequests := length (tk_records t)\<rparr>)"

definition countRecord :: "UsageRecord \<Rightarrow> CostSummary \<Rightarrow> CostSummary" where
  "countRecord r s =
     addRecord r (s\<lparr>cs_TotalCostUSD := cs_TotalCostUSD s + ur_CostUSD r, cs_TotalRequests := Suc (cs_TotalRequests s)\<rparr>)"

definition SummaryByKey :: "string \<Rightarrow> Tracker \<Rightarrow> CostSummary" where
  "SummaryByKey keyName t = fold countRecord (filter (\<lambda>r. ur_KeyName r = keyName) (tk_records t)) emptySummary"

section \<open>The cost store\<close>

record CostSubStore =
  css_records :: "UsageRecord list"
  css_maxRecords :: nat
  css_totalCost :: float64

definition NewCostSubStore :: "int \<Rightarrow> CostSubStore" where
  "NewCostSubStore maxRecords = \<lparr>css_records = [], css_maxRecords = (if maxRecords \<le> 0 then 10000 else nat maxRecords), css_totalCost = 0\<rparr>"

definition cost_Record :: "usage \<Rightarrow> float64 \<Rightarrow> CostSubStore \<Rightarrow> CostSubStore" where
  "cost_Record u costUSD c =
     c\<lparr>css_totalCost := css_totalCost c + costUSD,
       css_records := trimRecords (css_maxRecords c) (css_records c @
         [\<lparr>ur_Timestamp = zero_time, ur_KeyName = us_Key u, ur_Backend = us_Backend u, ur_Model = us_Model u, ur_PromptTokens = us_Prompt u,
           ur_CompletionTokens = us_Completion u, ur_TotalTokens = us_Prompt u + us_Completion u, ur_CostUSD = costUSD\<rparr>])\<rparr>"

definition cost_Summary :: "string \<Rightarrow> CostSubStore \<Rightarrow> CostSummary" where
  "cost_Summary keyName c = fold countRecord (filter (\<lambda>r. keyName = '''' \<or> ur_KeyName r = keyName) (css_records c)) emptySummary"

section \<open>The price of a model does not depend on the order of the table\<close>

lemma default_distinct: "distinct (map fst defaultPricing)"
  by code_simp

lemma default_nonempty: "\<forall>(k, p) \<in> set defaultPricing. k \<noteq> ''''"
  by (simp add: defaultPricing_def defaultTable_def)

text \<open>What the search finds: an entry whose key is the longest prefix.\<close>

definition longest_prefix :: "string \<Rightarrow> (string \<times> ModelPricing) set \<Rightarrow> string \<times> ModelPricing \<Rightarrow> bool" where
  "longest_prefix model T b \<longleftrightarrow> HasPrefix model (fst b) \<and> (fst b \<noteq> '''' \<longrightarrow> b \<in> T) \<and> (\<forall>e \<in> T. HasPrefix model (fst e) \<longrightarrow> length (fst e) \<le> length (fst b))"

lemma search_longest:
  assumes "longest_prefix model T b"
  shows "longest_prefix model (T \<union> set xs) (fold (longerPrefix model) xs b)"
  using assms
proof (induction xs arbitrary: T b)
  case (Cons x xs)
  have "longest_prefix model (insert x T) (longerPrefix model x b)"
    using Cons.prems by (auto simp: longest_prefix_def longerPrefix_def)
  from Cons.IH [OF this] show ?case by simp
qed simp

lemma prefix_same_length: "HasPrefix s a \<Longrightarrow> HasPrefix s b \<Longrightarrow> length a = length b \<Longrightarrow> a = b"
  by (auto simp: HasPrefix_iff append_eq_append_conv2)

lemma longest_unique:
  assumes "longest_prefix model T a" "longest_prefix model T b" and "\<And>k p q. (k, p) \<in> T \<Longrightarrow> (k, q) \<in> T \<Longrightarrow> p = q"
  shows "fst a = fst b \<and> (fst a \<noteq> '''' \<longrightarrow> a = b)"
proof -
  have "fst a \<noteq> '''' \<Longrightarrow> length (fst a) \<le> length (fst b)" "fst b \<noteq> '''' \<Longrightarrow> length (fst b) \<le> length (fst a)"
    using assms(1,2) by (auto simp: longest_prefix_def)
  then have "length (fst a) = length (fst b)" by (cases "fst a = ''''"; cases "fst b = ''''") auto
  then have "fst a = fst b" using prefix_same_length assms(1,2) by (auto simp: longest_prefix_def)
  then show ?thesis using assms by (auto simp: longest_prefix_def prod_eq_iff) (metis prod.collapse)
qed

text \<open>
  Billing is deterministic: the cost of a request, also of a model that is priced by a prefix of its name, is the same for every order in which the runtime
  walks the price table.
\<close>
theorem pricing_order_independent:
  "CalculateCost it custom model p c = CalculateCost it' custom model p c"
proof -
  have u: "(k, x) \<in> set defaultPricing \<Longrightarrow> (k, y) \<in> set defaultPricing \<Longrightarrow> x = y" for k x y
    using default_distinct eq_key_imp_eq_value by fast
  let ?z = "('''', \<lparr>mpr_Prompt = 0, mpr_Completion = 0\<rparr>)"
  have z: "longest_prefix model {} ?z" by (simp add: longest_prefix_def)
  define B where "B i = fold (longerPrefix model) (iterate i defaultPricing) ?z" for i
  have l: "longest_prefix model (set defaultPricing) (B i)" for i
    using search_longest [OF z, of "iterate i defaultPricing"] by (simp add: B_def)
  have e: "fst (B it) = fst (B it')" "fst (B it) \<noteq> '''' \<Longrightarrow> B it = B it'" using longest_unique [OF l [of it] l [of it']] u by blast+
  have "lookupPricing i custom model = (case Option.bind custom (custom_Lookup model) of Some p \<Rightarrow> Some p | None \<Rightarrow>
      (case map_of defaultPricing model of Some p \<Rightarrow> Some p | None \<Rightarrow> if fst (B i) \<noteq> '''' then Some (snd (B i)) else None))" for i
    unfolding lookupPricing_def B_def Let_def case_prod_unfold by (rule refl)
  moreover have "(if fst (B it) \<noteq> '''' then Some (snd (B it)) else None) = (if fst (B it') \<noteq> '''' then Some (snd (B it')) else None)"
    using e by (cases "fst (B it) = ''''") auto
  ultimately have "lookupPricing it custom model = lookupPricing it' custom model" by (simp only:)
  then show ?thesis by (simp add: CalculateCost_def)
qed

section \<open>The ledger\<close>

text \<open>Requests billed one after another, with configuration changes between them.\<close>

datatype cost_op = Bill price_order "CustomPricingManager option" time usage | Sync bool float64 | KeyMarkup string float64 | DropKey string

fun cost_step :: "Tracker \<times> float64 list \<Rightarrow> cost_op \<Rightarrow> Tracker \<times> float64 list" where
  "cost_step (t, bills) (Bill it custom now u) = (case RecordAndReturn it custom now u t of (t', billed) \<Rightarrow> (t', bills @ [billed]))"
| "cost_step (t, bills) (Sync enabled m) = (SyncConfigMarkup enabled m t, bills)"
| "cost_step (t, bills) (KeyMarkup k m) = (SetKeyMarkup k m t, bills)"
| "cost_step (t, bills) (DropKey k) = (DeleteKeyMarkup k t, bills)"

definition ledger_inv :: "nat \<Rightarrow> Tracker \<times> float64 list \<Rightarrow> bool" where
  "ledger_inv n = (\<lambda>(t, bills). tk_maxRecords t = n \<and> tk_totalCost t = sum_list bills \<and> map ur_CostUSD (tk_records t) = trimRecords n bills)"

lemma trim_snoc: "trimRecords n (trimRecords n xs @ [x]) = trimRecords n (xs @ [x])"
proof (cases "n < length xs")
  case False
  then have "n = length xs \<or> length xs < n" by linarith
  then show ?thesis using False by (auto simp: trimRecords_def)
qed (auto simp: trimRecords_def Suc_diff_le)

lemma map_trim: "map f (trimRecords n xs) = trimRecords n (map f xs)"
  by (simp add: trimRecords_def drop_map)

interpretation ledger: step_system cost_step "ledger_inv n" for n
proof
  fix s :: "Tracker \<times> float64 list" and e :: cost_op
  assume i: "ledger_inv n s"
  obtain t bills where s: "s = (t, bills)" by fastforce
  show "ledger_inv n (cost_step s e)"
    using i by (cases e) (auto simp: s ledger_inv_def RecordAndReturn_def SyncConfigMarkup_def SetKeyMarkup_def DeleteKeyMarkup_def Let_def map_trim trim_snoc)
qed

lemma get_addTo: "get_rat (addTo k x m) k' = get_rat m k' + (if k' = k then x else 0)"
  by (simp add: addTo_def)

lemma summary_by_key:
  "get_rat (cs_ByKey (fold addRecord rs s)) k = get_rat (cs_ByKey s) k + sum_list (map ur_CostUSD (filter (\<lambda>r. ur_KeyName r = k) rs))"
  by (induction rs arbitrary: s) (auto simp: addRecord_def get_addTo algebra_simps)

lemma summary_total: "cs_TotalCostUSD (fold addRecord rs s) = cs_TotalCostUSD s" "cs_TotalRequests (fold addRecord rs s) = cs_TotalRequests s"
  by (induction rs arbitrary: s) (simp_all add: addRecord_def)

text \<open>
  The summary mixes two windows: its total is the sum of every amount ever billed, while its counters and its split by key, backend and model cover the last
  records only.  Up to the bound both agree; past it they describe different sets of requests.
\<close>
theorem summary_windows:
  assumes "run_steps cost_step (NewTracker m, []) ops = (t, bills)"
  shows "cs_TotalCostUSD (tracker_Summary t) = sum_list bills \<and>
    cs_TotalRequests (tracker_Summary t) = min (length bills) (if m \<le> 0 then 10000 else nat m) \<and>
    map ur_CostUSD (tk_records t) = trimRecords (if m \<le> 0 then 10000 else nat m) bills \<and>
    (\<forall>k. get_rat (cs_ByKey (tracker_Summary t)) k = sum_list (map ur_CostUSD (filter (\<lambda>r. ur_KeyName r = k) (tk_records t))))"
proof -
  let ?n = "if m \<le> 0 then 10000 else nat m"
  have "ledger_inv ?n (NewTracker m, [])" by (simp add: ledger_inv_def NewTracker_def trimRecords_def)
  from ledger.run_inv [OF this] have i: "ledger_inv ?n (t, bills)" using assms by metis
  then have r: "tk_totalCost t = sum_list bills" "map ur_CostUSD (tk_records t) = trimRecords ?n bills" by (simp_all add: ledger_inv_def)
  have "length (tk_records t) = length (trimRecords ?n bills)" using r(2) by (metis length_map)
  then have "length (tk_records t) = min (length bills) ?n" by (simp add: trimRecords_def)
  then show ?thesis using r by (simp add: tracker_Summary_def summary_total summary_by_key emptySummary_def)
qed

end
