(* ===== verification/Heuristic_Classifier.thy ===== *)
theory Heuristic_Classifier
  imports Gateway_Prelude
begin

text \<open>
  The in-process intent classifier with its cache (\<^verbatim>\<open>router/heuristic_classifier.go\<close>).  Whether a pattern matches a text, the digest of the cache key and
  the printed score are parameters; of a request the classifier reads the model, the text and whether it carries tools.
\<close>

section \<open>Scoring\<close>

record HeuristicClassifierConfig =
  hcf_Enabled :: bool
  hcf_CodeAdapter :: string
  hcf_CacheSize :: int
  hcf_CacheTTL :: duration
  hcf_MinConfidence :: float64
  hcf_TextScanBytes :: int

record scored_request =
  sq_Model :: string
  sq_Text :: string
  sq_Tools :: bool

datatype code_pattern = FencedCodeBlock | CodeKeyword | FileExtension | CodeActionVerb | ErrorTerm

record heuristic_lib =
  hl_match :: "code_pattern \<Rightarrow> string \<Rightarrow> bool"
  hl_sha :: "string \<Rightarrow> string"
  hl_format :: "float64 \<Rightarrow> string"

record heuristic_result =
  hr_IsCode :: bool
  hr_Confidence :: float64
  hr_Score :: string
  hr_CodeAdapter :: "string option"

definition defaultCodePatterns :: "(code_pattern \<times> float64) list" where
  "defaultCodePatterns = [(FencedCodeBlock, 2 / 5), (CodeKeyword, 1 / 5), (FileExtension, 1 / 5), (CodeActionVerb, 3 / 10), (ErrorTerm, 3 / 10)]"

definition scanText :: "HeuristicClassifierConfig \<Rightarrow> scored_request \<Rightarrow> string" where
  "scanText cfg req =
     (if hcf_TextScanBytes cfg \<le> 0 \<or> int (length (sq_Text req)) \<le> hcf_TextScanBytes cfg then sq_Text req
      else take (nat (hcf_TextScanBytes cfg)) (sq_Text req))"

definition heuristic_score :: "heuristic_lib \<Rightarrow> HeuristicClassifierConfig \<Rightarrow> scored_request \<Rightarrow> float64" where
  "heuristic_score lib cfg req =
     (let s0 = (if Contains (ToLower (sq_Model req)) ''code'' then 1 / 2 else 0);
          lower = ToLower (scanText cfg req);
          s1 = fold (\<lambda>(p, w) s. if hl_match lib p lower then s + w else s) defaultCodePatterns s0;
          s2 = (if sq_Tools req then s1 + 1 / 5 else s1)
      in if 1 < s2 then 1 else s2)"

definition keyText :: "HeuristicClassifierConfig \<Rightarrow> scored_request \<Rightarrow> string" where
  "keyText cfg req = sq_Model req @ '':'' @ (if sq_Tools req then ''t'' else ''f'') @ '':'' @ scanText cfg req"

definition heuristic_cacheKey :: "heuristic_lib \<Rightarrow> HeuristicClassifierConfig \<Rightarrow> scored_request \<Rightarrow> string" where
  "heuristic_cacheKey lib cfg req = hl_sha lib (keyText cfg req)"

section \<open>The cache\<close>

text \<open>The recency list, front first.  The map of the code indexes the same elements by their key.\<close>

record heuristic_entry =
  he_key :: string
  he_result :: heuristic_result
  he_expiresAt :: time

record heuristicCache =
  hc_list :: "heuristic_entry list"
  hc_cap :: int
  hc_ttl :: duration

definition newHeuristicCache :: "int \<Rightarrow> duration \<Rightarrow> heuristicCache" where
  "newHeuristicCache cap ttl = \<lparr>hc_list = [], hc_cap = cap, hc_ttl = ttl\<rparr>"

definition removeElements :: "string \<Rightarrow> heuristic_entry list \<Rightarrow> heuristic_entry list" where
  "removeElements key es = filter (\<lambda>e. he_key e \<noteq> key) es"

definition hcache_get :: "time \<Rightarrow> string \<Rightarrow> heuristicCache \<Rightarrow> heuristicCache \<times> heuristic_result option" where
  "hcache_get now key h =
     (case find (\<lambda>e. he_key e = key) (hc_list h) of
        None \<Rightarrow> (h, None)
      | Some e \<Rightarrow>
          if 0 < hc_ttl h \<and> 0 \<le> now - he_expiresAt e then (h\<lparr>hc_list := removeElements key (hc_list h)\<rparr>, None)
          else (h\<lparr>hc_list := e # removeElements key (hc_list h)\<rparr>, Some (he_result e)))"

definition hcache_set :: "time \<Rightarrow> string \<Rightarrow> heuristic_result \<Rightarrow> heuristicCache \<Rightarrow> heuristicCache" where
  "hcache_set now key r h =
     (case find (\<lambda>e. he_key e = key) (hc_list h) of
        Some e \<Rightarrow> h\<lparr>hc_list := e\<lparr>he_result := r, he_expiresAt := (if 0 < hc_ttl h then now + hc_ttl h else he_expiresAt e)\<rparr> # removeElements key (hc_list h)\<rparr>
      | None \<Rightarrow>
          h\<lparr>hc_list := take (nat (hc_cap h))
             (\<lparr>he_key = key, he_result = r, he_expiresAt = (if 0 < hc_ttl h then now + hc_ttl h else zero_time)\<rparr> # hc_list h)\<rparr>)"

record HeuristicClassifier =
  hcl_cfg :: HeuristicClassifierConfig
  hcl_cache :: "heuristicCache option"

definition NewHeuristicClassifier :: "HeuristicClassifierConfig \<Rightarrow> HeuristicClassifier" where
  "NewHeuristicClassifier cfg =
     \<lparr>hcl_cfg = cfg, hcl_cache = (if 0 < hcf_CacheSize cfg then Some (newHeuristicCache (hcf_CacheSize cfg) (hcf_CacheTTL cfg)) else None)\<rparr>"

definition classifyFresh :: "heuristic_lib \<Rightarrow> HeuristicClassifierConfig \<Rightarrow> scored_request \<Rightarrow> heuristic_result" where
  "classifyFresh lib cfg req =
     (let s = heuristic_score lib cfg req; code = (hcf_MinConfidence cfg \<le> s)
      in \<lparr>hr_IsCode = code, hr_Confidence = s, hr_Score = hl_format lib s,
          hr_CodeAdapter = (if code \<and> hcf_CodeAdapter cfg \<noteq> '''' then Some (hcf_CodeAdapter cfg) else None)\<rparr>)"

definition heuristic_Classify :: "heuristic_lib \<Rightarrow> time \<Rightarrow> time \<Rightarrow> scored_request \<Rightarrow> HeuristicClassifier \<Rightarrow> HeuristicClassifier \<times> heuristic_result" where
  "heuristic_Classify lib now now' req c =
     (let cfg = hcl_cfg c in
      if \<not> hcf_Enabled cfg then (c, \<lparr>hr_IsCode = False, hr_Confidence = 0, hr_Score = '''', hr_CodeAdapter = None\<rparr>)
      else (case hcl_cache c of
              None \<Rightarrow> (c, classifyFresh lib cfg req)
            | Some h \<Rightarrow>
                (let key = heuristic_cacheKey lib cfg req
                 in case hcache_get now key h of
                      (h1, Some hit) \<Rightarrow> (c\<lparr>hcl_cache := Some h1\<rparr>, hit)
                    | (h1, None) \<Rightarrow>
                        (c\<lparr>hcl_cache := Some (hcache_set now' key (classifyFresh lib cfg req) h1)\<rparr>, classifyFresh lib cfg req))))"

section \<open>The cache does not change the answer\<close>

text \<open>Answers of a run of requests with the instants each reads.\<close>

fun classify_run :: "heuristic_lib \<Rightarrow> HeuristicClassifier \<Rightarrow> (time \<times> time \<times> scored_request) list \<Rightarrow> heuristic_result list" where
  "classify_run lib c [] = []"
| "classify_run lib c ((now, now', req) # rs) =
     (case heuristic_Classify lib now now' req c of (c', res) \<Rightarrow> res # classify_run lib c' rs)"

text \<open>Every cached answer is the fresh answer of one of the requests, under its key.\<close>

definition cached_ok :: "heuristic_lib \<Rightarrow> HeuristicClassifierConfig \<Rightarrow> scored_request set \<Rightarrow> heuristic_entry list \<Rightarrow> bool" where
  "cached_ok lib cfg R es \<longleftrightarrow> (\<forall>e \<in> set es. \<exists>q \<in> R. he_key e = heuristic_cacheKey lib cfg q \<and> he_result e = classifyFresh lib cfg q)"

lemma set_removeElements [simp]: "set (removeElements key es) \<subseteq> set es"
  by (auto simp: removeElements_def)

lemma hcache_get_ok:
  assumes "hcache_get now key h = (h', res)" and "cached_ok lib cfg R (hc_list h)"
  shows "cached_ok lib cfg R (hc_list h')" "res = Some x \<Longrightarrow> \<exists>q \<in> R. key = heuristic_cacheKey lib cfg q \<and> x = classifyFresh lib cfg q"
  using assms by (auto simp: hcache_get_def cached_ok_def removeElements_def find_Some_iff split: option.splits if_splits)

lemma cached_ok_Cons:
  "cached_ok lib cfg R es \<Longrightarrow> q \<in> R \<Longrightarrow> he_key e = heuristic_cacheKey lib cfg q \<Longrightarrow> he_result e = classifyFresh lib cfg q \<Longrightarrow>
   cached_ok lib cfg R (e # es)"
  unfolding cached_ok_def by simp blast

lemma cached_ok_subset: "cached_ok lib cfg R es \<Longrightarrow> set fs \<subseteq> set es \<Longrightarrow> cached_ok lib cfg R fs"
  unfolding cached_ok_def by blast

lemma hcache_set_ok:
  assumes "cached_ok lib cfg R (hc_list h)" and "q \<in> R"
  shows "cached_ok lib cfg R (hc_list (hcache_set now (heuristic_cacheKey lib cfg q) (classifyFresh lib cfg q) h))"
proof (cases "find (\<lambda>e. he_key e = heuristic_cacheKey lib cfg q) (hc_list h)")
  case None
  then show ?thesis
    by (simp add: hcache_set_def) (intro conjI impI cached_ok_subset [OF cached_ok_Cons [OF assms] set_take_subset]; simp)
next
  case (Some e)
  then have "he_key e = heuristic_cacheKey lib cfg q" by (auto simp: find_Some_iff)
  then show ?thesis
    by (simp add: hcache_set_def Some) (intro conjI impI cached_ok_Cons [OF cached_ok_subset [OF assms(1) set_removeElements] assms(2)]; simp)
qed

lemma key_determines:
  assumes "CHR '':'' \<notin> set (sq_Model a)" "CHR '':'' \<notin> set (sq_Model b)" and "keyText cfg a = keyText cfg b"
  shows "classifyFresh lib cfg a = classifyFresh lib cfg b"
proof -
  have s: "u @ CHR '':'' # x = v @ CHR '':'' # y \<Longrightarrow> CHR '':'' \<notin> set u \<Longrightarrow> CHR '':'' \<notin> set v \<Longrightarrow> u = v \<and> x = y" for u v x y :: string
    by (induction u arbitrary: v) (case_tac v; auto)+
  have e: "sq_Model a = sq_Model b" "(if sq_Tools a then ''t'' else ''f'') @ '':'' @ scanText cfg a = (if sq_Tools b then ''t'' else ''f'') @ '':'' @ scanText cfg b"
    using s [of "sq_Model a" "(if sq_Tools a then ''t'' else ''f'') @ '':'' @ scanText cfg a" "sq_Model b"
        "(if sq_Tools b then ''t'' else ''f'') @ '':'' @ scanText cfg b"] assms(1,2) assms(3) [unfolded keyText_def] by simp_all
  then have "sq_Tools a = sq_Tools b" "scanText cfg a = scanText cfg b" by (auto split: if_splits)
  then show ?thesis using e(1) by (simp add: classifyFresh_def heuristic_score_def)
qed

text \<open>
  C39. The cache is transparent: as long as no model name in use contains a colon and the digest does not collide on the texts in use, every answer of every run is
  the one a classifier without a cache gives, whatever the size and lifetime of the cache and the order of the requests.
\<close>
theorem heuristic_cache_transparent:
  assumes "hcf_Enabled cfg" and "\<forall>(t, t', q) \<in> set rs. CHR '':'' \<notin> set (sq_Model q)"
    and "inj_on (hl_sha lib) (keyText cfg ` (snd \<circ> snd) ` set rs)"
  shows "classify_run lib (NewHeuristicClassifier cfg) rs = map (\<lambda>(t, t', q). classifyFresh lib cfg q) rs"
proof -
  let ?R = "(snd \<circ> snd) ` set rs"
  have same: "classifyFresh lib cfg q' = classifyFresh lib cfg q"
    if "q \<in> ?R" "q' \<in> ?R" "heuristic_cacheKey lib cfg q = heuristic_cacheKey lib cfg q'" for q q'
  proof -
    have "keyText cfg q = keyText cfg q'" using assms(3) that by (auto simp: heuristic_cacheKey_def dest!: inj_onD)
    moreover have "CHR '':'' \<notin> set (sq_Model q)" "CHR '':'' \<notin> set (sq_Model q')" using assms(2) that(1,2) by fastforce+
    ultimately show ?thesis using key_determines by metis
  qed
  have "classify_run lib c ss = map (\<lambda>(t, t', q). classifyFresh lib cfg q) ss"
    if "set ss \<subseteq> set rs" "hcl_cfg c = cfg" "\<forall>h. hcl_cache c = Some h \<longrightarrow> cached_ok lib cfg ?R (hc_list h)" for c ss
    using that
  proof (induction ss arbitrary: c)
    case (Cons x ss)
    obtain now now' q where x: "x = (now, now', q)" by (cases x)
    then have q: "q \<in> ?R" using Cons.prems(1) by force
    have "\<exists>c'. heuristic_Classify lib now now' q c = (c', classifyFresh lib cfg q) \<and> hcl_cfg c' = cfg \<and>
        (\<forall>h. hcl_cache c' = Some h \<longrightarrow> cached_ok lib cfg ?R (hc_list h))"
    proof (cases "hcl_cache c")
      case None
      then show ?thesis using Cons.prems(2,3) assms(1) by (simp add: heuristic_Classify_def)
    next
      case (Some h)
      obtain h1 res where g: "hcache_get now (heuristic_cacheKey lib cfg q) h = (h1, res)" by fastforce
      have ok: "cached_ok lib cfg ?R (hc_list h1)" using hcache_get_ok(1) [OF g] Cons.prems(3) Some by blast
      show ?thesis
      proof (cases res)
        case None
        then show ?thesis using Some g assms(1) Cons.prems(2) hcache_set_ok [OF ok q] by (simp add: heuristic_Classify_def Let_def)
      next
        case (Some y)
        then have "y = classifyFresh lib cfg q" using hcache_get_ok(2) [OF g, of lib cfg ?R y] Cons.prems(3) \<open>hcl_cache c = Some h\<close> same q by fastforce
        then show ?thesis using \<open>hcl_cache c = Some h\<close> g assms(1) Cons.prems(2) Some ok by (simp add: heuristic_Classify_def Let_def)
      qed
    qed
    then obtain c' where "heuristic_Classify lib now now' q c = (c', classifyFresh lib cfg q)" "hcl_cfg c' = cfg"
        "\<forall>h. hcl_cache c' = Some h \<longrightarrow> cached_ok lib cfg ?R (hc_list h)" by blast
    then show ?case using Cons.IH [of c'] Cons.prems(1) by (simp add: x)
  qed simp
  then show ?thesis by (simp add: NewHeuristicClassifier_def newHeuristicCache_def cached_ok_def)
qed

section \<open>Model names with a colon\<close>

text \<open>
  A colon in a model name mixes up requests: the parts of the key are joined with colons that are not escaped, so for every digest a request with tools for a
  model whose name ends in a colon, a flag and the word code shares its key with a plain request whose text starts with the rest, and the plain request then
  gets the cached code intent of the other although its own score is that of its text alone.
\<close>
theorem heuristic_cache_confusion:
  assumes "hcf_Enabled cfg" "0 < hcf_CacheSize cfg" "hcf_TextScanBytes cfg \<le> 0"
    and "a = \<lparr>sq_Model = m @ '':f:code'', sq_Text = x, sq_Tools = True\<rparr>" and "b = \<lparr>sq_Model = m, sq_Text = ''code:t:'' @ x, sq_Tools = False\<rparr>"
    and "hcf_CacheTTL cfg \<le> 0 \<or> t2 < t1' + hcf_CacheTTL cfg"
  shows "classify_run lib (NewHeuristicClassifier cfg) [(t1, t1', a), (t2, t2', b)] = [classifyFresh lib cfg a, classifyFresh lib cfg a]"
proof -
  have "keyText cfg a = keyText cfg b" using assms(3-5) by (simp add: keyText_def scanText_def)
  then have k: "heuristic_cacheKey lib cfg b = heuristic_cacheKey lib cfg a" by (simp add: heuristic_cacheKey_def)
  show ?thesis using assms(1,2,6)
    by (auto simp: NewHeuristicClassifier_def newHeuristicCache_def heuristic_Classify_def hcache_get_def hcache_set_def k Let_def)
qed

definition quiet_lib :: heuristic_lib where
  "quiet_lib = \<lparr>hl_match = (\<lambda>p s. False), hl_sha = id, hl_format = (\<lambda>s. '''')\<rparr>"

definition heuristic_cfg :: HeuristicClassifierConfig where
  "heuristic_cfg = \<lparr>hcf_Enabled = True, hcf_CodeAdapter = ''lora'', hcf_CacheSize = 10, hcf_CacheTTL = 0, hcf_MinConfidence = 3 / 5, hcf_TextScanBytes = 0\<rparr>"

theorem heuristic_cache_confusion_witness:
  "\<not> hr_IsCode (classifyFresh quiet_lib heuristic_cfg \<lparr>sq_Model = ''m'', sq_Text = ''code:t:x'', sq_Tools = False\<rparr>) \<and>
   map hr_IsCode (classify_run quiet_lib (NewHeuristicClassifier heuristic_cfg)
     [(0, 0, \<lparr>sq_Model = ''m:f:code'', sq_Text = ''x'', sq_Tools = True\<rparr>), (1, 1, \<lparr>sq_Model = ''m'', sq_Text = ''code:t:x'', sq_Tools = False\<rparr>)]) = [True, True]"
proof -
  have c: "Contains (ToLower ''m:f:code'') ''code''" "\<not> Contains (ToLower ''m'') ''code''" by code_simp+
  have "classify_run quiet_lib (NewHeuristicClassifier heuristic_cfg)
     [(0, 0, \<lparr>sq_Model = ''m'' @ '':f:code'', sq_Text = ''x'', sq_Tools = True\<rparr>), (1, 1, \<lparr>sq_Model = ''m'', sq_Text = ''code:t:'' @ ''x'', sq_Tools = False\<rparr>)] =
     [classifyFresh quiet_lib heuristic_cfg \<lparr>sq_Model = ''m'' @ '':f:code'', sq_Text = ''x'', sq_Tools = True\<rparr>,
      classifyFresh quiet_lib heuristic_cfg \<lparr>sq_Model = ''m'' @ '':f:code'', sq_Text = ''x'', sq_Tools = True\<rparr>]"
    by (rule heuristic_cache_confusion) (simp_all add: heuristic_cfg_def)
  then show ?thesis using c
    by (simp add: classifyFresh_def heuristic_score_def quiet_lib_def heuristic_cfg_def defaultCodePatterns_def Let_def)
qed

theorem heuristic_cache_transparent_witness:
  "classify_run quiet_lib (NewHeuristicClassifier heuristic_cfg) [(0, 0, \<lparr>sq_Model = ''m'', sq_Text = ''x'', sq_Tools = True\<rparr>), (1, 1, \<lparr>sq_Model = ''m'', sq_Text = ''x'', sq_Tools = False\<rparr>)] =
   map (\<lambda>(t, t', q). classifyFresh quiet_lib heuristic_cfg q) [(0, 0, \<lparr>sq_Model = ''m'', sq_Text = ''x'', sq_Tools = True\<rparr>), (1, 1, \<lparr>sq_Model = ''m'', sq_Text = ''x'', sq_Tools = False\<rparr>)]"
  using heuristic_cache_transparent [of heuristic_cfg "[(0, 0, \<lparr>sq_Model = ''m'', sq_Text = ''x'', sq_Tools = True\<rparr>), (1, 1, \<lparr>sq_Model = ''m'', sq_Text = ''x'', sq_Tools = False\<rparr>)]" quiet_lib]
  by (simp add: heuristic_cfg_def quiet_lib_def)

end
