(* ===== verification/Coalescer.thy ===== *)
theory Coalescer
  imports Gateway_Prelude
begin

text \<open>
  The per-key coalescing of concurrent fetches (\<^verbatim>\<open>server/coalescer.go\<close>).  \<^verbatim>\<open>Do\<close> is split where it takes or releases a mutex: the map section decides
  between leader and waiter, a leader publishes its call with the call's mutex held, a waiter locks and unlocks that mutex.  The goroutines interleave by
  \<open>co_step\<close>; a goroutine that returned may call again.  \<^verbatim>\<open>forget\<close> is never called by the gateway.
\<close>

section \<open>Steps of the goroutines\<close>

datatype co_pc = CoIdle | CoWait nat | CoGot nat | CoRun string nat | CoLeave string nat | CoUnlock nat

record coalescer =
  co_calls :: "string \<Rightarrow> nat option"
  co_locked :: "nat \<Rightarrow> bool"
  co_next :: nat

record co_sys =
  co_c :: coalescer
  co_pc :: "nat \<Rightarrow> co_pc"

definition newCoalescer :: coalescer where
  "newCoalescer = \<lparr>co_calls = Map.empty, co_locked = (\<lambda>_. False), co_next = 0\<rparr>"

text \<open>The section under the map mutex: join the call of the key or publish a new one, already locked.\<close>

definition Do_enter :: "string \<Rightarrow> coalescer \<Rightarrow> coalescer \<times> co_pc" where
  "Do_enter key c =
     (case co_calls c key of
        Some call \<Rightarrow> (c, CoWait call)
      | None \<Rightarrow>
          (c\<lparr>co_calls := (co_calls c)(key \<mapsto> co_next c), co_locked := (co_locked c)(co_next c := True), co_next := Suc (co_next c)\<rparr>,
           CoRun key (co_next c)))"

definition Do_delete :: "string \<Rightarrow> coalescer \<Rightarrow> coalescer" where
  "Do_delete key c = c\<lparr>co_calls := (co_calls c)(key := None)\<rparr>"

definition call_Lock :: "nat \<Rightarrow> coalescer \<Rightarrow> coalescer option" where
  "call_Lock call c = (if co_locked c call then None else Some (c\<lparr>co_locked := (co_locked c)(call := True)\<rparr>))"

definition call_Unlock :: "nat \<Rightarrow> coalescer \<Rightarrow> coalescer" where
  "call_Unlock call c = c\<lparr>co_locked := (co_locked c)(call := False)\<rparr>"

definition co_forget :: "string \<Rightarrow> coalescer \<Rightarrow> coalescer" where
  "co_forget key c = c\<lparr>co_calls := (co_calls c)(key := None)\<rparr>"

definition co_put :: "nat \<Rightarrow> coalescer \<times> co_pc \<Rightarrow> co_sys \<Rightarrow> co_sys" where
  "co_put t x s = \<lparr>co_c = fst x, co_pc = (co_pc s)(t := snd x)\<rparr>"

text \<open>The steps of a running \<^verbatim>\<open>Do\<close>; \<open>CoRun\<close> ends when \<^verbatim>\<open>fn\<close> returns or panics.\<close>

inductive co_work :: "nat \<Rightarrow> co_sys \<Rightarrow> co_sys \<Rightarrow> bool" where
  co_finish: "co_pc s t = CoRun key call \<Longrightarrow> co_work t s (co_put t (co_c s, CoLeave key call) s)"
| co_delete: "co_pc s t = CoLeave key call \<Longrightarrow> co_work t s (co_put t (Do_delete key (co_c s), CoUnlock call) s)"
| co_unlock: "co_pc s t = CoUnlock call \<Longrightarrow> co_work t s (co_put t (call_Unlock call (co_c s), CoIdle) s)"
| co_acquire: "co_pc s t = CoWait call \<Longrightarrow> call_Lock call (co_c s) = Some c \<Longrightarrow> co_work t s (co_put t (c, CoGot call) s)"
| co_release: "co_pc s t = CoGot call \<Longrightarrow> co_work t s (co_put t (call_Unlock call (co_c s), CoIdle) s)"

inductive co_step :: "co_sys \<Rightarrow> co_sys \<Rightarrow> bool" where
  co_call: "co_pc s t = CoIdle \<Longrightarrow> co_step s (co_put t (Do_enter key (co_c s)) s)"
| co_continue: "co_work t s s' \<Longrightarrow> co_step s s'"

inductive_cases co_workE: "co_work t s s'"
inductive_cases co_stepE: "co_step s s'"

definition co_start :: co_sys where
  "co_start = \<lparr>co_c = newCoalescer, co_pc = (\<lambda>_. CoIdle)\<rparr>"

abbreviation co_reachable :: "co_sys \<Rightarrow> bool" where
  "co_reachable s \<equiv> co_step\<^sup>*\<^sup>* co_start s"

section \<open>The invariant\<close>

fun owns :: "co_pc \<Rightarrow> nat option" where
  "owns (CoRun key call) = Some call"
| "owns (CoLeave key call) = Some call"
| "owns (CoUnlock call) = Some call"
| "owns (CoGot call) = Some call"
| "owns _ = None"

fun leads :: "co_pc \<Rightarrow> (string \<times> nat) option" where
  "leads (CoRun key call) = Some (key, call)"
| "leads (CoLeave key call) = Some (key, call)"
| "leads _ = None"

fun refers :: "co_pc \<Rightarrow> nat option" where
  "refers (CoWait call) = Some call"
| "refers p = owns p"

definition co_inv :: "co_sys \<Rightarrow> bool" where
  "co_inv s \<longleftrightarrow>
     (\<forall>key call. co_calls (co_c s) key = Some call \<longleftrightarrow> (\<exists>t. leads (co_pc s t) = Some (key, call))) \<and>
     (\<forall>call. co_locked (co_c s) call \<longleftrightarrow> (\<exists>t. owns (co_pc s t) = Some call)) \<and>
     (\<forall>t t' call. owns (co_pc s t) = Some call \<longrightarrow> owns (co_pc s t') = Some call \<longrightarrow> t = t') \<and>
     (\<forall>t call. refers (co_pc s t) = Some call \<longrightarrow> call < co_next (co_c s)) \<and>
     finite {t. co_pc s t \<noteq> CoIdle}"

lemma leads_owns: "leads p = Some (key, call) \<Longrightarrow> owns p = Some call"
  by (cases p) auto

lemma owns_refers: "owns p = Some call \<Longrightarrow> refers p = Some call"
  by (cases p) auto

lemma co_invD:
  assumes "co_inv s"
  shows "co_calls (co_c s) key = Some call \<longleftrightarrow> (\<exists>t. leads (co_pc s t) = Some (key, call))"
    and "co_locked (co_c s) call \<longleftrightarrow> (\<exists>t. owns (co_pc s t) = Some call)"
    and "owns (co_pc s t) = Some call \<Longrightarrow> owns (co_pc s t') = Some call \<Longrightarrow> t = t'"
    and "refers (co_pc s t) = Some call \<Longrightarrow> call < co_next (co_c s)"
    and "finite {t. co_pc s t \<noteq> CoIdle}"
  using assms unfolding co_inv_def by blast+

lemma finite_upd: "finite {t. f t \<noteq> x} \<Longrightarrow> finite {u. (f(t := p)) u \<noteq> x}"
  by (rule finite_subset [of _ "insert t {t. f t \<noteq> x}"]) (auto split: if_splits)

lemma co_invI:
  assumes "\<And>key call. co_calls c key = Some call \<longleftrightarrow> leads p = Some (key, call) \<or> (\<exists>u. u \<noteq> t \<and> leads (co_pc s u) = Some (key, call))"
    and "\<And>call. co_locked c call \<longleftrightarrow> owns p = Some call \<or> (\<exists>u. u \<noteq> t \<and> owns (co_pc s u) = Some call)"
    and "\<And>u call. u \<noteq> t \<Longrightarrow> owns (co_pc s u) = Some call \<Longrightarrow> owns p \<noteq> Some call"
    and "\<And>call. refers p = Some call \<Longrightarrow> call < co_next c" and "co_next (co_c s) \<le> co_next c" and "co_inv s"
  shows "co_inv (co_put t (c, p) s)"
  unfolding co_inv_def
proof (intro conjI allI impI)
  let ?s = "co_put t (c, p) s"
  have pc: "co_pc ?s u = (if u = t then p else co_pc s u)" "co_c ?s = c" for u by (simp_all add: co_put_def)
  show "co_calls (co_c ?s) key = Some call \<longleftrightarrow> (\<exists>u. leads (co_pc ?s u) = Some (key, call))" for key call unfolding pc using assms(1) by auto
  show "co_locked (co_c ?s) call \<longleftrightarrow> (\<exists>u. owns (co_pc ?s u) = Some call)" for call unfolding pc using assms(2) by auto
  show "owns (co_pc ?s u) = Some call \<Longrightarrow> owns (co_pc ?s u') = Some call \<Longrightarrow> u = u'" for u u' call
    unfolding pc using assms(3) [of u call] assms(3) [of u' call] co_invD(3) [OF assms(6), of u call u'] by (auto split: if_splits)
  show "refers (co_pc ?s u) = Some call \<Longrightarrow> call < co_next (co_c ?s)" for u call
    unfolding pc using assms(4,5) co_invD(4) [OF assms(6), of u call] by (auto split: if_splits)
  show "finite {u. co_pc ?s u \<noteq> CoIdle}" using finite_upd [OF co_invD(5) [OF assms(6)]] by (simp add: co_put_def)
qed

text \<open>What the others hold while a goroutine has the program counter \<open>p\<close>.\<close>

lemma co_others:
  assumes "co_inv s" and "co_pc s t = p"
  shows "co_calls (co_c s) key = Some call \<longleftrightarrow> leads p = Some (key, call) \<or> (\<exists>u. u \<noteq> t \<and> leads (co_pc s u) = Some (key, call))"
    and "co_locked (co_c s) call \<longleftrightarrow> owns p = Some call \<or> (\<exists>u. u \<noteq> t \<and> owns (co_pc s u) = Some call)"
    and "u \<noteq> t \<Longrightarrow> owns (co_pc s u) = Some call \<Longrightarrow> owns p \<noteq> Some call"
    and "u \<noteq> t \<Longrightarrow> leads (co_pc s u) = Some (key, call) \<Longrightarrow> leads p \<noteq> Some (key, call')"
  using co_invD(1) [OF assms(1), of key call] co_invD(2) [OF assms(1), of call] co_invD(3) [OF assms(1)] assms(2)
    co_invD(1) [OF assms(1), of key call'] leads_owns by (metis option.inject)+

lemma call_inv:
  assumes "co_inv s" and "co_pc s t = CoIdle"
  shows "co_inv (co_put t (Do_enter key (co_c s)) s)"
proof (cases "co_calls (co_c s) key")
  case (Some call)
  then have "call < co_next (co_c s)" using co_invD(1,4) [OF assms(1)] leads_owns owns_refers by metis
  then have "co_inv (co_put t (co_c s, CoWait call) s)" using co_others [OF assms] by (intro co_invI) (simp_all add: assms(1))
  then show ?thesis by (simp add: Do_enter_def Some)
next
  case None
  let ?n = "co_next (co_c s)"
  have new: "owns (co_pc s u) \<noteq> Some ?n" for u using co_invD(4) [OF assms(1)] owns_refers by (metis less_irrefl)
  have key: "leads (co_pc s u) \<noteq> Some (key, call)" for u call using co_invD(1) [OF assms(1)] None by (metis option.distinct(1))
  have "co_inv (co_put t ((co_c s)\<lparr>co_calls := (co_calls (co_c s))(key \<mapsto> ?n), co_locked := (co_locked (co_c s))(?n := True), co_next := Suc ?n\<rparr>, CoRun key ?n) s)"
    using co_others(1,2) [OF assms] new key by (intro co_invI) (auto simp: assms(1))
  then show ?thesis by (simp add: Do_enter_def None)
qed

lemma work_inv:
  assumes "co_work t s s'" and "co_inv s"
  shows "co_inv s'"
  using assms(1)
proof cases
  case (co_finish key call)
  show ?thesis unfolding co_finish(1) using co_others [OF assms(2) co_finish(2)] co_invD(4) [OF assms(2), of t call] co_finish(2)
    by (intro co_invI) (simp_all add: assms(2))
next
  case (co_delete key call)
  have no: "leads (co_pc s u) \<noteq> Some (key, call')" if "u \<noteq> t" for u call' using co_others(4) [OF assms(2) co_delete(2) that, of key call' call] by auto
  show ?thesis unfolding co_delete(1) Do_delete_def
    using co_others(1-3) [OF assms(2) co_delete(2)] no co_invD(4) [OF assms(2), of t call] co_delete(2)
    by (intro co_invI) (auto simp: assms(2) split: if_splits)
next
  case (co_unlock call)
  have no: "owns (co_pc s u) \<noteq> Some call" if "u \<noteq> t" for u using co_others(3) [OF assms(2) co_unlock(2) that, of call] by auto
  show ?thesis unfolding co_unlock(1) call_Unlock_def using co_others(1,2) [OF assms(2) co_unlock(2)] no by (intro co_invI) (auto simp: assms(2) split: if_splits)
next
  case (co_acquire call c)
  then have c: "\<not> co_locked (co_c s) call" "c = (co_c s)\<lparr>co_locked := (co_locked (co_c s))(call := True)\<rparr>" by (auto simp: call_Lock_def split: if_splits)
  show ?thesis unfolding co_acquire(1) c(2) using co_others [OF assms(2) co_acquire(2)] co_invD(4) [OF assms(2), of t call] co_acquire(2) c(1)
    by (intro co_invI) (auto simp: assms(2) split: if_splits)
next
  case (co_release call)
  have no: "owns (co_pc s u) \<noteq> Some call" if "u \<noteq> t" for u using co_others(3) [OF assms(2) co_release(2) that, of call] by auto
  show ?thesis unfolding co_release(1) call_Unlock_def using co_others(1,2) [OF assms(2) co_release(2)] no by (intro co_invI) (auto simp: assms(2) split: if_splits)
qed

lemma reachable_inv: "co_reachable s \<Longrightarrow> co_inv s"
proof (induction rule: rtranclp_induct)
  case base
  show ?case by (simp add: co_inv_def co_start_def newCoalescer_def)
next
  case (step s s')
  from step.hyps(2) step.IH show ?case by (auto elim!: co_stepE intro: call_inv work_inv)
qed

section \<open>Single flight and progress\<close>

definition co_works :: "co_sys \<Rightarrow> co_sys \<Rightarrow> bool" where
  "co_works s s' \<longleftrightarrow> (\<exists>t. co_work t s s')"

fun co_rank :: "co_pc \<Rightarrow> nat" where
  "co_rank (CoRun key call) = 3"
| "co_rank (CoLeave key call) = 2"
| "co_rank (CoWait call) = 2"
| "co_rank (CoUnlock call) = 1"
| "co_rank (CoGot call) = 1"
| "co_rank CoIdle = 0"

definition co_total :: "co_sys \<Rightarrow> nat" where
  "co_total s = (\<Sum>t | co_pc s t \<noteq> CoIdle. co_rank (co_pc s t))"

lemma co_total_put:
  assumes "finite {t. co_pc s t \<noteq> CoIdle}" and "co_rank p < co_rank (co_pc s t)"
  shows "co_total (co_put t (c, p) s) < co_total s"
proof -
  let ?A = "{t. co_pc s t \<noteq> CoIdle}"
  have t: "t \<in> ?A" using assms(2) by (cases "co_pc s t") auto
  have sub: "{u. co_pc (co_put t (c, p) s) u \<noteq> CoIdle} \<subseteq> ?A" using t by (auto simp: co_put_def split: if_splits)
  have "co_total (co_put t (c, p) s) = (\<Sum>u \<in> ?A. co_rank (((co_pc s)(t := p)) u))"
    unfolding co_total_def by (rule sum.mono_neutral_cong_left [OF assms(1) sub]) (auto simp: co_put_def)
  also have "\<dots> < (\<Sum>u \<in> ?A. co_rank (co_pc s u))" by (rule sum_strict_mono_ex1) (use assms t in auto)
  finally show ?thesis by (simp add: co_total_def)
qed

lemma co_work_decreases: "co_work t s s' \<Longrightarrow> co_inv s \<Longrightarrow> co_total s' < co_total s"
  by (erule co_workE) (auto intro!: co_total_put simp: co_invD(5))

lemma co_progress:
  assumes "co_inv s" and "co_pc s t \<noteq> CoIdle"
  shows "\<exists>u s'. co_work u s s'"
proof (cases "\<exists>u. owns (co_pc s u) \<noteq> None")
  case True
  then obtain u where "owns (co_pc s u) \<noteq> None" by blast
  then have "\<exists>s'. co_work u s s'" by (cases "co_pc s u") (auto intro: co_work.intros)
  then show ?thesis by blast
next
  case False
  then obtain call where w: "co_pc s t = CoWait call" using assms(2) by (cases "co_pc s t") (metis owns.simps option.distinct(1))+
  have "\<not> co_locked (co_c s) call" using co_invD(2) [OF assms(1)] False by auto
  then show ?thesis using co_acquire [OF w] by (auto simp: call_Lock_def)
qed

lemma work_rtranclp_inv: "co_works\<^sup>*\<^sup>* s s' \<Longrightarrow> co_inv s \<Longrightarrow> co_inv s'"
  by (induction rule: rtranclp_induct) (auto simp: co_works_def intro: work_inv)

lemma co_drains: "co_inv s \<Longrightarrow> \<exists>s'. co_works\<^sup>*\<^sup>* s s' \<and> (\<forall>t. co_pc s' t = CoIdle)"
proof (induction "co_total s" arbitrary: s rule: less_induct)
  case less
  show ?case
  proof (cases "\<forall>t. co_pc s t = CoIdle")
    case False
    then obtain u s1 where w: "co_work u s s1" using co_progress [OF less.prems] by blast
    then have "co_works s s1" by (auto simp: co_works_def)
    then show ?thesis using less.hyps [OF co_work_decreases [OF w less.prems] work_inv [OF w less.prems]]
      by (meson converse_rtranclp_into_rtranclp)
  qed auto
qed

lemma work_relpowp_bound: "(co_works ^^ n) s s' \<Longrightarrow> co_inv s \<Longrightarrow> n \<le> co_total s"
proof (induction n arbitrary: s)
  case (Suc n)
  obtain s1 where "co_works s s1" and r: "(co_works ^^ n) s1 s'" using relpowp_Suc_D2 [OF Suc.prems(1)] by blast
  then obtain t where w: "co_work t s s1" by (auto simp: co_works_def)
  then show ?case using Suc.IH [OF r work_inv [OF w Suc.prems(2)]] co_work_decreases [OF w Suc.prems(2)] by linarith
qed simp

text \<open>
  C13. One fetch per key at a time, and nobody overtakes it: under every interleaving at most one goroutine runs the function of a key, every other caller that arrives
  meanwhile waits for that very call, and a waiter gets past the mutex only when no goroutine runs the function of its call any more.
\<close>
theorem single_flight:
  assumes "co_reachable s"
  shows "(\<forall>t t' key call call'. co_pc s t = CoRun key call \<longrightarrow> co_pc s t' = CoRun key call' \<longrightarrow> t = t') \<and>
    (\<forall>t key call. co_pc s t = CoRun key call \<longrightarrow> Do_enter key (co_c s) = (co_c s, CoWait call)) \<and>
    (\<forall>t s' call. co_pc s t = CoWait call \<longrightarrow> co_work t s s' \<longrightarrow> (\<forall>u key. co_pc s u \<noteq> CoRun key call))"
proof -
  note inv = reachable_inv [OF assms]
  have c: "co_pc s t = CoRun key call \<Longrightarrow> co_calls (co_c s) key = Some call" for t key call using co_invD(1) [OF inv, of key call] leads.simps(1) by metis
  have one: "co_pc s t = CoRun key call \<Longrightarrow> co_pc s t' = CoRun key call' \<Longrightarrow> t = t'" for t t' key call call'
    using c [of t key call] c [of t' key call'] co_invD(3) [OF inv, of t call t'] by simp
  have free: "co_pc s u \<noteq> CoRun key call" if "co_pc s t = CoWait call" "co_work t s s'" for t s' call u key
  proof -
    have "\<not> co_locked (co_c s) call" using that(2,1) by (auto elim!: co_workE simp: call_Lock_def split: if_splits)
    then show ?thesis using co_invD(2) [OF inv, of call] owns.simps(1) by metis
  qed
  show ?thesis using one c free by (auto simp: Do_enter_def)
qed

text \<open>
  The coalescer drains: as long as the functions return, no interleaving gets stuck, every goroutine inside takes at most three more steps, and once all have
  returned no entry is left in the map.
\<close>
theorem coalescer_drains:
  assumes "co_reachable s"
  shows "(\<exists>s'. co_works\<^sup>*\<^sup>* s s' \<and> (\<forall>t. co_pc s' t = CoIdle)) \<and>
    (\<forall>n s'. (co_works ^^ n) s s' \<longrightarrow> n \<le> 3 * card {t. co_pc s t \<noteq> CoIdle}) \<and>
    ((\<forall>t. co_pc s t = CoIdle) \<longrightarrow> co_calls (co_c s) = Map.empty)"
proof -
  note inv = reachable_inv [OF assms]
  have "co_rank p \<le> 3" for p by (cases p) auto
  then have b: "co_total s \<le> 3 * card {t. co_pc s t \<noteq> CoIdle}"
    using sum_bounded_above [of "{t. co_pc s t \<noteq> CoIdle}" "\<lambda>t. co_rank (co_pc s t)" 3] by (simp add: co_total_def)
  have "co_calls (co_c s) key = None" if "\<forall>t. co_pc s t = CoIdle" for key
    using co_invD(1) [OF inv, of key] that by (cases "co_calls (co_c s) key") auto
  then show ?thesis using co_drains [OF inv] work_relpowp_bound [OF _ inv] b by (auto intro: le_trans)
qed

theorem coalescer_drains_witness:
  "\<exists>s'. co_works\<^sup>*\<^sup>* (co_put 1 (Do_enter ''k'' (co_c (co_put 0 (Do_enter ''k'' newCoalescer) co_start))) (co_put 0 (Do_enter ''k'' newCoalescer) co_start)) s' \<and>
     (\<forall>t. co_pc s' t = CoIdle)"
proof -
  let ?s0 = "co_put 0 (Do_enter ''k'' newCoalescer) co_start"
  have "co_step co_start ?s0" using co_call [of co_start 0 "''k''"] by (simp add: co_start_def)
  moreover have "co_step ?s0 (co_put 1 (Do_enter ''k'' (co_c ?s0)) ?s0)" by (rule co_call) (simp add: co_put_def co_start_def)
  ultimately have "co_reachable (co_put 1 (Do_enter ''k'' (co_c ?s0)) ?s0)" by (rule rtranclp.rtrancl_into_rtrancl [OF r_into_rtranclp])
  then show ?thesis using coalescer_drains by blast
qed

theorem single_flight_witness:
  "let s0 = co_put 0 (Do_enter ''k'' newCoalescer) co_start
   in co_pc s0 0 = CoRun ''k'' 0 \<and> Do_enter ''k'' (co_c s0) = (co_c s0, CoWait 0)"
proof -
  let ?s0 = "co_put 0 (Do_enter ''k'' newCoalescer) co_start"
  have "co_step co_start ?s0" using co_call [of co_start 0 "''k''"] by (simp add: co_start_def)
  then have "co_reachable ?s0" by blast
  moreover have "co_pc ?s0 0 = CoRun ''k'' 0" by (simp add: co_put_def Do_enter_def newCoalescer_def)
  ultimately show ?thesis using single_flight [of ?s0] by (auto simp: Let_def)
qed

end
