(* ===== verification/Semantic_Cache.thy ===== *)
theory Semantic_Cache
  imports Response_Cache
begin

text \<open>
  The semantic cache (\<^verbatim>\<open>cache/semantic.go\<close>) and its key (\<^verbatim>\<open>server/semantic_cache.go\<close>): answers are found by the similarity of prompt embeddings.  The
  embedding of a prompt and the digest of the system text are parameters; vectors are lists of \<open>real\<close>, because the similarity takes square roots.  A call
  of a method is one step.  The id of an entry is only written and is left out.
\<close>

section \<open>State and operations\<close>

record SemanticEntry =
  sem_Embedding :: "real list"
  sem_Prompt :: string
  sem_SystemHash :: string
  sem_Response :: bytes
  sem_Model :: string
  sem_Timestamp :: time

record SemanticCacheConfig =
  scf_Enabled :: bool
  scf_SimilarityThreshold :: real
  scf_MaxEntries :: int

type_synonym embedding_order = "(string \<times> real list) list \<Rightarrow> (string \<times> real list) list"

record SemanticCache =
  sem_entries :: "SemanticEntry list"
  sem_threshold :: real
  sem_maxEntries :: nat
  sem_ttl :: duration
  sem_hits :: int
  sem_misses :: int
  sem_embedCache :: "(string \<times> real list) list"

definition NewSemanticCache :: "SemanticCacheConfig \<Rightarrow> bool \<Rightarrow> SemanticCache option" where
  "NewSemanticCache cfg hasEmbed =
     (if \<not> scf_Enabled cfg \<or> \<not> hasEmbed then None
      else Some \<lparr>sem_entries = [],
             sem_threshold = (if scf_SimilarityThreshold cfg \<le> 0 then 92 / 100 else scf_SimilarityThreshold cfg),
             sem_maxEntries = (if scf_MaxEntries cfg \<le> 0 then 5000 else nat (scf_MaxEntries cfg)),
             sem_ttl = 30 * minute, sem_hits = 0, sem_misses = 0, sem_embedCache = []\<rparr>)"

definition vec_dot :: "real list \<Rightarrow> real list \<Rightarrow> real" where
  "vec_dot a b = sum_list (map2 (*) a b)"

definition cosineSimilarity :: "real list \<Rightarrow> real list \<Rightarrow> real" where
  "cosineSimilarity a b =
     (if length a \<noteq> length b then 0
      else if vec_dot a a = 0 \<or> vec_dot b b = 0 then 0
      else vec_dot a b / (sqrt (vec_dot a a) * sqrt (vec_dot b b)))"

text \<open>On overflow the loop deletes half of the cached embeddings, at least one, in the order of the runtime.\<close>

definition embeddingFor ::
  "(string \<Rightarrow> real list option) \<Rightarrow> embedding_order \<Rightarrow> string \<Rightarrow> SemanticCache \<Rightarrow> SemanticCache \<times> real list option" where
  "embeddingFor embedFn it prompt sc =
     (case map_of (sem_embedCache sc) prompt of
        Some vec \<Rightarrow> (sc, Some vec)
      | None \<Rightarrow>
          (case embedFn prompt of
             None \<Rightarrow> (sc, None)
           | Some vec \<Rightarrow>
               (let c = sem_embedCache sc;
                    c1 = (if sem_maxEntries sc \<le> length c then drop (max 1 (length c div 2)) (iterate it c) else c)
                in (sc\<lparr>sem_embedCache := AList.update prompt vec c1\<rparr>, Some vec))))"

fun bestMatch :: "real list \<Rightarrow> string \<Rightarrow> string \<Rightarrow> SemanticEntry list \<Rightarrow> SemanticEntry option \<times> real \<Rightarrow> SemanticEntry option \<times> real" where
  "bestMatch v h m [] best = best"
| "bestMatch v h m (e # es) best =
     (if sem_Model e \<noteq> m \<or> sem_SystemHash e \<noteq> h then bestMatch v h m es best
      else if cosineSimilarity v (sem_Embedding e) > snd best then bestMatch v h m es (Some e, cosineSimilarity v (sem_Embedding e))
      else bestMatch v h m es best)"

definition semantic_Search ::
  "(string \<Rightarrow> real list option) \<Rightarrow> embedding_order \<Rightarrow> time \<Rightarrow> string \<Rightarrow> string \<Rightarrow> string \<Rightarrow> SemanticCache option \<Rightarrow> SemanticCache option \<times> bytes option" where
  "semantic_Search embedFn it now prompt systemHash model c =
     (case c of
        None \<Rightarrow> (None, None)
      | Some sc \<Rightarrow>
          (case embeddingFor embedFn it prompt sc of
             (sc1, None) \<Rightarrow> (Some (sc1\<lparr>sem_misses := sem_misses sc1 + 1\<rparr>), None)
           | (sc1, Some v) \<Rightarrow>
               (case bestMatch v systemHash model (sem_entries sc1) (None, 0) of
                  (Some e, sim) \<Rightarrow>
                    if sem_threshold sc1 \<le> sim \<and> \<not> now - sem_Timestamp e > sem_ttl sc1
                    then (Some (sc1\<lparr>sem_hits := sem_hits sc1 + 1\<rparr>), Some (sem_Response e))
                    else (Some (sc1\<lparr>sem_misses := sem_misses sc1 + 1\<rparr>), None)
                | (None, sim) \<Rightarrow> (Some (sc1\<lparr>sem_misses := sem_misses sc1 + 1\<rparr>), None))))"

definition semantic_Store ::
  "(string \<Rightarrow> real list option) \<Rightarrow> embedding_order \<Rightarrow> time \<Rightarrow> string \<Rightarrow> string \<Rightarrow> string \<Rightarrow> bytes \<Rightarrow> SemanticCache option \<Rightarrow> SemanticCache option" where
  "semantic_Store embedFn it now prompt systemHash model response c =
     (case c of
        None \<Rightarrow> None
      | Some sc \<Rightarrow>
          (case embeddingFor embedFn it prompt sc of
             (sc1, None) \<Rightarrow> Some sc1
           | (sc1, Some v) \<Rightarrow>
               Some (sc1\<lparr>sem_entries :=
                 \<lparr>sem_Embedding = v, sem_Prompt = prompt, sem_SystemHash = systemHash, sem_Response = response, sem_Model = model, sem_Timestamp = now\<rparr>
                 # take (sem_maxEntries sc1 - 1) (sem_entries sc1)\<rparr>)))"

definition semantic_Stats :: "SemanticCache option \<Rightarrow> int \<times> int \<times> nat" where
  "semantic_Stats c = (case c of None \<Rightarrow> (0, 0, 0) | Some sc \<Rightarrow> (sem_hits sc, sem_misses sc, length (sem_entries sc)))"

definition semantic_evictExpired :: "time \<Rightarrow> SemanticCache \<Rightarrow> SemanticCache" where
  "semantic_evictExpired now sc = sc\<lparr>sem_entries := filter (\<lambda>e. \<not> now - sem_Timestamp e > sem_ttl sc) (sem_entries sc)\<rparr>"

section \<open>Keys\<close>

text \<open>Of a message the code reads the role and the content, a string or a list of typed blocks.\<close>

datatype message_content = TextContent string | BlockContent "string list" | OtherContent

record ChatMessage =
  msg_Role :: string
  msg_Content :: message_content

definition chatRequestHasImage :: "ChatMessage list \<Rightarrow> bool" where
  "chatRequestHasImage ms =
     list_ex (\<lambda>m. case msg_Content m of BlockContent ts \<Rightarrow> list_ex (\<lambda>t. t \<in> {''image_url'', ''input_audio'', ''input_audio_delta''}) ts | _ \<Rightarrow> False) ms"

record semanticCacheKey =
  sk_Payload :: string
  sk_SystemHash :: string

definition semanticPromptCap :: nat where
  "semanticPromptCap = 16000"

fun splitTexts :: "ChatMessage list \<Rightarrow> string \<times> string \<Rightarrow> string \<times> string" where
  "splitTexts [] acc = acc"
| "splitTexts (m # ms) (sys, payload) =
     (case msg_Content m of
        TextContent s \<Rightarrow>
          if s = '''' then splitTexts ms (sys, payload)
          else if msg_Role m = ''system'' \<or> msg_Role m = ''developer'' then splitTexts ms (sys @ s @ '' '', payload)
          else splitTexts ms (sys, payload @ s @ '' '')
      | _ \<Rightarrow> splitTexts ms (sys, payload))"

definition semanticCachePrompt :: "(string \<Rightarrow> string) \<Rightarrow> SemanticCache option \<Rightarrow> bool \<Rightarrow> ChatMessage list \<Rightarrow> semanticCacheKey" where
  "semanticCachePrompt sha c tools ms =
     (let skip = \<lparr>sk_Payload = '''', sk_SystemHash = ''''\<rparr>; (sys, payload) = splitTexts ms ('''', '''')
      in if c = None \<or> tools \<or> chatRequestHasImage ms \<or> payload = '''' \<or> semanticPromptCap < length payload then skip
         else \<lparr>sk_Payload = payload, sk_SystemHash = sha sys\<rparr>)"

section \<open>Similarities\<close>

lemma vec_dot_Nil [simp]: "vec_dot [] b = 0" "vec_dot a [] = 0"
  by (simp_all add: vec_dot_def)

lemma vec_dot_Cons [simp]: "vec_dot (x # a) (y # b) = x * y + vec_dot a b"
  by (simp add: vec_dot_def)

lemma vec_dot_self: "0 \<le> vec_dot a a"
  by (induction a) auto

lemma vec_cauchy_schwarz: "length a = length b \<Longrightarrow> (vec_dot a b)\<^sup>2 \<le> vec_dot a a * vec_dot b b"
proof (induction a b rule: list_induct2)
  case (Cons x a y b)
  let ?A = "vec_dot a a" and ?B = "vec_dot b b" and ?d = "vec_dot a b"
  have "2 * (x * y * ?d) \<le> x\<^sup>2 * ?B + y\<^sup>2 * ?A"
  proof -
    have "(x * y * ?d)\<^sup>2 \<le> (x\<^sup>2 * ?B) * (y\<^sup>2 * ?A)"
      using mult_left_mono [OF Cons.IH, of "(x * y)\<^sup>2"] by (simp add: power_mult_distrib algebra_simps)
    then have "\<bar>x * y * ?d\<bar> \<le> sqrt (x\<^sup>2 * ?B) * sqrt (y\<^sup>2 * ?A)"
      by (metis real_sqrt_abs real_sqrt_le_mono real_sqrt_mult)
    moreover have "2 * (sqrt (x\<^sup>2 * ?B) * sqrt (y\<^sup>2 * ?A)) \<le> x\<^sup>2 * ?B + y\<^sup>2 * ?A"
      using sum_squares_bound [of "sqrt (x\<^sup>2 * ?B)" "sqrt (y\<^sup>2 * ?A)"] vec_dot_self [of a] vec_dot_self [of b] by simp
    ultimately show ?thesis by linarith
  qed
  then show ?case using Cons.IH by (simp add: power2_eq_square algebra_simps)
qed simp

lemma cosine_le_1: "\<bar>cosineSimilarity a b\<bar> \<le> 1"
proof (cases "length a \<noteq> length b \<or> vec_dot a a = 0 \<or> vec_dot b b = 0")
  case False
  then have p: "0 < sqrt (vec_dot a a) * sqrt (vec_dot b b)" using vec_dot_self [of a] vec_dot_self [of b] by (simp add: less_le)
  have "\<bar>vec_dot a b\<bar> \<le> sqrt (vec_dot a a) * sqrt (vec_dot b b)"
    using False vec_cauchy_schwarz [of a b] by (metis real_sqrt_abs real_sqrt_le_mono real_sqrt_mult)
  then show ?thesis using False p by (simp add: cosineSimilarity_def divide_le_eq abs_mult vec_dot_self)
qed (auto simp: cosineSimilarity_def)

lemma cosine_self: "vec_dot a a \<noteq> 0 \<Longrightarrow> cosineSimilarity a a = 1"
  using vec_dot_self [of a] by (simp add: cosineSimilarity_def)

section \<open>Hits are justified and repeats are hits\<close>

text \<open>The cached embeddings are those of the embedding function.\<close>

definition embeds_ok :: "(string \<Rightarrow> real list option) \<Rightarrow> SemanticCache \<Rightarrow> bool" where
  "embeds_ok embedFn sc \<longleftrightarrow> (\<forall>(p, v) \<in> set (sem_embedCache sc). embedFn p = Some v)"

lemma embeddingFor_ok:
  assumes "embeddingFor embedFn it prompt sc = (sc1, res)" and "embeds_ok embedFn sc"
  shows "embeds_ok embedFn sc1" "res = embedFn prompt" "sem_entries sc1 = sem_entries sc" "sem_threshold sc1 = sem_threshold sc"
    "sem_ttl sc1 = sem_ttl sc" "sem_maxEntries sc1 = sem_maxEntries sc"
proof -
  have u: "(p, v) \<in> set (AList.update prompt x c) \<Longrightarrow> (p, v) = (prompt, x) \<or> (p, v) \<in> set c" for p v x and c :: "(string \<times> real list) list"
    by (induction c) (auto split: if_splits)
  have d: "(p, v) \<in> set (drop n (iterate it c)) \<Longrightarrow> (p, v) \<in> set c" for p v n and c :: "(string \<times> real list) list"
    using in_set_dropD iterate_set by metis
  show "embeds_ok embedFn sc1"
    using assms by (auto simp: embeddingFor_def embeds_ok_def Let_def split: option.splits if_splits dest!: u d)
  show "res = embedFn prompt"
  proof (cases "map_of (sem_embedCache sc) prompt")
    case None
    then show ?thesis using assms(1) by (auto simp: embeddingFor_def Let_def split: option.splits)
  next
    case (Some v)
    then have "embedFn prompt = Some v" using assms(2) by (auto simp: embeds_ok_def dest!: map_of_SomeD)
    then show ?thesis using assms(1) Some by (simp add: embeddingFor_def)
  qed
qed (use assms(1) in \<open>auto simp: embeddingFor_def Let_def split: option.splits\<close>)

lemma bestMatch_justified:
  assumes "bestMatch v h m es (b, s) = (Some e, sim)"
    and "\<And>x. b = Some x \<Longrightarrow> x \<in> set fs \<and> sem_Model x = m \<and> sem_SystemHash x = h \<and> s = cosineSimilarity v (sem_Embedding x)" and "set es \<subseteq> set fs"
  shows "e \<in> set fs \<and> sem_Model e = m \<and> sem_SystemHash e = h \<and> sim = cosineSimilarity v (sem_Embedding e)"
  using assms
proof (induction es arbitrary: b s)
  case (Cons x es)
  then show ?case by (cases "sem_Model x \<noteq> m \<or> sem_SystemHash x \<noteq> h"; cases "s < cosineSimilarity v (sem_Embedding x)") auto
qed auto

lemma bestMatch_full: "1 \<le> snd best \<Longrightarrow> bestMatch v h m es best = best"
proof (induction es)
  case (Cons e es)
  have "cosineSimilarity v (sem_Embedding e) \<le> 1" using cosine_le_1 [of v "sem_Embedding e"] by linarith
  then show ?case using Cons by auto
qed simp

text \<open>
  A hit of the semantic cache is justified: the answer was stored for the same model and under the same system text, not longer ago than the lifetime, for a prompt
  whose embedding is as similar to that of the request as the threshold demands.
\<close>
theorem semantic_hit_justified:
  assumes "semantic_Search embedFn it now prompt h m c = (c', Some r)" and "\<forall>sc. c = Some sc \<longrightarrow> embeds_ok embedFn sc"
  shows "\<exists>sc e v. c = Some sc \<and> e \<in> set (sem_entries sc) \<and> sem_Response e = r \<and> sem_Model e = m \<and> sem_SystemHash e = h \<and>
    now - sem_Timestamp e \<le> sem_ttl sc \<and> embedFn prompt = Some v \<and> sem_threshold sc \<le> cosineSimilarity v (sem_Embedding e)"
proof -
  obtain sc where c: "c = Some sc" using assms(1) by (cases c) (auto simp: semantic_Search_def)
  obtain sc1 res where e: "embeddingFor embedFn it prompt sc = (sc1, res)" by fastforce
  note k = embeddingFor_ok [OF e] assms(2) [rule_format, OF c]
  obtain v where v: "res = Some v" using assms(1) c e by (auto simp: semantic_Search_def split: option.splits)
  obtain b sim where b: "bestMatch v h m (sem_entries sc1) (None, 0) = (b, sim)" by fastforce
  obtain x where x: "b = Some x" "sem_threshold sc1 \<le> sim" "now - sem_Timestamp x \<le> sem_ttl sc1" "r = sem_Response x"
    using assms(1) c e v b by (auto simp: semantic_Search_def split: option.splits if_splits)
  have "x \<in> set (sem_entries sc1) \<and> sem_Model x = m \<and> sem_SystemHash x = h \<and> sim = cosineSimilarity v (sem_Embedding x)"
    using bestMatch_justified [of v h m "sem_entries sc1" None 0 x sim "sem_entries sc1"] b x(1) by simp
  then show ?thesis using c v x k by auto
qed

text \<open>
  A repeated prompt is a hit: a stored answer is returned for the same prompt, system text and model within the lifetime, whatever else the cache holds, because no
  vector is more similar to the prompt than itself.  The embedding of the prompt is not the zero vector and the threshold is at most one.
\<close>
theorem semantic_repeat_hits:
  assumes "embeds_ok embedFn sc" and "embedFn prompt = Some v" "vec_dot v v \<noteq> 0" and "sem_threshold sc \<le> 1" "now' - now \<le> sem_ttl sc"
  shows "snd (semantic_Search embedFn it' now' prompt h m (semantic_Store embedFn it now prompt h m r (Some sc))) = Some r"
proof -
  obtain sc1 res where e: "embeddingFor embedFn it prompt sc = (sc1, res)" by fastforce
  note k = embeddingFor_ok [OF e assms(1)]
  let ?e = "\<lparr>sem_Embedding = v, sem_Prompt = prompt, sem_SystemHash = h, sem_Response = r, sem_Model = m, sem_Timestamp = now\<rparr>"
  let ?sc = "sc1\<lparr>sem_entries := ?e # take (sem_maxEntries sc1 - 1) (sem_entries sc1)\<rparr>"
  have s: "semantic_Store embedFn it now prompt h m r (Some sc) = Some ?sc" using e k(2) assms(2) by (simp add: semantic_Store_def)
  obtain sc2 res2 where e2: "embeddingFor embedFn it' prompt ?sc = (sc2, res2)" by fastforce
  have "embeds_ok embedFn ?sc" using k(1) by (simp add: embeds_ok_def)
  note k2 = embeddingFor_ok [OF e2 this]
  have "bestMatch v h m (sem_entries ?sc) (None, 0) = (Some ?e, 1)" using cosine_self [OF assms(3)] by (simp add: bestMatch_full)
  then show ?thesis unfolding s using e2 k2 k assms(2,4,5) by (simp add: semantic_Search_def)
qed

text \<open>A concrete cache: one dimension, and every prompt has the same embedding.\<close>

definition unit_cache :: SemanticCache where
  "unit_cache = \<lparr>sem_entries = [], sem_threshold = 95 / 100, sem_maxEntries = 10, sem_ttl = 100, sem_hits = 0, sem_misses = 0, sem_embedCache = []\<rparr>"

theorem semantic_repeat_hits_witness:
  "snd (semantic_Search (\<lambda>p. Some [1]) id 20 ''hello'' ''h'' ''m'' (semantic_Store (\<lambda>p. Some [1]) id 10 ''hello'' ''h'' ''m'' ''answer'' (Some unit_cache))) =
   Some ''answer''"
  using semantic_repeat_hits [of "\<lambda>p. Some [1]" unit_cache "''hello''" "[1]" 20 10 id "''h''" "''m''" id "''answer''"]
  by (simp add: unit_cache_def embeds_ok_def)

end
