(* ===== verification/Chat_Fetch.thy ===== *)
theory Chat_Fetch
  imports Engine_Routing Cloud_Strategy Cache_Backends Semantic_Cache Cost_Tracker Budgets
begin

text \<open>
  The answer to a chat request that does not stream (\<^verbatim>\<open>handleNonStreamChat\<close> in \<^verbatim>\<open>server/chat_handlers.go\<close>): the exact and the semantic cache, the
  coalesced fetch, retries (\<^verbatim>\<open>middleware/retry.go\<close>), the overflow to the cloud with its state (\<^verbatim>\<open>server/overflow.go\<close>), outcome, billing and the cache
  store.  A provider is a function of its name, the model and the number of calls made so far; \<open>ch_calls\<close> lists the providers called.  The JSON encoder, the
  key digest and the embedding are parameters.  Request log, metrics and events are left out.
\<close>

section \<open>Retries\<close>

datatype chat_error = ErrLocalSlotFull | ContextDone | ChatError string

fun err_text :: "chat_error \<Rightarrow> string" where
  "err_text ErrLocalSlotFull = ''local inference slot full: max_concurrent reached, divert to cloud''"
| "err_text ContextDone = ''context canceled''"
| "err_text (ChatError s) = s"

record RetryConfig =
  rt_MaxRetries :: int
  rt_InitialBackoff :: duration
  rt_MaxBackoff :: duration
  rt_RetryableStatusCodes :: "int list"

definition statusCodeStr :: "int \<Rightarrow> string" where
  "statusCodeStr code =
     (if code = 429 then ''429'' else if code = 500 then ''500'' else if code = 502 then ''502'' else if code = 503 then ''503'' else '''')"

definition isRetryableError :: "chat_error \<Rightarrow> int list \<Rightarrow> bool" where
  "isRetryableError err codes =
     (let cs = (if codes = [] then [429, 500, 502, 503] else codes); e = err_text err
      in list_ex (\<lambda>code. Contains e (statusCodeStr code)) cs \<or>
         list_ex (Contains e) [''connection refused'', ''timeout'', ''deadline exceeded'', ''EOF'', ''connection reset by peer'', ''use of closed network connection''])"

definition calculateBackoff :: "(duration \<Rightarrow> duration) \<Rightarrow> nat \<Rightarrow> duration \<Rightarrow> duration \<Rightarrow> duration" where
  "calculateBackoff jitter tries initial mx =
     (let ini = (if initial \<le> 0 then second else initial); m = (if mx \<le> 0 then 30 * second else mx);
          backoff = (if ini * 2 ^ tries > m then m else ini * 2 ^ tries);
          jittered = jitter backoff
      in if jittered > m then m else jittered)"

text \<open>One call with \<open>n\<close> retries left; \<open>cancel\<close> says whether the request ends during the wait after an attempt.\<close>

primrec retryLoop ::
  "('s \<Rightarrow> 's \<times> (chat_error + 'r)) \<Rightarrow> RetryConfig \<Rightarrow> (nat \<Rightarrow> bool) \<Rightarrow> nat \<Rightarrow> nat \<Rightarrow> 's \<Rightarrow> 's \<times> (chat_error + 'r)" where
  "retryLoop fn cfg cancel 0 tries s = fn s"
| "retryLoop fn cfg cancel (Suc n) tries s =
     (case fn s of
        (s1, Inr r) \<Rightarrow> (s1, Inr r)
      | (s1, Inl e) \<Rightarrow>
          if \<not> isRetryableError e (rt_RetryableStatusCodes cfg) then (s1, Inl e)
          else if cancel tries then (s1, Inl ContextDone)
          else retryLoop fn cfg cancel n (Suc tries) s1)"

definition RetryChat :: "RetryConfig \<Rightarrow> (nat \<Rightarrow> bool) \<Rightarrow> ('s \<Rightarrow> 's \<times> (chat_error + 'r)) \<Rightarrow> 's \<Rightarrow> 's \<times> (chat_error + 'r)" where
  "RetryChat cfg cancel fn s = (if rt_MaxRetries cfg \<le> 0 then fn s else retryLoop fn cfg cancel (nat (rt_MaxRetries cfg)) 0 s)"

definition RetryStreamMessages :: "RetryConfig \<Rightarrow> (nat \<Rightarrow> bool) \<Rightarrow> ('s \<Rightarrow> 's \<times> (chat_error + 'r)) \<Rightarrow> 's \<Rightarrow> 's \<times> (chat_error + 'r)" where
  "RetryStreamMessages cfg cancel fn s = (if rt_MaxRetries cfg \<le> 0 then fn s else retryLoop fn cfg cancel (nat (rt_MaxRetries cfg)) 0 s)"

section \<open>Overflow state\<close>

record overflowState =
  ov_until :: time
  ov_day :: string
  ov_dayCost :: float64

record OverflowConfig =
  oc_Enabled :: bool
  oc_Cooldown :: duration
  oc_CostCeiling :: float64

definition cooldownActive :: "time \<Rightarrow> overflowState \<Rightarrow> bool" where
  "cooldownActive now o1 \<longleftrightarrow> now < ov_until o1"

definition clearCooldown :: "overflowState \<Rightarrow> overflowState" where
  "clearCooldown o1 = o1\<lparr>ov_until := zero_time\<rparr>"

definition armCooldown :: "time \<Rightarrow> duration \<Rightarrow> overflowState \<Rightarrow> overflowState" where
  "armCooldown now cooldown o1 = (if cooldown \<le> 0 then o1 else o1\<lparr>ov_until := now + cooldown\<rparr>)"

definition ceilingBlocked :: "(time \<Rightarrow> string) \<Rightarrow> time \<Rightarrow> float64 \<Rightarrow> overflowState \<Rightarrow> bool" where
  "ceilingBlocked day now costCeiling o1 \<longleftrightarrow> 0 < costCeiling \<and> ov_day o1 = day now \<and> costCeiling \<le> ov_dayCost o1"

definition chargeOverflow :: "(time \<Rightarrow> string) \<Rightarrow> time \<Rightarrow> float64 \<Rightarrow> overflowState \<Rightarrow> overflowState" where
  "chargeOverflow day now costUSD o1 =
     (let o2 = (if ov_day o1 \<noteq> day now then o1\<lparr>ov_day := day now, ov_dayCost := 0\<rparr> else o1) in o2\<lparr>ov_dayCost := ov_dayCost o2 + costUSD\<rparr>)"

section \<open>Requests, answers and the server\<close>

record ChatRequest =
  crq_Model :: string
  crq_Messages :: "ChatMessage list"
  crq_Tools :: bool

text \<open>The message of a choice: a JSON object with tool calls and content, a string map with content, or something else.\<close>

datatype choice_message = ObjectMessage bool "string option" | StringMapMessage "string option" | OtherMessage

record ChatResponse =
  crp_Choices :: "choice_message list"
  crp_CompletionTokens :: int

definition cacheWorthyChatResponse :: "ChatResponse \<Rightarrow> bool" where
  "cacheWorthyChatResponse resp =
     (case crp_Choices resp of
        [] \<Rightarrow> False
      | ObjectMessage toolCalls content # _ \<Rightarrow> toolCalls \<or> content \<noteq> Some ''''
      | StringMapMessage content # _ \<Rightarrow> content \<noteq> Some ''''
      | OtherMessage # _ \<Rightarrow> True)"

record chat_config =
  fc_Retry :: RetryConfig
  fc_Overflow :: OverflowConfig
  fc_CloudDefault :: string
  fc_FallbackEnabled :: bool
  fc_ModelMapping :: "(string \<rightharpoonup> string) option"
  fc_VlmBackend :: string
  fc_VlmModel :: string
  fc_MarkupEnabled :: bool
  fc_GlobalMarkup :: float64
  fc_Pool :: "(string \<times> string) list"

record 'c ChatServer =
  ch_engine :: "'c Engine"
  ch_cache :: "Cache option"
  ch_semantic :: "SemanticCache option"
  ch_coalescing :: bool
  ch_overflow :: overflowState
  ch_tracker :: "Tracker option"
  ch_budgets :: "BudgetStore option"
  ch_latency :: "LatencyTracker option"
  ch_strategy :: "CloudStrategy option"
  ch_calls :: "string list"

text \<open>What one request sees of the outside: instants at its start, after the coalesced fetch, after a failed call and at its end.\<close>

record 'c chat_env =
  ce_start :: time
  ce_fetched :: time
  ce_failed :: time
  ce_end :: time
  ce_day :: "time \<Rightarrow> string"
  ce_chat :: "string \<Rightarrow> string \<Rightarrow> nat \<Rightarrow> chat_error + ChatResponse"
  ce_cancel :: "nat \<Rightarrow> bool"
  ce_marshal :: "ChatResponse \<Rightarrow> bytes option"
  ce_key :: "ChatRequest \<Rightarrow> string \<Rightarrow> string"
  ce_sha :: "string \<Rightarrow> string"
  ce_embed :: "string \<Rightarrow> real list option"
  ce_embedIt :: embedding_order
  ce_noStore :: bool
  ce_prices :: price_order
  ce_custom :: "CustomPricingManager option"
  ce_rnd :: "int \<Rightarrow> int"
  ce_selector :: "'c ClusterSelector"
  ce_ctx :: RequestCtx

datatype chat_answer = CacheHit bytes | SemanticHit bytes | Answered string ChatResponse | CeilingReached | ChatFailed chat_error | ChatPanics

section \<open>Cloud providers\<close>

definition applyCloudModelMapping :: "chat_config \<Rightarrow> string \<Rightarrow> string" where
  "applyCloudModelMapping cfg model =
     (if model = '''' \<or> \<not> fc_FallbackEnabled cfg then model
      else (case fc_ModelMapping cfg of
              None \<Rightarrow> model
            | Some f \<Rightarrow> (case f model of None \<Rightarrow> model | Some mapped \<Rightarrow> if TrimSpace mapped = '''' then model else mapped)))"

text \<open>Refused, no change for a text request, or the cloud vision model with its backend.\<close>

definition multimodalDivertDecision :: "chat_config \<Rightarrow> ChatRequest \<Rightarrow> (ChatRequest \<times> string option) option" where
  "multimodalDivertDecision cfg req =
     (if \<not> chatRequestHasImage (crq_Messages req) then Some (req, None)
      else if TrimSpace (fc_VlmBackend cfg) = '''' \<or> TrimSpace (fc_VlmModel cfg) = '''' then None
      else Some (req\<lparr>crq_Model := TrimSpace (fc_VlmModel cfg)\<rparr>, Some (TrimSpace (fc_VlmBackend cfg))))"

datatype cloud_choice = CloudProvider string | NoCloud | CloudPanic

definition cloudTarget :: "chat_config \<Rightarrow> string option \<Rightarrow> string" where
  "cloudTarget cfg target =
     (let t = (case target of Some x \<Rightarrow> x | None \<Rightarrow> '''');
          b = (if t = '''' then fc_CloudDefault cfg else t)
      in if b = '''' then ''openai'' else b)"

text \<open>The strategy reads the latency tracker of the server.\<close>

definition strategyChoice :: "'c chat_env \<Rightarrow> chat_config \<Rightarrow> string \<Rightarrow> 'c ChatServer \<Rightarrow> 'c ChatServer \<times> string option" where
  "strategyChoice env cfg b s =
     (let available = map fst (filter (\<lambda>(n, name). name \<noteq> ''fusion-mlx'') (fc_Pool cfg))
      in case ch_strategy s of
           None \<Rightarrow> (s, Some b)
         | Some st \<Rightarrow>
             if b \<noteq> fc_CloudDefault cfg \<or> length available \<le> 1 then (s, Some b)
             else (case cs_Select (ce_failed env) (ce_rnd env) available (st\<lparr>cs_latencyTracker := ch_latency s\<rparr>) of
                     (st1, sel) \<Rightarrow>
                       (s\<lparr>ch_strategy := Some st1, ch_latency := cs_latencyTracker st1\<rparr>,
                        map_option (\<lambda>x. if x = '''' then b else x) sel)))"

definition resolveCloudProvider ::
  "'c chat_env \<Rightarrow> chat_config \<Rightarrow> string option \<Rightarrow> ChatRequest \<Rightarrow> 'c ChatServer \<Rightarrow> 'c ChatServer \<times> ChatRequest \<times> cloud_choice" where
  "resolveCloudProvider env cfg target req s =
     (case strategyChoice env cfg (cloudTarget cfg target) s of
        (s1, None) \<Rightarrow> (s1, req, CloudPanic)
      | (s1, Some b) \<Rightarrow>
          (s1, req\<lparr>crq_Model := applyCloudModelMapping cfg (crq_Model req)\<rparr>,
           case map_of (fc_Pool cfg) b of Some name \<Rightarrow> CloudProvider name | None \<Rightarrow> NoCloud))"

section \<open>The handler\<close>

definition providerChat :: "'c chat_env \<Rightarrow> string \<Rightarrow> string \<Rightarrow> 'c ChatServer \<Rightarrow> 'c ChatServer \<times> (chat_error + ChatResponse)" where
  "providerChat env name model s = (s\<lparr>ch_calls := ch_calls s @ [name]\<rparr>, ce_chat env name model (length (ch_calls s)))"

definition chatFn :: "'c chat_env \<Rightarrow> chat_config \<Rightarrow> RouteDecision \<Rightarrow> string \<Rightarrow> ChatRequest \<Rightarrow> 'c ChatServer \<Rightarrow> 'c ChatServer \<times> (chat_error + ChatResponse)" where
  "chatFn env cfg d name req s =
     (if rd_Backend d = LocalBackend then providerChat env name (crq_Model req) s
      else RetryChat (fc_Retry cfg) (ce_cancel env) (providerChat env name (crq_Model req)) s)"

definition storeExact :: "'c chat_env \<Rightarrow> time \<Rightarrow> string \<Rightarrow> ChatResponse \<Rightarrow> 'c ChatServer \<Rightarrow> 'c ChatServer" where
  "storeExact env now key r s =
     (case ce_marshal env r of None \<Rightarrow> s | Some b \<Rightarrow> if key = '''' then s else s\<lparr>ch_cache := ocache_Set now key b (ch_cache s)\<rparr>)"

definition storeSemantic :: "'c chat_env \<Rightarrow> time \<Rightarrow> semanticCacheKey \<Rightarrow> string \<Rightarrow> ChatResponse \<Rightarrow> 'c ChatServer \<Rightarrow> 'c ChatServer" where
  "storeSemantic env now sk model r s =
     (case ce_marshal env r of
        None \<Rightarrow> s
      | Some b \<Rightarrow>
          if sk_Payload sk = '''' then s
          else s\<lparr>ch_semantic := semantic_Store (ce_embed env) (ce_embedIt env) now (sk_Payload sk) (sk_SystemHash sk) model b (ch_semantic s)\<rparr>)"

text \<open>The function the leader of a coalesced fetch runs: its response is only published, never returned.\<close>

definition leaderFetch ::
  "'c chat_env \<Rightarrow> chat_config \<Rightarrow> RouteDecision \<Rightarrow> string \<Rightarrow> ChatRequest \<Rightarrow> string \<Rightarrow> semanticCacheKey \<Rightarrow> 'c ChatServer \<Rightarrow> 'c ChatServer" where
  "leaderFetch env cfg d name req key sk s =
     (case chatFn env cfg d name req s of
        (s1, Inl e) \<Rightarrow> s1
      | (s1, Inr r) \<Rightarrow>
          if \<not> cacheWorthyChatResponse r then s1
          else storeSemantic env (ce_fetched env) sk (crq_Model req) r (storeExact env (ce_fetched env) key r s1))"

definition billRequest :: "'c chat_env \<Rightarrow> chat_config \<Rightarrow> string \<Rightarrow> string \<Rightarrow> int \<Rightarrow> int \<Rightarrow> 'c ChatServer \<Rightarrow> 'c ChatServer" where
  "billRequest env cfg backend model prompt completion s =
     (case ch_tracker s of
        None \<Rightarrow> s
      | Some t \<Rightarrow>
          (case RecordAndReturn (ce_prices env) (ce_custom env) (ce_end env)
                  \<lparr>us_Key = chargedKey (ce_ctx env), us_Backend = backend, us_Model = model, us_Prompt = prompt, us_Completion = completion\<rparr>
                  (SyncConfigMarkup (fc_MarkupEnabled cfg) (fc_GlobalMarkup cfg) t) of
             (t1, billed) \<Rightarrow>
               s\<lparr>ch_tracker := Some t1, ch_budgets := recordAndCharge (ce_day env) (ce_end env) billed (ce_ctx env) (ch_budgets s)\<rparr>))"

definition noteLatency :: "'c chat_env \<Rightarrow> string \<Rightarrow> 'c ChatServer \<Rightarrow> 'c ChatServer" where
  "noteLatency env name s = s\<lparr>ch_latency := map_option (lt_Record name (ce_end env - ce_start env)) (ch_latency s)\<rparr>"

definition noteOutcome :: "'c chat_env \<Rightarrow> time \<Rightarrow> RouteDecision \<Rightarrow> bool \<Rightarrow> 'c ChatServer \<Rightarrow> 'c ChatServer" where
  "noteOutcome env now d success s = s\<lparr>ch_engine := recordOutcome now (ce_selector env) (rd_Backend d) (rd_NodeID d) success (ch_engine s)\<rparr>"

text \<open>The divert of \<^verbatim>\<open>handleChatCompletions\<close> while a cool-down lasts, before the backend access check.\<close>

definition cooldownDivert :: "chat_config \<Rightarrow> time \<Rightarrow> ChatRequest \<Rightarrow> RouteDecision \<Rightarrow> 'c ChatServer \<Rightarrow> ChatRequest \<times> RouteDecision" where
  "cooldownDivert cfg now req d s =
     (let ov = fc_Overflow cfg in
      if rd_Backend d \<notin> {LocalBackend, ClusterBackend} \<or> \<not> (oc_Enabled ov \<and> 0 < oc_Cooldown ov \<and> cooldownActive now (ch_overflow s)) then (req, d)
      else (case multimodalDivertDecision cfg req of
              None \<Rightarrow> (req, d)
            | Some (req1, Some vlm) \<Rightarrow> (req1, (decision CloudBackend ''multimodal_cloud_vlm_divert'')\<lparr>rd_CloudTarget := vlm\<rparr>)
            | Some (req1, None) \<Rightarrow> (req1, (decision CloudBackend ''overflow_cooldown'')\<lparr>rd_CloudTarget := fc_CloudDefault cfg\<rparr>)))"

text \<open>The divert of a stream whose provider has no free local slot: refused for an image without a cloud vision model, else the cloud provider the stream is restarted on.\<close>

definition slotFullStream ::
  "'c chat_env \<Rightarrow> chat_config \<Rightarrow> ChatRequest \<Rightarrow> 'c ChatServer \<Rightarrow> 'c ChatServer \<times> (ChatRequest \<times> cloud_choice) option" where
  "slotFullStream env cfg req s =
     (case multimodalDivertDecision cfg req of
        None \<Rightarrow> (s, None)
      | Some (req1, target) \<Rightarrow> (case resolveCloudProvider env cfg target req1 s of (s1, req2, choice) \<Rightarrow> (s1, Some (req2, choice))))"

text \<open>The switch to the cloud after a failed call of the local backend or of a cluster node.\<close>

definition overflowAnswer ::
  "'c chat_env \<Rightarrow> chat_config \<Rightarrow> string \<Rightarrow> ChatRequest \<Rightarrow> string \<Rightarrow> int \<Rightarrow> ChatResponse \<Rightarrow> 'c ChatServer \<Rightarrow> 'c ChatServer" where
  "overflowAnswer env cfg name req key inputTokens r s =
     (let s1 = s\<lparr>ch_engine := RecordSuccess (ce_end env) ''cloud'' (ch_engine s)\<rparr>;
          costDelta = CalculateCost (ce_prices env) (ce_custom env) (crq_Model req) inputTokens (crp_CompletionTokens r);
          s2 = s1\<lparr>ch_overflow := armCooldown (ce_failed env) (oc_Cooldown (fc_Overflow cfg)) (chargeOverflow (ce_day env) (ce_failed env) costDelta (ch_overflow s1))\<rparr>;
          s3 = billRequest env cfg ''cloud'' (crq_Model req) inputTokens (crp_CompletionTokens r) (noteLatency env name s2)
      in if cacheWorthyChatResponse r then storeExact env (ce_end env) key r s3 else s3)"

definition cloudOverflow ::
  "'c chat_env \<Rightarrow> chat_config \<Rightarrow> ChatRequest \<Rightarrow> string \<Rightarrow> int \<Rightarrow> chat_error \<Rightarrow> 'c ChatServer \<Rightarrow> 'c ChatServer \<times> chat_answer" where
  "cloudOverflow env cfg req key inputTokens err s =
     (if \<not> oc_Enabled (fc_Overflow cfg) then (s, ChatFailed err)
      else if ceilingBlocked (ce_day env) (ce_failed env) (oc_CostCeiling (fc_Overflow cfg)) (ch_overflow s) then (s, CeilingReached)
      else (case multimodalDivertDecision cfg req of
              None \<Rightarrow> (s, ChatFailed err)
            | Some (req1, target) \<Rightarrow>
                (case resolveCloudProvider env cfg target req1 s of
                   (s1, req2, CloudPanic) \<Rightarrow> (s1, ChatPanics)
                 | (s1, req2, NoCloud) \<Rightarrow> (s1, ChatFailed err)
                 | (s1, req2, CloudProvider name) \<Rightarrow>
                     (case providerChat env name (crq_Model req2) s1 of
                        (s2, Inl e) \<Rightarrow> (s2, ChatFailed e)
                      | (s2, Inr r) \<Rightarrow> (overflowAnswer env cfg name req2 key inputTokens r s2, Answered name r)))))"

text \<open>The direct fetch, with what follows a failure and a success.\<close>

definition directFetch ::
  "'c chat_env \<Rightarrow> chat_config \<Rightarrow> RouteDecision \<Rightarrow> string \<Rightarrow> ChatRequest \<Rightarrow> string \<Rightarrow> semanticCacheKey \<Rightarrow> int \<Rightarrow> 'c ChatServer \<Rightarrow> 'c ChatServer \<times> chat_answer" where
  "directFetch env cfg d name req key sk inputTokens s =
     (case chatFn env cfg d name req s of
        (s1, Inl e) \<Rightarrow>
          (let slotFull = (e = ErrLocalSlotFull \<and> rd_Backend d = LocalBackend);
               s2 = (if slotFull then s1 else noteOutcome env (ce_failed env) d False s1)
           in if rd_Backend d = LocalBackend \<or> rd_Backend d = ClusterBackend then cloudOverflow env cfg req key inputTokens e s2
              else (s2, ChatFailed e))
      | (s1, Inr r) \<Rightarrow>
          (let s2 = billRequest env cfg (Backend_string (rd_Backend d)) (crq_Model req) inputTokens (crp_CompletionTokens r)
                      (noteLatency env name (noteOutcome env (ce_end env) d True s1));
               s3 = (if cacheWorthyChatResponse r
                     then storeSemantic env (ce_end env) sk (crq_Model req) r (storeExact env (ce_end env) key r s2) else s2)
           in (s3, Answered name r)))"

text \<open>From the return of the coalescer on: look into the cache again, else fetch.\<close>

definition afterCoalesce ::
  "'c chat_env \<Rightarrow> chat_config \<Rightarrow> RouteDecision \<Rightarrow> string \<Rightarrow> ChatRequest \<Rightarrow> string \<Rightarrow> semanticCacheKey \<Rightarrow> int \<Rightarrow> 'c ChatServer \<Rightarrow> 'c ChatServer \<times> chat_answer" where
  "afterCoalesce env cfg d name req key sk inputTokens s =
     (case ocache_Get (ce_fetched env) key (ch_cache s) of
        (c, Some b) \<Rightarrow> (s\<lparr>ch_cache := c\<rparr>, CacheHit b)
      | (c, None) \<Rightarrow> directFetch env cfg d name req key sk inputTokens (s\<lparr>ch_cache := c\<rparr>))"

definition cacheKeyOf :: "'c chat_env \<Rightarrow> ChatRequest \<Rightarrow> string \<Rightarrow> 'c ChatServer \<Rightarrow> string" where
  "cacheKeyOf env req tenant s = (if ch_cache s = None then '''' else ce_key env req tenant)"

definition semanticKeyOf :: "'c chat_env \<Rightarrow> ChatRequest \<Rightarrow> 'c ChatServer \<Rightarrow> semanticCacheKey" where
  "semanticKeyOf env req s =
     (if ce_noStore env then \<lparr>sk_Payload = '''', sk_SystemHash = ''''\<rparr>
      else semanticCachePrompt (ce_sha env) (ch_semantic s) (crq_Tools req) (crq_Messages req))"

text \<open>The two lookups before the fetch.\<close>

definition lookupCaches :: "'c chat_env \<Rightarrow> ChatRequest \<Rightarrow> string \<Rightarrow> 'c ChatServer \<Rightarrow> 'c ChatServer \<times> chat_answer option" where
  "lookupCaches env req tenant s =
     (case ocache_Get (ce_start env) (cacheKeyOf env req tenant s) (ch_cache s) of
        (c, Some b) \<Rightarrow> (s\<lparr>ch_cache := c\<rparr>, Some (CacheHit b))
      | (c, None) \<Rightarrow>
          (let s1 = s\<lparr>ch_cache := c\<rparr>; sk = semanticKeyOf env req s
           in if sk_Payload sk = '''' then (s1, None)
              else (case semantic_Search (ce_embed env) (ce_embedIt env) (ce_start env) (sk_Payload sk) (sk_SystemHash sk) (crq_Model req) (ch_semantic s1) of
                      (m, Some b) \<Rightarrow> (s1\<lparr>ch_semantic := m\<rparr>, Some (SemanticHit b))
                    | (m, None) \<Rightarrow> (s1\<lparr>ch_semantic := m\<rparr>, None))))"

definition handleNonStreamChat ::
  "'c chat_env \<Rightarrow> chat_config \<Rightarrow> RouteDecision \<Rightarrow> string \<Rightarrow> ChatRequest \<Rightarrow> string \<Rightarrow> int \<Rightarrow> 'c ChatServer \<Rightarrow> 'c ChatServer \<times> chat_answer" where
  "handleNonStreamChat env cfg d name req tenant inputTokens s =
     (let key = cacheKeyOf env req tenant s; sk = semanticKeyOf env req s
      in case lookupCaches env req tenant s of
           (s1, Some answer) \<Rightarrow> (s1, answer)
         | (s1, None) \<Rightarrow>
             if ch_coalescing s1 \<and> key \<noteq> '''' then afterCoalesce env cfg d name req key sk inputTokens (leaderFetch env cfg d name req key sk s1)
             else directFetch env cfg d name req key sk inputTokens s1)"

section \<open>The exact cache around a fetch\<close>

definition cache_fits :: "bytes \<Rightarrow> Cache \<Rightarrow> bool" where
  "cache_fits b c \<longleftrightarrow> cache_inv c \<and> 0 < c_maxEntries c \<and> (0 < c_maxBytes c \<longrightarrow> int (length b) \<le> c_maxBytes c) \<and> 0 \<le> c_ttl c"

lemma cache_Set_Get:
  assumes "cache_fits b c" and "now' \<le> now + c_ttl c"
  shows "snd (cache_Get now' k (cache_Set now k b c)) = Some b"
proof -
  have sim: "cache_sim (cache_Set now k b c) (lru_Set now k b (lru_of c))"
    using assms(1) by (intro cache_Set_sim lru_of_sim) (simp add: cache_fits_def)
  have "map_of (lr_entries (lru_Set now k b (lru_of c))) k = Some (b, now + c_ttl c)"
    using assms(1) by (auto simp: lru_Set_def lru_of_def cache_fits_def byteBudget_def)
  then show ?thesis using cache_Get_sim(2) [OF sim, of now' k] assms(2) by (simp add: lru_Get_def)
qed

lemma ocache_Get_fits:
  assumes "ocache_Get now k (Some c) = (oc, res)" and "cache_fits b c"
  obtains c' where "oc = Some c'" "cache_fits b c'"
proof
  have sim: "cache_sim (fst (cache_Get now k c)) (fst (lru_Get now k (lru_of c)))"
    using assms(2) by (intro cache_Get_sim(1) lru_of_sim) (simp add: cache_fits_def)
  have l: "lr_maxEntries (fst (lru_Get now k l)) = lr_maxEntries l" "lr_ttl (fst (lru_Get now k l)) = lr_ttl l"
    "lr_maxBytes (fst (lru_Get now k l)) = lr_maxBytes l" for l
    by (auto simp: lru_Get_def split: option.splits)
  show "oc = Some (fst (cache_Get now k c))" using assms(1) by (simp add: ocache_Get_def case_prod_beta)
  show "cache_fits b (fst (cache_Get now k c))" using sim assms(2) by (simp add: cache_fits_def cache_sim_def l lru_of_def)
qed

lemma ocache_miss_absent:
  assumes "ocache_ok oc" and "ocache_Get now k oc = (oc', None)"
  shows "ocache_absent k oc'"
proof (cases oc)
  case (Some c)
  have inv: "cache_inv c" using assms(1) Some by (simp add: ocache_ok_def)
  note sim = cache_Get_sim [OF lru_of_sim [OF inv], of now k]
  have oc': "oc' = Some (fst (cache_Get now k c))" and "snd (cache_Get now k c) = None"
    using assms(2) Some by (simp_all add: ocache_Get_def case_prod_beta)
  then have "snd (lru_Get now k (lru_of c)) = None" using sim(2) by simp
  then have "k \<notin> fst ` set (lr_entries (fst (lru_Get now k (lru_of c))))"
    by (auto simp: lru_Get_def without_def map_of_eq_None_iff split: option.splits if_splits dest!: map_of_SomeD intro: rev_image_eqI)
  then show ?thesis using sim(1) oc' by (simp add: ocache_absent_def cache_sim_def)
qed (use assms(2) in \<open>simp add: ocache_Get_def ocache_absent_def\<close>)

section \<open>Calls\<close>

lemma retryLoop_calls:
  "retryLoop (providerChat env name model) cfg cancel n k s = (s1, res) \<Longrightarrow>
   \<exists>m \<le> n. s1 = s\<lparr>ch_calls := ch_calls s @ replicate (Suc m) name\<rparr>"
proof (induction n arbitrary: k s)
  case 0
  then show ?case by (auto simp: providerChat_def)
next
  case (Suc n)
  let ?s = "s\<lparr>ch_calls := ch_calls s @ [name]\<rparr>"
  have pc: "providerChat env name model s = (?s, ce_chat env name model (length (ch_calls s)))" by (simp add: providerChat_def)
  consider "s1 = ?s" | "retryLoop (providerChat env name model) cfg cancel n (Suc k) ?s = (s1, res)"
    using Suc.prems pc by (auto split: sum.splits if_splits)
  then show ?case
  proof cases
    case 1
    then show ?thesis by (intro exI [of _ 0]) simp
  next
    case 2
    from Suc.IH [OF this] obtain m where "m \<le> n" "s1 = s\<lparr>ch_calls := ch_calls s @ name # replicate (Suc m) name\<rparr>" by auto
    then show ?thesis by (intro exI [of _ "Suc m"]) simp
  qed
qed

lemma chatFn_calls:
  assumes "chatFn env cfg d name req s = (s1, res)"
  obtains m where "s1 = s\<lparr>ch_calls := ch_calls s @ replicate (Suc m) name\<rparr>" "rd_Backend d = LocalBackend \<longrightarrow> m = 0" "m \<le> nat (rt_MaxRetries (fc_Retry cfg))"
proof (cases "rd_Backend d = LocalBackend \<or> rt_MaxRetries (fc_Retry cfg) \<le> 0")
  case True
  then show ?thesis using assms that [of 0] by (auto simp: chatFn_def RetryChat_def providerChat_def split: if_splits)
next
  case False
  then show ?thesis using assms that by (auto simp: chatFn_def RetryChat_def dest!: retryLoop_calls)
qed

text \<open>What a handler step leaves alone.\<close>

definition accounts :: "'c ChatServer \<Rightarrow> 'c Engine \<times> Tracker option \<times> BudgetStore option \<times> LatencyTracker option" where
  "accounts s = (ch_engine s, ch_tracker s, ch_budgets s, ch_latency s)"

lemma store_frame [simp]:
  "accounts (storeExact env now k r s) = accounts s" "accounts (storeSemantic env now sk m r s) = accounts s"
  "ch_calls (storeExact env now k r s) = ch_calls s" "ch_calls (storeSemantic env now sk m r s) = ch_calls s"
  "ch_overflow (storeExact env now k r s) = ch_overflow s" "ch_overflow (storeSemantic env now sk m r s) = ch_overflow s"
  "ch_cache (storeSemantic env now sk m r s) = ch_cache s"
  by (auto simp: accounts_def storeExact_def storeSemantic_def split: option.splits)

lemma lookup_frame:
  assumes "lookupCaches env req tenant s = (s0, res)"
  shows "accounts s0 = accounts s" "ch_calls s0 = ch_calls s" "ch_coalescing s0 = ch_coalescing s" "ch_overflow s0 = ch_overflow s"
    "ch_cache s0 = fst (ocache_Get (ce_start env) (cacheKeyOf env req tenant s) (ch_cache s))"
  using assms by (auto simp: lookupCaches_def accounts_def Let_def split: prod.splits option.splits if_splits)

lemma lookup_miss:
  assumes "lookupCaches env req tenant s = (s0, None)"
  shows "ocache_Get (ce_start env) (cacheKeyOf env req tenant s) (ch_cache s) = (ch_cache s0, None)"
  using assms by (auto simp: lookupCaches_def Let_def split: prod.splits option.splits if_splits)

lemma overflow_calls:
  "\<exists>cs. ch_calls (fst (cloudOverflow env cfg req key n e s)) = ch_calls s @ cs"
proof -
  have [simp]: "ch_calls (fst (strategyChoice env cfg b s)) = ch_calls s" for b
    by (auto simp: strategyChoice_def Let_def split: option.splits prod.splits)
  have [simp]: "ch_calls (fst (resolveCloudProvider env cfg t r s)) = ch_calls s" for t r
    using \<open>\<And>b. ch_calls (fst (strategyChoice env cfg b s)) = ch_calls s\<close> [of "cloudTarget cfg t"]
    by (auto simp: resolveCloudProvider_def split: option.splits prod.splits)
  have o1: "ch_calls (overflowAnswer env cfg name r k i a s') = ch_calls s'" for name r k i a s'
    by (auto simp: overflowAnswer_def billRequest_def noteLatency_def Let_def split: option.splits prod.splits)
  show ?thesis
  proof (cases "\<not> oc_Enabled (fc_Overflow cfg) \<or> ceilingBlocked (ce_day env) (ce_failed env) (oc_CostCeiling (fc_Overflow cfg)) (ch_overflow s)
      \<or> multimodalDivertDecision cfg req = None")
    case False
    then obtain req1 t where "multimodalDivertDecision cfg req = Some (req1, t)" by auto
    moreover obtain s1 req2 ch where r: "resolveCloudProvider env cfg t req1 s = (s1, req2, ch)" by (metis prod_cases3)
    moreover have "ch_calls s1 = ch_calls s" using r \<open>ch_calls (fst (resolveCloudProvider env cfg t req1 s)) = ch_calls s\<close> by simp
    ultimately show ?thesis
      using False by (cases ch) (auto simp: cloudOverflow_def providerChat_def o1 split: sum.splits)
  qed (auto simp: cloudOverflow_def)
qed

lemma directFetch_calls:
  "\<exists>cs. ch_calls (fst (directFetch env cfg d name req key sk n s)) = ch_calls s @ name # cs"
proof -
  obtain s1 res where c: "chatFn env cfg d name req s = (s1, res)" by fastforce
  then obtain m where m: "s1 = s\<lparr>ch_calls := ch_calls s @ replicate (Suc m) name\<rparr>" by (rule chatFn_calls)
  have b: "ch_calls (billRequest env cfg x y i j z) = ch_calls z" for x y i j z
    by (auto simp: billRequest_def split: option.splits prod.splits)
  show ?thesis
  proof (cases res)
    case (Inl e)
    show ?thesis
      using c m Inl overflow_calls [of env cfg req key n e "noteOutcome env (ce_failed env) d False s1"] overflow_calls [of env cfg req key n e s1]
      by (auto simp: directFetch_def noteOutcome_def Let_def)
  next
    case (Inr r)
    then show ?thesis using c m by (auto simp: directFetch_def noteOutcome_def noteLatency_def b Let_def)
  qed
qed

section \<open>Answers and accounts\<close>

text \<open>
  C11. A coalesced fetch is never accounted: with the exact cache and the coalescer on, a request that misses and whose call succeeds with an answer worth caching is
  answered as a cache hit, to the caller that made the call as well.  Breakers, latency tracker, cost tracker and budgets are what they were before the call, although the
  provider was called.
\<close>
theorem coalesced_fetch_unbilled:
  assumes "ch_cache s = Some c" "cache_fits b c" and "ch_coalescing s" "ce_key env req tenant \<noteq> ''''"
    and "lookupCaches env req tenant s = (s0, None)" and "chatFn env cfg d name req s0 = (s1, Inr r)"
    and "cacheWorthyChatResponse r" "ce_marshal env r = Some b"
  shows "\<exists>s2 m. handleNonStreamChat env cfg d name req tenant n s = (s2, CacheHit b) \<and> accounts s2 = accounts s \<and>
    ch_calls s2 = ch_calls s @ replicate (Suc m) name"
proof -
  have key: "cacheKeyOf env req tenant s = ce_key env req tenant" using assms(1) by (simp add: cacheKeyOf_def)
  let ?k = "ce_key env req tenant" and ?sk = "semanticKeyOf env req s"
  obtain c0 where c0: "ch_cache s0 = Some c0" "cache_fits b c0"
    using lookup_miss [OF assms(5)] assms(1,2) key by (metis ocache_Get_fits)
  obtain m where m: "s1 = s0\<lparr>ch_calls := ch_calls s0 @ replicate (Suc m) name\<rparr>" by (rule chatFn_calls [OF assms(6)])
  let ?s = "leaderFetch env cfg d name req ?k ?sk s0"
  have f: "accounts ?s = accounts s" "ch_calls ?s = ch_calls s @ replicate (Suc m) name"
    using assms(6) m lookup_frame [OF assms(5)] by (simp_all add: leaderFetch_def) (auto simp: accounts_def)
  have c: "ch_cache ?s = Some (cache_Set (ce_fetched env) ?k b c0)"
    using assms(4,6-8) m c0(1) by (simp add: leaderFetch_def storeExact_def ocache_Set_def)
  have "snd (cache_Get (ce_fetched env) ?k (cache_Set (ce_fetched env) ?k b c0)) = Some b"
    using c0(2) by (intro cache_Set_Get) (simp_all add: cache_fits_def)
  then obtain c2 where g: "ocache_Get (ce_fetched env) ?k (ch_cache ?s) = (c2, Some b)"
    unfolding c by (simp add: ocache_Get_def case_prod_beta)
  have "handleNonStreamChat env cfg d name req tenant n s = (?s\<lparr>ch_cache := c2\<rparr>, CacheHit b)"
    using assms(3-5) lookup_frame(3) [OF assms(5)] g by (simp add: handleNonStreamChat_def afterCoalesce_def key Let_def)
  then show ?thesis using f by (auto simp: accounts_def)
qed

text \<open>
  A failed or empty answer is fetched twice: with the coalescer on, the provider of a request whose first call fails, or returns nothing worth caching, is called a
  second time by the same request, also on the local backend, where the handler means to call once.
\<close>
theorem unpublished_fetch_repeats:
  assumes "ocache_ok (ch_cache s)" "ch_cache s \<noteq> None" and "ch_coalescing s" "ce_key env req tenant \<noteq> ''''"
    and "lookupCaches env req tenant s = (s0, None)" and "chatFn env cfg d name req s0 = (s1, res)"
    and "\<forall>r. res = Inr r \<longrightarrow> \<not> cacheWorthyChatResponse r"
  shows "\<exists>m cs. ch_calls (fst (handleNonStreamChat env cfg d name req tenant n s)) = ch_calls s @ replicate (Suc m) name @ name # cs"
proof -
  have key: "cacheKeyOf env req tenant s = ce_key env req tenant" using assms(2) by (auto simp: cacheKeyOf_def)
  let ?k = "ce_key env req tenant" and ?sk = "semanticKeyOf env req s"
  obtain m where m: "s1 = s0\<lparr>ch_calls := ch_calls s0 @ replicate (Suc m) name\<rparr>" by (rule chatFn_calls [OF assms(6)])
  have leader: "leaderFetch env cfg d name req ?k ?sk s0 = s1" using assms(6,7) by (auto simp: leaderFetch_def split: sum.splits)
  note miss = lookup_miss [OF assms(5), unfolded key]
  have "ocache_absent ?k (ch_cache s1)" "ocache_ok (ch_cache s1)"
    using ocache_miss_absent [OF assms(1) miss] ocache_ops(1) [OF assms(1), of "ce_start env" ?k] miss m by simp_all
  then obtain c2 where "ocache_Get (ce_fetched env) ?k (ch_cache s1) = (c2, None)" using ocache_Get_absent by (metis prod.collapse)
  then have "handleNonStreamChat env cfg d name req tenant n s = directFetch env cfg d name req ?k ?sk n (s1\<lparr>ch_cache := c2\<rparr>)"
    using assms(3-5) lookup_frame(3) [OF assms(5)] leader by (simp add: handleNonStreamChat_def afterCoalesce_def key Let_def)
  then show ?thesis using directFetch_calls [of env cfg d name req ?k ?sk n "s1\<lparr>ch_cache := c2\<rparr>"] m lookup_frame(2) [OF assms(5)] by auto
qed

section \<open>Overflow is fail-closed\<close>

text \<open>
  C12. On the non-stream path the overflow policy is fail-closed: while it is off, or while the spend of the day has reached the ceiling, \<^verbatim>\<open>handleNonStreamChat\<close> calls no provider but
  the one it was started with and charges nothing to the overflow counter.  The cool-down divert, which runs before it, and the stream path are not covered; the lemma
  \<open>diverts_ignore_ceiling\<close> below shows that both leave the local backend without looking at the ceiling.
\<close>
theorem overflow_fail_closed:
  assumes "\<not> oc_Enabled (fc_Overflow cfg) \<or>
      0 < oc_CostCeiling (fc_Overflow cfg) \<and> ov_day (ch_overflow s) = ce_day env (ce_failed env) \<and> oc_CostCeiling (fc_Overflow cfg) \<le> ov_dayCost (ch_overflow s)"
  shows "set (ch_calls (fst (handleNonStreamChat env cfg d name req tenant n s))) \<subseteq> insert name (set (ch_calls s)) \<and>
    ch_overflow (fst (handleNonStreamChat env cfg d name req tenant n s)) = ch_overflow s"
proof -
  define ok where "ok s' \<longleftrightarrow> set (ch_calls s') \<subseteq> insert name (set (ch_calls s)) \<and> ch_overflow s' = ch_overflow s" for s' :: "'a ChatServer"
  have fn: "ok s'" if "chatFn env cfg d name req s1 = (s', res)" "ok s1" for s' s1 res
    using that(2) by (rule_tac chatFn_calls [OF that(1)]) (auto simp: ok_def)
  have bill: "ok (billRequest env cfg x y i j s') = ok s'" for x y i j s'
    by (auto simp: ok_def billRequest_def split: option.splits prod.splits)
  have over: "fst (cloudOverflow env cfg req k n e s') = s'" if "ok s'" for k e s'
    using assms that by (auto simp: ok_def cloudOverflow_def ceilingBlocked_def)
  have frame: "ok (s'\<lparr>ch_cache := x\<rparr>) = ok s'" "ok (noteOutcome env t d y s') = ok s'" "ok (noteLatency env name s') = ok s'"
    "ok (storeExact env t k r s') = ok s'" "ok (storeSemantic env t sk z r s') = ok s'" for s' t k sk x y z r
    by (simp_all add: ok_def noteOutcome_def noteLatency_def)
  have direct: "ok (fst (directFetch env cfg d name req k sk n s'))" if "ok s'" for k sk s'
  proof -
    obtain s1 res where c: "chatFn env cfg d name req s' = (s1, res)" by fastforce
    have "ok s1" using fn [OF c that] .
    moreover have "ok (noteOutcome env (ce_failed env) d False s1)" using \<open>ok s1\<close> by (simp add: frame)
    ultimately show ?thesis using c by (cases res) (auto simp: directFetch_def Let_def over frame bill)
  qed
  obtain s0 res where l: "lookupCaches env req tenant s = (s0, res)" by fastforce
  have "ok s0" using lookup_frame [OF l] by (auto simp: ok_def)
  moreover have "ok (leaderFetch env cfg d name req k sk s0)" for k sk
    using fn [OF _ \<open>ok s0\<close>] by (auto simp: leaderFetch_def frame split: prod.splits sum.splits)
  ultimately have "ok (fst (handleNonStreamChat env cfg d name req tenant n s))"
    using l direct by (auto simp: handleNonStreamChat_def afterCoalesce_def Let_def frame split: option.splits prod.splits)
  then show ?thesis by (simp add: ok_def)
qed

text \<open>
  The two diverts that do not ask the policy.  While the cool-down armed by an earlier overflow lasts, a text request decided for the local backend is sent to the cloud whatever the
  day has cost already; and a stream that finds the local slots full is sent to a cloud provider even while the overflow policy is off.
\<close>
lemma diverts_ignore_ceiling:
  assumes "\<not> chatRequestHasImage (crq_Messages req)" "rd_Backend d = LocalBackend"
  shows "oc_Enabled (fc_Overflow cfg) \<Longrightarrow> 0 < oc_Cooldown (fc_Overflow cfg) \<Longrightarrow> cooldownActive now (ch_overflow s) \<Longrightarrow>
      ceilingBlocked day now (oc_CostCeiling (fc_Overflow cfg)) (ch_overflow s) \<Longrightarrow>
      rd_Backend (snd (cooldownDivert cfg now req d s)) = CloudBackend"
    and "ch_strategy s = None \<Longrightarrow> map_of (fc_Pool cfg) (cloudTarget cfg None) = Some cloud \<Longrightarrow> \<not> oc_Enabled (fc_Overflow cfg) \<Longrightarrow>
      \<exists>req'. slotFullStream env cfg req s = (s, Some (req', CloudProvider cloud))"
  using assms by (auto simp: cooldownDivert_def slotFullStream_def multimodalDivertDecision_def resolveCloudProvider_def strategyChoice_def decision_def Let_def)

text \<open>
  The switch to the cloud does not look at the backends of the key: a request routed to the local backend is answered by the cloud although its key may not use it.
\<close>
theorem overflow_ignores_backend_access:
  assumes "\<not> CheckBackendAccess (ce_ctx env) ''cloud''" and "ch_cache s = None" "ch_semantic s = None" "ch_strategy s = None" and "rd_Backend d = LocalBackend"
    and "ce_chat env name (crq_Model req) (length (ch_calls s)) = Inl e" and "oc_Enabled (fc_Overflow cfg)" "oc_CostCeiling (fc_Overflow cfg) \<le> 0"
    and "\<not> chatRequestHasImage (crq_Messages req)" and "map_of (fc_Pool cfg) (cloudTarget cfg None) = Some cloud"
    and "ce_chat env cloud (applyCloudModelMapping cfg (crq_Model req)) (Suc (length (ch_calls s))) = Inr r"
  shows "snd (handleNonStreamChat env cfg d name req tenant n s) = Answered cloud r"
proof -
  have l: "lookupCaches env req tenant s = (s, None)" and k: "cacheKeyOf env req tenant s = ''''"
    using assms(2,3) by (auto simp: lookupCaches_def cacheKeyOf_def ocache_Get_def semanticKeyOf_def semanticCachePrompt_def Let_def split: prod.splits)
  show ?thesis
    using assms l k
    by (simp add: handleNonStreamChat_def directFetch_def chatFn_def providerChat_def cloudOverflow_def ceilingBlocked_def multimodalDivertDecision_def
        resolveCloudProvider_def strategyChoice_def noteOutcome_def Let_def)
qed

text \<open>
  The semantic cache has no tenant: an answer stored for one tenant is the answer of any other tenant that sends the same text for the same model within the lifetime.
\<close>
lemma semantic_crosses_tenants:
  assumes "ch_semantic s = Some sc" "embeds_ok (ce_embed env) sc" "sem_threshold sc \<le> 1" "ce_start env' - ce_end env \<le> sem_ttl sc"
    and "semanticKeyOf env req s = \<lparr>sk_Payload = p, sk_SystemHash = h\<rparr>" "p \<noteq> ''''" "ce_embed env p = Some v" "vec_dot v v \<noteq> 0" and "ce_marshal env r = Some b"
    and "ce_embed env' = ce_embed env" "ce_sha env' = ce_sha env" "\<not> ce_noStore env'"
    and "ch_cache s = None"
  shows "snd (handleNonStreamChat env' cfg d name req tenant' n (storeSemantic env (ce_end env) (semanticKeyOf env req s) (crq_Model req) r s)) = SemanticHit b"
proof -
  let ?s = "storeSemantic env (ce_end env) (semanticKeyOf env req s) (crq_Model req) r s"
  have sem: "ch_semantic ?s = semantic_Store (ce_embed env) (ce_embedIt env) (ce_end env) p h (crq_Model req) b (Some sc)"
    using assms(1,5,6,9) by (simp add: storeSemantic_def)
  then have some: "ch_semantic ?s \<noteq> None" by (auto simp: semantic_Store_def split: prod.splits option.splits)
  have "\<not> ce_noStore env" using assms(5,6) by (auto simp: semanticKeyOf_def)
  then have k: "semanticKeyOf env' req ?s = \<lparr>sk_Payload = p, sk_SystemHash = h\<rparr>"
    using assms(1,5,10-12) some by (auto simp: semanticKeyOf_def semanticCachePrompt_def Let_def split: prod.splits)
  have "snd (semantic_Search (ce_embed env') (ce_embedIt env') (ce_start env') p h (crq_Model req) (ch_semantic ?s)) = Some b"
    unfolding sem assms(10) by (rule semantic_repeat_hits [OF assms(2,7,8,3,4)])
  then obtain m where "semantic_Search (ce_embed env') (ce_embedIt env') (ce_start env') p h (crq_Model req) (ch_semantic ?s) = (m, Some b)"
    by (metis prod.collapse)
  then have "snd (lookupCaches env' req tenant' ?s) = Some (SemanticHit b)"
    using assms(6,13) by (simp add: lookupCaches_def ocache_Get_def k Let_def)
  then show ?thesis by (auto simp: handleNonStreamChat_def Let_def split: prod.splits)
qed

section \<open>Retries\<close>

lemma Contains_Nil [simp]: "Contains s '''' = True"
  by (cases s) simp_all

text \<open>
  A retry configuration that lists a status other than the four known ones makes every error retryable, because the text of such a status is empty.
\<close>
lemma unlisted_status_retries_all:
  assumes "code \<in> set codes" "code \<notin> {429, 500, 502, 503}"
  shows "isRetryableError e codes"
  using assms by (auto simp: isRetryableError_def statusCodeStr_def list_ex_iff Let_def intro!: bexI [of _ code])

text \<open>A call is made at most once more than the configured number of retries.\<close>

lemma stream_retry_calls:
  assumes "RetryStreamMessages cfg cancel (providerChat env name model) s = (s1, res)"
  shows "\<exists>m \<le> nat (rt_MaxRetries cfg). s1 = s\<lparr>ch_calls := ch_calls s @ replicate (Suc m) name\<rparr>"
proof (cases "rt_MaxRetries cfg \<le> 0")
  case True
  then show ?thesis using assms by (intro exI [of _ 0]) (auto simp: RetryStreamMessages_def providerChat_def)
next
  case False
  then show ?thesis using assms retryLoop_calls by (auto simp: RetryStreamMessages_def)
qed

text \<open>A wait is never longer than the configured maximum, whatever the jitter.\<close>

lemma backoff_bounded: "calculateBackoff jit tries initial mx \<le> (if mx \<le> 0 then 30 * second else mx)"
  by (simp add: calculateBackoff_def Let_def)

section \<open>A concrete server\<close>

definition chat_example_env :: "unit chat_env" where
  "chat_example_env =
     \<lparr>ce_start = 0, ce_fetched = 1, ce_failed = 1, ce_end = 2, ce_day = (\<lambda>t. ''today''),
      ce_chat = (\<lambda>name model i. if name = ''fusion-mlx'' \<and> model = ''broken'' then Inl (ChatError ''status 500'')
                                else Inr \<lparr>crp_Choices = [ObjectMessage False (Some ''hi'')], crp_CompletionTokens = 5\<rparr>),
      ce_cancel = (\<lambda>i. False), ce_marshal = (\<lambda>r. Some ''json''), ce_key = (\<lambda>req tenant. crq_Model req @ tenant), ce_sha = (\<lambda>s. ''sha''),
      ce_embed = (\<lambda>p. Some [1]), ce_embedIt = id, ce_noStore = False, ce_prices = id, ce_custom = None, ce_rnd = (\<lambda>n. 0), ce_selector = noSelector,
      ce_ctx = \<lparr>rc_Principal = Some ((newPrincipal RoleViewer)\<lparr>pr_KeyConfig := Some \<lparr>akc_Key = ''k'', akc_Name = ''n'', akc_AllowedBackends = [''local''],
        akc_AllowedModels = [], akc_ModelModules = [], akc_RPM = 0, akc_TPM = 0, akc_ExpiresAt = '''', akc_BudgetLimit = 0, akc_DailyBudgetLimit = 0,
        akc_TeamID = '''', akc_Scopes = []\<rparr>\<rparr>), rc_Tenant = ''t'', rc_CallerName = '''', rc_Lease = None, rc_LogKeyName = None\<rparr>\<rparr>"

definition chat_example_cfg :: chat_config where
  "chat_example_cfg =
     \<lparr>fc_Retry = \<lparr>rt_MaxRetries = 2, rt_InitialBackoff = second, rt_MaxBackoff = 30 * second, rt_RetryableStatusCodes = []\<rparr>,
      fc_Overflow = \<lparr>oc_Enabled = True, oc_Cooldown = 0, oc_CostCeiling = 0\<rparr>, fc_CloudDefault = ''openai'', fc_FallbackEnabled = False,
      fc_ModelMapping = None, fc_VlmBackend = '''', fc_VlmModel = '''', fc_MarkupEnabled = False, fc_GlobalMarkup = 0, fc_Pool = [(''openai'', ''openai'')]\<rparr>"

definition chat_example_server :: "Cache option \<Rightarrow> unit ChatServer" where
  "chat_example_server c =
     \<lparr>ch_engine = e_example, ch_cache = c, ch_semantic = None, ch_coalescing = True, ch_overflow = \<lparr>ov_until = 0, ov_day = '''', ov_dayCost = 0\<rparr>,
      ch_tracker = Some (NewTracker 0), ch_budgets = None, ch_latency = None, ch_strategy = None, ch_calls = []\<rparr>"

definition chat_example_req :: "string \<Rightarrow> ChatRequest" where
  "chat_example_req m = \<lparr>crq_Model = m, crq_Messages = [\<lparr>msg_Role = ''user'', msg_Content = TextContent ''hello''\<rparr>], crq_Tools = False\<rparr>"

lemmas chat_example_defs = chat_example_env_def chat_example_cfg_def chat_example_server_def chat_example_req_def

lemma cache_example_fits: "cache_fits ''json'' cache_example"
  by (simp add: cache_fits_def cache_example_def cache_inv_def abs_entries_def)

lemma chat_example_miss:
  "lookupCaches chat_example_env (chat_example_req m) ''t'' (chat_example_server (Some cache_example)) =
   (chat_example_server (Some (cache_example\<lparr>c_misses := 1\<rparr>)), None)"
  by (simp add: lookupCaches_def chat_example_defs cacheKeyOf_def semanticKeyOf_def semanticCachePrompt_def ocache_Get_def cache_Get_def cache_Get_read_def
      cache_Get_finish_def cache_example_def Let_def)

theorem coalesced_fetch_unbilled_witness:
  "\<exists>s2 m. handleNonStreamChat chat_example_env chat_example_cfg (decision LocalBackend ''r'') ''fusion-mlx'' (chat_example_req ''m'') ''t'' 7
      (chat_example_server (Some cache_example)) = (s2, CacheHit ''json'') \<and>
    accounts s2 = accounts (chat_example_server (Some cache_example)) \<and> ch_calls s2 = replicate (Suc m) ''fusion-mlx''"
proof -
  have c: "chatFn chat_example_env chat_example_cfg (decision LocalBackend ''r'') ''fusion-mlx'' (chat_example_req ''m'')
      (chat_example_server (Some (cache_example\<lparr>c_misses := 1\<rparr>))) =
    (chat_example_server (Some (cache_example\<lparr>c_misses := 1\<rparr>))\<lparr>ch_calls := [''fusion-mlx'']\<rparr>,
     Inr \<lparr>crp_Choices = [ObjectMessage False (Some ''hi'')], crp_CompletionTokens = 5\<rparr>)"
    by (simp add: chatFn_def providerChat_def decision_def chat_example_defs)
  show ?thesis
    using coalesced_fetch_unbilled [OF _ cache_example_fits _ _ chat_example_miss c, of 7]
    by (simp add: chat_example_defs cacheWorthyChatResponse_def)
qed

theorem unpublished_fetch_repeats_witness:
  "\<exists>m cs. ch_calls (fst (handleNonStreamChat chat_example_env chat_example_cfg (decision LocalBackend ''r'') ''fusion-mlx'' (chat_example_req ''broken'') ''t'' 7
      (chat_example_server (Some cache_example)))) = replicate (Suc m) ''fusion-mlx'' @ ''fusion-mlx'' # cs"
proof -
  have c: "chatFn chat_example_env chat_example_cfg (decision LocalBackend ''r'') ''fusion-mlx'' (chat_example_req ''broken'')
      (chat_example_server (Some (cache_example\<lparr>c_misses := 1\<rparr>))) =
    (chat_example_server (Some (cache_example\<lparr>c_misses := 1\<rparr>))\<lparr>ch_calls := [''fusion-mlx'']\<rparr>, Inl (ChatError ''status 500''))"
    by (simp add: chatFn_def providerChat_def decision_def chat_example_defs)
  have ok: "ocache_ok (ch_cache (chat_example_server (Some cache_example)))" using cache_example_fits
    by (simp add: chat_example_server_def ocache_ok_def cache_fits_def)
  show ?thesis
    using unpublished_fetch_repeats [OF ok _ _ _ chat_example_miss c, of 7] by (simp add: chat_example_defs)
qed

theorem overflow_fail_closed_witness:
  "set (ch_calls (fst (handleNonStreamChat chat_example_env (chat_example_cfg\<lparr>fc_Overflow := \<lparr>oc_Enabled = True, oc_Cooldown = 0, oc_CostCeiling = 1\<rparr>\<rparr>)
      (decision LocalBackend ''r'') ''fusion-mlx'' (chat_example_req ''broken'') ''t'' 7
      (chat_example_server None\<lparr>ch_overflow := \<lparr>ov_until = 0, ov_day = ''today'', ov_dayCost = 2\<rparr>\<rparr>)))) \<subseteq> {''fusion-mlx''}"
  using overflow_fail_closed [of "chat_example_cfg\<lparr>fc_Overflow := \<lparr>oc_Enabled = True, oc_Cooldown = 0, oc_CostCeiling = 1\<rparr>\<rparr>"
      "chat_example_server None\<lparr>ch_overflow := \<lparr>ov_until = 0, ov_day = ''today'', ov_dayCost = 2\<rparr>\<rparr>" chat_example_env "decision LocalBackend ''r''" "''fusion-mlx''"
      "chat_example_req ''broken''" "''t''" 7]
  by (simp add: chat_example_env_def chat_example_server_def)

end
