(* ===== verification/Spec2Isabelle.thy ===== *)
theory Spec2Isabelle
  imports Circuit_Breaker Wait_Queues Latency_Tracker Session_Affinity Cloud_Strategy
    Rate_Limiter Response_Cache Cache_Backends Stream_Buffer Browser_Framing Cluster_Discovery Engine_Routing Engine_Cluster Engine_Reload
    Browser_Nodes Browser_Proxy Model_Policy Try_Quota Request_Chain Master_Pool Embedding_Shards Anthropic_Protocol
    Model_Identity Config_Loading Shell_Gateway Cost_Tracker Heuristic_Classifier Coalescer Chat_Fetch
begin

text \<open>
  \<^bold>\<open>Fusion Gateway.\<close>

  The gateway is an OpenAI-compatible proxy that authenticates each request, charges it against budgets and sends it to a local
  model server, to a cloud provider, to a node of a cluster or to a node of the browser plane.  This development models its
  decision logic and its stores: the Go sources are under \<^verbatim>\<open>src/internal\<close>, the reload callback in \<^verbatim>\<open>src/cmd/gateway/main.go\<close>.

  \<^bold>\<open>How the parts interact.\<close>  A request enters through \<^verbatim>\<open>Server.withMiddleware\<close>, which runs the cached middleware chain: key
  authentication against the key and team stores, the identity control plane, OIDC, roles, scopes, content filter, budget gate, rate
  limiter and token quota.  The handler asks \<^verbatim>\<open>Engine.Decide\<close> for a backend, looks into the exact and the semantic cache, and fetches at
  most once per key at a time.  Decide takes a snapshot of
  the wiring, classifies the request, runs the rule chain under the engine lock, applies the trips the rules asked for and only then
  reserves admission at the local breaker; it reaches the cluster through the selector interface.  The wait queues bound the local
  concurrency.  Streams go through the stream buffer so that a client can resume them.  At the end the server records the outcome with
  the engine (breakers, node flags, cooldowns) and charges key and team.  A configuration reload drains the queues, rebuilds them and the
  breakers from snapshots of the old ones, and rebuilds the chain.

  \<^bold>\<open>Theories and the sources they model.\<close>
  \<^item> \<open>Gateway_Prelude\<close>: time and float types, runs of an operation over a sequence of events (locales \<open>step_system\<close> and
    \<open>timed_system\<close>), Go maps as partial maps, Go string functions, the first-decision combinator of the rule chain and
    the property collections.
  \<^item> \<open>Circuit_Breaker\<close>: \<^verbatim>\<open>router/circuit_breaker.go\<close>.  The record \<open>CircuitBreaker\<close> has the fields of the struct; each method is
    one atomic step (\<open>cb_Admit\<close>, \<open>cb_RecordFailure\<close>, ...), as it runs under the breaker's mutex.
  \<^item> \<open>Wait_Queues\<close>: \<^verbatim>\<open>router/queue.go\<close> and \<^verbatim>\<open>router/tier_queue.go\<close>.  Acquire is split where the code releases the mutex or
    blocks; the goroutines interleave by the step relations \<open>sq_step\<close> and \<open>tq_step\<close>.
  \<^item> \<open>Latency_Tracker\<close>: \<^verbatim>\<open>router/latency_tracker.go\<close>, with \<open>quickSelect\<close> over \<open>option\<close> where \<open>None\<close> is an index panic.
  \<^item> \<open>Session_Affinity\<close> and \<open>Cloud_Strategy\<close>: the files of \<^verbatim>\<open>router\<close> of the same names.
  \<^item> \<open>Cluster_Selector\<close>: the selector interface of the engine (\<^verbatim>\<open>ClusterSelector\<close> in \<^verbatim>\<open>router/engine.go\<close>) as a record of
    functions, with the locales \<open>cluster_selection\<close> (what a selection promises) and \<open>cluster_selector\<close> (what every
    operation keeps).  \<open>Cluster_Discovery\<close>: \<^verbatim>\<open>cluster/discovery.go\<close> and the node records of \<^verbatim>\<open>cluster/master_client.go\<close>; it
    interprets both locales on the model of the discovery.
  \<^item> \<open>Engine\<close>: \<^verbatim>\<open>router/engine.go\<close> and \<^verbatim>\<open>router/intent.go\<close>.  One definition per rule of \<^verbatim>\<open>decideLocked\<close>, in the order of
    the code (\<open>rule_chain\<close>), the admission tail (\<open>admitLocal\<close>), outcome recording, wiring and reload.
    \<open>Engine_Routing\<close>, \<open>Engine_Cluster\<close>, \<open>Engine_Reload\<close>: the properties of routing, of the engine running against the
    discovery with the whole effect a reload has on both (\<open>reload_engine\<close>), and of the engine's own reload.
  \<^item> \<open>Rate_Limiter\<close>: \<^verbatim>\<open>middleware/ratelimit.go\<close>.  \<open>Response_Cache\<close> and \<open>Cache_Backends\<close>: \<^verbatim>\<open>cache/cache.go\<close> and
    \<^verbatim>\<open>cache/backend.go\<close>.  \<open>Stream_Buffer\<close>: \<^verbatim>\<open>server/stream_buffer.go\<close> and \<^verbatim>\<open>server/stream_resume.go\<close>.
  \<^item> \<open>Browser_Framing\<close>, \<open>Browser_Nodes\<close>, \<open>Browser_Proxy\<close>: the frames, the registry and scheduler, and the client, session pins and
    handlers of \<^verbatim>\<open>browser\<close>.
  \<^item> \<open>Model_Policy\<close>: \<^verbatim>\<open>modelpolicy/policy.go\<close>.  \<open>Try_Quota\<close>: \<^verbatim>\<open>tryquota/tryquota.go\<close> and \<^verbatim>\<open>middleware/tryquota.go\<close>.
  \<^item> \<open>Principals\<close>: principals, roles, teams, scopes and access checks (\<^verbatim>\<open>middleware/principal.go\<close>, \<^verbatim>\<open>rbac.go\<close>, \<^verbatim>\<open>scope.go\<close>, the checks of
    \<^verbatim>\<open>auth.go\<close>).  A context is a record of the values the code stores in it; \<open>outer_view\<close> is what the context a stage was called with shows
    of the derived one.
  \<^item> \<open>Key_Store\<close>, \<open>Team_Store\<close>, \<open>Budgets\<close>: \<^verbatim>\<open>keys.go\<close>, \<^verbatim>\<open>teams.go\<close>, \<^verbatim>\<open>quota.go\<close>, \<^verbatim>\<open>persist.go\<close> and \<^verbatim>\<open>persist_debounce.go\<close> of
    \<^verbatim>\<open>store/memory\<close>, the gate \<^verbatim>\<open>middleware/budget.go\<close> and the charge in \<^verbatim>\<open>server/server.go\<close>.
  \<^item> \<open>Key_Auth\<close>: \<^verbatim>\<open>middleware/auth.go\<close> and \<^verbatim>\<open>server/userkeys.go\<close>.  The locale \<open>key_lookup\<close> is what authentication relies on; it is
    interpreted on the key store.
  \<^item> \<open>Identity_Plane\<close>: \<^verbatim>\<open>identity/client.go\<close> with its breaker and \<^verbatim>\<open>middleware/identity_auth.go\<close>.
  \<^item> \<open>Request_Chain\<close>: \<^verbatim>\<open>middleware/oidc.go\<close>, the chain, its wrapper and its rebuild in \<^verbatim>\<open>server/server.go\<close>, and the admin gates of
    \<^verbatim>\<open>server/admin_handlers.go\<close>.  Identity clients live in a heap because the chain keeps the address it was built with.
  \<^item> \<open>Master_Pool\<close> and \<open>Embedding_Shards\<close>: \<^verbatim>\<open>cluster/master_pool.go\<close> and \<^verbatim>\<open>cluster/shard.go\<close>.  The goroutines of a sharded
    embedding interleave by a step relation.
  \<^item> \<open>Anthropic_Bridge\<close> and \<open>Anthropic_Protocol\<close>: \<^verbatim>\<open>server/anthropic_openai_bridge.go\<close>, the translation of an OpenAI stream into
    Anthropic events, and the automaton of the event protocol it is checked against.
  \<^item> \<open>Model_Identity\<close>: the names of \<^verbatim>\<open>config/models_config.go\<close> and the resolution of \<^verbatim>\<open>server/model_identity.go\<close>, in front of the engine.
  \<^item> \<open>Config_Loading\<close>: Load, Reload and the start guard of \<^verbatim>\<open>config/config.go\<close>, \<^verbatim>\<open>config/guard.go\<close> and \<^verbatim>\<open>config/models_raw.go\<close>.  The disk is
    a map from paths to contents.
  \<^item> The web shell: \<open>Shell_Sessions\<close> (\<^verbatim>\<open>shell/session.go\<close>), \<open>Audit_Trail\<close> (\<^verbatim>\<open>shell/audit.go\<close>), \<open>Shell_Stores\<close> (accounts, roles and menus:
    \<^verbatim>\<open>shell/users.go\<close>, \<^verbatim>\<open>shell/roles.go\<close>), \<open>Shell_Accounts\<close> (the gates and handlers of \<^verbatim>\<open>server/shell_users.go\<close> and the session, role
    and menu part of \<^verbatim>\<open>server/shell.go\<close> and \<^verbatim>\<open>server/shell_admin.go\<close>), \<open>Shell_Registry\<close> and \<open>Shell_Keys\<close> (\<^verbatim>\<open>shell/manifest.go\<close>,
    \<^verbatim>\<open>shell/servicekeys.go\<close> and their properties), \<open>Shell_Gateway\<close> (the manifest routes of \<^verbatim>\<open>server/shell.go\<close>, \<^verbatim>\<open>shell/proxy.go\<close>).
    A handler maps the shell state to the new state and an answer; a store file is its decoded content and may be missing, unreadable or corrupt.
  \<^item> \<open>Cost_Tracker\<close>: \<^verbatim>\<open>cost/pricing.go\<close>, \<^verbatim>\<open>cost/custom_pricing.go\<close>, \<^verbatim>\<open>cost/tracker.go\<close> and \<^verbatim>\<open>store/memory/cost.go\<close>.
    \<open>Heuristic_Classifier\<close>: \<^verbatim>\<open>router/heuristic_classifier.go\<close> with its cache.
  \<^item> \<open>Semantic_Cache\<close>: \<^verbatim>\<open>cache/semantic.go\<close> and the key in \<^verbatim>\<open>server/semantic_cache.go\<close>.  \<open>Coalescer\<close>: \<^verbatim>\<open>server/coalescer.go\<close>, whose callers
    interleave by the step relation \<open>co_step\<close>.  \<open>Chat_Fetch\<close>: \<^verbatim>\<open>handleNonStreamChat\<close> with the provider choice of \<^verbatim>\<open>server/chat_handlers.go\<close>,
    \<^verbatim>\<open>middleware/retry.go\<close> and \<^verbatim>\<open>server/overflow.go\<close>; it composes both caches, the engine, the cost tracker and the budgets.  A caller of the
    coalescer that leads its fetch is one run of the handler.

  \<^bold>\<open>What the lemmas show.\<close>
  \<^item> Breaker: a single half-open probe, opening at the threshold, refusal until the timeout, recovery.  Queues: slots are
    conserved and never exceed the capacity under every interleaving, no wakeup is lost, priority order with FIFO within a rank, exact waiter
    counts.  Trackers and strategies: exact percentile, sticky bindings, selections inside the candidates and optimal for their criterion.
  \<^item> Engine: a guard-blocked request reaches no backend, a local dispatch was admitted by the breaker, a local-exclusive model never
    leaves the local backend, a cluster dispatch names a healthy node with a closed breaker, failures of one node do not spread, and a
    reload keeps the trips.
  \<^item> Limiter and cache refine a log of granted requests and a bounded recency list.  A client that resumes a stream holds a prefix of the
    event log after every read of the replay, and all chunks when the replay ends, while the window reaches back to it; a stream is
    open to its owner only.  Browser frames round trip up to the reader's cap, the scheduler picks the least loaded eligible node, sessions
    are sticky under every interleaving of the operations and the registry.
  \<^item> Policies are respected in every resolution; the token quota is overrun by at most the number of requests a user has in flight times the
    tokens of the largest one.
  \<^item> Authentication: only valid credentials pass, in every history of the stores that does not reuse a deleted name; the lookup is exact; no request becomes an administrator in the
    chain unless configured; the admin gate is exact; references of the team store resolve, also after restarts
    from an outdated file.  Budgets: the gate refuses exactly when the
    ledger of charges reaches a limit.  Identity: the client stops asking in an outage.
  \<^item> Sharding: under every interleaving a sharded embedding ends, and its vectors are those of the inputs in their order.  Bridge: the events
    form a well-bracketed message, carry all the text and do not depend on how the bytes are split.  Loading: a start with a broken file
    falls back to the last good one, and the next start writes nothing.
  \<^item> Shell: a logout is final although the denylist is pruned, an issued session validates until its expiry; account requests handled one after
    another never remove the last enabled administrator; only keys the gateway issued to a module are accepted for it, in every history of the
    registry with any write failures; a forwarded request has a session or a key for its module; registrations survive a restart; the audit
    trail is intact up to its bound and shows edits.  Prices do not depend on the order of the price table.  The classifier's cache is
    transparent for model names without a colon.
  \<^item> Fetch: one fetch per key at a time and the coalescer drains, under every interleaving; the overflow of a non-stream request to the cloud is fail-closed; a hit of the
    semantic cache is as similar as the threshold demands and a repeated prompt is a hit; retries and waits are bounded.
  \<^item> Some theorems pin down behaviour that departs from the comments of the code: the bypassed node that never recovers, the
    silent browser node that stops the poll, the lost revocation, the reload that leaves a closed identity client in the chain, the lease that is never
    released, the quota limit that is not enforced, the replaced tenant, the model authorized but not served, the writer that starves,
    the qualified model id that bypasses the safety guard, the reload that keeps the ciphertext of a secret, the crash that makes a recovery fatal,
    the audit trail that reports itself as tampered beyond its bound, the demoted administrator that restores itself, the race for the last
    administrator, the revocation a second gateway undoes, the answering module that expires, the coalesced fetch that is never billed, the failed
    fetch that is repeated, the overflow that ignores the backends of the key, the diverts that ignore the cost ceiling, the reload that pairs an old socket
    with a new token, the semantic cache that crosses tenants.

  \<^bold>\<open>Modelling choices.\<close>
  \<^item> Instants and durations are \<open>int\<close> nanoseconds; an operation takes one \<open>now\<close>, and two where the code reads the clock again
    after waiting.  Where an operation calls back into the hardware or token monitor, one value per call of \<open>Decide\<close> is used.
  \<^item> \<^verbatim>\<open>float64\<close> ratios, scores and costs are \<open>rat\<close>, embeddings \<open>real\<close>; rounding is not modelled.  \<^verbatim>\<open>uint64\<close> values whose difference may wrap are
    \<open>64 word\<close>, frame lengths \<open>32 word\<close>.
  \<^item> The iteration order of a Go map is a parameter (\<open>it\<close>), and the theorems hold for every order.
  \<^item> Parameters stand for code outside the repository and for I/O: classifiers, HTTP answers of nodes and of the master, the hardware monitor,
    the digest function, time and date formats, the JWT library, the gRPC stub, the tokens of a JSON body, and the
    YAML and JSON decoders, bcrypt, HMAC and random strings, \<^verbatim>\<open>url.Parse\<close>, and regular expressions.  What is assumed of them is a
    hypothesis of the theorem (days are intervals, a closed connection fails) and is met in its witness.
  \<^item> A selection result of \<open>None\<close> in the selector interface stands for an error; a panic of the selection is folded into it and excluded by
    \<open>sel_result_exact\<close>; a panic of a middleware is the answer \<open>Panics\<close>.
  \<^item> No definition uses fuel: every loop of the modelled code is structural recursion or carries a termination proof.

  \<^bold>\<open>Not modelled.\<close>  Logging, metrics export and goroutine lifecycle (Start, Stop, restart loops); the other inference handlers, provider
  adapters and the admin interface, which are I/O around the core; content filters, which are regular expressions over message text;
  Redis and Postgres stores; generated protobuf code; token counting, which is a third-party library; the YAML decoder and
  the single rules of configuration validation; of the shell the single sign-on, the vault, the connectors and the configuration overrides, and the
  texts of its error envelopes.

  \<^bold>\<open>Plan.\<close>  Next in order: the vault, connectors and configuration overrides of \<^verbatim>\<open>shell\<close>, channels and batches of the stores, the rules of
  configuration validation, the streaming handlers.
\<close>

section \<open>Draining before a reload\<close>

text \<open>One poll of the drain loop: instant, in-flight count, and the two queues it asks for their waiters.\<close>

definition drain_poll :: "time \<times> int \<times> sq_sys \<times> tq_sys \<Rightarrow> time \<times> int \<times> int" where
  "drain_poll = (\<lambda>(t, inFlight, q, tq). (t, inFlight, sq_Waiters (sys_q q) + tq_WaitersTotal (tsys_q tq)))"

text \<open>Two polls of idle queues: one request is still in flight at the first, none at the second.\<close>

definition drain_example :: "(time \<times> int \<times> sq_sys \<times> tq_sys) list" where
  "drain_example = (let q = \<lparr>sys_q = newSlotQueue 2, sys_blocked = 0, sys_holders = 0\<rparr>;
       tq = \<lparr>tsys_q = NewTierQueue tq_example_cfg, tsys_pc = (\<lambda>_. PIdle)\<rparr>
     in [(5, 1, q, tq), (10, 0, q, tq)])"

text \<open>
  When the drain loop reports completion before its deadline, there was an instant before the deadline at which no
  request was in flight and no goroutine was parked in either wait queue, because the waiter counts both queues report are
  exact; so the queues are not swapped away under a waiting request.
\<close>

theorem drain_complete_means_no_waiters:
  assumes "\<forall>(t, f, q, tq) \<in> set polls. sq_reachable n q \<and> tq_reachable cfg tq"
    and "drainLoop deadline (map drain_poll polls)"
  shows "\<exists>t q tq. (t, 0, q, tq) \<in> set polls \<and> t < deadline \<and> sys_blocked q = 0 \<and> tq_parked tq = 0"
proof -
  obtain t x where x: "x \<in> set polls" "drain_poll x = (t, 0, 0)" "t < deadline"
    using drainLoop_observed [OF assms(2)] by (metis imageE set_map)
  obtain q tq where q: "x = (t, 0, q, tq)" "sq_Waiters (sys_q q) + tq_WaitersTotal (tsys_q tq) = 0"
    using x(2) by (cases x) (simp add: drain_poll_def)
  have "sq_reachable n q" "tq_reachable cfg tq" using assms(1) x(1) q(1) by auto
  then have "sq_Waiters (sys_q q) = int (sys_blocked q)" "tq_WaitersTotal (tsys_q tq) = int (tq_parked tq)"
    using slot_drain.reported_parked [of n q] tier_drain.reported_parked [of cfg tq] by simp_all
  with q(2) have "sys_blocked q = 0" "tq_parked tq = 0" by linarith+
  then show ?thesis using x q by blast
qed

theorem drain_complete_means_no_waiters_witness:
  "drainLoop 20 (map drain_poll drain_example) \<and>
   (\<exists>t q tq. (t, 0, q, tq) \<in> set drain_example \<and> t < 20 \<and> sys_blocked q = 0 \<and> tq_parked tq = 0)"
proof -
  have r: "\<forall>(t, f, q, tq) \<in> set drain_example. sq_reachable 2 q \<and> tq_reachable tq_example_cfg tq"
    by (auto simp: drain_example_def Let_def intro: sq_init tq_start)
  have d: "drainLoop 20 (map drain_poll drain_example)"
    by (simp add: drain_example_def Let_def drain_poll_def sq_Waiters_def newSlotQueue_def tq_WaitersTotal_def tq_example_new)
  show ?thesis using drain_complete_means_no_waiters [OF r d] d by blast
qed

end
